(* ===== verification/Prelude.thy ===== *)
theory Prelude
  imports Complex_Main "HOL-Library.Multiset"
begin

text \<open>
  What the components share: the collections of rewrite rules and definitions their proofs
  name, and the part of the Go language and standard library that the modelled code uses.

  \<^item> A Go \<open>string\<close> or \<open>[]byte\<close> is a \<^typ>\<open>string\<close>, that is a list of bytes. Case folding and
    white space (\<open>strings.ToLower\<close>, \<open>strings.EqualFold\<close>, \<open>strings.TrimSpace\<close>) are modelled on
    the ASCII range and leave the bytes from 128 on unchanged.
  \<^item> A Go \<open>int\<close> or \<open>int64\<close> is an \<^typ>\<open>int\<close>; the range of 64 bits is written out where the code
    can leave it (\<open>strconv.Atoi\<close>, \<open>strconv.ParseInt\<close>).
  \<^item> A floating-point number is a \<^typ>\<open>rat\<close>: arithmetic is exact, rounding is not modelled.
  \<^item> An instant (\<open>time.Time\<close>) and a \<open>time.Duration\<close> count nanoseconds, instants from the Unix
    epoch; the zero value of \<open>time.Time\<close> is \<open>zero_time\<close>.
  \<^item> A Go error is a value: a fallible function returns \<^typ>\<open>'e + 'a\<close>, with \<^const>\<open>Inl\<close> for the
    error.
\<close>

named_theorems go_simps \<open>characteristic equations of the Go library functions\<close>
named_theorems inv_defs \<open>unfolding of the invariants of the components\<close>
named_theorems step_defs \<open>unfolding of the operations of the components\<close>

subsection \<open>Numbers and instants\<close>

type_synonym Time = int
type_synonym Duration = int

definition second :: Duration where
  "second = 1000000000"

definition zero_time :: Time where
  "zero_time = - 62135596800 * second"

definition truncate_second :: "Time \<Rightarrow> Time" where
  "truncate_second t = t div second * second"

definition unix :: "Time \<Rightarrow> int" where
  "unix t = t div second"

definition unix_time :: "int \<Rightarrow> Time" where
  "unix_time s = s * second"

lemma unix_time_unix [simp]: "unix_time (unix t) = truncate_second t"
  by (simp add: unix_time_def unix_def truncate_second_def)

lemma unix_truncate [simp]: "unix (truncate_second t) = unix t"
  by (simp add: unix_def truncate_second_def second_def)

lemma truncate_second_idem [simp]: "truncate_second (truncate_second t) = truncate_second t"
  by (simp add: truncate_second_def second_def)

lemma truncate_second_zero: "truncate_second zero_time = zero_time"
  by (simp add: truncate_second_def zero_time_def second_def)

text \<open>Integer division of Go rounds towards zero.\<close>

definition go_div :: "int \<Rightarrow> int \<Rightarrow> int" where
  "go_div a b = sgn a * sgn b * (\<bar>a\<bar> div \<bar>b\<bar>)"

lemma go_div_nonneg: "0 \<le> a \<Longrightarrow> 0 < b \<Longrightarrow> go_div a b = a div b"
  by (cases "a = 0") (simp_all add: go_div_def)

lemma go_div_le: "0 < a \<Longrightarrow> 0 < b \<Longrightarrow> go_div a b \<le> a"
  using zdiv_mono2 [of a 1 b] by (simp add: go_div_nonneg)

subsection \<open>Bytes and case folding\<close>

abbreviation byte_of :: "char \<Rightarrow> nat" where
  "byte_of c \<equiv> of_char c"

lemma byte_of_less [simp]: "byte_of c < 256"
  by (metis char_of_char mod_less_divisor of_char_of zero_less_numeral)

lemma byte_of_eq_iff: "byte_of c = byte_of d \<longleftrightarrow> c = d"
  by simp

definition lower_byte :: "char \<Rightarrow> char" where
  "lower_byte c = (let n = byte_of c in if 65 \<le> n \<and> n \<le> 90 then char_of (n + 32) else c)"

definition to_lower :: "string \<Rightarrow> string" where
  "to_lower s = map lower_byte s"

definition equal_fold :: "string \<Rightarrow> string \<Rightarrow> bool" where
  "equal_fold s t \<longleftrightarrow> to_lower s = to_lower t"

lemma lower_byte_idem [simp]: "lower_byte (lower_byte c) = lower_byte c"
  by (auto simp: lower_byte_def Let_def)

lemma to_lower_idem [go_simps, simp]: "to_lower (to_lower s) = to_lower s"
  by (simp add: to_lower_def)

lemma to_lower_Nil [simp]: "to_lower s = [] \<longleftrightarrow> s = []" "to_lower [] = []"
  by (simp_all add: to_lower_def)

lemma equal_fold_refl [simp]: "equal_fold s s"
  by (simp add: equal_fold_def)

lemma equal_fold_sym: "equal_fold s t \<Longrightarrow> equal_fold t s"
  by (simp add: equal_fold_def)

lemma equal_fold_trans: "equal_fold s t \<Longrightarrow> equal_fold t u \<Longrightarrow> equal_fold s u"
  by (simp add: equal_fold_def)

lemma equal_fold_Nil [simp]: "equal_fold s [] \<longleftrightarrow> s = []" "equal_fold [] s \<longleftrightarrow> s = []"
  by (simp_all add: equal_fold_def to_lower_def)

text \<open>\<open>slices.ContainsFunc\<close> with \<open>strings.EqualFold\<close>, \<open>strings.HasPrefix\<close>,
  \<open>strings.CutPrefix\<close>.\<close>

definition has_prefix :: "string \<Rightarrow> string \<Rightarrow> bool" where
  "has_prefix s p \<longleftrightarrow> take (length p) s = p"

definition cut_prefix :: "string \<Rightarrow> string \<Rightarrow> string option" where
  "cut_prefix s p = (if has_prefix s p then Some (drop (length p) s) else None)"

lemma has_prefix_iff: "has_prefix s p \<longleftrightarrow> (\<exists>r. s = p @ r)"
  by (metis append_eq_conv_conj append_take_drop_id has_prefix_def)

lemma has_prefix_append [simp]: "has_prefix (p @ r) p"
  by (simp add: has_prefix_def)

lemma cut_prefix_Some: "cut_prefix s p = Some r \<longleftrightarrow> s = p @ r"
  by (auto simp: cut_prefix_def has_prefix_iff)

text \<open>\<open>strings.TrimSpace\<close> on ASCII white space.\<close>

definition is_space :: "char \<Rightarrow> bool" where
  "is_space c \<longleftrightarrow> byte_of c = 32 \<or> (9 \<le> byte_of c \<and> byte_of c \<le> 13)"

definition trim_space :: "string \<Rightarrow> string" where
  "trim_space s = rev (dropWhile is_space (rev (dropWhile is_space s)))"

subsection \<open>Splitting and joining\<close>

text \<open>\<open>strings.SplitN s sep 2\<close> for a one-byte separator: the text before and after the first
  occurrence, or \<^const>\<open>None\<close> when there is none (Go then returns a slice of length one).\<close>

fun split2 :: "char \<Rightarrow> string \<Rightarrow> (string \<times> string) option" where
  "split2 sep [] = None"
| "split2 sep (c # cs) =
     (if c = sep then Some ([], cs)
      else map_option (\<lambda>(a, b). (c # a, b)) (split2 sep cs))"

lemma split2_append [simp]: "sep \<notin> set a \<Longrightarrow> split2 sep (a @ sep # b) = Some (a, b)"
  by (induction a) auto

lemma split2_None [simp]: "split2 sep s = None \<longleftrightarrow> sep \<notin> set s"
  by (induction s) auto

lemma split2_SomeD: "split2 sep s = Some (a, b) \<Longrightarrow> s = a @ sep # b \<and> sep \<notin> set a"
  by (induction s arbitrary: a b) (auto split: if_splits)

text \<open>\<open>strings.Split\<close> for a one-byte separator, and \<open>strings.Join\<close>.\<close>

fun split_on :: "char \<Rightarrow> string \<Rightarrow> string list" where
  "split_on sep [] = [[]]"
| "split_on sep (c # cs) =
     (if c = sep then [] # split_on sep cs
      else (case split_on sep cs of [] \<Rightarrow> [[c]] | w # ws \<Rightarrow> (c # w) # ws))"

fun join :: "string \<Rightarrow> string list \<Rightarrow> string" where
  "join sep [] = []"
| "join sep [w] = w"
| "join sep (w # v # ws) = w @ sep @ join sep (v # ws)"

lemma split_on_nonempty [simp]: "split_on sep s \<noteq> []"
  by (induction s) (auto split: list.splits)

lemma split_on_no_sep: "w \<in> set (split_on sep s) \<Longrightarrow> sep \<notin> set w"
  by (induction s arbitrary: w) (auto split: if_splits list.splits)

lemma split_on_word [simp]: "sep \<notin> set w \<Longrightarrow> split_on sep w = [w]"
  by (induction w) auto

lemma split_on_word_append: "sep \<notin> set w \<Longrightarrow> split_on sep (w @ sep # s) = w # split_on sep s"
  by (induction w) auto

lemma split_on_join:
  "ws \<noteq> [] \<Longrightarrow> \<forall>w \<in> set ws. sep \<notin> set w \<Longrightarrow> split_on sep (join [sep] ws) = ws"
  by (induction "[sep]" ws rule: join.induct) (auto simp: split_on_word_append)

lemma join_split_on: "join [sep] (split_on sep s) = s"
proof (induction s)
  case (Cons c s)
  obtain w ws where "split_on sep s = w # ws"
    by (meson neq_Nil_conv split_on_nonempty)
  with Cons show ?case by (cases ws) auto
qed simp

subsection \<open>Decimal and hexadecimal numerals\<close>

definition digit_char :: "nat \<Rightarrow> char" where
  "digit_char d = char_of (48 + d)"

fun show_nat :: "nat \<Rightarrow> string" where
  "show_nat n = (if n < 10 then [digit_char n] else show_nat (n div 10) @ [digit_char (n mod 10)])"

declare show_nat.simps [simp del]

text \<open>\<open>strconv.Itoa\<close> and the verb \<open>%d\<close>.\<close>

definition itoa :: "int \<Rightarrow> string" where
  "itoa i = (if i < 0 then CHR ''-'' # show_nat (nat (- i)) else show_nat (nat i))"

text \<open>The value of a digit in a base of at most 36, as \<open>strconv.ParseUint\<close> reads it.\<close>

definition digit_value :: "char \<Rightarrow> int option" where
  "digit_value c =
     (let n = of_char c :: int in
      if 48 \<le> n \<and> n \<le> 57 then Some (n - 48)
      else if 97 \<le> n \<and> n \<le> 122 then Some (n - 87)
      else if 65 \<le> n \<and> n \<le> 90 then Some (n - 55)
      else None)"

fun parse_digits :: "int \<Rightarrow> int \<Rightarrow> string \<Rightarrow> int option" where
  "parse_digits base acc [] = Some acc"
| "parse_digits base acc (c # cs) =
     (case digit_value c of
        None \<Rightarrow> None
      | Some d \<Rightarrow> if d < base then parse_digits base (acc * base + d) cs else None)"

definition parse_uint :: "int \<Rightarrow> string \<Rightarrow> int option" where
  "parse_uint base s = (if s = [] then None else parse_digits base 0 s)"

text \<open>\<open>strconv.ParseInt s base 64\<close>: an optional sign, at least one digit, the range of
  \<open>int64\<close>; \<open>strconv.Atoi\<close> is base ten.\<close>

definition in_int64 :: "int \<Rightarrow> bool" where
  "in_int64 i \<longleftrightarrow> - (2 ^ 63) \<le> i \<and> i < 2 ^ 63"

definition range_int64 :: "int \<Rightarrow> int option" where
  "range_int64 i = (if in_int64 i then Some i else None)"

definition parse_int64 :: "int \<Rightarrow> string \<Rightarrow> int option" where
  "parse_int64 base s =
     (case s of
        [] \<Rightarrow> None
      | c # cs \<Rightarrow>
          if c = CHR ''-'' then Option.bind (parse_uint base cs) (\<lambda>n. range_int64 (- n))
          else if c = CHR ''+'' then Option.bind (parse_uint base cs) range_int64
          else Option.bind (parse_uint base s) range_int64)"

definition atoi :: "string \<Rightarrow> int option" where
  "atoi s = parse_int64 10 s"

lemma byte_of_digit_char [simp]: "d < 10 \<Longrightarrow> byte_of (digit_char d) = 48 + d"
  by (simp add: digit_char_def)

lemma int_byte_of: "(of_char c :: int) = int (byte_of c)"
  by (simp add: of_nat_of_char)

lemma digit_value_digit_char [simp]: "d < 10 \<Longrightarrow> digit_value (digit_char d) = Some (int d)"
  by (simp add: digit_value_def Let_def int_byte_of)

lemma parse_digits_append:
  "parse_digits base acc (xs @ ys) = Option.bind (parse_digits base acc xs) (\<lambda>a. parse_digits base a ys)"
  by (induction xs arbitrary: acc) (auto split: option.splits)

lemma show_nat_nonempty [simp]: "show_nat n \<noteq> []"
  by (subst show_nat.simps) simp

lemma parse_show_nat: "parse_digits 10 0 (show_nat n) = Some (int n)"
proof (induction n rule: show_nat.induct)
  case (1 n)
  have "int (n div 10) * 10 + int (n mod 10) = int n" by presburger
  with 1 show ?case
    by (cases "n < 10") (simp_all add: show_nat.simps [of n] parse_digits_append)
qed

lemma show_nat_digits: "c \<in> set (show_nat n) \<Longrightarrow> 48 \<le> byte_of c \<and> byte_of c \<le> 57"
proof (induction n arbitrary: c rule: show_nat.induct)
  case (1 n)
  then show ?case
    by (cases "n < 10") (auto simp: show_nat.simps [of n])
qed

lemma show_nat_hd_not_sign:
  "show_nat n = c # cs \<Longrightarrow> c \<noteq> CHR ''-'' \<and> c \<noteq> CHR ''+''"
  using show_nat_digits [of c n] by auto

lemma parse_uint_show_nat [simp]: "parse_uint 10 (show_nat n) = Some (int n)"
  by (simp add: parse_uint_def parse_show_nat)

lemma parse_int64_show_nat:
  "parse_int64 10 (show_nat n) = range_int64 (int n)"
proof -
  obtain c cs where s: "show_nat n = c # cs"
    by (meson neq_Nil_conv show_nat_nonempty)
  with show_nat_hd_not_sign [OF s] parse_uint_show_nat [of n] show ?thesis
    by (simp add: parse_int64_def)
qed

lemma atoi_itoa [go_simps]: "in_int64 i \<Longrightarrow> atoi (itoa i) = Some i"
proof (cases "i < 0")
  case True
  assume "in_int64 i"
  with True show ?thesis
    by (simp add: atoi_def itoa_def parse_int64_def range_int64_def)
next
  case False
  assume "in_int64 i"
  with False show ?thesis
    by (simp add: atoi_def itoa_def parse_int64_show_nat range_int64_def)
qed

lemma itoa_nonempty [simp]: "itoa i \<noteq> []"
  by (simp add: itoa_def)

lemma itoa_chars: "c \<in> set (itoa i) \<Longrightarrow> c = CHR ''-'' \<or> (48 \<le> byte_of c \<and> byte_of c \<le> 57)"
  by (auto simp: itoa_def dest: show_nat_digits split: if_splits)

subsection \<open>Lists\<close>

text \<open>The first element that satisfies a predicate, with the position it has.\<close>

fun index_where :: "('a \<Rightarrow> bool) \<Rightarrow> 'a list \<Rightarrow> nat option" where
  "index_where p [] = None"
| "index_where p (x # xs) = (if p x then Some 0 else map_option Suc (index_where p xs))"

lemma index_where_None [simp]: "index_where p xs = None \<longleftrightarrow> (\<forall>x \<in> set xs. \<not> p x)"
  by (induction xs) auto

lemma index_where_Some:
  "index_where p xs = Some i \<longleftrightarrow> i < length xs \<and> p (xs ! i) \<and> (\<forall>j < i. \<not> p (xs ! j))"
proof (induction xs arbitrary: i)
  case (Cons x xs)
  show ?case
  proof (cases i)
    case (Suc k)
    with Cons.IH [of k] show ?thesis
      by (auto simp: less_Suc_eq_0_disj nth_Cons split: nat.splits)
  qed auto
qed simp

lemma index_where_Ex: "\<exists>x \<in> set xs. p x \<Longrightarrow> \<exists>i. index_where p xs = Some i"
  by (metis index_where_None not_Some_eq)

text \<open>\<open>append(xs[:i], xs[i+1:]...)\<close>.\<close>

definition remove_nth :: "nat \<Rightarrow> 'a list \<Rightarrow> 'a list" where
  "remove_nth i xs = take i xs @ drop (Suc i) xs"

lemma length_remove_nth [simp]: "i < length xs \<Longrightarrow> length (remove_nth i xs) = length xs - 1"
  by (simp add: remove_nth_def)

lemma mset_remove_nth: "i < length xs \<Longrightarrow> mset xs = add_mset (xs ! i) (mset (remove_nth i xs))"
  unfolding remove_nth_def by (subst id_take_nth_drop [of i xs]) simp_all

lemma set_remove_nth_subset: "set (remove_nth i xs) \<subseteq> set xs"
  by (auto simp: remove_nth_def dest: in_set_takeD in_set_dropD)

lemma nth_remove_nth:
  "i < length xs \<Longrightarrow> j < length xs - 1 \<Longrightarrow>
    remove_nth i xs ! j = (if j < i then xs ! j else xs ! Suc j)"
  by (auto simp: remove_nth_def nth_append min_def)

lemma distinct_map_remove_nth: "distinct (map f xs) \<Longrightarrow> distinct (map f (remove_nth i xs))"
proof (cases "i < length xs")
  case True
  assume d: "distinct (map f xs)"
  have "xs = take i xs @ xs ! i # drop (Suc i) xs"
    using True by (rule id_take_nth_drop)
  with d have "distinct (map f (take i xs @ xs ! i # drop (Suc i) xs))"
    by simp
  then show ?thesis by (simp add: remove_nth_def)
qed (simp add: remove_nth_def)

subsection \<open>Stable sorting\<close>

text \<open>A stable sort by one key refines the order the list had.\<close>

lemma insort_key_lex:
  "sorted_wrt (\<lambda>a b. f a < f b \<or> f a = f b \<and> R a b) zs \<Longrightarrow> \<forall>b \<in> set zs. R a b \<Longrightarrow>
     sorted_wrt (\<lambda>a b. f a < f b \<or> f a = f b \<and> R a b) (insort_key f a zs)"
  by (induction zs) (auto simp: set_insort_key)

lemma sort_key_lex:
  "sorted_wrt R xs \<Longrightarrow> sorted_wrt (\<lambda>a b. f a < f b \<or> f a = f b \<and> R a b) (sort_key f xs)"
  by (induction xs) (auto intro: insort_key_lex)

lemma sorted_key_wrt: "sorted_wrt (\<lambda>a b. f a \<le> f b) (sort_key f xs)"
  using sorted_sort_key [of f xs] by (simp only: sorted_map)

end
