(* ===== verification/Go_Path.thy ===== *)
theory Go_Path
  imports Prelude
begin

text \<open>
  The functions of Go's \<open>path/filepath\<close> (Unix: the separator is a slash) that the playlist
  importer, the scanner and the media files use: \<open>Clean\<close>, \<open>Join\<close>, \<open>IsAbs\<close> and \<open>Rel\<close>. A path
  is handled as the list of its elements. The lemmas show that a cleaned path is a normal
  form, so that cleaning is idempotent, and that a relative path computed inside its base is
  what follows the base.
\<close>

abbreviation slash :: char where
  "slash \<equiv> CHR ''/''"

definition is_abs :: "string \<Rightarrow> bool" where
  "is_abs p \<longleftrightarrow> has_prefix p ''/''"

text \<open>One element of \<open>Clean\<close>: the elements kept so far, the last one first.\<close>

definition clean_step :: "bool \<Rightarrow> string \<Rightarrow> string list \<Rightarrow> string list" where
  "clean_step rooted e out =
     (if e = [] \<or> e = ''.'' then out
      else if e = ''..'' then
        (case out of
           [] \<Rightarrow> if rooted then [] else [''..'']
         | x # xs \<Rightarrow> if x = ''..'' then ''..'' # out else xs)
      else e # out)"

definition clean_elems :: "bool \<Rightarrow> string list \<Rightarrow> string list" where
  "clean_elems rooted es = rev (fold (clean_step rooted) es [])"

definition render :: "bool \<Rightarrow> string list \<Rightarrow> string" where
  "render rooted es =
     (if rooted then slash # join ''/'' es else if es = [] then ''.'' else join ''/'' es)"

definition clean :: "string \<Rightarrow> string" where
  "clean p = (if p = [] then ''.'' else render (is_abs p) (clean_elems (is_abs p) (split_on slash p)))"

definition path_join :: "string list \<Rightarrow> string" where
  "path_join es = (case dropWhile (\<lambda>e. e = []) es of [] \<Rightarrow> [] | rest \<Rightarrow> clean (join ''/'' rest))"

subsection \<open>Normal forms\<close>

text \<open>The elements of a cleaned path: none is empty or a dot, none holds a slash, and a double
  dot occurs only at the front of a relative path.\<close>

definition plain_elem :: "string \<Rightarrow> bool" where
  "plain_elem e \<longleftrightarrow> e \<noteq> [] \<and> e \<noteq> ''.'' \<and> e \<noteq> ''..'' \<and> slash \<notin> set e"

definition normal_elems :: "bool \<Rightarrow> string list \<Rightarrow> bool" where
  "normal_elems rooted es \<longleftrightarrow>
     (\<exists>n ps. es = replicate n ''..'' @ ps \<and> (rooted \<longrightarrow> n = 0) \<and> (\<forall>e \<in> set ps. plain_elem e))"

lemma normal_elems_Nil [simp]: "normal_elems rooted []"
  by (simp add: normal_elems_def)

lemma normal_elems_snoc: "normal_elems rooted es \<Longrightarrow> plain_elem e \<Longrightarrow> normal_elems rooted (es @ [e])"
  unfolding normal_elems_def by fastforce

lemma normal_elems_updir:
  assumes "normal_elems rooted (rev out)"
  shows "normal_elems rooted (rev (clean_step rooted ''..'' out))"
proof -
  obtain n ps where ps: "rev out = replicate n ''..'' @ ps" "rooted \<longrightarrow> n = 0"
      "\<forall>e \<in> set ps. plain_elem e"
    using assms unfolding normal_elems_def by blast
  show ?thesis
  proof (cases ps rule: rev_cases)
    case Nil
    with ps have "out = replicate n ''..''" by (metis append_Nil2 rev_replicate rev_rev_ident)
    moreover have "normal_elems rooted (replicate (Suc n) ''..'')" if "\<not> rooted"
      using that unfolding normal_elems_def
      by (intro exI [of _ "Suc n"] exI [of _ "[]"]) simp
    ultimately show ?thesis
      using ps(2) by (cases n) (auto simp: clean_step_def replicate_append_same)
  next
    case (snoc qs e)
    with ps have "out = e # rev qs @ replicate n ''..''"
      by (metis append.assoc rev_append rev_eq_Cons_iff rev_replicate rev_rev_ident append_Cons)
    moreover have "e \<noteq> ''..''" using snoc ps(3) by (simp add: plain_elem_def)
    ultimately show ?thesis
      using ps snoc by (auto simp: clean_step_def normal_elems_def)
  qed
qed

lemma normal_elems_step:
  assumes "normal_elems rooted (rev out)" and "slash \<notin> set e"
  shows "normal_elems rooted (rev (clean_step rooted e out))"
proof (cases "e = [] \<or> e = ''.'' \<or> e = ''..''")
  case True
  with assms(1) normal_elems_updir [OF assms(1)] show ?thesis
    by (auto simp: clean_step_def)
next
  case False
  with assms show ?thesis
    by (auto simp: clean_step_def plain_elem_def intro: normal_elems_snoc)
qed

lemma normal_elems_clean:
  "\<forall>e \<in> set es. slash \<notin> set e \<Longrightarrow> normal_elems rooted (clean_elems rooted es)"
proof -
  have "normal_elems rooted (rev out) \<Longrightarrow> \<forall>e \<in> set es. slash \<notin> set e \<Longrightarrow>
      normal_elems rooted (rev (fold (clean_step rooted) es out))" for out
    by (induction es arbitrary: out) (auto simp: normal_elems_step)
  from this [of "[]"] show "\<forall>e \<in> set es. slash \<notin> set e \<Longrightarrow> normal_elems rooted (clean_elems rooted es)"
    by (simp add: clean_elems_def)
qed

lemma fold_clean_plain:
  "\<forall>e \<in> set ps. plain_elem e \<Longrightarrow> fold (clean_step rooted) ps out = rev ps @ out"
  by (induction ps arbitrary: out) (auto simp: clean_step_def plain_elem_def)

lemma fold_clean_updirs: "fold (clean_step False) (replicate n ''..'') (replicate m ''..'') = replicate (n + m) ''..''"
proof (induction n arbitrary: m)
  case (Suc n)
  have "clean_step False ''..'' (replicate m ''..'') = replicate (Suc m) ''..''"
    by (cases m) (simp_all add: clean_step_def)
  with Suc [of "Suc m"] show ?case by simp
qed simp

lemma clean_elems_normal:
  assumes "normal_elems rooted es"
  shows "clean_elems rooted es = es"
proof -
  obtain n ps where es: "es = replicate n ''..'' @ ps" "rooted \<longrightarrow> n = 0"
      "\<forall>e \<in> set ps. plain_elem e"
    using assms unfolding normal_elems_def by blast
  have "fold (clean_step rooted) (replicate n ''..'') [] = replicate n ''..''"
    using es(2) fold_clean_updirs [of n 0] by (cases rooted) simp_all
  with es show ?thesis by (simp add: clean_elems_def fold_clean_plain)
qed

lemma normal_elems_no_slash:
  assumes "normal_elems rooted es"
  shows "\<forall>e \<in> set es. slash \<notin> set e \<and> e \<noteq> [] \<and> e \<noteq> ''.''"
proof
  fix e
  assume "e \<in> set es"
  then have "e = ''..'' \<or> plain_elem e"
    using assms unfolding normal_elems_def by (metis Un_iff in_set_replicate set_append)
  then show "slash \<notin> set e \<and> e \<noteq> [] \<and> e \<noteq> ''.''"
    by (elim disjE) (simp_all add: plain_elem_def)
qed

lemma split_render_rooted:
  "es \<noteq> [] \<Longrightarrow> normal_elems True es \<Longrightarrow> split_on slash (slash # join ''/'' es) = [] # es"
  using split_on_join [of es slash] normal_elems_no_slash [of True es] by auto

lemma clean_render: "normal_elems rooted es \<Longrightarrow> clean (render rooted es) = render rooted es"
proof (cases rooted)
  case True
  assume n: "normal_elems rooted es"
  then have "clean_elems True (split_on slash (slash # join ''/'' es)) = es"
    using True split_render_rooted [of es] clean_elems_normal [of True es]
    by (cases "es = []") (auto simp: clean_elems_def clean_step_def)
  with True show ?thesis by (simp add: clean_def render_def is_abs_def has_prefix_def)
next
  case False
  assume n: "normal_elems rooted es"
  show ?thesis
  proof (cases es)
    case Nil
    with False show ?thesis by (simp add: clean_def render_def is_abs_def has_prefix_def clean_elems_def clean_step_def)
  next
    case (Cons e rest)
    have e: "e \<noteq> []" "slash \<notin> set e" using normal_elems_no_slash [OF n] Cons by auto
    then obtain c cs where c: "e = c # cs" "c \<noteq> slash" by (cases e) auto
    obtain r where r: "join ''/'' es = c # r" using Cons c by (cases rest) auto
    have "split_on slash (join ''/'' es) = es"
      using split_on_join [of es slash] normal_elems_no_slash [OF n] Cons by simp
    with r c n False Cons clean_elems_normal [of False es] show ?thesis
      by (simp add: clean_def render_def is_abs_def has_prefix_def)
  qed
qed

lemma clean_eq_render: "p \<noteq> [] \<Longrightarrow> \<exists>es. clean p = render (is_abs p) es \<and> normal_elems (is_abs p) es"
  using normal_elems_clean [of "split_on slash p" "is_abs p"] split_on_no_sep
  by (auto simp: clean_def)

lemma clean_idem [simp]: "clean (clean p) = clean p"
proof (cases "p = []")
  case True
  have "clean [] = render False []" by (simp add: clean_def render_def)
  with True clean_render [of False "[]"] show ?thesis by simp
next
  case False
  with clean_eq_render [OF False] clean_render show ?thesis by auto
qed

lemma clean_abs [simp]: "is_abs p \<Longrightarrow> is_abs (clean p)"
proof -
  assume a: "is_abs p"
  then have "p \<noteq> []" by (auto simp: is_abs_def has_prefix_def)
  from clean_eq_render [OF this] a show ?thesis
    by (auto simp: render_def) (simp add: is_abs_def has_prefix_def)
qed

subsection \<open>Relative paths\<close>

definition rel_elems :: "string \<Rightarrow> string list" where
  "rel_elems p = (if p = [] then [] else if p = ''/'' then [[]] else split_on slash p)"

fun strip_common :: "'a list \<Rightarrow> 'a list \<Rightarrow> 'a list \<times> 'a list" where
  "strip_common (x # xs) (y # ys) = (if x = y then strip_common xs ys else (x # xs, y # ys))"
| "strip_common xs ys = (xs, ys)"

definition rel :: "string \<Rightarrow> string \<Rightarrow> string option" where
  "rel basePath targPath =
     (let base = clean basePath; targ = clean targPath
      in if targ = base then Some ''.''
         else
           let base' = (if base = ''.'' then [] else base)
           in if is_abs base' \<noteq> is_abs targ then None
              else
                (case strip_common (rel_elems base') (rel_elems targ) of
                   (bs, ts) \<Rightarrow>
                     if bs \<noteq> [] \<and> ts \<noteq> [] \<and> hd bs = ''..'' then None
                     else Some (join ''/'' (map (\<lambda>_. ''..'') bs @ ts))))"

lemma strip_common_prefix [simp]: "strip_common xs (xs @ ys) = ([], ys)"
proof (induction xs)
  case Nil
  show ?case by (cases ys) simp_all
qed simp

lemma split_on_append_sep: "split_on sep (a @ sep # b) = split_on sep a @ split_on sep b"
proof (induction a)
  case (Cons c a)
  obtain w ws where "split_on sep a = w # ws"
    by (meson neq_Nil_conv split_on_nonempty)
  with Cons show ?case by auto
qed simp

lemma rel_inside:
  assumes "clean base = base" and "clean (base @ slash # r) = base @ slash # r"
    and "is_abs base" and "base \<noteq> ''/''"
  shows "rel base (base @ slash # r) = Some r"
proof -
  have ne: "base \<noteq> []" "base \<noteq> ''.''"
    using assms(3) by (auto simp: is_abs_def has_prefix_def)
  have "rel_elems (base @ slash # r) = rel_elems base @ split_on slash r"
    using ne assms(4) split_on_append_sep [of slash base r] by (simp add: rel_elems_def append_eq_Cons_conv)
  moreover have "is_abs (base @ slash # r)"
    using assms(3) by (auto simp: is_abs_def has_prefix_iff)
  ultimately show ?thesis
    using assms ne by (simp add: rel_def Let_def join_split_on)
qed

end
