(* ===== verification/Media_File.thy ===== *)
theory Media_File
  imports Go_Path
begin

text \<open>
  \<open>model/mediafile.go\<close>: the media file record, restricted to the fields the modelled
  components read, and the codec of a file (\<open>AudioCodec\<close>, \<open>inferCodecFromSuffix\<close>). A pointer
  to an integer is an option; \<open>Tags\<close> is the list of its entries; the role map of the participants is restricted to the artists'
  ids, in order. \<open>ffmpeg.AudioProbeResult\<close> is here too, the result of probing a file.
\<close>

record MediaFile =
  mf_ID :: string
  mf_LibraryID :: int
  mf_LibraryPath :: string
  mf_Path :: string
  mf_Title :: string
  mf_Artist :: string
  mf_AlbumID :: string
  mf_AlbumArtistID :: string
  mf_Size :: int
  mf_Suffix :: string
  mf_Duration :: rat
  mf_BitRate :: int
  mf_SampleRate :: int
  mf_BitDepth :: "int option"
  mf_Channels :: int
  mf_Codec :: string
  mf_ProbeData :: string
  mf_ArtistIDs :: "string list"
  mf_UpdatedAt :: Time
  mf_Album :: string
  mf_Year :: int
  mf_Genre :: string
  mf_TrackNumber :: int
  mf_DiscNumber :: int
  mf_Tags :: "(string \<times> string list) list"
  mf_MbzRecordingID :: string
  mf_Missing :: bool
  mf_PID :: string
  mf_MbzReleaseTrackID :: string
  mf_CreatedAt :: Time
  mf_BirthTime :: Time

text \<open>\<open>model.MediaFile{}\<close>, the zero value.\<close>

definition empty_MediaFile :: MediaFile where
  "empty_MediaFile =
     \<lparr>mf_ID = [], mf_LibraryID = 0, mf_LibraryPath = [], mf_Path = [], mf_Title = [], mf_Artist = [], mf_AlbumID = [],
      mf_AlbumArtistID = [], mf_Size = 0, mf_Suffix = [], mf_Duration = 0, mf_BitRate = 0,
      mf_SampleRate = 0, mf_BitDepth = None, mf_Channels = 0, mf_Codec = [], mf_ProbeData = [],
      mf_ArtistIDs = [], mf_UpdatedAt = zero_time, mf_Album = [], mf_Year = 0, mf_Genre = [], mf_TrackNumber = 0,
      mf_DiscNumber = 0, mf_Tags = [], mf_MbzRecordingID = [], mf_Missing = False,
      mf_PID = [], mf_MbzReleaseTrackID = [], mf_CreatedAt = zero_time, mf_BirthTime = zero_time\<rparr>"

text \<open>\<open>utils/gg\<close>: \<open>V\<close> reads a pointer, with the zero value for \<open>nil\<close>.\<close>

definition V :: "int option \<Rightarrow> int" where
  "V p = (case p of None \<Rightarrow> 0 | Some v \<Rightarrow> v)"

definition AbsolutePath :: "MediaFile \<Rightarrow> string" where
  "AbsolutePath mf = path_join [mf_LibraryPath mf, mf_Path mf]"

definition inferCodecFromSuffix :: "MediaFile \<Rightarrow> string" where
  "inferCodecFromSuffix mf =
     (let s = to_lower (mf_Suffix mf) in
      if s \<in> {''mp3'', ''mpga''} then ''mp3''
      else if s = ''mp2'' then ''mp2''
      else if s \<in> {''ogg'', ''oga''} then ''vorbis''
      else if s = ''opus'' then ''opus''
      else if s = ''mpc'' then ''mpc''
      else if s = ''wma'' then ''wma''
      else if s = ''flac'' then ''flac''
      else if s = ''wav'' then ''pcm''
      else if s \<in> {''aif'', ''aiff'', ''aifc''} then ''pcm''
      else if s = ''ape'' then ''ape''
      else if s \<in> {''wv'', ''wvp''} then ''wv''
      else if s = ''tta'' then ''tta''
      else if s = ''tak'' then ''tak''
      else if s = ''shn'' then ''shn''
      else if s \<in> {''dsf'', ''dff''} then ''dsd''
      else if s = ''m4a'' then (if V (mf_BitDepth mf) > 0 then ''alac'' else ''aac'')
      else if s \<in> {''m4b'', ''m4p'', ''m4r''} then ''aac''
      else [])"

definition AudioCodec :: "MediaFile \<Rightarrow> string" where
  "AudioCodec mf = (if mf_Codec mf \<noteq> [] then to_lower (mf_Codec mf) else inferCodecFromSuffix mf)"

record AudioProbeResult =
  pr_Codec :: string
  pr_Profile :: string
  pr_BitRate :: int
  pr_SampleRate :: int
  pr_BitDepth :: int
  pr_Channels :: int

lemma AudioCodec_suffix_fold:
  "mf_Codec mf = mf_Codec mf' \<Longrightarrow> mf_BitDepth mf = mf_BitDepth mf' \<Longrightarrow>
    equal_fold (mf_Suffix mf) (mf_Suffix mf') \<Longrightarrow> AudioCodec mf = AudioCodec mf'"
  by (simp add: AudioCodec_def inferCodecFromSuffix_def equal_fold_def)

lemma AudioCodec_lower [simp]: "to_lower (AudioCodec mf) = AudioCodec mf"
proof (cases "mf_Codec mf = []")
  case True
  have "to_lower (inferCodecFromSuffix mf) = inferCodecFromSuffix mf"
    unfolding inferCodecFromSuffix_def Let_def
    by (simp add: to_lower_def lower_byte_def split del: if_split split: if_splits)
  with True show ?thesis by (simp add: AudioCodec_def)
qed (simp add: AudioCodec_def)

end
