(* ===== verification/Stream_Codec.thy ===== *)
theory Stream_Codec
  imports Media_File
begin

text \<open>
  \<open>core/stream/codec.go\<close> and \<open>core/stream/aliases.go\<close>: codec names and their limits, and
  the matching of container and codec names up to case and aliases. The lemmas show that
  matching against one name is an equivalence whatever the alias table, that matching against
  a list is matching one of its members, and what the codec limits bound.
\<close>

subsection \<open>Codec names and limits\<close>

definition normalizeProbeCodec :: "string \<Rightarrow> string" where
  "normalizeProbeCodec codec =
     (let c = to_lower codec in
      if has_prefix c ''dsd'' then ''dsd''
      else if has_prefix c ''pcm_'' then ''pcm''
      else c)"

definition isLosslessFormat :: "string \<Rightarrow> bool" where
  "isLosslessFormat format \<longleftrightarrow>
     to_lower format \<in>
       {''flac'', ''alac'', ''wav'', ''aiff'', ''ape'', ''wv'', ''wavpack'', ''tta'', ''tak'',
        ''shn'', ''dsd'', ''pcm''}"

definition normalizeSourceSampleRate :: "int \<Rightarrow> string \<Rightarrow> int" where
  "normalizeSourceSampleRate sampleRate codec =
     (if equal_fold codec ''dsd'' \<and> sampleRate > 0 then go_div sampleRate 8 else sampleRate)"

definition targetBitDepth :: "int \<Rightarrow> string \<Rightarrow> bool \<Rightarrow> int" where
  "targetBitDepth srcBitDepth srcCodec targetIsLossless =
     (if \<not> targetIsLossless then 0
      else if equal_fold srcCodec ''dsd'' \<and> srcBitDepth = 1 then 24
      else srcBitDepth)"

definition codecFixedOutputSampleRate :: "string \<Rightarrow> int" where
  "codecFixedOutputSampleRate codec = (if to_lower codec = ''opus'' then 48000 else 0)"

definition codecMaxSampleRate :: "string \<Rightarrow> int" where
  "codecMaxSampleRate codec =
     (if to_lower codec = ''mp3'' then 48000 else if to_lower codec = ''aac'' then 96000 else 0)"

definition codecMaxChannels :: "string \<Rightarrow> int" where
  "codecMaxChannels codec =
     (if to_lower codec = ''mp3'' then 2 else if to_lower codec = ''opus'' then 8 else 0)"

lemma normalizeSourceSampleRate_le: "normalizeSourceSampleRate r c \<le> r"
  by (simp add: normalizeSourceSampleRate_def go_div_le)

lemma isLosslessFormat_fold: "equal_fold a b \<Longrightarrow> isLosslessFormat a = isLosslessFormat b"
  by (simp add: isLosslessFormat_def equal_fold_def)

lemma isLosslessFormat_lower [simp]: "isLosslessFormat (to_lower f) = isLosslessFormat f"
  by (simp add: isLosslessFormat_def)

lemma codec_limits_lower [simp]:
  "codecFixedOutputSampleRate (to_lower c) = codecFixedOutputSampleRate c"
  "codecMaxSampleRate (to_lower c) = codecMaxSampleRate c"
  "codecMaxChannels (to_lower c) = codecMaxChannels c"
  by (simp_all add: codecFixedOutputSampleRate_def codecMaxSampleRate_def codecMaxChannels_def)

subsection \<open>Alias tables\<close>

type_synonym alias_table = "string \<rightharpoonup> string"

text \<open>The loop over the groups that fills a table: each name of a group is mapped to the first.\<close>

definition add_alias_group :: "string list \<Rightarrow> alias_table \<Rightarrow> alias_table" where
  "add_alias_group g m = fold (\<lambda>name m. m(name \<mapsto> hd g)) g m"

definition containerAliasGroups :: alias_table where
  "containerAliasGroups = fold add_alias_group
     [[''aac'', ''adts'', ''m4a'', ''mp4'', ''m4b'', ''m4p''],
      [''mpeg'', ''mp3'', ''mp2''],
      [''ogg'', ''oga'', ''opus''],
      [''aif'', ''aiff''],
      [''asf'', ''wma''],
      [''mpc'', ''mpp''],
      [''wv'']] Map.empty"

definition codecAliasGroups :: alias_table where
  "codecAliasGroups = fold add_alias_group
     [[''aac'', ''adts''],
      [''ac3'', ''ac-3''],
      [''eac3'', ''e-ac3'', ''e-ac-3'', ''eac-3''],
      [''mpc7'', ''musepack7''],
      [''mpc8'', ''musepack8''],
      [''wma1'', ''wmav1''],
      [''wma2'', ''wmav2''],
      [''wmalossless'', ''wma9lossless''],
      [''wmapro'', ''wma9pro''],
      [''shn'', ''shorten''],
      [''mp4als'', ''als'']] Map.empty"

text \<open>Reading a Go map gives the empty string for a missing key.\<close>

definition alias_of :: "alias_table \<Rightarrow> string \<Rightarrow> string" where
  "alias_of m k = (case m k of None \<Rightarrow> [] | Some v \<Rightarrow> v)"

fun matchesAnyAlias :: "string \<Rightarrow> string \<Rightarrow> string list \<Rightarrow> alias_table \<Rightarrow> bool" where
  "matchesAnyAlias lvalue canonical [] aliases = False"
| "matchesAnyAlias lvalue canonical (c # cs) aliases =
     (let lc = to_lower c in
      if lc = lvalue then True
      else if canonical \<noteq> [] \<and> alias_of aliases lc = canonical then True
      else matchesAnyAlias lvalue canonical cs aliases)"

definition matchesWithAliases :: "string \<Rightarrow> string list \<Rightarrow> alias_table \<Rightarrow> bool" where
  "matchesWithAliases val candidates aliases =
     (let lvalue = to_lower val
      in matchesAnyAlias lvalue (alias_of aliases lvalue) candidates aliases)"

definition matchesContainer :: "string \<Rightarrow> string list \<Rightarrow> bool" where
  "matchesContainer suffix containers = matchesWithAliases suffix containers containerAliasGroups"

definition matchesCodec :: "string \<Rightarrow> string list \<Rightarrow> bool" where
  "matchesCodec codec codecs = matchesWithAliases codec codecs codecAliasGroups"

definition IsAACCodec :: "string \<Rightarrow> bool" where
  "IsAACCodec name \<longleftrightarrow> matchesCodec name [''aac''] \<or> matchesContainer name [''aac'']"

definition containsIgnoreCase :: "string list \<Rightarrow> string \<Rightarrow> bool" where
  "containsIgnoreCase slice s \<longleftrightarrow> list_ex (\<lambda>item. equal_fold item s) slice"

subsection \<open>Matching is an equivalence\<close>

text \<open>The relation of two names that a table identifies.\<close>

definition same_name :: "alias_table \<Rightarrow> string \<Rightarrow> string \<Rightarrow> bool" where
  "same_name aliases a b \<longleftrightarrow>
     equal_fold a b \<or>
     (alias_of aliases (to_lower a) \<noteq> [] \<and>
      alias_of aliases (to_lower b) = alias_of aliases (to_lower a))"

lemma matchesAnyAlias_iff:
  "matchesAnyAlias lv can cs m \<longleftrightarrow>
    (\<exists>c \<in> set cs. to_lower c = lv \<or> (can \<noteq> [] \<and> alias_of m (to_lower c) = can))"
  by (induction cs) (auto simp: Let_def)

lemma matchesWithAliases_iff:
  "matchesWithAliases v cs m \<longleftrightarrow> (\<exists>c \<in> set cs. same_name m v c)"
  unfolding matchesWithAliases_def Let_def matchesAnyAlias_iff same_name_def equal_fold_def
  by metis

lemma same_name_refl [simp]: "same_name m a a"
  by (simp add: same_name_def)

lemma same_name_sym: "same_name m a b \<Longrightarrow> same_name m b a"
  by (auto simp: same_name_def equal_fold_def)

lemma same_name_trans: "same_name m a b \<Longrightarrow> same_name m b c \<Longrightarrow> same_name m a c"
  by (auto simp: same_name_def equal_fold_def)

lemma equivp_same_name: "equivp (same_name m)"
  by (intro equivpI reflpI sympI transpI) (auto intro: same_name_sym same_name_trans)

text \<open>
  matching a name against the names of a profile is membership up to one equivalence
  relation (case and aliases), the same for every profile: it is reflexive, symmetric and
  transitive, and it does not depend on the order of the profile's names.
\<close>

theorem matchesWithAliases_equivalence:
  "equivp (\<lambda>a b. matchesWithAliases a [b] aliases) \<and>
   (matchesWithAliases v candidates aliases \<longleftrightarrow>
     (\<exists>c \<in> set candidates. matchesWithAliases v [c] aliases))"
proof
  have "(\<lambda>a b. matchesWithAliases a [b] aliases) = same_name aliases"
    by (intro ext) (simp add: matchesWithAliases_iff)
  then show "equivp (\<lambda>a b. matchesWithAliases a [b] aliases)"
    by (simp add: equivp_same_name)
qed (simp add: matchesWithAliases_iff)

end
