(* ===== verification/Stream_Types.thy ===== *)
theory Stream_Types
  imports Stream_Codec
begin

text \<open>
  \<open>core/stream/types.go\<close> and \<open>core/stream/limitations.go\<close>: the capabilities a client declares,
  the details of an audio stream, and how one limitation of a codec profile is checked against
  a stream or applied to it. The setter that \<open>applyIntLimitation\<close> takes is the second component
  of its result: \<^const>\<open>Some\<close> of the argument when the code calls it. The lemmas relate both
  the check and the adjustment to the predicate \<open>int_allows\<close>, which says which values a
  limitation admits.
\<close>

subsection \<open>Data\<close>

record Request =
  rq_Format :: string
  rq_BitRate :: int
  rq_SampleRate :: int
  rq_BitDepth :: int
  rq_Channels :: int
  rq_Offset :: int

definition empty_Request :: Request where
  "empty_Request = \<lparr>rq_Format = [], rq_BitRate = 0, rq_SampleRate = 0, rq_BitDepth = 0,
     rq_Channels = 0, rq_Offset = 0\<rparr>"

record DirectPlayProfile =
  dp_Containers :: "string list"
  dp_AudioCodecs :: "string list"
  dp_Protocols :: "string list"
  dp_MaxAudioChannels :: int

record Profile =
  tp_Container :: string
  tp_AudioCodec :: string
  tp_Protocol :: string
  tp_MaxAudioChannels :: int

record Limitation =
  lim_Name :: string
  lim_Comparison :: string
  lim_Values :: "string list"
  lim_Required :: bool

record CodecProfile =
  cp_Type :: string
  cp_Name :: string
  cp_Limitations :: "Limitation list"

record ClientInfo =
  ci_Name :: string
  ci_Platform :: string
  ci_MaxAudioBitrate :: int
  ci_MaxTranscodingAudioBitrate :: int
  ci_DirectPlayProfiles :: "DirectPlayProfile list"
  ci_TranscodingProfiles :: "Profile list"
  ci_CodecProfiles :: "CodecProfile list"

record Details =
  d_Container :: string
  d_Codec :: string
  d_Profile :: string
  d_Bitrate :: int
  d_SampleRate :: int
  d_BitDepth :: int
  d_Channels :: int
  d_Duration :: rat
  d_Size :: int
  d_IsLossless :: bool

definition empty_Details :: Details where
  "empty_Details = \<lparr>d_Container = [], d_Codec = [], d_Profile = [], d_Bitrate = 0, d_SampleRate = 0,
     d_BitDepth = 0, d_Channels = 0, d_Duration = 0, d_Size = 0, d_IsLossless = False\<rparr>"

record TranscodeDecision =
  td_MediaID :: string
  td_CanDirectPlay :: bool
  td_CanTranscode :: bool
  td_TranscodeReasons :: "string list"
  td_ErrorReason :: string
  td_TargetFormat :: string
  td_TargetBitrate :: int
  td_TargetChannels :: int
  td_TargetSampleRate :: int
  td_TargetBitDepth :: int
  td_SourceStream :: Details
  td_SourceUpdatedAt :: Time
  td_TranscodeStream :: "Details option"

definition ProtocolHTTP :: string where "ProtocolHTTP = ''http''"

definition ComparisonEquals :: string where "ComparisonEquals = ''Equals''"
definition ComparisonNotEquals :: string where "ComparisonNotEquals = ''NotEquals''"
definition ComparisonLessThanEqual :: string where "ComparisonLessThanEqual = ''LessThanEqual''"
definition ComparisonGreaterThanEqual :: string where
  "ComparisonGreaterThanEqual = ''GreaterThanEqual''"

definition LimitationAudioChannels :: string where "LimitationAudioChannels = ''audioChannels''"
definition LimitationAudioBitrate :: string where "LimitationAudioBitrate = ''audioBitrate''"
definition LimitationAudioProfile :: string where "LimitationAudioProfile = ''audioProfile''"
definition LimitationAudioSamplerate :: string where
  "LimitationAudioSamplerate = ''audioSamplerate''"
definition LimitationAudioBitdepth :: string where "LimitationAudioBitdepth = ''audioBitdepth''"

definition CodecProfileTypeAudio :: string where "CodecProfileTypeAudio = ''AudioCodec''"

lemmas comparison_defs = ComparisonEquals_def ComparisonNotEquals_def
  ComparisonLessThanEqual_def ComparisonGreaterThanEqual_def

lemmas limitation_name_defs = LimitationAudioChannels_def LimitationAudioBitrate_def
  LimitationAudioProfile_def LimitationAudioSamplerate_def LimitationAudioBitdepth_def

lemma comparisons_distinct [simp]:
  "ComparisonLessThanEqual \<noteq> ComparisonGreaterThanEqual"
  "ComparisonGreaterThanEqual \<noteq> ComparisonLessThanEqual"
  "ComparisonEquals \<noteq> ComparisonLessThanEqual" "ComparisonEquals \<noteq> ComparisonGreaterThanEqual"
  "ComparisonNotEquals \<noteq> ComparisonLessThanEqual" "ComparisonNotEquals \<noteq> ComparisonGreaterThanEqual"
  "ComparisonNotEquals \<noteq> ComparisonEquals" "ComparisonEquals \<noteq> ComparisonNotEquals"
  by (simp_all add: comparison_defs)

text \<open>\<open>DirectPlayProfile.String\<close>, used in the reasons of a decision.\<close>

definition show_DirectPlayProfile :: "DirectPlayProfile \<Rightarrow> string" where
  "show_DirectPlayProfile p =
     (let containers = (let j = join '','' (dp_Containers p) in if j = [] then ''*'' else j);
          codecs = join '','' (dp_AudioCodecs p)
      in if codecs = [] then ''['' @ containers @ '']''
         else ''['' @ containers @ ''/'' @ codecs @ '']'')"

subsection \<open>Client limits\<close>

definition CapBitrate :: "ClientInfo \<Rightarrow> int \<Rightarrow> bool \<times> ClientInfo" where
  "CapBitrate ci maxKbps =
     (if maxKbps \<le> 0 then (False, ci)
      else
        let c1 = (ci_MaxAudioBitrate ci = 0 \<or> maxKbps < ci_MaxAudioBitrate ci);
            ci1 = (if c1 then ci\<lparr>ci_MaxAudioBitrate := maxKbps\<rparr> else ci);
            c2 = (ci_MaxTranscodingAudioBitrate ci1 = 0 \<or> maxKbps < ci_MaxTranscodingAudioBitrate ci1);
            ci2 = (if c2 then ci1\<lparr>ci_MaxTranscodingAudioBitrate := maxKbps\<rparr> else ci1)
        in (c1 \<or> c2, ci2))"

text \<open>\<open>resolveTargetFormat\<close> of \<open>decider.go\<close>: the response container and the target format.\<close>

definition resolveTargetFormat :: "Profile \<Rightarrow> string \<times> string" where
  "resolveTargetFormat profile =
     (let responseContainer = to_lower (tp_Container profile);
          targetFormat = (if tp_AudioCodec profile \<noteq> [] then to_lower (tp_AudioCodec profile)
                          else responseContainer)
      in if targetFormat = [] then ([], [])
         else (if responseContainer = [] then targetFormat else responseContainer, targetFormat))"

definition ForceFormat :: "ClientInfo \<Rightarrow> string \<Rightarrow> bool \<times> ClientInfo" where
  "ForceFormat ci targetFormat =
     (if targetFormat = [] then (False, ci)
      else
        let matched = filter (\<lambda>p. matchesContainer (snd (resolveTargetFormat p)) [targetFormat])
                        (ci_TranscodingProfiles ci)
        in if matched = [] then (False, ci)
           else (True, ci\<lparr>ci_TranscodingProfiles := matched, ci_DirectPlayProfiles := []\<rparr>))"

text \<open>A limit of zero means no limit: one limit is at most another when it admits less.\<close>

definition limit_le :: "int \<Rightarrow> int \<Rightarrow> bool" where
  "limit_le a b \<longleftrightarrow> b = 0 \<or> (a \<noteq> 0 \<and> a \<le> b)"

text \<open>
  a positive cap on the client's bitrates is applied to both limits, never raises one (zero
  counts as unlimited), is reported exactly when something changed, and applying it again
  changes nothing.
\<close>

theorem CapBitrate_lowers:
  assumes "0 < k" and "0 \<le> ci_MaxAudioBitrate ci" and "0 \<le> ci_MaxTranscodingAudioBitrate ci"
  defines "ci' \<equiv> snd (CapBitrate ci k)"
  shows "limit_le (ci_MaxAudioBitrate ci') k \<and> limit_le (ci_MaxTranscodingAudioBitrate ci') k \<and>
    limit_le (ci_MaxAudioBitrate ci') (ci_MaxAudioBitrate ci) \<and>
    limit_le (ci_MaxTranscodingAudioBitrate ci') (ci_MaxTranscodingAudioBitrate ci) \<and>
    (fst (CapBitrate ci k) \<longleftrightarrow> ci' \<noteq> ci) \<and> CapBitrate ci' k = (False, ci')"
proof -
  have "fst (CapBitrate ci k) \<longleftrightarrow> ci' \<noteq> ci"
  proof
    assume "fst (CapBitrate ci k)"
    then have "ci_MaxAudioBitrate ci' \<noteq> ci_MaxAudioBitrate ci \<or>
        ci_MaxTranscodingAudioBitrate ci' \<noteq> ci_MaxTranscodingAudioBitrate ci"
      using assms(1) by (auto simp: ci'_def CapBitrate_def Let_def split: if_splits)
    then show "ci' \<noteq> ci" by auto
  next
    assume "ci' \<noteq> ci"
    then show "fst (CapBitrate ci k)"
      by (auto simp: ci'_def CapBitrate_def Let_def split: if_splits)
  qed
  with assms(1-3) show ?thesis
    by (auto simp: ci'_def CapBitrate_def Let_def limit_le_def)
qed

definition example_client :: ClientInfo where
  "example_client = \<lparr>ci_Name = ''web'', ci_Platform = ''browser'', ci_MaxAudioBitrate = 0,
     ci_MaxTranscodingAudioBitrate = 320,
     ci_DirectPlayProfiles = [\<lparr>dp_Containers = [''mp3''], dp_AudioCodecs = [''mp3''],
       dp_Protocols = [''http''], dp_MaxAudioChannels = 2\<rparr>],
     ci_TranscodingProfiles = [\<lparr>tp_Container = ''ogg'', tp_AudioCodec = ''opus'',
       tp_Protocol = ''http'', tp_MaxAudioChannels = 2\<rparr>],
     ci_CodecProfiles = []\<rparr>"

theorem CapBitrate_lowers_witness:
  "ci_MaxAudioBitrate (snd (CapBitrate example_client 192)) = 192 \<and>
   limit_le (ci_MaxTranscodingAudioBitrate (snd (CapBitrate example_client 192))) 192 \<and>
   CapBitrate (snd (CapBitrate example_client 192)) 192 =
     (False, snd (CapBitrate example_client 192))"
proof -
  have "0 \<le> ci_MaxAudioBitrate example_client" "0 \<le> ci_MaxTranscodingAudioBitrate example_client"
    by (simp_all add: example_client_def)
  from CapBitrate_lowers [of 192 example_client, OF _ this] show ?thesis
    by (simp add: CapBitrate_def Let_def example_client_def)
qed

lemma ForceFormat_sound:
  assumes "ForceFormat ci f = (True, ci')"
  shows "ci_DirectPlayProfiles ci' = [] \<and> ci_TranscodingProfiles ci' \<noteq> [] \<and>
    set (ci_TranscodingProfiles ci') \<subseteq> set (ci_TranscodingProfiles ci) \<and>
    (\<forall>p \<in> set (ci_TranscodingProfiles ci'). matchesContainer (snd (resolveTargetFormat p)) [f])"
proof -
  let ?m = "filter (\<lambda>p. matchesContainer (snd (resolveTargetFormat p)) [f]) (ci_TranscodingProfiles ci)"
  have "?m \<noteq> []" "ci' = ci\<lparr>ci_TranscodingProfiles := ?m, ci_DirectPlayProfiles := []\<rparr>"
    using assms by (simp_all add: ForceFormat_def Let_def split: if_splits)
  then show ?thesis by auto
qed

subsection \<open>One limitation\<close>

datatype adjustResult = adjustNone | adjustAdjusted | adjustCannotFit

definition parseInt :: "string \<Rightarrow> int option" where
  "parseInt s = (case atoi s of None \<Rightarrow> None | Some v \<Rightarrow> if v < 0 then None else Some v)"

text \<open>The loop that looks for the largest allowed value below the current one.\<close>

fun closestBelow :: "int \<Rightarrow> string list \<Rightarrow> int option \<Rightarrow> int option" where
  "closestBelow current [] found = found"
| "closestBelow current (v # vs) found =
     closestBelow current vs
       (case parseInt v of
          None \<Rightarrow> found
        | Some limit \<Rightarrow>
            if limit < current then
              (case found of
                 None \<Rightarrow> Some limit
               | Some closest \<Rightarrow> if limit > closest then Some limit else found)
            else found)"

definition applyIntLimitation :: "string \<Rightarrow> string list \<Rightarrow> int \<Rightarrow> adjustResult \<times> int option" where
  "applyIntLimitation comparison vals current =
     (if vals = [] then (adjustNone, None)
      else if comparison = ComparisonLessThanEqual then
        (case parseInt (hd vals) of
           None \<Rightarrow> (adjustNone, None)
         | Some limit \<Rightarrow> if current \<le> limit then (adjustNone, None) else (adjustAdjusted, Some limit))
      else if comparison = ComparisonGreaterThanEqual then
        (case parseInt (hd vals) of
           None \<Rightarrow> (adjustNone, None)
         | Some limit \<Rightarrow> if current \<ge> limit then (adjustNone, None) else (adjustCannotFit, None))
      else if comparison = ComparisonEquals then
        (if list_ex (\<lambda>v. parseInt v = Some current) vals then (adjustNone, None)
         else
           (case closestBelow current vals None of
              Some closest \<Rightarrow> (adjustAdjusted, Some closest)
            | None \<Rightarrow> (adjustCannotFit, None)))
      else if comparison = ComparisonNotEquals then
        (if list_ex (\<lambda>v. parseInt v = Some current) vals then (adjustCannotFit, None)
         else (adjustNone, None))
      else (adjustNone, None))"

definition checkIntLimitation :: "int \<Rightarrow> string \<Rightarrow> string list \<Rightarrow> bool" where
  "checkIntLimitation val comparison vals \<longleftrightarrow>
     fst (applyIntLimitation comparison vals val) = adjustNone"

definition checkStringLimitation :: "string \<Rightarrow> string \<Rightarrow> string list \<Rightarrow> bool" where
  "checkStringLimitation val comparison vals \<longleftrightarrow>
     (if comparison = ComparisonEquals then list_ex (\<lambda>v. equal_fold val v) vals
      else if comparison = ComparisonNotEquals then \<not> list_ex (\<lambda>v. equal_fold val v) vals
      else True)"

fun checkLimitations :: "Details \<Rightarrow> Limitation list \<Rightarrow> string" where
  "checkLimitations src [] = []"
| "checkLimitations src (lm # lms) =
     (let check = (\<lambda>ok reason. if \<not> ok \<and> lim_Required lm then reason else checkLimitations src lms)
      in if lim_Name lm = LimitationAudioChannels then
           check (checkIntLimitation (d_Channels src) (lim_Comparison lm) (lim_Values lm))
             ''audio channels not supported''
         else if lim_Name lm = LimitationAudioSamplerate then
           check (checkIntLimitation (d_SampleRate src) (lim_Comparison lm) (lim_Values lm))
             ''audio samplerate not supported''
         else if lim_Name lm = LimitationAudioBitrate then
           check (checkIntLimitation (d_Bitrate src) (lim_Comparison lm) (lim_Values lm))
             ''audio bitrate not supported''
         else if lim_Name lm = LimitationAudioBitdepth then
           check (checkIntLimitation (d_BitDepth src) (lim_Comparison lm) (lim_Values lm))
             ''audio bitdepth not supported''
         else if lim_Name lm = LimitationAudioProfile then
           check (checkStringLimitation (d_Profile src) (lim_Comparison lm) (lim_Values lm))
             ''audio profile not supported''
         else checkLimitations src lms)"

text \<open>The setter is the function that stores the value in the stream.\<close>

definition set_with :: "(int \<Rightarrow> Details) \<Rightarrow> Details \<Rightarrow> adjustResult \<times> int option \<Rightarrow> adjustResult \<times> Details" where
  "set_with setter ts r = (fst r, case snd r of None \<Rightarrow> ts | Some v \<Rightarrow> setter v)"

definition applyLimitation :: "int \<Rightarrow> Limitation \<Rightarrow> Details \<Rightarrow> adjustResult \<times> Details" where
  "applyLimitation sourceBitrate lm ts =
     (if lim_Name lm = LimitationAudioChannels then
        set_with (\<lambda>v. ts\<lparr>d_Channels := v\<rparr>) ts
          (applyIntLimitation (lim_Comparison lm) (lim_Values lm) (d_Channels ts))
      else if lim_Name lm = LimitationAudioBitrate then
        set_with (\<lambda>v. ts\<lparr>d_Bitrate := v\<rparr>) ts
          (applyIntLimitation (lim_Comparison lm) (lim_Values lm)
            (if d_Bitrate ts = 0 then sourceBitrate else d_Bitrate ts))
      else if lim_Name lm = LimitationAudioSamplerate then
        set_with (\<lambda>v. ts\<lparr>d_SampleRate := v\<rparr>) ts
          (applyIntLimitation (lim_Comparison lm) (lim_Values lm) (d_SampleRate ts))
      else if lim_Name lm = LimitationAudioBitdepth then
        (if d_BitDepth ts > 0 then
           set_with (\<lambda>v. ts\<lparr>d_BitDepth := v\<rparr>) ts
             (applyIntLimitation (lim_Comparison lm) (lim_Values lm) (d_BitDepth ts))
         else (adjustNone, ts))
      else (adjustNone, ts))"

subsection \<open>What a limitation admits\<close>

definition listed :: "string list \<Rightarrow> int \<Rightarrow> bool" where
  "listed vals v \<longleftrightarrow> (\<exists>s \<in> set vals. parseInt s = Some v)"

definition int_allows :: "string \<Rightarrow> string list \<Rightarrow> int \<Rightarrow> bool" where
  "int_allows comparison vals v \<longleftrightarrow>
     vals = [] \<or>
     (if comparison = ComparisonLessThanEqual then
        (\<forall>l. parseInt (hd vals) = Some l \<longrightarrow> v \<le> l)
      else if comparison = ComparisonGreaterThanEqual then
        (\<forall>l. parseInt (hd vals) = Some l \<longrightarrow> l \<le> v)
      else if comparison = ComparisonEquals then listed vals v
      else if comparison = ComparisonNotEquals then \<not> listed vals v
      else True)"

lemma parseInt_nonneg: "parseInt s = Some v \<Longrightarrow> 0 \<le> v"
  by (auto simp: parseInt_def split: option.splits if_splits)

lemma closestBelow_spec:
  "closestBelow cur vs f = r \<Longrightarrow> (\<forall>x. f = Some x \<longrightarrow> x < cur) \<Longrightarrow>
    (case r of
       None \<Rightarrow> f = None \<and> (\<forall>v \<in> set vs. \<forall>l. parseInt v = Some l \<longrightarrow> \<not> l < cur)
     | Some c \<Rightarrow> c < cur \<and> (f = Some c \<or> listed vs c) \<and>
         (\<forall>x. f = Some x \<longrightarrow> x \<le> c) \<and>
         (\<forall>v \<in> set vs. \<forall>l. parseInt v = Some l \<longrightarrow> l < cur \<longrightarrow> l \<le> c))"
proof (induction cur vs f arbitrary: r rule: closestBelow.induct)
  case (1 current found)
  then show ?case by (cases r) (auto simp: listed_def)
next
  case (2 current v vs found)
  let ?g = "case parseInt v of None \<Rightarrow> found
      | Some limit \<Rightarrow> if limit < current then
            (case found of None \<Rightarrow> Some limit
             | Some closest \<Rightarrow> if limit > closest then Some limit else found)
          else found"
  have g: "\<forall>x. ?g = Some x \<longrightarrow> x < current"
    using 2(3) by (auto split: option.splits if_splits)
  have r: "closestBelow current vs ?g = r" using 2(2) by simp
  show ?case
    using 2(1) [OF r g] by (auto simp: listed_def split: option.splits if_splits)
qed

lemma closestBelow_None_start:
  "case closestBelow cur vs None of
     None \<Rightarrow> \<forall>v \<in> set vs. \<forall>l. parseInt v = Some l \<longrightarrow> \<not> l < cur
   | Some c \<Rightarrow> c < cur \<and> listed vs c \<and>
       (\<forall>v \<in> set vs. \<forall>l. parseInt v = Some l \<longrightarrow> l < cur \<longrightarrow> l \<le> c)"
  using closestBelow_spec [where cur = cur and vs = vs and f = None, OF refl] by (simp split: option.splits)

lemma applyIntLimitation_Equals:
  assumes "vals \<noteq> []"
  shows "case applyIntLimitation ComparisonEquals vals cur of
     (adjustNone, s) \<Rightarrow> listed vals cur \<and> s = None
   | (adjustAdjusted, s) \<Rightarrow> \<not> listed vals cur \<and>
       (\<exists>v. s = Some v \<and> v < cur \<and> listed vals v \<and>
         (\<forall>w. v < w \<and> w \<le> cur \<longrightarrow> \<not> listed vals w))
   | (adjustCannotFit, s) \<Rightarrow> s = None \<and> (\<forall>w. w \<le> cur \<longrightarrow> \<not> listed vals w)"
proof (cases "listed vals cur")
  case True
  then have "list_ex (\<lambda>v. parseInt v = Some cur) vals"
    by (simp add: list_ex_iff listed_def)
  with assms True show ?thesis by (simp add: applyIntLimitation_def)
next
  case False
  then have n: "\<not> list_ex (\<lambda>v. parseInt v = Some cur) vals"
    by (simp add: list_ex_iff listed_def)
  have r: "applyIntLimitation ComparisonEquals vals cur =
      (case closestBelow cur vals None of
         Some closest \<Rightarrow> (adjustAdjusted, Some closest) | None \<Rightarrow> (adjustCannotFit, None))"
    using assms n by (simp add: applyIntLimitation_def)
  show ?thesis
  proof (cases "closestBelow cur vals None")
    case None
    with closestBelow_None_start [where cur = cur and vs = vals] have
      "\<forall>v \<in> set vals. \<forall>l. parseInt v = Some l \<longrightarrow> \<not> l < cur" by simp
    with False have "\<not> listed vals w" if "w \<le> cur" for w
      using that by (metis listed_def order_le_less)
    with None r show ?thesis by simp
  next
    case (Some c)
    with closestBelow_None_start [where cur = cur and vs = vals] have
      c: "c < cur" "listed vals c"
        "\<forall>v \<in> set vals. \<forall>l. parseInt v = Some l \<longrightarrow> l < cur \<longrightarrow> l \<le> c" by simp_all
    have "\<not> listed vals w" if "c < w" "w \<le> cur" for w
      using that c(3) False by (metis listed_def leD order_le_less)
    with Some r c(1,2) False show ?thesis by simp
  qed
qed

lemma applyIntLimitation_cases:
  "case applyIntLimitation cmp vals cur of
     (adjustNone, s) \<Rightarrow> int_allows cmp vals cur \<and> s = None
   | (adjustAdjusted, s) \<Rightarrow> \<not> int_allows cmp vals cur \<and>
       (\<exists>v. s = Some v \<and> v < cur \<and> int_allows cmp vals v \<and>
         (\<forall>w. v < w \<and> w \<le> cur \<longrightarrow> \<not> int_allows cmp vals w))
   | (adjustCannotFit, s) \<Rightarrow> s = None \<and> \<not> int_allows cmp vals cur \<and>
       (cmp \<noteq> ComparisonNotEquals \<longrightarrow> (\<forall>w. w \<le> cur \<longrightarrow> \<not> int_allows cmp vals w))"
proof (cases "vals = [] \<or> cmp \<noteq> ComparisonEquals")
  case True
  then consider "vals = []" | "vals \<noteq> []" "cmp = ComparisonLessThanEqual"
    | "vals \<noteq> []" "cmp = ComparisonGreaterThanEqual" | "vals \<noteq> []" "cmp = ComparisonNotEquals"
    | "cmp \<notin> {ComparisonLessThanEqual, ComparisonGreaterThanEqual, ComparisonEquals,
        ComparisonNotEquals}"
    by auto
  then show ?thesis
    by cases (auto simp: applyIntLimitation_def int_allows_def list_ex_iff listed_def
        split: option.splits)
next
  case False
  with applyIntLimitation_Equals [of vals cur] show ?thesis
    by (auto simp: int_allows_def split: prod.splits adjustResult.splits)
qed

text \<open>
  Applying a limitation to a value reports no adjustment exactly when the limitation admits
  the value; otherwise an adjusted value is the largest admitted value below the current one, so
  nothing is ever raised, and a rejection means that no value up to the current one is admitted
  (a forbidden value, comparison \<open>NotEquals\<close>, is rejected without looking for another).
\<close>

theorem applyIntLimitation_spec:
  "case applyIntLimitation cmp vals cur of
     (adjustNone, s) \<Rightarrow> int_allows cmp vals cur \<and> s = None
   | (adjustAdjusted, s) \<Rightarrow> \<not> int_allows cmp vals cur \<and>
       (\<exists>v. s = Some v \<and> v < cur \<and> int_allows cmp vals v \<and>
         (\<forall>w. v < w \<and> w \<le> cur \<longrightarrow> \<not> int_allows cmp vals w))
   | (adjustCannotFit, s) \<Rightarrow> s = None \<and> \<not> int_allows cmp vals cur \<and>
       (cmp \<noteq> ComparisonNotEquals \<longrightarrow> (\<forall>w. w \<le> cur \<longrightarrow> \<not> int_allows cmp vals w))"
  by (rule applyIntLimitation_cases)

theorem applyIntLimitation_spec_witness:
  "applyIntLimitation ''Equals'' [''44100'', ''x'', ''22050''] 48000 = (adjustAdjusted, Some 44100) \<and>
   int_allows ''Equals'' [''44100'', ''x'', ''22050''] 44100 \<and>
   \<not> int_allows ''Equals'' [''44100'', ''x'', ''22050''] 48000"
proof -
  have e: "applyIntLimitation ''Equals'' [''44100'', ''x'', ''22050''] 48000 =
      (adjustAdjusted, Some 44100)"
    by code_simp
  from applyIntLimitation_spec [of "''Equals''" "[''44100'', ''x'', ''22050'']" 48000, unfolded e]
  show ?thesis using e by simp
qed

lemma applyIntLimitation_SomeD:
  "applyIntLimitation cmp vals cur = (r, Some v) \<Longrightarrow> r = adjustAdjusted \<and> v < cur"
  using applyIntLimitation_cases [of cmp vals cur] by (auto split: adjustResult.splits)

lemma applyIntLimitation_NoneD:
  "applyIntLimitation cmp vals cur = (r, None) \<Longrightarrow> r \<noteq> adjustAdjusted"
  using applyIntLimitation_cases [of cmp vals cur] by (auto split: adjustResult.splits)

subsection \<open>Limitations never raise a value\<close>

text \<open>What applying a limitation may change of a stream: the four numbers, downwards. The bitrate
  may also leave zero, its value for a lossless target, and then goes below the source's.\<close>

definition lowers :: "int \<Rightarrow> Details \<Rightarrow> Details \<Rightarrow> bool" where
  "lowers sourceBitrate ts ts' \<longleftrightarrow>
     d_Channels ts' \<le> d_Channels ts \<and> d_SampleRate ts' \<le> d_SampleRate ts \<and>
     d_BitDepth ts' \<le> d_BitDepth ts \<and>
     (d_Bitrate ts' \<le> d_Bitrate ts \<or> (d_Bitrate ts = 0 \<and> d_Bitrate ts' < sourceBitrate)) \<and>
     d_Container ts' = d_Container ts \<and> d_Codec ts' = d_Codec ts \<and>
     d_IsLossless ts' = d_IsLossless ts"

lemma lowers_refl [simp]: "lowers sb ts ts"
  by (simp add: lowers_def)

lemma set_with_simps [simp]:
  "set_with f ts (r, None) = (r, ts)" "set_with f ts (r, Some v) = (r, f v)"
  by (simp_all add: set_with_def)

lemma applyLimitation_lowers:
  assumes "applyLimitation sb lm ts = (r, ts')"
  shows "lowers sb ts ts' \<and> (r = adjustAdjusted \<or> ts' = ts)"
proof -
  have "lowers sb ts ts' \<and> (r = adjustAdjusted \<or> ts' = ts)"
    if "set_with f ts (applyIntLimitation cmp vals cur) = (r, ts')"
      and "\<And>v. v < cur \<Longrightarrow> lowers sb ts (f v)" for f cmp vals cur
  proof (cases "snd (applyIntLimitation cmp vals cur)")
    case None
    with that(1) show ?thesis by (simp add: set_with_def)
  next
    case (Some v)
    then obtain r' where r': "applyIntLimitation cmp vals cur = (r', Some v)"
      by (metis prod.collapse)
    from applyIntLimitation_SomeD [OF this] that r' show ?thesis by auto
  qed
  note set = this
  show ?thesis
    using assms
    by (auto simp: applyLimitation_def split: if_splits intro!: set [THEN conjunct1] set [THEN conjunct2])
      (auto simp: lowers_def dest: set)
qed

lemma applyLimitation_bitrate:
  assumes "applyLimitation sb lm ts = (r, ts')" and "d_Bitrate ts' \<noteq> d_Bitrate ts"
  shows "lim_Name lm = LimitationAudioBitrate \<and> r = adjustAdjusted"
proof -
  have "ts' \<noteq> ts" using assms(2) by auto
  with applyLimitation_lowers [OF assms(1)] have "r = adjustAdjusted" by simp
  moreover have "lim_Name lm = LimitationAudioBitrate"
    using assms by (auto simp: applyLimitation_def set_with_def split: if_splits option.splits)
  ultimately show ?thesis by simp
qed

lemma applyIntLimitation_listed:
  assumes "applyIntLimitation cmp vals cur = (r, Some v)"
  shows "listed vals v"
proof (cases "cmp = ComparisonEquals")
  case True
  from assms have "vals \<noteq> []" by (auto simp: applyIntLimitation_def)
  with assms True applyIntLimitation_cases [of cmp vals cur] show ?thesis
    by (auto simp: int_allows_def split: adjustResult.splits)
next
  case False
  with assms have "vals \<noteq> []" "parseInt (hd vals) = Some v"
    by (auto simp: applyIntLimitation_def split: if_splits option.splits)
  then show ?thesis unfolding listed_def by (metis hd_in_set)
qed

end
