(* ===== verification/Transcoding_Repo.thy ===== *)
theory Transcoding_Repo
  imports Prelude
begin

text \<open>
  \<open>persistence/transcoding_repository.go\<close> over the table \<open>transcoding\<close>: a list of rows with the
  constraints of its migration (primary key \<open>id\<close>, unique \<open>name\<close>, unique \<open>target_format\<close>), whose
  violation is an error of the write. The random id of an insert is an argument. Failures of the
  database connection itself are not modelled.

  The locale \<open>transcoding_store\<close> is what the transcode decider relies on: reading a format gives
  an entry for that format, and a stored entry is the one that is read. It is interpreted on
  this repository.
\<close>

record Transcoding =
  trc_ID :: string
  trc_Name :: string
  trc_TargetFormat :: string
  trc_Command :: string
  trc_DefaultBitRate :: int

datatype repo_error = ErrNotFound | ErrPermissionDenied | ErrConstraint

type_synonym transcoding_table = "Transcoding list"

definition Get_transcoding :: "transcoding_table \<Rightarrow> string \<Rightarrow> repo_error + Transcoding" where
  "Get_transcoding db i =
     (case List.find (\<lambda>t. trc_ID t = i) db of None \<Rightarrow> Inl ErrNotFound | Some t \<Rightarrow> Inr t)"

definition FindByFormat :: "transcoding_table \<Rightarrow> string \<Rightarrow> repo_error + Transcoding" where
  "FindByFormat db format =
     (case List.find (\<lambda>t. trc_TargetFormat t = format) db of None \<Rightarrow> Inl ErrNotFound | Some t \<Rightarrow> Inr t)"

text \<open>A row of another id that holds the name or the format of \<open>t\<close>.\<close>

definition unique_conflict :: "transcoding_table \<Rightarrow> Transcoding \<Rightarrow> bool" where
  "unique_conflict db t \<longleftrightarrow>
     list_ex (\<lambda>r. trc_ID r \<noteq> trc_ID t \<and>
       (trc_Name r = trc_Name t \<or> trc_TargetFormat r = trc_TargetFormat t)) db"

text \<open>\<open>sqlRepository.put\<close> on this table: update by id first, then insert.\<close>

definition put_transcoding ::
  "string \<Rightarrow> transcoding_table \<Rightarrow> string \<Rightarrow> Transcoding \<Rightarrow> repo_error + (string \<times> transcoding_table)" where
  "put_transcoding newId db i t =
     (if i \<noteq> [] \<and> list_ex (\<lambda>r. trc_ID r = i) db then
        let t' = t\<lparr>trc_ID := i\<rparr>
        in if unique_conflict db t' then Inl ErrConstraint
           else Inr (i, map (\<lambda>r. if trc_ID r = i then t' else r) db)
      else
        let i' = (if i = [] then newId else i); t' = t\<lparr>trc_ID := i'\<rparr>
        in if list_ex (\<lambda>r. trc_ID r = i') db \<or> unique_conflict db t' then Inl ErrConstraint
           else Inr (i', db @ [t']))"

definition Put_transcoding ::
  "bool \<Rightarrow> string \<Rightarrow> transcoding_table \<Rightarrow> Transcoding \<Rightarrow> repo_error + transcoding_table" where
  "Put_transcoding isAdmin newId db t =
     (if \<not> isAdmin then Inl ErrPermissionDenied
      else map_sum id snd (put_transcoding newId db (trc_ID t) t))"

definition Read_transcoding :: "bool \<Rightarrow> transcoding_table \<Rightarrow> string \<Rightarrow> repo_error + Transcoding" where
  "Read_transcoding isAdmin db i =
     (case Get_transcoding db i of
        Inl e \<Rightarrow> Inl e
      | Inr res \<Rightarrow> Inr (if \<not> isAdmin then res\<lparr>trc_Command := []\<rparr> else res))"

definition ReadAll_transcodings :: "bool \<Rightarrow> transcoding_table \<Rightarrow> Transcoding list" where
  "ReadAll_transcodings isAdmin db =
     (if \<not> isAdmin then map (\<lambda>r. r\<lparr>trc_Command := []\<rparr>) db else db)"

definition Save_transcoding ::
  "bool \<Rightarrow> string \<Rightarrow> transcoding_table \<Rightarrow> Transcoding \<Rightarrow> repo_error + (string \<times> transcoding_table)" where
  "Save_transcoding isAdmin newId db t =
     (if \<not> isAdmin then Inl ErrPermissionDenied else put_transcoding newId db (trc_ID t) t)"

definition Update_transcoding ::
  "bool \<Rightarrow> string \<Rightarrow> transcoding_table \<Rightarrow> string \<Rightarrow> Transcoding \<Rightarrow> repo_error + transcoding_table" where
  "Update_transcoding isAdmin newId db i t =
     (if \<not> isAdmin then Inl ErrPermissionDenied
      else map_sum id snd (put_transcoding newId db i (t\<lparr>trc_ID := i\<rparr>)))"

definition Delete_transcoding ::
  "bool \<Rightarrow> transcoding_table \<Rightarrow> string \<Rightarrow> repo_error + transcoding_table" where
  "Delete_transcoding isAdmin db i =
     (if \<not> isAdmin then Inl ErrPermissionDenied else Inr (filter (\<lambda>r. trc_ID r \<noteq> i) db))"

subsection \<open>Invariant\<close>

definition table_inv :: "transcoding_table \<Rightarrow> bool" where
  "table_inv db \<longleftrightarrow> distinct (map trc_ID db) \<and> distinct (map trc_Name db) \<and>
     distinct (map trc_TargetFormat db)"

lemma find_distinct:
  "distinct (map f xs) \<Longrightarrow> x \<in> set xs \<Longrightarrow> List.find (\<lambda>y. f y = f x) xs = Some x"
  by (induction xs) auto

lemma distinct_map_update:
  assumes "distinct (map f xs)"
    and "\<And>y. y \<in> set xs \<Longrightarrow> \<not> p y \<Longrightarrow> f y \<noteq> f z"
    and "\<And>x y. x \<in> set xs \<Longrightarrow> y \<in> set xs \<Longrightarrow> p x \<Longrightarrow> p y \<Longrightarrow> x = y"
  shows "distinct (map f (map (\<lambda>r. if p r then z else r) xs))"
  using assms
proof (induction xs)
  case (Cons a xs)
  let ?u = "\<lambda>r. if p r then z else r"
  have IH: "distinct (map f (map ?u xs))"
    using Cons.prems by (intro Cons.IH) simp_all
  have a: "f a \<notin> f ` set xs" using Cons.prems(1) by simp
  show ?case
  proof (cases "p a")
    case True
    have "\<not> p r" if "r \<in> set xs" for r
    proof
      assume "p r"
      with Cons.prems(3) [of a r] True that have "a = r" by simp
      with a that show False by simp
    qed
    then have "map ?u xs = xs" by (auto intro: map_idI)
    moreover have "f z \<notin> f ` set xs"
      using Cons.prems(2) \<open>\<And>r. r \<in> set xs \<Longrightarrow> \<not> p r\<close> by (metis imageE list.set_intros(2))
    ultimately have "map ?u xs = xs" "f z \<notin> f ` set xs" by simp_all
    with True IH show ?thesis by simp
  next
    case False
    have "f a \<noteq> f (?u r)" if "r \<in> set xs" for r
      using that a Cons.prems(2) [of a] False by auto
    with False IH show ?thesis by auto
  qed
qed simp

lemma put_transcoding_inv:
  assumes "table_inv db" and "put_transcoding newId db i t = Inr (i', db')"
  shows "table_inv db' \<and> t\<lparr>trc_ID := i'\<rparr> \<in> set db'"
proof (cases "i \<noteq> [] \<and> list_ex (\<lambda>r. trc_ID r = i) db")
  case True
  let ?t = "t\<lparr>trc_ID := i\<rparr>"
  have nc: "\<not> unique_conflict db ?t" and i': "i' = i"
    and db': "db' = map (\<lambda>r. if trc_ID r = i then ?t else r) db"
    using assms(2) True by (auto simp: put_transcoding_def Let_def split: if_splits)
  have one: "x = y" if "x \<in> set db" "y \<in> set db" "trc_ID x = i" "trc_ID y = i" for x y
    using assms(1) that by (auto simp: table_inv_def distinct_map inj_on_def)
  have other: "trc_Name y \<noteq> trc_Name ?t \<and> trc_TargetFormat y \<noteq> trc_TargetFormat ?t"
    if "y \<in> set db" "trc_ID y \<noteq> i" for y
    using nc that by (auto simp: unique_conflict_def list_ex_iff)
  have "table_inv db'"
    unfolding table_inv_def db' using assms(1) one other
    by (intro conjI distinct_map_update) (auto simp: table_inv_def)
  moreover have "?t \<in> set db'" using True by (auto simp: db' list_ex_iff)
  ultimately show ?thesis by (simp add: i')
next
  case False
  let ?j = "if i = [] then newId else i"
  let ?t = "t\<lparr>trc_ID := ?j\<rparr>"
  have nc: "\<not> unique_conflict db ?t" "\<not> list_ex (\<lambda>r. trc_ID r = ?j) db" and i': "i' = ?j"
    and db': "db' = db @ [?t]"
    using assms(2) False by (auto simp: put_transcoding_def Let_def split: if_splits)
  then have "table_inv db'"
    using assms(1) unfolding table_inv_def unique_conflict_def list_ex_iff by auto
  then show ?thesis by (simp add: db' i')
qed

lemma table_inv_filter: "table_inv db \<Longrightarrow> table_inv (filter p db)"
  by (simp add: table_inv_def distinct_map_filter)

lemma FindByFormat_member:
  "table_inv db \<Longrightarrow> t \<in> set db \<Longrightarrow> FindByFormat db (trc_TargetFormat t) = Inr t"
  by (simp add: FindByFormat_def table_inv_def find_distinct)

lemma FindByFormat_format: "FindByFormat db f = Inr t \<Longrightarrow> trc_TargetFormat t = f"
  by (auto simp: FindByFormat_def find_Some_iff split: option.splits)

subsection \<open>The interface of the decider\<close>

locale transcoding_store =
  fixes find_format :: "'db \<Rightarrow> string \<Rightarrow> 'e + Transcoding"
    and store :: "'db \<Rightarrow> Transcoding \<Rightarrow> 'e + 'db"
    and db_inv :: "'db \<Rightarrow> bool"
  assumes find_format_target: "find_format db f = Inr t \<Longrightarrow> trc_TargetFormat t = f"
    and store_inv: "db_inv db \<Longrightarrow> store db t = Inr db' \<Longrightarrow> db_inv db'"
    and find_stored: "db_inv db \<Longrightarrow> store db t = Inr db' \<Longrightarrow>
      \<exists>i. find_format db' (trc_TargetFormat t) = Inr (t\<lparr>trc_ID := i\<rparr>)"
begin

lemma stored_command:
  assumes "db_inv db" and "store db t = Inr db'"
  obtains u where "find_format db' (trc_TargetFormat t) = Inr u"
    "trc_Command u = trc_Command t" "trc_DefaultBitRate u = trc_DefaultBitRate t"
proof -
  obtain i where "find_format db' (trc_TargetFormat t) = Inr (t\<lparr>trc_ID := i\<rparr>)"
    using find_stored [OF assms] by blast
  then show thesis by (rule that) simp_all
qed

end

interpretation repo: transcoding_store FindByFormat "Put_transcoding isAdmin newId" table_inv
  for isAdmin newId
proof unfold_locales
  fix db t db'
  assume inv: "table_inv db" and put: "Put_transcoding isAdmin newId db t = Inr db'"
  then obtain i where p: "put_transcoding newId db (trc_ID t) t = Inr (i, db')"
    by (cases "put_transcoding newId db (trc_ID t) t")
      (auto simp: Put_transcoding_def split: if_splits)
  show "table_inv db'" using put_transcoding_inv [OF inv p] by simp
  show "\<exists>i. FindByFormat db' (trc_TargetFormat t) = Inr (t\<lparr>trc_ID := i\<rparr>)"
    using put_transcoding_inv [OF inv p] FindByFormat_member [of db' "t\<lparr>trc_ID := i\<rparr>"] by auto
qed (rule FindByFormat_format)

text \<open>
  a user who is not an administrator reads no transcoding command and cannot write: every
  write is refused with a permission error, and every entry read has an empty command.
\<close>

theorem transcodings_protected:
  "Put_transcoding False newId db t = Inl ErrPermissionDenied \<and>
   Save_transcoding False newId db t = Inl ErrPermissionDenied \<and>
   Update_transcoding False newId db i t = Inl ErrPermissionDenied \<and>
   Delete_transcoding False db i = Inl ErrPermissionDenied \<and>
   (case Read_transcoding False db i of
      Inl e \<Rightarrow> e = ErrNotFound \<and> i \<notin> trc_ID ` set db
    | Inr r \<Rightarrow> trc_Command r = [] \<and> (\<exists>row \<in> set db. trc_ID row = i \<and> r = row\<lparr>trc_Command := []\<rparr>)) \<and>
   trc_Command ` set (ReadAll_transcodings False db) \<subseteq> {[]} \<and>
   length (ReadAll_transcodings False db) = length db"
proof -
  have "case Read_transcoding False db i of
      Inl e \<Rightarrow> e = ErrNotFound \<and> i \<notin> trc_ID ` set db
    | Inr r \<Rightarrow> trc_Command r = [] \<and> (\<exists>row \<in> set db. trc_ID row = i \<and> r = row\<lparr>trc_Command := []\<rparr>)"
  proof (cases "List.find (\<lambda>t. trc_ID t = i) db")
    case None
    then have "i \<notin> trc_ID ` set db" by (auto simp: find_None_iff)
    with None show ?thesis by (simp add: Read_transcoding_def Get_transcoding_def)
  next
    case (Some row)
    then have "row \<in> set db" "trc_ID row = i" by (auto simp: find_Some_iff)
    with Some show ?thesis by (auto simp: Read_transcoding_def Get_transcoding_def)
  qed
  then show ?thesis
    by (auto simp: Put_transcoding_def Save_transcoding_def Update_transcoding_def
        Delete_transcoding_def ReadAll_transcodings_def)
qed

end
