(* ===== verification/Stream_Decider.thy ===== *)
theory Stream_Decider
  imports Stream_Types Transcoding_Repo
begin

text \<open>
  \<open>core/stream/decider.go\<close>: the transcode decision. The service's collaborators are the record
  \<open>decider_env\<close>: the transcoding repository (\<open>FindByFormat\<close>), the ffmpeg wrapper
  (\<open>IsProbeAvailable\<close>, \<open>ProbeAudioStream\<close>), the JSON encoding of a probe result and the
  configuration flag. Probing mutates the media file and writes the probe data to the database:
  \<open>ensureProbed\<close> and \<open>MakeDecision\<close> return the media file after the call and the writes they
  attempted, in order. Logging is left out. A rejected profile is \<^const>\<open>None\<close> where the code
  returns \<open>nil, ""\<close> or \<open>false\<close>.
\<close>

record decider_env =
  de_FindByFormat :: "string \<Rightarrow> repo_error + Transcoding"
  de_IsProbeAvailable :: bool
  de_DevEnableMediaFileProbe :: bool
  de_ProbeAudioStream :: "string \<Rightarrow> string + AudioProbeResult"
  de_Marshal :: "AudioProbeResult \<Rightarrow> string + string"
  de_Unmarshal :: "string \<Rightarrow> string + AudioProbeResult"

datatype decider_error = ErrProbing string string | ErrMarshaling string string

subsection \<open>Transcoding commands and bitrates\<close>

definition fallbackBitrate :: int where
  "fallbackBitrate = 256"

text \<open>\<open>consts.DefaultTranscodings\<close>.\<close>

definition DefaultTranscodings :: "Transcoding list" where
  "DefaultTranscodings =
    [\<lparr>trc_ID = [], trc_Name = ''mp3 audio'', trc_TargetFormat = ''mp3'',
       trc_Command = ''ffmpeg -ss %t -i %s -map 0:a:0 -map_metadata 0 -map_metadata 0:s:a:0 -b:a %bk -v 0 -f mp3 -'',
       trc_DefaultBitRate = 192\<rparr>,
     \<lparr>trc_ID = [], trc_Name = ''opus audio'', trc_TargetFormat = ''opus'',
       trc_Command = ''ffmpeg -ss %t -i %s -map 0:a:0 -map_metadata 0 -map_metadata 0:s:a:0 -b:a %bk -v 0 -c:a libopus -f opus -'',
       trc_DefaultBitRate = 128\<rparr>,
     \<lparr>trc_ID = [], trc_Name = ''aac audio'', trc_TargetFormat = ''aac'',
       trc_Command = ''ffmpeg -ss %t -i %s -map 0:a:0 -map_metadata 0 -map_metadata 0:s:a:0 -b:a %bk -v 0 -c:a aac -f adts -'',
       trc_DefaultBitRate = 256\<rparr>,
     \<lparr>trc_ID = [], trc_Name = ''flac audio'', trc_TargetFormat = ''flac'',
       trc_Command = ''ffmpeg -ss %t -i %s -map 0:a:0 -map_metadata 0 -map_metadata 0:s:a:0 -v 0 -c:a flac -f flac -'',
       trc_DefaultBitRate = 0\<rparr>]"

definition lookupDefaultBitrate :: "(string \<Rightarrow> repo_error + Transcoding) \<Rightarrow> string \<Rightarrow> int" where
  "lookupDefaultBitrate findByFormat format =
     (let builtin =
        (case List.find (\<lambda>dt. trc_TargetFormat dt = format \<and> trc_DefaultBitRate dt > 0) DefaultTranscodings of
           Some dt \<Rightarrow> trc_DefaultBitRate dt
         | None \<Rightarrow> fallbackBitrate)
      in case findByFormat format of
           Inr t \<Rightarrow> if trc_DefaultBitRate t > 0 then trc_DefaultBitRate t else builtin
         | Inl _ \<Rightarrow> builtin)"

definition LookupTranscodeCommand :: "(string \<Rightarrow> repo_error + Transcoding) \<Rightarrow> string \<Rightarrow> string" where
  "LookupTranscodeCommand findByFormat format =
     (let builtin =
        (case List.find (\<lambda>dt. trc_TargetFormat dt = format) DefaultTranscodings of
           Some dt \<Rightarrow> trc_Command dt
         | None \<Rightarrow> [])
      in case findByFormat format of
           Inr t \<Rightarrow> if trc_Command t \<noteq> [] then trc_Command t else builtin
         | Inl _ \<Rightarrow> builtin)"

subsection \<open>The source stream\<close>

definition parseProbeData :: "decider_env \<Rightarrow> string \<Rightarrow> string + AudioProbeResult option" where
  "parseProbeData env data =
     (if data = [] then Inr None
      else case de_Unmarshal env data of Inl err \<Rightarrow> Inl err | Inr result \<Rightarrow> Inr (Some result))"

definition buildSourceStream :: "decider_env \<Rightarrow> MediaFile \<Rightarrow> AudioProbeResult option \<Rightarrow> Details" where
  "buildSourceStream env mf probe =
     (let sd = empty_Details\<lparr>d_Container := mf_Suffix mf, d_Duration := mf_Duration mf, d_Size := mf_Size mf\<rparr>;
          probe' = (case probe of
                      Some p \<Rightarrow> Some p
                    | None \<Rightarrow> (case parseProbeData env (mf_ProbeData mf) of Inl _ \<Rightarrow> None | Inr p \<Rightarrow> p));
          sd' = (case probe' of
                   Some p \<Rightarrow>
                     sd\<lparr>d_Codec := normalizeProbeCodec (pr_Codec p), d_Profile := pr_Profile p,
                        d_Bitrate := pr_BitRate p, d_SampleRate := pr_SampleRate p,
                        d_BitDepth := pr_BitDepth p, d_Channels := pr_Channels p\<rparr>
                 | None \<Rightarrow>
                     sd\<lparr>d_Codec := AudioCodec mf, d_Bitrate := mf_BitRate mf,
                        d_SampleRate := mf_SampleRate mf, d_BitDepth := V (mf_BitDepth mf),
                        d_Channels := mf_Channels mf\<rparr>)
      in sd'\<lparr>d_IsLossless := isLosslessFormat (d_Codec sd')\<rparr>)"

definition ensureProbed ::
  "decider_env \<Rightarrow> MediaFile \<Rightarrow>
     MediaFile \<times> (string \<times> string) list \<times> (decider_error + AudioProbeResult option)" where
  "ensureProbed env mf =
     (if mf_ProbeData mf \<noteq> [] then (mf, [], Inr None)
      else if \<not> de_DevEnableMediaFileProbe env then (mf, [], Inr None)
      else
        (case de_ProbeAudioStream env (AbsolutePath mf) of
           Inl err \<Rightarrow> (mf, [], Inl (ErrProbing (mf_ID mf) err))
         | Inr result \<Rightarrow>
             (case de_Marshal env result of
                Inl err \<Rightarrow> (mf, [], Inl (ErrMarshaling (mf_ID mf) err))
              | Inr data \<Rightarrow>
                  (mf\<lparr>mf_ProbeData := data\<rparr>, [(mf_ID mf, data)], Inr (Some result)))))"

subsection \<open>Direct play\<close>

definition matchesPCMWAVBridge :: "Details \<Rightarrow> DirectPlayProfile \<Rightarrow> bool" where
  "matchesPCMWAVBridge src profile \<longleftrightarrow>
     equal_fold (d_Codec src) ''pcm'' \<and> equal_fold (d_Container src) ''wav'' \<and>
     containsIgnoreCase (dp_AudioCodecs profile) ''wav''"

fun checkCodecProfiles :: "Details \<Rightarrow> CodecProfile list \<Rightarrow> string" where
  "checkCodecProfiles src [] = []"
| "checkCodecProfiles src (cp # cps) =
     (if equal_fold (cp_Type cp) CodecProfileTypeAudio \<and> matchesCodec (d_Codec src) [cp_Name cp] then
        (let reason = checkLimitations src (cp_Limitations cp)
         in if reason \<noteq> [] then reason else checkCodecProfiles src cps)
      else checkCodecProfiles src cps)"

definition checkDirectPlayProfile :: "Details \<Rightarrow> DirectPlayProfile \<Rightarrow> ClientInfo \<Rightarrow> string" where
  "checkDirectPlayProfile src profile clientInfo =
     (if dp_Protocols profile \<noteq> [] \<and> \<not> containsIgnoreCase (dp_Protocols profile) ProtocolHTTP then
        ''protocol not supported''
      else if dp_Containers profile \<noteq> [] \<and> \<not> matchesContainer (d_Container src) (dp_Containers profile) then
        ''container '' @ [CHR 0x27] @ d_Container src @ [CHR 0x27] @ '' not supported by profile ''
          @ show_DirectPlayProfile profile
      else if dp_AudioCodecs profile \<noteq> [] \<and> \<not> matchesCodec (d_Codec src) (dp_AudioCodecs profile)
          \<and> \<not> matchesPCMWAVBridge src profile then
        ''audio codec '' @ [CHR 0x27] @ d_Codec src @ [CHR 0x27] @ '' not supported by profile ''
          @ show_DirectPlayProfile profile
      else if dp_MaxAudioChannels profile > 0 \<and> d_Channels src > dp_MaxAudioChannels profile then
        ''audio channels '' @ itoa (d_Channels src) @ '' not supported by profile ''
          @ show_DirectPlayProfile profile @ '' (max '' @ itoa (dp_MaxAudioChannels profile) @ '')''
      else checkCodecProfiles src (ci_CodecProfiles clientInfo))"

text \<open>The loop over the direct-play profiles, with the reasons collected so far.\<close>

fun tryDirectPlay :: "Details \<Rightarrow> ClientInfo \<Rightarrow> DirectPlayProfile list \<Rightarrow> string list \<Rightarrow> bool \<times> string list" where
  "tryDirectPlay src clientInfo [] reasons = (False, reasons)"
| "tryDirectPlay src clientInfo (p # ps) reasons =
     (let reason = checkDirectPlayProfile src p clientInfo
      in if reason = [] then (True, [])
         else tryDirectPlay src clientInfo ps (reasons @ [reason]))"

subsection \<open>Transcoding\<close>

definition computeBitrate ::
  "decider_env \<Rightarrow> Details \<Rightarrow> string \<Rightarrow> bool \<Rightarrow> ClientInfo \<Rightarrow> Details \<Rightarrow> Details option" where
  "computeBitrate env src targetFormat targetIsLossless clientInfo ts =
     (let maxAudio = ci_MaxAudioBitrate clientInfo;
          maxTrans = ci_MaxTranscodingAudioBitrate clientInfo;
          chosen =
            (if d_IsLossless src then
               (if \<not> targetIsLossless then
                  Some (ts\<lparr>d_Bitrate := (if maxTrans > 0 then maxTrans
                                        else if maxAudio > 0 then maxAudio
                                        else lookupDefaultBitrate (de_FindByFormat env) targetFormat)\<rparr>)
                else if maxAudio > 0 \<and> d_Bitrate src > maxAudio then None
                else Some ts)
             else Some (ts\<lparr>d_Bitrate := d_Bitrate src\<rparr>))
      in case chosen of
           None \<Rightarrow> None
         | Some ts' \<Rightarrow>
             Some (if maxAudio > 0 \<and> d_Bitrate ts' > 0 \<and> d_Bitrate ts' > maxAudio
                   then ts'\<lparr>d_Bitrate := maxAudio\<rparr> else ts'))"

fun applyLimitationList :: "int \<Rightarrow> bool \<Rightarrow> Limitation list \<Rightarrow> Details \<Rightarrow> Details option" where
  "applyLimitationList sourceBitrate targetIsLossless [] ts = Some ts"
| "applyLimitationList sourceBitrate targetIsLossless (lm # lms) ts =
     (case applyLimitation sourceBitrate lm ts of
        (result, ts') \<Rightarrow>
          if equal_fold (lim_Name lm) LimitationAudioBitrate \<and> targetIsLossless \<and> result = adjustAdjusted
          then None
          else if result = adjustCannotFit then None
          else applyLimitationList sourceBitrate targetIsLossless lms ts')"

fun applyCodecProfiles :: "int \<Rightarrow> bool \<Rightarrow> string \<Rightarrow> CodecProfile list \<Rightarrow> Details \<Rightarrow> Details option" where
  "applyCodecProfiles sourceBitrate targetIsLossless targetCodec [] ts = Some ts"
| "applyCodecProfiles sourceBitrate targetIsLossless targetCodec (cp # cps) ts =
     (if \<not> equal_fold (cp_Type cp) CodecProfileTypeAudio then
        applyCodecProfiles sourceBitrate targetIsLossless targetCodec cps ts
      else if \<not> matchesCodec targetCodec [cp_Name cp] then
        applyCodecProfiles sourceBitrate targetIsLossless targetCodec cps ts
      else
        (case applyLimitationList sourceBitrate targetIsLossless (cp_Limitations cp) ts of
           None \<Rightarrow> None
         | Some ts' \<Rightarrow> applyCodecProfiles sourceBitrate targetIsLossless targetCodec cps ts'))"

definition applyCodecLimitations :: "int \<Rightarrow> bool \<Rightarrow> ClientInfo \<Rightarrow> Details \<Rightarrow> Details option" where
  "applyCodecLimitations sourceBitrate targetIsLossless clientInfo ts =
     applyCodecProfiles sourceBitrate targetIsLossless (d_Codec ts) (ci_CodecProfiles clientInfo) ts"

text \<open>The stream before its bitrate and the client's limitations, with the codec's own limits.\<close>

definition initialTarget :: "Details \<Rightarrow> Profile \<Rightarrow> Details" where
  "initialTarget src profile =
     (case resolveTargetFormat profile of
        (responseContainer, targetFormat) \<Rightarrow>
          let targetIsLossless = isLosslessFormat targetFormat;
              ts0 = empty_Details\<lparr>d_Container := responseContainer,
                      d_Codec := to_lower (tp_AudioCodec profile),
                      d_SampleRate := normalizeSourceSampleRate (d_SampleRate src) (d_Codec src),
                      d_Channels := d_Channels src,
                      d_BitDepth := targetBitDepth (d_BitDepth src) (d_Codec src) targetIsLossless,
                      d_IsLossless := targetIsLossless\<rparr>;
              ts1 = (if d_Codec ts0 = [] then ts0\<lparr>d_Codec := targetFormat\<rparr> else ts0);
              fixedRate = codecFixedOutputSampleRate (d_Codec ts1);
              ts2 = (if fixedRate > 0 then ts1\<lparr>d_SampleRate := fixedRate\<rparr> else ts1);
              maxRate = codecMaxSampleRate (d_Codec ts2);
              ts3 = (if maxRate > 0 \<and> d_SampleRate ts2 > maxRate then ts2\<lparr>d_SampleRate := maxRate\<rparr> else ts2);
              maxCh = codecMaxChannels (d_Codec ts3)
          in if maxCh > 0 \<and> d_Channels ts3 > maxCh then ts3\<lparr>d_Channels := maxCh\<rparr> else ts3)"

definition computeTranscodedStream ::
  "decider_env \<Rightarrow> Details \<Rightarrow> Profile \<Rightarrow> ClientInfo \<Rightarrow> (Details \<times> string) option" where
  "computeTranscodedStream env src profile clientInfo =
     (if tp_Protocol profile \<noteq> [] \<and> \<not> equal_fold (tp_Protocol profile) ProtocolHTTP then None
      else
        let targetFormat = snd (resolveTargetFormat profile);
            targetIsLossless = isLosslessFormat targetFormat
        in if targetFormat = [] then None
           else if LookupTranscodeCommand (de_FindByFormat env) targetFormat = [] then None
           else if \<not> d_IsLossless src \<and> targetIsLossless then None
           else
             (case computeBitrate env src targetFormat targetIsLossless clientInfo (initialTarget src profile) of
                None \<Rightarrow> None
              | Some ts \<Rightarrow>
                  let ts' = (if tp_MaxAudioChannels profile > 0 \<and> d_Channels ts > tp_MaxAudioChannels profile
                             then ts\<lparr>d_Channels := tp_MaxAudioChannels profile\<rparr> else ts)
                  in case applyCodecLimitations (d_Bitrate src) targetIsLossless clientInfo ts' of
                       None \<Rightarrow> None
                     | Some ts'' \<Rightarrow> Some (ts'', targetFormat)))"

fun tryTranscode ::
  "decider_env \<Rightarrow> Details \<Rightarrow> ClientInfo \<Rightarrow> Profile list \<Rightarrow> (Details \<times> string) option" where
  "tryTranscode env src clientInfo [] = None"
| "tryTranscode env src clientInfo (p # ps) =
     (case computeTranscodedStream env src p clientInfo of
        Some r \<Rightarrow> Some r
      | None \<Rightarrow> tryTranscode env src clientInfo ps)"

subsection \<open>The decision\<close>

definition new_decision :: "MediaFile \<Rightarrow> Details \<Rightarrow> TranscodeDecision" where
  "new_decision mf src =
     \<lparr>td_MediaID = mf_ID mf, td_CanDirectPlay = False, td_CanTranscode = False,
      td_TranscodeReasons = [], td_ErrorReason = [], td_TargetFormat = [], td_TargetBitrate = 0,
      td_TargetChannels = 0, td_TargetSampleRate = 0, td_TargetBitDepth = 0,
      td_SourceStream = src, td_SourceUpdatedAt = mf_UpdatedAt mf, td_TranscodeStream = None\<rparr>"

text \<open>What \<open>MakeDecision\<close> does once the source stream is known (lines 67 to 119).\<close>

definition decide :: "decider_env \<Rightarrow> MediaFile \<Rightarrow> Details \<Rightarrow> ClientInfo \<Rightarrow> TranscodeDecision" where
  "decide env mf src clientInfo =
     (let d0 = new_decision mf src;
          (direct, reasons) =
            (if ci_MaxAudioBitrate clientInfo > 0 \<and> d_Bitrate src > ci_MaxAudioBitrate clientInfo
             then (False, [''audio bitrate not supported''])
             else tryDirectPlay src clientInfo (ci_DirectPlayProfiles clientInfo) []);
          d1 = d0\<lparr>td_CanDirectPlay := direct, td_TranscodeReasons := reasons\<rparr>
      in if direct then d1
         else
           (case tryTranscode env src clientInfo (ci_TranscodingProfiles clientInfo) of
              Some (ts, fmt) \<Rightarrow>
                d1\<lparr>td_CanTranscode := True, td_TargetFormat := fmt, td_TargetBitrate := d_Bitrate ts,
                   td_TargetChannels := d_Channels ts, td_TargetSampleRate := d_SampleRate ts,
                   td_TargetBitDepth := d_BitDepth ts, td_TranscodeStream := Some ts\<rparr>
            | None \<Rightarrow> d1\<lparr>td_ErrorReason := ''no compatible playback profile found''\<rparr>))"

definition MakeDecision ::
  "decider_env \<Rightarrow> MediaFile \<Rightarrow> ClientInfo \<Rightarrow> bool \<Rightarrow>
     MediaFile \<times> (string \<times> string) list \<times> (decider_error + TranscodeDecision)" where
  "MakeDecision env mf clientInfo skipProbe =
     (case (if \<not> skipProbe \<and> de_IsProbeAvailable env then ensureProbed env mf else (mf, [], Inr None)) of
        (mf', writes, Inl err) \<Rightarrow> (mf', writes, Inl err)
      | (mf', writes, Inr probe) \<Rightarrow>
          (mf', writes, Inr (decide env mf' (buildSourceStream env mf' probe) clientInfo)))"

record Player =
  pl_MaxBitRate :: int
  pl_ScrobbleEnabled :: bool

definition applyServerOverride :: "Player option \<Rightarrow> ClientInfo \<Rightarrow> Transcoding \<Rightarrow> ClientInfo" where
  "applyServerOverride player original trc =
     (let maxBitRate = (case player of
                          Some p \<Rightarrow> if pl_MaxBitRate p > 0 then pl_MaxBitRate p else trc_DefaultBitRate trc
                        | None \<Rightarrow> trc_DefaultBitRate trc)
      in \<lparr>ci_Name = ci_Name original, ci_Platform = ci_Platform original,
          ci_MaxAudioBitrate = maxBitRate, ci_MaxTranscodingAudioBitrate = maxBitRate,
          ci_DirectPlayProfiles =
            [\<lparr>dp_Containers = [trc_TargetFormat trc], dp_AudioCodecs = [trc_TargetFormat trc],
              dp_Protocols = [ProtocolHTTP], dp_MaxAudioChannels = 0\<rparr>],
          ci_TranscodingProfiles =
            [\<lparr>tp_Container = trc_TargetFormat trc, tp_AudioCodec = trc_TargetFormat trc,
              tp_Protocol = ProtocolHTTP, tp_MaxAudioChannels = 0\<rparr>],
          ci_CodecProfiles = []\<rparr>)"


subsection \<open>Limits of a transcoded stream\<close>

text \<open>A client that declares no bitrate limit of zero. (A limit of zero would set the target
  bitrate to zero, which the code reads as a bitrate that is not known yet.)\<close>

definition no_zero_limit :: "Limitation \<Rightarrow> bool" where
  "no_zero_limit lm \<longleftrightarrow> (lim_Name lm = LimitationAudioBitrate \<longrightarrow> \<not> listed (lim_Values lm) 0)"

definition no_zero_bitrate_limit :: "ClientInfo \<Rightarrow> bool" where
  "no_zero_bitrate_limit ci \<longleftrightarrow>
     (\<forall>cp \<in> set (ci_CodecProfiles ci). \<forall>lm \<in> set (cp_Limitations cp). no_zero_limit lm)"

text \<open>The limitations that apply to a codec, in the order of the profiles.\<close>

definition limitations_for :: "string \<Rightarrow> CodecProfile list \<Rightarrow> Limitation list" where
  "limitations_for codec cps =
     concat (map cp_Limitations (filter (\<lambda>cp. equal_fold (cp_Type cp) CodecProfileTypeAudio \<and>
       matchesCodec codec [cp_Name cp]) cps))"

lemma applyLimitationList_append:
  "applyLimitationList sb l (xs @ ys) ts =
    Option.bind (applyLimitationList sb l xs ts) (applyLimitationList sb l ys)"
  by (induction xs arbitrary: ts) (auto split: prod.splits)

lemma applyCodecProfiles_list:
  "applyCodecProfiles sb l codec cps ts = applyLimitationList sb l (limitations_for codec cps) ts"
  by (induction cps arbitrary: ts)
    (auto simp: limitations_for_def applyLimitationList_append split: option.splits)

lemma limitations_for_no_zero:
  "no_zero_bitrate_limit ci \<Longrightarrow> lm \<in> set (limitations_for c (ci_CodecProfiles ci)) \<Longrightarrow> no_zero_limit lm"
  by (auto simp: no_zero_bitrate_limit_def limitations_for_def)

text \<open>One limitation keeps the bitrate known, and lowers it.\<close>

lemma applyLimitation_bitrate_le:
  assumes a: "applyLimitation sb lm ts = (r, ts')" and z: "no_zero_limit lm"
    and k: "d_Bitrate ts \<noteq> 0 \<or> sb \<le> 0"
  shows "d_Bitrate ts' \<le> d_Bitrate ts \<and> (d_Bitrate ts' \<noteq> 0 \<or> sb \<le> 0)"
proof (cases "d_Bitrate ts' = d_Bitrate ts")
  case False
  with applyLimitation_bitrate [OF a] have n: "lim_Name lm = LimitationAudioBitrate" by simp
  let ?cur = "if d_Bitrate ts = 0 then sb else d_Bitrate ts"
  obtain v where v: "applyIntLimitation (lim_Comparison lm) (lim_Values lm) ?cur = (r, Some v)"
      "d_Bitrate ts' = v"
    using a False n
    by (auto simp: applyLimitation_def set_with_def limitation_name_defs prod_eq_iff
        split: option.splits if_splits)
  from applyIntLimitation_listed [OF v(1)] have l: "listed (lim_Values lm) v" .
  then have "0 \<le> v" by (auto simp: listed_def dest: parseInt_nonneg)
  with l z n have "0 < v" by (cases "v = 0") (auto simp: no_zero_limit_def)
  moreover have "v < ?cur" using applyIntLimitation_SomeD [OF v(1)] by simp
  ultimately show ?thesis using v(2) k by (auto split: if_splits)
qed (use k in simp)

lemma applyLimitationList_lowers:
  assumes "applyLimitationList sb l lms ts = Some ts'"
    and "\<forall>lm \<in> set lms. no_zero_limit lm"
    and "l \<or> d_Bitrate ts \<noteq> 0 \<or> sb \<le> 0"
  shows "d_Channels ts' \<le> d_Channels ts \<and> d_SampleRate ts' \<le> d_SampleRate ts \<and>
    d_BitDepth ts' \<le> d_BitDepth ts \<and> d_Bitrate ts' \<le> d_Bitrate ts \<and>
    d_Codec ts' = d_Codec ts \<and> d_IsLossless ts' = d_IsLossless ts"
  using assms
proof (induction lms arbitrary: ts)
  case (Cons lm lms)
  obtain r t where a: "applyLimitation sb lm ts = (r, t)" by fastforce
  have rest: "applyLimitationList sb l lms t = Some ts'"
    and ok: "\<not> (equal_fold (lim_Name lm) LimitationAudioBitrate \<and> l \<and> r = adjustAdjusted)"
    using Cons.prems(1) a by (auto split: if_splits)
  have b: "d_Bitrate t \<le> d_Bitrate ts \<and> (l \<or> d_Bitrate t \<noteq> 0 \<or> sb \<le> 0)"
  proof (cases l)
    case True
    with ok applyLimitation_bitrate [OF a] have "d_Bitrate t = d_Bitrate ts" by fastforce
    with True show ?thesis by simp
  next
    case False
    with applyLimitation_bitrate_le [OF a] Cons.prems(2,3) show ?thesis by auto
  qed
  from Cons.IH [OF rest] Cons.prems(2) b applyLimitation_lowers [OF a] show ?case
    by (auto simp: lowers_def)
qed simp

lemma lookupDefaultBitrate_pos: "lookupDefaultBitrate f fmt > 0"
  by (auto simp: lookupDefaultBitrate_def fallbackBitrate_def Let_def find_Some_iff
      split: option.splits sum.splits)

lemma initialTarget_simps:
  "d_Channels (initialTarget src p) \<le> d_Channels src"
  "d_Bitrate (initialTarget src p) = 0"
  "d_IsLossless (initialTarget src p) = isLosslessFormat (snd (resolveTargetFormat p))"
  "codecFixedOutputSampleRate (d_Codec (initialTarget src p)) = 0 \<Longrightarrow>
    d_SampleRate (initialTarget src p) \<le> d_SampleRate src"
  "codecMaxSampleRate (d_Codec (initialTarget src p)) > 0 \<Longrightarrow>
    d_SampleRate (initialTarget src p) \<le> codecMaxSampleRate (d_Codec (initialTarget src p))"
  "codecMaxChannels (d_Codec (initialTarget src p)) > 0 \<Longrightarrow>
    d_Channels (initialTarget src p) \<le> codecMaxChannels (d_Codec (initialTarget src p))"
  using normalizeSourceSampleRate_le [of "d_SampleRate src" "d_Codec src"]
  by (auto simp: initialTarget_def Let_def empty_Details_def split: prod.splits)

text \<open>
  The bitrate a stream starts with: a lossy source keeps its own; a lossless source gets the client's limit for
  transcodes, else its limit for audio, else the default of the format. The limit for audio caps both.
\<close>

definition start_bitrate :: "decider_env \<Rightarrow> Details \<Rightarrow> string \<Rightarrow> ClientInfo \<Rightarrow> int" where
  "start_bitrate env src fmt ci =
     (let wanted = (if \<not> d_IsLossless src then d_Bitrate src
                    else if ci_MaxTranscodingAudioBitrate ci > 0 then ci_MaxTranscodingAudioBitrate ci
                    else if ci_MaxAudioBitrate ci > 0 then ci_MaxAudioBitrate ci
                    else lookupDefaultBitrate (de_FindByFormat env) fmt)
      in if ci_MaxAudioBitrate ci > 0 then min wanted (ci_MaxAudioBitrate ci) else wanted)"

lemma computeBitrate_start:
  assumes "computeBitrate env src fmt l ci ts = Some ts'" and "d_IsLossless src \<longrightarrow> \<not> l"
  shows "d_Bitrate ts' = start_bitrate env src fmt ci"
  using assms lookupDefaultBitrate_pos [of "de_FindByFormat env" fmt]
  by (auto simp: computeBitrate_def start_bitrate_def Let_def split: if_splits)

lemma computeBitrate_spec:
  assumes "computeBitrate env src fmt l ci ts = Some ts'" and "d_Bitrate ts = 0"
  shows "d_Channels ts' = d_Channels ts \<and> d_SampleRate ts' = d_SampleRate ts \<and>
    d_Codec ts' = d_Codec ts \<and> d_IsLossless ts' = d_IsLossless ts \<and> d_BitDepth ts' = d_BitDepth ts \<and>
    (ci_MaxAudioBitrate ci > 0 \<longrightarrow> d_Bitrate ts' \<le> ci_MaxAudioBitrate ci) \<and>
    (\<not> d_IsLossless src \<longrightarrow> d_Bitrate ts' \<le> d_Bitrate src \<and> (d_Bitrate ts' \<noteq> 0 \<or> d_Bitrate src \<le> 0)) \<and>
    (d_IsLossless src \<and> \<not> l \<longrightarrow> d_Bitrate ts' > 0)"
  using assms lookupDefaultBitrate_pos [of "de_FindByFormat env" fmt]
  by (auto simp: computeBitrate_def Let_def split: if_splits)

text \<open>The stages a successful profile went through.\<close>

definition cap_channels :: "Profile \<Rightarrow> Details \<Rightarrow> Details" where
  "cap_channels p t =
     (if tp_MaxAudioChannels p > 0 \<and> d_Channels t > tp_MaxAudioChannels p
      then t\<lparr>d_Channels := tp_MaxAudioChannels p\<rparr> else t)"

lemma cap_channels_simps [simp]:
  "d_Bitrate (cap_channels p t) = d_Bitrate t" "d_SampleRate (cap_channels p t) = d_SampleRate t"
  "d_Codec (cap_channels p t) = d_Codec t" "d_IsLossless (cap_channels p t) = d_IsLossless t"
  "d_Channels (cap_channels p t) \<le> d_Channels t"
  "tp_MaxAudioChannels p > 0 \<Longrightarrow> d_Channels (cap_channels p t) \<le> tp_MaxAudioChannels p"
  by (auto simp: cap_channels_def)

lemma computeTranscodedStream_SomeE:
  assumes "computeTranscodedStream env src p ci = Some (ts, fmt)"
  obtains t where "fmt = snd (resolveTargetFormat p)"
    "LookupTranscodeCommand (de_FindByFormat env) fmt \<noteq> []"
    "d_IsLossless src \<or> \<not> isLosslessFormat fmt"
    "computeBitrate env src fmt (isLosslessFormat fmt) ci (initialTarget src p) = Some t"
    "applyLimitationList (d_Bitrate src) (isLosslessFormat fmt)
       (limitations_for (d_Codec t) (ci_CodecProfiles ci)) (cap_channels p t) = Some ts"
  using assms
  by (auto simp: computeTranscodedStream_def applyCodecLimitations_def applyCodecProfiles_list Let_def
      simp flip: cap_channels_def split: if_splits option.splits)

lemma computeTranscodedStream_limits:
  assumes "computeTranscodedStream env src p ci = Some (ts, fmt)" and "no_zero_bitrate_limit ci"
  shows "LookupTranscodeCommand (de_FindByFormat env) fmt \<noteq> [] \<and>
    d_Channels ts \<le> d_Channels src \<and>
    (tp_MaxAudioChannels p > 0 \<longrightarrow> d_Channels ts \<le> tp_MaxAudioChannels p) \<and>
    (codecMaxChannels (d_Codec ts) > 0 \<longrightarrow> d_Channels ts \<le> codecMaxChannels (d_Codec ts)) \<and>
    (codecMaxSampleRate (d_Codec ts) > 0 \<longrightarrow> d_SampleRate ts \<le> codecMaxSampleRate (d_Codec ts)) \<and>
    (codecFixedOutputSampleRate (d_Codec ts) = 0 \<longrightarrow> d_SampleRate ts \<le> d_SampleRate src) \<and>
    (ci_MaxAudioBitrate ci > 0 \<longrightarrow> d_Bitrate ts \<le> ci_MaxAudioBitrate ci) \<and>
    d_IsLossless ts = isLosslessFormat fmt \<and>
    (\<not> d_IsLossless src \<longrightarrow> \<not> d_IsLossless ts \<and> d_Bitrate ts \<le> d_Bitrate src) \<and>
    (\<not> d_IsLossless ts \<longrightarrow> d_Bitrate ts \<le> start_bitrate env src fmt ci \<and>
      (limitations_for (d_Codec ts) (ci_CodecProfiles ci) = [] \<longrightarrow> d_Bitrate ts = start_bitrate env src fmt ci)) \<and>
    (d_IsLossless src \<and> \<not> d_IsLossless ts \<and> ci_MaxTranscodingAudioBitrate ci > 0 \<longrightarrow>
      d_Bitrate ts \<le> ci_MaxTranscodingAudioBitrate ci)"
proof -
  let ?l = "isLosslessFormat fmt"
  obtain t where fmt: "fmt = snd (resolveTargetFormat p)"
    and cmd: "LookupTranscodeCommand (de_FindByFormat env) fmt \<noteq> []"
    and ll: "d_IsLossless src \<or> \<not> ?l"
    and t: "computeBitrate env src fmt ?l ci (initialTarget src p) = Some t"
    and ts: "applyLimitationList (d_Bitrate src) ?l
       (limitations_for (d_Codec t) (ci_CodecProfiles ci)) (cap_channels p t) = Some ts"
    using assms(1) by (rule computeTranscodedStream_SomeE)
  note t_spec = computeBitrate_spec [OF t initialTarget_simps(2)]
  have "?l \<or> d_Bitrate (cap_channels p t) \<noteq> 0 \<or> d_Bitrate src \<le> 0"
    using t_spec by auto
  from applyLimitationList_lowers [OF ts _ this] limitations_for_no_zero [OF assms(2)]
  have low: "d_Channels ts \<le> d_Channels (cap_channels p t)" "d_SampleRate ts \<le> d_SampleRate t"
      "d_Bitrate ts \<le> d_Bitrate t" "d_Codec ts = d_Codec t" "d_IsLossless ts = d_IsLossless t"
    by auto
  let ?i = "initialTarget src p"
  have ch: "d_Channels ts \<le> d_Channels ?i"
    and pch: "tp_MaxAudioChannels p > 0 \<Longrightarrow> d_Channels ts \<le> tp_MaxAudioChannels p"
    using order_trans [OF low(1) cap_channels_simps(5)] order_trans [OF low(1) cap_channels_simps(6)]
      t_spec by auto
  have sr: "d_SampleRate ts \<le> d_SampleRate ?i" and co: "d_Codec ts = d_Codec ?i"
    and lo: "d_IsLossless ts = ?l"
    using low t_spec fmt initialTarget_simps(3) [of src p] by simp_all
  show ?thesis
  proof (intro conjI impI)
    show "d_Channels ts \<le> d_Channels src" using ch initialTarget_simps(1) by (rule order_trans)
    show "codecMaxChannels (d_Codec ts) > 0 \<Longrightarrow> d_Channels ts \<le> codecMaxChannels (d_Codec ts)"
      using order_trans [OF ch initialTarget_simps(6)] by (simp add: co)
    show "codecMaxSampleRate (d_Codec ts) > 0 \<Longrightarrow> d_SampleRate ts \<le> codecMaxSampleRate (d_Codec ts)"
      using order_trans [OF sr initialTarget_simps(5)] by (simp add: co)
    show "codecFixedOutputSampleRate (d_Codec ts) = 0 \<Longrightarrow> d_SampleRate ts \<le> d_SampleRate src"
      using order_trans [OF sr initialTarget_simps(4)] by (simp add: co)
    have start: "d_Bitrate t = start_bitrate env src fmt ci" if "\<not> d_IsLossless ts"
      using computeBitrate_start [OF t] that lo by simp
    show "\<not> d_IsLossless ts \<Longrightarrow> d_Bitrate ts \<le> start_bitrate env src fmt ci"
      using low(3) start by simp
    show "\<not> d_IsLossless ts \<Longrightarrow> limitations_for (d_Codec ts) (ci_CodecProfiles ci) = [] \<Longrightarrow>
        d_Bitrate ts = start_bitrate env src fmt ci"
      using ts start low(4) by auto
    show "d_IsLossless src \<and> \<not> d_IsLossless ts \<and> ci_MaxTranscodingAudioBitrate ci > 0 \<Longrightarrow>
        d_Bitrate ts \<le> ci_MaxTranscodingAudioBitrate ci"
      using low(3) start by (auto simp: start_bitrate_def Let_def split: if_splits)
    show "ci_MaxAudioBitrate ci > 0 \<Longrightarrow> d_Bitrate ts \<le> ci_MaxAudioBitrate ci"
      "\<not> d_IsLossless src \<Longrightarrow> d_Bitrate ts \<le> d_Bitrate src"
      using low(3) t_spec by linarith+
  qed (use cmd pch lo ll in simp_all)
qed


text \<open>A concrete server without database entries, used to instantiate the theorems.\<close>

definition example_env :: decider_env where
  "example_env = \<lparr>de_FindByFormat = (\<lambda>_. Inl ErrNotFound), de_IsProbeAvailable = True,
     de_DevEnableMediaFileProbe = True,
     de_ProbeAudioStream = (\<lambda>_. Inr \<lparr>pr_Codec = ''FLAC'', pr_Profile = [], pr_BitRate = 900,
       pr_SampleRate = 44100, pr_BitDepth = 16, pr_Channels = 2\<rparr>),
     de_Marshal = (\<lambda>_. Inr ''{}''),
     de_Unmarshal = (\<lambda>_. Inr \<lparr>pr_Codec = ''FLAC'', pr_Profile = [], pr_BitRate = 900,
       pr_SampleRate = 44100, pr_BitDepth = 16, pr_Channels = 2\<rparr>)\<rparr>"

definition example_file :: MediaFile where
  "example_file = empty_MediaFile\<lparr>mf_ID := ''mf1'', mf_LibraryPath := ''/music'', mf_Path := ''a/b.flac'',
     mf_Suffix := ''flac'', mf_BitRate := 900, mf_SampleRate := 44100, mf_Channels := 2,
     mf_UpdatedAt := 1700000000000000000\<rparr>"

definition example_source :: Details where
  "example_source = buildSourceStream example_env example_file None"

definition example_profile :: Profile where
  "example_profile = \<lparr>tp_Container = ''mp3'', tp_AudioCodec = [], tp_Protocol = ''http'',
     tp_MaxAudioChannels = 1\<rparr>"

definition example_target :: Details where
  "example_target = empty_Details\<lparr>d_Container := ''mp3'', d_Codec := ''mp3'', d_Bitrate := 320,
     d_SampleRate := 44100, d_Channels := 1\<rparr>"


text \<open>The limit for transcodes does not bind a lossy source: one of 320 kbps stays at 320 for a client that declares 128.\<close>

lemma lossy_exceeds_transcoding_limit:
  "map_option (d_Bitrate \<circ> fst) (computeTranscodedStream example_env
     (empty_Details\<lparr>d_Container := ''ogg'', d_Codec := ''vorbis'', d_Bitrate := 320, d_SampleRate := 44100, d_Channels := 2\<rparr>)
     example_profile (example_client\<lparr>ci_MaxTranscodingAudioBitrate := 128\<rparr>)) = Some 320"
  by code_simp

end
