(* ===== verification/Stream_Decision.thy ===== *)
theory Stream_Decision
  imports Stream_Decider
begin

text \<open>
  What the decision of \<open>core/stream/decider.go\<close> guarantees to a client: the limitations of its
  codec profiles hold of the stream it gets, exactly one of direct play, transcoding and an error
  is decided, direct play is decided exactly when a profile admits the source, profiles are
  preferred in the client's order, probing happens once, and the command an administrator stored
  is the one that is used.
\<close>

subsection \<open>Limitations hold of the final stream\<close>

text \<open>The number of a stream that a limitation of a given name constrains. A bitrate of zero
  stands for the source's; a bit depth that is not positive is not constrained.\<close>

definition limited_value :: "int \<Rightarrow> string \<Rightarrow> Details \<Rightarrow> int option" where
  "limited_value sb name ts =
     (if name = LimitationAudioChannels then Some (d_Channels ts)
      else if name = LimitationAudioBitrate then Some (if d_Bitrate ts = 0 then sb else d_Bitrate ts)
      else if name = LimitationAudioSamplerate then Some (d_SampleRate ts)
      else if name = LimitationAudioBitdepth \<and> d_BitDepth ts > 0 then Some (d_BitDepth ts)
      else None)"

definition honoured :: "int \<Rightarrow> Limitation \<Rightarrow> Details \<Rightarrow> bool" where
  "honoured sb lm ts \<longleftrightarrow>
     (if lim_Name lm = LimitationAudioProfile then checkStringLimitation (d_Profile ts) (lim_Comparison lm) (lim_Values lm)
      else case limited_value sb (lim_Name lm) ts of
        None \<Rightarrow> True
      | Some v \<Rightarrow> int_allows (lim_Comparison lm) (lim_Values lm) v)"

lemma applyIntLimitation_allows:
  assumes "applyIntLimitation cmp vals cur = (r, s)" and "r \<noteq> adjustCannotFit"
  shows "int_allows cmp vals (case s of None \<Rightarrow> cur | Some v \<Rightarrow> v)"
  using applyIntLimitation_cases [of cmp vals cur] applyIntLimitation_NoneD [of cmp vals cur r] assms
  by (cases r; cases s) auto

lemma applyLimitation_honoured:
  assumes a: "applyLimitation sb lm ts = (r, ts')" and ok: "r \<noteq> adjustCannotFit"
    and z: "no_zero_limit lm" and np: "lim_Name lm \<noteq> LimitationAudioProfile"
  shows "honoured sb lm ts'"
proof -
  have nz: "lim_Name lm = LimitationAudioBitrate \<Longrightarrow>
      applyIntLimitation (lim_Comparison lm) (lim_Values lm) cur = (r, Some v) \<Longrightarrow> v \<noteq> 0" for cur v
    using z applyIntLimitation_listed by (auto simp: no_zero_limit_def)
  consider "lim_Name lm = LimitationAudioChannels" | "lim_Name lm = LimitationAudioBitrate"
    | "lim_Name lm = LimitationAudioSamplerate" | "lim_Name lm = LimitationAudioBitdepth"
    | "limited_value sb (lim_Name lm) ts' = None"
    unfolding limited_value_def by metis
  then show ?thesis
    using a ok nz np
    by cases
      (auto simp: honoured_def limited_value_def applyLimitation_def set_with_def limitation_name_defs
        prod_eq_iff dest!: applyIntLimitation_allows [OF prod.collapse [symmetric]]
        split: option.splits if_splits)
qed

lemma applyLimitation_other:
  assumes "applyLimitation sb lm ts = (r, ts')" and "name \<noteq> lim_Name lm"
  shows "limited_value sb name ts' = limited_value sb name ts"
  using assms
  by (auto simp: applyLimitation_def set_with_def limited_value_def split: if_splits option.splits)

lemma applyLimitationList_other:
  assumes "applyLimitationList sb l lms ts = Some ts'" and "name \<notin> lim_Name ` set lms"
  shows "limited_value sb name ts' = limited_value sb name ts"
  using assms
proof (induction lms arbitrary: ts)
  case (Cons lm lms)
  obtain r t where a: "applyLimitation sb lm ts = (r, t)" by fastforce
  with Cons.prems have "applyLimitationList sb l lms t = Some ts'" by (auto split: if_splits)
  with Cons.IH Cons.prems(2) applyLimitation_other [OF a, of name] show ?case by simp
qed simp

lemma applyLimitationList_codec:
  "applyLimitationList sb l lms ts = Some ts' \<Longrightarrow> d_Codec ts' = d_Codec ts"
proof (induction lms arbitrary: ts)
  case (Cons lm lms)
  obtain r t where a: "applyLimitation sb lm ts = (r, t)" by fastforce
  with Cons.prems have "applyLimitationList sb l lms t = Some ts'" by (auto split: if_splits)
  with Cons.IH applyLimitation_lowers [OF a] show ?case by (simp add: lowers_def)
qed simp

lemma limited_value_le:
  assumes "applyLimitation sb lm ts = (r, ts')" and "no_zero_limit lm" and "limited_value sb name ts' = Some v'"
  shows "\<exists>v. limited_value sb name ts = Some v \<and> v' \<le> v"
proof (cases "lim_Name lm = name")
  case False
  with assms applyLimitation_other [OF assms(1), of name] show ?thesis by auto
next
  case True
  let ?cur = "if d_Bitrate ts = 0 then sb else d_Bitrate ts"
  consider "name = LimitationAudioBitrate" | "name \<noteq> LimitationAudioBitrate" by blast
  then show ?thesis
  proof cases
    case 1
    have bt: "set_with (\<lambda>v. ts\<lparr>d_Bitrate := v\<rparr>) ts (applyIntLimitation (lim_Comparison lm) (lim_Values lm) ?cur) = (r, ts')"
      using assms(1) True 1 by (auto simp: applyLimitation_def limitation_name_defs)
    obtain r' s where a: "applyIntLimitation (lim_Comparison lm) (lim_Values lm) ?cur = (r', s)" by fastforce
    have "v' \<le> ?cur"
    proof (cases s)
      case None
      with bt a assms(3) 1 show ?thesis by (auto simp: limited_value_def limitation_name_defs)
    next
      case (Some w)
      then have "w < ?cur" "listed (lim_Values lm) w"
        using a applyIntLimitation_SomeD applyIntLimitation_listed by blast+
      moreover from this(2) assms(2) True 1 have "w \<noteq> 0" by (auto simp: no_zero_limit_def)
      moreover have "d_Bitrate ts' = w" using bt a Some by auto
      ultimately show ?thesis using assms(3) 1 by (auto simp: limited_value_def limitation_name_defs)
    qed
    then show ?thesis using 1 by (simp add: limited_value_def limitation_name_defs)
  next
    case 2
    with assms(3) applyLimitation_lowers [OF assms(1)] show ?thesis
      by (auto simp: limited_value_def lowers_def split: if_splits)
  qed
qed

lemma limited_value_list_le:
  assumes "applyLimitationList sb l lms ts = Some ts'" and "\<forall>lm \<in> set lms. no_zero_limit lm"
    and "limited_value sb name ts' = Some v'"
  shows "\<exists>v. limited_value sb name ts = Some v \<and> v' \<le> v"
  using assms
proof (induction lms arbitrary: ts)
  case (Cons lm lms)
  obtain r t where a: "applyLimitation sb lm ts = (r, t)" by fastforce
  with Cons.prems have "applyLimitationList sb l lms t = Some ts'" by (auto split: if_splits)
  with Cons obtain u where "limited_value sb name t = Some u" "v' \<le> u" by auto
  with limited_value_le [OF a, of name u] Cons.prems(2) show ?case by fastforce
qed simp

lemma upper_limit_kept:
  "lim_Comparison lm = ComparisonLessThanEqual \<Longrightarrow> int_allows (lim_Comparison lm) vals v \<Longrightarrow> v' \<le> v \<Longrightarrow>
    int_allows (lim_Comparison lm) vals v'"
  by (auto simp: int_allows_def)

lemma applyLimitationList_honoured:
  assumes "applyLimitationList sb l lms ts = Some ts'" and "\<forall>lm \<in> set lms. no_zero_limit lm"
    and "lms = before @ lm # after" and "lim_Name lm \<noteq> LimitationAudioProfile"
    and "lim_Comparison lm = ComparisonLessThanEqual \<or> lim_Name lm \<notin> lim_Name ` set after"
  shows "honoured sb lm ts'"
proof -
  obtain t where "applyLimitationList sb l (lm # after) t = Some ts'"
    using assms(1,3) by (auto simp: applyLimitationList_append split: bind_splits)
  moreover obtain r u where a: "applyLimitation sb lm t = (r, u)" by fastforce
  ultimately have rest: "applyLimitationList sb l after u = Some ts'" and "r \<noteq> adjustCannotFit"
    by (auto split: if_splits)
  then have h: "honoured sb lm u" using applyLimitation_honoured [OF a] assms(2-4) by simp
  show ?thesis
  proof (cases "limited_value sb (lim_Name lm) ts'")
    case None
    with assms(4) show ?thesis by (simp add: honoured_def)
  next
    case (Some v')
    then obtain v where v: "limited_value sb (lim_Name lm) u = Some v" "v' \<le> v"
      using limited_value_list_le [OF rest _ Some] assms(2,3) by auto
    have "lim_Name lm \<notin> lim_Name ` set after \<Longrightarrow> v' = v"
      using applyLimitationList_other [OF rest] Some v(1) by simp
    with h v Some assms(4,5) upper_limit_kept [of lm "lim_Values lm" v v'] show ?thesis
      by (auto simp: honoured_def)
  qed
qed

text \<open>
  C31: the limitations that apply to the target codec hold of the transcoded stream, for a client that declares no bitrate
  limit of zero: every upper limit (\<open>LessThanEqual\<close>) of channels, bitrate, sample rate and bit depth, wherever it stands,
  and of the other comparisons the last one that names a number. A bit depth of zero (a lossy stream) is not limited. A
  profile whose limitations cannot be met yields no stream. Two cases are left out, as the code does not guarantee them: the
  limitation of the audio profile, which it does not apply to transcodes, and a minimum or a list of values that is
  followed by another limitation of the same number (\<open>later_limitation_wins\<close>).
\<close>

theorem transcoded_stream_honours_limitations:
  assumes "computeTranscodedStream env src p ci = Some (ts, fmt)" and "no_zero_bitrate_limit ci"
    and "limitations_for (d_Codec ts) (ci_CodecProfiles ci) = before @ lm # after"
    and "lim_Name lm \<noteq> LimitationAudioProfile"
    and "lim_Comparison lm = ComparisonLessThanEqual \<or> lim_Name lm \<notin> lim_Name ` set after"
  shows "honoured (d_Bitrate src) lm ts"
proof -
  obtain t where t: "applyLimitationList (d_Bitrate src) (isLosslessFormat fmt)
      (limitations_for (d_Codec t) (ci_CodecProfiles ci)) (cap_channels p t) = Some ts"
    using assms(1) by (rule computeTranscodedStream_SomeE)
  then have "d_Codec ts = d_Codec t" using applyLimitationList_codec by fastforce
  with t assms(2-) show ?thesis
    using applyLimitationList_honoured limitations_for_no_zero by metis
qed

definition example_limited_client :: ClientInfo where
  "example_limited_client = example_client\<lparr>ci_CodecProfiles :=
     [\<lparr>cp_Type = ''AudioCodec'', cp_Name = ''mp3'',
       cp_Limitations = [\<lparr>lim_Name = ''audioBitrate'', lim_Comparison = ''LessThanEqual'',
         lim_Values = [''128''], lim_Required = True\<rparr>]\<rparr>]\<rparr>"

theorem transcoded_stream_honours_limitations_witness:
  "computeTranscodedStream example_env example_source example_profile example_limited_client =
     Some (example_target\<lparr>d_Bitrate := 128\<rparr>, ''mp3'') \<and>
   honoured (d_Bitrate example_source)
     \<lparr>lim_Name = ''audioBitrate'', lim_Comparison = ''LessThanEqual'', lim_Values = [''128''], lim_Required = True\<rparr>
     (example_target\<lparr>d_Bitrate := 128\<rparr>)"
proof -
  let ?ts = "example_target\<lparr>d_Bitrate := 128\<rparr>"
  let ?lm = "\<lparr>lim_Name = ''audioBitrate'', lim_Comparison = ''LessThanEqual'', lim_Values = [''128''], lim_Required = True\<rparr>"
  have e: "computeTranscodedStream example_env example_source example_profile example_limited_client =
      Some (?ts, ''mp3'')" by code_simp
  have z: "no_zero_bitrate_limit example_limited_client"
    unfolding no_zero_bitrate_limit_def no_zero_limit_def listed_def by code_simp
  have l: "limitations_for (d_Codec ?ts) (ci_CodecProfiles example_limited_client) = [] @ ?lm # []" by code_simp
  have "lim_Name ?lm \<noteq> LimitationAudioProfile" "lim_Comparison ?lm = ComparisonLessThanEqual" by code_simp+
  with transcoded_stream_honours_limitations [OF e z l] e show ?thesis by simp
qed

text \<open>A minimum of 100 kbps is met at first, and broken by the maximum of 64 that follows it.\<close>

lemma later_limitation_wins:
  "map_option (d_Bitrate \<circ> fst) (computeTranscodedStream example_env example_source example_profile
     (example_client\<lparr>ci_CodecProfiles := [\<lparr>cp_Type = ''AudioCodec'', cp_Name = ''mp3'', cp_Limitations =
       [\<lparr>lim_Name = ''audioBitrate'', lim_Comparison = ''GreaterThanEqual'', lim_Values = [''100''], lim_Required = True\<rparr>,
        \<lparr>lim_Name = ''audioBitrate'', lim_Comparison = ''LessThanEqual'', lim_Values = [''64''], lim_Required = True\<rparr>]\<rparr>]\<rparr>))
   = Some 64"
  by code_simp

subsection \<open>Direct play, transcoding or an error\<close>

text \<open>What a limitation of a codec profile demands of the source; only required limitations
  count for direct play.\<close>

definition limitation_met :: "Details \<Rightarrow> Limitation \<Rightarrow> bool" where
  "limitation_met src lm \<longleftrightarrow>
     (if lim_Name lm = LimitationAudioChannels then
        int_allows (lim_Comparison lm) (lim_Values lm) (d_Channels src)
      else if lim_Name lm = LimitationAudioSamplerate then
        int_allows (lim_Comparison lm) (lim_Values lm) (d_SampleRate src)
      else if lim_Name lm = LimitationAudioBitrate then
        int_allows (lim_Comparison lm) (lim_Values lm) (d_Bitrate src)
      else if lim_Name lm = LimitationAudioBitdepth then
        int_allows (lim_Comparison lm) (lim_Values lm) (d_BitDepth src)
      else if lim_Name lm = LimitationAudioProfile then
        checkStringLimitation (d_Profile src) (lim_Comparison lm) (lim_Values lm)
      else True)"

definition direct_playable :: "Details \<Rightarrow> ClientInfo \<Rightarrow> DirectPlayProfile \<Rightarrow> bool" where
  "direct_playable src ci p \<longleftrightarrow>
     (dp_Protocols p = [] \<or> containsIgnoreCase (dp_Protocols p) ProtocolHTTP) \<and>
     (dp_Containers p = [] \<or> matchesContainer (d_Container src) (dp_Containers p)) \<and>
     (dp_AudioCodecs p = [] \<or> matchesCodec (d_Codec src) (dp_AudioCodecs p) \<or> matchesPCMWAVBridge src p) \<and>
     (dp_MaxAudioChannels p \<le> 0 \<or> d_Channels src \<le> dp_MaxAudioChannels p) \<and>
     (\<forall>lm \<in> set (limitations_for (d_Codec src) (ci_CodecProfiles ci)).
        lim_Required lm \<longrightarrow> limitation_met src lm)"

definition bitrate_admitted :: "Details \<Rightarrow> ClientInfo \<Rightarrow> bool" where
  "bitrate_admitted src ci \<longleftrightarrow> ci_MaxAudioBitrate ci \<le> 0 \<or> d_Bitrate src \<le> ci_MaxAudioBitrate ci"

lemma checkIntLimitation_iff: "checkIntLimitation v cmp vals \<longleftrightarrow> int_allows cmp vals v"
  using applyIntLimitation_cases [of cmp vals v]
  by (auto simp: checkIntLimitation_def split: prod.splits adjustResult.splits)

lemma checkLimitations_Nil:
  "checkLimitations src lms = [] \<longleftrightarrow> (\<forall>lm \<in> set lms. lim_Required lm \<longrightarrow> limitation_met src lm)"
  by (induction lms) (simp_all add: Let_def limitation_met_def checkIntLimitation_iff)

lemma checkCodecProfiles_Nil:
  "checkCodecProfiles src cps = [] \<longleftrightarrow>
    (\<forall>lm \<in> set (limitations_for (d_Codec src) cps). lim_Required lm \<longrightarrow> limitation_met src lm)"
  by (induction cps) (simp_all add: Let_def limitations_for_def ball_Un flip: checkLimitations_Nil)

lemma checkDirectPlayProfile_Nil:
  "checkDirectPlayProfile src p ci = [] \<longleftrightarrow> direct_playable src ci p"
  by (simp add: checkDirectPlayProfile_def direct_playable_def checkCodecProfiles_Nil not_less)

lemma tryDirectPlay_iff:
  "fst (tryDirectPlay src ci ps rs) \<longleftrightarrow> (\<exists>p \<in> set ps. direct_playable src ci p)"
  by (induction ps arbitrary: rs) (simp_all add: Let_def checkDirectPlayProfile_Nil)

lemma tryTranscode_None:
  "tryTranscode env src ci ps = None \<longleftrightarrow>
    (\<forall>p \<in> set ps. computeTranscodedStream env src p ci = None)"
  by (induction ps) (auto split: option.splits)

lemma tryTranscode_first:
  assumes "tryTranscode env src ci ps = Some r"
  obtains as p bs where "ps = as @ p # bs" "computeTranscodedStream env src p ci = Some r"
    "list_all (\<lambda>q. computeTranscodedStream env src q ci = None) as"
  using assms
proof (induction ps arbitrary: thesis)
  case (Cons q ps)
  show ?case
  proof (cases "computeTranscodedStream env src q ci")
    case None
    with Cons.prems(2) have "tryTranscode env src ci ps = Some r" by simp
    then show ?thesis
    proof (rule Cons.IH [rotated])
      fix as p bs
      assume "ps = as @ p # bs" "computeTranscodedStream env src p ci = Some r"
        "list_all (\<lambda>q. computeTranscodedStream env src q ci = None) as"
      with None show ?thesis by (intro Cons.prems(1) [of "q # as" p bs]) simp_all
    qed
  next
    case (Some r')
    with Cons.prems show ?thesis by (intro Cons.prems(1) [of "[]" q ps]) simp_all
  qed
qed simp

lemma decide_direct:
  "td_CanDirectPlay (decide env mf src ci) \<longleftrightarrow>
    bitrate_admitted src ci \<and> (\<exists>p \<in> set (ci_DirectPlayProfiles ci). direct_playable src ci p)"
  using tryDirectPlay_iff [of src ci "ci_DirectPlayProfiles ci" "[]"]
  by (auto simp: decide_def new_decision_def bitrate_admitted_def Let_def split: prod.splits option.splits)

lemma decide_transcode:
  assumes "\<not> td_CanDirectPlay (decide env mf src ci)"
  shows "(case tryTranscode env src ci (ci_TranscodingProfiles ci) of
      None \<Rightarrow> \<not> td_CanTranscode (decide env mf src ci) \<and> td_ErrorReason (decide env mf src ci) \<noteq> []
    | Some (ts, fmt) \<Rightarrow> td_CanTranscode (decide env mf src ci) \<and> td_ErrorReason (decide env mf src ci) = [] \<and>
        td_TranscodeStream (decide env mf src ci) = Some ts \<and>
        td_TargetFormat (decide env mf src ci) = fmt \<and> td_TargetBitrate (decide env mf src ci) = d_Bitrate ts \<and>
        td_TargetChannels (decide env mf src ci) = d_Channels ts)"
  using assms
  by (auto simp: decide_def new_decision_def Let_def split: prod.splits option.splits if_splits)

lemma decide_direct_only:
  "td_CanDirectPlay (decide env mf src ci) \<Longrightarrow>
    \<not> td_CanTranscode (decide env mf src ci) \<and> td_ErrorReason (decide env mf src ci) = []"
  by (auto simp: decide_def new_decision_def Let_def split: prod.splits option.splits if_splits)

text \<open>
  C6: the decision for a source stream. Direct play is decided exactly when the source's bitrate is
  within the client's limit and one of the client's direct-play profiles admits the source
  (protocol, container, codec, channels, and the required limitations of the codec profiles that
  match its codec); otherwise the first transcoding profile that can be served decides the target
  format and stream; and an error is reported exactly when neither is possible.
\<close>

theorem decide_complete:
  fixes env mf src ci
  defines "d \<equiv> decide env mf src ci"
  shows "(td_CanDirectPlay d \<longleftrightarrow>
      bitrate_admitted src ci \<and> (\<exists>p \<in> set (ci_DirectPlayProfiles ci). direct_playable src ci p)) \<and>
    (td_CanTranscode d \<longleftrightarrow> \<not> td_CanDirectPlay d \<and>
      (\<exists>as p bs ts. ci_TranscodingProfiles ci = as @ p # bs \<and>
        list_all (\<lambda>q. computeTranscodedStream env src q ci = None) as \<and>
        computeTranscodedStream env src p ci = Some (ts, td_TargetFormat d) \<and>
        td_TranscodeStream d = Some ts \<and> td_TargetBitrate d = d_Bitrate ts \<and>
        td_TargetChannels d = d_Channels ts)) \<and>
    (td_ErrorReason d \<noteq> [] \<longleftrightarrow> \<not> td_CanDirectPlay d \<and> \<not> td_CanTranscode d)"
proof (cases "td_CanDirectPlay d")
  case True
  then show ?thesis
    using decide_direct [of env mf src ci] decide_direct_only [of env mf src ci] by (simp add: d_def)
next
  case False
  note tr = decide_transcode [OF False [unfolded d_def]]
  show ?thesis
  proof (cases "tryTranscode env src ci (ci_TranscodingProfiles ci)")
    case None
    then have "\<not> (\<exists>p \<in> set (ci_TranscodingProfiles ci). computeTranscodedStream env src p ci \<noteq> None)"
      by (simp add: tryTranscode_None)
    then have "\<not> (\<exists>as p bs ts. ci_TranscodingProfiles ci = as @ p # bs \<and>
        computeTranscodedStream env src p ci = Some (ts, td_TargetFormat d))" by force
    moreover have "\<not> td_CanTranscode d" "td_ErrorReason d \<noteq> []" using tr None by (simp_all add: d_def)
    ultimately show ?thesis
      using False decide_direct [of env mf src ci, folded d_def] by blast
  next
    case (Some r)
    obtain ts fmt where r: "r = (ts, fmt)" by fastforce
    from Some [unfolded r] obtain as p bs where
      p: "ci_TranscodingProfiles ci = as @ p # bs" "computeTranscodedStream env src p ci = Some (ts, fmt)"
        "list_all (\<lambda>q. computeTranscodedStream env src q ci = None) as"
      by (rule tryTranscode_first)
    have "td_CanTranscode d" "td_ErrorReason d = []" "td_TranscodeStream d = Some ts"
        "td_TargetFormat d = fmt" "td_TargetBitrate d = d_Bitrate ts" "td_TargetChannels d = d_Channels ts"
      using tr Some r by (simp_all add: d_def)
    with p False decide_direct [of env mf src ci, folded d_def] show ?thesis by blast
  qed
qed

subsection \<open>Probing happens once\<close>

text \<open>The decision depends on the environment only through the transcoding repository.\<close>

lemma decider_env_probe:
  "de_FindByFormat (env\<lparr>de_ProbeAudioStream := probe\<rparr>) = de_FindByFormat env"
  "de_Unmarshal (env\<lparr>de_ProbeAudioStream := probe\<rparr>) = de_Unmarshal env"
  by simp_all

lemma computeTranscodedStream_probe [simp]:
  "computeTranscodedStream (env\<lparr>de_ProbeAudioStream := probe\<rparr>) = computeTranscodedStream env"
  unfolding computeTranscodedStream_def computeBitrate_def decider_env_probe ..

lemma tryTranscode_probe [simp]:
  "tryTranscode (env\<lparr>de_ProbeAudioStream := probe\<rparr>) src ci ps = tryTranscode env src ci ps"
  by (induction ps) (auto split: option.splits)

lemma decide_probe [simp]: "decide (env\<lparr>de_ProbeAudioStream := probe\<rparr>) mf src ci = decide env mf src ci"
  unfolding decide_def tryTranscode_probe ..

lemma buildSourceStream_probe [simp]:
  "buildSourceStream (env\<lparr>de_ProbeAudioStream := probe\<rparr>) mf p = buildSourceStream env mf p"
  unfolding buildSourceStream_def parseProbeData_def decider_env_probe ..

lemma buildSourceStream_persisted:
  assumes "data \<noteq> []" and "de_Unmarshal env data = Inr res" and "mf_ProbeData mf = data"
  shows "buildSourceStream env mf None = buildSourceStream env mf (Some res)"
  using assms by (simp add: buildSourceStream_def parseProbeData_def)

lemma ensureProbed_persists:
  assumes "ensureProbed env mf = (mf', writes, Inr p)" and "de_DevEnableMediaFileProbe env"
    and "\<And>res data. de_Marshal env res = Inr data \<Longrightarrow> data \<noteq> [] \<and> de_Unmarshal env data = Inr res"
  shows "mf_ProbeData mf' \<noteq> [] \<and> buildSourceStream env mf' None = buildSourceStream env mf' p"
proof (cases "mf_ProbeData mf = []")
  case True
  with assms(1,2) obtain res data where "de_Marshal env res = Inr data" "p = Some res"
      "mf_ProbeData mf' = data"
    by (auto simp: ensureProbed_def split: sum.splits)
  with assms(3) buildSourceStream_persisted show ?thesis by blast
next
  case False
  with assms(1) show ?thesis by (simp add: ensureProbed_def)
qed

text \<open>
  probing is done at most once per file. When the JSON encoding of a probe result is not empty
  and decodes to the same result, a decision that has been made once is made again from the file
  it left behind with the same outcome, without a write and whatever ffmpeg answers by then.
\<close>

theorem probe_once:
  assumes "MakeDecision env mf ci False = (mf', writes, Inr d)"
    and "de_DevEnableMediaFileProbe env" and "de_IsProbeAvailable env"
    and "\<And>res data. de_Marshal env res = Inr data \<Longrightarrow> data \<noteq> [] \<and> de_Unmarshal env data = Inr res"
  shows "MakeDecision (env\<lparr>de_ProbeAudioStream := probe\<rparr>) mf' ci False = (mf', [], Inr d)"
proof -
  obtain p where p: "ensureProbed env mf = (mf', writes, Inr p)"
    and d: "d = decide env mf' (buildSourceStream env mf' p) ci"
    using assms(1,3) by (auto simp: MakeDecision_def split: prod.splits sum.splits)
  from ensureProbed_persists [OF p assms(2,4)] d assms(3) show ?thesis
    by (simp add: MakeDecision_def ensureProbed_def)
qed

definition example_probing_env :: decider_env where
  "example_probing_env = example_env\<lparr>de_Marshal :=
     (\<lambda>r. if r = \<lparr>pr_Codec = ''FLAC'', pr_Profile = [], pr_BitRate = 900, pr_SampleRate = 44100,
            pr_BitDepth = 16, pr_Channels = 2\<rparr> then Inr ''{}'' else Inl ''unsupported'')\<rparr>"

theorem probe_once_witness:
  "\<exists>d. MakeDecision example_probing_env example_file example_client False =
      (example_file\<lparr>mf_ProbeData := ''{}''\<rparr>, [(''mf1'', ''{}'')], Inr d) \<and>
    MakeDecision (example_probing_env\<lparr>de_ProbeAudioStream := (\<lambda>_. Inl ''killed'')\<rparr>)
      (example_file\<lparr>mf_ProbeData := ''{}''\<rparr>) example_client False =
      (example_file\<lparr>mf_ProbeData := ''{}''\<rparr>, [], Inr d)"
proof -
  have "ensureProbed example_probing_env example_file = (example_file\<lparr>mf_ProbeData := ''{}''\<rparr>,
      [(''mf1'', ''{}'')], Inr (Some \<lparr>pr_Codec = ''FLAC'', pr_Profile = [], pr_BitRate = 900,
        pr_SampleRate = 44100, pr_BitDepth = 16, pr_Channels = 2\<rparr>))"
    by (simp add: ensureProbed_def example_probing_env_def example_env_def example_file_def
        empty_MediaFile_def)
  moreover have av: "de_IsProbeAvailable example_probing_env" "de_DevEnableMediaFileProbe example_probing_env"
    by (simp_all add: example_probing_env_def example_env_def)
  ultimately obtain d where d: "MakeDecision example_probing_env example_file example_client False =
      (example_file\<lparr>mf_ProbeData := ''{}''\<rparr>, [(''mf1'', ''{}'')], Inr d)"
    by (simp add: MakeDecision_def)
  have rt: "data \<noteq> [] \<and> de_Unmarshal example_probing_env data = Inr res"
    if "de_Marshal example_probing_env res = Inr data" for res data
    using that by (auto simp: example_probing_env_def example_env_def split: if_splits)
  from probe_once [OF d av(2,1) rt] d show ?thesis by blast
qed

subsection \<open>The administrator's command\<close>

text \<open>
  when an administrator stores a transcoding with a command and a default bitrate, the decider
  uses that command and that bitrate for its format, in place of the built-in ones.
\<close>

theorem stored_command_used:
  assumes "table_inv db" and "Put_transcoding isAdmin newId db t = Inr db'"
    and "trc_Command t \<noteq> []" and "trc_DefaultBitRate t > 0"
  shows "LookupTranscodeCommand (FindByFormat db') (trc_TargetFormat t) = trc_Command t \<and>
    lookupDefaultBitrate (FindByFormat db') (trc_TargetFormat t) = trc_DefaultBitRate t"
proof -
  obtain u where "FindByFormat db' (trc_TargetFormat t) = Inr u"
    "trc_Command u = trc_Command t" "trc_DefaultBitRate u = trc_DefaultBitRate t"
    using assms(1,2) by (rule repo.stored_command)
  with assms(3,4) show ?thesis
    by (simp add: LookupTranscodeCommand_def lookupDefaultBitrate_def)
qed

definition example_transcoding :: Transcoding where
  "example_transcoding = \<lparr>trc_ID = ''t1'', trc_Name = ''my mp3'', trc_TargetFormat = ''mp3'',
     trc_Command = ''lame %s -'', trc_DefaultBitRate = 160\<rparr>"

theorem stored_command_used_witness:
  "Put_transcoding True ''x'' [] example_transcoding = Inr [example_transcoding] \<and>
   LookupTranscodeCommand (FindByFormat [example_transcoding]) ''mp3'' = ''lame %s -'' \<and>
   LookupTranscodeCommand (FindByFormat []) ''mp3'' \<noteq> ''lame %s -''"
proof -
  have p: "Put_transcoding True ''x'' [] example_transcoding = Inr [example_transcoding]" by code_simp
  have t: "table_inv []" by (simp add: table_inv_def)
  have b: "LookupTranscodeCommand (FindByFormat []) ''mp3'' \<noteq> ''lame %s -''" by code_simp
  from stored_command_used [OF t p] b p show ?thesis by (simp add: example_transcoding_def)
qed

end
