(* ===== verification/Stream_Legacy.thy ===== *)
theory Stream_Legacy
  imports Stream_Decision
begin

text \<open>
  \<open>core/stream/legacy_client.go\<close>: the parameters of a Subsonic \<open>stream\<close> or \<open>download\<close> request
  become client capabilities, and the decision about them a fully specified request. The player
  and the player's transcoding, which the code reads from the request context, are arguments;
  \<open>conf.Server.DefaultDownsamplingFormat\<close> is \<open>dsf\<close>. The recursive call with the default format
  happens at most once, which is the termination argument.
\<close>

definition direct_play_of :: "MediaFile \<Rightarrow> DirectPlayProfile" where
  "direct_play_of mf = \<lparr>dp_Containers = [mf_Suffix mf], dp_AudioCodecs = [AudioCodec mf],
     dp_Protocols = [ProtocolHTTP], dp_MaxAudioChannels = 0\<rparr>"

definition legacyTargetFormat :: "string \<Rightarrow> MediaFile \<Rightarrow> string \<Rightarrow> int \<Rightarrow> int \<Rightarrow> string" where
  "legacyTargetFormat dsf mf reqFormat reqBitRate playerMaxBitRate =
     (if reqFormat \<noteq> [] then reqFormat
      else if reqBitRate > 0 \<and> reqBitRate < mf_BitRate mf \<and> dsf \<noteq> [] then dsf
      else if playerMaxBitRate > 0 \<and> playerMaxBitRate < mf_BitRate mf \<and> dsf \<noteq> [] then dsf
      else [])"

definition buildLegacyClientInfo :: "string \<Rightarrow> MediaFile \<Rightarrow> string \<Rightarrow> int \<Rightarrow> int \<Rightarrow> ClientInfo" where
  "buildLegacyClientInfo dsf mf reqFormat reqBitRate playerMaxBitRate =
     (let ci = \<lparr>ci_Name = ''legacy'', ci_Platform = [], ci_MaxAudioBitrate = 0,
                ci_MaxTranscodingAudioBitrate = 0, ci_DirectPlayProfiles = [],
                ci_TranscodingProfiles = [], ci_CodecProfiles = []\<rparr>;
          targetFormat = legacyTargetFormat dsf mf reqFormat reqBitRate playerMaxBitRate
      in if targetFormat \<noteq> [] then
           let ci1 = (if reqFormat = [] \<or> equal_fold reqFormat (mf_Suffix mf)
                      then ci\<lparr>ci_DirectPlayProfiles := [direct_play_of mf]\<rparr> else ci);
               ci2 = ci1\<lparr>ci_TranscodingProfiles := [\<lparr>tp_Container = targetFormat,
                       tp_AudioCodec = targetFormat, tp_Protocol = ProtocolHTTP, tp_MaxAudioChannels = 0\<rparr>]\<rparr>
           in if reqBitRate > 0
              then ci2\<lparr>ci_MaxAudioBitrate := reqBitRate, ci_MaxTranscodingAudioBitrate := reqBitRate\<rparr>
              else ci2
         else ci\<lparr>ci_DirectPlayProfiles := [\<lparr>dp_Containers = [], dp_AudioCodecs = [],
                   dp_Protocols = [ProtocolHTTP], dp_MaxAudioChannels = 0\<rparr>]\<rparr>)"

text \<open>The client after the server's overrides (lines 70 to 86).\<close>

definition legacyClient ::
  "string \<Rightarrow> Player option \<Rightarrow> Transcoding option \<Rightarrow> MediaFile \<Rightarrow> string \<Rightarrow> int \<Rightarrow> ClientInfo" where
  "legacyClient dsf player trc mf reqFormat reqBitRate =
     (let playerMaxBitRate = (case player of Some p \<Rightarrow> pl_MaxBitRate p | None \<Rightarrow> 0);
          clientInfo = buildLegacyClientInfo dsf mf reqFormat reqBitRate playerMaxBitRate;
          capped = (case player of
                      Some p \<Rightarrow> (case CapBitrate clientInfo (pl_MaxBitRate p) of
                                   (changed, modified) \<Rightarrow> if changed then modified else clientInfo)
                    | None \<Rightarrow> clientInfo)
      in case trc of
           Some t \<Rightarrow> if trc_TargetFormat t \<noteq> [] then applyServerOverride player clientInfo t else capped
         | None \<Rightarrow> capped)"

function ResolveRequest ::
  "decider_env \<Rightarrow> string \<Rightarrow> Player option \<Rightarrow> Transcoding option \<Rightarrow> MediaFile \<Rightarrow>
     string \<Rightarrow> int \<Rightarrow> int \<Rightarrow> Request" where
  "ResolveRequest env dsf player trc mf reqFormat reqBitRate offset =
     (let req = empty_Request\<lparr>rq_Offset := offset\<rparr>
      in if reqFormat = ''raw'' then req\<lparr>rq_Format := ''raw''\<rparr>
         else
           (case snd (snd (MakeDecision env mf (legacyClient dsf player trc mf reqFormat reqBitRate) True)) of
              Inl _ \<Rightarrow> req\<lparr>rq_Format := ''raw''\<rparr>
            | Inr decision \<Rightarrow>
                if td_CanDirectPlay decision then req\<lparr>rq_Format := ''raw''\<rparr>
                else if td_CanTranscode decision then
                  req\<lparr>rq_Format := td_TargetFormat decision, rq_BitRate := td_TargetBitrate decision,
                      rq_SampleRate := td_TargetSampleRate decision,
                      rq_BitDepth := td_TargetBitDepth decision, rq_Channels := td_TargetChannels decision\<rparr>
                else if reqFormat \<noteq> [] \<and> dsf \<noteq> [] \<and> \<not> equal_fold reqFormat dsf then
                  ResolveRequest env dsf player trc mf dsf reqBitRate offset
                else req\<lparr>rq_Format := ''raw''\<rparr>))"
  by pat_completeness auto

termination
  by (relation "measure (\<lambda>(env, dsf, player, trc, mf, reqFormat, _). if equal_fold reqFormat dsf then 0 else 1)")
    auto

declare ResolveRequest.simps [simp del]

subsection \<open>The limits of a legacy request\<close>

lemma MakeDecision_skip:
  "MakeDecision env mf ci True = (mf, [], Inr (decide env mf (buildSourceStream env mf None) ci))"
  by (simp add: MakeDecision_def)

text \<open>The bitrate cap that a legacy request runs under: the override's, or the smaller of the
  requested bitrate and the player's; zero is no cap.\<close>

definition effective_cap :: "Player option \<Rightarrow> Transcoding option \<Rightarrow> int \<Rightarrow> int" where
  "effective_cap player trc reqBitRate =
     (let pmax = (case player of Some p \<Rightarrow> pl_MaxBitRate p | None \<Rightarrow> 0);
          requested = (if pmax \<le> 0 then reqBitRate else if reqBitRate \<le> 0 then pmax else min pmax reqBitRate)
      in case trc of
           Some t \<Rightarrow> if trc_TargetFormat t \<noteq> [] then if pmax > 0 then pmax else trc_DefaultBitRate t
                    else requested
         | None \<Rightarrow> requested)"

lemma legacyClient_profiles:
  "ci_CodecProfiles (legacyClient dsf player trc mf f b) = []"
  by (simp add: legacyClient_def buildLegacyClientInfo_def CapBitrate_def applyServerOverride_def Let_def
      split: option.splits prod.splits)

lemma legacyClient_no_zero: "no_zero_bitrate_limit (legacyClient dsf player trc mf f b)"
  by (simp add: no_zero_bitrate_limit_def legacyClient_profiles)

lemma legacyClient_cap:
  assumes "ci_TranscodingProfiles (legacyClient dsf player trc mf f b) \<noteq> []"
    and "effective_cap player trc b > 0"
  shows "ci_MaxAudioBitrate (legacyClient dsf player trc mf f b) = effective_cap player trc b"
  using assms
  by (auto simp: legacyClient_def buildLegacyClientInfo_def CapBitrate_def applyServerOverride_def
      effective_cap_def Let_def split: option.splits prod.splits if_splits)

lemma decide_transcode_stream:
  assumes "td_CanTranscode (decide env mf src ci)"
  obtains p ts where "p \<in> set (ci_TranscodingProfiles ci)"
    "computeTranscodedStream env src p ci = Some (ts, td_TargetFormat (decide env mf src ci))"
    "td_TargetBitrate (decide env mf src ci) = d_Bitrate ts"
    "td_TargetChannels (decide env mf src ci) = d_Channels ts"
proof -
  have "\<not> td_CanDirectPlay (decide env mf src ci)" using assms decide_direct_only by blast
  from decide_transcode [OF this] assms obtain ts fmt where
    t: "tryTranscode env src ci (ci_TranscodingProfiles ci) = Some (ts, fmt)"
      "td_TargetFormat (decide env mf src ci) = fmt"
      "td_TargetBitrate (decide env mf src ci) = d_Bitrate ts"
      "td_TargetChannels (decide env mf src ci) = d_Channels ts"
    by (auto split: option.splits)
  from t(1) show thesis by (rule tryTranscode_first) (use t that in auto)
qed

text \<open>What a request that is not raw satisfies.\<close>

definition servable :: "decider_env \<Rightarrow> Details \<Rightarrow> int \<Rightarrow> Request \<Rightarrow> bool" where
  "servable env src cap r \<longleftrightarrow>
     LookupTranscodeCommand (de_FindByFormat env) (rq_Format r) \<noteq> [] \<and>
     rq_Channels r \<le> d_Channels src \<and>
     (cap > 0 \<longrightarrow> rq_BitRate r \<le> cap) \<and>
     (\<not> d_IsLossless src \<longrightarrow> rq_BitRate r \<le> d_Bitrate src \<and> \<not> isLosslessFormat (rq_Format r))"

lemma legacy_transcode_servable:
  assumes "ci = legacyClient dsf player trc mf f b" and "td_CanTranscode (decide env mf src ci)"
    and "rq_Format r = td_TargetFormat (decide env mf src ci)"
    and "rq_BitRate r = td_TargetBitrate (decide env mf src ci)"
    and "rq_Channels r = td_TargetChannels (decide env mf src ci)"
  shows "servable env src (effective_cap player trc b) r"
proof -
  obtain p ts where p: "p \<in> set (ci_TranscodingProfiles ci)"
    and c: "computeTranscodedStream env src p ci = Some (ts, rq_Format r)"
    and e: "rq_BitRate r = d_Bitrate ts" "rq_Channels r = d_Channels ts"
    using assms by (metis decide_transcode_stream)
  have cap: "effective_cap player trc b > 0 \<longrightarrow> ci_MaxAudioBitrate ci = effective_cap player trc b"
    using p assms(1) legacyClient_cap by (metis empty_iff list.set(1))
  show ?thesis
    using computeTranscodedStream_limits [OF c] legacyClient_no_zero cap e
    by (auto simp: servable_def assms(1))
qed

text \<open>
  C32: a legacy request always resolves, and to something that can be served within its limits. The
  result keeps the offset and is either the raw file or a transcoding for whose format a command
  exists, whose channels are at most the source's, whose bitrate is at most the smaller of the
  requested and the player's bitrate (the override's when the player has a transcoding), and which
  for a lossy source neither raises the bitrate nor claims to be lossless.
\<close>

theorem ResolveRequest_servable:
  fixes env dsf player trc mf f b offset
  defines "r \<equiv> ResolveRequest env dsf player trc mf f b offset"
  shows "rq_Offset r = offset \<and>
    (r = empty_Request\<lparr>rq_Format := ''raw'', rq_Offset := offset\<rparr> \<or>
     servable env (buildSourceStream env mf None) (effective_cap player trc b) r)"
  unfolding r_def
proof (induction env dsf player trc mf f b offset rule: ResolveRequest.induct)
  case (1 env dsf player trc mf f b offset)
  let ?d = "decide env mf (buildSourceStream env mf None) (legacyClient dsf player trc mf f b)"
  show ?case
  proof (cases "f = ''raw'' \<or> td_CanDirectPlay ?d \<or>
      (\<not> td_CanTranscode ?d \<and> \<not> (f \<noteq> [] \<and> dsf \<noteq> [] \<and> \<not> equal_fold f dsf))")
    case True
    then show ?thesis
      by (subst (1 2 3) ResolveRequest.simps) (auto simp: MakeDecision_skip empty_Request_def Let_def)
  next
    case False
    show ?thesis
    proof (cases "td_CanTranscode ?d")
      case True
      with False legacy_transcode_servable [OF refl True] show ?thesis
        by (subst (1 2 3) ResolveRequest.simps) (simp add: MakeDecision_skip empty_Request_def Let_def)
    next
      case nt: False
      with False have "ResolveRequest env dsf player trc mf f b offset =
          ResolveRequest env dsf player trc mf dsf b offset"
        by (subst ResolveRequest.simps) (simp add: MakeDecision_skip Let_def)
      with 1 [OF refl] False nt show ?thesis by (simp add: MakeDecision_skip)
    qed
  qed
qed

text \<open>
  a player's bitrate limit alone forces downsampling. For a file that has not been probed, whose
  bitrate exceeds the player's limit, a request without format and bitrate is resolved to the
  default downsampling format at exactly the player's bitrate, if that format is lossy and has a
  command.
\<close>

theorem player_cap_forces_downsampling:
  assumes "mf_ProbeData mf = []" and "0 < pl_MaxBitRate p" and "pl_MaxBitRate p < mf_BitRate mf"
    and "dsf \<noteq> []" and "LookupTranscodeCommand (de_FindByFormat env) (to_lower dsf) \<noteq> []"
    and "\<not> isLosslessFormat (to_lower dsf)"
  shows "rq_Format (ResolveRequest env dsf (Some p) None mf [] 0 offset) = to_lower dsf \<and>
    rq_BitRate (ResolveRequest env dsf (Some p) None mf [] 0 offset) = pl_MaxBitRate p"
proof -
  let ?ci = "legacyClient dsf (Some p) None mf [] 0"
  let ?src = "buildSourceStream env mf None"
  let ?p = "\<lparr>tp_Container = dsf, tp_AudioCodec = dsf, tp_Protocol = ProtocolHTTP, tp_MaxAudioChannels = 0\<rparr>"
  have ci: "ci_TranscodingProfiles ?ci = [?p]" "ci_MaxAudioBitrate ?ci = pl_MaxBitRate p"
    "ci_MaxTranscodingAudioBitrate ?ci = pl_MaxBitRate p"
    using assms(2-4)
    by (simp_all add: legacyClient_def buildLegacyClientInfo_def legacyTargetFormat_def CapBitrate_def Let_def)
  have src: "d_Bitrate ?src = mf_BitRate mf"
    using assms(1) by (simp add: buildSourceStream_def parseProbeData_def Let_def)
  have nd: "\<not> td_CanDirectPlay (decide env mf ?src ?ci)"
    using assms(2,3) by (simp add: decide_direct bitrate_admitted_def ci src)
  have fmt: "resolveTargetFormat ?p = (to_lower dsf, to_lower dsf)"
    using assms(4) by (simp add: resolveTargetFormat_def Let_def)
  obtain ts where ts: "computeTranscodedStream env ?src ?p ?ci = Some (ts, to_lower dsf)"
    and b: "d_Bitrate ts = pl_MaxBitRate p"
    using assms(2-6)
    by (auto simp: computeTranscodedStream_def fmt computeBitrate_def ci src applyCodecLimitations_def
        legacyClient_profiles initialTarget_simps(2) Let_def)
  have tr: "tryTranscode env ?src ?ci (ci_TranscodingProfiles ?ci) = Some (ts, to_lower dsf)"
    using ts ci(1) by simp
  from decide_transcode [OF nd, unfolded tr] nd b show ?thesis
    by (subst (1 2) ResolveRequest.simps) (simp add: MakeDecision_skip Let_def)
qed

theorem player_cap_forces_downsampling_witness:
  "rq_Format (ResolveRequest example_env ''opus''
     (Some \<lparr>pl_MaxBitRate = 96, pl_ScrobbleEnabled = True\<rparr>) None example_file [] 0 7) = ''opus'' \<and>
   rq_BitRate (ResolveRequest example_env ''opus''
     (Some \<lparr>pl_MaxBitRate = 96, pl_ScrobbleEnabled = True\<rparr>) None example_file [] 0 7) = 96"
proof -
  have o: "to_lower ''opus'' = ''opus''" by code_simp
  have c: "LookupTranscodeCommand (de_FindByFormat example_env) (to_lower ''opus'') \<noteq> []" by code_simp
  have l: "\<not> isLosslessFormat (to_lower ''opus'')" by code_simp
  have f: "mf_ProbeData example_file = []" "mf_BitRate example_file = 900"
    by (simp_all add: example_file_def empty_MediaFile_def)
  show ?thesis
    using player_cap_forces_downsampling [where p = "\<lparr>pl_MaxBitRate = 96, pl_ScrobbleEnabled = True\<rparr>",
      OF f(1) _ _ _ c l] f(2)
    by (simp add: o)
qed

end
