(* ===== verification/Auth_Claims.thy ===== *)
theory Auth_Claims
  imports Prelude
begin

text \<open>
  \<open>core/auth/claims.go\<close> and the token functions of \<open>core/auth/auth.go\<close>. A claims map is a map
  from names to strings, numbers and booleans. Signing and verification belong to the JWT library
  and are the record \<open>jwt\<close>; \<open>jwt_sound\<close> states what the library documents: a token verifies under
  its own key until it expires and gives back the claims it was made from (numbers of at most
  53 bits, as JSON numbers are read into floats), and under no other key. The secrets of
  \<open>TokenAuth\<close> and \<open>PublicTokenAuth\<close> are arguments.
\<close>

datatype claim = CStr string | CNum int | CBool bool

type_synonym claims = "string \<rightharpoonup> claim"

record Claims =
  cl_Issuer :: string
  cl_Subject :: string
  cl_IssuedAt :: Time
  cl_ExpiresAt :: Time
  cl_UserID :: string
  cl_IsAdmin :: bool
  cl_ID :: string
  cl_Format :: string
  cl_BitRate :: int
  cl_ShareID :: string

definition empty_Claims :: Claims where
  "empty_Claims = \<lparr>cl_Issuer = [], cl_Subject = [], cl_IssuedAt = zero_time, cl_ExpiresAt = zero_time,
     cl_UserID = [], cl_IsAdmin = False, cl_ID = [], cl_Format = [], cl_BitRate = 0, cl_ShareID = []\<rparr>"

definition put_if :: "bool \<Rightarrow> string \<Rightarrow> claim \<Rightarrow> claims \<Rightarrow> claims" where
  "put_if cond k v m = (if cond then m(k \<mapsto> v) else m)"

definition ToMap :: "Claims \<Rightarrow> claims" where
  "ToMap c =
     (let m1 = put_if (cl_Issuer c \<noteq> []) ''iss'' (CStr (cl_Issuer c)) Map.empty;
          m2 = put_if (cl_Subject c \<noteq> []) ''sub'' (CStr (cl_Subject c)) m1;
          m3 = put_if (cl_IssuedAt c \<noteq> zero_time) ''iat'' (CNum (unix (cl_IssuedAt c))) m2;
          m4 = put_if (cl_ExpiresAt c \<noteq> zero_time) ''exp'' (CNum (unix (cl_ExpiresAt c))) m3;
          m5 = put_if (cl_UserID c \<noteq> []) ''uid'' (CStr (cl_UserID c)) m4;
          m6 = put_if (cl_IsAdmin c) ''adm'' (CBool (cl_IsAdmin c)) m5;
          m7 = put_if (cl_ID c \<noteq> []) ''id'' (CStr (cl_ID c)) m6;
          m8 = put_if (cl_Format c \<noteq> []) ''f'' (CStr (cl_Format c)) m7;
          m9 = put_if (cl_BitRate c \<noteq> 0) ''b'' (CNum (cl_BitRate c)) m8
      in put_if (cl_ShareID c \<noteq> []) ''sid'' (CStr (cl_ShareID c)) m9)"

definition WithExpiresAt :: "Claims \<Rightarrow> Time \<Rightarrow> Claims" where
  "WithExpiresAt c t = c\<lparr>cl_ExpiresAt := t\<rparr>"

text \<open>\<open>token.Get\<close> into a variable of a given type, which keeps its zero value on an error.\<close>

definition get_str :: "claims \<Rightarrow> string \<Rightarrow> string" where
  "get_str m k = (case m k of Some (CStr s) \<Rightarrow> s | _ \<Rightarrow> [])"

definition get_bool :: "claims \<Rightarrow> string \<Rightarrow> bool" where
  "get_bool m k = (case m k of Some (CBool b) \<Rightarrow> b | _ \<Rightarrow> False)"

definition get_num :: "claims \<Rightarrow> string \<Rightarrow> int" where
  "get_num m k = (case m k of Some (CNum n) \<Rightarrow> n | _ \<Rightarrow> 0)"

definition get_time :: "claims \<Rightarrow> string \<Rightarrow> Time" where
  "get_time m k = (case m k of Some (CNum n) \<Rightarrow> unix_time n | _ \<Rightarrow> zero_time)"

lemmas get_defs = get_str_def get_bool_def get_num_def get_time_def

definition ClaimsFromToken :: "claims \<Rightarrow> Claims" where
  "ClaimsFromToken m =
     \<lparr>cl_Issuer = get_str m ''iss'', cl_Subject = get_str m ''sub'',
      cl_IssuedAt = get_time m ''iat'', cl_ExpiresAt = get_time m ''exp'',
      cl_UserID = get_str m ''uid'', cl_IsAdmin = get_bool m ''adm'', cl_ID = get_str m ''id'',
      cl_Format = get_str m ''f'', cl_BitRate = get_num m ''b'', cl_ShareID = get_str m ''sid''\<rparr>"

subsection \<open>Tokens\<close>

record jwt =
  jwt_Encode :: "string \<Rightarrow> claims \<Rightarrow> string + string"
  jwt_Verify :: "string \<Rightarrow> Time \<Rightarrow> string \<Rightarrow> string + claims"

definition JWTIssuer :: string where "JWTIssuer = ''ND''"

definition EncodeToken :: "jwt \<Rightarrow> string \<Rightarrow> claims \<Rightarrow> string + string" where
  "EncodeToken j tokenAuth m = jwt_Encode j tokenAuth (m(''iss'' \<mapsto> CStr JWTIssuer))"

definition DecodeAndVerifyToken :: "jwt \<Rightarrow> string \<Rightarrow> Time \<Rightarrow> string \<Rightarrow> string + claims" where
  "DecodeAndVerifyToken j tokenAuth now tokenStr = jwt_Verify j tokenAuth now tokenStr"

definition CreatePublicToken :: "jwt \<Rightarrow> string \<Rightarrow> Claims \<Rightarrow> string + string" where
  "CreatePublicToken j publicAuth c = jwt_Encode j publicAuth (ToMap (c\<lparr>cl_Issuer := JWTIssuer\<rparr>))"

definition CreateExpiringPublicToken :: "jwt \<Rightarrow> string \<Rightarrow> Time \<Rightarrow> Claims \<Rightarrow> string + string" where
  "CreateExpiringPublicToken j publicAuth expires c =
     (let c1 = c\<lparr>cl_Issuer := JWTIssuer\<rparr>;
          c2 = (if expires \<noteq> zero_time then c1\<lparr>cl_ExpiresAt := expires\<rparr> else c1)
      in jwt_Encode j publicAuth (ToMap c2))"

definition TouchToken :: "jwt \<Rightarrow> string \<Rightarrow> Time \<Rightarrow> Duration \<Rightarrow> claims \<Rightarrow> string + string" where
  "TouchToken j tokenAuth now sessionTimeout token =
     jwt_Encode j tokenAuth (ToMap (WithExpiresAt (ClaimsFromToken token) (now + sessionTimeout)))"

record User =
  usr_ID :: string
  usr_UserName :: string
  usr_IsAdmin :: bool

definition session_claims :: "Time \<Rightarrow> User \<Rightarrow> Claims" where
  "session_claims now u = empty_Claims\<lparr>cl_Issuer := JWTIssuer, cl_Subject := usr_UserName u,
     cl_IssuedAt := now, cl_UserID := usr_ID u, cl_IsAdmin := usr_IsAdmin u\<rparr>"

definition CreateToken :: "jwt \<Rightarrow> string \<Rightarrow> Time \<Rightarrow> Duration \<Rightarrow> User \<Rightarrow> string + string" where
  "CreateToken j tokenAuth now sessionTimeout u =
     (let m = ToMap (session_claims now u)
      in case jwt_Encode j tokenAuth m of
           Inl err \<Rightarrow> Inl err
         | Inr _ \<Rightarrow> TouchToken j tokenAuth now sessionTimeout m)"

definition Validate :: "jwt \<Rightarrow> string \<Rightarrow> Time \<Rightarrow> string \<Rightarrow> string + Claims" where
  "Validate j tokenAuth now tokenStr =
     (case jwt_Verify j tokenAuth now tokenStr of
        Inl err \<Rightarrow> Inl err
      | Inr token \<Rightarrow> Inr (ClaimsFromToken token))"

definition ValidatePublic :: "jwt \<Rightarrow> string \<Rightarrow> Time \<Rightarrow> string \<Rightarrow> string + Claims" where
  "ValidatePublic j publicAuth now tokenStr =
     (case jwt_Verify j publicAuth now tokenStr of
        Inl err \<Rightarrow> Inl err
      | Inr token \<Rightarrow> Inr (ClaimsFromToken token))"

subsection \<open>What the JWT library promises\<close>

definition unexpired :: "Time \<Rightarrow> claims \<Rightarrow> bool" where
  "unexpired now m \<longleftrightarrow> (case m ''exp'' of Some (CNum e) \<Rightarrow> unix now < e | _ \<Rightarrow> True)"

definition representable :: "claims \<Rightarrow> bool" where
  "representable m \<longleftrightarrow> (\<forall>k n. m k = Some (CNum n) \<longrightarrow> \<bar>n\<bar> \<le> 2 ^ 53)"

definition jwt_sound :: "jwt \<Rightarrow> bool" where
  "jwt_sound j \<longleftrightarrow>
     (\<forall>k m tok now. jwt_Encode j k m = Inr tok \<longrightarrow> representable m \<longrightarrow>
        (if unexpired now m then jwt_Verify j k now tok = Inr m
         else (\<exists>err. jwt_Verify j k now tok = Inl err))) \<and>
     (\<forall>k k' m tok now. jwt_Encode j k m = Inr tok \<longrightarrow> k \<noteq> k' \<longrightarrow>
        (\<exists>err. jwt_Verify j k' now tok = Inl err))"

lemma jwt_soundD:
  assumes "jwt_sound j" and "jwt_Encode j k m = Inr tok"
  shows "representable m \<Longrightarrow> unexpired now m \<Longrightarrow> jwt_Verify j k now tok = Inr m"
    and "representable m \<Longrightarrow> \<not> unexpired now m \<Longrightarrow> \<exists>err. jwt_Verify j k now tok = Inl err"
    and "k \<noteq> k' \<Longrightarrow> \<exists>err. jwt_Verify j k' now tok = Inl err"
  using assms unfolding jwt_sound_def by (metis (full_types))+

text \<open>A concrete library that signs the claims maps of a list.\<close>

definition example_jwt :: "claims list \<Rightarrow> jwt" where
  "example_jwt ms =
     \<lparr>jwt_Encode = (\<lambda>k m. case index_where (\<lambda>x. x = m) ms of
          Some i \<Rightarrow> Inr (char_of i # k) | None \<Rightarrow> Inl ''cannot encode''),
      jwt_Verify = (\<lambda>k now tok. case tok of
          [] \<Rightarrow> Inl ''malformed''
        | c # k' \<Rightarrow>
            if k' = k \<and> byte_of c < length ms then
              if unexpired now (ms ! byte_of c) then Inr (ms ! byte_of c) else Inl ''expired''
            else Inl ''bad signature'')\<rparr>"

lemma example_jwt_sound: "length ms \<le> 256 \<Longrightarrow> jwt_sound (example_jwt ms)"
  by (auto simp: jwt_sound_def example_jwt_def index_where_Some split: option.splits list.splits)

subsection \<open>Round trips\<close>

lemma put_if_apply [simp]: "put_if c k v m k' = (if c \<and> k = k' then Some v else m k')"
  by (simp add: put_if_def)

lemma zero_time_unix [simp]: "unix_time (unix t) = zero_time \<longleftrightarrow> truncate_second t = zero_time"
  by simp

lemma ClaimsFromToken_ToMap:
  "ClaimsFromToken (ToMap c) =
     c\<lparr>cl_IssuedAt := truncate_second (cl_IssuedAt c), cl_ExpiresAt := truncate_second (cl_ExpiresAt c)\<rparr>"
  by (cases c) (simp add: ClaimsFromToken_def ToMap_def get_defs Let_def truncate_second_zero)

lemma representable_ToMap:
  "\<bar>unix (cl_IssuedAt c)\<bar> \<le> 2 ^ 53 \<Longrightarrow> \<bar>unix (cl_ExpiresAt c)\<bar> \<le> 2 ^ 53 \<Longrightarrow> \<bar>cl_BitRate c\<bar> \<le> 2 ^ 53 \<Longrightarrow>
    representable (ToMap c)"
  by (auto simp: representable_def ToMap_def Let_def split: if_splits)

lemma unexpired_ToMap:
  "unexpired now (ToMap c) \<longleftrightarrow> cl_ExpiresAt c = zero_time \<or> unix now < unix (cl_ExpiresAt c)"
  by (simp add: unexpired_def ToMap_def Let_def)

text \<open>
  the typed claims survive the claims map: reading back the map of a set of claims gives the
  same claims, with the two timestamps truncated to the second.
\<close>

theorem claims_roundtrip:
  "ClaimsFromToken (ToMap c) =
     c\<lparr>cl_IssuedAt := truncate_second (cl_IssuedAt c), cl_ExpiresAt := truncate_second (cl_ExpiresAt c)\<rparr>"
  by (rule ClaimsFromToken_ToMap)

subsection \<open>Sessions\<close>

definition session_end :: "Time \<Rightarrow> Duration \<Rightarrow> User \<Rightarrow> Claims" where
  "session_end now timeout u =
     (session_claims now u)\<lparr>cl_IssuedAt := truncate_second now, cl_ExpiresAt := now + timeout\<rparr>"

lemma CreateToken_claims:
  assumes "CreateToken j k now timeout u = Inr tok"
  shows "jwt_Encode j k (ToMap (session_end now timeout u)) = Inr tok"
  using assms
  by (auto simp: CreateToken_def TouchToken_def ClaimsFromToken_ToMap WithExpiresAt_def session_end_def
      session_claims_def Let_def split: sum.splits)

text \<open>
  a session token identifies its user until the session timeout and nowhere else. A token made
  for a user is accepted as long as the second of the timeout is not reached, with the user's name,
  id and role; from then on it is rejected; and it is never accepted as a public-link token, which
  is signed with another secret.
\<close>

theorem session_token_valid:
  assumes "jwt_sound j" and "CreateToken j k now timeout u = Inr tok"
    and "\<bar>unix now\<bar> \<le> 2 ^ 53" and "\<bar>unix (now + timeout)\<bar> \<le> 2 ^ 53" and "now + timeout \<noteq> zero_time"
    and "k \<noteq> publicKey"
  shows "(case Validate j k t tok of
      Inr c \<Rightarrow> unix t < unix (now + timeout) \<and> cl_Subject c = usr_UserName u \<and> cl_UserID c = usr_ID u \<and>
        cl_IsAdmin c = usr_IsAdmin u \<and> cl_ExpiresAt c = truncate_second (now + timeout)
    | Inl _ \<Rightarrow> unix (now + timeout) \<le> unix t) \<and>
    (\<exists>err. ValidatePublic j publicKey t tok = Inl err)"
proof -
  let ?c = "session_end now timeout u"
  note e = CreateToken_claims [OF assms(2)]
  have r: "representable (ToMap ?c)"
    using assms(3,4) by (intro representable_ToMap) (simp_all add: session_end_def session_claims_def empty_Claims_def)
  have x: "unexpired t (ToMap ?c) \<longleftrightarrow> unix t < unix (now + timeout)"
    using assms(5) by (simp add: unexpired_ToMap session_end_def)
  have pub: "\<exists>err. ValidatePublic j publicKey t tok = Inl err"
    using jwt_soundD(3) [OF assms(1) e assms(6), of t] by (auto simp: ValidatePublic_def)
  show ?thesis
  proof (cases "unix t < unix (now + timeout)")
    case True
    with jwt_soundD(1) [OF assms(1) e r] x have "jwt_Verify j k t tok = Inr (ToMap ?c)" by blast
    with True pub show ?thesis
      by (simp add: Validate_def ClaimsFromToken_ToMap session_end_def session_claims_def)
  next
    case False
    with jwt_soundD(2) [OF assms(1) e r, of t] x pub show ?thesis by (auto simp: Validate_def)
  qed
qed

definition example_user :: User where
  "example_user = \<lparr>usr_ID = ''u1'', usr_UserName = ''ann'', usr_IsAdmin = False\<rparr>"

definition example_session_jwt :: jwt where
  "example_session_jwt = example_jwt [ToMap (session_claims 0 example_user),
     ToMap (session_end 0 (3600 * second) example_user)]"

theorem session_token_valid_witness:
  "\<exists>tok c. CreateToken example_session_jwt ''s'' 0 (3600 * second) example_user = Inr tok \<and>
     Validate example_session_jwt ''s'' (60 * second) tok = Inr c \<and> cl_UserID c = ''u1'' \<and>
     (\<exists>err. ValidatePublic example_session_jwt ''p'' (60 * second) tok = Inl err)"
proof -
  let ?m1 = "ToMap (session_claims 0 example_user)"
  let ?m2 = "ToMap (session_end 0 (3600 * second) example_user)"
  have ne: "?m1 ''exp'' \<noteq> ?m2 ''exp''"
    by (simp add: ToMap_def Let_def session_claims_def session_end_def empty_Claims_def zero_time_def second_def)
  then have ne': "?m1 \<noteq> ?m2" by metis
  have s: "jwt_sound example_session_jwt"
    unfolding example_session_jwt_def by (rule example_jwt_sound) simp
  have m2: "ToMap (WithExpiresAt (ClaimsFromToken ?m1) (0 + 3600 * second)) = ?m2"
    by (simp add: ClaimsFromToken_ToMap WithExpiresAt_def session_end_def session_claims_def)
  obtain tok where t: "CreateToken example_session_jwt ''s'' 0 (3600 * second) example_user = Inr tok"
    using ne' unfolding CreateToken_def TouchToken_def m2 Let_def
    by (simp add: example_session_jwt_def example_jwt_def)
  have z: "0 + 3600 * second \<noteq> zero_time" by (simp add: zero_time_def second_def)
  from session_token_valid [OF s t _ _ z, of "''p''" "60 * second"] t show ?thesis
    by (auto simp: unix_def second_def example_user_def split: sum.splits)
qed

end
