(* ===== verification/Stream_Token.thy ===== *)
theory Stream_Token
  imports Auth_Claims Stream_Types Media_File
begin

text \<open>
  \<open>core/stream/token.go\<close>: a decision is handed to the client as a signed token and comes back with
  the stream request. The clock and the JWT library are arguments. The theorems show that the
  request made from a token is the decision it was made from, and that a token is only ever
  honoured for the file, and the version of the file, it was made for.
\<close>

definition tokenTTL :: Duration where
  "tokenTTL = 48 * 3600 * second"

record params =
  p_MediaID :: string
  p_DirectPlay :: bool
  p_TargetFormat :: string
  p_TargetBitrate :: int
  p_TargetChannels :: int
  p_TargetSampleRate :: int
  p_TargetBitDepth :: int
  p_SourceUpdatedAt :: Time

datatype token_error = ErrTokenInvalid string | ErrTokenStale

definition toClaimsMap :: "Time \<Rightarrow> TranscodeDecision \<Rightarrow> claims" where
  "toClaimsMap now d =
     (let m0 = [''mid'' \<mapsto> CStr (td_MediaID d),
                ''ua'' \<mapsto> CNum (unix (truncate_second (td_SourceUpdatedAt d))),
                ''exp'' \<mapsto> CNum (unix (now + tokenTTL))];
          m1 = put_if (td_CanDirectPlay d) ''dp'' (CBool True) m0
      in if td_CanTranscode d \<and> td_TargetFormat d \<noteq> [] then
           let m2 = m1(''f'' \<mapsto> CStr (td_TargetFormat d));
               m3 = put_if (td_TargetBitrate d \<noteq> 0) ''b'' (CNum (td_TargetBitrate d)) m2;
               m4 = put_if (td_TargetChannels d \<noteq> 0) ''ch'' (CNum (td_TargetChannels d)) m3;
               m5 = put_if (td_TargetSampleRate d \<noteq> 0) ''sr'' (CNum (td_TargetSampleRate d)) m4
           in put_if (td_TargetBitDepth d \<noteq> 0) ''bd'' (CNum (td_TargetBitDepth d)) m5
         else m1)"

definition getIntClaim :: "claims \<Rightarrow> string \<Rightarrow> int" where
  "getIntClaim token key = get_num token key"

definition paramsFromToken :: "claims \<Rightarrow> token_error + params" where
  "paramsFromToken token =
     (let mid = get_str token ''mid''; ua = getIntClaim token ''ua'';
          updatedAt = (if ua \<noteq> 0 then unix_time ua else zero_time)
      in if mid = [] then Inl (ErrTokenInvalid ''missing media ID'')
         else if updatedAt = zero_time then Inl (ErrTokenInvalid ''missing source timestamp'')
         else Inr \<lparr>p_MediaID = mid, p_DirectPlay = get_bool token ''dp'',
                   p_TargetFormat = get_str token ''f'', p_TargetBitrate = getIntClaim token ''b'',
                   p_TargetChannels = getIntClaim token ''ch'', p_TargetSampleRate = getIntClaim token ''sr'',
                   p_TargetBitDepth = getIntClaim token ''bd'', p_SourceUpdatedAt = updatedAt\<rparr>)"

definition CreateTranscodeParams :: "jwt \<Rightarrow> string \<Rightarrow> Time \<Rightarrow> TranscodeDecision \<Rightarrow> string + string" where
  "CreateTranscodeParams j k now decision = EncodeToken j k (toClaimsMap now decision)"

definition parseTranscodeParams :: "jwt \<Rightarrow> string \<Rightarrow> Time \<Rightarrow> string \<Rightarrow> token_error + params" where
  "parseTranscodeParams j k now tokenStr =
     (case DecodeAndVerifyToken j k now tokenStr of
        Inl err \<Rightarrow> Inl (ErrTokenInvalid err)
      | Inr token \<Rightarrow> paramsFromToken token)"

text \<open>The error of a token that cannot be parsed is joined with \<open>ErrTokenInvalid\<close>; its text is
  the one the parser gave.\<close>

definition ResolveRequestFromToken ::
  "jwt \<Rightarrow> string \<Rightarrow> Time \<Rightarrow> string \<Rightarrow> MediaFile \<Rightarrow> int \<Rightarrow> token_error + Request" where
  "ResolveRequestFromToken j k now token mf offset =
     (case parseTranscodeParams j k now token of
        Inl err \<Rightarrow> Inl err
      | Inr p \<Rightarrow>
          if p_MediaID p \<noteq> mf_ID mf then Inl (ErrTokenInvalid ''token mediaID does not match'')
          else if truncate_second (mf_UpdatedAt mf) \<noteq> p_SourceUpdatedAt p then Inl ErrTokenStale
          else
            let req = empty_Request\<lparr>rq_Offset := offset\<rparr>
            in Inr (if \<not> p_DirectPlay p \<and> p_TargetFormat p \<noteq> [] then
                      req\<lparr>rq_Format := p_TargetFormat p, rq_BitRate := p_TargetBitrate p,
                          rq_SampleRate := p_TargetSampleRate p, rq_BitDepth := p_TargetBitDepth p,
                          rq_Channels := p_TargetChannels p\<rparr>
                    else req))"

subsection \<open>From a decision to a request\<close>

text \<open>The request that a decision asks for.\<close>

definition request_of :: "TranscodeDecision \<Rightarrow> int \<Rightarrow> Request" where
  "request_of d offset =
     (if td_CanTranscode d \<and> td_TargetFormat d \<noteq> [] \<and> \<not> td_CanDirectPlay d then
        \<lparr>rq_Format = td_TargetFormat d, rq_BitRate = td_TargetBitrate d,
         rq_SampleRate = td_TargetSampleRate d, rq_BitDepth = td_TargetBitDepth d,
         rq_Channels = td_TargetChannels d, rq_Offset = offset\<rparr>
      else empty_Request\<lparr>rq_Offset := offset\<rparr>)"

text \<open>Timestamps other than the Unix epoch and the zero time, and numbers a float holds.\<close>

definition token_exact :: "Time \<Rightarrow> TranscodeDecision \<Rightarrow> bool" where
  "token_exact now d \<longleftrightarrow>
     td_MediaID d \<noteq> [] \<and> unix (td_SourceUpdatedAt d) \<noteq> 0 \<and>
     truncate_second (td_SourceUpdatedAt d) \<noteq> zero_time \<and>
     \<bar>unix (td_SourceUpdatedAt d)\<bar> \<le> 2 ^ 53 \<and> \<bar>unix (now + tokenTTL)\<bar> \<le> 2 ^ 53 \<and>
     \<bar>td_TargetBitrate d\<bar> \<le> 2 ^ 53 \<and> \<bar>td_TargetChannels d\<bar> \<le> 2 ^ 53 \<and>
     \<bar>td_TargetSampleRate d\<bar> \<le> 2 ^ 53 \<and> \<bar>td_TargetBitDepth d\<bar> \<le> 2 ^ 53"

lemma toClaimsMap_representable:
  "token_exact now d \<Longrightarrow> representable ((toClaimsMap now d)(''iss'' \<mapsto> CStr i))"
  by (auto simp: representable_def toClaimsMap_def token_exact_def Let_def split: if_splits)

lemma toClaimsMap_unexpired:
  "unexpired t ((toClaimsMap now d)(''iss'' \<mapsto> CStr i)) \<longleftrightarrow> unix t < unix (now + tokenTTL)"
  by (simp add: unexpired_def toClaimsMap_def Let_def)

lemma paramsFromToken_toClaimsMap:
  assumes "token_exact now d"
  shows "paramsFromToken ((toClaimsMap now d)(''iss'' \<mapsto> CStr i)) =
    (let tr = td_CanTranscode d \<and> td_TargetFormat d \<noteq> []
     in Inr \<lparr>p_MediaID = td_MediaID d, p_DirectPlay = td_CanDirectPlay d,
       p_TargetFormat = (if tr then td_TargetFormat d else []),
       p_TargetBitrate = (if tr then td_TargetBitrate d else 0),
       p_TargetChannels = (if tr then td_TargetChannels d else 0),
       p_TargetSampleRate = (if tr then td_TargetSampleRate d else 0),
       p_TargetBitDepth = (if tr then td_TargetBitDepth d else 0),
       p_SourceUpdatedAt = truncate_second (td_SourceUpdatedAt d)\<rparr>)"
  using assms
  by (simp add: paramsFromToken_def getIntClaim_def get_defs toClaimsMap_def token_exact_def Let_def)

text \<open>
  C7: the token round trip. Within the token's 48 hours, the token of a decision presented for the
  file it was made for resolves to exactly the request the decision describes, if the file's
  modification time is unchanged to the second; it is refused as stale if the file was modified
  since, and as invalid for another file or once it has expired.
\<close>

theorem transcode_token_roundtrip:
  assumes "jwt_sound j" and "CreateTranscodeParams j k now d = Inr tok" and "token_exact now d"
  shows "case ResolveRequestFromToken j k t tok mf offset of
      Inr r \<Rightarrow> unix t < unix (now + tokenTTL) \<and> td_MediaID d = mf_ID mf \<and>
        truncate_second (td_SourceUpdatedAt d) = truncate_second (mf_UpdatedAt mf) \<and> r = request_of d offset
    | Inl ErrTokenStale \<Rightarrow> unix t < unix (now + tokenTTL) \<and> td_MediaID d = mf_ID mf \<and>
        truncate_second (td_SourceUpdatedAt d) \<noteq> truncate_second (mf_UpdatedAt mf)
    | Inl (ErrTokenInvalid _) \<Rightarrow> unix (now + tokenTTL) \<le> unix t \<or> td_MediaID d \<noteq> mf_ID mf"
proof (cases "unix t < unix (now + tokenTTL)")
  let ?m = "(toClaimsMap now d)(''iss'' \<mapsto> CStr JWTIssuer)"
  have e: "jwt_Encode j k ?m = Inr tok"
    using assms(2) by (simp add: CreateTranscodeParams_def EncodeToken_def)
  note r = toClaimsMap_representable [OF assms(3), of JWTIssuer]
  {
    case True
    then have "jwt_Verify j k t tok = Inr ?m"
      using jwt_soundD(1) [OF assms(1) e r, of t] by (simp add: toClaimsMap_unexpired)
    with True show ?thesis
      by (simp add: ResolveRequestFromToken_def parseTranscodeParams_def DecodeAndVerifyToken_def
          paramsFromToken_toClaimsMap [OF assms(3)] request_of_def empty_Request_def Let_def)
  next
    case False
    then have "\<exists>err. jwt_Verify j k t tok = Inl err"
      using jwt_soundD(2) [OF assms(1) e r, of t] by (simp add: toClaimsMap_unexpired)
    with False show ?thesis
      by (auto simp: ResolveRequestFromToken_def parseTranscodeParams_def DecodeAndVerifyToken_def)
  }
qed

definition example_decision :: TranscodeDecision where
  "example_decision = \<lparr>td_MediaID = ''mf1'', td_CanDirectPlay = False, td_CanTranscode = True,
     td_TranscodeReasons = [], td_ErrorReason = [], td_TargetFormat = ''opus'', td_TargetBitrate = 128,
     td_TargetChannels = 2, td_TargetSampleRate = 48000, td_TargetBitDepth = 0,
     td_SourceStream = empty_Details, td_SourceUpdatedAt = 1700000000 * second,
     td_TranscodeStream = None\<rparr>"

definition example_token_jwt :: jwt where
  "example_token_jwt = example_jwt [(toClaimsMap 0 example_decision)(''iss'' \<mapsto> CStr JWTIssuer)]"

theorem transcode_token_roundtrip_witness:
  "\<exists>tok. CreateTranscodeParams example_token_jwt ''s'' 0 example_decision = Inr tok \<and>
     ResolveRequestFromToken example_token_jwt ''s'' (60 * second) tok
       (empty_MediaFile\<lparr>mf_ID := ''mf1'', mf_UpdatedAt := 1700000000 * second + 5\<rparr>) 10 =
       Inr (request_of example_decision 10)"
proof -
  let ?mf = "empty_MediaFile\<lparr>mf_ID := ''mf1'', mf_UpdatedAt := 1700000000 * second + 5\<rparr>"
  have s: "jwt_sound example_token_jwt"
    unfolding example_token_jwt_def by (rule example_jwt_sound) simp
  obtain tok where t: "CreateTranscodeParams example_token_jwt ''s'' 0 example_decision = Inr tok"
    by (simp add: CreateTranscodeParams_def EncodeToken_def example_token_jwt_def example_jwt_def)
  have x: "token_exact 0 example_decision"
    by (simp add: token_exact_def example_decision_def unix_def second_def tokenTTL_def zero_time_def
        truncate_second_def)
  have m: "truncate_second (td_SourceUpdatedAt example_decision) = truncate_second (mf_UpdatedAt ?mf)"
    "td_MediaID example_decision = mf_ID ?mf" "unix (60 * second) < unix (0 + tokenTTL)"
    by (simp_all add: example_decision_def truncate_second_def second_def unix_def tokenTTL_def)
  have "ResolveRequestFromToken example_token_jwt ''s'' (60 * second) tok ?mf 10 =
      Inr (request_of example_decision 10)"
    using transcode_token_roundtrip [OF s t x, of "60 * second" ?mf 10] m
    by (auto split: sum.splits token_error.splits)
  with t show ?thesis by blast
qed

end
