(* ===== verification/Slots.thy ===== *)
theory Slots
  imports Prelude
begin

text \<open>
  Slots that interleaved threads take and give back: how many threads of a list satisfy a
  predicate, and the interface \<open>slot_system\<close> of a shared state that counts, for every key, the
  threads that hold a slot. Its laws speak of one atomic step of one thread; its lemmas carry the
  accounting over to the whole system. The transcode limiter and the request throttle interpret it.
\<close>

definition count_if :: "('a \<Rightarrow> bool) \<Rightarrow> 'a list \<Rightarrow> nat" where
  "count_if p xs = length (filter p xs)"

lemma count_if_simps [simp]:
  "count_if p [] = 0" "count_if p (x # xs) = of_bool (p x) + count_if p xs"
  "count_if p (xs @ ys) = count_if p xs + count_if p ys"
  by (simp_all add: count_if_def)

lemma count_if_0: "count_if p xs = 0 \<longleftrightarrow> (\<forall>x \<in> set xs. \<not> p x)"
  by (simp add: count_if_def filter_empty_conv)

lemma count_if_pos: "i < length xs \<Longrightarrow> p (xs ! i) \<Longrightarrow> 0 < count_if p xs"
  using count_if_0 [of p xs] by (metis gr0I nth_mem)

lemma count_if_update:
  "i < length xs \<Longrightarrow> count_if p (xs[i := x]) + of_bool (p (xs ! i)) = count_if p xs + of_bool (p x)"
proof (induction xs arbitrary: i)
  case (Cons y ys)
  then show ?case by (cases i) auto
qed simp

lemma count_if_mono: "(\<And>x. p x \<Longrightarrow> q x) \<Longrightarrow> count_if p xs \<le> count_if q xs"
  by (induction xs) (auto simp: of_bool_def)

locale slot_system =
  fixes tstep :: "'pc \<Rightarrow> 'sh \<Rightarrow> ('pc \<times> 'sh) option"
    and sh_inv :: "'sh \<Rightarrow> bool"
    and slots :: "'sh \<Rightarrow> 'k \<Rightarrow> nat"
    and holds :: "'k \<Rightarrow> 'pc \<Rightarrow> bool"
  assumes tstep_inv: "tstep pc sh = Some (pc', sh') \<Longrightarrow> sh_inv sh \<Longrightarrow>
      (\<And>k. holds k pc \<Longrightarrow> 0 < slots sh k) \<Longrightarrow> sh_inv sh'"
    and tstep_slots: "tstep pc sh = Some (pc', sh') \<Longrightarrow> sh_inv sh \<Longrightarrow>
      (\<And>k. holds k pc \<Longrightarrow> 0 < slots sh k) \<Longrightarrow>
      slots sh' k + of_bool (holds k pc) = slots sh k + of_bool (holds k pc')"
begin

definition accounted :: "'sh \<Rightarrow> 'pc list \<Rightarrow> bool" where
  "accounted sh pcs \<longleftrightarrow> sh_inv sh \<and> (\<forall>k. slots sh k = count_if (holds k) pcs)"

lemma accounted_holds: "accounted sh pcs \<Longrightarrow> i < length pcs \<Longrightarrow> holds k (pcs ! i) \<Longrightarrow> 0 < slots sh k"
  by (metis accounted_def count_if_pos)

lemma accounted_step:
  assumes a: "accounted sh pcs" and i: "i < length pcs" and t: "tstep (pcs ! i) sh = Some (pc', sh')"
  shows "accounted sh' (pcs[i := pc'])"
proof -
  have h: "holds k (pcs ! i) \<Longrightarrow> 0 < slots sh k" for k using a i by (rule accounted_holds)
  have inv: "sh_inv sh" using a by (simp add: accounted_def)
  have "slots sh' k = count_if (holds k) (pcs[i := pc'])" for k
    using tstep_slots [OF t inv h, of k] count_if_update [OF i, of "holds k" pc'] a
    by (simp add: accounted_def)
  with tstep_inv [OF t inv h] show ?thesis by (simp add: accounted_def)
qed

lemma accounted_spawn:
  assumes "accounted sh pcs" and "\<And>k. \<not> holds k pc"
  shows "accounted sh (pcs @ [pc])"
  using assms by (simp add: accounted_def)

lemma accounted_idle:
  assumes "accounted sh pcs" and "\<And>pc k. pc \<in> set pcs \<Longrightarrow> \<not> holds k pc"
  shows "slots sh k = 0"
  using assms by (simp add: accounted_def count_if_0)

end

end
