(* ===== verification/Stream_Limiter.thy ===== *)
theory Stream_Limiter
  imports Slots
begin

text \<open>
  \<open>core/stream/limiter.go\<close>: the limiter of concurrent transcodes. The buffered channel \<open>global\<close> is
  the number of values in it, the map \<open>perUser\<close> a map. \<open>Acquire\<close> and \<open>release\<close> are not atomic: the
  mutex protects only the map, so each is a sequence of atomic actions, and requests interleave
  between them. A request is a thread whose program counter is \<open>acq_pc\<close>; \<open>thread_step\<close> is its next
  atomic action (\<^const>\<open>None\<close> when it is finished, or blocked on an empty channel), and
  \<open>limiter_step\<close> lets any request move or a new one arrive.
\<close>

record limiter_config =
  lc_maxConcurrent :: int
  lc_maxPerUser :: int

record limiter =
  lm_global :: nat
  lm_perUser :: "string \<rightharpoonup> int"

datatype TranscodeLimiter = noopLimiter | transcodeLimiter limiter_config limiter

definition new_limiter :: limiter where
  "new_limiter = \<lparr>lm_global = 0, lm_perUser = Map.empty\<rparr>"

definition NewTranscodeLimiter :: "int \<Rightarrow> int \<Rightarrow> TranscodeLimiter" where
  "NewTranscodeLimiter maxConcurrent maxPerUser =
     (if maxConcurrent \<le> 0 \<and> maxPerUser \<le> 0 then noopLimiter
      else transcodeLimiter \<lparr>lc_maxConcurrent = maxConcurrent, lc_maxPerUser = maxPerUser\<rparr> new_limiter)"

definition Enabled :: "TranscodeLimiter \<Rightarrow> bool" where
  "Enabled l = (case l of noopLimiter \<Rightarrow> False | transcodeLimiter _ _ \<Rightarrow> True)"

subsection \<open>Atomic actions\<close>

definition user_count :: "limiter \<Rightarrow> string \<Rightarrow> int" where
  "user_count l u = (case lm_perUser l u of None \<Rightarrow> 0 | Some n \<Rightarrow> n)"

definition perUserActive :: "limiter_config \<Rightarrow> string \<Rightarrow> bool" where
  "perUserActive cfg u \<longleftrightarrow> lc_maxPerUser cfg > 0 \<and> u \<noteq> []"

definition reservePerUser :: "limiter_config \<Rightarrow> string \<Rightarrow> limiter \<Rightarrow> limiter option" where
  "reservePerUser cfg u l =
     (if user_count l u \<ge> lc_maxPerUser cfg then None
      else Some (l\<lparr>lm_perUser := (lm_perUser l)(u \<mapsto> user_count l u + 1)\<rparr>))"

definition sendGlobal :: "limiter_config \<Rightarrow> limiter \<Rightarrow> limiter option" where
  "sendGlobal cfg l =
     (if lc_maxConcurrent cfg > 0 then
        if int (lm_global l) < lc_maxConcurrent cfg then Some (l\<lparr>lm_global := lm_global l + 1\<rparr>) else None
      else Some l)"

definition receiveGlobal :: "limiter_config \<Rightarrow> limiter \<Rightarrow> limiter option" where
  "receiveGlobal cfg l =
     (if lc_maxConcurrent cfg > 0 then
        if lm_global l > 0 then Some (l\<lparr>lm_global := lm_global l - 1\<rparr>) else None
      else Some l)"

definition releasePerUser :: "string \<Rightarrow> limiter \<Rightarrow> limiter" where
  "releasePerUser u l =
     (let n = user_count l u - 1
      in if n \<le> 0 then l\<lparr>lm_perUser := (lm_perUser l)(u := None)\<rparr>
         else l\<lparr>lm_perUser := (lm_perUser l)(u \<mapsto> n)\<rparr>)"

subsection \<open>Requests\<close>

datatype acq_pc =
    Acquiring string | Reserved string | RollingBack string | Rejected string
  | Held string | Releasing string | Returning string | Released string

definition thread_step :: "limiter_config \<Rightarrow> acq_pc \<Rightarrow> limiter \<Rightarrow> (acq_pc \<times> limiter) option" where
  "thread_step cfg pc l =
     (case pc of
        Acquiring u \<Rightarrow>
          if perUserActive cfg u then
            (case reservePerUser cfg u l of
               None \<Rightarrow> Some (Rejected u, l)
             | Some l' \<Rightarrow> Some (Reserved u, l'))
          else Some (Reserved u, l)
      | Reserved u \<Rightarrow>
          (case sendGlobal cfg l of
             None \<Rightarrow> Some (RollingBack u, l)
           | Some l' \<Rightarrow> Some (Held u, l'))
      | RollingBack u \<Rightarrow> Some (Rejected u, if perUserActive cfg u then releasePerUser u l else l)
      | Rejected u \<Rightarrow> None
      | Held u \<Rightarrow> Some (Releasing u, l)
      | Releasing u \<Rightarrow>
          (case receiveGlobal cfg l of
             None \<Rightarrow> None
           | Some l' \<Rightarrow> Some (Returning u, l'))
      | Returning u \<Rightarrow> Some (Released u, if perUserActive cfg u then releasePerUser u l else l)
      | Released u \<Rightarrow> None)"

inductive limiter_step :: "limiter_config \<Rightarrow> limiter \<times> acq_pc list \<Rightarrow> limiter \<times> acq_pc list \<Rightarrow> bool"
  for cfg where
  arrive: "limiter_step cfg (l, pcs) (l, pcs @ [Acquiring u])"
| act: "i < length pcs \<Longrightarrow> thread_step cfg (pcs ! i) l = Some (pc', l') \<Longrightarrow>
    limiter_step cfg (l, pcs) (l', pcs[i := pc'])"
| release_again: "i < length pcs \<Longrightarrow> pcs ! i \<in> {Releasing u, Returning u, Released u} \<Longrightarrow>
    limiter_step cfg (l, pcs) (l, pcs)"

inductive limiter_reachable :: "limiter_config \<Rightarrow> limiter \<times> acq_pc list \<Rightarrow> bool" for cfg where
  init: "limiter_reachable cfg (new_limiter, [])"
| step: "limiter_reachable cfg s \<Longrightarrow> limiter_step cfg s s' \<Longrightarrow> limiter_reachable cfg s'"

inductive_cases limiter_stepE: "limiter_step cfg (l, pcs) s'"

subsection \<open>Accounting\<close>

text \<open>The keys of the accounting: the global channel and each user's counter.\<close>

definition holds_slot :: "limiter_config \<Rightarrow> string option \<Rightarrow> acq_pc \<Rightarrow> bool" where
  "holds_slot cfg key pc \<longleftrightarrow>
     (case key of
        None \<Rightarrow> lc_maxConcurrent cfg > 0 \<and> (case pc of Held _ \<Rightarrow> True | Releasing _ \<Rightarrow> True | _ \<Rightarrow> False)
      | Some u \<Rightarrow> perUserActive cfg u \<and>
          (case pc of Reserved v \<Rightarrow> v = u | RollingBack v \<Rightarrow> v = u | Held v \<Rightarrow> v = u
           | Releasing v \<Rightarrow> v = u | Returning v \<Rightarrow> v = u | _ \<Rightarrow> False))"

definition used_slots :: "limiter \<Rightarrow> string option \<Rightarrow> nat" where
  "used_slots l key = (case key of None \<Rightarrow> lm_global l | Some u \<Rightarrow> nat (user_count l u))"

text \<open>The shared state is within the caps and the map has only positive counters.\<close>

definition limiter_inv :: "limiter_config \<Rightarrow> limiter \<Rightarrow> bool" where
  "limiter_inv cfg l \<longleftrightarrow>
     (if lc_maxConcurrent cfg > 0 then int (lm_global l) \<le> lc_maxConcurrent cfg else lm_global l = 0) \<and>
     (\<forall>u n. lm_perUser l u = Some n \<longrightarrow> 0 < n \<and> n \<le> lc_maxPerUser cfg)"

declare limiter_inv_def [inv_defs]

lemmas limiter_action_defs = reservePerUser_def sendGlobal_def receiveGlobal_def releasePerUser_def

lemma user_count_nonneg: "limiter_inv cfg l \<Longrightarrow> 0 \<le> user_count l u"
  by (auto simp: limiter_inv_def user_count_def split: option.splits dest: less_imp_le)

lemma user_count_upd [simp]:
  "user_count (l\<lparr>lm_perUser := m\<rparr>) u = (case m u of None \<Rightarrow> 0 | Some n \<Rightarrow> n)"
  "user_count (l\<lparr>lm_global := g\<rparr>) u = user_count l u"
  by (simp_all add: user_count_def)

lemma reservePerUser_Some:
  assumes "reservePerUser cfg u l = Some l'" and "limiter_inv cfg l"
  shows "limiter_inv cfg l' \<and> lm_global l' = lm_global l \<and>
    user_count l' v = user_count l v + of_bool (v = u)"
proof -
  have l': "l' = l\<lparr>lm_perUser := (lm_perUser l)(u \<mapsto> user_count l u + 1)\<rparr>"
    and c: "user_count l u < lc_maxPerUser cfg"
    using assms(1) by (auto simp: reservePerUser_def split: if_splits)
  have "limiter_inv cfg l'"
    using assms(2) c user_count_nonneg [OF assms(2), of u] unfolding limiter_inv_def l' by auto
  then show ?thesis by (auto simp: l' user_count_def)
qed

lemma releasePerUser_count:
  assumes "limiter_inv cfg l" and "0 < user_count l u"
  shows "limiter_inv cfg (releasePerUser u l) \<and> lm_global (releasePerUser u l) = lm_global l \<and>
    user_count (releasePerUser u l) v = user_count l v - of_bool (v = u)"
proof -
  obtain n where n: "lm_perUser l u = Some n" "0 < n" "n \<le> lc_maxPerUser cfg" "user_count l u = n"
    using assms by (auto simp: limiter_inv_def user_count_def split: option.splits)
  have "limiter_inv cfg (releasePerUser u l)"
    using assms(1) n(2-4) by (auto simp: limiter_inv_def releasePerUser_def Let_def)
  moreover have "user_count (releasePerUser u l) v = user_count l v - of_bool (v = u)"
    using n by (auto simp: releasePerUser_def Let_def user_count_def)
  ultimately show ?thesis by (simp add: releasePerUser_def Let_def)
qed

lemma releasePerUser_accounts:
  assumes "limiter_inv cfg l" and "perUserActive cfg u" and "0 < used_slots l (Some u)"
  shows "limiter_inv cfg (releasePerUser u l) \<and>
    used_slots (releasePerUser u l) k + of_bool (k = Some u) = used_slots l k"
  using assms releasePerUser_count [OF assms(1), of u]
  by (cases k) (auto simp: used_slots_def)

lemma thread_step_accounts:
  assumes t: "thread_step cfg pc l = Some (pc', l')" and inv: "limiter_inv cfg l"
    and h: "\<And>k. holds_slot cfg k pc \<Longrightarrow> 0 < used_slots l k"
  shows "limiter_inv cfg l' \<and>
    used_slots l' k + of_bool (holds_slot cfg k pc) = used_slots l k + of_bool (holds_slot cfg k pc')"
proof (cases pc)
  case (Acquiring u)
  with t inv reservePerUser_Some [of cfg u l l'] user_count_nonneg [OF inv] show ?thesis
    by (cases k) (auto simp: thread_step_def holds_slot_def used_slots_def nat_add_distrib
        split: if_splits option.splits)
next
  case (Reserved u)
  with t inv show ?thesis
    by (cases k) (auto simp: thread_step_def holds_slot_def used_slots_def sendGlobal_def limiter_inv_def
        split: if_splits option.splits)
next
  case (RollingBack u)
  with t inv h [of "Some u"] releasePerUser_accounts [OF inv, of u k] show ?thesis
    by (cases k) (auto simp: thread_step_def holds_slot_def of_bool_def split: if_splits)
next
  case (Held u)
  with t inv show ?thesis
    by (cases k) (auto simp: thread_step_def holds_slot_def used_slots_def)
next
  case (Releasing u)
  with t inv h [of None] show ?thesis
    by (cases k) (auto simp: thread_step_def holds_slot_def used_slots_def receiveGlobal_def limiter_inv_def
        split: if_splits option.splits)
next
  case (Returning u)
  with t inv h [of "Some u"] releasePerUser_accounts [OF inv, of u k] show ?thesis
    by (cases k) (auto simp: thread_step_def holds_slot_def of_bool_def split: if_splits)
qed (use t in \<open>simp_all add: thread_step_def\<close>)

interpretation lim: slot_system "thread_step cfg" "limiter_inv cfg" used_slots "holds_slot cfg" for cfg
  by unfold_locales (blast dest: thread_step_accounts)+

lemma reachable_accounted:
  "limiter_reachable cfg s \<Longrightarrow> lim.accounted cfg (fst s) (snd s)"
proof (induction rule: limiter_reachable.induct)
  case init
  show ?case
    unfolding lim.accounted_def
    by (auto simp: limiter_inv_def new_limiter_def used_slots_def user_count_def split: option.splits)
next
  case (step s s')
  obtain l pcs where s: "s = (l, pcs)" by fastforce
  with step.IH have a: "lim.accounted cfg l pcs" by simp
  have new: "\<not> holds_slot cfg k (Acquiring u)" for k u
    by (simp add: holds_slot_def split: option.splits)
  from step.hyps(2) [unfolded s] show ?case
    by (cases rule: limiter_stepE)
      (use a lim.accounted_step lim.accounted_spawn [OF a new] in auto)
qed

subsection \<open>Safety and progress\<close>

definition is_held :: "acq_pc \<Rightarrow> bool" where
  "is_held pc \<longleftrightarrow> (case pc of Held _ \<Rightarrow> True | _ \<Rightarrow> False)"

definition finished :: "acq_pc \<Rightarrow> bool" where
  "finished pc \<longleftrightarrow> (case pc of Rejected _ \<Rightarrow> True | Released _ \<Rightarrow> True | _ \<Rightarrow> False)"

text \<open>
  C2: however requests interleave, the limiter keeps its caps: the transcodes that run at the same
  time are at most the global maximum, and those of a named user at most the maximum per user (a
  maximum of zero or less is no cap).
\<close>

theorem limiter_caps:
  assumes "limiter_reachable cfg (l, pcs)"
  shows "(lc_maxConcurrent cfg > 0 \<longrightarrow> int (count_if is_held pcs) \<le> lc_maxConcurrent cfg) \<and>
    (lc_maxPerUser cfg > 0 \<and> u \<noteq> [] \<longrightarrow> int (count_if (\<lambda>pc. pc = Held u) pcs) \<le> lc_maxPerUser cfg)"
proof (intro conjI impI)
  from reachable_accounted [OF assms] have inv: "limiter_inv cfg l"
    and slots: "used_slots l k = count_if (holds_slot cfg k) pcs" for k
    by (simp_all add: lim.accounted_def)
  show "int (count_if is_held pcs) \<le> lc_maxConcurrent cfg" if "lc_maxConcurrent cfg > 0"
  proof -
    have "count_if is_held pcs \<le> count_if (holds_slot cfg None) pcs"
      by (rule count_if_mono) (use that in \<open>auto simp: is_held_def holds_slot_def split: acq_pc.splits\<close>)
    with slots [of None] inv that show ?thesis by (simp add: used_slots_def limiter_inv_def)
  qed
  show "int (count_if (\<lambda>pc. pc = Held u) pcs) \<le> lc_maxPerUser cfg"
    if "lc_maxPerUser cfg > 0 \<and> u \<noteq> []"
  proof -
    have "count_if (\<lambda>pc. pc = Held u) pcs \<le> count_if (holds_slot cfg (Some u)) pcs"
      by (rule count_if_mono) (use that in \<open>auto simp: holds_slot_def perUserActive_def\<close>)
    moreover have "user_count l u \<le> lc_maxPerUser cfg"
      using inv that by (auto simp: limiter_inv_def user_count_def split: option.splits)
    ultimately show ?thesis using slots [of "Some u"] that by (auto simp: used_slots_def nat_le_iff)
  qed
qed

definition example_limits :: limiter_config where
  "example_limits = \<lparr>lc_maxConcurrent = 2, lc_maxPerUser = 1\<rparr>"

lemma example_limiter_reachable:
  "limiter_reachable example_limits (\<lparr>lm_global = 1, lm_perUser = [''ann'' \<mapsto> 1]\<rparr>, [Held ''ann''])"
proof -
  have "limiter_reachable example_limits (new_limiter, [] @ [Acquiring ''ann''])"
    by (rule limiter_reachable.step [OF limiter_reachable.init limiter_step.arrive])
  moreover have "limiter_step example_limits (new_limiter, [Acquiring ''ann''])
      (\<lparr>lm_global = 0, lm_perUser = [''ann'' \<mapsto> 1]\<rparr>, [Acquiring ''ann''][0 := Reserved ''ann''])"
    by (rule limiter_step.act)
      (simp_all add: thread_step_def perUserActive_def example_limits_def reservePerUser_def new_limiter_def
        user_count_def)
  moreover have "limiter_step example_limits (\<lparr>lm_global = 0, lm_perUser = [''ann'' \<mapsto> 1]\<rparr>, [Reserved ''ann''])
      (\<lparr>lm_global = 1, lm_perUser = [''ann'' \<mapsto> 1]\<rparr>, [Reserved ''ann''][0 := Held ''ann''])"
    by (rule limiter_step.act) (simp_all add: thread_step_def example_limits_def sendGlobal_def)
  ultimately show ?thesis by (auto intro: limiter_reachable.step)
qed

theorem limiter_caps_witness:
  "int (count_if is_held [Held ''ann'']) \<le> 2 \<and> int (count_if (\<lambda>pc. pc = Held ''ann'') [Held ''ann'']) \<le> 1"
  using limiter_caps [OF example_limiter_reachable, of "''ann''"] by (simp add: example_limits_def)

text \<open>
  C30: no request is ever stuck and no slot leaks. In every reachable state a request that is not
  finished can take its next step (in particular, releasing never blocks on the channel), and when
  all requests are finished the limiter is as new: the channel empty and the map without entries.
\<close>

theorem limiter_no_leak:
  assumes "limiter_reachable cfg (l, pcs)"
  shows "(\<forall>i < length pcs. finished (pcs ! i) \<or> thread_step cfg (pcs ! i) l \<noteq> None) \<and>
    ((\<forall>pc \<in> set pcs. finished pc) \<longrightarrow> l = new_limiter)"
proof (intro conjI allI impI)
  note acc = reachable_accounted [OF assms, simplified]
  fix i assume i: "i < length pcs"
  show "finished (pcs ! i) \<or> thread_step cfg (pcs ! i) l \<noteq> None"
    using lim.accounted_holds [OF acc i, of None]
    by (cases "pcs ! i")
      (auto simp: finished_def thread_step_def holds_slot_def used_slots_def receiveGlobal_def
        split: option.splits)
next
  note acc = reachable_accounted [OF assms, simplified]
  assume fin: "\<forall>pc \<in> set pcs. finished pc"
  have "\<not> holds_slot cfg k pc" if "pc \<in> set pcs" for pc k
  proof -
    have "finished pc" using fin that by blast
    then show ?thesis by (cases pc; cases k) (simp_all add: finished_def holds_slot_def)
  qed
  then have z: "used_slots l k = 0" for k using lim.accounted_idle [OF acc] by blast
  have "lm_perUser l u = None" for u
  proof (cases "lm_perUser l u")
    case (Some n)
    with acc have "0 < n" unfolding lim.accounted_def limiter_inv_def by blast
    with z [of "Some u"] Some show ?thesis by (simp add: used_slots_def user_count_def)
  qed simp
  with z [of None] show "l = new_limiter" by (cases l) (auto simp: used_slots_def new_limiter_def)
qed

theorem limiter_no_leak_witness:
  "thread_step example_limits (Held ''ann'') \<lparr>lm_global = 1, lm_perUser = [''ann'' \<mapsto> 1]\<rparr> \<noteq> None"
  using limiter_no_leak [OF example_limiter_reachable] by (simp add: finished_def)

end
