(* ===== verification/Media_Streamer.thy ===== *)
theory Media_Streamer
  imports Stream_Limiter Stream_Decider Auth_Claims
begin

text \<open>
  \<open>core/stream/media_streamer.go\<close>: a request becomes a stream, either the raw file or a transcoding
  that goes through the transcoding cache. The cache calls the producer when the key of the job is
  not cached; the producer takes a slot of the limiter, starts the transcoder and ties the slot to
  the reader it returns. \<open>Acquire\<close> and \<open>release\<close> are here the uninterrupted runs of the atomic
  actions of \<open>Stream_Limiter\<close>. Opening a file, starting the transcoder and the rendering of a
  timestamp (\<open>time.RFC3339Nano\<close>) are arguments.
\<close>

datatype stream_error = ErrTooManyTranscodes | ErrInvalid | ErrOpen string

subsection \<open>Acquire and release without interruption\<close>

record handle =
  h_user :: string
  h_released :: bool

definition Acquire :: "limiter_config \<Rightarrow> string \<Rightarrow> limiter \<Rightarrow> limiter \<times> (stream_error + handle)" where
  "Acquire cfg u l =
     (case (if perUserActive cfg u then reservePerUser cfg u l else Some l) of
        None \<Rightarrow> (l, Inl ErrTooManyTranscodes)
      | Some l1 \<Rightarrow>
          (case sendGlobal cfg l1 of
             None \<Rightarrow> (if perUserActive cfg u then releasePerUser u l1 else l1, Inl ErrTooManyTranscodes)
           | Some l2 \<Rightarrow> (l2, Inr \<lparr>h_user = u, h_released = False\<rparr>)))"

text \<open>\<^const>\<open>None\<close> is a release that blocks on an empty channel.\<close>

definition release :: "limiter_config \<Rightarrow> handle \<Rightarrow> limiter \<Rightarrow> (handle \<times> limiter) option" where
  "release cfg h l =
     (if h_released h then Some (h, l)
      else
        (case receiveGlobal cfg l of
           None \<Rightarrow> None
         | Some l1 \<Rightarrow>
             Some (h\<lparr>h_released := True\<rparr>,
                   if perUserActive cfg (h_user h) then releasePerUser (h_user h) l1 else l1)))"

lemma reserve_release:
  assumes "limiter_inv cfg l" and "reservePerUser cfg u l = Some l1"
  shows "releasePerUser u l1 = l"
proof (cases "lm_perUser l u")
  case None
  with assms(2) show ?thesis
    by (auto simp: reservePerUser_def releasePerUser_def user_count_def Let_def split: if_splits)
      (auto intro!: limiter.equality)
next
  case (Some n)
  with assms(1) have "0 < n" by (auto simp: limiter_inv_def)
  with Some assms(2) show ?thesis
    by (auto simp: reservePerUser_def releasePerUser_def user_count_def Let_def split: if_splits)
      (auto intro!: limiter.equality)
qed

lemma send_receive:
  "sendGlobal cfg l = Some l1 \<Longrightarrow> receiveGlobal cfg l1 = Some l"
  by (auto simp: sendGlobal_def receiveGlobal_def split: if_splits)

lemma Acquire_Inl: "limiter_inv cfg l \<Longrightarrow> Acquire cfg u l = (l', Inl e) \<Longrightarrow> l' = l"
  by (auto simp: Acquire_def reserve_release split: option.splits if_splits)

lemma Acquire_Inr:
  assumes "limiter_inv cfg l" and "Acquire cfg u l = (l', Inr h)"
  shows "release cfg h l' = Some (h\<lparr>h_released := True\<rparr>, l)"
  using assms send_receive reserve_release [OF assms(1)]
  by (fastforce simp: Acquire_def release_def split: option.splits if_splits)

subsection \<open>Jobs and their cache keys\<close>

record streamJob =
  j_mf :: MediaFile
  j_filePath :: string
  j_format :: string
  j_bitRate :: int
  j_sampleRate :: int
  j_bitDepth :: int
  j_channels :: int
  j_offset :: int

definition Key :: "(Time \<Rightarrow> string) \<Rightarrow> streamJob \<Rightarrow> string" where
  "Key rfc3339 j =
     mf_ID (j_mf j) @ ''.'' @ rfc3339 (mf_UpdatedAt (j_mf j)) @ ''.'' @ itoa (j_bitRate j) @ ''.'' @
     itoa (j_sampleRate j) @ ''.'' @ itoa (j_bitDepth j) @ ''.'' @ itoa (j_channels j) @ ''.'' @
     j_format j @ ''.'' @ itoa (j_offset j)"

lemma itoa_no_dot [simp]: "CHR ''.'' \<notin> set (itoa i)"
proof
  assume "CHR ''.'' \<in> set (itoa i)"
  then show False using itoa_chars [of "CHR ''.''" i] by auto
qed

lemma itoa_inj: "in_int64 i \<Longrightarrow> in_int64 j \<Longrightarrow> itoa i = itoa j \<Longrightarrow> i = j"
  by (metis atoi_itoa option.inject)

lemma split_first: "(c :: char) \<notin> set a \<Longrightarrow> c \<notin> set b \<Longrightarrow> a @ c # s = b @ c # t \<longleftrightarrow> a = b \<and> s = t"
proof
  assume "c \<notin> set a" "c \<notin> set b" "a @ c # s = b @ c # t"
  then have "Some (a, s) = Some (b, t)" by (metis split2_append)
  then show "a = b \<and> s = t" by simp
qed simp

lemma split_last: "(c :: char) \<notin> set a \<Longrightarrow> c \<notin> set b \<Longrightarrow> s @ c # a = t @ c # b \<longleftrightarrow> s = t \<and> a = b"
proof
  assume n: "c \<notin> set a" "c \<notin> set b" and "s @ c # a = t @ c # b"
  then have "rev (s @ c # a) = rev (t @ c # b)" by simp
  then have "rev a @ c # rev s = rev b @ c # rev t" by simp
  with n show "s = t \<and> a = b" by (simp add: split_first)
qed simp

definition job_exact :: "streamJob \<Rightarrow> bool" where
  "job_exact j \<longleftrightarrow> CHR ''.'' \<notin> set (mf_ID (j_mf j)) \<and> CHR ''.'' \<notin> set (j_format j) \<and>
     in_int64 (j_bitRate j) \<and> in_int64 (j_sampleRate j) \<and> in_int64 (j_bitDepth j) \<and>
     in_int64 (j_channels j) \<and> in_int64 (j_offset j)"

text \<open>
  two different transcodings never share an entry of the cache: jobs with the same key are for
  the same file, modified at the same time, with the same format, bitrate, sample rate, bit depth,
  channels and offset, when neither the file's id nor the format contains a dot.
\<close>

theorem stream_key_injective:
  assumes "job_exact j" and "job_exact j'" and "Key rfc3339 j = Key rfc3339 j'"
  shows "mf_ID (j_mf j) = mf_ID (j_mf j') \<and>
    rfc3339 (mf_UpdatedAt (j_mf j)) = rfc3339 (mf_UpdatedAt (j_mf j')) \<and>
    j_format j = j_format j' \<and> j_bitRate j = j_bitRate j' \<and> j_sampleRate j = j_sampleRate j' \<and>
    j_bitDepth j = j_bitDepth j' \<and> j_channels j = j_channels j' \<and> j_offset j = j_offset j'"
proof -
  let ?d = "CHR ''.''"
  have k: "Key rfc3339 x = mf_ID (j_mf x) @ ?d # ((((((rfc3339 (mf_UpdatedAt (j_mf x)) @ ?d # itoa (j_bitRate x)) @
      ?d # itoa (j_sampleRate x)) @ ?d # itoa (j_bitDepth x)) @ ?d # itoa (j_channels x)) @
      ?d # j_format x) @ ?d # itoa (j_offset x))" for x
    by (simp add: Key_def)
  have d: "?d \<notin> set (mf_ID (j_mf j))" "?d \<notin> set (mf_ID (j_mf j'))" "?d \<notin> set (j_format j)"
    "?d \<notin> set (j_format j')"
    using assms(1,2) by (simp_all add: job_exact_def)
  from assms(3) [unfolded k] show ?thesis
    using assms(1,2) by (simp add: split_first split_last d del: append_assoc) (simp add: itoa_inj job_exact_def)
qed

definition example_job :: streamJob where
  "example_job = \<lparr>j_mf = example_file, j_filePath = ''/music/a/b.flac'', j_format = ''opus'', j_bitRate = 128,
     j_sampleRate = 48000, j_bitDepth = 0, j_channels = 2, j_offset = 0\<rparr>"

theorem stream_key_injective_witness:
  "Key (\<lambda>_. ''2024-01-01T00:00:00.5Z'') example_job = Key (\<lambda>_. ''2024-01-01T00:00:00.5Z'')
      (example_job\<lparr>j_filePath := ''/mnt/b.flac''\<rparr>) \<and>
   j_bitRate example_job = j_bitRate (example_job\<lparr>j_filePath := ''/mnt/b.flac''\<rparr>)"
proof -
  have x: "job_exact example_job" "job_exact (example_job\<lparr>j_filePath := ''/mnt/b.flac''\<rparr>)"
    by (simp_all add: job_exact_def example_job_def example_file_def in_int64_def)
  have k: "Key (\<lambda>_. ''2024-01-01T00:00:00.5Z'') example_job = Key (\<lambda>_. ''2024-01-01T00:00:00.5Z'')
      (example_job\<lparr>j_filePath := ''/mnt/b.flac''\<rparr>)"
    by (simp add: Key_def)
  from stream_key_injective [OF x k] k show ?thesis by blast
qed

subsection \<open>The producer\<close>

record TranscodeOptions =
  to_Command :: string
  to_Format :: string
  to_FilePath :: string
  to_BitRate :: int
  to_SampleRate :: int
  to_BitDepth :: int
  to_Channels :: int
  to_Offset :: int

record releasingReadCloser =
  rc_out :: string
  rc_handle :: handle

text \<open>\<open>limiterKey\<close>: the user of the request context, empty for an anonymous request.\<close>

definition limiterKey :: "User option \<Rightarrow> string" where
  "limiterKey user = (case user of Some u \<Rightarrow> usr_UserName u | None \<Rightarrow> [])"

definition produce ::
  "limiter_config \<Rightarrow> decider_env \<Rightarrow> (TranscodeOptions \<Rightarrow> string + string) \<Rightarrow> User option \<Rightarrow>
     streamJob \<Rightarrow> limiter \<Rightarrow> (limiter \<times> (stream_error + releasingReadCloser)) option" where
  "produce cfg env transcode user job l =
     (let command = LookupTranscodeCommand (de_FindByFormat env) (j_format job)
      in if command = [] then Some (l, Inl ErrInvalid)
         else
           (case Acquire cfg (limiterKey user) l of
              (l1, Inl err) \<Rightarrow> Some (l1, Inl err)
            | (l1, Inr h) \<Rightarrow>
                (case transcode \<lparr>to_Command = command, to_Format = j_format job, to_FilePath = j_filePath job,
                        to_BitRate = j_bitRate job, to_SampleRate = j_sampleRate job,
                        to_BitDepth = j_bitDepth job, to_Channels = j_channels job, to_Offset = j_offset job\<rparr> of
                   Inl _ \<Rightarrow>
                     (case release cfg h l1 of None \<Rightarrow> None | Some (_, l2) \<Rightarrow> Some (l2, Inl ErrInvalid))
                 | Inr out \<Rightarrow> Some (l1, Inr \<lparr>rc_out = out, rc_handle = h\<rparr>))))"

definition Close_reader :: "limiter_config \<Rightarrow> releasingReadCloser \<Rightarrow> limiter \<Rightarrow> (releasingReadCloser \<times> limiter) option" where
  "Close_reader cfg r l =
     (case release cfg (rc_handle r) l of None \<Rightarrow> None | Some (h, l') \<Rightarrow> Some (r\<lparr>rc_handle := h\<rparr>, l'))"

text \<open>
  the producer of the transcoding cache never leaks a slot. It always returns; when it fails, for
  want of a command, of a slot or of a transcoder, the limiter is as before; when it succeeds,
  closing the reader it returned gives the slot back, and closing it again changes nothing.
\<close>

theorem produce_balanced:
  assumes "limiter_inv cfg l"
  shows "\<exists>l' res. produce cfg env transcode user job l = Some (l', res) \<and>
    (case res of
       Inl _ \<Rightarrow> l' = l
     | Inr r \<Rightarrow> \<exists>r'. Close_reader cfg r l' = Some (r', l) \<and> Close_reader cfg r' l = Some (r', l))"
proof -
  obtain l1 a where a: "Acquire cfg (limiterKey user) l = (l1, a)" by fastforce
  show ?thesis
  proof (cases a)
    case (Inl e)
    with Acquire_Inl [OF assms] a show ?thesis by (auto simp: produce_def Let_def)
  next
    case (Inr h)
    from Acquire_Inr [OF assms a [unfolded Inr]] a Inr show ?thesis
      by (auto simp: produce_def Close_reader_def release_def Let_def split: sum.splits)
  qed
qed

theorem produce_balanced_witness:
  "\<exists>l' res. produce example_limits example_env (\<lambda>_. Inr ''data'') None example_job new_limiter = Some (l', res)"
proof -
  have "limiter_inv example_limits new_limiter"
    by (simp add: limiter_inv_def example_limits_def new_limiter_def)
  from produce_balanced [OF this] show ?thesis by blast
qed

subsection \<open>Streams\<close>

record Stream =
  st_format :: string
  st_bitRate :: int
  st_body :: string
  st_seekable :: bool

text \<open>The cache is the function \<open>cacheGet\<close>, from a job to its content and whether it is seekable.\<close>

definition NewStream ::
  "(string \<Rightarrow> string + string) \<Rightarrow> (streamJob \<Rightarrow> stream_error + (string \<times> bool)) \<Rightarrow> MediaFile \<Rightarrow> Request \<Rightarrow>
     stream_error + Stream" where
  "NewStream openFile cacheGet mf req =
     (let raw = rq_Format req = [] \<or> rq_Format req = ''raw'';
          format = (if raw then ''raw'' else rq_Format req);
          bitRate = (if raw then 0 else rq_BitRate req);
          filePath = AbsolutePath mf
      in if format = ''raw'' then
           (case openFile filePath of
              Inl err \<Rightarrow> Inl (ErrOpen err)
            | Inr f \<Rightarrow> Inr \<lparr>st_format = mf_Suffix mf, st_bitRate = bitRate, st_body = f, st_seekable = True\<rparr>)
         else
           (case cacheGet \<lparr>j_mf = mf, j_filePath = filePath, j_format = format, j_bitRate = bitRate,
                   j_sampleRate = rq_SampleRate req, j_bitDepth = rq_BitDepth req,
                   j_channels = rq_Channels req, j_offset = rq_Offset req\<rparr> of
              Inl err \<Rightarrow> Inl err
            | Inr (r, seekable) \<Rightarrow>
                Inr \<lparr>st_format = format, st_bitRate = bitRate, st_body = r, st_seekable = seekable\<rparr>))"

end
