(* ===== verification/Playback_Queue.thy ===== *)
theory Playback_Queue
  imports Media_File
begin

text \<open>
  \<open>core/playback/queue.go\<close>: the queue of the jukebox. The index is an \<^typ>\<open>int\<close>, minus one for no
  current track. An index out of range in a slice expression panics in Go; \<open>Remove\<close> then returns
  \<^const>\<open>None\<close>. The random source of \<open>rand.Shuffle\<close> is an argument: the Fisher-Yates loop of the
  standard library draws one number for each position.
\<close>

record Queue =
  q_Index :: int
  q_Items :: "MediaFile list"

definition NewQueue :: Queue where
  "NewQueue = \<lparr>q_Index = -1, q_Items = []\<rparr>"

definition Current :: "Queue \<Rightarrow> MediaFile option" where
  "Current pd =
     (if q_Index pd = -1 then None
      else if q_Index pd \<ge> int (length (q_Items pd)) then None
      else Some (q_Items pd ! nat (q_Index pd)))"

definition Size :: "Queue \<Rightarrow> int" where
  "Size pd = int (length (q_Items pd))"

definition IsEmpty :: "Queue \<Rightarrow> bool" where
  "IsEmpty pd \<longleftrightarrow> length (q_Items pd) < 1"

definition Clear :: "Queue \<Rightarrow> Queue" where
  "Clear pd = pd\<lparr>q_Index := -1, q_Items := []\<rparr>"

definition Set_items :: "MediaFile list \<Rightarrow> Queue \<Rightarrow> Queue" where
  "Set_items items pd = (let c = Clear pd in c\<lparr>q_Items := q_Items c @ items\<rparr>)"

definition Add_items :: "MediaFile list \<Rightarrow> Queue \<Rightarrow> Queue" where
  "Add_items items pd =
     (let pd1 = pd\<lparr>q_Items := q_Items pd @ items\<rparr>
      in if q_Index pd1 = -1 \<and> length (q_Items pd1) > 0 then pd1\<lparr>q_Index := 0\<rparr> else pd1)"

definition getMediaFileIndexByID :: "string \<Rightarrow> MediaFile list \<Rightarrow> int option" where
  "getMediaFileIndexByID i items = map_option int (index_where (\<lambda>item. mf_ID item = i) items)"

definition backupID :: "Queue \<Rightarrow> string" where
  "backupID pd = (case Current pd of Some mf \<Rightarrow> mf_ID mf | None \<Rightarrow> [])"

definition Remove :: "int \<Rightarrow> Queue \<Rightarrow> Queue option" where
  "Remove idx pd =
     (if idx < 0 \<or> idx \<ge> int (length (q_Items pd)) then None
      else
        let items = remove_nth (nat idx) (q_Items pd)
        in Some (pd\<lparr>q_Items := items,
             q_Index := (case getMediaFileIndexByID (backupID pd) items of Some i \<Rightarrow> i | None \<Rightarrow> -1)\<rparr>))"

definition swap :: "nat \<Rightarrow> nat \<Rightarrow> 'a list \<Rightarrow> 'a list" where
  "swap i j xs = xs[i := xs ! j, j := xs ! i]"

text \<open>\<open>rand.Shuffle\<close>: for \<open>i\<close> from the last position down to one, swap with a position up to \<open>i\<close>.\<close>

fun rand_shuffle :: "(nat \<Rightarrow> nat) \<Rightarrow> nat \<Rightarrow> 'a list \<Rightarrow> 'a list" where
  "rand_shuffle rnd 0 xs = xs"
| "rand_shuffle rnd (Suc i) xs =
     rand_shuffle rnd i (swap (Suc i) (rnd (Suc i) mod Suc (Suc i)) xs)"

definition Shuffle :: "(nat \<Rightarrow> nat) \<Rightarrow> Queue \<Rightarrow> Queue" where
  "Shuffle rnd pd =
     (let items = rand_shuffle rnd (length (q_Items pd) - 1) (q_Items pd)
      in pd\<lparr>q_Items := items,
           q_Index := (case getMediaFileIndexByID (backupID pd) items of Some i \<Rightarrow> i | None \<Rightarrow> -1)\<rparr>)"

definition SetIndex :: "int \<Rightarrow> Queue \<Rightarrow> Queue" where
  "SetIndex idx pd = pd\<lparr>q_Index := max 0 (min idx (int (length (q_Items pd)) - 1))\<rparr>"

definition IsAtLastElement :: "Queue \<Rightarrow> bool" where
  "IsAtLastElement pd \<longleftrightarrow> q_Index pd + 1 \<ge> int (length (q_Items pd))"

definition IncreaseIndex :: "Queue \<Rightarrow> Queue" where
  "IncreaseIndex pd = (if \<not> IsAtLastElement pd then SetIndex (q_Index pd + 1) pd else pd)"

subsection \<open>Invariant\<close>

text \<open>The index is minus one or a position of the items, except that an empty queue may have index
  zero: \<open>SetIndex\<close> sets it so.\<close>

definition queue_inv :: "Queue \<Rightarrow> bool" where
  "queue_inv pd \<longleftrightarrow> q_Index pd \<ge> -1 \<and>
     (q_Index pd < int (length (q_Items pd)) \<or> (q_Items pd = [] \<and> q_Index pd = 0))"

lemma getMediaFileIndexByID_Some:
  "getMediaFileIndexByID i items = Some n \<Longrightarrow> 0 \<le> n \<and> n < int (length items) \<and> mf_ID (items ! nat n) = i"
  by (auto simp: getMediaFileIndexByID_def index_where_Some)

lemma getMediaFileIndexByID_None:
  "getMediaFileIndexByID i items = None \<longleftrightarrow> i \<notin> mf_ID ` set items"
  by (auto simp: getMediaFileIndexByID_def)

lemma reindex_inv:
  "queue_inv (pd\<lparr>q_Items := items,
     q_Index := (case getMediaFileIndexByID b items of Some i \<Rightarrow> i | None \<Rightarrow> -1)\<rparr>)"
  using getMediaFileIndexByID_Some [of b items]
  by (cases "getMediaFileIndexByID b items") (auto simp: queue_inv_def)

lemma Add_items_inv: "queue_inv pd \<Longrightarrow> queue_inv (Add_items items pd)"
  by (cases items; cases "q_Items pd") (auto simp: queue_inv_def Add_items_def Let_def)

lemma length_swap [simp]: "length (swap i j xs) = length xs"
  by (simp add: swap_def)

lemma mset_rand_shuffle: "i < length xs \<or> i = 0 \<Longrightarrow> mset (rand_shuffle rnd i xs) = mset xs"
proof (induction rnd i xs rule: rand_shuffle.induct)
  case (2 rnd i xs)
  let ?j = "rnd (Suc i) mod Suc (Suc i)"
  have "?j < length xs" using 2(2) by (metis Suc_leI mod_less_divisor nat.distinct(1) order_less_le_trans zero_less_Suc)
  with 2 show ?case by (simp add: swap_def mset_swap)
qed simp

text \<open>
  every operation of the playback queue keeps the index a valid position or minus one (or zero on
  an empty queue), so that reading the current track never goes out of range; removing a position
  inside the queue never panics.
\<close>

theorem queue_operations_inv:
  assumes "queue_inv pd"
  shows "queue_inv NewQueue \<and> queue_inv (Clear pd) \<and> queue_inv (Set_items items pd) \<and>
    queue_inv (Add_items items pd) \<and> queue_inv (Shuffle rnd pd) \<and> queue_inv (SetIndex idx pd) \<and>
    queue_inv (IncreaseIndex pd) \<and>
    (Remove idx pd = None \<longleftrightarrow> idx < 0 \<or> Size pd \<le> idx) \<and>
    (\<forall>pd'. Remove idx pd = Some pd' \<longrightarrow> queue_inv pd') \<and>
    (Current pd = None \<longleftrightarrow> q_Index pd = -1 \<or> q_Items pd = [])"
  using assms reindex_inv Add_items_inv [OF assms]
  by (auto simp: queue_inv_def NewQueue_def Clear_def Set_items_def SetIndex_def Current_def
      IncreaseIndex_def IsAtLastElement_def Shuffle_def Remove_def Size_def Let_def split: if_splits)

definition example_queue :: Queue where
  "example_queue = \<lparr>q_Index = 1, q_Items = map (\<lambda>i. empty_MediaFile\<lparr>mf_ID := i\<rparr>) [''a'', ''b'', ''c'']\<rparr>"

theorem queue_operations_inv_witness:
  "queue_inv example_queue \<and> queue_inv (IncreaseIndex example_queue) \<and> q_Index (IncreaseIndex example_queue) = 2"
proof -
  have i: "queue_inv example_queue" by (simp add: queue_inv_def example_queue_def)
  have "q_Index (IncreaseIndex example_queue) = 2" by code_simp
  with queue_operations_inv [OF i] i show ?thesis by blast
qed

subsection \<open>The current track\<close>

lemma Current_Some:
  "queue_inv pd \<Longrightarrow> Current pd = Some mf \<Longrightarrow>
    0 \<le> q_Index pd \<and> nat (q_Index pd) < length (q_Items pd) \<and> q_Items pd ! nat (q_Index pd) = mf"
  by (auto simp: Current_def queue_inv_def split: if_splits)

lemma distinct_ids_eq:
  "distinct (map mf_ID xs) \<Longrightarrow> x \<in> set xs \<Longrightarrow> y \<in> set xs \<Longrightarrow> mf_ID x = mf_ID y \<Longrightarrow> x = y"
  by (auto simp: distinct_map inj_on_def)

text \<open>Looking a track up by its id finds that track when ids are distinct.\<close>

lemma reindex_Current:
  assumes "distinct (map mf_ID items)" and "mf \<in> set items"
  shows "Current (pd\<lparr>q_Items := items,
    q_Index := (case getMediaFileIndexByID (mf_ID mf) items of Some i \<Rightarrow> i | None \<Rightarrow> -1)\<rparr>) = Some mf"
proof -
  obtain n where n: "getMediaFileIndexByID (mf_ID mf) items = Some n"
    using assms(2) getMediaFileIndexByID_None by fastforce
  from getMediaFileIndexByID_Some [OF n] have b: "0 \<le> n" "n < int (length items)"
    and i: "mf_ID (items ! nat n) = mf_ID mf" by simp_all
  have "items ! nat n = mf"
    using b by (intro distinct_ids_eq [OF assms(1) _ assms(2) i]) simp
  with n b show ?thesis by (simp add: Current_def)
qed

lemma removed_not_member:
  assumes "distinct (map mf_ID xs)" and "i < length xs"
  shows "mf_ID (xs ! i) \<notin> mf_ID ` set (remove_nth i xs)"
proof -
  have "mset (map mf_ID xs) = add_mset (mf_ID (xs ! i)) (mset (map mf_ID (remove_nth i xs)))"
    using mset_remove_nth [OF assms(2)] by (metis image_mset_add_mset mset_map)
  then have "mset (map mf_ID xs) = mset (mf_ID (xs ! i) # map mf_ID (remove_nth i xs))" by simp
  with assms(1) have "distinct (mf_ID (xs ! i) # map mf_ID (remove_nth i xs))"
    by (metis mset_eq_imp_distinct_iff)
  then show ?thesis by simp
qed

lemma kept_member:
  assumes "i < length xs" and "x \<in> set xs" and "x \<noteq> xs ! i"
  shows "x \<in> set (remove_nth i xs)"
  using mset_remove_nth [OF assms(1)] assms(2,3) by (metis insert_iff set_mset_add_mset_insert set_mset_mset)

text \<open>
  removing a track from a queue of distinct tracks removes exactly that position. The current
  track stays the same unless it is the one removed, and then there is no current track.
\<close>

theorem Remove_keeps_current:
  assumes "queue_inv pd" and "distinct (map mf_ID (q_Items pd))" and "Current pd = Some mf"
    and "0 \<le> idx" and "idx < Size pd"
  shows "\<exists>pd'. Remove idx pd = Some pd' \<and> q_Items pd' = remove_nth (nat idx) (q_Items pd) \<and>
    Current pd' = (if idx = q_Index pd then None else Some mf)"
proof -
  let ?items = "remove_nth (nat idx) (q_Items pd)"
  from Current_Some [OF assms(1,3)] have c: "0 \<le> q_Index pd" "nat (q_Index pd) < length (q_Items pd)"
    "q_Items pd ! nat (q_Index pd) = mf" by simp_all
  have i: "nat idx < length (q_Items pd)" using assms(4,5) by (simp add: Size_def)
  have d: "distinct (map mf_ID ?items)" using assms(2) by (rule distinct_map_remove_nth)
  show ?thesis
  proof (cases "idx = q_Index pd")
    case True
    with removed_not_member [OF assms(2) i] c have "getMediaFileIndexByID (mf_ID mf) ?items = None"
      by (simp add: getMediaFileIndexByID_None)
    with True assms(3-5) show ?thesis by (simp add: Remove_def backupID_def Size_def Current_def)
  next
    case False
    have "q_Items pd ! nat idx \<noteq> mf"
      using False c i assms(2,4) by (auto simp: distinct_map nth_eq_iff_index_eq)
    with kept_member [OF i, of mf] c nth_mem [OF c(2)] have "mf \<in> set ?items" by auto
    from reindex_Current [OF d this, of pd] False assms(3-5) show ?thesis
      by (simp add: Remove_def backupID_def Size_def Let_def)
  qed
qed

theorem Remove_keeps_current_witness:
  "\<exists>pd'. Remove 0 example_queue = Some pd' \<and> map mf_ID (q_Items pd') = [''b'', ''c''] \<and>
     Current pd' = Some (empty_MediaFile\<lparr>mf_ID := ''b''\<rparr>)"
proof -
  have h: "queue_inv example_queue" "distinct (map mf_ID (q_Items example_queue))"
    "Current example_queue = Some (empty_MediaFile\<lparr>mf_ID := ''b''\<rparr>)" "0 < Size example_queue"
    "q_Index example_queue = 1" "map mf_ID (remove_nth 0 (q_Items example_queue)) = [''b'', ''c'']"
    by (simp_all add: queue_inv_def example_queue_def Current_def Size_def remove_nth_def)
  from Remove_keeps_current [OF h(1-3) order_refl h(4)] h(5,6) show ?thesis by force
qed

text \<open>
  shuffling a queue of distinct tracks permutes its items, whatever the random source draws, and
  keeps the current track current.
\<close>

theorem Shuffle_permutes:
  assumes "queue_inv pd" and "distinct (map mf_ID (q_Items pd))" and "Current pd = Some mf"
  shows "mset (q_Items (Shuffle rnd pd)) = mset (q_Items pd) \<and> Current (Shuffle rnd pd) = Some mf"
proof -
  let ?items = "rand_shuffle rnd (length (q_Items pd) - 1) (q_Items pd)"
  have m: "mset ?items = mset (q_Items pd)" by (rule mset_rand_shuffle) auto
  then have d: "distinct (map mf_ID ?items)"
    using assms(2) by (metis mset_eq_imp_distinct_iff mset_map)
  have "mf \<in> set (q_Items pd)" using Current_Some [OF assms(1,3)] by (metis nth_mem)
  with m have "mf \<in> set ?items" by (metis set_mset_mset)
  from reindex_Current [OF d this, of pd] m assms(3) show ?thesis
    by (simp add: Shuffle_def backupID_def Let_def)
qed

theorem Shuffle_permutes_witness:
  "Current (Shuffle (\<lambda>_. 0) example_queue) = Some (empty_MediaFile\<lparr>mf_ID := ''b''\<rparr>) \<and>
   map mf_ID (q_Items (Shuffle (\<lambda>_. 0) example_queue)) = [''b'', ''c'', ''a'']"
proof -
  have h: "queue_inv example_queue" "distinct (map mf_ID (q_Items example_queue))"
    "Current example_queue = Some (empty_MediaFile\<lparr>mf_ID := ''b''\<rparr>)"
    by (simp_all add: queue_inv_def example_queue_def Current_def)
  have "map mf_ID (q_Items (Shuffle (\<lambda>_. 0) example_queue)) = [''b'', ''c'', ''a'']" by code_simp
  with Shuffle_permutes [OF h] show ?thesis by blast
qed

end
