(* ===== verification/Playback_Device.thy ===== *)
theory Playback_Device
  imports Playback_Queue
begin

text \<open>
  \<open>core/playback/device.go\<close>: a jukebox device, its queue and the track that is loaded. A loaded track
  is an mpv process behind the interface \<open>Track\<close>: a value of a type \<open>'t\<close> with the operations of the
  record \<open>track_ops\<close>. \<open>track_laws\<close> states what the interface means by them. A closed track is
  forgotten. Every operation returns the device after it, and an error where the code returns one.
  \<open>Start\<close>, \<open>Skip\<close> and \<open>Remove\<close> return \<^const>\<open>None\<close> for a panic: a call through the active track when
  there is none, or a position outside the queue. Each operation, and each round of the goroutine
  that switches tracks, is one step; the code takes no lock between them.
\<close>

record 't track_ops =
  t_New :: "string \<Rightarrow> MediaFile \<Rightarrow> string + 't"
  t_File :: "'t \<Rightarrow> MediaFile"
  t_IsPlaying :: "'t \<Rightarrow> bool"
  t_Position :: "'t \<Rightarrow> int"
  t_SetVolume :: "rat \<Rightarrow> 't \<Rightarrow> 't"
  t_Pause :: "'t \<Rightarrow> 't"
  t_Unpause :: "'t \<Rightarrow> 't"
  t_SetPosition :: "int \<Rightarrow> 't \<Rightarrow> string + 't"

record 't playbackDevice =
  dev_DeviceName :: string
  dev_Queue :: Queue
  dev_Gain :: rat
  dev_ActiveTrack :: "'t option"
  dev_switcherStarted :: bool

record DeviceStatus =
  ds_CurrentIndex :: int
  ds_Playing :: bool
  ds_Gain :: rat
  ds_Position :: int

definition DefaultGain :: rat where "DefaultGain = 1"

definition NewPlaybackDevice :: "string \<Rightarrow> 't playbackDevice" where
  "NewPlaybackDevice deviceName = \<lparr>dev_DeviceName = deviceName, dev_Queue = NewQueue,
     dev_Gain = DefaultGain, dev_ActiveTrack = None, dev_switcherStarted = False\<rparr>"

definition isPlaying :: "'t track_ops \<Rightarrow> 't playbackDevice \<Rightarrow> bool" where
  "isPlaying ops pd \<longleftrightarrow> (case dev_ActiveTrack pd of Some t \<Rightarrow> t_IsPlaying ops t | None \<Rightarrow> False)"

definition getStatus :: "'t track_ops \<Rightarrow> 't playbackDevice \<Rightarrow> DeviceStatus" where
  "getStatus ops pd =
     \<lparr>ds_CurrentIndex = q_Index (dev_Queue pd), ds_Playing = isPlaying ops pd, ds_Gain = dev_Gain pd,
      ds_Position = (case dev_ActiveTrack pd of Some t \<Rightarrow> t_Position ops t | None \<Rightarrow> 0)\<rparr>"

definition switchActiveTrackByIndex ::
  "'t track_ops \<Rightarrow> int \<Rightarrow> 't playbackDevice \<Rightarrow> 't playbackDevice \<times> string option" where
  "switchActiveTrackByIndex ops index pd =
     (let pd1 = pd\<lparr>dev_Queue := SetIndex index (dev_Queue pd)\<rparr>
      in case Current (dev_Queue pd1) of
           None \<Rightarrow> (pd1, Some ''could not get current track'')
         | Some currentTrack \<Rightarrow>
             (case t_New ops (dev_DeviceName pd1) currentTrack of
                Inl err \<Rightarrow> (pd1, Some err)
              | Inr track \<Rightarrow> (pd1\<lparr>dev_ActiveTrack := Some (t_SetVolume ops (dev_Gain pd1) track)\<rparr>, None)))"

definition map_active :: "('t \<Rightarrow> 't) \<Rightarrow> 't playbackDevice \<Rightarrow> 't playbackDevice" where
  "map_active f pd = pd\<lparr>dev_ActiveTrack := map_option f (dev_ActiveTrack pd)\<rparr>"

definition Start :: "'t track_ops \<Rightarrow> 't playbackDevice \<Rightarrow> ('t playbackDevice \<times> string option) option" where
  "Start ops pd =
     (let pd0 = pd\<lparr>dev_switcherStarted := True\<rparr>
      in if dev_ActiveTrack pd0 \<noteq> None then
           (if isPlaying ops pd0 then Some (pd0, None) else Some (map_active (t_Unpause ops) pd0, None))
         else if \<not> IsEmpty (dev_Queue pd0) then
           (case switchActiveTrackByIndex ops (q_Index (dev_Queue pd0)) pd0 of
              (pd1, Some err) \<Rightarrow> Some (pd1, Some err)
            | (pd1, None) \<Rightarrow>
                (case dev_ActiveTrack pd1 of
                   None \<Rightarrow> None
                 | Some t \<Rightarrow> Some (pd1\<lparr>dev_ActiveTrack := Some (t_Unpause ops t)\<rparr>, None)))
         else Some (pd0, None))"

definition Stop :: "'t track_ops \<Rightarrow> 't playbackDevice \<Rightarrow> 't playbackDevice" where
  "Stop ops pd = map_active (t_Pause ops) pd"

definition Skip ::
  "'t track_ops \<Rightarrow> int \<Rightarrow> int \<Rightarrow> 't playbackDevice \<Rightarrow> ('t playbackDevice \<times> string option) option" where
  "Skip ops index offset pd =
     (let wasPlaying = isPlaying ops pd;
          pd1 = (if dev_ActiveTrack pd \<noteq> None \<and> wasPlaying then map_active (t_Pause ops) pd else pd);
          pd2 = (if index \<noteq> q_Index (dev_Queue pd1) \<and> dev_ActiveTrack pd1 \<noteq> None
                 then pd1\<lparr>dev_ActiveTrack := None\<rparr> else pd1)
      in case (if dev_ActiveTrack pd2 = None then switchActiveTrackByIndex ops index pd2 else (pd2, None)) of
           (pd3, Some err) \<Rightarrow> Some (pd3, Some err)
         | (pd3, None) \<Rightarrow>
             (case dev_ActiveTrack pd3 of
                None \<Rightarrow> None
              | Some t \<Rightarrow>
                  (case t_SetPosition ops offset t of
                     Inl err \<Rightarrow> Some (pd3, Some err)
                   | Inr t' \<Rightarrow>
                       let pd4 = pd3\<lparr>dev_ActiveTrack := Some t'\<rparr>
                       in if wasPlaying then Start ops pd4 else Some (pd4, None))))"

fun getMediaFiles :: "(string \<Rightarrow> string + MediaFile) \<Rightarrow> string list \<Rightarrow> string + MediaFile list" where
  "getMediaFiles getMediaFile [] = Inr []"
| "getMediaFiles getMediaFile (i # is) =
     (case getMediaFile i of
        Inl err \<Rightarrow> Inl err
      | Inr mf \<Rightarrow> (case getMediaFiles getMediaFile is of Inl err \<Rightarrow> Inl err | Inr mfs \<Rightarrow> Inr (mf # mfs)))"

definition Add_device ::
  "(string \<Rightarrow> string + MediaFile) \<Rightarrow> string list \<Rightarrow> 't playbackDevice \<Rightarrow> 't playbackDevice \<times> string option" where
  "Add_device getMediaFile ids pd =
     (if length ids < 1 then (pd, None)
      else
        (case getMediaFiles getMediaFile ids of
           Inl err \<Rightarrow> (pd, Some err)
         | Inr items \<Rightarrow> (pd\<lparr>dev_Queue := Add_items items (dev_Queue pd)\<rparr>, None)))"

definition Clear_device :: "'t playbackDevice \<Rightarrow> 't playbackDevice" where
  "Clear_device pd = pd\<lparr>dev_ActiveTrack := None, dev_Queue := Clear (dev_Queue pd)\<rparr>"

definition Set_device ::
  "(string \<Rightarrow> string + MediaFile) \<Rightarrow> string list \<Rightarrow> 't playbackDevice \<Rightarrow> 't playbackDevice \<times> string option" where
  "Set_device getMediaFile ids pd = Add_device getMediaFile ids (Clear_device pd)"

definition Remove_device :: "'t track_ops \<Rightarrow> int \<Rightarrow> 't playbackDevice \<Rightarrow> 't playbackDevice option" where
  "Remove_device ops index pd =
     (let pd1 = (if isPlaying ops pd \<and> q_Index (dev_Queue pd) = index then Stop ops pd else pd)
      in if index > -1 \<and> index < Size (dev_Queue pd1) then
           (case Remove index (dev_Queue pd1) of
              None \<Rightarrow> None
            | Some q \<Rightarrow> Some (pd1\<lparr>dev_Queue := q\<rparr>))
         else Some pd1)"

definition Shuffle_device :: "(nat \<Rightarrow> nat) \<Rightarrow> 't playbackDevice \<Rightarrow> 't playbackDevice" where
  "Shuffle_device rnd pd =
     (if Size (dev_Queue pd) > 1 then pd\<lparr>dev_Queue := Shuffle rnd (dev_Queue pd)\<rparr> else pd)"

definition SetGain :: "'t track_ops \<Rightarrow> rat \<Rightarrow> 't playbackDevice \<Rightarrow> 't playbackDevice" where
  "SetGain ops gain pd = (map_active (t_SetVolume ops gain) pd)\<lparr>dev_Gain := gain\<rparr>"

text \<open>One round of \<open>trackSwitcherGoroutine\<close>, when the end of a track is signalled.\<close>

definition playbackDone :: "'t track_ops \<Rightarrow> 't playbackDevice \<Rightarrow> 't playbackDevice" where
  "playbackDone ops pd =
     (let pd1 = pd\<lparr>dev_ActiveTrack := None\<rparr>
      in if \<not> IsAtLastElement (dev_Queue pd1) then
           let pd2 = pd1\<lparr>dev_Queue := IncreaseIndex (dev_Queue pd1)\<rparr>;
               pd3 = fst (switchActiveTrackByIndex ops (q_Index (dev_Queue pd2)) pd2)
           in map_active (t_Unpause ops) pd3
         else pd1)"

subsection \<open>Playing\<close>

definition track_laws :: "'t track_ops \<Rightarrow> bool" where
  "track_laws ops \<longleftrightarrow>
     (\<forall>d mf t. t_New ops d mf = Inr t \<longrightarrow> t_File ops t = mf) \<and>
     (\<forall>t. t_IsPlaying ops (t_Unpause ops t)) \<and> (\<forall>t. \<not> t_IsPlaying ops (t_Pause ops t)) \<and>
     (\<forall>t. t_File ops (t_Unpause ops t) = t_File ops t \<and> t_File ops (t_Pause ops t) = t_File ops t) \<and>
     (\<forall>v t. t_File ops (t_SetVolume ops v t) = t_File ops t) \<and>
     (\<forall>p t t'. t_SetPosition ops p t = Inr t' \<longrightarrow>
        t_File ops t' = t_File ops t \<and> t_IsPlaying ops t' = t_IsPlaying ops t)"

text \<open>The queue of a device satisfies its invariant.\<close>

definition device_inv :: "'t playbackDevice \<Rightarrow> bool" where
  "device_inv pd \<longleftrightarrow> queue_inv (dev_Queue pd)"

lemma map_active_simps [simp]:
  "dev_Queue (map_active f pd) = dev_Queue pd" "dev_ActiveTrack (map_active f pd) = map_option f (dev_ActiveTrack pd)"
  "dev_Gain (map_active f pd) = dev_Gain pd" "dev_DeviceName (map_active f pd) = dev_DeviceName pd"
  by (simp_all add: map_active_def)

lemma isPlaying_Some: "dev_ActiveTrack pd = Some t \<Longrightarrow> isPlaying ops pd = t_IsPlaying ops t"
  by (simp add: isPlaying_def)

lemma map_active_clear [simp]: "(map_active f pd)\<lparr>dev_ActiveTrack := x\<rparr> = pd\<lparr>dev_ActiveTrack := x\<rparr>"
  by (simp add: map_active_def)

lemma SetIndex_Items [simp]: "q_Items (SetIndex i q) = q_Items q"
  by (simp add: SetIndex_def)

lemma SetIndex_in_range: "0 \<le> i \<Longrightarrow> i < Size q \<Longrightarrow> q_Index (SetIndex i q) = i"
  by (simp add: SetIndex_def Size_def)

lemma switch_in_range:
  assumes "0 \<le> i" and "i < Size (dev_Queue pd)" and "t_New ops (dev_DeviceName pd) (q_Items (dev_Queue pd) ! nat i) = Inr t"
  shows "switchActiveTrackByIndex ops i pd =
    (pd\<lparr>dev_Queue := SetIndex i (dev_Queue pd), dev_ActiveTrack := Some (t_SetVolume ops (dev_Gain pd) t)\<rparr>, None)"
  using assms SetIndex_in_range [OF assms(1,2)]
  by (simp add: switchActiveTrackByIndex_def Current_def Size_def Let_def)

lemma unloaded: "dev_ActiveTrack pd = None \<Longrightarrow> pd\<lparr>dev_ActiveTrack := None\<rparr> = pd"
  by (cases pd) simp

text \<open>
  when a track ends, the device plays the next one of its queue. If a current track with a
  successor ends and the player can open the successor, the device moves to it, loads it at the
  device's volume and plays it; at the end of the queue nothing is loaded and the index stays.
\<close>

theorem playbackDone_plays_next:
  assumes "track_laws ops" and "queue_inv (dev_Queue pd)"
    and "\<And>mf. \<exists>t. t_New ops (dev_DeviceName pd) mf = Inr t"
  defines "q \<equiv> dev_Queue pd" and "pd' \<equiv> playbackDone ops pd"
  shows "if q_Index q + 1 < Size q then
      q_Index (dev_Queue pd') = q_Index q + 1 \<and> q_Items (dev_Queue pd') = q_Items q \<and>
      (\<exists>t. dev_ActiveTrack pd' = Some t \<and> t_File ops t = q_Items q ! nat (q_Index q + 1) \<and> t_IsPlaying ops t)
    else dev_ActiveTrack pd' = None \<and> dev_Queue pd' = q"
proof (cases "q_Index q + 1 < Size q")
  case True
  let ?n = "q_Index q + 1"
  have n: "0 \<le> ?n" using assms(2) by (auto simp: queue_inv_def q_def)
  let ?p = "pd\<lparr>dev_ActiveTrack := None, dev_Queue := SetIndex ?n q\<rparr>"
  obtain t where t: "t_New ops (dev_DeviceName pd) (q_Items q ! nat ?n) = Inr t" using assms(3) by blast
  have i: "q_Index (SetIndex ?n q) = ?n" using SetIndex_in_range [OF n True] .
  have s: "Size (SetIndex ?n q) = Size q" by (simp add: Size_def)
  have sw: "switchActiveTrackByIndex ops ?n ?p =
      (?p\<lparr>dev_Queue := SetIndex ?n (SetIndex ?n q), dev_ActiveTrack := Some (t_SetVolume ops (dev_Gain pd) t)\<rparr>, None)"
    using switch_in_range [of ?n ?p ops t] n True t by (simp add: s)
  have "pd' = map_active (t_Unpause ops) (fst (switchActiveTrackByIndex ops ?n ?p))"
    using True i by (simp add: pd'_def playbackDone_def IncreaseIndex_def IsAtLastElement_def Size_def q_def Let_def)
  with sw t n True assms(1) show ?thesis
    by (simp add: track_laws_def SetIndex_in_range s)
next
  case False
  then show ?thesis
    by (simp add: pd'_def playbackDone_def IsAtLastElement_def Size_def q_def Let_def)
qed

text \<open>
  skipping to a position of the queue loads that position's track and keeps the device playing
  if it was playing (and paused if it was not), when the player can open it and seek in it.
\<close>

theorem Skip_plays_requested:
  assumes "track_laws ops" and "0 \<le> idx" and "idx < Size (dev_Queue pd)"
    and "idx \<noteq> q_Index (dev_Queue pd)" and "\<And>mf. \<exists>t. t_New ops (dev_DeviceName pd) mf = Inr t"
    and "\<And>t. \<exists>t'. t_SetPosition ops offset t = Inr t'"
  shows "\<exists>pd' t. Skip ops idx offset pd = Some (pd', None) \<and> q_Index (dev_Queue pd') = idx \<and>
    q_Items (dev_Queue pd') = q_Items (dev_Queue pd) \<and> dev_ActiveTrack pd' = Some t \<and>
    t_File ops t = q_Items (dev_Queue pd) ! nat idx \<and> (isPlaying ops pd \<longrightarrow> t_IsPlaying ops t)"
proof -
  let ?pd2 = "pd\<lparr>dev_ActiveTrack := None\<rparr>"
  obtain t where t: "t_New ops (dev_DeviceName pd) (q_Items (dev_Queue pd) ! nat idx) = Inr t"
    using assms(5) by blast
  let ?pd3 = "?pd2\<lparr>dev_Queue := SetIndex idx (dev_Queue pd), dev_ActiveTrack := Some (t_SetVolume ops (dev_Gain pd) t)\<rparr>"
  have sw: "switchActiveTrackByIndex ops idx ?pd2 = (?pd3, None)"
    using switch_in_range [of idx ?pd2 ops t] assms(2,3) t by simp
  obtain t' where t': "t_SetPosition ops offset (t_SetVolume ops (dev_Gain pd) t) = Inr t'" using assms(6) by blast
  let ?pd4 = "?pd3\<lparr>dev_ActiveTrack := Some t'\<rparr>"
  have sk: "Skip ops idx offset pd = (if isPlaying ops pd then Start ops ?pd4 else Some (?pd4, None))"
    using assms(4) sw t'
    by (cases "dev_ActiveTrack pd"; cases "isPlaying ops pd") (simp_all add: Skip_def unloaded isPlaying_def)
  have f: "t_File ops t' = q_Items (dev_Queue pd) ! nat idx"
    using assms(1) t t' unfolding track_laws_def by metis
  show ?thesis
    using assms(1) f SetIndex_in_range [OF assms(2,3)]
    by (auto simp: sk Start_def isPlaying_Some map_active_def track_laws_def Let_def)
qed

text \<open>A player that opens every file and seeks anywhere: the file, whether it plays, the position.\<close>

definition example_ops :: "(MediaFile \<times> bool \<times> int) track_ops" where
  "example_ops = \<lparr>t_New = (\<lambda>_ mf. Inr (mf, False, 0)), t_File = fst, t_IsPlaying = (\<lambda>t. fst (snd t)),
     t_Position = (\<lambda>t. snd (snd t)), t_SetVolume = (\<lambda>_ t. t), t_Pause = (\<lambda>t. (fst t, False, snd (snd t))),
     t_Unpause = (\<lambda>t. (fst t, True, snd (snd t))), t_SetPosition = (\<lambda>p t. Inr (fst t, fst (snd t), p))\<rparr>"

lemma example_ops_laws: "track_laws example_ops"
  by (auto simp: track_laws_def example_ops_def)

definition example_device :: "(MediaFile \<times> bool \<times> int) playbackDevice" where
  "example_device = (NewPlaybackDevice ''auto'')\<lparr>dev_Queue := example_queue,
     dev_ActiveTrack := Some (empty_MediaFile\<lparr>mf_ID := ''b''\<rparr>, True, 30)\<rparr>"

lemma example_device_simps:
  "Size (dev_Queue example_device) = 3" "q_Index (dev_Queue example_device) = 1"
  "isPlaying example_ops example_device" "queue_inv (dev_Queue example_device)"
  "q_Items (dev_Queue example_device) ! 2 = empty_MediaFile\<lparr>mf_ID := ''c''\<rparr>"
  by (simp_all add: example_device_def example_queue_def Size_def isPlaying_def example_ops_def queue_inv_def
      numeral_2_eq_2)

theorem playbackDone_plays_next_witness:
  "\<exists>t. dev_ActiveTrack (playbackDone example_ops example_device) = Some t \<and>
     t_File example_ops t = empty_MediaFile\<lparr>mf_ID := ''c''\<rparr> \<and> t_IsPlaying example_ops t"
proof -
  have n: "\<exists>t. t_New example_ops (dev_DeviceName example_device) mf = Inr t" for mf
    by (rule exI, simp add: example_ops_def)
  from playbackDone_plays_next [OF example_ops_laws example_device_simps(4) n] show ?thesis
    by (simp add: example_device_simps)
qed

theorem Skip_plays_requested_witness:
  "\<exists>pd' t. Skip example_ops 2 10 example_device = Some (pd', None) \<and> dev_ActiveTrack pd' = Some t \<and>
     t_File example_ops t = empty_MediaFile\<lparr>mf_ID := ''c''\<rparr> \<and> t_IsPlaying example_ops t"
proof -
  have n: "\<exists>t. t_New example_ops (dev_DeviceName example_device) mf = Inr t" for mf
    by (rule exI, simp add: example_ops_def)
  have p: "\<exists>t'. t_SetPosition example_ops 10 t = Inr t'" for t by (rule exI, simp add: example_ops_def)
  from Skip_plays_requested [OF example_ops_laws _ _ _ n p, of 2] show ?thesis
    by (auto simp: example_device_simps)
qed

subsection \<open>Invariant\<close>

lemma switch_inv: "queue_inv (dev_Queue (fst (switchActiveTrackByIndex ops i pd)))"
  by (auto simp: switchActiveTrackByIndex_def queue_inv_def SetIndex_def Let_def
      split: option.splits sum.splits)

lemma switch_loads:
  "switchActiveTrackByIndex ops i pd = (pd', None) \<Longrightarrow> dev_ActiveTrack pd' \<noteq> None"
  by (auto simp: switchActiveTrackByIndex_def Let_def split: option.splits sum.splits)

lemma Start_inv:
  assumes "queue_inv (dev_Queue pd)"
  shows "\<exists>pd' e. Start ops pd = Some (pd', e) \<and> queue_inv (dev_Queue pd')"
proof -
  let ?pd0 = "pd\<lparr>dev_switcherStarted := True\<rparr>"
  obtain pd1 e where s: "switchActiveTrackByIndex ops (q_Index (dev_Queue pd)) ?pd0 = (pd1, e)"
    by (metis surj_pair)
  have "queue_inv (dev_Queue pd1)"
    using switch_inv [of ops "q_Index (dev_Queue pd)" ?pd0] s by simp
  moreover have "e = None \<Longrightarrow> \<exists>t. dev_ActiveTrack pd1 = Some t"
    using s switch_loads [of ops "q_Index (dev_Queue pd)" ?pd0 pd1] by auto
  ultimately show ?thesis
    using assms s by (cases e) (auto simp: Start_def Let_def)
qed

lemma Skip_inv:
  assumes inv: "queue_inv (dev_Queue pd)"
  shows "\<exists>pd' e. Skip ops i off pd = Some (pd', e) \<and> queue_inv (dev_Queue pd')"
proof -
  let ?pd1 = "if dev_ActiveTrack pd \<noteq> None \<and> isPlaying ops pd then map_active (t_Pause ops) pd else pd"
  let ?pd2 = "if i \<noteq> q_Index (dev_Queue ?pd1) \<and> dev_ActiveTrack ?pd1 \<noteq> None
    then ?pd1\<lparr>dev_ActiveTrack := None\<rparr> else ?pd1"
  obtain pd3 e where s: "(if dev_ActiveTrack ?pd2 = None then switchActiveTrackByIndex ops i ?pd2 else (?pd2, None)) = (pd3, e)"
    by (metis surj_pair)
  have q: "queue_inv (dev_Queue pd3)"
    using s inv switch_inv [of ops i ?pd2] by (auto split: if_splits)
  have l: "e = None \<Longrightarrow> dev_ActiveTrack pd3 \<noteq> None"
    using s switch_loads [of ops i ?pd2 pd3] by (auto split: if_splits)
  show ?thesis
  proof (cases e)
    case None
    with l obtain t where t: "dev_ActiveTrack pd3 = Some t" by auto
    have "queue_inv (dev_Queue (pd3\<lparr>dev_ActiveTrack := Some t'\<rparr>))" for t' using q by simp
    from Start_inv [OF this] show ?thesis
      using q None t unfolding Skip_def Let_def s by (auto split: sum.splits)
  next
    case (Some err)
    with q show ?thesis unfolding Skip_def Let_def s by simp
  qed
qed

text \<open>The queue's invariant admits the index 0 of an empty queue, which \<open>Skip\<close> can reach.\<close>

text \<open>
  no jukebox command panics: starting and skipping never call through an active track that is
  not there, whatever the player refuses, and removing never hits the out-of-range panic of the
  queue, whatever the index. Every command and the end of a track keep the queue's invariant: the
  index is a position of the queue, -1, or 0 in an empty queue.
\<close>

theorem device_operations_inv:
  assumes "queue_inv (dev_Queue pd)"
  shows "(\<exists>pd' e. Start ops pd = Some (pd', e) \<and> queue_inv (dev_Queue pd')) \<and>
    (\<exists>pd' e. Skip ops i off pd = Some (pd', e) \<and> queue_inv (dev_Queue pd')) \<and>
    (\<exists>pd'. Remove_device ops i pd = Some pd' \<and> queue_inv (dev_Queue pd')) \<and>
    queue_inv (dev_Queue (Stop ops pd)) \<and> queue_inv (dev_Queue (fst (Add_device get ids pd))) \<and>
    queue_inv (dev_Queue (fst (Set_device get ids pd))) \<and> queue_inv (dev_Queue (Clear_device pd)) \<and>
    queue_inv (dev_Queue (Shuffle_device rnd pd)) \<and> queue_inv (dev_Queue (SetGain ops g pd)) \<and>
    queue_inv (dev_Queue (playbackDone ops pd))"
proof -
  have "\<exists>pd'. Remove_device ops i pd = Some pd' \<and> queue_inv (dev_Queue pd')"
    using assms reindex_inv
    by (auto simp: Remove_device_def Remove_def Size_def Stop_def Let_def)
  moreover have "queue_inv (dev_Queue (playbackDone ops pd))"
    using assms switch_inv by (auto simp: playbackDone_def Let_def)
  moreover have "queue_inv (Clear q)" for q by (simp add: queue_inv_def Clear_def)
  ultimately show ?thesis
    using assms Start_inv Skip_inv reindex_inv Add_items_inv
    by (auto simp: Stop_def Add_device_def Set_device_def Clear_device_def Shuffle_device_def Shuffle_def
        SetGain_def Let_def split: sum.splits)
qed

theorem device_operations_inv_witness:
  "\<exists>pd'. Remove_device example_ops 7 example_device = Some pd' \<and> queue_inv (dev_Queue pd')"
  using device_operations_inv [OF example_device_simps(4)] by blast

end
