(* ===== verification/Scrobble_Buffer.thy ===== *)
theory Scrobble_Buffer
  imports Media_File
begin

text \<open>
  \<open>persistence/scrobble_buffer_repository.go\<close> and \<open>core/scrobbler/buffered_scrobbler.go\<close>: scrobbles are
  stored in a table and delivered to an external service by a background worker. The table is the
  list of its rows in the order of their row ids, with the unique constraints of the migrations
  (\<open>id\<close>, and user, service, file and play time together). How the service answers an entry, whether
  the scrobbler can be loaded and whether the database fails are the record \<open>drain_env\<close>.

  The locale \<open>scrobble_queue\<close> is the contract the worker relies on: \<open>Next\<close> returns the first pending
  entry and \<open>Dequeue\<close> removes exactly it. It is extended by \<open>drainer\<close> with the worker's loop, whose
  lemmas are proved once there; both are interpreted on the repository and \<open>processUserQueue\<close>.
\<close>

record ScrobbleEntry =
  se_ID :: string
  se_Service :: string
  se_UserID :: string
  se_PlayTime :: Time
  se_EnqueueTime :: Time
  se_MediaFileID :: string

type_synonym scrobble_table = "ScrobbleEntry list"

datatype buffer_error = ErrConstraintFailed

subsection \<open>The repository\<close>

definition UserIDs :: "scrobble_table \<Rightarrow> string \<Rightarrow> string list" where
  "UserIDs db service =
     (let users = map se_UserID (filter (\<lambda>e. se_Service e = service) db)
      in sort_key (\<lambda>u. length (filter (\<lambda>v. v = u) users)) (remdups users))"

definition Enqueue ::
  "string \<Rightarrow> Time \<Rightarrow> string \<Rightarrow> string \<Rightarrow> string \<Rightarrow> Time \<Rightarrow> scrobble_table \<Rightarrow> buffer_error + scrobble_table" where
  "Enqueue newId now service userId mediaFileId playTime db =
     (if list_ex (\<lambda>e. se_ID e = newId \<or> (se_UserID e = userId \<and> se_Service e = service \<and>
           se_MediaFileID e = mediaFileId \<and> se_PlayTime e = playTime)) db
      then Inl ErrConstraintFailed
      else Inr (db @ [\<lparr>se_ID = newId, se_Service = service, se_UserID = userId, se_PlayTime = playTime,
                       se_EnqueueTime = now, se_MediaFileID = mediaFileId\<rparr>]))"

text \<open>\<open>ORDER BY play_time, rowid LIMIT 1\<close>.\<close>

fun first_by_time :: "ScrobbleEntry list \<Rightarrow> ScrobbleEntry option" where
  "first_by_time [] = None"
| "first_by_time (e # es) =
     (case first_by_time es of
        None \<Rightarrow> Some e
      | Some m \<Rightarrow> if se_PlayTime e \<le> se_PlayTime m then Some e else Some m)"

definition Next :: "scrobble_table \<Rightarrow> string \<Rightarrow> string \<Rightarrow> ScrobbleEntry option" where
  "Next db service userId =
     first_by_time (filter (\<lambda>e. se_Service e = service \<and> se_UserID e = userId) db)"

definition Dequeue :: "ScrobbleEntry \<Rightarrow> scrobble_table \<Rightarrow> scrobble_table" where
  "Dequeue entry db = filter (\<lambda>e. se_ID e \<noteq> se_ID entry) db"

definition Discard :: "string \<Rightarrow> scrobble_table \<Rightarrow> scrobble_table" where
  "Discard service db = filter (\<lambda>e. se_Service e \<noteq> service) db"

definition Length :: "scrobble_table \<Rightarrow> nat" where
  "Length db = length db"

subsection \<open>Retries\<close>

definition minRetryDelay :: Duration where "minRetryDelay = 5 * second"
definition maxRetryDelay :: Duration where "maxRetryDelay = 240 * second"
definition maxRetryShift :: int where "maxRetryShift = 6"

definition backoffDelay :: "int \<Rightarrow> Duration" where
  "backoffDelay failures =
     (let f = (if failures < 0 then 0 else failures)
      in if f \<ge> maxRetryShift then maxRetryDelay
         else
           let d = minRetryDelay * 2 ^ nat f
           in if d > maxRetryDelay then maxRetryDelay else d)"

text \<open>One round of \<open>run\<close>: the failure counter after it, and the delay the timer is set to.\<close>

definition run_round :: "bool \<Rightarrow> int \<Rightarrow> int \<times> Duration option" where
  "run_round processed failures =
     (if processed then (0, None)
      else (if failures < maxRetryShift then failures + 1 else failures, Some (backoffDelay failures)))"

subsection \<open>Delivery\<close>

datatype scrobble_result = ScrobbleOK | ErrRetryLater | ErrOther

record drain_env =
  dr_nextFails :: "string \<Rightarrow> bool"
  dr_available :: "ScrobbleEntry \<Rightarrow> bool"
  dr_send :: "ScrobbleEntry \<Rightarrow> scrobble_result"
  dr_dequeueFails :: "ScrobbleEntry \<Rightarrow> bool"

text \<open>\<open>Scrobble\<close> of the buffered scrobbler: the play is stored, and delivered later.\<close>

definition Scrobble_buffered ::
  "string \<Rightarrow> Time \<Rightarrow> string \<Rightarrow> string \<Rightarrow> MediaFile \<Rightarrow> Time \<Rightarrow> scrobble_table \<Rightarrow> buffer_error + scrobble_table" where
  "Scrobble_buffered newId now service userId mf timeStamp db =
     Enqueue newId now service userId (mf_ID mf) timeStamp db"

lemma first_by_time_member: "first_by_time es = Some e \<Longrightarrow> e \<in> set es"
  by (induction es arbitrary: e) (auto split: option.splits if_splits)

lemma Next_member: "Next db s u = Some e \<Longrightarrow> e \<in> set db \<and> se_Service e = s \<and> se_UserID e = u"
  using first_by_time_member by (fastforce simp: Next_def)

lemma length_Dequeue: "e \<in> set db \<Longrightarrow> length (Dequeue e db) < length db"
  unfolding Dequeue_def by (rule length_filter_less) auto

text \<open>The result, the table after the loop, and the entries sent, in order.\<close>

function processUserQueue ::
  "drain_env \<Rightarrow> string \<Rightarrow> string \<Rightarrow> scrobble_table \<Rightarrow> bool \<times> scrobble_table \<times> ScrobbleEntry list" where
  "processUserQueue env service userId db =
     (if dr_nextFails env userId then (False, db, [])
      else
        (case Next db service userId of
           None \<Rightarrow> (True, db, [])
         | Some entry \<Rightarrow>
             if \<not> dr_available env entry then (False, db, [])
             else if dr_send env entry = ErrRetryLater then (False, db, [entry])
             else if dr_dequeueFails env entry then (False, db, [entry])
             else
               (case processUserQueue env service userId (Dequeue entry db) of
                  (ok, db', sent) \<Rightarrow> (ok, db', entry # sent))))"
  by pat_completeness auto

termination
  by (relation "measure (\<lambda>(env, service, userId, db). length db)") (auto dest: Next_member length_Dequeue)

declare processUserQueue.simps [simp del]

fun processUsers :: "drain_env \<Rightarrow> string \<Rightarrow> string list \<Rightarrow> scrobble_table \<Rightarrow> bool \<times> scrobble_table" where
  "processUsers env service [] db = (True, db)"
| "processUsers env service (u # us) db =
     (case processUserQueue env service u db of
        (ok, db', _) \<Rightarrow>
          (case processUsers env service us db' of (result, db'') \<Rightarrow> (ok \<and> result, db'')))"

definition processQueue :: "drain_env \<Rightarrow> string \<Rightarrow> scrobble_table \<Rightarrow> bool \<times> scrobble_table" where
  "processQueue env service db = processUsers env service (UserIDs db service) db"

subsection \<open>The contract of the buffer\<close>

locale scrobble_queue =
  fixes nxt :: "'db \<Rightarrow> 'k \<Rightarrow> 'e option"
    and deq :: "'e \<Rightarrow> 'db \<Rightarrow> 'db"
    and pending :: "'db \<Rightarrow> 'k \<Rightarrow> 'e list"
    and db_ok :: "'db \<Rightarrow> bool"
  assumes nxt_pending: "nxt db k = (case pending db k of [] \<Rightarrow> None | e # _ \<Rightarrow> Some e)"
    and deq_ok: "db_ok db \<Longrightarrow> db_ok (deq e db)"
    and deq_pending: "db_ok db \<Longrightarrow> pending db k = e # es \<Longrightarrow>
      pending (deq e db) k' = (if k' = k then es else pending db k')"

text \<open>A loop that takes entries until one is blocked.\<close>

locale drainer = scrobble_queue +
  fixes drain :: "'b \<Rightarrow> 'a \<Rightarrow> bool \<times> 'a \<times> 'c list"
    and takes :: "'b \<Rightarrow> 'c \<Rightarrow> bool"
    and halted :: "'b \<Rightarrow> bool"
  assumes drain_halted: "halted k \<Longrightarrow> fst (drain k db) = False \<and> fst (snd (drain k db)) = db"
    and drain_empty: "\<not> halted k \<Longrightarrow> nxt db k = None \<Longrightarrow> drain k db = (True, db, [])"
    and drain_blocked: "\<not> halted k \<Longrightarrow> nxt db k = Some e \<Longrightarrow> \<not> takes k e \<Longrightarrow>
      fst (drain k db) = False \<and> fst (snd (drain k db)) = db"
    and drain_takes: "\<not> halted k \<Longrightarrow> nxt db k = Some e \<Longrightarrow> takes k e \<Longrightarrow>
      drain k db = (case drain k (deq e db) of (ok, db', sent) \<Rightarrow> (ok, db', e # sent))"
begin

lemma drain_prefix:
  assumes "db_ok db" and "drain k db = (ok, db', sent)" and "\<not> halted k"
  shows "db_ok db' \<and> pending db' k = dropWhile (takes k) (pending db k) \<and>
    (\<forall>k'. k' \<noteq> k \<longrightarrow> pending db' k' = pending db k') \<and>
    (ok \<longleftrightarrow> (\<forall>e \<in> set (pending db k). takes k e))"
  using assms
proof (induction "pending db k" arbitrary: db ok db' sent)
  case Nil
  then have "nxt db k = None" by (simp add: nxt_pending flip: Nil(1))
  with drain_empty [of k db] Nil show ?case by (simp flip: Nil(1))
next
  case (Cons e es)
  have n: "nxt db k = Some e" by (simp add: nxt_pending flip: Cons(2))
  show ?case
  proof (cases "takes k e")
    case False
    with drain_blocked [OF Cons.prems(3) n] Cons.prems show ?thesis by (simp flip: Cons(2))
  next
    case True
    obtain ok1 db1 sent1 where d: "drain k (deq e db) = (ok1, db1, sent1)" by (metis prod.exhaust)
    with drain_takes [OF Cons.prems(3) n True] Cons.prems(2) have r: "ok = ok1" "db' = db1" by simp_all
    note p = deq_pending [OF Cons.prems(1) Cons(2) [symmetric]]
    have "es = pending (deq e db) k" by (simp add: p)
    from Cons(1) [OF this deq_ok [OF Cons.prems(1)] d Cons.prems(3)] r True show ?thesis
      by (simp add: p flip: Cons(2))
  qed
qed

end

subsection \<open>The repository keeps the contract\<close>

definition pending_scrobbles :: "scrobble_table \<Rightarrow> string \<times> string \<Rightarrow> ScrobbleEntry list" where
  "pending_scrobbles db k =
     sort_key se_PlayTime (filter (\<lambda>e. se_Service e = fst k \<and> se_UserID e = snd k) db)"

definition buffer_inv :: "scrobble_table \<Rightarrow> bool" where
  "buffer_inv db \<longleftrightarrow> distinct (map se_ID db)"

lemma first_by_time_sort:
  "first_by_time es = (case sort_key se_PlayTime es of [] \<Rightarrow> None | e # _ \<Rightarrow> Some e)"
  by (induction es) (auto split: list.splits option.splits)

lemma pending_subset: "set (pending_scrobbles db k) \<subseteq> set db"
  by (auto simp: pending_scrobbles_def)

lemma pending_Dequeue:
  "pending_scrobbles (Dequeue e db) k = filter (\<lambda>x. se_ID x \<noteq> se_ID e) (pending_scrobbles db k)"
  by (simp add: pending_scrobbles_def Dequeue_def filter_sort conj_commute)

lemma distinct_pending: "buffer_inv db \<Longrightarrow> distinct (map se_ID (pending_scrobbles db k))"
proof -
  let ?xs = "filter (\<lambda>e. se_Service e = fst k \<and> se_UserID e = snd k) db"
  assume "buffer_inv db"
  then have "distinct (map se_ID ?xs)" by (simp add: buffer_inv_def distinct_map_filter)
  moreover have "mset (map se_ID (sort_key se_PlayTime ?xs)) = mset (map se_ID ?xs)" by simp
  ultimately show ?thesis
    unfolding pending_scrobbles_def using mset_eq_imp_distinct_iff by blast
qed

lemma buffer_inv_Dequeue: "buffer_inv db \<Longrightarrow> buffer_inv (Dequeue e db)"
  by (simp add: buffer_inv_def Dequeue_def distinct_map_filter)

lemma pending_Dequeue_head:
  assumes "buffer_inv db" and "pending_scrobbles db k = e # es"
  shows "pending_scrobbles (Dequeue e db) k' = (if k' = k then es else pending_scrobbles db k')"
proof (cases "k' = k")
  case True
  have "se_ID e \<notin> se_ID ` set es" using distinct_pending [OF assms(1), of k] assms(2) by simp
  then have "filter (\<lambda>x. se_ID x \<noteq> se_ID e) es = es" by (intro filter_True ballI) (metis imageI)
  with True assms(2) show ?thesis by (simp add: pending_Dequeue)
next
  case False
  have e: "e \<in> set db" "se_Service e = fst k" "se_UserID e = snd k"
  proof -
    have "e \<in> set (pending_scrobbles db k)" using assms(2) by simp
    then show "e \<in> set db" "se_Service e = fst k" "se_UserID e = snd k"
      by (auto simp: pending_scrobbles_def)
  qed
  have "se_ID x \<noteq> se_ID e" if "x \<in> set (pending_scrobbles db k')" for x
  proof
    assume "se_ID x = se_ID e"
    moreover from that have x: "x \<in> set db" "se_Service x = fst k'" "se_UserID x = snd k'"
      by (auto simp: pending_scrobbles_def)
    ultimately have "x = e" using assms(1) e(1) by (auto simp: buffer_inv_def distinct_map inj_on_def)
    with x e False show False by (simp add: prod_eq_iff)
  qed
  then have "filter (\<lambda>x. se_ID x \<noteq> se_ID e) (pending_scrobbles db k') = pending_scrobbles db k'"
    by (auto intro!: filter_True)
  with False show ?thesis by (simp add: pending_Dequeue)
qed

definition takes_entry :: "drain_env \<Rightarrow> ScrobbleEntry \<Rightarrow> bool" where
  "takes_entry env e \<longleftrightarrow> dr_available env e \<and> dr_send env e \<noteq> ErrRetryLater \<and> \<not> dr_dequeueFails env e"

interpretation buf: drainer "\<lambda>db k. Next db (fst k) (snd k)" Dequeue pending_scrobbles buffer_inv
  "\<lambda>k. processUserQueue env (fst k) (snd k)" "\<lambda>k. takes_entry env" "\<lambda>k. dr_nextFails env (snd k)" for env
proof unfold_locales
  show "Next db (fst k) (snd k) = (case pending_scrobbles db k of [] \<Rightarrow> None | e # _ \<Rightarrow> Some e)" for db k
    by (simp add: Next_def pending_scrobbles_def first_by_time_sort)
qed (auto simp: pending_Dequeue_head buffer_inv_Dequeue takes_entry_def processUserQueue.simps [of env]
      split: prod.splits)


definition example_entry :: "string \<Rightarrow> Time \<Rightarrow> ScrobbleEntry" where
  "example_entry i t = \<lparr>se_ID = i, se_Service = ''lastfm'', se_UserID = ''u1'', se_PlayTime = t,
     se_EnqueueTime = 0, se_MediaFileID = ''mf'' @ i\<rparr>"

definition example_drain :: drain_env where
  "example_drain = \<lparr>dr_nextFails = (\<lambda>_. False), dr_available = (\<lambda>_. True),
     dr_send = (\<lambda>e. if se_ID e = ''2'' then ErrRetryLater else ScrobbleOK), dr_dequeueFails = (\<lambda>_. False)\<rparr>"


subsection \<open>Storing a scrobble\<close>

text \<open>
  a scrobble is stored exactly once. Storing a play adds one entry for it to the user's pending
  scrobbles of the service, in the order of play time, and changes no other list; it fails, leaving
  the buffer alone, only when that play of that track is already waiting (or the random id exists).
\<close>

theorem Scrobble_buffered_once:
  assumes "buffer_inv db"
  shows "case Scrobble_buffered newId now s u mf t db of
      Inl _ \<Rightarrow> newId \<in> se_ID ` set db \<or>
        (\<exists>e \<in> set (pending_scrobbles db (s, u)). se_MediaFileID e = mf_ID mf \<and> se_PlayTime e = t)
    | Inr db' \<Rightarrow> buffer_inv db' \<and> sorted (map se_PlayTime (pending_scrobbles db' (s, u))) \<and>
        mset (pending_scrobbles db' (s, u)) =
          add_mset \<lparr>se_ID = newId, se_Service = s, se_UserID = u, se_PlayTime = t, se_EnqueueTime = now,
            se_MediaFileID = mf_ID mf\<rparr> (mset (pending_scrobbles db (s, u))) \<and>
        (\<forall>k. k \<noteq> (s, u) \<longrightarrow> pending_scrobbles db' k = pending_scrobbles db k)"
proof (cases "list_ex (\<lambda>e. se_ID e = newId \<or> (se_UserID e = u \<and> se_Service e = s \<and>
    se_MediaFileID e = mf_ID mf \<and> se_PlayTime e = t)) db")
  case True
  then show ?thesis
    by (auto simp: Scrobble_buffered_def Enqueue_def list_ex_iff pending_scrobbles_def image_iff)
next
  case False
  then have "newId \<notin> se_ID ` set db" by (auto simp: list_ex_iff)
  with False assms show ?thesis
    by (auto simp: Scrobble_buffered_def Enqueue_def buffer_inv_def pending_scrobbles_def)
qed

theorem Scrobble_buffered_once_witness:
  "buffer_inv [example_entry ''1'' 10] \<and>
   (case Scrobble_buffered ''2'' 0 ''lastfm'' ''u1'' (empty_MediaFile\<lparr>mf_ID := ''mf2''\<rparr>) 5 [example_entry ''1'' 10] of
      Inl _ \<Rightarrow> False
    | Inr db' \<Rightarrow> buffer_inv db' \<and> sorted (map se_PlayTime (pending_scrobbles db' (''lastfm'', ''u1''))))"
proof -
  have i: "buffer_inv [example_entry ''1'' 10]" by (simp add: buffer_inv_def)
  have "\<exists>db'. Scrobble_buffered ''2'' 0 ''lastfm'' ''u1'' (empty_MediaFile\<lparr>mf_ID := ''mf2''\<rparr>) 5
      [example_entry ''1'' 10] = Inr db'"
    by (simp add: Scrobble_buffered_def Enqueue_def example_entry_def)
  with i Scrobble_buffered_once [OF i, where newId = "''2''" and now = 0 and s = "''lastfm''" and u = "''u1''"
    and mf = "empty_MediaFile\<lparr>mf_ID := ''mf2''\<rparr>" and t = 5] show ?thesis by auto
qed

subsection \<open>All users of a service\<close>

lemma no_pending:
  "(\<forall>v. pending_scrobbles db (s, v) = []) \<longleftrightarrow> (\<forall>e \<in> set db. se_Service e \<noteq> s)"
proof -
  have "set (pending_scrobbles db (s, v)) = {e \<in> set db. se_Service e = s \<and> se_UserID e = v}" for v
    by (auto simp: pending_scrobbles_def)
  then have "pending_scrobbles db (s, v) = [] \<longleftrightarrow> {e \<in> set db. se_Service e = s \<and> se_UserID e = v} = {}" for v
    using set_empty [of "pending_scrobbles db (s, v)"] by simp
  then show ?thesis by blast
qed

lemma processUserQueue_pending:
  assumes "buffer_inv db" and "processUserQueue env s u db = (ok, db', sent)"
  shows "buffer_inv db' \<and> (\<forall>k. pending_scrobbles db' k =
      (if k = (s, u) \<and> \<not> dr_nextFails env u then dropWhile (takes_entry env) (pending_scrobbles db k)
       else pending_scrobbles db k)) \<and>
    (ok \<longleftrightarrow> \<not> dr_nextFails env u \<and> pending_scrobbles db' (s, u) = [])"
proof (cases "dr_nextFails env u")
  case True
  with assms show ?thesis by (simp add: processUserQueue.simps)
next
  case False
  with buf.drain_prefix [of db env "(s, u)" ok db' sent] assms show ?thesis
    by (simp add: dropWhile_eq_Nil_conv)
qed

lemma processUsers_pending:
  assumes "buffer_inv db" and "distinct us" and "processUsers env s us db = (ok, db')"
  shows "buffer_inv db' \<and> (\<forall>k. pending_scrobbles db' k =
      (if fst k = s \<and> snd k \<in> set us \<and> \<not> dr_nextFails env (snd k)
       then dropWhile (takes_entry env) (pending_scrobbles db k) else pending_scrobbles db k)) \<and>
    (ok \<longleftrightarrow> (\<forall>u \<in> set us. \<not> dr_nextFails env u \<and> pending_scrobbles db' (s, u) = []))"
  using assms
proof (induction us arbitrary: db ok)
  case (Cons u us)
  obtain ok1 db1 sent where p: "processUserQueue env s u db = (ok1, db1, sent)" by (metis prod.exhaust)
  obtain ok2 where r: "processUsers env s us db1 = (ok2, db')" "ok \<longleftrightarrow> ok1 \<and> ok2"
    using Cons.prems(3) p by (auto split: prod.splits)
  note h = processUserQueue_pending [OF Cons.prems(1) p]
  have d: "u \<notin> set us" "distinct us" using Cons.prems(2) by simp_all
  note t = Cons.IH [OF h [THEN conjunct1] d(2) r(1)]
  have k: "pending_scrobbles db' k =
      (if fst k = s \<and> snd k \<in> set (u # us) \<and> \<not> dr_nextFails env (snd k)
       then dropWhile (takes_entry env) (pending_scrobbles db k) else pending_scrobbles db k)" for k
    using h t d(1) by (cases k) auto
  have "pending_scrobbles db' (s, u) = pending_scrobbles db1 (s, u)" using t d(1) by simp
  with h t k r(2) show ?case by simp
qed simp

text \<open>
  one round of the worker. For every user the service still has the pending scrobbles from the
  first that could not be delivered on, in the same order, and other services are not touched; the
  round succeeds, which resets the retry delay, only when no scrobble of the service is left.
\<close>

theorem processQueue_round:
  assumes "buffer_inv db" and "processQueue env s db = (ok, db')" and "\<not> (\<exists>u. dr_nextFails env u)"
  shows "pending_scrobbles db' (s, u) = dropWhile (takes_entry env) (pending_scrobbles db (s, u)) \<and>
    (\<forall>k. fst k \<noteq> s \<longrightarrow> pending_scrobbles db' k = pending_scrobbles db k) \<and>
    (ok \<longleftrightarrow> (\<forall>e \<in> set db'. se_Service e \<noteq> s))"
proof -
  have us: "distinct (UserIDs db s)"
    and mem: "v \<in> set (UserIDs db s) \<longleftrightarrow> (\<exists>e \<in> set db. se_Service e = s \<and> se_UserID e = v)" for v
    by (auto simp: UserIDs_def Let_def)
  have none: "pending_scrobbles db (s, v) = []" if "v \<notin> set (UserIDs db s)" for v
    using that by (auto simp: mem pending_scrobbles_def filter_empty_conv)
  note t = processUsers_pending [OF assms(1) us assms(2) [unfolded processQueue_def]]
  have p: "pending_scrobbles db' (s, v) = dropWhile (takes_entry env) (pending_scrobbles db (s, v))" for v
    using t assms(3) none by (cases "v \<in> set (UserIDs db s)") auto
  have "ok \<longleftrightarrow> (\<forall>v. pending_scrobbles db' (s, v) = [])"
    using t assms(3) p none by (metis dropWhile.simps(1))
  also have "\<dots> \<longleftrightarrow> (\<forall>e \<in> set db'. se_Service e \<noteq> s)"
    by (rule no_pending)
  finally have "ok \<longleftrightarrow> (\<forall>e \<in> set db'. se_Service e \<noteq> s)" .
  moreover have "\<forall>k. fst k \<noteq> s \<longrightarrow> pending_scrobbles db' k = pending_scrobbles db k"
    using t by simp
  ultimately show ?thesis using p by blast
qed

theorem processQueue_round_witness:
  "\<exists>db'. processQueue example_drain ''lastfm'' [example_entry ''3'' 30] = (True, db') \<and>
     list_all (\<lambda>e. se_Service e \<noteq> ''lastfm'') db'"
proof -
  have i: "buffer_inv [example_entry ''3'' 30]" by (simp add: buffer_inv_def)
  obtain ok db' where p: "processQueue example_drain ''lastfm'' [example_entry ''3'' 30] = (ok, db')"
    by (metis prod.exhaust)
  have n: "\<not> (\<exists>u. dr_nextFails example_drain u)" by (simp add: example_drain_def)
  have "pending_scrobbles db' (''lastfm'', u) = []" for u
    using processQueue_round [OF i p n, of u]
    by (simp add: pending_scrobbles_def example_entry_def takes_entry_def example_drain_def)
  then have "\<forall>e \<in> set db'. se_Service e \<noteq> ''lastfm''"
    using no_pending by blast
  with processQueue_round [OF i p n] have "ok = True" "\<forall>e \<in> set db'. se_Service e \<noteq> ''lastfm''" by blast+
  with p show ?thesis by (simp add: list_all_iff)
qed

subsection \<open>Back-off\<close>

lemma backoffDelay_cases:
  "backoffDelay f \<in> {5 * second, 10 * second, 20 * second, 40 * second, 80 * second, 160 * second, 240 * second}"
  "f \<le> 0 \<Longrightarrow> backoffDelay f = 5 * second" "backoffDelay 1 = 10 * second" "backoffDelay 2 = 20 * second"
  "backoffDelay 3 = 40 * second" "backoffDelay 4 = 80 * second" "backoffDelay 5 = 160 * second"
  "f \<ge> 6 \<Longrightarrow> backoffDelay f = 240 * second"
proof -
  show z: "f \<le> 0 \<Longrightarrow> backoffDelay f = 5 * second"
    by (simp add: backoffDelay_def minRetryDelay_def maxRetryDelay_def maxRetryShift_def second_def)
  show s: "f \<ge> 6 \<Longrightarrow> backoffDelay f = 240 * second"
    by (simp add: backoffDelay_def minRetryDelay_def maxRetryDelay_def maxRetryShift_def second_def)
  show c: "backoffDelay 1 = 10 * second" "backoffDelay 2 = 20 * second"
    "backoffDelay 3 = 40 * second" "backoffDelay 4 = 80 * second" "backoffDelay 5 = 160 * second"
    by (simp_all add: backoffDelay_def minRetryDelay_def maxRetryDelay_def maxRetryShift_def second_def)
  have "f \<le> 0 \<or> f = 1 \<or> f = 2 \<or> f = 3 \<or> f = 4 \<or> f = 5 \<or> f \<ge> 6" by linarith
  then show "backoffDelay f \<in> {5 * second, 10 * second, 20 * second, 40 * second, 80 * second, 160 * second, 240 * second}"
    using z s c by auto
qed

text \<open>The delays of a worker that fails \<open>n\<close> rounds in a row, starting from a counter.\<close>

fun failing_delays :: "nat \<Rightarrow> int \<Rightarrow> Duration list" where
  "failing_delays 0 failures = []"
| "failing_delays (Suc n) failures =
     (case run_round False failures of
        (failures', delay) \<Rightarrow> (case delay of Some d \<Rightarrow> d # failing_delays n failures' | None \<Rightarrow> failing_delays n failures'))"

lemma failing_delays_bounds: "set (failing_delays n f) \<subseteq> {minRetryDelay .. maxRetryDelay}"
proof (induction n arbitrary: f)
  case (Suc n)
  have "backoffDelay f \<in> {minRetryDelay .. maxRetryDelay}"
    using backoffDelay_cases(1) [of f] by (auto simp: minRetryDelay_def maxRetryDelay_def second_def)
  with Suc show ?case by (simp add: run_round_def)
qed simp

lemma failing_delays_ceiling: "failing_delays n 6 = replicate n maxRetryDelay"
  by (induction n) (simp_all add: run_round_def maxRetryShift_def backoffDelay_cases(8) maxRetryDelay_def)

text \<open>
  the retry delays of a service that keeps failing are 5, 10, 20, 40, 80 and 160 seconds and then
  four minutes for ever: the delay doubles, never exceeds its maximum, and the failure counter
  never grows past the point where the shift could overflow. A success starts over.
\<close>

theorem backoff_sequence:
  "failing_delays (6 + n) 0 =
     [5 * second, 10 * second, 20 * second, 40 * second, 80 * second, 160 * second] @ replicate n (240 * second) \<and>
   set (failing_delays n f) \<subseteq> {minRetryDelay .. maxRetryDelay} \<and> run_round True f = (0, None)"
proof -
  have "failing_delays (6 + n) 0 =
     [backoffDelay 0, backoffDelay 1, backoffDelay 2, backoffDelay 3, backoffDelay 4, backoffDelay 5] @ failing_delays n 6"
    by (simp add: run_round_def maxRetryShift_def numeral_eq_Suc)
  then show ?thesis
    using failing_delays_bounds [of n f]
    by (simp add: backoffDelay_cases failing_delays_ceiling maxRetryDelay_def run_round_def)
qed

end
