(* ===== verification/Play_Counts.thy ===== *)
theory Play_Counts
  imports Media_File
begin

text \<open>
  The play counts: \<open>IncPlayCount\<close> of \<open>persistence/sql_annotations.go\<close> and the transaction \<open>incPlay\<close>
  of \<open>core/scrobbler/play_tracker.go\<close>. The annotations of the current user are a map from an item
  (its table and id) to its count and last play date. A statement that fails is an argument: the
  set of items whose update the database refuses. A transaction that returns an error leaves the
  database as it was (\<open>WithTx\<close>).
\<close>

datatype item_type = MediaFileItem | AlbumItem | ArtistItem

type_synonym annotations = "item_type \<times> string \<rightharpoonup> nat \<times> Time"

record play_db =
  pd_annotations :: annotations
  pd_history :: "(string \<times> Time) list"

definition IncPlayCount :: "item_type \<times> string \<Rightarrow> Time \<Rightarrow> annotations \<Rightarrow> annotations" where
  "IncPlayCount item ts ann =
     (case ann item of
        Some (n, d) \<Rightarrow> ann(item \<mapsto> (n + 1, max d ts))
      | None \<Rightarrow> ann(item \<mapsto> (1, ts)))"

definition play_count :: "play_db \<Rightarrow> item_type \<times> string \<Rightarrow> nat" where
  "play_count db item = (case pd_annotations db item of Some (n, _) \<Rightarrow> n | None \<Rightarrow> 0)"

record play_env =
  pe_fails :: "item_type \<times> string \<Rightarrow> bool"
  pe_recordFails :: "string \<Rightarrow> bool"
  pe_EnableScrobbleHistory :: bool

definition played_items :: "MediaFile \<Rightarrow> (item_type \<times> string) list" where
  "played_items track =
     [(MediaFileItem, mf_ID track), (AlbumItem, mf_AlbumID track)] @ map (Pair ArtistItem) (mf_ArtistIDs track)"

text \<open>The statements of the transaction, up to the first that fails.\<close>

fun incItems :: "play_env \<Rightarrow> Time \<Rightarrow> (item_type \<times> string) list \<Rightarrow> annotations \<Rightarrow> annotations option" where
  "incItems env ts [] ann = Some ann"
| "incItems env ts (i # is) ann = (if pe_fails env i then None else incItems env ts is (IncPlayCount i ts ann))"

definition incPlay :: "play_env \<Rightarrow> MediaFile \<Rightarrow> Time \<Rightarrow> play_db \<Rightarrow> bool \<times> play_db" where
  "incPlay env track timestamp db =
     (case incItems env timestamp (played_items track) (pd_annotations db) of
        None \<Rightarrow> (False, db)
      | Some ann \<Rightarrow>
          if pe_EnableScrobbleHistory env then
            if pe_recordFails env (mf_ID track) then (False, db)
            else (True, db\<lparr>pd_annotations := ann, pd_history := pd_history db @ [(mf_ID track, timestamp)]\<rparr>)
          else (True, db\<lparr>pd_annotations := ann\<rparr>))"

lemma incItems_None: "incItems env ts is ann = None \<longleftrightarrow> (\<exists>i \<in> set is. pe_fails env i)"
  by (induction env ts "is" ann rule: incItems.induct) auto

lemma IncPlayCount_count:
  "play_count (db\<lparr>pd_annotations := IncPlayCount i ts ann\<rparr>) j =
     play_count (db\<lparr>pd_annotations := ann\<rparr>) j + of_bool (j = i)"
  by (auto simp: play_count_def IncPlayCount_def split: option.splits)

lemma incItems_count:
  "incItems env ts is ann = Some ann' \<Longrightarrow>
    play_count (db\<lparr>pd_annotations := ann'\<rparr>) j = play_count (db\<lparr>pd_annotations := ann\<rparr>) j + count_list is j"
  by (induction env ts "is" ann rule: incItems.induct) (auto simp: IncPlayCount_count split: if_splits)

lemma count_list_artists [simp]:
  "count_list (map (Pair ArtistItem) xs) (t, a) = (if t = ArtistItem then count_list xs a else 0)"
  by (induction xs) auto

text \<open>How often a play of a track counts for an item.\<close>

definition credits :: "MediaFile \<Rightarrow> item_type \<times> string \<Rightarrow> nat" where
  "credits track j =
     (case fst j of
        MediaFileItem \<Rightarrow> of_bool (snd j = mf_ID track)
      | AlbumItem \<Rightarrow> of_bool (snd j = mf_AlbumID track)
      | ArtistItem \<Rightarrow> count_list (mf_ArtistIDs track) (snd j))"

lemma count_list_played: "count_list (played_items track) j = credits track j"
  by (cases j) (auto simp: played_items_def credits_def split: item_type.splits)

text \<open>
  counting a play is atomic. Either the play counts of the track, of its album and of each of its
  artists all go up by one (once per credit) and the play is recorded in the history if that is
  enabled, and nothing else changes; or one of the updates failed and the database is as before.
\<close>

theorem incPlay_atomic:
  "let (ok, db') = incPlay env track ts db
   in if ok then
        (\<forall>j. play_count db' j = play_count db j + credits track j) \<and>
        pd_history db' = pd_history db @ (if pe_EnableScrobbleHistory env then [(mf_ID track, ts)] else [])
      else
        db' = db \<and> ((\<exists>i \<in> set (played_items track). pe_fails env i) \<or>
          (pe_EnableScrobbleHistory env \<and> pe_recordFails env (mf_ID track)))"
proof (cases "incItems env ts (played_items track) (pd_annotations db)")
  case None
  then have "incPlay env track ts db = (False, db)" by (simp add: incPlay_def)
  with None show ?thesis by (simp add: incItems_None)
next
  case (Some ann)
  have "play_count (db\<lparr>pd_annotations := ann, pd_history := h\<rparr>) j = play_count (db\<lparr>pd_annotations := ann\<rparr>) j"
    "play_count (db\<lparr>pd_annotations := pd_annotations db\<rparr>) j = play_count db j" for h j
    by (simp_all add: play_count_def)
  with incItems_count [OF Some, of db] Some show ?thesis
    by (simp add: incPlay_def count_list_played)
qed

end
