(* ===== verification/Play_Tracker.thy ===== *)
theory Play_Tracker
  imports Stream_Decider Auth_Claims Scrobble_Buffer Play_Counts
begin

text \<open>
  \<open>core/scrobbler/play_tracker.go\<close>, \<open>nowplaying_worker.go\<close> and \<open>playbackreport_worker.go\<close>: the playback
  sessions of the clients, the plays they lead to, and what is reported to the scrobblers. The
  sessions are in a cache whose entries expire (\<open>utils/cache/simple_cache.go\<close> over the ttlcache
  library): a value of a type \<open>'c\<close> with the operations \<open>session_cache\<close>, of which \<open>cache_laws\<close> states
  what the library documents. The scrobblers are their names; every one is buffered, so that
  sending it a scrobble stores an entry in the buffer of \<open>Scrobble_Buffer\<close>. The clock, the media
  file lookup and the authorisation of a user with a scrobbler are arguments.

  A report of a client is a run of atomic actions; the loads between them are where reports of the
  same client interleave, which is why the session is checked again before it is stored.
\<close>

definition StateStarting :: string where "StateStarting = ''starting''"
definition StatePlaying :: string where "StatePlaying = ''playing''"
definition StatePaused :: string where "StatePaused = ''paused''"
definition StateStopped :: string where "StateStopped = ''stopped''"
definition StateExpired :: string where "StateExpired = ''expired''"

lemmas state_defs = StateStarting_def StatePlaying_def StatePaused_def StateStopped_def StateExpired_def

definition UnknownArtist :: string where "UnknownArtist = ''[Unknown Artist]''"

record PlaybackSession =
  ps_MediaFile :: MediaFile
  ps_Start :: Time
  ps_UserId :: string
  ps_Username :: string
  ps_PlayerId :: string
  ps_PlayerName :: string
  ps_State :: string
  ps_PositionMs :: int
  ps_PlaybackRate :: rat
  ps_LastReport :: Time

record ReportPlaybackParams =
  rp_MediaId :: string
  rp_PositionMs :: int
  rp_State :: string
  rp_PlaybackRate :: rat
  rp_IgnoreScrobble :: bool
  rp_ClientId :: string
  rp_ClientName :: string

record nowPlayingEntry =
  np_userId :: string
  np_track :: MediaFile
  np_position :: int

record 'c session_cache =
  sc_AddWithTTL :: "Time \<Rightarrow> string \<Rightarrow> PlaybackSession \<Rightarrow> Duration \<Rightarrow> 'c \<Rightarrow> 'c"
  sc_Get :: "Time \<Rightarrow> string \<Rightarrow> 'c \<Rightarrow> PlaybackSession option"
  sc_Remove :: "string \<Rightarrow> 'c \<Rightarrow> 'c"
  sc_Values :: "Time \<Rightarrow> 'c \<Rightarrow> PlaybackSession list"
  sc_Len :: "'c \<Rightarrow> nat"

definition cache_laws :: "'c session_cache \<Rightarrow> bool" where
  "cache_laws ops \<longleftrightarrow>
     (\<forall>now t k v ttl c. now \<le> t \<and> t < now + ttl \<longrightarrow> sc_Get ops t k (sc_AddWithTTL ops now k v ttl c) = Some v) \<and>
     (\<forall>now t k k' v ttl c. k' \<noteq> k \<longrightarrow> sc_Get ops t k' (sc_AddWithTTL ops now k v ttl c) = sc_Get ops t k' c) \<and>
     (\<forall>t k c. sc_Get ops t k (sc_Remove ops k c) = None) \<and>
     (\<forall>t k k' c. k' \<noteq> k \<longrightarrow> sc_Get ops t k' (sc_Remove ops k c) = sc_Get ops t k' c) \<and>
     (\<forall>t c. set (sc_Values ops t c) = {v. \<exists>k. sc_Get ops t k c = Some v})"

record 'c playTracker =
  pt_playMap :: 'c
  pt_builtinScrobblers :: "string list"
  pt_pluginScrobblers :: "string list"
  pt_npQueue :: "string \<rightharpoonup> nowPlayingEntry"
  pt_prQueue :: "PlaybackSession list"
  pt_plays :: play_db
  pt_buffer :: scrobble_table
  pt_broadcasts :: "nat list"

record 'c tracker_env =
  te_cache :: "'c session_cache"
  te_GetWithParticipants :: "string \<Rightarrow> string + MediaFile"
  te_plays :: play_env
  te_PluginNames :: "string list option"
  te_IsAuthorized :: "string \<Rightarrow> string \<Rightarrow> bool"
  te_NewId :: "string \<Rightarrow> scrobble_table \<Rightarrow> string"
  te_EnableNowPlaying :: bool

subsection \<open>Scrobblers\<close>

definition pluginNamesMatchScrobblers :: "string list \<Rightarrow> string list \<Rightarrow> bool" where
  "pluginNamesMatchScrobblers pluginNames scrobblers \<longleftrightarrow>
     length pluginNames = length scrobblers \<and> list_all (\<lambda>n. n \<in> set scrobblers) pluginNames"

text \<open>The plugin scrobblers after the call and those that were stopped. \<open>te_PluginNames\<close> is
  \<^const>\<open>None\<close> without a plugin loader.\<close>

definition refreshPluginScrobblers :: "string list option \<Rightarrow> string list \<Rightarrow> string list \<times> string list" where
  "refreshPluginScrobblers names scrobblers =
     (case names of
        None \<Rightarrow> (scrobblers, [])
      | Some pluginNames \<Rightarrow>
          if pluginNamesMatchScrobblers pluginNames scrobblers then (scrobblers, [])
          else
            let added = fold (\<lambda>n ss. if n \<in> set ss then ss else ss @ [n]) pluginNames scrobblers
            in (filter (\<lambda>n. n \<in> set pluginNames) added, filter (\<lambda>n. n \<notin> set pluginNames) added))"

definition getActiveScrobblers :: "'c tracker_env \<Rightarrow> 'c playTracker \<Rightarrow> string list \<times> 'c playTracker" where
  "getActiveScrobblers env p =
     (let plugins = fst (refreshPluginScrobblers (te_PluginNames env) (pt_pluginScrobblers p))
      in (pt_builtinScrobblers p @ filter (\<lambda>n. n \<notin> set (pt_builtinScrobblers p)) plugins,
          p\<lparr>pt_pluginScrobblers := plugins\<rparr>))"

fun scrobbleAll ::
  "'c tracker_env \<Rightarrow> Time \<Rightarrow> string \<Rightarrow> MediaFile \<Rightarrow> Time \<Rightarrow> string list \<Rightarrow> scrobble_table \<Rightarrow> scrobble_table" where
  "scrobbleAll env now userId mf playTime [] buf = buf"
| "scrobbleAll env now userId mf playTime (name # names) buf =
     (if \<not> te_IsAuthorized env name userId then scrobbleAll env now userId mf playTime names buf
      else
        (case Scrobble_buffered (te_NewId env name buf) now name userId mf playTime buf of
           Inl _ \<Rightarrow> scrobbleAll env now userId mf playTime names buf
         | Inr buf' \<Rightarrow> scrobbleAll env now userId mf playTime names buf'))"

definition dispatchScrobble ::
  "'c tracker_env \<Rightarrow> Time \<Rightarrow> User \<Rightarrow> MediaFile \<Rightarrow> Time \<Rightarrow> 'c playTracker \<Rightarrow> 'c playTracker" where
  "dispatchScrobble env now user mf playTime p =
     (if mf_Artist mf = UnknownArtist then p
      else
        (case getActiveScrobblers env p of
           (names, p') \<Rightarrow> p'\<lparr>pt_buffer := scrobbleAll env now (usr_ID user) mf playTime names (pt_buffer p')\<rparr>))"

definition enqueuePlaybackReport :: "PlaybackSession \<Rightarrow> 'c playTracker \<Rightarrow> 'c playTracker" where
  "enqueuePlaybackReport info p = p\<lparr>pt_prQueue := pt_prQueue p @ [info]\<rparr>"

definition enqueueNowPlaying :: "string \<Rightarrow> string \<Rightarrow> MediaFile \<Rightarrow> int \<Rightarrow> 'c playTracker \<Rightarrow> 'c playTracker" where
  "enqueueNowPlaying playerId userId track position p =
     p\<lparr>pt_npQueue := (pt_npQueue p)(playerId \<mapsto> \<lparr>np_userId = userId, np_track = track, np_position = position\<rparr>)\<rparr>"

text \<open>One round of \<open>playbackReportWorker\<close>: the reports are taken from the queue and sent, in order, to
  every scrobbler that is active and authorised; \<open>dispatchPlaybackReport\<close> is the list of calls.\<close>

definition dispatchPlaybackReport ::
  "'c tracker_env \<Rightarrow> string list \<Rightarrow> PlaybackSession \<Rightarrow> (string \<times> PlaybackSession) list" where
  "dispatchPlaybackReport env names info =
     map (\<lambda>n. (n, info)) (filter (\<lambda>n. te_IsAuthorized env n (ps_UserId info)) names)"

definition playbackReportRound ::
  "'c tracker_env \<Rightarrow> 'c playTracker \<Rightarrow> (string \<times> PlaybackSession) list \<times> 'c playTracker" where
  "playbackReportRound env p =
     (if pt_prQueue p = [] then ([], p)
      else
        (case getActiveScrobblers env (p\<lparr>pt_prQueue := []\<rparr>) of
           (names, p') \<Rightarrow> (concat (map (dispatchPlaybackReport env names) (pt_prQueue p)), p')))"

definition dispatchNowPlaying ::
  "'c tracker_env \<Rightarrow> nowPlayingEntry \<Rightarrow> 'c playTracker \<Rightarrow> (string \<times> nowPlayingEntry) list \<times> 'c playTracker" where
  "dispatchNowPlaying env entry p =
     (if mf_Artist (np_track entry) = UnknownArtist then ([], p)
      else
        (case getActiveScrobblers env p of
           (names, p') \<Rightarrow>
             (map (\<lambda>n. (n, entry)) (filter (\<lambda>n. te_IsAuthorized env n (np_userId entry)) names), p')))"

subsection \<open>Sessions\<close>

text \<open>Conversion of a float to an integer truncates.\<close>

definition trunc :: "rat \<Rightarrow> int" where
  "trunc x = (if x \<ge> 0 then \<lfloor>x\<rfloor> else \<lceil>x\<rceil>)"

definition millisecond :: Duration where "millisecond = 1000000"

definition remainingTTL :: "rat \<Rightarrow> int \<Rightarrow> rat \<Rightarrow> Duration" where
  "remainingTTL durationSec positionMs rate =
     (let rate' = (if rate \<le> 0 then 1 else rate);
          remainingMs = of_int (trunc (durationSec * 1000) - positionMs) / rate';
          remainingSec = max (trunc (remainingMs / 1000)) 0
      in (remainingSec + 5) * second)"

definition hasPlayingSession :: "'c tracker_env \<Rightarrow> Time \<Rightarrow> string \<Rightarrow> string \<Rightarrow> 'c playTracker \<Rightarrow> bool" where
  "hasPlayingSession env now clientId mediaId p \<longleftrightarrow>
     (case sc_Get (te_cache env) now clientId (pt_playMap p) of
        Some cur \<Rightarrow> mf_ID (ps_MediaFile cur) = mediaId \<and> ps_State cur = StatePlaying
      | None \<Rightarrow> False)"

definition new_session :: "Time \<Rightarrow> Time \<Rightarrow> User \<Rightarrow> ReportPlaybackParams \<Rightarrow> MediaFile \<Rightarrow> PlaybackSession" where
  "new_session start now user params mf =
     \<lparr>ps_MediaFile = mf, ps_Start = start, ps_UserId = usr_ID user, ps_Username = usr_UserName user,
      ps_PlayerId = rp_ClientId params, ps_PlayerName = rp_ClientName params, ps_State = rp_State params,
      ps_PositionMs = rp_PositionMs params, ps_PlaybackRate = rp_PlaybackRate params, ps_LastReport = now\<rparr>"

text \<open>What a report does after the session of its client was updated (lines 403 to 421).\<close>

definition finishReport ::
  "'c tracker_env \<Rightarrow> Time \<Rightarrow> Player \<Rightarrow> User \<Rightarrow> ReportPlaybackParams \<Rightarrow> 'c playTracker \<Rightarrow> 'c playTracker" where
  "finishReport env now player user params p =
     (let p1 = (if te_EnableNowPlaying env
                then p\<lparr>pt_broadcasts := pt_broadcasts p @ [sc_Len (te_cache env) (pt_playMap p)]\<rparr> else p)
      in if pl_ScrobbleEnabled player \<and> (rp_State params = StateStarting \<or> rp_State params = StatePlaying) then
           (case sc_Get (te_cache env) now (rp_ClientId params) (pt_playMap p1) of
              Some info \<Rightarrow> enqueueNowPlaying (rp_ClientId params) (usr_ID user) (ps_MediaFile info)
                 (go_div (rp_PositionMs params) 1000) p1
            | None \<Rightarrow> p1)
         else p1)"

text \<open>The two atomic parts of a \<open>starting\<close> report, before and after the media file is loaded:
  \<^const>\<open>None\<close> when the report is ignored as out of order.\<close>

definition startingCommit ::
  "'c tracker_env \<Rightarrow> Time \<Rightarrow> User \<Rightarrow> ReportPlaybackParams \<Rightarrow> MediaFile \<Rightarrow> 'c playTracker \<Rightarrow> 'c playTracker option" where
  "startingCommit env now user params mf p =
     (if hasPlayingSession env now (rp_ClientId params) (rp_MediaId params) p then None
      else
        let info = new_session now now user params mf
        in Some (enqueuePlaybackReport info
             (p\<lparr>pt_playMap := sc_AddWithTTL (te_cache env) now (rp_ClientId params) info
                  (remainingTTL (mf_Duration mf) (rp_PositionMs params) (rp_PlaybackRate params)) (pt_playMap p)\<rparr>)))"

definition reportStarting ::
  "'c tracker_env \<Rightarrow> Time \<Rightarrow> Player \<Rightarrow> User \<Rightarrow> ReportPlaybackParams \<Rightarrow> 'c playTracker \<Rightarrow> 'c playTracker \<times> string option" where
  "reportStarting env now player user params p =
     (if hasPlayingSession env now (rp_ClientId params) (rp_MediaId params) p then (p, None)
      else
        (case te_GetWithParticipants env (rp_MediaId params) of
           Inl err \<Rightarrow> (p, Some err)
         | Inr mf \<Rightarrow>
             (case startingCommit env now user params mf p of
                None \<Rightarrow> (p, None)
              | Some p' \<Rightarrow> (finishReport env now player user params p', None))))"

definition updatedSession :: "Time \<Rightarrow> ReportPlaybackParams \<Rightarrow> PlaybackSession \<Rightarrow> PlaybackSession" where
  "updatedSession now params info =
     info\<lparr>ps_State := rp_State params, ps_PositionMs := rp_PositionMs params,
          ps_PlaybackRate := rp_PlaybackRate params, ps_LastReport := now\<rparr>"

definition sessionTTL :: "ReportPlaybackParams \<Rightarrow> PlaybackSession \<Rightarrow> Duration" where
  "sessionTTL params info =
     (if rp_State params = StatePlaying
      then remainingTTL (mf_Duration (ps_MediaFile info)) (rp_PositionMs params) (rp_PlaybackRate params)
      else 30 * 60 * second)"

definition commitPlaying ::
  "'c tracker_env \<Rightarrow> Time \<Rightarrow> Player \<Rightarrow> User \<Rightarrow> ReportPlaybackParams \<Rightarrow> PlaybackSession \<Rightarrow> 'c playTracker \<Rightarrow> 'c playTracker" where
  "commitPlaying env now player user params base p =
     (let info = updatedSession now params base
      in finishReport env now player user params
           (enqueuePlaybackReport info
             (p\<lparr>pt_playMap := sc_AddWithTTL (te_cache env) now (rp_ClientId params) info
                  (sessionTTL params info) (pt_playMap p)\<rparr>)))"

definition reportPlaying ::
  "'c tracker_env \<Rightarrow> Time \<Rightarrow> Player \<Rightarrow> User \<Rightarrow> ReportPlaybackParams \<Rightarrow> 'c playTracker \<Rightarrow> 'c playTracker \<times> string option" where
  "reportPlaying env now player user params p =
     (let load = (case te_GetWithParticipants env (rp_MediaId params) of
                    Inl err \<Rightarrow> (p, Some err)
                  | Inr mf \<Rightarrow>
                      (commitPlaying env now player user params
                         (new_session (now - rp_PositionMs params * millisecond) now user params mf) p, None))
      in case sc_Get (te_cache env) now (rp_ClientId params) (pt_playMap p) of
           Some info \<Rightarrow>
             if mf_ID (ps_MediaFile info) \<noteq> rp_MediaId params then load
             else (commitPlaying env now player user params info p, None)
         | None \<Rightarrow> load)"

definition scrobbleThreshold :: "MediaFile \<Rightarrow> int" where
  "scrobbleThreshold mf = min (go_div (trunc (mf_Duration mf * 1000) * 50) 100) 240000"

text \<open>The play of a \<open>stopped\<close> report: \<^const>\<open>Inl\<close> when the file cannot be loaded, otherwise the file if it
  was loaded.\<close>

definition stoppedPlay ::
  "'c tracker_env \<Rightarrow> Time \<Rightarrow> Player \<Rightarrow> User \<Rightarrow> ReportPlaybackParams \<Rightarrow> 'c playTracker \<Rightarrow>
     string + (MediaFile option \<times> 'c playTracker)" where
  "stoppedPlay env now player user params p =
     (if \<not> rp_IgnoreScrobble params \<and> pl_ScrobbleEnabled player then
        (case te_GetWithParticipants env (rp_MediaId params) of
           Inl err \<Rightarrow> Inl err
         | Inr mf \<Rightarrow>
             if rp_PositionMs params \<ge> scrobbleThreshold mf then
               let p1 = p\<lparr>pt_plays := snd (incPlay (te_plays env) mf now (pt_plays p))\<rparr>
               in Inr (Some mf, dispatchScrobble env now user mf now p1)
             else Inr (Some mf, p))
      else Inr (None, p))"

definition reportStopped ::
  "'c tracker_env \<Rightarrow> Time \<Rightarrow> Player \<Rightarrow> User \<Rightarrow> ReportPlaybackParams \<Rightarrow> 'c playTracker \<Rightarrow> 'c playTracker \<times> string option" where
  "reportStopped env now player user params p =
     (case stoppedPlay env now player user params p of
        Inl err \<Rightarrow> (p, Some err)
      | Inr (loadedMF, p1) \<Rightarrow>
          (case sc_Get (te_cache env) now (rp_ClientId params) (pt_playMap p1) of
             Some info \<Rightarrow>
               if mf_ID (ps_MediaFile info) \<noteq> rp_MediaId params then (p1, None)
               else
                 let p2 = p1\<lparr>pt_playMap := sc_Remove (te_cache env) (rp_ClientId params) (pt_playMap p1)\<rparr>;
                     stopped = new_session (ps_Start info) now user params (ps_MediaFile info)
                 in (finishReport env now player user params (enqueuePlaybackReport stopped p2), None)
           | None \<Rightarrow>
               let p2 = p1\<lparr>pt_playMap := sc_Remove (te_cache env) (rp_ClientId params) (pt_playMap p1)\<rparr>
               in case (case loadedMF of Some mf \<Rightarrow> Inr mf
                        | None \<Rightarrow> te_GetWithParticipants env (rp_MediaId params)) of
                    Inl err \<Rightarrow> (p2, Some err)
                  | Inr mf \<Rightarrow>
                      (finishReport env now player user params
                         (enqueuePlaybackReport (new_session zero_time now user params mf) p2), None)))"

definition ReportPlayback ::
  "'c tracker_env \<Rightarrow> Time \<Rightarrow> Player \<Rightarrow> User \<Rightarrow> ReportPlaybackParams \<Rightarrow> 'c playTracker \<Rightarrow> 'c playTracker \<times> string option" where
  "ReportPlayback env now player user params p =
     (if rp_State params = StateStarting then reportStarting env now player user params p
      else if rp_State params = StatePlaying \<or> rp_State params = StatePaused then
        reportPlaying env now player user params p
      else if rp_State params = StateStopped then reportStopped env now player user params p
      else (finishReport env now player user params p, None))"

text \<open>The callback of an expired session.\<close>

definition onExpiration :: "'c tracker_env \<Rightarrow> Time \<Rightarrow> PlaybackSession \<Rightarrow> 'c playTracker \<Rightarrow> 'c playTracker" where
  "onExpiration env now info p =
     (let p1 = (if te_EnableNowPlaying env
                then p\<lparr>pt_broadcasts := pt_broadcasts p @ [sc_Len (te_cache env) (pt_playMap p)]\<rparr> else p)
      in if ps_State info \<noteq> StateStopped
         then enqueuePlaybackReport (info\<lparr>ps_State := StateExpired, ps_LastReport := now\<rparr>) p1 else p1)"

definition estimatePosition :: "Time \<Rightarrow> PlaybackSession \<Rightarrow> PlaybackSession" where
  "estimatePosition now s =
     (if ps_State s = StatePlaying then
        let elapsed = go_div (now - ps_LastReport s) millisecond;
            estimated = ps_PositionMs s + trunc (of_int elapsed * ps_PlaybackRate s)
        in s\<lparr>ps_PositionMs := min estimated (trunc (mf_Duration (ps_MediaFile s) * 1000))\<rparr>
      else s)"

definition GetNowPlaying :: "'c tracker_env \<Rightarrow> Time \<Rightarrow> 'c playTracker \<Rightarrow> PlaybackSession list" where
  "GetNowPlaying env now p =
     map (estimatePosition now)
       (sort_key (\<lambda>s. - ps_Start s) (sc_Values (te_cache env) now (pt_playMap p)))"

fun submitAll ::
  "'c tracker_env \<Rightarrow> Time \<Rightarrow> Player \<Rightarrow> User \<Rightarrow> (string \<times> Time) list \<Rightarrow> nat \<times> 'c playTracker \<Rightarrow> nat \<times> 'c playTracker" where
  "submitAll env now player user [] (success, p) = (success, p)"
| "submitAll env now player user ((trackId, timestamp) # ss) (success, p) =
     submitAll env now player user ss
       (case te_GetWithParticipants env trackId of
          Inl _ \<Rightarrow> (success, p)
        | Inr mf \<Rightarrow>
            (case incPlay (te_plays env) mf timestamp (pt_plays p) of
               (ok, plays) \<Rightarrow>
                 if \<not> ok then (success, p)
                 else
                   let p1 = p\<lparr>pt_plays := plays\<rparr>
                   in (success + 1,
                       if pl_ScrobbleEnabled player then dispatchScrobble env now user mf timestamp p1 else p1)))"

definition Submit :: "'c tracker_env \<Rightarrow> Time \<Rightarrow> Player \<Rightarrow> User \<Rightarrow> (string \<times> Time) list \<Rightarrow> 'c playTracker \<Rightarrow> nat \<times> 'c playTracker" where
  "Submit env now player user submissions p = submitAll env now player user submissions (0, p)"

subsection \<open>Reports out of order\<close>

lemma state_distinct [simp]:
  "StatePlaying \<noteq> StateStarting" "StatePaused \<noteq> StateStarting" "StateStopped \<noteq> StateStarting"
  "StateStopped \<noteq> StatePlaying" "StateStopped \<noteq> StatePaused" "StateStarting \<noteq> StatePlaying"
  "StatePaused \<noteq> StatePlaying"
  by (simp_all add: state_defs)

lemma remainingTTL_min: "5 * second \<le> remainingTTL d pos rate"
  by (simp add: remainingTTL_def Let_def second_def)

lemma sessionTTL_pos: "0 < sessionTTL params info"
  using remainingTTL_min [of "mf_Duration (ps_MediaFile info)" "rp_PositionMs params" "rp_PlaybackRate params"]
  by (auto simp: sessionTTL_def second_def)

lemma finishReport_keeps [simp]:
  "pt_playMap (finishReport env now player user params p) = pt_playMap p"
  "pt_plays (finishReport env now player user params p) = pt_plays p"
  "pt_buffer (finishReport env now player user params p) = pt_buffer p"
  "pt_prQueue (finishReport env now player user params p) = pt_prQueue p"
  by (auto simp: finishReport_def enqueueNowPlaying_def Let_def split: option.splits)

lemma enqueuePlaybackReport_keeps [simp]:
  "pt_playMap (enqueuePlaybackReport i p) = pt_playMap p" "pt_plays (enqueuePlaybackReport i p) = pt_plays p"
  "pt_buffer (enqueuePlaybackReport i p) = pt_buffer p"
  "pt_prQueue (enqueuePlaybackReport i p) = pt_prQueue p @ [i]"
  by (simp_all add: enqueuePlaybackReport_def)

lemma dispatchScrobble_keeps [simp]:
  "pt_playMap (dispatchScrobble env now user mf t p) = pt_playMap p"
  "pt_plays (dispatchScrobble env now user mf t p) = pt_plays p"
  "pt_prQueue (dispatchScrobble env now user mf t p) = pt_prQueue p"
  by (auto simp: dispatchScrobble_def getActiveScrobblers_def Let_def)

lemma cache_lawsD:
  assumes "cache_laws ops"
  shows "now \<le> t \<Longrightarrow> t < now + ttl \<Longrightarrow> sc_Get ops t k (sc_AddWithTTL ops now k v ttl c) = Some v"
    and "k' \<noteq> k \<Longrightarrow> sc_Get ops t k' (sc_AddWithTTL ops now k v ttl c) = sc_Get ops t k' c"
    and "sc_Get ops t k (sc_Remove ops k c) = None"
    and "k' \<noteq> k \<Longrightarrow> sc_Get ops t k' (sc_Remove ops k c) = sc_Get ops t k' c"
    and "set (sc_Values ops t c) = {v. \<exists>k. sc_Get ops t k c = Some v}"
proof -
  note laws = assms [unfolded cache_laws_def]
  show "now \<le> t \<Longrightarrow> t < now + ttl \<Longrightarrow> sc_Get ops t k (sc_AddWithTTL ops now k v ttl c) = Some v"
    using laws [THEN conjunct1] by blast
  show "k' \<noteq> k \<Longrightarrow> sc_Get ops t k' (sc_AddWithTTL ops now k v ttl c) = sc_Get ops t k' c"
    using laws [THEN conjunct2, THEN conjunct1] by blast
  show "sc_Get ops t k (sc_Remove ops k c) = None"
    using laws [THEN conjunct2, THEN conjunct2, THEN conjunct1] by blast
  show "k' \<noteq> k \<Longrightarrow> sc_Get ops t k' (sc_Remove ops k c) = sc_Get ops t k' c"
    using laws [THEN conjunct2, THEN conjunct2, THEN conjunct2, THEN conjunct1] by blast
  show "set (sc_Values ops t c) = {v. \<exists>k. sc_Get ops t k c = Some v}"
    using laws [THEN conjunct2, THEN conjunct2, THEN conjunct2, THEN conjunct2] by blast
qed

text \<open>The lookup of a media file returns the file asked for.\<close>

definition lookup_ok :: "'c tracker_env \<Rightarrow> bool" where
  "lookup_ok env \<longleftrightarrow> (\<forall>i mf. te_GetWithParticipants env i = Inr mf \<longrightarrow> mf_ID mf = i)"

lemma reportPlaying_session:
  assumes "cache_laws (te_cache env)" and "lookup_ok env"
    and "reportPlaying env now player user params p = (p1, None)"
  obtains info where "mf_ID (ps_MediaFile info) = rp_MediaId params" "ps_State info = rp_State params"
    "pt_playMap p1 = sc_AddWithTTL (te_cache env) now (rp_ClientId params) info (sessionTTL params info) (pt_playMap p)"
    "ps_PositionMs info = rp_PositionMs params"
proof -
  obtain base where b: "mf_ID (ps_MediaFile base) = rp_MediaId params"
    "p1 = commitPlaying env now player user params base p"
  proof (cases "sc_Get (te_cache env) now (rp_ClientId params) (pt_playMap p)")
    case None
    with assms(3) obtain mf where "te_GetWithParticipants env (rp_MediaId params) = Inr mf"
      "p1 = commitPlaying env now player user params
         (new_session (now - rp_PositionMs params * millisecond) now user params mf) p"
      by (auto simp: reportPlaying_def split: sum.splits)
    with assms(2) show thesis
      by (intro that [of "new_session (now - rp_PositionMs params * millisecond) now user params mf"])
        (simp_all add: lookup_ok_def new_session_def)
  next
    case (Some info)
    show thesis
    proof (cases "mf_ID (ps_MediaFile info) = rp_MediaId params")
      case True
      with Some assms(3) show thesis by (intro that [of info]) (simp_all add: reportPlaying_def)
    next
      case False
      with Some assms(3) obtain mf where "te_GetWithParticipants env (rp_MediaId params) = Inr mf"
        "p1 = commitPlaying env now player user params
           (new_session (now - rp_PositionMs params * millisecond) now user params mf) p"
        by (auto simp: reportPlaying_def split: sum.splits)
      with assms(2) show thesis
        by (intro that [of "new_session (now - rp_PositionMs params * millisecond) now user params mf"])
          (simp_all add: lookup_ok_def new_session_def)
    qed
  qed
  show thesis
    by (rule that [of "updatedSession now params base"])
      (use b in \<open>simp_all add: updatedSession_def commitPlaying_def Let_def\<close>)
qed

lemma playing_report_session:
  assumes "cache_laws (te_cache env)" and "lookup_ok env"
    and "ReportPlayback env now player user params p = (p1, None)"
    and "rp_State params = StatePlaying" and "now \<le> t" and "t < now + 5 * second"
  obtains info where "sc_Get (te_cache env) t (rp_ClientId params) (pt_playMap p1) = Some info"
    "mf_ID (ps_MediaFile info) = rp_MediaId params" "ps_State info = StatePlaying"
proof -
  have r: "reportPlaying env now player user params p = (p1, None)"
    using assms(3,4) by (simp add: ReportPlayback_def)
  obtain info where i: "mf_ID (ps_MediaFile info) = rp_MediaId params" "ps_State info = rp_State params"
      "pt_playMap p1 = sc_AddWithTTL (te_cache env) now (rp_ClientId params) info (sessionTTL params info) (pt_playMap p)"
    using assms(1,2) r by (rule reportPlaying_session)
  have "5 * second \<le> sessionTTL params info"
    using assms(4) remainingTTL_min by (simp add: sessionTTL_def)
  with assms(5,6) have "sc_Get (te_cache env) t (rp_ClientId params) (pt_playMap p1) = Some info"
    by (simp add: i(3) cache_lawsD(1) [OF assms(1)])
  with i assms(4) that show thesis by auto
qed


subsection \<open>Plays\<close>

lemma stoppedPlay_plays:
  assumes "te_GetWithParticipants env (rp_MediaId params) = Inr mf"
  obtains m p' where "stoppedPlay env now player user params p = Inr (m, p')"
    "pt_plays p' = (if \<not> rp_IgnoreScrobble params \<and> pl_ScrobbleEnabled player \<and>
        scrobbleThreshold mf \<le> rp_PositionMs params then snd (incPlay (te_plays env) mf now (pt_plays p)) else pt_plays p)"
  using assms by (cases "stoppedPlay env now player user params p")
    (auto simp: stoppedPlay_def Let_def split: if_splits)

lemma reportStopped_plays:
  assumes "stoppedPlay env now player user params p = Inr (m, p')"
  shows "pt_plays (fst (reportStopped env now player user params p)) = pt_plays p'"
  using assms by (auto simp: reportStopped_def Let_def split: option.splits sum.splits)

text \<open>
  C33: when a play counts. A report changes the play counts only if it says that playback stopped, the
  client does not ask to ignore the play, scrobbling is enabled for the player, and the position
  reached is at least half the track or four minutes, whichever is less; then the play is counted
  exactly once.
\<close>

theorem play_counted_iff_threshold:
  assumes "te_GetWithParticipants env (rp_MediaId params) = Inr mf" and "0 \<le> mf_Duration mf"
  shows "pt_plays (fst (ReportPlayback env now player user params p)) =
      (if rp_State params = StateStopped \<and> \<not> rp_IgnoreScrobble params \<and> pl_ScrobbleEnabled player \<and>
          scrobbleThreshold mf \<le> rp_PositionMs params
       then snd (incPlay (te_plays env) mf now (pt_plays p)) else pt_plays p) \<and>
    scrobbleThreshold mf = min (\<lfloor>mf_Duration mf * 1000\<rfloor> div 2) 240000"
proof
  have "0 \<le> \<lfloor>mf_Duration mf * 1000\<rfloor>" using assms(2) by simp
  then show "scrobbleThreshold mf = min (\<lfloor>mf_Duration mf * 1000\<rfloor> div 2) 240000"
    using assms(2) by (simp add: scrobbleThreshold_def trunc_def go_div_nonneg)
  show "pt_plays (fst (ReportPlayback env now player user params p)) =
      (if rp_State params = StateStopped \<and> \<not> rp_IgnoreScrobble params \<and> pl_ScrobbleEnabled player \<and>
          scrobbleThreshold mf \<le> rp_PositionMs params
       then snd (incPlay (te_plays env) mf now (pt_plays p)) else pt_plays p)"
  proof (cases "rp_State params = StateStopped")
    case True
    obtain m p' where m: "stoppedPlay env now player user params p = Inr (m, p')"
      "pt_plays p' = (if \<not> rp_IgnoreScrobble params \<and> pl_ScrobbleEnabled player \<and>
        scrobbleThreshold mf \<le> rp_PositionMs params then snd (incPlay (te_plays env) mf now (pt_plays p)) else pt_plays p)"
      using assms(1) by (rule stoppedPlay_plays)
    with True reportStopped_plays [OF m(1)] show ?thesis by (simp add: ReportPlayback_def)
  next
    case False
    then show ?thesis
      by (auto simp: ReportPlayback_def reportStarting_def startingCommit_def reportPlaying_def
          commitPlaying_def Let_def split: option.splits sum.splits)
  qed
qed

lemma trunc_rest_bound: "r * 1000000 \<le> (of_int (max (trunc (r / 1000)) 0) + 5) * 1000000000"
proof (cases "r \<ge> 0")
  case True
  then have "trunc (r / 1000) = \<lfloor>r / 1000\<rfloor>" "0 \<le> \<lfloor>r / 1000\<rfloor>" by (simp_all add: trunc_def)
  moreover have "r / 1000 < of_int \<lfloor>r / 1000\<rfloor> + 1" by linarith
  ultimately show ?thesis by simp
next
  case False
  then have "r * 1000000 \<le> 0" by simp
  also have "0 \<le> (of_int (max (trunc (r / 1000)) 0) + 5) * (1000000000 :: rat)"
    by (intro mult_nonneg_nonneg add_nonneg_nonneg) simp_all
  finally show ?thesis .
qed

text \<open>
  a playing session stays alive as long as its track can still play: the time to live that a report
  gives it is at least five seconds and at least the rest of the track at the reported speed.
\<close>

theorem remainingTTL_covers_rest:
  assumes "0 < rate" and "0 \<le> duration"
  shows "5 * second \<le> remainingTTL duration positionMs rate \<and>
    (of_int (\<lfloor>duration * 1000\<rfloor> - positionMs) / rate) * of_int millisecond \<le> of_int (remainingTTL duration positionMs rate)"
proof
  show "5 * second \<le> remainingTTL duration positionMs rate" by (rule remainingTTL_min)
  define r where "r = of_int (\<lfloor>duration * 1000\<rfloor> - positionMs) / rate"
  have "trunc (duration * 1000) = \<lfloor>duration * 1000\<rfloor>" using assms(2) by (simp add: trunc_def)
  then have "remainingTTL duration positionMs rate = (max (trunc (r / 1000)) 0 + 5) * second"
    using assms(1) unfolding remainingTTL_def r_def Let_def by simp
  with trunc_rest_bound [of r]
  show "(of_int (\<lfloor>duration * 1000\<rfloor> - positionMs) / rate) * of_int millisecond \<le> of_int (remainingTTL duration positionMs rate)"
    unfolding r_def [symmetric] by (simp add: millisecond_def second_def)
qed

theorem remainingTTL_covers_rest_witness:
  "5 * second \<le> remainingTTL 180 30000 1 \<and> (150000 * 1000000 :: rat) \<le> of_int (remainingTTL 180 30000 1)"
  using remainingTTL_covers_rest [of 1 180 30000] by (simp add: millisecond_def)

text \<open>
  the list of what is playing. It has one entry for each session that has not expired, the most
  recently started first, and no position beyond the end of its track for a playing session.
\<close>

theorem GetNowPlaying_live:
  assumes "cache_laws (te_cache env)"
  shows "sorted (map (\<lambda>s. - ps_Start s) (GetNowPlaying env now p)) \<and>
    set (GetNowPlaying env now p) =
      estimatePosition now ` {s. \<exists>k. sc_Get (te_cache env) now k (pt_playMap p) = Some s} \<and>
    (\<forall>s \<in> set (GetNowPlaying env now p). ps_State s = StatePlaying \<longrightarrow>
      ps_PositionMs s \<le> trunc (mf_Duration (ps_MediaFile s) * 1000))"
proof -
  have st: "ps_Start (estimatePosition now s) = ps_Start s" for s
    by (simp add: estimatePosition_def Let_def)
  have "map (\<lambda>s. - ps_Start s) (GetNowPlaying env now p) =
      map (\<lambda>s. - ps_Start s) (sort_key (\<lambda>s. - ps_Start s) (sc_Values (te_cache env) now (pt_playMap p)))"
    by (simp add: GetNowPlaying_def st)
  then have "sorted (map (\<lambda>s. - ps_Start s) (GetNowPlaying env now p))"
    using sorted_sort_key by simp
  moreover have "set (GetNowPlaying env now p) =
      estimatePosition now ` {s. \<exists>k. sc_Get (te_cache env) now k (pt_playMap p) = Some s}"
    by (simp add: GetNowPlaying_def cache_lawsD(5) [OF assms])
  moreover have "ps_State (estimatePosition now s) = StatePlaying \<Longrightarrow>
      ps_PositionMs (estimatePosition now s) \<le> trunc (mf_Duration (ps_MediaFile (estimatePosition now s)) * 1000)" for s
    by (auto simp: estimatePosition_def Let_def split: if_splits)
  ultimately show ?thesis by auto
qed

subsection \<open>An example\<close>

text \<open>A cache as a list of entries with the time they expire.\<close>

definition example_cache :: "(string \<times> PlaybackSession \<times> Time) list session_cache" where
  "example_cache =
     \<lparr>sc_AddWithTTL = (\<lambda>now k v ttl c. (k, v, now + ttl) # filter (\<lambda>e. fst e \<noteq> k) c),
      sc_Get = (\<lambda>t k c. case map_of c k of Some (v, e) \<Rightarrow> if t < e then Some v else None | None \<Rightarrow> None),
      sc_Remove = (\<lambda>k c. filter (\<lambda>e. fst e \<noteq> k) c),
      sc_Values = (\<lambda>t c. map (\<lambda>e. fst (snd e))
         (filter (\<lambda>e. map_of c (fst e) = Some (snd e) \<and> t < snd (snd e)) c)),
      sc_Len = length\<rparr>"

lemma map_of_filter_other: "map_of (filter (\<lambda>e. fst e \<noteq> k) c) k' = (if k' = k then None else map_of c k')"
  by (induction c) auto

lemma example_cache_laws: "cache_laws example_cache"
  unfolding cache_laws_def
proof (intro conjI allI impI)
  fix t and c :: "(string \<times> PlaybackSession \<times> Time) list"
  show "set (sc_Values example_cache t c) = {v. \<exists>k. sc_Get example_cache t k c = Some v}"
  proof (intro set_eqI iffI)
    fix v assume "v \<in> set (sc_Values example_cache t c)"
    then obtain k x where "map_of c k = Some (v, x)" "t < x" by (auto simp: example_cache_def)
    then have "sc_Get example_cache t k c = Some v" by (simp add: example_cache_def)
    then show "v \<in> {v. \<exists>k. sc_Get example_cache t k c = Some v}" by blast
  next
    fix v assume "v \<in> {v. \<exists>k. sc_Get example_cache t k c = Some v}"
    then obtain k e where "map_of c k = Some (v, e)" "t < e"
      by (auto simp: example_cache_def split: option.splits if_splits)
    moreover then have "(k, v, e) \<in> set c" by (simp add: map_of_SomeD)
    ultimately show "v \<in> set (sc_Values example_cache t c)"
      by (force simp: example_cache_def)
  qed
qed (simp_all add: example_cache_def map_of_filter_other)

definition example_track :: "string \<Rightarrow> MediaFile" where
  "example_track i = empty_MediaFile\<lparr>mf_ID := i, mf_Duration := 180, mf_AlbumID := ''al'', mf_ArtistIDs := [''ar'']\<rparr>"

definition example_tracker_env :: "(string \<times> PlaybackSession \<times> Time) list tracker_env" where
  "example_tracker_env =
     \<lparr>te_cache = example_cache, te_GetWithParticipants = (\<lambda>i. Inr (example_track i)),
      te_plays = \<lparr>pe_fails = (\<lambda>_. False), pe_recordFails = (\<lambda>_. False), pe_EnableScrobbleHistory = True\<rparr>,
      te_PluginNames = None, te_IsAuthorized = (\<lambda>_ _. True), te_NewId = (\<lambda>n _. n), te_EnableNowPlaying = True\<rparr>"

definition example_tracker :: "(string \<times> PlaybackSession \<times> Time) list playTracker" where
  "example_tracker = \<lparr>pt_playMap = [], pt_builtinScrobblers = [''lastfm''], pt_pluginScrobblers = [],
     pt_npQueue = Map.empty, pt_prQueue = [], pt_plays = \<lparr>pd_annotations = Map.empty, pd_history = []\<rparr>,
     pt_buffer = [], pt_broadcasts = []\<rparr>"

definition example_report :: "string \<Rightarrow> string \<Rightarrow> int \<Rightarrow> ReportPlaybackParams" where
  "example_report st media pos = \<lparr>rp_MediaId = media, rp_PositionMs = pos, rp_State = st, rp_PlaybackRate = 1,
     rp_IgnoreScrobble = False, rp_ClientId = ''web'', rp_ClientName = ''browser''\<rparr>"

definition example_player :: Player where
  "example_player = \<lparr>pl_MaxBitRate = 0, pl_ScrobbleEnabled = True\<rparr>"

lemma example_tracker_laws: "cache_laws (te_cache example_tracker_env)" "lookup_ok example_tracker_env"
  by (simp_all add: example_tracker_env_def example_cache_laws lookup_ok_def example_track_def)

lemma example_playing:
  "\<exists>p1. ReportPlayback example_tracker_env 0 example_player example_user (example_report StatePlaying ''t1'' 1000)
     example_tracker = (p1, None)"
  by (simp add: ReportPlayback_def reportPlaying_def example_report_def example_tracker_env_def example_cache_def
      example_tracker_def state_defs)


theorem play_counted_iff_threshold_witness:
  "pt_plays (fst (ReportPlayback example_tracker_env 0 example_player example_user
      (example_report StateStopped ''t1'' 90000) example_tracker)) =
     snd (incPlay (te_plays example_tracker_env) (example_track ''t1'') 0 (pt_plays example_tracker)) \<and>
   pt_plays (fst (ReportPlayback example_tracker_env 0 example_player example_user
      (example_report StateStopped ''t1'' 89999) example_tracker)) = pt_plays example_tracker"
proof -
  have l: "te_GetWithParticipants example_tracker_env (rp_MediaId (example_report StateStopped ''t1'' n)) =
      Inr (example_track ''t1'')" for n
    by (simp add: example_tracker_env_def example_report_def)
  have d: "0 \<le> mf_Duration (example_track ''t1'')" "mf_Duration (example_track ''t1'') = 180"
    by (simp_all add: example_track_def)
  show ?thesis
    using play_counted_iff_threshold [OF l [of 90000] d(1), where now = 0 and player = example_player
        and user = example_user and p = example_tracker]
      play_counted_iff_threshold [OF l [of 89999] d(1), where now = 0 and player = example_player
        and user = example_user and p = example_tracker]
    by (simp add: example_report_def example_player_def d(2))
qed

theorem GetNowPlaying_live_witness:
  "\<exists>p1. ReportPlayback example_tracker_env 0 example_player example_user (example_report StatePlaying ''t1'' 1000)
      example_tracker = (p1, None) \<and> sorted (map (\<lambda>s. - ps_Start s) (GetNowPlaying example_tracker_env 0 p1)) \<and>
      (\<exists>s \<in> set (GetNowPlaying example_tracker_env 0 p1). mf_ID (ps_MediaFile s) = ''t1'')"
proof -
  let ?r = "example_report StatePlaying ''t1'' 1000"
  obtain p1 where p1: "ReportPlayback example_tracker_env 0 example_player example_user ?r example_tracker = (p1, None)"
    using example_playing by blast
  have h: "rp_State ?r = StatePlaying" "rp_MediaId ?r = ''t1''" by (simp_all add: example_report_def)
  obtain info where i: "sc_Get (te_cache example_tracker_env) 0 (rp_ClientId ?r) (pt_playMap p1) = Some info"
    "mf_ID (ps_MediaFile info) = ''t1''"
    using playing_report_session [OF example_tracker_laws p1 h(1), of 0] h(2) by (auto simp: second_def)
  note live = GetNowPlaying_live [OF example_tracker_laws(1), of 0 p1]
  have m: "estimatePosition 0 info \<in> set (GetNowPlaying example_tracker_env 0 p1)" using live i by blast
  have "mf_ID (ps_MediaFile (estimatePosition 0 info)) = ''t1''"
    using i(2) by (simp add: estimatePosition_def Let_def)
  with m live p1 show ?thesis by blast
qed

subsection \<open>Who receives a scrobble\<close>

lemma fold_add_names:
  "set (fold (\<lambda>n ss. if n \<in> set ss then ss else ss @ [n]) ns ss) = set ss \<union> set ns"
  by (induction ns arbitrary: ss) auto

text \<open>
  after a refresh the plugin scrobblers are exactly the scrobbler plugins the manager lists, the ones
  stopped are exactly those that were active and are not listed any more, and a second refresh
  changes nothing, when the manager lists each plugin once.
\<close>

theorem refreshPluginScrobblers_exact:
  assumes "distinct names" and "distinct scrobblers"
  defines "r \<equiv> refreshPluginScrobblers (Some names) scrobblers"
  shows "set (fst r) = set names \<and> set (snd r) = set scrobblers - set names \<and> distinct (fst r) \<and>
    refreshPluginScrobblers (Some names) (fst r) = (fst r, [])"
proof -
  let ?a = "fold (\<lambda>n ss. if n \<in> set ss then ss else ss @ [n]) names scrobblers"
  have d: "distinct ss \<Longrightarrow> distinct (fold (\<lambda>n ss. if n \<in> set ss then ss else ss @ [n]) ns ss)" for ns ss
    by (induction ns arbitrary: ss) auto
  have r: "set (fst r) = set names \<and> set (snd r) = set scrobblers - set names \<and> distinct (fst r)"
  proof (cases "pluginNamesMatchScrobblers names scrobblers")
    case True
    then have "set names \<subseteq> set scrobblers" "card (set names) = card (set scrobblers)"
      using assms(1,2) by (auto simp: pluginNamesMatchScrobblers_def list_all_iff distinct_card)
    then have "set names = set scrobblers" by (simp add: card_subset_eq)
    with True assms(2) show ?thesis by (simp add: r_def refreshPluginScrobblers_def)
  next
    case False
    then show ?thesis
      using d [OF assms(2), of names] fold_add_names [of names scrobblers]
      by (auto simp: r_def refreshPluginScrobblers_def Let_def)
  qed
  then have "length (fst r) = length names" using assms(1) by (metis distinct_card)
  with r have "pluginNamesMatchScrobblers names (fst r)"
    by (simp add: pluginNamesMatchScrobblers_def list_all_iff)
  with r show ?thesis by (simp add: refreshPluginScrobblers_def)
qed

theorem refreshPluginScrobblers_exact_witness:
  "set (fst (refreshPluginScrobblers (Some [''a'', ''b'']) [''b'', ''c''])) = {''a'', ''b''} \<and>
   set (snd (refreshPluginScrobblers (Some [''a'', ''b'']) [''b'', ''c''])) = {''c''}"
proof -
  have d: "distinct [''a'', ''b'']" "distinct [''b'', ''c'']" by simp_all
  have "set [''b'', ''c''] - set [''a'', ''b''] = {''c''}" by auto
  with refreshPluginScrobblers_exact [OF d] show ?thesis by simp
qed

lemma Scrobble_buffered_cases:
  assumes "buffer_inv buf" and "newId \<notin> se_ID ` set buf"
  shows "case Scrobble_buffered newId now s u mf t buf of
      Inl _ \<Rightarrow> \<exists>e \<in> set buf. se_Service e = s \<and> se_UserID e = u \<and> se_MediaFileID e = mf_ID mf \<and> se_PlayTime e = t
    | Inr buf' \<Rightarrow> buffer_inv buf' \<and> (\<exists>e. buf' = buf @ [e] \<and> se_Service e = s \<and> se_UserID e = u \<and>
        se_MediaFileID e = mf_ID mf \<and> se_PlayTime e = t)"
  using assms by (auto simp: Scrobble_buffered_def Enqueue_def list_ex_iff buffer_inv_def)

definition scrobbled :: "string \<Rightarrow> string \<Rightarrow> MediaFile \<Rightarrow> Time \<Rightarrow> ScrobbleEntry \<Rightarrow> bool" where
  "scrobbled service userId mf t e \<longleftrightarrow>
     se_Service e = service \<and> se_UserID e = userId \<and> se_MediaFileID e = mf_ID mf \<and> se_PlayTime e = t"

lemma scrobbleAll_spec:
  assumes "buffer_inv buf" and "\<And>n b. te_NewId env n b \<notin> se_ID ` set b"
  shows "\<exists>new. scrobbleAll env now u mf t names buf = buf @ new \<and> buffer_inv (buf @ new) \<and>
    (\<forall>e \<in> set new. \<exists>n \<in> set names. te_IsAuthorized env n u \<and> scrobbled n u mf t e) \<and>
    (\<forall>n \<in> set names. te_IsAuthorized env n u \<longrightarrow> (\<exists>e \<in> set (buf @ new). scrobbled n u mf t e))"
  using assms(1)
proof (induction names arbitrary: buf)
  case Nil
  then show ?case by (intro exI [of _ "[]"]) simp
next
  case (Cons n names)
  consider (skip) "\<not> te_IsAuthorized env n u"
    | (dup) "te_IsAuthorized env n u" "\<exists>e \<in> set buf. scrobbled n u mf t e"
        "scrobbleAll env now u mf t (n # names) buf = scrobbleAll env now u mf t names buf"
    | (new) e where "te_IsAuthorized env n u" "scrobbled n u mf t e" "buffer_inv (buf @ [e])"
        "scrobbleAll env now u mf t (n # names) buf = scrobbleAll env now u mf t names (buf @ [e])"
    using Scrobble_buffered_cases [OF Cons.prems assms(2) [of n buf], where now = now and s = n and u = u and mf = mf and t = t]
    unfolding scrobbled_def
    by (cases "te_IsAuthorized env n u";
        cases "Scrobble_buffered (te_NewId env n buf) now n u mf t buf") (auto simp: scrobbled_def)
  then show ?case
  proof cases
    case skip
    with Cons.IH [OF Cons.prems] show ?thesis by auto
  next
    case dup
    with Cons.IH [OF Cons.prems] show ?thesis by auto
  next
    case (new e)
    obtain tl where "scrobbleAll env now u mf t names (buf @ [e]) = (buf @ [e]) @ tl"
      "buffer_inv ((buf @ [e]) @ tl)"
      "\<forall>x \<in> set tl. \<exists>m \<in> set names. te_IsAuthorized env m u \<and> scrobbled m u mf t x"
      "\<forall>m \<in> set names. te_IsAuthorized env m u \<longrightarrow> (\<exists>x \<in> set ((buf @ [e]) @ tl). scrobbled m u mf t x)"
      using Cons.IH [OF new(3)] by blast
    with new show ?thesis by (intro exI [of _ "e # tl"]) auto
  qed
qed

text \<open>
  a play goes to every scrobbler that should have it and to no other. Dispatching a scrobble stores
  an entry for each active scrobbler, builtin or plugin, that the user is authorised with; the
  entries it adds are all for that user, track and play time and for such scrobblers; everything
  already in the buffer stays. A track of an unknown artist is not scrobbled.
\<close>

theorem dispatchScrobble_authorised:
  fixes env :: "'c tracker_env" and p :: "'c playTracker" and now t :: Time and user :: User and mf :: MediaFile
  assumes "buffer_inv (pt_buffer p)" and "\<And>n b. te_NewId env n b \<notin> se_ID ` set b"
  defines "p' \<equiv> dispatchScrobble env now user mf t p"
    and "active \<equiv> {n \<in> set (fst (getActiveScrobblers env p)). te_IsAuthorized env n (usr_ID user)}"
  shows "buffer_inv (pt_buffer p') \<and>
    (if mf_Artist mf = UnknownArtist then p' = p
     else \<exists>new. pt_buffer p' = pt_buffer p @ new \<and>
       (\<forall>e \<in> set new. \<exists>n \<in> active. scrobbled n (usr_ID user) mf t e) \<and>
       (\<forall>n \<in> active. \<exists>e \<in> set (pt_buffer p'). scrobbled n (usr_ID user) mf t e))"
proof (cases "mf_Artist mf = UnknownArtist")
  case True
  with assms(1) show ?thesis by (simp add: p'_def dispatchScrobble_def)
next
  case False
  have b: "pt_buffer p' = scrobbleAll env now (usr_ID user) mf t (fst (getActiveScrobblers env p)) (pt_buffer p)"
    using False by (simp add: p'_def dispatchScrobble_def getActiveScrobblers_def Let_def)
  obtain new where n: "pt_buffer p' = pt_buffer p @ new" "buffer_inv (pt_buffer p')"
    "\<forall>e \<in> set new. \<exists>n \<in> active. scrobbled n (usr_ID user) mf t e"
    "\<forall>n \<in> active. \<exists>e \<in> set (pt_buffer p'). scrobbled n (usr_ID user) mf t e"
    using scrobbleAll_spec [OF assms(1,2), where now = now and u = "usr_ID user" and mf = mf and t = t
      and names = "fst (getActiveScrobblers env p)"] unfolding b active_def by fastforce
  with False show ?thesis by auto
qed

theorem dispatchScrobble_authorised_witness:
  "\<exists>e \<in> set (pt_buffer (dispatchScrobble (example_tracker_env\<lparr>te_NewId := \<lambda>n b. concat (map se_ID b) @ ''x''\<rparr>)
      0 example_user (example_track ''t1'') 7 example_tracker)). scrobbled ''lastfm'' ''u1'' (example_track ''t1'') 7 e"
proof -
  let ?env = "example_tracker_env\<lparr>te_NewId := \<lambda>n b. concat (map se_ID b) @ ''x''\<rparr>"
  have i: "buffer_inv (pt_buffer example_tracker)" by (simp add: buffer_inv_def example_tracker_def)
  have f: "te_NewId ?env n b \<notin> se_ID ` set b" for n b
  proof
    assume "te_NewId ?env n b \<in> se_ID ` set b"
    then obtain e where e: "e \<in> set b" "se_ID e = concat (map se_ID b) @ ''x''" by auto
    have "length (se_ID e) \<le> length (concat (map se_ID b))"
      using e(1) by (induction b) auto
    with e(2) show False by simp
  qed
  have a: "mf_Artist (example_track ''t1'') \<noteq> UnknownArtist"
    by (simp add: example_track_def empty_MediaFile_def UnknownArtist_def)
  have "''lastfm'' \<in> {n \<in> set (fst (getActiveScrobblers ?env example_tracker)). te_IsAuthorized ?env n (usr_ID example_user)}"
    by (simp add: getActiveScrobblers_def example_tracker_def example_tracker_env_def Let_def)
  moreover have "usr_ID example_user = ''u1''" by (simp add: example_user_def)
  ultimately show ?thesis
    using dispatchScrobble_authorised [OF i f, where now = 0 and user = example_user and mf = "example_track ''t1''" and t = 7] a
    by auto
qed

end
