(* ===== verification/Throttle.thy ===== *)
theory Throttle
  imports Slots
begin

text \<open>
  \<open>server/throttle_backlog.go\<close>: the middleware that limits how many requests are handled at once and
  how many may wait. The two channels hold the free tokens; each is the number of values in it. A
  request is a thread; what its \<open>select\<close> statements may choose besides a token (the request's context
  is done, the timer fires) is the argument \<open>event\<close> of its step. The accounting is an
  interpretation of \<open>slot_system\<close>. With a limit of zero or less the middleware is the identity; limits
  are natural numbers here, a negative backlog is not covered.
\<close>

record throttle_config =
  tc_limit :: nat
  tc_backlogLimit :: nat

record requestThrottle =
  th_tokens :: nat
  th_backlogTokens :: nat

definition new_throttle :: "throttle_config \<Rightarrow> requestThrottle" where
  "new_throttle cfg = \<lparr>th_tokens = tc_limit cfg, th_backlogTokens = tc_limit cfg + tc_backlogLimit cfg\<rparr>"

datatype event = Proceed | CtxDone | TimerFired

datatype throttle_error = ErrThrottleCapacityExceeded | ErrThrottleTimeout | CtxErr

datatype request_pc =
    Arriving | Admitted | Waiting | is_GivingUp: GivingUp throttle_error | is_Refused: Refused throttle_error
  | Serving | ReturningToken | ReturningBacklog | Served

text \<open>The atomic actions of \<open>acquire\<close>, of the handler and of the release function; \<^const>\<open>None\<close> is a
  request that is finished or blocked on a channel.\<close>

definition throttle_step ::
  "throttle_config \<Rightarrow> event \<Rightarrow> request_pc \<Rightarrow> requestThrottle \<Rightarrow> (request_pc \<times> requestThrottle) option" where
  "throttle_step cfg ev pc t =
     (case pc of
        Arriving \<Rightarrow>
          if ev = CtxDone then Some (Refused CtxErr, t)
          else if th_backlogTokens t > 0
          then Some (Admitted, t\<lparr>th_backlogTokens := th_backlogTokens t - 1\<rparr>)
          else Some (Refused ErrThrottleCapacityExceeded, t)
      | Admitted \<Rightarrow>
          if th_tokens t > 0 then Some (Serving, t\<lparr>th_tokens := th_tokens t - 1\<rparr>) else Some (Waiting, t)
      | Waiting \<Rightarrow>
          if ev = Proceed then
            if th_tokens t > 0 then Some (Serving, t\<lparr>th_tokens := th_tokens t - 1\<rparr>) else None
          else Some (GivingUp (if ev = TimerFired then ErrThrottleTimeout else CtxErr), t)
      | GivingUp err \<Rightarrow>
          if th_backlogTokens t < tc_limit cfg + tc_backlogLimit cfg
          then Some (Refused err, t\<lparr>th_backlogTokens := th_backlogTokens t + 1\<rparr>) else None
      | Refused err \<Rightarrow> None
      | Serving \<Rightarrow> Some (ReturningToken, t)
      | ReturningToken \<Rightarrow>
          if th_tokens t < tc_limit cfg
          then Some (ReturningBacklog, t\<lparr>th_tokens := th_tokens t + 1\<rparr>) else None
      | ReturningBacklog \<Rightarrow>
          if th_backlogTokens t < tc_limit cfg + tc_backlogLimit cfg
          then Some (Served, t\<lparr>th_backlogTokens := th_backlogTokens t + 1\<rparr>) else None
      | Served \<Rightarrow> None)"

inductive throttle_system ::
  "throttle_config \<Rightarrow> requestThrottle \<times> request_pc list \<Rightarrow> requestThrottle \<times> request_pc list \<Rightarrow> bool"
  for cfg where
  arrive: "throttle_system cfg (t, pcs) (t, pcs @ [Arriving])"
| act: "i < length pcs \<Longrightarrow> throttle_step cfg ev (pcs ! i) t = Some (pc', t') \<Longrightarrow>
    throttle_system cfg (t, pcs) (t', pcs[i := pc'])"

inductive throttle_reachable :: "throttle_config \<Rightarrow> requestThrottle \<times> request_pc list \<Rightarrow> bool" for cfg where
  init: "throttle_reachable cfg (new_throttle cfg, [])"
| step: "throttle_reachable cfg s \<Longrightarrow> throttle_system cfg s s' \<Longrightarrow> throttle_reachable cfg s'"

inductive_cases throttle_systemE: "throttle_system cfg (t, pcs) s'"

subsection \<open>Accounting\<close>

datatype token_kind = ServeToken | BacklogToken

fun holds_token :: "token_kind \<Rightarrow> request_pc \<Rightarrow> bool" where
  "holds_token ServeToken Serving = True"
| "holds_token ServeToken ReturningToken = True"
| "holds_token ServeToken _ = False"
| "holds_token BacklogToken Arriving = False"
| "holds_token BacklogToken (Refused _) = False"
| "holds_token BacklogToken Served = False"
| "holds_token BacklogToken _ = True"

definition taken :: "throttle_config \<Rightarrow> requestThrottle \<Rightarrow> token_kind \<Rightarrow> nat" where
  "taken cfg t k =
     (case k of
        ServeToken \<Rightarrow> tc_limit cfg - th_tokens t
      | BacklogToken \<Rightarrow> tc_limit cfg + tc_backlogLimit cfg - th_backlogTokens t)"

definition throttle_inv :: "throttle_config \<Rightarrow> requestThrottle \<Rightarrow> bool" where
  "throttle_inv cfg t \<longleftrightarrow> th_tokens t \<le> tc_limit cfg \<and>
     th_backlogTokens t \<le> tc_limit cfg + tc_backlogLimit cfg"

declare throttle_inv_def [inv_defs]

lemma throttle_step_inv:
  "throttle_step cfg ev pc t = Some (pc', t') \<Longrightarrow> throttle_inv cfg t \<Longrightarrow> throttle_inv cfg t'"
  by (cases pc) (auto simp: throttle_step_def throttle_inv_def split: if_splits)

lemma throttle_step_tokens:
  "case throttle_step cfg ev pc t of
     None \<Rightarrow> True
   | Some (pc', t') \<Rightarrow>
       th_tokens t' + of_bool (holds_token ServeToken pc') = th_tokens t + of_bool (holds_token ServeToken pc) \<and>
       th_backlogTokens t' + of_bool (holds_token BacklogToken pc') =
         th_backlogTokens t + of_bool (holds_token BacklogToken pc)"
  by (cases pc) (simp_all add: throttle_step_def)

lemma free_taken_balance:
  "a \<le> L \<Longrightarrow> a' \<le> L \<Longrightarrow> a' + y = a + x \<Longrightarrow> (L - a') + x = (L - a) + (y :: nat)"
  by arith

lemma throttle_step_taken:
  assumes "throttle_step cfg ev pc t = Some (pc', t')" and "throttle_inv cfg t"
  shows "taken cfg t' k + of_bool (holds_token k pc) = taken cfg t k + of_bool (holds_token k pc')"
proof -
  note inv = assms(2) throttle_step_inv [OF assms]
  note balance = throttle_step_tokens [where cfg = cfg and ev = ev and pc = pc and t = t, unfolded assms(1), simplified]
  show ?thesis
  proof (cases k)
    case ServeToken
    with inv balance show ?thesis
      by (simp only: throttle_inv_def taken_def token_kind.case) (blast intro: free_taken_balance)
  next
    case BacklogToken
    with inv balance show ?thesis
      by (simp only: throttle_inv_def taken_def token_kind.case) (blast intro: free_taken_balance)
  qed
qed

interpretation thr: slot_system "throttle_step cfg ev" "throttle_inv cfg" "taken cfg" holds_token for cfg ev
  by unfold_locales (blast intro: throttle_step_inv, rule throttle_step_taken)

lemma throttle_accounted:
  "throttle_reachable cfg s \<Longrightarrow> thr.accounted cfg (fst s) (snd s)"
proof (induction rule: throttle_reachable.induct)
  case init
  show ?case
    unfolding thr.accounted_def
    by (auto simp: throttle_inv_def new_throttle_def taken_def split: token_kind.splits)
next
  case (step s s')
  obtain t pcs where s: "s = (t, pcs)" by fastforce
  with step.IH have a: "thr.accounted cfg t pcs" by simp
  have new: "\<not> holds_token k Arriving" for k by (cases k) simp_all
  from step.hyps(2) [unfolded s] show ?case
    by (cases rule: throttle_systemE) (use a thr.accounted_step thr.accounted_spawn [OF a new] in auto)
qed

text \<open>
  C34: however requests arrive, wait, time out and finish, at most the limit of them are handled at the
  same time and at most the limit and the backlog together are inside; no request blocks while it
  gives its tokens back; and when every request is finished all tokens are back.
\<close>

theorem throttle_safe:
  assumes "throttle_reachable cfg (t, pcs)"
  shows "count_if (\<lambda>pc. pc = Serving) pcs \<le> tc_limit cfg \<and>
    count_if (holds_token BacklogToken) pcs \<le> tc_limit cfg + tc_backlogLimit cfg \<and>
    (\<forall>i < length pcs. is_GivingUp (pcs ! i) \<or> pcs ! i \<in> {Serving, ReturningToken, ReturningBacklog} \<longrightarrow>
      throttle_step cfg Proceed (pcs ! i) t \<noteq> None) \<and>
    ((\<forall>pc \<in> set pcs. is_Refused pc \<or> pc = Served) \<longrightarrow> t = new_throttle cfg)"
proof (intro conjI allI impI)
  note a = throttle_accounted [OF assms, simplified]
  then have inv: "throttle_inv cfg t" and c: "taken cfg t k = count_if (holds_token k) pcs" for k
    by (simp_all add: thr.accounted_def)
  have "count_if (\<lambda>pc. pc = Serving) pcs \<le> count_if (holds_token ServeToken) pcs"
    by (rule count_if_mono) simp
  also have "\<dots> \<le> tc_limit cfg" using c [of ServeToken] by (simp add: taken_def flip: c)
  finally show "count_if (\<lambda>pc. pc = Serving) pcs \<le> tc_limit cfg" .
  show "count_if (holds_token BacklogToken) pcs \<le> tc_limit cfg + tc_backlogLimit cfg"
    by (simp add: taken_def flip: c)
  show "throttle_step cfg Proceed (pcs ! i) t \<noteq> None"
    if "i < length pcs" "is_GivingUp (pcs ! i) \<or> pcs ! i \<in> {Serving, ReturningToken, ReturningBacklog}" for i
    using that thr.accounted_holds [OF a that(1), of ServeToken] thr.accounted_holds [OF a that(1), of BacklogToken]
    by (cases "pcs ! i"; simp add: throttle_step_def taken_def)
  assume "\<forall>pc \<in> set pcs. is_Refused pc \<or> pc = Served"
  then have "\<not> holds_token k pc" if "pc \<in> set pcs" for k pc
    using that by (cases k; cases pc) fastforce+
  then have z: "taken cfg t k = 0" for k using thr.accounted_idle [OF a] by blast
  show "t = new_throttle cfg"
    using z [of ServeToken] z [of BacklogToken] inv
    by (cases t) (simp add: taken_def new_throttle_def throttle_inv_def)
qed

subsection \<open>The buffered response\<close>

text \<open>The handler writes to a buffer while its request holds the tokens; afterwards the buffer is flushed
  to the client. The client's writer is the one of the standard library: the status and the header
  are fixed by the first \<open>WriteHeader\<close> or \<open>Write\<close>, the latter with status 200.\<close>

type_synonym http_header = "string \<rightharpoonup> string list"

record bufferedResponseWriter =
  bw_header :: http_header
  bw_body :: string
  bw_code :: int

definition new_buffer :: bufferedResponseWriter where
  "new_buffer = \<lparr>bw_header = Map.empty, bw_body = [], bw_code = 0\<rparr>"

definition buf_Write :: "string \<Rightarrow> bufferedResponseWriter \<Rightarrow> bufferedResponseWriter" where
  "buf_Write b w = w\<lparr>bw_body := bw_body w @ b\<rparr>"

definition buf_WriteHeader :: "int \<Rightarrow> bufferedResponseWriter \<Rightarrow> bufferedResponseWriter" where
  "buf_WriteHeader code w = (if bw_code w \<noteq> 0 then w else w\<lparr>bw_code := code\<rparr>)"

record response =
  rs_header :: http_header
  rs_sent :: "(int \<times> http_header) option"
  rs_body :: string

definition rw_WriteHeader :: "int \<Rightarrow> response \<Rightarrow> response" where
  "rw_WriteHeader code r = (if rs_sent r = None then r\<lparr>rs_sent := Some (code, rs_header r)\<rparr> else r)"

definition rw_Write :: "string \<Rightarrow> response \<Rightarrow> response" where
  "rw_Write b r = (let r' = rw_WriteHeader 200 r in r'\<lparr>rs_body := rs_body r' @ b\<rparr>)"

definition http_Error :: "string \<Rightarrow> int \<Rightarrow> response \<Rightarrow> response" where
  "http_Error msg code r =
     rw_Write (msg @ [CHR 0x0A]) (rw_WriteHeader code
       (r\<lparr>rs_header := (rs_header r)(''Content-Length'' := None,
          ''Content-Type'' \<mapsto> [''text/plain; charset=utf-8''], ''X-Content-Type-Options'' \<mapsto> [''nosniff''])\<rparr>))"

text \<open>What \<open>handler\<close> answers: a request that was refused gets the status 429, one that was served the
  contents of the buffer.\<close>

definition handler_response :: "request_pc \<Rightarrow> bufferedResponseWriter \<Rightarrow> response \<Rightarrow> response option" where
  "handler_response pc buf w =
     (case pc of
        Refused err \<Rightarrow> Some (http_Error ''Too Many Requests'' 429 w)
      | Served \<Rightarrow>
          let w1 = w\<lparr>rs_header := rs_header w ++ bw_header buf\<rparr>;
              w2 = if bw_code buf > 0 then rw_WriteHeader (bw_code buf) w1 else w1
          in Some (rw_Write (bw_body buf) w2)
      | _ \<Rightarrow> None)"

datatype write_op = SetHeader string "string list" | WriteHeader int | Write string

fun buf_op :: "write_op \<Rightarrow> bufferedResponseWriter \<Rightarrow> bufferedResponseWriter" where
  "buf_op (SetHeader k v) w = w\<lparr>bw_header := (bw_header w)(k \<mapsto> v)\<rparr>"
| "buf_op (WriteHeader c) w = buf_WriteHeader c w"
| "buf_op (Write b) w = buf_Write b w"

fun rw_op :: "write_op \<Rightarrow> response \<Rightarrow> response" where
  "rw_op (SetHeader k v) r = r\<lparr>rs_header := (rs_header r)(k \<mapsto> v)\<rparr>"
| "rw_op (WriteHeader c) r = rw_WriteHeader c r"
| "rw_op (Write b) r = rw_Write b r"

lemma fold_buf_set:
  "fold (\<lambda>(k, v). buf_op (SetHeader k v)) hs w = w\<lparr>bw_header := bw_header w ++ map_of (rev hs)\<rparr>"
  by (induction hs arbitrary: w) (auto simp: map_add_assoc [symmetric])

lemma fold_rw_set:
  "fold (\<lambda>(k, v). rw_op (SetHeader k v)) hs r = r\<lparr>rs_header := rs_header r ++ map_of (rev hs)\<rparr>"
  by (induction hs arbitrary: r) (auto simp: map_add_assoc [symmetric])

lemma fold_buf_write: "fold (\<lambda>b. buf_op (Write b)) bs w = w\<lparr>bw_body := bw_body w @ concat bs\<rparr>"
  by (induction bs arbitrary: w) (auto simp: buf_Write_def)

lemma fold_rw_write:
  "rs_sent r = Some x \<Longrightarrow> fold (\<lambda>b. rw_op (Write b)) bs r = r\<lparr>rs_body := rs_body r @ concat bs\<rparr>"
  by (induction bs arbitrary: r) (auto simp: rw_Write_def rw_WriteHeader_def Let_def)

text \<open>A handler that sets its header, then the status, then writes, gives the client the same answer
  through the buffer as without it.\<close>

lemma buffered_same:
  fixes bs :: "string list" and hs :: "(string \<times> string list) list"
  assumes "code > 0" and "rs_sent w = None"
  defines "buf \<equiv> fold (\<lambda>b. buf_op (Write b)) bs (buf_op (WriteHeader code)
      (fold (\<lambda>(k, v). buf_op (SetHeader k v)) hs new_buffer))"
    and "direct \<equiv> fold (\<lambda>b. rw_op (Write b)) bs (rw_op (WriteHeader code)
      (fold (\<lambda>(k, v). rw_op (SetHeader k v)) hs w))"
  shows "handler_response Served buf w = Some direct"
proof -
  let ?w = "w\<lparr>rs_header := rs_header w ++ map_of (rev hs)\<rparr>"
  let ?w1 = "rw_WriteHeader code ?w"
  have s: "rs_sent ?w1 = Some (code, rs_header ?w)" using assms(2) by (simp add: rw_WriteHeader_def)
  have "direct = ?w1\<lparr>rs_body := rs_body ?w1 @ concat bs\<rparr>"
    using fold_rw_write [OF s, of bs] by (simp add: direct_def fold_rw_set)
  moreover have "buf = \<lparr>bw_header = map_of (rev hs), bw_body = concat bs, bw_code = code\<rparr>"
    by (simp add: buf_def fold_buf_set fold_buf_write buf_WriteHeader_def new_buffer_def)
  ultimately show ?thesis using assms(1,2)
    by (simp add: handler_response_def rw_Write_def rw_WriteHeader_def Let_def)
qed

subsection \<open>Example\<close>

lemma example_throttle_reachable:
  "throttle_reachable \<lparr>tc_limit = 1, tc_backlogLimit = 1\<rparr> (\<lparr>th_tokens = 0, th_backlogTokens = 1\<rparr>, [Serving])"
proof -
  let ?c = "\<lparr>tc_limit = 1, tc_backlogLimit = 1\<rparr>"
  have "throttle_reachable ?c (new_throttle ?c, [] @ [Arriving])"
    by (rule throttle_reachable.step [OF throttle_reachable.init throttle_system.arrive])
  moreover have "throttle_system ?c (new_throttle ?c, [Arriving])
      (\<lparr>th_tokens = 1, th_backlogTokens = 1\<rparr>, [Arriving][0 := Admitted])"
    by (rule throttle_system.act [where ev = Proceed]) (simp_all add: throttle_step_def new_throttle_def)
  moreover have "throttle_system ?c (\<lparr>th_tokens = 1, th_backlogTokens = 1\<rparr>, [Admitted])
      (\<lparr>th_tokens = 0, th_backlogTokens = 1\<rparr>, [Admitted][0 := Serving])"
    by (rule throttle_system.act [where ev = Proceed]) (simp_all add: throttle_step_def)
  ultimately show ?thesis by (auto intro: throttle_reachable.step)
qed

theorem throttle_safe_witness:
  "throttle_step \<lparr>tc_limit = 1, tc_backlogLimit = 1\<rparr> Proceed Serving \<lparr>th_tokens = 0, th_backlogTokens = 1\<rparr> \<noteq> None \<and>
   count_if (\<lambda>pc. pc = Serving) [Serving] \<le> 1"
  using throttle_safe [OF example_throttle_reachable] by simp

end
