(* ===== verification/Breaker.thy ===== *)
theory Breaker
  imports Prelude
begin

text \<open>
  \<open>core/artwork/gate.go\<close>: the circuit breaker in front of an external agent. The clock is an argument,
  and the outcome of a call is whether it counts as a fault. The rate limiter, a library object, is
  a parameter of the gate: whether waiting for it succeeded.
\<close>

definition breakerThreshold :: int where "breakerThreshold = 5"
definition breakerProbeAfter :: Duration where "breakerProbeAfter = 60 * second"

datatype agent_error = NotFound | Fault string

definition isTransientExternal :: "agent_error option \<Rightarrow> bool" where
  "isTransientExternal err \<longleftrightarrow> (case err of Some (Fault _) \<Rightarrow> True | _ \<Rightarrow> False)"

record breaker =
  br_failures :: int
  br_openedAt :: Time

definition newBreaker :: breaker where
  "newBreaker = \<lparr>br_failures = 0, br_openedAt = zero_time\<rparr>"

definition allow :: "Time \<Rightarrow> breaker \<Rightarrow> bool \<times> breaker" where
  "allow now b =
     (if br_failures b < breakerThreshold then (True, b)
      else if now - br_openedAt b \<ge> breakerProbeAfter then (True, b\<lparr>br_openedAt := now\<rparr>)
      else (False, b))"

definition record_result :: "Time \<Rightarrow> agent_error option \<Rightarrow> breaker \<Rightarrow> breaker" where
  "record_result now err b =
     (if \<not> isTransientExternal err then b\<lparr>br_failures := 0\<rparr>
      else
        let b1 = b\<lparr>br_failures := br_failures b + 1\<rparr>
        in if br_failures b1 = breakerThreshold then b1\<lparr>br_openedAt := now\<rparr> else b1)"

text \<open>One breaker per agent name, created on the first use of the name.\<close>

type_synonym gates = "string \<rightharpoonup> breaker"

definition gateFor :: "string \<Rightarrow> gates \<Rightarrow> breaker \<times> gates" where
  "gateFor name gs = (case gs name of Some g \<Rightarrow> (g, gs) | None \<Rightarrow> (newBreaker, gs(name \<mapsto> newBreaker)))"

datatype gate_result = BreakerOpen | LimiterError | Called "agent_error option"

definition gate :: "string \<Rightarrow> Time \<Rightarrow> Time \<Rightarrow> bool \<Rightarrow> agent_error option \<Rightarrow> gates \<Rightarrow> gate_result \<times> gates" where
  "gate name now done limiterOk err gs =
     (let (b, gs1) = gateFor name gs;
          (ok, b1) = allow now b;
          gs2 = gs1(name \<mapsto> b1)
      in if \<not> ok then (BreakerOpen, gs2)
         else if \<not> limiterOk then (LimiterError, gs2)
         else (Called err, gs2(name \<mapsto> record_result done err b1)))"

lemma gate_other: "other \<noteq> name \<Longrightarrow> snd (gate name now don ok err gs) other = gs other"
  by (simp add: gate_def gateFor_def Let_def case_prod_beta split: option.splits)

text \<open>A history of calls of any agents: the agent, when the call was made, when it was done, its
  outcome. The result tells which calls were let through.\<close>

fun run_gates :: "(string \<times> Time \<times> Time \<times> agent_error option) list \<Rightarrow> gates \<Rightarrow> (string \<times> Time \<times> bool) list \<times> gates" where
  "run_gates [] gs = ([], gs)"
| "run_gates ((name, now, done, err) # cs) gs =
     (let (r, gs1) = gate name now done True err gs; (rs, gs2) = run_gates cs gs1
      in ((name, now, r \<noteq> BreakerOpen) # rs, gs2))"

text \<open>The same history for one breaker.\<close>

definition call_breaker :: "Time \<Rightarrow> Time \<Rightarrow> agent_error option \<Rightarrow> breaker \<Rightarrow> bool \<times> breaker" where
  "call_breaker now done err b =
     (let (ok, b1) = allow now b in (ok, if ok then record_result done err b1 else b1))"

fun run_calls :: "(Time \<times> Time \<times> agent_error option) list \<Rightarrow> breaker \<Rightarrow> bool list \<times> breaker" where
  "run_calls [] b = ([], b)"
| "run_calls ((now, done, err) # cs) b =
     (let (ok, b1) = call_breaker now done err b; (rs, b2) = run_calls cs b1 in (ok # rs, b2))"

definition breaker_of :: "string \<Rightarrow> gates \<Rightarrow> breaker" where
  "breaker_of name gs = (case gs name of Some b \<Rightarrow> b | None \<Rightarrow> newBreaker)"

lemma gate_breaker:
  "(fst (gate name now don True err gs) \<noteq> BreakerOpen) = fst (call_breaker now don err (breaker_of name gs)) \<and>
   breaker_of name (snd (gate name now don True err gs)) = snd (call_breaker now don err (breaker_of name gs))"
  by (simp add: gate_def gateFor_def call_breaker_def breaker_of_def Let_def case_prod_beta split: option.splits)

text \<open>Agents are isolated: what an agent's gate does in a history of calls of all agents is what it does
  in the history of its own calls.\<close>

lemma run_gates_isolated:
  fixes cs :: "(string \<times> Time \<times> Time \<times> agent_error option) list" and name :: string
  defines "own \<equiv> map snd (filter (\<lambda>c. fst c = name) cs)"
  shows "map (snd \<circ> snd) (filter (\<lambda>r. fst r = name) (fst (run_gates cs gs))) = fst (run_calls own (breaker_of name gs)) \<and>
    breaker_of name (snd (run_gates cs gs)) = snd (run_calls own (breaker_of name gs))"
  unfolding own_def
proof (induction cs arbitrary: gs)
  case (Cons c cs)
  obtain n now don err where c: "c = (n, now, don, err)" by (metis prod.exhaust)
  show ?case
  proof (cases "n = name")
    case True
    with Cons.IH [of "snd (gate name now don True err gs)"] gate_breaker [of name now don err gs] c show ?thesis
      by (simp add: Let_def case_prod_beta)
  next
    case False
    then have "breaker_of name (snd (gate n now don True err gs)) = breaker_of name gs"
      by (simp add: breaker_of_def gate_other)
    with Cons.IH [of "snd (gate n now don True err gs)"] False c show ?thesis
      by (simp add: Let_def case_prod_beta)
  qed
qed simp

definition is_open :: "breaker \<Rightarrow> bool" where
  "is_open b \<longleftrightarrow> br_failures b \<ge> breakerThreshold"

lemma record_open:
  "isTransientExternal err \<Longrightarrow> is_open b \<Longrightarrow> br_openedAt (record_result now err b) = br_openedAt b \<and>
    is_open (record_result now err b)"
  by (auto simp: record_result_def is_open_def Let_def)

text \<open>Calls of an open breaker that all fail: at most one passes in each window.\<close>

fun probes_apart :: "Time \<Rightarrow> (Time \<times> bool) list \<Rightarrow> bool" where
  "probes_apart since [] = True"
| "probes_apart since ((t, passed) # ps) =
     (if passed then t - since \<ge> breakerProbeAfter \<and> probes_apart t ps
      else t - since < breakerProbeAfter \<and> probes_apart since ps)"

lemma run_calls_open:
  assumes "is_open b" and "list_all (\<lambda>(now, done, err). isTransientExternal err) cs"
  shows "probes_apart (br_openedAt b) (zip (map fst cs) (fst (run_calls cs b))) \<and> is_open (snd (run_calls cs b))"
  using assms
proof (induction cs arbitrary: b)
  case (Cons c cs)
  obtain now don err where c: "c = (now, don, err)" by (metis prod.exhaust)
  have err: "isTransientExternal err" and cs: "list_all (\<lambda>(now, done, err). isTransientExternal err) cs"
    using Cons.prems(2) c by simp_all
  have th: "\<not> br_failures b < breakerThreshold" using Cons.prems(1) by (simp add: is_open_def)
  show ?case
  proof (cases "now - br_openedAt b \<ge> breakerProbeAfter")
    case True
    let ?b = "record_result don err (b\<lparr>br_openedAt := now\<rparr>)"
    have o: "is_open (b\<lparr>br_openedAt := now\<rparr>)" using Cons.prems(1) by (simp add: is_open_def)
    have g: "call_breaker now don err b = (True, ?b)" using True th by (simp add: call_breaker_def allow_def)
    from record_open [OF err o, of don] Cons.IH [OF _ cs, of ?b] True show ?thesis
      by (simp add: c g case_prod_beta)
  next
    case False
    then have g: "call_breaker now don err b = (False, b)" using th by (simp add: call_breaker_def allow_def)
    from Cons.IH [OF Cons.prems(1) cs] False show ?thesis
      by (simp add: c g case_prod_beta)
  qed
qed simp

lemma five_faults_open:
  assumes "list_all (\<lambda>(now, done, err). isTransientExternal err) faults" and "length faults = 5"
  shows "fst (run_calls faults newBreaker) = [True, True, True, True, True] \<and>
    is_open (snd (run_calls faults newBreaker)) \<and>
    br_openedAt (snd (run_calls faults newBreaker)) = fst (snd (faults ! 4))"
proof -
  obtain c1 c2 c3 c4 c5 where f: "faults = [c1, c2, c3, c4, c5]"
    using assms(2) by (auto simp: length_Suc_conv numeral_eq_Suc)
  show ?thesis
    using assms(1)
    by (auto simp: f newBreaker_def call_breaker_def allow_def record_result_def breakerThreshold_def is_open_def
        Let_def numeral_eq_Suc split: prod.splits)
qed

lemma run_calls_length: "length (fst (run_calls cs b)) = length cs"
proof (induction cs arbitrary: b)
  case (Cons c cs)
  then show ?case by (cases c) (simp add: Let_def case_prod_beta)
qed simp

lemma run_calls_append:
  "run_calls (xs @ ys) b =
     (fst (run_calls xs b) @ fst (run_calls ys (snd (run_calls xs b))), snd (run_calls ys (snd (run_calls xs b))))"
proof (induction xs arbitrary: b)
  case (Cons c xs)
  then show ?case by (cases c) (simp add: Let_def case_prod_beta)
qed simp

text \<open>
  a failing agent is left alone, whatever the other agents do. In any history of calls, once the
  first five calls of an agent were faults its breaker is open, as of the end of the fifth; from
  then on, as long as the agent keeps failing, a call of it is refused unless a minute has passed
  since the breaker opened or since the last probe, and then it is let through, so that at most
  one call a minute reaches the agent. One answer that is not a fault, a not-found included,
  closes the breaker at once.
\<close>

theorem breaker_opens_and_probes:
  fixes cs :: "(string \<times> Time \<times> Time \<times> agent_error option) list" and name :: string
  defines "own \<equiv> map snd (filter (\<lambda>c. fst c = name) cs)"
  assumes "own = faults @ calls" and "length faults = 5"
    and "list_all (\<lambda>(now, done, err). isTransientExternal err) (faults @ calls)"
  shows "\<exists>probes. map (snd \<circ> snd) (filter (\<lambda>r. fst r = name) (fst (run_gates cs Map.empty))) =
      [True, True, True, True, True] @ probes \<and>
    probes_apart (fst (snd (faults ! 4))) (zip (map fst calls) probes) \<and> length probes = length calls \<and>
    is_open (breaker_of name (snd (run_gates cs Map.empty))) \<and>
    (isTransientExternal err \<or> \<not> is_open (record_result now err b))"
proof -
  let ?b = "snd (run_calls faults newBreaker)"
  let ?p = "fst (run_calls calls ?b)"
  have new: "breaker_of name Map.empty = newBreaker" by (simp add: breaker_of_def)
  note iso = run_gates_isolated [where cs = cs and name = name and gs = Map.empty, folded own_def, unfolded new]
  have lf: "list_all (\<lambda>(now, done, err). isTransientExternal err) faults"
    and lc: "list_all (\<lambda>(now, done, err). isTransientExternal err) calls"
    using assms(4) by simp_all
  note five = five_faults_open [OF lf assms(3)]
  have o: "probes_apart (br_openedAt ?b) (zip (map fst calls) ?p) \<and> is_open (snd (run_calls calls ?b))"
    using five by (intro run_calls_open lc) simp
  have len: "length ?p = length calls" by (rule run_calls_length)
  have "isTransientExternal err \<or> \<not> is_open (record_result now err b)"
    by (simp add: record_result_def is_open_def breakerThreshold_def)
  with iso five o len show ?thesis
    by (intro exI [of _ ?p]) (simp add: assms(2) run_calls_append)
qed

definition example_faults :: "(Time \<times> Time \<times> agent_error option) list" where
  "example_faults = replicate 5 (0, 0, Some (Fault ''timeout''))"

definition example_calls :: "(Time \<times> Time \<times> agent_error option) list" where
  "example_calls = [(second, second, Some (Fault ''timeout'')), (60 * second, 60 * second, Some (Fault ''timeout''))]"

definition example_history :: "(string \<times> Time \<times> Time \<times> agent_error option) list" where
  "example_history = map (Pair ''lastfm'') example_faults @ (''deezer'', 0, 0, None) # map (Pair ''lastfm'') example_calls"

theorem breaker_opens_and_probes_witness:
  "is_open (breaker_of ''lastfm'' (snd (run_gates example_history Map.empty))) \<and>
   (\<exists>probes. map (snd \<circ> snd) (filter (\<lambda>r. fst r = ''lastfm'') (fst (run_gates example_history Map.empty))) =
      [True, True, True, True, True] @ probes \<and> length probes = length example_calls)"
proof -
  have "map snd (filter (\<lambda>c. fst c = ''lastfm'') example_history) = example_faults @ example_calls"
    "length example_faults = 5"
    "list_all (\<lambda>(now, done, err). isTransientExternal err) (example_faults @ example_calls)"
    by code_simp+
  from breaker_opens_and_probes [OF this] show ?thesis by blast
qed

end
