(* ===== verification/Artwork_Id.thy ===== *)
theory Artwork_Id
  imports Prelude
begin

text \<open>
  \<open>model/artwork_id.go\<close>: the ids that name a cover image in URLs. An id is printed as
  \<open>prefix-id\<close> or \<open>prefix-id_hash\<close>; old ids end in a hexadecimal instant instead of the hash. The
  artwork of a disc has an id of its own, made of the album's id and the number of the disc.
\<close>

record Kind =
  k_prefix :: string
  k_name :: string

definition KindMediaFileArtwork :: Kind where
  "KindMediaFileArtwork = \<lparr>k_prefix = ''mf'', k_name = ''media_file''\<rparr>"
definition KindArtistArtwork :: Kind where
  "KindArtistArtwork = \<lparr>k_prefix = ''ar'', k_name = ''artist''\<rparr>"
definition KindAlbumArtwork :: Kind where
  "KindAlbumArtwork = \<lparr>k_prefix = ''al'', k_name = ''album''\<rparr>"
definition KindPlaylistArtwork :: Kind where
  "KindPlaylistArtwork = \<lparr>k_prefix = ''pl'', k_name = ''playlist''\<rparr>"
definition KindDiscArtwork :: Kind where
  "KindDiscArtwork = \<lparr>k_prefix = ''dc'', k_name = ''disc''\<rparr>"
definition KindRadioArtwork :: Kind where
  "KindRadioArtwork = \<lparr>k_prefix = ''ra'', k_name = ''radio''\<rparr>"

lemmas kind_defs = KindMediaFileArtwork_def KindArtistArtwork_def KindAlbumArtwork_def KindPlaylistArtwork_def
  KindDiscArtwork_def KindRadioArtwork_def

definition artworkKindMap :: "string \<rightharpoonup> Kind" where
  "artworkKindMap = map_of (map (\<lambda>k. (k_prefix k, k))
     [KindMediaFileArtwork, KindArtistArtwork, KindAlbumArtwork, KindPlaylistArtwork, KindDiscArtwork,
      KindRadioArtwork])"

definition ParseKind :: "string \<Rightarrow> Kind option" where
  "ParseKind prefix = artworkKindMap prefix"

record ArtworkID =
  aw_Kind :: Kind
  aw_ID :: string
  aw_Hash :: string
  aw_LastUpdate :: Time

definition show_ArtworkID :: "ArtworkID \<Rightarrow> string" where
  "show_ArtworkID a =
     (if aw_ID a = [] then []
      else
        let s = k_prefix (aw_Kind a) @ ''-'' @ aw_ID a
        in if aw_Hash a \<noteq> [] then s @ ''_'' @ aw_Hash a else s)"

definition NewArtworkID :: "Kind \<Rightarrow> string \<Rightarrow> Time option \<Rightarrow> ArtworkID" where
  "NewArtworkID kind i lastUpdate =
     \<lparr>aw_Kind = kind, aw_ID = i, aw_Hash = [],
      aw_LastUpdate = (case lastUpdate of None \<Rightarrow> zero_time | Some t \<Rightarrow> t)\<rparr>"

definition isImageHash :: "string \<Rightarrow> bool" where
  "isImageHash s \<longleftrightarrow> length s = 16 \<and>
     list_all (\<lambda>c. (48 \<le> byte_of c \<and> byte_of c \<le> 57) \<or> (97 \<le> byte_of c \<and> byte_of c \<le> 102)) s"

datatype artwork_error = InvalidArtworkID | InvalidArtworkKind | InvalidDiscArtworkID | InvalidDiscNumber

definition ParseArtworkID :: "string \<Rightarrow> artwork_error + ArtworkID" where
  "ParseArtworkID s =
     (case split2 (CHR ''-'') s of
        None \<Rightarrow> Inl InvalidArtworkID
      | Some (prefix, rest) \<Rightarrow>
          (case artworkKindMap prefix of
             None \<Rightarrow> Inl InvalidArtworkKind
           | Some kind \<Rightarrow>
               let parsed = \<lparr>aw_Kind = kind, aw_ID = rest, aw_Hash = [], aw_LastUpdate = zero_time\<rparr>
               in (case split2 (CHR ''_'') rest of
                     None \<Rightarrow> Inr parsed
                   | Some (i, suffix) \<Rightarrow>
                       let parsed = parsed\<lparr>aw_ID := i\<rparr>
                       in if isImageHash suffix then Inr (parsed\<lparr>aw_Hash := suffix\<rparr>)
                          else if suffix \<noteq> ''0'' then
                            (case parse_int64 16 suffix of
                               Some n \<Rightarrow> Inr (parsed\<lparr>aw_LastUpdate := unix_time n\<rparr>)
                             | None \<Rightarrow> Inr parsed)
                          else Inr parsed)))"

definition DiscArtworkID :: "string \<Rightarrow> int \<Rightarrow> string" where
  "DiscArtworkID albumID discNumber = albumID @ '':'' @ itoa discNumber"

definition ParseDiscArtworkID :: "string \<Rightarrow> artwork_error + string \<times> int" where
  "ParseDiscArtworkID s =
     (case split2 (CHR '':'') s of
        None \<Rightarrow> Inl InvalidDiscArtworkID
      | Some (albumID, n) \<Rightarrow>
          if n = [] then Inl InvalidDiscArtworkID
          else (case atoi n of None \<Rightarrow> Inl InvalidDiscNumber | Some num \<Rightarrow> Inr (albumID, num)))"

subsection \<open>Round trips\<close>

lemma artworkKindMap_Some:
  "artworkKindMap p = Some k \<Longrightarrow> k_prefix k = p \<and> CHR ''-'' \<notin> set p"
  by (auto simp: artworkKindMap_def kind_defs split: if_splits)

lemma ParseArtworkID_print:
  assumes "artworkKindMap (k_prefix kind) = Some kind" and "CHR ''_'' \<notin> set i"
  shows "ParseArtworkID (k_prefix kind @ ''-'' @ i) =
      Inr \<lparr>aw_Kind = kind, aw_ID = i, aw_Hash = [], aw_LastUpdate = zero_time\<rparr>"
    and "isImageHash h \<Longrightarrow> ParseArtworkID (k_prefix kind @ ''-'' @ i @ ''_'' @ h) =
      Inr \<lparr>aw_Kind = kind, aw_ID = i, aw_Hash = h, aw_LastUpdate = zero_time\<rparr>"
proof -
  have p: "CHR ''-'' \<notin> set (k_prefix kind)" using artworkKindMap_Some [OF assms(1)] by simp
  show "ParseArtworkID (k_prefix kind @ ''-'' @ i) =
      Inr \<lparr>aw_Kind = kind, aw_ID = i, aw_Hash = [], aw_LastUpdate = zero_time\<rparr>"
    using p assms by (simp add: ParseArtworkID_def Let_def split2_None [THEN iffD2])
  show "ParseArtworkID (k_prefix kind @ ''-'' @ i @ ''_'' @ h) =
      Inr \<lparr>aw_Kind = kind, aw_ID = i, aw_Hash = h, aw_LastUpdate = zero_time\<rparr>" if "isImageHash h"
    using p assms that by (simp add: ParseArtworkID_def Let_def)
qed

lemma ParseArtworkID_Inr:
  assumes "ParseArtworkID s = Inr a"
  shows "artworkKindMap (k_prefix (aw_Kind a)) = Some (aw_Kind a) \<and> CHR ''_'' \<notin> set (aw_ID a) \<and>
    (aw_Hash a = [] \<or> isImageHash (aw_Hash a))"
proof -
  obtain prefix rest kind where s: "split2 (CHR ''-'') s = Some (prefix, rest)"
      and k: "artworkKindMap prefix = Some kind"
    using assms by (auto simp: ParseArtworkID_def split: option.splits)
  note kp = artworkKindMap_Some [OF k]
  show ?thesis
  proof (cases "split2 (CHR ''_'') rest")
    case None
    have "a = \<lparr>aw_Kind = kind, aw_ID = rest, aw_Hash = [], aw_LastUpdate = zero_time\<rparr>"
      using assms by (simp add: ParseArtworkID_def Let_def s k None)
    with None k kp show ?thesis by simp
  next
    case (Some x)
    then obtain i suffix where x: "split2 (CHR ''_'') rest = Some (i, suffix)" by (cases x) auto
    with split2_SomeD [OF x] assms s k kp show ?thesis
      by (auto simp: ParseArtworkID_def Let_def split: if_splits option.splits)
  qed
qed

lemma parse_print_artwork:
  assumes "artworkKindMap (k_prefix (aw_Kind a)) = Some (aw_Kind a)" and "CHR ''_'' \<notin> set (aw_ID a)"
    and "aw_Hash a = [] \<or> isImageHash (aw_Hash a)" and "aw_ID a \<noteq> []"
  shows "ParseArtworkID (show_ArtworkID a) = Inr (a\<lparr>aw_LastUpdate := zero_time\<rparr>)"
  using assms ParseArtworkID_print [OF assms(1,2)] by (auto simp: show_ArtworkID_def Let_def)

text \<open>
  artwork ids round trip. The text of an id of a known kind, with an id that is not empty and has no
  underscore and with no hash or an image hash, is parsed back to that id; whatever text is parsed
  successfully to an id that is not empty, printing the id and parsing it again gives the same id
  without the instant that only old ids carry. The id of a disc's artwork is parsed back to the
  album and the disc number.
\<close>

theorem artwork_id_roundtrip:
  "(artworkKindMap (k_prefix (aw_Kind a)) = Some (aw_Kind a) \<and> CHR ''_'' \<notin> set (aw_ID a) \<and> aw_ID a \<noteq> [] \<and>
     (aw_Hash a = [] \<or> isImageHash (aw_Hash a)) \<longrightarrow>
     ParseArtworkID (show_ArtworkID a) = Inr (a\<lparr>aw_LastUpdate := zero_time\<rparr>)) \<and>
   (ParseArtworkID s = Inr b \<and> aw_ID b \<noteq> [] \<longrightarrow>
     ParseArtworkID (show_ArtworkID b) = Inr (b\<lparr>aw_LastUpdate := zero_time\<rparr>)) \<and>
   (CHR '':'' \<notin> set albumID \<and> in_int64 n \<longrightarrow> ParseDiscArtworkID (DiscArtworkID albumID n) = Inr (albumID, n))"
  using parse_print_artwork ParseArtworkID_Inr [of s b]
  by (auto simp: DiscArtworkID_def ParseDiscArtworkID_def atoi_itoa)

theorem artwork_id_roundtrip_witness:
  "ParseArtworkID ''al-1a-b_0123456789abcdef'' =
     Inr \<lparr>aw_Kind = KindAlbumArtwork, aw_ID = ''1a-b'', aw_Hash = ''0123456789abcdef'', aw_LastUpdate = zero_time\<rparr> \<and>
   ParseDiscArtworkID (DiscArtworkID ''1a'' 2) = Inr (''1a'', 2)"
proof -
  let ?a = "\<lparr>aw_Kind = KindAlbumArtwork, aw_ID = ''1a-b'', aw_Hash = ''0123456789abcdef'', aw_LastUpdate = zero_time\<rparr>"
  have "artworkKindMap (k_prefix (aw_Kind ?a)) = Some (aw_Kind ?a)" "isImageHash (aw_Hash ?a)"
    "show_ArtworkID ?a = ''al-1a-b_0123456789abcdef''"
    by code_simp+
  then show ?thesis
    using artwork_id_roundtrip [of ?a undefined undefined "''1a''" 2] by (simp add: in_int64_def)
qed

end
