(* ===== verification/M3u_Paths.thy ===== *)
theory M3u_Paths
  imports Go_Path
begin

text \<open>
  The path resolver of \<open>core/playlists/parse_m3u.go\<close>: which library a line of a playlist belongs to,
  and the library-qualified path it becomes. \<open>Folder.AbsolutePath\<close> and \<open>Library\<close> (\<open>model/folder.go\<close>,
  \<open>model/library.go\<close>) are restricted to the fields that are read. The sort of the libraries is
  stable; the lemmas on matching hold for any order by length.
\<close>

record Library =
  lb_ID :: int
  lb_Path :: string

record Folder =
  fo_LibraryPath :: string
  fo_Path :: string
  fo_Name :: string

definition folder_AbsolutePath :: "Folder \<Rightarrow> string" where
  "folder_AbsolutePath f = path_join [fo_LibraryPath f, fo_Path f, fo_Name f]"

record pathResolution =
  pr_absolutePath :: string
  pr_libraryPath :: string
  pr_libraryID :: int
  pr_valid :: bool

definition invalid_resolution :: pathResolution where
  "invalid_resolution = \<lparr>pr_absolutePath = [], pr_libraryPath = [], pr_libraryID = 0, pr_valid = False\<rparr>"

definition ToQualifiedString :: "pathResolution \<Rightarrow> string option" where
  "ToQualifiedString r =
     (if \<not> pr_valid r then None
      else
        (case rel (pr_libraryPath r) (pr_absolutePath r) of
           None \<Rightarrow> None
         | Some relativePath \<Rightarrow> Some (itoa (pr_libraryID r) @ '':'' @ relativePath)))"

record libraryMatcher =
  lm_libraries :: "Library list"
  lm_cleanedPaths :: "string list"

definition under_path :: "string \<Rightarrow> string \<Rightarrow> bool" where
  "under_path cleanLibPath absolutePath \<longleftrightarrow>
     has_prefix absolutePath cleanLibPath \<and>
     (length absolutePath = length cleanLibPath \<or> absolutePath ! length cleanLibPath = slash)"

definition findLibrary :: "libraryMatcher \<Rightarrow> string \<Rightarrow> Library option" where
  "findLibrary lm absolutePath =
     (case index_where (\<lambda>p. under_path p absolutePath) (lm_cleanedPaths lm) of
        None \<Rightarrow> None
      | Some i \<Rightarrow> Some (lm_libraries lm ! i))"

definition findLibraryForPath :: "libraryMatcher \<Rightarrow> string \<Rightarrow> int \<times> string" where
  "findLibraryForPath lm absolutePath =
     (case findLibrary lm absolutePath of
        None \<Rightarrow> (0, [])
      | Some lib \<Rightarrow> (lb_ID lib, clean (lb_Path lib)))"

definition newLibraryMatcher :: "Library list \<Rightarrow> libraryMatcher" where
  "newLibraryMatcher libs =
     (let sorted = sort_key (\<lambda>l. - int (length (lb_Path l))) libs
      in \<lparr>lm_libraries = sorted, lm_cleanedPaths = map (\<lambda>l. clean (lb_Path l)) sorted\<rparr>)"

definition findInLibraries :: "libraryMatcher \<Rightarrow> string \<Rightarrow> pathResolution" where
  "findInLibraries m absolutePath =
     (let (libID, libPath) = findLibraryForPath m absolutePath
      in if libID = 0 then invalid_resolution
         else \<lparr>pr_absolutePath = absolutePath, pr_libraryPath = libPath, pr_libraryID = libID, pr_valid = True\<rparr>)"

definition absolute_path :: "Folder option \<Rightarrow> string \<Rightarrow> string" where
  "absolute_path folder line =
     (case folder of
        Some f \<Rightarrow> if \<not> is_abs line then clean (path_join [folder_AbsolutePath f, line]) else clean line
      | None \<Rightarrow> clean line)"

definition resolvePath :: "libraryMatcher \<Rightarrow> Folder option \<Rightarrow> string \<Rightarrow> pathResolution" where
  "resolvePath m folder line = findInLibraries m (absolute_path folder line)"

fun resolvePaths :: "libraryMatcher \<Rightarrow> Folder option \<Rightarrow> string list \<Rightarrow> string list" where
  "resolvePaths m folder [] = []"
| "resolvePaths m folder (line # lines) =
     (let resolution = resolvePath m folder line
      in if \<not> pr_valid resolution then resolvePaths m folder lines
         else
           (case ToQualifiedString resolution of
              None \<Rightarrow> resolvePaths m folder lines
            | Some q \<Rightarrow> q # resolvePaths m folder lines))"

subsection \<open>Cover images\<close>

text \<open>\<open>url.PathUnescape\<close>.\<close>

fun path_unescape :: "string \<Rightarrow> string option" where
  "path_unescape [] = Some []"
| "path_unescape (c # cs) =
     (if c = CHR ''%'' then
        (case cs of
           a # b # rest \<Rightarrow>
             (case (digit_value a, digit_value b) of
                (Some x, Some y) \<Rightarrow>
                  if x < 16 \<and> y < 16 then map_option (Cons (char_of (nat (16 * x + y)))) (path_unescape rest)
                  else None
              | _ \<Rightarrow> None)
         | _ \<Rightarrow> None)
      else map_option (Cons c) (path_unescape cs))"

definition resolveLocalPath :: "string \<Rightarrow> Folder option \<Rightarrow> string option" where
  "resolveLocalPath value folder =
     (case cut_prefix value ''file://'' of
        Some after \<Rightarrow> map_option clean (path_unescape after)
      | None \<Rightarrow>
          if is_abs value then Some (clean value)
          else
            (case folder of
               None \<Rightarrow> None
             | Some f \<Rightarrow> Some (clean (path_join [folder_AbsolutePath f, value]))))"

definition resolveImageURL :: "bool \<Rightarrow> string \<Rightarrow> Folder option \<Rightarrow> libraryMatcher \<Rightarrow> string" where
  "resolveImageURL enableExternal value0 folder matcher =
     (let value = trim_space value0
      in if value = [] then []
         else if has_prefix value ''http://'' \<or> has_prefix value ''https://'' then
           (if \<not> enableExternal then [] else value)
         else
           (case resolveLocalPath value folder of
              None \<Rightarrow> []
            | Some localPath \<Rightarrow>
                if fst (findLibraryForPath matcher localPath) = 0 then [] else localPath))"

subsection \<open>Matching\<close>

lemma under_path_iff: "under_path l p \<longleftrightarrow> p = l \<or> (\<exists>r. p = l @ slash # r)"
proof
  assume u: "under_path l p"
  then obtain s where s: "p = l @ s" by (auto simp: under_path_def has_prefix_iff)
  with u show "p = l \<or> (\<exists>r. p = l @ slash # r)" by (cases s) (auto simp: under_path_def nth_append)
next
  assume "p = l \<or> (\<exists>r. p = l @ slash # r)"
  then show "under_path l p" by (elim disjE exE) (simp_all add: under_path_def nth_append has_prefix_def)
qed

text \<open>A set of libraries as an administrator means it: ids that are not zero, clean absolute paths
  below the root.\<close>

definition proper_libs :: "Library list \<Rightarrow> bool" where
  "proper_libs libs \<longleftrightarrow>
     list_all (\<lambda>l. lb_ID l \<noteq> 0 \<and> is_abs (lb_Path l) \<and> clean (lb_Path l) = lb_Path l \<and> lb_Path l \<noteq> ''/'') libs"

lemma proper_libsD:
  "proper_libs libs \<Longrightarrow> l \<in> set libs \<Longrightarrow>
    lb_ID l \<noteq> 0 \<and> is_abs (lb_Path l) \<and> clean (lb_Path l) = lb_Path l \<and> lb_Path l \<noteq> ''/''"
  by (simp add: proper_libs_def list_all_iff)

definition best_library :: "Library list \<Rightarrow> string \<Rightarrow> Library \<Rightarrow> bool" where
  "best_library libs p l \<longleftrightarrow> l \<in> set libs \<and> under_path (lb_Path l) p \<and>
     (\<forall>l' \<in> set libs. under_path (lb_Path l') p \<longrightarrow> length (lb_Path l') \<le> length (lb_Path l))"

lemma findLibrary_best:
  assumes "proper_libs libs"
  shows "case findLibrary (newLibraryMatcher libs) p of
      None \<Rightarrow> \<forall>l \<in> set libs. \<not> under_path (lb_Path l) p
    | Some l \<Rightarrow> best_library libs p l"
proof -
  let ?s = "sort_key (\<lambda>l. - int (length (lb_Path l))) libs"
  have c: "map (\<lambda>l. clean (lb_Path l)) ?s = map lb_Path ?s"
    using proper_libsD [OF assms] by simp
  show ?thesis
  proof (cases "index_where (\<lambda>q. under_path q p) (map lb_Path ?s)")
    case None
    then have "\<forall>l \<in> set libs. \<not> under_path (lb_Path l) p" by simp
    moreover have "findLibrary (newLibraryMatcher libs) p = None"
      by (simp add: findLibrary_def newLibraryMatcher_def Let_def c None)
    ultimately show ?thesis by simp
  next
    case (Some i)
    note w = Some [unfolded index_where_Some]
    then have i: "i < length ?s" by simp
    have u: "under_path (lb_Path (?s ! i)) p" using w unfolding nth_map [OF i] by blast
    have first: "\<not> under_path (lb_Path (?s ! j)) p" if "j < i" for j
    proof -
      have j: "j < length ?s" using that i by (rule order.strict_trans)
      have "\<not> under_path (map lb_Path ?s ! j) p" using w that by blast
      then show ?thesis unfolding nth_map [OF j] .
    qed
    have "length (lb_Path l) \<le> length (lb_Path (?s ! i))" if "l \<in> set libs" "under_path (lb_Path l) p" for l
    proof -
      have "l \<in> set ?s" using that(1) by simp
      then obtain j where j: "j < length ?s" "?s ! j = l" unfolding in_set_conv_nth by blast
      with that(2) first have "i \<le> j" by (meson linorder_not_le)
      then have "map (\<lambda>l. - int (length (lb_Path l))) ?s ! i \<le> map (\<lambda>l. - int (length (lb_Path l))) ?s ! j"
        using j(1) by (intro sorted_nth_mono) simp_all
      then show ?thesis unfolding nth_map [OF i] nth_map [OF j(1)] j(2) by simp
    qed
    moreover have "?s ! i \<in> set libs" using nth_mem [OF i] by simp
    ultimately have "best_library libs p (?s ! i)" using u unfolding best_library_def by blast
    moreover have "findLibrary (newLibraryMatcher libs) p = Some (?s ! i)"
      by (simp add: findLibrary_def newLibraryMatcher_def Let_def c Some)
    ultimately show ?thesis by simp
  qed
qed

lemma best_library_unique:
  assumes "best_library libs p l" and "best_library libs p l'"
  shows "lb_Path l = lb_Path l'"
proof -
  have "length (lb_Path l) = length (lb_Path l')"
    using assms unfolding best_library_def by (meson le_antisym)
  moreover obtain s s' where "p = lb_Path l @ s" "p = lb_Path l' @ s'"
    using assms unfolding best_library_def under_path_def has_prefix_iff by blast
  ultimately show ?thesis by (metis append_eq_append_conv)
qed

text \<open>The part of a path that follows its library.\<close>

definition below :: "string \<Rightarrow> string \<Rightarrow> string \<Rightarrow> bool" where
  "below lib r p \<longleftrightarrow> p = lib @ slash # r \<or> (p = lib \<and> r = ''.'')"

lemma rel_below:
  assumes "is_abs l" and "clean l = l" and "l \<noteq> ''/''" and "clean p = p" and "under_path l p"
  shows "\<exists>r. rel l p = Some r \<and> below l r p"
proof (cases "p = l")
  case True
  with assms show ?thesis by (simp add: rel_def below_def)
next
  case False
  with assms(5) obtain r where "p = l @ slash # r" by (auto simp: under_path_iff)
  with assms rel_inside [of l r] show ?thesis by (simp add: below_def)
qed

lemma absolute_path_clean [simp]: "clean (absolute_path folder line) = absolute_path folder line"
  by (simp add: absolute_path_def split: option.splits)

lemma resolve_line:
  fixes folder :: "Folder option" and line :: string
  assumes "proper_libs libs"
  defines "m \<equiv> newLibraryMatcher libs" and "p \<equiv> absolute_path folder line"
  shows "((\<forall>l \<in> set libs. \<not> under_path (lb_Path l) p) \<and> resolvePaths m folder [line] = []) \<or>
    (\<exists>l r. best_library libs p l \<and> below (lb_Path l) r p \<and> resolvePaths m folder [line] = [itoa (lb_ID l) @ '':'' @ r])"
proof (cases "findLibrary m p")
  case None
  with findLibrary_best [OF assms(1), of p] show ?thesis
    by (simp add: m_def p_def resolvePath_def findInLibraries_def findLibraryForPath_def invalid_resolution_def)
next
  case (Some l)
  with findLibrary_best [OF assms(1), of p] have b: "best_library libs p l" by (simp add: m_def)
  then have l: "l \<in> set libs" "under_path (lb_Path l) p" by (simp_all add: best_library_def)
  note pl = proper_libsD [OF assms(1) l(1)]
  obtain r where r: "rel (lb_Path l) p = Some r" "below (lb_Path l) r p"
    using rel_below [of "lb_Path l" p] pl l(2) by (auto simp: p_def)
  have "resolvePaths m folder [line] = [itoa (lb_ID l) @ '':'' @ r]"
    using Some pl r(1)
    by (simp add: resolvePath_def findInLibraries_def findLibraryForPath_def ToQualifiedString_def flip: p_def)
  with b r(2) show ?thesis by blast
qed

lemma resolvePaths_append: "resolvePaths m folder (xs @ ys) = resolvePaths m folder xs @ resolvePaths m folder ys"
  by (induction xs) (auto simp: Let_def split: option.splits)

lemma resolvePaths_concat: "resolvePaths m folder lines = concat (map (\<lambda>l. resolvePaths m folder [l]) lines)"
  by (induction lines) (auto simp: Let_def split: option.splits)

text \<open>
  A line of a playlist is attributed to the innermost library that holds it. For libraries with clean
  absolute paths below the root, a line is dropped exactly when no library holds its path, and
  otherwise becomes the id of the longest library path it is under and what follows that path; so a
  path that only shares the letters of a library's path, as \<open>/music-classical\<close> does with \<open>/music\<close>,
  is never attributed to it. A local cover image is stored only if a library holds it.
\<close>

theorem m3u_innermost_library:
  assumes "proper_libs libs"
  defines "m \<equiv> newLibraryMatcher libs"
  shows "(((\<forall>l \<in> set libs. \<not> under_path (lb_Path l) (absolute_path folder line)) \<and> resolvePaths m folder [line] = []) \<or>
     (\<exists>l r. best_library libs (absolute_path folder line) l \<and> below (lb_Path l) r (absolute_path folder line) \<and>
        resolvePaths m folder [line] = [itoa (lb_ID l) @ '':'' @ r])) \<and>
    (\<forall>v. resolveImageURL ext v folder m = [] \<or>
       has_prefix (trim_space v) ''http://'' \<or> has_prefix (trim_space v) ''https://'' \<or>
       (\<exists>l \<in> set libs. under_path (lb_Path l) (resolveImageURL ext v folder m)))"
proof (intro conjI allI)
  show "resolveImageURL ext v folder m = [] \<or>
      has_prefix (trim_space v) ''http://'' \<or> has_prefix (trim_space v) ''https://'' \<or>
      (\<exists>l \<in> set libs. under_path (lb_Path l) (resolveImageURL ext v folder m))" for v
  proof (cases "resolveImageURL ext v folder m = [] \<or> has_prefix (trim_space v) ''http://'' \<or>
      has_prefix (trim_space v) ''https://''")
    case False
    then obtain q where q: "resolveLocalPath (trim_space v) folder = Some q" "resolveImageURL ext v folder m = q"
        "fst (findLibraryForPath m q) \<noteq> 0"
      by (auto simp: resolveImageURL_def Let_def split: option.splits if_splits)
    from q(3) obtain l where "findLibrary m q = Some l"
      by (auto simp: findLibraryForPath_def split: option.splits)
    with findLibrary_best [OF assms(1), of q] q(2) show ?thesis by (auto simp: m_def best_library_def)
  qed blast
qed (use resolve_line [OF assms(1)] m_def in blast)

definition example_libs :: "Library list" where
  "example_libs = [\<lparr>lb_ID = 1, lb_Path = ''/music''\<rparr>, \<lparr>lb_ID = 2, lb_Path = ''/music/live''\<rparr>]"

theorem m3u_innermost_library_witness:
  "proper_libs example_libs \<and>
   (\<exists>l r. best_library example_libs ''/music/live/a.mp3'' l \<and> below (lb_Path l) r ''/music/live/a.mp3'' \<and>
     resolvePaths (newLibraryMatcher example_libs) None [''/music/x/../live/a.mp3''] = [itoa (lb_ID l) @ '':'' @ r])"
proof -
  have p: "proper_libs example_libs" by code_simp
  have a: "absolute_path None ''/music/x/../live/a.mp3'' = ''/music/live/a.mp3''" by code_simp
  have "\<not> list_all (\<lambda>l. \<not> under_path (lb_Path l) ''/music/live/a.mp3'') example_libs" by code_simp
  then have u: "\<not> (\<forall>l \<in> set example_libs. \<not> under_path (lb_Path l) ''/music/live/a.mp3'')"
    by (simp add: list_all_iff)
  show ?thesis
    using p u m3u_innermost_library [OF p, where folder = None and line = "''/music/x/../live/a.mp3''", unfolded a]
    by blast
qed

subsection \<open>Two limits of the matching\<close>

text \<open>A library at the root of the file system holds every absolute path, but the boundary check
  looks for a second slash, so only the root itself is matched.\<close>

lemma root_library_never_matches:
  "resolvePaths (newLibraryMatcher [\<lparr>lb_ID = 1, lb_Path = ''/''\<rparr>]) None [''/a.mp3''] = []"
  by code_simp

text \<open>The libraries are sorted by the length of the path as it is stored, not as it is cleaned.\<close>

lemma unclean_path_sorted_first:
  "resolvePaths (newLibraryMatcher [\<lparr>lb_ID = 1, lb_Path = ''/a////''\<rparr>, \<lparr>lb_ID = 2, lb_Path = ''/a/b''\<rparr>]) None
     [''/a/b/x.mp3''] = [''1:b/x.mp3'']"
  by code_simp

end
