(* ===== verification/Go_Slices.thy ===== *)
theory Go_Slices
  imports Prelude
begin

text \<open>
  \<open>utils/slice/slice.go\<close>: the generic functions on slices, and the readers of lines and chunks. A Go
  map built by them is a map; the order of \<open>CompactByFrequency\<close> among equally frequent elements is
  that of Go's map iteration, so it takes the order in which the keys come as an argument.
\<close>

subsection \<open>Lines and chunks\<close>

abbreviation newline :: char where
  "newline \<equiv> CHR 0x0A"

abbreviation carriage_return :: char where
  "carriage_return \<equiv> CHR 0x0D"

definition is_break :: "char \<Rightarrow> bool" where
  "is_break c \<longleftrightarrow> c = newline \<or> c = carriage_return"

text \<open>One call of the split function at the end of the input: the token and what is left.\<close>

definition scanLines :: "string \<Rightarrow> string \<times> string" where
  "scanLines data =
     (case dropWhile (\<lambda>c. \<not> is_break c) data of
        [] \<Rightarrow> (data, [])
      | c # rest \<Rightarrow>
          (takeWhile (\<lambda>c. \<not> is_break c) data,
           if c = newline then rest
           else if rest \<noteq> [] \<and> hd rest = newline then tl rest else rest))"

lemma scanLines_shorter: "data \<noteq> [] \<Longrightarrow> length (snd (scanLines data)) < length data"
proof -
  assume "data \<noteq> []"
  moreover have "length (dropWhile (\<lambda>c. \<not> is_break c) data) \<le> length data" by (rule length_dropWhile_le)
  ultimately show ?thesis by (auto simp: scanLines_def split: list.splits)
qed

function LinesFrom :: "string \<Rightarrow> string list" where
  "LinesFrom data = (if data = [] then [] else fst (scanLines data) # LinesFrom (snd (scanLines data)))"
  by pat_completeness auto
termination by (relation "measure length") (auto simp: scanLines_shorter)

declare LinesFrom.simps [simp del]

fun collect_chunks :: "nat \<Rightarrow> 'a list \<Rightarrow> 'a list \<Rightarrow> 'a list list" where
  "collect_chunks n s [] = (if s = [] then [] else [s])"
| "collect_chunks n s (x # xs) =
     (let s' = s @ [x] in if length s' \<ge> n then s' # collect_chunks n [] xs else collect_chunks n s' xs)"

definition CollectChunks :: "'a list \<Rightarrow> nat \<Rightarrow> 'a list list" where
  "CollectChunks it n = collect_chunks n [] it"

lemma concat_collect_chunks: "concat (collect_chunks n s xs) = s @ xs"
  by (induction n s xs rule: collect_chunks.induct) (auto simp: Let_def)

lemma map_collect_chunks: "collect_chunks n (map f s) (map f xs) = map (map f) (collect_chunks n s xs)"
  by (induction n s xs rule: collect_chunks.induct) (auto simp: Let_def)

lemma CollectChunks_map: "CollectChunks (map f xs) n = map (map f) (CollectChunks xs n)"
  using map_collect_chunks [of n f "[]" xs] by (simp add: CollectChunks_def)

lemma concat_CollectChunks: "concat (CollectChunks xs n) = xs"
  by (simp add: CollectChunks_def concat_collect_chunks)

lemma collect_chunks_length:
  "0 < n \<Longrightarrow> length s < n \<Longrightarrow> c \<in> set (collect_chunks n s xs) \<Longrightarrow> c \<noteq> [] \<and> length c \<le> n"
  by (induction n s xs rule: collect_chunks.induct) (auto simp: Let_def split: if_splits)

lemma CollectChunks_length: "0 < n \<Longrightarrow> c \<in> set (CollectChunks xs n) \<Longrightarrow> c \<noteq> [] \<and> length c \<le> n"
  unfolding CollectChunks_def by (rule collect_chunks_length [of n "[]"]) simp_all

definition one_line :: "string \<Rightarrow> bool" where
  "one_line s \<longleftrightarrow> list_all (\<lambda>c. \<not> is_break c) s"

lemma scanLines_line: "one_line s \<Longrightarrow> scanLines (s @ newline # rest) = (s, rest)"
proof -
  assume "one_line s"
  then have "\<forall>c \<in> set s. \<not> is_break c" by (simp add: one_line_def list_all_iff)
  moreover have "is_break newline" by (simp add: is_break_def)
  ultimately show ?thesis by (simp add: scanLines_def dropWhile_append takeWhile_append)
qed

lemma LinesFrom_lines:
  "list_all one_line ls \<Longrightarrow> LinesFrom (concat (map (\<lambda>l. l @ [newline]) ls)) = ls"
proof (induction ls)
  case Nil
  show ?case by (simp add: LinesFrom.simps)
next
  case (Cons l ls)
  then show ?case by (subst LinesFrom.simps) (simp add: scanLines_line)
qed

lemma scanLines_one_line: "one_line (fst (scanLines data))"
proof (cases "dropWhile (\<lambda>c. \<not> is_break c) data")
  case Nil
  then have "\<forall>c \<in> set data. \<not> is_break c" by simp
  moreover have "scanLines data = (data, [])" by (simp add: scanLines_def Nil)
  ultimately show ?thesis by (simp add: one_line_def list_all_iff)
next
  case (Cons c rest)
  have "\<forall>c \<in> set (takeWhile (\<lambda>c. \<not> is_break c) data). \<not> is_break c" by (blast dest: set_takeWhileD)
  with Cons show ?thesis by (simp add: scanLines_def one_line_def list_all_iff)
qed

lemma LinesFrom_one_line: "list_all one_line (LinesFrom data)"
proof (induction data rule: LinesFrom.induct)
  case (1 data)
  then show ?case by (subst LinesFrom.simps) (simp add: scanLines_one_line)
qed

lemma one_line_append [simp]: "one_line (a @ b) \<longleftrightarrow> one_line a \<and> one_line b"
  by (simp add: one_line_def)

subsection \<open>Grouping and counting\<close>

definition group_item :: "('a \<Rightarrow> 'k) \<Rightarrow> 'a \<Rightarrow> ('k \<rightharpoonup> 'a list) \<Rightarrow> ('k \<rightharpoonup> 'a list)" where
  "group_item keyFunc item m = (let k = keyFunc item in m(k \<mapsto> (case m k of None \<Rightarrow> [] | Some xs \<Rightarrow> xs) @ [item]))"

definition Group :: "'a list \<Rightarrow> ('a \<Rightarrow> 'k) \<Rightarrow> ('k \<rightharpoonup> 'a list)" where
  "Group s keyFunc = fold (group_item keyFunc) s Map.empty"

definition slice_ToMap :: "'a list \<Rightarrow> ('a \<Rightarrow> 'k \<times> 'v) \<Rightarrow> ('k \<rightharpoonup> 'v)" where
  "slice_ToMap s transformFunc = fold (\<lambda>item m. case transformFunc item of (k, v) \<Rightarrow> m(k \<mapsto> v)) s Map.empty"

definition count_of :: "'a list \<Rightarrow> 'a \<Rightarrow> nat" where
  "count_of xs x = length (filter (\<lambda>y. y = x) xs)"

definition CompactByFrequency :: "('a list \<Rightarrow> 'a list) \<Rightarrow> 'a list \<Rightarrow> 'a list" where
  "CompactByFrequency keys list = sort_key (\<lambda>x. - int (count_of list x)) (keys list)"

text \<open>\<open>MostFrequent\<close>: the counters, and the first element to reach the highest count.\<close>

fun most_frequent :: "'a \<Rightarrow> ('a \<Rightarrow> nat) \<Rightarrow> 'a \<times> nat \<Rightarrow> 'a list \<Rightarrow> 'a" where
  "most_frequent zero counters (topItem, topCount) [] = topItem"
| "most_frequent zero counters (topItem, topCount) (value # rest) =
     (if value = zero then most_frequent zero counters (topItem, topCount) rest
      else
        let n = counters value + 1; counters' = counters(value := n)
        in most_frequent zero counters' (if n > topCount then (value, n) else (topItem, topCount)) rest)"

definition MostFrequent :: "'a \<Rightarrow> 'a list \<Rightarrow> 'a" where
  "MostFrequent zero list = most_frequent zero (\<lambda>_. 0) (zero, 0) list"

fun unique_from :: "'a set \<Rightarrow> 'a list \<Rightarrow> 'a list" where
  "unique_from seen [] = []"
| "unique_from seen (item # rest) =
     (if item \<in> seen then unique_from seen rest else item # unique_from (insert item seen) rest)"

definition Unique :: "'a list \<Rightarrow> 'a list" where
  "Unique list = unique_from {} list"

lemma Group_eq: "Group s f k = (case filter (\<lambda>x. f x = k) s of [] \<Rightarrow> None | xs \<Rightarrow> Some xs)"
proof -
  have "fold (group_item f) s m k =
      (case m k of
         None \<Rightarrow> (case filter (\<lambda>x. f x = k) s of [] \<Rightarrow> None | xs \<Rightarrow> Some xs)
       | Some ys \<Rightarrow> Some (ys @ filter (\<lambda>x. f x = k) s))" for m
  proof (induction s arbitrary: m)
    case (Cons x s)
    show ?case by (cases "f x = k"; cases "m k") (simp_all add: Cons.IH, simp_all add: group_item_def Let_def)
  qed (simp split: option.splits)
  from this [of Map.empty] show ?thesis by (simp add: Group_def)
qed

lemma unique_from_props: "distinct (unique_from seen xs) \<and> set (unique_from seen xs) = set xs - seen"
  by (induction seen xs rule: unique_from.induct) auto

lemma Unique_distinct [simp]: "distinct (Unique xs)" and set_Unique [simp]: "set (Unique xs) = set xs"
  using unique_from_props [of "{}" xs] by (simp_all add: Unique_def)

lemma Unique_id: "distinct xs \<Longrightarrow> Unique xs = xs"
proof -
  have "distinct xs \<Longrightarrow> set xs \<inter> seen = {} \<Longrightarrow> unique_from seen xs = xs" for seen
    by (induction seen xs rule: unique_from.induct) auto
  then show "distinct xs \<Longrightarrow> Unique xs = xs" by (simp add: Unique_def)
qed

definition nonzero :: "'a \<Rightarrow> 'a list \<Rightarrow> 'a list" where
  "nonzero zero xs = filter (\<lambda>x. x \<noteq> zero) xs"

definition is_mode :: "'a list \<Rightarrow> 'a \<Rightarrow> bool" where
  "is_mode xs x \<longleftrightarrow> x \<in> set xs \<and> (\<forall>y. count_of xs y \<le> count_of xs x)"

definition top_ok :: "'a \<Rightarrow> 'a list \<Rightarrow> 'a \<times> nat \<Rightarrow> bool" where
  "top_ok zero done best \<longleftrightarrow>
     (if nonzero zero done = [] then best = (zero, 0)
      else is_mode (nonzero zero done) (fst best) \<and> snd best = count_of (nonzero zero done) (fst best))"

lemma nonzero_append [simp]: "nonzero zero (xs @ ys) = nonzero zero xs @ nonzero zero ys"
  by (simp add: nonzero_def)

lemma nonzero_single: "nonzero zero [v] = (if v = zero then [] else [v])"
  by (simp add: nonzero_def)

lemma count_of_append [simp]: "count_of (xs @ ys) x = count_of xs x + count_of ys x"
  by (simp add: count_of_def)

lemma count_of_simps [simp]: "count_of [] x = 0" "count_of (y # ys) x = of_bool (y = x) + count_of ys x"
  by (simp_all add: count_of_def)

lemma top_ok_step:
  assumes "top_ok zero done best" and "v \<noteq> zero"
  defines "n \<equiv> count_of (nonzero zero done) v + 1"
  shows "top_ok zero (done @ [v]) (if n > snd best then (v, n) else best)"
proof (cases "nonzero zero done = []")
  case True
  with assms show ?thesis by (simp add: top_ok_def nonzero_single is_mode_def)
next
  case False
  then have best: "fst best \<in> set (nonzero zero done)" "snd best = count_of (nonzero zero done) (fst best)"
      "count_of (nonzero zero done) y \<le> snd best" for y
    using assms(1) by (simp_all add: top_ok_def is_mode_def)
  show ?thesis
  proof (cases "n > snd best")
    case True
    then have "count_of (nonzero zero done) y \<le> count_of (nonzero zero done) v" for y
      using best(3) [of y] by (simp add: n_def)
    with True assms(2) False show ?thesis
      by (auto simp: top_ok_def is_mode_def nonzero_single n_def le_SucI)
  next
    case False
    with best have "fst best \<noteq> v" by (auto simp: n_def)
    moreover have "count_of (nonzero zero done) y + of_bool (v = y) \<le> snd best" for y
      using best(3) [of y] False by (cases "v = y") (simp_all add: n_def)
    ultimately show ?thesis
      using False best(1,2) assms(2) by (auto simp: top_ok_def is_mode_def nonzero_single)
  qed
qed

lemma most_frequent_top:
  assumes "\<forall>x. counters x = count_of (nonzero zero done) x" and "top_ok zero done best"
  shows "\<exists>n. top_ok zero (done @ xs) (most_frequent zero counters best xs, n)"
  using assms
proof (induction xs arbitrary: counters best "done")
  case Nil
  then show ?case by (cases best) auto
next
  case (Cons v xs)
  show ?case
  proof (cases "v = zero")
    case True
    then have "top_ok zero (done @ [v]) best" using Cons.prems(2) by (simp add: top_ok_def nonzero_single)
    with Cons.IH [of counters "done @ [v]" best] Cons.prems(1) True show ?thesis
      by (cases best) (simp add: nonzero_single)
  next
    case False
    let ?n = "count_of (nonzero zero done) v + 1"
    let ?best = "if ?n > snd best then (v, ?n) else best"
    have "\<exists>n. top_ok zero ((done @ [v]) @ xs) (most_frequent zero (counters(v := ?n)) ?best xs, n)"
      by (rule Cons.IH) (use Cons.prems top_ok_step [OF Cons.prems(2) False] False in \<open>auto simp: nonzero_single\<close>)
    moreover obtain a b where "best = (a, b)" by (cases best)
    moreover have "counters v + 1 = ?n" using Cons.prems(1) by simp
    ultimately show ?thesis using False by (cases "?n > b") (simp_all add: Let_def)
  qed
qed

text \<open>\<open>MostFrequent\<close> is an element with the highest count among those that are not the zero value.\<close>

lemma MostFrequent_mode:
  "if nonzero zero xs = [] then MostFrequent zero xs = zero else is_mode (nonzero zero xs) (MostFrequent zero xs)"
proof -
  have "\<exists>n. top_ok zero ([] @ xs) (most_frequent zero (\<lambda>_. 0) (zero, 0) xs, n)"
    by (rule most_frequent_top) (simp_all add: top_ok_def nonzero_def)
  then show ?thesis by (auto simp: MostFrequent_def top_ok_def split: if_splits)
qed

subsection \<open>Moving elements\<close>

text \<open>Go panics when an index is out of range: \<^const>\<open>None\<close>.\<close>

definition slice_Insert :: "'a list \<Rightarrow> 'a \<Rightarrow> int \<Rightarrow> 'a list option" where
  "slice_Insert s value index =
     (if 0 \<le> index \<and> index \<le> int (length s) then Some (take (nat index) s @ [value] @ drop (nat index) s) else None)"

definition slice_Remove :: "'a list \<Rightarrow> int \<Rightarrow> 'a list option" where
  "slice_Remove s index =
     (if 0 \<le> index \<and> index < int (length s) then Some (remove_nth (nat index) s) else None)"

definition slice_Move :: "'a list \<Rightarrow> int \<Rightarrow> int \<Rightarrow> 'a list option" where
  "slice_Move s srcIndex dstIndex =
     (if 0 \<le> srcIndex \<and> srcIndex < int (length s) then
        Option.bind (slice_Remove s srcIndex) (\<lambda>s'. slice_Insert s' (s ! nat srcIndex) dstIndex)
      else None)"

lemma slice_Move_ok:
  assumes "0 \<le> i" and "i < int (length s)" and "0 \<le> j" and "j < int (length s)"
  shows "\<exists>s'. slice_Move s i j = Some s' \<and> mset s' = mset s \<and> s' ! nat j = s ! nat i"
proof -
  let ?r = "remove_nth (nat i) s"
  have len: "length ?r = length s - 1" using assms(1,2) by (simp add: nat_less_iff)
  let ?s' = "take (nat j) ?r @ [s ! nat i] @ drop (nat j) ?r"
  have "slice_Move s i j = Some ?s'"
    using assms len by (auto simp: slice_Move_def slice_Remove_def slice_Insert_def)
  moreover have "mset ?s' = mset s"
  proof -
    have "mset ?s' = add_mset (s ! nat i) (mset ?r)"
      using mset_append [of "take (nat j) ?r" "drop (nat j) ?r"] by simp
    also have "\<dots> = mset s" using assms(1,2) mset_remove_nth [of "nat i" s] by (simp add: nat_less_iff)
    finally show ?thesis .
  qed
  moreover have "?s' ! nat j = s ! nat i"
    using assms len by (simp add: nth_append)
  ultimately show ?thesis by blast
qed

end
