(* ===== verification/Playlist_Model.thy ===== *)
theory Playlist_Model
  imports Media_File Go_Slices
begin

text \<open>
  \<open>model/playlist.go\<close>: a playlist, the operations on its tracks, and its export to the extended M3U8
  format (\<open>MediaFiles.ToM3U8\<close> of \<open>model/mediafile.go\<close>). The rules of a smart playlist are kept as the
  text of the expression, if there is one, and the refresh window. The invariant
  is that the statistics of a playlist are those of its tracks.
\<close>

record Criteria =
  cr_Expression :: "string option"
  cr_RefreshDelay :: Duration

record PlaylistTrack =
  pt_Source :: string
  pt_VideoID :: string
  pt_ID :: string
  pt_MediaFileID :: string
  pt_PlaylistID :: string
  pt_MediaFile :: MediaFile

record Playlist =
  pl_ID :: string
  pl_Name :: string
  pl_Comment :: string
  pl_Duration :: rat
  pl_Size :: int
  pl_SongCount :: int
  pl_OwnerID :: string
  pl_Public :: bool
  pl_Tracks :: "PlaylistTrack list"
  pl_Path :: string
  pl_Sync :: bool
  pl_UploadedImage :: string
  pl_ExternalImageURL :: string
  pl_HasVideos :: bool
  pl_EvaluatedAt :: "Time option"
  pl_Rules :: "Criteria option"

definition empty_Playlist :: Playlist where
  "empty_Playlist =
     \<lparr>pl_ID = [], pl_Name = [], pl_Comment = [], pl_Duration = 0, pl_Size = 0, pl_SongCount = 0, pl_OwnerID = [],
      pl_Public = False, pl_Tracks = [], pl_Path = [], pl_Sync = False, pl_UploadedImage = [], pl_ExternalImageURL = [],
      pl_HasVideos = False, pl_EvaluatedAt = None,
      pl_Rules = None\<rparr>"

definition IsSmartPlaylist :: "Playlist \<Rightarrow> bool" where
  "IsSmartPlaylist pls \<longleftrightarrow> (case pl_Rules pls of None \<Rightarrow> False | Some r \<Rightarrow> cr_Expression r \<noteq> None)"

definition RefreshDelay :: "Duration \<Rightarrow> Playlist \<Rightarrow> Duration" where
  "RefreshDelay serverDelay pls =
     (case pl_Rules pls of
        Some r \<Rightarrow> if IsSmartPlaylist pls \<and> cr_RefreshDelay r > 0 then cr_RefreshDelay r else serverDelay
      | None \<Rightarrow> serverDelay)"

definition tracks_MediaFiles :: "PlaylistTrack list \<Rightarrow> MediaFile list" where
  "tracks_MediaFiles plt = map pt_MediaFile (filter (\<lambda>t. pt_Source t \<noteq> ''hometube'') plt)"

definition MediaFiles :: "Playlist \<Rightarrow> MediaFile list" where
  "MediaFiles pls = tracks_MediaFiles (pl_Tracks pls)"

definition add_stats :: "PlaylistTrack \<Rightarrow> Playlist \<Rightarrow> Playlist" where
  "add_stats t p = p\<lparr>pl_Duration := pl_Duration p + mf_Duration (pt_MediaFile t),
     pl_Size := pl_Size p + mf_Size (pt_MediaFile t)\<rparr>"

definition refreshStats :: "Playlist \<Rightarrow> Playlist" where
  "refreshStats pls =
     fold add_stats (pl_Tracks pls)
       (pls\<lparr>pl_SongCount := int (length (pl_Tracks pls)), pl_Duration := 0, pl_Size := 0\<rparr>)"

definition SetTracks :: "PlaylistTrack list \<Rightarrow> Playlist \<Rightarrow> Playlist" where
  "SetTracks tracks pls = refreshStats (pls\<lparr>pl_Tracks := tracks\<rparr>)"

definition RemoveTracks :: "int list \<Rightarrow> Playlist \<Rightarrow> Playlist" where
  "RemoveTracks idxToRemove pls =
     (let newTracks = map snd (filter (\<lambda>(i, t). int i \<notin> set idxToRemove) (enumerate 0 (pl_Tracks pls)))
      in refreshStats (pls\<lparr>pl_Tracks := newTracks\<rparr>))"

definition new_track :: "string \<Rightarrow> nat \<Rightarrow> MediaFile \<Rightarrow> PlaylistTrack" where
  "new_track plsId pos mf =
     \<lparr>pt_Source = [], pt_VideoID = [], pt_ID = itoa (int pos), pt_MediaFileID = mf_ID mf, pt_PlaylistID = plsId,
      pt_MediaFile = mf\<rparr>"

text \<open>The loops of \<open>AddMediaFiles\<close> and \<open>AddMediaFilesByID\<close>: a position and the tracks so far.\<close>

fun append_tracks :: "string \<Rightarrow> nat \<Rightarrow> MediaFile list \<Rightarrow> PlaylistTrack list \<Rightarrow> PlaylistTrack list" where
  "append_tracks plsId pos [] tracks = tracks"
| "append_tracks plsId pos (mf # mfs) tracks =
     append_tracks plsId (pos + 1) mfs (tracks @ [new_track plsId (pos + 1) mf])"

definition AddMediaFiles :: "MediaFile list \<Rightarrow> Playlist \<Rightarrow> Playlist" where
  "AddMediaFiles mfs pls =
     refreshStats (pls\<lparr>pl_Tracks := append_tracks (pl_ID pls) (length (pl_Tracks pls)) mfs (pl_Tracks pls)\<rparr>)"

definition AddMediaFilesByID :: "string list \<Rightarrow> Playlist \<Rightarrow> Playlist" where
  "AddMediaFilesByID mediaFileIds pls =
     AddMediaFiles (map (\<lambda>i. empty_MediaFile\<lparr>mf_ID := i\<rparr>) mediaFileIds) pls"

text \<open>The verb \<open>%.f\<close>: the nearest integer, a half to the even one.\<close>

definition round_half_even :: "rat \<Rightarrow> int" where
  "round_half_even q =
     (let f = \<lfloor>q\<rfloor>; r = q - of_int f
      in if r < 1 / 2 then f else if r > 1 / 2 then f + 1 else if even f then f else f + 1)"

definition m3u_entry :: "bool \<Rightarrow> MediaFile \<Rightarrow> string" where
  "m3u_entry absolutePaths t =
     ''#EXTINF:'' @ itoa (round_half_even (mf_Duration t)) @ '','' @ mf_Artist t @ '' - '' @ mf_Title t @ [newline] @
     (if absolutePaths then AbsolutePath t else mf_Path t) @ [newline]"

definition mfs_ToM3U8 :: "string \<Rightarrow> bool \<Rightarrow> MediaFile list \<Rightarrow> string" where
  "mfs_ToM3U8 title absolutePaths mfs =
     ''#EXTM3U'' @ [newline] @ ''#PLAYLIST:'' @ title @ [newline] @ concat (map (m3u_entry absolutePaths) mfs)"

definition ToM3U8 :: "Playlist \<Rightarrow> string" where
  "ToM3U8 pls = mfs_ToM3U8 (pl_Name pls) True (MediaFiles pls)"

subsection \<open>Statistics\<close>

definition stats_ok :: "Playlist \<Rightarrow> bool" where
  "stats_ok pls \<longleftrightarrow>
     pl_SongCount pls = int (length (pl_Tracks pls)) \<and>
     pl_Duration pls = sum_list (map (mf_Duration \<circ> pt_MediaFile) (pl_Tracks pls)) \<and>
     pl_Size pls = sum_list (map (mf_Size \<circ> pt_MediaFile) (pl_Tracks pls))"

declare stats_ok_def [inv_defs]

lemma refreshStats_eq:
  "refreshStats pls = pls\<lparr>pl_SongCount := int (length (pl_Tracks pls)),
     pl_Duration := sum_list (map (mf_Duration \<circ> pt_MediaFile) (pl_Tracks pls)),
     pl_Size := sum_list (map (mf_Size \<circ> pt_MediaFile) (pl_Tracks pls))\<rparr>"
proof -
  have "fold add_stats ts p =
      p\<lparr>pl_Duration := pl_Duration p + sum_list (map (mf_Duration \<circ> pt_MediaFile) ts),
        pl_Size := pl_Size p + sum_list (map (mf_Size \<circ> pt_MediaFile) ts)\<rparr>" for ts p
    by (induction ts arbitrary: p) (simp_all add: add_stats_def add.assoc)
  then show ?thesis by (simp add: refreshStats_def)
qed

lemma refreshStats_simps [simp]:
  "pl_Tracks (refreshStats pls) = pl_Tracks pls" "stats_ok (refreshStats pls)" "pl_ID (refreshStats pls) = pl_ID pls"
  "pl_Name (refreshStats pls) = pl_Name pls"
  by (simp_all add: refreshStats_eq stats_ok_def)

lemma append_tracks_eq:
  "append_tracks plsId pos mfs tracks = tracks @ map (\<lambda>(i, mf). new_track plsId (Suc i) mf) (enumerate pos mfs)"
  by (induction mfs arbitrary: pos tracks) simp_all

lemma AddMediaFiles_tracks:
  "pl_Tracks (AddMediaFiles mfs pls) =
     pl_Tracks pls @ map (\<lambda>(i, mf). new_track (pl_ID pls) (Suc i) mf) (enumerate (length (pl_Tracks pls)) mfs)"
  by (simp add: AddMediaFiles_def append_tracks_eq)

lemma map_enumerate_snd: "map (f \<circ> snd) (enumerate n xs) = map f xs"
  by (metis map_map map_snd_enumerate)

lemma AddMediaFiles_mfs:
  "map pt_MediaFile (pl_Tracks (AddMediaFiles mfs pls)) = map pt_MediaFile (pl_Tracks pls) @ mfs"
proof -
  have "map (pt_MediaFile \<circ> (\<lambda>(i, mf). new_track (pl_ID pls) (Suc i) mf)) (enumerate n mfs) = mfs" for n
    by (induction mfs arbitrary: n) (simp_all add: new_track_def)
  then show ?thesis by (simp add: AddMediaFiles_tracks)
qed

lemma AddMediaFiles_MediaFiles: "MediaFiles (AddMediaFiles mfs pls) = MediaFiles pls @ mfs"
proof -
  have "tracks_MediaFiles (map (\<lambda>(i, mf). new_track p (Suc i) mf) (enumerate n mfs)) = mfs" for n p
    by (induction mfs arbitrary: n) (simp_all add: new_track_def tracks_MediaFiles_def)
  then show ?thesis by (simp add: MediaFiles_def AddMediaFiles_tracks tracks_MediaFiles_def)
qed

text \<open>The tracks that \<open>RemoveTracks\<close> keeps are those at the positions that were not named, in order.\<close>

lemma filter_enumerate_nths:
  "map snd (filter (\<lambda>(i, t). P i) (enumerate n xs)) = nths xs {i. P (n + i)}"
  by (induction xs arbitrary: n) (simp_all add: nths_Cons add.commute)

lemma RemoveTracks_tracks:
  "pl_Tracks (RemoveTracks idx pls) = nths (pl_Tracks pls) {i. int i \<notin> set idx}"
  by (simp add: RemoveTracks_def Let_def filter_enumerate_nths)

end
