(* ===== verification/M3u_Import.thy ===== *)
theory M3u_Import
  imports M3u_Paths Playlist_Model
begin

text \<open>
  \<open>parseM3U\<close> of \<open>core/playlists/parse_m3u.go\<close>, with the readers it uses (\<open>LinesFrom\<close> and
  \<open>CollectChunks\<close> of \<open>utils/slice/slice.go\<close>), \<open>IsAudioFile\<close> of \<open>model/file_types.go\<close> and the query of
  \<open>FindByPaths\<close> of \<open>persistence/mediafile_repository.go\<close>. Parameters are the Unicode normal forms
  (\<open>golang.org/x/text\<close>), the system's table of MIME types, the configuration, the name given to a
  playlist without one (the current time) and the answer of the database. The whole text is at
  hand: the limit of \<open>bufio.Scanner\<close> on the length of a line is not modelled.
\<close>

record m3u_env =
  me_nfc :: "string \<Rightarrow> string"
  me_nfd :: "string \<Rightarrow> string"
  me_mimeByExtension :: "string \<Rightarrow> string"
  me_enableExternalAlbumArt :: bool
  me_findByPaths :: "string list \<Rightarrow> MediaFile list option"
  me_now :: string

subsection \<open>Audio files\<close>

text \<open>\<open>filepath.Ext\<close>: from the last dot of the last element of the path.\<close>

definition path_ext :: "string \<Rightarrow> string" where
  "path_ext p =
     (let name = takeWhile (\<lambda>c. c \<noteq> slash) (rev p)
      in if CHR ''.'' \<in> set name then rev (takeWhile (\<lambda>c. c \<noteq> CHR ''.'') name @ ''.'') else [])"

definition excludeAudioType :: "string list" where
  "excludeAudioType = [''audio/mpegurl'', ''audio/x-mpegurl'', ''audio/x-scpls'']"

definition IsAudioFile :: "(string \<Rightarrow> string) \<Rightarrow> string \<Rightarrow> bool" where
  "IsAudioFile mimeByExtension filePath =
     (let mimeType = mimeByExtension (path_ext filePath)
      in mimeType \<notin> set excludeAudioType \<and> has_prefix mimeType ''audio/'')"

subsection \<open>Lines of a playlist\<close>

definition m3u_line ::
  "m3u_env \<Rightarrow> Folder option \<Rightarrow> libraryMatcher \<Rightarrow> string \<Rightarrow> Playlist \<Rightarrow> string option \<times> Playlist" where
  "m3u_line env folder matcher line0 pls =
     (let line = trim_space line0
      in case cut_prefix line ''#PLAYLIST:'' of
           Some after \<Rightarrow> (None, pls\<lparr>pl_Name := after\<rparr>)
         | None \<Rightarrow>
        (case cut_prefix line ''#EXTALBUMARTURL:'' of
           Some after \<Rightarrow>
             (None, pls\<lparr>pl_ExternalImageURL :=
                resolveImageURL (me_enableExternalAlbumArt env) after folder matcher\<rparr>)
         | None \<Rightarrow>
             if line = [] \<or> has_prefix line ''#'' then (None, pls)
             else
               let line = (case cut_prefix line ''file://'' of
                             Some after \<Rightarrow> (case path_unescape after of Some l \<Rightarrow> l | None \<Rightarrow> [])
                           | None \<Rightarrow> line)
               in if \<not> IsAudioFile (me_mimeByExtension env) line then (None, pls) else (Some line, pls)))"

fun filter_lines ::
  "m3u_env \<Rightarrow> Folder option \<Rightarrow> libraryMatcher \<Rightarrow> string list \<Rightarrow> Playlist \<Rightarrow> string list \<times> Playlist" where
  "filter_lines env folder matcher [] pls = ([], pls)"
| "filter_lines env folder matcher (line # lines) pls =
     (let (kept, pls1) = m3u_line env folder matcher line pls;
          (rest, pls2) = filter_lines env folder matcher lines pls1
      in (case kept of None \<Rightarrow> rest | Some l \<Rightarrow> l # rest, pls2))"

subsection \<open>Looking the files up\<close>

definition add_candidate :: "string \<Rightarrow> string list \<Rightarrow> string list" where
  "add_candidate c cs = (if c \<in> set cs then cs else cs @ [c])"

definition add_candidates :: "m3u_env \<Rightarrow> string \<Rightarrow> string list \<Rightarrow> string list" where
  "add_candidates env path cs =
     (let nfcRaw = me_nfc env path; nfdRaw = me_nfd env path
      in add_candidate (to_lower nfdRaw) (add_candidate (to_lower nfcRaw)
           (add_candidate nfdRaw (add_candidate nfcRaw cs))))"

definition lookup_candidates :: "m3u_env \<Rightarrow> string list \<Rightarrow> string list" where
  "lookup_candidates env resolvedPaths = fold (add_candidates env) resolvedPaths []"

definition file_key :: "m3u_env \<Rightarrow> MediaFile \<Rightarrow> string" where
  "file_key env f = itoa (mf_LibraryID f) @ '':'' @ to_lower (me_nfc env (mf_Path f))"

definition existing_index :: "m3u_env \<Rightarrow> MediaFile list \<Rightarrow> string \<rightharpoonup> nat" where
  "existing_index env found = fold (\<lambda>(i, f) m. m(file_key env f \<mapsto> i)) (enumerate 0 found) Map.empty"

definition pick_files :: "m3u_env \<Rightarrow> MediaFile list \<Rightarrow> string list \<Rightarrow> MediaFile list" where
  "pick_files env found resolvedPaths =
     List.map_filter
       (\<lambda>path. map_option (\<lambda>i. found ! i) (existing_index env found (to_lower (me_nfc env path))))
       resolvedPaths"

text \<open>The query of \<open>FindByPaths\<close>: SQLite's \<open>NOCASE\<close> folds ASCII letters; the library filter keeps what the
  user may see.\<close>

definition path_matches :: "string \<Rightarrow> MediaFile \<Rightarrow> bool" where
  "path_matches path f =
     (case split2 (CHR '':'') path of
        Some (lib, relativePath) \<Rightarrow>
          (case atoi lib of
             None \<Rightarrow> False
           | Some libraryID \<Rightarrow> equal_fold (mf_Path f) relativePath \<and> mf_LibraryID f = libraryID)
      | None \<Rightarrow> equal_fold (mf_Path f) path)"

definition FindByPaths :: "(int \<Rightarrow> bool) \<Rightarrow> MediaFile list \<Rightarrow> string list \<Rightarrow> MediaFile list" where
  "FindByPaths visible table paths =
     filter (\<lambda>f. visible (mf_LibraryID f) \<and> list_ex (\<lambda>p. path_matches p f) paths) table"

subsection \<open>The import\<close>

definition parse_chunk ::
  "m3u_env \<Rightarrow> Folder option \<Rightarrow> libraryMatcher \<Rightarrow> string list \<Rightarrow> Playlist \<times> MediaFile list \<Rightarrow>
   Playlist \<times> MediaFile list" where
  "parse_chunk env folder matcher lines st =
     (let (pls, mfs) = st;
          (filteredLines, pls1) = filter_lines env folder matcher lines pls;
          resolvedPaths = resolvePaths matcher folder filteredLines
      in case me_findByPaths env (lookup_candidates env resolvedPaths) of
           None \<Rightarrow> (pls1, mfs)
         | Some found \<Rightarrow> (pls1, mfs @ pick_files env found resolvedPaths))"

definition parseM3U ::
  "m3u_env \<Rightarrow> (string + Library list) \<Rightarrow> Folder option \<Rightarrow> string \<Rightarrow> Playlist \<Rightarrow> string + Playlist" where
  "parseM3U env libraries folder content pls =
     (case libraries of
        Inl err \<Rightarrow> Inl err
      | Inr libs \<Rightarrow>
          let (pls1, mfs) =
                fold (parse_chunk env folder (newLibraryMatcher libs)) (CollectChunks (LinesFrom content) 100) (pls, []);
              pls2 = (if pl_Name pls1 = [] then pls1\<lparr>pl_Name := me_now env\<rparr> else pls1)
          in Inr (AddMediaFiles mfs (pls2\<lparr>pl_Tracks := []\<rparr>)))"

subsection \<open>Looking up: lemmas\<close>

lemma set_add_candidate [simp]: "set (add_candidate c cs) = insert c (set cs)"
  by (auto simp: add_candidate_def)

lemma set_lookup_candidates:
  "set (lookup_candidates env ps) =
     (\<Union>p \<in> set ps. {me_nfc env p, me_nfd env p, to_lower (me_nfc env p), to_lower (me_nfd env p)})"
proof -
  have "set (fold (add_candidates env) ps cs) = set cs \<union>
      (\<Union>p \<in> set ps. {me_nfc env p, me_nfd env p, to_lower (me_nfc env p), to_lower (me_nfd env p)})" for cs
    by (induction ps arbitrary: cs) (auto simp: add_candidates_def Let_def)
  then show ?thesis by (simp add: lookup_candidates_def)
qed

lemma nfc_candidate: "p \<in> set ps \<Longrightarrow> me_nfc env p \<in> set (lookup_candidates env ps)"
  unfolding set_lookup_candidates by blast

lemma existing_index_map_of:
  "existing_index env found = map_of (rev (map (\<lambda>(i, f). (file_key env f, i)) (enumerate 0 found)))"
proof -
  have "fold (\<lambda>(i, f) m. m(file_key env f \<mapsto> i)) xs m = m ++ map_of (rev (map (\<lambda>(i, f). (file_key env f, i)) xs))"
    for xs :: "(nat \<times> MediaFile) list" and m
    by (induction xs arbitrary: m) (auto simp: map_add_def split: option.splits)
  then show ?thesis by (simp only: existing_index_def empty_map_add)
qed

lemma existing_index_Some:
  "existing_index env found k = Some i \<Longrightarrow> i < length found \<and> file_key env (found ! i) = k"
  unfolding existing_index_map_of by (auto dest!: map_of_SomeD simp: in_set_enumerate_eq)

lemma existing_index_found:
  assumes "f \<in> set found" and "distinct (map (file_key env) found)"
  shows "map_option (\<lambda>i. found ! i) (existing_index env found (file_key env f)) = Some f"
proof -
  obtain j where j: "j < length found" "found ! j = f" using assms(1) by (meson in_set_conv_nth)
  then have "(j, f) \<in> set (enumerate 0 found)" by (simp add: in_set_enumerate_eq)
  then have "(file_key env f, j) \<in> set (rev (map (\<lambda>(i, f). (file_key env f, i)) (enumerate 0 found)))" by force
  then have "file_key env f \<in> dom (existing_index env found)"
    unfolding existing_index_map_of dom_map_of_conv_image_fst by (metis fst_conv image_eqI)
  then obtain i where i: "existing_index env found (file_key env f) = Some i" by blast
  note existing_index_Some [OF i]
  moreover from this have "found ! i \<in> set found" by simp
  ultimately have "found ! i = f" using assms by (auto simp: distinct_map inj_on_def)
  with i show ?thesis by simp
qed

lemma pick_files_all:
  assumes "distinct (map (file_key env) found)" and "set fs \<subseteq> set found"
    and "\<And>f. f \<in> set fs \<Longrightarrow> to_lower (me_nfc env (q f)) = file_key env f"
  shows "pick_files env found (map q fs) = fs"
  using assms(2,3)
proof (induction fs)
  case (Cons f fs)
  obtain i where "existing_index env found (to_lower (me_nfc env (q f))) = Some i" "found ! i = f"
    using existing_index_found [OF _ assms(1), of f] Cons.prems by auto
  with Cons show ?case by (simp add: pick_files_def List.map_filter_simps)
qed (simp add: pick_files_def List.map_filter_simps)

lemma lower_itoa: "to_lower (itoa n) = itoa n"
proof -
  have "lower_byte c = c" if "c \<in> set (itoa n)" for c
    using itoa_chars [OF that] by (auto simp: lower_byte_def)
  then show ?thesis unfolding to_lower_def by (simp add: map_idI)
qed

lemma itoa_no_colon: "CHR '':'' \<notin> set (itoa n)"
  using itoa_chars [of "CHR '':''" n] by auto

subsection \<open>Export and import\<close>

text \<open>The kinds of lines that an export has, and what importing such a line does.\<close>

datatype m3u_tag = TitleLine string | CommentLine | TrackLine MediaFile

definition tag_files :: "(string \<times> m3u_tag) list \<Rightarrow> MediaFile list" where
  "tag_files ts = List.map_filter (\<lambda>t. case snd t of TrackLine f \<Rightarrow> Some f | _ \<Rightarrow> None) ts"

definition tag_pls :: "string \<times> m3u_tag \<Rightarrow> Playlist \<Rightarrow> Playlist" where
  "tag_pls t pls = (case snd t of TitleLine name \<Rightarrow> pls\<lparr>pl_Name := name\<rparr> | _ \<Rightarrow> pls)"

definition tag_ok :: "m3u_env \<Rightarrow> libraryMatcher \<Rightarrow> string \<times> m3u_tag \<Rightarrow> bool" where
  "tag_ok env m t \<longleftrightarrow>
     (\<forall>pls. m3u_line env None m (fst t) pls =
        (case snd t of TrackLine f \<Rightarrow> Some (AbsolutePath f) | _ \<Rightarrow> None, tag_pls t pls))"

lemma filter_lines_tagged:
  "list_all (tag_ok env m) ts \<Longrightarrow>
    filter_lines env None m (map fst ts) pls = (map AbsolutePath (tag_files ts), fold tag_pls ts pls)"
proof (induction ts arbitrary: pls)
  case (Cons t ts)
  then show ?case
    by (cases "snd t") (simp_all add: tag_ok_def tag_files_def List.map_filter_simps)
qed (simp add: tag_files_def List.map_filter_simps)

text \<open>A file that an export names in a way the import finds again.\<close>

definition exportable :: "m3u_env \<Rightarrow> Library list \<Rightarrow> (int \<Rightarrow> bool) \<Rightarrow> MediaFile list \<Rightarrow> MediaFile \<Rightarrow> bool" where
  "exportable env libs visible table f \<longleftrightarrow>
     f \<in> set table \<and> visible (mf_LibraryID f) \<and> in_int64 (mf_LibraryID f) \<and>
     list_ex (\<lambda>l. lb_ID l = mf_LibraryID f \<and> lb_Path l = mf_LibraryPath f \<and>
       best_library libs (AbsolutePath f) l) libs \<and>
     clean (mf_LibraryPath f @ slash # mf_Path f) = mf_LibraryPath f @ slash # mf_Path f \<and>
     me_nfc env (mf_Path f) = mf_Path f \<and>
     one_line (mf_Artist f @ mf_Title f @ AbsolutePath f) \<and> trim_space (AbsolutePath f) = AbsolutePath f \<and>
     IsAudioFile (me_mimeByExtension env) (AbsolutePath f)"

definition qualified_path :: "MediaFile \<Rightarrow> string" where
  "qualified_path f = itoa (mf_LibraryID f) @ '':'' @ mf_Path f"

lemma exportable_AbsolutePath:
  assumes "exportable env libs visible table f" and "proper_libs libs"
  shows "AbsolutePath f = mf_LibraryPath f @ slash # mf_Path f \<and> is_abs (AbsolutePath f)"
proof -
  obtain l where "l \<in> set libs" "lb_Path l = mf_LibraryPath f"
    using assms(1) by (auto simp: exportable_def list_ex_iff)
  with proper_libsD [OF assms(2)] have a: "is_abs (mf_LibraryPath f)" by metis
  then have "mf_LibraryPath f \<noteq> []" by (auto simp: is_abs_def has_prefix_def)
  then have p: "AbsolutePath f = mf_LibraryPath f @ slash # mf_Path f"
    using assms(1) by (simp add: AbsolutePath_def path_join_def exportable_def)
  moreover have "is_abs (AbsolutePath f)" using a unfolding p by (auto simp: is_abs_def has_prefix_iff)
  ultimately show ?thesis by blast
qed

lemma resolve_exportable:
  assumes "exportable env libs visible table f" and "proper_libs libs" and "distinct (map lb_Path libs)"
  shows "resolvePaths (newLibraryMatcher libs) None [AbsolutePath f] = [qualified_path f]"
proof -
  note p = exportable_AbsolutePath [OF assms(1,2)]
  have c: "absolute_path None (AbsolutePath f) = AbsolutePath f"
    using assms(1) p by (simp add: absolute_path_def exportable_def)
  obtain l where l: "lb_ID l = mf_LibraryID f" "lb_Path l = mf_LibraryPath f"
      "best_library libs (AbsolutePath f) l"
    using assms(1) by (auto simp: exportable_def list_ex_iff)
  from resolve_line [OF assms(2), where folder = None and line = "AbsolutePath f", unfolded c]
  obtain l' r where r: "best_library libs (AbsolutePath f) l'" "below (lb_Path l') r (AbsolutePath f)"
      "resolvePaths (newLibraryMatcher libs) None [AbsolutePath f] = [itoa (lb_ID l') @ '':'' @ r]"
    using l(3) unfolding best_library_def by blast
  have "l' = l"
    using best_library_unique [OF r(1) l(3)] r(1) l(3) assms(3)
    unfolding best_library_def distinct_map inj_on_def by blast
  with r(2) p l(2) have "r = mf_Path f" by (simp add: below_def)
  with r(3) \<open>l' = l\<close> l(1) show ?thesis by (simp add: qualified_path_def)
qed

lemma resolve_exportables:
  assumes "\<And>f. f \<in> set fs \<Longrightarrow> exportable env libs visible table f" and "proper_libs libs"
    and "distinct (map lb_Path libs)"
  shows "resolvePaths (newLibraryMatcher libs) None (map AbsolutePath fs) = map qualified_path fs"
  using assms(1)
proof (induction fs)
  case (Cons f fs)
  have "resolvePaths (newLibraryMatcher libs) None ([AbsolutePath f] @ map AbsolutePath fs) = map qualified_path (f # fs)"
    using resolve_exportable [OF Cons.prems assms(2,3), of f] Cons
    unfolding resolvePaths_append by (simp del: resolvePaths.simps)
  then show ?case by simp
qed simp

text \<open>What is known of the Unicode normal form: it leaves the ASCII text before a path alone.\<close>

definition nfc_prefix :: "(string \<Rightarrow> string) \<Rightarrow> bool" where
  "nfc_prefix nfc \<longleftrightarrow> (\<forall>n p. nfc (itoa n @ '':'' @ p) = itoa n @ '':'' @ nfc p)"

lemma lookup_exportables:
  assumes ex: "\<And>f. f \<in> set fs \<Longrightarrow> exportable env libs visible table f"
    and "nfc_prefix (me_nfc env)" and "distinct (map (file_key env) table)"
  defines "found \<equiv> FindByPaths visible table (lookup_candidates env (map qualified_path fs))"
  shows "pick_files env found (map qualified_path fs) = fs"
proof (rule pick_files_all)
  show "distinct (map (file_key env) found)"
    using assms(3) by (simp add: found_def FindByPaths_def distinct_map_filter)
  have q: "me_nfc env (qualified_path f) = qualified_path f" if "f \<in> set fs" for f
    using ex [OF that] assms(2) by (simp add: qualified_path_def nfc_prefix_def exportable_def)
  show "set fs \<subseteq> set found"
  proof
    fix f
    assume f: "f \<in> set fs"
    then have "qualified_path f \<in> set (lookup_candidates env (map qualified_path fs))"
      using nfc_candidate [of "qualified_path f" "map qualified_path fs" env] q by simp
    moreover have "path_matches (qualified_path f) f"
      using ex [OF f] itoa_no_colon
      by (simp add: path_matches_def qualified_path_def atoi_itoa exportable_def)
    ultimately show "f \<in> set found"
      using ex [OF f] by (auto simp: found_def FindByPaths_def exportable_def list_ex_iff)
  qed
  show "to_lower (me_nfc env (qualified_path f)) = file_key env f" if "f \<in> set fs" for f
    using q [OF that] ex [OF that] lower_itoa [of "mf_LibraryID f"]
    by (simp add: qualified_path_def file_key_def exportable_def to_lower_def lower_byte_def)
qed

lemma parse_chunks_tagged:
  assumes ok: "\<And>t. t \<in> set (concat chs) \<Longrightarrow> tag_ok env (newLibraryMatcher libs) t"
    and ex: "\<And>f. f \<in> set (tag_files (concat chs)) \<Longrightarrow> exportable env libs visible table f"
    and libs: "proper_libs libs" "distinct (map lb_Path libs)"
    and db: "nfc_prefix (me_nfc env)" "distinct (map (file_key env) table)"
      "me_findByPaths env = Some \<circ> FindByPaths visible table"
  shows "fold (parse_chunk env None (newLibraryMatcher libs)) (map (map fst) chs) (pls, mfs) =
    (fold tag_pls (concat chs) pls, mfs @ tag_files (concat chs))"
  using ok ex
proof (induction chs arbitrary: pls mfs)
  case Nil
  show ?case by (simp add: tag_files_def List.map_filter_simps)
next
  case (Cons ch chs)
  have split: "tag_files (concat (ch # chs)) = tag_files ch @ tag_files (concat chs)"
    by (simp add: tag_files_def List.map_filter_def)
  have tags: "list_all (tag_ok env (newLibraryMatcher libs)) ch" using Cons.prems(1) by (simp add: list_all_iff)
  have fs: "exportable env libs visible table f" if "f \<in> set (tag_files ch)" for f
    using Cons.prems(2) that split by simp
  have "parse_chunk env None (newLibraryMatcher libs) (map fst ch) (pls, mfs) =
      (fold tag_pls ch pls, mfs @ tag_files ch)"
    by (simp add: parse_chunk_def filter_lines_tagged [OF tags] resolve_exportables [OF fs libs] db(3)
        lookup_exportables [OF fs db(1,2)])
  moreover have "fold (parse_chunk env None (newLibraryMatcher libs)) (map (map fst) chs)
      (fold tag_pls ch pls, mfs @ tag_files ch) =
      (fold tag_pls (concat chs) (fold tag_pls ch pls), (mfs @ tag_files ch) @ tag_files (concat chs))"
    using Cons.prems split by (intro Cons.IH) simp_all
  ultimately show ?case using split by simp
qed

lemma trim_space_comment:
  assumes "p \<noteq> []" and "list_all (\<lambda>c. \<not> is_space c) p"
  shows "\<exists>s'. trim_space (p @ s) = p @ s'"
proof -
  have l: "dropWhile is_space (p @ s) = p @ s" using assms by (cases p) simp_all
  have r: "dropWhile is_space (rev p) = rev p"
    using assms by (cases "rev p") (simp_all add: list_all_iff dropWhile_eq_self_iff)
  show ?thesis
  proof (cases "\<forall>c \<in> set s. is_space c")
    case True
    then have "trim_space (p @ s) = p @ []" using l r by (simp add: trim_space_def dropWhile_append)
    then show ?thesis by blast
  next
    case False
    then have "trim_space (p @ s) = p @ rev (dropWhile is_space (rev s))"
      using l by (auto simp: trim_space_def dropWhile_append)
    then show ?thesis by blast
  qed
qed

lemma comment_line: "tag_ok env m (''#EXTINF:'' @ s, CommentLine)" "tag_ok env m (''#EXTM3U'', CommentLine)"
proof -
  obtain s' where "trim_space (''#EXTINF:'' @ s) = ''#EXTINF:'' @ s'"
    using trim_space_comment [of "''#EXTINF:''" s] by (auto simp: is_space_def)
  then show "tag_ok env m (''#EXTINF:'' @ s, CommentLine)"
    by (simp add: tag_ok_def m3u_line_def tag_pls_def cut_prefix_def has_prefix_def)
  have "trim_space ''#EXTM3U'' = ''#EXTM3U''" by code_simp
  then show "tag_ok env m (''#EXTM3U'', CommentLine)"
    by (simp add: tag_ok_def m3u_line_def tag_pls_def cut_prefix_def has_prefix_def)
qed

lemma title_line:
  assumes "title \<noteq> []" and "\<not> is_space (last title)"
  shows "tag_ok env m (''#PLAYLIST:'' @ title, TitleLine title)"
proof -
  have "dropWhile is_space (rev title @ rev ''#PLAYLIST:'') = rev title @ rev ''#PLAYLIST:''"
    using assms by (cases "rev title") (simp_all add: rev_eq_Cons_iff)
  then have "trim_space (''#PLAYLIST:'' @ title) = ''#PLAYLIST:'' @ title"
    by (simp add: trim_space_def is_space_def)
  then show ?thesis
    by (simp add: tag_ok_def m3u_line_def tag_pls_def cut_prefix_def has_prefix_def)
qed

lemma track_line:
  assumes "exportable env libs visible table f" and "proper_libs libs"
  shows "tag_ok env m (AbsolutePath f, TrackLine f)"
proof -
  obtain r where r: "AbsolutePath f = slash # r"
    using exportable_AbsolutePath [OF assms, THEN conjunct2] by (auto simp: is_abs_def has_prefix_iff)
  with assms(1) show ?thesis
    by (simp add: tag_ok_def m3u_line_def tag_pls_def cut_prefix_def has_prefix_def exportable_def)
qed

definition extinf :: "MediaFile \<Rightarrow> string" where
  "extinf t = ''#EXTINF:'' @ itoa (round_half_even (mf_Duration t)) @ '','' @ mf_Artist t @ '' - '' @ mf_Title t"

definition export_tags :: "string \<Rightarrow> MediaFile list \<Rightarrow> (string \<times> m3u_tag) list" where
  "export_tags title mfs = (''#EXTM3U'', CommentLine) # (''#PLAYLIST:'' @ title, TitleLine title) #
     concat (map (\<lambda>f. [(extinf f, CommentLine), (AbsolutePath f, TrackLine f)]) mfs)"

lemma export_lines:
  "mfs_ToM3U8 title True mfs = concat (map (\<lambda>l. l @ [newline]) (map fst (export_tags title mfs)))"
proof -
  have "concat (map (m3u_entry True) mfs) =
      concat (map (\<lambda>l. l @ [newline]) (map fst (concat (map (\<lambda>f. [(extinf f, CommentLine), (AbsolutePath f, TrackLine f)]) mfs))))"
    by (induction mfs) (simp_all add: m3u_entry_def extinf_def)
  then show ?thesis by (simp add: mfs_ToM3U8_def export_tags_def)
qed

lemma one_line_itoa [simp]: "one_line (itoa n)"
proof -
  have "\<not> is_break c" if "c \<in> set (itoa n)" for c
    using itoa_chars [OF that] by (auto simp: is_break_def)
  then show ?thesis by (simp add: one_line_def list_all_iff)
qed

lemma export_one_line:
  assumes "list_all (exportable env libs visible table) mfs" and "one_line title"
  shows "list_all one_line (map fst (export_tags title mfs))"
proof -
  have lit: "one_line ''#EXTINF:''" "one_line '',''" "one_line '' - ''" "one_line ''#EXTM3U''" "one_line ''#PLAYLIST:''"
    by code_simp+
  have "one_line (extinf f) \<and> one_line (AbsolutePath f)" if "f \<in> set mfs" for f
    using assms(1) that lit(1-3) unfolding extinf_def by (simp add: list_all_iff exportable_def del: append_Cons)
  moreover have "one_line (''#PLAYLIST:'' @ title)" using assms(2) lit(5) unfolding one_line_append by blast
  ultimately show ?thesis using lit(4) unfolding export_tags_def by (auto simp: list_all_iff)
qed

lemma export_tags_files: "tag_files (export_tags title mfs) = mfs"
proof -
  have "tag_files (concat (map (\<lambda>f. [(extinf f, CommentLine), (AbsolutePath f, TrackLine f)]) mfs)) = mfs"
    by (induction mfs) (simp_all add: tag_files_def List.map_filter_simps)
  then show ?thesis by (simp add: export_tags_def tag_files_def List.map_filter_simps)
qed

lemma export_tags_pls: "fold tag_pls (export_tags title mfs) pls = pls\<lparr>pl_Name := title\<rparr>"
proof -
  have "fold tag_pls (concat (map (\<lambda>f. [(extinf f, CommentLine), (AbsolutePath f, TrackLine f)]) mfs)) p = p" for p
    by (induction mfs) (simp_all add: tag_pls_def)
  then show ?thesis by (simp add: export_tags_def tag_pls_def)
qed

lemma export_tags_ok:
  assumes "list_all (exportable env libs visible table) mfs" and "proper_libs libs"
    and "title \<noteq> []" and "\<not> is_space (last title)" and "t \<in> set (export_tags title mfs)"
  shows "tag_ok env m t"
proof -
  consider "t = (''#EXTM3U'', CommentLine)" | "t = (''#PLAYLIST:'' @ title, TitleLine title)"
    | f where "f \<in> set mfs" "t = (extinf f, CommentLine)"
    | f where "f \<in> set mfs" "t = (AbsolutePath f, TrackLine f)"
    using assms(5) unfolding export_tags_def by auto
  then show ?thesis
    using assms(1) comment_line title_line [OF assms(3,4)] track_line [OF _ assms(2)]
    unfolding extinf_def list_all_iff by cases blast+
qed

text \<open>
  C5: exporting a playlist and importing the export gives the playlist back. For libraries with
  distinct clean paths below the root and a table in which no two files have the same key, if every
  audio file of the playlist is in the table, visible, at a clean path of one line in normal form and
  in no library inside its own, then importing the text of \<open>ToM3U8\<close> succeeds and the imported
  playlist has the same files in the same order, however the lines fall into chunks, the name of
  the exported playlist and statistics that are those of its tracks.
\<close>

theorem m3u_export_import:
  assumes libs: "proper_libs libs" "distinct (map lb_Path libs)"
    and db: "nfc_prefix (me_nfc env)" "distinct (map (file_key env) table)"
      "me_findByPaths env = Some \<circ> FindByPaths visible table"
    and files: "list_all (exportable env libs visible table) (MediaFiles pls)"
    and name: "pl_Name pls \<noteq> []" "\<not> is_space (last (pl_Name pls))" "one_line (pl_Name pls)"
  shows "\<exists>imported. parseM3U env (Inr libs) None (ToM3U8 pls) pls0 = Inr imported \<and>
    MediaFiles imported = MediaFiles pls \<and> pl_Name imported = pl_Name pls \<and> stats_ok imported"
proof -
  let ?tags = "export_tags (pl_Name pls) (MediaFiles pls)"
  have lines: "LinesFrom (ToM3U8 pls) = map fst ?tags"
    unfolding ToM3U8_def export_lines by (rule LinesFrom_lines [OF export_one_line [OF files name(3)]])
  have "fold (parse_chunk env None (newLibraryMatcher libs)) (map (map fst) (CollectChunks ?tags 100)) (pls0, []) =
      (fold tag_pls (concat (CollectChunks ?tags 100)) pls0, [] @ tag_files (concat (CollectChunks ?tags 100)))"
    by (rule parse_chunks_tagged [OF _ _ libs db])
      (use export_tags_ok [OF files libs(1) name(1,2)] files in
        \<open>simp_all add: concat_CollectChunks export_tags_files list_all_iff\<close>)
  then have "fold (parse_chunk env None (newLibraryMatcher libs)) (CollectChunks (LinesFrom (ToM3U8 pls)) 100) (pls0, []) =
      (pls0\<lparr>pl_Name := pl_Name pls\<rparr>, MediaFiles pls)"
    by (simp add: lines CollectChunks_map concat_CollectChunks export_tags_files export_tags_pls)
  then have "parseM3U env (Inr libs) None (ToM3U8 pls) pls0 =
      Inr (AddMediaFiles (MediaFiles pls) (pls0\<lparr>pl_Name := pl_Name pls, pl_Tracks := []\<rparr>))"
    using name(1) by (simp add: parseM3U_def)
  moreover have "MediaFiles (p\<lparr>pl_Tracks := []\<rparr>) = []" for p :: Playlist
    by (simp add: MediaFiles_def tracks_MediaFiles_def)
  ultimately show ?thesis by (simp add: AddMediaFiles_MediaFiles) (simp add: AddMediaFiles_def)
qed

definition m3u_example_file :: "string \<Rightarrow> string \<Rightarrow> MediaFile" where
  "m3u_example_file i path = empty_MediaFile\<lparr>mf_ID := i, mf_LibraryID := 1, mf_LibraryPath := ''/music'', mf_Path := path,
     mf_Title := ''T'', mf_Artist := ''A'', mf_Duration := 60\<rparr>"

definition example_table :: "MediaFile list" where
  "example_table = [m3u_example_file ''1'' ''a.mp3'', m3u_example_file ''2'' ''b/c.mp3'']"

definition m3u_example_env :: m3u_env where
  "m3u_example_env = \<lparr>me_nfc = id, me_nfd = id,
     me_mimeByExtension = (\<lambda>e. if e = ''.mp3'' then ''audio/mpeg'' else []),
     me_enableExternalAlbumArt = False, me_findByPaths = Some \<circ> FindByPaths (\<lambda>_. True) example_table,
     me_now = ''2026-01-01T00:00:00Z''\<rparr>"

definition example_playlist :: Playlist where
  "example_playlist = AddMediaFiles (rev example_table) (empty_Playlist\<lparr>pl_Name := ''Mix''\<rparr>)"

theorem m3u_export_import_witness:
  "\<exists>imported. parseM3U m3u_example_env (Inr example_libs) None (ToM3U8 example_playlist) empty_Playlist = Inr imported \<and>
    MediaFiles imported = MediaFiles example_playlist"
proof -
  have libs: "proper_libs example_libs" "distinct (map lb_Path example_libs)" by code_simp+
  have db: "nfc_prefix (me_nfc m3u_example_env)" "me_findByPaths m3u_example_env = Some \<circ> FindByPaths (\<lambda>_. True) example_table"
    by (simp_all add: m3u_example_env_def nfc_prefix_def)
  have keys: "distinct (map (file_key m3u_example_env) example_table)" by code_simp
  have files: "list_all (exportable m3u_example_env example_libs (\<lambda>_. True) example_table) (MediaFiles example_playlist)"
    by code_simp
  have name: "pl_Name example_playlist \<noteq> []" "\<not> is_space (last (pl_Name example_playlist))"
    "one_line (pl_Name example_playlist)"
    by code_simp+
  from m3u_export_import [OF libs db(1) keys db(2) files name, of empty_Playlist] show ?thesis by blast
qed

end
