(* ===== verification/Refinement.thy ===== *)
theory Refinement
  imports Prelude
begin

text \<open>
  Functional refinement: a component whose calls, made one after the other, answer like those of an
  abstract specification. The interface \<open>refined\<close> asks for one call; its lemma carries it over to
  histories of calls. The key-value store and the tracks of a playlist interpret it.
\<close>

fun run_ops :: "('o \<Rightarrow> 's \<Rightarrow> 'r \<times> 's) \<Rightarrow> 'o list \<Rightarrow> 's \<Rightarrow> 'r list \<times> 's" where
  "run_ops exec [] s = ([], s)"
| "run_ops exec (x # xs) s = (let (r, s1) = exec x s; (rs, s2) = run_ops exec xs s1 in (r # rs, s2))"

lemma run_ops_append:
  "run_ops exec (xs @ ys) s =
     (fst (run_ops exec xs s) @ fst (run_ops exec ys (snd (run_ops exec xs s))),
      snd (run_ops exec ys (snd (run_ops exec xs s))))"
  by (induction xs arbitrary: s) (simp_all add: Let_def case_prod_beta)

lemma length_run_ops: "length (fst (run_ops exec xs s)) = length xs"
  by (induction xs arbitrary: s) (simp_all add: Let_def case_prod_beta)

text \<open>
  A specification may promise something only while a precondition on its own state holds; the
  precondition has to hold before every call of the history.
\<close>

fun run_pre :: "('o \<Rightarrow> 'a \<Rightarrow> bool) \<Rightarrow> ('o \<Rightarrow> 'a \<Rightarrow> 'r \<times> 'a) \<Rightarrow> 'o list \<Rightarrow> 'a \<Rightarrow> bool" where
  "run_pre pre spec [] a \<longleftrightarrow> True"
| "run_pre pre spec (x # xs) a \<longleftrightarrow> pre x a \<and> run_pre pre spec xs (snd (spec x a))"

locale refined_when =
  fixes exec :: "'o \<Rightarrow> 'c \<Rightarrow> 'r \<times> 'c"
    and spec :: "'o \<Rightarrow> 'a \<Rightarrow> 'r \<times> 'a"
    and abst :: "'c \<Rightarrow> 'a"
    and ok :: "'c \<Rightarrow> bool"
    and pre :: "'o \<Rightarrow> 'a \<Rightarrow> bool"
  assumes when_result: "ok c \<Longrightarrow> pre x (abst c) \<Longrightarrow> fst (exec x c) = fst (spec x (abst c))"
    and when_state: "ok c \<Longrightarrow> pre x (abst c) \<Longrightarrow> abst (snd (exec x c)) = snd (spec x (abst c))"
    and when_ok: "ok c \<Longrightarrow> pre x (abst c) \<Longrightarrow> ok (snd (exec x c))"
begin

lemma run_refines_when:
  "ok c \<Longrightarrow> run_pre pre spec xs (abst c) \<Longrightarrow> fst (run_ops exec xs c) = fst (run_ops spec xs (abst c)) \<and>
    abst (snd (run_ops exec xs c)) = snd (run_ops spec xs (abst c)) \<and> ok (snd (run_ops exec xs c))"
  by (induction xs arbitrary: c) (simp_all add: Let_def case_prod_beta when_result when_state when_ok)

end

text \<open>The unconditional case.\<close>

locale refined =
  fixes exec :: "'o \<Rightarrow> 'c \<Rightarrow> 'r \<times> 'c"
    and spec :: "'o \<Rightarrow> 'a \<Rightarrow> 'r \<times> 'a"
    and abst :: "'c \<Rightarrow> 'a"
    and ok :: "'c \<Rightarrow> bool"
  assumes call_result: "ok c \<Longrightarrow> fst (exec x c) = fst (spec x (abst c))"
    and call_state: "ok c \<Longrightarrow> abst (snd (exec x c)) = snd (spec x (abst c))"
    and call_ok: "ok c \<Longrightarrow> ok (snd (exec x c))"

sublocale refined \<subseteq> refined_when exec spec abst ok "\<lambda>_ _. True"
  by unfold_locales (simp_all add: call_result call_state call_ok)

lemma run_pre_True [simp]: "run_pre (\<lambda>_ _. True) spec xs a"
  by (induction xs arbitrary: a) simp_all

context refined
begin

lemma run_refines_init:
  "ok c \<Longrightarrow> abst c = a \<Longrightarrow> fst (run_ops exec xs c) = fst (run_ops spec xs a) \<and>
    abst (snd (run_ops exec xs c)) = snd (run_ops spec xs a) \<and> ok (snd (run_ops exec xs c))"
  using run_refines_when by simp

end

end
