(* ===== verification/Kv_Store.thy ===== *)
theory Kv_Store
  imports Go_Slices Refinement "HOL-Library.List_Lexorder" "HOL-Library.Char_ord"
begin

text \<open>
  \<open>plugins/host_kvstore.go\<close>: the key-value store of a plugin. The SQLite table is the list of its rows;
  \<open>datetime('now')\<close> is an argument, in seconds. Errors of the database itself are not modelled. \<open>LIKE\<close>
  with \<open>ESCAPE\<close> is SQLite's: it folds ASCII letters. The store refines a bounded map with expiry
  times: the specification knows nothing of rows, sizes, patterns or batches.
\<close>

definition maxKeyLength :: nat where "maxKeyLength = 256"
definition defaultMaxKVStoreSize :: int where "defaultMaxKVStoreSize = 1 * 1024 * 1024"

record kv_row =
  kr_key :: string
  kr_value :: string
  kr_size :: int
  kr_created_at :: int
  kr_updated_at :: int
  kr_expires_at :: "int option"

datatype kv_error = EmptyKey | KeyTooLong | StorageLimitExceeded | InvalidTTL | EmptyPrefix

definition kv_unexpired :: "int \<Rightarrow> int option \<Rightarrow> bool" where
  "kv_unexpired now e = (case e of None \<Rightarrow> True | Some t \<Rightarrow> t \<ge> now)"

definition notExpiredFilter :: "int \<Rightarrow> kv_row \<Rightarrow> bool" where
  "notExpiredFilter now r = kv_unexpired now (kr_expires_at r)"

definition storageUsed :: "int \<Rightarrow> kv_row list \<Rightarrow> int" where
  "storageUsed now t = sum_list (map kr_size (filter (notExpiredFilter now) t))"

definition checkStorageLimit :: "int \<Rightarrow> int \<Rightarrow> int \<Rightarrow> kv_row list \<Rightarrow> bool" where
  "checkStorageLimit maxSize now delta t \<longleftrightarrow> delta \<le> 0 \<or> storageUsed now t + delta \<le> maxSize"

definition row_live :: "int \<Rightarrow> string \<Rightarrow> kv_row \<Rightarrow> bool" where
  "row_live now key r \<longleftrightarrow> kr_key r = key \<and> notExpiredFilter now r"

text \<open>\<open>INSERT ... ON CONFLICT(key) DO UPDATE\<close>.\<close>

definition update_row :: "kv_row \<Rightarrow> kv_row \<Rightarrow> kv_row" where
  "update_row row r =
     (if kr_key r = kr_key row
      then r\<lparr>kr_value := kr_value row, kr_size := kr_size row, kr_updated_at := kr_updated_at row,
             kr_expires_at := kr_expires_at row\<rparr>
      else r)"

definition upsert_row :: "kv_row \<Rightarrow> kv_row list \<Rightarrow> kv_row list" where
  "upsert_row row t = (if list_ex (\<lambda>r. kr_key r = kr_key row) t then map (update_row row) t else t @ [row])"

definition setValue :: "int \<Rightarrow> int \<Rightarrow> string \<Rightarrow> string \<Rightarrow> int \<Rightarrow> kv_row list \<Rightarrow> kv_error + kv_row list" where
  "setValue maxSize now key value ttlSeconds t =
     (if key = [] then Inl EmptyKey
      else if length key > maxKeyLength then Inl KeyTooLong
      else
        let newValueSize = int (length value);
            oldSize = (case filter (row_live now key) t of [] \<Rightarrow> 0 | r # _ \<Rightarrow> kr_size r)
        in if \<not> checkStorageLimit maxSize now (newValueSize - oldSize) t then Inl StorageLimitExceeded
           else Inr (upsert_row
             \<lparr>kr_key = key, kr_value = value, kr_size = newValueSize, kr_created_at = now, kr_updated_at = now,
              kr_expires_at = (if ttlSeconds > 0 then Some (now + ttlSeconds) else None)\<rparr> t))"

definition kv_Set :: "int \<Rightarrow> int \<Rightarrow> string \<Rightarrow> string \<Rightarrow> kv_row list \<Rightarrow> kv_error + kv_row list" where
  "kv_Set maxSize now key value t = setValue maxSize now key value 0 t"

definition kv_SetWithTTL :: "int \<Rightarrow> int \<Rightarrow> string \<Rightarrow> string \<Rightarrow> int \<Rightarrow> kv_row list \<Rightarrow> kv_error + kv_row list" where
  "kv_SetWithTTL maxSize now key value ttlSeconds t =
     (if ttlSeconds \<le> 0 then Inl InvalidTTL else setValue maxSize now key value ttlSeconds t)"

definition kv_Get :: "int \<Rightarrow> string \<Rightarrow> kv_row list \<Rightarrow> string option" where
  "kv_Get now key t = (case filter (row_live now key) t of [] \<Rightarrow> None | r # _ \<Rightarrow> Some (kr_value r))"

definition kv_Delete :: "string \<Rightarrow> kv_row list \<Rightarrow> kv_row list" where
  "kv_Delete key t = filter (\<lambda>r. kr_key r \<noteq> key) t"

definition kv_Has :: "int \<Rightarrow> string \<Rightarrow> kv_row list \<Rightarrow> bool" where
  "kv_Has now key t \<longleftrightarrow> length (filter (row_live now key) t) > 0"

subsection \<open>Patterns\<close>

datatype like_token = Lit char | AnyChar | AnyString | Never

abbreviation backslash :: char where
  "backslash \<equiv> CHR 0x5C"

fun like_tokens :: "string \<Rightarrow> like_token list" where
  "like_tokens [] = []"
| "like_tokens (c # cs) =
     (if c = backslash then (case cs of [] \<Rightarrow> [Never] | d # ds \<Rightarrow> Lit d # like_tokens ds)
      else if c = CHR ''%'' then AnyString # like_tokens cs
      else if c = CHR ''_'' then AnyChar # like_tokens cs
      else Lit c # like_tokens cs)"

fun like_match :: "like_token list \<Rightarrow> string \<Rightarrow> bool" where
  "like_match [] s = (s = [])"
| "like_match (Lit c # ts) s = (case s of [] \<Rightarrow> False | d # ds \<Rightarrow> lower_byte c = lower_byte d \<and> like_match ts ds)"
| "like_match (AnyChar # ts) s = (case s of [] \<Rightarrow> False | d # ds \<Rightarrow> like_match ts ds)"
| "like_match (AnyString # ts) s = (like_match ts s \<or> (case s of [] \<Rightarrow> False | d # ds \<Rightarrow> like_match (AnyString # ts) ds))"
| "like_match (Never # ts) s = False"

definition escapedPrefix :: "string \<Rightarrow> string" where
  "escapedPrefix prefix =
     concat (map (\<lambda>c. if c = CHR ''%'' \<or> c = CHR ''_'' then [backslash, c] else [c]) prefix)"

definition key_like :: "string \<Rightarrow> string \<Rightarrow> bool" where
  "key_like prefix key = like_match (like_tokens (escapedPrefix prefix @ ''%'')) key"

definition kv_List :: "int \<Rightarrow> string \<Rightarrow> kv_row list \<Rightarrow> string list" where
  "kv_List now prefix t =
     (if prefix = [] then sort (map kr_key (filter (notExpiredFilter now) t))
      else sort (map kr_key (filter (\<lambda>r. key_like prefix (kr_key r) \<and> notExpiredFilter now r) t)))"

definition kv_GetStorageUsed :: "int \<Rightarrow> kv_row list \<Rightarrow> int" where
  "kv_GetStorageUsed now t = storageUsed now t"

definition kv_DeleteByPrefix :: "string \<Rightarrow> kv_row list \<Rightarrow> kv_error + int \<times> kv_row list" where
  "kv_DeleteByPrefix prefix t =
     (if prefix = [] then Inl EmptyPrefix
      else Inr (int (length (filter (\<lambda>r. key_like prefix (kr_key r)) t)),
                filter (\<lambda>r. \<not> key_like prefix (kr_key r)) t))"

definition get_chunk :: "int \<Rightarrow> kv_row list \<Rightarrow> string list \<Rightarrow> (string \<rightharpoonup> string) \<Rightarrow> (string \<rightharpoonup> string)" where
  "get_chunk now t chunk result =
     fold (\<lambda>r m. m(kr_key r \<mapsto> kr_value r)) (filter (\<lambda>r. kr_key r \<in> set chunk \<and> notExpiredFilter now r) t) result"

definition kv_GetMany :: "int \<Rightarrow> string list \<Rightarrow> kv_row list \<Rightarrow> (string \<rightharpoonup> string)" where
  "kv_GetMany now keys t =
     (if keys = [] then Map.empty else fold (get_chunk now t) (CollectChunks keys 200) Map.empty)"

definition cleanupExpired :: "int \<Rightarrow> kv_row list \<Rightarrow> kv_row list" where
  "cleanupExpired now t = filter (\<lambda>r. \<not> (case kr_expires_at r of None \<Rightarrow> False | Some e \<Rightarrow> e < now)) t"

subsection \<open>Invariant\<close>

definition table_ok :: "kv_row list \<Rightarrow> bool" where
  "table_ok t \<longleftrightarrow> distinct (map kr_key t) \<and> list_all (\<lambda>r. kr_size r = int (length (kr_value r))) t"

declare table_ok_def [inv_defs]

definition kv_abs :: "kv_row list \<Rightarrow> string \<rightharpoonup> string \<times> int option" where
  "kv_abs t = map_of (map (\<lambda>r. (kr_key r, (kr_value r, kr_expires_at r))) t)"

lemma kv_abs_Some:
  assumes "distinct (map kr_key t)"
  shows "kv_abs t k = Some (v, e) \<longleftrightarrow> (\<exists>r \<in> set t. kr_key r = k \<and> kr_value r = v \<and> kr_expires_at r = e)"
proof -
  have "distinct (map fst (map (\<lambda>r. (kr_key r, (kr_value r, kr_expires_at r))) t))"
    using assms by (simp add: comp_def)
  then show ?thesis unfolding kv_abs_def by (auto simp: map_of_eq_Some_iff)
qed

lemma dom_kv_abs: "dom (kv_abs t) = kr_key ` set t"
  by (simp add: kv_abs_def dom_map_of_conv_image_fst image_image)

lemma kv_abs_filter:
  "distinct (map kr_key t) \<Longrightarrow> kv_abs (filter (\<lambda>r. P (kr_key r) (kr_expires_at r)) t) k =
     (case kv_abs t k of None \<Rightarrow> None | Some (v, e) \<Rightarrow> if P k e then Some (v, e) else None)"
proof (induction t)
  case (Cons r t)
  have "kv_abs t (kr_key r) = None"
    using Cons.prems dom_kv_abs [of t] by (auto simp: domIff)
  with Cons show ?case by (auto simp: kv_abs_def)
qed (simp add: kv_abs_def)

lemma filter_key_unique:
  assumes "distinct (map kr_key t)" and "r \<in> set t" and "P r"
  shows "filter (\<lambda>x. kr_key x = kr_key r \<and> P x) t = [r]"
  using assms
proof (induction t)
  case (Cons x t)
  show ?case
  proof (cases "x = r")
    case True
    then have "filter (\<lambda>x. kr_key x = kr_key r \<and> P x) t = []"
      using Cons.prems(1) by (auto simp: filter_empty_conv image_iff)
    with True Cons.prems(3) show ?thesis by simp
  next
    case False
    with Cons.prems have "kr_key x \<noteq> kr_key r" by (auto simp: image_iff)
    with False Cons show ?thesis by simp
  qed
qed simp

lemma filter_row_live:
  assumes "distinct (map kr_key t)"
  shows "(case kv_abs t key of
      None \<Rightarrow> filter (row_live now key) t = []
    | Some (v, e) \<Rightarrow>
        if kv_unexpired now e
        then \<exists>r \<in> set t. kr_key r = key \<and> kr_value r = v \<and> kr_expires_at r = e \<and> filter (row_live now key) t = [r]
        else filter (row_live now key) t = [])"
proof (cases "kv_abs t key")
  case None
  then have "key \<notin> kr_key ` set t" using dom_kv_abs [of t] by blast
  then have "filter (row_live now key) t = []" by (auto simp: filter_empty_conv row_live_def)
  with None show ?thesis by simp
next
  case (Some p)
  obtain v e where p: "p = (v, e)" by fastforce
  then obtain r where r: "r \<in> set t" "kr_key r = key" "kr_value r = v" "kr_expires_at r = e"
    using Some kv_abs_Some [OF assms] by auto
  show ?thesis
  proof (cases "kv_unexpired now e")
    case True
    have "row_live now key = (\<lambda>x. kr_key x = key \<and> notExpiredFilter now x)"
      by (rule ext) (simp add: row_live_def)
    with True have "filter (row_live now key) t = [r]"
      using filter_key_unique [OF assms r(1), of "notExpiredFilter now"] r by (simp add: notExpiredFilter_def)
    with Some p True r show ?thesis by auto
  next
    case False
    have "\<not> row_live now key x" if "x \<in> set t" for x
    proof
      assume "row_live now key x"
      then have x: "kr_key x = key" "notExpiredFilter now x" by (simp_all add: row_live_def)
      with that r assms have "x = r" by (auto simp: distinct_map inj_on_def)
      with x r False show False by (simp add: notExpiredFilter_def)
    qed
    then have "filter (row_live now key) t = []" by (simp add: filter_empty_conv)
    with Some p False show ?thesis by simp
  qed
qed

subsection \<open>Specification\<close>

text \<open>A bounded map with expiry times.\<close>

type_synonym kv_spec = "string \<rightharpoonup> string \<times> int option"

definition spec_view :: "int \<Rightarrow> kv_spec \<Rightarrow> string \<rightharpoonup> string" where
  "spec_view now m k = (case m k of None \<Rightarrow> None | Some (v, e) \<Rightarrow> if kv_unexpired now e then Some v else None)"

definition spec_used :: "int \<Rightarrow> kv_spec \<Rightarrow> int" where
  "spec_used now m = (\<Sum>k \<in> dom (spec_view now m). int (length (the (spec_view now m k))))"

datatype kv_op =
    OpSet string string | OpSetWithTTL string string int | OpGet string | OpDelete string | OpHas string
  | OpList string | OpGetStorageUsed | OpDeleteByPrefix string | OpGetMany "string list" | OpCleanup

datatype kv_result =
    RErr kv_error | ROk | RValue "string option" | RBool bool | RKeys "string list" | RInt int
  | RMap "string \<rightharpoonup> string"

definition spec_set :: "int \<Rightarrow> int \<Rightarrow> string \<Rightarrow> string \<Rightarrow> int option \<Rightarrow> kv_spec \<Rightarrow> kv_result \<times> kv_spec" where
  "spec_set maxSize now key value e m =
     (if key = [] then (RErr EmptyKey, m)
      else if length key > 256 then (RErr KeyTooLong, m)
      else
        let old = (case spec_view now m key of None \<Rightarrow> 0 | Some v \<Rightarrow> int (length v));
            delta = int (length value) - old
        in if delta > 0 \<and> spec_used now m + delta > maxSize then (RErr StorageLimitExceeded, m)
           else (ROk, m(key \<mapsto> (value, e))))"

text \<open>Which keys a prefix selects is a parameter: \<open>matches p k\<close>.\<close>

fun kv_spec_exec :: "(string \<Rightarrow> string \<Rightarrow> bool) \<Rightarrow> int \<Rightarrow> int \<Rightarrow> kv_op \<Rightarrow> kv_spec \<Rightarrow> kv_result \<times> kv_spec" where
  "kv_spec_exec matches maxSize now (OpSet k v) m = spec_set maxSize now k v None m"
| "kv_spec_exec matches maxSize now (OpSetWithTTL k v ttl) m =
     (if ttl \<le> 0 then (RErr InvalidTTL, m) else spec_set maxSize now k v (Some (now + ttl)) m)"
| "kv_spec_exec matches maxSize now (OpGet k) m = (RValue (spec_view now m k), m)"
| "kv_spec_exec matches maxSize now (OpDelete k) m = (ROk, m(k := None))"
| "kv_spec_exec matches maxSize now (OpHas k) m = (RBool (spec_view now m k \<noteq> None), m)"
| "kv_spec_exec matches maxSize now (OpList p) m =
     (RKeys (sorted_list_of_set {k \<in> dom (spec_view now m). p = [] \<or> matches p k}), m)"
| "kv_spec_exec matches maxSize now OpGetStorageUsed m = (RInt (spec_used now m), m)"
| "kv_spec_exec matches maxSize now (OpDeleteByPrefix p) m =
     (if p = [] then (RErr EmptyPrefix, m)
      else (RInt (int (card {k \<in> dom m. matches p k})), m |` {k. \<not> matches p k}))"
| "kv_spec_exec matches maxSize now (OpGetMany ks) m = (RMap (spec_view now m |` set ks), m)"
| "kv_spec_exec matches maxSize now OpCleanup m = (ROk, m |` dom (spec_view now m))"

text \<open>The operations of the store in the same form.\<close>

definition set_result :: "kv_row list \<Rightarrow> kv_error + kv_row list \<Rightarrow> kv_result \<times> kv_row list" where
  "set_result t r = (case r of Inl e \<Rightarrow> (RErr e, t) | Inr t' \<Rightarrow> (ROk, t'))"

fun kv_exec :: "int \<Rightarrow> int \<Rightarrow> kv_op \<Rightarrow> kv_row list \<Rightarrow> kv_result \<times> kv_row list" where
  "kv_exec maxSize now (OpSet k v) t = set_result t (kv_Set maxSize now k v t)"
| "kv_exec maxSize now (OpSetWithTTL k v ttl) t = set_result t (kv_SetWithTTL maxSize now k v ttl t)"
| "kv_exec maxSize now (OpGet k) t = (RValue (kv_Get now k t), t)"
| "kv_exec maxSize now (OpDelete k) t = (ROk, kv_Delete k t)"
| "kv_exec maxSize now (OpHas k) t = (RBool (kv_Has now k t), t)"
| "kv_exec maxSize now (OpList p) t = (RKeys (kv_List now p t), t)"
| "kv_exec maxSize now OpGetStorageUsed t = (RInt (kv_GetStorageUsed now t), t)"
| "kv_exec maxSize now (OpDeleteByPrefix p) t =
     (case kv_DeleteByPrefix p t of Inl e \<Rightarrow> (RErr e, t) | Inr (n, t') \<Rightarrow> (RInt n, t'))"
| "kv_exec maxSize now (OpGetMany ks) t = (RMap (kv_GetMany now ks t), t)"
| "kv_exec maxSize now OpCleanup t = (ROk, cleanupExpired now t)"

subsection \<open>Refinement\<close>

lemma table_ok_filter: "table_ok t \<Longrightarrow> table_ok (filter P t)"
  by (auto simp: table_ok_def distinct_map_filter list_all_iff)

lemma update_row_simps [simp]: "kr_key (update_row row r) = kr_key r"
  by (simp add: update_row_def)

lemma table_ok_upsert:
  assumes "table_ok t" and "kr_size row = int (length (kr_value row))"
  shows "table_ok (upsert_row row t)"
proof (cases "list_ex (\<lambda>r. kr_key r = kr_key row) t")
  case True
  have "kr_size (update_row row r) = int (length (kr_value (update_row row r)))" if "r \<in> set t" for r
    using assms that by (simp add: update_row_def table_ok_def list_all_iff)
  with True assms show ?thesis by (simp add: table_ok_def upsert_row_def list_all_iff comp_def)
next
  case False
  with assms show ?thesis by (auto simp: table_ok_def upsert_row_def list_all_iff list_ex_iff)
qed

lemma kv_abs_upsert: "kv_abs (upsert_row row t) = (kv_abs t)(kr_key row \<mapsto> (kr_value row, kr_expires_at row))"
proof (cases "list_ex (\<lambda>r. kr_key r = kr_key row) t")
  case True
  have "kv_abs (map (update_row row) t) = (if list_ex (\<lambda>r. kr_key r = kr_key row) t
      then (kv_abs t)(kr_key row \<mapsto> (kr_value row, kr_expires_at row)) else kv_abs t)"
    by (induction t) (auto simp: kv_abs_def update_row_def fun_upd_def)
  with True show ?thesis by (simp add: upsert_row_def)
next
  case False
  then have "kr_key row \<notin> dom (kv_abs t)" by (auto simp: dom_kv_abs list_ex_iff)
  with False show ?thesis
    by (auto simp: upsert_row_def kv_abs_def map_add_def domIff split: option.splits)
qed

lemma spec_view_Get: "table_ok t \<Longrightarrow> spec_view now (kv_abs t) k = kv_Get now k t"
  using filter_row_live [where t = t and key = k and now = now]
  by (auto simp: table_ok_def spec_view_def kv_Get_def split: option.splits if_splits)

lemma live_dom:
  assumes "table_ok t"
  shows "dom (spec_view now (kv_abs t)) = kr_key ` set (filter (notExpiredFilter now) t)"
proof -
  have h: "k \<in> dom (spec_view now (kv_abs t)) \<longleftrightarrow> (\<exists>r \<in> set t. kr_key r = k \<and> notExpiredFilter now r)" for k
    using spec_view_Get [OF assms, of now k]
    by (auto simp: domIff kv_Get_def row_live_def filter_empty_conv split: list.splits)
      (metis (mono_tags, lifting) list.set_intros(1) mem_Collect_eq set_filter row_live_def)
  show ?thesis unfolding set_eq_iff h by auto
qed

lemma spec_used_storage:
  assumes "table_ok t"
  shows "spec_used now (kv_abs t) = storageUsed now t"
proof -
  let ?l = "filter (notExpiredFilter now) t"
  have d: "distinct (map kr_key ?l)" and inj: "inj_on kr_key (set ?l)" and dt: "distinct ?l"
    using assms by (auto simp: table_ok_def distinct_map_filter distinct_map intro: inj_on_subset)
  have v: "int (length (the (spec_view now (kv_abs t) (kr_key r)))) = kr_size r" if "r \<in> set ?l" for r
  proof -
    have "kv_abs t (kr_key r) = Some (kr_value r, kr_expires_at r)"
      using assms that by (auto simp: kv_abs_Some table_ok_def)
    with that assms show ?thesis
      by (simp add: spec_view_def notExpiredFilter_def table_ok_def list_all_iff)
  qed
  have "spec_used now (kv_abs t) = (\<Sum>r \<in> set ?l. int (length (the (spec_view now (kv_abs t) (kr_key r)))))"
    unfolding spec_used_def live_dom [OF assms] by (rule sum.reindex [OF inj, unfolded comp_def])
  also have "\<dots> = (\<Sum>r \<in> set ?l. kr_size r)" using v by (rule sum.cong [OF refl])
  also have "\<dots> = storageUsed now t" unfolding storageUsed_def by (rule sum.distinct_set_conv_list [OF dt])
  finally show ?thesis .
qed

lemma old_size:
  assumes "table_ok t"
  shows "(case filter (row_live now key) t of [] \<Rightarrow> 0 | r # _ \<Rightarrow> kr_size r) =
    (case spec_view now (kv_abs t) key of None \<Rightarrow> 0 | Some v \<Rightarrow> int (length v))"
proof (cases "filter (row_live now key) t")
  case Nil
  with spec_view_Get [OF assms, of now key] show ?thesis by (simp add: kv_Get_def)
next
  case (Cons r rs)
  then have "r \<in> set t" by (metis filter_is_subset list.set_intros(1) subsetD)
  with Cons assms spec_view_Get [OF assms, of now key] show ?thesis
    by (simp add: kv_Get_def table_ok_def list_all_iff)
qed

definition refines :: "kv_result \<times> kv_row list \<Rightarrow> kv_result \<times> kv_spec \<Rightarrow> bool" where
  "refines c a \<longleftrightarrow> fst c = fst a \<and> kv_abs (snd c) = snd a \<and> table_ok (snd c)"

lemma setValue_refines:
  assumes "table_ok t"
  shows "refines (set_result t (setValue maxSize now key value ttl t))
    (spec_set maxSize now key value (if ttl > 0 then Some (now + ttl) else None) (kv_abs t))"
  using assms old_size [OF assms, of now key] spec_used_storage [OF assms, of now]
  by (simp add: refines_def set_result_def setValue_def spec_set_def checkStorageLimit_def maxKeyLength_def
      kv_abs_upsert table_ok_upsert Let_def)

lemma sort_keys:
  assumes "table_ok t"
  shows "sort (map kr_key (filter P t)) = sorted_list_of_set (kr_key ` set (filter P t))"
proof -
  have "distinct (map kr_key (filter P t))" using assms by (simp add: table_ok_def distinct_map_filter)
  from distinct_remdups_id [OF this] show ?thesis
    using sorted_list_of_set_sort_remdups [of "map kr_key (filter P t)"] by (simp only: set_map)
qed

lemma List_refines:
  assumes "table_ok t"
  shows "kv_List now p t = sorted_list_of_set {k \<in> dom (spec_view now (kv_abs t)). p = [] \<or> key_like p k}"
proof (cases "p = []")
  case True
  then show ?thesis by (simp add: kv_List_def sort_keys [OF assms] live_dom [OF assms])
next
  case False
  then have "{k \<in> dom (spec_view now (kv_abs t)). p = [] \<or> key_like p k} =
      kr_key ` set (filter (\<lambda>r. key_like p (kr_key r) \<and> notExpiredFilter now r) t)"
    unfolding live_dom [OF assms] by auto
  with False show ?thesis by (simp add: kv_List_def sort_keys [OF assms])
qed

lemma DeleteByPrefix_refines:
  assumes "table_ok t"
  shows "int (length (filter (\<lambda>r. key_like p (kr_key r)) t)) = int (card {k \<in> dom (kv_abs t). key_like p k})"
    and "kv_abs (filter (\<lambda>r. \<not> key_like p (kr_key r)) t) = kv_abs t |` {k. \<not> key_like p k}"
proof -
  have d: "distinct (map kr_key (filter (\<lambda>r. key_like p (kr_key r)) t))"
    using assms by (simp add: table_ok_def distinct_map_filter)
  have "{k \<in> dom (kv_abs t). key_like p k} = set (map kr_key (filter (\<lambda>r. key_like p (kr_key r)) t))"
    unfolding dom_kv_abs by auto
  with distinct_card [OF d] show "int (length (filter (\<lambda>r. key_like p (kr_key r)) t)) =
      int (card {k \<in> dom (kv_abs t). key_like p k})" by simp
  show "kv_abs (filter (\<lambda>r. \<not> key_like p (kr_key r)) t) = kv_abs t |` {k. \<not> key_like p k}"
    using assms kv_abs_filter [of t "\<lambda>k e. \<not> key_like p k"]
    by (auto simp: table_ok_def restrict_map_def fun_eq_iff split: option.splits)
qed

lemma get_chunk_eq:
  assumes "table_ok t"
  shows "get_chunk now t chunk m = m ++ (spec_view now (kv_abs t) |` set chunk)"
proof
  fix k
  let ?f = "filter (\<lambda>r. kr_key r \<in> set chunk \<and> notExpiredFilter now r) t"
  have fold: "fold (\<lambda>r m. m(kr_key r \<mapsto> kr_value r)) rs m k =
      (case filter (\<lambda>r. kr_key r = k) rs of [] \<Rightarrow> m k | _ \<Rightarrow> Some (kr_value (last (filter (\<lambda>r. kr_key r = k) rs))))" for rs m
    by (induction rs arbitrary: m) (auto split: list.splits)
  have "filter (\<lambda>r. kr_key r = k) ?f = (if k \<in> set chunk then filter (row_live now k) t else [])"
    by (auto simp: row_live_def filter_empty_conv intro!: filter_cong)
  moreover have "length (filter (row_live now k) t) \<le> 1"
    using filter_row_live [where t = t and key = k and now = now] assms
    by (auto simp: table_ok_def split: option.splits if_splits)
  ultimately show "get_chunk now t chunk m k = (m ++ (spec_view now (kv_abs t) |` set chunk)) k"
    unfolding get_chunk_def fold using spec_view_Get [OF assms, of now k]
    by (cases "filter (row_live now k) t") (auto simp: kv_Get_def map_add_def restrict_map_def)
qed

lemma GetMany_refines:
  assumes "table_ok t"
  shows "kv_GetMany now ks t = spec_view now (kv_abs t) |` set ks"
proof -
  let ?v = "spec_view now (kv_abs t)"
  have "fold (get_chunk now t) chs m = m ++ (?v |` set (concat chs))" for chs m
  proof (induction chs arbitrary: m)
    case (Cons c chs)
    have "(?v |` set c) ++ (?v |` set (concat chs)) = ?v |` set (concat (c # chs))"
      by (auto simp: fun_eq_iff map_add_def restrict_map_def split: option.splits)
    with Cons show ?case by (simp add: get_chunk_eq [OF assms] flip: map_add_assoc)
  qed simp
  from this [of "CollectChunks ks 200" Map.empty] show ?thesis
    by (simp add: kv_GetMany_def concat_CollectChunks)
qed

lemma Delete_refines: "table_ok t \<Longrightarrow> kv_abs (kv_Delete key t) = (kv_abs t)(key := None)"
  using kv_abs_filter [of t "\<lambda>k e. k \<noteq> key"]
  by (auto simp: kv_Delete_def table_ok_def fun_eq_iff split: option.splits)

lemma cleanup_refines:
  assumes "table_ok t"
  shows "kv_abs (cleanupExpired now t) = kv_abs t |` dom (spec_view now (kv_abs t))"
proof -
  have "cleanupExpired now t = filter (\<lambda>r. kv_unexpired now (kr_expires_at r)) t"
    unfolding cleanupExpired_def by (rule filter_cong) (auto simp: kv_unexpired_def split: option.splits)
  with assms kv_abs_filter [of t "\<lambda>k e. kv_unexpired now e"] show ?thesis
    by (auto simp: table_ok_def fun_eq_iff restrict_map_def spec_view_def domIff split: option.splits)
qed

lemma kv_exec_refines: "table_ok t \<Longrightarrow> refines (kv_exec maxSize now opn t) (kv_spec_exec key_like maxSize now opn (kv_abs t))"
proof (cases opn)
  case (OpSet k v)
  assume "table_ok t"
  with setValue_refines [of t maxSize now k v 0] OpSet show ?thesis by (simp add: kv_Set_def)
next
  case (OpSetWithTTL k v ttl)
  assume "table_ok t"
  with setValue_refines [of t maxSize now k v ttl] OpSetWithTTL show ?thesis
    by (auto simp: kv_SetWithTTL_def refines_def set_result_def)
next
  case (OpDeleteByPrefix p)
  assume "table_ok t"
  with OpDeleteByPrefix DeleteByPrefix_refines [of t p] show ?thesis
    by (simp add: refines_def kv_DeleteByPrefix_def table_ok_filter)
next
  case (OpHas k)
  assume "table_ok t"
  with OpHas spec_view_Get [of t now k] show ?thesis
    by (auto simp: refines_def kv_Has_def kv_Get_def split: list.splits)
next
  case (OpDelete k)
  assume "table_ok t"
  with OpDelete Delete_refines [of t k] table_ok_filter [of t] show ?thesis
    by (simp add: refines_def) (simp add: kv_Delete_def)
next
  case OpCleanup
  assume "table_ok t"
  with OpCleanup cleanup_refines [of t now] table_ok_filter [of t] show ?thesis
    by (simp add: refines_def) (simp add: cleanupExpired_def)
qed (simp_all add: refines_def spec_view_Get spec_used_storage List_refines GetMany_refines kv_GetStorageUsed_def)

subsection \<open>Prefixes\<close>

lemma like_any: "like_match [AnyString] s"
  by (induction s) auto

lemma like_tokens_escaped:
  "backslash \<notin> set p \<Longrightarrow> like_tokens (escapedPrefix p @ rest) = map Lit p @ like_tokens rest"
  by (induction p) (auto simp: escapedPrefix_def)

lemma like_literals: "like_match (map Lit p @ [AnyString]) k \<longleftrightarrow> take (length p) (to_lower k) = to_lower p"
proof (induction p arbitrary: k)
  case (Cons c p)
  then show ?case by (cases k) (auto simp: to_lower_def)
next
  case Nil
  from like_any [of k] show ?case by (simp del: like_match.simps)
qed

text \<open>A prefix without a backslash selects the keys that begin with it up to the case of letters.\<close>

lemma key_like_prefix: "backslash \<notin> set p \<Longrightarrow> key_like p k \<longleftrightarrow> has_prefix (to_lower k) (to_lower p)"
  unfolding key_like_def like_tokens_escaped by (simp add: like_literals has_prefix_def to_lower_def)

subsection \<open>Histories\<close>

definition kv_call :: "int \<Rightarrow> int \<times> kv_op \<Rightarrow> kv_row list \<Rightarrow> kv_result \<times> kv_row list" where
  "kv_call maxSize x t = kv_exec maxSize (fst x) (snd x) t"

definition kv_spec_call :: "(string \<Rightarrow> string \<Rightarrow> bool) \<Rightarrow> int \<Rightarrow> int \<times> kv_op \<Rightarrow> kv_spec \<Rightarrow> kv_result \<times> kv_spec" where
  "kv_spec_call matches maxSize x m = kv_spec_exec matches maxSize (fst x) (snd x) m"

interpretation kv: refined "kv_call maxSize" "kv_spec_call key_like maxSize" kv_abs table_ok for maxSize
  using kv_exec_refines by unfold_locales (simp_all add: kv_call_def kv_spec_call_def refines_def)

lemma kv_empty: "table_ok []" "kv_abs [] = Map.empty"
  by (simp_all add: kv_abs_def table_ok_def)

text \<open>What a call selects by and which key it sets.\<close>

fun op_prefix :: "kv_op \<Rightarrow> string list" where
  "op_prefix (OpList p) = [p]"
| "op_prefix (OpDeleteByPrefix p) = [p]"
| "op_prefix x = []"

fun op_keys :: "kv_op \<Rightarrow> string list" where
  "op_keys (OpSet k v) = [k]"
| "op_keys (OpSetWithTTL k v ttl) = [k]"
| "op_keys x = []"

definition starts_with :: "string \<Rightarrow> string \<Rightarrow> bool" where
  "starts_with p k = has_prefix k p"

text \<open>\<open>LIKE\<close> ignores the case of ASCII letters, and the code does not escape a backslash. A history in which neither matters: no
  prefix has a backslash, and a key that is set anywhere and starts with a prefix in some case starts with it as it is.\<close>

definition prefixes_plain :: "(int \<times> kv_op) list \<Rightarrow> bool" where
  "prefixes_plain calls \<longleftrightarrow>
     list_all (\<lambda>p. backslash \<notin> set p \<and>
         list_all (\<lambda>k. has_prefix (to_lower k) (to_lower p) \<longrightarrow> has_prefix k p) (concat (map (op_keys \<circ> snd) calls)))
       (concat (map (op_prefix \<circ> snd) calls))"

definition prefix_pre :: "(string \<Rightarrow> string \<Rightarrow> bool) \<Rightarrow> int \<times> kv_op \<Rightarrow> kv_spec \<Rightarrow> bool" where
  "prefix_pre matches x m \<longleftrightarrow> (\<forall>p \<in> set (op_prefix (snd x)). \<forall>k \<in> dom m. matches p k = key_like p k)"

lemma spec_exec_agree:
  assumes "prefix_pre matches (now, opn) m"
  shows "kv_spec_exec matches maxSize now opn m = kv_spec_exec key_like maxSize now opn m"
proof (cases opn)
  case (OpList p)
  with assms have a: "matches p k = key_like p k" if "k \<in> dom m" for k using that by (simp add: prefix_pre_def)
  moreover have "dom (spec_view now m) \<subseteq> dom m" by (auto simp: spec_view_def split: option.splits)
  ultimately have "{k \<in> dom (spec_view now m). p = [] \<or> matches p k} = {k \<in> dom (spec_view now m). p = [] \<or> key_like p k}"
    by blast
  then show ?thesis by (simp add: OpList)
next
  case (OpDeleteByPrefix p)
  with assms have a: "matches p k = key_like p k" if "k \<in> dom m" for k using that by (simp add: prefix_pre_def)
  then have "{k \<in> dom m. matches p k} = {k \<in> dom m. key_like p k}" by blast
  moreover have "m |` {k. \<not> matches p k} = m |` {k. \<not> key_like p k}"
  proof
    fix k
    show "(m |` {k. \<not> matches p k}) k = (m |` {k. \<not> key_like p k}) k"
      using a [of k] by (cases "m k") (auto simp: restrict_map_def)
  qed
  ultimately show ?thesis by (simp add: OpDeleteByPrefix)
qed simp_all

interpretation kvm: refined_when "kv_call maxSize" "kv_spec_call matches maxSize" kv_abs table_ok "prefix_pre matches"
  for maxSize matches
proof
  fix t x
  assume t: "table_ok t" and p: "prefix_pre matches x (kv_abs t)"
  have "kv_spec_call matches maxSize x (kv_abs t) = kv_spec_call key_like maxSize x (kv_abs t)"
    using p spec_exec_agree [of matches "fst x" "snd x" "kv_abs t" maxSize] by (simp add: kv_spec_call_def)
  with kv.call_result [OF t, of maxSize x] kv.call_state [OF t, of maxSize x] kv.call_ok [OF t, of maxSize x]
  show "fst (kv_call maxSize x t) = fst (kv_spec_call matches maxSize x (kv_abs t))"
    "kv_abs (snd (kv_call maxSize x t)) = snd (kv_spec_call matches maxSize x (kv_abs t))"
    "table_ok (snd (kv_call maxSize x t))" by simp_all
qed

lemma spec_exec_dom: "dom (snd (kv_spec_exec matches maxSize now opn m)) \<subseteq> dom m \<union> set (op_keys opn)"
  by (cases opn) (auto simp: spec_set_def Let_def restrict_map_def split: if_splits)

lemma plain_agrees:
  assumes "prefixes_plain calls" and "k \<in> set (concat (map (op_keys \<circ> snd) calls))" and "p \<in> set (concat (map (op_prefix \<circ> snd) calls))"
  shows "starts_with p k = key_like p k"
proof -
  have "backslash \<notin> set p" "has_prefix (to_lower k) (to_lower p) \<longrightarrow> has_prefix k p"
    using assms unfolding prefixes_plain_def list_all_iff by blast+
  moreover have "has_prefix k p \<Longrightarrow> has_prefix (to_lower k) (to_lower p)"
    by (auto simp: has_prefix_def to_lower_def take_map)
  ultimately show ?thesis by (auto simp: key_like_prefix starts_with_def)
qed

lemma plain_run_pre:
  assumes "prefixes_plain calls" and "set xs \<subseteq> set calls" and "dom m \<subseteq> set (concat (map (op_keys \<circ> snd) calls))"
  shows "run_pre (prefix_pre starts_with) (kv_spec_call starts_with maxSize) xs m"
  using assms(2,3)
proof (induction xs arbitrary: m)
  case (Cons x xs)
  have x: "x \<in> set calls" using Cons.prems(1) by simp
  then have keys: "set (op_keys (snd x)) \<subseteq> set (concat (map (op_keys \<circ> snd) calls))"
    and pre: "set (op_prefix (snd x)) \<subseteq> set (concat (map (op_prefix \<circ> snd) calls))" by auto
  have "prefix_pre starts_with x m"
    unfolding prefix_pre_def using plain_agrees [OF assms(1)] pre Cons.prems(2) by blast
  moreover have "dom (snd (kv_spec_call starts_with maxSize x m)) \<subseteq> set (concat (map (op_keys \<circ> snd) calls))"
    using spec_exec_dom [of starts_with maxSize "fst x" "snd x" m] keys Cons.prems(2) unfolding kv_spec_call_def by blast
  ultimately show ?case using Cons.IH Cons.prems(1) by simp
qed simp

text \<open>
  C8: the store is a bounded map with expiry. For every history of calls at any times, starting from the
  empty store, each call returns exactly what the specification returns (values, presence, sorted
  keys, sizes, counts, batches, errors), and the rows that are left represent the specification's
  map; keys stay unique and the recorded sizes stay true. In the specification the keys that are listed or deleted by a prefix are
  those that start with it, also when it contains the characters that are special in a pattern. For that, the history must be one
  in which no prefix contains a backslash and no key differs from a prefix only in the case of its letters (\<open>prefixes_plain\<close>):
  there the code selects other keys (\<open>delete_ignores_case\<close>).
\<close>

theorem kvstore_refines:
  assumes "prefixes_plain calls"
  shows "fst (run_ops (kv_call maxSize) calls []) = fst (run_ops (kv_spec_call starts_with maxSize) calls Map.empty) \<and>
   kv_abs (snd (run_ops (kv_call maxSize) calls [])) = snd (run_ops (kv_spec_call starts_with maxSize) calls Map.empty) \<and>
   table_ok (snd (run_ops (kv_call maxSize) calls []))"
  using kvm.run_refines_when [OF kv_empty(1), of starts_with maxSize calls] plain_run_pre [OF assms subset_refl]
  by (simp add: kv_empty)

definition example_kv_calls :: "(int \<times> kv_op) list" where
  "example_kv_calls =
     [(1, OpSet ''a_1'' ''x''), (2, OpSet ''ab1'' ''yy''), (3, OpSetWithTTL ''a_2'' ''z'' 5), (4, OpDeleteByPrefix ''a_''), (5, OpList ''a'')]"

fun answer_text :: "kv_result \<Rightarrow> string list" where
  "answer_text (RKeys ks) = ks"
| "answer_text (RInt n) = [itoa n]"
| "answer_text (RValue v) = (case v of None \<Rightarrow> [] | Some x \<Rightarrow> [x])"
| "answer_text r = []"

theorem kvstore_refines_witness:
  "map answer_text (fst (run_ops (kv_spec_call starts_with 100) example_kv_calls Map.empty)) = [[], [], [], [''2''], [''ab1'']]"
proof -
  have "prefixes_plain example_kv_calls" by code_simp
  note r = kvstore_refines [OF this, of 100]
  have "map answer_text (fst (run_ops (kv_call 100) example_kv_calls [])) = [[], [], [], [''2''], [''ab1'']]" by code_simp
  with r show ?thesis by metis
qed

text \<open>Deleting by a prefix ignores case.\<close>

lemma delete_ignores_case:
  "map answer_text (fst (run_ops (kv_call 100) [(1, OpSet ''USER:x'' ''v''), (2, OpDeleteByPrefix ''user:''), (3, OpGet ''USER:x'')] []))
     = [[], [''1''], []]"
  by code_simp

subsection \<open>The storage limit\<close>

lemma used_mono:
  assumes "finite (dom g)" and "f \<subseteq>\<^sub>m g"
  shows "(\<Sum>k \<in> dom f. int (length (the (f k)))) \<le> (\<Sum>k \<in> dom g. int (length (the (g k))))"
proof -
  have "(\<Sum>k \<in> dom f. int (length (the (f k)))) = (\<Sum>k \<in> dom f. int (length (the (g k))))"
    using assms(2) by (intro sum.cong) (auto simp: map_le_def)
  also have "\<dots> \<le> (\<Sum>k \<in> dom g. int (length (the (g k))))"
    using assms by (intro sum_mono2) (simp_all add: map_le_implies_dom_le)
  finally show ?thesis .
qed

lemma finite_view: "finite (dom m) \<Longrightarrow> finite (dom (spec_view now m))"
  by (rule finite_subset [of _ "dom m"]) (auto simp: spec_view_def split: option.splits)

lemma view_later: "now \<le> now' \<Longrightarrow> spec_view now' m \<subseteq>\<^sub>m spec_view now m"
  by (auto simp: map_le_def spec_view_def kv_unexpired_def split: option.splits if_splits)

lemma view_restrict: "spec_view now (m |` S) \<subseteq>\<^sub>m spec_view now m" "spec_view now (m(k := None)) \<subseteq>\<^sub>m spec_view now m"
  by (auto simp: map_le_def spec_view_def restrict_map_def split: option.splits if_splits)

lemma used_update:
  assumes "finite (dom f)"
  shows "(\<Sum>k \<in> dom (f(key \<mapsto> v)). int (length (the ((f(key \<mapsto> v)) k)))) =
    (\<Sum>k \<in> dom f. int (length (the (f k)))) - (case f key of None \<Rightarrow> 0 | Some w \<Rightarrow> int (length w)) + int (length v)"
proof -
  let ?s = "\<Sum>k \<in> dom f - {key}. int (length (the (f k)))"
  have "(\<Sum>k \<in> dom (f(key \<mapsto> v)). int (length (the ((f(key \<mapsto> v)) k)))) = int (length v) + ?s"
    using assms by (simp add: sum.insert_remove)
  moreover have "(\<Sum>k \<in> dom f. int (length (the (f k)))) = (case f key of None \<Rightarrow> 0 | Some w \<Rightarrow> int (length w)) + ?s"
    using assms by (auto simp: sum.remove [of _ key] Diff_insert0 domIff split: option.splits)
  ultimately show ?thesis by simp
qed

lemma spec_exec_limit:
  assumes "finite (dom m)" and "spec_used now m \<le> maxSize"
  shows "spec_used now (snd (kv_spec_exec key_like maxSize now opn m)) \<le> maxSize \<and>
    finite (dom (snd (kv_spec_exec key_like maxSize now opn m)))"
proof -
  note fin = finite_view [OF assms(1), of now]
  have set: "spec_used now (snd (spec_set maxSize now k v e m)) \<le> maxSize \<and> finite (dom (snd (spec_set maxSize now k v e m)))"
    if "kv_unexpired now e" for k v e
  proof -
    have "spec_view now (m(k \<mapsto> (v, e))) = (spec_view now m)(k \<mapsto> v)"
      using that by (auto simp: spec_view_def fun_eq_iff)
    with used_update [OF fin, of k v] assms show ?thesis
      by (auto simp: spec_set_def spec_used_def Let_def split: option.splits)
  qed
  have smaller: "spec_used now m' \<le> maxSize" if "spec_view now m' \<subseteq>\<^sub>m spec_view now m" for m'
    using used_mono [OF fin that] assms(2) by (simp add: spec_used_def)
  show ?thesis
    using assms set smaller [OF view_restrict(1)] smaller [OF view_restrict(2)]
    by (cases opn) (simp_all add: kv_unexpired_def finite_subset [OF _ assms(1)])
qed

lemma spec_run_limit:
  assumes "finite (dom m)" and "spec_used start m \<le> maxSize" and "sorted (start # map fst ops)" and "\<forall>o1 \<in> set ops. fst o1 \<le> now"
    and "start \<le> now"
  shows "spec_used now (snd (run_ops (kv_spec_call key_like maxSize) ops m)) \<le> maxSize"
  using assms
proof (induction ops arbitrary: m start)
  case Nil
  with used_mono [OF finite_view [OF Nil.prems(1)] view_later [OF Nil.prems(5)]] show ?case
    by (simp add: spec_used_def)
next
  case (Cons o1 ops)
  obtain t opn where o1: "o1 = (t, opn)" by (cases o1)
  with Cons.prems have "start \<le> t" by simp
  then have "spec_used t m \<le> maxSize"
    using used_mono [OF finite_view [OF Cons.prems(1)] view_later] Cons.prems(2) by (simp add: spec_used_def) (meson order.trans)
  from spec_exec_limit [OF Cons.prems(1) this, of opn] Cons.prems o1 show ?case
    using Cons.IH [of "snd (kv_spec_exec key_like maxSize t opn m)" t] by (simp add: Let_def case_prod_beta kv_spec_call_def)
qed

text \<open>
  a plugin never stores more than it is allowed. In every history of calls at times that do not go
  back, whatever fails or expires on the way, the sizes of the live values never exceed the limit,
  at the end of the history or at any later time.
\<close>

theorem kvstore_within_limit:
  assumes "0 \<le> maxSize" and "sorted (map fst ops)" and "list_all (\<lambda>o1. fst o1 \<le> now) ops"
  shows "kv_GetStorageUsed now (snd (run_ops (kv_call maxSize) ops [])) \<le> maxSize"
proof -
  define start where "start = (case ops of [] \<Rightarrow> now | o1 # _ \<Rightarrow> fst o1)"
  have s: "sorted (start # map fst ops)" "start \<le> now" "\<forall>o1 \<in> set ops. fst o1 \<le> now"
    using assms(2,3) by (cases ops; auto simp: start_def list_all_iff)+
  have "spec_used now (snd (run_ops (kv_spec_call key_like maxSize) ops Map.empty)) \<le> maxSize"
  proof (rule spec_run_limit [OF _ _ s(1,3,2)])
    have "spec_view start Map.empty = Map.empty" by (simp add: spec_view_def fun_eq_iff)
    with assms(1) show "spec_used start Map.empty \<le> maxSize" by (simp add: spec_used_def)
  qed simp
  with kv.run_refines_init [OF kv_empty, of maxSize ops] show ?thesis
    by (simp add: kv_GetStorageUsed_def flip: spec_used_storage)
qed

theorem kvstore_within_limit_witness:
  "kv_GetStorageUsed 20 (snd (run_ops (kv_call 5) [(10, OpSet ''a'' ''xyz''), (11, OpSetWithTTL ''b'' ''12345'' 3), (15, OpSet ''b'' ''no'')] [])) \<le> 5"
  by (rule kvstore_within_limit) simp_all

end
