(* ===== verification/Task_Queue.thy ===== *)
theory Task_Queue
  imports Slots "HOL-Library.Word"
begin

text \<open>
  \<open>plugins/host_taskqueue.go\<close>: the persistent task queues of a plugin. The service's state is its table
  of tasks (in row order), the persisted queues and the queues it runs in this life. Instants are
  milliseconds. \<open>processTask\<close> is not atomic: it claims a task in one statement, runs the plugin's
  callback, and records the outcome in another; so a worker is a \<open>task_claim\<close> between the two, and
  \<open>tq_step\<close> lets claims, outcomes and calls of the plugin interleave in any order. \<open>tq_stop\<close> ends a life of the
  service: it is closed, or its process dies, and the next life opens the same database. The rate limiter and
  the wake-up signals only decide when a worker moves. The back-off shifts a 64-bit integer, so it is
  computed on words.
\<close>

definition defaultConcurrency :: int where "defaultConcurrency = 1"
definition defaultBackoffMs :: int where "defaultBackoffMs = 1000"
definition defaultRetentionMs :: int where "defaultRetentionMs = 3600000"
definition minRetentionMs :: int where "minRetentionMs = 60000"
definition maxRetentionMs :: int where "maxRetentionMs = 604800000"
definition maxQueueNameLength :: nat where "maxQueueNameLength = 128"
definition maxPayloadSize :: int where "maxPayloadSize = 1 * 1024 * 1024"
definition maxBackoffMs :: int where "maxBackoffMs = 3600000"

datatype task_status = Pending | Running | Completed | Failed | Cancelled

record QueueConfig =
  qc_Concurrency :: int
  qc_MaxRetries :: int
  qc_BackoffMs :: int
  qc_DelayMs :: int
  qc_RetentionMs :: int

record task =
  tk_id :: string
  tk_queue :: string
  tk_payload :: string
  tk_status :: task_status
  tk_attempt :: int
  tk_max_retries :: int
  tk_next_run_at :: int
  tk_created_at :: int
  tk_updated_at :: int
  tk_message :: string

record task_service =
  ts_maxConcurrency :: int
  ts_queueRows :: "string \<rightharpoonup> QueueConfig"
  ts_queues :: "(string \<times> QueueConfig) list"
  ts_tasks :: "task list"

datatype task_error =
    QueueNameEmpty | QueueNameTooLong | ConcurrencyExhausted | QueueExists | QueueMissing | PayloadTooLarge
  | TaskNotFound | NotCancellable task_status

definition applyConfigDefaults :: "QueueConfig \<Rightarrow> QueueConfig" where
  "applyConfigDefaults config =
     (let c1 = (if qc_Concurrency config \<le> 0 then config\<lparr>qc_Concurrency := defaultConcurrency\<rparr> else config);
          c2 = (if qc_BackoffMs c1 \<le> 0 then c1\<lparr>qc_BackoffMs := defaultBackoffMs\<rparr> else c1);
          c3 = (if qc_RetentionMs c2 \<le> 0 then c2\<lparr>qc_RetentionMs := defaultRetentionMs\<rparr> else c2);
          c4 = (if qc_RetentionMs c3 < minRetentionMs then c3\<lparr>qc_RetentionMs := minRetentionMs\<rparr> else c3)
      in if qc_RetentionMs c4 > maxRetentionMs then c4\<lparr>qc_RetentionMs := maxRetentionMs\<rparr> else c4)"

definition allocated :: "task_service \<Rightarrow> int" where
  "allocated s = sum_list (map (qc_Concurrency \<circ> snd) (ts_queues s))"

definition clampConcurrency :: "task_service \<Rightarrow> QueueConfig \<Rightarrow> task_error + QueueConfig" where
  "clampConcurrency s config =
     (let available = ts_maxConcurrency s - allocated s
      in if available \<le> 0 then Inl ConcurrencyExhausted
         else if qc_Concurrency config > available then Inr (config\<lparr>qc_Concurrency := available\<rparr>)
         else Inr config)"

text \<open>\<open>UPDATE tasks SET ... WHERE ...\<close>.\<close>

definition update_where :: "(task \<Rightarrow> bool) \<Rightarrow> (task \<Rightarrow> task) \<Rightarrow> task list \<Rightarrow> task list" where
  "update_where p f ts = map (\<lambda>t. if p t then f t else t) ts"

definition CreateQueue :: "int \<Rightarrow> string \<Rightarrow> QueueConfig \<Rightarrow> task_service \<Rightarrow> task_error + task_service" where
  "CreateQueue now name config0 s =
     (if name = [] then Inl QueueNameEmpty
      else if length name > maxQueueNameLength then Inl QueueNameTooLong
      else
        (case clampConcurrency s (applyConfigDefaults config0) of
           Inl err \<Rightarrow> Inl err
         | Inr config \<Rightarrow>
             if map_of (ts_queues s) name \<noteq> None then Inl QueueExists
             else Inr (s\<lparr>ts_queueRows := (ts_queueRows s)(name \<mapsto> config),
               ts_tasks := update_where (\<lambda>t. tk_queue t = name \<and> tk_status t = Running)
                 (\<lambda>t. t\<lparr>tk_status := Pending, tk_updated_at := now\<rparr>) (ts_tasks s),
               ts_queues := (name, config) # ts_queues s\<rparr>)))"

definition new_task :: "int \<Rightarrow> string \<Rightarrow> string \<Rightarrow> string \<Rightarrow> int \<Rightarrow> task" where
  "new_task now taskID queueName payload maxRetries =
     \<lparr>tk_id = taskID, tk_queue = queueName, tk_payload = payload, tk_status = Pending, tk_attempt = 0,
      tk_max_retries = maxRetries, tk_next_run_at = now, tk_created_at = now, tk_updated_at = now, tk_message = []\<rparr>"

definition Enqueue_task :: "int \<Rightarrow> string \<Rightarrow> string \<Rightarrow> string \<Rightarrow> task_service \<Rightarrow> task_error + task_service" where
  "Enqueue_task now taskID queueName payload s =
     (case map_of (ts_queues s) queueName of
        None \<Rightarrow> Inl QueueMissing
      | Some config \<Rightarrow>
          if int (length payload) > maxPayloadSize then Inl PayloadTooLarge
          else Inr (s\<lparr>ts_tasks := ts_tasks s @ [new_task now taskID queueName payload (qc_MaxRetries config)]\<rparr>))"

definition Get_task :: "string \<Rightarrow> task_service \<Rightarrow> task_error + task_status \<times> string \<times> int" where
  "Get_task taskID s =
     (case filter (\<lambda>t. tk_id t = taskID) (ts_tasks s) of
        [] \<Rightarrow> Inl TaskNotFound
      | t # _ \<Rightarrow> Inr (tk_status t, tk_message t, tk_attempt t))"

definition Cancel_task :: "int \<Rightarrow> string \<Rightarrow> task_service \<Rightarrow> task_error + task_service" where
  "Cancel_task now taskID s =
     (if list_ex (\<lambda>t. tk_id t = taskID \<and> tk_status t = Pending) (ts_tasks s)
      then Inr (s\<lparr>ts_tasks := update_where (\<lambda>t. tk_id t = taskID \<and> tk_status t = Pending)
        (\<lambda>t. t\<lparr>tk_status := Cancelled, tk_updated_at := now\<rparr>) (ts_tasks s)\<rparr>)
      else
        (case filter (\<lambda>t. tk_id t = taskID) (ts_tasks s) of
           [] \<Rightarrow> Inl TaskNotFound
         | t # _ \<Rightarrow> Inl (NotCancellable (tk_status t))))"

definition ClearQueue :: "int \<Rightarrow> string \<Rightarrow> task_service \<Rightarrow> task_error + int \<times> task_service" where
  "ClearQueue now queueName s =
     (case map_of (ts_queues s) queueName of
        None \<Rightarrow> Inl QueueMissing
      | Some _ \<Rightarrow>
          let p = (\<lambda>t. tk_queue t = queueName \<and> tk_status t = Pending)
          in Inr (int (length (filter p (ts_tasks s))),
               s\<lparr>ts_tasks := update_where p (\<lambda>t. t\<lparr>tk_status := Cancelled, tk_updated_at := now\<rparr>) (ts_tasks s)\<rparr>))"

subsection \<open>Workers\<close>

record task_claim =
  cl_queue :: string
  cl_task :: string
  cl_attempt :: int
  cl_max_retries :: int

text \<open>\<open>ORDER BY next_run_at, created_at LIMIT 1\<close>.\<close>

definition runs_before :: "task \<Rightarrow> task \<Rightarrow> bool" where
  "runs_before u t \<longleftrightarrow> tk_next_run_at u < tk_next_run_at t \<or>
     (tk_next_run_at u = tk_next_run_at t \<and> tk_created_at u < tk_created_at t)"

fun earliest :: "task list \<Rightarrow> task option" where
  "earliest [] = None"
| "earliest (t # ts) =
     (case earliest ts of None \<Rightarrow> Some t | Some u \<Rightarrow> if runs_before u t then Some u else Some t)"

definition runnable :: "int \<Rightarrow> string \<Rightarrow> task \<Rightarrow> bool" where
  "runnable now queueName t \<longleftrightarrow> tk_queue t = queueName \<and> tk_status t = Pending \<and> tk_next_run_at t \<le> now"

definition dequeue :: "int \<Rightarrow> string \<Rightarrow> task list \<Rightarrow> (task_claim \<times> task list) option" where
  "dequeue now queueName ts =
     (case earliest (filter (runnable now queueName) ts) of
        None \<Rightarrow> None
      | Some t \<Rightarrow>
          Some (\<lparr>cl_queue = queueName, cl_task = tk_id t, cl_attempt = tk_attempt t + 1,
                 cl_max_retries = tk_max_retries t\<rparr>,
                update_where (\<lambda>u. tk_id u = tk_id t)
                  (\<lambda>u. u\<lparr>tk_status := Running, tk_attempt := tk_attempt u + 1, tk_updated_at := now\<rparr>) ts))"

definition completeTask :: "int \<Rightarrow> string \<Rightarrow> string \<Rightarrow> task list \<Rightarrow> task list" where
  "completeTask now taskID message ts =
     update_where (\<lambda>t. tk_id t = taskID)
       (\<lambda>t. t\<lparr>tk_status := Completed, tk_message := message, tk_updated_at := now\<rparr>) ts"

text \<open>\<open>BackoffMs << (attempt - 1)\<close> on \<open>int64\<close>, with the cap.\<close>

definition retry_backoff :: "int \<Rightarrow> int \<Rightarrow> int" where
  "retry_backoff backoffMs attempt =
     (let backoff = sint (push_bit (nat (attempt - 1)) (word_of_int backoffMs :: 64 word))
      in if backoff \<le> 0 \<or> backoff > maxBackoffMs then maxBackoffMs else backoff)"

definition handleTaskFailure :: "int \<Rightarrow> QueueConfig \<Rightarrow> task_claim \<Rightarrow> string \<Rightarrow> string \<Rightarrow> task list \<Rightarrow> task list" where
  "handleTaskFailure now config c callbackErr message0 ts =
     (let message = (if message0 = [] then callbackErr else message0)
      in if cl_attempt c > cl_max_retries c
         then update_where (\<lambda>t. tk_id t = cl_task c)
           (\<lambda>t. t\<lparr>tk_status := Failed, tk_message := message, tk_updated_at := now\<rparr>) ts
         else update_where (\<lambda>t. tk_id t = cl_task c)
           (\<lambda>t. t\<lparr>tk_status := Pending, tk_next_run_at := now + retry_backoff (qc_BackoffMs config) (cl_attempt c),
                  tk_updated_at := now\<rparr>) ts)"

definition revertTaskToPending :: "int \<Rightarrow> string \<Rightarrow> task list \<Rightarrow> task list" where
  "revertTaskToPending now taskID ts =
     update_where (\<lambda>t. tk_id t = taskID \<and> tk_status t = Running)
       (\<lambda>t. t\<lparr>tk_status := Pending, tk_attempt := max (tk_attempt t - 1) 0, tk_updated_at := now\<rparr>) ts"

definition terminal :: "task_status \<Rightarrow> bool" where
  "terminal st \<longleftrightarrow> st = Completed \<or> st = Failed \<or> st = Cancelled"

definition cleanup_queue :: "int \<Rightarrow> string \<times> QueueConfig \<Rightarrow> task list \<Rightarrow> task list" where
  "cleanup_queue now qc ts =
     filter (\<lambda>t. \<not> (tk_queue t = fst qc \<and> terminal (tk_status t) \<and>
       tk_updated_at t + qc_RetentionMs (snd qc) < now)) ts"

definition runCleanup :: "int \<Rightarrow> task_service \<Rightarrow> task_service" where
  "runCleanup now s =
     s\<lparr>ts_tasks := fold (cleanup_queue now) (ts_queues s) (ts_tasks s)\<rparr>"

definition Close_service :: "int \<Rightarrow> task_service \<Rightarrow> task_service" where
  "Close_service now s =
     s\<lparr>ts_tasks := update_where (\<lambda>t. tk_status t = Running)
        (\<lambda>t. t\<lparr>tk_status := Pending, tk_updated_at := now\<rparr>) (ts_tasks s), ts_queues := []\<rparr>"

subsection \<open>The service and its workers\<close>

type_synonym tq_state = "task_service \<times> task_claim list"

definition free_worker :: "string \<Rightarrow> QueueConfig \<Rightarrow> task_claim list \<Rightarrow> bool" where
  "free_worker queueName config cs \<longleftrightarrow>
     int (count_if (\<lambda>c. cl_queue c = queueName) cs) < qc_Concurrency config"

inductive tq_step :: "tq_state \<Rightarrow> tq_state \<Rightarrow> bool" where
  create: "CreateQueue now name config s = Inr s' \<Longrightarrow> tq_step (s, cs) (s', cs)"
| enqueue: "Enqueue_task now taskID queueName payload s = Inr s' \<Longrightarrow> taskID \<notin> tk_id ` set (ts_tasks s) \<Longrightarrow>
    tq_step (s, cs) (s', cs)"
| cancel: "Cancel_task now taskID s = Inr s' \<Longrightarrow> tq_step (s, cs) (s', cs)"
| clear: "ClearQueue now queueName s = Inr (n, s') \<Longrightarrow> tq_step (s, cs) (s', cs)"
| claim: "map_of (ts_queues s) queueName = Some config \<Longrightarrow> free_worker queueName config cs \<Longrightarrow>
    dequeue now queueName (ts_tasks s) = Some (c, ts) \<Longrightarrow> tq_step (s, cs) (s\<lparr>ts_tasks := ts\<rparr>, cs @ [c])"
| complete: "i < length cs \<Longrightarrow>
    tq_step (s, cs) (s\<lparr>ts_tasks := completeTask now (cl_task (cs ! i)) message (ts_tasks s)\<rparr>, remove_nth i cs)"
| fail: "i < length cs \<Longrightarrow> map_of (ts_queues s) (cl_queue (cs ! i)) = Some config \<Longrightarrow>
    tq_step (s, cs) (s\<lparr>ts_tasks := handleTaskFailure now config (cs ! i) err message (ts_tasks s)\<rparr>, remove_nth i cs)"
| revert: "i < length cs \<Longrightarrow>
    tq_step (s, cs) (s\<lparr>ts_tasks := revertTaskToPending now (cl_task (cs ! i)) (ts_tasks s)\<rparr>, remove_nth i cs)"
| cleanup: "tq_step (s, cs) (runCleanup now s, cs)"

definition new_service :: "int \<Rightarrow> task_service" where
  "new_service maxConcurrency =
     \<lparr>ts_maxConcurrency = maxConcurrency, ts_queueRows = Map.empty, ts_queues = [], ts_tasks = []\<rparr>"

text \<open>
  The end of a life and the start of the next. \<open>Close\<close> stops the workers, which put their tasks back (\<open>revert\<close>); those that
  do not within the time limit are left behind and their later statements fail, as the context is cancelled and the
  database closed. A crash leaves the table as it is. The new service has no queues until the plugin creates them again.
\<close>

inductive tq_stop :: "tq_state \<Rightarrow> tq_state \<Rightarrow> bool" where
  close: "tq_stop (s, cs) (Close_service now s, [])"
| crash: "tq_stop (s, cs) (s\<lparr>ts_queues := []\<rparr>, [])"

text \<open>The number counts the stops that found a worker still at its task.\<close>

inductive tq_reachable :: "int \<Rightarrow> nat \<Rightarrow> tq_state \<Rightarrow> bool" for maxConcurrency where
  init: "tq_reachable maxConcurrency 0 (new_service maxConcurrency, [])"
| step: "tq_reachable maxConcurrency k st \<Longrightarrow> tq_step st st' \<Longrightarrow> tq_reachable maxConcurrency k st'"
| stop: "tq_reachable maxConcurrency k st \<Longrightarrow> tq_stop st st' \<Longrightarrow>
    tq_reachable maxConcurrency (if snd st = [] then k else k + 1) st'"

subsection \<open>Back-off\<close>

lemma sint_push_bit:
  "sint (push_bit n (word_of_int b :: 64 word)) = signed_take_bit 63 (b * 2 ^ n)"
proof -
  have "push_bit n (word_of_int b :: 64 word) = word_of_int (b * 2 ^ n)"
    by (simp add: push_bit_eq_mult)
  then show ?thesis by (simp only: sint_sbintrunc') simp
qed

lemma signed_64: "signed_take_bit 63 (x :: int) = (x + 2 ^ 63) mod 2 ^ 64 - 2 ^ 63"
  by (simp add: signed_take_bit_eq_take_bit_shift take_bit_eq_mod)

lemma retry_backoff_range: "0 < retry_backoff b attempt \<and> retry_backoff b attempt \<le> maxBackoffMs"
  by (simp add: retry_backoff_def Let_def maxBackoffMs_def)

lemma shifted_wraps:
  assumes "22 \<le> n" and "0 < signed_take_bit 63 (b * 2 ^ n :: int)"
  shows "maxBackoffMs < signed_take_bit 63 (b * 2 ^ n)"
proof -
  have "(2 :: int) ^ 22 dvd b * 2 ^ n" using assms(1) by (intro dvd_mult le_imp_power_dvd)
  moreover have "(2 :: int) ^ 22 dvd 2 ^ 63" by (intro le_imp_power_dvd) simp
  moreover have "(2 :: int) ^ 22 dvd 2 ^ 64" by (intro le_imp_power_dvd) simp
  ultimately have "2 ^ 22 dvd signed_take_bit 63 (b * 2 ^ n :: int)"
    unfolding signed_64 by (intro dvd_diff dvd_mod dvd_add)
  then have "2 ^ 22 \<le> signed_take_bit 63 (b * 2 ^ n :: int)" using assms(2) by (rule zdvd_imp_le)
  then show ?thesis by (simp add: maxBackoffMs_def)
qed

lemma retry_backoff_min:
  assumes "0 < b" and "b < 2 ^ 42"
  shows "retry_backoff b attempt = min (b * 2 ^ nat (attempt - 1)) maxBackoffMs"
proof (cases "nat (attempt - 1) \<le> 21")
  case True
  then have "(2 :: int) ^ nat (attempt - 1) \<le> 2 ^ 21" by (intro power_increasing) simp_all
  with assms have "b * 2 ^ nat (attempt - 1) < 2 ^ 42 * 2 ^ 21"
    by (intro mult_less_le_imp_less) simp_all
  moreover have "0 < b * 2 ^ nat (attempt - 1)" using assms(1) by simp
  ultimately have "signed_take_bit 63 (b * 2 ^ nat (attempt - 1)) = b * 2 ^ nat (attempt - 1)"
    unfolding signed_64 by (subst mod_pos_pos_trivial) simp_all
  with \<open>0 < b * 2 ^ nat (attempt - 1)\<close> show ?thesis
    by (simp add: retry_backoff_def sint_push_bit Let_def)
next
  case False
  then have n: "22 \<le> nat (attempt - 1)" by simp
  have "(2 :: int) ^ 22 \<le> 2 ^ nat (attempt - 1)" using n by (intro power_increasing) simp_all
  also have "\<dots> \<le> b * 2 ^ nat (attempt - 1)" using assms(1) by (simp add: mult_le_cancel_right1)
  finally have "maxBackoffMs \<le> b * 2 ^ nat (attempt - 1)" by (simp add: maxBackoffMs_def)
  moreover have "retry_backoff b attempt = maxBackoffMs"
    using shifted_wraps [OF n, of b] by (auto simp: retry_backoff_def sint_push_bit Let_def)
  ultimately show ?thesis by simp
qed

text \<open>
  the delay before a retry is the queue's back-off doubled for every attempt made, up to an hour,
  however many attempts were made: beyond the 64 bits of the shift the result wraps to zero, to a
  negative number or to a number above the cap, never to a short delay. It is positive and at most
  an hour for every configuration.
\<close>

theorem retry_backoff_doubles:
  assumes "0 < b" and "b < 2 ^ 42"
  shows "retry_backoff b attempt = min (b * 2 ^ nat (attempt - 1)) maxBackoffMs \<and>
    0 < retry_backoff c attempt \<and> retry_backoff c attempt \<le> maxBackoffMs"
  using retry_backoff_min [OF assms] retry_backoff_range by simp

theorem retry_backoff_doubles_witness:
  "retry_backoff 1000 3 = 4000 \<and> retry_backoff 1000 70 \<le> maxBackoffMs"
  using retry_backoff_doubles [of 1000 3 1000] retry_backoff_doubles [of 1000 70 1000] by (simp add: maxBackoffMs_def)

subsection \<open>Claims\<close>

definition matches_task :: "task_claim \<Rightarrow> task \<Rightarrow> bool" where
  "matches_task c t \<longleftrightarrow> tk_id t = cl_task c \<and> tk_queue t = cl_queue c \<and> tk_attempt t = cl_attempt c \<and>
     tk_max_retries t = cl_max_retries c"

text \<open>The running tasks of the queues of this life are those of the workers, one each.\<close>

definition queue_names :: "task_service \<Rightarrow> string set" where
  "queue_names s = fst ` set (ts_queues s)"

definition claims_ok :: "string set \<Rightarrow> task list \<Rightarrow> task_claim list \<Rightarrow> bool" where
  "claims_ok qs ts cs \<longleftrightarrow> distinct (map tk_id ts) \<and> distinct (map cl_task cs) \<and>
     (\<forall>t \<in> set ts. tk_status t = Running \<and> tk_queue t \<in> qs \<longleftrightarrow> tk_id t \<in> cl_task ` set cs) \<and>
     (\<forall>c \<in> set cs. \<exists>t \<in> set ts. matches_task c t)"

declare claims_ok_def [inv_defs]

lemma set_update_where: "t' \<in> set (update_where p f ts) \<longleftrightarrow> (\<exists>t \<in> set ts. t' = (if p t then f t else t))"
  by (auto simp: update_where_def)

lemma in_update_where_other: "t \<in> set ts \<Longrightarrow> \<not> p t \<Longrightarrow> t \<in> set (update_where p f ts)"
  by (auto simp: update_where_def image_iff)

lemma ids_update_where:
  "(\<And>t. tk_id (f t) = tk_id t) \<Longrightarrow> map tk_id (update_where p f ts) = map tk_id ts"
  by (simp add: update_where_def)

lemma update_where_none: "(\<And>t. t \<in> set ts \<Longrightarrow> \<not> p t) \<Longrightarrow> update_where p f ts = ts"
  by (simp add: update_where_def map_idI)

lemma set_remove_nth_distinct:
  assumes "distinct (map g xs)" and "i < length xs"
  shows "set (remove_nth i xs) = {x \<in> set xs. g x \<noteq> g (xs ! i)}"
proof -
  have "xs = take i xs @ xs ! i # drop (Suc i) xs" using assms(2) by (rule id_take_nth_drop)
  with assms(1) have "distinct (map g (take i xs @ xs ! i # drop (Suc i) xs))" by simp
  then have d: "g (xs ! i) \<notin> g ` set (take i xs @ drop (Suc i) xs)" by auto
  have "set xs = insert (xs ! i) (set (remove_nth i xs))"
    using mset_remove_nth [OF assms(2)] by (metis set_mset_add_mset_insert set_mset_mset)
  moreover have "g x \<noteq> g (xs ! i)" if "x \<in> set (remove_nth i xs)" for x
    using d that unfolding remove_nth_def by (metis imageI)
  ultimately show ?thesis by auto
qed

lemma claims_ok_running:
  assumes "claims_ok qs ts cs"
  shows "{tk_id t |t. t \<in> set ts \<and> tk_status t = Running \<and> tk_queue t \<in> qs} = cl_task ` set cs" (is "?run = _")
proof
  show "?run \<subseteq> cl_task ` set cs" using assms by (auto simp: claims_ok_def)
  show "cl_task ` set cs \<subseteq> ?run"
  proof
    fix i
    assume "i \<in> cl_task ` set cs"
    then obtain t where "t \<in> set ts" "tk_id t = i" using assms by (auto simp: claims_ok_def matches_task_def)
    moreover from this \<open>i \<in> cl_task ` set cs\<close> have "tk_status t = Running \<and> tk_queue t \<in> qs"
      using assms by (simp add: claims_ok_def)
    ultimately show "i \<in> ?run" by blast
  qed
qed

lemma claims_ok_idle_update:
  assumes "claims_ok qs ts cs" and "\<And>t. t \<in> set ts \<Longrightarrow> p t \<Longrightarrow> tk_status t \<noteq> Running"
    and "\<And>t. tk_id (f t) = tk_id t" and "\<And>t. tk_status (f t) \<noteq> Running"
  shows "claims_ok qs (update_where p f ts) cs"
proof -
  have "\<exists>t' \<in> set (update_where p f ts). matches_task c t'" if c: "c \<in> set cs" for c
  proof -
    obtain t where t: "t \<in> set ts" "matches_task c t" using assms(1) c by (auto simp: claims_ok_def)
    then have "tk_status t = Running" using assms(1) c by (auto simp: claims_ok_def matches_task_def)
    with t assms(2) have "\<not> p t" by blast
    with t show ?thesis using in_update_where_other by blast
  qed
  moreover have "tk_status t' = Running \<and> tk_queue t' \<in> qs \<longleftrightarrow> tk_id t' \<in> cl_task ` set cs" if t': "t' \<in> set (update_where p f ts)" for t'
  proof -
    obtain t where t: "t \<in> set ts" "t' = (if p t then f t else t)" using t' by (auto simp: set_update_where)
    have "tk_status t = Running \<and> tk_queue t \<in> qs \<longleftrightarrow> tk_id t \<in> cl_task ` set cs" using assms(1) t(1) by (simp add: claims_ok_def)
    with t assms(2-4) show ?thesis by (auto split: if_splits)
  qed
  moreover have "map tk_id (update_where p f ts) = map tk_id ts" using assms(3) by (rule ids_update_where)
  ultimately show ?thesis using assms(1) unfolding claims_ok_def by simp
qed

lemma claims_ok_finish:
  assumes "claims_ok qs ts cs" and "i < length cs" and "\<And>t. t \<in> set ts \<Longrightarrow> p t \<longleftrightarrow> tk_id t = cl_task (cs ! i)"
    and "\<And>t. tk_id (f t) = tk_id t" and "\<And>t. tk_status (f t) \<noteq> Running"
  shows "claims_ok qs (update_where p f ts) (remove_nth i cs)"
proof -
  have d: "distinct (map cl_task cs)" using assms(1) by (simp add: claims_ok_def)
  note rest = set_remove_nth_distinct [OF d assms(2)]
  have "\<exists>t' \<in> set (update_where p f ts). matches_task c t'" if c: "c \<in> set (remove_nth i cs)" for c
  proof -
    obtain t where t: "t \<in> set ts" "matches_task c t" using assms(1) c rest by (auto simp: claims_ok_def)
    with c rest assms(3) have "\<not> p t" by (auto simp: matches_task_def)
    with t show ?thesis using in_update_where_other by blast
  qed
  moreover have "tk_status t' = Running \<and> tk_queue t' \<in> qs \<longleftrightarrow> tk_id t' \<in> cl_task ` set (remove_nth i cs)"
    if t': "t' \<in> set (update_where p f ts)" for t'
  proof -
    obtain t where t: "t \<in> set ts" "t' = (if p t then f t else t)" using t' by (auto simp: set_update_where)
    have "tk_status t = Running \<and> tk_queue t \<in> qs \<longleftrightarrow> tk_id t \<in> cl_task ` set cs" using assms(1) t(1) by (simp add: claims_ok_def)
    then show ?thesis
    proof (cases "p t")
      case True
      with t assms(3) have "tk_id t' = cl_task (cs ! i)" by (simp add: assms(4))
      with True t assms(5) rest show ?thesis by auto
    next
      case False
      with t assms(3) have "tk_id t \<noteq> cl_task (cs ! i)" by simp
      then have "tk_id t \<in> cl_task ` set cs \<longleftrightarrow> tk_id t \<in> cl_task ` set (remove_nth i cs)" by (auto simp: rest)
      with \<open>tk_status t = Running \<and> tk_queue t \<in> qs \<longleftrightarrow> tk_id t \<in> cl_task ` set cs\<close> False t show ?thesis by simp
    qed
  qed
  moreover have "map tk_id (update_where p f ts) = map tk_id ts" using assms(4) by (rule ids_update_where)
  ultimately show ?thesis
    using assms(1) d distinct_map_remove_nth [of cl_task cs i] unfolding claims_ok_def by simp
qed

lemma earliest_in: "earliest ts = Some t \<Longrightarrow> t \<in> set ts"
  by (induction ts arbitrary: t) (auto split: option.splits if_splits)

lemma earliest_None [simp]: "earliest ts = None \<longleftrightarrow> ts = []"
  by (cases ts) (auto split: option.splits)

lemma runs_before_total: "\<not> runs_before u y \<Longrightarrow> \<not> runs_before y x \<Longrightarrow> \<not> runs_before u x"
  "runs_before y x \<Longrightarrow> \<not> runs_before x y" "\<not> runs_before x x"
  unfolding runs_before_def by linarith+

lemma earliest_least: "earliest ts = Some t \<Longrightarrow> u \<in> set ts \<Longrightarrow> \<not> runs_before u t"
proof (induction ts arbitrary: t)
  case (Cons x ts)
  show ?case
  proof (cases "earliest ts")
    case None
    with Cons.prems show ?thesis using runs_before_total(3) by (auto split: if_splits)
  next
    case (Some y)
    with Cons.prems have "t = (if runs_before y x then y else x)" "u = x \<or> u \<in> set ts" by (simp_all split: if_splits)
    with Cons.IH [OF Some] runs_before_total show ?thesis by metis
  qed
qed simp

lemma dequeue_Some:
  assumes "dequeue now q ts = Some (c, ts')" and "distinct (map tk_id ts)"
  obtains t where "t \<in> set ts" "runnable now q t" "tk_id t = cl_task c" "cl_queue c = q"
    "cl_attempt c = tk_attempt t + 1" "cl_max_retries c = tk_max_retries t"
    "ts' = update_where (\<lambda>u. u = t)
      (\<lambda>u. u\<lparr>tk_status := Running, tk_attempt := tk_attempt u + 1, tk_updated_at := now\<rparr>) ts"
    "\<forall>u \<in> set ts. runnable now q u \<longrightarrow> \<not> runs_before u t"
proof -
  obtain t where e: "earliest (filter (runnable now q) ts) = Some t"
    using assms(1) by (auto simp: dequeue_def split: option.splits)
  then have t: "t \<in> set ts" "runnable now q t" using earliest_in [OF e] by auto
  have "tk_id u = tk_id t \<longleftrightarrow> u = t" if "u \<in> set ts" for u
    using assms(2) t(1) that by (auto simp: distinct_map inj_on_def)
  then have "update_where (\<lambda>u. tk_id u = tk_id t) f ts = update_where (\<lambda>u. u = t) f ts" for f
    unfolding update_where_def by (intro map_cong) auto
  with assms(1) e t earliest_least [OF e] that [of t] show ?thesis by (auto simp: dequeue_def)
qed

lemma claims_ok_dequeue:
  assumes "claims_ok qs ts cs" and "dequeue now q ts = Some (c, ts')" and "q \<in> qs"
  shows "claims_ok qs ts' (cs @ [c])"
proof -
  have d: "distinct (map tk_id ts)" using assms(1) by (simp add: claims_ok_def)
  obtain t where t: "t \<in> set ts" "runnable now q t" "tk_id t = cl_task c" "cl_queue c = q"
    "cl_attempt c = tk_attempt t + 1" "cl_max_retries c = tk_max_retries t"
    and ts': "ts' = update_where (\<lambda>u. u = t)
      (\<lambda>u. u\<lparr>tk_status := Running, tk_attempt := tk_attempt u + 1, tk_updated_at := now\<rparr>) ts"
    by (rule dequeue_Some [OF assms(2) d])
  have new: "cl_task c \<notin> cl_task ` set cs"
    using assms(1) t by (auto simp: claims_ok_def runnable_def)
  have ids: "map tk_id ts' = map tk_id ts" unfolding ts' by (rule ids_update_where) simp
  have st: "tk_status u' = Running \<and> tk_queue u' \<in> qs \<longleftrightarrow> tk_id u' \<in> cl_task ` set (cs @ [c])" if u': "u' \<in> set ts'" for u'
  proof -
    obtain u where u: "u \<in> set ts" "u' = (if u = t then u\<lparr>tk_status := Running, tk_attempt := tk_attempt u + 1,
        tk_updated_at := now\<rparr> else u)" using u' by (auto simp: ts' set_update_where)
    have "tk_id u = cl_task c \<longleftrightarrow> u = t" using d t(1,3) u(1) by (auto simp: distinct_map inj_on_def)
    with u assms(1,3) t(2,3) show ?thesis by (auto simp: claims_ok_def runnable_def)
  qed
  have "\<exists>u' \<in> set ts'. matches_task d u'" if c: "d \<in> set cs" for d
  proof -
    obtain u where u: "u \<in> set ts" "matches_task d u" using assms(1) c by (auto simp: claims_ok_def)
    with c new t(3) have "u \<noteq> t" by (metis imageI matches_task_def)
    with u(1) have "u \<in> set ts'" unfolding ts' by (intro in_update_where_other)
    with u(2) show ?thesis by blast
  qed
  moreover have "\<exists>u' \<in> set ts'. matches_task c u'"
    using t by (intro bexI [of _ "t\<lparr>tk_status := Running, tk_attempt := tk_attempt t + 1, tk_updated_at := now\<rparr>"])
      (auto simp: ts' set_update_where matches_task_def runnable_def)
  ultimately show ?thesis using assms(1) new ids st unfolding claims_ok_def by auto
qed

lemma claims_ok_filter:
  assumes "claims_ok qs ts cs" and "\<And>t. t \<in> set ts \<Longrightarrow> \<not> p t \<Longrightarrow> tk_status t \<noteq> Running"
  shows "claims_ok qs (filter p ts) cs"
proof -
  have "\<exists>t \<in> set (filter p ts). matches_task c t" if c: "c \<in> set cs" for c
  proof -
    obtain t where t: "t \<in> set ts" "matches_task c t" using assms(1) c by (auto simp: claims_ok_def)
    then have "tk_status t = Running" using assms(1) c by (auto simp: claims_ok_def matches_task_def)
    with t assms(2) show ?thesis by auto
  qed
  with assms(1) show ?thesis by (auto simp: claims_ok_def distinct_map_filter)
qed

subsection \<open>Attempts\<close>

text \<open>A task that waits, or that runs for no worker of this life, has an attempt left.\<close>

definition attempts_ok :: "nat \<Rightarrow> string set \<Rightarrow> task \<Rightarrow> bool" where
  "attempts_ok k qs t \<longleftrightarrow> 0 \<le> tk_attempt t \<and>
     (tk_status t = Pending \<or> (tk_status t = Running \<and> tk_queue t \<notin> qs) \<longrightarrow>
        tk_attempt t \<le> max 0 (tk_max_retries t) + int k) \<and>
     tk_attempt t \<le> max 0 (tk_max_retries t) + 1 + int k"

lemma attempts_update:
  "(\<And>t. t \<in> set ts \<Longrightarrow> attempts_ok k qs t) \<Longrightarrow> (\<And>t. t \<in> set ts \<Longrightarrow> p t \<Longrightarrow> attempts_ok k qs t \<Longrightarrow> attempts_ok k qs (f t)) \<Longrightarrow>
    t' \<in> set (update_where p f ts) \<Longrightarrow> attempts_ok k qs t'"
  by (auto simp: set_update_where)

text \<open>Within the budget: every queue has at least one worker and together they are within the plugin's limit; no
  queue runs more tasks than it has workers.\<close>

definition load_ok :: "task_claim list \<Rightarrow> string \<times> QueueConfig \<Rightarrow> bool" where
  "load_ok cs qc \<longleftrightarrow> 0 < qc_Concurrency (snd qc) \<and>
     int (count_if (\<lambda>c. cl_queue c = fst qc) cs) \<le> qc_Concurrency (snd qc)"

definition budget_ok :: "task_service \<Rightarrow> task_claim list \<Rightarrow> bool" where
  "budget_ok s cs \<longleftrightarrow> distinct (map fst (ts_queues s)) \<and> (\<forall>qc \<in> set (ts_queues s). load_ok cs qc) \<and>
     (ts_queues s = [] \<or> allocated s \<le> ts_maxConcurrency s) \<and>
     (\<forall>c \<in> set cs. cl_queue c \<in> fst ` set (ts_queues s))"

declare budget_ok_def [inv_defs]

definition tq_inv :: "nat \<Rightarrow> tq_state \<Rightarrow> bool" where
  "tq_inv k st \<longleftrightarrow> claims_ok (queue_names (fst st)) (ts_tasks (fst st)) (snd st) \<and> (\<forall>t \<in> set (ts_tasks (fst st)). attempts_ok k (queue_names (fst st)) t) \<and>
     budget_ok (fst st) (snd st)"

lemma queue_names_tasks [simp]: "queue_names (s\<lparr>ts_tasks := ts\<rparr>) = queue_names s"
  by (simp add: queue_names_def)

lemma queue_names_cleanup [simp]: "queue_names (runCleanup now s) = queue_names s"
  by (simp add: queue_names_def runCleanup_def)

lemma queue_names_config: "map_of (ts_queues s) q = Some config \<Longrightarrow> q \<in> queue_names s"
  by (auto simp: queue_names_def dest: map_of_SomeD intro: rev_image_eqI)

lemma count_remove_nth: "count_if p (remove_nth i xs) \<le> count_if p xs"
proof -
  have "count_if p (take i xs) + count_if p (drop i xs) = count_if p xs"
    by (metis append_take_drop_id count_if_simps(3))
  moreover have "count_if p (drop (Suc i) xs) \<le> count_if p (drop i xs)"
    by (cases "i < length xs") (simp_all add: Cons_nth_drop_Suc [symmetric] drop_Suc)
  ultimately show ?thesis by (simp add: remove_nth_def)
qed

lemma budget_finish: "budget_ok s cs \<Longrightarrow> budget_ok (s\<lparr>ts_tasks := ts\<rparr>) (remove_nth i cs)"
proof -
  have "load_ok (remove_nth i cs) qc" if "load_ok cs qc" for qc
    using that count_remove_nth [of "\<lambda>c. cl_queue c = fst qc" i cs] by (simp add: load_ok_def)
  with set_remove_nth_subset [of i cs] show "budget_ok s cs \<Longrightarrow> budget_ok (s\<lparr>ts_tasks := ts\<rparr>) (remove_nth i cs)"
    by (auto simp: budget_ok_def allocated_def)
qed

lemma budget_tasks: "budget_ok s cs \<Longrightarrow> budget_ok (s\<lparr>ts_tasks := ts\<rparr>) cs"
  by (simp add: budget_ok_def allocated_def)

lemma budget_claim:
  assumes "budget_ok s cs" and "map_of (ts_queues s) q = Some config" and "free_worker q config cs" and "cl_queue c = q"
  shows "budget_ok (s\<lparr>ts_tasks := ts\<rparr>) (cs @ [c])"
proof -
  have d: "distinct (map fst (ts_queues s))" using assms(1) by (simp add: budget_ok_def)
  have q: "(q, config) \<in> set (ts_queues s)" using assms(2) by (rule map_of_SomeD)
  have "load_ok (cs @ [c]) qc" if qc: "qc \<in> set (ts_queues s)" for qc
  proof (cases "fst qc = q")
    case True
    then have "map_of (ts_queues s) q = Some (snd qc)" using qc d by (metis map_of_is_SomeI prod.collapse)
    then have "snd qc = config" using assms(2) by simp
    with True assms(1,3,4) q show ?thesis by (auto simp: load_ok_def free_worker_def budget_ok_def)
  next
    case False
    with assms(1,4) qc show ?thesis by (simp add: load_ok_def budget_ok_def)
  qed
  moreover have "cl_queue c \<in> fst ` set (ts_queues s)" using q assms(4) by (simp add: rev_image_eqI)
  ultimately show ?thesis using assms(1) by (simp add: budget_ok_def allocated_def)
qed

lemma CreateQueue_Inr:
  assumes "CreateQueue now name config0 s = Inr s'"
  obtains config where "0 < qc_Concurrency config" "allocated s + qc_Concurrency config \<le> ts_maxConcurrency s"
    "map_of (ts_queues s) name = None" "ts_queues s' = (name, config) # ts_queues s"
    "ts_maxConcurrency s' = ts_maxConcurrency s"
    "ts_tasks s' = update_where (\<lambda>t. tk_queue t = name \<and> tk_status t = Running)
      (\<lambda>t. t\<lparr>tk_status := Pending, tk_updated_at := now\<rparr>) (ts_tasks s)"
proof -
  obtain config where c: "clampConcurrency s (applyConfigDefaults config0) = Inr config"
    using assms by (auto simp: CreateQueue_def split: if_splits sum.splits)
  have "0 < qc_Concurrency (applyConfigDefaults config0)"
    by (simp add: applyConfigDefaults_def Let_def defaultConcurrency_def)
  with c have "0 < qc_Concurrency config" "allocated s + qc_Concurrency config \<le> ts_maxConcurrency s"
    by (auto simp: clampConcurrency_def Let_def split: if_splits)
  with assms c that [of config] show ?thesis
    by (auto simp: CreateQueue_def split: if_splits)
qed

text \<open>A queue that is created takes over the tasks that an earlier life left running in it.\<close>

lemma claims_ok_create:
  assumes "claims_ok qs ts cs" and "name \<notin> qs" and "\<And>c. c \<in> set cs \<Longrightarrow> cl_queue c \<noteq> name"
  shows "claims_ok (insert name qs) (update_where (\<lambda>t. tk_queue t = name \<and> tk_status t = Running)
    (\<lambda>t. t\<lparr>tk_status := Pending, tk_updated_at := now\<rparr>) ts) cs" (is "claims_ok _ ?ts cs")
proof -
  have run: "tk_status t' = Running \<and> tk_queue t' \<in> insert name qs \<longleftrightarrow> tk_id t' \<in> cl_task ` set cs" if t': "t' \<in> set ?ts" for t'
  proof -
    obtain t where t: "t \<in> set ts" "t' = (if tk_queue t = name \<and> tk_status t = Running
        then t\<lparr>tk_status := Pending, tk_updated_at := now\<rparr> else t)" using t' by (auto simp: set_update_where)
    have "tk_status t = Running \<and> tk_queue t \<in> qs \<longleftrightarrow> tk_id t \<in> cl_task ` set cs"
      using assms(1) t(1) by (simp add: claims_ok_def)
    with t(2) assms(2) show ?thesis by (cases "tk_queue t = name") simp_all
  qed
  have held: "\<exists>t' \<in> set ?ts. matches_task c t'" if c: "c \<in> set cs" for c
  proof -
    obtain t where t: "t \<in> set ts" "matches_task c t" using assms(1) c by (auto simp: claims_ok_def)
    with assms(3) [OF c] have "\<not> (tk_queue t = name \<and> tk_status t = Running)" by (simp add: matches_task_def)
    then have "t \<in> set ?ts" by (rule in_update_where_other [OF t(1)])
    with t(2) show ?thesis by blast
  qed
  have "map tk_id ?ts = map tk_id ts" by (rule ids_update_where) simp
  then have "distinct (map tk_id ?ts)" "distinct (map cl_task cs)" using assms(1) by (simp_all add: claims_ok_def)
  then show ?thesis unfolding claims_ok_def by (intro conjI ballI run held)
qed

lemma create_inv:
  assumes "tq_inv k (s, cs)" and "CreateQueue now name config0 s = Inr s'"
  shows "tq_inv k (s', cs)"
proof -
  obtain config where c: "0 < qc_Concurrency config" "allocated s + qc_Concurrency config \<le> ts_maxConcurrency s"
    "map_of (ts_queues s) name = None" "ts_queues s' = (name, config) # ts_queues s"
    "ts_maxConcurrency s' = ts_maxConcurrency s"
    and ts: "ts_tasks s' = update_where (\<lambda>t. tk_queue t = name \<and> tk_status t = Running)
      (\<lambda>t. t\<lparr>tk_status := Pending, tk_updated_at := now\<rparr>) (ts_tasks s)"
    by (rule CreateQueue_Inr [OF assms(2)])
  have qs: "queue_names s' = insert name (queue_names s)" by (simp add: queue_names_def c(4))
  have new: "name \<notin> queue_names s" using c(3) by (simp add: map_of_eq_None_iff queue_names_def)
  then have none: "cl_queue x \<noteq> name" if "x \<in> set cs" for x
    using assms(1) that by (auto simp: tq_inv_def budget_ok_def queue_names_def)
  have "claims_ok (queue_names s') (ts_tasks s') cs"
    unfolding qs ts using assms(1) none new by (intro claims_ok_create) (simp_all add: tq_inv_def)
  moreover have "attempts_ok k (queue_names s') t'" if "t' \<in> set (ts_tasks s')" for t'
    using that assms(1) new unfolding qs ts
    by (auto simp: set_update_where tq_inv_def attempts_ok_def split: if_splits)
  moreover have "count_if (\<lambda>x. cl_queue x = name) cs = 0" using none by (simp add: count_if_0)
  with c(1) have "load_ok cs (name, config)" by (simp add: load_ok_def)
  with assms(1) c new have "budget_ok s' cs"
    by (simp add: tq_inv_def budget_ok_def allocated_def queue_names_def)
  ultimately show ?thesis by (simp add: tq_inv_def)
qed

lemma claim_matches:
  assumes "claims_ok qs ts cs" and "c \<in> set cs" and "t \<in> set ts" and "tk_id t = cl_task c"
  shows "matches_task c t \<and> tk_status t = Running"
proof -
  obtain u where u: "u \<in> set ts" "matches_task c u" using assms(1,2) by (auto simp: claims_ok_def)
  then have "tk_id u = tk_id t" using assms(4) by (simp add: matches_task_def)
  then have "u = t" using assms(1,3) u(1) by (auto simp: claims_ok_def distinct_map inj_on_def)
  with u assms show ?thesis by (auto simp: claims_ok_def)
qed

lemma finish_inv:
  assumes inv: "tq_inv k (s, cs)" and i: "i < length cs"
    and p: "\<And>t. t \<in> set (ts_tasks s) \<Longrightarrow> p t \<longleftrightarrow> tk_id t = cl_task (cs ! i)"
    and f: "\<And>t. tk_id (f t) = tk_id t" "\<And>t. tk_status (f t) \<noteq> Running"
    and a: "\<And>t. matches_task (cs ! i) t \<Longrightarrow> attempts_ok k (queue_names s) t \<Longrightarrow> attempts_ok k (queue_names s) (f t)"
  shows "tq_inv k (s\<lparr>ts_tasks := update_where p f (ts_tasks s)\<rparr>, remove_nth i cs)"
proof -
  have c: "claims_ok (queue_names s) (ts_tasks s) cs" and att: "\<And>t. t \<in> set (ts_tasks s) \<Longrightarrow> attempts_ok k (queue_names s) t" and b: "budget_ok s cs"
    using inv by (simp_all add: tq_inv_def)
  have "attempts_ok k (queue_names s) t'" if "t' \<in> set (update_where p f (ts_tasks s))" for t'
  proof (rule attempts_update [OF att _ that])
    fix t
    assume t: "t \<in> set (ts_tasks s)" "p t" "attempts_ok k (queue_names s) t"
    then have "matches_task (cs ! i) t" using claim_matches [OF c nth_mem [OF i] t(1)] p by blast
    then show "attempts_ok k (queue_names s) (f t)" using t(3) by (rule a)
  qed
  with claims_ok_finish [OF c i p f] budget_finish [OF b] show ?thesis by (simp add: tq_inv_def)
qed

lemma idle_inv:
  assumes inv: "tq_inv k (s, cs)" and p: "\<And>t. p t \<Longrightarrow> tk_status t \<noteq> Running"
    and f: "\<And>t. tk_id (f t) = tk_id t" "\<And>t. tk_status (f t) \<noteq> Running" "\<And>t. p t \<Longrightarrow> attempts_ok k (queue_names s) t \<Longrightarrow> attempts_ok k (queue_names s) (f t)"
  shows "tq_inv k (s\<lparr>ts_tasks := update_where p f (ts_tasks s)\<rparr>, cs)"
proof -
  have c: "claims_ok (queue_names s) (ts_tasks s) cs" and b: "budget_ok s cs" using inv by (simp_all add: tq_inv_def)
  have "attempts_ok k (queue_names s) t'" if "t' \<in> set (update_where p f (ts_tasks s))" for t'
    using inv f(3) that by (auto simp: tq_inv_def set_update_where split: if_splits)
  with claims_ok_idle_update [OF c p f(1,2)] budget_tasks [OF b] show ?thesis by (simp add: tq_inv_def)
qed

definition cleaned :: "int \<Rightarrow> (string \<times> QueueConfig) list \<Rightarrow> task \<Rightarrow> bool" where
  "cleaned now qs t \<longleftrightarrow> terminal (tk_status t) \<and>
     list_ex (\<lambda>(name, config). tk_queue t = name \<and> tk_updated_at t + qc_RetentionMs config < now) qs"

lemma runCleanup_tasks: "ts_tasks (runCleanup now s) = filter (\<lambda>t. \<not> cleaned now (ts_queues s) t) (ts_tasks s)"
proof -
  have "fold (cleanup_queue now) qs ts = filter (\<lambda>t. \<not> cleaned now qs t) ts" for qs ts
    by (induction qs arbitrary: ts) (auto simp: cleaned_def cleanup_queue_def case_prod_beta intro!: filter_cong)
  then show ?thesis by (simp add: runCleanup_def)
qed

lemma enqueue_inv:
  assumes inv: "tq_inv k (s, cs)" and e: "Enqueue_task now tid q payload s = Inr s'" and new: "tid \<notin> tk_id ` set (ts_tasks s)"
  shows "tq_inv k (s', cs)"
proof -
  obtain config where c: "map_of (ts_queues s) q = Some config"
    using e by (auto simp: Enqueue_task_def split: option.splits)
  have s': "s' = s\<lparr>ts_tasks := ts_tasks s @ [new_task now tid q payload (qc_MaxRetries config)]\<rparr>"
    using e by (simp add: Enqueue_task_def c split: if_splits)
  have "tid \<notin> cl_task ` set cs"
    using inv new by (force simp: tq_inv_def claims_ok_def matches_task_def)
  with inv new c have "claims_ok (queue_names s') (ts_tasks s') cs" by (auto simp: s' tq_inv_def claims_ok_def new_task_def)
  moreover have "attempts_ok k (queue_names s) t" if "t \<in> set (ts_tasks s')" for t
    using that inv by (auto simp: s' tq_inv_def attempts_ok_def new_task_def)
  ultimately show ?thesis using inv budget_tasks [of s cs] by (simp add: tq_inv_def s')
qed

lemma claim_inv:
  assumes inv: "tq_inv k (s, cs)" and q: "map_of (ts_queues s) q = Some config" "free_worker q config cs"
    and d: "dequeue now q (ts_tasks s) = Some (c, ts)"
  shows "tq_inv k (s\<lparr>ts_tasks := ts\<rparr>, cs @ [c])"
proof -
  have c: "claims_ok (queue_names s) (ts_tasks s) cs" and b: "budget_ok s cs" using inv by (simp_all add: tq_inv_def)
  then have di: "distinct (map tk_id (ts_tasks s))" by (simp add: claims_ok_def)
  obtain t where t: "t \<in> set (ts_tasks s)" "runnable now q t" "tk_id t = cl_task c" "cl_queue c = q"
    "cl_attempt c = tk_attempt t + 1" "cl_max_retries c = tk_max_retries t"
    "ts = update_where (\<lambda>u. u = t)
      (\<lambda>u. u\<lparr>tk_status := Running, tk_attempt := tk_attempt u + 1, tk_updated_at := now\<rparr>) (ts_tasks s)"
    by (rule dequeue_Some [OF d di])
  have "attempts_ok k (queue_names s) u" if "u \<in> set ts" for u
    using that inv t(1,2) queue_names_config [OF q(1)] by (auto simp: t(7) set_update_where tq_inv_def attempts_ok_def runnable_def split: if_splits)
  with claims_ok_dequeue [OF c d queue_names_config [OF q(1)]] budget_claim [OF b q t(4)] show ?thesis by (simp add: tq_inv_def)
qed

lemma tq_step_inv: "tq_step st st' \<Longrightarrow> tq_inv k st \<Longrightarrow> tq_inv k st'"
proof (induction rule: tq_step.induct)
  case (create now name config s s' cs)
  show ?case by (rule create_inv [OF create(2,1)])
next
  case (enqueue now taskID queueName payload s s' cs)
  show ?case by (rule enqueue_inv [OF enqueue(3,1,2)])
next
  case (cancel now taskID s s' cs)
  have "s' = s\<lparr>ts_tasks := update_where (\<lambda>t. tk_id t = taskID \<and> tk_status t = Pending)
      (\<lambda>t. t\<lparr>tk_status := Cancelled, tk_updated_at := now\<rparr>) (ts_tasks s)\<rparr>"
    using cancel(1) by (auto simp: Cancel_task_def split: if_splits list.splits)
  then show ?case by (auto intro!: idle_inv [OF cancel(2)] simp: attempts_ok_def)
next
  case (clear now queueName s n s' cs)
  have "s' = s\<lparr>ts_tasks := update_where (\<lambda>t. tk_queue t = queueName \<and> tk_status t = Pending)
      (\<lambda>t. t\<lparr>tk_status := Cancelled, tk_updated_at := now\<rparr>) (ts_tasks s)\<rparr>"
    using clear(1) by (auto simp: ClearQueue_def Let_def split: option.splits)
  then show ?case by (auto intro!: idle_inv [OF clear(2)] simp: attempts_ok_def)
next
  case (claim s queueName config cs now c ts)
  show ?case by (rule claim_inv [OF claim(4,1,2,3)])
next
  case (complete i cs s now message)
  then show ?case
    unfolding completeTask_def by (intro finish_inv) (auto simp: attempts_ok_def)
next
  case (fail i cs s config now err message)
  then show ?case
    unfolding handleTaskFailure_def Let_def
    by (cases "cl_attempt (cs ! i) > cl_max_retries (cs ! i)"; simp only: if_True if_False)
      (intro finish_inv; auto simp: attempts_ok_def matches_task_def)+
next
  case (revert i cs s now)
  have c: "claims_ok (queue_names s) (ts_tasks s) cs" using revert(2) by (simp add: tq_inv_def)
  have "t \<in> set (ts_tasks s) \<Longrightarrow> tk_id t = cl_task (cs ! i) \<and> tk_status t = Running \<longleftrightarrow> tk_id t = cl_task (cs ! i)" for t
    using claim_matches [OF c nth_mem [OF revert(1)]] by blast
  then show ?case
    unfolding revertTaskToPending_def using revert by (intro finish_inv) (auto simp: attempts_ok_def)
next
  case (cleanup s cs now)
  then have "claims_ok (queue_names (runCleanup now s)) (ts_tasks (runCleanup now s)) cs"
    unfolding runCleanup_tasks by (intro claims_ok_filter) (auto simp: tq_inv_def cleaned_def terminal_def)
  moreover have "budget_ok (runCleanup now s) cs"
    using cleanup budget_tasks [of s cs] by (simp add: tq_inv_def runCleanup_def)
  moreover have "\<forall>t \<in> set (ts_tasks (runCleanup now s)). attempts_ok k (queue_names s) t"
    using cleanup by (simp add: runCleanup_tasks tq_inv_def)
  ultimately show ?case by (simp add: tq_inv_def)
qed

text \<open>A stop takes an attempt from the tasks that ran.\<close>

lemma attempts_stop:
  assumes "claims_ok qs ts cs" and "\<forall>t \<in> set ts. attempts_ok k qs t" and "t \<in> set ts"
  shows "attempts_ok (if cs = [] then k else k + 1) {} t"
proof -
  have "tk_status t = Running \<and> tk_queue t \<in> qs \<Longrightarrow> cs \<noteq> []" using assms(1,3) by (auto simp: claims_ok_def)
  with assms(2,3) show ?thesis by (cases "tk_queue t \<in> qs") (auto simp: attempts_ok_def)
qed

lemma tq_stop_inv:
  assumes "tq_stop st st'" and "tq_inv k st"
  shows "tq_inv (if snd st = [] then k else k + 1) st'"
  using assms
proof (induction rule: tq_stop.induct)
  case (close s cs now)
  have att: "attempts_ok (if cs = [] then k else k + 1) {} t" if "t \<in> set (ts_tasks s)" for t
    using attempts_stop [of "queue_names s" "ts_tasks s" cs k t] close that by (simp add: tq_inv_def)
  have "attempts_ok (if cs = [] then k else k + 1) {} t'" if t': "t' \<in> set (ts_tasks (Close_service now s))" for t'
  proof -
    obtain t where t: "t \<in> set (ts_tasks s)"
      "t' = (if tk_status t = Running then t\<lparr>tk_status := Pending, tk_updated_at := now\<rparr> else t)"
      using t' by (auto simp: Close_service_def set_update_where)
    with att [OF t(1)] show ?thesis by (auto simp: attempts_ok_def)
  qed
  moreover have "map tk_id (ts_tasks (Close_service now s)) = map tk_id (ts_tasks s)"
    by (simp add: Close_service_def ids_update_where)
  moreover have "queue_names (Close_service now s) = {}" by (simp add: queue_names_def Close_service_def)
  ultimately show ?case using close
    by (simp add: tq_inv_def claims_ok_def budget_ok_def queue_names_def Close_service_def)
next
  case (crash s cs)
  have "attempts_ok (if cs = [] then k else k + 1) {} t" if "t \<in> set (ts_tasks s)" for t
    using attempts_stop [of "queue_names s" "ts_tasks s" cs k t] crash that by (simp add: tq_inv_def)
  with crash show ?case by (simp add: tq_inv_def claims_ok_def budget_ok_def queue_names_def)
qed

lemma tq_reachable_inv: "tq_reachable n k st \<Longrightarrow> tq_inv k st"
proof (induction rule: tq_reachable.induct)
  case init
  show ?case by (simp add: tq_inv_def new_service_def claims_ok_def budget_ok_def)
next
  case (step k st st')
  then show ?case using tq_step_inv by blast
next
  case (stop k st st')
  then show ?case using tq_stop_inv by blast
qed

lemma tq_reachable_max: "tq_reachable n k st \<Longrightarrow> ts_maxConcurrency (fst st) = n"
proof (induction rule: tq_reachable.induct)
  case (step k st st')
  from step.hyps(2) have "ts_maxConcurrency (fst st') = ts_maxConcurrency (fst st)"
    by (induction rule: tq_step.induct)
      (auto simp: CreateQueue_def Enqueue_task_def Cancel_task_def ClearQueue_def runCleanup_def Let_def
        split: if_splits sum.splits option.splits list.splits)
  with step.IH show ?case by simp
next
  case (stop k st st')
  from stop.hyps(2) have "ts_maxConcurrency (fst st') = ts_maxConcurrency (fst st)"
    by (induction rule: tq_stop.induct) (simp_all add: Close_service_def)
  with stop.IH show ?case by simp
qed (simp add: new_service_def)

lemma one_queue: "distinct (map fst qs) \<Longrightarrow> q \<in> fst ` set qs \<Longrightarrow>
    sum_list (map (\<lambda>qc. of_bool (q = fst qc)) qs) = (1 :: nat)"
proof (induction qs)
  case (Cons qc qs)
  show ?case
  proof (cases "q = fst qc")
    case True
    with Cons.prems(1) have "\<forall>x \<in> set qs. q \<noteq> fst x" by (auto simp: image_iff)
    then have "sum_list (map (\<lambda>qc. of_bool (q = fst qc)) qs) = (0 :: nat)" by (simp add: sum_list_eq_0_iff)
    with True show ?thesis by simp
  next
    case False
    with Cons.prems have "q \<in> fst ` set qs" by simp
    with False Cons show ?thesis by simp
  qed
qed simp

lemma count_by_queue:
  assumes "distinct (map fst qs)" and "\<forall>c \<in> set cs. cl_queue c \<in> fst ` set qs"
  shows "length cs = sum_list (map (\<lambda>qc. count_if (\<lambda>c. cl_queue c = fst qc) cs) qs)"
  using assms(2)
proof (induction cs)
  case (Cons c cs)
  then show ?case using one_queue [OF assms(1), of "cl_queue c"] by (simp add: sum_list_addf)
qed (simp add: sum_list_eq_0_iff)

lemma workers_within_limit:
  assumes "budget_ok s cs"
  shows "int (length cs) \<le> max 0 (ts_maxConcurrency s)"
proof (cases "ts_queues s = []")
  case True
  with assms show ?thesis by (simp add: budget_ok_def)
next
  case False
  have "int (length cs) = int (sum_list (map (\<lambda>qc. count_if (\<lambda>c. cl_queue c = fst qc) cs) (ts_queues s)))"
    using count_by_queue [of "ts_queues s" cs] assms by (simp add: budget_ok_def)
  also have "\<dots> = sum_list (map (\<lambda>qc. int (count_if (\<lambda>c. cl_queue c = fst qc) cs)) (ts_queues s))"
    by (induction "ts_queues s") (simp_all add: sum_list_of_nat [symmetric] comp_def)
  also have "\<dots> \<le> sum_list (map (qc_Concurrency \<circ> snd) (ts_queues s))"
    using assms by (intro sum_list_mono) (simp add: budget_ok_def load_ok_def)
  also have "\<dots> \<le> ts_maxConcurrency s" using assms False by (simp add: budget_ok_def allocated_def)
  finally show ?thesis by simp
qed

text \<open>
  C11: however calls of the plugin, claims, outcomes, cleanups, shutdowns, crashes and restarts interleave, a task is
  executed by at most one worker at a time: the running tasks of the queues of this life are exactly those the workers
  hold, one each (a task that a crash left running is held by nobody, until its queue is created again and takes it
  over). At most as many tasks run as the plugin is allowed. A task is tried once, once more for each retry, and once
  more for each stop of the service that found workers still at work (an interrupted attempt is counted, but is not the
  outcome of the task); without such a stop, as often as its retries allow.
\<close>

theorem task_queue_safe:
  assumes "tq_reachable n interrupted (s, cs)"
  shows "distinct (map tk_id (ts_tasks s)) \<and> distinct (map cl_task cs) \<and>
    {tk_id t |t. t \<in> set (ts_tasks s) \<and> tk_status t = Running \<and> map_of (ts_queues s) (tk_queue t) \<noteq> None} = cl_task ` set cs \<and>
    int (length cs) \<le> max 0 n \<and>
    list_all (\<lambda>t. 0 \<le> tk_attempt t \<and> tk_attempt t \<le> max 0 (tk_max_retries t) + 1 + int interrupted) (ts_tasks s)"
proof -
  note inv = tq_reachable_inv [OF assms]
  then have c: "claims_ok (queue_names s) (ts_tasks s) cs" by (simp add: tq_inv_def)
  have q: "map_of (ts_queues s) q \<noteq> None \<longleftrightarrow> q \<in> queue_names s" for q
    by (simp add: map_of_eq_None_iff queue_names_def)
  have "{tk_id t |t. t \<in> set (ts_tasks s) \<and> tk_status t = Running \<and> map_of (ts_queues s) (tk_queue t) \<noteq> None}
      = cl_task ` set cs"
    unfolding q by (rule claims_ok_running [OF c])
  moreover have "int (length cs) \<le> max 0 n"
    using workers_within_limit [of s cs] inv tq_reachable_max [OF assms] by (simp add: tq_inv_def)
  ultimately show ?thesis using c inv by (simp add: claims_ok_def tq_inv_def attempts_ok_def list_all_iff)
qed

lemma finished_step:
  "tq_step st st' \<Longrightarrow> tq_inv k st \<Longrightarrow> t \<in> set (ts_tasks (fst st)) \<Longrightarrow> terminal (tk_status t) \<Longrightarrow>
    t \<in> set (ts_tasks (fst st')) \<or> tk_id t \<notin> tk_id ` set (ts_tasks (fst st'))"
proof (induction rule: tq_step.induct)
  case (claim s q config cs now c ts)
  then have "distinct (map tk_id (ts_tasks s))" by (simp add: tq_inv_def claims_ok_def)
  then obtain u where u: "u \<in> set (ts_tasks s)" "runnable now q u" "tk_id u = cl_task c" "cl_queue c = q"
    "cl_attempt c = tk_attempt u + 1" "cl_max_retries c = tk_max_retries u"
    and ts: "ts = update_where (\<lambda>x. x = u)
      (\<lambda>x. x\<lparr>tk_status := Running, tk_attempt := tk_attempt x + 1, tk_updated_at := now\<rparr>) (ts_tasks s)"
    by (rule dequeue_Some [OF claim(3)])
  have "t \<noteq> u" using u(2) claim(6) by (auto simp: runnable_def terminal_def)
  with claim(5) have "t \<in> set ts" unfolding ts by (intro in_update_where_other) simp_all
  then show ?case by simp
next
  case (complete i cs s now message)
  then have "tk_id t \<noteq> cl_task (cs ! i)"
    using claim_matches [of "queue_names s" "ts_tasks s" cs "cs ! i" t] by (auto simp: tq_inv_def terminal_def)
  with complete show ?case by (simp add: completeTask_def in_update_where_other)
next
  case (fail i cs s config now err message)
  then have "tk_id t \<noteq> cl_task (cs ! i)"
    using claim_matches [of "queue_names s" "ts_tasks s" cs "cs ! i" t] by (auto simp: tq_inv_def terminal_def)
  with fail show ?case by (simp add: handleTaskFailure_def Let_def in_update_where_other)
next
  case (revert i cs s now)
  then have "tk_status t \<noteq> Running" by (auto simp: terminal_def)
  with revert show ?case by (simp add: revertTaskToPending_def in_update_where_other)
next
  case (create now name config s s' cs)
  obtain cfg where "ts_tasks s' = update_where (\<lambda>t. tk_queue t = name \<and> tk_status t = Running)
      (\<lambda>t. t\<lparr>tk_status := Pending, tk_updated_at := now\<rparr>) (ts_tasks s)"
    by (rule CreateQueue_Inr [OF create(1)])
  moreover have "tk_status t \<noteq> Running" using create(4) by (auto simp: terminal_def)
  ultimately show ?case using create by (simp add: in_update_where_other)
next
  case (cleanup s cs now)
  then have d: "distinct (map tk_id (ts_tasks s))" by (simp add: tq_inv_def claims_ok_def)
  have "u = t" if "u \<in> set (ts_tasks s)" "tk_id u = tk_id t" for u
    using d cleanup(2) that by (auto simp: distinct_map inj_on_def)
  then show ?case using cleanup by (auto simp: runCleanup_tasks)
next
  case (cancel now taskID s s' cs)
  then have "tk_status t \<noteq> Pending" by (auto simp: terminal_def)
  with cancel show ?case by (auto simp: Cancel_task_def in_update_where_other split: if_splits list.splits)
next
  case (clear now queueName s n s' cs)
  then have "tk_status t \<noteq> Pending" by (auto simp: terminal_def)
  with clear show ?case by (auto simp: ClearQueue_def Let_def in_update_where_other split: option.splits)
qed (auto simp: Enqueue_task_def split: option.splits if_splits)

text \<open>
  a task that is finished stays as it is. Whatever happens next, a completed, failed or cancelled task is
  neither run again nor changed; it is only ever removed as a whole.
\<close>

theorem task_finished_final:
  assumes "tq_reachable n k (s, cs)" and "tq_step (s, cs) (s', cs')" and "t \<in> set (ts_tasks s)" and "terminal (tk_status t)"
  shows "t \<in> set (ts_tasks s') \<or> tk_id t \<notin> tk_id ` set (ts_tasks s')"
  using finished_step [OF assms(2) tq_reachable_inv [OF assms(1)]] assms(3,4) by simp

subsection \<open>A task that keeps failing\<close>

text \<open>One round of a worker whose callback fails.\<close>

definition failing_round :: "QueueConfig \<Rightarrow> string \<Rightarrow> string \<Rightarrow> int \<Rightarrow> task list \<Rightarrow> task list" where
  "failing_round config q err now ts =
     (case dequeue now q ts of None \<Rightarrow> ts | Some (c, ts') \<Rightarrow> handleTaskFailure now config c err [] ts')"

lemma failing_round_single:
  assumes "tk_queue t = q" and "tk_status t = Pending" and "tk_next_run_at t \<le> now"
  shows "failing_round config q err now [t] =
    [if tk_attempt t + 1 > tk_max_retries t
     then t\<lparr>tk_status := Failed, tk_attempt := tk_attempt t + 1, tk_message := err, tk_updated_at := now\<rparr>
     else t\<lparr>tk_status := Pending, tk_attempt := tk_attempt t + 1, tk_updated_at := now,
            tk_next_run_at := now + retry_backoff (qc_BackoffMs config) (tk_attempt t + 1)\<rparr>]"
  using assms by (simp add: failing_round_def dequeue_def runnable_def handleTaskFailure_def update_where_def Let_def)

lemma failing_rounds:
  assumes "tk_queue t = q" and "tk_status t = Pending" and "0 \<le> tk_max_retries t"
    and "tk_attempt t + int (length nows) = tk_max_retries t + 1" and "nows \<noteq> []"
    and "sorted_wrt (\<lambda>a b. a + maxBackoffMs \<le> b) nows" and "tk_next_run_at t \<le> hd nows"
  shows "\<exists>u. fold (failing_round config q err) nows [t] = [u] \<and> tk_id u = tk_id t \<and> tk_status u = Failed \<and>
    tk_message u = err \<and> tk_attempt u = tk_max_retries t + 1"
  using assms
proof (induction nows arbitrary: t)
  case (Cons now nows)
  show ?case
  proof (cases nows)
    case Nil
    with Cons.prems failing_round_single [OF Cons.prems(1,2), of now config err] show ?thesis by simp
  next
    case (Cons now2 rest)
    let ?t = "t\<lparr>tk_status := Pending, tk_attempt := tk_attempt t + 1, tk_updated_at := now,
            tk_next_run_at := now + retry_backoff (qc_BackoffMs config) (tk_attempt t + 1)\<rparr>"
    have "failing_round config q err now [t] = [?t]"
      using Cons.prems Cons failing_round_single [OF Cons.prems(1,2), of now config err] by simp
    moreover have "now + retry_backoff (qc_BackoffMs config) (tk_attempt t + 1) \<le> now2"
      using Cons.prems(6) Cons retry_backoff_range [of "qc_BackoffMs config" "tk_attempt t + 1"] by auto
    ultimately show ?thesis using Cons.IH [of ?t] Cons.prems Cons by auto
  qed
qed simp

text \<open>
  C38: a task whose callback always fails comes to an end. Polled at times an hour apart or more, it fails
  for good after exactly one attempt more than its retries, with the error of the callback as its
  message.
\<close>

theorem failing_task_ends:
  assumes "0 \<le> retries" and "int (length nows) = retries + 1" and "sorted_wrt (\<lambda>a b. a + maxBackoffMs \<le> b) nows"
    and "now \<le> hd nows"
  shows "\<exists>u. fold (failing_round config q err) nows [new_task now tid q payload retries] = [u] \<and> tk_id u = tid \<and>
    tk_status u = Failed \<and> tk_message u = err \<and> tk_attempt u = retries + 1"
proof -
  have "nows \<noteq> []" using assms(1,2) by auto
  with assms show ?thesis
    using failing_rounds [of "new_task now tid q payload retries" q nows config err] by (simp add: new_task_def)
qed

theorem failing_task_ends_witness:
  "\<exists>u. fold (failing_round \<lparr>qc_Concurrency = 1, qc_MaxRetries = 1, qc_BackoffMs = 1000, qc_DelayMs = 0, qc_RetentionMs = 60000\<rparr>
      ''q'' ''boom'') [0, maxBackoffMs] [new_task 0 ''t1'' ''q'' [] 1] = [u] \<and> tk_id u = ''t1'' \<and> tk_status u = Failed \<and>
    tk_message u = ''boom'' \<and> tk_attempt u = 1 + 1"
  by (rule failing_task_ends) simp_all

subsection \<open>Examples\<close>

definition task_example_queue :: QueueConfig where
  "task_example_queue = \<lparr>qc_Concurrency = 2, qc_MaxRetries = 1, qc_BackoffMs = 1000, qc_DelayMs = 0, qc_RetentionMs = 60000\<rparr>"

definition example_service :: "task list \<Rightarrow> task_service" where
  "example_service ts = \<lparr>ts_maxConcurrency = 2, ts_queueRows = [''q'' \<mapsto> task_example_queue], ts_queues = [(''q'', task_example_queue)],
     ts_tasks = ts\<rparr>"

definition cancelled_task :: task where
  "cancelled_task = (new_task 0 ''t1'' ''q'' [] 1)\<lparr>tk_status := Cancelled\<rparr>"

lemma example_enqueued: "tq_reachable 2 0 (example_service [new_task 0 ''t1'' ''q'' [] 1], [])"
proof -
  have "CreateQueue 0 ''q'' task_example_queue (new_service 2) = Inr (example_service [])"
    by (simp add: CreateQueue_def new_service_def example_service_def task_example_queue_def clampConcurrency_def
        applyConfigDefaults_def allocated_def maxQueueNameLength_def update_where_def minRetentionMs_def maxRetentionMs_def)
  then have "tq_reachable 2 0 (example_service [], [])"
    by (rule tq_reachable.step [OF tq_reachable.init tq_step.create])
  moreover have "Enqueue_task 0 ''t1'' ''q'' [] (example_service []) = Inr (example_service [new_task 0 ''t1'' ''q'' [] 1])"
    by (simp add: Enqueue_task_def example_service_def task_example_queue_def maxPayloadSize_def)
  ultimately show ?thesis
    by (rule tq_reachable.step [OF _ tq_step.enqueue]) (simp add: example_service_def)
qed

lemma example_cancelled: "tq_reachable 2 0 (example_service [cancelled_task], [])"
proof -
  have "Cancel_task 0 ''t1'' (example_service [new_task 0 ''t1'' ''q'' [] 1]) = Inr (example_service [cancelled_task])"
    by (simp add: Cancel_task_def example_service_def new_task_def update_where_def cancelled_task_def)
  then show ?thesis by (rule tq_reachable.step [OF example_enqueued tq_step.cancel])
qed

text \<open>A task without retries that a crash interrupts is tried again by the next life of the service.\<close>

definition example_claim :: "int \<Rightarrow> task_claim" where
  "example_claim attempt = \<lparr>cl_queue = ''q'', cl_task = ''t1'', cl_attempt = attempt, cl_max_retries = 1\<rparr>"

definition example_running :: "int \<Rightarrow> task" where
  "example_running attempt = (new_task 0 ''t1'' ''q'' [] 1)\<lparr>tk_status := Running, tk_attempt := attempt\<rparr>"

lemmas example_task_defs = example_service_def task_example_queue_def new_task_def example_claim_def example_running_def

lemma example_claimed: "tq_reachable 2 0 (example_service [example_running 1], [example_claim 1])"
proof -
  have d: "dequeue 0 ''q'' (ts_tasks (example_service [new_task 0 ''t1'' ''q'' [] 1])) = Some (example_claim 1, [example_running 1])"
    by (simp add: example_task_defs dequeue_def runnable_def update_where_def)
  have m: "map_of (ts_queues (example_service [new_task 0 ''t1'' ''q'' [] 1])) ''q'' = Some task_example_queue"
    by (simp add: example_service_def)
  have "free_worker ''q'' task_example_queue []" by (simp add: free_worker_def task_example_queue_def)
  from tq_reachable.step [OF example_enqueued tq_step.claim [OF m this d]] show ?thesis by (simp add: example_service_def)
qed

lemma example_recovered: "tq_reachable 2 1 (example_service [example_running 2], [example_claim 2])"
proof -
  let ?s = "(example_service [example_running 1])\<lparr>ts_queues := []\<rparr>"
  let ?t = "(example_running 1)\<lparr>tk_status := Pending\<rparr>"
  have "tq_reachable 2 1 (?s, [])" using tq_reachable.stop [OF example_claimed tq_stop.crash] by simp
  moreover have "CreateQueue 0 ''q'' task_example_queue ?s = Inr (example_service [?t])"
    by (simp add: CreateQueue_def example_task_defs clampConcurrency_def applyConfigDefaults_def allocated_def
        maxQueueNameLength_def update_where_def minRetentionMs_def maxRetentionMs_def)
  ultimately have r: "tq_reachable 2 1 (example_service [?t], [])"
    by (rule tq_reachable.step [OF _ tq_step.create])
  have d: "dequeue 0 ''q'' (ts_tasks (example_service [?t])) = Some (example_claim 2, [example_running 2])"
    by (simp add: example_task_defs dequeue_def runnable_def update_where_def)
  have m: "map_of (ts_queues (example_service [?t])) ''q'' = Some task_example_queue"
    by (simp add: example_service_def)
  have "free_worker ''q'' task_example_queue []" by (simp add: free_worker_def task_example_queue_def)
  from tq_reachable.step [OF r tq_step.claim [OF m this d]] show ?thesis by (simp add: example_service_def)
qed

theorem task_queue_safe_witness:
  "{tk_id t |t. t \<in> set (ts_tasks (example_service [example_running 2])) \<and> tk_status t = Running \<and>
     map_of (ts_queues (example_service [example_running 2])) (tk_queue t) \<noteq> None} = {''t1''} \<and>
   tk_attempt (example_running 2) \<le> 3"
  using task_queue_safe [OF example_recovered] by (simp add: example_task_defs)

theorem task_finished_final_witness:
  "cancelled_task \<in> set (ts_tasks (runCleanup 5 (example_service [cancelled_task])))"
proof -
  have "cancelled_task \<in> set (ts_tasks (runCleanup 5 (example_service [cancelled_task]))) \<or>
    tk_id cancelled_task \<notin> tk_id ` set (ts_tasks (runCleanup 5 (example_service [cancelled_task])))"
    by (rule task_finished_final [OF example_cancelled tq_step.cleanup])
      (simp_all add: example_service_def cancelled_task_def terminal_def)
  moreover have "tk_id cancelled_task \<in> tk_id ` set (ts_tasks (runCleanup 5 (example_service [cancelled_task])))"
    by (simp add: runCleanup_def cleanup_queue_def example_service_def task_example_queue_def cancelled_task_def new_task_def)
  ultimately show ?thesis by simp
qed

end
