(* ===== verification/Float32.thy ===== *)
theory Float32
  imports Prelude
begin

text \<open>
  Conversion to Go's \<open>float32\<close> (IEEE 754 single precision, to the nearest number, ties to even), for the places where the code
  stores a number in one. Numbers are exact rationals everywhere else. No conversion of the code reaches the largest
  number, so overflow is left out.
\<close>

fun bits :: "nat \<Rightarrow> nat" where
  "bits n = (if n = 0 then 0 else Suc (bits (n div 2)))"

declare bits.simps [simp del]

lemma bits_bounds: "0 < n \<Longrightarrow> 2 ^ (bits n - 1) \<le> n \<and> n < 2 ^ bits n \<and> 0 < bits n"
proof (induction n rule: bits.induct)
  case (1 n)
  show ?case
  proof (cases "n div 2 = 0")
    case True
    with 1(2) have "n = 1" by simp
    then show ?thesis by (simp add: bits.simps)
  next
    case False
    with 1 have b: "2 ^ (bits (n div 2) - 1) \<le> n div 2" "n div 2 < 2 ^ bits (n div 2)" "0 < bits (n div 2)" by simp_all
    have "bits n = Suc (bits (n div 2))" using 1(2) by (subst bits.simps) simp
    moreover have "2 * 2 ^ (bits (n div 2) - 1) = (2 :: nat) ^ bits (n div 2)"
      using b(3) by (cases "bits (n div 2)") simp_all
    moreover have "2 * (n div 2) \<le> n" "n < 2 * (n div 2 + 1)" by simp_all
    ultimately have "2 ^ bits (n div 2) \<le> n" "n < 2 * 2 ^ bits (n div 2)" using b by linarith+
    with \<open>bits n = Suc (bits (n div 2))\<close> show ?thesis by simp
  qed
qed

text \<open>The exponent of a number: \<open>2 powi binade x \<le> \<bar>x\<bar> < 2 powi (binade x + 1)\<close>.\<close>

definition binade :: "rat \<Rightarrow> int" where
  "binade x =
     (let (p, q) = quotient_of \<bar>x\<bar>; e = int (bits (nat p)) - int (bits (nat q))
      in if 2 powi e \<le> \<bar>x\<bar> then e else e - 1)"

definition round_even :: "rat \<Rightarrow> int" where
  "round_even x =
     (let f = \<lfloor>x\<rfloor>; d = x - of_int f
      in if d < 1 / 2 then f else if d > 1 / 2 then f + 1 else if even f then f else f + 1)"

definition float32_ulp :: "rat \<Rightarrow> rat" where
  "float32_ulp x = 2 powi (max (binade x) (- 126) - 23)"

definition float32 :: "rat \<Rightarrow> rat" where
  "float32 x = (if x = 0 then 0 else of_int (round_even (x / float32_ulp x)) * float32_ulp x)"

lemma binade_bounds:
  assumes "x \<noteq> 0"
  shows "2 powi binade x \<le> \<bar>x\<bar>" "\<bar>x\<bar> < 2 powi (binade x + 1)"
proof -
  obtain p q where pq: "quotient_of \<bar>x\<bar> = (p, q)" by fastforce
  then have x: "\<bar>x\<bar> = of_int p / of_int q" and q: "0 < q" by (simp_all add: quotient_of_div quotient_of_denom_pos)
  with assms have p: "0 < p" by (metis abs_ge_zero abs_eq_0 divide_eq_0_iff of_int_0_less_iff of_int_0 order_less_le
        zero_le_divide_iff of_int_0_le_iff not_less order.strict_trans2)
  define a b where "a = bits (nat p)" and "b = bits (nat q)"
  have "2 ^ (a - 1) \<le> nat p" "nat p < 2 ^ a" "0 < a" "2 ^ (b - 1) \<le> nat q" "nat q < 2 ^ b" "0 < b"
    using bits_bounds [of "nat p"] bits_bounds [of "nat q"] p q by (simp_all add: a_def b_def)
  then have n: "2 ^ (a - 1) \<le> p" "p < 2 ^ a" "2 ^ (b - 1) \<le> q" "q < 2 ^ b" "0 < a" "0 < b"
    using p q by (simp_all add: nat_less_iff le_nat_iff)
  have r: "(2 :: rat) ^ (a - 1) \<le> of_int p" "of_int p < (2 :: rat) ^ a" "(2 :: rat) ^ (b - 1) \<le> of_int q" "of_int q < (2 :: rat) ^ b"
    using n(1-4) by (simp_all only: of_int_le_iff [symmetric, where 'a = rat] of_int_less_iff [symmetric, where 'a = rat] of_int_power of_int_numeral)
  have pw: "(2 :: rat) powi (int a - int b + 1) = 2 ^ a / 2 ^ (b - 1)" "(2 :: rat) powi (int a - int b - 1) = 2 ^ (a - 1) / 2 ^ b"
  proof -
    have e: "int a - int b + 1 = int a - int (b - 1)" "int a - int b - 1 = int (a - 1) - int b" using n(5,6) by linarith+
    show "(2 :: rat) powi (int a - int b + 1) = 2 ^ a / 2 ^ (b - 1)" "(2 :: rat) powi (int a - int b - 1) = 2 ^ (a - 1) / 2 ^ b"
      unfolding e using power_int_diff [of "2 :: rat" "int a" "int (b - 1)"] power_int_diff [of "2 :: rat" "int (a - 1)" "int b"]
      by simp_all
  qed
  have hi: "\<bar>x\<bar> < 2 powi (int a - int b + 1)"
    unfolding pw x using r p q by (intro frac_less) simp_all
  have lo: "2 powi (int a - int b - 1) \<le> \<bar>x\<bar>"
    unfolding pw x using r p q by (intro frac_le) simp_all
  have e: "binade x = (if 2 powi (int a - int b) \<le> \<bar>x\<bar> then int a - int b else int a - int b - 1)"
    by (simp add: binade_def pq a_def b_def)
  from hi lo show "2 powi binade x \<le> \<bar>x\<bar>" "\<bar>x\<bar> < 2 powi (binade x + 1)" unfolding e by simp_all
qed

lemma round_even_near: "\<bar>of_int (round_even x) - x\<bar> \<le> 1 / 2"
proof -
  have "of_int \<lfloor>x\<rfloor> \<le> x" "x < of_int \<lfloor>x\<rfloor> + 1" by linarith+
  then consider "x - of_int \<lfloor>x\<rfloor> < 1 / 2" | "x - of_int \<lfloor>x\<rfloor> > 1 / 2" | "x - of_int \<lfloor>x\<rfloor> = 1 / 2" by linarith
  then show ?thesis
  proof cases
    case 1
    then have "round_even x = \<lfloor>x\<rfloor>" by (simp add: round_even_def Let_def)
    with 1 \<open>of_int \<lfloor>x\<rfloor> \<le> x\<close> show ?thesis by (simp add: abs_le_iff)
  next
    case 2
    then have "round_even x = \<lfloor>x\<rfloor> + 1" by (simp add: round_even_def Let_def)
    moreover have "of_int (\<lfloor>x\<rfloor> + 1) - x \<le> 1 / 2" "- (of_int (\<lfloor>x\<rfloor> + 1) - x) \<le> 1 / 2"
      using 2 \<open>x < of_int \<lfloor>x\<rfloor> + 1\<close> unfolding of_int_add of_int_1 by linarith+
    ultimately show ?thesis by (simp only: abs_le_iff)
  next
    case 3
    then have "round_even x = \<lfloor>x\<rfloor> \<or> round_even x = \<lfloor>x\<rfloor> + 1" by (simp add: round_even_def Let_def)
    moreover have "\<bar>of_int \<lfloor>x\<rfloor> - x\<bar> \<le> 1 / 2" "\<bar>of_int (\<lfloor>x\<rfloor> + 1) - x\<bar> \<le> 1 / 2"
      using 3 unfolding of_int_add of_int_1 by linarith+
    ultimately show ?thesis by (elim disjE) (simp_all only:)
  qed
qed

lemma round_even_int [simp]: "round_even (of_int n) = n"
  by (simp add: round_even_def)

lemma float32_0 [simp]: "float32 0 = 0"
  by (simp add: float32_def)

lemma float32_ulp_pos: "0 < float32_ulp x"
  by (simp add: float32_ulp_def)

text \<open>The relative error is at most \<open>2 powi - 24\<close>.\<close>

lemma float32_error:
  assumes "2 powi (- 126) \<le> \<bar>x\<bar>"
  shows "\<bar>float32 x - x\<bar> \<le> \<bar>x\<bar> / 2 ^ 24"
proof -
  have "0 < (2 :: rat) powi (- 126)" by (simp only: zero_less_power_int zero_less_numeral)
  with assms have x: "x \<noteq> 0" by auto
  note b = binade_bounds [OF x]
  have "- 126 \<le> binade x"
  proof (rule ccontr)
    assume "\<not> - 126 \<le> binade x"
    then have "(2 :: rat) powi (binade x + 1) \<le> 2 powi (- 126)" by (intro power_int_increasing) simp_all
    with b(2) assms show False by linarith
  qed
  then have u: "float32_ulp x = 2 powi binade x / 2 ^ 23" by (simp add: float32_ulp_def power_int_diff max_def)
  have pos: "0 < float32_ulp x" by (rule float32_ulp_pos)
  have "float32 x - x = (of_int (round_even (x / float32_ulp x)) - x / float32_ulp x) * float32_ulp x"
    using x pos by (simp add: float32_def algebra_simps)
  then have "\<bar>float32 x - x\<bar> = \<bar>of_int (round_even (x / float32_ulp x)) - x / float32_ulp x\<bar> * float32_ulp x"
    using pos by (simp add: abs_mult)
  also have "\<dots> \<le> 1 / 2 * float32_ulp x"
    using round_even_near pos by (intro mult_right_mono) simp_all
  also have "\<dots> = 2 powi binade x / 2 ^ 24" by (simp add: u)
  also have "\<dots> \<le> \<bar>x\<bar> / 2 ^ 24" using b(1) by (intro divide_right_mono) simp_all
  finally show ?thesis .
qed

text \<open>Integers of 24 bits are exact.\<close>

lemma float32_int:
  assumes "\<bar>n\<bar> \<le> 2 ^ 24"
  shows "float32 (of_int n) = of_int n"
proof (cases "n = 0")
  case False
  let ?x = "of_int n :: rat"
  have x: "?x \<noteq> 0" using False by simp
  note b = binade_bounds [OF x]
  have "\<bar>?x\<bar> < 2 powi 25"
  proof -
    have "\<bar>?x\<bar> \<le> 2 ^ 24" using assms by (metis of_int_abs of_int_le_iff of_int_numeral of_int_power)
    then show ?thesis by simp
  qed
  then have "(2 :: rat) powi binade ?x < 2 powi 25" using b(1) by linarith
  have lt: "binade ?x < 25"
  proof (rule ccontr)
    assume "\<not> binade ?x < 25"
    then have "(2 :: rat) powi 25 \<le> 2 powi binade ?x" by (intro power_int_increasing) simp_all
    with \<open>2 powi binade ?x < 2 powi 25\<close> show False by linarith
  qed
  have "\<exists>m :: int. ?x / float32_ulp ?x = of_int m"
  proof (cases "binade ?x \<le> 23")
    case True
    then have "?x / float32_ulp ?x = of_int (n * 2 ^ nat (23 - max (binade ?x) (- 126)))"
      by (simp add: float32_ulp_def power_int_def divide_simps)
    then show ?thesis by blast
  next
    case False
    with lt have e: "binade ?x = 24" by simp
    then have "2 ^ 24 \<le> \<bar>?x\<bar>" using b(1) by simp
    then have "2 ^ 24 \<le> \<bar>n\<bar>" by (metis of_int_abs of_int_le_iff of_int_numeral of_int_power)
    with assms have "\<bar>n\<bar> = 2 ^ 24" by simp
    then have "n = 2 ^ 24 \<or> n = - (2 ^ 24)" by linarith
    with e have "?x / float32_ulp ?x = of_int (if n > 0 then 2 ^ 23 else - (2 ^ 23))"
      by (auto simp: float32_ulp_def)
    then show ?thesis by blast
  qed
  then obtain m where "?x / float32_ulp ?x = of_int m" ..
  then have "float32 ?x = of_int m * float32_ulp ?x" using x by (simp add: float32_def)
  also have "\<dots> = ?x" using \<open>?x / float32_ulp ?x = of_int m\<close> float32_ulp_pos [of ?x] by (simp add: divide_eq_eq)
  finally show ?thesis .
qed simp

text \<open>The first integer that is not a \<open>float32\<close>.\<close>

lemma binade_unique:
  assumes "2 powi e \<le> \<bar>x\<bar>" "\<bar>x\<bar> < 2 powi (e + 1)"
  shows "binade x = e"
proof -
  have pos: "0 < (2 :: rat) powi e" by simp
  have "x \<noteq> 0"
  proof
    assume "x = 0"
    with pos assms(1) show False by linarith
  qed
  note b = binade_bounds [OF this]
  have "\<not> e + 1 \<le> binade x"
  proof
    assume "e + 1 \<le> binade x"
    then have "(2 :: rat) powi (e + 1) \<le> 2 powi binade x" by (intro power_int_increasing) simp_all
    with b(1) assms(2) show False by linarith
  qed
  moreover have "\<not> binade x + 1 \<le> e"
  proof
    assume "binade x + 1 \<le> e"
    then have "(2 :: rat) powi (binade x + 1) \<le> 2 powi e" by (intro power_int_increasing) simp_all
    with b(2) assms(1) show False by linarith
  qed
  ultimately show ?thesis by linarith
qed

lemma float32_rounds: "float32 16777217 = 16777216"
proof -
  have "binade 16777217 = 24" by (rule binade_unique) simp_all
  then have u: "float32_ulp 16777217 = 2" by (simp add: float32_ulp_def)
  have "\<lfloor>16777217 / 2 :: rat\<rfloor> = 8388608" by (simp add: floor_eq_iff)
  then have "round_even (16777217 / 2) = 8388608" by (simp add: round_even_def Let_def)
  with u show ?thesis by (simp add: float32_def)
qed

end
