(* ===== verification/Playlist_Tracks.thy ===== *)
theory Playlist_Tracks
  imports Playlist_Model Refinement Float32
begin

text \<open>
  \<open>persistence/playlist_track_repository.go\<close> and the part of \<open>persistence/playlist_repository.go\<close>
  that changes the table \<open>playlist_tracks\<close>: adding, removing, replacing, reordering and renumbering.
  The table has a unique index on the playlist and the position, and SQLite checks it row by row while
  an \<open>UPDATE\<close> runs; this is why the code moves positions through negative numbers. The model keeps
  that check, row after row in the order of the table, so that the theorems show that no statement is ever
  refused. A failing statement changes nothing; the statements before it stay, as outside a transaction.

  The specification is a list of entries per playlist. \<open>represents\<close> relates the two: the rows of a
  playlist are its entries, numbered from one.
\<close>

datatype sql_error = UniqueViolation | ForeignKeyViolation | CheckViolation | ScanError | NothingDeleted

record pt_row =
  ptr_id :: int
  ptr_playlist :: string
  ptr_media :: string
  ptr_source :: string
  ptr_video :: string

text \<open>The tables: \<open>media_file\<close> and \<open>hometube_video\<close> are read only; the queue of artwork to rebuild is
  the list of the playlists that were put there.\<close>

record playlist_db =
  pd_tracks :: "pt_row list"
  pd_playlists :: "string \<rightharpoonup> Playlist"
  pd_files :: "string \<rightharpoonup> MediaFile"
  pd_videos :: "string \<rightharpoonup> rat"
  pd_covers :: "string list"

type_synonym db_action = "playlist_db \<Rightarrow> sql_error option \<times> playlist_db"

definition and_then :: "db_action \<Rightarrow> db_action \<Rightarrow> db_action" where
  "and_then f g db = (case f db of (None, db') \<Rightarrow> g db' | (Some e, db') \<Rightarrow> (Some e, db'))"

definition exec_tracks :: "(pt_row list \<Rightarrow> sql_error + pt_row list) \<Rightarrow> db_action" where
  "exec_tracks f db =
     (case f (pd_tracks db) of Inl e \<Rightarrow> (Some e, db) | Inr t \<Rightarrow> (None, db\<lparr>pd_tracks := t\<rparr>))"

subsection \<open>Statements\<close>

definition row_key :: "pt_row \<Rightarrow> string \<times> int" where
  "row_key r = (ptr_playlist r, ptr_id r)"

fun update_rows :: "(pt_row \<Rightarrow> bool) \<Rightarrow> (pt_row \<Rightarrow> pt_row) \<Rightarrow> pt_row list \<Rightarrow> pt_row list \<Rightarrow> sql_error + pt_row list" where
  "update_rows p f visited [] = Inr visited"
| "update_rows p f visited (r # rs) =
     (if p r then
        if row_key (f r) \<in> set (map row_key (visited @ rs)) then Inl UniqueViolation
        else update_rows p f (visited @ [f r]) rs
      else update_rows p f (visited @ [r]) rs)"

definition update_ids :: "string \<Rightarrow> (int \<Rightarrow> bool) \<Rightarrow> (int \<Rightarrow> int) \<Rightarrow> pt_row list \<Rightarrow> sql_error + pt_row list" where
  "update_ids pid q h t =
     update_rows (\<lambda>r. ptr_playlist r = pid \<and> q (ptr_id r)) (\<lambda>r. r\<lparr>ptr_id := h (ptr_id r)\<rparr>) [] t"

fun insert_rows :: "(string \<Rightarrow> bool) \<Rightarrow> pt_row list \<Rightarrow> pt_row list \<Rightarrow> sql_error + pt_row list" where
  "insert_rows playlist_exists [] t = Inr t"
| "insert_rows playlist_exists (r # rs) t =
     (if \<not> playlist_exists (ptr_playlist r) then Inl ForeignKeyViolation
      else if ptr_source r \<notin> {''music'', ''hometube''} then Inl CheckViolation
      else if row_key r \<in> set (map row_key t) then Inl UniqueViolation
      else insert_rows playlist_exists rs (t @ [r]))"

definition delete_rows :: "(pt_row \<Rightarrow> bool) \<Rightarrow> db_action" where
  "delete_rows p = exec_tracks (\<lambda>t. Inr (filter (\<lambda>r. \<not> p r) t))"

definition insert_tracks :: "pt_row list \<Rightarrow> db_action" where
  "insert_tracks rs db = exec_tracks (insert_rows (\<lambda>pid. pid \<in> dom (pd_playlists db)) rs) db"

subsection \<open>Counters and covers\<close>

definition tracks_of :: "string \<Rightarrow> pt_row list \<Rightarrow> pt_row list" where
  "tracks_of pid t = filter (\<lambda>r. ptr_playlist r = pid) t"

definition row_counted :: "playlist_db \<Rightarrow> pt_row \<Rightarrow> bool" where
  "row_counted db r \<longleftrightarrow> ptr_media r \<in> dom (pd_files db) \<or> ptr_source r = ''hometube''"

definition row_duration :: "playlist_db \<Rightarrow> pt_row \<Rightarrow> rat" where
  "row_duration db r =
     (case pd_files db (ptr_media r) of
        Some mf \<Rightarrow> mf_Duration mf
      | None \<Rightarrow> (case pd_videos db (ptr_video r) of Some d \<Rightarrow> d | None \<Rightarrow> 0))"

definition row_size :: "playlist_db \<Rightarrow> pt_row \<Rightarrow> int" where
  "row_size db r = (case pd_files db (ptr_media r) of Some mf \<Rightarrow> mf_Size mf | None \<Rightarrow> 0)"

text \<open>The sums are scanned into fields of type \<open>float32\<close> and written back from them; the columns of the size and of the count
  are integers.\<close>

definition refreshCounters :: "string \<Rightarrow> db_action" where
  "refreshCounters pid db =
     (let rows = filter (row_counted db) (tracks_of pid (pd_tracks db));
          res_Duration = float32 (sum_list (map (row_duration db) rows));
          res_Size = float32 (of_int (sum_list (map (row_size db) rows)));
          res_Count = float32 (of_int (int (length rows)));
          upd = (\<lambda>pls. pls\<lparr>pl_Duration := res_Duration, pl_Size := \<lfloor>res_Size\<rfloor>, pl_SongCount := \<lfloor>res_Count\<rfloor>\<rparr>)
      in (None, db\<lparr>pd_playlists := (pd_playlists db)(pid := map_option upd (pd_playlists db pid))\<rparr>))"

definition enqueueCoverRebuild :: "string \<Rightarrow> db_action" where
  "enqueueCoverRebuild pid db = (None, db\<lparr>pd_covers := pd_covers db @ [pid]\<rparr>)"

subsection \<open>Operations of the repository\<close>

definition music_row :: "string \<Rightarrow> int \<Rightarrow> string \<Rightarrow> pt_row" where
  "music_row pid pos mediaFileId =
     \<lparr>ptr_id = pos, ptr_playlist = pid, ptr_media = mediaFileId, ptr_source = ''music'', ptr_video = []\<rparr>"

fun number_from :: "(int \<Rightarrow> 'a \<Rightarrow> 'b) \<Rightarrow> int \<Rightarrow> 'a list \<Rightarrow> 'b list" where
  "number_from f pos [] = []"
| "number_from f pos (x # xs) = f pos x # number_from f (pos + 1) xs"

text \<open>\<open>slices.Chunk\<close>.\<close>

function slices_Chunk :: "'a list \<Rightarrow> nat \<Rightarrow> 'a list list" where
  "slices_Chunk xs n = (if xs = [] \<or> n = 0 then [] else take n xs # slices_Chunk (drop n xs) n)"
  by pat_completeness auto
termination by (relation "measure (\<lambda>(xs, n). length xs)") auto

declare slices_Chunk.simps [simp del]

fun add_chunks :: "string \<Rightarrow> int \<Rightarrow> string list list \<Rightarrow> db_action" where
  "add_chunks pid pos [] = (\<lambda>db. (None, db))"
| "add_chunks pid pos (chunk # chunks) =
     and_then (insert_tracks (number_from (music_row pid) pos chunk))
       (add_chunks pid (pos + int (length chunk)) chunks)"

definition addTracks :: "string \<Rightarrow> int \<Rightarrow> string list \<Rightarrow> db_action" where
  "addTracks pid startingPos mediaFileIds =
     and_then (add_chunks pid startingPos (slices_Chunk mediaFileIds 200))
       (and_then (enqueueCoverRebuild pid) (refreshCounters pid))"

definition updatePlaylist :: "string \<Rightarrow> string list \<Rightarrow> db_action" where
  "updatePlaylist pid mediaFileIds =
     and_then (delete_rows (\<lambda>r. ptr_playlist r = pid)) (addTracks pid 1 mediaFileIds)"

text \<open>\<open>max(id)\<close> scanned into a \<open>sql.NullInt32\<close>: no row gives zero, a value beyond 32 bits does not
  scan.\<close>

definition max_pos :: "string \<Rightarrow> playlist_db \<Rightarrow> sql_error + int" where
  "max_pos pid db =
     (let ids = map ptr_id (tracks_of pid (pd_tracks db))
      in if ids = [] then Inr 0
         else if - (2 ^ 31) \<le> Max (set ids) \<and> Max (set ids) < 2 ^ 31 then Inr (Max (set ids))
         else Inl ScanError)"

definition wrap_int32 :: "int \<Rightarrow> int" where
  "wrap_int32 i = (i + 2 ^ 31) mod 2 ^ 32 - 2 ^ 31"

definition Add_tracks :: "string \<Rightarrow> string list \<Rightarrow> playlist_db \<Rightarrow> (sql_error option \<times> int) \<times> playlist_db" where
  "Add_tracks pid mediaFileIds db =
     (if mediaFileIds = [] then ((None, 0), db)
      else
        (case max_pos pid db of
           Inl e \<Rightarrow> ((Some e, 0), db)
         | Inr m \<Rightarrow>
             (case addTracks pid (wrap_int32 (m + 1)) mediaFileIds db of
                (err, db') \<Rightarrow> ((err, int (length mediaFileIds)), db'))))"

record HomeTubeVideo =
  hv_ID :: string
  hv_Title :: string
  hv_DurationSeconds :: rat

record PlaylistEntry =
  pe_ID :: string
  pe_Source :: string
  pe_Video :: "HomeTubeVideo option"

definition entry_source :: "PlaylistEntry \<Rightarrow> string" where
  "entry_source entry = (if pe_Source entry = [] then ''music'' else pe_Source entry)"

definition entry_row :: "string \<Rightarrow> int \<Rightarrow> PlaylistEntry \<Rightarrow> pt_row" where
  "entry_row pid pos entry =
     (let source = entry_source entry
      in if source = ''hometube''
         then \<lparr>ptr_id = pos, ptr_playlist = pid, ptr_media = [], ptr_source = source, ptr_video = pe_ID entry\<rparr>
         else \<lparr>ptr_id = pos, ptr_playlist = pid, ptr_media = pe_ID entry, ptr_source = source, ptr_video = []\<rparr>)"

fun add_entry_rows :: "pt_row list \<Rightarrow> db_action" where
  "add_entry_rows [] = (\<lambda>db. (None, db))"
| "add_entry_rows (r # rs) = and_then (insert_tracks [r]) (add_entry_rows rs)"

definition AddEntries :: "string \<Rightarrow> PlaylistEntry list \<Rightarrow> playlist_db \<Rightarrow> (sql_error option \<times> int) \<times> playlist_db" where
  "AddEntries pid entries db =
     (case max_pos pid db of
        Inl e \<Rightarrow> ((Some e, 0), db)
      | Inr m \<Rightarrow>
          (case add_entry_rows (number_from (entry_row pid) (m + 1) entries) db of
             (Some e, db1) \<Rightarrow> ((Some e, 0), db1)
           | (None, db1) \<Rightarrow>
               (case and_then (enqueueCoverRebuild pid) (refreshCounters pid) db1 of
                  (err, db2) \<Rightarrow> ((err, int (length entries)), db2))))"

definition row_number :: "string \<Rightarrow> pt_row list \<Rightarrow> int \<Rightarrow> int" where
  "row_number pid t i = 1 + int (length (filter (\<lambda>r. ptr_id r > i) (tracks_of pid t)))"

definition renumber :: "string \<Rightarrow> db_action" where
  "renumber pid =
     and_then (exec_tracks (update_ids pid (\<lambda>i. i > 0) (\<lambda>i. - i)))
       (and_then (exec_tracks (\<lambda>t. update_ids pid (\<lambda>_. True) (row_number pid t) t))
         (and_then (enqueueCoverRebuild pid) (refreshCounters pid)))"

text \<open>A position is passed as text; the column has integer affinity, so a decimal numeral is compared as the
  number it denotes.\<close>

definition Delete_tracks :: "string \<Rightarrow> string list \<Rightarrow> db_action" where
  "Delete_tracks pid ids =
     and_then (delete_rows (\<lambda>r. ptr_playlist r = pid \<and> Some (ptr_id r) \<in> set (map atoi ids))) (renumber pid)"

definition DeleteAll_tracks :: "string \<Rightarrow> db_action" where
  "DeleteAll_tracks pid = and_then (delete_rows (\<lambda>r. ptr_playlist r = pid)) (renumber pid)"

abbreviation sentinel :: int where
  "sentinel \<equiv> - 999999"

definition Reorder :: "string \<Rightarrow> int \<Rightarrow> int \<Rightarrow> db_action" where
  "Reorder pid pos newPos =
     (if pos = newPos then (\<lambda>db. (None, db))
      else
        and_then (exec_tracks (update_ids pid (\<lambda>i. i = pos) (\<lambda>_. sentinel)))
          (and_then
            (if pos < newPos then exec_tracks (update_ids pid (\<lambda>i. i > pos \<and> i \<le> newPos) (\<lambda>i. - (i - 1)))
             else exec_tracks (update_ids pid (\<lambda>i. i \<ge> newPos \<and> i < pos) (\<lambda>i. - (i + 1))))
            (and_then (exec_tracks (update_ids pid (\<lambda>i. i < 0 \<and> i \<noteq> sentinel) (\<lambda>i. - i)))
              (exec_tracks (update_ids pid (\<lambda>i. i = sentinel) (\<lambda>_. newPos))))))"

definition orphan_row :: "playlist_db \<Rightarrow> pt_row \<Rightarrow> bool" where
  "orphan_row db r \<longleftrightarrow> ptr_media r \<notin> dom (pd_files db) \<and> ptr_source r = ''music''"

text \<open>The loop over the playlists that have orphan tracks; an error of one ends it.\<close>

fun remove_orphans_of :: "string list \<Rightarrow> db_action" where
  "remove_orphans_of [] = (\<lambda>db. (None, db))"
| "remove_orphans_of (pid # pids) =
     and_then
       (\<lambda>db. if list_ex (\<lambda>r. orphan_row db r \<and> ptr_playlist r = pid) (pd_tracks db)
          then delete_rows (\<lambda>r. orphan_row db r \<and> ptr_playlist r = pid) db else (Some NothingDeleted, db))
       (and_then (renumber pid) (remove_orphans_of pids))"

definition orphaned_playlists :: "playlist_db \<Rightarrow> string list" where
  "orphaned_playlists db =
     remdups (map ptr_playlist (filter (\<lambda>r. orphan_row db r \<and> ptr_playlist r \<in> dom (pd_playlists db)) (pd_tracks db)))"

definition removeOrphans :: db_action where
  "removeOrphans db = remove_orphans_of (orphaned_playlists db) db"

subsection \<open>Statements that succeed\<close>

abbreviation unique_keys :: "pt_row list \<Rightarrow> bool" where
  "unique_keys t \<equiv> distinct (map row_key t)"

definition re_id :: "string \<Rightarrow> (int \<Rightarrow> int) \<Rightarrow> pt_row \<Rightarrow> pt_row" where
  "re_id pid k r = (if ptr_playlist r = pid then r\<lparr>ptr_id := k (ptr_id r)\<rparr> else r)"

definition ids_of :: "string \<Rightarrow> pt_row list \<Rightarrow> int set" where
  "ids_of pid t = ptr_id ` set (tracks_of pid t)"

lemma re_id_simps [simp]:
  "ptr_playlist (re_id pid k r) = ptr_playlist r" "ptr_media (re_id pid k r) = ptr_media r"
  "ptr_source (re_id pid k r) = ptr_source r" "ptr_video (re_id pid k r) = ptr_video r"
  "re_id pid k (re_id pid k' r) = re_id pid (k \<circ> k') r" "ptr_playlist r \<noteq> pid \<Longrightarrow> re_id pid k r = r"
  by (simp_all add: re_id_def)

lemma tracks_of_re_id [simp]:
  "tracks_of pid (map (re_id pid' k) t) =
     (if pid = pid' then map (\<lambda>r. r\<lparr>ptr_id := k (ptr_id r)\<rparr>) (tracks_of pid t) else tracks_of pid t)"
  by (induction t) (auto simp: tracks_of_def re_id_def)

lemma ids_of_re_id: "ids_of pid (map (re_id pid k) t) = k ` ids_of pid t"
  by (auto simp: ids_of_def image_image)

lemma in_ids_of: "r \<in> set t \<Longrightarrow> ptr_playlist r = pid \<Longrightarrow> ptr_id r \<in> ids_of pid t"
  by (auto simp: ids_of_def tracks_of_def)

lemma ids_of_iff: "i \<in> ids_of pid t \<longleftrightarrow> (pid, i) \<in> row_key ` set t"
  by (auto simp: ids_of_def tracks_of_def row_key_def image_iff)

lemma unique_re_id:
  assumes "unique_keys t" and "inj_on k (ids_of pid t)"
  shows "unique_keys (map (re_id pid k) t)"
proof -
  have "inj_on (\<lambda>r. row_key (re_id pid k r)) (set t)"
  proof (rule inj_onI)
    fix r s assume r: "r \<in> set t" and s: "s \<in> set t" and e: "row_key (re_id pid k r) = row_key (re_id pid k s)"
    then have pl: "ptr_playlist r = ptr_playlist s" by (simp add: row_key_def)
    have "ptr_id r = ptr_id s"
    proof (cases "ptr_playlist r = pid")
      case True
      with e pl have "k (ptr_id r) = k (ptr_id s)" by (simp add: row_key_def re_id_def)
      with assms(2) in_ids_of [OF r True] in_ids_of [OF s] pl True show ?thesis by (auto dest: inj_onD)
    next
      case False
      with e pl show ?thesis by (simp add: row_key_def)
    qed
    with pl have "row_key r = row_key s" by (simp add: row_key_def)
    with assms(1) r s show "r = s" by (auto simp: distinct_map dest: inj_onD)
  qed
  with assms(1) show ?thesis by (simp add: distinct_map comp_def)
qed

lemma map_row_key_comp: "map row_key (map f t) = map (row_key \<circ> f) t"
  by simp


lemma update_rows_ok:
  assumes "distinct (map row_key (visited @ map (\<lambda>r. if p r then f r else r) t))"
    and "\<forall>r \<in> set t. p r \<longrightarrow> row_key (f r) \<notin> row_key ` set t"
  shows "update_rows p f visited t = Inr (visited @ map (\<lambda>r. if p r then f r else r) t)"
  using assms
proof (induction t arbitrary: visited)
  case (Cons r t)
  have later: "\<forall>r \<in> set t. p r \<longrightarrow> row_key (f r) \<notin> row_key ` set t" using Cons.prems(2) by auto
  have d: "distinct (map row_key ((visited @ [if p r then f r else r]) @ map (\<lambda>r. if p r then f r else r) t))"
    using Cons.prems(1) by simp
  have "row_key (f r) \<notin> row_key ` set visited" if "p r" using Cons.prems(1) that by auto
  with Cons.prems(2) have "row_key (f r) \<notin> set (map row_key (visited @ t))" if "p r" using that by auto
  with Cons.IH [OF d later] show ?case by (cases "p r") simp_all
qed simp

lemma update_ids_ok:
  assumes "unique_keys t"
    and "inj_on (\<lambda>i. if q i then h i else i) (ids_of pid t)"
    and "\<forall>i \<in> ids_of pid t. q i \<longrightarrow> h i \<notin> ids_of pid t"
  shows "update_ids pid q h t = Inr (map (re_id pid (\<lambda>i. if q i then h i else i)) t)"
proof -
  let ?p = "\<lambda>r. ptr_playlist r = pid \<and> q (ptr_id r)" and ?f = "\<lambda>r. r\<lparr>ptr_id := h (ptr_id r)\<rparr>"
  have e: "map (\<lambda>r. if ?p r then ?f r else r) t = map (re_id pid (\<lambda>i. if q i then h i else i)) t"
    by (rule map_cong) (auto simp: re_id_def)
  have "\<forall>r \<in> set t. ?p r \<longrightarrow> row_key (?f r) \<notin> row_key ` set t"
    using assms(3) by (auto simp: row_key_def simp flip: ids_of_iff dest: in_ids_of) (auto simp: ids_of_iff row_key_def dest: in_ids_of)
  with unique_re_id [OF assms(1,2)] show ?thesis
    unfolding update_ids_def by (subst update_rows_ok) (simp_all add: e)
qed


subsection \<open>Rows and entries\<close>

type_synonym entry = "string \<times> string \<times> string"

definition row_entry :: "pt_row \<Rightarrow> entry" where
  "row_entry r = (ptr_media r, ptr_source r, ptr_video r)"

definition mk_row :: "string \<Rightarrow> int \<Rightarrow> entry \<Rightarrow> pt_row" where
  "mk_row pid i e = (case e of (m, s, v) \<Rightarrow>
     \<lparr>ptr_id = i, ptr_playlist = pid, ptr_media = m, ptr_source = s, ptr_video = v\<rparr>)"

definition represents :: "string \<Rightarrow> pt_row list \<Rightarrow> entry list \<Rightarrow> bool" where
  "represents pid t xs \<longleftrightarrow> mset (tracks_of pid t) = mset (number_from (mk_row pid) 1 xs)"

definition track_entries :: "string \<Rightarrow> pt_row list \<Rightarrow> entry list" where
  "track_entries pid t = map row_entry (sort_key ptr_id (tracks_of pid t))"

lemma mk_row_simps [simp]:
  "ptr_id (mk_row pid i e) = i" "ptr_playlist (mk_row pid i e) = pid" "row_entry (mk_row pid i e) = e"
  "(mk_row pid i e)\<lparr>ptr_id := j\<rparr> = mk_row pid j e"
  by (simp_all add: mk_row_def row_entry_def split: prod.splits)

lemma mk_row_eta: "ptr_playlist r = pid \<Longrightarrow> mk_row pid i (row_entry r) = r\<lparr>ptr_id := i\<rparr>"
  by (simp add: mk_row_def row_entry_def)

lemma length_number_from [simp]: "length (number_from f k xs) = length xs"
  by (induction xs arbitrary: k) simp_all

lemma number_from_append:
  "number_from f k (xs @ ys) = number_from f k xs @ number_from f (k + int (length xs)) ys"
  by (induction xs arbitrary: k) (simp_all add: algebra_simps)

lemma map_number_from: "map g (number_from f k xs) = number_from (\<lambda>i x. g (f i x)) k xs"
  by (induction xs arbitrary: k) simp_all

lemma number_from_nth: "i < length xs \<Longrightarrow> number_from f k xs ! i = f (k + int i) (xs ! i)"
  by (induction xs arbitrary: k i) (auto simp: nth_Cons algebra_simps split: nat.splits)

lemma number_from_cong:
  "(\<And>i x. k \<le> i \<Longrightarrow> i < k + int (length xs) \<Longrightarrow> x \<in> set xs \<Longrightarrow> f i x = g i x) \<Longrightarrow>
    number_from f k xs = number_from g k xs"
  by (rule nth_equalityI) (simp_all add: number_from_nth)

lemma number_from_shift: "number_from f (k + d) xs = number_from (\<lambda>i. f (i + d)) k xs"
  by (rule nth_equalityI) (simp_all add: number_from_nth algebra_simps)

lemma map_id_number_from [simp]: "map ptr_id (number_from (mk_row pid) k xs) = [k..k + int (length xs) - 1]"
  by (rule nth_equalityI) (simp_all add: number_from_nth)

lemma map_entry_number_from [simp]: "map row_entry (number_from (mk_row pid) k xs) = xs"
  by (rule nth_equalityI) (simp_all add: number_from_nth)

lemma playlist_number_from: "r \<in> set (number_from (mk_row pid) k xs) \<Longrightarrow> ptr_playlist r = pid"
  by (auto simp: in_set_conv_nth number_from_nth)

lemma sort_key_unique:
  assumes "mset xs = mset ys" and "sorted (map f ys)" and "distinct (map f ys)"
  shows "sort_key f xs = ys"
proof (rule map_sorted_distinct_set_unique [where f = f])
  have set_eq: "set (sort_key f xs) = set ys" using assms(1) by (metis set_mset_mset set_sort)
  then show "set (sort_key f xs) = set ys" .
  show "inj_on f (set (sort_key f xs) \<union> set ys)" using assms(3) by (simp add: set_eq [simplified] distinct_map)
  have "mset (map f (sort_key f xs)) = mset (map f ys)" using assms(1) by simp
  with assms(3) show "distinct (map f (sort_key f xs))" by (metis mset_eq_imp_distinct_iff)
qed (simp_all add: assms)

lemma sorted_upto_int: "sorted [i..j::int]" "distinct [i..j::int]"
  by simp_all

lemma represents_entries:
  assumes "represents pid t xs"
  shows "track_entries pid t = xs"
  using assms sort_key_unique [of "tracks_of pid t" "number_from (mk_row pid) 1 xs" ptr_id]
  by (simp add: represents_def track_entries_def)

lemma represents_ids:
  assumes "represents pid t xs"
  shows "ids_of pid t = {1..int (length xs)}" "length (tracks_of pid t) = length xs"
proof -
  have "set (map ptr_id (tracks_of pid t)) = set (map ptr_id (number_from (mk_row pid) 1 xs))"
    using assms unfolding represents_def by (metis mset_map set_mset_mset)
  then show "ids_of pid t = {1..int (length xs)}" by (simp add: ids_of_def del: set_map flip: set_map)
  show "length (tracks_of pid t) = length xs"
    using assms unfolding represents_def by (metis length_number_from size_mset)
qed

text \<open>Rows with distinct positions can be listed in their order.\<close>

lemma tracks_sorted:
  assumes "unique_keys t"
  shows "sorted_wrt (<) (map ptr_id (sort_key ptr_id (tracks_of pid t)))"
proof -
  have "distinct (map ptr_id (tracks_of pid t))"
  proof -
    have "inj_on row_key (set (tracks_of pid t))"
      using assms by (auto simp: distinct_map tracks_of_def intro: inj_on_subset)
    then have "inj_on ptr_id (set (tracks_of pid t))"
      by (auto simp: inj_on_def row_key_def tracks_of_def)
    with assms show ?thesis by (simp add: distinct_map tracks_of_def)
  qed
  then have "distinct (map ptr_id (sort_key ptr_id (tracks_of pid t)))"
    by (metis mset_eq_imp_distinct_iff mset_map mset_sort)
  then show ?thesis by (simp add: strict_sorted_iff)
qed


subsection \<open>Renumbering\<close>

lemma length_below_nth:
  fixes ks :: "'a::linorder list"
  assumes "sorted_wrt (<) ks" and "i < length ks"
  shows "length (filter (\<lambda>j. j < ks ! i) ks) = i"
proof -
  have split: "ks = take i ks @ ks ! i # drop (Suc i) ks" using assms(2) by (simp add: id_take_nth_drop)
  then have "sorted_wrt (<) (take i ks @ ks ! i # drop (Suc i) ks)" using assms(1) by simp
  then have below: "\<forall>j \<in> set (take i ks). j < ks ! i" and above: "\<forall>j \<in> set (drop (Suc i) ks). ks ! i < j"
    unfolding sorted_wrt_append by simp_all
  have "filter (\<lambda>j. j < ks ! i) (take i ks) = take i ks" using below by (simp add: filter_id_conv)
  moreover have "filter (\<lambda>j. j < ks ! i) (drop (Suc i) ks) = []"
    using above by (auto simp: filter_empty_conv dest: order.asym)
  ultimately have "filter (\<lambda>j. j < ks ! i) (take i ks @ ks ! i # drop (Suc i) ks) = take i ks" by simp
  with split assms(2) show ?thesis by simp
qed

lemma row_number_negated:
  assumes "unique_keys t" and "\<forall>i \<in> ids_of pid t. 0 < i"
    and "n < length (tracks_of pid t)" and "S = sort_key ptr_id (tracks_of pid t)"
  shows "row_number pid (map (re_id pid uminus) t) (- ptr_id (S ! n)) = 1 + int n"
proof -
  let ?x = "ptr_id (S ! n)"
  have "row_number pid (map (re_id pid uminus) t) (- ?x) = 1 + int (length (filter (\<lambda>r. ptr_id r < ?x) (tracks_of pid t)))"
    by (simp add: row_number_def filter_map comp_def)
  also have "length (filter (\<lambda>r. ptr_id r < ?x) (tracks_of pid t)) = length (filter (\<lambda>r. ptr_id r < ?x) S)"
    unfolding assms(4) by (metis mset_filter mset_sort size_mset)
  also have "\<dots> = length (filter (\<lambda>j. j < map ptr_id S ! n) (map ptr_id S))"
    using assms(3,4) by (simp add: filter_map comp_def)
  also have "\<dots> = n"
    using length_below_nth [OF tracks_sorted [OF assms(1), of pid], of n] assms(3,4) by simp
  finally show ?thesis .
qed

lemma renumber_table:
  assumes u: "unique_keys t" and pos: "\<forall>i \<in> ids_of pid t. 0 < i"
  obtains t1 t2 where "update_ids pid (\<lambda>i. i > 0) (\<lambda>i. - i) t = Inr t1"
    "update_ids pid (\<lambda>_. True) (row_number pid t1) t1 = Inr t2"
    "unique_keys t2" "represents pid t2 (track_entries pid t)"
    "\<forall>pid'. pid' \<noteq> pid \<longrightarrow> tracks_of pid' t2 = tracks_of pid' t"
proof -
  define t1 where "t1 = map (re_id pid uminus) t"
  define S where "S = sort_key ptr_id (tracks_of pid t)"
  let ?k = "row_number pid t1"
  have rk: "?k (- ptr_id (S ! n)) = 1 + int n" if "n < length S" for n
    unfolding t1_def using row_number_negated [OF u pos _ S_def] that by (simp add: S_def)
  have S: "set S = set (tracks_of pid t)" "length S = length (tracks_of pid t)" by (simp_all add: S_def)
  have eq: "map (re_id pid (\<lambda>i. if i > 0 then - i else i)) t = t1"
    unfolding t1_def by (rule map_cong [OF refl]) (use pos in \<open>auto simp: re_id_def dest: in_ids_of\<close>)
  have "inj_on (\<lambda>i. if i > 0 then - i else i) (ids_of pid t)"
    using pos by (intro inj_onI) auto
  then have s1: "update_ids pid (\<lambda>i. i > 0) (\<lambda>i. - i) t = Inr t1"
    using update_ids_ok [OF u, of "\<lambda>i. i > 0" "\<lambda>i. - i" pid] pos eq by fastforce
  have u1: "unique_keys t1" unfolding t1_def by (rule unique_re_id [OF u]) simp
  have ids1: "ids_of pid t1 = uminus ` ids_of pid t" by (simp add: t1_def ids_of_re_id)
  have idsS: "\<exists>n < length S. i = - ptr_id (S ! n)" if i: "i \<in> ids_of pid t1" for i
  proof -
    obtain r where "r \<in> set S" "i = - ptr_id r" using i S(1) unfolding ids1 unfolding ids_of_def by auto
    then show ?thesis by (metis in_set_conv_nth)
  qed
  have inj: "inj_on ?k (ids_of pid t1)"
  proof (rule inj_onI)
    fix i j assume i: "i \<in> ids_of pid t1" and j: "j \<in> ids_of pid t1" and e: "?k i = ?k j"
    obtain m n where "m < length S" "i = - ptr_id (S ! m)" "n < length S" "j = - ptr_id (S ! n)"
      using idsS [OF i] idsS [OF j] by blast
    with e rk show "i = j" by (metis add_left_cancel of_nat_eq_iff)
  qed
  have fresh: "\<forall>i \<in> ids_of pid t1. True \<longrightarrow> ?k i \<notin> ids_of pid t1"
  proof
    fix i assume "i \<in> ids_of pid t1"
    have "0 < ?k i" by (simp add: row_number_def)
    moreover have "\<forall>j \<in> ids_of pid t1. j < 0" using pos by (auto simp: ids1)
    ultimately show "True \<longrightarrow> ?k i \<notin> ids_of pid t1" by fastforce
  qed
  let ?t2 = "map (re_id pid ?k) t1"
  have s2: "update_ids pid (\<lambda>_. True) ?k t1 = Inr ?t2"
    using update_ids_ok [OF u1, of "\<lambda>_. True" ?k pid] inj fresh by simp
  have "map (\<lambda>r. r\<lparr>ptr_id := ?k (- ptr_id r)\<rparr>) S = number_from (mk_row pid) 1 (map row_entry S)"
  proof (rule nth_equalityI)
    fix n assume "n < length (map (\<lambda>r. r\<lparr>ptr_id := ?k (- ptr_id r)\<rparr>) S)"
    then have n: "n < length S" by simp
    then have "ptr_playlist (S ! n) = pid" using S(1) nth_mem [OF n] by (auto simp: tracks_of_def)
    with n rk [OF n] show "map (\<lambda>r. r\<lparr>ptr_id := ?k (- ptr_id r)\<rparr>) S ! n = number_from (mk_row pid) 1 (map row_entry S) ! n"
      by (simp add: number_from_nth mk_row_eta)
  qed simp
  moreover have "mset (tracks_of pid ?t2) = mset (map (\<lambda>r. r\<lparr>ptr_id := ?k (- ptr_id r)\<rparr>) S)"
    by (simp add: t1_def comp_def S_def)
  ultimately have "represents pid ?t2 (track_entries pid t)"
    by (simp add: represents_def track_entries_def S_def)
  then show thesis
    by (rule that [OF s1 s2 unique_re_id [OF u1 inj]]) (simp add: t1_def del: map_map)
qed


subsection \<open>Sequences of statements\<close>

lemma and_then_exec [simp]:
  "f (pd_tracks db) = Inr t \<Longrightarrow> and_then (exec_tracks f) g db = g (db\<lparr>pd_tracks := t\<rparr>)"
  "f (pd_tracks db) = Inr t \<Longrightarrow> exec_tracks f db = (None, db\<lparr>pd_tracks := t\<rparr>)"
  by (simp_all add: and_then_def exec_tracks_def)

lemma and_then_delete [simp]:
  "and_then (delete_rows p) g db = g (db\<lparr>pd_tracks := filter (\<lambda>r. \<not> p r) (pd_tracks db)\<rparr>)"
  by (simp add: delete_rows_def)

text \<open>The counters of a playlist agree with the rows of the tracks table, to the precision of a \<open>float32\<close>.\<close>

definition counted :: "playlist_db \<Rightarrow> string \<Rightarrow> Playlist \<Rightarrow> bool" where
  "counted db pid pls \<longleftrightarrow>
     (let rows = filter (row_counted db) (tracks_of pid (pd_tracks db))
      in pl_Duration pls = float32 (sum_list (map (row_duration db) rows)) \<and>
         pl_Size pls = \<lfloor>float32 (of_int (sum_list (map (row_size db) rows)))\<rfloor> \<and>
         pl_SongCount pls = \<lfloor>float32 (of_int (int (length rows)))\<rfloor>)"

text \<open>They are exact up to \<open>2 ^ 24\<close> bytes and tracks. The size of almost every playlist is beyond that, and off by up to one part
  in \<open>2 ^ 24\<close>.\<close>

lemma counted_exact:
  assumes "counted db pid pls" and rows: "rows = filter (row_counted db) (tracks_of pid (pd_tracks db))"
  shows "length rows \<le> 2 ^ 24 \<Longrightarrow> pl_SongCount pls = int (length rows)"
    "\<bar>sum_list (map (row_size db) rows)\<bar> \<le> 2 ^ 24 \<Longrightarrow> pl_Size pls = sum_list (map (row_size db) rows)"
    "2 powi (- 126) \<le> \<bar>sum_list (map (row_duration db) rows)\<bar> \<Longrightarrow>
      \<bar>pl_Duration pls - sum_list (map (row_duration db) rows)\<bar> \<le> \<bar>sum_list (map (row_duration db) rows)\<bar> / 2 ^ 24"
  using assms(1) float32_int [of "int (length rows)"] float32_int [of "sum_list (map (row_size db) rows)"]
    float32_error [of "sum_list (map (row_duration db) rows)"]
  by (simp_all only: counted_def Let_def flip: rows) simp_all

definition finish_change :: "string \<Rightarrow> db_action" where
  "finish_change pid = and_then (enqueueCoverRebuild pid) (refreshCounters pid)"

lemma finish_change_simps [simp]:
  "fst (finish_change pid db) = None"
  "pd_tracks (snd (finish_change pid db)) = pd_tracks db" "pd_files (snd (finish_change pid db)) = pd_files db"
  "pd_videos (snd (finish_change pid db)) = pd_videos db" "pd_covers (snd (finish_change pid db)) = pd_covers db @ [pid]"
  "dom (pd_playlists (snd (finish_change pid db))) = dom (pd_playlists db)"
  "pid' \<noteq> pid \<Longrightarrow> pd_playlists (snd (finish_change pid db)) pid' = pd_playlists db pid'"
  by (auto simp: finish_change_def and_then_def enqueueCoverRebuild_def refreshCounters_def Let_def map_option_case
      split: option.splits if_splits)

lemma row_functions_cong:
  assumes "pd_files db' = pd_files db"
  shows "row_counted db' = row_counted db" "row_size db' = row_size db"
    "pd_videos db' = pd_videos db \<Longrightarrow> row_duration db' = row_duration db"
  using assms by (simp_all add: row_counted_def [abs_def] row_duration_def [abs_def] row_size_def [abs_def] cong: option.case_cong)

lemma row_functions_id [simp]:
  "row_counted db (r\<lparr>ptr_id := i\<rparr>) = row_counted db r" "row_size db (r\<lparr>ptr_id := i\<rparr>) = row_size db r"
  "row_duration db (r\<lparr>ptr_id := i\<rparr>) = row_duration db r"
  by (simp_all add: row_counted_def row_duration_def row_size_def cong: option.case_cong)

lemma counted_cong:
  "tracks_of pid (pd_tracks db') = tracks_of pid (pd_tracks db) \<Longrightarrow> pd_files db' = pd_files db \<Longrightarrow>
    pd_videos db' = pd_videos db \<Longrightarrow> counted db' pid pls = counted db pid pls"
  by (simp add: counted_def row_functions_cong [of db' db])

lemma refreshCounters_counted:
  assumes "pd_playlists (snd (refreshCounters pid db)) pid = Some pls"
  shows "counted (snd (refreshCounters pid db)) pid pls"
proof -
  have "counted (snd (refreshCounters pid db)) pid pls = counted db pid pls"
    by (rule counted_cong) (simp_all add: refreshCounters_def Let_def)
  moreover have "counted db pid pls"
    using assms by (auto simp: refreshCounters_def Let_def counted_def)
  ultimately show ?thesis by simp
qed

lemma finish_change_counted:
  "pd_playlists (snd (finish_change pid db)) pid = Some pls \<Longrightarrow> counted (snd (finish_change pid db)) pid pls"
  by (simp add: finish_change_def and_then_def enqueueCoverRebuild_def refreshCounters_counted)

text \<open>The state between calls: positions are unique, every playlist's positions are one to the number of
  its tracks, tracks belong to playlists, and the counters are right.\<close>

definition tracks_ok :: "pt_row list \<Rightarrow> bool" where
  "tracks_ok t \<longleftrightarrow> unique_keys t \<and> (\<forall>pid. represents pid t (track_entries pid t))"

definition db_ok :: "playlist_db \<Rightarrow> bool" where
  "db_ok db \<longleftrightarrow> tracks_ok (pd_tracks db) \<and> ptr_playlist ` set (pd_tracks db) \<subseteq> dom (pd_playlists db) \<and>
     (\<forall>pid pls. pd_playlists db pid = Some pls \<longrightarrow> counted db pid pls)"

text \<open>What a change of one playlist has to establish; of its row only the counters may change.\<close>

definition same_row :: "Playlist \<Rightarrow> Playlist \<Rightarrow> bool" where
  "same_row p p' \<longleftrightarrow>
     p\<lparr>pl_Duration := 0, pl_Size := 0, pl_SongCount := 0\<rparr> = p'\<lparr>pl_Duration := 0, pl_Size := 0, pl_SongCount := 0\<rparr>"

definition changes_to :: "string \<Rightarrow> entry list \<Rightarrow> playlist_db \<Rightarrow> playlist_db \<Rightarrow> bool" where
  "changes_to pid xs db db' \<longleftrightarrow>
     unique_keys (pd_tracks db') \<and> represents pid (pd_tracks db') xs \<and>
     (\<forall>pid'. pid' \<noteq> pid \<longrightarrow> tracks_of pid' (pd_tracks db') = tracks_of pid' (pd_tracks db)) \<and>
     pd_files db' = pd_files db \<and> pd_videos db' = pd_videos db \<and> dom (pd_playlists db') = dom (pd_playlists db) \<and>
     (\<forall>pid'. pid' \<noteq> pid \<longrightarrow> pd_playlists db' pid' = pd_playlists db pid') \<and>
     rel_option same_row (pd_playlists db pid) (pd_playlists db' pid) \<and>
     (\<forall>pls. pd_playlists db' pid = Some pls \<longrightarrow> counted db' pid pls)"

lemma tracks_of_subset: "ptr_playlist ` set t \<subseteq> D \<longleftrightarrow> (\<forall>pid. tracks_of pid t \<noteq> [] \<longrightarrow> pid \<in> D)"
  by (auto simp: tracks_of_def filter_empty_conv)

lemma changes_to_ok:
  assumes "db_ok db" and "changes_to pid xs db db'" and "pid \<in> dom (pd_playlists db)"
  shows "db_ok db'" "track_entries pid (pd_tracks db') = xs"
    "pid' \<noteq> pid \<Longrightarrow> track_entries pid' (pd_tracks db') = track_entries pid' (pd_tracks db)"
proof -
  note c = assms(2) [unfolded changes_to_def]
  show xs: "track_entries pid (pd_tracks db') = xs" using c represents_entries by blast
  show other: "track_entries pid' (pd_tracks db') = track_entries pid' (pd_tracks db)" if "pid' \<noteq> pid" for pid'
    using c that by (simp add: track_entries_def)
  have "represents p (pd_tracks db') (track_entries p (pd_tracks db'))" for p
    using assms(1) c other [of p] xs by (cases "p = pid") (auto simp: db_ok_def tracks_ok_def represents_def)
  moreover have "ptr_playlist ` set (pd_tracks db') \<subseteq> dom (pd_playlists db')"
    using assms(1,3) c unfolding tracks_of_subset by (metis db_ok_def tracks_of_subset)
  moreover have "counted db' p pls" if "pd_playlists db' p = Some pls" for p pls
    using assms(1) c that counted_cong [of p db' db pls] by (cases "p = pid") (auto simp: db_ok_def)
  ultimately show "db_ok db'" using c by (simp add: db_ok_def tracks_ok_def)
qed


subsection \<open>Each operation changes its playlist as specified\<close>

lemma same_row_refl [simp]: "same_row p p"
  by (simp add: same_row_def)

lemma same_row_fields:
  assumes "same_row p p'"
  shows "pl_Name p' = pl_Name p" "pl_Comment p' = pl_Comment p" "pl_Public p' = pl_Public p" "pl_OwnerID p' = pl_OwnerID p"
    "pl_Rules p' = pl_Rules p"
  using assms [unfolded same_row_def, THEN arg_cong, of pl_Name] assms [unfolded same_row_def, THEN arg_cong, of pl_Comment]
    assms [unfolded same_row_def, THEN arg_cong, of pl_Public] assms [unfolded same_row_def, THEN arg_cong, of pl_OwnerID]
    assms [unfolded same_row_def, THEN arg_cong, of pl_Rules]
  by simp_all

lemma rel_same_row_refl [simp]: "rel_option same_row x x"
  by (cases x) simp_all

lemma finish_change_row: "rel_option same_row (pd_playlists db pid) (pd_playlists (snd (finish_change pid db)) pid)"
  by (cases "pd_playlists db pid")
    (simp_all add: finish_change_def and_then_def enqueueCoverRebuild_def refreshCounters_def Let_def same_row_def)

lemma changes_to_finish:
  assumes "unique_keys t" and "represents pid t xs"
    and "\<And>pid'. pid' \<noteq> pid \<Longrightarrow> tracks_of pid' t = tracks_of pid' (pd_tracks db)"
  shows "fst (finish_change pid (db\<lparr>pd_tracks := t\<rparr>)) = None"
    "changes_to pid xs db (snd (finish_change pid (db\<lparr>pd_tracks := t\<rparr>)))"
  using assms finish_change_counted finish_change_row [of "db\<lparr>pd_tracks := t\<rparr>" pid]
  by (auto simp: changes_to_def)

lemma renumber_changes:
  assumes "unique_keys t" and "\<forall>i \<in> ids_of pid t. 0 < i"
    and "\<And>pid'. pid' \<noteq> pid \<Longrightarrow> tracks_of pid' t = tracks_of pid' (pd_tracks db)"
  shows "fst (renumber pid (db\<lparr>pd_tracks := t\<rparr>)) = None"
    "changes_to pid (track_entries pid t) db (snd (renumber pid (db\<lparr>pd_tracks := t\<rparr>)))"
proof -
  obtain t1 t2 where t: "update_ids pid (\<lambda>i. i > 0) (\<lambda>i. - i) t = Inr t1"
    "update_ids pid (\<lambda>_. True) (row_number pid t1) t1 = Inr t2"
    "unique_keys t2" "represents pid t2 (track_entries pid t)"
    "\<forall>pid'. pid' \<noteq> pid \<longrightarrow> tracks_of pid' t2 = tracks_of pid' t"
    by (rule renumber_table [OF assms(1,2)])
  then have "renumber pid (db\<lparr>pd_tracks := t\<rparr>) = finish_change pid (db\<lparr>pd_tracks := t2\<rparr>)"
    unfolding renumber_def finish_change_def [symmetric] by simp
  with changes_to_finish [OF t(3,4), of db] t(5) assms(3)
  show "fst (renumber pid (db\<lparr>pd_tracks := t\<rparr>)) = None"
    "changes_to pid (track_entries pid t) db (snd (renumber pid (db\<lparr>pd_tracks := t\<rparr>)))" by simp_all
qed

lemma unique_keys_filter: "unique_keys t \<Longrightarrow> unique_keys (filter p t)"
  by (simp add: distinct_map_filter)

lemma tracks_of_filter: "tracks_of pid (filter p t) = filter p (tracks_of pid t)"
  by (simp add: tracks_of_def conj_commute)

lemma entries_filter:
  assumes "represents pid t xs"
  shows "track_entries pid (filter p t) = map row_entry (filter p (number_from (mk_row pid) 1 xs))"
proof -
  have "sort_key ptr_id (filter p (tracks_of pid t)) = filter p (number_from (mk_row pid) 1 xs)"
  proof (rule sort_key_unique)
    show "mset (filter p (tracks_of pid t)) = mset (filter p (number_from (mk_row pid) 1 xs))"
      using assms by (simp add: represents_def)
    have "sorted (map ptr_id (number_from (mk_row pid) 1 xs))" by simp
    then show "sorted (map ptr_id (filter p (number_from (mk_row pid) 1 xs)))" by (rule sorted_filter)
    have "distinct (map ptr_id (number_from (mk_row pid) 1 xs))" by simp
    then show "distinct (map ptr_id (filter p (number_from (mk_row pid) 1 xs)))" by (rule distinct_map_filter)
  qed
  then show ?thesis by (simp add: track_entries_def tracks_of_filter)
qed

lemma filter_number_nths:
  "map row_entry (filter (\<lambda>r. q (ptr_id r)) (number_from (mk_row pid) k xs)) = nths xs {i. q (k + int i)}"
  by (induction xs arbitrary: k) (simp_all add: nths_Cons algebra_simps)

lemma filter_number_entry:
  "map row_entry (filter (\<lambda>r. q (row_entry r)) (number_from (mk_row pid) k xs)) = filter q xs"
  by (induction xs arbitrary: k) simp_all

lemma delete_renumber_changes:
  assumes "db_ok db" and "\<And>r. p r \<Longrightarrow> ptr_playlist r = pid" and "act = and_then (delete_rows p) (renumber pid)"
  shows "fst (act db) = None"
    "changes_to pid (track_entries pid (filter (\<lambda>r. \<not> p r) (pd_tracks db))) db (snd (act db))"
proof -
  let ?t = "filter (\<lambda>r. \<not> p r) (pd_tracks db)"
  have u: "unique_keys ?t" using assms(1) by (simp add: db_ok_def tracks_ok_def unique_keys_filter)
  have "ids_of pid (pd_tracks db) = {1..int (length (track_entries pid (pd_tracks db)))}"
    using assms(1) represents_ids(1) by (simp add: db_ok_def tracks_ok_def)
  moreover have "ids_of pid ?t \<subseteq> ids_of pid (pd_tracks db)" by (auto simp: ids_of_def tracks_of_filter)
  ultimately have "\<forall>i \<in> ids_of pid ?t. 0 < i" by auto
  moreover have "tracks_of pid' ?t = tracks_of pid' (pd_tracks db)" if "pid' \<noteq> pid" for pid'
    using assms(2) that by (auto simp: tracks_of_def intro!: filter_cong)
  ultimately show "fst (act db) = None"
    "changes_to pid (track_entries pid ?t) db (snd (act db))"
    using renumber_changes [OF u, of pid db] by (simp_all add: assms(3))
qed

lemma Delete_changes:
  assumes "db_ok db"
  shows "fst (Delete_tracks pid ids db) = None"
    "changes_to pid (nths (track_entries pid (pd_tracks db)) {i. Some (int i + 1) \<notin> set (map atoi ids)}) db
      (snd (Delete_tracks pid ids db))"
proof -
  let ?p = "\<lambda>r. ptr_playlist r = pid \<and> Some (ptr_id r) \<in> set (map atoi ids)"
  let ?xs = "track_entries pid (pd_tracks db)"
  have r: "represents pid (pd_tracks db) ?xs" using assms by (simp add: db_ok_def tracks_ok_def)
  have "filter (\<lambda>r. \<not> ?p r) (number_from (mk_row pid) 1 ?xs) =
      filter (\<lambda>r. Some (ptr_id r) \<notin> set (map atoi ids)) (number_from (mk_row pid) 1 ?xs)"
    by (rule filter_cong) (auto dest: playlist_number_from)
  then have "track_entries pid (filter (\<lambda>r. \<not> ?p r) (pd_tracks db)) =
      nths ?xs {i. Some (int i + 1) \<notin> set (map atoi ids)}"
    using entries_filter [OF r] filter_number_nths [of "\<lambda>i. Some i \<notin> set (map atoi ids)" pid 1 ?xs]
    by (simp add: add.commute)
  then show "fst (Delete_tracks pid ids db) = None"
    "changes_to pid (nths ?xs {i. Some (int i + 1) \<notin> set (map atoi ids)}) db (snd (Delete_tracks pid ids db))"
    using delete_renumber_changes [OF assms, of ?p pid "Delete_tracks pid ids"] by (simp_all add: Delete_tracks_def)
qed

lemma DeleteAll_changes:
  assumes "db_ok db"
  shows "fst (DeleteAll_tracks pid db) = None" "changes_to pid [] db (snd (DeleteAll_tracks pid db))"
proof -
  have "track_entries pid (filter (\<lambda>r. ptr_playlist r \<noteq> pid) t) = []" for t
    by (simp add: track_entries_def tracks_of_def)
  then show "fst (DeleteAll_tracks pid db) = None" "changes_to pid [] db (snd (DeleteAll_tracks pid db))"
    using delete_renumber_changes [OF assms, of "\<lambda>r. ptr_playlist r = pid" pid "DeleteAll_tracks pid"]
    by (simp_all add: DeleteAll_tracks_def)
qed


lemma insert_rows_ok:
  assumes "playlist_exists pid" and "\<forall>e \<in> set es. fst (snd e) \<in> {''music'', ''hometube''}"
    and "\<forall>i \<in> ids_of pid t. i < k"
  shows "insert_rows playlist_exists (number_from (mk_row pid) k es) t = Inr (t @ number_from (mk_row pid) k es)"
  using assms(2,3)
proof (induction es arbitrary: k t)
  case (Cons e es)
  have "ptr_source (mk_row pid k e) = fst (snd e)" by (simp add: mk_row_def split: prod.splits)
  moreover have "row_key (mk_row pid k e) \<notin> set (map row_key t)"
  proof
    assume "row_key (mk_row pid k e) \<in> set (map row_key t)"
    then have "k \<in> ids_of pid t" by (simp add: ids_of_iff row_key_def [of "mk_row pid k e"])
    with Cons.prems(2) show False by auto
  qed
  moreover have "ids_of pid (t @ [mk_row pid k e]) = insert k (ids_of pid t)"
    by (auto simp: ids_of_def tracks_of_def)
  then have "\<forall>i \<in> ids_of pid (t @ [mk_row pid k e]). i < k + 1" using Cons.prems(2) by auto
  ultimately show ?case using Cons.IH [of "t @ [mk_row pid k e]" "k + 1"] Cons.prems(1) assms(1) by auto
qed simp

lemma tracks_of_append_number:
  "tracks_of pid (t @ number_from (mk_row pid) k es) = tracks_of pid t @ number_from (mk_row pid) k es"
  "pid' \<noteq> pid \<Longrightarrow> tracks_of pid' (t @ number_from (mk_row pid) k es) = tracks_of pid' t"
proof -
  have "filter (\<lambda>r. ptr_playlist r = pid) (number_from (mk_row pid) k es) = number_from (mk_row pid) k es"
    by (auto simp: filter_id_conv dest: playlist_number_from)
  then show "tracks_of pid (t @ number_from (mk_row pid) k es) = tracks_of pid t @ number_from (mk_row pid) k es"
    by (simp add: tracks_of_def)
  show "tracks_of pid' (t @ number_from (mk_row pid) k es) = tracks_of pid' t" if "pid' \<noteq> pid"
    using that by (auto simp: tracks_of_def filter_empty_conv dest: playlist_number_from)
qed

lemma ids_of_append_number:
  "ids_of pid (t @ number_from (mk_row pid) k es) = ids_of pid t \<union> {k..k + int (length es) - 1}"
proof -
  have "ptr_id ` set (number_from (mk_row pid) k es) = {k..k + int (length es) - 1}"
    by (simp flip: set_map)
  then show ?thesis unfolding ids_of_def tracks_of_append_number(1) by (simp add: image_Un)
qed

lemma represents_append:
  assumes "represents pid t xs" and "k = 1 + int (length xs)"
  shows "represents pid (t @ number_from (mk_row pid) k es) (xs @ es)"
  using assms unfolding represents_def tracks_of_append_number(1) by (simp add: number_from_append)

lemma unique_append_number:
  assumes "unique_keys t" and "\<forall>i \<in> ids_of pid t. i < k"
  shows "unique_keys (t @ number_from (mk_row pid) k es)"
proof -
  let ?n = "number_from (mk_row pid) k es"
  have "distinct (map ptr_id ?n)" by simp
  then have "distinct (map row_key ?n)"
    unfolding distinct_map inj_on_def row_key_def by auto
  moreover have "row_key r \<notin> row_key ` set ?n" if "r \<in> set t" for r
  proof
    assume "row_key r \<in> row_key ` set ?n"
    then obtain s where s: "s \<in> set ?n" "row_key r = row_key s" by auto
    then have "ptr_playlist r = pid" using playlist_number_from by (auto simp: row_key_def)
    with assms(2) that s(2) have "ptr_id s < k" by (auto simp: row_key_def dest: in_ids_of)
    moreover have "ptr_id s \<in> set (map ptr_id ?n)" unfolding set_map using s(1) by (rule imageI)
    ultimately show False unfolding map_id_number_from by simp
  qed
  then have "row_key ` set t \<inter> row_key ` set ?n = {}" by blast
  ultimately show ?thesis using assms(1) by simp
qed

definition music_entry :: "string \<Rightarrow> entry" where
  "music_entry m = (m, ''music'', [])"

lemma music_row_number: "number_from (music_row pid) k ids = number_from (mk_row pid) k (map music_entry ids)"
  by (rule nth_equalityI) (simp_all add: number_from_nth music_row_def mk_row_def music_entry_def)

lemma concat_slices_Chunk: "0 < n \<Longrightarrow> concat (slices_Chunk xs n) = xs"
  by (induction xs n rule: slices_Chunk.induct) (subst slices_Chunk.simps, simp)

lemma add_chunks_ok:
  assumes "pid \<in> dom (pd_playlists db)" and "\<forall>i \<in> ids_of pid (pd_tracks db). i < k"
  shows "add_chunks pid k chunks db =
    (None, db\<lparr>pd_tracks := pd_tracks db @ number_from (mk_row pid) k (map music_entry (concat chunks))\<rparr>)"
  using assms
proof (induction chunks arbitrary: k db)
  case (Cons c cs)
  let ?rows = "number_from (mk_row pid) k (map music_entry c)"
  have "insert_tracks ?rows db = (None, db\<lparr>pd_tracks := pd_tracks db @ ?rows\<rparr>)"
    unfolding insert_tracks_def
    by (rule and_then_exec(2), rule insert_rows_ok) (use Cons.prems in \<open>auto simp: music_entry_def\<close>)
  then have "add_chunks pid k (c # cs) db =
      add_chunks pid (k + int (length c)) cs (db\<lparr>pd_tracks := pd_tracks db @ ?rows\<rparr>)"
    by (simp add: and_then_def music_row_number)
  also have "\<dots> = (None, db\<lparr>pd_tracks := (pd_tracks db @ ?rows) @
      number_from (mk_row pid) (k + int (length c)) (map music_entry (concat cs))\<rparr>)"
  proof -
    have "\<forall>i \<in> ids_of pid (pd_tracks db @ ?rows). i < k + int (length c)"
      using Cons.prems(2) by (auto simp: ids_of_append_number)
    with Cons.IH [of "db\<lparr>pd_tracks := pd_tracks db @ ?rows\<rparr>" "k + int (length c)"] Cons.prems(1)
    show ?thesis by simp
  qed
  finally show ?case by (simp add: number_from_append)
qed simp

lemma addTracks_changes:
  assumes "pid \<in> dom (pd_playlists db)" and "unique_keys (pd_tracks db)" and "represents pid (pd_tracks db) xs"
    and "k = 1 + int (length xs)"
  shows "fst (addTracks pid k ids db) = None" "changes_to pid (xs @ map music_entry ids) db (snd (addTracks pid k ids db))"
proof -
  let ?t = "pd_tracks db @ number_from (mk_row pid) k (map music_entry ids)"
  have below: "\<forall>i \<in> ids_of pid (pd_tracks db). i < k"
    using represents_ids(1) [OF assms(3)] assms(4) by simp
  have "addTracks pid k ids db = finish_change pid (db\<lparr>pd_tracks := ?t\<rparr>)"
    unfolding addTracks_def finish_change_def [symmetric] and_then_def
    by (simp add: add_chunks_ok [OF assms(1) below] concat_slices_Chunk)
  with changes_to_finish [OF unique_append_number [OF assms(2) below] represents_append [OF assms(3,4)]]
  show "fst (addTracks pid k ids db) = None" "changes_to pid (xs @ map music_entry ids) db (snd (addTracks pid k ids db))"
    by (simp_all add: tracks_of_append_number)
qed


lemma updatePlaylist_changes:
  assumes "db_ok db" and "pid \<in> dom (pd_playlists db)"
  shows "fst (updatePlaylist pid ids db) = None" "changes_to pid (map music_entry ids) db (snd (updatePlaylist pid ids db))"
proof -
  let ?db = "db\<lparr>pd_tracks := filter (\<lambda>r. ptr_playlist r \<noteq> pid) (pd_tracks db)\<rparr>"
  have e: "updatePlaylist pid ids db = addTracks pid 1 ids ?db" by (simp add: updatePlaylist_def)
  have u: "unique_keys (pd_tracks ?db)" using assms(1) by (simp add: db_ok_def tracks_ok_def unique_keys_filter)
  have r: "represents pid (pd_tracks ?db) []" by (simp add: represents_def tracks_of_def)
  have "changes_to pid (map music_entry ids) ?db (snd (addTracks pid 1 ids ?db))"
    using addTracks_changes(2) [OF _ u r, of 1 ids] assms(2) by simp
  moreover have "tracks_of pid' (filter (\<lambda>r. ptr_playlist r \<noteq> pid) (pd_tracks db)) = tracks_of pid' (pd_tracks db)"
    if "pid' \<noteq> pid" for pid'
    using that by (auto simp: tracks_of_def intro!: filter_cong)
  ultimately show "changes_to pid (map music_entry ids) db (snd (updatePlaylist pid ids db))"
    unfolding e by (simp add: changes_to_def)
  show "fst (updatePlaylist pid ids db) = None"
    using addTracks_changes(1) [OF _ u r, of 1 ids] assms(2) unfolding e by simp
qed

lemma max_pos_represents:
  assumes "represents pid (pd_tracks db) xs" and "int (length xs) < 2 ^ 31"
  shows "max_pos pid db = Inr (int (length xs))"
proof -
  have s: "set (map ptr_id (tracks_of pid (pd_tracks db))) = {1..int (length xs)}"
    using represents_ids(1) [OF assms(1)] by (simp add: ids_of_def)
  show ?thesis
  proof (cases "xs = []")
    case True
    with represents_ids(2) [OF assms(1)] show ?thesis by (simp add: max_pos_def)
  next
    case False
    then have "Max {1..int (length xs)} = int (length xs)"
      by (intro Max_eqI) (auto simp: Suc_le_eq)
    moreover have "tracks_of pid (pd_tracks db) \<noteq> []" using False represents_ids(2) [OF assms(1)] by auto
    ultimately show ?thesis using assms(2) unfolding max_pos_def Let_def s by simp
  qed
qed

lemma wrap_int32_id: "- (2 ^ 31) \<le> i \<Longrightarrow> i < 2 ^ 31 \<Longrightarrow> wrap_int32 i = i"
  by (simp add: wrap_int32_def)

lemma Add_changes:
  assumes "db_ok db" and "pid \<in> dom (pd_playlists db)" and "xs = track_entries pid (pd_tracks db)"
    and "int (length xs) < 2 ^ 31 - 1" and "ids \<noteq> []"
  shows "fst (Add_tracks pid ids db) = (None, int (length ids))"
    "changes_to pid (xs @ map music_entry ids) db (snd (Add_tracks pid ids db))"
proof -
  have r: "represents pid (pd_tracks db) xs" and u: "unique_keys (pd_tracks db)"
    using assms(1,3) by (simp_all add: db_ok_def tracks_ok_def)
  have k: "wrap_int32 (int (length xs) + 1) = 1 + int (length xs)"
    using assms(4) by (subst wrap_int32_id) simp_all
  have "max_pos pid db = Inr (int (length xs))" using max_pos_represents [OF r] assms(4) by simp
  with assms(5) have "Add_tracks pid ids db =
      ((fst (addTracks pid (1 + int (length xs)) ids db), int (length ids)), snd (addTracks pid (1 + int (length xs)) ids db))"
    by (simp add: Add_tracks_def k case_prod_beta)
  with addTracks_changes [OF assms(2) u r refl]
  show "fst (Add_tracks pid ids db) = (None, int (length ids))"
    "changes_to pid (xs @ map music_entry ids) db (snd (Add_tracks pid ids db))" by simp_all
qed

text \<open>The entry of the tracks table that a playlist entry becomes.\<close>

definition entry_of :: "PlaylistEntry \<Rightarrow> entry" where
  "entry_of e = row_entry (entry_row [] 0 e)"

lemma entry_row_number: "number_from (entry_row pid) k es = number_from (mk_row pid) k (map entry_of es)"
  by (rule nth_equalityI)
    (simp_all add: number_from_nth entry_row_def mk_row_def entry_of_def row_entry_def Let_def)

lemma entry_of_source [simp]: "fst (snd (entry_of e)) = entry_source e"
  by (simp add: entry_of_def row_entry_def entry_row_def Let_def)

lemma add_entry_rows_ok:
  assumes "pid \<in> dom (pd_playlists db)" and "\<forall>i \<in> ids_of pid (pd_tracks db). i < k"
    and "\<forall>e \<in> set es. fst (snd e) \<in> {''music'', ''hometube''}"
  shows "add_entry_rows (number_from (mk_row pid) k es) db =
    (None, db\<lparr>pd_tracks := pd_tracks db @ number_from (mk_row pid) k es\<rparr>)"
  using assms
proof (induction es arbitrary: k db)
  case (Cons e es)
  let ?db = "db\<lparr>pd_tracks := pd_tracks db @ [mk_row pid k e]\<rparr>"
  have "insert_tracks (number_from (mk_row pid) k [e]) db =
      (None, db\<lparr>pd_tracks := pd_tracks db @ number_from (mk_row pid) k [e]\<rparr>)"
    unfolding insert_tracks_def
    by (rule and_then_exec(2), rule insert_rows_ok) (use Cons.prems in auto)
  then have "add_entry_rows (number_from (mk_row pid) k (e # es)) db =
      add_entry_rows (number_from (mk_row pid) (k + 1) es) ?db"
    by (simp add: and_then_def)
  also have "\<dots> = (None, ?db\<lparr>pd_tracks := pd_tracks ?db @ number_from (mk_row pid) (k + 1) es\<rparr>)"
    by (rule Cons.IH) (use Cons.prems ids_of_append_number [of pid "pd_tracks db" k "[e]"] in auto)
  finally show ?case by simp
qed simp

lemma AddEntries_changes:
  assumes "db_ok db" and "pid \<in> dom (pd_playlists db)" and "xs = track_entries pid (pd_tracks db)"
    and "int (length xs) < 2 ^ 31" and "\<forall>e \<in> set es. entry_source e \<in> {''music'', ''hometube''}"
  shows "fst (AddEntries pid es db) = (None, int (length es))"
    "changes_to pid (xs @ map entry_of es) db (snd (AddEntries pid es db))"
proof -
  let ?k = "int (length xs) + 1" and ?t = "pd_tracks db @ number_from (mk_row pid) (int (length xs) + 1) (map entry_of es)"
  have r: "represents pid (pd_tracks db) xs" and u: "unique_keys (pd_tracks db)"
    using assms(1,3) by (simp_all add: db_ok_def tracks_ok_def)
  have below: "\<forall>i \<in> ids_of pid (pd_tracks db). i < ?k" using represents_ids(1) [OF r] by simp
  have "add_entry_rows (number_from (mk_row pid) ?k (map entry_of es)) db = (None, db\<lparr>pd_tracks := ?t\<rparr>)"
    by (rule add_entry_rows_ok [OF assms(2) below]) (use assms(5) in auto)
  then have "AddEntries pid es db =
      ((fst (finish_change pid (db\<lparr>pd_tracks := ?t\<rparr>)), int (length es)), snd (finish_change pid (db\<lparr>pd_tracks := ?t\<rparr>)))"
    unfolding AddEntries_def finish_change_def [symmetric]
    by (simp add: max_pos_represents [OF r assms(4)] entry_row_number case_prod_beta)
  with changes_to_finish [OF unique_append_number [OF u below] represents_append [OF r]]
  show "fst (AddEntries pid es db) = (None, int (length es))"
    "changes_to pid (xs @ map entry_of es) db (snd (AddEntries pid es db))"
    by (simp_all add: tracks_of_append_number)
qed


subsection \<open>Reordering\<close>

text \<open>Where the row at position \<open>i\<close> goes, when the one at \<open>pos\<close> moves to \<open>newPos\<close>.\<close>

definition moved :: "int \<Rightarrow> int \<Rightarrow> int \<Rightarrow> int" where
  "moved pos newPos i =
     (if i = pos then newPos
      else if pos < i \<and> i \<le> newPos then i - 1
      else if newPos \<le> i \<and> i < pos then i + 1
      else i)"

lemma map_re_id_ident [simp]: "map (re_id pid (\<lambda>i. i)) t = t"
  by (rule map_idI) (simp add: re_id_def)

lemma map_re_id_cong:
  "(\<And>i. i \<in> ids_of pid t \<Longrightarrow> k i = k' i) \<Longrightarrow> map (re_id pid k) t = map (re_id pid k') t"
  by (rule map_cong [OF refl]) (auto simp: re_id_def dest: in_ids_of)

lemma update_re_id:
  assumes "unique_keys t" and "inj_on k (ids_of pid t)"
    and "inj_on (\<lambda>i. if q (k i) then h (k i) else k i) (ids_of pid t)"
    and "\<And>i j. i \<in> ids_of pid t \<Longrightarrow> j \<in> ids_of pid t \<Longrightarrow> q (k i) \<Longrightarrow> h (k i) \<noteq> k j"
  shows "update_ids pid q h (map (re_id pid k) t) = Inr (map (re_id pid (\<lambda>i. if q (k i) then h (k i) else k i)) t)"
proof -
  have "update_ids pid q h (map (re_id pid k) t) = Inr (map (re_id pid (\<lambda>i. if q i then h i else i)) (map (re_id pid k) t))"
  proof (rule update_ids_ok)
    show "unique_keys (map (re_id pid k) t)" by (rule unique_re_id [OF assms(1,2)])
    show "inj_on (\<lambda>i. if q i then h i else i) (ids_of pid (map (re_id pid k) t))"
      unfolding ids_of_re_id by (rule inj_on_imageI) (use assms(3) in \<open>simp add: comp_def\<close>)
    show "\<forall>i \<in> ids_of pid (map (re_id pid k) t). q i \<longrightarrow> h i \<notin> ids_of pid (map (re_id pid k) t)"
      using assms(4) by (auto simp: ids_of_re_id)
  qed
  then show ?thesis by (simp add: comp_def)
qed

lemma Reorder_table:
  assumes u: "unique_keys (pd_tracks db)" and ids: "ids_of pid (pd_tracks db) = {1..n}" and n: "n < 999999"
    and p: "1 \<le> pos" "pos \<le> n" "1 \<le> newPos" "newPos \<le> n"
  shows "Reorder pid pos newPos db = (None, db\<lparr>pd_tracks := map (re_id pid (moved pos newPos)) (pd_tracks db)\<rparr>)"
proof (cases "pos = newPos")
  case True
  have "map (re_id pid (moved pos newPos)) (pd_tracks db) = map (re_id pid (\<lambda>i. i)) (pd_tracks db)"
    by (rule map_re_id_cong) (auto simp: moved_def True)
  also have "\<dots> = pd_tracks db" by simp
  finally show ?thesis using True by (simp add: Reorder_def)
next
  case False
  define shift :: "int \<Rightarrow> int" where "shift i = (if pos < newPos then - (i - 1) else - (i + 1))" for i
  define inside where "inside i \<longleftrightarrow> (if pos < newPos then pos < i \<and> i \<le> newPos else newPos \<le> i \<and> i < pos)" for i
  define k1 :: "int \<Rightarrow> int" where "k1 i = (if i = pos then sentinel else i)" for i
  define k2 where "k2 i = (if inside (k1 i) then shift (k1 i) else k1 i)" for i
  define k3 where "k3 i = (if k2 i < 0 \<and> k2 i \<noteq> sentinel then - k2 i else k2 i)" for i
  define k4 where "k4 i = (if k3 i = sentinel then newPos else k3 i)" for i
  let ?t = "pd_tracks db"
  note defs = k1_def k2_def k3_def k4_def shift_def inside_def
  have r: "1 \<le> i \<and> i \<le> n" if "i \<in> ids_of pid ?t" for i using that ids by simp
  have k2: "k2 i = (if i = pos then sentinel else if inside i then shift i else i)" if "1 \<le> i" for i
    using p n that by (auto simp: defs)
  have k3: "k3 i = (if i = pos then sentinel else moved pos newPos i)" if "1 \<le> i" "i \<le> n" for i
    using p n that False by (auto simp: k3_def k2 moved_def shift_def inside_def)
  have "update_ids pid (\<lambda>i. i = pos) (\<lambda>_. sentinel) (map (re_id pid (\<lambda>i. i)) ?t) = Inr (map (re_id pid k1) ?t)"
    unfolding k1_def by (rule update_re_id [OF u]) (use p n r in \<open>auto simp: inj_on_def dest!: r\<close>)
  moreover have "update_ids pid inside shift (map (re_id pid k1) ?t) = Inr (map (re_id pid k2) ?t)"
    unfolding k2_def
    by (rule update_re_id [OF u]) (use p n in \<open>auto simp: inj_on_def k1_def shift_def inside_def dest!: r split: if_splits\<close>)
  moreover have "update_ids pid (\<lambda>i. i < 0 \<and> i \<noteq> sentinel) (\<lambda>i. - i) (map (re_id pid k2) ?t) = Inr (map (re_id pid k3) ?t)"
    unfolding k3_def
    by (rule update_re_id [OF u]) (use p n in \<open>auto simp: inj_on_def k2 shift_def inside_def dest!: r split: if_splits\<close>)
  moreover have "update_ids pid (\<lambda>i. i = sentinel) (\<lambda>_. newPos) (map (re_id pid k3) ?t) = Inr (map (re_id pid k4) ?t)"
    unfolding k4_def
    by (rule update_re_id [OF u]) (use p n in \<open>auto simp: inj_on_def k3 moved_def dest!: r split: if_splits\<close>)
  moreover have "map (re_id pid k4) ?t = map (re_id pid (moved pos newPos)) ?t"
    by (rule map_re_id_cong) (use p n in \<open>auto simp: k4_def k3 moved_def dest!: r\<close>)
  moreover have "map (re_id pid (\<lambda>i. i)) ?t = ?t" by simp
  moreover have "(if pos < newPos then exec_tracks (update_ids pid (\<lambda>i. i > pos \<and> i \<le> newPos) (\<lambda>i. - (i - 1)))
      else exec_tracks (update_ids pid (\<lambda>i. i \<ge> newPos \<and> i < pos) (\<lambda>i. - (i + 1)))) =
    exec_tracks (update_ids pid inside shift)"
    by (cases "pos < newPos") (simp_all add: inside_def [abs_def] shift_def [abs_def])
  ultimately show ?thesis using False by (simp add: Reorder_def)
qed


lemma slice_Move_right:
  "slice_Move (as @ (x # bs) @ cs) (int (length as)) (int (length as + length bs)) = Some (as @ (bs @ [x]) @ cs)"
  by (simp add: slice_Move_def slice_Remove_def slice_Insert_def remove_nth_def nth_append del: of_nat_add)

lemma slice_Move_left:
  "slice_Move (as @ (bs @ [x]) @ cs) (int (length as + length bs)) (int (length as)) = Some (as @ (x # bs) @ cs)"
  by (simp add: slice_Move_def slice_Remove_def slice_Insert_def remove_nth_def nth_append del: of_nat_add)

lemma split_between:
  assumes "0 \<le> i" and "i \<le> j" and "j \<le> int (length xs)"
  obtains as ms cs where "xs = as @ ms @ cs" "int (length as) = i" "int (length ms) = j - i"
proof
  show "xs = take (nat i) xs @ take (nat (j - i)) (drop (nat i) xs) @ drop (nat (j - i)) (drop (nat i) xs)"
    by (simp only: append_take_drop_id)
qed (use assms in auto)

lemma map_moved:
  "map (\<lambda>r. r\<lparr>ptr_id := moved pos newPos (ptr_id r)\<rparr>) (number_from (mk_row pid) k xs) =
     number_from (\<lambda>i. mk_row pid (moved pos newPos i)) k xs"
  by (simp add: map_number_from)

lemma moved_numbers:
  assumes "slice_Move xs (pos - 1) (newPos - 1) = Some ys" and "1 \<le> newPos" and "newPos \<le> int (length xs)"
  shows "mset (map (\<lambda>r. r\<lparr>ptr_id := moved pos newPos (ptr_id r)\<rparr>) (number_from (mk_row pid) 1 xs)) =
    mset (number_from (mk_row pid) 1 ys)"
proof -
  have pos: "1 \<le> pos" "pos \<le> int (length xs)" using assms(1) by (auto simp: slice_Move_def split: if_splits)
  let ?f = "\<lambda>i. mk_row pid (moved pos newPos i)"
  have cut: "number_from ?f k zs = number_from (mk_row pid) (k + d) zs"
    if "\<And>i. k \<le> i \<Longrightarrow> i < k + int (length zs) \<Longrightarrow> moved pos newPos i = i + d" for k d zs
    unfolding number_from_shift by (rule number_from_cong) (simp add: that)
  show ?thesis
  proof (cases "pos \<le> newPos")
    case True
    obtain as ms cs where ms: "xs = as @ ms @ cs" "int (length as) = pos - 1" "int (length ms) = newPos - (pos - 1)"
      by (rule split_between [of "pos - 1" newPos xs]) (use True pos assms(3) in auto)
    then obtain x bs where "ms = x # bs" using True by (cases ms) auto
    with ms have xs: "xs = as @ (x # bs) @ cs" and len: "int (length as) = pos - 1" "int (length bs) = newPos - pos" by auto
    have "ys = as @ (bs @ [x]) @ cs"
      using assms(1) slice_Move_right [of as x bs cs] len unfolding xs by simp
    moreover have "number_from ?f 1 as = number_from (mk_row pid) (1 + 0) as"
      by (rule cut) (use len True in \<open>simp add: moved_def\<close>)
    moreover have "number_from ?f (1 + pos) bs = number_from (mk_row pid) (1 + pos + (- 1)) bs"
      by (rule cut) (use len True in \<open>simp add: moved_def\<close>)
    moreover have "number_from ?f (1 + newPos) cs = number_from (mk_row pid) (1 + newPos + 0) cs"
      by (rule cut) (use len True in \<open>simp add: moved_def\<close>)
    ultimately show ?thesis
      unfolding map_moved xs by (simp add: number_from_append len moved_def add.commute)
  next
    case False
    obtain as ms cs where ms: "xs = as @ ms @ cs" "int (length as) = newPos - 1" "int (length ms) = pos - (newPos - 1)"
      by (rule split_between [of "newPos - 1" pos xs]) (use False pos assms(2) in auto)
    then obtain x bs where "ms = bs @ [x]" using False by (cases ms rule: rev_cases) auto
    with ms have xs: "xs = as @ (bs @ [x]) @ cs" and len: "int (length as) = newPos - 1" "int (length bs) = pos - newPos" by auto
    have "ys = as @ (x # bs) @ cs"
      using assms(1) slice_Move_left [of as bs x cs] len unfolding xs by simp
    moreover have "number_from ?f 1 as = number_from (mk_row pid) (1 + 0) as"
      by (rule cut) (use len False in \<open>simp add: moved_def\<close>)
    moreover have "number_from ?f newPos bs = number_from (mk_row pid) (newPos + 1) bs"
      by (rule cut) (use len False in \<open>simp add: moved_def\<close>)
    moreover have "number_from ?f (1 + pos) cs = number_from (mk_row pid) (1 + pos + 0) cs"
      by (rule cut) (use len False in \<open>simp add: moved_def\<close>)
    ultimately show ?thesis
      unfolding map_moved xs by (simp add: number_from_append len moved_def add.commute)
  qed
qed

lemma Reorder_changes:
  assumes "db_ok db" and "pid \<in> dom (pd_playlists db)" and "xs = track_entries pid (pd_tracks db)"
    and n: "length xs < 999999" and move: "slice_Move xs (pos - 1) (newPos - 1) = Some ys"
    and new: "1 \<le> newPos" "newPos \<le> int (length xs)"
  shows "fst (Reorder pid pos newPos db) = None" "changes_to pid ys db (snd (Reorder pid pos newPos db))"
proof -
  let ?t = "map (re_id pid (moved pos newPos)) (pd_tracks db)"
  have r: "represents pid (pd_tracks db) xs" and u: "unique_keys (pd_tracks db)"
    using assms(1,3) by (simp_all add: db_ok_def tracks_ok_def)
  note ids = represents_ids(1) [OF r]
  have pos: "1 \<le> pos" "pos \<le> int (length xs)" using move by (auto simp: slice_Move_def split: if_splits)
  have e: "Reorder pid pos newPos db = (None, db\<lparr>pd_tracks := ?t\<rparr>)"
    by (rule Reorder_table [OF u ids]) (use n pos new in auto)
  then show "fst (Reorder pid pos newPos db) = None" by simp
  have "inj_on (moved pos newPos) (ids_of pid (pd_tracks db))"
    unfolding ids by (auto simp: inj_on_def moved_def split: if_splits)
  then have u': "unique_keys ?t" by (rule unique_re_id [OF u])
  have r': "represents pid ?t ys"
    using r moved_numbers [OF move new, of pid] by (simp add: represents_def)
  have "counted (db\<lparr>pd_tracks := ?t\<rparr>) pid pls = counted db pid pls" for pls
    by (simp add: counted_def Let_def filter_map comp_def row_functions_cong [of "db\<lparr>pd_tracks := ?t\<rparr>" db])
  then have "counted (db\<lparr>pd_tracks := ?t\<rparr>) pid pls" if "pd_playlists db pid = Some pls" for pls
    using assms(1) that by (simp add: db_ok_def)
  with u' r' show "changes_to pid ys db (snd (Reorder pid pos newPos db))"
    unfolding e by (auto simp: changes_to_def)
qed


subsection \<open>Orphans\<close>

definition orphan_entry :: "string set \<Rightarrow> entry \<Rightarrow> bool" where
  "orphan_entry files e \<longleftrightarrow> fst e \<notin> files \<and> fst (snd e) = ''music''"

lemma orphan_row_entry: "orphan_row db r = orphan_entry (dom (pd_files db)) (row_entry r)"
  by (simp add: orphan_row_def orphan_entry_def row_entry_def)

lemma remove_one_orphaned:
  assumes "db_ok db" and "act = and_then (delete_rows (\<lambda>r. orphan_row db r \<and> ptr_playlist r = pid)) (renumber pid)"
  shows "fst (act db) = None"
    "changes_to pid (filter (\<lambda>e. \<not> orphan_entry (dom (pd_files db)) e) (track_entries pid (pd_tracks db))) db (snd (act db))"
proof -
  let ?p = "\<lambda>r. orphan_row db r \<and> ptr_playlist r = pid" and ?xs = "track_entries pid (pd_tracks db)"
  have r: "represents pid (pd_tracks db) ?xs" using assms(1) by (simp add: db_ok_def tracks_ok_def)
  have "filter (\<lambda>r. \<not> ?p r) (number_from (mk_row pid) 1 ?xs) =
      filter (\<lambda>r. \<not> orphan_entry (dom (pd_files db)) (row_entry r)) (number_from (mk_row pid) 1 ?xs)"
    by (rule filter_cong) (auto simp: orphan_row_entry dest: playlist_number_from)
  then have "track_entries pid (filter (\<lambda>r. \<not> ?p r) (pd_tracks db)) = filter (\<lambda>e. \<not> orphan_entry (dom (pd_files db)) e) ?xs"
    using entries_filter [OF r] filter_number_entry by simp
  then show "fst (act db) = None"
    "changes_to pid (filter (\<lambda>e. \<not> orphan_entry (dom (pd_files db)) e) ?xs) db (snd (act db))"
    using delete_renumber_changes [OF assms(1) _ assms(2)] by simp_all
qed

lemma row_in_entries:
  "(\<exists>r \<in> set t. ptr_playlist r = pid \<and> P (row_entry r)) \<longleftrightarrow> (\<exists>e \<in> set (track_entries pid t). P e)"
  by (auto simp: track_entries_def tracks_of_def)

lemma remove_orphans_ok:
  assumes "db_ok db" and "distinct pids" and "set pids \<subseteq> dom (pd_playlists db)"
    and "\<forall>pid \<in> set pids. \<exists>e \<in> set (track_entries pid (pd_tracks db)). orphan_entry (dom (pd_files db)) e"
  shows "fst (remove_orphans_of pids db) = None \<and> db_ok (snd (remove_orphans_of pids db)) \<and>
    pd_files (snd (remove_orphans_of pids db)) = pd_files db \<and>
    dom (pd_playlists (snd (remove_orphans_of pids db))) = dom (pd_playlists db) \<and>
    (\<forall>pid. track_entries pid (pd_tracks (snd (remove_orphans_of pids db))) =
      (if pid \<in> set pids then filter (\<lambda>e. \<not> orphan_entry (dom (pd_files db)) e) (track_entries pid (pd_tracks db))
       else track_entries pid (pd_tracks db)))"
  using assms
proof (induction pids arbitrary: db)
  case (Cons pid pids)
  define act where "act = and_then (delete_rows (\<lambda>r. orphan_row db r \<and> ptr_playlist r = pid)) (renumber pid)"
  define db1 where "db1 = snd (act db)"
  note c = remove_one_orphaned [OF Cons.prems(1) act_def, folded db1_def]
  have pid: "pid \<in> dom (pd_playlists db)" using Cons.prems(3) by simp
  note after = changes_to_ok [OF Cons.prems(1) c(2) pid]
  have db1: "pd_files db1 = pd_files db" "dom (pd_playlists db1) = dom (pd_playlists db)" using c(2) by (simp_all add: changes_to_def)
  have "list_ex (\<lambda>r. orphan_row db r \<and> ptr_playlist r = pid) (pd_tracks db)"
    using Cons.prems(4) row_in_entries [of "pd_tracks db" pid "orphan_entry (dom (pd_files db))"]
    by (auto simp: list_ex_iff orphan_row_entry)
  then have "remove_orphans_of (pid # pids) db = and_then act (remove_orphans_of pids) db"
    by (simp add: and_then_def act_def delete_rows_def exec_tracks_def)
  also have "\<dots> = remove_orphans_of pids db1"
    using c(1) unfolding db1_def by (cases "act db") (simp add: and_then_def)
  finally have e: "remove_orphans_of (pid # pids) db = remove_orphans_of pids db1" .
  have "pid \<notin> set pids" using Cons.prems(2) by simp
  then have "\<forall>p \<in> set pids. track_entries p (pd_tracks db1) = track_entries p (pd_tracks db)"
    using after(3) by metis
  then have "\<forall>p \<in> set pids. \<exists>e \<in> set (track_entries p (pd_tracks db1)). orphan_entry (dom (pd_files db1)) e"
    using Cons.prems(4) db1(1) by simp
  with Cons.IH [OF after(1)] Cons.prems(2,3) db1
  have IH: "fst (remove_orphans_of pids db1) = None \<and> db_ok (snd (remove_orphans_of pids db1)) \<and>
    pd_files (snd (remove_orphans_of pids db1)) = pd_files db1 \<and>
    dom (pd_playlists (snd (remove_orphans_of pids db1))) = dom (pd_playlists db1) \<and>
    (\<forall>pid. track_entries pid (pd_tracks (snd (remove_orphans_of pids db1))) =
      (if pid \<in> set pids then filter (\<lambda>e. \<not> orphan_entry (dom (pd_files db1)) e) (track_entries pid (pd_tracks db1))
       else track_entries pid (pd_tracks db1)))" by simp
  moreover have "track_entries p (pd_tracks (snd (remove_orphans_of pids db1))) =
      (if p \<in> set (pid # pids) then filter (\<lambda>e. \<not> orphan_entry (dom (pd_files db)) e) (track_entries p (pd_tracks db))
       else track_entries p (pd_tracks db))" for p
    using IH after(2,3) db1(1) \<open>pid \<notin> set pids\<close> by (cases "p = pid") simp_all
  ultimately show ?case using db1 unfolding e by simp
qed simp

lemma removeOrphans_ok:
  assumes "db_ok db"
  shows "fst (removeOrphans db) = None" "db_ok (snd (removeOrphans db))"
    "pd_files (snd (removeOrphans db)) = pd_files db"
    "dom (pd_playlists (snd (removeOrphans db))) = dom (pd_playlists db)"
    "track_entries pid (pd_tracks (snd (removeOrphans db))) =
      filter (\<lambda>e. \<not> orphan_entry (dom (pd_files db)) e) (track_entries pid (pd_tracks db))"
proof -
  let ?pids = "orphaned_playlists db"
  have sub: "ptr_playlist ` set (pd_tracks db) \<subseteq> dom (pd_playlists db)" using assms by (simp add: db_ok_def)
  have pids: "p \<in> set ?pids \<longleftrightarrow> (\<exists>e \<in> set (track_entries p (pd_tracks db)). orphan_entry (dom (pd_files db)) e)" for p
  proof -
    have "p \<in> set ?pids \<longleftrightarrow> (\<exists>r \<in> set (pd_tracks db). ptr_playlist r = p \<and> orphan_entry (dom (pd_files db)) (row_entry r))"
      using sub by (auto simp: orphaned_playlists_def orphan_row_entry image_iff image_subset_iff)
    then show ?thesis by (simp only: row_in_entries)
  qed
  have "set ?pids \<subseteq> dom (pd_playlists db)" using sub by (auto simp: orphaned_playlists_def)
  have "distinct ?pids" by (simp add: orphaned_playlists_def)
  with remove_orphans_ok [OF assms this \<open>set ?pids \<subseteq> dom (pd_playlists db)\<close>] pids
  have all: "fst (removeOrphans db) = None \<and> db_ok (snd (removeOrphans db)) \<and>
    pd_files (snd (removeOrphans db)) = pd_files db \<and> dom (pd_playlists (snd (removeOrphans db))) = dom (pd_playlists db) \<and>
    (\<forall>pid. track_entries pid (pd_tracks (snd (removeOrphans db))) =
      (if pid \<in> set ?pids then filter (\<lambda>e. \<not> orphan_entry (dom (pd_files db)) e) (track_entries pid (pd_tracks db))
       else track_entries pid (pd_tracks db)))"
    by (simp add: removeOrphans_def)
  then show "fst (removeOrphans db) = None" "db_ok (snd (removeOrphans db))"
    "pd_files (snd (removeOrphans db)) = pd_files db"
    "dom (pd_playlists (snd (removeOrphans db))) = dom (pd_playlists db)" by simp_all
  show "track_entries pid (pd_tracks (snd (removeOrphans db))) =
      filter (\<lambda>e. \<not> orphan_entry (dom (pd_files db)) e) (track_entries pid (pd_tracks db))"
  proof (cases "pid \<in> set ?pids")
    case False
    then have "filter (\<lambda>e. \<not> orphan_entry (dom (pd_files db)) e) (track_entries pid (pd_tracks db)) = track_entries pid (pd_tracks db)"
      using pids by (auto simp: filter_id_conv)
    with all False show ?thesis by simp
  qed (use all in simp)
qed


subsection \<open>Refinement of lists\<close>

datatype track_op =
    OpAdd string "string list"
  | OpAddEntries string "PlaylistEntry list"
  | OpDelete string "string list"
  | OpDeleteAll string
  | OpReorder string int int
  | OpReplace string "string list"
  | OpRemoveOrphans

definition no_count :: "sql_error option \<times> playlist_db \<Rightarrow> (sql_error option \<times> int) \<times> playlist_db" where
  "no_count r = ((fst r, 0), snd r)"

fun track_exec :: "track_op \<Rightarrow> playlist_db \<Rightarrow> (sql_error option \<times> int) \<times> playlist_db" where
  "track_exec (OpAdd pid ids) db = Add_tracks pid ids db"
| "track_exec (OpAddEntries pid es) db = AddEntries pid es db"
| "track_exec (OpDelete pid ids) db = no_count (Delete_tracks pid ids db)"
| "track_exec (OpDeleteAll pid) db = no_count (DeleteAll_tracks pid db)"
| "track_exec (OpReorder pid pos newPos) db = no_count (Reorder pid pos newPos db)"
| "track_exec (OpReplace pid ids) db = no_count (updatePlaylist pid ids db)"
| "track_exec OpRemoveOrphans db = no_count (removeOrphans db)"

text \<open>The specification: a list of entries for every playlist, and operations on lists. No operation
  fails.\<close>

fun track_spec :: "string set \<Rightarrow> track_op \<Rightarrow> (string \<rightharpoonup> entry list) \<Rightarrow> (sql_error option \<times> int) \<times> (string \<rightharpoonup> entry list)" where
  "track_spec files (OpAdd pid ids) a =
     ((None, int (length ids)), a(pid \<mapsto> the (a pid) @ map music_entry ids))"
| "track_spec files (OpAddEntries pid es) a = ((None, int (length es)), a(pid \<mapsto> the (a pid) @ map entry_of es))"
| "track_spec files (OpDelete pid ids) a =
     ((None, 0), a(pid \<mapsto> nths (the (a pid)) {i. Some (int i + 1) \<notin> set (map atoi ids)}))"
| "track_spec files (OpDeleteAll pid) a = ((None, 0), a(pid \<mapsto> []))"
| "track_spec files (OpReorder pid pos newPos) a =
     ((None, 0), a(pid \<mapsto> the (slice_Move (the (a pid)) (pos - 1) (newPos - 1))))"
| "track_spec files (OpReplace pid ids) a = ((None, 0), a(pid \<mapsto> map music_entry ids))"
| "track_spec files OpRemoveOrphans a =
     ((None, 0), \<lambda>pid. map_option (filter (\<lambda>e. \<not> orphan_entry files e)) (a pid))"

definition position :: "entry list \<Rightarrow> int \<Rightarrow> bool" where
  "position xs i \<longleftrightarrow> 1 \<le> i \<and> i \<le> int (length xs)"

fun track_pre :: "track_op \<Rightarrow> (string \<rightharpoonup> entry list) \<Rightarrow> bool" where
  "track_pre (OpAdd pid ids) a \<longleftrightarrow> pid \<in> dom a \<and> int (length (the (a pid))) < 2 ^ 31 - 1"
| "track_pre (OpAddEntries pid es) a \<longleftrightarrow> pid \<in> dom a \<and> int (length (the (a pid))) < 2 ^ 31 \<and>
     list_all (\<lambda>e. entry_source e \<in> {''music'', ''hometube''}) es"
| "track_pre (OpReorder pid pos newPos) a \<longleftrightarrow> pid \<in> dom a \<and> length (the (a pid)) < 999999 \<and>
     position (the (a pid)) pos \<and> position (the (a pid)) newPos"
| "track_pre (OpDelete pid ids) a \<longleftrightarrow> pid \<in> dom a"
| "track_pre (OpDeleteAll pid) a \<longleftrightarrow> pid \<in> dom a"
| "track_pre (OpReplace pid ids) a \<longleftrightarrow> pid \<in> dom a"
| "track_pre OpRemoveOrphans a \<longleftrightarrow> True"

definition track_abs :: "playlist_db \<Rightarrow> string \<rightharpoonup> entry list" where
  "track_abs db pid = (if pid \<in> dom (pd_playlists db) then Some (track_entries pid (pd_tracks db)) else None)"

definition tracks_inv :: "string set \<Rightarrow> playlist_db \<Rightarrow> bool" where
  "tracks_inv files db \<longleftrightarrow> db_ok db \<and> dom (pd_files db) = files"

lemma track_abs_dom [simp]: "dom (track_abs db) = dom (pd_playlists db)"
  by (auto simp: track_abs_def dom_def split: if_splits)

lemma track_abs_the [simp]: "pid \<in> dom (pd_playlists db) \<Longrightarrow> track_abs db pid = Some (track_entries pid (pd_tracks db))"
  by (simp add: track_abs_def)

lemma changes_refine:
  assumes "tracks_inv files db" and "pid \<in> dom (pd_playlists db)" and "changes_to pid xs db db'"
  shows "track_abs db' = (track_abs db)(pid \<mapsto> xs) \<and> tracks_inv files db'"
proof -
  have ok: "db_ok db" using assms(1) by (simp add: tracks_inv_def)
  note c = changes_to_ok [OF ok assms(3,2)]
  have d: "dom (pd_playlists db') = dom (pd_playlists db)" "pd_files db' = pd_files db"
    using assms(3) by (simp_all add: changes_to_def)
  have "track_abs db' p = ((track_abs db)(pid \<mapsto> xs)) p" for p
    using c(2,3) d(1) assms(2) by (cases "p = pid") (simp_all add: track_abs_def)
  with c(1) d(2) assms(1) show ?thesis by (auto simp: tracks_inv_def)
qed

lemma slice_Move_Some:
  assumes "position xs pos" and "position xs newPos"
  shows "slice_Move xs (pos - 1) (newPos - 1) = Some (the (slice_Move xs (pos - 1) (newPos - 1)))"
proof -
  have "0 \<le> pos - 1" "pos - 1 < int (length xs)" "0 \<le> newPos - 1" "newPos - 1 < int (length xs)"
    using assms by (simp_all add: position_def)
  from slice_Move_ok [OF this] show ?thesis by auto
qed

lemma track_call:
  assumes "tracks_inv files db" and "track_pre x (track_abs db)"
  shows "fst (track_exec x db) = fst (track_spec files x (track_abs db)) \<and>
    track_abs (snd (track_exec x db)) = snd (track_spec files x (track_abs db)) \<and> tracks_inv files (snd (track_exec x db))"
proof -
  have ok: "db_ok db" and files: "dom (pd_files db) = files" using assms(1) by (simp_all add: tracks_inv_def)
  note refine = changes_refine [OF assms(1)]
  show ?thesis
  proof (cases x)
    case (OpAdd pid ids)
    with assms have pid: "pid \<in> dom (pd_playlists db)" and n: "int (length (track_entries pid (pd_tracks db))) < 2 ^ 31 - 1" by (auto simp: track_abs_def domI)
    show ?thesis
    proof (cases "ids = []")
      case True
      with pid have "(track_abs db)(pid \<mapsto> track_entries pid (pd_tracks db)) = track_abs db" by (auto simp: fun_eq_iff)
      with True OpAdd pid assms(1) show ?thesis by (simp add: Add_tracks_def)
    next
      case False
      note c = Add_changes [OF ok pid refl n False]
      show ?thesis using refine [OF pid c(2)] c(1) pid by (simp add: OpAdd)
    qed
  next
    case (OpAddEntries pid es)
    with assms have pid: "pid \<in> dom (pd_playlists db)" and n: "int (length (track_entries pid (pd_tracks db))) < 2 ^ 31"
      and s: "\<forall>e \<in> set es. entry_source e \<in> {''music'', ''hometube''}" by (auto simp: track_abs_def list_all_iff domI)
    note c = AddEntries_changes [OF ok pid refl n s]
    show ?thesis using refine [OF pid c(2)] c(1) pid by (simp add: OpAddEntries)
  next
    case (OpDelete pid ids)
    with assms have pid: "pid \<in> dom (pd_playlists db)" by simp
    show ?thesis using refine [OF pid Delete_changes(2) [OF ok]] Delete_changes(1) [OF ok] pid by (simp add: OpDelete no_count_def)
  next
    case (OpDeleteAll pid)
    with assms have pid: "pid \<in> dom (pd_playlists db)" by simp
    show ?thesis using refine [OF pid DeleteAll_changes(2) [OF ok]] DeleteAll_changes(1) [OF ok] pid by (simp add: OpDeleteAll no_count_def)
  next
    case (OpReorder pid pos newPos)
    with assms have pid: "pid \<in> dom (pd_playlists db)" and n: "length (track_entries pid (pd_tracks db)) < 999999"
      and p: "position (track_entries pid (pd_tracks db)) pos" "position (track_entries pid (pd_tracks db)) newPos" by (auto simp: track_abs_def domI)
    have new: "1 \<le> newPos" "newPos \<le> int (length (track_entries pid (pd_tracks db)))" using p(2) by (simp_all add: position_def)
    note c = Reorder_changes [OF ok pid refl n slice_Move_Some [OF p] new]
    show ?thesis using refine [OF pid c(2)] c(1) pid by (simp add: OpReorder no_count_def)
  next
    case (OpReplace pid ids)
    with assms have pid: "pid \<in> dom (pd_playlists db)" by simp
    note c = updatePlaylist_changes [OF ok pid]
    show ?thesis using refine [OF pid c(2)] c(1) pid by (simp add: OpReplace no_count_def)
  next
    case OpRemoveOrphans
    note c = removeOrphans_ok [OF ok]
    have "track_abs (snd (removeOrphans db)) = (\<lambda>pid. map_option (filter (\<lambda>e. \<not> orphan_entry files e)) (track_abs db pid))"
      using c(4,5) files by (auto simp: track_abs_def fun_eq_iff)
    with c files show ?thesis by (simp add: OpRemoveOrphans no_count_def tracks_inv_def)
  qed
qed

interpretation pt: refined_when track_exec "track_spec files" track_abs "tracks_inv files" track_pre
  for files
  using track_call by unfold_locales blast+


text \<open>
  C9: the tracks of playlists are lists. Take a state in which every playlist's rows are numbered from one, and a history of adding,
  removing, replacing and reordering tracks of existing playlists and of removing orphans, in which every reordering
  moves a track that exists to a position that exists, in a playlist of fewer than 999999 tracks, and entries are added
  with a known source to playlists of fewer than \<open>2 ^ 31 - 1\<close> tracks (\<open>track_pre\<close>, before every call). It runs without a
  constraint violation, returns what the list operations return and leaves the entries they leave, in their order. The rows
  are again numbered from one, and the stored counters of every playlist are those of its rows, rounded to a \<open>float32\<close>
  (\<open>counted_exact\<close>).
\<close>

theorem playlist_tracks_refine:
  assumes "tracks_inv files db" and "run_pre track_pre (track_spec files) ops (track_abs db)"
  shows "fst (run_ops track_exec ops db) = fst (run_ops (track_spec files) ops (track_abs db)) \<and>
    track_abs (snd (run_ops track_exec ops db)) = snd (run_ops (track_spec files) ops (track_abs db)) \<and>
    tracks_inv files (snd (run_ops track_exec ops db))"
  by (rule pt.run_refines_when [OF assms])

definition example_playlists :: playlist_db where
  "example_playlists = \<lparr>pd_tracks = [], pd_playlists = [''p'' \<mapsto> empty_Playlist], pd_files = Map.empty, pd_videos = Map.empty,
     pd_covers = []\<rparr>"

definition example_track_ops :: "track_op list" where
  "example_track_ops = [OpAdd ''p'' [''a'', ''b'', ''c''], OpReorder ''p'' 1 3, OpDelete ''p'' [''1'']]"

theorem playlist_tracks_refine_witness:
  "track_entries ''p'' (pd_tracks (snd (run_ops track_exec example_track_ops example_playlists))) =
     [music_entry ''c'', music_entry ''a'']"
proof -
  let ?spec = "track_spec {}" and ?a = "[''p'' \<mapsto> ([] :: entry list)]"
  have abs: "track_abs example_playlists = ?a"
    by (auto simp: fun_eq_iff track_abs_def example_playlists_def track_entries_def tracks_of_def)
  have inv: "tracks_inv {} example_playlists"
    by (auto simp: tracks_inv_def db_ok_def tracks_ok_def represents_def track_entries_def tracks_of_def counted_def
        example_playlists_def empty_Playlist_def)
  have atoi: "atoi ''1'' = Some 1"
    by (simp add: atoi_def parse_int64_def parse_uint_def digit_value_def range_int64_def in_int64_def)
  have move: "slice_Move [x, y, z] 0 2 = Some [y, z, x]" for x y z :: entry
    by (simp add: slice_Move_def slice_Remove_def slice_Insert_def remove_nth_def numeral_2_eq_2)
  have pre: "run_pre track_pre ?spec example_track_ops ?a"
    by (simp add: example_track_ops_def position_def)
  have run: "snd (run_ops ?spec example_track_ops ?a) = ?a(''p'' \<mapsto> [music_entry ''c'', music_entry ''a''])"
    by (simp add: example_track_ops_def move atoi nths_Cons)
  have "track_abs (snd (run_ops track_exec example_track_ops example_playlists)) ''p'' =
      Some [music_entry ''c'', music_entry ''a'']"
    using playlist_tracks_refine [OF inv pre [folded abs]] run abs by simp
  then show ?thesis by (simp add: track_abs_def split: if_splits)
qed

end
