(* ===== verification/Playlist_Service.thy ===== *)
theory Playlist_Service
  imports Playlist_Tracks Auth_Claims
begin

text \<open>
  \<open>core/playlists/playlists.go\<close>, \<open>rest_adapter.go\<close>, \<open>liked_music.go\<close>, the entries of \<open>hometube.go\<close> and the
  update of an imported playlist (\<open>import.go\<close>): who may read and change which playlist, over
  the rows of \<open>persistence/playlist_repository.go\<close>. An operation gets the user of the request and an
  environment: the users and libraries the database knows, the identifier the next row will get, the order of
  the rows of the playlist table, the tracks that the selections by album, artist and disc return, and the outcome of the image upload.
  The time a playlist was updated at is not kept.

  The theorems show that a user who is not an administrator can neither change nor find out about a
  playlist of someone else beyond what is public, and what the operations do for its owner.
\<close>

datatype pl_error =
    PlNotFound | PlNotAuthorized | RestNotFound | RestPermissionDenied
  | MixedPlaylist | PlaylistIDRequired | EntryIDRequired | VideoIDMismatch | InvalidVideo | UnsupportedSource
  | MediaFileNotFound | VideoNotFound | UploadFailed | MediaFileIDRequired | ManyLikedPlaylists | LikedIsSmart
  | PlSql sql_error

datatype track_query = ByAlbums "string list" | ByArtists "string list" | ByDiscs "(string \<times> string \<times> int) list"

record sv_env =
  se_users :: "string set"
  se_libraries :: "string \<Rightarrow> int set"
  se_newID :: string
  se_pids :: "string list"
  se_find :: "track_query \<Rightarrow> string list"
  se_SetImage :: "string \<Rightarrow> string \<Rightarrow> string \<Rightarrow> string option"
  se_RemoveImage :: "string \<Rightarrow> bool"

text \<open>Transactions roll back when their body fails.\<close>

definition in_tx :: "(playlist_db \<Rightarrow> (pl_error + 'a) \<times> playlist_db) \<Rightarrow> playlist_db \<Rightarrow> (pl_error + 'a) \<times> playlist_db" where
  "in_tx act db = (case act db of (Inl e, _) \<Rightarrow> (Inl e, db) | (Inr x, db') \<Rightarrow> (Inr x, db'))"

definition returning :: "'a \<Rightarrow> sql_error option \<times> playlist_db \<Rightarrow> (pl_error + 'a) \<times> playlist_db" where
  "returning x r = (case r of (None, db) \<Rightarrow> (Inr x, db) | (Some e, db) \<Rightarrow> (Inl (PlSql e), db))"

definition counting :: "(sql_error option \<times> int) \<times> playlist_db \<Rightarrow> (pl_error + int) \<times> playlist_db" where
  "counting r = (case r of ((None, n), db) \<Rightarrow> (Inr n, db) | ((Some e, n), db) \<Rightarrow> (Inl (PlSql e), db))"

subsection \<open>The repository\<close>

definition userFilter :: "User \<Rightarrow> Playlist \<Rightarrow> bool" where
  "userFilter u pls \<longleftrightarrow> usr_IsAdmin u \<or> pl_Public pls \<or> pl_OwnerID pls = usr_ID u"

definition hasVideos :: "string \<Rightarrow> playlist_db \<Rightarrow> bool" where
  "hasVideos pid db \<longleftrightarrow> list_ex (\<lambda>r. ptr_source r = ''hometube'') (tracks_of pid (pd_tracks db))"

definition Get_playlist :: "sv_env \<Rightarrow> User \<Rightarrow> string \<Rightarrow> playlist_db \<Rightarrow> pl_error + Playlist" where
  "Get_playlist env u pid db =
     (case pd_playlists db pid of
        None \<Rightarrow> Inl PlNotFound
      | Some pls \<Rightarrow>
          if pl_OwnerID pls \<in> se_users env \<and> userFilter u pls then Inr (pls\<lparr>pl_ID := pid, pl_Tracks := [], pl_HasVideos := hasVideos pid db\<rparr>)
          else Inl PlNotFound)"

text \<open>The columns that \<open>put\<close> writes: tracks and videos are not columns, and the rules are left out of the
  statement unless the playlist is smart (\<open>PostMapArgs\<close>).\<close>

definition row_of :: "Criteria option \<Rightarrow> string \<Rightarrow> Playlist \<Rightarrow> Playlist" where
  "row_of rules0 pid p =
     p\<lparr>pl_ID := pid, pl_Tracks := [], pl_HasVideos := False, pl_Rules := (if IsSmartPlaylist p then pl_Rules p else rules0)\<rparr>"

definition insert_row :: "sv_env \<Rightarrow> string \<Rightarrow> Playlist \<Rightarrow> playlist_db \<Rightarrow> (pl_error + string) \<times> playlist_db" where
  "insert_row env pid p db =
     (if pid \<in> dom (pd_playlists db) then (Inl (PlSql UniqueViolation), db)
      else if pl_OwnerID p \<notin> se_users env then (Inl (PlSql ForeignKeyViolation), db)
      else (Inr pid, db\<lparr>pd_playlists := (pd_playlists db)(pid \<mapsto> row_of None pid p)\<rparr>))"

definition put_row :: "sv_env \<Rightarrow> string \<Rightarrow> Playlist \<Rightarrow> playlist_db \<Rightarrow> (pl_error + string) \<times> playlist_db" where
  "put_row env pid p db =
     (if pid = [] then insert_row env (se_newID env) p db
      else
        (case pd_playlists db pid of
           None \<Rightarrow> insert_row env pid p db
         | Some old \<Rightarrow>
             if pl_OwnerID p \<notin> se_users env then (Inl (PlSql ForeignKeyViolation), db)
             else (Inr pid, db\<lparr>pd_playlists := (pd_playlists db)(pid \<mapsto> row_of (pl_Rules old) pid p)\<rparr>)))"

text \<open>A partial update; its callers only name the two flags.\<close>

definition set_column :: "Playlist \<Rightarrow> string \<Rightarrow> Playlist \<Rightarrow> Playlist" where
  "set_column p col old =
     (if col = ''public'' then old\<lparr>pl_Public := pl_Public p\<rparr>
      else if col = ''sync'' then old\<lparr>pl_Sync := pl_Sync p\<rparr>
      else old)"

definition put_columns :: "sv_env \<Rightarrow> Playlist \<Rightarrow> string list \<Rightarrow> playlist_db \<Rightarrow> (pl_error + string) \<times> playlist_db" where
  "put_columns env p cols db =
     (if pl_ID p = [] then (Inl PlaylistIDRequired, db)
      else
        (case pd_playlists db (pl_ID p) of
           None \<Rightarrow> insert_row env (pl_ID p) p db
         | Some old \<Rightarrow> (Inr (pl_ID p), db\<lparr>pd_playlists := (pd_playlists db)(pl_ID p \<mapsto> fold (set_column p) cols old)\<rparr>)))"

definition replaces_mixed :: "sv_env \<Rightarrow> User \<Rightarrow> Playlist \<Rightarrow> playlist_db \<Rightarrow> bool" where
  "replaces_mixed env u p db \<longleftrightarrow> pl_Tracks p \<noteq> [] \<and> pl_ID p \<noteq> [] \<and>
     (case Get_playlist env u (pl_ID p) db of Inr existing \<Rightarrow> pl_HasVideos existing | Inl _ \<Rightarrow> False)"

definition after_put :: "Playlist \<Rightarrow> string \<Rightarrow> playlist_db \<Rightarrow> (pl_error + string) \<times> playlist_db" where
  "after_put p pid db =
     (if IsSmartPlaylist p then (Inr pid, db)
      else if pl_Tracks p \<noteq> [] then returning pid (updatePlaylist pid (map mf_ID (MediaFiles p)) db)
      else if pl_ID p = [] then returning pid (and_then (enqueueCoverRebuild pid) (refreshCounters pid) db)
      else returning pid (refreshCounters pid db))"

definition Put_playlist :: "sv_env \<Rightarrow> User \<Rightarrow> Playlist \<Rightarrow> playlist_db \<Rightarrow> (pl_error + string) \<times> playlist_db" where
  "Put_playlist env u p db =
     (if replaces_mixed env u p db then (Inl MixedPlaylist, db)
      else
        (case put_row env (pl_ID p) p db of
           (Inl e, db1) \<Rightarrow> (Inl e, db1)
         | (Inr pid, db1) \<Rightarrow> after_put p pid db1))"

text \<open>Deleting a row deletes its tracks (\<open>ON DELETE CASCADE\<close>).\<close>

definition Delete_row :: "User \<Rightarrow> string \<Rightarrow> playlist_db \<Rightarrow> playlist_db" where
  "Delete_row u pid db =
     (case pd_playlists db pid of
        None \<Rightarrow> db
      | Some pls \<Rightarrow>
          if userFilter u pls
          then db\<lparr>pd_playlists := (pd_playlists db)(pid := None), pd_tracks := filter (\<lambda>r. ptr_playlist r \<noteq> pid) (pd_tracks db)\<rparr>
          else db)"

subsection \<open>The service\<close>

definition checkWritable :: "sv_env \<Rightarrow> User \<Rightarrow> string \<Rightarrow> playlist_db \<Rightarrow> pl_error + Playlist" where
  "checkWritable env u pid db =
     (case Get_playlist env u pid db of
        Inl e \<Rightarrow> Inl e
      | Inr pls \<Rightarrow> if \<not> usr_IsAdmin u \<and> pl_OwnerID pls \<noteq> usr_ID u then Inl PlNotAuthorized else Inr pls)"

definition checkTracksEditable :: "sv_env \<Rightarrow> User \<Rightarrow> string \<Rightarrow> playlist_db \<Rightarrow> pl_error + Playlist" where
  "checkTracksEditable env u pid db =
     (case checkWritable env u pid db of
        Inl e \<Rightarrow> Inl e
      | Inr pls \<Rightarrow> if IsSmartPlaylist pls then Inl PlNotAuthorized else Inr pls)"

definition Create_playlist :: "sv_env \<Rightarrow> User \<Rightarrow> string \<Rightarrow> string \<Rightarrow> string list \<Rightarrow> playlist_db \<Rightarrow> (pl_error + string) \<times> playlist_db" where
  "Create_playlist env u playlistId name ids =
     in_tx (\<lambda>db.
       (if playlistId \<noteq> [] then
          (case Get_playlist env u playlistId db of
             Inl e \<Rightarrow> (Inl e, db)
           | Inr pls \<Rightarrow>
               if pl_HasVideos pls then (Inl MixedPlaylist, db)
               else if IsSmartPlaylist pls then (Inl PlNotAuthorized, db)
               else if \<not> usr_IsAdmin u \<and> pl_OwnerID pls \<noteq> usr_ID u then (Inl PlNotAuthorized, db)
               else Put_playlist env u (AddMediaFilesByID ids (pls\<lparr>pl_Tracks := []\<rparr>)) db)
        else Put_playlist env u (AddMediaFilesByID ids (empty_Playlist\<lparr>pl_Name := name, pl_OwnerID := usr_ID u\<rparr>)) db))"

definition Delete_playlist :: "sv_env \<Rightarrow> User \<Rightarrow> string \<Rightarrow> playlist_db \<Rightarrow> (pl_error + unit) \<times> playlist_db" where
  "Delete_playlist env u pid db =
     (case checkWritable env u pid db of
        Inl e \<Rightarrow> (Inl e, db)
      | Inr _ \<Rightarrow> (Inr (), Delete_row u pid db))"

definition with_metadata :: "string option \<Rightarrow> string option \<Rightarrow> bool option \<Rightarrow> Playlist \<Rightarrow> Playlist" where
  "with_metadata name comment public pls =
     (let p1 = (case name of None \<Rightarrow> pls | Some n \<Rightarrow> pls\<lparr>pl_Name := n\<rparr>);
          p2 = (case comment of None \<Rightarrow> p1 | Some c \<Rightarrow> p1\<lparr>pl_Comment := c\<rparr>)
      in case public of None \<Rightarrow> p2 | Some b \<Rightarrow> p2\<lparr>pl_Public := b\<rparr>)"

definition updateMetadata :: "sv_env \<Rightarrow> User \<Rightarrow> Playlist \<Rightarrow> string option \<Rightarrow> string option \<Rightarrow> bool option \<Rightarrow>
    playlist_db \<Rightarrow> (pl_error + string) \<times> playlist_db" where
  "updateMetadata env u pls name comment public db = Put_playlist env u (with_metadata name comment public pls) db"

definition update_body :: "sv_env \<Rightarrow> User \<Rightarrow> string \<Rightarrow> Playlist \<Rightarrow> string option \<Rightarrow> string option \<Rightarrow> bool option \<Rightarrow>
    string list \<Rightarrow> int list \<Rightarrow> playlist_db \<Rightarrow> (pl_error + unit) \<times> playlist_db" where
  "update_body env u pid pls name comment public idsToAdd idxToRemove db =
     (let add = (\<lambda>db. if idsToAdd \<noteq> [] then counting (Add_tracks pid idsToAdd db) else (Inr 0, db));
          save = (\<lambda>db. case updateMetadata env u pls name comment public db of
                     (Inl e, db') \<Rightarrow> (Inl e, db') | (Inr _, db') \<Rightarrow> (Inr (), db'))
      in if idxToRemove \<noteq> [] then
           (case returning () (Delete_tracks pid (map (\<lambda>idx. itoa (idx + 1)) idxToRemove) db) of
              (Inl e, db1) \<Rightarrow> (Inl e, db1)
            | (Inr _, db1) \<Rightarrow>
                (case add db1 of (Inl e, db2) \<Rightarrow> (Inl e, db2) | (Inr _, db2) \<Rightarrow> save db2))
         else
           (case add db of
              (Inl e, db1) \<Rightarrow> (Inl e, db1)
            | (Inr _, db1) \<Rightarrow>
                if name = None \<and> comment = None \<and> public = None then (Inr (), db1) else save db1))"

definition Update_playlist :: "sv_env \<Rightarrow> User \<Rightarrow> string \<Rightarrow> string option \<Rightarrow> string option \<Rightarrow> bool option \<Rightarrow>
    string list \<Rightarrow> int list \<Rightarrow> playlist_db \<Rightarrow> (pl_error + unit) \<times> playlist_db" where
  "Update_playlist env u pid name comment public idsToAdd idxToRemove db =
     (case (if idsToAdd \<noteq> [] \<or> idxToRemove \<noteq> [] then checkTracksEditable env u pid db else checkWritable env u pid db) of
        Inl e \<Rightarrow> (Inl e, db)
      | Inr pls \<Rightarrow> in_tx (update_body env u pid pls name comment public idsToAdd idxToRemove) db)"

definition if_editable :: "sv_env \<Rightarrow> User \<Rightarrow> string \<Rightarrow> (playlist_db \<Rightarrow> (pl_error + 'a) \<times> playlist_db) \<Rightarrow>
    playlist_db \<Rightarrow> (pl_error + 'a) \<times> playlist_db" where
  "if_editable env u pid act db = (case checkTracksEditable env u pid db of Inl e \<Rightarrow> (Inl e, db) | Inr _ \<Rightarrow> act db)"

definition AddTracks :: "sv_env \<Rightarrow> User \<Rightarrow> string \<Rightarrow> string list \<Rightarrow> playlist_db \<Rightarrow> (pl_error + int) \<times> playlist_db" where
  "AddTracks env u pid ids = if_editable env u pid (\<lambda>db. counting (Add_tracks pid ids db))"

text \<open>\<open>AddAlbums\<close>, \<open>AddArtists\<close> and \<open>AddDiscs\<close>.\<close>

definition AddFound :: "sv_env \<Rightarrow> User \<Rightarrow> string \<Rightarrow> track_query \<Rightarrow> playlist_db \<Rightarrow> (pl_error + int) \<times> playlist_db" where
  "AddFound env u pid q =
     if_editable env u pid
       (\<lambda>db. if q = ByDiscs [] then (Inr 0, db) else counting (Add_tracks pid (se_find env q) db))"

definition RemoveTracks_service :: "sv_env \<Rightarrow> User \<Rightarrow> string \<Rightarrow> string list \<Rightarrow> playlist_db \<Rightarrow> (pl_error + unit) \<times> playlist_db" where
  "RemoveTracks_service env u pid ids =
     if_editable env u pid (in_tx (\<lambda>db. returning () (Delete_tracks pid ids db)))"

definition ReorderTrack :: "sv_env \<Rightarrow> User \<Rightarrow> string \<Rightarrow> int \<Rightarrow> int \<Rightarrow> playlist_db \<Rightarrow> (pl_error + unit) \<times> playlist_db" where
  "ReorderTrack env u pid pos newPos =
     if_editable env u pid (in_tx (\<lambda>db. returning () (Reorder pid pos newPos db)))"

definition media_visible :: "sv_env \<Rightarrow> User \<Rightarrow> string \<Rightarrow> playlist_db \<Rightarrow> bool" where
  "media_visible env u mid db =
     (case pd_files db mid of
        None \<Rightarrow> False
      | Some mf \<Rightarrow> usr_IsAdmin u \<or> mf_LibraryID mf \<in> se_libraries env (usr_ID u))"

definition put_video :: "HomeTubeVideo \<Rightarrow> playlist_db \<Rightarrow> (pl_error + unit) \<times> playlist_db" where
  "put_video v db =
     (if trim_space (hv_ID v) = [] \<or> length (hv_ID v) > 255 \<or> trim_space (hv_Title v) = [] \<or> hv_DurationSeconds v < 0
      then (Inl InvalidVideo, db)
      else (Inr (), db\<lparr>pd_videos := (pd_videos db)(hv_ID v \<mapsto> hv_DurationSeconds v)\<rparr>))"

definition check_entry :: "sv_env \<Rightarrow> User \<Rightarrow> PlaylistEntry \<Rightarrow> playlist_db \<Rightarrow> (pl_error + unit) \<times> playlist_db" where
  "check_entry env u e db =
     (if pe_ID e = [] then (Inl EntryIDRequired, db)
      else if pe_Source e = [] \<or> pe_Source e = ''music'' then
        if media_visible env u (pe_ID e) db then (Inr (), db) else (Inl MediaFileNotFound, db)
      else if pe_Source e = ''hometube'' then
        (case (case pe_Video e of
                 None \<Rightarrow> (Inr (), db)
               | Some v \<Rightarrow> if hv_ID v \<noteq> pe_ID e then (Inl VideoIDMismatch, db) else put_video v db) of
           (Inl err, db1) \<Rightarrow> (Inl err, db1)
         | (Inr _, db1) \<Rightarrow> if pe_ID e \<in> dom (pd_videos db1) then (Inr (), db1) else (Inl VideoNotFound, db1))
      else (Inl UnsupportedSource, db))"

fun check_entries :: "sv_env \<Rightarrow> User \<Rightarrow> PlaylistEntry list \<Rightarrow> playlist_db \<Rightarrow> (pl_error + unit) \<times> playlist_db" where
  "check_entries env u [] db = (Inr (), db)"
| "check_entries env u (e # es) db =
     (case check_entry env u e db of (Inl err, db1) \<Rightarrow> (Inl err, db1) | (Inr _, db1) \<Rightarrow> check_entries env u es db1)"

definition AddEntries_service :: "sv_env \<Rightarrow> User \<Rightarrow> string \<Rightarrow> PlaylistEntry list \<Rightarrow> playlist_db \<Rightarrow> (pl_error + int) \<times> playlist_db" where
  "AddEntries_service env u pid es =
     if_editable env u pid (in_tx (\<lambda>db.
       (case check_entries env u es db of
          (Inl err, db1) \<Rightarrow> (Inl err, db1)
        | (Inr _, db1) \<Rightarrow> counting (AddEntries pid es db1))))"

text \<open>Storing the playlist and asking for its artwork to be refreshed.\<close>

definition put_image :: "sv_env \<Rightarrow> User \<Rightarrow> Playlist \<Rightarrow> playlist_db \<Rightarrow> (pl_error + string) \<times> playlist_db" where
  "put_image env u pls db =
     (case Put_playlist env u pls db of
        (Inl e, db1) \<Rightarrow> (Inl e, db1)
      | (Inr pid, db1) \<Rightarrow> (Inr pid, snd (enqueueCoverRebuild (pl_ID pls) db1)))"

definition SetImage :: "sv_env \<Rightarrow> User \<Rightarrow> string \<Rightarrow> playlist_db \<Rightarrow> (pl_error + string) \<times> playlist_db" where
  "SetImage env u pid db =
     (case checkWritable env u pid db of
        Inl e \<Rightarrow> (Inl e, db)
      | Inr pls \<Rightarrow>
          (case se_SetImage env (pl_ID pls) (pl_Name pls) (pl_UploadedImage pls) of
             None \<Rightarrow> (Inl UploadFailed, db)
           | Some filename \<Rightarrow> put_image env u (pls\<lparr>pl_UploadedImage := filename\<rparr>) db))"

definition RemoveImage :: "sv_env \<Rightarrow> User \<Rightarrow> string \<Rightarrow> playlist_db \<Rightarrow> (pl_error + string) \<times> playlist_db" where
  "RemoveImage env u pid db =
     (case checkWritable env u pid db of
        Inl e \<Rightarrow> (Inl e, db)
      | Inr pls \<Rightarrow>
          if \<not> se_RemoveImage env (pl_UploadedImage pls) then (Inl UploadFailed, db)
          else put_image env u (pls\<lparr>pl_UploadedImage := []\<rparr>) db)"


subsection \<open>The REST adapter\<close>

definition sentFields :: "string list \<Rightarrow> string \<Rightarrow> bool" where
  "sentFields cols field \<longleftrightarrow> cols = [] \<or> to_lower field \<in> set (map to_lower cols)"

definition savePlaylist :: "sv_env \<Rightarrow> User \<Rightarrow> Playlist \<Rightarrow> playlist_db \<Rightarrow> (pl_error + string) \<times> playlist_db" where
  "savePlaylist env u pls db =
     Put_playlist env u (pls\<lparr>pl_OwnerID := usr_ID u, pl_ID := [], pl_Path := [], pl_Sync := False, pl_UploadedImage := [],
       pl_ExternalImageURL := [], pl_EvaluatedAt := None\<rparr>) db"

definition sync_changed :: "(string \<Rightarrow> bool) \<Rightarrow> Playlist \<Rightarrow> Playlist \<Rightarrow> bool" where
  "sync_changed sent current entity \<longleftrightarrow> sent ''sync'' \<and> pl_Path current \<noteq> [] \<and> pl_Sync current \<noteq> pl_Sync entity"

definition applyContentUpdate :: "sv_env \<Rightarrow> User \<Rightarrow> Playlist \<Rightarrow> Playlist \<Rightarrow> (string \<Rightarrow> bool) \<Rightarrow> bool \<Rightarrow> bool \<Rightarrow> bool \<Rightarrow> bool \<Rightarrow>
    playlist_db \<Rightarrow> (pl_error + string) \<times> playlist_db" where
  "applyContentUpdate env u current entity sent nameChanged commentChanged ownerChanged rulesChanged db =
     (let c1 = (if ownerChanged then current\<lparr>pl_OwnerID := pl_OwnerID entity\<rparr> else current);
          c2 = (if rulesChanged then c1\<lparr>pl_Rules := pl_Rules entity, pl_EvaluatedAt := None\<rparr> else c1);
          c3 = (if sync_changed sent c2 entity then c2\<lparr>pl_Sync := pl_Sync entity\<rparr> else c2)
      in updateMetadata env u c3
           (if nameChanged then Some (pl_Name entity) else None)
           (if commentChanged then Some (pl_Comment entity) else None)
           (if sent ''public'' then Some (pl_Public entity) else None) db)"

definition applyFlagsOnly :: "sv_env \<Rightarrow> Playlist \<Rightarrow> Playlist \<Rightarrow> (string \<Rightarrow> bool) \<Rightarrow>
    playlist_db \<Rightarrow> (pl_error + string) \<times> playlist_db" where
  "applyFlagsOnly env current entity sent db =
     (let (c1, cols1) = (if sync_changed sent current entity then (current\<lparr>pl_Sync := pl_Sync entity\<rparr>, [''sync'']) else (current, []));
          (c2, cols2) = (if sent ''public'' \<and> pl_Public c1 \<noteq> pl_Public entity
                         then (c1\<lparr>pl_Public := pl_Public entity\<rparr>, cols1 @ [''public'']) else (c1, cols1))
      in if cols2 = [] then (Inr (pl_ID c2), db) else put_columns env c2 cols2 db)"

definition rest_error :: "pl_error \<Rightarrow> pl_error" where
  "rest_error e = (if e = PlNotFound then RestNotFound else if e = PlNotAuthorized then RestPermissionDenied else e)"

definition updatePlaylistEntity :: "sv_env \<Rightarrow> User \<Rightarrow> string \<Rightarrow> Playlist \<Rightarrow> string list \<Rightarrow>
    playlist_db \<Rightarrow> (pl_error + string) \<times> playlist_db" where
  "updatePlaylistEntity env u pid entity cols db =
     (case checkWritable env u pid db of
        Inl e \<Rightarrow> (Inl (rest_error e), db)
      | Inr current \<Rightarrow>
          let sent = sentFields cols;
              ownerChanged = (sent ''ownerId'' \<and> pl_OwnerID entity \<noteq> [] \<and> pl_OwnerID entity \<noteq> pl_OwnerID current)
          in if \<not> usr_IsAdmin u \<and> ownerChanged then (Inl RestPermissionDenied, db)
             else
               let nameChanged = (sent ''name'' \<and> pl_Name entity \<noteq> pl_Name current);
                   commentChanged = (sent ''comment'' \<and> pl_Comment entity \<noteq> pl_Comment current);
                   rulesChanged = (sent ''rules'' \<and> pl_Rules current \<noteq> pl_Rules entity)
               in if nameChanged \<or> commentChanged \<or> ownerChanged \<or> rulesChanged
                  then applyContentUpdate env u current entity sent nameChanged commentChanged ownerChanged rulesChanged db
                  else applyFlagsOnly env current entity sent db)"

definition Delete_rest :: "sv_env \<Rightarrow> User \<Rightarrow> string \<Rightarrow> playlist_db \<Rightarrow> (pl_error + unit) \<times> playlist_db" where
  "Delete_rest env u pid db =
     (case Delete_playlist env u pid db of (Inl e, db') \<Rightarrow> (Inl (rest_error e), db') | (Inr x, db') \<Rightarrow> (Inr x, db'))"

subsection \<open>Liked music\<close>

definition LikedMusicPlaylistName :: string where
  "LikedMusicPlaylistName = ''liked music''"

definition liked_candidate :: "sv_env \<Rightarrow> User \<Rightarrow> playlist_db \<Rightarrow> string \<Rightarrow> Playlist option" where
  "liked_candidate env u db pid =
     (case Get_playlist env u pid db of
        Inl _ \<Rightarrow> None
      | Inr pls \<Rightarrow>
          if pl_Name pls = LikedMusicPlaylistName \<and> pl_OwnerID pls = usr_ID u \<and>
             equal_fold (trim_space (pl_Name pls)) LikedMusicPlaylistName
          then Some pls else None)"

definition findLikedMusicPlaylist :: "sv_env \<Rightarrow> User \<Rightarrow> playlist_db \<Rightarrow> pl_error + Playlist option" where
  "findLikedMusicPlaylist env u db =
     (case remdups (List.map_filter (liked_candidate env u db) (se_pids env)) of
        [] \<Rightarrow> Inr None
      | [pls] \<Rightarrow> Inr (Some pls)
      | _ \<Rightarrow> Inl ManyLikedPlaylists)"

definition create_liked :: "sv_env \<Rightarrow> User \<Rightarrow> playlist_db \<Rightarrow> (pl_error + Playlist) \<times> playlist_db" where
  "create_liked env u db =
     (let pls = empty_Playlist\<lparr>pl_Name := LikedMusicPlaylistName, pl_OwnerID := usr_ID u, pl_Public := False\<rparr>
      in case Put_playlist env u pls db of
           (Inl e, db1) \<Rightarrow> (Inl e, db1)
         | (Inr pid, db1) \<Rightarrow> (Inr (pls\<lparr>pl_ID := pid\<rparr>), db1))"

definition make_private :: "sv_env \<Rightarrow> Playlist \<Rightarrow> playlist_db \<Rightarrow> (pl_error + string) \<times> playlist_db" where
  "make_private env pls db =
     (if pl_Public pls then put_columns env (pls\<lparr>pl_Public := False\<rparr>) [''public''] db else (Inr (pl_ID pls), db))"

definition track_visible :: "sv_env \<Rightarrow> User \<Rightarrow> playlist_db \<Rightarrow> pt_row \<Rightarrow> bool" where
  "track_visible env u db r \<longleftrightarrow> usr_IsAdmin u \<or> ptr_source r = ''hometube'' \<or> media_visible env u (ptr_media r) db"

definition set_liked :: "sv_env \<Rightarrow> User \<Rightarrow> string \<Rightarrow> string \<Rightarrow> bool \<Rightarrow> playlist_db \<Rightarrow> (pl_error + string) \<times> playlist_db" where
  "set_liked env u pid mid liked db =
     (let rows = tracks_of pid (pd_tracks db)
      in if liked then
           if mid \<in> set (map ptr_media (filter (\<lambda>r. media_visible env u (ptr_media r) db) rows)) then (Inr pid, db)
           else
             (case counting (Add_tracks pid [mid] db) of (Inl e, db1) \<Rightarrow> (Inl e, db1) | (Inr _, db1) \<Rightarrow> (Inr pid, db1))
         else
           let positions = map (itoa \<circ> ptr_id) (filter (\<lambda>r. track_visible env u db r \<and> ptr_media r = mid) rows)
           in if positions = [] then (Inr pid, db) else returning pid (Delete_tracks pid positions db))"

definition sync_liked :: "sv_env \<Rightarrow> User \<Rightarrow> string \<Rightarrow> bool \<Rightarrow> Playlist \<Rightarrow> playlist_db \<Rightarrow> (pl_error + string) \<times> playlist_db" where
  "sync_liked env u mid liked pls db =
     (if IsSmartPlaylist pls then (Inl LikedIsSmart, db)
      else
        (case make_private env pls db of
           (Inl e, db1) \<Rightarrow> (Inl e, db1)
         | (Inr _, db1) \<Rightarrow> set_liked env u (pl_ID pls) mid liked db1))"

definition SyncLikedMusic :: "sv_env \<Rightarrow> User \<Rightarrow> string \<Rightarrow> bool \<Rightarrow> playlist_db \<Rightarrow> (pl_error + string) \<times> playlist_db" where
  "SyncLikedMusic env u mid liked db =
     (if trim_space mid = [] then (Inl MediaFileIDRequired, db)
      else if trim_space (usr_ID u) = [] then (Inl PlNotAuthorized, db)
      else
        (case findLikedMusicPlaylist env u db of
           Inl e \<Rightarrow> (Inl e, db)
         | Inr (Some pls) \<Rightarrow> sync_liked env u mid liked pls db
         | Inr None \<Rightarrow>
             if \<not> liked then (Inr [], db)
             else
               (case create_liked env u db of
                  (Inl e, db1) \<Rightarrow> (Inl e, db1)
                | (Inr pls, db1) \<Rightarrow> sync_liked env u mid liked pls db1)))"

subsection \<open>Imported playlists\<close>

text \<open>\<open>updatePlaylist\<close> of \<open>import.go\<close>: the playlist with the path of the file, under either normal form of the
  path, is replaced unless it is no longer synchronised.\<close>

definition FindByPath :: "sv_env \<Rightarrow> string \<Rightarrow> playlist_db \<Rightarrow> Playlist option" where
  "FindByPath env path db =
     (case List.map_filter
            (\<lambda>pid. case pd_playlists db pid of
               None \<Rightarrow> None
             | Some pls \<Rightarrow> if pl_Path pls = path \<and> pl_OwnerID pls \<in> se_users env then Some (pls\<lparr>pl_ID := pid, pl_Tracks := []\<rparr>) else None)
            (se_pids env) of
        [] \<Rightarrow> None
      | pls # _ \<Rightarrow> Some pls)"

definition findByPathNormalized :: "(string \<Rightarrow> string) \<Rightarrow> (string \<Rightarrow> string) \<Rightarrow> sv_env \<Rightarrow> string \<Rightarrow> playlist_db \<Rightarrow> Playlist option" where
  "findByPathNormalized nfc nfd env path db =
     (case FindByPath env path db of
        Some pls \<Rightarrow> Some pls
      | None \<Rightarrow>
          let altPath = (if nfd path = path then nfc path else nfd path)
          in if altPath \<noteq> path then FindByPath env altPath db else None)"

definition merge_imported :: "Playlist \<Rightarrow> Playlist \<Rightarrow> Playlist" where
  "merge_imported pls newPls =
     newPls\<lparr>pl_ID := pl_ID pls, pl_Name := pl_Name pls, pl_Comment := pl_Comment pls, pl_OwnerID := pl_OwnerID pls,
       pl_Public := pl_Public pls, pl_UploadedImage := pl_UploadedImage pls, pl_EvaluatedAt := None\<rparr>"

definition updateImported :: "(string \<Rightarrow> string) \<Rightarrow> (string \<Rightarrow> string) \<Rightarrow> bool \<Rightarrow> sv_env \<Rightarrow> User \<Rightarrow> Playlist \<Rightarrow> bool \<Rightarrow>
    playlist_db \<Rightarrow> (pl_error + string) \<times> playlist_db" where
  "updateImported nfc nfd defaultPublic env u newPls forceSync db =
     (case findByPathNormalized nfc nfd env (pl_Path newPls) db of
        Some pls \<Rightarrow>
          if \<not> pl_Sync pls \<and> \<not> forceSync then (Inr [], db)
          else Put_playlist env u (merge_imported pls newPls) db
      | None \<Rightarrow>
          let p = newPls\<lparr>pl_OwnerID := usr_ID u\<rparr>
          in Put_playlist env u (if IsSmartPlaylist p then p else p\<lparr>pl_Public := defaultPublic\<rparr>) db)"


subsection \<open>Operations are local\<close>

definition touches :: "string \<Rightarrow> playlist_db \<Rightarrow> playlist_db \<Rightarrow> bool" where
  "touches pid db db' \<longleftrightarrow>
     (\<forall>q. q \<noteq> pid \<longrightarrow> tracks_of q (pd_tracks db') = tracks_of q (pd_tracks db) \<and> pd_playlists db' q = pd_playlists db q)"

lemma touches_refl [simp]: "touches pid db db"
  by (simp add: touches_def)

lemma touches_trans: "touches pid db db' \<Longrightarrow> touches pid db' db'' \<Longrightarrow> touches pid db db''"
  by (simp add: touches_def)

lemma touches_and_then:
  "(\<And>db. touches pid db (snd (f db))) \<Longrightarrow> (\<And>db. touches pid db (snd (g db))) \<Longrightarrow> touches pid db (snd (and_then f g db))"
  by (auto simp: and_then_def split: prod.splits option.splits) (metis snd_conv touches_trans)+

lemma update_rows_other:
  assumes "update_rows p f visited t = Inr t'" and "\<And>r. p r \<Longrightarrow> ptr_playlist r = pid \<and> ptr_playlist (f r) = pid" and "q \<noteq> pid"
  shows "tracks_of q t' = tracks_of q (visited @ t)"
  using assms by (induction t arbitrary: visited) (auto simp: tracks_of_def split: if_splits)

lemma touches_update_ids: "touches pid db (snd (exec_tracks (update_ids pid q h) db))"
proof (cases "update_ids pid q h (pd_tracks db)")
  case (Inr t)
  have "tracks_of q' t = tracks_of q' (pd_tracks db)" if "q' \<noteq> pid" for q'
    using update_rows_other [OF Inr [unfolded update_ids_def] _ that] by simp
  with Inr show ?thesis by (simp add: touches_def)
qed (simp add: exec_tracks_def)

lemma touches_row_number: "touches pid db (snd (exec_tracks (\<lambda>t. update_ids pid q (row_number pid t) t) db))"
  using touches_update_ids [of pid db q "row_number pid (pd_tracks db)"] by (simp add: exec_tracks_def)

lemma touches_delete:
  "(\<And>r. p r \<Longrightarrow> ptr_playlist r = pid) \<Longrightarrow> touches pid db (snd (delete_rows p db))"
  by (auto simp: touches_def delete_rows_def tracks_of_def intro!: filter_cong)

lemma insert_rows_other:
  assumes "insert_rows playlist_exists rs t = Inr t'" and "\<forall>r \<in> set rs. ptr_playlist r = pid" and "q \<noteq> pid"
  shows "tracks_of q t' = tracks_of q t"
  using assms by (induction rs arbitrary: t) (auto simp: tracks_of_def split: if_splits)

lemma touches_insert:
  assumes "\<forall>r \<in> set rs. ptr_playlist r = pid"
  shows "touches pid db (snd (insert_tracks rs db))"
proof (cases "insert_rows (\<lambda>pid. pid \<in> dom (pd_playlists db)) rs (pd_tracks db)")
  case (Inr t)
  with insert_rows_other [OF Inr assms] show ?thesis by (simp add: touches_def insert_tracks_def)
qed (simp add: insert_tracks_def exec_tracks_def)

lemma touches_finish [simp]:
  "touches pid db (snd (refreshCounters pid db))" "touches pid db (snd (enqueueCoverRebuild pid' db))"
  by (simp_all add: touches_def refreshCounters_def enqueueCoverRebuild_def Let_def)

lemma playlist_of_numbered:
  "(\<And>i x. ptr_playlist (f i x) = pid) \<Longrightarrow> \<forall>r \<in> set (number_from f k xs). ptr_playlist r = pid"
  by (induction xs arbitrary: k) simp_all

lemma touches_add_chunks: "touches pid db (snd (add_chunks pid k chunks db))"
proof (induction chunks arbitrary: k db)
  case (Cons c cs)
  have "touches pid db (snd (insert_tracks (number_from (music_row pid) k c) db))" for db
    by (intro touches_insert playlist_of_numbered) (simp add: music_row_def)
  with Cons show ?case by (simp add: touches_and_then)
qed simp

lemma touches_add_entry_rows:
  "\<forall>r \<in> set rs. ptr_playlist r = pid \<Longrightarrow> touches pid db (snd (add_entry_rows rs db))"
  by (induction rs arbitrary: db) (simp_all add: touches_and_then touches_insert)

lemma touches_addTracks: "touches pid db (snd (addTracks pid k ids db))"
  unfolding addTracks_def by (intro touches_and_then touches_add_chunks touches_finish)

lemma touches_renumber: "touches pid db (snd (renumber pid db))"
  unfolding renumber_def by (intro touches_and_then touches_update_ids touches_row_number touches_finish)

lemma touches_tracks:
  "touches pid db (snd (updatePlaylist pid ids db))" "touches pid db (snd (Delete_tracks pid ids' db))"
  "touches pid db (snd (Add_tracks pid ids db))" "touches pid db (snd (AddEntries pid es db))"
  "touches pid db (snd (Reorder pid pos newPos db))"
proof -
  show "touches pid db (snd (updatePlaylist pid ids db))"
    unfolding updatePlaylist_def by (intro touches_and_then touches_delete touches_addTracks)
  show "touches pid db (snd (Delete_tracks pid ids' db))"
    unfolding Delete_tracks_def by (intro touches_and_then touches_delete touches_renumber) simp
  show "touches pid db (snd (Add_tracks pid ids db))"
    using touches_addTracks by (auto simp: Add_tracks_def split: sum.splits prod.splits) (metis snd_conv)+
  have rows: "touches pid db (snd (add_entry_rows (number_from (entry_row pid) k es) db))" for k
    by (intro touches_add_entry_rows playlist_of_numbered) (simp add: entry_row_def Let_def)
  have fin: "touches pid db1 (snd (and_then (enqueueCoverRebuild pid) (refreshCounters pid) db1))" for db1
    by (intro touches_and_then touches_finish)
  show "touches pid db (snd (AddEntries pid es db))"
    unfolding AddEntries_def using rows fin
    by (auto split: sum.splits prod.splits option.splits) (metis snd_conv touches_trans)+
  show "touches pid db (snd (Reorder pid pos newPos db))"
    unfolding Reorder_def by (auto intro!: touches_and_then touches_update_ids)
qed

lemma snd_returning [simp]: "snd (returning x r) = snd r" "snd (counting c) = snd c"
  by (auto simp: returning_def counting_def split: prod.splits option.splits)


lemma touches_after_put: "touches pid db (snd (after_put p pid db))"
  by (auto simp: after_put_def intro: touches_tracks touches_and_then)

lemma touches_put_row:
  assumes "put_row env pid p db = (r, db')"
  shows "touches (if pid = [] then se_newID env else pid) db db'"
    "r = Inr pid' \<Longrightarrow> pid' = (if pid = [] then se_newID env else pid)"
    "r = Inl e \<Longrightarrow> db' = db"
    "r = Inr pid' \<Longrightarrow> pid = [] \<Longrightarrow> pd_playlists db (se_newID env) = None"
  using assms by (auto simp: put_row_def insert_row_def touches_def split: if_splits option.splits)

subsection \<open>Other people's playlists\<close>

definition keeps_foreign :: "User \<Rightarrow> playlist_db \<Rightarrow> playlist_db \<Rightarrow> bool" where
  "keeps_foreign u db db' \<longleftrightarrow>
     (\<forall>pid pls. pd_playlists db pid = Some pls \<and> pl_OwnerID pls \<noteq> usr_ID u \<longrightarrow>
        pd_playlists db' pid = Some pls \<and> tracks_of pid (pd_tracks db') = tracks_of pid (pd_tracks db))"

definition own_or_new :: "User \<Rightarrow> string \<Rightarrow> playlist_db \<Rightarrow> bool" where
  "own_or_new u pid db \<longleftrightarrow> (case pd_playlists db pid of None \<Rightarrow> True | Some pls \<Rightarrow> pl_OwnerID pls = usr_ID u)"

lemma keeps_foreign_refl [simp]: "keeps_foreign u db db"
  by (simp add: keeps_foreign_def)

lemma keeps_foreign_trans: "keeps_foreign u db db' \<Longrightarrow> keeps_foreign u db' db'' \<Longrightarrow> keeps_foreign u db db''"
  unfolding keeps_foreign_def by metis

lemma touches_keeps:
  assumes "touches pid db db'" and "own_or_new u pid db"
  shows "keeps_foreign u db db'"
proof -
  have "q \<noteq> pid" if "pd_playlists db q = Some pls" "pl_OwnerID pls \<noteq> usr_ID u" for q pls
    using assms(2) that by (auto simp: own_or_new_def)
  with assms(1) show ?thesis by (simp add: touches_def keeps_foreign_def)
qed

lemma in_tx_keeps: "keeps_foreign u db (snd (act db)) \<Longrightarrow> keeps_foreign u db (snd (in_tx act db))"
  by (auto simp: in_tx_def split: prod.splits sum.splits)

lemma in_tx_cases: "snd (in_tx act db) = db \<or> snd (in_tx act db) = snd (act db)"
  by (auto simp: in_tx_def split: prod.splits sum.splits)

lemma Get_playlist_Inr:
  assumes "Get_playlist env u pid db = Inr pls"
  obtains p where "pd_playlists db pid = Some p" "pls = p\<lparr>pl_ID := pid, pl_Tracks := [], pl_HasVideos := hasVideos pid db\<rparr>"
    "userFilter u p" "pl_OwnerID p \<in> se_users env"
  using assms by (auto simp: Get_playlist_def split: option.splits if_splits)

lemma checkWritable_own:
  assumes "checkWritable env u pid db = Inr pls" and "\<not> usr_IsAdmin u"
  shows "own_or_new u pid db" "pl_ID pls = pid" "pl_OwnerID pls = usr_ID u"
  using assms by (auto simp: checkWritable_def own_or_new_def split: sum.splits if_splits elim!: Get_playlist_Inr)

lemma checkTracksEditable_writable: "checkTracksEditable env u pid db = Inr pls \<Longrightarrow> checkWritable env u pid db = Inr pls"
  by (auto simp: checkTracksEditable_def split: sum.splits if_splits)

lemma Put_touches:
  assumes "pl_ID p \<noteq> []"
  shows "touches (pl_ID p) db (snd (Put_playlist env u p db))"
proof -
  obtain r db1 where e: "put_row env (pl_ID p) p db = (r, db1)" by (cases "put_row env (pl_ID p) p db")
  note t = touches_put_row [OF e]
  show ?thesis
  proof (cases r)
    case (Inr pid)
    then have "pid = pl_ID p" using t(2) assms by simp
    with t(1) assms touches_after_put [of pid db1 p] Inr e show ?thesis
      by (auto simp: Put_playlist_def intro: touches_trans)
  qed (use t(3) e in \<open>auto simp: Put_playlist_def\<close>)
qed

lemma Put_keeps:
  assumes "pl_ID p = [] \<or> own_or_new u (pl_ID p) db"
  shows "keeps_foreign u db (snd (Put_playlist env u' p db))"
proof (cases "pl_ID p = []")
  case False
  with assms show ?thesis using touches_keeps [OF Put_touches [OF False]] by blast
next
  case True
  obtain r db1 where e: "put_row env (pl_ID p) p db = (r, db1)" by (cases "put_row env (pl_ID p) p db")
  note t = touches_put_row [OF e]
  show ?thesis
  proof (cases r)
    case (Inr pid)
    then have pid: "pid = se_newID env" "pd_playlists db pid = None" using t(2,4) True by auto
    have "touches pid db (snd (after_put p pid db1))"
      using t(1) True pid(1) touches_after_put touches_trans by (metis (full_types))
    with pid(2) Inr e True show ?thesis
      by (auto simp: Put_playlist_def replaces_mixed_def own_or_new_def intro: touches_keeps)
  qed (use t(3) e in \<open>auto simp: Put_playlist_def\<close>)
qed

lemma Put_columns_keeps:
  assumes "own_or_new u (pl_ID p) db"
  shows "keeps_foreign u db (snd (put_columns env p cols db))"
proof -
  have "touches (pl_ID p) db (snd (put_columns env p cols db))"
    by (auto simp: put_columns_def insert_row_def touches_def split: option.splits)
  then show ?thesis using assms by (rule touches_keeps)
qed

lemma if_editable_keeps:
  assumes "\<not> usr_IsAdmin u" and "own_or_new u pid db \<Longrightarrow> keeps_foreign u db (snd (act db))"
  shows "keeps_foreign u db (snd (if_editable env u pid act db))"
  using assms checkWritable_own(1) [OF checkTracksEditable_writable, of env u pid db]
  by (auto simp: if_editable_def split: sum.splits)

lemma Create_keeps:
  assumes "\<not> usr_IsAdmin u"
  shows "keeps_foreign u db (snd (Create_playlist env u pid name ids db))"
proof -
  have new: "keeps_foreign u db (snd (Put_playlist env u (AddMediaFilesByID ids (empty_Playlist\<lparr>pl_Name := name, pl_OwnerID := usr_ID u\<rparr>)) db))"
    by (rule Put_keeps) (simp add: AddMediaFilesByID_def AddMediaFiles_def empty_Playlist_def)
  have old: "keeps_foreign u db (snd (Put_playlist env u (AddMediaFilesByID ids (pls\<lparr>pl_Tracks := []\<rparr>)) db))"
    if "Get_playlist env u pid db = Inr pls" "pl_OwnerID pls = usr_ID u" for pls
  proof (rule Put_keeps)
    show "pl_ID (AddMediaFilesByID ids (pls\<lparr>pl_Tracks := []\<rparr>)) = [] \<or>
      own_or_new u (pl_ID (AddMediaFilesByID ids (pls\<lparr>pl_Tracks := []\<rparr>))) db"
      using that by (auto simp: AddMediaFilesByID_def AddMediaFiles_def own_or_new_def elim!: Get_playlist_Inr)
  qed
  show ?thesis
    unfolding Create_playlist_def using assms new old
    by (intro in_tx_keeps) (auto split: sum.splits)
qed

lemma Delete_playlist_keeps:
  assumes "\<not> usr_IsAdmin u"
  shows "keeps_foreign u db (snd (Delete_playlist env u pid db))"
proof (cases "checkWritable env u pid db")
  case (Inr pls)
  have "touches pid db (Delete_row u pid db)"
    by (auto simp: Delete_row_def touches_def tracks_of_def intro!: filter_cong split: option.splits)
  with touches_keeps checkWritable_own(1) [OF Inr assms] Inr show ?thesis by (auto simp: Delete_playlist_def)
qed (simp add: Delete_playlist_def)


lemma update_body_touches:
  assumes "pl_ID pls = pid" and "pid \<noteq> []"
  shows "touches pid db (snd (update_body env u pid pls name comment public idsToAdd idxToRemove db))"
proof -
  have meta: "touches pid db (snd (updateMetadata env u pls n c b db))" for n c b db
    using Put_touches [of "with_metadata n c b pls" db env u] assms
    by (auto simp: updateMetadata_def with_metadata_def Let_def split: option.splits)
  have save: "touches pid db (snd (case updateMetadata env u pls n c b db of
      (Inl e, db') \<Rightarrow> (Inl e, db') | (Inr _, db') \<Rightarrow> (Inr (), db')))" for n c b db
    using meta [of db n c b] by (auto split: prod.splits sum.splits)
  have seq: "touches pid db (snd (case f db of (Inl e, db1) \<Rightarrow> (Inl e, db1) | (Inr x, db1) \<Rightarrow> g x db1))"
    if f: "\<And>db. touches pid db (snd (f db))" and g: "\<And>x db. touches pid db (snd (g x db))"
    for f :: "playlist_db \<Rightarrow> (pl_error + 'a) \<times> playlist_db" and g :: "'a \<Rightarrow> playlist_db \<Rightarrow> (pl_error + unit) \<times> playlist_db" and db
    using f [of db] touches_trans [OF f [of db] g] by (auto split: prod.splits sum.splits)
  show ?thesis
    unfolding update_body_def Let_def
    by (auto intro!: seq save simp: touches_tracks meta)
qed


lemma Update_keeps:
  assumes "\<not> usr_IsAdmin u" and "pid \<noteq> []"
  shows "keeps_foreign u db (snd (Update_playlist env u pid name comment public idsToAdd idxToRemove db))"
proof -
  let ?check = "if idsToAdd \<noteq> [] \<or> idxToRemove \<noteq> [] then checkTracksEditable env u pid db else checkWritable env u pid db"
  show ?thesis
  proof (cases ?check)
    case (Inr pls)
    then have w: "checkWritable env u pid db = Inr pls" using checkTracksEditable_writable by (auto split: if_splits)
    note own = checkWritable_own [OF w assms(1)]
    have "keeps_foreign u db (snd (in_tx (update_body env u pid pls name comment public idsToAdd idxToRemove) db))"
      by (intro in_tx_keeps touches_keeps [OF update_body_touches [OF own(2) assms(2)] own(1)])
    with Inr show ?thesis by (simp add: Update_playlist_def)
  qed (simp add: Update_playlist_def)
qed

lemma check_entries_same:
  "pd_playlists (snd (check_entries env u es db)) = pd_playlists db \<and> pd_tracks (snd (check_entries env u es db)) = pd_tracks db"
proof (induction es arbitrary: db)
  case (Cons e es)
  have "pd_playlists (snd (check_entry env u e db)) = pd_playlists db \<and> pd_tracks (snd (check_entry env u e db)) = pd_tracks db"
    by (auto simp: check_entry_def put_video_def split: option.splits sum.splits prod.splits if_splits)
  with Cons show ?case by (auto split: prod.splits sum.splits)
qed simp

lemma AddEntries_keeps:
  assumes "\<not> usr_IsAdmin u"
  shows "keeps_foreign u db (snd (AddEntries_service env u pid es db))"
  unfolding AddEntries_service_def
proof (rule if_editable_keeps [OF assms], rule in_tx_keeps)
  assume own: "own_or_new u pid db"
  obtain r db1 where e: "check_entries env u es db = (r, db1)" by (cases "check_entries env u es db")
  have same: "pd_playlists db1 = pd_playlists db" "pd_tracks db1 = pd_tracks db"
    using check_entries_same [of env u es db] e by simp_all
  have "touches pid db (snd (AddEntries pid es db1))"
    using touches_tracks(4) [of pid db1 es] same by (simp add: touches_def)
  moreover have "touches pid db db1" using same by (simp add: touches_def)
  ultimately show "keeps_foreign u db (snd (case check_entries env u es db of
      (Inl err, db1) \<Rightarrow> (Inl err, db1) | (Inr x, db1) \<Rightarrow> counting (AddEntries pid es db1)))"
    using own e by (auto intro: touches_keeps split: sum.splits)
qed

lemma image_keeps:
  assumes "checkWritable env u pid db = Inr pls" and "\<not> usr_IsAdmin u" and "pl_ID p = pl_ID pls"
  shows "keeps_foreign u db (snd (put_image env u p db))"
proof -
  have "keeps_foreign u db (snd (Put_playlist env u p db))"
    by (rule Put_keeps) (use checkWritable_own [OF assms(1,2)] assms(3) in simp)
  moreover have "keeps_foreign u d (snd (enqueueCoverRebuild q d))" for q d
    by (simp add: keeps_foreign_def enqueueCoverRebuild_def)
  ultimately show ?thesis
    by (auto simp: put_image_def split: prod.splits sum.splits) (metis snd_conv keeps_foreign_trans)
qed

lemma updateEntity_keeps:
  assumes "\<not> usr_IsAdmin u"
  shows "keeps_foreign u db (snd (updatePlaylistEntity env u pid entity cols db))"
proof (cases "checkWritable env u pid db")
  case (Inr current)
  note own = checkWritable_own [OF Inr assms]
  have content: "keeps_foreign u db (snd (applyContentUpdate env u current entity sent n c o1 r db))" for sent n c o1 r
    unfolding applyContentUpdate_def Let_def updateMetadata_def
    by (rule Put_keeps) (use own in \<open>auto simp: with_metadata_def Let_def\<close>)
  have flags: "keeps_foreign u db (snd (applyFlagsOnly env current entity sent db))" for sent
    using own by (auto simp: applyFlagsOnly_def Let_def intro!: Put_columns_keeps)
  show ?thesis using Inr content flags by (auto simp: updatePlaylistEntity_def Let_def)
qed (simp add: updatePlaylistEntity_def)


lemma create_liked_own:
  assumes "create_liked env u db = (Inr pls, db1)"
  shows "keeps_foreign u db db1" "own_or_new u (pl_ID pls) db1"
proof -
  let ?p = "empty_Playlist\<lparr>pl_Name := LikedMusicPlaylistName, pl_OwnerID := usr_ID u, pl_Public := False\<rparr>"
  have e: "Put_playlist env u ?p db = (Inr (pl_ID pls), db1)"
    using assms by (auto simp: create_liked_def Let_def split: prod.splits sum.splits)
  have "keeps_foreign u db (snd (Put_playlist env u ?p db))"
    by (rule Put_keeps) (simp add: empty_Playlist_def)
  with e show "keeps_foreign u db db1" by simp
  show "own_or_new u (pl_ID pls) db1"
    using e by (auto simp: Put_playlist_def put_row_def insert_row_def after_put_def row_of_def empty_Playlist_def own_or_new_def
        IsSmartPlaylist_def returning_def and_then_def enqueueCoverRebuild_def refreshCounters_def Let_def
        split: if_splits option.splits)
qed

lemma set_column_owner [simp]: "pl_OwnerID (set_column p col old) = pl_OwnerID old"
  by (simp add: set_column_def)

lemma fold_set_column_owner [simp]: "pl_OwnerID (fold (set_column p) cols old) = pl_OwnerID old"
  by (induction cols arbitrary: old) simp_all

lemma make_private_own:
  assumes "make_private env pls db = (r, db1)" and "own_or_new u (pl_ID pls) db" and "pl_OwnerID pls = usr_ID u"
  shows "keeps_foreign u db db1" "own_or_new u (pl_ID pls) db1"
proof -
  have "keeps_foreign u db (snd (make_private env pls db))"
    using assms(2) Put_columns_keeps [of u "pls\<lparr>pl_Public := False\<rparr>" db env] by (simp add: make_private_def)
  with assms(1) show "keeps_foreign u db db1" by simp
  show "own_or_new u (pl_ID pls) db1"
    using assms by (auto simp: make_private_def put_columns_def insert_row_def row_of_def own_or_new_def
        split: if_splits option.splits)
qed

lemma set_liked_touches: "touches pid db (snd (set_liked env u pid mid liked db))"
proof -
  have "touches pid db (snd (case counting (Add_tracks pid [mid] db) of (Inl e, db1) \<Rightarrow> (Inl e, db1) | (Inr _, db1) \<Rightarrow> (Inr pid, db1)))"
    using touches_tracks(3) [of pid db "[mid]"] snd_returning(2) [of "Add_tracks pid [mid] db"]
    by (cases "counting (Add_tracks pid [mid] db)") (simp split: sum.splits)
  then show ?thesis by (auto simp: set_liked_def Let_def touches_tracks)
qed

lemma findLiked_row:
  assumes "findLikedMusicPlaylist env u db = Inr (Some pls)"
  obtains p where "pd_playlists db (pl_ID pls) = Some p" "pl_Public pls = pl_Public p" "pl_OwnerID p = usr_ID u" "pl_OwnerID pls = usr_ID u"
proof -
  let ?found = "List.map_filter (liked_candidate env u db) (se_pids env)"
  have "remdups ?found = [pls]"
    using assms unfolding findLikedMusicPlaylist_def by (simp split: list.splits)
  then have "pls \<in> set ?found" by (metis list.set_intros(1) set_remdups)
  then obtain pid where c: "liked_candidate env u db pid = Some pls" by (auto simp: List.map_filter_def)
  then have g: "Get_playlist env u pid db = Inr pls" and own: "pl_OwnerID pls = usr_ID u"
    by (auto simp: liked_candidate_def split: sum.splits if_splits)
  from g show thesis by (rule Get_playlist_Inr) (use that own in simp)
qed

lemma findLiked_own:
  assumes "findLikedMusicPlaylist env u db = Inr (Some pls)"
  shows "own_or_new u (pl_ID pls) db" "pl_OwnerID pls = usr_ID u"
  by (rule findLiked_row [OF assms]; simp add: own_or_new_def)+

lemma SyncLikedMusic_keeps: "keeps_foreign u db (snd (SyncLikedMusic env u mid liked db))"
proof -
  have step: "keeps_foreign u db1 (snd (sync_liked env u mid liked pls db1))"
    if own: "own_or_new u (pl_ID pls) db1" "pl_OwnerID pls = usr_ID u" for pls db1
  proof -
    obtain r db2 where m: "make_private env pls db1 = (r, db2)" by (cases "make_private env pls db1")
    note p = make_private_own [OF m own]
    have "keeps_foreign u db1 (snd (set_liked env u (pl_ID pls) mid liked db2))"
      using keeps_foreign_trans [OF p(1) touches_keeps [OF set_liked_touches p(2)]] .
    with p(1) m show ?thesis by (auto simp: sync_liked_def split: sum.splits)
  qed
  have found: "keeps_foreign u db (snd (sync_liked env u mid liked pls db))"
    if "findLikedMusicPlaylist env u db = Inr (Some pls)" for pls
    using step findLiked_own [OF that] by blast
  have created: "keeps_foreign u db (snd (sync_liked env u mid liked pls db1))" if c: "create_liked env u db = (Inr pls, db1)" for pls db1
  proof -
    have "pl_OwnerID pls = usr_ID u"
      using c by (auto simp: create_liked_def Let_def split: prod.splits sum.splits)
    then show ?thesis using keeps_foreign_trans [OF create_liked_own(1) [OF c] step] create_liked_own(2) [OF c] by blast
  qed
  have failed: "db1 = db" if "create_liked env u db = (Inl e, db1)" for e db1
    using that by (auto simp: create_liked_def Put_playlist_def put_row_def insert_row_def after_put_def empty_Playlist_def
        IsSmartPlaylist_def returning_def and_then_def enqueueCoverRebuild_def refreshCounters_def Let_def
        split: if_splits option.splits prod.splits sum.splits)
  show ?thesis
    unfolding SyncLikedMusic_def using found created failed
    by (auto split: sum.splits option.splits prod.splits)
qed


subsection \<open>Requests of one user\<close>

datatype svc_op =
    SvCreate string string "string list"
  | SvDelete string
  | SvUpdate string "string option" "string option" "bool option" "string list" "int list"
  | SvAddTracks string "string list"
  | SvAddFound string track_query
  | SvAddEntries string "PlaylistEntry list"
  | SvRemoveTracks string "string list"
  | SvReorder string int int
  | SvSetImage string
  | SvRemoveImage string
  | SvSave Playlist
  | SvUpdateEntity string Playlist "string list"
  | SvDeleteRest string
  | SvSyncLiked string bool

definition forget :: "(pl_error + 'a) \<times> playlist_db \<Rightarrow> (pl_error + unit) \<times> playlist_db" where
  "forget r = (map_sum id (\<lambda>_. ()) (fst r), snd r)"

fun svc_exec :: "User \<Rightarrow> sv_env \<times> svc_op \<Rightarrow> playlist_db \<Rightarrow> (pl_error + unit) \<times> playlist_db" where
  "svc_exec u (env, SvCreate pid name ids) db = forget (Create_playlist env u pid name ids db)"
| "svc_exec u (env, SvDelete pid) db = Delete_playlist env u pid db"
| "svc_exec u (env, SvUpdate pid name comment public ids idx) db = Update_playlist env u pid name comment public ids idx db"
| "svc_exec u (env, SvAddTracks pid ids) db = forget (AddTracks env u pid ids db)"
| "svc_exec u (env, SvAddFound pid q) db = forget (AddFound env u pid q db)"
| "svc_exec u (env, SvAddEntries pid es) db = forget (AddEntries_service env u pid es db)"
| "svc_exec u (env, SvRemoveTracks pid ids) db = RemoveTracks_service env u pid ids db"
| "svc_exec u (env, SvReorder pid pos newPos) db = ReorderTrack env u pid pos newPos db"
| "svc_exec u (env, SvSetImage pid) db = forget (SetImage env u pid db)"
| "svc_exec u (env, SvRemoveImage pid) db = forget (RemoveImage env u pid db)"
| "svc_exec u (env, SvSave pls) db = forget (savePlaylist env u pls db)"
| "svc_exec u (env, SvUpdateEntity pid entity cols) db = forget (updatePlaylistEntity env u pid entity cols db)"
| "svc_exec u (env, SvDeleteRest pid) db = Delete_rest env u pid db"
| "svc_exec u (env, SvSyncLiked mid liked) db = forget (SyncLikedMusic env u mid liked db)"

fun svc_target :: "svc_op \<Rightarrow> string option" where
  "svc_target (SvCreate pid name ids) = (if pid = [] then None else Some pid)"
| "svc_target (SvDelete pid) = Some pid"
| "svc_target (SvUpdate pid name comment public ids idx) = Some pid"
| "svc_target (SvAddTracks pid ids) = Some pid"
| "svc_target (SvAddFound pid q) = Some pid"
| "svc_target (SvAddEntries pid es) = Some pid"
| "svc_target (SvRemoveTracks pid ids) = Some pid"
| "svc_target (SvReorder pid pos newPos) = Some pid"
| "svc_target (SvSetImage pid) = Some pid"
| "svc_target (SvRemoveImage pid) = Some pid"
| "svc_target (SvSave pls) = None"
| "svc_target (SvUpdateEntity pid entity cols) = Some pid"
| "svc_target (SvDeleteRest pid) = Some pid"
| "svc_target (SvSyncLiked mid liked) = None"

lemma snd_forget [simp]: "snd (forget r) = snd r"
  by (simp add: forget_def)

lemma if_editable_tx_keeps:
  assumes "\<not> usr_IsAdmin u" and "\<And>db. touches pid db (snd (act db))"
  shows "keeps_foreign u db (snd (if_editable env u pid act db))"
    "keeps_foreign u db (snd (if_editable env u pid (in_tx act) db))"
  using assms touches_keeps by (blast intro: if_editable_keeps in_tx_keeps)+

lemma svc_exec_keeps:
  assumes "\<not> usr_IsAdmin u" and "svc_target op \<noteq> Some []"
  shows "keeps_foreign u db (snd (svc_exec u (env, op) db))"
proof (cases op)
  case (SvAddFound pid q)
  have "touches pid db (snd (if q = ByDiscs [] then (Inr 0, db) else counting (Add_tracks pid (se_find env q) db)))" for db
    by (simp add: touches_tracks)
  with SvAddFound assms(1) show ?thesis by (simp add: AddFound_def if_editable_tx_keeps(1))
next
  case (SvSetImage pid)
  then show ?thesis
    using image_keeps [OF _ assms(1)] by (auto simp: SetImage_def split: sum.splits option.splits)
next
  case (SvRemoveImage pid)
  then show ?thesis
    using image_keeps [OF _ assms(1)] by (auto simp: RemoveImage_def split: sum.splits)
next
  case (SvSave pls)
  then show ?thesis by (auto simp: savePlaylist_def intro!: Put_keeps)
next
  case (SvDeleteRest pid)
  then show ?thesis
    using Delete_playlist_keeps [OF assms(1), of db env pid] by (auto simp: Delete_rest_def split: prod.splits sum.splits)
qed (use assms in \<open>auto simp: AddTracks_def RemoveTracks_service_def ReorderTrack_def touches_tracks
      intro!: Create_keeps Delete_playlist_keeps Update_keeps if_editable_tx_keeps AddEntries_keeps updateEntity_keeps
        SyncLikedMusic_keeps\<close>)

text \<open>
  C10: users cannot touch each other's playlists. Whatever requests a user who is not an administrator makes,
  in whatever order and with whatever outcome, every playlist of another user keeps its data, its tracks and their
  positions.
\<close>

theorem playlists_isolated:
  assumes "\<not> usr_IsAdmin u" and "list_all (\<lambda>(env, op). svc_target op \<noteq> Some []) calls"
    and "pd_playlists db pid = Some pls" and "pl_OwnerID pls \<noteq> usr_ID u"
  shows "pd_playlists (snd (run_ops (svc_exec u) calls db)) pid = Some pls \<and>
    tracks_of pid (pd_tracks (snd (run_ops (svc_exec u) calls db))) = tracks_of pid (pd_tracks db)"
proof -
  have "keeps_foreign u db (snd (run_ops (svc_exec u) calls db))"
    using assms(2)
  proof (induction calls arbitrary: db)
    case (Cons c calls)
    obtain env op where c: "c = (env, op)" by (cases c)
    have "keeps_foreign u db (snd (svc_exec u c db))"
      unfolding c by (rule svc_exec_keeps [OF assms(1)]) (use Cons.prems c in simp)
    with Cons.IH [of "snd (svc_exec u c db)"] Cons.prems show ?case
      by (auto simp: Let_def case_prod_beta intro: keeps_foreign_trans)
  qed simp
  with assms(3,4) show ?thesis by (simp add: keeps_foreign_def)
qed

subsection \<open>Requests that are refused\<close>

lemma Get_foreign:
  assumes "\<not> usr_IsAdmin u" and "pd_playlists db pid = Some pls" and "pl_OwnerID pls \<noteq> usr_ID u" and "pl_OwnerID pls \<in> se_users env"
  shows "Get_playlist env u pid db =
    (if pl_Public pls then Inr (pls\<lparr>pl_ID := pid, pl_Tracks := [], pl_HasVideos := hasVideos pid db\<rparr>) else Inl PlNotFound)"
  using assms by (simp add: Get_playlist_def userFilter_def)

lemma check_foreign:
  assumes "\<not> usr_IsAdmin u" and "pd_playlists db pid = Some pls" and "pl_OwnerID pls \<noteq> usr_ID u" and "pl_OwnerID pls \<in> se_users env"
  shows "checkWritable env u pid db = Inl (if pl_Public pls then PlNotAuthorized else PlNotFound)"
    "checkTracksEditable env u pid db = Inl (if pl_Public pls then PlNotAuthorized else PlNotFound)"
  using assms by (simp_all add: checkTracksEditable_def checkWritable_def Get_foreign)

text \<open>How a request to change a playlist of someone else fails. The REST adapter has its own errors; \<open>Create\<close> on an existing playlist
  refuses one with videos before it looks at the owner.\<close>

fun rest_op :: "svc_op \<Rightarrow> bool" where
  "rest_op (SvUpdateEntity pid entity cols) = True"
| "rest_op (SvDeleteRest pid) = True"
| "rest_op op = False"

fun replaces_tracks :: "svc_op \<Rightarrow> bool" where
  "replaces_tracks (SvCreate pid name ids) = True"
| "replaces_tracks op = False"

definition refusal :: "playlist_db \<Rightarrow> string \<Rightarrow> Playlist \<Rightarrow> svc_op \<Rightarrow> pl_error" where
  "refusal db pid pls op =
     (if \<not> pl_Public pls then (if rest_op op then RestNotFound else PlNotFound)
      else if replaces_tracks op \<and> hasVideos pid db then MixedPlaylist
      else if rest_op op then RestPermissionDenied else PlNotAuthorized)"

text \<open>
  C37: requests to change someone else's playlist are refused. Every request of a user who is not an administrator to
  change a playlist of another user fails and changes nothing. If the playlist is private the error is that of a playlist that
  does not exist; if it is public, that of a request that is not allowed, in the form of the interface that was
  called. One case has another error: replacing the tracks of a public playlist with videos is refused for the videos.
\<close>

theorem foreign_request_refused:
  assumes "\<not> usr_IsAdmin u" and "pd_playlists db pid = Some pls" and "pl_OwnerID pls \<noteq> usr_ID u" and "pl_OwnerID pls \<in> se_users env"
    and "svc_target op = Some pid"
  shows "svc_exec u (env, op) db = (Inl (refusal db pid pls op), db)"
proof -
  note c = check_foreign [OF assms(1-4)]
  note g = Get_foreign [OF assms(1-4)]
  show ?thesis
  proof (cases op)
    case (SvCreate pid' name ids)
    with assms(5) have "pid' = pid" "pid \<noteq> []" by (auto split: if_splits)
    with SvCreate assms(1,3) g show ?thesis
      by (auto simp: Create_playlist_def in_tx_def forget_def refusal_def)
  qed (use assms(5) c in \<open>auto simp: Delete_playlist_def Update_playlist_def AddTracks_def AddFound_def AddEntries_service_def
        RemoveTracks_service_def ReorderTrack_def SetImage_def RemoveImage_def updatePlaylistEntity_def Delete_rest_def
        if_editable_def forget_def refusal_def rest_error_def\<close>)
qed


subsection \<open>What an owner's update does\<close>

lemma Put_existing:
  assumes "pl_ID p = pid" and "pid \<noteq> []" and "pl_Tracks p = []" and "\<not> IsSmartPlaylist p"
    and "pd_playlists db pid = Some old" and "pl_OwnerID p \<in> se_users env"
  shows "Put_playlist env u p db =
    (Inr pid, snd (refreshCounters pid (db\<lparr>pd_playlists := (pd_playlists db)(pid \<mapsto> row_of (pl_Rules old) pid p)\<rparr>)))"
  using assms by (simp add: Put_playlist_def replaces_mixed_def put_row_def after_put_def returning_def refreshCounters_def Let_def)

lemma put_row_ok:
  assumes "db_ok db" and "pid \<in> dom (pd_playlists db)"
    and "db' = snd (refreshCounters pid (db\<lparr>pd_playlists := (pd_playlists db)(pid \<mapsto> row)\<rparr>))"
  shows "db_ok db'" "pd_tracks db' = pd_tracks db" "\<exists>row'. pd_playlists db' pid = Some row' \<and> same_row row row'"
proof -
  have t: "pd_tracks db' = pd_tracks db" "pd_files db' = pd_files db" "pd_videos db' = pd_videos db"
    "\<And>q. q \<noteq> pid \<Longrightarrow> pd_playlists db' q = pd_playlists db q"
    by (simp_all add: assms(3) refreshCounters_def Let_def)
  show "\<exists>row'. pd_playlists db' pid = Some row' \<and> same_row row row'"
    by (simp add: assms(3) refreshCounters_def Let_def same_row_def)
  then have d: "dom (pd_playlists db') = dom (pd_playlists db)" 
    using t(4) assms(2) by (intro set_eqI) (case_tac "x = pid"; auto simp: domIff)
  show "pd_tracks db' = pd_tracks db" by (rule t(1))
  have "counted db' q pls" if q: "pd_playlists db' q = Some pls" for q pls
  proof (cases "q = pid")
    case True
    with q assms(3) show ?thesis using refreshCounters_counted [of pid "db\<lparr>pd_playlists := (pd_playlists db)(pid \<mapsto> row)\<rparr>" pls] by simp
  next
    case False
    with q assms(1) t counted_cong [of q db' db pls] show ?thesis by (simp add: db_ok_def)
  qed
  with assms(1) t(1) d show "db_ok db'" by (simp add: db_ok_def)
qed

text \<open>A change of tracks that the operations of the tracks table make, followed by what the repository returns.\<close>

lemma changes_step:
  assumes "db_ok db" and "pd_playlists db pid = Some p" and "changes_to pid xs db db'"
  obtains p' where "db_ok db'" "track_entries pid (pd_tracks db') = xs" "pd_playlists db' pid = Some p'" "same_row p p'"
proof -
  have pid: "pid \<in> dom (pd_playlists db)" using assms(2) by blast
  have "rel_option same_row (Some p) (pd_playlists db' pid)" using assms(2,3) by (simp add: changes_to_def)
  then obtain p' where "pd_playlists db' pid = Some p'" "same_row p p'" by (auto simp: option_rel_Some1)
  with changes_to_ok(1,2) [OF assms(1,3) pid] that show thesis by blast
qed

lemma delete_positions:
  assumes "list_all (\<lambda>i. in_int64 (i + 1)) idx"
  shows "{i. Some (int i + 1) \<notin> set (map atoi (map (\<lambda>i. itoa (i + 1)) idx))} = {i. int i \<notin> set idx}"
proof -
  have "map atoi (map (\<lambda>i. itoa (i + 1)) idx) = map (\<lambda>i. Some (i + 1)) idx"
    using assms by (simp add: list_all_iff atoi_itoa)
  then show ?thesis by auto
qed

lemma length_nths_le: "length (nths xs A) \<le> length xs"
  by (induction xs arbitrary: A) (auto simp: nths_Cons intro: le_SucI)

text \<open>The state of a playlist during an update: its entries, and its row up to the counters.\<close>

definition holds :: "playlist_db \<Rightarrow> string \<Rightarrow> Playlist \<Rightarrow> entry list \<Rightarrow> bool" where
  "holds db pid p xs \<longleftrightarrow> db_ok db \<and> track_entries pid (pd_tracks db) = xs \<and>
     (\<exists>p'. pd_playlists db pid = Some p' \<and> same_row p p')"

lemma holds_changes:
  assumes "holds db pid p xs" and "changes_to pid ys db db'"
  shows "holds db' pid p ys"
proof -
  obtain p1 where p1: "pd_playlists db pid = Some p1" "same_row p p1" and ok: "db_ok db" using assms(1) by (auto simp: holds_def)
  obtain p2 where "db_ok db'" "track_entries pid (pd_tracks db') = ys" "pd_playlists db' pid = Some p2" "same_row p1 p2"
    by (rule changes_step [OF ok p1(1) assms(2)])
  with p1(2) show ?thesis by (auto simp: holds_def same_row_def)
qed

lemma delete_step:
  assumes "holds db pid p xs" and "list_all (\<lambda>i. in_int64 (i + 1)) idx"
  obtains db' where "Delete_tracks pid (map (\<lambda>i. itoa (i + 1)) idx) db = (None, db')"
    "holds db' pid p (nths xs {i. int i \<notin> set idx})"
proof -
  obtain e db' where d: "Delete_tracks pid (map (\<lambda>i. itoa (i + 1)) idx) db = (e, db')" by (metis surj_pair)
  have ok: "db_ok db" "track_entries pid (pd_tracks db) = xs" using assms(1) by (simp_all add: holds_def)
  have "e = None" "changes_to pid (nths xs {i. int i \<notin> set idx}) db db'"
    using Delete_changes [OF ok(1), of pid "map (\<lambda>i. itoa (i + 1)) idx"] d ok(2) delete_positions [OF assms(2)] by simp_all
  with d holds_changes [OF assms(1)] that show thesis by blast
qed

lemma add_step:
  assumes "holds db pid p xs" and "int (length xs) < 2 ^ 31 - 1"
  obtains db' where "Add_tracks pid ids db = ((None, int (length ids)), db')" "holds db' pid p (xs @ map music_entry ids)"
proof (cases "ids = []")
  case True
  then have "Add_tracks pid ids db = ((None, int (length ids)), db)" by (simp add: Add_tracks_def)
  with True assms(1) that show thesis by simp
next
  case False
  obtain r db' where a: "Add_tracks pid ids db = (r, db')" by (metis surj_pair)
  have ok: "db_ok db" "track_entries pid (pd_tracks db) = xs" and pid: "pid \<in> dom (pd_playlists db)"
    using assms(1) by (auto simp: holds_def)
  have "r = (None, int (length ids))" "changes_to pid (xs @ map music_entry ids) db db'"
    using Add_changes [OF ok(1) pid refl, of ids] assms(2) False a ok(2) by simp_all
  with a holds_changes [OF assms(1)] that show thesis by blast
qed

lemma save_step:
  assumes "holds db pid p xs" and "pl_ID q = pid" and "pid \<noteq> []" and "pl_Tracks q = []" and "\<not> IsSmartPlaylist q"
    and "pl_OwnerID q \<in> se_users env"
  obtains rules db' where "Put_playlist env u q db = (Inr pid, db')" "holds db' pid (row_of rules pid q) xs"
proof -
  obtain old where old: "pd_playlists db pid = Some old" and ok: "db_ok db" and xs: "track_entries pid (pd_tracks db) = xs"
    using assms(1) by (auto simp: holds_def)
  let ?row = "row_of (pl_Rules old) pid q"
  define db' where "db' = snd (refreshCounters pid (db\<lparr>pd_playlists := (pd_playlists db)(pid \<mapsto> ?row)\<rparr>))"
  have pid: "pid \<in> dom (pd_playlists db)" using old by blast
  have "Put_playlist env u q db = (Inr pid, db')"
    unfolding db'_def by (rule Put_existing [OF assms(2-5) old assms(6)])
  moreover have "holds db' pid ?row xs"
    using put_row_ok [OF ok pid db'_def] xs by (simp add: holds_def)
  ultimately show thesis using that by blast
qed

lemma with_metadata_simps [simp]:
  "pl_ID (with_metadata n c b p) = pl_ID p" "pl_Tracks (with_metadata n c b p) = pl_Tracks p"
  "pl_Rules (with_metadata n c b p) = pl_Rules p" "pl_OwnerID (with_metadata n c b p) = pl_OwnerID p"
  "pl_Name (with_metadata n c b p) = (case n of None \<Rightarrow> pl_Name p | Some x \<Rightarrow> x)"
  "pl_Comment (with_metadata n c b p) = (case c of None \<Rightarrow> pl_Comment p | Some x \<Rightarrow> x)"
  "pl_Public (with_metadata n c b p) = (case b of None \<Rightarrow> pl_Public p | Some x \<Rightarrow> x)"
  by (auto simp: with_metadata_def Let_def split: option.splits)

text \<open>The row and the entries of a playlist after an update of its name, comment and visibility.\<close>

definition updated :: "playlist_db \<Rightarrow> string \<Rightarrow> string option \<Rightarrow> string option \<Rightarrow> bool option \<Rightarrow> Playlist \<Rightarrow> entry list \<Rightarrow> bool" where
  "updated db pid name comment public pls xs \<longleftrightarrow> db_ok db \<and> track_entries pid (pd_tracks db) = xs \<and>
     (\<exists>p. pd_playlists db pid = Some p \<and>
        pl_Name p = (case name of None \<Rightarrow> pl_Name pls | Some n \<Rightarrow> n) \<and>
        pl_Comment p = (case comment of None \<Rightarrow> pl_Comment pls | Some c \<Rightarrow> c) \<and>
        pl_Public p = (case public of None \<Rightarrow> pl_Public pls | Some b \<Rightarrow> b) \<and>
        pl_OwnerID p = pl_OwnerID pls)"

lemma holds_updated:
  assumes "holds db pid p xs" and "pl_Name p = pl_Name q" "pl_Comment p = pl_Comment q" "pl_Public p = pl_Public q" "pl_OwnerID p = pl_OwnerID pls"
    "q = with_metadata name comment public pls"
  shows "updated db pid name comment public pls xs"
proof -
  obtain p' where "pd_playlists db pid = Some p'" and f: "same_row p p'" using assms(1) by (auto simp: holds_def)
  moreover note same_row_fields [OF f]
  ultimately show ?thesis using assms by (simp add: holds_def updated_def)
qed

lemma metadata_step:
  assumes "holds db pid p xs" and "pl_ID pls = pid" and "pid \<noteq> []" and "pl_Tracks pls = []" and "\<not> IsSmartPlaylist pls"
    and "pl_OwnerID pls \<in> se_users env"
  obtains db' where "updateMetadata env u pls name comment public db = (Inr pid, db')" "updated db' pid name comment public pls xs"
proof -
  let ?q = "with_metadata name comment public pls"
  have q: "pl_ID ?q = pid" "pl_Tracks ?q = []" "\<not> IsSmartPlaylist ?q" "pl_OwnerID ?q \<in> se_users env"
    using assms by (simp_all add: IsSmartPlaylist_def)
  obtain rules db' where s: "Put_playlist env u ?q db = (Inr pid, db')" "holds db' pid (row_of rules pid ?q) xs"
    by (rule save_step [OF assms(1) q(1) assms(3) q(2-4)])
  have "updated db' pid name comment public pls xs"
    by (rule holds_updated [OF s(2)]) (simp_all add: row_of_def)
  with s(1) that show thesis by (simp add: updateMetadata_def)
qed

lemma update_body_applied:
  assumes "holds db pid p xs" and "pl_ID pls = pid" and "pid \<noteq> []" and "pl_Tracks pls = []"
    and "\<not> IsSmartPlaylist pls" "list_all (\<lambda>i. in_int64 (i + 1)) idx" and "int (length xs) < 2 ^ 31 - 1"
    and "pl_OwnerID pls \<in> se_users env" and "pls = p\<lparr>pl_ID := pid, pl_Tracks := [], pl_HasVideos := v\<rparr>"
  shows "\<exists>db'. update_body env u pid pls name comment public ids idx db = (Inr (), db') \<and>
    updated db' pid name comment public pls (nths xs {i. int i \<notin> set idx} @ map music_entry ids)"
proof (cases "idx = []")
  case False
  obtain db1 where d1: "Delete_tracks pid (map (\<lambda>i. itoa (i + 1)) idx) db = (None, db1)" and h1: "holds db1 pid p (nths xs {i. int i \<notin> set idx})"
    by (rule delete_step [OF assms(1) assms(6)])
  have len: "int (length (nths xs {i. int i \<notin> set idx})) < 2 ^ 31 - 1" 
    using length_nths_le [of xs "{i. int i \<notin> set idx}"] assms(7) by linarith
  obtain db2 where d2: "Add_tracks pid ids db1 = ((None, int (length ids)), db2)" and h2: "holds db2 pid p ((nths xs {i. int i \<notin> set idx}) @ map music_entry ids)"
    by (rule add_step [OF h1 len])
  have add: "(if ids \<noteq> [] then counting (Add_tracks pid ids db1) else (Inr 0, db1)) = (Inr (int (length ids)), db2)"
    using d2 by (cases "ids = []") (simp_all add: counting_def Add_tracks_def)
  obtain db3 where "updateMetadata env u pls name comment public db2 = (Inr pid, db3)"
    "updated db3 pid name comment public pls ((nths xs {i. int i \<notin> set idx}) @ map music_entry ids)"
    by (rule metadata_step [OF h2 assms(2-5,8)])
  with False d1 add show ?thesis unfolding update_body_def Let_def by (simp add: returning_def)
next
  case True
  obtain db2 where d2: "Add_tracks pid ids db = ((None, int (length ids)), db2)" and h2: "holds db2 pid p (xs @ map music_entry ids)"
    by (rule add_step [OF assms(1) assms(7)])
  have add: "(if ids \<noteq> [] then counting (Add_tracks pid ids db) else (Inr 0, db)) = (Inr (int (length ids)), db2)"
    using d2 by (cases "ids = []") (simp_all add: counting_def Add_tracks_def)
  have h2': "holds db2 pid p (nths xs {i. int i \<notin> set idx} @ map music_entry ids)" using h2 by (simp add: True nths_all)
  show ?thesis
  proof (cases "name = None \<and> comment = None \<and> public = None")
    case True
    have "updated db2 pid name comment public pls ((nths xs {i. int i \<notin> set idx}) @ map music_entry ids)"
      by (rule holds_updated [OF h2']) (use True assms(9) in simp_all)
    with True \<open>idx = []\<close> add show ?thesis unfolding update_body_def Let_def by simp
  next
    case False
    obtain db3 where "updateMetadata env u pls name comment public db2 = (Inr pid, db3)"
      "updated db3 pid name comment public pls ((nths xs {i. int i \<notin> set idx}) @ map music_entry ids)"
      by (rule metadata_step [OF h2' assms(2-5,8)])
    with False \<open>idx = []\<close> add show ?thesis unfolding update_body_def Let_def by auto
  qed
qed

text \<open>
  an owner's update does all of what it says. On a consistent state, for a playlist whose tracks the user may
  edit, the update succeeds: exactly the entries at the given indices are gone, the others keep their order, the new
  tracks follow at the end, and of the name, the comment and the visibility exactly those given are changed.
\<close>

theorem playlist_update_applied:
  assumes "db_ok db" and "checkTracksEditable env u pid db = Inr pls" and "pid \<noteq> []"
    and "list_all (\<lambda>i. in_int64 (i + 1)) idx" and "int (length (track_entries pid (pd_tracks db))) < 2 ^ 31 - 1"
  shows "\<exists>db'. Update_playlist env u pid name comment public ids idx db = (Inr (), db') \<and>
    updated db' pid name comment public pls
      (nths (track_entries pid (pd_tracks db)) {i. int i \<notin> set idx} @ map music_entry ids)"
proof -
  let ?xs = "track_entries pid (pd_tracks db)"
  let ?ys = "nths ?xs {i. int i \<notin> set idx}"
  have w: "checkWritable env u pid db = Inr pls" by (rule checkTracksEditable_writable [OF assms(2)])
  have smart: "\<not> IsSmartPlaylist pls" using assms(2) w by (auto simp: checkTracksEditable_def split: if_splits)
  have "Get_playlist env u pid db = Inr pls" using w by (auto simp: checkWritable_def split: sum.splits if_splits)
  then obtain p where p: "pd_playlists db pid = Some p" "pls = p\<lparr>pl_ID := pid, pl_Tracks := [], pl_HasVideos := hasVideos pid db\<rparr>"
    "pl_OwnerID p \<in> se_users env" by (rule Get_playlist_Inr)
  have h: "holds db pid p ?xs" using assms(1) p(1) by (simp add: holds_def)
  have pls: "pl_ID pls = pid" "pl_Tracks pls = []" "pl_OwnerID pls \<in> se_users env" using p by simp_all
  have "\<exists>db'. update_body env u pid pls name comment public ids idx db = (Inr (), db') \<and>
      updated db' pid name comment public pls (?ys @ map music_entry ids)"
    by (rule update_body_applied [OF h pls(1) assms(3) pls(2) smart assms(4,5) pls(3) p(2)])
  then obtain db' where b: "update_body env u pid pls name comment public ids idx db = (Inr (), db')"
    "updated db' pid name comment public pls (?ys @ map music_entry ids)" by blast
  have "Update_playlist env u pid name comment public ids idx db = (Inr (), db')"
    unfolding Update_playlist_def assms(2) w by (simp add: in_tx_def b(1))
  with b(2) show ?thesis by blast
qed


subsection \<open>Liked music\<close>

lemma make_private_ok:
  assumes "db_ok db" and "pd_playlists db (pl_ID pls) = Some p" and "pl_ID pls \<noteq> []" and "pl_Public pls = pl_Public p"
  obtains db' p' where "make_private env pls db = (Inr (pl_ID pls), db')" "db_ok db'" "pd_tracks db' = pd_tracks db"
    "pd_files db' = pd_files db" "pd_playlists db' (pl_ID pls) = Some p'" "\<not> pl_Public p'"
proof (cases "pl_Public pls")
  case False
  with assms that [of db p] show thesis by (simp add: make_private_def)
next
  case True
  let ?p = "p\<lparr>pl_Public := False\<rparr>"
  let ?db = "db\<lparr>pd_playlists := (pd_playlists db)(pl_ID pls \<mapsto> ?p)\<rparr>"
  have "make_private env pls db = (Inr (pl_ID pls), ?db)"
    using True assms(2,3) by (simp add: make_private_def put_columns_def set_column_def)
  moreover have "db_ok ?db"
  proof -
    have "counted ?db q x = counted db q x" for q x by (rule counted_cong) simp_all
    moreover have "counted db (pl_ID pls) ?p" using assms(1,2) by (simp add: db_ok_def counted_def)
    ultimately show ?thesis using assms(1,2) by (auto simp: db_ok_def)
  qed
  ultimately show thesis using that [of ?db ?p] by simp
qed

lemma unlike_changes:
  assumes "db_ok db" and "media_visible env u mid db" and "int (length (track_entries pid (pd_tracks db))) < 2 ^ 31 - 1"
    and "positions = map (itoa \<circ> ptr_id) (filter (\<lambda>r. track_visible env u db r \<and> ptr_media r = mid) (tracks_of pid (pd_tracks db)))"
  shows "fst (Delete_tracks pid positions db) = None"
    "changes_to pid (filter (\<lambda>e. fst e \<noteq> mid) (track_entries pid (pd_tracks db))) db (snd (Delete_tracks pid positions db))"
proof -
  let ?t = "pd_tracks db" and ?xs = "track_entries pid (pd_tracks db)"
  let ?p = "\<lambda>r. ptr_playlist r = pid \<and> Some (ptr_id r) \<in> set (map atoi positions)"
  have r: "represents pid ?t ?xs" and u: "unique_keys ?t" using assms(1) by (simp_all add: db_ok_def tracks_ok_def)
  have "in_int64 (ptr_id r)" if "r \<in> set (tracks_of pid ?t)" for r
  proof -
    have "ptr_id r \<in> ids_of pid ?t" using that by (simp add: ids_of_def)
    with represents_ids(1) [OF r] assms(3) show ?thesis by (simp add: in_int64_def)
  qed
  then have "set (map atoi positions) = Some ` ptr_id ` {r \<in> set (tracks_of pid ?t). ptr_media r = mid}"
    using assms(2) by (force simp: assms(4) atoi_itoa track_visible_def image_iff)
  moreover have "r = s" if "r \<in> set (tracks_of pid ?t)" "s \<in> set (tracks_of pid ?t)" "ptr_id r = ptr_id s" for r s
  proof -
    have "row_key r = row_key s" "r \<in> set ?t" "s \<in> set ?t" using that by (auto simp: row_key_def tracks_of_def)
    with u show ?thesis by (auto simp: distinct_map dest: inj_onD)
  qed
  ultimately have p: "?p r \<longleftrightarrow> ptr_playlist r = pid \<and> fst (row_entry r) = mid" if "r \<in> set ?t" for r
    using that by (auto simp: tracks_of_def row_entry_def)
  have "filter (\<lambda>r. \<not> ?p r) ?t = filter (\<lambda>r. \<not> (ptr_playlist r = pid \<and> fst (row_entry r) = mid)) ?t"
    by (rule filter_cong [OF refl]) (use p in blast)
  moreover have "filter (\<lambda>r. \<not> (ptr_playlist r = pid \<and> fst (row_entry r) = mid)) (number_from (mk_row pid) 1 ?xs) =
      filter (\<lambda>r. fst (row_entry r) \<noteq> mid) (number_from (mk_row pid) 1 ?xs)"
    by (rule filter_cong) (auto dest: playlist_number_from)
  ultimately have "track_entries pid (filter (\<lambda>r. \<not> ?p r) ?t) = filter (\<lambda>e. fst e \<noteq> mid) ?xs"
    using entries_filter [OF r] filter_number_entry [of "\<lambda>e. fst e \<noteq> mid"] by simp
  then show "fst (Delete_tracks pid positions db) = None"
    "changes_to pid (filter (\<lambda>e. fst e \<noteq> mid) ?xs) db (snd (Delete_tracks pid positions db))"
    using delete_renumber_changes [OF assms(1), of ?p pid "Delete_tracks pid positions"] by (simp_all add: Delete_tracks_def)
qed


lemma media_visible_cong: "pd_files db' = pd_files db \<Longrightarrow> media_visible env u mid db' = media_visible env u mid db"
  by (simp add: media_visible_def)

lemma set_liked_ok:
  assumes "db_ok db" and "pid \<in> dom (pd_playlists db)" and "media_visible env u mid db" and "xs = track_entries pid (pd_tracks db)"
    and "int (length xs) < 2 ^ 31 - 1"
  obtains db' where "set_liked env u pid mid liked db = (Inr pid, db')" "db_ok db'"
    "rel_option same_row (pd_playlists db pid) (pd_playlists db' pid)"
    "track_entries pid (pd_tracks db') =
      (if liked then if mid \<in> fst ` set xs then xs else xs @ [music_entry mid] else filter (\<lambda>e. fst e \<noteq> mid) xs)"
proof -
  let ?rows = "tracks_of pid (pd_tracks db)"
  have present: "mid \<in> set (map ptr_media (filter (\<lambda>r. media_visible env u (ptr_media r) db) ?rows)) \<longleftrightarrow> mid \<in> fst ` set xs"
    using assms(3) by (force simp: assms(4) track_entries_def row_entry_def)
  let ?pos = "map (itoa \<circ> ptr_id) (filter (\<lambda>r. track_visible env u db r \<and> ptr_media r = mid) ?rows)"
  have none: "filter (\<lambda>e. fst e \<noteq> mid) xs = xs" if "?pos = []"
  proof -
    have "ptr_media r \<noteq> mid" if "r \<in> set ?rows" for r
      using \<open>?pos = []\<close> that assms(3) by (auto simp: filter_empty_conv track_visible_def)
    then show ?thesis by (auto simp: assms(4) track_entries_def row_entry_def filter_id_conv)
  qed
  consider (keep) "liked" "mid \<in> fst ` set xs" | (add) "liked" "mid \<notin> fst ` set xs" | (skip) "\<not> liked" "?pos = []" | (del) "\<not> liked" "?pos \<noteq> []"
    by argo
  then show thesis
  proof cases
    case keep
    then have "set_liked env u pid mid liked db = (Inr pid, db)" unfolding set_liked_def Let_def present by simp
    then show thesis by (rule that) (use assms(1) keep in \<open>simp_all flip: assms(4)\<close>)
  next
    case add
    note c = Add_changes [OF assms(1,2,4,5), of "[mid]"]
    obtain db1 where a: "Add_tracks pid [mid] db = ((None, 1), db1)" using c(1) by (cases "Add_tracks pid [mid] db") simp
    then have e: "set_liked env u pid mid liked db = (Inr pid, db1)"
      using add unfolding set_liked_def Let_def present by (simp add: counting_def)
    have ch: "changes_to pid (xs @ [music_entry mid]) db db1" using c(2) a by simp
    from e show thesis
      by (rule that) (use changes_to_ok(1,2) [OF assms(1) ch assms(2)] ch add in \<open>simp_all add: changes_to_def\<close>)
  next
    case skip
    then have "set_liked env u pid mid liked db = (Inr pid, db)" unfolding set_liked_def Let_def by simp
    then show thesis by (rule that) (use assms(1) skip none in \<open>simp_all flip: assms(4)\<close>)
  next
    case del
    note c = unlike_changes [OF assms(1,3) assms(5) [unfolded assms(4)] refl, folded assms(4)]
    obtain db1 where d: "Delete_tracks pid ?pos db = (None, db1)" using c(1) by (cases "Delete_tracks pid ?pos db") simp
    then have e: "set_liked env u pid mid liked db = (Inr pid, db1)"
      using del unfolding set_liked_def Let_def by (simp add: returning_def)
    have ch: "changes_to pid (filter (\<lambda>e. fst e \<noteq> mid) xs) db db1" using c(2) d by simp
    from e show thesis
      by (rule that) (use changes_to_ok(1,2) [OF assms(1) ch assms(2)] ch del in \<open>simp_all add: changes_to_def\<close>)
  qed
qed


text \<open>
  the liked-music playlist follows the likes. For a user with one such playlist, liking a song puts it at the end
  of that playlist unless it is there already, unliking it removes every occurrence and nothing else, the other
  entries keep their order, and the playlist is private afterwards, whatever it was before.
\<close>

theorem liked_music_synced:
  assumes "db_ok db" and "findLikedMusicPlaylist env u db = Inr (Some pls)" and "\<not> IsSmartPlaylist pls" and "pl_ID pls \<noteq> []"
    and "media_visible env u mid db" and "trim_space mid \<noteq> []" and "trim_space (usr_ID u) \<noteq> []"
    and "int (length (track_entries (pl_ID pls) (pd_tracks db))) < 2 ^ 31 - 1"
  shows "\<exists>db' p'. SyncLikedMusic env u mid liked db = (Inr (pl_ID pls), db') \<and> db_ok db' \<and>
    pd_playlists db' (pl_ID pls) = Some p' \<and> \<not> pl_Public p' \<and>
    track_entries (pl_ID pls) (pd_tracks db') =
      (let xs = track_entries (pl_ID pls) (pd_tracks db)
       in if liked then if mid \<in> fst ` set xs then xs else xs @ [music_entry mid] else filter (\<lambda>e. fst e \<noteq> mid) xs)"
proof -
  let ?pid = "pl_ID pls"
  obtain p where p: "pd_playlists db ?pid = Some p" "pl_Public pls = pl_Public p" "pl_OwnerID p = usr_ID u" "pl_OwnerID pls = usr_ID u"
    by (rule findLiked_row [OF assms(2)])
  obtain db1 p1 where m: "make_private env pls db = (Inr ?pid, db1)" "db_ok db1" "pd_tracks db1 = pd_tracks db"
    "pd_files db1 = pd_files db" "pd_playlists db1 ?pid = Some p1" "\<not> pl_Public p1"
    by (rule make_private_ok [OF assms(1) p(1) assms(4) p(2)])
  have pid: "?pid \<in> dom (pd_playlists db1)" using m(5) by blast
  have vis: "media_visible env u mid db1" using assms(5) media_visible_cong [OF m(4)] by simp
  obtain db2 where s: "set_liked env u ?pid mid liked db1 = (Inr ?pid, db2)" "db_ok db2"
    "rel_option same_row (pd_playlists db1 ?pid) (pd_playlists db2 ?pid)"
    "track_entries ?pid (pd_tracks db2) =
      (if liked then if mid \<in> fst ` set (track_entries ?pid (pd_tracks db1)) then track_entries ?pid (pd_tracks db1)
         else track_entries ?pid (pd_tracks db1) @ [music_entry mid]
       else filter (\<lambda>e. fst e \<noteq> mid) (track_entries ?pid (pd_tracks db1)))"
    by (rule set_liked_ok [OF m(2) pid vis refl]) (use assms(8) m(3) in simp)
  obtain p2 where p2: "pd_playlists db2 ?pid = Some p2" "same_row p1 p2"
    using s(3) m(5) by (auto simp: option_rel_Some1)
  have "SyncLikedMusic env u mid liked db = (Inr ?pid, db2)"
    using assms(2,3,6,7) m(1) s(1) by (simp add: SyncLikedMusic_def sync_liked_def)
  with s(2,4) p2 m(3,6) same_row_fields(3) [OF p2(2)] show ?thesis by (simp add: Let_def)
qed


subsection \<open>Examples\<close>

definition sv_user :: User where
  "sv_user = \<lparr>usr_ID = ''u'', usr_UserName = ''u'', usr_IsAdmin = False\<rparr>"

definition sv_example_env :: sv_env where
  "sv_example_env = \<lparr>se_users = {''u'', ''v''}, se_libraries = (\<lambda>_. {1}), se_newID = ''new'', se_pids = [''p'', ''q''],
     se_find = (\<lambda>_. []), se_SetImage = (\<lambda>_ _ _. None), se_RemoveImage = (\<lambda>_. True)\<rparr>"

definition sv_liked :: Playlist where
  "sv_liked = empty_Playlist\<lparr>pl_Name := LikedMusicPlaylistName, pl_OwnerID := ''u'', pl_Public := True\<rparr>"

definition sv_foreign :: Playlist where
  "sv_foreign = empty_Playlist\<lparr>pl_Name := ''mix'', pl_OwnerID := ''v''\<rparr>"

definition sv_example_db :: playlist_db where
  "sv_example_db = \<lparr>pd_tracks = [], pd_playlists = [''p'' \<mapsto> sv_liked, ''q'' \<mapsto> sv_foreign],
     pd_files = [''s'' \<mapsto> empty_MediaFile\<lparr>mf_LibraryID := 1\<rparr>], pd_videos = Map.empty, pd_covers = []\<rparr>"

lemmas sv_example_defs =
  sv_user_def sv_example_env_def sv_liked_def sv_foreign_def sv_example_db_def empty_Playlist_def LikedMusicPlaylistName_def

lemma sv_example_ok: "db_ok sv_example_db"
  by (auto simp: db_ok_def tracks_ok_def represents_def track_entries_def tracks_of_def counted_def sv_example_defs
      split: if_splits)

lemma sv_example_entries: "track_entries pid (pd_tracks sv_example_db) = []"
  by (simp add: track_entries_def tracks_of_def sv_example_db_def)

theorem playlists_isolated_witness:
  "pd_playlists (snd (run_ops (svc_exec sv_user)
      [(sv_example_env, SvAddTracks ''p'' [''s'']), (sv_example_env, SvDelete ''q'')] sv_example_db)) ''q'' = Some sv_foreign"
  by (rule playlists_isolated [THEN conjunct1]) (simp_all add: sv_example_defs)

theorem foreign_request_refused_witness:
  "svc_exec sv_user (sv_example_env, SvReorder ''q'' 1 2) sv_example_db = (Inl PlNotFound, sv_example_db) \<and>
   svc_exec sv_user (sv_example_env, SvDeleteRest ''q'') sv_example_db = (Inl RestNotFound, sv_example_db)"
  using foreign_request_refused [of sv_user sv_example_db "''q''" sv_foreign sv_example_env "SvReorder ''q'' 1 2"]
    foreign_request_refused [of sv_user sv_example_db "''q''" sv_foreign sv_example_env "SvDeleteRest ''q''"]
  by (simp add: sv_example_defs refusal_def)

lemma sv_editable:
  "checkTracksEditable sv_example_env sv_user ''p'' sv_example_db = Inr (sv_liked\<lparr>pl_ID := ''p'', pl_Tracks := [], pl_HasVideos := False\<rparr>)"
  by (simp add: checkTracksEditable_def checkWritable_def Get_playlist_def userFilter_def hasVideos_def tracks_of_def
      IsSmartPlaylist_def sv_example_defs)

theorem playlist_update_applied_witness:
  "\<exists>db'. Update_playlist sv_example_env sv_user ''p'' None None (Some False) [''s''] [0] sv_example_db = (Inr (), db') \<and>
     track_entries ''p'' (pd_tracks db') = [music_entry ''s'']"
  using playlist_update_applied [OF sv_example_ok sv_editable, of "[0]" None None "Some False" "[''s'']"]
  by (auto simp: updated_def sv_example_entries in_int64_def)

theorem liked_music_synced_witness:
  "\<exists>db'. SyncLikedMusic sv_example_env sv_user ''s'' True sv_example_db = (Inr ''p'', db') \<and>
     track_entries ''p'' (pd_tracks db') = [music_entry ''s'']"
proof -
  have f: "findLikedMusicPlaylist sv_example_env sv_user sv_example_db =
      Inr (Some (sv_liked\<lparr>pl_ID := ''p'', pl_Tracks := [], pl_HasVideos := False\<rparr>))"
    by (simp add: findLikedMusicPlaylist_def liked_candidate_def Get_playlist_def userFilter_def hasVideos_def tracks_of_def
        map_filter_simps trim_space_def is_space_def sv_example_defs)
  have t: "trim_space ''s'' \<noteq> []" "trim_space (usr_ID sv_user) \<noteq> []"
    by (simp_all add: trim_space_def is_space_def sv_user_def)
  have v: "media_visible sv_example_env sv_user ''s'' sv_example_db"
    by (simp add: media_visible_def sv_example_env_def sv_example_db_def empty_MediaFile_def)
  show ?thesis
    using liked_music_synced [OF sv_example_ok f _ _ v t, of True]
    by (auto simp: sv_example_entries sv_liked_def empty_Playlist_def IsSmartPlaylist_def)
qed

end
