(* ===== verification/File_Haunter.thy ===== *)
theory File_Haunter
  imports Prelude "HOL-Library.Word"
begin

text \<open>
  \<open>utils/cache/file_haunter.go\<close>: which files of a disk cache are removed when it has grown over its limits. The
  cache hands out its entries one by one, with what \<open>Stat\<close> returns for them. Sizes are added up in
  \<open>uint64\<close> and can wrap around. \<open>sort.Slice\<close> is not stable: it is a parameter, a permutation ordered by access time.
  Taking the first of an empty slice panics: \<^const>\<open>None\<close>.
\<close>

record cache_entry =
  ce_key :: string
  ce_inUse :: bool
  ce_stat :: "(int \<times> Time) option"

record haunterKV =
  hk_key :: string
  hk_size :: int
  hk_access :: Time

record fileHaunter =
  fh_maxItems :: int
  fh_maxSize :: "64 word"

record scrub_scan =
  sc_count :: int
  sc_size :: "64 word"
  sc_files :: "haunterKV list"
  sc_reap :: "string list"

definition enumerate_entry :: "cache_entry \<Rightarrow> scrub_scan \<Rightarrow> scrub_scan" where
  "enumerate_entry e s =
     (if ce_inUse e then s
      else
        (case ce_stat e of
           None \<Rightarrow> s
         | Some (sz, acc) \<Rightarrow>
             let s1 = (if sz = 0 then s\<lparr>sc_reap := sc_reap s @ [ce_key e]\<rparr> else s)
             in s1\<lparr>sc_count := sc_count s1 + 1, sc_size := sc_size s1 + word_of_int sz,
                  sc_files := sc_files s1 @ [\<lparr>hk_key = ce_key e, hk_size = sz, hk_access = acc\<rparr>]\<rparr>))"

definition scan_entries :: "cache_entry list \<Rightarrow> scrub_scan" where
  "scan_entries entries = fold enumerate_entry entries \<lparr>sc_count = 0, sc_size = 0, sc_files = [], sc_reap = []\<rparr>"

definition removeFirst :: "scrub_scan \<Rightarrow> scrub_scan option" where
  "removeFirst s =
     (case sc_files s of
        [] \<Rightarrow> None
      | f # fs \<Rightarrow> Some (s\<lparr>sc_files := fs, sc_count := sc_count s - 1, sc_size := sc_size s - word_of_int (hk_size f),
          sc_reap := sc_reap s @ [hk_key f]\<rparr>))"

text \<open>The two loops, each until its limit is met.\<close>

function reap_until :: "(scrub_scan \<Rightarrow> bool) \<Rightarrow> scrub_scan \<Rightarrow> scrub_scan option" where
  "reap_until met s =
     (if met s then Some s
      else (case removeFirst s of None \<Rightarrow> None | Some s' \<Rightarrow> reap_until met s'))"
  by pat_completeness auto
termination
  by (relation "measure (\<lambda>(met, s). length (sc_files s))") (auto simp: removeFirst_def split: list.splits)

declare reap_until.simps [simp del]

definition items_met :: "fileHaunter \<Rightarrow> scrub_scan \<Rightarrow> bool" where
  "items_met j s \<longleftrightarrow> fh_maxItems j \<le> 0 \<or> sc_count s \<le> fh_maxItems j"

definition size_met :: "fileHaunter \<Rightarrow> scrub_scan \<Rightarrow> bool" where
  "size_met j s \<longleftrightarrow> fh_maxSize j = 0 \<or> sc_size s \<le> fh_maxSize j"

definition Scrub :: "(haunterKV list \<Rightarrow> haunterKV list) \<Rightarrow> fileHaunter \<Rightarrow> cache_entry list \<Rightarrow> string list option" where
  "Scrub sortFiles j entries =
     (let s = scan_entries entries;
          s1 = s\<lparr>sc_files := sortFiles (sc_files s)\<rparr>
      in case reap_until (items_met j) s1 of
           None \<Rightarrow> None
         | Some s2 \<Rightarrow> map_option sc_reap (reap_until (size_met j) s2))"

subsection \<open>The scan\<close>

text \<open>The files that can be removed.\<close>

definition idle_files :: "cache_entry list \<Rightarrow> haunterKV list" where
  "idle_files entries =
     List.map_filter (\<lambda>e. if ce_inUse e then None
       else map_option (\<lambda>(sz, acc). \<lparr>hk_key = ce_key e, hk_size = sz, hk_access = acc\<rparr>) (ce_stat e)) entries"

definition empty_keys :: "haunterKV list \<Rightarrow> string list" where
  "empty_keys fs = map hk_key (filter (\<lambda>f. hk_size f = 0) fs)"

definition words_of :: "haunterKV list \<Rightarrow> 64 word" where
  "words_of fs = sum_list (map (word_of_int \<circ> hk_size) fs)"

definition scan_ok :: "scrub_scan \<Rightarrow> bool" where
  "scan_ok s \<longleftrightarrow> sc_count s = int (length (sc_files s)) \<and> sc_size s = words_of (sc_files s)"

lemma words_of_simps [simp]:
  "words_of [] = 0" "words_of (f # fs) = word_of_int (hk_size f) + words_of fs"
  "words_of (fs @ gs) = words_of fs + words_of gs"
  by (simp_all add: words_of_def)

lemma words_of_mset: "mset fs = mset gs \<Longrightarrow> words_of fs = words_of gs"
  unfolding words_of_def by (metis mset_map sum_mset_sum_list)

lemma fold_enumerate:
  "fold enumerate_entry entries s =
     s\<lparr>sc_count := sc_count s + int (length (idle_files entries)), sc_size := sc_size s + words_of (idle_files entries),
       sc_files := sc_files s @ idle_files entries, sc_reap := sc_reap s @ empty_keys (idle_files entries)\<rparr>"
proof (induction entries arbitrary: s)
  case (Cons e es)
  show ?case
    by (simp only: fold.simps comp_apply Cons.IH)
      (cases "ce_stat e"; auto simp: enumerate_entry_def idle_files_def map_filter_simps empty_keys_def add.assoc Let_def)
qed (simp add: idle_files_def map_filter_simps empty_keys_def)

lemma scan_entries_eq:
  "scan_entries entries = \<lparr>sc_count = int (length (idle_files entries)), sc_size = words_of (idle_files entries),
     sc_files = idle_files entries, sc_reap = empty_keys (idle_files entries)\<rparr>"
  by (simp add: scan_entries_def fold_enumerate)

subsection \<open>The loops\<close>

text \<open>A loop removes some first files, and not one more than it takes to meet its limit; it never takes one from an
  empty slice, because then the limit is met.\<close>

definition after_reaping :: "nat \<Rightarrow> scrub_scan \<Rightarrow> scrub_scan" where
  "after_reaping n s =
     s\<lparr>sc_files := drop n (sc_files s), sc_count := sc_count s - int n,
       sc_size := sc_size s - words_of (take n (sc_files s)), sc_reap := sc_reap s @ map hk_key (take n (sc_files s))\<rparr>"

lemma after_reaping_0 [simp]: "after_reaping 0 s = s"
  by (simp add: after_reaping_def)

lemma after_reaping_Suc:
  "sc_files s = f # fs \<Longrightarrow> removeFirst s = Some s' \<Longrightarrow> after_reaping n s' = after_reaping (Suc n) s"
  by (auto simp: after_reaping_def removeFirst_def)

lemma after_reaping_ok: "scan_ok s \<Longrightarrow> n \<le> length (sc_files s) \<Longrightarrow> scan_ok (after_reaping n s)"
proof -
  assume ok: "scan_ok s" and n: "n \<le> length (sc_files s)"
  have "words_of (sc_files s) = words_of (take n (sc_files s)) + words_of (drop n (sc_files s))"
    by (metis append_take_drop_id words_of_simps(3))
  with ok n show ?thesis by (simp add: scan_ok_def after_reaping_def)
qed

lemma reap_until_some:
  assumes "scan_ok s" and "\<And>s. scan_ok s \<Longrightarrow> sc_files s = [] \<Longrightarrow> met s"
  shows "\<exists>n \<le> length (sc_files s). reap_until met s = Some (after_reaping n s) \<and> met (after_reaping n s) \<and>
    (\<forall>m < n. \<not> met (after_reaping m s))"
  using assms(1)
proof (induction "length (sc_files s)" arbitrary: s)
  case 0
  with assms(2) have "met s" by simp
  then show ?case by (intro exI [of _ 0]) (simp add: reap_until.simps)
next
  case (Suc k)
  show ?case
  proof (cases "met s")
    case True
    then show ?thesis by (intro exI [of _ 0]) (simp add: reap_until.simps)
  next
    case False
    from Suc.hyps(2) obtain f fs where f: "sc_files s = f # fs" by (cases "sc_files s") auto
    define s' where "s' = after_reaping 1 s"
    have r: "removeFirst s = Some s'" by (simp add: removeFirst_def f s'_def after_reaping_def)
    have "scan_ok s'" "k = length (sc_files s')"
      using after_reaping_ok [OF Suc.prems, of 1] f Suc.hyps(2) by (simp_all add: s'_def after_reaping_def)
    from Suc.hyps(1) [OF this(2,1)] obtain n where n: "n \<le> length (sc_files s')" "reap_until met s' = Some (after_reaping n s')"
      "met (after_reaping n s')" "\<forall>m < n. \<not> met (after_reaping m s')" by blast
    note step = after_reaping_Suc [OF f r]
    have "\<not> met (after_reaping m s)" if "m < Suc n" for m
      using that n(4) False step by (cases m) auto
    moreover have "reap_until met s = Some (after_reaping (Suc n) s)"
      using n(2) False r step by (subst reap_until.simps) simp
    moreover have "Suc n \<le> length (sc_files s)" using n(1) f by (simp add: s'_def after_reaping_def)
    ultimately show ?thesis using n(3) step by (intro exI [of _ "Suc n"]) simp
  qed
qed


subsection \<open>What is removed\<close>

definition sorted_files :: "(haunterKV list \<Rightarrow> haunterKV list) \<Rightarrow> haunterKV list \<Rightarrow> bool" where
  "sorted_files sortFiles fs \<longleftrightarrow> mset (sortFiles fs) = mset fs \<and> sorted (map hk_access (sortFiles fs))"

definition total_size :: "haunterKV list \<Rightarrow> int" where
  "total_size fs = sum_list (map hk_size fs)"

definition over_limits :: "fileHaunter \<Rightarrow> haunterKV list \<Rightarrow> bool" where
  "over_limits j fs \<longleftrightarrow>
     (fh_maxItems j > 0 \<and> int (length fs) > fh_maxItems j) \<or> (fh_maxSize j \<noteq> 0 \<and> total_size fs > uint (fh_maxSize j))"

lemma total_size_nonneg: "\<forall>f \<in> set fs. 0 \<le> hk_size f \<Longrightarrow> 0 \<le> total_size fs"
  by (induction fs) (simp_all add: total_size_def)

lemma words_of_total: "words_of fs = word_of_int (total_size fs)"
  by (induction fs) (simp_all add: total_size_def)

lemma uint_words_of:
  assumes "\<forall>f \<in> set fs. 0 \<le> hk_size f" and "total_size fs < 2 ^ 64"
  shows "uint (words_of fs) = total_size fs"
  using assms total_size_nonneg [OF assms(1)] by (simp add: words_of_total uint_word_of_int)

lemma total_size_drop:
  assumes "\<forall>f \<in> set fs. 0 \<le> hk_size f"
  shows "total_size (drop n fs) \<le> total_size fs"
proof -
  have "total_size fs = total_size (take n fs) + total_size (drop n fs)"
    unfolding total_size_def by (metis append_take_drop_id map_append sum_list_append)
  moreover have "0 \<le> total_size (take n fs)" using assms by (intro total_size_nonneg) (auto dest: in_set_takeD)
  ultimately show ?thesis by simp
qed

lemma limits_words:
  assumes "scan_ok s" and "\<forall>f \<in> set (sc_files s). 0 \<le> hk_size f" and "total_size (sc_files s) < 2 ^ 64"
  shows "over_limits j (sc_files s) \<longleftrightarrow> \<not> (items_met j s \<and> size_met j s)"
  using assms uint_words_of [OF assms(2,3)]
  by (auto simp: over_limits_def items_met_def size_met_def scan_ok_def word_le_def)

lemma scrub_loops:
  assumes "scan_ok s"
  obtains n s2 where "n \<le> length (sc_files s)" "reap_until (items_met j) s = Some s2"
    "reap_until (size_met j) s2 = Some (after_reaping n s)" "items_met j (after_reaping n s)" "size_met j (after_reaping n s)"
    "\<forall>m < n. \<not> (items_met j (after_reaping m s) \<and> size_met j (after_reaping m s))"
proof -
  have empty: "items_met j s" "size_met j s" if "scan_ok s" "sc_files s = []" for s
    using that by (auto simp: items_met_def size_met_def scan_ok_def)
  obtain n1 where n1: "n1 \<le> length (sc_files s)" "reap_until (items_met j) s = Some (after_reaping n1 s)"
    "items_met j (after_reaping n1 s)" "\<forall>m < n1. \<not> items_met j (after_reaping m s)"
    using reap_until_some [OF assms, of "items_met j"] empty(1) by blast
  let ?s1 = "after_reaping n1 s"
  obtain n2 where n2: "n2 \<le> length (sc_files ?s1)" "reap_until (size_met j) ?s1 = Some (after_reaping n2 ?s1)"
    "size_met j (after_reaping n2 ?s1)" "\<forall>m < n2. \<not> size_met j (after_reaping m ?s1)"
    using reap_until_some [OF after_reaping_ok [OF assms n1(1)], of "size_met j"] empty(2) by blast
  have add: "after_reaping m ?s1 = after_reaping (n1 + m) s" for m
    by (simp add: after_reaping_def take_add add.commute [of m n1] diff_diff_eq)
  have "items_met j (after_reaping (n1 + n2) s)"
    using n1(3) by (auto simp: items_met_def after_reaping_def)
  moreover have "\<not> (items_met j (after_reaping m s) \<and> size_met j (after_reaping m s))" if "m < n1 + n2" for m
  proof (cases "m < n1")
    case False
    then have "m - n1 < n2" "m = n1 + (m - n1)" using that by simp_all
    then show ?thesis using n2(4) add [of "m - n1"] by metis
  qed (use n1(4) in blast)
  moreover have "n1 + n2 \<le> length (sc_files s)" using n1(1) n2(1) by (simp add: after_reaping_def)
  ultimately show thesis using that n1(2) n2(2,3) add [of n2] by auto
qed

text \<open>
  the cleanup of a disk cache removes the least recently used files. It never panics; it removes the empty files and the
  first \<open>n\<close> idle files in the order of their last access, for the least \<open>n\<close> such that the others are within both limits.
  The empty files, which go in any case, still count against the limit of items here, so that \<open>n\<close> may be more than what
  is needed. Files in use are never removed.
\<close>

theorem scrub_removes_oldest:
  assumes "sorted_files sortFiles (idle_files entries)" and "list_all (\<lambda>f. 0 \<le> hk_size f) (idle_files entries)"
    and "total_size (idle_files entries) < 2 ^ 64" and "fs = sortFiles (idle_files entries)"
  shows "\<exists>n. n \<le> length fs \<and>
    Scrub sortFiles j entries = Some (empty_keys (idle_files entries) @ map hk_key (take n fs)) \<and>
    \<not> over_limits j (drop n fs) \<and> list_all (\<lambda>m. over_limits j (drop m fs)) [0..<n] \<and>
    list_all (\<lambda>removed. list_all (\<lambda>kept. hk_access removed \<le> hk_access kept) (drop n fs)) (take n fs)"
proof -
  define s where "s = (scan_entries entries)\<lparr>sc_files := fs\<rparr>"
  have perm: "mset fs = mset (idle_files entries)" and srt: "sorted (map hk_access fs)"
    using assms(1,4) by (simp_all add: sorted_files_def)
  have s: "sc_files s = fs" "sc_reap s = empty_keys (idle_files entries)" by (simp_all add: s_def scan_entries_eq)
  have ok: "scan_ok s"
    using perm words_of_mset [OF perm] mset_eq_length [OF perm] by (simp add: scan_ok_def s_def scan_entries_eq)
  have pos: "\<forall>f \<in> set fs. 0 \<le> hk_size f" using assms(2) perm by (metis list_all_iff set_mset_mset)
  have "total_size fs = total_size (idle_files entries)"
    unfolding total_size_def by (metis perm mset_map sum_mset_sum_list)
  then have total: "total_size fs < 2 ^ 64" using assms(3) by simp
  obtain n s2 where n: "n \<le> length (sc_files s)" "reap_until (items_met j) s = Some s2"
    "reap_until (size_met j) s2 = Some (after_reaping n s)" "items_met j (after_reaping n s)" "size_met j (after_reaping n s)"
    "\<forall>m < n. \<not> (items_met j (after_reaping m s) \<and> size_met j (after_reaping m s))"
    by (rule scrub_loops [OF ok])
  have limits: "over_limits j (drop m fs) \<longleftrightarrow> \<not> (items_met j (after_reaping m s) \<and> size_met j (after_reaping m s))"
    if "m \<le> length fs" for m
  proof -
    have "\<forall>f \<in> set (drop m fs). 0 \<le> hk_size f" using pos by (auto dest: in_set_dropD)
    moreover have "total_size (drop m fs) < 2 ^ 64" using total_size_drop [OF pos, of m] total by simp
    moreover have "sc_files (after_reaping m s) = drop m fs" by (simp add: after_reaping_def s(1))
    ultimately show ?thesis using limits_words [OF after_reaping_ok [OF ok], of m j] that s(1) by simp
  qed
  have "Scrub sortFiles j entries = Some (sc_reap (after_reaping n s))"
    using n(2,3) by (simp add: Scrub_def Let_def s_def assms(4) scan_entries_eq)
  then have "Scrub sortFiles j entries = Some (empty_keys (idle_files entries) @ map hk_key (take n fs))"
    by (simp add: after_reaping_def s)
  moreover have "list_all (\<lambda>removed. list_all (\<lambda>kept. hk_access removed \<le> hk_access kept) (drop n fs)) (take n fs)"
  proof -
    have "sorted (map hk_access (take n fs) @ map hk_access (drop n fs))" using srt by (simp flip: map_append)
    then show ?thesis by (auto simp: sorted_append list_all_iff)
  qed
  ultimately show ?thesis
    using n(1,4,5,6) limits s(1) by (intro exI [of _ n]) (simp add: list_all_iff)
qed

definition example_entries :: "cache_entry list" where
  "example_entries =
     [\<lparr>ce_key = ''a'', ce_inUse = False, ce_stat = Some (10, 3)\<rparr>, \<lparr>ce_key = ''b'', ce_inUse = False, ce_stat = Some (5, 1)\<rparr>,
      \<lparr>ce_key = ''c'', ce_inUse = True, ce_stat = Some (99, 0)\<rparr>]"

theorem scrub_removes_oldest_witness:
  "\<exists>n. n \<le> 2 \<and> Scrub (sort_key hk_access) \<lparr>fh_maxItems = 1, fh_maxSize = 100\<rparr> example_entries =
     Some (map hk_key (take n (sort_key hk_access (idle_files example_entries))))"
proof -
  let ?j = "\<lparr>fh_maxItems = 1, fh_maxSize = 100\<rparr>" and ?fs = "sort_key hk_access (idle_files example_entries)"
  have idle: "idle_files example_entries =
      [\<lparr>hk_key = ''a'', hk_size = 10, hk_access = 3\<rparr>, \<lparr>hk_key = ''b'', hk_size = 5, hk_access = 1\<rparr>]"
    by (simp add: idle_files_def example_entries_def map_filter_simps)
  have pre: "sorted_files (sort_key hk_access) (idle_files example_entries)"
    "list_all (\<lambda>f. 0 \<le> hk_size f) (idle_files example_entries)" "total_size (idle_files example_entries) < 2 ^ 64"
    by (simp add: sorted_files_def) (simp_all add: idle total_size_def)
  obtain n where "n \<le> length ?fs"
      "Scrub (sort_key hk_access) ?j example_entries = Some (empty_keys (idle_files example_entries) @ map hk_key (take n ?fs))"
    using scrub_removes_oldest [OF pre refl, of ?j] by blast
  moreover have "empty_keys (idle_files example_entries) = []" "length ?fs = 2" by (simp_all add: idle empty_keys_def)
  ultimately show ?thesis by (metis append_Nil)
qed

end
