(* ===== verification/Edit_Distance.thy ===== *)
theory Edit_Distance
  imports Prelude
begin

text \<open>
  The edit distance behind the fuzzy matches of \<open>core/music/search_ranker.go\<close>. \<open>boundedDistance\<close> computes the rows of
  the usual table one after the other and gives up early; it is compared with what an edit is: one rune inserted, deleted
  or replaced. Strings are the lists of their runes.
\<close>

subsection \<open>The code\<close>

text \<open>One row of the table: \<open>previous\<close> from index \<open>j - 1\<close> on, and \<open>current[j - 1]\<close>.\<close>

fun table_row :: "'r \<Rightarrow> 'r list \<Rightarrow> nat list \<Rightarrow> nat \<Rightarrow> nat list" where
  "table_row x (c # cs) (p # q # ps) left =
     (let v = min (min (left + 1) (q + 1)) (p + (if x \<noteq> c then 1 else 0)) in v # table_row x cs (q # ps) v)"
| "table_row x cs ps left = []"

fun distance_rows :: "'r list \<Rightarrow> 'r list \<Rightarrow> nat \<Rightarrow> nat list \<Rightarrow> bool" where
  "distance_rows [] b i previous = (previous ! length b \<le> 2)"
| "distance_rows (x # xs) b i previous =
     (let current = i # table_row x b previous i
      in if Min (set current) > 2 then False else distance_rows xs b (i + 1) current)"

definition boundedDistance :: "'r list \<Rightarrow> 'r list \<Rightarrow> bool" where
  "boundedDistance left right =
     (if left = [] \<or> right = [] \<or> \<bar>int (length left) - int (length right)\<bar> > 2 then False
      else distance_rows left right 1 [0..<length right + 1])"

subsection \<open>Edits\<close>

inductive edit :: "'r list \<Rightarrow> 'r list \<Rightarrow> bool" where
  insert_rune: "edit s (x # s)"
| delete_rune: "edit (x # s) s"
| replace_rune: "edit (x # s) (y # s)"
| keep_rune: "edit s t \<Longrightarrow> edit (x # s) (x # t)"

definition within_edits :: "nat \<Rightarrow> 'r list \<Rightarrow> 'r list \<Rightarrow> bool" where
  "within_edits n s t \<longleftrightarrow> (\<exists>m \<le> n. (edit ^^ m) s t)"

lemma within_edits_0 [simp]: "within_edits 0 s t \<longleftrightarrow> s = t"
  by (simp add: within_edits_def)

lemma within_edits_Suc: "within_edits (Suc n) s t \<longleftrightarrow> s = t \<or> (\<exists>u. edit s u \<and> within_edits n u t)"
proof
  assume "within_edits (Suc n) s t"
  then obtain m where m: "m \<le> Suc n" "(edit ^^ m) s t" by (auto simp: within_edits_def)
  then show "s = t \<or> (\<exists>u. edit s u \<and> within_edits n u t)"
  proof (cases m)
    case (Suc k)
    with m(2) have "(edit OO edit ^^ k) s t" by (simp add: relpowp_commute del: relpowp.simps) (simp add: relpowp_commute)
    then show ?thesis using m(1) Suc by (auto simp: within_edits_def)
  qed simp
next
  assume "s = t \<or> (\<exists>u. edit s u \<and> within_edits n u t)"
  then show "within_edits (Suc n) s t"
  proof
    assume "\<exists>u. edit s u \<and> within_edits n u t"
    then obtain u m where "edit s u" "m \<le> n" "(edit ^^ m) u t" by (auto simp: within_edits_def)
    then show ?thesis unfolding within_edits_def by (intro exI [of _ "Suc m"]) (metis Suc_le_mono relpowp_Suc_I2)
  qed (auto simp: within_edits_def intro!: exI [of _ 0])
qed

lemma within_edits_mono: "within_edits m s t \<Longrightarrow> m \<le> n \<Longrightarrow> within_edits n s t"
  by (auto simp: within_edits_def intro: le_trans)

lemma edit_context: "edit s t \<Longrightarrow> edit (u @ s) (u @ t)"
  by (induction u) (auto intro: keep_rune)

lemma edit_append: "edit s t \<Longrightarrow> edit (s @ u) (t @ u)"
  by (induction rule: edit.induct) (auto intro: edit.intros)

lemma edit_rev: "edit s t \<Longrightarrow> edit (rev s) (rev t)"
proof (induction rule: edit.induct)
  case (insert_rune s x)
  have "edit (rev s @ []) (rev s @ [x])" by (intro edit_context edit.insert_rune)
  then show ?case by simp
next
  case (delete_rune x s)
  have "edit (rev s @ [x]) (rev s @ [])" by (intro edit_context edit.delete_rune)
  then show ?case by simp
next
  case (replace_rune x s y)
  have "edit (rev s @ [x]) (rev s @ [y])" by (intro edit_context edit.replace_rune)
  then show ?case by simp
next
  case (keep_rune s t x)
  then show ?case by (simp add: edit_append)
qed

lemma within_edits_rev: "within_edits n (rev s) (rev t) \<longleftrightarrow> within_edits n s t"
proof -
  have half: "within_edits n s t \<Longrightarrow> within_edits n (rev s) (rev t)" for s t :: "'a list"
  proof (induction n arbitrary: s)
    case (Suc n)
    then show ?case by (auto simp: within_edits_Suc dest: edit_rev)
  qed simp
  from half [of s t] half [of "rev s" "rev t"] show ?thesis by auto
qed

lemma within_edits_keep: "within_edits n s t \<Longrightarrow> within_edits n (x # s) (x # t)"
proof (induction n arbitrary: s)
  case (Suc n)
  then show ?case by (auto simp: within_edits_Suc dest: keep_rune)
qed simp

subsection \<open>The recursion of the table\<close>

fun lev :: "'r list \<Rightarrow> 'r list \<Rightarrow> nat" where
  "lev [] t = length t"
| "lev (x # s) [] = Suc (length s)"
| "lev (x # s) (y # t) = min (min (lev (x # s) t + 1) (lev s (y # t) + 1)) (lev s t + (if x \<noteq> y then 1 else 0))"

lemma lev_Nil2 [simp]: "lev s [] = length s"
  by (cases s) simp_all

lemma lev_refl [simp]: "lev s s = 0"
  by (induction s) simp_all

lemma lev_Cons_le: "lev (x # s) t \<le> lev s t + 1"
  by (cases t) simp_all

lemma lev_le_Cons: "lev s t \<le> lev (x # s) t + 1"
proof (induction t arbitrary: s x)
  case (Cons y t)
  have "lev s (y # t) \<le> lev s t + 1" for s :: "'a list" by (cases s) simp_all
  with Cons [of s x] show ?case by (fastforce simp: min_def intro: order_trans)
qed simp

lemma lev_replace: "lev (x # s) t \<le> lev (z # s) t + 1"
proof (induction t)
  case (Cons y t)
  then show ?case by (auto simp: min_def)
qed simp

lemma lev_keep:
  assumes "\<And>t. lev a t \<le> lev b t + 1"
  shows "lev (x # a) t \<le> lev (x # b) t + 1"
proof (induction t)
  case Nil
  show ?case using assms [of "[]"] by simp
next
  case (Cons y t)
  then show ?case using assms [of "y # t"] assms [of t] by (simp add: min_def)
qed

lemma lev_edit: "edit s u \<Longrightarrow> lev s t \<le> lev u t + 1"
proof (induction arbitrary: t rule: edit.induct)
  case (insert_rune s x)
  show ?case by (rule lev_le_Cons)
next
  case (delete_rune x s)
  show ?case by (rule lev_Cons_le)
next
  case (replace_rune x s y)
  show ?case by (rule lev_replace)
next
  case (keep_rune s t x)
  show ?case by (rule lev_keep) (rule keep_rune.IH)
qed

lemma within_edits_SucI: "edit s u \<Longrightarrow> within_edits n u t \<Longrightarrow> within_edits (Suc n) s t"
  by (auto simp: within_edits_Suc)

lemma within_edits_insert_all: "within_edits (length t) [] t"
  by (induction t) (auto intro: within_edits_SucI [OF insert_rune] within_edits_keep)

lemma within_edits_delete_all: "within_edits (length s) s []"
  by (induction s) (auto intro: within_edits_SucI [OF delete_rune])

lemma lev_within: "within_edits (lev s t) s t"
proof (induction s t rule: lev.induct)
  case (3 x s y t)
  have ins: "within_edits (Suc (lev (x # s) t)) (x # s) (y # t)"
    by (rule within_edits_SucI [OF insert_rune within_edits_keep [OF 3(1)]])
  have del: "within_edits (Suc (lev s (y # t))) (x # s) (y # t)"
    by (rule within_edits_SucI [OF delete_rune 3(2)])
  have rep: "within_edits (lev s t + (if x \<noteq> y then 1 else 0)) (x # s) (y # t)"
    using within_edits_keep [OF 3(3), of y] within_edits_SucI [OF replace_rune [of x s y]] by auto
  from ins del rep show ?case by (simp add: min_def)
qed (use within_edits_insert_all within_edits_delete_all [of "_ # _"] in auto)

lemma lev_iff: "within_edits n s t \<longleftrightarrow> lev s t \<le> n"
proof
  show "within_edits n s t \<Longrightarrow> lev s t \<le> n"
  proof (induction n arbitrary: s)
    case (Suc n)
    from Suc.prems show ?case unfolding within_edits_Suc
    proof (elim disjE exE conjE)
      fix u
      assume "edit s u" "within_edits n u t"
      with Suc.IH [of u] lev_edit [of s u t] show ?thesis by simp
    qed simp
  qed simp
  show "lev s t \<le> n \<Longrightarrow> within_edits n s t" using lev_within within_edits_mono by blast
qed

lemma lev_length: "length s \<le> lev s t + length t" "length t \<le> lev s t + length s"
  by (induction s t rule: lev.induct) auto

subsection \<open>The rows of the code\<close>

text \<open>Entry \<open>j\<close> of row \<open>i\<close> is the distance of the first \<open>i\<close> runes to the first \<open>j\<close>.\<close>

definition prefix_dist :: "'r list \<Rightarrow> 'r list \<Rightarrow> nat \<Rightarrow> nat" where
  "prefix_dist s b j = lev (rev s) (rev (take j b))"

definition dist_row :: "'r list \<Rightarrow> 'r list \<Rightarrow> nat list" where
  "dist_row s b = map (prefix_dist s b) [0..<length b + 1]"

lemma prefix_dist_0 [simp]: "prefix_dist s b 0 = length s"
  by (simp add: prefix_dist_def)

lemma prefix_dist_step:
  "j < length b \<Longrightarrow> prefix_dist (s @ [x]) b (Suc j) =
     min (min (prefix_dist (s @ [x]) b j + 1) (prefix_dist s b (Suc j) + 1)) (prefix_dist s b j + (if x \<noteq> b ! j then 1 else 0))"
  by (simp add: prefix_dist_def take_Suc_conv_app_nth)

lemma table_row_dist:
  "j \<le> length b \<Longrightarrow> table_row x (drop j b) (map (prefix_dist s b) [j..<length b + 1]) (prefix_dist (s @ [x]) b j) =
     map (prefix_dist (s @ [x]) b) [j + 1..<length b + 1]"
proof (induction "length b - j" arbitrary: j)
  case 0
  then show ?case by simp
next
  case (Suc k)
  then have j: "j < length b" by simp
  have rows: "[j..<length b + 1] = j # Suc j # [Suc (Suc j)..<length b + 1]" "[j + 1..<length b + 1] = Suc j # [Suc j + 1..<length b + 1]"
    using j by (simp_all add: upt_conv_Cons del: upt_Suc)
  have tail: "map (prefix_dist s b) [Suc j..<length b + 1] = prefix_dist s b (Suc j) # map (prefix_dist s b) [Suc (Suc j)..<length b + 1]"
    using j by (simp add: upt_conv_Cons del: upt_Suc)
  have d: "drop j b = b ! j # drop (Suc j) b" using j by (simp add: Cons_nth_drop_Suc)
  from Suc.hyps(1) [of "Suc j"] Suc.hyps(2) j
  have "table_row x (drop (Suc j) b) (map (prefix_dist s b) [Suc j..<length b + 1]) (prefix_dist (s @ [x]) b (Suc j)) =
      map (prefix_dist (s @ [x]) b) [Suc j + 1..<length b + 1]" by simp
  then show ?case
    unfolding rows d list.map table_row.simps Let_def prefix_dist_step [OF j, symmetric] tail by simp
qed

lemma next_row: "Suc (length s) # table_row x b (dist_row s b) (Suc (length s)) = dist_row (s @ [x]) b"
proof -
  have "[0..<length b + 1] = 0 # [0 + 1..<length b + 1]" by (simp add: upt_conv_Cons del: upt_Suc)
  then show ?thesis using table_row_dist [of 0 b x s] by (simp add: dist_row_def del: upt_Suc)
qed

lemma row_grows:
  assumes "\<forall>j \<le> length b. m < prefix_dist s b j"
  shows "j \<le> length b \<Longrightarrow> m < prefix_dist (s @ [x]) b j"
proof (induction j)
  case 0
  show ?case using assms by (metis le0 length_append_singleton less_Suc_eq prefix_dist_0)
next
  case (Suc j)
  then have "m < prefix_dist (s @ [x]) b j" "m < prefix_dist s b (Suc j)" "m < prefix_dist s b j" using assms by auto
  with Suc.prems show ?case by (simp add: prefix_dist_step)
qed

lemma rows_grow:
  "\<forall>j \<le> length b. m < prefix_dist s b j \<Longrightarrow> j \<le> length b \<Longrightarrow> m < prefix_dist (s @ u) b j"
proof (induction u arbitrary: s j)
  case (Cons x u)
  from Cons.IH [of "s @ [x]"] row_grows [OF Cons.prems(1)] Cons.prems(2) show ?case by simp
qed simp

lemma distance_rows_eq:
  "distance_rows u b (Suc (length s)) (dist_row s b) \<longleftrightarrow> prefix_dist (s @ u) b (length b) \<le> 2"
proof (induction u arbitrary: s)
  case Nil
  show ?case by (simp add: dist_row_def del: upt_Suc)
next
  case (Cons x u)
  let ?row = "dist_row (s @ [x]) b"
  show ?case
  proof (cases "Min (set ?row) > 2")
    case True
    then have "\<forall>j \<le> length b. 2 < prefix_dist (s @ [x]) b j"
      by (auto simp: dist_row_def less_Suc_eq_le simp del: upt_Suc)
    from rows_grow [OF this, of "length b" u] have "\<not> prefix_dist (s @ x # u) b (length b) \<le> 2" by simp
    with True show ?thesis by (simp add: Let_def next_row)
  next
    case False
    with Cons [of "s @ [x]"] show ?thesis by (simp add: Let_def next_row)
  qed
qed

text \<open>
  C13: the bounded edit distance is right: two strings match exactly when neither is empty and at most two
  insertions, deletions and replacements of a rune turn one into the other. Neither the cut on the lengths nor giving up on
  a row loses a match.
\<close>

theorem boundedDistance_correct:
  "boundedDistance left right \<longleftrightarrow> left \<noteq> [] \<and> right \<noteq> [] \<and> within_edits 2 left right"
proof -
  have row: "dist_row [] right = [0..<length right + 1]"
    by (rule nth_equalityI) (simp_all add: dist_row_def prefix_dist_def del: upt_Suc)
  have "distance_rows left right 1 [0..<length right + 1] \<longleftrightarrow> within_edits 2 left right"
    using distance_rows_eq [of left right "[]"] within_edits_rev [of 2 left right] by (simp add: row prefix_dist_def lev_iff)
  moreover have "\<bar>int (length left) - int (length right)\<bar> > 2 \<Longrightarrow> \<not> within_edits 2 left right"
    using lev_length [where s = left and t = right] by (auto simp: lev_iff)
  ultimately show ?thesis by (auto simp: boundedDistance_def)
qed

end
