(* ===== verification/Music_Search.thy ===== *)
theory Music_Search
  imports Media_File Edit_Distance "HOL-Library.List_Lexorder" "HOL-Library.Char_ord" "HOL-Library.Sublist"
begin

text \<open>
  \<open>core/music/search_ranker.go\<close> with the types of \<open>model/external_music.go\<close>: one ranking for the artists, albums, songs
  and genres that a search of the external catalog returns, after duplicates are merged. A hit points to
  exactly one entity, so it is a datatype. Scores are rationals; \<open>math.Log1p\<close> is a parameter; \<open>affinities\<close> is the score of a
  key, zero for a missing one. Letters and digits are those of ASCII.
\<close>

record ExternalArtist =
  xa_ID :: string
  xa_Name :: string
  xa_Country :: string
  xa_Disambiguation :: string
  xa_Type :: string
  xa_Aliases :: "string list"
  xa_ProviderScore :: rat
  xa_Popularity :: rat

record ExternalAlbum =
  xb_ID :: string
  xb_Title :: string
  xb_ArtistID :: string
  xb_ArtistName :: string
  xb_ReleaseDate :: string
  xb_Year :: int
  xb_Type :: string
  xb_ArtworkURLs :: "string list"
  xb_ProviderScore :: rat
  xb_Popularity :: rat

record ExternalTrack =
  xt_ID :: string
  xt_Source :: string
  xt_LocalMediaFileID :: string
  xt_Title :: string
  xt_ArtistID :: string
  xt_ArtistName :: string
  xt_AlbumID :: string
  xt_AlbumTitle :: string
  xt_ReleaseDate :: string
  xt_Year :: int
  xt_Duration :: int
  xt_TrackNumber :: int
  xt_DiscNumber :: int
  xt_Genre :: string
  xt_ArtworkURLs :: "string list"
  xt_ISRCs :: "string list"
  xt_Video :: bool
  xt_Version :: string
  xt_ProviderScore :: rat
  xt_Popularity :: rat

record ExternalGenre =
  xg_Name :: string
  xg_ProviderScore :: rat

datatype ExternalSearchHit = ArtistHit ExternalArtist | AlbumHit ExternalAlbum | SongHit ExternalTrack | GenreHit ExternalGenre

record ExternalMusicSearch =
  xs_Results :: "ExternalSearchHit list"
  xs_Partial :: bool
  xs_DegradedSources :: "string list"
  xs_Artists :: "ExternalArtist list"
  xs_Albums :: "ExternalAlbum list"
  xs_Songs :: "ExternalTrack list"
  xs_Genres :: "ExternalGenre list"

definition DeriveCompatibilityArrays :: "ExternalMusicSearch \<Rightarrow> ExternalMusicSearch" where
  "DeriveCompatibilityArrays s =
     s\<lparr>xs_Artists := List.map_filter (\<lambda>h. case h of ArtistHit a \<Rightarrow> Some a | _ \<Rightarrow> None) (xs_Results s),
      xs_Albums := List.map_filter (\<lambda>h. case h of AlbumHit a \<Rightarrow> Some a | _ \<Rightarrow> None) (xs_Results s),
      xs_Songs := List.map_filter (\<lambda>h. case h of SongHit a \<Rightarrow> Some a | _ \<Rightarrow> None) (xs_Results s),
      xs_Genres := List.map_filter (\<lambda>h. case h of GenreHit a \<Rightarrow> Some a | _ \<Rightarrow> None) (xs_Results s)\<rparr>"

definition kindArtist :: string where "kindArtist = ''artist''"
definition kindAlbum :: string where "kindAlbum = ''album''"
definition kindSong :: string where "kindSong = ''song''"
definition kindGenre :: string where "kindGenre = ''genre''"

lemmas kind_defs = kindArtist_def kindAlbum_def kindSong_def kindGenre_def

record searchCandidate =
  cd_hit :: ExternalSearchHit
  cd_kind :: string
  cd_id :: string
  cd_primary :: string
  cd_context :: string
  cd_secondary :: string
  cd_provider :: rat
  cd_popularity :: rat
  cd_affinity :: rat
  cd_tier :: int
  cd_score :: rat

subsection \<open>Text\<close>

definition is_alnum :: "char \<Rightarrow> bool" where
  "is_alnum c \<longleftrightarrow> (48 \<le> byte_of c \<and> byte_of c \<le> 57) \<or> (65 \<le> byte_of c \<and> byte_of c \<le> 90) \<or> (97 \<le> byte_of c \<and> byte_of c \<le> 122)"

fun normalize_runes :: "bool \<Rightarrow> string \<Rightarrow> string \<Rightarrow> string" where
  "normalize_runes space built [] = built"
| "normalize_runes space built (r # rs) =
     (if is_alnum r then normalize_runes False (built @ (if space \<and> built \<noteq> [] then '' '' else []) @ [r]) rs
      else normalize_runes True built rs)"

definition normalizeText :: "string \<Rightarrow> string" where
  "normalizeText value = normalize_runes False [] (to_lower value)"

definition str_contains :: "string \<Rightarrow> string \<Rightarrow> bool" where
  "str_contains s sub = sublist sub s"

text \<open>\<open>strings.Fields\<close>.\<close>

function fields :: "string \<Rightarrow> string list" where
  "fields [] = []"
| "fields (c # s) =
     (if is_space c then fields s
      else (c # takeWhile (\<lambda>d. \<not> is_space d) s) # fields (dropWhile (\<lambda>d. \<not> is_space d) s))"
  by pat_completeness auto
termination by (relation "measure length") (auto simp: le_imp_less_Suc length_dropWhile_le)

definition tokenCoverage :: "string \<Rightarrow> string \<Rightarrow> rat" where
  "tokenCoverage query value =
     (let tokens = fields (normalizeText query);
          haystack = '' '' @ normalizeText value @ '' '';
          matched = length (filter (\<lambda>token. str_contains haystack ('' '' @ token @ '' '')) tokens)
      in if tokens = [] then 0 else of_nat matched / of_nat (length tokens))"

definition version_markers :: "string list" where
  "version_markers = [''live'', ''remix'', ''acoustic'', ''instrumental'', ''radio edit'', ''karaoke'', ''video'', ''remastered'',
     ''remaster'', ''demo'']"

definition versionMarker :: "string \<Rightarrow> string" where
  "versionMarker value =
     (let text = '' '' @ normalizeText value @ '' ''
      in case find (\<lambda>marker. str_contains text ('' '' @ marker @ '' '')) version_markers of
           None \<Rightarrow> []
         | Some marker \<Rightarrow> if marker = ''remastered'' then ''remaster'' else marker)"

definition songVersion :: "ExternalTrack \<Rightarrow> string" where
  "songVersion song =
     (if xt_Video song then ''video''
      else if xt_Version song \<noteq> [] then
        let version = normalizeText (xt_Version song); marker = versionMarker version
        in if marker \<noteq> [] then marker else version
      else let marker = versionMarker (xt_Title song) in if marker \<noteq> [] then marker else ''original'')"

definition sharedISRC :: "string list \<Rightarrow> string list \<Rightarrow> bool" where
  "sharedISRC left right = list_ex (\<lambda>a. list_ex (\<lambda>b. equal_fold a b) right) left"

definition earlierDate :: "string \<Rightarrow> string \<Rightarrow> bool" where
  "earlierDate left right \<longleftrightarrow> left \<noteq> [] \<and> (right = [] \<or> left < right)"

subsection \<open>Candidates and duplicates\<close>

definition new_candidate :: "ExternalSearchHit \<Rightarrow> string \<Rightarrow> string \<Rightarrow> string \<Rightarrow> string \<Rightarrow> string \<Rightarrow> rat \<Rightarrow> rat \<Rightarrow> searchCandidate" where
  "new_candidate hit kind i primary ctxt secondary provider popularity =
     \<lparr>cd_hit = hit, cd_kind = kind, cd_id = i, cd_primary = primary, cd_context = ctxt, cd_secondary = secondary,
      cd_provider = provider, cd_popularity = popularity, cd_affinity = 0, cd_tier = 0, cd_score = 0\<rparr>"

definition normalizeCandidates :: "ExternalMusicSearch \<Rightarrow> searchCandidate list" where
  "normalizeCandidates result =
     map (\<lambda>a. new_candidate (ArtistHit a) kindArtist (xa_ID a) (xa_Name a) [] (join '' '' (xa_Disambiguation a # xa_Aliases a))
            (xa_ProviderScore a) (xa_Popularity a)) (xs_Artists result) @
     map (\<lambda>a. new_candidate (AlbumHit a) kindAlbum (xb_ID a) (xb_Title a) (xb_ArtistName a) (xb_Type a)
            (xb_ProviderScore a) (xb_Popularity a)) (xs_Albums result) @
     map (\<lambda>a. new_candidate (SongHit a) kindSong (xt_ID a) (xt_Title a) (xt_ArtistName a @ '' '' @ xt_AlbumTitle a) (xt_Genre a)
            (xt_ProviderScore a) (xt_Popularity a)) (xs_Songs result) @
     map (\<lambda>a. new_candidate (GenreHit a) kindGenre (normalizeText (xg_Name a)) (xg_Name a) [] [] (xg_ProviderScore a) 0)
       (xs_Genres result)"

definition upper_byte :: "char \<Rightarrow> char" where
  "upper_byte c = (if 97 \<le> byte_of c \<and> byte_of c \<le> 122 then char_of (byte_of c - 32) else c)"

definition nul :: string where "nul = [CHR 0x00]"

definition song_key :: "ExternalTrack \<Rightarrow> string" where
  "song_key song =
     (if xt_Source song = ''library'' then ''library-song:'' @ xt_ID song
      else
        let artistTitle = normalizeText (xt_ArtistName song) @ nul @ normalizeText (xt_Title song)
        in case xt_ISRCs song of
             isrc # _ \<Rightarrow> ''song:'' @ ''isrc:'' @ map upper_byte isrc @ nul @ artistTitle @ nul @ songVersion song
           | [] \<Rightarrow> ''song:'' @ artistTitle @ nul @ songVersion song @ nul @ itoa (go_div (xt_Duration song) 2))"

definition dedupeKey :: "searchCandidate \<Rightarrow> string" where
  "dedupeKey candidate = (case cd_hit candidate of SongHit song \<Rightarrow> song_key song | _ \<Rightarrow> cd_kind candidate @ '':'' @ cd_id candidate)"

definition equivalent_song :: "ExternalTrack \<Rightarrow> searchCandidate \<Rightarrow> bool" where
  "equivalent_song right existing \<longleftrightarrow>
     (case cd_hit existing of
        SongHit left \<Rightarrow>
          xt_Source left = xt_Source right \<and> songVersion left = songVersion right \<and>
          normalizeText (xt_ArtistName left) = normalizeText (xt_ArtistName right) \<and>
          normalizeText (xt_Title left) = normalizeText (xt_Title right) \<and>
          (sharedISRC (xt_ISRCs left) (xt_ISRCs right) \<or>
           xt_ISRCs left = [] \<and> xt_ISRCs right = [] \<and> \<bar>xt_Duration left - xt_Duration right\<bar> \<le> 2)
      | _ \<Rightarrow> False)"

definition equivalentSongIndex :: "searchCandidate list \<Rightarrow> searchCandidate \<Rightarrow> nat option" where
  "equivalentSongIndex existing candidate =
     (case cd_hit candidate of SongHit right \<Rightarrow> index_where (equivalent_song right) existing | _ \<Rightarrow> None)"

definition merge_songs :: "rat \<Rightarrow> ExternalTrack \<Rightarrow> ExternalTrack \<Rightarrow> searchCandidate \<Rightarrow> searchCandidate" where
  "merge_songs popularity left right destination =
     (let localID = (if xt_LocalMediaFileID left = [] then xt_LocalMediaFileID right else xt_LocalMediaFileID left)
      in if xt_Video left \<and> \<not> xt_Video right \<or> \<not> xt_Video right \<and> earlierDate (xt_ReleaseDate right) (xt_ReleaseDate left)
         then destination\<lparr>cd_hit := SongHit (right\<lparr>xt_Popularity := popularity, xt_LocalMediaFileID := localID\<rparr>), cd_id := xt_ID right\<rparr>
         else destination\<lparr>cd_hit := SongHit (left\<lparr>xt_LocalMediaFileID := localID\<rparr>)\<rparr>)"

definition mergeCandidate :: "searchCandidate \<Rightarrow> searchCandidate \<Rightarrow> searchCandidate" where
  "mergeCandidate destination source =
     (let d1 = (if cd_popularity source > cd_popularity destination then destination\<lparr>cd_popularity := cd_popularity source\<rparr> else destination);
          d2 = (if cd_provider source > cd_provider d1 then d1\<lparr>cd_provider := cd_provider source\<rparr> else d1)
      in case (cd_hit d2, cd_hit source) of
           (SongHit left, SongHit right) \<Rightarrow> merge_songs (cd_popularity d2) left right d2
         | _ \<Rightarrow> d2)"

definition is_catalog_song :: "searchCandidate \<Rightarrow> bool" where
  "is_catalog_song c \<longleftrightarrow> (case cd_hit c of SongHit song \<Rightarrow> xt_Source song \<noteq> ''library'' | _ \<Rightarrow> False)"

definition merge_at :: "nat \<Rightarrow> searchCandidate \<Rightarrow> searchCandidate list \<Rightarrow> searchCandidate list" where
  "merge_at i c out = out[i := mergeCandidate (out ! i) c]"

definition dedupe_step :: "searchCandidate \<Rightarrow> searchCandidate list \<times> (string \<Rightarrow> nat option) \<Rightarrow> searchCandidate list \<times> (string \<Rightarrow> nat option)" where
  "dedupe_step c st =
     (let (out, byKey) = st; key = dedupeKey c
      in case (if is_catalog_song c then equivalentSongIndex out c else None) of
           Some i \<Rightarrow> (merge_at i c out, byKey)
         | None \<Rightarrow>
             (case byKey key of
                Some i \<Rightarrow> (merge_at i c out, byKey)
              | None \<Rightarrow> (out @ [c], byKey(key \<mapsto> length out))))"

definition deduplicateCandidates :: "searchCandidate list \<Rightarrow> searchCandidate list" where
  "deduplicateCandidates input = fst (fold dedupe_step input ([], Map.empty))"

subsection \<open>Ranking\<close>

definition matchTier :: "string \<Rightarrow> searchCandidate \<Rightarrow> int" where
  "matchTier query candidate =
     (let q = normalizeText query; primary = normalizeText (cd_primary candidate); contextText = normalizeText (cd_context candidate)
      in if q = [] then 6
         else if equal_fold (trim_space query) (cd_id candidate) then 1
         else if (case cd_hit candidate of
                    SongHit song \<Rightarrow>
                      let artist = normalizeText (xt_ArtistName song)
                      in q = trim_space (artist @ '' '' @ primary) \<or> q = trim_space (primary @ '' '' @ artist)
                  | _ \<Rightarrow> False) then 1
         else if q = primary then 2
         else if has_prefix primary q \<or> str_contains primary q then 3
         else if tokenCoverage q (primary @ '' '' @ contextText) = 1 then 4
         else if boundedDistance q primary then 5
         else 6)"

definition popularity_values :: "(rat \<Rightarrow> rat) \<Rightarrow> searchCandidate list \<Rightarrow> string \<Rightarrow> rat list" where
  "popularity_values log1p cs kind = sort (map (\<lambda>c. log1p (cd_popularity c)) (filter (\<lambda>c. cd_popularity c > 0 \<and> cd_kind c = kind) cs))"

definition normalizePopularity :: "(rat \<Rightarrow> rat) \<Rightarrow> searchCandidate list \<Rightarrow> searchCandidate list" where
  "normalizePopularity log1p cs =
     map (\<lambda>c. let values = popularity_values log1p cs (cd_kind c)
              in if values = [] \<or> cd_popularity c \<le> 0 then c\<lparr>cd_popularity := 0\<rparr>
                 else c\<lparr>cd_popularity := of_nat (length (takeWhile (\<lambda>v. v < log1p (cd_popularity c)) values) + 1) / of_nat (length values)\<rparr>) cs"

definition intentFit :: "string \<Rightarrow> string \<Rightarrow> rat" where
  "intentFit query kind =
     (let q = normalizeText query
      in if str_contains q kind \<or> (kind = kindSong \<and> str_contains q ''track'') then 1 else 1 / 2)"

definition count_true :: "bool list \<Rightarrow> rat" where
  "count_true bs = of_nat (length (filter id bs))"

definition metadataQuality :: "ExternalSearchHit \<Rightarrow> rat" where
  "metadataQuality hit =
     (case hit of
        ArtistHit a \<Rightarrow> count_true [xa_Name a \<noteq> [], xa_Country a \<noteq> [] \<or> xa_Type a \<noteq> []] / 2
      | AlbumHit a \<Rightarrow> count_true [xb_Title a \<noteq> [], xb_ArtistName a \<noteq> [], xb_ReleaseDate a \<noteq> [], xb_ArtworkURLs a \<noteq> []] / 4
      | SongHit s \<Rightarrow> count_true [xt_Title s \<noteq> [], xt_ArtistName s \<noteq> [], xt_AlbumTitle s \<noteq> [], xt_Duration s > 0, xt_ArtworkURLs s \<noteq> []] / 5
      | GenreHit g \<Rightarrow> count_true [xg_Name g \<noteq> []] / 1)"

definition clamp01 :: "rat \<Rightarrow> rat" where
  "clamp01 v = (if v < 0 then 0 else if v > 1 then 1 else v)"

definition candidateKey :: "searchCandidate \<Rightarrow> string" where
  "candidateKey candidate = cd_kind candidate @ '':'' @ cd_id candidate"

definition score_candidate :: "string \<Rightarrow> (string \<Rightarrow> rat) \<Rightarrow> searchCandidate \<Rightarrow> searchCandidate" where
  "score_candidate query affinities candidate =
     (let tier = matchTier query candidate; affinity = affinities (candidateKey candidate);
          coverage = tokenCoverage query (cd_primary candidate @ '' '' @ cd_context candidate @ '' '' @ cd_secondary candidate);
          intent = intentFit query (cd_kind candidate); quality = metadataQuality (cd_hit candidate)
      in candidate\<lparr>cd_tier := tier, cd_affinity := affinity,
           cd_score := 40/100 * clamp01 (cd_provider candidate) + 35/100 * clamp01 (cd_popularity candidate) +
             10/100 * coverage + 7/100 * clamp01 affinity + 5/100 * intent + 3/100 * quality\<rparr>)"

text \<open>\<open>sort.SliceStable\<close> by tier, score, kind and id: the stable sorts of its keys, the last one first.\<close>

definition sort_candidates :: "searchCandidate list \<Rightarrow> searchCandidate list" where
  "sort_candidates cs = sort_key cd_tier (sort_key (\<lambda>c. - cd_score c) (sort_key cd_kind (sort_key cd_id cs)))"

definition ranked_candidates :: "(rat \<Rightarrow> rat) \<Rightarrow> string \<Rightarrow> ExternalMusicSearch \<Rightarrow> (string \<Rightarrow> rat) \<Rightarrow> searchCandidate list" where
  "ranked_candidates log1p query result affinities =
     sort_candidates (map (score_candidate query affinities)
       (normalizePopularity log1p (deduplicateCandidates (normalizeCandidates result))))"

definition rankExternalSearch :: "(rat \<Rightarrow> rat) \<Rightarrow> string \<Rightarrow> ExternalMusicSearch \<Rightarrow> int \<Rightarrow> (string \<Rightarrow> rat) \<Rightarrow> ExternalMusicSearch" where
  "rankExternalSearch log1p query result maxHits affinities =
     (let m1 = (if maxHits < 1 then 30 else maxHits); m2 = (if m1 > 50 then 50 else m1);
          candidates = ranked_candidates log1p query result affinities;
          kept = (if int (length candidates) > m2 then take (nat m2) candidates else candidates)
      in DeriveCompatibilityArrays (result\<lparr>xs_Results := map cd_hit kept\<rparr>))"

subsection \<open>Text in normal form\<close>

lemma normalize_runes_chars:
  "c \<in> set (normalize_runes space built s) \<Longrightarrow> c \<in> set built \<or> c = CHR '' '' \<or> is_alnum c"
  by (induction space built s rule: normalize_runes.induct) (auto split: if_splits)

lemma normalizeText_chars: "c \<in> set (normalizeText s) \<Longrightarrow> c = CHR '' '' \<or> is_alnum c"
  using normalize_runes_chars [of c False "[]"] by (auto simp: normalizeText_def)

lemma find_in_set: "find p xs = Some x \<Longrightarrow> x \<in> set xs"
  by (induction xs) (auto split: if_splits)

lemma versionMarker_chars: "c \<in> set (versionMarker s) \<Longrightarrow> c = CHR '' '' \<or> is_alnum c"
proof -
  have "list_all (\<lambda>m. list_all (\<lambda>c. c = CHR '' '' \<or> is_alnum c) m) version_markers"
    by (simp add: version_markers_def is_alnum_def)
  then have marker: "m \<in> set version_markers \<Longrightarrow> list_all (\<lambda>c. c = CHR '' '' \<or> is_alnum c) m" for m
    unfolding list_all_iff [of _ version_markers] by blast
  have remaster: "list_all (\<lambda>c. c = CHR '' '' \<or> is_alnum c) ''remaster''" by (simp add: is_alnum_def)
  have "list_all (\<lambda>c. c = CHR '' '' \<or> is_alnum c) (versionMarker s)"
  proof (cases "find (\<lambda>marker. str_contains ('' '' @ normalizeText s @ '' '') ('' '' @ marker @ '' '')) version_markers")
    case None
    then show ?thesis unfolding versionMarker_def Let_def by (simp only: option.case list.pred_inject)
  next
    case (Some m)
    then show ?thesis using marker [OF find_in_set [OF Some]] remaster
      unfolding versionMarker_def Let_def by (simp only: option.case split: if_split) blast
  qed
  then show "c \<in> set (versionMarker s) \<Longrightarrow> c = CHR '' '' \<or> is_alnum c" by (auto simp: list_all_iff)
qed

lemma songVersion_chars: "c \<in> set (songVersion song) \<Longrightarrow> c = CHR '' '' \<or> is_alnum c"
  unfolding songVersion_def Let_def
  by (auto dest: versionMarker_chars normalizeText_chars simp: is_alnum_def split: if_splits)

subsection \<open>What a candidate stands for\<close>

datatype entity = Entity string string | LibrarySong string | Recording string string string

definition song_entity :: "ExternalTrack \<Rightarrow> entity" where
  "song_entity s =
     (if xt_Source s = ''library'' then LibrarySong (xt_ID s)
      else Recording (normalizeText (xt_ArtistName s)) (normalizeText (xt_Title s)) (songVersion s))"

definition entity_of :: "searchCandidate \<Rightarrow> entity" where
  "entity_of c = (case cd_hit c of SongHit s \<Rightarrow> song_entity s | _ \<Rightarrow> Entity (cd_kind c) (cd_id c))"

definition hit_kind :: "ExternalSearchHit \<Rightarrow> string" where
  "hit_kind hit = (case hit of ArtistHit _ \<Rightarrow> kindArtist | AlbumHit _ \<Rightarrow> kindAlbum | SongHit _ \<Rightarrow> kindSong | GenreHit _ \<Rightarrow> kindGenre)"

definition candidate_ok :: "searchCandidate \<Rightarrow> bool" where
  [inv_defs]: "candidate_ok c \<longleftrightarrow> cd_kind c = hit_kind (cd_hit c)"

lemma normalizeCandidates_ok: "c \<in> set (normalizeCandidates result) \<Longrightarrow> candidate_ok c"
  by (auto simp: normalizeCandidates_def new_candidate_def candidate_ok_def hit_kind_def)

text \<open>The key of a recording determines it: its parts are separated by a byte they do not contain.\<close>

lemma nul_free:
  "CHR 0x00 \<notin> set (normalizeText s)" "CHR 0x00 \<notin> set (songVersion t)"
  by (auto dest!: normalizeText_chars songVersion_chars simp: is_alnum_def)

lemma split_nul:
  fixes z :: char
  assumes "z \<notin> set a" "z \<notin> set b" "a @ z # x = b @ z # y"
  shows "a = b \<and> x = y"
proof -
  have "split2 z (a @ z # x) = Some (a, x)" "split2 z (b @ z # y) = Some (b, y)"
    by (rule split2_append, rule assms)+
  then show ?thesis unfolding assms(3) by simp
qed

lemma split_nul_last:
  fixes z :: char
  assumes "z \<notin> set x" "z \<notin> set y" "a @ z # x = b @ z # y"
  shows "a = b \<and> x = y"
proof -
  have "rev x @ z # rev a = rev y @ z # rev b" using arg_cong [OF assms(3), of rev] by simp
  from split_nul [OF _ _ this] assms(1,2) show ?thesis by simp
qed

lemma itoa_nul_free: "CHR 0x00 \<notin> set (itoa i)" "CHR '':'' \<notin> set (itoa i)"
  by (auto dest!: itoa_chars)

lemma colon_free: "CHR '':'' \<notin> set (normalizeText s)" "CHR '':'' \<notin> set (songVersion t)"
  by (auto dest!: normalizeText_chars songVersion_chars simp: is_alnum_def)

lemma song_key_entity:
  assumes "song_key s = song_key t"
  shows "song_entity s = song_entity t"
proof (cases "xt_Source s = ''library'' \<or> xt_Source t = ''library''")
  case True
  then show ?thesis using assms by (auto simp: song_key_def song_entity_def Let_def split: if_splits list.splits)
next
  case False
  let ?z = "CHR 0x00"
  let ?isrc = "\<lambda>u s. ((''isrc:'' @ u @ ?z # normalizeText (xt_ArtistName s)) @ ?z # normalizeText (xt_Title s)) @ ?z # songVersion s"
  let ?plain = "\<lambda>s. normalizeText (xt_ArtistName s) @ ?z # normalizeText (xt_Title s) @ ?z # songVersion s @ ?z # itoa (go_div (xt_Duration s) 2)"
  have key: "song_key s = ''song:'' @ (case xt_ISRCs s of [] \<Rightarrow> ?plain s | u # us \<Rightarrow> ?isrc (map upper_byte u) s)"
    if "xt_Source s \<noteq> ''library''" for s
    using that by (simp add: song_key_def nul_def split: list.split)
  from assms False have eq: "(case xt_ISRCs s of [] \<Rightarrow> ?plain s | u # us \<Rightarrow> ?isrc (map upper_byte u) s) =
      (case xt_ISRCs t of [] \<Rightarrow> ?plain t | u # us \<Rightarrow> ?isrc (map upper_byte u) t)"
    by (simp only: key de_Morgan_disj not_False_eq_True simp_thms same_append_eq)
  have colon: "CHR '':'' \<in> set (?isrc u r)" "CHR '':'' \<notin> set (?plain r)" for u r
    by (simp_all add: colon_free itoa_nul_free)
  have same: "normalizeText (xt_ArtistName s) = normalizeText (xt_ArtistName t) \<and>
      normalizeText (xt_Title s) = normalizeText (xt_Title t) \<and> songVersion s = songVersion t"
  proof (cases "xt_ISRCs s")
    case Nil
    have "?plain s = ?plain t"
    proof (cases "xt_ISRCs t")
      case (Cons v vs)
      with eq Nil have "?plain s = ?isrc (map upper_byte v) t" by (simp only: list.case)
      then show ?thesis using colon by metis
    qed (use eq Nil in \<open>simp only: list.case\<close>)
    from split_nul [OF nul_free(1) nul_free(1) this] split_nul [OF nul_free(1) nul_free(1)] split_nul [OF nul_free(2) nul_free(2)]
    show ?thesis by metis
  next
    case (Cons u us)
    obtain v where "?isrc (map upper_byte u) s = ?isrc (map upper_byte v) t"
    proof (cases "xt_ISRCs t")
      case Nil
      with eq Cons have "?isrc (map upper_byte u) s = ?plain t" by (simp only: list.case)
      then show ?thesis using colon by metis
    next
      case (Cons v vs)
      with eq \<open>xt_ISRCs s = u # us\<close> show ?thesis by (simp only: list.case that)
    qed
    from split_nul_last [OF nul_free(2) nul_free(2) this]
    have v: "songVersion s = songVersion t" and
      r: "(''isrc:'' @ map upper_byte u @ ?z # normalizeText (xt_ArtistName s)) @ ?z # normalizeText (xt_Title s) =
         (''isrc:'' @ map upper_byte v @ ?z # normalizeText (xt_ArtistName t)) @ ?z # normalizeText (xt_Title t)" by blast+
    from split_nul_last [OF nul_free(1) nul_free(1) r]
    have title: "normalizeText (xt_Title s) = normalizeText (xt_Title t)" and
      a: "(''isrc:'' @ map upper_byte u) @ ?z # normalizeText (xt_ArtistName s) =
         (''isrc:'' @ map upper_byte v) @ ?z # normalizeText (xt_ArtistName t)" by simp_all
    from split_nul_last [OF nul_free(1) nul_free(1) a] v title show ?thesis by simp
  qed
  with False show ?thesis by (simp add: song_entity_def)
qed

lemma song_key_start: "song_key s = ''library-song:'' @ xt_ID s \<or> (\<exists>r. song_key s = ''song:'' @ r)"
  by (auto simp: song_key_def Let_def split: list.split)

lemma dedupeKey_song:
  assumes "candidate_ok c"
  shows "(\<exists>s. cd_hit c = SongHit s) \<longleftrightarrow> hd (dedupeKey c) \<in> {CHR ''l'', CHR ''s''}"
proof -
  have "hd (song_key s) \<in> {CHR ''l'', CHR ''s''}" for s
    using song_key_start [of s] by (elim disjE exE) simp_all
  with assms show ?thesis
    by (cases "cd_hit c") (simp_all add: dedupeKey_def candidate_ok_def hit_kind_def kind_defs)
qed

lemma dedupeKey_entity:
  assumes "candidate_ok c" "candidate_ok d" "dedupeKey c = dedupeKey d"
  shows "entity_of c = entity_of d"
proof (cases "\<exists>s. cd_hit c = SongHit s")
  case True
  moreover from this have "\<exists>t. cd_hit d = SongHit t" using dedupeKey_song assms by metis
  ultimately obtain s t where "cd_hit c = SongHit s" "cd_hit d = SongHit t" by blast
  with assms(3) song_key_entity [of s t] show ?thesis by (simp add: dedupeKey_def entity_of_def)
next
  case False
  moreover from this have "\<nexists>t. cd_hit d = SongHit t" using dedupeKey_song assms by metis
  ultimately show ?thesis using assms
    by (cases "cd_hit c"; cases "cd_hit d") (simp_all add: dedupeKey_def entity_of_def candidate_ok_def hit_kind_def kind_defs)
qed

subsection \<open>Merging duplicates\<close>

lemma song_entity_update [simp]:
  "song_entity (s\<lparr>xt_Popularity := p\<rparr>) = song_entity s" "song_entity (s\<lparr>xt_LocalMediaFileID := i\<rparr>) = song_entity s"
  by (simp_all add: song_entity_def songVersion_def)

lemma mergeCandidate_same:
  assumes "candidate_ok d" "entity_of c = entity_of d"
  shows "entity_of (mergeCandidate d c) = entity_of d" and "candidate_ok (mergeCandidate d c)"
    and "cd_popularity (mergeCandidate d c) = max (cd_popularity d) (cd_popularity c)"
    and "cd_provider (mergeCandidate d c) = max (cd_provider d) (cd_provider c)"
  using assms
  by (auto simp: mergeCandidate_def merge_songs_def Let_def entity_of_def candidate_ok_def hit_kind_def
      split: ExternalSearchHit.splits)

text \<open>The entities with a key of their own: everything but the recordings of the catalog.\<close>

fun entity_key :: "entity \<Rightarrow> string option" where
  "entity_key (Entity kind i) = Some (kind @ '':'' @ i)"
| "entity_key (LibrarySong i) = Some (''library-song:'' @ i)"
| "entity_key (Recording a t v) = None"

lemma entity_key_dedupeKey: "entity_key (entity_of c) = Some k \<Longrightarrow> dedupeKey c = k"
  by (auto simp: entity_of_def song_entity_def dedupeKey_def song_key_def split: ExternalSearchHit.splits if_splits)

definition stands_for :: "searchCandidate \<Rightarrow> searchCandidate \<Rightarrow> bool" where
  "stands_for d c \<longleftrightarrow> entity_of d = entity_of c \<and> cd_popularity c \<le> cd_popularity d \<and> cd_provider c \<le> cd_provider d"

definition dedupe_ok :: "searchCandidate list \<Rightarrow> searchCandidate list \<times> (string \<Rightarrow> nat option) \<Rightarrow> bool" where
  [inv_defs]: "dedupe_ok processed st \<longleftrightarrow>
     (let (out, byKey) = st in
        list_all candidate_ok out \<and>
        (\<forall>c \<in> set processed. \<exists>d \<in> set out. stands_for d c) \<and>
        (\<forall>d \<in> set out. \<exists>c \<in> set processed. entity_of c = entity_of d) \<and>
        (\<forall>k i. byKey k = Some i \<longrightarrow> i < length out \<and>
           (\<exists>c. candidate_ok c \<and> dedupeKey c = k \<and> entity_of c = entity_of (out ! i))) \<and>
        (\<forall>i < length out. \<forall>k. entity_key (entity_of (out ! i)) = Some k \<longrightarrow> byKey k = Some i))"

lemma dedupe_okD:
  assumes "dedupe_ok processed (out, byKey)"
  shows "i < length out \<Longrightarrow> candidate_ok (out ! i)"
    and "c \<in> set processed \<Longrightarrow> \<exists>d \<in> set out. stands_for d c"
    and "d \<in> set out \<Longrightarrow> \<exists>c \<in> set processed. entity_of c = entity_of d"
    and "byKey k = Some i \<Longrightarrow> i < length out"
    and "byKey k = Some i \<Longrightarrow> \<exists>c. candidate_ok c \<and> dedupeKey c = k \<and> entity_of c = entity_of (out ! i)"
    and "i < length out \<Longrightarrow> entity_key (entity_of (out ! i)) = Some k \<Longrightarrow> byKey k = Some i"
  using assms unfolding dedupe_ok_def list_all_length Let_def prod.case by blast+

lemma dedupe_okI:
  assumes "\<And>i. i < length out \<Longrightarrow> candidate_ok (out ! i)"
    and "\<And>c. c \<in> set processed \<Longrightarrow> \<exists>d \<in> set out. stands_for d c"
    and "\<And>d. d \<in> set out \<Longrightarrow> \<exists>c \<in> set processed. entity_of c = entity_of d"
    and "\<And>k i. byKey k = Some i \<Longrightarrow> i < length out \<and>
      (\<exists>c. candidate_ok c \<and> dedupeKey c = k \<and> entity_of c = entity_of (out ! i))"
    and "\<And>i k. i < length out \<Longrightarrow> entity_key (entity_of (out ! i)) = Some k \<Longrightarrow> byKey k = Some i"
  shows "dedupe_ok processed (out, byKey)"
  unfolding dedupe_ok_def list_all_length Let_def prod.case using assms by blast

lemma merge_at_stands_for:
  assumes "i < length out" "candidate_ok (out ! i)" "entity_of c = entity_of (out ! i)"
    and "stands_for d x" "d \<in> set out"
  shows "\<exists>d \<in> set (merge_at i c out). stands_for d x"
proof -
  from assms(5) obtain j where j: "j < length out" "d = out ! j" by (metis in_set_conv_nth)
  have "stands_for (merge_at i c out ! j) x"
    using j(1) assms(1,4) mergeCandidate_same [OF assms(2,3)]
    by (cases "i = j") (auto simp: merge_at_def stands_for_def j(2) max.coboundedI1)
  moreover have "merge_at i c out ! j \<in> set (merge_at i c out)" using j(1) by (simp add: merge_at_def)
  ultimately show ?thesis by blast
qed

lemma dedupe_ok_merge:
  assumes ok: "dedupe_ok processed (out, byKey)" and i: "i < length out" and same: "entity_of c = entity_of (out ! i)"
  shows "dedupe_ok (c # processed) (merge_at i c out, byKey)"
proof -
  note inv = dedupe_okD [OF ok]
  note m = mergeCandidate_same [OF inv(1) [OF i] same]
  have len: "length (merge_at i c out) = length out" by (simp add: merge_at_def)
  have ent: "j < length out \<Longrightarrow> entity_of (merge_at i c out ! j) = entity_of (out ! j)" for j
    using m(1) i by (cases "j = i") (simp_all add: merge_at_def)
  show ?thesis
  proof (rule dedupe_okI)
    fix j
    assume "j < length (merge_at i c out)"
    then show "candidate_ok (merge_at i c out ! j)" using inv(1) m(2) i by (cases "j = i") (simp_all add: merge_at_def)
  next
    fix x
    assume x: "x \<in> set (c # processed)"
    have c: "stands_for (mergeCandidate (out ! i) c) c" using m same by (simp add: stands_for_def)
    have "mergeCandidate (out ! i) c \<in> set (merge_at i c out)" using i by (simp add: merge_at_def set_update_memI)
    with c show "\<exists>d \<in> set (merge_at i c out). stands_for d x"
      using x inv(2) [of x] merge_at_stands_for [OF i inv(1) [OF i] same] by auto
  next
    fix d
    assume "d \<in> set (merge_at i c out)"
    then obtain j where "j < length out" "d = merge_at i c out ! j" by (metis in_set_conv_nth len)
    then show "\<exists>x \<in> set (c # processed). entity_of x = entity_of d" using ent inv(3) [of "out ! j"] by auto
  next
    fix k j
    assume k: "byKey k = Some j"
    show "j < length (merge_at i c out) \<and>
        (\<exists>x. candidate_ok x \<and> dedupeKey x = k \<and> entity_of x = entity_of (merge_at i c out ! j))"
      using inv(4,5) [OF k] ent len by simp
  next
    fix j k
    assume "j < length (merge_at i c out)" "entity_key (entity_of (merge_at i c out ! j)) = Some k"
    then show "byKey k = Some j" using inv(6) ent len by simp
  qed
qed

lemma dedupe_ok_append:
  assumes ok: "dedupe_ok processed (out, byKey)" and c: "candidate_ok c" and new: "byKey (dedupeKey c) = None"
  shows "dedupe_ok (c # processed) (out @ [c], byKey(dedupeKey c \<mapsto> length out))"
proof (rule dedupe_okI)
  note inv = dedupe_okD [OF ok]
  show "i < length (out @ [c]) \<Longrightarrow> candidate_ok ((out @ [c]) ! i)" for i
    using inv(1) c by (auto simp: nth_append less_Suc_eq)
  show "x \<in> set (c # processed) \<Longrightarrow> \<exists>d \<in> set (out @ [c]). stands_for d x" for x
    using inv(2) [of x] by (auto simp: stands_for_def)
  show "d \<in> set (out @ [c]) \<Longrightarrow> \<exists>x \<in> set (c # processed). entity_of x = entity_of d" for d
    using inv(3) [of d] by auto
  show "i < length (out @ [c]) \<and> (\<exists>x. candidate_ok x \<and> dedupeKey x = k \<and> entity_of x = entity_of ((out @ [c]) ! i))"
    if "(byKey(dedupeKey c \<mapsto> length out)) k = Some i" for i k
  proof (cases "k = dedupeKey c")
    case True
    then show ?thesis using that c by auto
  next
    case False
    then have "byKey k = Some i" using that by simp
    from inv(4,5) [OF this] show ?thesis by (simp add: nth_append)
  qed
  show "(byKey(dedupeKey c \<mapsto> length out)) k = Some i"
    if "i < length (out @ [c])" "entity_key (entity_of ((out @ [c]) ! i)) = Some k" for i k
  proof (cases "i = length out")
    case True
    then show ?thesis using that(2) entity_key_dedupeKey [of c k] by simp
  next
    case False
    then have "byKey k = Some i" using that inv(6) [of i k] by (simp add: nth_append)
    then show ?thesis using new by auto
  qed
qed

lemma equivalentSongIndex_same:
  assumes "equivalentSongIndex out c = Some i"
  shows "i < length out" "entity_of c = entity_of (out ! i) \<or> \<not> is_catalog_song c"
proof -
  from assms obtain right where r: "cd_hit c = SongHit right" "index_where (equivalent_song right) out = Some i"
    by (auto simp: equivalentSongIndex_def split: ExternalSearchHit.splits)
  then show "i < length out" by (simp add: index_where_Some)
  have "equivalent_song right (out ! i)" using r(2) by (simp add: index_where_Some)
  then show "entity_of c = entity_of (out ! i) \<or> \<not> is_catalog_song c"
    using r(1) by (auto simp: equivalent_song_def entity_of_def song_entity_def is_catalog_song_def split: ExternalSearchHit.splits)
qed

lemma dedupe_step_ok:
  assumes "dedupe_ok processed st" "candidate_ok c"
  shows "dedupe_ok (c # processed) (dedupe_step c st)"
proof -
  obtain out byKey where st: "st = (out, byKey)" by (cases st)
  note ok = assms(1) [unfolded st]
  show ?thesis
  proof (cases "if is_catalog_song c then equivalentSongIndex out c else None")
    case (Some i)
    then have "is_catalog_song c" "equivalentSongIndex out c = Some i" by (auto split: if_splits)
    with equivalentSongIndex_same [OF this(2)] have "i < length out" "entity_of c = entity_of (out ! i)" by auto
    from dedupe_ok_merge [OF ok this] Some show ?thesis by (simp add: dedupe_step_def st)
  next
    case none: None
    show ?thesis
    proof (cases "byKey (dedupeKey c)")
      case None
      from dedupe_ok_append [OF ok assms(2) this] none None show ?thesis by (simp add: dedupe_step_def st)
    next
      case (Some i)
      then obtain x where "i < length out" "candidate_ok x" "dedupeKey x = dedupeKey c" "entity_of x = entity_of (out ! i)"
        using dedupe_okD(4,5) [OF ok] by blast
      moreover from this have "entity_of c = entity_of (out ! i)" using dedupeKey_entity [OF assms(2), of x] by simp
      ultimately show ?thesis using dedupe_ok_merge [OF ok] none Some by (simp add: dedupe_step_def st)
    qed
  qed
qed

lemma dedupe_fold_ok:
  "dedupe_ok processed st \<Longrightarrow> list_all candidate_ok cs \<Longrightarrow> dedupe_ok (rev cs @ processed) (fold dedupe_step cs st)"
proof (induction cs arbitrary: processed st)
  case (Cons c cs)
  from Cons.IH [OF dedupe_step_ok [OF Cons.prems(1)], of c] Cons.prems(2) show ?case by simp
qed simp

text \<open>
  merging duplicates loses nothing and invents nothing. Every artist, album, genre and library song that the search
  returned is among the candidates exactly once, and every recording of the catalog at least once under its artist, title
  and version; what stands for it has at least its popularity and score, and every candidate comes from the results.
\<close>

theorem search_merges_duplicates:
  "list_all (\<lambda>c. list_ex (\<lambda>d. stands_for d c) (deduplicateCandidates (normalizeCandidates result)) \<and>
      (case entity_of c of
         Recording _ _ _ \<Rightarrow> True
       | e \<Rightarrow> length (filter (\<lambda>d. entity_of d = e) (deduplicateCandidates (normalizeCandidates result))) = 1))
     (normalizeCandidates result) \<and>
   list_all (\<lambda>d. list_ex (\<lambda>c. entity_of c = entity_of d) (normalizeCandidates result))
     (deduplicateCandidates (normalizeCandidates result))"
proof -
  let ?cs = "normalizeCandidates result"
  obtain out byKey where st: "fold dedupe_step ?cs ([], Map.empty) = (out, byKey)" by fastforce
  have "dedupe_ok [] ([], Map.empty)" by (simp add: dedupe_ok_def)
  from dedupe_fold_ok [OF this, of ?cs] have ok: "dedupe_ok (rev ?cs) (out, byKey)"
    using normalizeCandidates_ok by (auto simp: st list_all_iff)
  have out: "deduplicateCandidates ?cs = out" by (simp add: deduplicateCandidates_def st)
  note inv = dedupe_okD [OF ok]
  have rep: "\<exists>d \<in> set out. stands_for d c" if "c \<in> set ?cs" for c using inv(2) [of c] that by simp
  have one: "length (filter (\<lambda>d. entity_of d = e) out) = 1"
    if c: "c \<in> set ?cs" "entity_of c = e" "entity_key e = Some k" for c e k
  proof -
    from rep [OF c(1)] obtain i where i: "i < length out" "entity_of (out ! i) = e"
      using c(2) by (auto simp: stands_for_def in_set_conv_nth)
    have "j = i" if "j < length out" "entity_of (out ! j) = e" for j
      using inv(6) [of i k] inv(6) [of j k] i c(3) that by (simp only: option.inject)
    then have "{j. j < length out \<and> entity_of (out ! j) = e} = {i}" using i by blast
    then show ?thesis by (simp add: length_filter_conv_card)
  qed
  have "case entity_of c of Recording _ _ _ \<Rightarrow> True | e \<Rightarrow> length (filter (\<lambda>d. entity_of d = e) out) = 1"
    if "c \<in> set ?cs" for c
    using one [OF that refl] by (cases "entity_of c") simp_all
  moreover have "\<forall>d \<in> set out. \<exists>c \<in> set ?cs. entity_of c = entity_of d" using inv(3) by simp
  ultimately show ?thesis using rep unfolding out list_all_iff list_ex_iff by blast
qed

subsection \<open>The order of the results\<close>

lemma tokenCoverage_bounds: "0 \<le> tokenCoverage q v \<and> tokenCoverage q v \<le> 1"
  by (auto simp: tokenCoverage_def Let_def divide_le_eq_1)

lemma metadataQuality_bounds: "0 \<le> metadataQuality hit \<and> metadataQuality hit \<le> 1"
  by (cases hit) (simp_all add: metadataQuality_def count_true_def)

lemma clamp01_bounds: "0 \<le> clamp01 v \<and> clamp01 v \<le> 1"
  by (simp add: clamp01_def)

lemma score_candidate_simps [simp]:
  "cd_hit (score_candidate q affinities c) = cd_hit c"
  "cd_tier (score_candidate q affinities c) = matchTier q c"
  "matchTier q (score_candidate q affinities c) = matchTier q c"
  by (simp_all add: score_candidate_def Let_def matchTier_def)

lemma score_bounds: "0 \<le> cd_score (score_candidate q affinities c) \<and> cd_score (score_candidate q affinities c) \<le> 1"
proof -
  have intent: "0 \<le> intentFit q k \<and> intentFit q k \<le> 1" for k by (simp add: intentFit_def Let_def)
  show ?thesis
    using clamp01_bounds [of "cd_provider c"] clamp01_bounds [of "cd_popularity c"]
      clamp01_bounds [of "affinities (candidateKey c)"] intent [of "cd_kind c"] metadataQuality_bounds [of "cd_hit c"]
      tokenCoverage_bounds [of q "cd_primary c @ '' '' @ cd_context c @ '' '' @ cd_secondary c"]
    by (simp add: score_candidate_def Let_def)
qed

lemma sort_candidates_sorted:
  "sorted_wrt (\<lambda>a b. cd_tier a < cd_tier b \<or> cd_tier a = cd_tier b \<and> cd_score b \<le> cd_score a) (sort_candidates cs)"
  using sort_key_lex [OF sorted_key_wrt, of cd_tier "\<lambda>c. - cd_score c" "sort_key cd_kind (sort_key cd_id cs)"]
  by (simp add: sort_candidates_def)

lemma mset_sort_candidates [simp]: "mset (sort_candidates cs) = mset cs"
  by (simp add: sort_candidates_def)

lemma normalizePopularity_hits [simp]: "map cd_hit (normalizePopularity log1p cs) = map cd_hit cs"
  by (simp add: normalizePopularity_def Let_def)

text \<open>
  the order of a search. The results are the first ones, at most fifty, of all merged candidates, in the order of
  how well they match the query, and only then of their score: however popular, no result comes before one that matches
  better or pushes it out. The score is between 0 and 1, and the lists per kind hold the results and nothing else.
\<close>

theorem search_ranked_by_tier:
  "\<exists>ranked n. n \<le> 50 \<and>
     xs_Results (rankExternalSearch log1p q result maxHits affinities) = map cd_hit (take n ranked) \<and>
     mset (map cd_hit ranked) = mset (map cd_hit (deduplicateCandidates (normalizeCandidates result))) \<and>
     sorted_wrt (\<lambda>a b. matchTier q a < matchTier q b \<or> matchTier q a = matchTier q b \<and> cd_score b \<le> cd_score a) ranked \<and>
     list_all (\<lambda>c. 0 \<le> cd_score c \<and> cd_score c \<le> 1) ranked \<and>
     n = (if maxHits < 1 then 30 else if maxHits > 50 then 50 else nat maxHits) \<and>
     mset (map SongHit (xs_Songs (rankExternalSearch log1p q result maxHits affinities))) =
       mset (filter (\<lambda>h. hit_kind h = kindSong) (map cd_hit (take n ranked)))"
proof -
  let ?cs = "map (score_candidate q affinities) (normalizePopularity log1p (deduplicateCandidates (normalizeCandidates result)))"
  let ?ranked = "ranked_candidates log1p q result affinities"
  define n where "n = (if maxHits < 1 then 30 else if maxHits > 50 then 50 else nat maxHits)"
  have ranked: "?ranked = sort_candidates ?cs" by (simp add: ranked_candidates_def)
  have cs: "c \<in> set ?ranked \<Longrightarrow> \<exists>d. c = score_candidate q affinities d" for c
    using mset_eq_setD [OF mset_sort_candidates [of ?cs]] by (auto simp: ranked)
  have results: "xs_Results (rankExternalSearch log1p q result maxHits affinities) = map cd_hit (take n ?ranked)"
    by (simp add: rankExternalSearch_def Let_def n_def DeriveCompatibilityArrays_def)
  have songs: "map SongHit (xs_Songs (rankExternalSearch log1p q result maxHits affinities)) =
      filter (\<lambda>h. hit_kind h = kindSong) (map cd_hit (take n ?ranked))"
  proof -
    have "map SongHit (List.map_filter (\<lambda>h. case h of SongHit a \<Rightarrow> Some a | _ \<Rightarrow> None) hits) = filter (\<lambda>h. hit_kind h = kindSong) hits" for hits
      by (induction hits) (auto simp: map_filter_simps hit_kind_def kind_defs split: ExternalSearchHit.split)
    then show ?thesis by (simp add: rankExternalSearch_def Let_def n_def DeriveCompatibilityArrays_def)
  qed
  have "mset (map cd_hit ?ranked) = image_mset cd_hit (mset ?cs)" by (simp only: ranked mset_map mset_sort_candidates)
  also have "\<dots> = mset (map cd_hit (normalizePopularity log1p (deduplicateCandidates (normalizeCandidates result))))"
    by (simp only: mset_map image_mset.compositionality comp_def score_candidate_simps)
  finally have hits: "mset (map cd_hit ?ranked) = mset (map cd_hit (deduplicateCandidates (normalizeCandidates result)))"
    by simp
  have tiers: "cd_tier c = matchTier q c" if "c \<in> set ?ranked" for c using cs [OF that] by auto
  have "sorted_wrt (\<lambda>a b. matchTier q a < matchTier q b \<or> matchTier q a = matchTier q b \<and> cd_score b \<le> cd_score a) ?ranked"
    using sorted_wrt_mono_rel [OF _ sort_candidates_sorted [of ?cs]] tiers unfolding ranked by simp
  moreover have "list_all (\<lambda>c. 0 \<le> cd_score c \<and> cd_score c \<le> 1) ?ranked"
    using cs score_bounds by (fastforce simp: list_all_iff)
  moreover have "n \<le> 50" by (simp add: n_def nat_le_iff)
  ultimately show ?thesis using results hits songs n_def by (intro exI [of _ ?ranked] exI [of _ n]) metis
qed

end
