(* ===== verification/Music_Library.thy ===== *)
theory Music_Library
  imports Music_Search
begin

text \<open>
  \<open>core/music/library_search.go\<close>: which songs of the external catalog the library already has. The matcher
  (\<open>core/matcher\<close>) and the search of the library are parameters: what the matcher proposes for each query, by index, and
  the files the search returns. An error is any value.
\<close>

record SongQuery =
  sq_Name :: string
  sq_MBID :: string
  sq_ISRC :: string
  sq_Album :: string
  sq_AlbumMBID :: string
  sq_Duration :: int
  sq_Artists :: "(string \<times> string) list"

definition tag_values :: "MediaFile \<Rightarrow> string \<Rightarrow> string list" where
  "tag_values mf name = (case map_of (mf_Tags mf) name of None \<Rightarrow> [] | Some vs \<Rightarrow> vs)"

text \<open>\<open>math.Round\<close>: halves away from zero.\<close>

definition round_half_away :: "rat \<Rightarrow> int" where
  "round_half_away x = (if x < 0 then - \<lfloor>- x + 1 / 2\<rfloor> else \<lfloor>x + 1 / 2\<rfloor>)"

definition localSearchTrack :: "MediaFile \<Rightarrow> ExternalTrack" where
  "localSearchTrack file =
     (let version = (case tag_values file ''subtitle'' of [] \<Rightarrow> [] | s # _ \<Rightarrow> versionMarker s)
      in \<lparr>xt_ID = mf_ID file, xt_Source = ''library'', xt_LocalMediaFileID = mf_ID file, xt_Title = mf_Title file, xt_ArtistID = [],
          xt_ArtistName = mf_Artist file, xt_AlbumID = [], xt_AlbumTitle = mf_Album file, xt_ReleaseDate = [], xt_Year = mf_Year file,
          xt_Duration = round_half_away (mf_Duration file), xt_TrackNumber = mf_TrackNumber file,
          xt_DiscNumber = mf_DiscNumber file, xt_Genre = mf_Genre file, xt_ArtworkURLs = [], xt_ISRCs = tag_values file ''isrc'',
          xt_Video = False, xt_Version = version, xt_ProviderScore = 0, xt_Popularity = 0\<rparr>)"

definition sameLibrarySong :: "ExternalTrack \<Rightarrow> MediaFile \<Rightarrow> bool" where
  "sameLibrarySong track file =
     (if mf_ID file = [] \<or> mf_Missing file then False
      else if songVersion track \<noteq> songVersion (localSearchTrack file) then False
      else if xt_ID track \<noteq> [] \<and> mf_MbzRecordingID file \<noteq> [] \<and> equal_fold (xt_ID track) (mf_MbzRecordingID file) then True
      else if list_ex (\<lambda>externalISRC. list_ex (\<lambda>localISRC. externalISRC \<noteq> [] \<and> equal_fold externalISRC localISRC)
                (tag_values file ''isrc'')) (xt_ISRCs track) then True
      else if normalizeText (xt_Title track) = [] \<or> normalizeText (xt_ArtistName track) = [] \<or>
              normalizeText (xt_Title track) \<noteq> normalizeText (mf_Title file) \<or>
              normalizeText (xt_ArtistName track) \<noteq> normalizeText (mf_Artist file) then False
      else xt_Duration track \<le> 0 \<or> mf_Duration file \<le> 0 \<or> \<bar>rat_of_int (xt_Duration track) - mf_Duration file\<bar> \<le> 5)"

definition track_queries :: "ExternalTrack \<Rightarrow> SongQuery list" where
  "track_queries track =
     map (\<lambda>isrc. \<lparr>sq_Name = xt_Title track, sq_MBID = xt_ID track, sq_ISRC = isrc, sq_Album = xt_AlbumTitle track,
             sq_AlbumMBID = xt_AlbumID track, sq_Duration = max (xt_Duration track) 0 * 1000 mod 2 ^ 32,
             sq_Artists = (if xt_ArtistName track \<noteq> [] \<or> xt_ArtistID track \<noteq> []
               then [(xt_ArtistName track, xt_ArtistID track)] else [])\<rparr>)
       (if xt_ISRCs track = [] then [[]] else xt_ISRCs track)"

definition owned_queries :: "ExternalTrack list \<Rightarrow> (nat \<times> SongQuery) list" where
  "owned_queries tracks = concat (map (\<lambda>(i, track). map (Pair i) (track_queries track)) (enumerate 0 tracks))"

definition accept_match ::
  "ExternalTrack list \<Rightarrow> (nat \<Rightarrow> MediaFile option) \<Rightarrow> nat \<times> nat \<times> SongQuery \<Rightarrow> (nat \<Rightarrow> MediaFile option) \<Rightarrow> nat \<Rightarrow> MediaFile option" where
  "accept_match tracks matches = (\<lambda>(queryIndex, owner, _) result.
     if result owner \<noteq> None then result
     else (case matches queryIndex of
             None \<Rightarrow> result
           | Some file \<Rightarrow> if sameLibrarySong (tracks ! owner) file then result(owner \<mapsto> file) else result))"

type_synonym 'e song_matcher = "SongQuery list \<Rightarrow> 'e + (nat \<Rightarrow> MediaFile option)"

definition matchCatalogTracks :: "'e song_matcher option \<Rightarrow> ExternalTrack list \<Rightarrow> 'e option \<times> (nat \<Rightarrow> MediaFile option)" where
  "matchCatalogTracks matcher tracks =
     (case matcher of
        None \<Rightarrow> (None, Map.empty)
      | Some matchSongs \<Rightarrow>
          if tracks = [] then (None, Map.empty)
          else (case matchSongs (map snd (owned_queries tracks)) of
                  Inl e \<Rightarrow> (Some e, Map.empty)
                | Inr matches \<Rightarrow>
                    (None, fold (accept_match tracks matches) (enumerate 0 (owned_queries tracks)) Map.empty)))"

definition label_matched :: "(nat \<Rightarrow> MediaFile option) \<Rightarrow> ExternalTrack list \<Rightarrow> ExternalTrack list" where
  "label_matched matched songs =
     map (\<lambda>(i, s). case matched i of None \<Rightarrow> s | Some file \<Rightarrow> s\<lparr>xt_LocalMediaFileID := mf_ID file\<rparr>) (enumerate 0 songs)"

definition matched_ids :: "(nat \<Rightarrow> MediaFile option) \<Rightarrow> nat \<Rightarrow> string list" where
  "matched_ids matched n = map mf_ID (List.map_filter matched [0..<n])"

definition add_local :: "string list \<Rightarrow> MediaFile \<Rightarrow> ExternalTrack list \<Rightarrow> ExternalTrack list" where
  "add_local matchedIDs file songs =
     (if mf_ID file \<in> set matchedIDs then songs
      else (case index_where (\<lambda>s. xt_Source s = ''catalog'' \<and> sameLibrarySong s file) songs of
              Some i \<Rightarrow> if xt_LocalMediaFileID (songs ! i) = [] then songs[i := (songs ! i)\<lparr>xt_LocalMediaFileID := mf_ID file\<rparr>] else songs
            | None \<Rightarrow> songs @ [localSearchTrack file]))"

definition mergeLibrarySearch ::
  "'e song_matcher option \<Rightarrow> 'e + MediaFile list \<Rightarrow> ExternalMusicSearch \<Rightarrow> 'e option \<times> ExternalMusicSearch" where
  "mergeLibrarySearch matcher search result =
     (let r1 = result\<lparr>xs_Songs := map (\<lambda>s. s\<lparr>xt_Source := ''catalog''\<rparr>) (xs_Songs result)\<rparr>
      in case search of
           Inl e \<Rightarrow> (Some e, r1)
         | Inr files \<Rightarrow>
             let (matchErr, matched) = matchCatalogTracks matcher (xs_Songs r1);
                 songs = label_matched matched (xs_Songs r1);
                 matchedIDs = matched_ids matched (length (xs_Songs r1))
             in (matchErr, r1\<lparr>xs_Songs := fold (add_local matchedIDs) files songs\<rparr>))"

subsection \<open>Matching\<close>

text \<open>What the stricter check accepts, whatever the matcher proposes.\<close>

definition matches_ok :: "ExternalTrack list \<Rightarrow> (nat \<Rightarrow> MediaFile option) \<Rightarrow> bool" where
  "matches_ok tracks matched \<longleftrightarrow> (\<forall>i file. matched i = Some file \<longrightarrow> i < length tracks \<and> sameLibrarySong (tracks ! i) file)"

lemma owned_queries_owner: "(i, q) \<in> set (owned_queries tracks) \<Longrightarrow> i < length tracks"
  by (auto simp: owned_queries_def in_set_enumerate_eq)

lemma accept_match_ok:
  assumes "matches_ok tracks m" and "fst (snd q) < length tracks"
  shows "matches_ok tracks (accept_match tracks matches q m)"
proof -
  obtain k i sq where q: "q = (k, i, sq)" by (cases q) auto
  show ?thesis
  proof (cases "m i = None \<and> (\<exists>file. matches k = Some file \<and> sameLibrarySong (tracks ! i) file)")
    case True
    then obtain f where "m i = None" "matches k = Some f" "sameLibrarySong (tracks ! i) f" by blast
    with assms show ?thesis by (simp add: q accept_match_def matches_ok_def)
  next
    case False
    then have "accept_match tracks matches q m = m" by (auto simp: q accept_match_def split: option.split)
    with assms(1) show ?thesis by simp
  qed
qed

lemma matchCatalogTracks_ok: "matches_ok tracks (snd (matchCatalogTracks matcher tracks))"
proof -
  have fold_ok: "matches_ok tracks (fold (accept_match tracks matches) qs m)"
    if "matches_ok tracks m" "\<forall>q \<in> set qs. fst (snd q) < length tracks" for matches m qs
    using that by (induction qs arbitrary: m) (simp_all add: accept_match_ok)
  have "fst (snd q) < length tracks" if "q \<in> set (enumerate 0 (owned_queries tracks))" for q
  proof -
    from that have "snd q \<in> set (owned_queries tracks)" by (metis set_zip_rightD prod.collapse enumerate_eq_zip)
    then show ?thesis using owned_queries_owner by (metis prod.collapse)
  qed
  moreover have "matches_ok tracks Map.empty" by (simp add: matches_ok_def)
  ultimately show ?thesis
    using fold_ok by (cases matcher) (auto simp: matchCatalogTracks_def split: sum.split)
qed

lemma songVersion_label [simp]:
  "songVersion (s\<lparr>xt_LocalMediaFileID := i\<rparr>) = songVersion s" "songVersion (s\<lparr>xt_Source := c\<rparr>) = songVersion s"
  by (simp_all add: songVersion_def)

lemma sameLibrarySong_label [simp]:
  "sameLibrarySong (s\<lparr>xt_LocalMediaFileID := i\<rparr>) f = sameLibrarySong s f"
  "sameLibrarySong (s\<lparr>xt_Source := c\<rparr>) f = sameLibrarySong s f"
  by (simp_all add: sameLibrarySong_def)

subsection \<open>One row per song\<close>

text \<open>A row apart from its label.\<close>

definition unlabelled :: "ExternalTrack \<Rightarrow> ExternalTrack" where
  "unlabelled s = s\<lparr>xt_LocalMediaFileID := []\<rparr>"

lemma unlabelled_label [simp]: "unlabelled (s\<lparr>xt_LocalMediaFileID := i\<rparr>) = unlabelled s"
  by (simp add: unlabelled_def)

lemma unlabelled_eqD:
  assumes "unlabelled s = unlabelled t"
  shows "sameLibrarySong s f = sameLibrarySong t f" "xt_Source s = xt_Source t"
proof -
  have "t = s\<lparr>xt_LocalMediaFileID := xt_LocalMediaFileID t\<rparr>" using assms by (cases s; cases t) (simp add: unlabelled_def)
  then show "sameLibrarySong s f = sameLibrarySong t f" "xt_Source s = xt_Source t"
    by (metis sameLibrarySong_label(1)) (metis \<open>t = _\<close> ExternalTrack.select_convs(2) ExternalTrack.surjective ExternalTrack.update_convs(3))
qed

definition unrepresented :: "string list \<Rightarrow> ExternalTrack list \<Rightarrow> MediaFile \<Rightarrow> bool" where
  "unrepresented matchedIDs catalog file \<longleftrightarrow> mf_ID file \<notin> set matchedIDs \<and> list_all (\<lambda>s. \<not> sameLibrarySong s file) catalog"

definition proper_label :: "ExternalTrack \<Rightarrow> ExternalTrack \<Rightarrow> bool" where
  "proper_label s row \<longleftrightarrow> xt_LocalMediaFileID row = xt_LocalMediaFileID s \<or>
     (\<exists>file. sameLibrarySong s file \<and> xt_LocalMediaFileID row = mf_ID file)"

definition rows_ok :: "string list \<Rightarrow> ExternalTrack list \<Rightarrow> MediaFile list \<Rightarrow> ExternalTrack list \<Rightarrow> bool" where
  [inv_defs]: "rows_ok ids catalog files rows \<longleftrightarrow>
     list_all2 (\<lambda>s row. unlabelled row = unlabelled s \<and> proper_label s row) catalog (take (length catalog) rows) \<and>
     drop (length catalog) rows = map localSearchTrack (filter (unrepresented ids catalog) files)"

lemma rows_ok_length: "rows_ok ids catalog files rows \<Longrightarrow> length catalog \<le> length rows"
  by (auto simp: rows_ok_def dest: list_all2_lengthD)

lemma rows_ok_nth:
  assumes "rows_ok ids catalog files rows" "i < length catalog"
  shows "unlabelled (rows ! i) = unlabelled (catalog ! i)" "proper_label (catalog ! i) (rows ! i)"
  using assms list_all2_nthD [of _ catalog "take (length catalog) rows" i] by (auto simp: rows_ok_def)

lemma rows_ok_found:
  assumes ok: "rows_ok ids catalog files rows" and src: "list_all (\<lambda>s. xt_Source s = ''catalog'') catalog"
    and i: "i < length rows" "xt_Source (rows ! i) = ''catalog''" "sameLibrarySong (rows ! i) file"
  shows "i < length catalog" "sameLibrarySong (catalog ! i) file"
proof -
  show "i < length catalog"
  proof (rule ccontr)
    assume "\<not> i < length catalog"
    then have "drop (length catalog) rows ! (i - length catalog) = rows ! i" "i - length catalog < length (drop (length catalog) rows)"
      using i(1) by simp_all
    then have "rows ! i \<in> set (drop (length catalog) rows)" by (metis nth_mem)
    then obtain f where "rows ! i = localSearchTrack f" using ok by (auto simp: rows_ok_def)
    with i(2) show False by (simp add: localSearchTrack_def Let_def)
  qed
  from unlabelled_eqD(1) [OF rows_ok_nth(1) [OF ok this]] i(3) show "sameLibrarySong (catalog ! i) file" by simp
qed

lemma add_local_ok:
  assumes ok: "rows_ok ids catalog files rows" and src: "list_all (\<lambda>s. xt_Source s = ''catalog'') catalog"
  shows "rows_ok ids catalog (files @ [file]) (add_local ids file rows)"
proof (cases "mf_ID file \<in> set ids")
  case True
  with ok show ?thesis by (simp add: add_local_def rows_ok_def unrepresented_def)
next
  case fresh: False
  let ?p = "\<lambda>s. xt_Source s = ''catalog'' \<and> sameLibrarySong s file"
  show ?thesis
  proof (cases "index_where ?p rows")
    case None
    have "\<not> sameLibrarySong (catalog ! i) file" if "i < length catalog" for i
    proof -
      have "\<not> ?p (rows ! i)" using None that rows_ok_length [OF ok] by simp
      moreover have "xt_Source (catalog ! i) = ''catalog''" using src that by (simp add: list_all_length)
      ultimately show ?thesis using unlabelled_eqD [OF rows_ok_nth(1) [OF ok that]] by auto
    qed
    then have "unrepresented ids catalog file" using fresh by (simp add: unrepresented_def list_all_length)
    moreover have "add_local ids file rows = rows @ [localSearchTrack file]"
      using fresh by (simp add: add_local_def None del: index_where_None)
    ultimately show ?thesis using ok rows_ok_length [OF ok] by (simp add: rows_ok_def)
  next
    case (Some i)
    then have i: "i < length rows" "?p (rows ! i)" by (simp_all add: index_where_Some)
    note c = rows_ok_found [OF ok src i(1)] 
    from i have ci: "i < length catalog" "sameLibrarySong (catalog ! i) file" using c by blast+
    then have "\<not> unrepresented ids catalog file" by (auto simp: unrepresented_def list_all_length)
    then have tail: "filter (unrepresented ids catalog) (files @ [file]) = filter (unrepresented ids catalog) files" by simp
    let ?row = "(rows ! i)\<lparr>xt_LocalMediaFileID := mf_ID file\<rparr>"
    have "unlabelled ?row = unlabelled (catalog ! i) \<and> proper_label (catalog ! i) ?row"
      using rows_ok_nth(1) [OF ok ci(1)] ci(2) by (auto simp: proper_label_def)
    then have "list_all2 (\<lambda>s row. unlabelled row = unlabelled s \<and> proper_label s row) catalog (take (length catalog) (rows[i := ?row]))"
      using ok ci(1) rows_ok_length [OF ok]
      by (auto simp: rows_ok_def list_all2_conv_all_nth nth_list_update take_update_swap)
    moreover have "drop (length catalog) (rows[i := ?row]) = drop (length catalog) rows" using ci(1) by simp
    ultimately show ?thesis using ok fresh Some unfolding add_local_def rows_ok_def tail by simp
  qed
qed

lemma fold_add_local_ok:
  "rows_ok ids catalog files rows \<Longrightarrow> list_all (\<lambda>s. xt_Source s = ''catalog'') catalog \<Longrightarrow>
     rows_ok ids catalog (files @ new) (fold (add_local ids) new rows)"
proof (induction new arbitrary: files rows)
  case (Cons f new)
  from Cons.IH [OF add_local_ok [OF Cons.prems]] Cons.prems(2) show ?case by simp
qed simp

lemma label_matched_ok:
  assumes "matches_ok catalog matched"
  shows "rows_ok ids catalog [] (label_matched matched catalog)"
  using assms
  by (auto simp: rows_ok_def label_matched_def list_all2_conv_all_nth nth_enumerate_eq proper_label_def matches_ok_def
      split: option.split)

text \<open>
  a search shows every song of the library exactly once. The songs of the catalog keep their places and contents, and
  a library label on one of them is the id of a file that really is the same song; behind them comes one row for every file
  found that neither the matcher nor the comparison recognised in a catalog song, in the order of the library.
\<close>

theorem library_search_complete:
  "\<exists>ids rows. snd (mergeLibrarySearch matcher (Inr files) result) = result\<lparr>xs_Songs := rows\<rparr> \<and>
     ids = matched_ids (snd (matchCatalogTracks matcher (map (\<lambda>s. s\<lparr>xt_Source := ''catalog''\<rparr>) (xs_Songs result))))
       (length (xs_Songs result)) \<and>
     list_all2 (\<lambda>s row. unlabelled row = unlabelled (s\<lparr>xt_Source := ''catalog''\<rparr>) \<and> proper_label s row)
       (xs_Songs result) (take (length (xs_Songs result)) rows) \<and>
     drop (length (xs_Songs result)) rows = map localSearchTrack (filter (unrepresented ids (xs_Songs result)) files)"
proof -
  define catalog where "catalog = map (\<lambda>s. s\<lparr>xt_Source := ''catalog''\<rparr>) (xs_Songs result)"
  obtain e matched where m: "matchCatalogTracks matcher catalog = (e, matched)" by fastforce
  define ids where "ids = matched_ids matched (length (xs_Songs result))"
  define rows where "rows = fold (add_local ids) files (label_matched matched catalog)"
  have len: "length catalog = length (xs_Songs result)" by (simp add: catalog_def)
  have "list_all (\<lambda>s. xt_Source s = ''catalog'') catalog" by (simp add: catalog_def list_all_iff)
  from fold_add_local_ok [OF label_matched_ok this, of matched ids files] have ok: "rows_ok ids catalog files rows"
    using matchCatalogTracks_ok [of catalog matcher] by (simp add: m rows_def)
  have "snd (mergeLibrarySearch matcher (Inr files) result) = result\<lparr>xs_Songs := rows\<rparr>"
    by (simp add: mergeLibrarySearch_def rows_def ids_def m flip: catalog_def) (simp add: len)
  moreover have "proper_label (s\<lparr>xt_Source := ''catalog''\<rparr>) row = proper_label s row" for s row by (simp add: proper_label_def)
  then have "list_all2 (\<lambda>s row. unlabelled row = unlabelled (s\<lparr>xt_Source := ''catalog''\<rparr>) \<and> proper_label s row)
      (xs_Songs result) (take (length (xs_Songs result)) rows)"
    using ok by (simp add: rows_ok_def len) (simp add: catalog_def list_all2_map1)
  moreover have "unrepresented ids catalog = unrepresented ids (xs_Songs result)"
    by (rule ext) (simp add: unrepresented_def catalog_def list_all_iff)
  then have "drop (length (xs_Songs result)) rows = map localSearchTrack (filter (unrepresented ids (xs_Songs result)) files)"
    using ok by (simp add: rows_ok_def len)
  ultimately show ?thesis using m unfolding ids_def catalog_def by (intro exI conjI) (assumption | simp)+
qed

end
