(* ===== verification/Music_Jobs.thy ===== *)
theory Music_Jobs
  imports Prelude
begin

text \<open>
  \<open>persistence/music_download_job_repository.go\<close>: the table of download jobs. A transaction is one atomic operation;
  one that fails leaves the table as it was. Rows are in the order of their row ids, which also decides between
  rows that \<open>ORDER BY\<close> does not separate. An insertion violates a constraint when the id is taken or the user does not
  exist. The fields and the status of a job are the strings of \<open>model/external_music.go\<close>.
\<close>

definition MusicDownloadSong :: string where "MusicDownloadSong = ''song''"
definition MusicDownloadAlbum :: string where "MusicDownloadAlbum = ''album''"
definition MusicDownloadQueued :: string where "MusicDownloadQueued = ''queued''"
definition MusicDownloadRunning :: string where "MusicDownloadRunning = ''running''"
definition MusicDownloadSuccess :: string where "MusicDownloadSuccess = ''succeeded''"
definition MusicDownloadFailed :: string where "MusicDownloadFailed = ''failed''"
definition MusicDownloadOriginManual :: string where "MusicDownloadOriginManual = ''manual''"
definition MusicDownloadOriginRadio :: string where "MusicDownloadOriginRadio = ''radio''"

lemmas job_status_defs = MusicDownloadQueued_def MusicDownloadRunning_def MusicDownloadSuccess_def MusicDownloadFailed_def

record MusicDownloadJob =
  mj_ID :: string
  mj_UserID :: string
  mj_Kind :: string
  mj_SourceID :: string
  mj_Artist :: string
  mj_Album :: string
  mj_Title :: string
  mj_Status :: string
  mj_Message :: string
  mj_Error :: string
  mj_OutputPath :: string
  mj_Completed :: int
  mj_Total :: int
  mj_CreatedAt :: Time
  mj_UpdatedAt :: Time
  mj_StartedAt :: "Time option"
  mj_FinishedAt :: "Time option"
  mj_Origin :: string
  mj_Priority :: int
  mj_RadioItemID :: string
  mj_MediaFileID :: string

record jobs_db =
  jd_users :: "string list"
  jd_jobs :: "MusicDownloadJob list"

datatype job_error = ConstraintViolation | JobNotFound

definition stamp_new :: "Time \<Rightarrow> MusicDownloadJob \<Rightarrow> MusicDownloadJob" where
  "stamp_new now job =
     (let job1 = (if mj_CreatedAt job = zero_time then job\<lparr>mj_CreatedAt := now\<rparr> else job)
      in if mj_UpdatedAt job1 = zero_time then job1\<lparr>mj_UpdatedAt := now\<rparr> else job1)"

definition insertMusicDownloadJob :: "Time \<Rightarrow> MusicDownloadJob \<Rightarrow> jobs_db \<Rightarrow> job_error + MusicDownloadJob \<times> jobs_db" where
  "insertMusicDownloadJob now job db =
     (let job1 = stamp_new now job
      in if mj_ID job \<in> set (map mj_ID (jd_jobs db)) \<or> mj_UserID job \<notin> set (jd_users db) then Inl ConstraintViolation
         else Inr (job1, db\<lparr>jd_jobs := jd_jobs db @ [job1]\<rparr>))"

definition Create_job :: "Time \<Rightarrow> MusicDownloadJob \<Rightarrow> jobs_db \<Rightarrow> job_error + MusicDownloadJob \<times> jobs_db" where
  "Create_job = insertMusicDownloadJob"

text \<open>The clauses of the queries.\<close>

definition first_row :: "MusicDownloadJob list \<Rightarrow> MusicDownloadJob option" where
  "first_row rows = (case rows of [] \<Rightarrow> None | j # js \<Rightarrow> Some j)"

definition update_jobs :: "(MusicDownloadJob \<Rightarrow> bool) \<Rightarrow> (MusicDownloadJob \<Rightarrow> MusicDownloadJob) \<Rightarrow> jobs_db \<Rightarrow> jobs_db" where
  "update_jobs p f db = db\<lparr>jd_jobs := map (\<lambda>j. if p j then f j else j) (jd_jobs db)\<rparr>"

definition by_urgency :: "MusicDownloadJob list \<Rightarrow> MusicDownloadJob list" where
  "by_urgency rows = sort_key (\<lambda>j. - mj_Priority j) (sort_key mj_CreatedAt rows)"

definition active_play :: "string \<Rightarrow> string \<Rightarrow> MusicDownloadJob \<Rightarrow> bool" where
  "active_play userID sourceID j \<longleftrightarrow>
     mj_UserID j = userID \<and> mj_Kind j = MusicDownloadSong \<and> mj_SourceID j = sourceID \<and>
     (mj_Status j = MusicDownloadQueued \<or> mj_Status j = MusicDownloadRunning)"

definition select_active :: "string \<Rightarrow> string \<Rightarrow> jobs_db \<Rightarrow> MusicDownloadJob option" where
  "select_active userID sourceID db =
     first_row (sort_key (\<lambda>j. if mj_Status j = MusicDownloadRunning then 0 else 1 :: int)
       (by_urgency (filter (active_play userID sourceID) (jd_jobs db))))"

definition promoteActivePlayTx :: "Time \<Rightarrow> string \<Rightarrow> string \<Rightarrow> int \<Rightarrow> jobs_db \<Rightarrow> MusicDownloadJob option \<times> jobs_db" where
  "promoteActivePlayTx now userID sourceID priority db =
     (let db1 = update_jobs (\<lambda>j. Some (mj_ID j) = map_option mj_ID (select_active userID sourceID db) \<and>
              mj_Status j = MusicDownloadQueued)
            (\<lambda>j. j\<lparr>mj_Priority := max (mj_Priority j) priority, mj_UpdatedAt := now\<rparr>) db
      in (select_active userID sourceID db1, db1))"

definition PromoteActivePlay :: "Time \<Rightarrow> string \<Rightarrow> string \<Rightarrow> int \<Rightarrow> jobs_db \<Rightarrow> MusicDownloadJob option \<times> jobs_db" where
  "PromoteActivePlay = promoteActivePlayTx"

definition FindOrCreatePlay :: "Time \<Rightarrow> MusicDownloadJob \<Rightarrow> jobs_db \<Rightarrow> job_error + MusicDownloadJob \<times> jobs_db" where
  "FindOrCreatePlay now job db =
     (case promoteActivePlayTx now (mj_UserID job) (mj_SourceID job) (mj_Priority job) db of
        (Some existing, db1) \<Rightarrow> Inr (existing, db1)
      | (None, db1) \<Rightarrow> insertMusicDownloadJob now job db1)"

definition Get_job :: "string \<Rightarrow> jobs_db \<Rightarrow> job_error + MusicDownloadJob" where
  "Get_job i db = (case first_row (filter (\<lambda>j. mj_ID j = i) (jd_jobs db)) of None \<Rightarrow> Inl JobNotFound | Some j \<Rightarrow> Inr j)"

definition GetForUser :: "string \<Rightarrow> string \<Rightarrow> jobs_db \<Rightarrow> job_error + MusicDownloadJob" where
  "GetForUser i userID db =
     (case first_row (filter (\<lambda>j. mj_ID j = i \<and> mj_UserID j = userID) (jd_jobs db)) of
        None \<Rightarrow> Inl JobNotFound | Some j \<Rightarrow> Inr j)"

definition GetAllForUser :: "string \<Rightarrow> int \<Rightarrow> jobs_db \<Rightarrow> MusicDownloadJob list" where
  "GetAllForUser userID maxJobs db =
     (let rows = sort_key (\<lambda>j. - mj_CreatedAt j) (filter (\<lambda>j. mj_UserID j = userID) (jd_jobs db))
      in if maxJobs > 0 then take (nat maxJobs) rows else rows)"

definition claimable :: "string list \<Rightarrow> MusicDownloadJob \<Rightarrow> bool" where
  "claimable origins j \<longleftrightarrow> mj_Status j = MusicDownloadQueued \<and> (origins \<noteq> [] \<longrightarrow> mj_Origin j \<in> set origins)"

definition start_job :: "Time \<Rightarrow> MusicDownloadJob \<Rightarrow> MusicDownloadJob" where
  "start_job now j = j\<lparr>mj_Status := MusicDownloadRunning, mj_StartedAt := Some now, mj_UpdatedAt := now,
     mj_Message := ''Downloading'', mj_Error := []\<rparr>"

definition ClaimNext :: "Time \<Rightarrow> string list \<Rightarrow> jobs_db \<Rightarrow> MusicDownloadJob option \<times> jobs_db" where
  "ClaimNext now origins db =
     (case first_row (by_urgency (filter (claimable origins) (jd_jobs db))) of
        None \<Rightarrow> (None, db)
      | Some job \<Rightarrow>
          let hit = (\<lambda>j. mj_ID j = mj_ID job \<and> mj_Status j = MusicDownloadQueued);
              updated = length (filter hit (jd_jobs db))
          in if updated \<noteq> 1 then (None, db) else (Some (start_job now job), update_jobs hit (start_job now) db))"

definition Update_job :: "Time \<Rightarrow> MusicDownloadJob \<Rightarrow> jobs_db \<Rightarrow> jobs_db" where
  "Update_job now job db = update_jobs (\<lambda>j. mj_ID j = mj_ID job) (\<lambda>_. job\<lparr>mj_UpdatedAt := now\<rparr>) db"

definition RequeueRunning :: "Time \<Rightarrow> jobs_db \<Rightarrow> jobs_db" where
  "RequeueRunning now db =
     update_jobs (\<lambda>j. mj_Status j = MusicDownloadRunning)
       (\<lambda>j. j\<lparr>mj_Status := MusicDownloadQueued, mj_StartedAt := None, mj_UpdatedAt := now,
         mj_Message := ''Recovered after restart'', mj_Error := []\<rparr>) db"

subsection \<open>Order\<close>

lemma first_row_Some: "first_row rows = Some j \<longleftrightarrow> (\<exists>js. rows = j # js)"
  by (auto simp: first_row_def split: list.splits)

lemma first_row_None [simp]: "first_row rows = None \<longleftrightarrow> rows = []"
  by (auto simp: first_row_def split: list.splits)

lemma by_urgency_sorted:
  "sorted_wrt (\<lambda>a b. mj_Priority b < mj_Priority a \<or> mj_Priority a = mj_Priority b \<and> mj_CreatedAt a \<le> mj_CreatedAt b)
     (by_urgency rows)"
  using sort_key_lex [OF sorted_key_wrt, of "\<lambda>j. - mj_Priority j" mj_CreatedAt rows] by (simp add: by_urgency_def)

lemma by_urgency_first:
  assumes "first_row (by_urgency rows) = Some j"
  shows "j \<in> set rows"
    and "x \<in> set rows \<Longrightarrow> mj_Priority x < mj_Priority j \<or> mj_Priority x = mj_Priority j \<and> mj_CreatedAt j \<le> mj_CreatedAt x"
proof -
  from assms obtain js where js: "by_urgency rows = j # js" by (auto simp: first_row_Some)
  have set: "set rows = set (j # js)" unfolding js [symmetric] by (simp add: by_urgency_def)
  then show "j \<in> set rows" by simp
  show "x \<in> set rows \<Longrightarrow> mj_Priority x < mj_Priority j \<or> mj_Priority x = mj_Priority j \<and> mj_CreatedAt j \<le> mj_CreatedAt x"
    using by_urgency_sorted [of rows] set by (auto simp: js)
qed

lemma by_urgency_Nil [simp]: "by_urgency rows = [] \<longleftrightarrow> rows = []"
  unfolding by_urgency_def by (metis length_0_conv length_sort)

lemma set_by_urgency [simp]: "set (by_urgency rows) = set rows"
  by (simp add: by_urgency_def)

subsection \<open>The table\<close>

definition jobs_ok :: "jobs_db \<Rightarrow> bool" where
  [inv_defs]: "jobs_ok db \<longleftrightarrow> distinct (map mj_ID (jd_jobs db))"

definition job_of :: "string \<Rightarrow> jobs_db \<Rightarrow> MusicDownloadJob option" where
  "job_of i db = find (\<lambda>j. mj_ID j = i) (jd_jobs db)"

lemma find_key:
  "distinct (map f xs) \<Longrightarrow> find (\<lambda>x. f x = k) xs = Some y \<longleftrightarrow> y \<in> set xs \<and> f y = k"
  by (induction xs) (auto simp: image_iff)

lemma filter_key:
  "distinct (map f xs) \<Longrightarrow> y \<in> set xs \<Longrightarrow> filter (\<lambda>x. f x = f y) xs = [y]"
  by (induction xs) (auto simp: image_iff filter_empty_conv)

lemma job_of_iff: "jobs_ok db \<Longrightarrow> job_of i db = Some j \<longleftrightarrow> j \<in> set (jd_jobs db) \<and> mj_ID j = i"
  unfolding job_of_def jobs_ok_def by (rule find_key)

lemma job_of_None: "job_of i db = None \<longleftrightarrow> i \<notin> mj_ID ` set (jd_jobs db)"
  by (auto simp: job_of_def find_None_iff)

text \<open>An update that keeps ids changes each row on its own.\<close>

lemma update_jobs_ok:
  assumes "\<And>j. p j \<Longrightarrow> mj_ID (f j) = mj_ID j"
  shows "jobs_ok (update_jobs p f db) \<longleftrightarrow> jobs_ok db"
    and "job_of i (update_jobs p f db) = map_option (\<lambda>j. if p j then f j else j) (job_of i db)"
    and "jd_users (update_jobs p f db) = jd_users db"
proof -
  have "mj_ID \<circ> (\<lambda>j. if p j then f j else j) = mj_ID" using assms by auto
  then show "jobs_ok (update_jobs p f db) \<longleftrightarrow> jobs_ok db" by (simp add: jobs_ok_def update_jobs_def)
  have "find (\<lambda>j. mj_ID j = i) (map (\<lambda>j. if p j then f j else j) js) =
      map_option (\<lambda>j. if p j then f j else j) (find (\<lambda>j. mj_ID j = i) js)" for js
    using assms by (induction js) auto
  then show "job_of i (update_jobs p f db) = map_option (\<lambda>j. if p j then f j else j) (job_of i db)"
    by (simp add: job_of_def update_jobs_def)
qed (simp add: update_jobs_def)

lemma stamp_new_fields [simp]:
  "mj_ID (stamp_new now job) = mj_ID job" "mj_UserID (stamp_new now job) = mj_UserID job"
  "mj_Kind (stamp_new now job) = mj_Kind job" "mj_SourceID (stamp_new now job) = mj_SourceID job"
  "mj_Status (stamp_new now job) = mj_Status job" "mj_Origin (stamp_new now job) = mj_Origin job"
  "mj_Priority (stamp_new now job) = mj_Priority job"
  by (simp_all add: stamp_new_def Let_def)

lemma insert_job_ok:
  assumes "insertMusicDownloadJob now job db = Inr (j, db')"
  shows "jobs_ok db \<Longrightarrow> jobs_ok db'" and "j = stamp_new now job" and "job_of (mj_ID job) db = None"
    and "job_of i db' = (if i = mj_ID job then Some j else job_of i db)" and "jd_users db' = jd_users db"
proof -
  have eq: "db' = db\<lparr>jd_jobs := jd_jobs db @ [stamp_new now job]\<rparr>" "mj_ID job \<notin> set (map mj_ID (jd_jobs db))"
    and j: "j = stamp_new now job"
    using assms by (auto simp: insertMusicDownloadJob_def Let_def split: if_splits)
  show "j = stamp_new now job" by (rule j)
  show none: "job_of (mj_ID job) db = None" using eq(2) by (simp add: job_of_None)
  show "jobs_ok db \<Longrightarrow> jobs_ok db'" using eq by (simp add: jobs_ok_def)
  have "find p (xs @ ys) = (case find p xs of None \<Rightarrow> find p ys | Some x \<Rightarrow> Some x)" for p :: "MusicDownloadJob \<Rightarrow> bool" and xs ys
    by (induction xs) auto
  then show "job_of i db' = (if i = mj_ID job then Some j else job_of i db)"
    using none j by (auto simp: eq(1) job_of_def split: option.split)
  show "jd_users db' = jd_users db" by (simp add: eq(1))
qed

subsection \<open>Claiming\<close>

lemma claim_next_some:
  assumes "jobs_ok db" and "first_row (by_urgency (filter (claimable origins) (jd_jobs db))) = Some job"
  shows "ClaimNext now origins db =
    (Some (start_job now job), update_jobs (\<lambda>j. mj_ID j = mj_ID job \<and> mj_Status j = MusicDownloadQueued) (start_job now) db)"
proof -
  have job: "job \<in> set (jd_jobs db)" "mj_Status job = MusicDownloadQueued"
    using by_urgency_first(1) [OF assms(2)] by (auto simp: claimable_def)
  have "filter (\<lambda>j. mj_ID j = mj_ID job) (jd_jobs db) = [job]"
    using assms(1) job(1) unfolding jobs_ok_def by (rule filter_key)
  moreover have "filter (\<lambda>j. mj_ID j = mj_ID job \<and> mj_Status j = MusicDownloadQueued) (jd_jobs db) =
      filter (\<lambda>j. mj_Status j = MusicDownloadQueued) (filter (\<lambda>j. mj_ID j = mj_ID job) (jd_jobs db))"
    by (simp add: conj_commute)
  ultimately show ?thesis using assms(2) job(2) by (simp add: ClaimNext_def Let_def)
qed

lemma start_job_simps [simp]:
  "mj_ID (start_job now j) = mj_ID j" "mj_Status (start_job now j) = MusicDownloadRunning"
  "mj_Origin (start_job now j) = mj_Origin j"
  by (simp_all add: start_job_def)

text \<open>What a claim does: it takes the most urgent waiting job, and the oldest among equally urgent ones.\<close>

lemma claim_next_cases:
  assumes "jobs_ok db" and "ClaimNext now origins db = (r, db')"
  obtains "r = None" "db' = db" "filter (claimable origins) (jd_jobs db) = []"
  | job where "r = Some (start_job now job)" "job_of (mj_ID job) db = Some job" "claimable origins job"
    "db' = update_jobs (\<lambda>j. mj_ID j = mj_ID job \<and> mj_Status j = MusicDownloadQueued) (start_job now) db"
    "\<forall>x \<in> set (jd_jobs db). claimable origins x \<longrightarrow> mj_Priority x < mj_Priority job \<or>
       mj_Priority x = mj_Priority job \<and> mj_CreatedAt job \<le> mj_CreatedAt x"
proof (cases "first_row (by_urgency (filter (claimable origins) (jd_jobs db)))")
  case None
  then have "filter (claimable origins) (jd_jobs db) = []" by simp
  moreover have "r = None" "db' = db" using None assms(2) unfolding ClaimNext_def by (simp_all only: option.case prod.inject)
  ultimately show thesis using that(1) by blast
next
  case (Some job)
  note u = by_urgency_first [OF Some] and c = claim_next_some [OF assms(1) Some, of now]
  have "job_of (mj_ID job) db = Some job" "claimable origins job"
    using u(1) job_of_iff [OF assms(1)] by auto
  moreover have "\<forall>x \<in> set (jd_jobs db). claimable origins x \<longrightarrow> mj_Priority x < mj_Priority job \<or>
      mj_Priority x = mj_Priority job \<and> mj_CreatedAt job \<le> mj_CreatedAt x"
    using u(2) by auto
  ultimately show thesis using that(2) c assms(2) by simp
qed

subsection \<open>Playing now\<close>

lemma select_active_None: "select_active userID sourceID db = None \<longleftrightarrow> filter (active_play userID sourceID) (jd_jobs db) = []"
  unfolding select_active_def first_row_None by (metis by_urgency_Nil length_0_conv length_sort)

lemma select_active_Some:
  assumes "select_active userID sourceID db = Some j"
  shows "j \<in> set (jd_jobs db)" "active_play userID sourceID j"
    and "x \<in> set (jd_jobs db) \<Longrightarrow> active_play userID sourceID x \<Longrightarrow> mj_Status j \<noteq> MusicDownloadRunning \<Longrightarrow>
      mj_Status x \<noteq> MusicDownloadRunning \<and> mj_Priority x \<le> mj_Priority j"
proof -
  let ?rank = "\<lambda>j. if mj_Status j = MusicDownloadRunning then 0 else 1 :: int"
  let ?rows = "filter (active_play userID sourceID) (jd_jobs db)"
  from assms obtain js where js: "sort_key ?rank (by_urgency ?rows) = j # js"
    by (auto simp: select_active_def first_row_Some)
  have set: "set ?rows = set (j # js)" unfolding js [symmetric] by simp
  then show "j \<in> set (jd_jobs db)" "active_play userID sourceID j" by auto
  show "mj_Status x \<noteq> MusicDownloadRunning \<and> mj_Priority x \<le> mj_Priority j"
    if "x \<in> set (jd_jobs db)" "active_play userID sourceID x" "mj_Status j \<noteq> MusicDownloadRunning"
  proof -
    have "x \<in> set (j # js)" using that(1,2) set by auto
    then show ?thesis
      using sort_key_lex [OF by_urgency_sorted [of ?rows], of ?rank] that(3) by (auto simp: js split: if_splits)
  qed
qed

text \<open>
  asking to play a song now never queues it twice. If the user already has a waiting or running download of the song, the
  answer is one of these, no job is added, and when it still waits it has at least the requested priority; otherwise the
  job is added behind the others. The answer is what the table holds.
\<close>

theorem play_request_reuses:
  assumes "jobs_ok db" and "FindOrCreatePlay now job db = Inr (j, db')" and "mj_Kind job = MusicDownloadSong"
    and "mj_Status job = MusicDownloadQueued"
  shows "active_play (mj_UserID job) (mj_SourceID job) j \<and> job_of (mj_ID j) db' = Some j \<and>
    (mj_Status j = MusicDownloadRunning \<or> mj_Priority job \<le> mj_Priority j) \<and>
    (if list_ex (active_play (mj_UserID job) (mj_SourceID job)) (jd_jobs db)
     then map mj_ID (jd_jobs db') = map mj_ID (jd_jobs db) else jd_jobs db' = jd_jobs db @ [j])"
proof (cases "select_active (mj_UserID job) (mj_SourceID job) db")
  case None
  let ?active = "active_play (mj_UserID job) (mj_SourceID job)"
  have no: "filter ?active (jd_jobs db) = []" using None by (simp only: select_active_None)
  have tx: "promoteActivePlayTx now (mj_UserID job) (mj_SourceID job) (mj_Priority job) db = (None, db)"
    using None by (simp add: promoteActivePlayTx_def update_jobs_def)
  then have ins: "insertMusicDownloadJob now job db = Inr (j, db')" using assms(2) by (simp add: FindOrCreatePlay_def)
  note i = insert_job_ok [OF ins]
  have "jd_jobs db' = jd_jobs db @ [j]" using ins by (auto simp: insertMusicDownloadJob_def Let_def split: if_splits)
  moreover have "\<not> list_ex ?active (jd_jobs db)" using no by (simp add: list_ex_iff filter_empty_conv)
  moreover have "?active j" using assms(3,4) i(2) by (simp add: active_play_def)
  ultimately show ?thesis using i(2) i(4) [of "mj_ID job"] by simp
next
  case (Some x)
  let ?u = "mj_UserID job" and ?s = "mj_SourceID job"
  define f where "f = (\<lambda>j :: MusicDownloadJob. if Some (mj_ID j) = Some (mj_ID x) \<and> mj_Status j = MusicDownloadQueued
    then j\<lparr>mj_Priority := max (mj_Priority j) (mj_Priority job), mj_UpdatedAt := now\<rparr> else j)"
  define db1 where "db1 = db\<lparr>jd_jobs := map f (jd_jobs db)\<rparr>"
  have f: "mj_ID (f y) = mj_ID y" "mj_Status (f y) = mj_Status y" "active_play ?u ?s (f y) = active_play ?u ?s y" for y
    by (simp_all add: f_def active_play_def)
  have tx: "promoteActivePlayTx now ?u ?s (mj_Priority job) db = (select_active ?u ?s db1, db1)"
    using Some by (simp add: promoteActivePlayTx_def update_jobs_def db1_def f_def Let_def)
  note x = select_active_Some [OF Some]
  have fx: "f x \<in> set (jd_jobs db1)" "active_play ?u ?s (f x)" using x(1,2) f by (simp_all add: db1_def)
  then have "select_active ?u ?s db1 \<noteq> None" by (auto simp: select_active_None filter_empty_conv)
  then have sel: "select_active ?u ?s db1 = Some j" and db': "db' = db1"
    using assms(2) tx by (auto simp: FindOrCreatePlay_def split: option.splits)
  note j = select_active_Some [OF sel]
  have ok1: "jobs_ok db1" using assms(1) f(1) by (simp add: jobs_ok_def db1_def comp_def)
  have "mj_Status j = MusicDownloadRunning \<or> mj_Priority job \<le> mj_Priority j"
  proof (cases "mj_Status j = MusicDownloadRunning")
    case False
    with j(3) [OF fx] have p: "mj_Status (f x) \<noteq> MusicDownloadRunning" "mj_Priority (f x) \<le> mj_Priority j" by simp_all
    then have "mj_Status x = MusicDownloadQueued" using x(2) f(2) by (auto simp: active_play_def)
    then have "mj_Priority job \<le> mj_Priority (f x)" by (simp add: f_def)
    with p show ?thesis by simp
  qed simp
  moreover have "job_of (mj_ID j) db' = Some j" using job_of_iff [OF ok1] j(1) db' by simp
  moreover have "list_ex (active_play ?u ?s) (jd_jobs db)" using x(1,2) by (auto simp: list_ex_iff)
  moreover have "map mj_ID (jd_jobs db') = map mj_ID (jd_jobs db)" using f(1) by (simp add: db' db1_def)
  ultimately show ?thesis using j(2) by simp
qed

definition play_example_job :: MusicDownloadJob where
  "play_example_job =
     \<lparr>mj_ID = ''j1'', mj_UserID = ''u'', mj_Kind = MusicDownloadSong, mj_SourceID = ''r1'', mj_Artist = [], mj_Album = [], mj_Title = [],
      mj_Status = MusicDownloadQueued, mj_Message = [], mj_Error = [], mj_OutputPath = [], mj_Completed = 0, mj_Total = 0,
      mj_CreatedAt = 1, mj_UpdatedAt = 1, mj_StartedAt = None, mj_FinishedAt = None, mj_Origin = MusicDownloadOriginManual,
      mj_Priority = 200, mj_RadioItemID = [], mj_MediaFileID = []\<rparr>"

definition play_example_db :: jobs_db where
  "play_example_db = \<lparr>jd_users = [''u''], jd_jobs = [play_example_job\<lparr>mj_Priority := 3\<rparr>]\<rparr>"

theorem play_request_reuses_witness:
  "\<exists>j db'. FindOrCreatePlay 7 (play_example_job\<lparr>mj_ID := ''j2''\<rparr>) play_example_db = Inr (j, db') \<and> mj_Priority j \<ge> 200 \<and>
     map mj_ID (jd_jobs db') = [''j1'']"
proof -
  let ?job = "play_example_job\<lparr>mj_ID := ''j2''\<rparr>"
  have ok: "jobs_ok play_example_db" by (simp add: jobs_ok_def play_example_db_def)
  have active: "list_ex (active_play (mj_UserID ?job) (mj_SourceID ?job)) (jd_jobs play_example_db)"
    by (simp add: play_example_db_def play_example_job_def active_play_def)
  obtain j db' where run: "FindOrCreatePlay 7 ?job play_example_db = Inr (j, db')" and j: "mj_Status j = MusicDownloadQueued"
    by (simp add: FindOrCreatePlay_def promoteActivePlayTx_def select_active_def by_urgency_def active_play_def first_row_def
        update_jobs_def play_example_db_def play_example_job_def)
  from play_request_reuses [OF ok run] active j have "200 \<le> mj_Priority j \<and> map mj_ID (jd_jobs db') = [''j1'']"
    by (simp add: play_example_job_def play_example_db_def MusicDownloadQueued_def MusicDownloadRunning_def)
  with run show ?thesis by metis
qed

end
