(* ===== verification/Music_Service.thy ===== *)
theory Music_Service
  imports Music_Library Music_Jobs
begin

text \<open>
  \<open>core/music/service.go\<close>: requests for downloads, and the workers that carry them out. The catalog, the downloader, the
  tagger, the matcher and the disk are parameters, gathered in \<open>music_env\<close>; so is whether writing a version of a job
  fails. \<open>process\<close> never reads the table, so its result is the job it ends with and the versions it wrote on the way;
  \<open>music_step\<close> lets these writes, claims, requests and restarts interleave in any order. An error carries its text and
  the sentinel that \<open>errors.Is\<close> finds in it.
\<close>

datatype music_errkind =
  MusicCanceled | MusicDeadline | MusicNotFound | MusicValidation | MusicNotAvailable | MusicAlreadyDownloaded | MusicOther

record music_error =
  er_kind :: music_errkind
  er_text :: string

definition music_err :: "music_errkind \<Rightarrow> string \<Rightarrow> music_error" where
  "music_err kind text = \<lparr>er_kind = kind, er_text = text\<rparr>"

text \<open>\<open>fmt.Errorf("prefix: %w", err)\<close>.\<close>

definition wrap :: "string \<Rightarrow> music_error \<Rightarrow> music_error" where
  "wrap what e = e\<lparr>er_text := what @ '': '' @ er_text e\<rparr>"

text \<open>The verb \<open>%q\<close>, without its escapes.\<close>

definition quoted :: "string \<Rightarrow> string" where
  "quoted s = CHR 0x22 # s @ [CHR 0x22]"

definition validation_error :: "string \<Rightarrow> music_error" where
  "validation_error text = music_err MusicValidation (''validation error: '' @ text)"

definition job_failure :: "job_error \<Rightarrow> music_error" where
  "job_failure e = (case e of ConstraintViolation \<Rightarrow> music_err MusicOther ''constraint failed'' | JobNotFound \<Rightarrow> music_err MusicNotFound ''data not found'')"

record music_env =
  mu_configured :: bool
  mu_workspace :: "music_error option"
  mu_Recording :: "string \<Rightarrow> music_error + ExternalTrack"
  mu_Album :: "string \<Rightarrow> music_error + ExternalAlbum \<times> ExternalTrack list"
  mu_SearchSongs :: "string \<Rightarrow> music_error + ExternalTrack list"
  mu_Download :: "ExternalTrack \<Rightarrow> music_error + string"
  mu_Import :: "string list \<Rightarrow> ExternalTrack \<Rightarrow> bool \<Rightarrow> music_error option"
  mu_matcher :: "music_error song_matcher option"
  mu_LibrarySearch :: "string \<Rightarrow> int \<Rightarrow> music_error + MediaFile list"
  mu_updateErr :: "MusicDownloadJob \<Rightarrow> music_error option"
  mu_Search :: "string \<Rightarrow> music_error + ExternalMusicSearch"
  mu_hasLibrary :: bool
  mu_affinity :: "(string \<Rightarrow> ExternalMusicSearch \<Rightarrow> music_error + (string \<Rightarrow> rat)) option"
  mu_log1p :: "rat \<Rightarrow> rat"

record ExternalDownloadRequest =
  xr_Kind :: string
  xr_ID :: string
  xr_PlayNow :: bool
  xr_Origin :: string
  xr_Priority :: int
  xr_RadioItemID :: string
  xr_Title :: string
  xr_Artist :: string
  xr_Album :: string

definition playNowDownloadPriority :: int where "playNowDownloadPriority = 200"

definition empty_ExternalTrack :: ExternalTrack where
  "empty_ExternalTrack =
     \<lparr>xt_ID = [], xt_Source = [], xt_LocalMediaFileID = [], xt_Title = [], xt_ArtistID = [], xt_ArtistName = [], xt_AlbumID = [],
      xt_AlbumTitle = [], xt_ReleaseDate = [], xt_Year = 0, xt_Duration = 0, xt_TrackNumber = 0, xt_DiscNumber = 0, xt_Genre = [],
      xt_ArtworkURLs = [], xt_ISRCs = [], xt_Video = False, xt_Version = [], xt_ProviderScore = 0, xt_Popularity = 0\<rparr>"

subsection \<open>Requests\<close>

definition validateSourceID :: "string \<Rightarrow> music_error option" where
  "validateSourceID value0 =
     (let value = trim_space value0
      in if value = [] \<or> length value > 128 \<or> list_ex (\<lambda>c. c = CHR ''/'' \<or> c = CHR 0x5C) value
         then Some (validation_error ''invalid external music ID'') else None)"

definition validateRequest :: "string \<Rightarrow> ExternalDownloadRequest \<Rightarrow> music_error option" where
  "validateRequest userID request =
     (if trim_space userID = [] then Some (validation_error ''user is required'')
      else if xr_Kind request \<noteq> MusicDownloadSong \<and> xr_Kind request \<noteq> MusicDownloadAlbum then Some (validation_error ''unsupported download kind'')
      else if xr_PlayNow request \<and> xr_Kind request \<noteq> MusicDownloadSong then Some (validation_error ''playNow requires a song'')
      else validateSourceID (xr_ID request))"

definition unavailable :: "music_error \<Rightarrow> music_error" where
  "unavailable e = music_err MusicNotAvailable (''functionality not available: check song in library: '' @ er_text e)"

text \<open>Whether the library has the song already.\<close>

definition ownedCheck :: "music_env \<Rightarrow> ExternalDownloadRequest \<Rightarrow> music_error option" where
  "ownedCheck env request =
     (if mu_matcher env = None \<or> xr_Kind request \<noteq> MusicDownloadSong \<or>
         \<not> (xr_Origin request = [] \<or> xr_Origin request = MusicDownloadOriginManual) then None
      else (case mu_Recording env (xr_ID request) of
              Inl e \<Rightarrow> Some (unavailable e)
            | Inr track \<Rightarrow>
                (case matchCatalogTracks (mu_matcher env) [track] of
                   (Some e, _) \<Rightarrow> Some (unavailable e)
                 | (None, matched) \<Rightarrow>
                     if matched 0 \<noteq> None then Some (music_err MusicAlreadyDownloaded ''song is already in the library'')
                     else (case mu_LibrarySearch env (xt_Title track) 100 of
                             Inl e \<Rightarrow> Some (unavailable e)
                           | Inr files \<Rightarrow>
                               if list_ex (sameLibrarySong track) files
                               then Some (music_err MusicAlreadyDownloaded ''song is already in the library'') else None))))"

definition new_job :: "Time \<Rightarrow> string \<Rightarrow> string \<Rightarrow> ExternalDownloadRequest \<Rightarrow> MusicDownloadJob" where
  "new_job now newID userID request =
     \<lparr>mj_ID = newID, mj_UserID = userID, mj_Kind = xr_Kind request, mj_SourceID = xr_ID request, mj_Artist = xr_Artist request,
      mj_Album = xr_Album request, mj_Title = xr_Title request, mj_Status = MusicDownloadQueued, mj_Message = ''Queued'', mj_Error = [],
      mj_OutputPath = [], mj_Completed = 0, mj_Total = 0, mj_CreatedAt = now, mj_UpdatedAt = now, mj_StartedAt = None,
      mj_FinishedAt = None, mj_Origin = (if xr_Origin request = [] then MusicDownloadOriginManual else xr_Origin request),
      mj_Priority = (if xr_PlayNow request then playNowDownloadPriority else xr_Priority request),
      mj_RadioItemID = xr_RadioItemID request, mj_MediaFileID = []\<rparr>"

text \<open>The transaction that ends a request, and the request.\<close>

definition enqueueJob :: "Time \<Rightarrow> ExternalDownloadRequest \<Rightarrow> MusicDownloadJob \<Rightarrow> jobs_db \<Rightarrow> job_error + MusicDownloadJob \<times> jobs_db" where
  "enqueueJob now request job db = (if xr_PlayNow request then FindOrCreatePlay now job db else Create_job now job db)"

definition promoteRequest :: "Time \<Rightarrow> string \<Rightarrow> ExternalDownloadRequest \<Rightarrow> jobs_db \<Rightarrow> MusicDownloadJob option \<times> jobs_db" where
  "promoteRequest now userID request db =
     (if xr_PlayNow request then PromoteActivePlay now userID (xr_ID request) playNowDownloadPriority db else (None, db))"

definition CreateDownload ::
  "music_env \<Rightarrow> Time \<Rightarrow> string \<Rightarrow> string \<Rightarrow> ExternalDownloadRequest \<Rightarrow> jobs_db \<Rightarrow> (music_error + MusicDownloadJob) \<times> jobs_db" where
  "CreateDownload env now newID userID request db =
     (case validateRequest userID request of
        Some e \<Rightarrow> (Inl e, db)
      | None \<Rightarrow>
          (case promoteRequest now userID request db of
             (Some active, db1) \<Rightarrow> (Inr active, db1)
           | (None, db1) \<Rightarrow>
               (case ownedCheck env request of
                  Some e \<Rightarrow> (Inl e, db1)
                | None \<Rightarrow>
                    (case enqueueJob now request (new_job now newID userID request) db1 of
                       Inl e \<Rightarrow> (Inl (job_failure e), db1)
                     | Inr (job, db2) \<Rightarrow> (Inr job, db2)))))"

definition ListDownloads :: "string \<Rightarrow> int \<Rightarrow> jobs_db \<Rightarrow> music_error + MusicDownloadJob list" where
  "ListDownloads userID maxJobs db =
     (if trim_space userID = [] then Inl (validation_error ''user is required'') else Inr (GetAllForUser userID maxJobs db))"

text \<open>Looking for the downloaded song in the library. The version of the job it writes, if any, comes last.\<close>

definition job_track :: "MusicDownloadJob \<Rightarrow> ExternalTrack" where
  "job_track job = empty_ExternalTrack\<lparr>xt_ID := mj_SourceID job, xt_Title := mj_Title job, xt_ArtistName := mj_Artist job,
     xt_AlbumTitle := mj_Album job\<rparr>"

definition resolveDownloadedSong ::
  "music_env \<Rightarrow> MusicDownloadJob \<Rightarrow> music_error option \<times> MusicDownloadJob \<times> MusicDownloadJob list" where
  "resolveDownloadedSong env job =
     (if mu_matcher env = None \<or> mj_Kind job \<noteq> MusicDownloadSong \<or> mj_MediaFileID job \<noteq> [] then (None, job, [])
      else (case matchCatalogTracks (mu_matcher env) [job_track job] of
              (Some e, _) \<Rightarrow> (Some e, job, [])
            | (None, matched) \<Rightarrow>
                (case matched 0 of
                   None \<Rightarrow> (None, job, [])
                 | Some file \<Rightarrow>
                     let job1 = job\<lparr>mj_MediaFileID := mf_ID file\<rparr>
                     in case mu_updateErr env job1 of
                          Some e \<Rightarrow> (Some e, job, [])
                        | None \<Rightarrow> (None, job1, [job1]))))"

definition GetDownload ::
  "music_env \<Rightarrow> Time \<Rightarrow> string \<Rightarrow> string \<Rightarrow> jobs_db \<Rightarrow> (music_error + MusicDownloadJob) \<times> jobs_db" where
  "GetDownload env now userID jobID db =
     (if trim_space userID = [] \<or> trim_space jobID = [] then (Inl (music_err MusicNotFound ''data not found''), db)
      else (case GetForUser jobID userID db of
              Inl e \<Rightarrow> (Inl (job_failure e), db)
            | Inr job \<Rightarrow>
                if mj_Kind job = MusicDownloadSong \<and> mj_Status job = MusicDownloadSuccess \<and> mj_MediaFileID job = [] then
                  let (_, job1, writes) = resolveDownloadedSong env job
                  in (Inr job1, fold (Update_job now) writes db)
                else (Inr job, db)))"

subsection \<open>Searching\<close>

definition empty_search :: ExternalMusicSearch where
  "empty_search = \<lparr>xs_Results = [], xs_Partial = False, xs_DegradedSources = [], xs_Artists = [], xs_Albums = [], xs_Songs = [], xs_Genres = []\<rparr>"

definition degrade :: "string \<Rightarrow> ExternalMusicSearch \<Rightarrow> ExternalMusicSearch" where
  "degrade source r = r\<lparr>xs_Partial := True, xs_DegradedSources := xs_DegradedSources r @ [source]\<rparr>"

definition join_errors :: "music_error \<Rightarrow> music_error \<Rightarrow> music_error" where
  "join_errors a b = a\<lparr>er_text := er_text a @ [CHR 0x0A] @ er_text b\<rparr>"

definition lookupAffinity :: "music_env \<Rightarrow> string \<Rightarrow> ExternalMusicSearch \<Rightarrow> string \<Rightarrow> rat" where
  "lookupAffinity env userID result =
     (case mu_affinity env of
        Some lookup \<Rightarrow>
          if trim_space userID = [] then (\<lambda>_. 0)
          else (case lookup userID result of Inl e \<Rightarrow> (\<lambda>_. 0) | Inr values \<Rightarrow> values)
      | None \<Rightarrow> (\<lambda>_. 0))"

definition Search_music :: "music_env \<Rightarrow> string \<Rightarrow> string \<Rightarrow> int \<Rightarrow> music_error + ExternalMusicSearch" where
  "Search_music env userID query0 maxHits =
     (let query = trim_space query0
      in if query = [] \<or> length query > 200 then Inl (validation_error ''search query must be between 1 and 200 characters'')
         else if maxHits < 1 \<or> maxHits > 50 then Inl (validation_error ''limit must be between 1 and 50'')
         else
           let catalog = mu_Search env query;
               catalogErr = (case catalog of Inl e \<Rightarrow> Some e | Inr _ \<Rightarrow> None);
               result = (case catalog of Inl e \<Rightarrow> degrade ''musicbrainz:search'' empty_search | Inr r \<Rightarrow> r);
               affinities = (if catalogErr = None then lookupAffinity env userID result else (\<lambda>_. 0));
               rank = (\<lambda>r. rankExternalSearch (mu_log1p env) query r maxHits affinities)
           in if \<not> mu_hasLibrary env then (case catalogErr of Some e \<Rightarrow> Inl e | None \<Rightarrow> Inr (rank result))
              else (case mergeLibrarySearch (mu_matcher env) (mu_LibrarySearch env query (min (maxHits * 2) 100)) result of
                      (None, merged) \<Rightarrow> Inr (rank merged)
                    | (Some libraryErr, merged) \<Rightarrow>
                        (case catalogErr of
                           Some e \<Rightarrow> Inl (join_errors e libraryErr)
                         | None \<Rightarrow> Inr (rank (degrade ''library'' merged)))))"

record ExternalAlbumDetails =
  xd_Album :: ExternalAlbum
  xd_Tracks :: "ExternalTrack list"
  xd_LibraryStatusUnavailable :: bool

definition Album_details :: "music_env \<Rightarrow> string \<Rightarrow> music_error + ExternalAlbumDetails" where
  "Album_details env albumID =
     (case validateSourceID albumID of
        Some e \<Rightarrow> Inl e
      | None \<Rightarrow>
          (case mu_Album env albumID of
             Inl e \<Rightarrow> Inl e
           | Inr (album, tracks0) \<Rightarrow>
               let tracks = map (\<lambda>t. t\<lparr>xt_Source := ''catalog''\<rparr>) tracks0;
                   details = \<lparr>xd_Album = album, xd_Tracks = tracks, xd_LibraryStatusUnavailable = False\<rparr>
               in if mu_matcher env = None then Inr details
                  else (case matchCatalogTracks (mu_matcher env) tracks of
                          (Some e, _) \<Rightarrow> Inr (details\<lparr>xd_LibraryStatusUnavailable := True\<rparr>)
                        | (None, matched) \<Rightarrow> Inr (details\<lparr>xd_Tracks := label_matched matched tracks\<rparr>))))"

subsection \<open>Finding a recording by search\<close>

definition normalizeSearchTitle :: "string \<Rightarrow> string" where
  "normalizeSearchTitle value = to_lower (trim_space value)"

definition searchTitleMatch :: "string \<Rightarrow> string \<Rightarrow> bool" where
  "searchTitleMatch expected0 actual0 =
     (let expected = normalizeSearchTitle expected0; actual = normalizeSearchTitle actual0
      in if expected = [] \<or> actual = [] then False
         else expected = actual \<or> str_contains expected actual \<or> str_contains actual expected)"

definition resolveSearchMatch :: "music_env \<Rightarrow> ExternalTrack \<Rightarrow> ExternalTrack" where
  "resolveSearchMatch env matched =
     (if trim_space (xt_ID matched) = [] then matched
      else (case mu_Recording env (xt_ID matched) of
              Inl e \<Rightarrow> matched
            | Inr resolved \<Rightarrow> if trim_space (xt_Genre resolved) \<noteq> [] then matched\<lparr>xt_Genre := xt_Genre resolved\<rparr> else matched))"

definition resolveRecordingBySearch :: "music_env \<Rightarrow> MusicDownloadJob \<Rightarrow> music_error + ExternalTrack" where
  "resolveRecordingBySearch env job =
     (let query = trim_space (trim_space (mj_Artist job) @ '' '' @ trim_space (mj_Title job))
      in if query = [] then Inl (music_err MusicOther ''recording metadata is empty; cannot search'')
         else (case mu_SearchSongs env query of
                 Inl e \<Rightarrow> Inl (wrap ''search recording'' e)
               | Inr songs \<Rightarrow>
                   if songs = [] then Inl (music_err MusicNotFound ''data not found'')
                   else
                     let title = normalizeSearchTitle (mj_Title job); artist = normalizeSearchTitle (mj_Artist job)
                     in case find (\<lambda>song. searchTitleMatch title (xt_Title song) \<and>
                                    (artist = [] \<or> normalizeSearchTitle (xt_ArtistName song) = artist)) songs of
                          Some song \<Rightarrow> Inr (resolveSearchMatch env song)
                        | None \<Rightarrow>
                            (case find (\<lambda>song. searchTitleMatch title (xt_Title song)) songs of
                               Some song \<Rightarrow> Inr (resolveSearchMatch env song)
                             | None \<Rightarrow> Inl (music_err MusicNotFound ''data not found''))))"

subsection \<open>Carrying out a job\<close>

text \<open>The state of a run: the job in memory, the versions written, and the files downloaded.\<close>

type_synonym run = "MusicDownloadJob \<times> MusicDownloadJob list"

definition tryUpdate :: "music_env \<Rightarrow> string \<Rightarrow> run \<Rightarrow> music_error option \<times> run" where
  "tryUpdate env what r =
     (case mu_updateErr env (fst r) of
        Some e \<Rightarrow> (Some (wrap what e), r)
      | None \<Rightarrow> (None, (fst r, snd r @ [fst r])))"

definition setJobTrack :: "MusicDownloadJob \<Rightarrow> ExternalTrack \<Rightarrow> MusicDownloadJob" where
  "setJobTrack job track = job\<lparr>mj_Artist := xt_ArtistName track, mj_Album := xt_AlbumTitle track, mj_Title := xt_Title track\<rparr>"

definition loadRecording :: "music_env \<Rightarrow> MusicDownloadJob \<Rightarrow> music_error + ExternalTrack" where
  "loadRecording env job =
     (case mu_Recording env (mj_SourceID job) of
        Inr track \<Rightarrow> Inr track
      | Inl _ \<Rightarrow>
          (case resolveRecordingBySearch env job of
             Inl e \<Rightarrow> Inl (wrap ''load recording'' e)
           | Inr track \<Rightarrow> Inr track))"

definition downloadSong :: "music_env \<Rightarrow> MusicDownloadJob \<Rightarrow> music_error option \<times> run" where
  "downloadSong env job =
     (case loadRecording env job of
        Inl e \<Rightarrow> (Some e, (job, []))
      | Inr track \<Rightarrow>
          (case tryUpdate env ''update download metadata'' ((setJobTrack job track)\<lparr>mj_Total := 1\<rparr>, []) of
             (Some e, r) \<Rightarrow> (Some e, r)
           | (None, r) \<Rightarrow>
               (case mu_Download env track of
                  Inl e \<Rightarrow> (Some (wrap ''download recording'' e), r)
                | Inr path \<Rightarrow>
                    (case mu_Import env [path] track True of
                       Some e \<Rightarrow> (Some (wrap ''tag recording'' e), r)
                     | None \<Rightarrow> (None, ((fst r)\<lparr>mj_Completed := 1\<rparr>, snd r))))))"

definition albumTrack :: "ExternalAlbum \<Rightarrow> ExternalTrack \<Rightarrow> ExternalTrack" where
  "albumTrack album track =
     (let t1 = (if xt_ArtistName track = [] then track\<lparr>xt_ArtistName := xb_ArtistName album\<rparr> else track);
          t2 = (if xt_AlbumTitle t1 = [] then t1\<lparr>xt_AlbumTitle := xb_Title album\<rparr> else t1)
      in if xt_AlbumID t2 = [] then t2\<lparr>xt_AlbumID := xb_ID album\<rparr> else t2)"

definition progress :: "int \<Rightarrow> MusicDownloadJob \<Rightarrow> MusicDownloadJob" where
  "progress done job = job\<lparr>mj_Completed := done,
     mj_Message := ''Downloaded '' @ itoa done @ '' of '' @ itoa (mj_Total job) @ '' tracks''\<rparr>"

fun downloadTracks ::
  "music_env \<Rightarrow> ExternalAlbum \<Rightarrow> nat \<Rightarrow> ExternalTrack list \<Rightarrow> string list \<Rightarrow> run \<Rightarrow> (music_error + string list) \<times> run" where
  "downloadTracks env album i [] files r = (Inr files, r)"
| "downloadTracks env album i (t # ts) files r =
     (let track = albumTrack album t
      in case mu_Download env track of
           Inl e \<Rightarrow> (Inl (wrap (''download track '' @ quoted (xt_Title track)) e), r)
         | Inr path \<Rightarrow>
             (case tryUpdate env ''update album progress'' (progress (int (i + 1)) (fst r), snd r) of
                (Some e, r1) \<Rightarrow> (Inl e, r1)
              | (None, r1) \<Rightarrow> downloadTracks env album (i + 1) ts (files @ [path]) r1))"

definition downloadAlbum :: "music_env \<Rightarrow> MusicDownloadJob \<Rightarrow> music_error option \<times> run" where
  "downloadAlbum env job =
     (case mu_Album env (mj_SourceID job) of
        Inl e \<Rightarrow> (Some (wrap ''load album'' e), (job, []))
      | Inr (album, tracks) \<Rightarrow>
          if tracks = [] then (Some (music_err MusicOther ''album contains no tracks''), (job, []))
          else (case tryUpdate env ''update album metadata''
                  (job\<lparr>mj_Artist := xb_ArtistName album, mj_Album := xb_Title album, mj_Total := int (length tracks)\<rparr>, []) of
                  (Some e, r) \<Rightarrow> (Some e, r)
                | (None, r) \<Rightarrow>
                    (case downloadTracks env album 0 tracks [] r of
                       (Inl e, r1) \<Rightarrow> (Some e, r1)
                     | (Inr files, r1) \<Rightarrow>
                         let metadata = empty_ExternalTrack\<lparr>xt_ArtistName := xb_ArtistName album, xt_AlbumID := xb_ID album,
                               xt_AlbumTitle := xb_Title album, xt_Year := xb_Year album\<rparr>
                         in case mu_Import env files metadata False of
                              Some e \<Rightarrow> (Some (wrap ''tag album'' e), r1)
                            | None \<Rightarrow> (None, r1))))"

definition processDownload :: "music_env \<Rightarrow> MusicDownloadJob \<Rightarrow> music_error option \<times> run" where
  "processDownload env job =
     (if \<not> mu_configured env then (Some (music_err MusicOther ''music download provider is not configured''), (job, []))
      else (case mu_workspace env of
              Some e \<Rightarrow> (Some e, (job, []))
            | None \<Rightarrow>
                if mj_Kind job = MusicDownloadSong then downloadSong env job
                else if mj_Kind job = MusicDownloadAlbum then downloadAlbum env job
                else (Some (music_err MusicOther (''unsupported download kind '' @ quoted (mj_Kind job))), (job, []))))"

definition finishJob :: "Time \<Rightarrow> music_error option \<Rightarrow> MusicDownloadJob \<Rightarrow> MusicDownloadJob" where
  "finishJob now err job =
     (case err of
        None \<Rightarrow> job\<lparr>mj_Status := MusicDownloadSuccess, mj_Message := ''Added to library'', mj_Error := [], mj_FinishedAt := Some now\<rparr>
      | Some e \<Rightarrow>
          if er_kind e = MusicCanceled \<or> er_kind e = MusicDeadline
          then job\<lparr>mj_Status := MusicDownloadQueued, mj_Message := ''Interrupted; will retry'', mj_Error := [], mj_StartedAt := None\<rparr>
          else job\<lparr>mj_Status := MusicDownloadFailed, mj_Message := ''Download failed'', mj_Error := er_text e, mj_FinishedAt := Some now\<rparr>)"

definition process :: "music_env \<Rightarrow> Time \<Rightarrow> MusicDownloadJob \<Rightarrow> run" where
  "process env now job =
     (let (err, r) = processDownload env job;
          (_, job1, more1) = (if err = None then resolveDownloadedSong env (fst r) else (None, fst r, []));
          job2 = finishJob now err job1
      in (job2, (snd r @ more1) @ (if mu_updateErr env job2 = None then [job2] else [])))"

subsection \<open>What a run does\<close>

text \<open>While it runs, a job keeps its identity and its status.\<close>

definition same_run :: "MusicDownloadJob \<Rightarrow> MusicDownloadJob \<Rightarrow> bool" where
  "same_run j w \<longleftrightarrow> mj_ID w = mj_ID j \<and> mj_Status w = mj_Status j \<and> mj_Kind w = mj_Kind j \<and> mj_Origin w = mj_Origin j \<and>
     mj_UserID w = mj_UserID j \<and> mj_SourceID w = mj_SourceID j"

definition run_ok :: "MusicDownloadJob \<Rightarrow> run \<Rightarrow> bool" where
  "run_ok j r \<longleftrightarrow> same_run j (fst r) \<and> list_all (same_run j) (snd r)"

lemma run_ok_start [simp]: "run_ok j (j', []) \<longleftrightarrow> same_run j j'"
  by (simp add: run_ok_def)

lemma same_run_simps [simp]:
  "same_run j j" "same_run j (setJobTrack w track) = same_run j w" "same_run j (progress n w) = same_run j w"
  "same_run j (w\<lparr>mj_Total := t\<rparr>) = same_run j w" "same_run j (w\<lparr>mj_Completed := t\<rparr>) = same_run j w"
  "same_run j (w\<lparr>mj_Artist := a\<rparr>) = same_run j w" "same_run j (w\<lparr>mj_Album := a\<rparr>) = same_run j w"
  "same_run j (w\<lparr>mj_MediaFileID := a\<rparr>) = same_run j w"
  by (simp_all add: same_run_def setJobTrack_def progress_def)

lemma tryUpdate_ok: "tryUpdate env what r = (e, r') \<Longrightarrow> run_ok j r \<Longrightarrow> run_ok j r' \<and> fst r' = fst r"
  by (auto simp: tryUpdate_def run_ok_def split: option.splits)

lemma downloadTracks_run:
  "downloadTracks env album i ts files r = (res, r') \<Longrightarrow> run_ok j r \<Longrightarrow> run_ok j r'"
proof (induction env album i ts files r arbitrary: res r' rule: downloadTracks.induct)
  case (2 env album i t ts files r)
  show ?case
  proof (cases "mu_Download env (albumTrack album t)")
    case (Inl e)
    with 2 show ?thesis by (simp add: Let_def)
  next
    case (Inr path)
    obtain e r1 where u: "tryUpdate env ''update album progress'' (progress (int (i + 1)) (fst r), snd r) = (e, r1)"
      by (meson surj_pair)
    have "run_ok j r1" using tryUpdate_ok [OF u, of j] 2(3) by (simp add: run_ok_def)
    then show ?thesis
      using 2(1) [OF refl Inr u [symmetric]] 2(2) u Inr by (cases e) (auto simp: Let_def)
  qed
qed simp

lemma downloadSong_run: "run_ok job (snd (downloadSong env job))"
proof -
  have "run_ok job r" if "tryUpdate env what ((setJobTrack job track)\<lparr>mj_Total := 1\<rparr>, []) = (e, r)" for what track e r
    using tryUpdate_ok [OF that, of job] by simp
  then show ?thesis
    by (auto simp: downloadSong_def run_ok_def split: sum.split option.split prod.split)
qed

lemma downloadAlbum_run: "run_ok job (snd (downloadAlbum env job))"
proof -
  have upd: "run_ok job r" if "tryUpdate env what (job\<lparr>mj_Artist := a, mj_Album := b, mj_Total := t\<rparr>, []) = (e, r)" for what a b t e r
    using tryUpdate_ok [OF that, of job] by simp
  show ?thesis
    by (auto simp: downloadAlbum_def Let_def split: sum.split option.split prod.split dest: upd downloadTracks_run)
qed

lemma processDownload_run: "run_ok job (snd (processDownload env job))"
  using downloadSong_run downloadAlbum_run by (auto simp: processDownload_def split: option.split)

lemma resolveDownloadedSong_run:
  assumes "resolveDownloadedSong env job = (e, job', ws)"
  shows "same_run job job'" "list_all (same_run job) ws" "mj_Completed job' = mj_Completed job" "mj_Total job' = mj_Total job"
proof -
  have "same_run job job' \<and> list_all (same_run job) ws \<and> mj_Completed job' = mj_Completed job \<and> mj_Total job' = mj_Total job"
    using assms unfolding resolveDownloadedSong_def Let_def
    by (auto split: if_splits prod.splits option.splits)
  then show "same_run job job'" "list_all (same_run job) ws" "mj_Completed job' = mj_Completed job" "mj_Total job' = mj_Total job"
    by blast+
qed

text \<open>
  What a download of \<open>n\<close> tracks takes: the song or album is found, every track is downloaded, the metadata and the progress
  are written, and the files are imported together.
\<close>

definition album_job :: "MusicDownloadJob \<Rightarrow> ExternalAlbum \<Rightarrow> nat \<Rightarrow> MusicDownloadJob" where
  "album_job job album n = job\<lparr>mj_Artist := xb_ArtistName album, mj_Album := xb_Title album, mj_Total := int n\<rparr>"

definition album_metadata :: "ExternalAlbum \<Rightarrow> ExternalTrack" where
  "album_metadata album = empty_ExternalTrack\<lparr>xt_ArtistName := xb_ArtistName album, xt_AlbumID := xb_ID album,
     xt_AlbumTitle := xb_Title album, xt_Year := xb_Year album\<rparr>"

definition tracks_downloaded :: "music_env \<Rightarrow> ExternalAlbum \<Rightarrow> ExternalTrack list \<Rightarrow> string list \<Rightarrow> bool" where
  "tracks_downloaded env album tracks paths \<longleftrightarrow>
     list_all2 (\<lambda>t path. mu_Download env (albumTrack album t) = Inr path) tracks paths"

definition song_done :: "music_env \<Rightarrow> MusicDownloadJob \<Rightarrow> bool" where
  "song_done env job \<longleftrightarrow> (\<exists>track path. loadRecording env job = Inr track \<and>
     mu_updateErr env ((setJobTrack job track)\<lparr>mj_Total := 1\<rparr>) = None \<and> mu_Download env track = Inr path \<and>
     mu_Import env [path] track True = None)"

definition album_done :: "music_env \<Rightarrow> MusicDownloadJob \<Rightarrow> nat \<Rightarrow> bool" where
  "album_done env job n \<longleftrightarrow> (\<exists>album tracks paths. mu_Album env (mj_SourceID job) = Inr (album, tracks) \<and>
     tracks \<noteq> [] \<and> n = length tracks \<and> tracks_downloaded env album tracks paths \<and>
     mu_updateErr env (album_job job album n) = None \<and>
     (\<forall>i < n. mu_updateErr env (progress (int i + 1) (album_job job album n)) = None) \<and>
     mu_Import env paths (album_metadata album) False = None)"

definition download_done :: "music_env \<Rightarrow> MusicDownloadJob \<Rightarrow> nat \<Rightarrow> bool" where
  "download_done env job n \<longleftrightarrow> mu_configured env \<and> mu_workspace env = None \<and>
     (mj_Kind job = MusicDownloadSong \<and> song_done env job \<and> n = 1 \<or>
      mj_Kind job = MusicDownloadAlbum \<and> album_done env job n)"

text \<open>The errors that can end a download: each is that of a step that failed.\<close>

definition song_fault :: "music_env \<Rightarrow> MusicDownloadJob \<Rightarrow> music_error \<Rightarrow> bool" where
  "song_fault env job e \<longleftrightarrow> loadRecording env job = Inl e \<or>
     (\<exists>track x. loadRecording env job = Inr track \<and>
        (mu_updateErr env ((setJobTrack job track)\<lparr>mj_Total := 1\<rparr>) = Some x \<and> e = wrap ''update download metadata'' x \<or>
         mu_Download env track = Inl x \<and> e = wrap ''download recording'' x \<or>
         (\<exists>path. mu_Download env track = Inr path \<and> mu_Import env [path] track True = Some x) \<and> e = wrap ''tag recording'' x))"

definition album_fault :: "music_env \<Rightarrow> MusicDownloadJob \<Rightarrow> music_error \<Rightarrow> bool" where
  "album_fault env job e \<longleftrightarrow>
     (\<exists>x. mu_Album env (mj_SourceID job) = Inl x \<and> e = wrap ''load album'' x) \<or>
     (\<exists>album. mu_Album env (mj_SourceID job) = Inr (album, []) \<and> e = music_err MusicOther ''album contains no tracks'') \<or>
     (\<exists>album tracks x. mu_Album env (mj_SourceID job) = Inr (album, tracks) \<and>
        (mu_updateErr env (album_job job album (length tracks)) = Some x \<and> e = wrap ''update album metadata'' x \<or>
         (\<exists>t \<in> set tracks. mu_Download env (albumTrack album t) = Inl x \<and>
            e = wrap (''download track '' @ quoted (xt_Title (albumTrack album t))) x) \<or>
         (\<exists>i < length tracks. mu_updateErr env (progress (int i + 1) (album_job job album (length tracks))) = Some x) \<and>
            e = wrap ''update album progress'' x \<or>
         (\<exists>paths. tracks_downloaded env album tracks paths \<and> mu_Import env paths (album_metadata album) False = Some x) \<and>
            e = wrap ''tag album'' x))"

definition download_fault :: "music_env \<Rightarrow> MusicDownloadJob \<Rightarrow> music_error \<Rightarrow> bool" where
  "download_fault env job e \<longleftrightarrow>
     \<not> mu_configured env \<and> e = music_err MusicOther ''music download provider is not configured'' \<or>
     mu_workspace env = Some e \<or>
     mj_Kind job \<noteq> MusicDownloadSong \<and> mj_Kind job \<noteq> MusicDownloadAlbum \<and>
       e = music_err MusicOther (''unsupported download kind '' @ quoted (mj_Kind job)) \<or>
     mj_Kind job = MusicDownloadSong \<and> song_fault env job e \<or>
     mj_Kind job = MusicDownloadAlbum \<and> album_fault env job e"

lemma tryUpdate_fst: "fst (snd (tryUpdate env what r)) = fst r"
  by (simp add: tryUpdate_def split: option.split)

lemma progress_progress [simp]: "progress n (progress m j) = progress n j"
  by (simp add: progress_def)

lemma downloadTracks_result:
  assumes "downloadTracks env album i ts files r = (res, r')"
  shows "case res of
      Inr paths \<Rightarrow> (\<exists>new. paths = files @ new \<and> tracks_downloaded env album ts new) \<and>
        (\<forall>k < length ts. mu_updateErr env (progress (int (i + k) + 1) (fst r)) = None) \<and>
        fst r' = (if ts = [] then fst r else progress (int (i + length ts)) (fst r))
    | Inl e \<Rightarrow> \<exists>x. (\<exists>t \<in> set ts. mu_Download env (albumTrack album t) = Inl x \<and>
          e = wrap (''download track '' @ quoted (xt_Title (albumTrack album t))) x) \<or>
        (\<exists>k < length ts. mu_updateErr env (progress (int (i + k) + 1) (fst r)) = Some x) \<and> e = wrap ''update album progress'' x"
  using assms
proof (induction ts arbitrary: i files r)
  case Nil
  then show ?case by (auto simp: tracks_downloaded_def)
next
  case (Cons t ts)
  show ?case
  proof (cases "mu_Download env (albumTrack album t)")
    case (Inl x)
    with Cons.prems have "res = Inl (wrap (''download track '' @ quoted (xt_Title (albumTrack album t))) x)" by (simp add: Let_def)
    with Inl show ?thesis by auto
  next
    case (Inr path)
    show ?thesis
    proof (cases "mu_updateErr env (progress (int (i + 1)) (fst r))")
      case (Some x)
      with Cons.prems Inr have "res = Inl (wrap ''update album progress'' x)" by (simp add: Let_def tryUpdate_def)
      moreover have "mu_updateErr env (progress (int (i + 0) + 1) (fst r)) = Some x" using Some by (simp add: add.commute)
      then have "\<exists>k < length (t # ts). mu_updateErr env (progress (int (i + k) + 1) (fst r)) = Some x" by (intro exI [of _ 0]) simp
      ultimately show ?thesis by auto
    next
      case None
      let ?r = "(progress (int (i + 1)) (fst r), snd r @ [progress (int (i + 1)) (fst r)])"
      have "downloadTracks env album (i + 1) ts (files @ [path]) ?r = (res, r')"
        using Cons.prems Inr None by (simp add: Let_def tryUpdate_def)
      note IH = Cons.IH [OF this]
      have shift: "(\<forall>k < length (t # ts). P (int (i + k) + 1)) \<longleftrightarrow> P (int (i + 1)) \<and> (\<forall>k < length ts. P (int (i + 1 + k) + 1))" for P
        by (auto simp: less_Suc_eq_0_disj all_conj_distrib algebra_simps)
      show ?thesis
      proof (cases res)
        case (Inr paths)
        then obtain new where new: "paths = (files @ [path]) @ new" "tracks_downloaded env album ts new"
          and upd: "\<forall>k < length ts. mu_updateErr env (progress (int (i + 1 + k) + 1) (fst r)) = None"
          and r': "fst r' = (if ts = [] then progress (int (i + 1)) (fst r) else progress (int (i + 1 + length ts)) (fst r))"
          using IH by auto
        have "tracks_downloaded env album (t # ts) (path # new)"
          using new(2) \<open>mu_Download env (albumTrack album t) = Inr path\<close> by (simp add: tracks_downloaded_def)
        moreover have "\<forall>k < length (t # ts). mu_updateErr env (progress (int (i + k) + 1) (fst r)) = None"
          unfolding shift [of "\<lambda>n. mu_updateErr env (progress n (fst r)) = None"] using upd None by blast
        moreover have "fst r' = progress (int (i + length (t # ts))) (fst r)" using r' by (simp split: if_splits)
        ultimately show ?thesis using new(1) Inr by auto
      next
        case (Inl e)
        then obtain x where x: "(\<exists>t \<in> set ts. mu_Download env (albumTrack album t) = Inl x \<and>
            e = wrap (''download track '' @ quoted (xt_Title (albumTrack album t))) x) \<or>
          (\<exists>k < length ts. mu_updateErr env (progress (int (i + 1 + k) + 1) (fst r)) = Some x) \<and> e = wrap ''update album progress'' x"
          using IH by auto
        have "\<exists>k < length (t # ts). mu_updateErr env (progress (int (i + k) + 1) (fst r)) = Some x"
          if "\<exists>k < length ts. mu_updateErr env (progress (int (i + 1 + k) + 1) (fst r)) = Some x"
          using that shift [of "\<lambda>n. mu_updateErr env (progress n (fst r)) \<noteq> Some x"] by blast
        with x Inl show ?thesis by auto
      qed
    qed
  qed
qed

lemma downloadTracks_fails:
  assumes "downloadTracks env album i ts files r = (Inl e, r')" and "tracks_downloaded env album ts new"
  shows "\<exists>k < length ts. mu_updateErr env (progress (int (i + k) + 1) (fst r)) \<noteq> None"
proof -
  have "\<exists>path. mu_Download env (albumTrack album t) = Inr path" if "t \<in> set ts" for t
    using assms(2) that by (auto simp: tracks_downloaded_def in_set_conv_nth list_all2_conv_all_nth)
  then have "mu_Download env (albumTrack album t) \<noteq> Inl x" if "t \<in> set ts" for t x using that by fastforce
  with downloadTracks_result [OF assms(1)] show ?thesis by auto
qed

lemma tracks_downloaded_unique:
  "tracks_downloaded env album ts xs \<Longrightarrow> tracks_downloaded env album ts ys \<Longrightarrow> xs = ys"
  unfolding tracks_downloaded_def
  by (induction ts arbitrary: xs ys) (auto simp: list_all2_Cons1)

lemma downloadSong_outcome:
  "case downloadSong env job of
     (None, r) \<Rightarrow> song_done env job \<and> mj_Total (fst r) = 1 \<and> mj_Completed (fst r) = 1
   | (Some e, r) \<Rightarrow> song_fault env job e \<and> \<not> song_done env job"
proof (cases "loadRecording env job")
  case (Inl e)
  then show ?thesis by (simp add: downloadSong_def song_fault_def song_done_def)
next
  case (Inr track)
  let ?j = "(setJobTrack job track)\<lparr>mj_Total := 1\<rparr>"
  show ?thesis
  proof (cases "mu_updateErr env ?j")
    case (Some x)
    with Inr show ?thesis by (auto simp: downloadSong_def song_fault_def song_done_def tryUpdate_def)
  next
    case None
    note load = Inr
    show ?thesis
    proof (cases "mu_Download env track")
      case (Inl x)
      with load None show ?thesis by (simp add: downloadSong_def song_fault_def song_done_def tryUpdate_def)
    next
      case (Inr path)
      with load None show ?thesis
        by (cases "mu_Import env [path] track True")
          (simp_all add: downloadSong_def song_fault_def song_done_def tryUpdate_def)
    qed
  qed
qed

lemma downloadAlbum_outcome:
  "case downloadAlbum env job of
     (None, r) \<Rightarrow> \<exists>n. album_done env job n \<and> mj_Total (fst r) = int n \<and> mj_Completed (fst r) = int n
   | (Some e, r) \<Rightarrow> album_fault env job e \<and> (\<nexists>n. album_done env job n)"
proof (cases "mu_Album env (mj_SourceID job)")
  case (Inl e)
  then show ?thesis by (simp add: downloadAlbum_def album_fault_def album_done_def)
next
  case (Inr found)
  obtain album tracks where found: "found = (album, tracks)" by fastforce
  note load = Inr [unfolded found]
  let ?n = "length tracks" and ?j = "album_job job album (length tracks)"
  have j: "job\<lparr>mj_Artist := xb_ArtistName album, mj_Album := xb_Title album, mj_Total := int (length tracks)\<rparr> = ?j"
    by (simp add: album_job_def)
  show ?thesis
  proof (cases "tracks = []")
    case True
    with load show ?thesis by (simp add: downloadAlbum_def album_fault_def album_done_def)
  next
    case ne: False
    show ?thesis
    proof (cases "mu_updateErr env ?j")
      case (Some x)
      with load ne show ?thesis by (auto simp: downloadAlbum_def album_fault_def album_done_def tryUpdate_def j)
    next
      case upd: None
      obtain res r1 where d: "downloadTracks env album 0 tracks [] (?j, [?j]) = (res, r1)" by (metis surj_pair)
      have e: "downloadAlbum env job = (case res of Inl e \<Rightarrow> (Some e, r1)
          | Inr files \<Rightarrow> (case mu_Import env files (album_metadata album) False of
              Some e \<Rightarrow> (Some (wrap ''tag album'' e), r1) | None \<Rightarrow> (None, r1)))"
        using load ne upd d by (simp add: downloadAlbum_def tryUpdate_def j album_metadata_def split: sum.split)
      note result = downloadTracks_result [OF d]
      show ?thesis
      proof (cases res)
        case (Inl x)
        have "\<not> album_done env job n" for n
          using downloadTracks_fails [OF d [unfolded Inl]] load by (fastforce simp: album_done_def)
        moreover have "album_fault env job x" using result load Inl by (auto simp: album_fault_def)
        ultimately show ?thesis by (simp add: e Inl)
      next
        case (Inr paths)
        with result have t: "tracks_downloaded env album tracks paths"
          and p: "\<forall>k < ?n. mu_updateErr env (progress (int k + 1) ?j) = None"
          and r1: "fst r1 = progress (int ?n) ?j" using ne by simp_all
        show ?thesis
        proof (cases "mu_Import env paths (album_metadata album) False")
          case None
          with t p load ne upd have "album_done env job ?n" by (auto simp: album_done_def)
          with r1 show ?thesis by (auto simp: e Inr None progress_def album_job_def)
        next
          case (Some x)
          have "\<not> album_done env job n" for n
            using load Some tracks_downloaded_unique [OF t] by (auto simp: album_done_def)
          moreover have "album_fault env job (wrap ''tag album'' x)" using load t Some by (auto simp: album_fault_def)
          ultimately show ?thesis by (simp add: e Inr Some)
        qed
      qed
    qed
  qed
qed

lemma processDownload_outcome:
  "case processDownload env job of
     (None, r) \<Rightarrow> \<exists>n. download_done env job n \<and> mj_Total (fst r) = int n \<and> mj_Completed (fst r) = int n
   | (Some e, r) \<Rightarrow> download_fault env job e \<and> (\<nexists>n. download_done env job n)"
proof (cases "mu_configured env \<and> mu_workspace env = None")
  case False
  then show ?thesis by (auto simp: processDownload_def download_fault_def download_done_def split: option.split)
next
  case True
  consider "mj_Kind job = MusicDownloadSong" | "mj_Kind job = MusicDownloadAlbum" "mj_Kind job \<noteq> MusicDownloadSong"
    | "mj_Kind job \<noteq> MusicDownloadSong" "mj_Kind job \<noteq> MusicDownloadAlbum" by blast
  then show ?thesis
  proof cases
    case 1
    have "MusicDownloadSong \<noteq> MusicDownloadAlbum" by (simp add: MusicDownloadSong_def MusicDownloadAlbum_def)
    with 1 True downloadSong_outcome [of env job] show ?thesis
      by (auto simp: processDownload_def download_fault_def download_done_def split: prod.splits option.splits)
  next
    case 2
    with True downloadAlbum_outcome [of env job] show ?thesis
      by (auto simp: processDownload_def download_fault_def download_done_def split: prod.splits option.splits)
  next
    case 3
    with True show ?thesis by (simp add: processDownload_def download_fault_def download_done_def)
  qed
qed

lemma download_done_unique: "download_done env job n \<Longrightarrow> download_done env job m \<Longrightarrow> n = m"
  by (auto simp: download_done_def album_done_def MusicDownloadSong_def MusicDownloadAlbum_def)

lemma finishJob_fields [simp]:
  "mj_ID (finishJob now err j) = mj_ID j" "mj_Origin (finishJob now err j) = mj_Origin j"
  "mj_Completed (finishJob now err j) = mj_Completed j" "mj_Total (finishJob now err j) = mj_Total j"
  by (simp_all add: finishJob_def split: option.split)

lemma finishJob_status:
  "mj_Status (finishJob now err j) = MusicDownloadSuccess \<longleftrightarrow> err = None"
  "mj_Status (finishJob now err j) \<in> {MusicDownloadSuccess, MusicDownloadQueued, MusicDownloadFailed}"
  by (simp_all add: finishJob_def job_status_defs split: option.split)

text \<open>The writes of a run, in order: versions of the running job, and then the end, if it could be written.\<close>

lemma process_writes:
  assumes "process env now job = (result, writes)"
  obtains ws where "list_all (same_run job) ws" "writes = ws @ (if mu_updateErr env result = None then [result] else [])"
    "mj_ID result = mj_ID job" "mj_Origin result = mj_Origin job"
proof -
  obtain err r where d: "processDownload env job = (err, r)" by (meson surj_pair)
  have r: "run_ok job r" using processDownload_run [of job env] by (simp add: d)
  obtain e job1 ws1 where v: "(if err = None then resolveDownloadedSong env (fst r) else (None, fst r, [])) = (e, job1, ws1)"
    by (metis prod_cases3)
  have same: "same_run (fst r) job1" "list_all (same_run (fst r)) ws1"
    using v resolveDownloadedSong_run [of env "fst r" e job1 ws1] by (auto split: if_splits)
  have trans: "same_run job w" if "same_run (fst r) w" for w using that r by (simp add: run_ok_def same_run_def)
  have "result = finishJob now err job1" "writes = (snd r @ ws1) @ (if mu_updateErr env result = None then [result] else [])"
    using assms by (auto simp: process_def Let_def d v)
  moreover have "list_all (same_run job) (snd r @ ws1)" using r same(2) trans by (auto simp: run_ok_def list_all_iff)
  ultimately show thesis using that [of "snd r @ ws1"] trans [OF same(1)] by (simp add: same_run_def)
qed

text \<open>
  C14: what becomes of a download that a worker takes. It always ends. It is marked succeeded exactly when everything was done:
  the song or album was found, every track was downloaded, metadata and progress were written, and the files were
  imported together; its progress then says so. Otherwise one of these steps failed, and the error of that step decides: if it is
  a cancellation or a deadline the job goes back to the queue, else it is marked failed with the text of the error. (A
  cancelled lookup is not such a step: the search that is tried instead fails with an error of its own, see
  \<open>cancelled_lookup_fails\<close>.) The end is the last thing written, unless writing it fails.
\<close>

theorem music_download_outcome:
  assumes "process env now job = (result, writes)"
  shows "(mj_Status result = MusicDownloadSuccess \<longleftrightarrow> (\<exists>n. download_done env job n)) \<and>
    (\<forall>n. download_done env job n \<longrightarrow>
      mj_Completed result = int n \<and> mj_Total result = int n \<and> mj_Error result = [] \<and> mj_FinishedAt result = Some now) \<and>
    ((\<nexists>n. download_done env job n) \<longrightarrow> (\<exists>e. download_fault env job e \<and>
      (if er_kind e = MusicCanceled \<or> er_kind e = MusicDeadline
       then mj_Status result = MusicDownloadQueued \<and> mj_StartedAt result = None
       else mj_Status result = MusicDownloadFailed \<and> mj_Error result = er_text e \<and> mj_FinishedAt result = Some now))) \<and>
    (if mu_updateErr env result = None then writes \<noteq> [] \<and> last writes = result else list_all (same_run job) writes)"
proof -
  obtain err r where d: "processDownload env job = (err, r)" by (metis surj_pair)
  obtain e job1 ws1 where v: "(if err = None then resolveDownloadedSong env (fst r) else (None, fst r, [])) = (e, job1, ws1)"
    by (metis prod_cases3)
  have result: "result = finishJob now err job1" using assms v d by (simp add: process_def Let_def)
  have counts: "mj_Completed job1 = mj_Completed (fst r)" "mj_Total job1 = mj_Total (fst r)"
    using v resolveDownloadedSong_run [of env "fst r" e job1 ws1] by (auto split: if_splits)
  obtain ws where "list_all (same_run job) ws" "writes = ws @ (if mu_updateErr env result = None then [result] else [])"
    by (rule process_writes [OF assms])
  then have ends: "if mu_updateErr env result = None then writes \<noteq> [] \<and> last writes = result else list_all (same_run job) writes"
    by simp
  show ?thesis
  proof (cases err)
    case None
    then obtain n where n: "download_done env job n" "mj_Total (fst r) = int n" "mj_Completed (fst r) = int n"
      using processDownload_outcome [of env job] d by auto
    have "mj_Status result = MusicDownloadSuccess" "mj_FinishedAt result = Some now" "mj_Error result = []"
      by (simp_all add: result finishJob_def None)
    moreover have "mj_Total result = int n" "mj_Completed result = int n" using n counts by (simp_all add: result)
    ultimately show ?thesis using n(1) download_done_unique ends by blast
  next
    case (Some x)
    then have x: "download_fault env job x" "\<nexists>n. download_done env job n"
      using processDownload_outcome [of env job] d by auto
    moreover have "mj_Status result \<noteq> MusicDownloadSuccess" using finishJob_status(1) Some by (simp add: result)
    moreover have "if er_kind x = MusicCanceled \<or> er_kind x = MusicDeadline
       then mj_Status result = MusicDownloadQueued \<and> mj_StartedAt result = None
       else mj_Status result = MusicDownloadFailed \<and> mj_Error result = er_text x \<and> mj_FinishedAt result = Some now"
      by (simp add: result finishJob_def Some)
    ultimately show ?thesis using ends by blast
  qed
qed

definition music_example_env :: music_env where
  "music_example_env =
     \<lparr>mu_configured = True, mu_workspace = None, mu_Recording = (\<lambda>_. Inr (empty_ExternalTrack\<lparr>xt_Title := ''T''\<rparr>)),
      mu_Album = (\<lambda>_. Inl (music_err MusicNotFound ''none'')), mu_SearchSongs = (\<lambda>_. Inr []), mu_Download = (\<lambda>_. Inr ''f''),
      mu_Import = (\<lambda>_ _ _. None), mu_matcher = None, mu_LibrarySearch = (\<lambda>_ _. Inr []), mu_updateErr = (\<lambda>_. None),
      mu_Search = (\<lambda>_. Inl (music_err MusicOther ''offline'')), mu_hasLibrary = True, mu_affinity = None, mu_log1p = id\<rparr>"

definition music_example_request :: ExternalDownloadRequest where
  "music_example_request = \<lparr>xr_Kind = MusicDownloadSong, xr_ID = ''r1'', xr_PlayNow = True, xr_Origin = [], xr_Priority = 0,
     xr_RadioItemID = [], xr_Title = [], xr_Artist = [], xr_Album = []\<rparr>"

definition music_example_job :: MusicDownloadJob where
  "music_example_job = start_job 2 (new_job 1 ''j1'' ''u'' music_example_request)"

theorem music_download_outcome_witness:
  "mj_Status (fst (process music_example_env 3 music_example_job)) = MusicDownloadSuccess \<and>
   mj_Completed (fst (process music_example_env 3 music_example_job)) = 1"
proof -
  let ?p = "process music_example_env 3 music_example_job"
  have "download_done music_example_env music_example_job 1"
    by (simp add: download_done_def song_done_def loadRecording_def music_example_env_def
        music_example_job_def new_job_def start_job_def music_example_request_def)
  with music_download_outcome [of music_example_env 3 music_example_job "fst ?p" "snd ?p"] show ?thesis by fastforce
qed

text \<open>A lookup that is cancelled before the song has a title is recorded as a failure: the search that is tried instead has
  nothing to search for, and its error hides the cancellation.\<close>

lemma cancelled_lookup_fails:
  assumes "mu_configured env" "mu_workspace env = None" "mj_Kind job = MusicDownloadSong" "mj_Title job = []" "mj_Artist job = []"
    and "mu_Recording env (mj_SourceID job) = Inl (music_err MusicCanceled text)"
  shows "mj_Status (fst (process env now job)) = MusicDownloadFailed"
  using assms
  by (simp add: process_def processDownload_def downloadSong_def loadRecording_def resolveRecordingBySearch_def Let_def
      finishJob_def wrap_def music_err_def trim_space_def is_space_def)

lemma rank_keeps_flags [simp]:
  "xs_Partial (rankExternalSearch l q r n a) = xs_Partial r"
  "xs_DegradedSources (rankExternalSearch l q r n a) = xs_DegradedSources r"
  by (simp_all add: rankExternalSearch_def DeriveCompatibilityArrays_def Let_def)

lemma merge_keeps_flags:
  assumes "mergeLibrarySearch matcher search r = (e, merged)"
  shows "xs_Partial merged = xs_Partial r" "xs_DegradedSources merged = xs_DegradedSources r"
proof -
  have "xs_Partial merged = xs_Partial r \<and> xs_DegradedSources merged = xs_DegradedSources r"
    using assms by (cases search) (auto simp: mergeLibrarySearch_def Let_def split: prod.splits)
  then show "xs_Partial merged = xs_Partial r" "xs_DegradedSources merged = xs_DegradedSources r" by blast+
qed

text \<open>
  how a valid search fails. It is refused only when the catalog failed and there is no library to fall back on, or the
  library failed too; when one of the two failed the answer is marked partial and names that source, and it never shows
  more results than were asked for.
\<close>

theorem search_degrades:
  assumes "trim_space query \<noteq> []" and "length (trim_space query) \<le> 200" and "1 \<le> maxHits" and "maxHits \<le> 50"
  shows "(case Search_music env userID query maxHits of
      Inl e \<Rightarrow> (case mu_Search env (trim_space query) of
          Inl catalogErr \<Rightarrow> \<not> mu_hasLibrary env \<and> e = catalogErr \<or>
            mu_hasLibrary env \<and> (\<exists>libraryErr. e = join_errors catalogErr libraryErr)
        | Inr _ \<Rightarrow> False)
    | Inr r \<Rightarrow> int (length (xs_Results r)) \<le> maxHits \<and>
        (case mu_Search env (trim_space query) of
          Inl _ \<Rightarrow> xs_Partial r \<and> xs_DegradedSources r = [''musicbrainz:search'']
        | Inr found \<Rightarrow> xs_DegradedSources r = xs_DegradedSources found \<and> xs_Partial r = xs_Partial found \<or>
            xs_Partial r \<and> xs_DegradedSources r = xs_DegradedSources found @ [''library'']))"
proof -
  let ?q = "trim_space query"
  define result where "result = (case mu_Search env ?q of Inl e \<Rightarrow> degrade ''musicbrainz:search'' empty_search | Inr r \<Rightarrow> r)"
  obtain e merged where m: "mergeLibrarySearch (mu_matcher env) (mu_LibrarySearch env ?q (min (maxHits * 2) 100)) result = (e, merged)"
    by (meson surj_pair)
  note keep = merge_keeps_flags [OF m]
  have valid: "\<not> (?q = [] \<or> length ?q > 200)" "\<not> (maxHits < 1 \<or> maxHits > 50)" using assms by auto
  have len: "int (length (xs_Results (rankExternalSearch l q r maxHits a))) \<le> maxHits" for l q r a
  proof -
    have "xs_Results (rankExternalSearch l q r maxHits a) = map cd_hit (take (nat maxHits) (ranked_candidates l q r a))"
      using assms(3,4) by (simp add: rankExternalSearch_def DeriveCompatibilityArrays_def Let_def)
    then show ?thesis using assms(3) by simp
  qed
  show ?thesis
  proof (cases "mu_Search env ?q")
    case (Inl ce)
    then have r: "result = degrade ''musicbrainz:search'' empty_search" by (simp add: result_def)
    show ?thesis
      using valid Inl m keep len
      by (cases e) (auto simp: Search_music_def Let_def r degrade_def empty_search_def)
  next
    case (Inr found)
    then have r: "result = found" by (simp add: result_def)
    show ?thesis
      using valid Inr m keep len by (cases e) (auto simp: Search_music_def Let_def r degrade_def)
  qed
qed

theorem search_degrades_witness:
  "case Search_music music_example_env ''u'' ''abc'' 5 of Inl e \<Rightarrow> False
     | Inr r \<Rightarrow> xs_Partial r \<and> xs_DegradedSources r = [''musicbrainz:search'']"
proof -
  have q: "trim_space ''abc'' = ''abc''" by (simp add: trim_space_def is_space_def)
  have "\<exists>r. Search_music music_example_env ''u'' ''abc'' 5 = Inr r"
    by (simp add: Search_music_def Let_def q music_example_env_def mergeLibrarySearch_def split: prod.split)
      (simp add: matchCatalogTracks_def)
  then obtain r where r: "Search_music music_example_env ''u'' ''abc'' 5 = Inr r" by blast
  have s: "mu_Search music_example_env ''abc'' = Inl (music_err MusicOther ''offline'')" by (simp add: music_example_env_def)
  from search_degrades [of "''abc''" 5 music_example_env "''u''"] show ?thesis by (simp add: q r s)
qed

end
