(* ===== verification/Music_Workers.thy ===== *)
theory Music_Workers
  imports Music_Service
begin

text \<open>
  The download service while it runs: \<open>run\<close> and \<open>Start\<close> of \<open>core/music/service.go\<close> over the transactions of
  \<open>persistence/music_download_job_repository.go\<close>. A worker has an origin and, while it carries out a job, the versions of
  the job it still has to write (\<open>process\<close> decides them all: it does not read the table). The steps are the
  transactions, in any order, and the outside world may answer differently at every step.
\<close>

type_synonym worker = "string \<times> MusicDownloadJob list option"

record music_state =
  st_db :: jobs_db
  st_workers :: "worker list"
  st_seen :: "MusicDownloadJob list"

definition music_initial :: "jobs_db \<Rightarrow> music_state" where
  "music_initial db = \<lparr>st_db = db, st_workers = [(MusicDownloadOriginManual, None), (MusicDownloadOriginRadio, None)], st_seen = []\<rparr>"

definition set_worker :: "nat \<Rightarrow> MusicDownloadJob list option \<Rightarrow> music_state \<Rightarrow> music_state" where
  "set_worker i w s = s\<lparr>st_workers := (st_workers s)[i := (fst (st_workers s ! i), w)]\<rparr>"

inductive music_step :: "music_state \<Rightarrow> music_state \<Rightarrow> bool" where
  promote: "music_step s (s\<lparr>st_db := snd (promoteRequest now userID request (st_db s))\<rparr>)"
| enqueue: "enqueueJob now request (new_job now newID userID request) (st_db s) = Inr (job, db) \<Longrightarrow>
    music_step s (s\<lparr>st_db := db\<rparr>)"
| read: "GetForUser jobID userID (st_db s) = Inr job \<Longrightarrow> mj_Status job = MusicDownloadSuccess \<Longrightarrow>
    music_step s (s\<lparr>st_seen := job # st_seen s\<rparr>)"
| resolve: "job \<in> set (st_seen s) \<Longrightarrow> resolveDownloadedSong env job = (e, job', writes) \<Longrightarrow>
    music_step s (s\<lparr>st_db := fold (Update_job now) writes (st_db s)\<rparr>)"
| claim: "i < length (st_workers s) \<Longrightarrow> st_workers s ! i = (origin, None) \<Longrightarrow>
    ClaimNext now [origin] (st_db s) = (Some job, db) \<Longrightarrow>
    music_step s (set_worker i (Some (snd (process env later job))) (s\<lparr>st_db := db\<rparr>))"
| advance: "i < length (st_workers s) \<Longrightarrow> st_workers s ! i = (origin, Some (w # ws)) \<Longrightarrow>
    music_step s (set_worker i (Some ws) (s\<lparr>st_db := Update_job now w (st_db s)\<rparr>))"
| release: "i < length (st_workers s) \<Longrightarrow> st_workers s ! i = (origin, Some []) \<Longrightarrow>
    music_step s (set_worker i None s)"
| restart: "music_step s (s\<lparr>st_db := RequeueRunning now (st_db s), st_workers := map (\<lambda>w. (fst w, None)) (st_workers s), st_seen := []\<rparr>)"

inductive_cases music_step_cases: "music_step s s'"

subsection \<open>What the transactions do to the status of a job\<close>

definition status_at :: "string \<Rightarrow> jobs_db \<Rightarrow> string option" where
  "status_at i db = map_option mj_Status (job_of i db)"

lemma update_jobs_status:
  assumes "\<And>j. p j \<Longrightarrow> mj_ID (f j) = mj_ID j" and "\<And>j. p j \<Longrightarrow> mj_Status (f j) = mj_Status j"
  shows "status_at i (update_jobs p f db) = status_at i db"
proof -
  have "job_of i (update_jobs p f db) = map_option (\<lambda>j. if p j then f j else j) (job_of i db)"
    by (rule update_jobs_ok(2)) (rule assms(1))
  then show ?thesis using assms(2) by (cases "job_of i db") (simp_all add: status_at_def)
qed

lemma promote_status:
  "jobs_ok (snd (promoteActivePlayTx now userID sourceID priority db)) = jobs_ok db"
  "status_at i (snd (promoteActivePlayTx now userID sourceID priority db)) = status_at i db"
  by (simp_all add: promoteActivePlayTx_def Let_def update_jobs_ok(1) update_jobs_status)

lemma insert_status:
  assumes "insertMusicDownloadJob now job db = Inr (j, db')"
  shows "status_at i db' = (if i = mj_ID job then Some (mj_Status job) else status_at i db)" "status_at (mj_ID job) db = None"
  using insert_job_ok [OF assms] by (simp_all add: status_at_def)

lemma enqueue_status:
  assumes "enqueueJob now request job db = Inr (j, db')" "jobs_ok db"
  shows "jobs_ok db'" "status_at i db \<noteq> None \<Longrightarrow> status_at i db' = status_at i db"
proof -
  consider (existing) "db' = snd (promoteActivePlayTx now (mj_UserID job) (mj_SourceID job) (mj_Priority job) db)"
    | (fresh) db1 where "jobs_ok db1" "status_at i db1 = status_at i db" "insertMusicDownloadJob now job db1 = Inr (j, db')"
  proof (cases "xr_PlayNow request")
    case True
    obtain e db1 where p: "promoteActivePlayTx now (mj_UserID job) (mj_SourceID job) (mj_Priority job) db = (e, db1)"
      by (meson surj_pair)
    have "jobs_ok db1" "status_at i db1 = status_at i db"
      using promote_status(1) [of now "mj_UserID job" "mj_SourceID job" "mj_Priority job" db]
        promote_status(2) [of i now "mj_UserID job" "mj_SourceID job" "mj_Priority job" db] assms(2) by (simp_all add: p)
    with that assms(1) True p show thesis by (cases e) (simp_all add: enqueueJob_def FindOrCreatePlay_def)
  next
    case False
    with that(2) [OF assms(2) refl] assms(1) show thesis by (simp add: enqueueJob_def Create_job_def)
  qed
  then have "jobs_ok db' \<and> (status_at i db \<noteq> None \<longrightarrow> status_at i db' = status_at i db)"
  proof cases
    case existing
    then show ?thesis using assms(2) by (simp add: promote_status)
  next
    case fresh
    then show ?thesis using insert_job_ok(1) [OF fresh(3)] insert_status [OF fresh(3)] by (metis fresh(2))
  qed
  then show "jobs_ok db'" "status_at i db \<noteq> None \<Longrightarrow> status_at i db' = status_at i db" by blast+
qed

lemma update_job_status:
  "jobs_ok (Update_job now w db) = jobs_ok db"
  "status_at i (Update_job now w db) = (if i = mj_ID w then map_option (\<lambda>_. mj_Status w) (status_at i db) else status_at i db)"
proof -
  note u = update_jobs_ok [of "\<lambda>j. mj_ID j = mj_ID w" "\<lambda>_. w\<lparr>mj_UpdatedAt := now\<rparr>"]
  show "jobs_ok (Update_job now w db) = jobs_ok db" unfolding Update_job_def by (rule u(1)) simp
  have "job_of i (Update_job now w db) = map_option (\<lambda>j. if mj_ID j = mj_ID w then w\<lparr>mj_UpdatedAt := now\<rparr> else j) (job_of i db)"
    unfolding Update_job_def by (rule u(2)) simp
  moreover have "mj_ID j = i" if "job_of i db = Some j" for j
    using that unfolding job_of_def by (induction "jd_jobs db") (auto split: if_splits simp: find_Some_iff)
  ultimately show "status_at i (Update_job now w db) =
      (if i = mj_ID w then map_option (\<lambda>_. mj_Status w) (status_at i db) else status_at i db)"
    by (cases "job_of i db") (auto simp: status_at_def)
qed

lemma requeue_status:
  "jobs_ok (RequeueRunning now db) = jobs_ok db"
  "status_at i (RequeueRunning now db) =
     map_option (\<lambda>st. if st = MusicDownloadRunning then MusicDownloadQueued else st) (status_at i db)"
  by (cases "job_of i db"; simp add: RequeueRunning_def update_jobs_ok status_at_def)+

lemma claim_status:
  assumes "jobs_ok db" "ClaimNext now origins db = (Some job, db')"
  shows "jobs_ok db'" "status_at (mj_ID job) db = Some MusicDownloadQueued" "mj_Status job = MusicDownloadRunning"
    "status_at i db' = (if i = mj_ID job then Some MusicDownloadRunning else status_at i db)"
proof -
  from assms obtain j where j: "job = start_job now j" "job_of (mj_ID j) db = Some j" "claimable origins j"
    "db' = update_jobs (\<lambda>x. mj_ID x = mj_ID j \<and> mj_Status x = MusicDownloadQueued) (start_job now) db"
    by (elim claim_next_cases) auto
  show "jobs_ok db'" using assms(1) j(4) by (simp add: update_jobs_ok)
  show "status_at (mj_ID job) db = Some MusicDownloadQueued" using j(1-3) by (simp add: status_at_def claimable_def)
  show "mj_Status job = MusicDownloadRunning" by (simp add: j(1))
  have upd: "job_of i db' = map_option (\<lambda>x. if mj_ID x = mj_ID j \<and> mj_Status x = MusicDownloadQueued then start_job now x else x)
      (job_of i db)"
    unfolding j(4) by (rule update_jobs_ok(2)) simp
  show "status_at i db' = (if i = mj_ID job then Some MusicDownloadRunning else status_at i db)"
  proof (cases "i = mj_ID j")
    case True
    then show ?thesis using upd j(1-3) by (simp add: status_at_def claimable_def)
  next
    case False
    have "mj_ID x \<noteq> mj_ID j" if "job_of i db = Some x" for x using that job_of_iff [OF assms(1)] False by simp
    then show ?thesis using False j(1) upd by (cases "job_of i db") (simp_all add: status_at_def)
  qed
qed

subsection \<open>Who holds a job\<close>

text \<open>The job a worker still has something to write about.\<close>

definition held :: "worker \<Rightarrow> string option" where
  "held w = (case snd w of Some (j # js) \<Rightarrow> Some (mj_ID j) | _ \<Rightarrow> None)"

definition writes_ok :: "MusicDownloadJob list \<Rightarrow> bool" where
  "writes_ok ws \<longleftrightarrow> (\<forall>w \<in> set ws. \<forall>v \<in> set ws. mj_ID w = mj_ID v) \<and> (\<forall>w \<in> set (butlast ws). mj_Status w = MusicDownloadRunning)"

definition music_inv :: "music_state \<Rightarrow> bool" where
  [inv_defs]: "music_inv s \<longleftrightarrow>
     jobs_ok (st_db s) \<and>
     (\<forall>i < length (st_workers s). \<forall>ws. snd (st_workers s ! i) = Some ws \<longrightarrow> writes_ok ws) \<and>
     (\<forall>i < length (st_workers s). \<forall>j. held (st_workers s ! i) = Some j \<longrightarrow> status_at j (st_db s) = Some MusicDownloadRunning) \<and>
     (\<forall>i < length (st_workers s). \<forall>k < length (st_workers s). \<forall>j.
        held (st_workers s ! i) = Some j \<longrightarrow> held (st_workers s ! k) = Some j \<longrightarrow> i = k) \<and>
     (\<forall>j \<in> set (st_seen s). mj_Status j = MusicDownloadSuccess \<and> status_at (mj_ID j) (st_db s) = Some MusicDownloadSuccess)"

definition kept_status :: "jobs_db \<Rightarrow> jobs_db \<Rightarrow> string \<Rightarrow> bool" where
  "kept_status db db' i \<longleftrightarrow> status_at i db' = status_at i db"

text \<open>A step of the table alone, or together with one worker.\<close>

lemma music_inv_db:
  assumes "music_inv s" "jobs_ok db'"
    and "\<And>j. status_at j (st_db s) = Some MusicDownloadRunning \<Longrightarrow> status_at j db' = Some MusicDownloadRunning"
    and "\<And>j. status_at j (st_db s) = Some MusicDownloadSuccess \<Longrightarrow> status_at j db' = Some MusicDownloadSuccess"
  shows "music_inv (s\<lparr>st_db := db'\<rparr>)"
  using assms by (simp add: music_inv_def)

lemma music_inv_worker:
  assumes inv: "music_inv s" and i: "i < length (st_workers s)" and db: "jobs_ok db'"
    and ws: "\<And>l. w = Some l \<Longrightarrow> writes_ok l"
    and mine: "\<And>j. held (fst (st_workers s ! i), w) = Some j \<Longrightarrow> status_at j db' = Some MusicDownloadRunning"
    and only: "\<And>j k. held (fst (st_workers s ! i), w) = Some j \<Longrightarrow> k < length (st_workers s) \<Longrightarrow>
      held (st_workers s ! k) = Some j \<Longrightarrow> i = k"
    and others: "\<And>j k. k < length (st_workers s) \<Longrightarrow> k \<noteq> i \<Longrightarrow> held (st_workers s ! k) = Some j \<Longrightarrow>
      status_at j db' = status_at j (st_db s)"
    and seen: "\<And>j. status_at j (st_db s) = Some MusicDownloadSuccess \<Longrightarrow> status_at j db' = Some MusicDownloadSuccess"
  shows "music_inv (set_worker i w (s\<lparr>st_db := db'\<rparr>))"
proof -
  let ?w = "(fst (st_workers s ! i), w)"
  have nth: "k < length (st_workers s) \<Longrightarrow> (st_workers s)[i := ?w] ! k = (if k = i then ?w else st_workers s ! k)" for k
    by simp
  have st: "st_db (set_worker i w (s\<lparr>st_db := db'\<rparr>)) = db'" "st_workers (set_worker i w (s\<lparr>st_db := db'\<rparr>)) = (st_workers s)[i := ?w]"
    "st_seen (set_worker i w (s\<lparr>st_db := db'\<rparr>)) = st_seen s"
    by (simp_all add: set_worker_def)
  show ?thesis
    unfolding music_inv_def st length_list_update
  proof (intro conjI allI impI ballI)
    fix k l
    assume "k < length (st_workers s)" "snd ((st_workers s)[i := ?w] ! k) = Some l"
    then show "writes_ok l" using inv ws nth [of k] by (cases "k = i") (auto simp: music_inv_def)
  next
    fix k j
    assume "k < length (st_workers s)" "held ((st_workers s)[i := ?w] ! k) = Some j"
    then show "status_at j db' = Some MusicDownloadRunning"
      using inv mine others [of k j] nth [of k] by (cases "k = i") (auto simp: music_inv_def)
  next
    fix k l j
    assume "k < length (st_workers s)" "l < length (st_workers s)" "held ((st_workers s)[i := ?w] ! k) = Some j"
      "held ((st_workers s)[i := ?w] ! l) = Some j"
    then show "k = l" using inv only [of j k] only [of j l] nth [of k] nth [of l]
      by (cases "k = i"; cases "l = i") (auto simp: music_inv_def)
  next
    fix j
    assume "j \<in> set (st_seen s)"
    then show "mj_Status j = MusicDownloadSuccess" "status_at (mj_ID j) db' = Some MusicDownloadSuccess"
      using inv seen by (auto simp: music_inv_def)
  qed (rule db)
qed

lemma process_writes_ok:
  assumes "mj_Status job = MusicDownloadRunning"
  shows "writes_ok (snd (process env now job))" "held (origin, Some (snd (process env now job))) \<in> {None, Some (mj_ID job)}"
proof -
  obtain result writes where p: "process env now job = (result, writes)" by (meson surj_pair)
  obtain ws where ws: "list_all (same_run job) ws" "writes = ws @ (if mu_updateErr env result = None then [result] else [])"
    "mj_ID result = mj_ID job" by (rule process_writes [OF p])
  have ids: "w \<in> set writes \<Longrightarrow> mj_ID w = mj_ID job" for w
    using ws by (auto simp: list_all_iff same_run_def split: if_splits)
  have "w \<in> set (butlast writes) \<Longrightarrow> w \<in> set ws" for w
    using ws(2) in_set_butlastD [of w ws] by (auto split: if_splits)
  then have "w \<in> set (butlast writes) \<Longrightarrow> mj_Status w = MusicDownloadRunning" for w
    using ws(1) assms by (auto simp: list_all_iff same_run_def)
  with ids show "writes_ok (snd (process env now job))" by (simp add: p writes_ok_def)
  show "held (origin, Some (snd (process env now job))) \<in> {None, Some (mj_ID job)}"
    using ids [of "hd writes"] by (cases writes) (simp_all add: p held_def)
qed

subsection \<open>The invariant\<close>

lemma status_distinct [simp]:
  "MusicDownloadQueued \<noteq> MusicDownloadRunning" "MusicDownloadQueued \<noteq> MusicDownloadSuccess" "MusicDownloadQueued \<noteq> MusicDownloadFailed"
  "MusicDownloadRunning \<noteq> MusicDownloadQueued" "MusicDownloadRunning \<noteq> MusicDownloadSuccess" "MusicDownloadRunning \<noteq> MusicDownloadFailed"
  "MusicDownloadSuccess \<noteq> MusicDownloadQueued" "MusicDownloadSuccess \<noteq> MusicDownloadRunning" "MusicDownloadSuccess \<noteq> MusicDownloadFailed"
  "MusicDownloadFailed \<noteq> MusicDownloadQueued" "MusicDownloadFailed \<noteq> MusicDownloadRunning" "MusicDownloadFailed \<noteq> MusicDownloadSuccess"
  by (simp_all add: job_status_defs)

lemma resolve_status:
  assumes "resolveDownloadedSong env job = (e, job', writes)" and "mj_Status job = st"
    and "status_at (mj_ID job) db = Some st"
  shows "jobs_ok (fold (Update_job now) writes db) = jobs_ok db"
    "status_at i (fold (Update_job now) writes db) = status_at i db"
proof -
  have "list_all (same_run job) writes" using resolveDownloadedSong_run(2) [OF assms(1)] .
  then have "jobs_ok (fold (Update_job now) writes db) = jobs_ok db \<and> status_at i (fold (Update_job now) writes db) = status_at i db"
    using assms(3)
  proof (induction writes arbitrary: db)
    case (Cons w ws)
    have same: "status_at j (Update_job now w db) = status_at j db" for j
      using Cons.prems assms(2) by (cases "j = mj_ID w") (simp_all add: update_job_status same_run_def)
    with Cons.IH [of "Update_job now w db"] Cons.prems show ?case by (simp add: update_job_status)
  qed simp
  then show "jobs_ok (fold (Update_job now) writes db) = jobs_ok db"
    "status_at i (fold (Update_job now) writes db) = status_at i db" by blast+
qed

lemma promoteRequest_status:
  "jobs_ok (snd (promoteRequest now userID request db)) = jobs_ok db"
  "status_at i (snd (promoteRequest now userID request db)) = status_at i db"
  by (simp_all add: promoteRequest_def PromoteActivePlay_def promote_status)

lemma held_tail:
  assumes "writes_ok (w # ws)"
  shows "held (origin, Some ws) \<in> {None, Some (mj_ID w)}"
proof (cases ws)
  case (Cons v vs)
  have "mj_ID v = mj_ID w" using assms unfolding writes_ok_def Cons by (meson list.set_intros)
  then show ?thesis by (simp add: held_def Cons)
qed (simp add: held_def)

lemma writes_ok_tail: "writes_ok (w # ws) \<Longrightarrow> writes_ok ws"
  unfolding writes_ok_def by (cases "ws = []") (simp, metis butlast.simps(2) list.set_intros(2))

lemma writes_ok_head: "writes_ok (w # v # ws) \<Longrightarrow> mj_Status w = MusicDownloadRunning"
  by (simp add: writes_ok_def)

lemma music_advance_inv:
  assumes inv: "music_inv s" and i: "i < length (st_workers s)" "st_workers s ! i = (origin, Some (w # ws))"
  shows "music_inv (set_worker i (Some ws) (s\<lparr>st_db := Update_job now w (st_db s)\<rparr>))"
proof (rule music_inv_worker [OF inv i(1)])
  have ok: "writes_ok (w # ws)" and ho: "held (st_workers s ! i) = Some (mj_ID w)" using inv i by (auto simp: music_inv_def held_def)
  have run: "status_at (mj_ID w) (st_db s) = Some MusicDownloadRunning" using inv i(1) ho by (auto simp: music_inv_def)
  have tail: "held (fst (st_workers s ! i), Some ws) = Some j \<Longrightarrow> j = mj_ID w \<and> ws \<noteq> []" for j
    using held_tail [OF ok, of "fst (st_workers s ! i)"] by (cases ws) (auto simp: held_def)
  show "jobs_ok (Update_job now w (st_db s))" using inv by (simp add: music_inv_def update_job_status)
  show "Some ws = Some l \<Longrightarrow> writes_ok l" for l using writes_ok_tail [OF ok] by simp
  show "status_at j (Update_job now w (st_db s)) = Some MusicDownloadRunning"
    if "held (fst (st_workers s ! i), Some ws) = Some j" for j
    using tail [OF that] run ok writes_ok_head by (cases ws) (auto simp: update_job_status)
  show "i = k" if "held (fst (st_workers s ! i), Some ws) = Some j" "k < length (st_workers s)" "held (st_workers s ! k) = Some j" for j k
    using tail [OF that(1)] that(2,3) ho inv i(1) by (auto simp: music_inv_def)
  show "status_at j (Update_job now w (st_db s)) = status_at j (st_db s)"
    if "k < length (st_workers s)" "k \<noteq> i" "held (st_workers s ! k) = Some j" for j k
  proof -
    have "j \<noteq> mj_ID w" using that ho inv i(1) by (auto simp: music_inv_def)
    then show ?thesis by (simp add: update_job_status)
  qed
  show "status_at j (st_db s) = Some MusicDownloadSuccess \<Longrightarrow>
      status_at j (Update_job now w (st_db s)) = Some MusicDownloadSuccess" for j
    using run by (cases "j = mj_ID w") (simp_all add: update_job_status)
qed

lemma music_claim_inv:
  assumes inv: "music_inv s" and i: "i < length (st_workers s)" "st_workers s ! i = (origin, None)"
    and c: "ClaimNext now [origin] (st_db s) = (Some job, db)"
  shows "music_inv (set_worker i (Some (snd (process env later job))) (s\<lparr>st_db := db\<rparr>))"
proof (rule music_inv_worker [OF inv i(1)])
  have ok: "jobs_ok (st_db s)" using inv by (simp add: music_inv_def)
  note st = claim_status [OF ok c]
  have w: "writes_ok (snd (process env later job))"
    "held (origin, Some (snd (process env later job))) \<in> {None, Some (mj_ID job)}" for origin
    using process_writes_ok st(3) by blast+
  have mine: "held (fst (st_workers s ! i), Some (snd (process env later job))) = Some j \<Longrightarrow> j = mj_ID job" for j
    using w(2) [of "fst (st_workers s ! i)"] by (metis insert_iff option.distinct(1) option.inject singletonD)
  have free: "j \<noteq> mj_ID job" if "k < length (st_workers s)" "held (st_workers s ! k) = Some j" for j k
    using that inv st(2) by (auto simp: music_inv_def)
  show "jobs_ok db" by (rule st(1))
  show "Some (snd (process env later job)) = Some l \<Longrightarrow> writes_ok l" for l using w(1) by simp
  show "held (fst (st_workers s ! i), Some (snd (process env later job))) = Some j \<Longrightarrow> status_at j db = Some MusicDownloadRunning" for j
    using mine st(4) by simp
  show "held (fst (st_workers s ! i), Some (snd (process env later job))) = Some j \<Longrightarrow> k < length (st_workers s) \<Longrightarrow>
      held (st_workers s ! k) = Some j \<Longrightarrow> i = k" for j k
    using mine free by blast
  show "k < length (st_workers s) \<Longrightarrow> k \<noteq> i \<Longrightarrow> held (st_workers s ! k) = Some j \<Longrightarrow> status_at j db = status_at j (st_db s)" for j k
    using free st(4) by simp
  show "status_at j (st_db s) = Some MusicDownloadSuccess \<Longrightarrow> status_at j db = Some MusicDownloadSuccess" for j
    using st(2,4) by auto
qed

lemma music_step_inv: "music_step s s' \<Longrightarrow> music_inv s \<Longrightarrow> music_inv s'"
proof (induction rule: music_step.induct)
  case (promote s now userID request)
  then show ?case by (intro music_inv_db) (simp_all add: promoteRequest_status music_inv_def)
next
  case (enqueue now request newID userID s job db)
  then have ok: "jobs_ok (st_db s)" by (simp add: music_inv_def)
  from enqueue_status [OF enqueue(1) ok] enqueue(2) show ?case by (intro music_inv_db) simp_all
next
  case (read jobID userID s job)
  then have ok: "jobs_ok (st_db s)" by (simp add: music_inv_def)
  have "job \<in> set (jd_jobs (st_db s))"
    using read(1) by (auto simp: GetForUser_def first_row_def split: option.splits list.splits dest: filter_eq_ConsD)
  then have "status_at (mj_ID job) (st_db s) = Some MusicDownloadSuccess"
    using read(2) job_of_iff [OF ok, of "mj_ID job" job] by (simp add: status_at_def)
  with read(2,3) show ?case by (simp add: music_inv_def)
next
  case (resolve job s env e job' writes now)
  then have j: "mj_Status job = MusicDownloadSuccess" "status_at (mj_ID job) (st_db s) = Some MusicDownloadSuccess"
    by (auto simp: music_inv_def)
  show ?case using resolve(3) resolve_status [OF resolve(2) j(1) j(2)] by (intro music_inv_db) (auto simp: music_inv_def)
next
  case (claim i s origin now job db env later)
  then show ?case by (intro music_claim_inv)
next
  case (advance i s origin w ws now)
  then show ?case by (intro music_advance_inv)
next
  case (release i s origin)
  have "music_inv (set_worker i None (s\<lparr>st_db := st_db s\<rparr>))"
    using release by (intro music_inv_worker) (auto simp: held_def music_inv_def)
  then show ?case by simp
next
  case (restart s now)
  then show ?case by (auto simp: music_inv_def requeue_status held_def)
qed

lemma music_reachable_inv: "music_step\<^sup>*\<^sup>* s s' \<Longrightarrow> music_inv s \<Longrightarrow> music_inv s'"
  by (induction rule: rtranclp_induct) (auto dest: music_step_inv)

lemma music_initial_inv: "jobs_ok db \<Longrightarrow> music_inv (music_initial db)"
  by (auto simp: music_inv_def music_initial_def held_def nth_Cons split: nat.splits)

text \<open>
  C12: no download is carried out twice at a time. However requests, workers and restarts interleave, ids stay unique,
  every job that a worker still has to write about is marked as running, and no two workers have the same one.
\<close>

theorem music_claims_exclusive:
  assumes "jobs_ok db" and "music_step\<^sup>*\<^sup>* (music_initial db) s"
    and "i < length (st_workers s)" and "held (st_workers s ! i) = Some j"
  shows "jobs_ok (st_db s) \<and> status_at j (st_db s) = Some MusicDownloadRunning \<and>
    list_all (\<lambda>k. k = i \<or> held (st_workers s ! k) \<noteq> Some j) [0..<length (st_workers s)]"
  using music_reachable_inv [OF assms(2) music_initial_inv [OF assms(1)]] assms(3,4)
  by (auto simp: music_inv_def list_all_iff)

text \<open>
  C35: a finished download stays finished. Once a job is marked succeeded or failed, no worker, no request, no late
  resolution of its song and no restart changes its status again.
\<close>

theorem music_finished_final:
  assumes "jobs_ok db" and "music_step\<^sup>*\<^sup>* (music_initial db) s" and "music_step\<^sup>*\<^sup>* s s'"
    and "status_at j (st_db s) = Some st" and "st = MusicDownloadSuccess \<or> st = MusicDownloadFailed"
  shows "status_at j (st_db s') = Some st"
proof -
  have one: "status_at j (st_db t') = Some st" if "music_step t t'" "music_inv t" "status_at j (st_db t) = Some st" for t t'
    using that
  proof (induction rule: music_step.induct)
    case (enqueue now request newID userID s job db)
    then show ?case using enqueue_status(2) [OF enqueue(1), of j] by (simp add: music_inv_def)
  next
    case (resolve job s env e job' writes now)
    then have "mj_Status job = MusicDownloadSuccess" "status_at (mj_ID job) (st_db s) = Some MusicDownloadSuccess"
      by (auto simp: music_inv_def)
    from resolve_status(2) [OF resolve(2) this] resolve(4) show ?case by simp
  next
    case (claim i s origin now job db env later)
    then show ?case using claim_status(2,4) [OF _ claim(3)] assms(5) by (auto simp: music_inv_def set_worker_def)
  next
    case (advance i s origin w ws now)
    then have "status_at (mj_ID w) (st_db s) = Some MusicDownloadRunning" by (auto simp: music_inv_def held_def)
    then have "j \<noteq> mj_ID w" using advance(4) assms(5) by auto
    then show ?case using advance(4) by (simp add: set_worker_def update_job_status)
  qed (use assms(5) in \<open>auto simp: promoteRequest_status requeue_status set_worker_def\<close>)
  have inv: "music_inv s" using music_reachable_inv [OF assms(2) music_initial_inv [OF assms(1)]] .
  from assms(3) show ?thesis
  proof (induction rule: rtranclp_induct)
    case base
    show ?case by (rule assms(4))
  next
    case (step t t')
    show ?case by (rule one [OF step.hyps(2) music_reachable_inv [OF step.hyps(1) inv] step.IH])
  qed
qed

text \<open>
  a restart loses no download. It leaves nothing running; every job that was running waits again with its place in the
  queue, and every other job keeps its status.
\<close>

theorem music_restart_recovers:
  "(case status_at i db of
      None \<Rightarrow> status_at i (RequeueRunning now db) = None
    | Some st \<Rightarrow> status_at i (RequeueRunning now db) = Some (if st = MusicDownloadRunning then MusicDownloadQueued else st)) \<and>
    list_all (\<lambda>j. mj_Status j \<noteq> MusicDownloadRunning) (jd_jobs (RequeueRunning now db)) \<and>
    map (\<lambda>j. (mj_ID j, mj_Origin j, mj_Priority j, mj_CreatedAt j)) (jd_jobs (RequeueRunning now db)) =
      map (\<lambda>j. (mj_ID j, mj_Origin j, mj_Priority j, mj_CreatedAt j)) (jd_jobs db)"
  by (auto simp: requeue_status list_all_iff split: option.split) (auto simp: RequeueRunning_def update_jobs_def)

subsection \<open>Examples\<close>

definition music_example_db :: jobs_db where
  "music_example_db = \<lparr>jd_users = [''u''], jd_jobs = [new_job 1 ''j1'' ''u'' music_example_request]\<rparr>"

lemma music_example_ok: "jobs_ok music_example_db"
  by (simp add: jobs_ok_def music_example_db_def)

lemma music_example_status: "status_at ''j1'' music_example_db = Some MusicDownloadQueued"
  by (simp add: status_at_def job_of_def music_example_db_def new_job_def)

lemma music_example_claim:
  "ClaimNext 2 [MusicDownloadOriginManual] music_example_db =
     (Some music_example_job, music_example_db\<lparr>jd_jobs := [music_example_job]\<rparr>)"
  by (simp add: ClaimNext_def music_example_db_def by_urgency_def claimable_def new_job_def music_example_request_def
      first_row_def update_jobs_def music_example_job_def start_job_def)

definition music_example_running :: music_state where
  "music_example_running = set_worker 0 (Some (snd (process music_example_env 3 music_example_job)))
     ((music_initial music_example_db)\<lparr>st_db := music_example_db\<lparr>jd_jobs := [music_example_job]\<rparr>\<rparr>)"

lemma music_example_run: "music_step\<^sup>*\<^sup>* (music_initial music_example_db) music_example_running"
proof -
  have "music_step (music_initial music_example_db) music_example_running"
    unfolding music_example_running_def
    by (rule music_step.claim [where origin = MusicDownloadOriginManual and now = 2])
      (simp_all add: music_initial_def music_example_claim)
  then show ?thesis by simp
qed

theorem music_claims_exclusive_witness:
  "status_at ''j1'' (st_db music_example_running) = Some MusicDownloadRunning"
proof -
  have "held (st_workers music_example_running ! 0) = Some ''j1''"
    by (simp add: music_example_running_def set_worker_def music_initial_def held_def process_def processDownload_def
        downloadSong_def loadRecording_def tryUpdate_def music_example_env_def music_example_job_def new_job_def start_job_def
        music_example_request_def Let_def resolveDownloadedSong_def setJobTrack_def)
  from music_claims_exclusive [OF music_example_ok music_example_run _ this] show ?thesis
    by (simp add: music_example_running_def set_worker_def music_initial_def)
qed

theorem music_finished_final_witness:
  "status_at ''j1'' (RequeueRunning 9 (music_example_db\<lparr>jd_jobs := [finishJob 5 None music_example_job]\<rparr>)) =
     Some MusicDownloadSuccess"
proof -
  let ?db = "music_example_db\<lparr>jd_jobs := [finishJob 5 None music_example_job]\<rparr>"
  have ok: "jobs_ok ?db" by (simp add: jobs_ok_def)
  have "mj_ID music_example_job = ''j1''" by (simp add: music_example_job_def new_job_def)
  then have st: "status_at ''j1'' (st_db (music_initial ?db)) = Some MusicDownloadSuccess"
    by (simp add: status_at_def job_of_def music_initial_def finishJob_def)
  from music_finished_final [OF ok rtranclp.rtrancl_refl r_into_rtranclp [of music_step, OF music_step.restart [of _ 9]] st]
  show ?thesis by (simp add: music_initial_def)
qed

end
