(* ===== verification/Go_Duration.thy ===== *)
theory Go_Duration
  imports Prelude
begin

text \<open>
  \<open>utils/time.go\<close>: durations with days and weeks, over the text form of \<open>time.Duration\<close>. \<open>Duration_String\<close>,
  \<open>time_ParseDuration\<close> and their loops are those of package \<open>time\<close>, on unsigned integers of 64 bits; a decimal
  fraction is exact, where Go rounds to a \<open>float64\<close>.
\<close>

subsection \<open>The text of a duration\<close>

definition is_digit :: "char \<Rightarrow> bool" where
  "is_digit c \<longleftrightarrow> 48 \<le> byte_of c \<and> byte_of c \<le> 57"

text \<open>The digits of \<open>v\<close> after the point, without trailing zeros, and what is before it.\<close>

fun fmtFrac :: "nat \<Rightarrow> nat \<Rightarrow> string \<Rightarrow> string \<times> nat" where
  "fmtFrac 0 v acc = (if acc = [] then [] else CHR ''.'' # acc, v)"
| "fmtFrac (Suc prec) v acc =
     fmtFrac prec (v div 10) (if acc = [] \<and> v mod 10 = 0 then [] else digit_char (v mod 10) # acc)"

definition fmt_unit :: "nat \<Rightarrow> nat \<Rightarrow> string \<Rightarrow> string" where
  "fmt_unit prec v u = (let (frac, whole) = fmtFrac prec v [] in show_nat whole @ frac @ u)"

definition micro_unit :: string where
  "micro_unit = [CHR 0xC2, CHR 0xB5, CHR ''s'']"

definition Duration_String :: "Duration \<Rightarrow> string" where
  "Duration_String d =
     (let u = nat \<bar>d\<bar>;
          text = (if u = 0 then ''0s''
                  else if u < 1000 then fmt_unit 0 u ''ns''
                  else if u < 1000000 then fmt_unit 3 u micro_unit
                  else if u < 1000000000 then fmt_unit 6 u ''ms''
                  else
                    let minutes = u div 60000000000; hours = minutes div 60
                    in (if hours > 0 then show_nat hours @ ''h'' else [])
                       @ (if minutes > 0 then show_nat (minutes mod 60) @ ''m'' else [])
                       @ fmt_unit 9 (u mod 60000000000) ''s'')
      in if d < 0 then CHR ''-'' # text else text)"

definition hour :: Duration where
  "hour = 3600 * second"

definition formatSubDay :: "Duration \<Rightarrow> string" where
  "formatSubDay d = (if d \<ge> hour \<and> d mod hour = 0 then itoa (d div hour) @ ''h'' else Duration_String d)"

definition FormatDuration :: "Duration \<Rightarrow> string" where
  "FormatDuration d =
     (if d < 24 * hour then formatSubDay d
      else
        let weeks = d div (7 * 24 * hour);
            d1 = (if weeks > 0 then d mod (7 * 24 * hour) else d);
            days = d1 div (24 * hour);
            d2 = (if days > 0 then d1 mod (24 * hour) else d1)
        in (if weeks > 0 then itoa weeks @ ''w'' else []) @ (if days > 0 then itoa days @ ''d'' else [])
           @ (if d2 > 0 then formatSubDay d2 else []))"

subsection \<open>Reading a duration\<close>

fun leadingInt :: "nat \<Rightarrow> string \<Rightarrow> (nat \<times> string) option" where
  "leadingInt x [] = Some (x, [])"
| "leadingInt x (c # cs) =
     (if \<not> is_digit c then Some (x, c # cs)
      else if x > 2 ^ 63 div 10 then None
      else let y = x * 10 + (byte_of c - 48) in if y > 2 ^ 63 then None else leadingInt y cs)"

text \<open>\<open>leadingFraction\<close> drops the digits that do not fit.\<close>

fun leadingFraction :: "nat \<Rightarrow> nat \<Rightarrow> bool \<Rightarrow> string \<Rightarrow> nat \<times> nat \<times> string" where
  "leadingFraction x scale full [] = (x, scale, [])"
| "leadingFraction x scale full (c # cs) =
     (if \<not> is_digit c then (x, scale, c # cs)
      else if full \<or> x > (2 ^ 63 - 1) div 10 then leadingFraction x scale True cs
      else let y = x * 10 + (byte_of c - 48)
           in if y > 2 ^ 63 then leadingFraction x scale True cs else leadingFraction y (scale * 10) False cs)"

definition unitMap :: "(string \<times> nat) list" where
  "unitMap = [(''ns'', 1), (''us'', 1000), (micro_unit, 1000), ([CHR 0xCE, CHR 0xBC, CHR ''s''], 1000),
     (''ms'', 1000000), (''s'', 1000000000), (''m'', 60000000000), (''h'', 3600000000000)]"

definition unit_char :: "char \<Rightarrow> bool" where
  "unit_char c \<longleftrightarrow> c \<noteq> CHR ''.'' \<and> \<not> is_digit c"

text \<open>One number with its unit, and the text after it.\<close>

definition parse_quantity :: "string \<Rightarrow> (nat \<times> string) option" where
  "parse_quantity s =
     (if s = [] \<or> unit_char (hd s) then None
      else case leadingInt 0 s of
        None \<Rightarrow> None
      | Some (v, s1) \<Rightarrow>
          let (f, scale, s2, post) =
                (if s1 \<noteq> [] \<and> hd s1 = CHR ''.''
                 then let (f, scale, s2) = leadingFraction 0 1 False (tl s1) in (f, scale, s2, length s2 \<noteq> length (tl s1))
                 else (0, 1, s1, False))
          in if length s1 = length s \<and> \<not> post then None
             else
               let u = takeWhile unit_char s2; rest = dropWhile unit_char s2
               in if u = [] then None
                  else case map_of unitMap u of
                    None \<Rightarrow> None
                  | Some unit \<Rightarrow>
                      if v > 2 ^ 63 div unit then None
                      else let w = v * unit + (if f > 0 then f * unit div scale else 0)
                           in if f > 0 \<and> w > 2 ^ 63 then None else Some (w, rest))"

lemma leadingInt_length: "leadingInt x s = Some (v, r) \<Longrightarrow> length r \<le> length s"
  by (induction x s rule: leadingInt.induct) (auto simp: Let_def split: if_splits)

lemma leadingFraction_length: "leadingFraction x sc full s = (f, sc', r) \<Longrightarrow> length r \<le> length s"
  by (induction x sc full s rule: leadingFraction.induct) (auto simp: Let_def le_SucI split: if_splits)

lemma parse_quantity_shorter: "parse_quantity s = Some (v, r) \<Longrightarrow> length r < length s"
proof -
  assume p: "parse_quantity s = Some (v, r)"
  obtain x s1 where i: "leadingInt 0 s = Some (x, s1)"
    using p by (auto simp: parse_quantity_def split: if_splits option.splits)
  define q where "q = (if s1 \<noteq> [] \<and> hd s1 = CHR ''.''
    then let (f, scale, s2) = leadingFraction 0 1 False (tl s1) in (f, scale, s2, length s2 \<noteq> length (tl s1))
    else (0, 1, s1, False))"
  obtain f scale s2 post where q: "q = (f, scale, s2, post)"
    by (metis prod_cases4)
  have le: "length s2 \<le> length s1"
    using q unfolding q_def by (auto split: if_splits prod.splits dest!: leadingFraction_length)
  have u: "takeWhile unit_char s2 \<noteq> []" "r = dropWhile unit_char s2"
    using p i q unfolding parse_quantity_def q_def
    by (auto simp: Let_def split: if_splits option.splits prod.splits)
  have "length r < length s2"
    using u by (metis add_less_same_cancel2 length_append length_greater_0_conv less_add_same_cancel2 takeWhile_dropWhile_id)
  with le leadingInt_length [OF i] show ?thesis by simp
qed

function parse_loop :: "nat \<Rightarrow> string \<Rightarrow> nat option" where
  "parse_loop d s =
     (if s = [] then Some d
      else case parse_quantity s of
        None \<Rightarrow> None
      | Some (v, r) \<Rightarrow> let d1 = (d + v) mod 2 ^ 64 in if d1 > 2 ^ 63 then None else parse_loop d1 r)"
  by pat_completeness auto
termination
  by (relation "measure (length \<circ> snd)") (auto dest: parse_quantity_shorter)

declare parse_loop.simps [simp del]

definition time_ParseDuration :: "string \<Rightarrow> Duration option" where
  "time_ParseDuration s =
     (let neg = s \<noteq> [] \<and> hd s = CHR ''-'';
          s1 = (if s \<noteq> [] \<and> (hd s = CHR ''-'' \<or> hd s = CHR ''+'') then tl s else s)
      in if s1 = ''0'' then Some 0
         else if s1 = [] then None
         else case parse_loop 0 s1 of
                None \<Rightarrow> None
              | Some d \<Rightarrow> if neg then Some (- int d) else if d > 2 ^ 63 - 1 then None else Some (int d))"

text \<open>A match of the expression for days and weeks at the start of a text: sign, digits before and after the point, unit.\<close>

definition match_day_week :: "string \<Rightarrow> (string \<times> string \<times> string \<times> char \<times> string) option" where
  "match_day_week s =
     (let neg = s \<noteq> [] \<and> hd s = CHR ''-''; s1 = (if neg then tl s else s);
          ds = takeWhile is_digit s1; s2 = dropWhile is_digit s1;
          point = s2 \<noteq> [] \<and> hd s2 = CHR ''.'' \<and> takeWhile is_digit (tl s2) \<noteq> [];
          fs = (if point then takeWhile is_digit (tl s2) else []);
          s3 = (if point then dropWhile is_digit (tl s2) else s2)
      in if ds \<noteq> [] \<and> s3 \<noteq> [] \<and> (hd s3 = CHR ''d'' \<or> hd s3 = CHR ''w'')
         then Some (if neg then ''-'' else [], ds, fs, hd s3, tl s3) else None)"

definition digits_value :: "string \<Rightarrow> nat" where
  "digits_value ds = foldl (\<lambda>x c. x * 10 + (byte_of c - 48)) 0 ds"

text \<open>The match in hours: 24 or 168 times the number.\<close>

definition day_week_hours :: "string \<times> string \<times> string \<times> char \<Rightarrow> string" where
  "day_week_hours = (\<lambda>(sign, ds, fs, unit).
     sign @ fmt_unit (length fs) (digits_value (ds @ fs) * (if unit = CHR ''w'' then 24 * 7 else 24)) ''h'')"

lemma match_day_week_shorter: "match_day_week s = Some (sg, ds, fs, u, r) \<Longrightarrow> length r < length s"
proof -
  assume m: "match_day_week s = Some (sg, ds, fs, u, r)"
  define s1 where "s1 = (if s \<noteq> [] \<and> hd s = CHR ''-'' then tl s else s)"
  define s2 where "s2 = dropWhile is_digit s1"
  define s3 where "s3 = (if s2 \<noteq> [] \<and> hd s2 = CHR ''.'' \<and> takeWhile is_digit (tl s2) \<noteq> [] then dropWhile is_digit (tl s2) else s2)"
  have "s3 \<noteq> []" "r = tl s3"
    using m by (auto simp: match_day_week_def Let_def s1_def s2_def s3_def split: if_splits)
  moreover have "length s3 \<le> length s2" "length s2 \<le> length s1" "length s1 \<le> length s"
    by (auto simp: s1_def s2_def s3_def length_dropWhile_le intro: order_trans [OF length_dropWhile_le])
  ultimately show ?thesis by (cases s3) auto
qed

function expand_day_week :: "string \<Rightarrow> string" where
  "expand_day_week s =
     (case match_day_week s of
        Some (sign, ds, fs, unit, rest) \<Rightarrow> day_week_hours (sign, ds, fs, unit) @ expand_day_week rest
      | None \<Rightarrow> (case s of [] \<Rightarrow> [] | c # cs \<Rightarrow> c # expand_day_week cs))"
  by pat_completeness auto
termination
  by (relation "measure length") (auto dest: match_day_week_shorter)

declare expand_day_week.simps [simp del]

definition ParseDuration :: "string \<Rightarrow> Duration option" where
  "ParseDuration s =
     (case time_ParseDuration (expand_day_week s) of
        None \<Rightarrow> None
      | Some d \<Rightarrow> if d < 0 then None else Some d)"

subsection \<open>Digits and fractions\<close>

lemma is_digit_char [simp]: "d < 10 \<Longrightarrow> is_digit (digit_char d)"
  by (simp add: is_digit_def)

lemma show_nat_0: "show_nat 0 = ''0''"
  by (rule trans [OF show_nat.simps]) (simp flip: byte_of_eq_iff)

lemma show_nat_is_digit: "c \<in> set (show_nat n) \<Longrightarrow> is_digit c"
  using show_nat_digits [of c n] by (simp add: is_digit_def)

text \<open>A text that starts with no digit.\<close>

definition no_digit :: "string \<Rightarrow> bool" where
  "no_digit r \<longleftrightarrow> r = [] \<or> \<not> is_digit (hd r)"

lemma no_digit_simps [simp]: "no_digit []" "no_digit (c # r) \<longleftrightarrow> \<not> is_digit c"
  by (simp_all add: no_digit_def)

lemma leadingInt_stop: "no_digit r \<Longrightarrow> leadingInt x r = Some (x, r)"
  by (cases r) simp_all

lemma leadingInt_show_nat: "n \<le> 2 ^ 63 \<Longrightarrow> leadingInt 0 (show_nat n @ r) = leadingInt n r"
proof (induction n arbitrary: r rule: show_nat.induct)
  case (1 n)
  show ?case
  proof (cases "n < 10")
    case True
    then show ?thesis by (simp add: show_nat.simps [of n] Let_def)
  next
    case False
    have "n div 10 \<le> 2 ^ 63 div 10" using "1.prems" by (rule div_le_mono)
    moreover have "n div 10 * 10 + n mod 10 = n" by presburger
    ultimately show ?thesis
      using 1 False by (simp add: show_nat.simps [of n] Let_def)
  qed
qed

lemma leadingFraction_digits:
  "\<forall>c \<in> set fs. is_digit c \<Longrightarrow> no_digit r \<Longrightarrow> x < 10 ^ k \<Longrightarrow> k + length fs \<le> 9 \<Longrightarrow>
     leadingFraction x sc False (fs @ r) = (foldl (\<lambda>x c. x * 10 + (byte_of c - 48)) x fs, sc * 10 ^ length fs, r)"
proof (induction fs arbitrary: x sc k)
  case Nil
  then show ?case by (cases r) simp_all
next
  case (Cons c fs)
  have d: "byte_of c - 48 \<le> 9" "is_digit c" using Cons.prems by (auto simp: is_digit_def)
  have y: "x * 10 + (byte_of c - 48) < 10 ^ Suc k"
    using d Cons.prems by simp
  have "(10 :: nat) ^ Suc k \<le> 10 ^ 9"
    using Cons.prems by (intro power_increasing) auto
  with y have "x * 10 + (byte_of c - 48) \<le> 2 ^ 63" "x \<le> (2 ^ 63 - 1) div 10"
    by simp_all
  with d show ?case
    using Cons.IH [OF _ _ y, of "sc * 10"] Cons.prems by (simp add: Let_def)
qed

text \<open>What \<open>fmtFrac\<close> writes: the digits of the remainder, unless it is zero.\<close>

lemma fmtFrac_acc:
  "acc \<noteq> [] \<Longrightarrow> \<exists>fs. length fs = prec \<and> (\<forall>c \<in> set fs. is_digit c) \<and> digits_value fs = v mod 10 ^ prec
     \<and> fmtFrac prec v acc = (CHR ''.'' # fs @ acc, v div 10 ^ prec)"
proof (induction prec arbitrary: v acc)
  case 0
  then show ?case by (simp add: digits_value_def)
next
  case (Suc prec)
  obtain fs where fs: "length fs = prec" "\<forall>c \<in> set fs. is_digit c" "digits_value fs = v div 10 mod 10 ^ prec"
    "fmtFrac prec (v div 10) (digit_char (v mod 10) # acc) = (CHR ''.'' # fs @ digit_char (v mod 10) # acc, v div 10 div 10 ^ prec)"
    using Suc.IH [of "digit_char (v mod 10) # acc" "v div 10"] by auto
  have "digits_value (fs @ [digit_char (v mod 10)]) = v mod 10 ^ Suc prec"
    using fs(3) by (simp add: digits_value_def mod_mult2_eq)
  then show ?case
    using fs Suc.prems by (intro exI [of _ "fs @ [digit_char (v mod 10)]"]) (auto simp: div_mult2_eq)
qed

lemma fmtFrac_Nil:
  "v mod 10 ^ prec = 0 \<and> fmtFrac prec v [] = ([], v div 10 ^ prec) \<or>
   (\<exists>fs. fs \<noteq> [] \<and> length fs \<le> prec \<and> (\<forall>c \<in> set fs. is_digit c) \<and> v mod 10 ^ prec \<noteq> 0
      \<and> digits_value fs * 10 ^ (prec - length fs) = v mod 10 ^ prec
      \<and> fmtFrac prec v [] = (CHR ''.'' # fs, v div 10 ^ prec))"
proof (induction prec arbitrary: v)
  case (Suc prec)
  have split: "v mod 10 ^ Suc prec = v div 10 mod 10 ^ prec * 10 + v mod 10"
    by (simp add: mod_mult2_eq)
  show ?case
  proof (cases "v mod 10 = 0")
    case True
    then have fmt: "fmtFrac (Suc prec) v [] = fmtFrac prec (v div 10) []" and q: "v div 10 div 10 ^ prec = v div 10 ^ Suc prec"
      by (simp_all add: div_mult2_eq)
    from Suc.IH [of "v div 10"] show ?thesis
    proof (elim disjE exE conjE)
      fix fs
      assume fs: "fs \<noteq> []" "length fs \<le> prec" "\<forall>c \<in> set fs. is_digit c" "v div 10 mod 10 ^ prec \<noteq> 0"
        "digits_value fs * 10 ^ (prec - length fs) = v div 10 mod 10 ^ prec"
        "fmtFrac prec (v div 10) [] = (CHR ''.'' # fs, v div 10 div 10 ^ prec)"
      have "digits_value fs * 10 ^ (Suc prec - length fs) = v mod 10 ^ Suc prec"
        unfolding split using fs(2,5) True by (simp add: Suc_diff_le)
      moreover have "v mod 10 ^ Suc prec \<noteq> 0"
        unfolding split using fs(4) by simp
      ultimately show ?thesis
        unfolding fmt using fs q by (intro disjI2 exI [of _ fs]) (simp del: power_Suc)
    next
      assume "v div 10 mod 10 ^ prec = 0" "fmtFrac prec (v div 10) [] = ([], v div 10 div 10 ^ prec)"
      then show ?thesis
        unfolding fmt split q using True by simp
    qed
  next
    case False
    obtain fs where fs: "length fs = prec" "\<forall>c \<in> set fs. is_digit c" "digits_value fs = v div 10 mod 10 ^ prec"
      "fmtFrac prec (v div 10) [digit_char (v mod 10)] = (CHR ''.'' # fs @ [digit_char (v mod 10)], v div 10 div 10 ^ prec)"
      using fmtFrac_acc [of "[digit_char (v mod 10)]" prec "v div 10"] by auto
    have "digits_value (fs @ [digit_char (v mod 10)]) = v mod 10 ^ Suc prec"
      unfolding split using fs(3) by (simp add: digits_value_def)
    moreover have "v mod 10 ^ Suc prec \<noteq> 0"
      unfolding split using False by simp
    ultimately show ?thesis
      using fs False
      by (intro disjI2 exI [of _ "fs @ [digit_char (v mod 10)]"]) (auto simp: div_mult2_eq)
  qed
qed simp

subsection \<open>Reading back one quantity\<close>

definition unit_text :: "string \<Rightarrow> bool" where
  "unit_text u \<longleftrightarrow> u \<noteq> [] \<and> list_all unit_char u"

definition quantity_end :: "string \<Rightarrow> bool" where
  "quantity_end r \<longleftrightarrow> r = [] \<or> \<not> unit_char (hd r)"

lemma unit_text_span:
  "unit_text u \<Longrightarrow> quantity_end r \<Longrightarrow> takeWhile unit_char (u @ r) = u \<and> dropWhile unit_char (u @ r) = r"
  by (cases r) (auto simp: unit_text_def quantity_end_def list_all_iff takeWhile_append dropWhile_append)

lemma unit_text_no_digit: "unit_text u \<Longrightarrow> no_digit (u @ r)" "unit_text u \<Longrightarrow> hd (u @ r) \<noteq> CHR ''.'' \<and> u @ r \<noteq> []"
  by (cases u; simp add: unit_text_def unit_char_def)+

lemma show_nat_hd: "hd (show_nat n @ r) = hd (show_nat n)" "is_digit (hd (show_nat n))"
  using show_nat_is_digit [OF hd_in_set [OF show_nat_nonempty]] by simp_all

lemma parse_quantity_fmt_unit:
  assumes u: "unit_text u" "map_of unitMap u = Some (10 ^ prec)" and prec: "prec \<le> 9"
    and v: "v \<le> 2 ^ 63" and r: "quantity_end r"
  shows "parse_quantity (fmt_unit prec v u @ r) = Some (v, r)"
proof -
  let ?q = "v div 10 ^ prec"
  have q: "?q \<le> 2 ^ 63" "?q \<le> 2 ^ 63 div 10 ^ prec"
    using v div_le_mono [OF v] by (auto intro: order_trans [OF div_le_dividend])
  have vq: "?q * 10 ^ prec + v mod 10 ^ prec = v" by (rule div_mult_mod_eq)
  note span = unit_text_span [OF u(1) r] and nd = unit_text_no_digit [OF u(1)]
  have hd: "\<not> unit_char (hd (show_nat ?q))"
    using show_nat_hd(2) by (simp add: unit_char_def)
  from fmtFrac_Nil [of v prec] show ?thesis
  proof (elim disjE exE conjE)
    assume z: "v mod 10 ^ prec = 0" and f: "fmtFrac prec v [] = ([], ?q)"
    have "leadingInt 0 (show_nat ?q @ u @ r) = Some (?q, u @ r)"
      using q nd by (simp add: leadingInt_show_nat leadingInt_stop)
    moreover have "length (u @ r) \<noteq> length (show_nat ?q @ u @ r)" by simp
    ultimately show ?thesis
      using f hd span nd u q vq z by (simp add: parse_quantity_def fmt_unit_def unit_text_def)
  next
    fix fs
    assume fs: "fs \<noteq> []" "length fs \<le> prec" "\<forall>c \<in> set fs. is_digit c" and nz: "v mod 10 ^ prec \<noteq> 0"
      and val: "digits_value fs * 10 ^ (prec - length fs) = v mod 10 ^ prec"
      and f: "fmtFrac prec v [] = (CHR ''.'' # fs, ?q)"
    have "leadingInt 0 (show_nat ?q @ CHR ''.'' # fs @ u @ r) = Some (?q, CHR ''.'' # fs @ u @ r)"
      using q by (subst leadingInt_show_nat) (simp_all add: is_digit_def)
    moreover have "leadingFraction 0 1 False (fs @ u @ r) = (digits_value fs, 10 ^ length fs, u @ r)"
      using leadingFraction_digits [of fs "u @ r" 0 0 1] fs nd prec by (simp add: digits_value_def)
    moreover have "digits_value fs > 0" using nz val by (metis bot_nat_0.not_eq_extremum mult_zero_left)
    moreover have "digits_value fs * 10 ^ prec div 10 ^ length fs = v mod 10 ^ prec"
    proof -
      have "(10 :: nat) ^ prec = 10 ^ (prec - length fs) * 10 ^ length fs"
        using fs(2) by (simp flip: power_add)
      then show ?thesis using val by (simp add: mult.assoc [symmetric])
    qed
    ultimately show ?thesis
      using f hd span nd u q vq fs v by (simp add: parse_quantity_def fmt_unit_def unit_text_def)
  qed
qed

lemma unit_texts [simp]: "unit_text ''ns''" "unit_text micro_unit" "unit_text ''ms''" "unit_text ''s''" "unit_text ''m''" "unit_text ''h''"
  by (simp_all add: unit_text_def unit_char_def is_digit_def micro_unit_def)

lemma unitMap_simps [simp]:
  "map_of unitMap ''ns'' = Some 1" "map_of unitMap micro_unit = Some 1000" "map_of unitMap ''ms'' = Some 1000000"
  "map_of unitMap ''s'' = Some 1000000000" "map_of unitMap ''m'' = Some 60000000000" "map_of unitMap ''h'' = Some 3600000000000"
  by (simp_all add: unitMap_def micro_unit_def)

text \<open>A whole number of a unit.\<close>

lemma parse_quantity_whole:
  assumes u: "unit_text u" "map_of unitMap u = Some k" and v: "v * k \<le> 2 ^ 63" "0 < k" and r: "quantity_end r"
  shows "parse_quantity (show_nat v @ u @ r) = Some (v * k, r)"
proof -
  have le: "v \<le> 2 ^ 63 div k" using v by (simp add: less_eq_div_iff_mult_less_eq)
  then have "v \<le> 2 ^ 63" by (rule order_trans) (rule div_le_dividend)
  then have "leadingInt 0 (show_nat v @ u @ r) = Some (v, u @ r)"
    using unit_text_no_digit [OF u(1)] by (simp add: leadingInt_show_nat leadingInt_stop)
  moreover have "length (u @ r) \<noteq> length (show_nat v @ u @ r)" by simp
  moreover have "\<not> unit_char (hd (show_nat v))"
    using show_nat_hd(2) by (simp add: unit_char_def)
  ultimately show ?thesis
    using unit_text_span [OF u(1) r] unit_text_no_digit(2) [OF u(1)] u le by (simp add: parse_quantity_def unit_text_def)
qed

lemma parse_loop_Nil [simp]: "parse_loop d [] = Some d"
  by (simp add: parse_loop.simps)

lemma parse_loop_whole:
  assumes "unit_text u" "map_of unitMap u = Some k" "d + v * k \<le> 2 ^ 63" "0 < k" "quantity_end r"
  shows "parse_loop d (show_nat v @ u @ r) = parse_loop (d + v * k) r"
  using assms parse_quantity_whole [of u k v r] by (subst parse_loop.simps) simp

lemma parse_loop_unit:
  assumes "unit_text u" "map_of unitMap u = Some (10 ^ prec)" "prec \<le> 9" "d + v \<le> 2 ^ 63"
  shows "parse_loop d (fmt_unit prec v u) = Some (d + v)"
proof -
  have "parse_quantity (fmt_unit prec v u) = Some (v, [])"
    using parse_quantity_fmt_unit [OF assms(1-3), of v "[]"] assms(4) by (simp add: quantity_end_def)
  moreover have "fmt_unit prec v u \<noteq> []" by (simp add: fmt_unit_def split: prod.split)
  ultimately show ?thesis
    using assms by (subst parse_loop.simps) simp
qed

lemma quantity_end_show_nat [simp]: "quantity_end (show_nat n @ r)"
  using show_nat_hd(1) [of n r] show_nat_hd(2) [of n] by (simp add: quantity_end_def unit_char_def)

lemma quantity_end_fmt_unit [simp]: "quantity_end (fmt_unit prec v u @ r)" "quantity_end (fmt_unit prec v u)"
  by (simp_all add: fmt_unit_def split: prod.split)

text \<open>The loop reads what \<open>String\<close> wrote.\<close>

definition duration_text :: "nat \<Rightarrow> string" where
  "duration_text u =
     (let minutes = u div 60000000000; hours = minutes div 60
      in (if hours > 0 then show_nat hours @ ''h'' else []) @ (if minutes > 0 then show_nat (minutes mod 60) @ ''m'' else [])
         @ fmt_unit 9 (u mod 60000000000) ''s'')"

lemma parse_loop_duration_text:
  assumes "d + u \<le> 2 ^ 63"
  shows "parse_loop d (duration_text u) = Some (d + u)"
proof -
  define m h s where "m = u div 60000000000" and "h = m div 60" and "s = u mod 60000000000"
  have u: "u = h * 3600000000000 + m mod 60 * 60000000000 + s"
  proof -
    have "m * 60000000000 + s = u" "h * 60 + m mod 60 = m"
      unfolding m_def h_def s_def by (rule div_mult_mod_eq)+
    then show ?thesis by linarith
  qed
  have sec: "parse_loop d' (fmt_unit 9 s ''s'') = Some (d' + s)" if "d' + s \<le> 2 ^ 63" for d'
    using that by (intro parse_loop_unit) simp_all
  have minute: "parse_loop d' (show_nat k @ ''m'' @ fmt_unit 9 s ''s'') = Some (d' + k * 60000000000 + s)"
    if "d' + k * 60000000000 + s \<le> 2 ^ 63" for d' k
    using that by (subst parse_loop_whole [where k = 60000000000]) (simp_all add: sec)
  have hour: "parse_loop d (show_nat h @ ''h'' @ show_nat k @ ''m'' @ fmt_unit 9 s ''s'') = Some (d + h * 3600000000000 + k * 60000000000 + s)"
    if "d + h * 3600000000000 + k * 60000000000 + s \<le> 2 ^ 63" for k
    using that minute [of "d + h * 3600000000000" k] by (subst parse_loop_whole [where k = 3600000000000]) simp_all
  have "duration_text u = (if h > 0 then show_nat h @ ''h'' else []) @ (if m > 0 then show_nat (m mod 60) @ ''m'' else [])
      @ fmt_unit 9 s ''s''"
    by (simp add: duration_text_def m_def h_def s_def Let_def)
  moreover have "m = 0 \<Longrightarrow> h = 0" "h = 0 \<Longrightarrow> m mod 60 = m" by (simp_all add: h_def)
  ultimately show ?thesis
    using u assms sec [of d] minute [of d "m mod 60"] hour [of "m mod 60"]
    by (cases "h = 0"; cases "m = 0") (simp_all add: add.assoc)
qed

lemma parse_loop_String:
  assumes "0 \<le> u" "d + nat u \<le> 2 ^ 63"
  shows "parse_loop d (Duration_String u) = Some (d + nat u)"
proof -
  have "parse_quantity ''0s'' = Some (0, [])"
    using parse_quantity_whole [of "''s''" 1000000000 0 "[]"]
    by (simp add: quantity_end_def show_nat_0)
  then have "u = 0 \<Longrightarrow> ?thesis"
    using assms by (subst parse_loop.simps) (simp add: Duration_String_def)
  moreover have "0 < u \<Longrightarrow> ?thesis"
    using assms parse_loop_duration_text [OF assms(2)]
    by (auto simp: Duration_String_def Let_def duration_text_def parse_loop_unit)
  ultimately show ?thesis using assms by fastforce
qed

lemma parse_loop_formatSubDay:
  assumes "0 \<le> u" "d + nat u \<le> 2 ^ 63"
  shows "parse_loop d (formatSubDay u) = Some (d + nat u)"
proof (cases "u \<ge> hour \<and> u mod hour = 0")
  case True
  define h where "h = nat (u div hour)"
  have "u = u div hour * hour" using True div_mult_mod_eq [of u hour] by simp
  moreover have "0 \<le> u div hour" using assms by (simp add: hour_def second_def)
  ultimately have n: "nat u = h * 3600000000000" and h: "u div hour = int h"
    by (simp_all add: h_def hour_def second_def)
  show ?thesis
    using True assms parse_loop_whole [of "''h''" 3600000000000 d h "[]"]
    by (simp add: formatSubDay_def n h itoa_def quantity_end_def)
qed (auto simp: formatSubDay_def parse_loop_String [OF assms])

subsection \<open>Days and weeks\<close>

lemma dropWhile_takeWhile_simps:
  "\<forall>c \<in> set xs. P c \<Longrightarrow> ys \<noteq> [] \<Longrightarrow> \<not> P (hd ys) \<Longrightarrow> takeWhile P (xs @ ys) = xs \<and> dropWhile P (xs @ ys) = ys"
  by (cases ys) (auto simp: takeWhile_append dropWhile_append)

lemma digits_value_show_nat [simp]: "digits_value (show_nat n) = n"
  unfolding digits_value_def
proof (induction n rule: show_nat.induct)
  case (1 n)
  have "n div 10 * 10 + n mod 10 = n" by presburger
  with 1 show ?case by (cases "n < 10") (simp_all add: show_nat.simps [of n])
qed

lemma expand_day_week_whole:
  assumes "unit = CHR ''w'' \<and> k = 168 \<or> unit = CHR ''d'' \<and> k = 24"
  shows "expand_day_week (show_nat n @ unit # r) = show_nat (n * k) @ ''h'' @ expand_day_week r"
proof -
  have nd: "\<not> is_digit unit" "unit \<noteq> CHR ''.''" using assms by (auto simp: is_digit_def)
  have hd: "hd (show_nat n) \<noteq> CHR ''-''" using show_nat_hd(2) [of n] by (auto simp: is_digit_def)
  have "takeWhile is_digit (show_nat n @ unit # r) = show_nat n \<and> dropWhile is_digit (show_nat n @ unit # r) = unit # r"
    using nd by (intro dropWhile_takeWhile_simps) (simp_all add: show_nat_is_digit)
  then have "match_day_week (show_nat n @ unit # r) = Some ([], show_nat n, [], unit, r)"
    using nd hd assms by (auto simp: match_day_week_def)
  then show ?thesis
    using assms by (subst expand_day_week.simps) (auto simp: day_week_hours_def fmt_unit_def)
qed

lemma match_day_week_unit: "match_day_week s = Some (sg, ds, fs, u, r) \<Longrightarrow> u \<in> {CHR ''d'', CHR ''w''} \<and> u \<in> set s"
proof -
  assume m: "match_day_week s = Some (sg, ds, fs, u, r)"
  define s1 where "s1 = (if s \<noteq> [] \<and> hd s = CHR ''-'' then tl s else s)"
  define s2 where "s2 = dropWhile is_digit s1"
  define s3 where "s3 = (if s2 \<noteq> [] \<and> hd s2 = CHR ''.'' \<and> takeWhile is_digit (tl s2) \<noteq> [] then dropWhile is_digit (tl s2) else s2)"
  have "s3 \<noteq> []" "u = hd s3" "u \<in> {CHR ''d'', CHR ''w''}"
    using m by (auto simp: match_day_week_def Let_def s1_def s2_def s3_def split: if_splits)
  moreover have "set s3 \<subseteq> set s2" "set s2 \<subseteq> set s1" "set s1 \<subseteq> set s"
    unfolding s1_def s2_def s3_def by (auto dest!: set_dropWhileD intro: list.set_sel(2))
  ultimately show ?thesis using hd_in_set by blast
qed

lemma expand_day_week_id: "CHR ''d'' \<notin> set s \<Longrightarrow> CHR ''w'' \<notin> set s \<Longrightarrow> expand_day_week s = s"
proof (induction s)
  case (Cons c s)
  have "match_day_week (c # s) = None"
    using Cons.prems match_day_week_unit [of "c # s"] by (cases "match_day_week (c # s)") fastforce+
  with Cons show ?case by (subst expand_day_week.simps) simp
qed (simp add: expand_day_week.simps match_day_week_def)

lemma fmtFrac_set: "c \<in> set (fst (fmtFrac prec v [])) \<Longrightarrow> is_digit c \<or> c = CHR ''.''"
  using fmtFrac_Nil [of v prec] by auto

lemma fmt_unit_set: "c \<in> set (fmt_unit prec v u) \<Longrightarrow> is_digit c \<or> c = CHR ''.'' \<or> c \<in> set u"
  using fmtFrac_set [of c prec v] show_nat_is_digit [of c]
  by (cases "fmtFrac prec v []") (auto simp: fmt_unit_def)

lemma formatSubDay_no_day_week:
  "0 \<le> d \<Longrightarrow> u \<in> {CHR ''d'', CHR ''w''} \<Longrightarrow> u \<notin> set (formatSubDay d)"
proof -
  assume d: "0 \<le> d" and u: "u \<in> {CHR ''d'', CHR ''w''}"
  have nd: "\<not> is_digit u" "u \<noteq> CHR ''.''" using u by (auto simp: is_digit_def)
  then have n: "u \<notin> set (show_nat n)" for n using show_nat_is_digit by blast
  have q: "u \<notin> set (fmt_unit prec v w)" if "u \<notin> set w" for prec v w
    using fmt_unit_set nd that by blast
  have units: "u \<notin> set ''ns''" "u \<notin> set micro_unit" "u \<notin> set ''ms''" "u \<notin> set ''s''" "u \<notin> set ''0s''" "u \<notin> set ''h''" "u \<notin> set ''m''"
    using u by (auto simp: micro_unit_def)
  have "u \<notin> set (Duration_String d)"
    using d q [OF units(1)] q [OF units(2)] q [OF units(3)] q [OF units(4)] n units
    by (simp only: Duration_String_def Let_def set_append Un_iff if_split not_le [symmetric]) simp
  moreover have "u \<notin> set (itoa (d div hour) @ ''h'')" if "hour \<le> d"
    using d that n units by (simp add: itoa_def hour_def second_def pos_imp_zdiv_neg_iff)
  ultimately show ?thesis by (auto simp: formatSubDay_def)
qed

text \<open>The text of a duration reads back as the duration.\<close>

lemma ParseDuration_loop:
  assumes "expand_day_week s = c # t" "is_digit c" "t \<noteq> []" "parse_loop 0 (c # t) = Some d" "d < 2 ^ 63"
  shows "ParseDuration s = Some (int d)"
proof -
  have "c \<noteq> CHR ''-''" "c \<noteq> CHR ''+''" using assms(2) by (auto simp: is_digit_def)
  then show ?thesis
    using assms by (simp add: ParseDuration_def time_ParseDuration_def Let_def)
qed

definition starts_quantity :: "string \<Rightarrow> bool" where
  "starts_quantity s \<longleftrightarrow> (\<exists>c t. s = c # t \<and> is_digit c \<and> t \<noteq> [])"

lemma starts_quantity_show_nat [simp]: "r \<noteq> [] \<Longrightarrow> starts_quantity (show_nat n @ r)"
  using show_nat_hd(2) [of n] by (cases "show_nat n") (auto simp: starts_quantity_def)

lemma starts_quantity_fmt_unit [simp]: "u \<noteq> [] \<Longrightarrow> starts_quantity (fmt_unit prec v u)"
  by (simp add: fmt_unit_def split: prod.split)

lemma starts_quantity_formatSubDay: "0 \<le> d \<Longrightarrow> starts_quantity (formatSubDay d)"
proof -
  have "starts_quantity ''0s''" by (simp add: starts_quantity_def is_digit_def)
  moreover have "0 \<le> d \<Longrightarrow> 0 \<le> d div hour" by (simp add: hour_def second_def)
  ultimately show "0 \<le> d \<Longrightarrow> ?thesis"
    by (auto simp: formatSubDay_def Duration_String_def Let_def itoa_def micro_unit_def)
qed

lemma starts_quantity_end: "starts_quantity s \<Longrightarrow> quantity_end s"
  by (auto simp: starts_quantity_def quantity_end_def unit_char_def)

definition sub_day :: "Duration \<Rightarrow> string" where
  "sub_day d = (if d > 0 then formatSubDay d else [])"

lemma sub_day:
  "quantity_end (sub_day d)" "expand_day_week (sub_day d) = sub_day d"
  "0 \<le> d \<Longrightarrow> a + nat d \<le> 2 ^ 63 \<Longrightarrow> parse_loop a (sub_day d) = Some (a + nat d)"
  using formatSubDay_no_day_week [of d] starts_quantity_end [OF starts_quantity_formatSubDay [of d]] parse_loop_formatSubDay [of d a]
  by (auto simp: sub_day_def starts_quantity_end expand_day_week_id quantity_end_def)

text \<open>Days and the rest, after the weeks.\<close>

definition day_part :: "Duration \<Rightarrow> string" where
  "day_part d = (let days = d div (24 * hour) in
     (if days > 0 then itoa days @ ''d'' else []) @ sub_day (if days > 0 then d mod (24 * hour) else d))"

lemma day_hours: "nat n * 24 * 3600000000000 = nat (n * (24 * hour))"
  by (cases "0 \<le> n") (simp_all add: hour_def second_def nat_mult_distrib)

lemma day_part:
  assumes "0 \<le> d"
  shows "quantity_end (expand_day_week (day_part d))"
    and "a + nat d \<le> 2 ^ 63 \<Longrightarrow> parse_loop a (expand_day_week (day_part d)) = Some (a + nat d)"
proof -
  define n m where "n = d div (24 * hour)" and "m = d mod (24 * hour)"
  have hour: "0 < 24 * hour" by (simp add: hour_def second_def)
  have n: "0 \<le> n" "0 \<le> m" 
    using assms hour by (simp_all add: n_def m_def pos_imp_zdiv_nonneg_iff)
  have d: "d = n * (24 * hour) + m"
    unfolding n_def m_def by (rule div_mult_mod_eq [symmetric])
  have nd: "nat d = nat n * 24 * 3600000000000 + nat m"
    using n hour unfolding day_hours by (subst d) (simp add: nat_add_distrib)
  have eq: "expand_day_week (day_part d) = (if n > 0 then show_nat (nat n * 24) @ ''h'' @ sub_day m else sub_day d)"
    using n expand_day_week_whole [of "CHR ''d''" 24 "nat n" "sub_day m"]
    by (simp add: day_part_def n_def [symmetric] m_def [symmetric] Let_def sub_day itoa_def)
  show "quantity_end (expand_day_week (day_part d))"
    unfolding eq by (simp add: sub_day)
  assume le: "a + nat d \<le> 2 ^ 63"
  show "parse_loop a (expand_day_week (day_part d)) = Some (a + nat d)"
    unfolding eq using le nd n assms sub_day(1) [of m] sub_day(3) [of m "a + nat n * 24 * 3600000000000"]
      parse_loop_whole [of "''h''" 3600000000000 a "nat n * 24" "sub_day m"] sub_day(3) [of d a]
    by (auto simp: add.assoc)
qed

lemma FormatDuration_loop:
  assumes "0 \<le> d" "nat d \<le> 2 ^ 63"
  shows "parse_loop 0 (expand_day_week (FormatDuration d)) = Some (nat d)" "starts_quantity (expand_day_week (FormatDuration d))"
proof -
  define w m where "w = d div (7 * 24 * hour)" and "m = d mod (7 * 24 * hour)"
  have hour: "0 < 7 * 24 * hour" by (simp add: hour_def second_def)
  have w: "0 \<le> w" "0 \<le> m" 
    using assms hour by (simp_all add: w_def m_def pos_imp_zdiv_nonneg_iff)
  have d: "d = w * (7 * 24 * hour) + m"
    unfolding w_def m_def by (rule div_mult_mod_eq [symmetric])
  have nd: "nat d = nat w * 168 * 3600000000000 + nat m"
    using w by (subst d) (simp add: hour_def second_def nat_add_distrib nat_mult_distrib)
  have fmt: "FormatDuration d = (if d < 24 * hour then formatSubDay d
      else (if w > 0 then itoa w @ ''w'' else []) @ day_part (if w > 0 then m else d))"
    unfolding FormatDuration_def day_part_def sub_day_def Let_def w_def m_def by (rule refl)
  have eq: "expand_day_week (FormatDuration d) =
      (if d < 24 * hour then formatSubDay d
       else if w > 0 then show_nat (nat w * 168) @ ''h'' @ expand_day_week (day_part m)
       else expand_day_week (day_part d))"
    using w expand_day_week_whole [of "CHR ''w''" 168 "nat w" "day_part m"] formatSubDay_no_day_week [OF assms(1)]
    unfolding fmt by (simp add: itoa_def expand_day_week_id)
  have days: "starts_quantity (expand_day_week (day_part d))" if "d \<ge> 24 * hour"
  proof -
    have "d div (24 * hour) > 0"
      using that hour by (simp add: pos_imp_zdiv_pos_iff)
    with expand_day_week_whole [of "CHR ''d''" 24 "nat (d div (24 * hour))"] show ?thesis
      by (simp add: day_part_def Let_def itoa_def)
  qed
  show "starts_quantity (expand_day_week (FormatDuration d))"
    unfolding eq using days starts_quantity_formatSubDay [OF assms(1)] by auto
  show "parse_loop 0 (expand_day_week (FormatDuration d)) = Some (nat d)"
  proof (cases "d < 24 * hour")
    case True
    with parse_loop_formatSubDay [OF assms(1), of 0] assms show ?thesis by (simp add: eq)
  next
    case long: False
    show ?thesis
    proof (cases "w > 0")
      case True
      have "nat w * 168 * 3600000000000 \<le> 2 ^ 63" using assms(2) nd by linarith
      then have "parse_loop 0 (show_nat (nat w * 168) @ ''h'' @ expand_day_week (day_part m))
          = parse_loop (0 + nat w * 168 * 3600000000000) (expand_day_week (day_part m))"
        using day_part(1) [OF w(2)] by (intro parse_loop_whole) simp_all
      with True long assms(2) nd day_part(2) [OF w(2), of "nat w * 168 * 3600000000000"] show ?thesis by (simp add: eq)
    next
      case False
      with long day_part(2) [OF assms(1), of 0] assms(2) show ?thesis by (simp add: eq)
    qed
  qed
qed

lemma FormatDuration_roundtrip:
  assumes "0 \<le> d" "in_int64 d"
  shows "ParseDuration (FormatDuration d) = Some d"
proof -
  have d: "nat d < 2 ^ 63" using assms by (simp add: in_int64_def nat_less_iff)
  obtain c t where "expand_day_week (FormatDuration d) = c # t" "is_digit c" "t \<noteq> []" "parse_loop 0 (c # t) = Some (nat d)"
    using FormatDuration_loop [of d] assms d by (force simp: starts_quantity_def)
  from ParseDuration_loop [OF this d] assms show ?thesis by simp
qed

end
