(* ===== verification/Json_Text.thy ===== *)
theory Json_Text
  imports Go_Duration
begin

text \<open>
  \<open>encoding/json\<close>: what the text of a document decodes to, for the places that put JSON together by hand. A number is an
  exact rational. A value that \<open>json.Marshal\<close> wrote into a text stands in it as a piece of its own: it is complete and
  decodes to itself. The text is cut into tokens, and the tokens are read by recursive descent; the fuel of the readers
  bounds their depth, and every token adds at most one level.
\<close>

datatype json = JNull | JBool bool | JNum rat | JStr string | JArr "json list" | JObj "(string \<times> json) list"

datatype piece = Ch char | Val json

datatype json_token = TOpen | TClose | TBegin | TEnd | TColon | TComma | TStr string | TVal json

subsection \<open>Strings\<close>

definition quote_char :: char where "quote_char = CHR 0x22"

definition escape_char :: char where "escape_char = CHR 0x5C"

text \<open>
  The text up to the quote that ends a string, and what follows. A value inside a string does not end it: the quotes of a
  value pair up, so the string would stay open to the end of the text.
\<close>

fun string_body :: "piece list \<Rightarrow> (string \<times> piece list) option" where
  "string_body [] = None"
| "string_body (Val v # ps) = None"
| "string_body (Ch c # ps) =
     (if c = quote_char then Some ([], ps)
      else if c = escape_char then
        (case ps of
           Ch d # ps' \<Rightarrow> map_option (\<lambda>(s, r). (c # d # s, r)) (string_body ps')
         | _ \<Rightarrow> None)
      else map_option (\<lambda>(s, r). (c # s, r)) (string_body ps))"

text \<open>The code unit of four hexadecimal digits, the pair of two units, and the bytes of a code point.\<close>

definition getu4 :: "string \<Rightarrow> nat option" where
  "getu4 s = (if length s < 4 then None else map_option nat (parse_digits 16 0 (take 4 s)))"

definition utf8_bytes :: "nat \<Rightarrow> string" where
  "utf8_bytes n =
     (if n < 128 then [char_of n]
      else if n < 2048 then [char_of (192 + n div 64), char_of (128 + n mod 64)]
      else if n < 65536 then [char_of (224 + n div 4096), char_of (128 + n div 64 mod 64), char_of (128 + n mod 64)]
      else [char_of (240 + n div 262144), char_of (128 + n div 4096 mod 64), char_of (128 + n div 64 mod 64),
            char_of (128 + n mod 64)])"

definition is_surrogate :: "nat \<Rightarrow> bool" where
  "is_surrogate u \<longleftrightarrow> 55296 \<le> u \<and> u < 57344"

definition low_half :: "string \<Rightarrow> nat option" where
  "low_half s =
     (case s of
        b # u # s' \<Rightarrow>
          if b = escape_char \<and> u = CHR ''u'' then
            (case getu4 s' of
               Some l \<Rightarrow> if 56320 \<le> l \<and> l < 57344 then Some l else None
             | None \<Rightarrow> None)
          else None
      | _ \<Rightarrow> None)"

definition simple_escape :: "char \<Rightarrow> char option" where
  "simple_escape c =
     (if c = quote_char \<or> c = escape_char \<or> c = CHR ''/'' then Some c
      else if c = CHR ''b'' then Some (char_of (8 :: nat))
      else if c = CHR ''f'' then Some (char_of (12 :: nat))
      else if c = CHR ''n'' then Some (char_of (10 :: nat))
      else if c = CHR ''r'' then Some (char_of (13 :: nat))
      else if c = CHR ''t'' then Some (char_of (9 :: nat))
      else None)"

text \<open>A half of a pair without the other half is the replacement character.\<close>

function unquote :: "string \<Rightarrow> string option" where
  "unquote [] = Some []"
| "unquote (c # s) =
     (if c \<noteq> escape_char then (if byte_of c < 32 then None else map_option ((#) c) (unquote s))
      else
        (case s of
           [] \<Rightarrow> None
         | d # s' \<Rightarrow>
             if d = CHR ''u'' then
               (case getu4 s' of
                  None \<Rightarrow> None
                | Some u \<Rightarrow>
                    if \<not> is_surrogate u then map_option ((@) (utf8_bytes u)) (unquote (drop 4 s'))
                    else
                      (case (if u < 56320 then low_half (drop 4 s') else None) of
                         Some l \<Rightarrow>
                           map_option ((@) (utf8_bytes (65536 + (u - 55296) * 1024 + (l - 56320)))) (unquote (drop 10 s'))
                       | None \<Rightarrow> map_option ((@) (utf8_bytes 65533)) (unquote (drop 4 s'))))
             else
               (case simple_escape d of
                  None \<Rightarrow> None
                | Some e \<Rightarrow> map_option ((#) e) (unquote s'))))"
  by pat_completeness auto
termination by (relation "measure length") auto

subsection \<open>Tokens\<close>

definition number_digits :: "string \<Rightarrow> bool" where
  "number_digits ds \<longleftrightarrow> ds \<noteq> [] \<and> list_all is_digit ds"

text \<open>A number: a sign, an integer without leading zeros, a fraction, an exponent.\<close>

definition exponent_value :: "string \<Rightarrow> int option" where
  "exponent_value s =
     (case s of
        [] \<Rightarrow> Some 0
      | e # s' \<Rightarrow>
          if e = CHR ''e'' \<or> e = CHR ''E'' then
            (let ds = (if s' \<noteq> [] \<and> (hd s' = CHR ''-'' \<or> hd s' = CHR ''+'') then tl s' else s')
             in if number_digits ds then Some (if hd s' = CHR ''-'' then - int (digits_value ds) else int (digits_value ds))
                else None)
          else None)"

definition ten_power :: "int \<Rightarrow> rat" where
  "ten_power n = (if n \<ge> 0 then 10 ^ nat n else 1 / 10 ^ nat (- n))"

definition number_value :: "string \<Rightarrow> rat option" where
  "number_value s =
     (let neg = (s \<noteq> [] \<and> hd s = CHR ''-'');
          s1 = (if neg then tl s else s);
          whole = takeWhile is_digit s1;
          s2 = dropWhile is_digit s1;
          point = (s2 \<noteq> [] \<and> hd s2 = CHR ''.'');
          frac = (if point then takeWhile is_digit (tl s2) else []);
          s3 = (if point then dropWhile is_digit (tl s2) else s2)
      in if whole = [] \<or> (length whole > 1 \<and> hd whole = CHR ''0'') \<or> (point \<and> frac = []) then None
         else map_option
                (\<lambda>e. (if neg then -1 else 1) *
                   (of_nat (digits_value whole) + of_nat (digits_value frac) / 10 ^ length frac) * ten_power e)
                (exponent_value s3))"

definition word_char :: "char \<Rightarrow> bool" where
  "word_char c \<longleftrightarrow>
     is_digit c \<or> (65 \<le> byte_of c \<and> byte_of c \<le> 90) \<or> (97 \<le> byte_of c \<and> byte_of c \<le> 122)
     \<or> c = CHR ''+'' \<or> c = CHR ''-'' \<or> c = CHR ''.''"

definition word_value :: "string \<Rightarrow> json option" where
  "word_value w =
     (if w = ''null'' then Some JNull
      else if w = ''true'' then Some (JBool True)
      else if w = ''false'' then Some (JBool False)
      else map_option JNum (number_value w))"

fun word_piece :: "piece \<Rightarrow> bool" where
  "word_piece (Ch c) = word_char c"
| "word_piece (Val v) = False"

fun piece_char :: "piece \<Rightarrow> char" where
  "piece_char (Ch c) = c"
| "piece_char (Val v) = CHR 0x00"

definition json_space :: "char \<Rightarrow> bool" where
  "json_space c \<longleftrightarrow> byte_of c \<in> {9, 10, 13, 32}"

definition mark :: "char \<Rightarrow> json_token option" where
  "mark c =
     (if c = CHR ''{'' then Some TOpen
      else if c = CHR ''}'' then Some TClose
      else if c = CHR ''['' then Some TBegin
      else if c = CHR '']'' then Some TEnd
      else if c = CHR '':'' then Some TColon
      else if c = CHR '','' then Some TComma
      else None)"

lemma string_body_length: "string_body ps = Some (s, r) \<Longrightarrow> length r < length ps"
  by (induction ps arbitrary: s r rule: string_body.induct)
    (fastforce split: if_splits list.splits piece.splits)+

function json_tokens :: "piece list \<Rightarrow> json_token list option" where
  "json_tokens [] = Some []"
| "json_tokens (Val v # ps) = map_option ((#) (TVal v)) (json_tokens ps)"
| "json_tokens (Ch c # ps) =
     (if json_space c then json_tokens ps
      else if c = quote_char then
        (case string_body ps of
           None \<Rightarrow> None
         | Some (raw, ps') \<Rightarrow>
             (case unquote raw of
                None \<Rightarrow> None
              | Some s \<Rightarrow> map_option ((#) (TStr s)) (json_tokens ps')))
      else
        (case mark c of
           Some t \<Rightarrow> map_option ((#) t) (json_tokens ps)
         | None \<Rightarrow>
             (case word_value (c # map piece_char (takeWhile word_piece ps)) of
                None \<Rightarrow> None
              | Some v \<Rightarrow> map_option ((#) (TVal v)) (json_tokens (dropWhile word_piece ps)))))"
  by pat_completeness auto
termination
  by (relation "measure length") (auto simp: length_dropWhile_le less_Suc_eq_le dest!: string_body_length)

subsection \<open>Values\<close>

fun read_value :: "nat \<Rightarrow> json_token list \<Rightarrow> (json \<times> json_token list) option"
and read_members :: "nat \<Rightarrow> json_token list \<Rightarrow> ((string \<times> json) list \<times> json_token list) option"
and read_elements :: "nat \<Rightarrow> json_token list \<Rightarrow> (json list \<times> json_token list) option" where
  "read_value 0 ts = None"
| "read_value (Suc n) ts =
     (case ts of
        TVal v # r \<Rightarrow> Some (v, r)
      | TStr s # r \<Rightarrow> Some (JStr s, r)
      | TOpen # TClose # r \<Rightarrow> Some (JObj [], r)
      | TOpen # r \<Rightarrow> map_option (\<lambda>(m, r'). (JObj m, r')) (read_members n r)
      | TBegin # TEnd # r \<Rightarrow> Some (JArr [], r)
      | TBegin # r \<Rightarrow> map_option (\<lambda>(vs, r'). (JArr vs, r')) (read_elements n r)
      | _ \<Rightarrow> None)"
| "read_members 0 ts = None"
| "read_members (Suc n) ts =
     (case ts of
        TStr k # TColon # r \<Rightarrow>
          (case read_value n r of
             Some (v, TComma # r') \<Rightarrow> map_option (\<lambda>(m, r''). ((k, v) # m, r'')) (read_members n r')
           | Some (v, TClose # r') \<Rightarrow> Some ([(k, v)], r')
           | _ \<Rightarrow> None)
      | _ \<Rightarrow> None)"
| "read_elements 0 ts = None"
| "read_elements (Suc n) ts =
     (case read_value n ts of
        Some (v, TComma # r') \<Rightarrow> map_option (\<lambda>(vs, r''). (v # vs, r'')) (read_elements n r')
      | Some (v, TEnd # r') \<Rightarrow> Some ([v], r')
      | _ \<Rightarrow> None)"

text \<open>\<^const>\<open>None\<close>: the text is not JSON.\<close>

definition read_json :: "piece list \<Rightarrow> json option" where
  "read_json ps =
     (case json_tokens ps of
        None \<Rightarrow> None
      | Some ts \<Rightarrow>
          (case read_value (Suc (length ts)) ts of
             Some (v, []) \<Rightarrow> Some v
           | _ \<Rightarrow> None))"

text \<open>The tokens a value is written as. The readers give it back, with fuel for as many levels as there are tokens.\<close>

fun value_tokens :: "json \<Rightarrow> json_token list"
and member_tokens :: "(string \<times> json) list \<Rightarrow> json_token list"
and element_tokens :: "json list \<Rightarrow> json_token list" where
  "value_tokens (JStr s) = [TStr s]"
| "value_tokens (JObj m) = TOpen # member_tokens m"
| "value_tokens (JArr vs) = TBegin # element_tokens vs"
| "value_tokens v = [TVal v]"
| "member_tokens [] = [TClose]"
| "member_tokens [(k, v)] = TStr k # TColon # value_tokens v @ [TClose]"
| "member_tokens ((k, v) # m) = TStr k # TColon # value_tokens v @ TComma # member_tokens m"
| "element_tokens [] = [TEnd]"
| "element_tokens [v] = value_tokens v @ [TEnd]"
| "element_tokens (v # vs) = value_tokens v @ TComma # element_tokens vs"

lemma value_tokens_start: "\<exists>t ts. value_tokens v = t # ts \<and> t \<noteq> TEnd \<and> t \<noteq> TClose"
  by (cases v) auto

lemma element_tokens_start: "vs \<noteq> [] \<Longrightarrow> \<exists>t ts. element_tokens vs = t # ts \<and> t \<noteq> TEnd"
  using value_tokens_start [of "hd vs"] by (cases vs rule: element_tokens.cases) auto

lemma member_tokens_start: "m \<noteq> [] \<Longrightarrow> \<exists>k ts. member_tokens m = TStr k # ts"
  by (cases m rule: member_tokens.cases) auto

lemma read_value_TVal [simp]: "Suc 0 \<le> n \<Longrightarrow> read_value n (TVal v # r) = Some (v, r)"
  by (cases n) simp_all

lemma read_written:
  "length (value_tokens v) \<le> n \<Longrightarrow> read_value n (value_tokens v @ r) = Some (v, r)"
  "m \<noteq> [] \<Longrightarrow> length (member_tokens m) \<le> n \<Longrightarrow> read_members n (member_tokens m @ r) = Some (m, r)"
  "vs \<noteq> [] \<Longrightarrow> length (element_tokens vs) \<le> n \<Longrightarrow> read_elements n (element_tokens vs @ r) = Some (vs, r)"
proof (induction v and m and vs arbitrary: n r and n r and n r rule: value_tokens_member_tokens_element_tokens.induct)
  case (2 m)
  then show ?case
    using member_tokens_start [of m] by (cases n; cases "m = []") fastforce+
next
  case (3 vs)
  then show ?case
    using element_tokens_start [of vs] by (cases n; cases "vs = []") (fastforce split: json_token.splits)+
next
  case (1 s)
  then show ?case by (cases n) simp_all
next
  case (6 k v)
  then show ?case by (cases n) simp_all
next
  case (7 k v kv m)
  then show ?case by (cases n) simp_all
next
  case (9 v)
  then show ?case by (cases n) simp_all
next
  case (10 v v' vs)
  then show ?case by (cases n) simp_all
qed simp_all

subsection \<open>Text without escapes\<close>

definition unescaped :: "string \<Rightarrow> bool" where
  "unescaped s \<longleftrightarrow> list_all (\<lambda>c. 32 \<le> byte_of c \<and> c \<noteq> quote_char \<and> c \<noteq> escape_char) s"

lemma string_body_unescaped:
  "unescaped s \<Longrightarrow> string_body (map Ch s @ Ch quote_char # ps) = Some (s, ps)"
  by (induction s) (auto simp: unescaped_def)

lemma unquote_unescaped: "unescaped s \<Longrightarrow> unquote s = Some s"
  by (induction s) (auto simp: unescaped_def)

lemma json_space_quote [simp]: "\<not> json_space quote_char"
  by (simp add: json_space_def quote_char_def)

text \<open>A string that is written without escapes decodes to itself.\<close>

lemma json_tokens_string:
  assumes "unescaped s"
  shows "json_tokens (Ch quote_char # map Ch s @ Ch quote_char # ps) = map_option ((#) (TStr s)) (json_tokens ps)"
  using assms by (simp add: string_body_unescaped unquote_unescaped)

lemma json_tokens_mark:
  assumes "mark c = Some t"
  shows "json_tokens (Ch c # ps) = map_option ((#) t) (json_tokens ps)"
proof -
  have "\<not> json_space c" "c \<noteq> quote_char"
    using assms by (auto simp: mark_def json_space_def quote_char_def split: if_splits)
  with assms show ?thesis by simp
qed

end
