(* ===== verification/Smart_Criteria.thy ===== *)
theory Smart_Criteria
  imports Json_Text "HOL-Library.List_Lexorder" "HOL-Library.Char_ord"
begin

text \<open>
  \<open>model/criteria\<close>: the rules of a smart playlist. A rule is an operator with a map from fields to values; a value is what
  \<open>encoding/json\<close> decodes, with numbers as rationals. \<open>LookupField\<close> reads the table of fields, to which the server adds
  the roles and the tags of its configuration. A JSON document is the value its text decodes to; where the code writes JSON
  text by hand, \<open>marshalExpression\<close>, the model writes the same text and \<open>read_json\<close> reads it.
\<close>

subsection \<open>Values and expressions\<close>

datatype rule_op =
  RuleIs | RuleIsNot | RuleGt | RuleLt | RuleBefore | RuleAfter | RuleContains | RuleNotContains | RuleStartsWith | RuleEndsWith
  | RuleInTheRange | RuleInTheLast | RuleNotInTheLast | RuleInPlaylist | RuleNotInPlaylist | RuleIsMissing | RuleIsPresent

datatype Expression = AllOf "Expression list" | AnyOf "Expression list" | Rule rule_op "(string \<times> json) list"

record criteria_rules =
  cx_Expression :: "Expression option"
  cx_Sort :: string
  cx_Order :: string
  cx_Limit :: int
  cx_LimitPercent :: int
  cx_Offset :: int
  cx_RefreshDelay :: Duration

subsection \<open>Fields\<close>

record FieldInfo =
  fi_Alias :: string
  fi_IsTag :: bool
  fi_IsRole :: bool
  fi_Numeric :: bool
  fi_Boolean :: bool
  fi_Nullable :: bool
  fi_tagAlias :: string
  fi_name :: string

definition plain_field :: FieldInfo where
  "plain_field = \<lparr>fi_Alias = [], fi_IsTag = False, fi_IsRole = False, fi_Numeric = False, fi_Boolean = False, fi_Nullable = False,
     fi_tagAlias = [], fi_name = []\<rparr>"

type_synonym field_map = "(string \<times> FieldInfo) list"

definition fieldMap :: field_map where
  "fieldMap =
     [
      (''title'', plain_field),
      (''album'', plain_field\<lparr>fi_Nullable := True\<rparr>),
      (''hascoverart'', plain_field\<lparr>fi_Boolean := True\<rparr>),
      (''tracknumber'', plain_field),
      (''discnumber'', plain_field),
      (''year'', plain_field),
      (''date'', plain_field\<lparr>fi_tagAlias := ''recordingdate''\<rparr>),
      (''originalyear'', plain_field),
      (''originaldate'', plain_field),
      (''releaseyear'', plain_field),
      (''releasedate'', plain_field),
      (''size'', plain_field),
      (''compilation'', plain_field\<lparr>fi_Boolean := True\<rparr>),
      (''missing'', plain_field\<lparr>fi_Boolean := True\<rparr>),
      (''explicitstatus'', plain_field\<lparr>fi_Nullable := True\<rparr>),
      (''dateadded'', plain_field),
      (''datemodified'', plain_field),
      (''discsubtitle'', plain_field\<lparr>fi_Nullable := True\<rparr>),
      (''comment'', plain_field\<lparr>fi_Nullable := True\<rparr>),
      (''lyrics'', plain_field\<lparr>fi_Nullable := True\<rparr>),
      (''sorttitle'', plain_field\<lparr>fi_Nullable := True\<rparr>),
      (''sortalbum'', plain_field\<lparr>fi_Nullable := True\<rparr>),
      (''sortartist'', plain_field\<lparr>fi_Nullable := True\<rparr>),
      (''sortalbumartist'', plain_field\<lparr>fi_Nullable := True\<rparr>),
      (''albumcomment'', plain_field\<lparr>fi_Nullable := True\<rparr>),
      (''catalognumber'', plain_field\<lparr>fi_Nullable := True\<rparr>),
      (''filepath'', plain_field),
      (''filetype'', plain_field),
      (''codec'', plain_field),
      (''duration'', plain_field),
      (''bitrate'', plain_field),
      (''bitdepth'', plain_field\<lparr>fi_Numeric := True, fi_Nullable := True\<rparr>),
      (''samplerate'', plain_field),
      (''bpm'', plain_field\<lparr>fi_Numeric := True, fi_Nullable := True\<rparr>),
      (''channels'', plain_field),
      (''loved'', plain_field\<lparr>fi_Boolean := True\<rparr>),
      (''dateloved'', plain_field),
      (''lastplayed'', plain_field),
      (''daterated'', plain_field),
      (''playcount'', plain_field),
      (''rating'', plain_field),
      (''averagerating'', plain_field\<lparr>fi_Numeric := True\<rparr>),
      (''albumrating'', plain_field),
      (''albumloved'', plain_field\<lparr>fi_Boolean := True\<rparr>),
      (''albumplaycount'', plain_field),
      (''albumlastplayed'', plain_field),
      (''albumdateloved'', plain_field),
      (''albumdaterated'', plain_field),
      (''albumdateadded'', plain_field),
      (''albumdatemodified'', plain_field),
      (''albumduration'', plain_field),
      (''albumsongcount'', plain_field),
      (''albumsize'', plain_field),
      (''artistrating'', plain_field),
      (''artistloved'', plain_field\<lparr>fi_Boolean := True\<rparr>),
      (''artistplaycount'', plain_field),
      (''artistlastplayed'', plain_field),
      (''artistdateloved'', plain_field),
      (''artistdaterated'', plain_field),
      (''mbz_album_id'', plain_field\<lparr>fi_Nullable := True\<rparr>),
      (''mbz_album_artist_id'', plain_field\<lparr>fi_Nullable := True\<rparr>),
      (''mbz_artist_id'', plain_field\<lparr>fi_Nullable := True\<rparr>),
      (''mbz_recording_id'', plain_field\<lparr>fi_Nullable := True\<rparr>),
      (''mbz_release_track_id'', plain_field\<lparr>fi_Nullable := True\<rparr>),
      (''mbz_release_group_id'', plain_field\<lparr>fi_Nullable := True\<rparr>),
      (''rgalbumgain'', plain_field\<lparr>fi_Numeric := True, fi_Nullable := True\<rparr>),
      (''rgalbumpeak'', plain_field\<lparr>fi_Numeric := True, fi_Nullable := True\<rparr>),
      (''rgtrackgain'', plain_field\<lparr>fi_Numeric := True, fi_Nullable := True\<rparr>),
      (''rgtrackpeak'', plain_field\<lparr>fi_Numeric := True, fi_Nullable := True\<rparr>),
      (''library_id'', plain_field\<lparr>fi_Numeric := True\<rparr>),
      (''albumtype'', plain_field\<lparr>fi_Alias := ''releasetype'', fi_IsTag := True\<rparr>),
      (''replaygain_album_gain'', plain_field\<lparr>fi_Alias := ''rgalbumgain'', fi_Numeric := True, fi_Nullable := True\<rparr>),
      (''replaygain_album_peak'', plain_field\<lparr>fi_Alias := ''rgalbumpeak'', fi_Numeric := True, fi_Nullable := True\<rparr>),
      (''replaygain_track_gain'', plain_field\<lparr>fi_Alias := ''rgtrackgain'', fi_Numeric := True, fi_Nullable := True\<rparr>),
      (''replaygain_track_peak'', plain_field\<lparr>fi_Alias := ''rgtrackpeak'', fi_Numeric := True, fi_Nullable := True\<rparr>),
      (''random'', plain_field)
     ]"

definition LookupField :: "field_map \<Rightarrow> string \<Rightarrow> FieldInfo option" where
  "LookupField fm name =
     map_option (\<lambda>f. f\<lparr>fi_name := (if fi_Alias f \<noteq> [] then fi_Alias f else to_lower name)\<rparr>) (map_of fm (to_lower name))"

definition AddRoles :: "string list \<Rightarrow> field_map \<Rightarrow> field_map" where
  "AddRoles = fold (\<lambda>role fm. let name = to_lower role in
     if map_of fm name \<noteq> None then fm else (name, plain_field\<lparr>fi_IsRole := True\<rparr>) # fm)"

definition AddTagNames :: "string list \<Rightarrow> field_map \<Rightarrow> field_map" where
  "AddTagNames = fold (\<lambda>tag fm. let name = to_lower tag in
     if map_of fm name \<noteq> None then fm
     else (case find (\<lambda>(_, f). fi_tagAlias f = name) fm of
             Some (key, f) \<Rightarrow> (name, f\<lparr>fi_Alias := key, fi_tagAlias := []\<rparr>) # fm
           | None \<Rightarrow> (name, plain_field\<lparr>fi_IsTag := True\<rparr>) # fm))"

definition AddNumericTags :: "string list \<Rightarrow> field_map \<Rightarrow> field_map" where
  "AddNumericTags = fold (\<lambda>tag fm. let name = to_lower tag in
     (case map_of fm name of
        Some f \<Rightarrow> (name, f\<lparr>fi_Numeric := True\<rparr>) # fm
      | None \<Rightarrow> (name, plain_field\<lparr>fi_IsTag := True, fi_Numeric := True\<rparr>) # fm))"

subsection \<open>Limits\<close>

definition EffectiveLimit :: "int \<Rightarrow> criteria_rules \<Rightarrow> int" where
  "EffectiveLimit totalCount c =
     (if cx_Limit c > 0 then cx_Limit c
      else if cx_LimitPercent c > 0 \<and> cx_LimitPercent c \<le> 100 then
        if totalCount \<le> 0 then 0
        else let result = go_div (totalCount * cx_LimitPercent c) 100 in if result < 1 then 1 else result
      else 0)"

definition IsPercentageLimit :: "criteria_rules \<Rightarrow> bool" where
  "IsPercentageLimit c \<longleftrightarrow> cx_Limit c = 0 \<and> cx_LimitPercent c > 0 \<and> cx_LimitPercent c \<le> 100"

definition ResolveLimit :: "int \<Rightarrow> criteria_rules \<Rightarrow> criteria_rules" where
  "ResolveLimit totalCount c = (if \<not> IsPercentageLimit c then c else c\<lparr>cx_Limit := EffectiveLimit totalCount c\<rparr>)"

text \<open>A percentage of some tracks is at least one of them and at most all.\<close>

lemma EffectiveLimit_percent:
  assumes "IsPercentageLimit c" "0 < totalCount"
  shows "1 \<le> EffectiveLimit totalCount c" "EffectiveLimit totalCount c \<le> totalCount"
proof -
  have p: "0 < cx_LimitPercent c" "cx_LimitPercent c \<le> 100" "cx_Limit c = 0"
    using assms(1) by (simp_all add: IsPercentageLimit_def)
  have "go_div (totalCount * cx_LimitPercent c) 100 = totalCount * cx_LimitPercent c div 100"
    using p assms(2) by (intro go_div_nonneg) simp_all
  moreover have "totalCount * cx_LimitPercent c div 100 \<le> totalCount * 100 div 100"
    using p(2) assms(2) by (intro zdiv_mono1 mult_left_mono) simp_all
  ultimately show "1 \<le> EffectiveLimit totalCount c" "EffectiveLimit totalCount c \<le> totalCount"
    using p assms(2) by (simp_all add: EffectiveLimit_def Let_def)
qed

lemma fold_keeps_entry:
  "(\<And>x m. map_of m name = Some f \<Longrightarrow> map_of (g x m) name = Some f) \<Longrightarrow> map_of fm name = Some f \<Longrightarrow>
     map_of (fold g xs fm) name = Some f"
  by (induction xs arbitrary: fm) simp_all

lemma AddTagNames_keeps: "map_of fm name = Some f \<Longrightarrow> map_of (AddTagNames tags fm) name = Some f"
  unfolding AddTagNames_def by (rule fold_keeps_entry) (auto simp: Let_def split: option.splits)

lemma AddRoles_keeps: "map_of fm name = Some f \<Longrightarrow> map_of (AddRoles roles fm) name = Some f"
  unfolding AddRoles_def by (rule fold_keeps_entry) (auto simp: Let_def)

subsection \<open>Playlists in the rules\<close>

fun extractPlaylistIds :: "Expression \<Rightarrow> string list" where
  "extractPlaylistIds (AnyOf rules) = concat (map extractPlaylistIds rules)"
| "extractPlaylistIds (AllOf rules) = concat (map extractPlaylistIds rules)"
| "extractPlaylistIds (Rule op m) =
     (if op = RuleInPlaylist \<or> op = RuleNotInPlaylist
      then (case map_of m ''id'' of Some (JStr i) \<Rightarrow> [i] | _ \<Rightarrow> []) else [])"

definition ChildPlaylistIds :: "criteria_rules \<Rightarrow> string list" where
  "ChildPlaylistIds c =
     (case cx_Expression c of
        Some (AllOf es) \<Rightarrow> remdups_adj (sort (extractPlaylistIds (AllOf es)))
      | Some (AnyOf es) \<Rightarrow> remdups_adj (sort (extractPlaylistIds (AnyOf es)))
      | _ \<Rightarrow> [])"

subsection \<open>Sorting\<close>

record SortField =
  so_Field :: string
  so_Desc :: bool

definition sort_part :: "field_map \<Rightarrow> string \<Rightarrow> string \<Rightarrow> SortField option" where
  "sort_part fm order part0 =
     (let part = trim_space part0
      in if part = [] then None
         else
           let signed = has_prefix part ''+'' \<or> has_prefix part ''-'';
               desc = has_prefix part ''-'';
               name = (if signed then trim_space (tl part) else part)
           in case LookupField fm name of
                None \<Rightarrow> None
              | Some info \<Rightarrow> Some \<lparr>so_Field = fi_name info, so_Desc = (if order = ''desc'' then \<not> desc else desc)\<rparr>)"

definition OrderByFields :: "field_map \<Rightarrow> criteria_rules \<Rightarrow> SortField list" where
  "OrderByFields fm c =
     (let sortValue = (if cx_Sort c = [] then ''title'' else cx_Sort c);
          order0 = to_lower (trim_space (cx_Order c));
          order = (if order0 \<noteq> [] \<and> order0 \<noteq> ''asc'' \<and> order0 \<noteq> ''desc'' then [] else order0);
          sortFields = List.map_filter (sort_part fm order) (split_on CHR '','' sortValue)
      in if sortFields = [] then [\<lparr>so_Field = ''title'', so_Desc = False\<rparr>] else sortFields)"

subsection \<open>Reading and writing JSON\<close>

text \<open>\<open>strconv.ParseBool\<close>.\<close>

definition parse_bool :: "string \<Rightarrow> bool option" where
  "parse_bool s =
     (if s \<in> {''1'', ''t'', ''T'', ''TRUE'', ''true'', ''True''} then Some True
      else if s \<in> {''0'', ''f'', ''F'', ''FALSE'', ''false'', ''False''} then Some False else None)"

fun ToBool :: "json \<Rightarrow> bool option" where
  "ToBool (JBool b) = Some b"
| "ToBool (JStr s) = parse_bool s"
| "ToBool (JNum n) = (if n = 1 then Some True else if n = 0 then Some False else None)"
| "ToBool v = None"

definition normalizeBoolValue :: "json \<Rightarrow> json" where
  "normalizeBoolValue v = (case ToBool v of Some b \<Rightarrow> JBool b | None \<Rightarrow> v)"

definition normalizeBoolFields :: "field_map \<Rightarrow> (string \<times> json) list \<Rightarrow> (string \<times> json) list" where
  "normalizeBoolFields fm m =
     map (\<lambda>(f, v). (f, case LookupField fm f of Some info \<Rightarrow> if fi_Boolean info then normalizeBoolValue v else v | None \<Rightarrow> v)) m"

definition normalizeAllBoolFields :: "(string \<times> json) list \<Rightarrow> (string \<times> json) list" where
  "normalizeAllBoolFields m = map (\<lambda>(f, v). (f, normalizeBoolValue v)) m"

fun rule_name :: "rule_op \<Rightarrow> string" where
  "rule_name RuleIs = ''is''"
| "rule_name RuleIsNot = ''isNot''"
| "rule_name RuleGt = ''gt''"
| "rule_name RuleLt = ''lt''"
| "rule_name RuleBefore = ''before''"
| "rule_name RuleAfter = ''after''"
| "rule_name RuleContains = ''contains''"
| "rule_name RuleNotContains = ''notContains''"
| "rule_name RuleStartsWith = ''startsWith''"
| "rule_name RuleEndsWith = ''endsWith''"
| "rule_name RuleInTheRange = ''inTheRange''"
| "rule_name RuleInTheLast = ''inTheLast''"
| "rule_name RuleNotInTheLast = ''notInTheLast''"
| "rule_name RuleInPlaylist = ''inPlaylist''"
| "rule_name RuleNotInPlaylist = ''notInPlaylist''"
| "rule_name RuleIsMissing = ''isMissing''"
| "rule_name RuleIsPresent = ''isPresent''"

definition all_rule_ops :: "rule_op list" where
  "all_rule_ops = [RuleIs, RuleIsNot, RuleGt, RuleLt, RuleBefore, RuleAfter, RuleContains, RuleNotContains, RuleStartsWith, RuleEndsWith,
     RuleInTheRange, RuleInTheLast, RuleNotInTheLast, RuleInPlaylist, RuleNotInPlaylist, RuleIsMissing, RuleIsPresent]"

text \<open>
  The map a JSON value decodes to: an object, or \<open>null\<close>, which gives no entries. In a map the last value of a key stays.
\<close>

definition last_wins :: "(string \<times> json) list \<Rightarrow> (string \<times> json) list" where
  "last_wins m = foldr (\<lambda>kv acc. if fst kv \<in> fst ` set acc then acc else kv # acc) m []"

lemma last_wins_simps [simp]:
  "last_wins [] = []"
  "last_wins (kv # m) = (if fst kv \<in> fst ` set (last_wins m) then last_wins m else kv # last_wins m)"
  by (simp_all add: last_wins_def)

lemma last_wins_size: "size_list f (last_wins m) \<le> size_list f m"
  by (induction m) auto

fun json_map :: "json \<Rightarrow> (string \<times> json) list option" where
  "json_map (JObj m) = Some m"
| "json_map JNull = Some []"
| "json_map v = None"

definition unmarshalExpression :: "field_map \<Rightarrow> string \<Rightarrow> json \<Rightarrow> Expression option" where
  "unmarshalExpression fm opName rawValue =
     (case json_map rawValue of
        None \<Rightarrow> None
      | Some m0 \<Rightarrow>
          let m = normalizeBoolFields fm (last_wins m0)
          in case find (\<lambda>op. to_lower (rule_name op) = opName) all_rule_ops of
               None \<Rightarrow> None
             | Some op \<Rightarrow>
                 Some (Rule op (if op = RuleIsMissing \<or> op = RuleIsPresent then normalizeAllBoolFields m else m)))"

text \<open>The elements of a list of rules: objects whose keys are the names of operators and groups.\<close>

definition unmarshalConjunction :: "string \<Rightarrow> Expression list option \<Rightarrow> Expression option" where
  "unmarshalConjunction k items =
     (case items of
        None \<Rightarrow> None
      | Some es \<Rightarrow> if k = ''any'' then Some (AnyOf es) else if k = ''all'' then Some (AllOf es) else None)"

definition unmarshalEntry :: "field_map \<Rightarrow> string \<Rightarrow> json \<Rightarrow> Expression list option \<Rightarrow> Expression option" where
  "unmarshalEntry fm k v items =
     (case unmarshalExpression fm k v of Some e \<Rightarrow> Some e | None \<Rightarrow> unmarshalConjunction k items)"

text \<open>Both results, or the error of either.\<close>

definition both :: "('a \<Rightarrow> 'b \<Rightarrow> 'c) \<Rightarrow> 'a option \<Rightarrow> 'b option \<Rightarrow> 'c option" where
  "both f a b = (case (a, b) of (Some x, Some y) \<Rightarrow> Some (f x y) | _ \<Rightarrow> None)"

lemma both_simps [simp]: "both f (Some x) (Some y) = Some (f x y)" "both f None b = None" "both f a None = None"
  by (simp_all add: both_def split: option.splits)

lemma both_Some: "both f a b = Some z \<longleftrightarrow> (\<exists>x y. a = Some x \<and> b = Some y \<and> z = f x y)"
  by (auto simp: both_def split: option.splits)

function unmarshalRules :: "field_map \<Rightarrow> json \<Rightarrow> Expression list option"
and unmarshalElements :: "field_map \<Rightarrow> json list \<Rightarrow> Expression list option"
and unmarshalEntries :: "field_map \<Rightarrow> (string \<times> json) list \<Rightarrow> Expression list option" where
  "unmarshalRules fm v =
     (case v of
        JNull \<Rightarrow> Some []
      | JArr items \<Rightarrow> unmarshalElements fm items
      | _ \<Rightarrow> None)"
| "unmarshalElements fm [] = Some []"
| "unmarshalElements fm (v # vs) =
     both (@) (case v of JNull \<Rightarrow> Some [] | JObj m \<Rightarrow> unmarshalEntries fm (last_wins m) | _ \<Rightarrow> None) (unmarshalElements fm vs)"
| "unmarshalEntries fm [] = Some []"
| "unmarshalEntries fm ((k0, v) # m) =
     both (#) (unmarshalEntry fm (to_lower k0) v (unmarshalRules fm v)) (unmarshalEntries fm m)"
  by pat_completeness auto
termination
  by (relation "measure (\<lambda>x. case x of Inl (fm, v) \<Rightarrow> size v | Inr (Inl (fm, vs)) \<Rightarrow> size_list size vs
        | Inr (Inr (fm, m)) \<Rightarrow> size_list (size_prod (\<lambda>_. 0) size) m)")
    (simp_all add: last_wins_size less_Suc_eq_le le_SucI trans_le_add1)

text \<open>
  Writing an expression. The text of a rule has the name of its field as it is, between quotes; the rule is not written if
  that is no JSON (\<open>json.Marshal\<close> checks what \<open>MarshalJSON\<close> returns). \<open>omitempty\<close> leaves an empty group out.
\<close>

definition rule_text :: "string \<Rightarrow> string \<Rightarrow> json \<Rightarrow> piece list" where
  "rule_text name f v =
     map Ch (CHR ''{'' # quote_char # name @ [quote_char, CHR '':'', CHR ''{''])
     @ map Ch (quote_char # f @ [quote_char, CHR '':'']) @ [Val v] @ map Ch ''}}''"

definition marshalExpression :: "string \<Rightarrow> (string \<times> json) list \<Rightarrow> json option" where
  "marshalExpression name value =
     (case value of
        [(f, v)] \<Rightarrow> read_json (rule_text name f v)
      | _ \<Rightarrow> None)"

fun marshalExpr :: "Expression \<Rightarrow> json option"
and marshalExprs :: "Expression list \<Rightarrow> json list option" where
  "marshalExpr (Rule op m) = marshalExpression (rule_name op) m"
| "marshalExpr (AllOf es) = map_option (\<lambda>js. JObj (if es = [] then [] else [(''all'', JArr js)])) (marshalExprs es)"
| "marshalExpr (AnyOf es) = map_option (\<lambda>js. JObj (if es = [] then [] else [(''any'', JArr js)])) (marshalExprs es)"
| "marshalExprs [] = Some []"
| "marshalExprs (e # es) = (case (marshalExpr e, marshalExprs es) of (Some j, Some js) \<Rightarrow> Some (j # js) | _ \<Rightarrow> None)"

text \<open>A document of criteria. \<open>MarshalJSON\<close> leaves out what is empty.\<close>

definition doc_int :: "string \<Rightarrow> int \<Rightarrow> (string \<times> json) list" where
  "doc_int key n = (if n = 0 then [] else [(key, JNum (of_int n))])"

definition doc_string :: "string \<Rightarrow> string \<Rightarrow> (string \<times> json) list" where
  "doc_string key s = (if s = [] then [] else [(key, JStr s)])"

definition doc_group :: "string \<Rightarrow> json list \<Rightarrow> (string \<times> json) list" where
  "doc_group key js = (if js = [] then [] else [(key, JArr js)])"

definition MarshalJSON_groups :: "Expression option \<Rightarrow> (string \<times> json) list option" where
  "MarshalJSON_groups e =
     (case e of
        Some (AnyOf es) \<Rightarrow> map_option (doc_group ''any'') (marshalExprs es)
      | Some (AllOf es) \<Rightarrow> map_option (doc_group ''all'') (marshalExprs es)
      | Some rule \<Rightarrow> map_option (doc_group ''all'') (marshalExprs [rule])
      | None \<Rightarrow> Some (doc_group ''all'' [JNull]))"

definition MarshalJSON :: "criteria_rules \<Rightarrow> json option" where
  "MarshalJSON c =
     map_option (\<lambda>groups. JObj
       (groups
        @ doc_string ''sort'' (cx_Sort c)
        @ doc_string ''order'' (cx_Order c)
        @ doc_int ''limit'' (cx_Limit c)
        @ doc_int ''limitPercent'' (cx_LimitPercent c)
        @ doc_int ''offset'' (cx_Offset c)
        @ doc_string ''refreshDelay'' (if cx_RefreshDelay c > 0 then FormatDuration (cx_RefreshDelay c) else [])))
       (MarshalJSON_groups (cx_Expression c))"

text \<open>The member of an object that decodes into a field: \<open>encoding/json\<close> ignores case, and the last of several wins.\<close>

definition json_member :: "(string \<times> json) list \<Rightarrow> string \<Rightarrow> json option" where
  "json_member m key = map_option snd (find (\<lambda>(k, _). equal_fold k key) (rev m))"

definition member_string :: "(string \<times> json) list \<Rightarrow> string \<Rightarrow> string option" where
  "member_string m key =
     (case json_member m key of
        None \<Rightarrow> Some []
      | Some JNull \<Rightarrow> Some []
      | Some (JStr s) \<Rightarrow> Some s
      | _ \<Rightarrow> None)"

definition member_int :: "(string \<times> json) list \<Rightarrow> string \<Rightarrow> int option" where
  "member_int m key =
     (case json_member m key of
        None \<Rightarrow> Some 0
      | Some JNull \<Rightarrow> Some 0
      | Some (JNum r) \<Rightarrow> if r = of_int \<lfloor>r\<rfloor> \<and> in_int64 \<lfloor>r\<rfloor> then Some \<lfloor>r\<rfloor> else None
      | _ \<Rightarrow> None)"

definition member_rules :: "field_map \<Rightarrow> (string \<times> json) list \<Rightarrow> string \<Rightarrow> (bool \<times> Expression list) option" where
  "member_rules fm m key =
     (case json_member m key of
        None \<Rightarrow> Some (False, [])
      | Some v \<Rightarrow> map_option (Pair True) (unmarshalRules fm v))"

definition clamp_percent :: "int \<Rightarrow> int" where
  "clamp_percent n = (if n < 0 then 0 else if n > 100 then 100 else n)"

definition UnmarshalJSON_fields ::
    "(string \<times> json) list \<Rightarrow> criteria_rules \<Rightarrow> Expression \<Rightarrow> criteria_rules option" where
  "UnmarshalJSON_fields m c e =
     (case (member_string m ''sort'', member_string m ''order'', member_int m ''limit'', member_int m ''limitPercent'',
            member_int m ''offset'', member_string m ''refreshDelay'') of
        (Some sorting, Some order, Some limit, Some percent, Some offset, Some delay) \<Rightarrow>
          (case (if delay = [] then Some (cx_RefreshDelay c) else ParseDuration delay) of
             None \<Rightarrow> None
           | Some d \<Rightarrow>
               Some (c\<lparr>cx_Expression := Some e, cx_Sort := sorting, cx_Order := order, cx_Limit := limit, cx_Offset := offset,
                 cx_RefreshDelay := d, cx_LimitPercent := clamp_percent percent\<rparr>))
      | _ \<Rightarrow> None)"

definition UnmarshalJSON :: "field_map \<Rightarrow> criteria_rules \<Rightarrow> json \<Rightarrow> criteria_rules option" where
  "UnmarshalJSON fm c doc =
     (case json_map doc of
        None \<Rightarrow> None
      | Some m \<Rightarrow>
          (case (member_rules fm m ''all'', member_rules fm m ''any'') of
             (Some (allPresent, alls), Some (anyPresent, anys)) \<Rightarrow>
               if allPresent \<and> anyPresent then None
               else if anys \<noteq> [] then UnmarshalJSON_fields m c (AnyOf anys)
               else if alls \<noteq> [] then UnmarshalJSON_fields m c (AllOf alls)
               else None
           | _ \<Rightarrow> None))"

definition no_criteria :: criteria_rules where
  "no_criteria = \<lparr>cx_Expression = None, cx_Sort = [], cx_Order = [], cx_Limit = 0, cx_LimitPercent = 0, cx_Offset = 0,
     cx_RefreshDelay = 0\<rparr>"

subsection \<open>What was read is normalised, and reads back\<close>

fun normal_rule :: "field_map \<Rightarrow> Expression \<Rightarrow> bool" where
  "normal_rule fm (AllOf es) = list_all (normal_rule fm) es"
| "normal_rule fm (AnyOf es) = list_all (normal_rule fm) es"
| "normal_rule fm (Rule op m) =
     (normalizeBoolFields fm m = m \<and> (op = RuleIsMissing \<or> op = RuleIsPresent \<longrightarrow> normalizeAllBoolFields m = m))"

fun groups_filled :: "Expression \<Rightarrow> bool" where
  "groups_filled (AllOf es) = (es \<noteq> [] \<and> list_all groups_filled es)"
| "groups_filled (AnyOf es) = (es \<noteq> [] \<and> list_all groups_filled es)"
| "groups_filled (Rule op m) = True"

text \<open>Every rule is about one field, whose name needs no escapes.\<close>

fun plain_rules :: "Expression \<Rightarrow> bool" where
  "plain_rules (AllOf es) = list_all plain_rules es"
| "plain_rules (AnyOf es) = list_all plain_rules es"
| "plain_rules (Rule op m) = (length m = 1 \<and> list_all (\<lambda>(f, _). unescaped f) m)"

lemma normalizeBoolValue_idem [simp]: "normalizeBoolValue (normalizeBoolValue v) = normalizeBoolValue v"
  by (simp add: normalizeBoolValue_def split: option.splits)

lemma normalizeBoolFields_idem [simp]: "normalizeBoolFields fm (normalizeBoolFields fm m) = normalizeBoolFields fm m"
  by (auto simp: normalizeBoolFields_def split: option.splits)

lemma normalizeAllBoolFields_idem [simp]: "normalizeAllBoolFields (normalizeAllBoolFields m) = normalizeAllBoolFields m"
  by (auto simp: normalizeAllBoolFields_def)

lemma normalizeBoolFields_all [simp]:
  "normalizeBoolFields fm (normalizeAllBoolFields (normalizeBoolFields fm m)) = normalizeAllBoolFields (normalizeBoolFields fm m)"
  by (auto simp: normalizeBoolFields_def normalizeAllBoolFields_def split: option.splits)

lemma unmarshalExpression_normal: "unmarshalExpression fm k v = Some e \<Longrightarrow> normal_rule fm e"
  by (auto simp: unmarshalExpression_def Let_def split: option.splits)

declare unmarshalRules.simps [simp del]

lemma unmarshalEntry_normal:
  "unmarshalEntry fm k v items = Some e \<Longrightarrow> (\<And>es. items = Some es \<Longrightarrow> list_all (normal_rule fm) es) \<Longrightarrow> normal_rule fm e"
  by (auto simp: unmarshalEntry_def unmarshalConjunction_def unmarshalExpression_normal split: option.splits if_splits)

lemma unmarshal_normal:
  "unmarshalRules fm v = Some es \<Longrightarrow> list_all (normal_rule fm) es"
  "unmarshalElements fm vs = Some es \<Longrightarrow> list_all (normal_rule fm) es"
  "unmarshalEntries fm m = Some es \<Longrightarrow> list_all (normal_rule fm) es"
proof (induction fm v and fm vs and fm m arbitrary: es and es and es
    rule: unmarshalRules_unmarshalElements_unmarshalEntries.induct)
  case (1 fm v)
  then show ?case by (simp add: unmarshalRules.simps [of fm v] split: json.splits)
next
  case (3 fm v vs)
  then show ?case by (auto simp: both_Some split: json.splits)
next
  case (5 fm k0 v m)
  then show ?case by (auto simp: both_Some elim!: unmarshalEntry_normal)
qed simp_all

lemma unmarshalExpression_rule:
  assumes "normal_rule fm (Rule op m)" "last_wins m = m"
  shows "unmarshalExpression fm (to_lower (rule_name op)) (JObj m) = Some (Rule op m)"
proof -
  have "find (\<lambda>op'. to_lower (rule_name op') = to_lower (rule_name op)) all_rule_ops = Some op"
    by (cases op) (simp_all add: all_rule_ops_def to_lower_def lower_byte_def)
  with assms show ?thesis by (auto simp: unmarshalExpression_def Let_def)
qed

lemma unmarshalEntry_group:
  "unmarshalEntry fm ''all'' (JArr js) items = unmarshalConjunction ''all'' items"
  "unmarshalEntry fm ''any'' (JArr js) items = unmarshalConjunction ''any'' items"
  by (simp_all add: unmarshalEntry_def unmarshalExpression_def)

lemma to_lower_groups [simp]: "to_lower ''all'' = ''all''" "to_lower ''any'' = ''any''"
  by (simp_all add: to_lower_def lower_byte_def)

lemma marshalExprs_Nil: "marshalExprs es = Some js \<Longrightarrow> js = [] \<longleftrightarrow> es = []"
  by (cases es) (auto split: option.splits)

lemma marks [simp]:
  "mark CHR ''{'' = Some TOpen" "mark CHR ''}'' = Some TClose" "mark CHR '':'' = Some TColon"
  by (simp_all add: mark_def)

lemma unescaped_rule_name: "unescaped (rule_name op)"
  by (cases op) (simp_all add: unescaped_def quote_char_def escape_char_def)

text \<open>The text of a rule on a plain name reads as the rule.\<close>

lemma read_rule_text:
  assumes "unescaped name" "unescaped f"
  shows "read_json (rule_text name f v) = Some (JObj [(name, JObj [(f, v)])])"
proof -
  have "json_tokens (rule_text name f v) = Some [TOpen, TStr name, TColon, TOpen, TStr f, TColon, TVal v, TClose, TClose]"
    using assms by (simp add: rule_text_def json_tokens_mark json_tokens_string del: json_tokens.simps(3))
  then show ?thesis by (simp add: read_json_def)
qed

lemma marshalExpression_plain:
  assumes "marshalExpression (rule_name op) m = Some j" "list_all (\<lambda>(f, _). unescaped f) m"
  shows "j = JObj [(rule_name op, JObj m)] \<and> last_wins m = m"
  using assms by (auto simp: marshalExpression_def read_rule_text unescaped_rule_name split: list.splits)

lemma marshal_unmarshal:
  "normal_rule fm e \<Longrightarrow> groups_filled e \<Longrightarrow> plain_rules e \<Longrightarrow> marshalExpr e = Some j \<Longrightarrow>
     \<exists>kv. j = JObj [kv] \<and> unmarshalEntries fm [kv] = Some [e]"
  "list_all (normal_rule fm) es \<Longrightarrow> list_all groups_filled es \<Longrightarrow> list_all plain_rules es \<Longrightarrow> marshalExprs es = Some js \<Longrightarrow>
     unmarshalElements fm js = Some es"
proof (induction e and es arbitrary: j and js rule: marshalExpr_marshalExprs.induct)
  case (1 op m)
  then have "j = JObj [(rule_name op, JObj m)]" "last_wins m = m"
    using marshalExpression_plain [of op m j] by simp_all
  with 1(1) show ?case
    by (auto simp: unmarshalEntry_def unmarshalExpression_rule simp del: normal_rule.simps)
next
  case (2 es)
  then show ?case
    by (auto simp: unmarshalEntry_group unmarshalConjunction_def unmarshalRules.simps)
next
  case (3 es)
  then show ?case
    by (auto simp: unmarshalEntry_group unmarshalConjunction_def unmarshalRules.simps)
next
  case (5 e es)
  then show ?case
    by (auto split: option.splits)
qed simp

lemma marshal_total:
  "plain_rules e \<Longrightarrow> \<exists>j. marshalExpr e = Some j"
  "list_all plain_rules es \<Longrightarrow> \<exists>js. marshalExprs es = Some js"
proof (induction e and es rule: marshalExpr_marshalExprs.induct)
  case (1 op m)
  then show ?case
    by (cases m) (auto simp: marshalExpression_def read_rule_text unescaped_rule_name)
qed auto

text \<open>The members of a written document.\<close>

lemma find_append: "find P (xs @ ys) = (case find P xs of None \<Rightarrow> find P ys | Some x \<Rightarrow> Some x)"
  by (induction xs) auto

lemma json_member_append:
  "json_member (xs @ ys) key = (case json_member ys key of None \<Rightarrow> json_member xs key | Some v \<Rightarrow> Some v)"
  by (auto simp: json_member_def find_append split: option.splits)

lemma json_member_doc:
  "json_member (doc_int k n) key = (if n \<noteq> 0 \<and> equal_fold k key then Some (JNum (of_int n)) else None)"
  "json_member (doc_string k t) key = (if t \<noteq> [] \<and> equal_fold k key then Some (JStr t) else None)"
  "json_member (doc_group k js) key = (if js \<noteq> [] \<and> equal_fold k key then Some (JArr js) else None)"
  by (simp_all add: json_member_def doc_int_def doc_string_def doc_group_def)

lemma ParseDuration_range: "ParseDuration s = Some d \<Longrightarrow> 0 \<le> d \<and> in_int64 d"
  by (auto simp: ParseDuration_def time_ParseDuration_def Let_def in_int64_def split: option.splits if_splits)

text \<open>What criteria that were read look like.\<close>

definition readable :: "field_map \<Rightarrow> criteria_rules \<Rightarrow> bool" where
  "readable fm c \<longleftrightarrow>
     (\<exists>es. es \<noteq> [] \<and> list_all (normal_rule fm) es \<and> (cx_Expression c = Some (AllOf es) \<or> cx_Expression c = Some (AnyOf es)))
     \<and> in_int64 (cx_Limit c) \<and> in_int64 (cx_Offset c) \<and> 0 \<le> cx_LimitPercent c \<and> cx_LimitPercent c \<le> 100
     \<and> 0 \<le> cx_RefreshDelay c \<and> in_int64 (cx_RefreshDelay c)"

lemma member_int_range: "member_int m key = Some n \<Longrightarrow> in_int64 n"
  by (auto simp: member_int_def in_int64_def split: option.splits json.splits if_splits)

lemma UnmarshalJSON_fields_readable:
  assumes "UnmarshalJSON_fields m no_criteria e = Some c" "e = AllOf es \<or> e = AnyOf es" "es \<noteq> []" "list_all (normal_rule fm) es"
  shows "readable fm c"
proof -
  have "0 \<le> cx_RefreshDelay c \<and> in_int64 (cx_RefreshDelay c)"
    using assms(1) by (auto simp: UnmarshalJSON_fields_def no_criteria_def in_int64_def dest: ParseDuration_range
        split: option.splits if_splits)
  with assms show ?thesis
    by (auto simp: UnmarshalJSON_fields_def readable_def clamp_percent_def dest: member_int_range
        split: option.splits if_splits)
qed

lemma UnmarshalJSON_readable:
  assumes "UnmarshalJSON fm no_criteria doc = Some c"
  shows "readable fm c"
proof -
  obtain m es e key v where "unmarshalRules fm v = Some es" "es \<noteq> []" "e = AllOf es \<or> e = AnyOf es"
      "UnmarshalJSON_fields m no_criteria e = Some c"
    using assms by (fastforce simp: UnmarshalJSON_def member_rules_def split: option.splits if_splits)
  then show ?thesis
    using UnmarshalJSON_fields_readable unmarshal_normal(1) by blast
qed

text \<open>The scalar members read back from what was written.\<close>

lemma readable_fields:
  assumes "readable fm c" "cx_Expression c = Some e" "m = doc_group g js
      @ doc_string ''sort'' (cx_Sort c) @ doc_string ''order'' (cx_Order c) @ doc_int ''limit'' (cx_Limit c)
      @ doc_int ''limitPercent'' (cx_LimitPercent c) @ doc_int ''offset'' (cx_Offset c)
      @ doc_string ''refreshDelay'' (if cx_RefreshDelay c > 0 then FormatDuration (cx_RefreshDelay c) else [])"
    and g: "g \<in> {''all'', ''any''}"
  shows "UnmarshalJSON_fields m no_criteria e = Some c"
    and "member_rules fm m ''all'' = (if g = ''all'' \<and> js \<noteq> [] then map_option (Pair True) (unmarshalElements fm js) else Some (False, []))"
    and "member_rules fm m ''any'' = (if g = ''any'' \<and> js \<noteq> [] then map_option (Pair True) (unmarshalElements fm js) else Some (False, []))"
proof -
  define delay where "delay = (if cx_RefreshDelay c > 0 then FormatDuration (cx_RefreshDelay c) else [])"
  note members = json_member_append json_member_doc equal_fold_def to_lower_def lower_byte_def
  have string_members:
    "json_member m ''sort'' = (if cx_Sort c = [] then None else Some (JStr (cx_Sort c)))"
    "json_member m ''order'' = (if cx_Order c = [] then None else Some (JStr (cx_Order c)))"
    "json_member m ''refreshDelay'' = (if delay = [] then None else Some (JStr delay))"
    using g by (auto simp: assms(3) delay_def [symmetric] members)
  have int_members:
    "json_member m ''limit'' = (if cx_Limit c = 0 then None else Some (JNum (of_int (cx_Limit c))))"
    "json_member m ''limitPercent'' = (if cx_LimitPercent c = 0 then None else Some (JNum (of_int (cx_LimitPercent c))))"
    "json_member m ''offset'' = (if cx_Offset c = 0 then None else Some (JNum (of_int (cx_Offset c))))"
    using g by (auto simp: assms(3) delay_def [symmetric] members)
  have range: "in_int64 (cx_Limit c)" "in_int64 (cx_Offset c)" "0 \<le> cx_LimitPercent c" "cx_LimitPercent c \<le> 100"
    "0 \<le> cx_RefreshDelay c" "in_int64 (cx_RefreshDelay c)"
    using assms(1) by (simp_all add: readable_def)
  then have "member_int m ''limit'' = Some (cx_Limit c)" "member_int m ''offset'' = Some (cx_Offset c)"
    "member_int m ''limitPercent'' = Some (cx_LimitPercent c)"
    by (simp_all add: member_int_def int_members in_int64_def)
  moreover have "member_string m ''sort'' = Some (cx_Sort c)" "member_string m ''order'' = Some (cx_Order c)"
    "member_string m ''refreshDelay'' = Some delay"
    by (simp_all add: member_string_def string_members)
  moreover have "(if delay = [] then Some 0 else ParseDuration delay) = Some (cx_RefreshDelay c)"
  proof (cases "cx_RefreshDelay c > 0")
    case True
    have rt: "ParseDuration (FormatDuration (cx_RefreshDelay c)) = Some (cx_RefreshDelay c)"
      using range by (intro FormatDuration_roundtrip)
    have "ParseDuration [] = None"
      by (simp add: ParseDuration_def expand_day_week.simps match_day_week_def time_ParseDuration_def)
    with rt have "FormatDuration (cx_RefreshDelay c) \<noteq> []" by force
    with rt True show ?thesis by (simp add: delay_def)
  next
    case False
    with range show ?thesis by (simp add: delay_def)
  qed
  ultimately show "UnmarshalJSON_fields m no_criteria e = Some c"
    using range assms(2) by (cases "delay = []") (auto simp: UnmarshalJSON_fields_def no_criteria_def clamp_percent_def intro!: criteria_rules.equality)
  show "member_rules fm m ''all'' = (if g = ''all'' \<and> js \<noteq> [] then map_option (Pair True) (unmarshalElements fm js) else Some (False, []))"
    "member_rules fm m ''any'' = (if g = ''any'' \<and> js \<noteq> [] then map_option (Pair True) (unmarshalElements fm js) else Some (False, []))"
    using g by (auto simp: member_rules_def assms(3) delay_def [symmetric] members unmarshalRules.simps)
qed

subsection \<open>Main property\<close>

text \<open>
  C29: Criteria that were read from a document can be written and read back as the same criteria, if no group inside them is
  empty, every rule is about one field and no name of a field has a quote, a backslash or a control character: names of
  operators in any case, truth values in any of their forms, clamped percentages and refresh delays with days and weeks
  included.
\<close>

theorem criteria_roundtrip:
  assumes "UnmarshalJSON fm no_criteria doc = Some c" "cx_Expression c = Some e" "groups_filled e" "plain_rules e"
  shows "\<exists>doc'. MarshalJSON c = Some doc' \<and> UnmarshalJSON fm no_criteria doc' = Some c"
proof -
  have r: "readable fm c" using UnmarshalJSON_readable [OF assms(1)] .
  with assms(2) obtain es g where es: "es \<noteq> []" "list_all (normal_rule fm) es" "cx_Expression c = Some e"
    and g: "g = ''all'' \<and> e = AllOf es \<or> g = ''any'' \<and> e = AnyOf es"
    unfolding readable_def by auto
  have all: "list_all groups_filled es" "list_all plain_rules es" using assms(2,3,4) es g by auto
  from marshal_total(2) [OF all(2)] obtain js where js: "marshalExprs es = Some js" by blast
  from all have again: "unmarshalElements fm js = Some es"
    using marshal_unmarshal(2) es(2) js by blast
  define m where "m = doc_group g js
      @ doc_string ''sort'' (cx_Sort c) @ doc_string ''order'' (cx_Order c) @ doc_int ''limit'' (cx_Limit c)
      @ doc_int ''limitPercent'' (cx_LimitPercent c) @ doc_int ''offset'' (cx_Offset c)
      @ doc_string ''refreshDelay'' (if cx_RefreshDelay c > 0 then FormatDuration (cx_RefreshDelay c) else [])"
  have doc: "MarshalJSON c = Some (JObj m)"
    using es js g by (auto simp: MarshalJSON_def MarshalJSON_groups_def m_def)
  have "g \<in> {''all'', ''any''}" "js \<noteq> []" using g js es marshalExprs_Nil by auto
  with readable_fields [OF r es(3) m_def] show ?thesis
    using again g es(1) by (auto simp: UnmarshalJSON_def doc)
qed

definition sample_doc :: json where
  "sample_doc = JObj [(''any'', JArr [JObj [(''IS'', JObj [(''loved'', JStr ''true'')])],
       JObj [(''all'', JArr [JObj [(''contains'', JObj [(''title'', JStr ''live'')])],
         JObj [(''inPlaylist'', JObj [(''id'', JStr ''p1'')])]])]]),
     (''Sort'', JStr ''-rating'')]"

definition sample_rules :: Expression where
  "sample_rules = AnyOf [Rule RuleIs [(''loved'', JBool True)],
     AllOf [Rule RuleContains [(''title'', JStr ''live'')], Rule RuleInPlaylist [(''id'', JStr ''p1'')]]]"

definition sample_criteria :: criteria_rules where
  "sample_criteria = no_criteria\<lparr>cx_Expression := Some sample_rules, cx_Sort := ''-rating''\<rparr>"

lemma criteria_roundtrip_witness:
  "UnmarshalJSON fieldMap no_criteria sample_doc = Some sample_criteria
   \<and> Option.bind (MarshalJSON sample_criteria) (UnmarshalJSON fieldMap no_criteria) = Some sample_criteria"
proof -
  have r: "UnmarshalJSON fieldMap no_criteria sample_doc = Some sample_criteria" by code_simp
  have "groups_filled sample_rules" "plain_rules sample_rules" "cx_Expression sample_criteria = Some sample_rules" by code_simp+
  with criteria_roundtrip [OF r] r show ?thesis by auto
qed

text \<open>
  A name is written as it is: one with an escape is another name when it is read back, one with a quote breaks the text,
  or brings a second field into the rule.
\<close>

definition escaped_name :: string where
  "escaped_name = CHR ''a'' # escape_char # ''n''"

definition quoted_name :: string where
  "quoted_name = CHR ''a'' # quote_char # ''b''"

definition two_names :: string where
  "two_names = CHR ''a'' # quote_char # '':1,'' @ quote_char # ''b''"

lemma escaped_name_changes:
  "marshalExpr (Rule RuleIs [(escaped_name, JBool True)])
     = Some (JObj [(''is'', JObj [([CHR ''a'', CHR 0x0A], JBool True)])])"
  by code_simp

lemma quoted_name_refused: "marshalExpr (Rule RuleIs [(quoted_name, JBool True)]) = None"
  by code_simp

lemma quoted_name_adds_field:
  "marshalExpr (Rule RuleIs [(two_names, JBool True)])
     = Some (JObj [(''is'', JObj [(''a'', JNum 1), (''b'', JBool True)])])"
  by code_simp

text \<open>An empty group inside another is written as an empty object, and is not there when the document is read again.\<close>

lemma empty_group_lost:
  "Option.bind (MarshalJSON (no_criteria\<lparr>cx_Expression := Some (AllOf [AnyOf [], Rule RuleIs [(''title'', JStr ''x'')]])\<rparr>))
       (UnmarshalJSON fieldMap no_criteria)
     = Some (no_criteria\<lparr>cx_Expression := Some (AllOf [Rule RuleIs [(''title'', JStr ''x'')]])\<rparr>)"
  by code_simp

end
