(* ===== verification/Smart_Sql.thy ===== *)
theory Smart_Sql
  imports Smart_Criteria
begin

text \<open>
  \<open>persistence/criteria_sql.go\<close>: the SQL condition of the rules of a smart playlist. A condition is a tree, as \<open>squirrel\<close> builds
  it before it writes the text; what a condition means on a row is \<open>eval_sql\<close>, over the comparisons of the database,
  which are a parameter. The result is compared with the meaning of the rules themselves.
\<close>

subsection \<open>Columns of the fields\<close>

datatype join_type = JoinAlbumAnnotation | JoinArtistAnnotation | JoinAlbum

record smartPlaylistField =
  sf_expr :: string
  sf_order :: string
  sf_joinType :: "join_type list"
  sf_emptyValues :: "string list"
  sf_coalesceDefault :: "json option"

definition column :: "string \<Rightarrow> smartPlaylistField" where
  "column e = \<lparr>sf_expr = e, sf_order = [], sf_joinType = [], sf_emptyValues = [], sf_coalesceDefault = None\<rparr>"

definition smartPlaylistFields :: "(string \<times> smartPlaylistField) list" where
  "smartPlaylistFields =
     [
      (''title'', column ''media_file.title''),
      (''album'', column ''media_file.album''),
      (''hascoverart'', column ''media_file.has_cover_art''),
      (''tracknumber'', column ''media_file.track_number''),
      (''discnumber'', column ''media_file.disc_number''),
      (''year'', column ''media_file.year''),
      (''date'', column ''media_file.date''),
      (''originalyear'', column ''media_file.original_year''),
      (''originaldate'', column ''media_file.original_date''),
      (''releaseyear'', column ''media_file.release_year''),
      (''releasedate'', column ''media_file.release_date''),
      (''size'', column ''media_file.size''),
      (''compilation'', column ''media_file.compilation''),
      (''missing'', column ''media_file.missing''),
      (''explicitstatus'', column ''media_file.explicit_status''),
      (''dateadded'', column ''media_file.created_at''),
      (''datemodified'', column ''media_file.updated_at''),
      (''discsubtitle'', column ''media_file.disc_subtitle''),
      (''comment'', column ''media_file.comment''),
      (''lyrics'', (column ''media_file.lyrics'')\<lparr>sf_emptyValues := [''[]'']\<rparr>),
      (''sorttitle'', column ''media_file.sort_title''),
      (''sortalbum'', column ''media_file.sort_album_name''),
      (''sortartist'', column ''media_file.sort_artist_name''),
      (''sortalbumartist'', column ''media_file.sort_album_artist_name''),
      (''albumcomment'', column ''media_file.mbz_album_comment''),
      (''catalognumber'', column ''media_file.catalog_num''),
      (''filepath'', column ''media_file.path''),
      (''filetype'', column ''media_file.suffix''),
      (''codec'', column ''media_file.codec''),
      (''duration'', column ''media_file.duration''),
      (''bitrate'', column ''media_file.bit_rate''),
      (''bitdepth'', column ''media_file.bit_depth''),
      (''samplerate'', column ''media_file.sample_rate''),
      (''bpm'', column ''media_file.bpm''),
      (''channels'', column ''media_file.channels''),
      (''loved'', (column ''annotation.starred'')\<lparr>sf_coalesceDefault := Some (JBool False)\<rparr>),
      (''dateloved'', column ''annotation.starred_at''),
      (''lastplayed'', column ''annotation.play_date''),
      (''daterated'', column ''annotation.rated_at''),
      (''playcount'', (column ''annotation.play_count'')\<lparr>sf_coalesceDefault := Some (JNum 0)\<rparr>),
      (''rating'', (column ''annotation.rating'')\<lparr>sf_coalesceDefault := Some (JNum 0)\<rparr>),
      (''averagerating'', column ''media_file.average_rating''),
      (''albumrating'', (column ''album_annotation.rating'')\<lparr>sf_coalesceDefault := Some (JNum 0), sf_joinType := [JoinAlbumAnnotation]\<rparr>),
      (''albumloved'', (column ''album_annotation.starred'')\<lparr>sf_coalesceDefault := Some (JBool False), sf_joinType := [JoinAlbumAnnotation]\<rparr>),
      (''albumplaycount'', (column ''album_annotation.play_count'')\<lparr>sf_coalesceDefault := Some (JNum 0), sf_joinType := [JoinAlbumAnnotation]\<rparr>),
      (''albumlastplayed'', (column ''album_annotation.play_date'')\<lparr>sf_joinType := [JoinAlbumAnnotation]\<rparr>),
      (''albumdateloved'', (column ''album_annotation.starred_at'')\<lparr>sf_joinType := [JoinAlbumAnnotation]\<rparr>),
      (''albumdaterated'', (column ''album_annotation.rated_at'')\<lparr>sf_joinType := [JoinAlbumAnnotation]\<rparr>),
      (''albumdateadded'', (column ''album.created_at'')\<lparr>sf_joinType := [JoinAlbum]\<rparr>),
      (''albumdatemodified'', (column ''album.updated_at'')\<lparr>sf_joinType := [JoinAlbum]\<rparr>),
      (''albumduration'', (column ''album.duration'')\<lparr>sf_joinType := [JoinAlbum]\<rparr>),
      (''albumsongcount'', (column ''album.song_count'')\<lparr>sf_joinType := [JoinAlbum]\<rparr>),
      (''albumsize'', (column ''album.size'')\<lparr>sf_joinType := [JoinAlbum]\<rparr>),
      (''artistrating'', (column ''artist_annotation.rating'')\<lparr>sf_coalesceDefault := Some (JNum 0), sf_joinType := [JoinArtistAnnotation]\<rparr>),
      (''artistloved'', (column ''artist_annotation.starred'')\<lparr>sf_coalesceDefault := Some (JBool False), sf_joinType := [JoinArtistAnnotation]\<rparr>),
      (''artistplaycount'', (column ''artist_annotation.play_count'')\<lparr>sf_coalesceDefault := Some (JNum 0), sf_joinType := [JoinArtistAnnotation]\<rparr>),
      (''artistlastplayed'', (column ''artist_annotation.play_date'')\<lparr>sf_joinType := [JoinArtistAnnotation]\<rparr>),
      (''artistdateloved'', (column ''artist_annotation.starred_at'')\<lparr>sf_joinType := [JoinArtistAnnotation]\<rparr>),
      (''artistdaterated'', (column ''artist_annotation.rated_at'')\<lparr>sf_joinType := [JoinArtistAnnotation]\<rparr>),
      (''mbz_album_id'', column ''media_file.mbz_album_id''),
      (''mbz_album_artist_id'', column ''media_file.mbz_album_artist_id''),
      (''mbz_artist_id'', column ''media_file.mbz_artist_id''),
      (''mbz_recording_id'', column ''media_file.mbz_recording_id''),
      (''mbz_release_track_id'', column ''media_file.mbz_release_track_id''),
      (''mbz_release_group_id'', column ''media_file.mbz_release_group_id''),
      (''rgalbumgain'', column ''media_file.rg_album_gain''),
      (''rgalbumpeak'', column ''media_file.rg_album_peak''),
      (''rgtrackgain'', column ''media_file.rg_track_gain''),
      (''rgtrackpeak'', column ''media_file.rg_track_peak''),
      (''library_id'', column ''media_file.library_id''),
      (''random'', (column [])\<lparr>sf_order := ''random()''\<rparr>)
     ]"

subsection \<open>Conditions\<close>

datatype comparator = CmpEq | CmpNe | CmpGt | CmpGe | CmpLt | CmpLe

text \<open>The operator on numbers, and whether it orders.\<close>

fun satisfy :: "comparator \<Rightarrow> rat \<Rightarrow> rat \<Rightarrow> bool" where
  "satisfy CmpEq a b = (a = b)"
| "satisfy CmpNe a b = (a \<noteq> b)"
| "satisfy CmpGt a b = (a > b)"
| "satisfy CmpGe a b = (a \<ge> b)"
| "satisfy CmpLt a b = (a < b)"
| "satisfy CmpLe a b = (a \<le> b)"

definition ordering :: "comparator \<Rightarrow> bool" where
  "ordering cmp \<longleftrightarrow> cmp \<noteq> CmpEq \<and> cmp \<noteq> CmpNe"

datatype sql_col = Col string | Coalesce string json

text \<open>A condition on the values of a tag or the names of a role.\<close>

datatype value_cond = ValueCmp comparator json | ValueLike string

datatype playlist_filter = AnyPlaylist | PublicPlaylist | PublicOrOwned string

datatype sql_cond =
    SAnd "sql_cond list"
  | SOr "sql_cond list"
  | STrue
  | SCmp comparator "(sql_col \<times> json) list"
  | SLike bool "(sql_col \<times> string) list"
  | SInPlaylist string playlist_filter bool
  | TagCond string bool "value_cond option" bool
  | RoleCond string "value_cond option" bool
  | TagCondGroup string bool "value_cond list" bool
  | RoleCondGroup string "value_cond list" bool

text \<open>What the compilation uses of the library, the clock and the owner: \<open>fmt.Sprintf\<close> with \<open>%v\<close>, \<open>strconv.ParseFloat\<close>, the
  day of an instant.\<close>

record sql_env =
  se_fmt :: "json \<Rightarrow> string"
  se_parseFloat :: "string \<Rightarrow> rat option"
  se_day :: "Time \<Rightarrow> string"
  se_now :: Time
  se_fields :: field_map
  se_ownerID :: string
  se_isAdmin :: bool

subsection \<open>Compilation\<close>

definition jsonExpr :: "FieldInfo \<Rightarrow> value_cond option \<Rightarrow> bool \<Rightarrow> sql_cond" where
  "jsonExpr info cond negate =
     (if fi_IsRole info then RoleCond (fi_name info) cond negate else TagCond (fi_name info) (fi_Numeric info) cond negate)"

definition singleField :: "sql_env \<Rightarrow> (string \<times> json) list \<Rightarrow> (string \<times> json \<times> FieldInfo) option" where
  "singleField env values =
     (case values of
        [(field, value)] \<Rightarrow> map_option (\<lambda>info. (field, value, info)) (LookupField (se_fields env) field)
      | _ \<Rightarrow> None)"

definition fieldExpr :: "string \<Rightarrow> string option" where
  "fieldExpr name = map_option sf_expr (map_of smartPlaylistFields (to_lower name))"

definition sqlField :: "sql_env \<Rightarrow> string \<Rightarrow> sql_col option" where
  "sqlField env field =
     (case LookupField (se_fields env) field of
        None \<Rightarrow> None
      | Some info \<Rightarrow>
          if fi_IsTag info \<or> fi_IsRole info then None
          else (case fieldExpr (fi_name info) of
                  None \<Rightarrow> None
                | Some e \<Rightarrow> if e = [] then None else Some (Col e)))"

fun sqlFields :: "sql_env \<Rightarrow> (string \<times> json) list \<Rightarrow> (sql_col \<times> json) list option" where
  "sqlFields env [] = Some []"
| "sqlFields env ((field, value) # values) =
     both (\<lambda>c rest. (c, value) # rest) (sqlField env field) (sqlFields env values)"

definition annotationField :: "FieldInfo \<Rightarrow> (smartPlaylistField \<times> json) option" where
  "annotationField info =
     (case map_of smartPlaylistFields (fi_name info) of
        None \<Rightarrow> None
      | Some f \<Rightarrow> map_option (Pair f) (sf_coalesceDefault f))"

definition coalesced :: "smartPlaylistField \<Rightarrow> sql_col" where
  "coalesced f = (case sf_coalesceDefault f of None \<Rightarrow> Col (sf_expr f) | Some d \<Rightarrow> Coalesce (sf_expr f) d)"

definition boolToFloat :: "bool \<Rightarrow> rat" where
  "boolToFloat b = (if b then 1 else 0)"

fun toFloat :: "sql_env \<Rightarrow> json \<Rightarrow> rat option" where
  "toFloat env (JNum n) = Some n"
| "toFloat env (JStr s) = se_parseFloat env s"
| "toFloat env v = None"

text \<open>Whether the rows without the column belong to the result of the bare comparison, if the comparison has an exact one.\<close>

definition bareNullInclusion :: "sql_env \<Rightarrow> json \<Rightarrow> comparator \<Rightarrow> json \<Rightarrow> bool option" where
  "bareNullInclusion env defaultVal cmp value =
     (case defaultVal of
        JBool b \<Rightarrow>
          if ordering cmp then None
          else map_option (\<lambda>v. satisfy cmp (boolToFloat b) (boolToFloat v)) (ToBool value)
      | _ \<Rightarrow>
          (case (toFloat env defaultVal, toFloat env value) of
             (Some d, Some v) \<Rightarrow> Some (satisfy cmp d v)
           | _ \<Rightarrow> None))"

definition annotationCond :: "sql_env \<Rightarrow> smartPlaylistField \<Rightarrow> json \<Rightarrow> comparator \<Rightarrow> json \<Rightarrow> sql_cond" where
  "annotationCond env f d cmp value =
     (case bareNullInclusion env d cmp value of
        None \<Rightarrow> SCmp cmp [(coalesced f, value)]
      | Some wrapNull \<Rightarrow>
          let base = SCmp cmp [(Col (sf_expr f), value)]
          in if wrapNull then SOr [base, SCmp CmpEq [(Col (sf_expr f), JNull)]] else base)"

definition comparisonFields :: "sql_env \<Rightarrow> (string \<times> json) list \<Rightarrow> comparator \<Rightarrow> sql_cond option" where
  "comparisonFields env values cmp = map_option (SCmp cmp) (sqlFields env values)"

definition comparisonExpr :: "sql_env \<Rightarrow> (string \<times> json) list \<Rightarrow> comparator \<Rightarrow> sql_cond option" where
  "comparisonExpr env values cmp =
     (case singleField env values of
        Some (field, value, info) \<Rightarrow>
          if fi_IsTag info \<or> fi_IsRole info then Some (jsonExpr info (Some (ValueCmp cmp value)) False)
          else (case annotationField info of
                  Some (f, d) \<Rightarrow> Some (annotationCond env f d cmp value)
                | None \<Rightarrow> comparisonFields env values cmp)
      | None \<Rightarrow> comparisonFields env values cmp)"

definition isNotExpr :: "sql_env \<Rightarrow> (string \<times> json) list \<Rightarrow> sql_cond option" where
  "isNotExpr env values =
     (case singleField env values of
        Some (field, value, info) \<Rightarrow>
          if fi_IsTag info \<or> fi_IsRole info then Some (jsonExpr info (Some (ValueCmp CmpEq value)) True)
          else comparisonExpr env values CmpNe
      | None \<Rightarrow> comparisonExpr env values CmpNe)"

definition missingExpr :: "sql_env \<Rightarrow> (string \<times> json) list \<Rightarrow> bool \<Rightarrow> sql_cond option" where
  "missingExpr env values checkAbsence =
     (case singleField env values of
        Some (field, JBool b, info) \<Rightarrow>
          let negate = (checkAbsence = b)
          in if fi_IsTag info \<or> fi_IsRole info then Some (jsonExpr info None negate)
             else if fi_Nullable info then
               (case map_of smartPlaylistFields (fi_name info) of
                  None \<Rightarrow> None
                | Some f \<Rightarrow>
                    if sf_expr f = [] then None
                    else
                      let col = Col (sf_expr f);
                          empties = (if \<not> fi_Numeric info \<and> \<not> fi_Boolean info then [] # sf_emptyValues f else [])
                      in Some (if negate
                               then SOr (SCmp CmpEq [(col, JNull)] # map (\<lambda>e. SCmp CmpEq [(col, JStr e)]) empties)
                               else SAnd (SCmp CmpNe [(col, JNull)] # map (\<lambda>e. SCmp CmpNe [(col, JStr e)]) empties)))
             else None
      | _ \<Rightarrow> None)"

datatype like_pattern = LikeContains | LikeStarts | LikeEnds

definition like_text :: "sql_env \<Rightarrow> like_pattern \<Rightarrow> json \<Rightarrow> string" where
  "like_text env pattern value =
     (let s = se_fmt env value
      in case pattern of LikeContains \<Rightarrow> ''%'' @ s @ ''%'' | LikeStarts \<Rightarrow> s @ ''%'' | LikeEnds \<Rightarrow> ''%'' @ s)"

definition likeFields :: "sql_env \<Rightarrow> (string \<times> json) list \<Rightarrow> like_pattern \<Rightarrow> bool \<Rightarrow> sql_cond option" where
  "likeFields env values pattern negate =
     map_option (\<lambda>fields. SLike negate (map (\<lambda>(c, v). (c, like_text env pattern v)) fields)) (sqlFields env values)"

definition likeExpr :: "sql_env \<Rightarrow> (string \<times> json) list \<Rightarrow> like_pattern \<Rightarrow> bool \<Rightarrow> sql_cond option" where
  "likeExpr env values pattern negate =
     (case singleField env values of
        Some (field, value, info) \<Rightarrow>
          if fi_IsTag info \<or> fi_IsRole info then Some (jsonExpr info (Some (ValueLike (like_text env pattern value))) negate)
          else (case annotationField info of
                  Some (f, d) \<Rightarrow> Some (SLike negate [(coalesced f, like_text env pattern value)])
                | None \<Rightarrow> likeFields env values pattern negate)
      | None \<Rightarrow> likeFields env values pattern negate)"

definition rangeExpr :: "sql_env \<Rightarrow> (string \<times> json) list \<Rightarrow> sql_cond option" where
  "rangeExpr env values =
     (case singleField env values of
        None \<Rightarrow> None
      | Some (field, value, info) \<Rightarrow>
          if fi_IsTag info \<or> fi_IsRole info then None
          else (case value of
                  JArr [lo, hi] \<Rightarrow>
                    both (\<lambda>low high. SAnd [low, high]) (comparisonExpr env [(field, lo)] CmpGe) (comparisonExpr env [(field, hi)] CmpLe)
                | _ \<Rightarrow> None))"

text \<open>A \<open>time.Duration\<close> wraps at 64 bits.\<close>

definition wrap64 :: "int \<Rightarrow> int" where
  "wrap64 i = (i + 2 ^ 63) mod 2 ^ 64 - 2 ^ 63"

definition startOfPeriod :: "int \<Rightarrow> Time \<Rightarrow> Time" where
  "startOfPeriod numDays t = t + wrap64 (wrap64 (- 24 * numDays) * hour)"

definition periodExpr :: "sql_env \<Rightarrow> (string \<times> json) list \<Rightarrow> bool \<Rightarrow> sql_cond option" where
  "periodExpr env values negate =
     (case sqlFields env values of
        Some ((field, value) # _) \<Rightarrow>
          map_option
            (\<lambda>days. let firstDate = JStr (se_day env (startOfPeriod days (se_now env)))
                    in if negate then SOr [SCmp CmpLt [(field, firstDate)], SCmp CmpEq [(field, JNull)]]
                       else SCmp CmpGt [(field, firstDate)])
            (parse_int64 10 (se_fmt env value))
      | _ \<Rightarrow> None)"

definition inList :: "sql_env \<Rightarrow> (string \<times> json) list \<Rightarrow> bool \<Rightarrow> sql_cond option" where
  "inList env values negate =
     (case map_of values ''id'' of
        Some (JStr playlistID) \<Rightarrow>
          Some (SInPlaylist playlistID
            (if se_isAdmin env then AnyPlaylist
             else if se_ownerID env = [] then PublicPlaylist else PublicOrOwned (se_ownerID env)) negate)
      | _ \<Rightarrow> None)"

subsection \<open>Merging conditions on one field\<close>

definition jsonCondBatchSize :: nat where
  "jsonCondBatchSize = 350"

text \<open>\<open>slices.Chunk\<close>.\<close>

fun chunk :: "nat \<Rightarrow> 'a list \<Rightarrow> 'a list list" where
  "chunk n [] = []"
| "chunk n (x # xs) = (x # take (n - 1) xs) # chunk n (drop (n - 1) xs)"

text \<open>The key of the group a condition belongs to, with the flag for numbers and the inner condition.\<close>

fun merge_key :: "bool \<Rightarrow> sql_cond \<Rightarrow> (string \<times> bool \<times> value_cond) option" where
  "merge_key negated (RoleCond role (Some c) negate) = (if negate = negated then Some (''role:'' @ role, False, c) else None)"
| "merge_key negated (TagCond tag numeric (Some c) negate) = (if negate = negated then Some (''tag:'' @ tag, numeric, c) else None)"
| "merge_key negated c = None"

definition group_entries :: "bool \<Rightarrow> string \<Rightarrow> sql_cond list \<Rightarrow> (bool \<times> value_cond) list" where
  "group_entries negated key conds =
     List.map_filter (\<lambda>s. case merge_key negated s of Some (k, e) \<Rightarrow> if k = key then Some e else None | None \<Rightarrow> None) conds"

definition merged_keys :: "bool \<Rightarrow> sql_cond list \<Rightarrow> string list" where
  "merged_keys negated conds =
     filter (\<lambda>k. length (group_entries negated k conds) \<ge> 2)
       (sort (remdups (List.map_filter (\<lambda>s. map_option fst (merge_key negated s)) conds)))"

definition group_conds :: "bool \<Rightarrow> sql_cond list \<Rightarrow> string \<Rightarrow> sql_cond list" where
  "group_conds negated conds key =
     (let entries = group_entries negated key conds;
          batches = chunk jsonCondBatchSize (map snd entries)
      in if has_prefix key ''role:'' then map (\<lambda>b. RoleCondGroup (drop 5 key) b negated) batches
         else map (\<lambda>b. TagCondGroup (drop 4 key) (fst (hd entries)) b negated) batches)"

definition mergeSameFieldConds :: "sql_cond list \<Rightarrow> bool \<Rightarrow> sql_cond list" where
  "mergeSameFieldConds conds negated =
     (let keys = merged_keys negated conds
      in if keys = [] then conds
         else filter (\<lambda>s. case merge_key negated s of Some (k, _) \<Rightarrow> k \<notin> set keys | None \<Rightarrow> True) conds
              @ concat (map (group_conds negated conds) keys))"

definition mergeJsonConds :: "sql_cond list \<Rightarrow> sql_cond" where
  "mergeJsonConds conds = SOr (mergeSameFieldConds conds False)"

definition mergeNegatedJsonConds :: "sql_cond list \<Rightarrow> sql_cond" where
  "mergeNegatedJsonConds conds = SAnd (mergeSameFieldConds conds True)"

fun ruleSQL :: "sql_env \<Rightarrow> rule_op \<Rightarrow> (string \<times> json) list \<Rightarrow> sql_cond option" where
  "ruleSQL env RuleIs e = comparisonExpr env e CmpEq"
| "ruleSQL env RuleIsNot e = isNotExpr env e"
| "ruleSQL env RuleGt e = comparisonExpr env e CmpGt"
| "ruleSQL env RuleLt e = comparisonExpr env e CmpLt"
| "ruleSQL env RuleBefore e = comparisonExpr env e CmpLt"
| "ruleSQL env RuleAfter e = comparisonExpr env e CmpGt"
| "ruleSQL env RuleContains e = likeExpr env e LikeContains False"
| "ruleSQL env RuleNotContains e = likeExpr env e LikeContains True"
| "ruleSQL env RuleStartsWith e = likeExpr env e LikeStarts False"
| "ruleSQL env RuleEndsWith e = likeExpr env e LikeEnds False"
| "ruleSQL env RuleInTheRange e = rangeExpr env e"
| "ruleSQL env RuleInTheLast e = periodExpr env e False"
| "ruleSQL env RuleNotInTheLast e = periodExpr env e True"
| "ruleSQL env RuleInPlaylist e = inList env e False"
| "ruleSQL env RuleNotInPlaylist e = inList env e True"
| "ruleSQL env RuleIsMissing e = missingExpr env e True"
| "ruleSQL env RuleIsPresent e = missingExpr env e False"

fun exprSQL :: "sql_env \<Rightarrow> Expression \<Rightarrow> sql_cond option"
and exprsSQL :: "sql_env \<Rightarrow> Expression list \<Rightarrow> sql_cond list option" where
  "exprSQL env (AllOf es) = map_option mergeNegatedJsonConds (exprsSQL env es)"
| "exprSQL env (AnyOf es) = map_option mergeJsonConds (exprsSQL env es)"
| "exprSQL env (Rule op m) = ruleSQL env op m"
| "exprsSQL env [] = Some []"
| "exprsSQL env (e # es) = both (#) (exprSQL env e) (exprsSQL env es)"

definition Where_sql :: "sql_env \<Rightarrow> criteria_rules \<Rightarrow> sql_cond option" where
  "Where_sql env c = (case cx_Expression c of None \<Rightarrow> Some STrue | Some e \<Rightarrow> exprSQL env e)"

subsection \<open>Joins and order\<close>

definition fieldJoinType :: "field_map \<Rightarrow> string \<Rightarrow> join_type list" where
  "fieldJoinType fm name =
     (case LookupField fm name of
        None \<Rightarrow> []
      | Some info \<Rightarrow> (case map_of smartPlaylistFields (fi_name info) of None \<Rightarrow> [] | Some f \<Rightarrow> sf_joinType f))"

text \<open>The joins of an expression: \<open>Walk\<close> visits every rule.\<close>

fun ExpressionJoins :: "field_map \<Rightarrow> Expression \<Rightarrow> join_type list" where
  "ExpressionJoins fm (AllOf es) = concat (map (ExpressionJoins fm) es)"
| "ExpressionJoins fm (AnyOf es) = concat (map (ExpressionJoins fm) es)"
| "ExpressionJoins fm (Rule op m) = concat (map (\<lambda>(f, v). fieldJoinType fm f) m)"

definition SortFieldNames :: "field_map \<Rightarrow> criteria_rules \<Rightarrow> string list" where
  "SortFieldNames fm c = map so_Field (OrderByFields fm c)"

definition RequiredJoins :: "field_map \<Rightarrow> criteria_rules \<Rightarrow> join_type list" where
  "RequiredJoins fm c =
     (case cx_Expression c of None \<Rightarrow> [] | Some e \<Rightarrow> ExpressionJoins fm e)
     @ concat (map (fieldJoinType fm) (SortFieldNames fm c))"

fun sqlLiteral :: "json \<Rightarrow> string" where
  "sqlLiteral (JBool b) = (if b then ''true'' else ''false'')"
| "sqlLiteral (JNum n) = itoa \<lfloor>n\<rfloor>"
| "sqlLiteral v = []"

fun col_text :: "sql_col \<Rightarrow> string" where
  "col_text (Col e) = e"
| "col_text (Coalesce e d) = ''COALESCE('' @ e @ '', '' @ sqlLiteral d @ '')''"

definition json_first :: "string \<Rightarrow> string \<Rightarrow> string \<Rightarrow> string" where
  "json_first source name member =
     ''COALESCE(json_extract(media_file.'' @ source @ '', '$.'' @ name @ ''[0].'' @ member @ [CHR 0x27] @ ''), '' @ [CHR 0x27, CHR 0x27] @ '')''"

definition sortMapped :: "FieldInfo \<Rightarrow> string option" where
  "sortMapped info =
     (if fi_IsTag info then Some (json_first ''tags'' (fi_name info) ''value'')
      else if fi_IsRole info then Some (json_first ''participants'' (fi_name info) ''name'')
      else (case map_of smartPlaylistFields (fi_name info) of
              None \<Rightarrow> None
            | Some f \<Rightarrow> if sf_expr f = [] then None else Some (col_text (coalesced f))))"

definition sortExpr :: "field_map \<Rightarrow> string \<Rightarrow> string option" where
  "sortExpr fm sortField =
     (case LookupField fm sortField of
        None \<Rightarrow> None
      | Some info \<Rightarrow>
          let fixed = (case map_of smartPlaylistFields (fi_name info) of None \<Rightarrow> [] | Some f \<Rightarrow> sf_order f)
          in if fixed \<noteq> [] then Some fixed
             else map_option (\<lambda>mapped. if fi_Numeric info then ''CAST('' @ mapped @ '' AS REAL)'' else mapped) (sortMapped info))"

definition OrderBy_sql :: "field_map \<Rightarrow> criteria_rules \<Rightarrow> string" where
  "OrderBy_sql fm c =
     join '', '' (List.map_filter
       (\<lambda>sf. map_option (\<lambda>mapped. mapped @ (if so_Desc sf then '' desc'' else '' asc'')) (sortExpr fm (so_Field sf)))
       (OrderByFields fm c))"

subsection \<open>What a condition means\<close>

datatype sqlval = SqlNull | SqlNum rat | SqlText string

text \<open>The database: whether a value compares as stated with a bound value, whether it matches a pattern, its cast to a number;
  and the tracks of the playlists with their visibility.\<close>

record sqlite =
  sq_cmp :: "comparator \<Rightarrow> sqlval \<Rightarrow> json \<Rightarrow> bool"
  sq_like :: "sqlval \<Rightarrow> string \<Rightarrow> bool"
  sq_real :: "sqlval \<Rightarrow> sqlval"
  sq_tracks :: "(string \<times> string) list"
  sq_playlists :: "string \<rightharpoonup> bool \<times> string"

record sql_row =
  row_id :: string
  row_col :: "string \<Rightarrow> sqlval"
  row_tags :: "string \<Rightarrow> sqlval list"
  row_artists :: "string \<Rightarrow> sqlval list"

fun sql_default :: "json \<Rightarrow> sqlval" where
  "sql_default (JBool b) = SqlNum (boolToFloat b)"
| "sql_default (JNum n) = SqlNum n"
| "sql_default (JStr s) = SqlText s"
| "sql_default v = SqlNull"

fun eval_col :: "sql_row \<Rightarrow> sql_col \<Rightarrow> sqlval" where
  "eval_col row (Col e) = row_col row e"
| "eval_col row (Coalesce e d) = (if row_col row e = SqlNull then sql_default d else row_col row e)"

fun value_holds :: "sqlite \<Rightarrow> value_cond \<Rightarrow> sqlval \<Rightarrow> bool" where
  "value_holds db (ValueCmp cmp v) x = sq_cmp db cmp x v"
| "value_holds db (ValueLike pattern) x = sq_like db x pattern"

definition cast_if :: "sqlite \<Rightarrow> bool \<Rightarrow> sqlval \<Rightarrow> sqlval" where
  "cast_if db numeric x = (if numeric then sq_real db x else x)"

fun visible :: "sqlite \<Rightarrow> playlist_filter \<Rightarrow> string \<Rightarrow> bool" where
  "visible db AnyPlaylist pid = True"
| "visible db PublicPlaylist pid = (case sq_playlists db pid of Some (public, owner) \<Rightarrow> public | None \<Rightarrow> False)"
| "visible db (PublicOrOwned user) pid =
     (case sq_playlists db pid of Some (public, owner) \<Rightarrow> public \<or> owner = user | None \<Rightarrow> False)"

definition in_playlist :: "sqlite \<Rightarrow> playlist_filter \<Rightarrow> string \<Rightarrow> string \<Rightarrow> bool" where
  "in_playlist db flt pid track \<longleftrightarrow> visible db flt pid \<and> (pid, track) \<in> set (sq_tracks db)"

fun eval_sql :: "sqlite \<Rightarrow> sql_row \<Rightarrow> sql_cond \<Rightarrow> bool" where
  "eval_sql db row (SAnd cs) = list_all (eval_sql db row) cs"
| "eval_sql db row (SOr cs) = list_ex (eval_sql db row) cs"
| "eval_sql db row STrue = True"
| "eval_sql db row (SCmp cmp cols) = list_all (\<lambda>(c, v). sq_cmp db cmp (eval_col row c) v) cols"
| "eval_sql db row (SLike negate cols) =
     list_all (\<lambda>(c, p). eval_col row c \<noteq> SqlNull \<and> sq_like db (eval_col row c) p \<noteq> negate) cols"
| "eval_sql db row (SInPlaylist pid flt negate) = (in_playlist db flt pid (row_id row) \<noteq> negate)"
| "eval_sql db row (TagCond tag numeric cond negate) =
     (list_ex (\<lambda>x. case cond of None \<Rightarrow> True | Some c \<Rightarrow> value_holds db c (cast_if db numeric x)) (row_tags row tag) \<noteq> negate)"
| "eval_sql db row (RoleCond role cond negate) =
     (list_ex (\<lambda>x. case cond of None \<Rightarrow> True | Some c \<Rightarrow> value_holds db c x) (row_artists row role) \<noteq> negate)"
| "eval_sql db row (TagCondGroup tag numeric conds negate) =
     (list_ex (\<lambda>x. list_ex (\<lambda>c. value_holds db c (cast_if db numeric x)) conds) (row_tags row tag) \<noteq> negate)"
| "eval_sql db row (RoleCondGroup role conds negate) =
     (list_ex (\<lambda>x. list_ex (\<lambda>c. value_holds db c x) conds) (row_artists row role) \<noteq> negate)"

subsection \<open>Merging keeps the meaning\<close>

definition entry_holds :: "sqlite \<Rightarrow> sql_row \<Rightarrow> string \<Rightarrow> bool \<times> value_cond \<Rightarrow> bool" where
  "entry_holds db row key e =
     (if has_prefix key ''role:'' then list_ex (value_holds db (snd e)) (row_artists row (drop 5 key))
      else list_ex (\<lambda>x. value_holds db (snd e) (cast_if db (fst e) x)) (row_tags row (drop 4 key)))"

lemma merge_key_eval:
  "merge_key negated s = Some (key, e) \<Longrightarrow> eval_sql db row s \<noteq> negated \<longleftrightarrow> entry_holds db row key e"
proof (cases s)
  case (RoleCond role c negate)
  assume "merge_key negated s = Some (key, e)"
  with RoleCond show ?thesis by (cases c) (auto simp: entry_holds_def has_prefix_def split: if_splits)
next
  case (TagCond tag numeric c negate)
  assume "merge_key negated s = Some (key, e)"
  with TagCond show ?thesis by (cases c) (auto simp: entry_holds_def has_prefix_def split: if_splits)
qed simp_all

lemma set_group_entries: "e \<in> set (group_entries negated key conds) \<longleftrightarrow> (\<exists>s \<in> set conds. merge_key negated s = Some (key, e))"
proof -
  have "y \<in> set (List.map_filter f xs) \<longleftrightarrow> (\<exists>x \<in> set xs. f x = Some y)" for f :: "sql_cond \<Rightarrow> (bool \<times> value_cond) option" and y xs
    by (induction xs) (auto simp: List.map_filter_simps split: option.splits)
  moreover have "(case merge_key negated s of Some (k, e) \<Rightarrow> if k = key then Some e else None | None \<Rightarrow> None) = Some e
      \<longleftrightarrow> merge_key negated s = Some (key, e)" for s
    by (auto split: option.splits if_splits)
  ultimately show ?thesis
    unfolding group_entries_def by simp
qed


lemma concat_chunk: "concat (chunk n xs) = xs"
  by (induction n xs rule: chunk.induct) simp_all

text \<open>Entries of one key that are evaluated in the same way, as numbers or not.\<close>

definition same_flag :: "string \<Rightarrow> (bool \<times> value_cond) list \<Rightarrow> bool" where
  "same_flag key entries \<longleftrightarrow> (\<forall>e \<in> set entries. has_prefix key ''role:'' \<or> fst e = fst (hd entries))"

lemma list_ex_batches:
  "(\<exists>b \<in> set (chunk n xs). list_ex (\<lambda>x. list_ex (\<lambda>c. P c x) b) ys) \<longleftrightarrow> (\<exists>c \<in> set xs. list_ex (P c) ys)"
proof -
  have "set xs = (\<Union>b \<in> set (chunk n xs). set b)"
    using concat_chunk [of n xs] by (metis set_concat)
  then show ?thesis by (auto simp: list_ex_iff)
qed

lemma eval_group:
  "eval_sql db row (RoleCondGroup role b negated) \<noteq> negated \<longleftrightarrow> list_ex (\<lambda>x. list_ex (\<lambda>c. value_holds db c x) b) (row_artists row role)"
  "eval_sql db row (TagCondGroup tag numeric b negated) \<noteq> negated \<longleftrightarrow>
     list_ex (\<lambda>x. list_ex (\<lambda>c. value_holds db c (cast_if db numeric x)) b) (row_tags row tag)"
  by auto

lemma group_conds_eval:
  assumes "same_flag key (group_entries negated key conds)"
  shows "(\<exists>s \<in> set (group_conds negated conds key). eval_sql db row s \<noteq> negated)
    \<longleftrightarrow> (\<exists>e \<in> set (group_entries negated key conds). entry_holds db row key e)"
proof (cases "has_prefix key ''role:''")
  case True
  then show ?thesis
    unfolding group_conds_def Let_def entry_holds_def
    by (simp only: if_True set_map bex_simps eval_group list_ex_batches) 
next
  case False
  let ?es = "group_entries negated key conds"
  have "entry_holds db row key e \<longleftrightarrow> entry_holds db row key (fst (hd ?es), snd e)" if "e \<in> set ?es" for e
    using assms False that by (cases e) (auto simp: same_flag_def)
  then have "(\<exists>e \<in> set ?es. entry_holds db row key e) \<longleftrightarrow> (\<exists>c \<in> set (map snd ?es). entry_holds db row key (fst (hd ?es), c))"
    by auto
  also have "\<dots> \<longleftrightarrow> (\<exists>s \<in> set (group_conds negated conds key). eval_sql db row s \<noteq> negated)"
    using False unfolding group_conds_def Let_def entry_holds_def
    by (simp only: if_False set_map bex_simps eval_group list_ex_batches fst_conv snd_conv)
  finally show ?thesis by simp
qed

lemma merged_keys_sound: "key \<in> set (merged_keys negated conds) \<Longrightarrow> \<exists>s \<in> set conds. \<exists>e. merge_key negated s = Some (key, e)"
  by (force simp: merged_keys_def List.map_filter_def)

lemma mergeSameFieldConds_eval:
  assumes "\<And>key. same_flag key (group_entries negated key conds)"
  shows "(\<exists>s \<in> set (mergeSameFieldConds conds negated). eval_sql db row s \<noteq> negated) \<longleftrightarrow> (\<exists>s \<in> set conds. eval_sql db row s \<noteq> negated)"
proof (cases "merged_keys negated conds = []")
  case False
  let ?keys = "merged_keys negated conds" and ?E = "\<lambda>s. eval_sql db row s \<noteq> negated"
  let ?rest = "\<lambda>s. \<forall>key e. merge_key negated s = Some (key, e) \<longrightarrow> key \<notin> set ?keys"
  have "set (mergeSameFieldConds conds negated) = {s \<in> set conds. ?rest s} \<union> (\<Union>key \<in> set ?keys. set (group_conds negated conds key))"
    using False by (auto simp: mergeSameFieldConds_def Let_def split: option.splits)
  then have "(\<exists>s \<in> set (mergeSameFieldConds conds negated). ?E s) \<longleftrightarrow>
      (\<exists>s \<in> set conds. ?rest s \<and> ?E s) \<or> (\<exists>key \<in> set ?keys. \<exists>s \<in> set (group_conds negated conds key). ?E s)"
    by (simp only: bex_Un bex_UN) blast
  also have "\<dots> \<longleftrightarrow> (\<exists>s \<in> set conds. ?rest s \<and> ?E s)
      \<or> (\<exists>key \<in> set ?keys. \<exists>s \<in> set conds. \<exists>e. merge_key negated s = Some (key, e) \<and> ?E s)"
  proof -
    have "(\<exists>e \<in> set (group_entries negated key conds). entry_holds db row key e)
        \<longleftrightarrow> (\<exists>s \<in> set conds. \<exists>e. merge_key negated s = Some (key, e) \<and> ?E s)" for key
      unfolding Bex_def set_group_entries using merge_key_eval [of negated _ key _ db row] by blast
    then show ?thesis by (simp only: group_conds_eval [OF assms])
  qed
  also have "\<dots> \<longleftrightarrow> (\<exists>s \<in> set conds. ?E s)"
    by blast
  finally show ?thesis .
qed (simp add: mergeSameFieldConds_def)

lemma mergeJsonConds_eval:
  "(\<And>key. same_flag key (group_entries False key conds)) \<Longrightarrow> eval_sql db row (mergeJsonConds conds) \<longleftrightarrow> (\<exists>s \<in> set conds. eval_sql db row s)"
  using mergeSameFieldConds_eval [of False conds db row] by (simp add: mergeJsonConds_def list_ex_iff)

lemma mergeNegatedJsonConds_eval:
  "(\<And>key. same_flag key (group_entries True key conds)) \<Longrightarrow> eval_sql db row (mergeNegatedJsonConds conds) \<longleftrightarrow> (\<forall>s \<in> set conds. eval_sql db row s)"
  using mergeSameFieldConds_eval [of True conds db row] by (auto simp: mergeNegatedJsonConds_def list_all_iff)

subsection \<open>What the rules mean\<close>

text \<open>The value of a field in a row: a missing annotation counts as its default.\<close>

definition field_value :: "sql_row \<Rightarrow> FieldInfo \<Rightarrow> sqlval" where
  "field_value row info =
     (case map_of smartPlaylistFields (fi_name info) of
        None \<Rightarrow> SqlNull
      | Some f \<Rightarrow> eval_col row (coalesced f))"

text \<open>The bare column, which dates and the tests for presence look at.\<close>

definition bare_value :: "sql_row \<Rightarrow> FieldInfo \<Rightarrow> sqlval" where
  "bare_value row info =
     (case map_of smartPlaylistFields (fi_name info) of None \<Rightarrow> SqlNull | Some f \<Rightarrow> row_col row (sf_expr f))"

definition multi_valued :: "FieldInfo \<Rightarrow> bool" where
  "multi_valued info \<longleftrightarrow> fi_IsTag info \<or> fi_IsRole info"

definition field_values :: "sqlite \<Rightarrow> sql_row \<Rightarrow> FieldInfo \<Rightarrow> sqlval list" where
  "field_values db row info =
     (if fi_IsRole info then row_artists row (fi_name info) else map (cast_if db (fi_Numeric info)) (row_tags row (fi_name info)))"

text \<open>A condition holds of a field when one of its values satisfies it.\<close>

definition field_holds :: "sqlite \<Rightarrow> sql_row \<Rightarrow> FieldInfo \<Rightarrow> (sqlval \<Rightarrow> bool) \<Rightarrow> bool" where
  "field_holds db row info P \<longleftrightarrow>
     (if multi_valued info then list_ex P (field_values db row info) else P (field_value row info))"

definition field_missing :: "sqlite \<Rightarrow> sql_row \<Rightarrow> FieldInfo \<Rightarrow> bool" where
  "field_missing db row info \<longleftrightarrow>
     (if multi_valued info then field_values db row info = []
      else
        bare_value row info = SqlNull
        \<or> \<not> fi_Numeric info \<and> \<not> fi_Boolean info
          \<and> list_ex (\<lambda>e. sq_cmp db CmpEq (bare_value row info) (JStr e))
              ([] # (case map_of smartPlaylistFields (fi_name info) of None \<Rightarrow> [] | Some f \<Rightarrow> sf_emptyValues f)))"

definition period_start :: "sql_env \<Rightarrow> json \<Rightarrow> json" where
  "period_start env value =
     JStr (se_day env (startOfPeriod (case parse_int64 10 (se_fmt env value) of Some d \<Rightarrow> d | None \<Rightarrow> 0) (se_now env)))"

fun holds_on :: "sql_env \<Rightarrow> sqlite \<Rightarrow> sql_row \<Rightarrow> rule_op \<Rightarrow> json \<Rightarrow> FieldInfo \<Rightarrow> bool" where
  "holds_on env db row RuleIs v info = field_holds db row info (\<lambda>x. sq_cmp db CmpEq x v)"
| "holds_on env db row RuleIsNot v info =
     (if multi_valued info then \<not> field_holds db row info (\<lambda>x. sq_cmp db CmpEq x v)
      else field_holds db row info (\<lambda>x. sq_cmp db CmpNe x v))"
| "holds_on env db row RuleGt v info = field_holds db row info (\<lambda>x. sq_cmp db CmpGt x v)"
| "holds_on env db row RuleLt v info = field_holds db row info (\<lambda>x. sq_cmp db CmpLt x v)"
| "holds_on env db row RuleAfter v info = field_holds db row info (\<lambda>x. sq_cmp db CmpGt x v)"
| "holds_on env db row RuleBefore v info = field_holds db row info (\<lambda>x. sq_cmp db CmpLt x v)"
| "holds_on env db row RuleContains v info = field_holds db row info (\<lambda>x. x \<noteq> SqlNull \<and> sq_like db x (like_text env LikeContains v))"
| "holds_on env db row RuleStartsWith v info = field_holds db row info (\<lambda>x. x \<noteq> SqlNull \<and> sq_like db x (like_text env LikeStarts v))"
| "holds_on env db row RuleEndsWith v info = field_holds db row info (\<lambda>x. x \<noteq> SqlNull \<and> sq_like db x (like_text env LikeEnds v))"
| "holds_on env db row RuleNotContains v info =
     ((multi_valued info \<or> field_value row info \<noteq> SqlNull)
      \<and> \<not> field_holds db row info (\<lambda>x. x \<noteq> SqlNull \<and> sq_like db x (like_text env LikeContains v)))"
| "holds_on env db row RuleInTheRange v info =
     (case v of
        JArr [lo, hi] \<Rightarrow> field_holds db row info (\<lambda>x. sq_cmp db CmpGe x lo \<and> sq_cmp db CmpLe x hi)
      | _ \<Rightarrow> False)"
| "holds_on env db row RuleInTheLast v info = sq_cmp db CmpGt (bare_value row info) (period_start env v)"
| "holds_on env db row RuleNotInTheLast v info =
     (bare_value row info = SqlNull \<or> sq_cmp db CmpLt (bare_value row info) (period_start env v))"
| "holds_on env db row RuleIsMissing v info = (field_missing db row info = (v = JBool True))"
| "holds_on env db row RuleIsPresent v info = (field_missing db row info = (v = JBool False))"
| "holds_on env db row op v info = False"

text \<open>A rule on a playlist looks at the tracks of the playlist, if the owner of the rules may see it.\<close>

definition owner_sees :: "sql_env \<Rightarrow> sqlite \<Rightarrow> string \<Rightarrow> bool" where
  "owner_sees env db pid \<longleftrightarrow>
     se_isAdmin env
     \<or> (case sq_playlists db pid of
          None \<Rightarrow> False
        | Some (public, owner) \<Rightarrow> public \<or> se_ownerID env \<noteq> [] \<and> owner = se_ownerID env)"

fun rule_holds :: "sql_env \<Rightarrow> sqlite \<Rightarrow> sql_row \<Rightarrow> rule_op \<Rightarrow> (string \<times> json) list \<Rightarrow> bool" where
  "rule_holds env db row op [(field, v)] =
     (if op = RuleInPlaylist \<or> op = RuleNotInPlaylist then
        (case (field, v) of
           (''id'', JStr pid) \<Rightarrow> (owner_sees env db pid \<and> (pid, row_id row) \<in> set (sq_tracks db)) = (op = RuleInPlaylist)
         | _ \<Rightarrow> False)
      else (case LookupField (se_fields env) field of
              None \<Rightarrow> False
            | Some info \<Rightarrow> holds_on env db row op v info))"
| "rule_holds env db row op m = False"

fun sat :: "sql_env \<Rightarrow> sqlite \<Rightarrow> sql_row \<Rightarrow> Expression \<Rightarrow> bool" where
  "sat env db row (AllOf es) = list_all (sat env db row) es"
| "sat env db row (AnyOf es) = list_ex (sat env db row) es"
| "sat env db row (Rule op m) = rule_holds env db row op m"

subsection \<open>What is assumed of the database\<close>

fun scalar :: "json \<Rightarrow> bool" where
  "scalar (JBool b) = True"
| "scalar (JNum n) = True"
| "scalar (JStr s) = True"
| "scalar v = False"

definition sql_laws :: "sql_env \<Rightarrow> sqlite \<Rightarrow> bool" where
  "sql_laws env db \<longleftrightarrow>
     (\<forall>cmp v. scalar v \<longrightarrow> \<not> sq_cmp db cmp SqlNull v)
     \<and> (\<forall>x. sq_cmp db CmpEq x JNull = (x = SqlNull)) \<and> (\<forall>x. sq_cmp db CmpNe x JNull = (x \<noteq> SqlNull))
     \<and> (\<forall>x v. scalar v \<longrightarrow> x \<noteq> SqlNull \<longrightarrow> sq_cmp db CmpNe x v = (\<not> sq_cmp db CmpEq x v))
     \<and> (\<forall>cmp d v y. toFloat env v = Some y \<longrightarrow> sq_cmp db cmp (SqlNum d) v = satisfy cmp d y)
     \<and> (\<forall>cmp b c. sq_cmp db cmp (SqlNum (boolToFloat b)) (JBool c) = satisfy cmp (boolToFloat b) (boolToFloat c))
     \<and> (\<forall>p. \<not> sq_like db SqlNull p)"

text \<open>One tag is compared as a number or as text, whatever name the rule uses for it, and a field whose default is a truth value
  is one of the truth fields.\<close>

definition fields_consistent :: "field_map \<Rightarrow> bool" where
  "fields_consistent fm \<longleftrightarrow>
     (\<forall>a b i j. LookupField fm a = Some i \<longrightarrow> LookupField fm b = Some j \<longrightarrow> fi_IsTag i \<longrightarrow> fi_IsTag j \<longrightarrow>
        fi_name i = fi_name j \<longrightarrow> fi_Numeric i = fi_Numeric j)
     \<and> (\<forall>a i. LookupField fm a = Some i \<longrightarrow> to_lower (fi_name i) = fi_name i)
     \<and> (\<forall>a i f b. LookupField fm a = Some i \<longrightarrow> map_of smartPlaylistFields (fi_name i) = Some f \<longrightarrow>
          sf_coalesceDefault f = Some (JBool b) \<longrightarrow> fi_Boolean i)"

fun single_rules :: "Expression \<Rightarrow> bool" where
  "single_rules (AllOf es) = list_all single_rules es"
| "single_rules (AnyOf es) = list_all single_rules es"
| "single_rules (Rule op m) = (length m = 1)"

subsection \<open>The condition means what the rules mean\<close>

lemma smartPlaylistFields_defaults:
  "map_of smartPlaylistFields name = Some f \<Longrightarrow> sf_coalesceDefault f = Some d \<Longrightarrow> d = JBool False \<or> d = JNum 0"
proof -
  have "list_all (\<lambda>(n, f). sf_coalesceDefault f = None \<or> sf_coalesceDefault f = Some (JBool False) \<or> sf_coalesceDefault f = Some (JNum 0))
      smartPlaylistFields"
    by (simp add: smartPlaylistFields_def column_def)
  then show "map_of smartPlaylistFields name = Some f \<Longrightarrow> sf_coalesceDefault f = Some d \<Longrightarrow> ?thesis"
    by (auto simp: list_all_iff dest!: map_of_SomeD)
qed

lemma sql_lawsD:
  assumes "sql_laws env db"
  shows "scalar v \<Longrightarrow> \<not> sq_cmp db cmp SqlNull v"
    and "sq_cmp db CmpEq x JNull \<longleftrightarrow> x = SqlNull" "sq_cmp db CmpNe x JNull \<longleftrightarrow> x \<noteq> SqlNull"
    and "scalar v \<Longrightarrow> x \<noteq> SqlNull \<Longrightarrow> sq_cmp db CmpNe x v \<longleftrightarrow> \<not> sq_cmp db CmpEq x v"
    and "toFloat env v = Some y \<Longrightarrow> sq_cmp db cmp (SqlNum d) v \<longleftrightarrow> satisfy cmp d y"
    and "sq_cmp db cmp (SqlNum (boolToFloat b)) (JBool c) \<longleftrightarrow> satisfy cmp (boolToFloat b) (boolToFloat c)"
    and "\<not> sq_like db SqlNull p"
  using assms unfolding sql_laws_def by blast+

lemma toFloat_scalar: "toFloat env v = Some y \<Longrightarrow> scalar v"
  by (cases v) simp_all

lemma normal_bool: "normalizeBoolValue v = v \<Longrightarrow> ToBool v = Some b \<Longrightarrow> v = JBool b"
  by (simp add: normalizeBoolValue_def)

text \<open>The bare comparison, with the missing rows where the default satisfies it, is the comparison with the default.\<close>

lemma annotationCond_eval:
  assumes laws: "sql_laws env db" and f: "map_of smartPlaylistFields name = Some f" "sf_coalesceDefault f = Some d"
    and norm: "ordering cmp \<or> (\<forall>b. d = JBool b \<longrightarrow> normalizeBoolValue v = v)"
  shows "eval_sql db row (annotationCond env f d cmp v) \<longleftrightarrow> sq_cmp db cmp (eval_col row (coalesced f)) v"
proof (cases "bareNullInclusion env d cmp v")
  case None
  then show ?thesis by (simp add: annotationCond_def)
next
  case (Some wrapNull)
  have "scalar v \<and> (wrapNull \<longleftrightarrow> sq_cmp db cmp (sql_default d) v)"
    using smartPlaylistFields_defaults [OF f]
  proof
    assume d: "d = JBool False"
    with Some obtain b where b: "\<not> ordering cmp" "ToBool v = Some b" "wrapNull = satisfy cmp (boolToFloat False) (boolToFloat b)"
      by (auto simp: bareNullInclusion_def split: if_splits)
    with norm d have "v = JBool b" using normal_bool by blast
    with b d show ?thesis using sql_lawsD(6) [OF laws] by simp
  next
    assume d: "d = JNum 0"
    with Some obtain y where y: "toFloat env v = Some y" "wrapNull = satisfy cmp 0 y"
      by (auto simp: bareNullInclusion_def split: option.splits)
    with d show ?thesis using sql_lawsD(5) [OF laws] toFloat_scalar by simp
  qed
  then have v: "scalar v" and w: "wrapNull \<longleftrightarrow> sq_cmp db cmp (sql_default d) v" by simp_all
  show ?thesis
  proof (cases "row_col row (sf_expr f) = SqlNull")
    case True
    with Some v w f(2) sql_lawsD(1,2) [OF laws] show ?thesis
      by (auto simp: annotationCond_def coalesced_def Let_def)
  next
    case False
    with Some f(2) sql_lawsD(2) [OF laws] show ?thesis
      by (auto simp: annotationCond_def coalesced_def Let_def)
  qed
qed

lemma fields_consistentD:
  assumes "fields_consistent fm" "LookupField fm a = Some i"
  shows "to_lower (fi_name i) = fi_name i"
    and "map_of smartPlaylistFields (fi_name i) = Some f \<Longrightarrow> sf_coalesceDefault f = Some (JBool b) \<Longrightarrow> fi_Boolean i"
    and "LookupField fm c = Some j \<Longrightarrow> fi_IsTag i \<Longrightarrow> fi_IsTag j \<Longrightarrow> fi_name i = fi_name j \<Longrightarrow> fi_Numeric i = fi_Numeric j"
  using assms unfolding fields_consistent_def by blast+

lemma sqlField_Some:
  assumes "fields_consistent (se_fields env)" "LookupField (se_fields env) field = Some info" "sqlField env field = Some c"
  shows "\<not> multi_valued info \<and> (\<exists>f. map_of smartPlaylistFields (fi_name info) = Some f \<and> sf_expr f \<noteq> [] \<and> c = Col (sf_expr f))"
  using assms fields_consistentD(1) [OF assms(1,2)]
  by (auto simp: sqlField_def fieldExpr_def multi_valued_def split: option.splits if_splits)

lemma value_holds_fun:
  "value_holds db (ValueCmp cmp v) = (\<lambda>x. sq_cmp db cmp x v)" "value_holds db (ValueLike p) = (\<lambda>x. sq_like db x p)"
  by (rule ext, simp)+

lemma list_ex_True: "list_ex (\<lambda>x. True) xs \<longleftrightarrow> xs \<noteq> []"
  by (cases xs) simp_all

lemma jsonExpr_eval:
  "multi_valued info \<Longrightarrow> eval_sql db row (jsonExpr info (Some c) negate) \<longleftrightarrow> field_holds db row info (value_holds db c) \<noteq> negate"
  "multi_valued info \<Longrightarrow> eval_sql db row (jsonExpr info None negate) \<longleftrightarrow> (field_values db row info \<noteq> []) \<noteq> negate"
  by (auto simp: jsonExpr_def field_holds_def field_values_def list_ex_iff [of "value_holds db c"] list_ex_iff [of "\<lambda>x. value_holds db c (f x)" for f]
      list_ex_True)

lemma comparisonExpr_eval:
  assumes laws: "sql_laws env db" and fm: "fields_consistent (se_fields env)"
    and info: "LookupField (se_fields env) field = Some info"
    and norm: "ordering cmp \<or> (fi_Boolean info \<longrightarrow> normalizeBoolValue v = v)"
    and c: "comparisonExpr env [(field, v)] cmp = Some c"
  shows "eval_sql db row c \<longleftrightarrow> field_holds db row info (\<lambda>x. sq_cmp db cmp x v)"
proof (cases "multi_valued info")
  case True
  with c info have "c = jsonExpr info (Some (ValueCmp cmp v)) False"
    by (auto simp: comparisonExpr_def singleField_def multi_valued_def)
  with True show ?thesis by (simp add: jsonExpr_eval value_holds_fun)
next
  case False
  show ?thesis
  proof (cases "annotationField info")
    case None
    with c info False obtain col where "sqlField env field = Some col" "c = SCmp cmp [(col, v)]"
      by (auto simp: comparisonExpr_def singleField_def multi_valued_def comparisonFields_def both_Some)
    with sqlField_Some [OF fm info] None False show ?thesis
      by (auto simp: field_holds_def field_value_def annotationField_def coalesced_def)
  next
    case (Some fd)
    then obtain f d where f: "fd = (f, d)" "map_of smartPlaylistFields (fi_name info) = Some f" "sf_coalesceDefault f = Some d"
      by (auto simp: annotationField_def split: option.splits)
    with c info False Some have "c = annotationCond env f d cmp v"
      by (auto simp: comparisonExpr_def singleField_def multi_valued_def)
    moreover have "ordering cmp \<or> (\<forall>b. d = JBool b \<longrightarrow> normalizeBoolValue v = v)"
      using norm fields_consistentD(2) [OF fm info f(2)] f(3) by blast
    ultimately show ?thesis
      using annotationCond_eval [OF laws f(2,3)] False f(2) by (simp add: field_holds_def field_value_def)
  qed
qed

lemma likeExpr_eval:
  assumes laws: "sql_laws env db" and fm: "fields_consistent (se_fields env)"
    and info: "LookupField (se_fields env) field = Some info"
    and c: "likeExpr env [(field, v)] pattern negate = Some c"
  shows "eval_sql db row c \<longleftrightarrow>
    (if negate then (multi_valued info \<or> field_value row info \<noteq> SqlNull) \<and> \<not> field_holds db row info (\<lambda>x. sq_like db x (like_text env pattern v))
     else field_holds db row info (\<lambda>x. sq_like db x (like_text env pattern v)))"
proof (cases "multi_valued info")
  case True
  with c info have "c = jsonExpr info (Some (ValueLike (like_text env pattern v))) negate"
    by (auto simp: likeExpr_def singleField_def multi_valued_def)
  with True show ?thesis by (auto simp: jsonExpr_eval value_holds_fun)
next
  case False
  have "\<exists>col. c = SLike negate [(col, like_text env pattern v)] \<and> eval_col row col = field_value row info"
  proof (cases "annotationField info")
    case None
    with c info False obtain col where "sqlField env field = Some col" "c = SLike negate [(col, like_text env pattern v)]"
      by (auto simp: likeExpr_def singleField_def multi_valued_def likeFields_def both_Some)
    with sqlField_Some [OF fm info] None show ?thesis
      by (auto simp: field_value_def annotationField_def coalesced_def)
  next
    case (Some fd)
    then obtain f d where "fd = (f, d)" "map_of smartPlaylistFields (fi_name info) = Some f"
      by (auto simp: annotationField_def split: option.splits)
    with c info False Some show ?thesis
      by (auto simp: likeExpr_def singleField_def multi_valued_def field_value_def)
  qed
  with False sql_lawsD(7) [OF laws] show ?thesis
    by (auto simp: field_holds_def)
qed

lemma missingExpr_eval:
  assumes laws: "sql_laws env db" and info: "LookupField (se_fields env) field = Some info"
    and c: "missingExpr env [(field, v)] checkAbsence = Some c"
  shows "eval_sql db row c \<longleftrightarrow> field_missing db row info = (v = JBool checkAbsence)"
proof -
  obtain b where v: "v = JBool b"
    using c info by (cases v) (auto simp: missingExpr_def singleField_def)
  show ?thesis
  proof (cases "multi_valued info")
    case True
    with c info v have "c = jsonExpr info None (checkAbsence = b)"
      by (auto simp: missingExpr_def singleField_def multi_valued_def)
    with True v show ?thesis by (auto simp: jsonExpr_eval field_missing_def)
  next
    case False
    obtain f where f: "map_of smartPlaylistFields (fi_name info) = Some f"
      using c info v False by (auto simp: missingExpr_def singleField_def multi_valued_def split: if_splits option.splits)
    define empties where "empties = (if \<not> fi_Numeric info \<and> \<not> fi_Boolean info then [] # sf_emptyValues f else [])"
    have cond: "c = (if checkAbsence = b
        then SOr (SCmp CmpEq [(Col (sf_expr f), JNull)] # map (\<lambda>e. SCmp CmpEq [(Col (sf_expr f), JStr e)]) empties)
        else SAnd (SCmp CmpNe [(Col (sf_expr f), JNull)] # map (\<lambda>e. SCmp CmpNe [(Col (sf_expr f), JStr e)]) empties))"
      using c info v False f by (auto simp: missingExpr_def singleField_def multi_valued_def empties_def Let_def split: if_splits)
    have missing: "field_missing db row info \<longleftrightarrow>
        bare_value row info = SqlNull \<or> (\<exists>e \<in> set empties. sq_cmp db CmpEq (bare_value row info) (JStr e))"
      using False f by (auto simp: field_missing_def empties_def list_ex_iff)
    have bare: "bare_value row info = row_col row (sf_expr f)" using f by (simp add: bare_value_def)
    show ?thesis
      using sql_lawsD(2,3) [OF laws] sql_lawsD(4) [OF laws, of "JStr e" for e] v
      by (auto simp: cond missing bare list_ex_iff list_all_iff)
  qed
qed

lemma rangeExpr_eval:
  assumes laws: "sql_laws env db" and fm: "fields_consistent (se_fields env)"
    and info: "LookupField (se_fields env) field = Some info"
    and c: "rangeExpr env [(field, v)] = Some c"
  shows "eval_sql db row c \<longleftrightarrow>
    (case v of JArr [lo, hi] \<Rightarrow> field_holds db row info (\<lambda>x. sq_cmp db CmpGe x lo \<and> sq_cmp db CmpLe x hi) | _ \<Rightarrow> False)"
proof -
  have single: "\<not> multi_valued info"
    using c info by (auto simp: rangeExpr_def singleField_def multi_valued_def split: if_splits)
  obtain lo hi low high where v: "v = JArr [lo, hi]" and b: "comparisonExpr env [(field, lo)] CmpGe = Some low"
      "comparisonExpr env [(field, hi)] CmpLe = Some high" and "c = SAnd [low, high]"
    using c info single
    by (auto simp: rangeExpr_def singleField_def multi_valued_def both_Some split: json.splits list.splits)
  moreover have "ordering CmpGe" "ordering CmpLe" by (simp_all add: ordering_def)
  ultimately show ?thesis
    using comparisonExpr_eval [OF laws fm info _ b(1)] comparisonExpr_eval [OF laws fm info _ b(2)] single
    by (simp add: field_holds_def)
qed

lemma periodExpr_eval:
  assumes laws: "sql_laws env db" and fm: "fields_consistent (se_fields env)"
    and info: "LookupField (se_fields env) field = Some info"
    and c: "periodExpr env [(field, v)] negate = Some c"
  shows "eval_sql db row c \<longleftrightarrow>
    (if negate then bare_value row info = SqlNull \<or> sq_cmp db CmpLt (bare_value row info) (period_start env v)
     else sq_cmp db CmpGt (bare_value row info) (period_start env v))"
proof -
  obtain col days where col: "sqlField env field = Some col" and "parse_int64 10 (se_fmt env v) = Some days"
    and "c = (if negate then SOr [SCmp CmpLt [(col, period_start env v)], SCmp CmpEq [(col, JNull)]] else SCmp CmpGt [(col, period_start env v)])"
    using c by (auto simp: periodExpr_def both_def Let_def period_start_def split: option.splits)
  moreover have "eval_col row col = bare_value row info"
    using sqlField_Some [OF fm info col] by (auto simp: bare_value_def)
  ultimately show ?thesis
    using sql_lawsD(2) [OF laws] by auto
qed

lemma inList_eval:
  assumes "inList env [(field, v)] negate = Some c"
  obtains pid where "field = ''id''" "v = JStr pid"
    "eval_sql db row c \<longleftrightarrow> (owner_sees env db pid \<and> (pid, row_id row) \<in> set (sq_tracks db)) \<noteq> negate"
proof -
  obtain pid where "field = ''id''" "v = JStr pid"
    and c: "c = SInPlaylist pid (if se_isAdmin env then AnyPlaylist
        else if se_ownerID env = [] then PublicPlaylist else PublicOrOwned (se_ownerID env)) negate"
    using assms by (auto simp: inList_def split: if_splits json.splits)
  moreover have "eval_sql db row c \<longleftrightarrow> (owner_sees env db pid \<and> (pid, row_id row) \<in> set (sq_tracks db)) \<noteq> negate"
    by (auto simp: c in_playlist_def owner_sees_def split: option.splits)
  ultimately show ?thesis by (intro that)
qed

lemma field_holds_like:
  "sql_laws env db \<Longrightarrow> field_holds db row info (\<lambda>x. x \<noteq> SqlNull \<and> sq_like db x p) \<longleftrightarrow> field_holds db row info (\<lambda>x. sq_like db x p)"
proof -
  assume "sql_laws env db"
  then have "x \<noteq> SqlNull \<and> sq_like db x p \<longleftrightarrow> sq_like db x p" for x
    using sql_lawsD(7) [of env db p] by auto
  then show ?thesis by simp
qed

definition playlist_op :: "rule_op \<Rightarrow> bool" where
  "playlist_op op \<longleftrightarrow> op = RuleInPlaylist \<or> op = RuleNotInPlaylist"

lemma ruleSQL_field:
  "ruleSQL env op [(field, v)] = Some c \<Longrightarrow> \<not> playlist_op op \<Longrightarrow> \<exists>info. LookupField (se_fields env) field = Some info"
  by (cases op) (auto simp: comparisonExpr_def isNotExpr_def likeExpr_def rangeExpr_def periodExpr_def missingExpr_def singleField_def
      comparisonFields_def likeFields_def sqlField_def playlist_op_def both_def split: option.splits)

lemma ruleSQL_eval:
  assumes laws: "sql_laws env db" and fm: "fields_consistent (se_fields env)"
    and norm: "normal_rule (se_fields env) (Rule op [(field, v)])" and c: "ruleSQL env op [(field, v)] = Some c"
  shows "eval_sql db row c \<longleftrightarrow> rule_holds env db row op [(field, v)]"
proof (cases "playlist_op op")
  case True
  then have "inList env [(field, v)] (op = RuleNotInPlaylist) = Some c"
    using c by (auto simp: playlist_op_def)
  then show ?thesis
    by (rule inList_eval [of env field v _ c db row]) (use True in \<open>auto simp: playlist_op_def\<close>)
next
  case False
  then obtain info where info: "LookupField (se_fields env) field = Some info"
    using ruleSQL_field [OF c] by blast
  have bool: "fi_Boolean info \<longrightarrow> normalizeBoolValue v = v"
    using norm info by (simp add: normalizeBoolFields_def split: if_splits)
  note cmp = comparisonExpr_eval [OF laws fm info disjI2 [OF bool]] and like = likeExpr_eval [OF laws fm info]
  have isNot: "isNotExpr env [(field, v)] = Some c \<Longrightarrow> eval_sql db row c \<longleftrightarrow> holds_on env db row RuleIsNot v info"
  proof -
    assume n: "isNotExpr env [(field, v)] = Some c"
    show ?thesis
    proof (cases "multi_valued info")
      case True
      with n info have "c = jsonExpr info (Some (ValueCmp CmpEq v)) True"
        by (auto simp: isNotExpr_def singleField_def multi_valued_def)
      with True show ?thesis by (simp add: jsonExpr_eval value_holds_fun)
    next
      case False
      with n info have "comparisonExpr env [(field, v)] CmpNe = Some c"
        by (auto simp: isNotExpr_def singleField_def multi_valued_def)
      with cmp False show ?thesis by simp
    qed
  qed
  have "eval_sql db row c \<longleftrightarrow> holds_on env db row op v info"
    using c False cmp isNot like rangeExpr_eval [OF laws fm info, of v c row] periodExpr_eval [OF laws fm info, of v _ c row]
      missingExpr_eval [OF laws info, of v _ c row]
    by (cases op) (simp_all add: playlist_op_def field_holds_like [OF laws])
  with False info show ?thesis by (simp add: playlist_op_def)
qed

text \<open>The tag conditions of an expression carry the flag of their field.\<close>

definition flag_of_field :: "field_map \<Rightarrow> sql_cond \<Rightarrow> bool" where
  "flag_of_field fm s \<longleftrightarrow>
     (case s of
        TagCond tag numeric c negate \<Rightarrow> (\<exists>a i. LookupField fm a = Some i \<and> fi_IsTag i \<and> fi_name i = tag \<and> fi_Numeric i = numeric)
      | _ \<Rightarrow> True)"

lemma flag_of_field_simps [simp]:
  "flag_of_field fm (SAnd cs)" "flag_of_field fm (SOr cs)" "flag_of_field fm (SCmp cmp fs)" "flag_of_field fm (SLike n ls)"
  "flag_of_field fm (SInPlaylist pid flt n)"
  by (simp_all add: flag_of_field_def)

lemma flag_of_field_json:
  "LookupField fm a = Some info \<Longrightarrow> fi_IsTag info \<or> fi_IsRole info \<Longrightarrow> flag_of_field fm (jsonExpr info c negate)"
  by (auto simp: jsonExpr_def flag_of_field_def)

lemma comparisonExpr_flag: "comparisonExpr env m cmp = Some c \<Longrightarrow> flag_of_field (se_fields env) c"
  by (auto simp: comparisonExpr_def comparisonFields_def singleField_def annotationCond_def Let_def
      split: option.splits if_splits list.splits intro: flag_of_field_json)

lemma ruleSQL_flag: "ruleSQL env op m = Some c \<Longrightarrow> flag_of_field (se_fields env) c"
  by (cases op) (auto simp: isNotExpr_def likeExpr_def likeFields_def rangeExpr_def periodExpr_def missingExpr_def inList_def singleField_def
      Let_def both_Some split: option.splits if_splits list.splits json.splits intro: flag_of_field_json comparisonExpr_flag)

lemma exprSQL_flag: "exprSQL env e = Some c \<Longrightarrow> flag_of_field (se_fields env) c"
  by (cases e) (auto simp: mergeJsonConds_def mergeNegatedJsonConds_def ruleSQL_flag)

lemma exprsSQL_flag: "exprsSQL env es = Some cs \<Longrightarrow> \<forall>c \<in> set cs. flag_of_field (se_fields env) c"
  by (induction es arbitrary: cs) (auto simp: both_Some exprSQL_flag)

lemma merge_key_flag:
  "flag_of_field fm s \<Longrightarrow> merge_key negated s = Some (key, e) \<Longrightarrow>
     has_prefix key ''role:'' \<or> (\<exists>tag a i. key = ''tag:'' @ tag \<and> LookupField fm a = Some i \<and> fi_IsTag i \<and> fi_name i = tag \<and> fi_Numeric i = fst e)"
proof (cases s)
  case (RoleCond role c negate)
  assume "merge_key negated s = Some (key, e)"
  with RoleCond show ?thesis by (cases c) (auto simp: has_prefix_def split: if_splits)
next
  case (TagCond tag numeric c negate)
  assume "flag_of_field fm s" "merge_key negated s = Some (key, e)"
  with TagCond show ?thesis by (cases c) (auto simp: flag_of_field_def split: if_splits)
qed simp_all

lemma flags_same:
  assumes fm: "fields_consistent fm" and flags: "\<forall>c \<in> set cs. flag_of_field fm c"
  shows "same_flag key (group_entries negated key cs)"
  unfolding same_flag_def
proof (intro ballI)
  fix e assume e: "e \<in> set (group_entries negated key cs)"
  let ?h = "hd (group_entries negated key cs)"
  have h: "?h \<in> set (group_entries negated key cs)" using e by (intro hd_in_set) auto
  show "has_prefix key ''role:'' \<or> fst e = fst ?h"
  proof (cases "has_prefix key ''role:''")
    case False
    obtain s t where "s \<in> set cs" "merge_key negated s = Some (key, e)" "t \<in> set cs" "merge_key negated t = Some (key, ?h)"
      using e h by (auto simp: set_group_entries)
    with flags False merge_key_flag [of fm s negated key e] merge_key_flag [of fm t negated key ?h] show ?thesis
      using fields_consistentD(3) [OF fm] by (metis append_eq_append_conv)
  qed simp
qed

lemma exprSQL_eval:
  shows "sql_laws env db \<Longrightarrow> fields_consistent (se_fields env) \<Longrightarrow> single_rules e \<Longrightarrow> normal_rule (se_fields env) e \<Longrightarrow>
      exprSQL env e = Some c \<Longrightarrow> eval_sql db row c \<longleftrightarrow> sat env db row e"
    and "sql_laws env db \<Longrightarrow> fields_consistent (se_fields env) \<Longrightarrow> list_all single_rules es \<Longrightarrow>
      list_all (normal_rule (se_fields env)) es \<Longrightarrow> exprsSQL env es = Some cs \<Longrightarrow>
      map (eval_sql db row) cs = map (sat env db row) es"
proof (induction env e and env es arbitrary: c and cs rule: exprSQL_exprsSQL.induct)
  case (1 env es)
  then obtain cs where cs: "exprsSQL env es = Some cs" and c: "c = mergeNegatedJsonConds cs" by auto
  have "eval_sql db row c \<longleftrightarrow> (\<forall>s \<in> set cs. eval_sql db row s)"
    unfolding c by (intro mergeNegatedJsonConds_eval flags_same [OF 1(3) exprsSQL_flag [OF cs]])
  also have "\<dots> \<longleftrightarrow> (\<forall>b \<in> set (map (eval_sql db row) cs). b)" by simp
  also have "\<dots> \<longleftrightarrow> list_all (sat env db row) es"
    using 1 cs by (simp add: list_all_iff)
  finally show ?case by simp
next
  case (2 env es)
  then obtain cs where cs: "exprsSQL env es = Some cs" and c: "c = mergeJsonConds cs" by auto
  have "eval_sql db row c \<longleftrightarrow> (\<exists>s \<in> set cs. eval_sql db row s)"
    unfolding c by (intro mergeJsonConds_eval flags_same [OF 2(3) exprsSQL_flag [OF cs]])
  also have "\<dots> \<longleftrightarrow> (\<exists>b \<in> set (map (eval_sql db row) cs). b)" by simp
  also have "\<dots> \<longleftrightarrow> list_ex (sat env db row) es"
    using 2 cs by (simp add: list_ex_iff)
  finally show ?case by simp
next
  case (3 env op m)
  then obtain field v where "m = [(field, v)]" by (cases m) auto
  with 3 show ?case using ruleSQL_eval [of env db op field v c row] by simp
next
  case (5 env e es)
  then show ?case by (auto simp: both_Some)
qed simp

subsection \<open>The tables a condition needs are joined\<close>

fun cond_cols :: "sql_cond \<Rightarrow> string list" where
  "cond_cols (SAnd cs) = concat (map cond_cols cs)"
| "cond_cols (SOr cs) = concat (map cond_cols cs)"
| "cond_cols (SCmp cmp cols) = map (\<lambda>(c, v). case c of Col e \<Rightarrow> e | Coalesce e d \<Rightarrow> e) cols"
| "cond_cols (SLike negate cols) = map (\<lambda>(c, v). case c of Col e \<Rightarrow> e | Coalesce e d \<Rightarrow> e) cols"
| "cond_cols c = []"

definition table_of :: "string \<Rightarrow> string" where
  "table_of col = takeWhile (\<lambda>c. c \<noteq> CHR ''.'') col"

fun join_table :: "join_type \<Rightarrow> string" where
  "join_table JoinAlbumAnnotation = ''album_annotation''"
| "join_table JoinArtistAnnotation = ''artist_annotation''"
| "join_table JoinAlbum = ''album''"

text \<open>The tables of every query, and those of the joins.\<close>

definition joined :: "join_type list \<Rightarrow> string \<Rightarrow> bool" where
  "joined joins col \<longleftrightarrow> table_of col = ''media_file'' \<or> table_of col = ''annotation'' \<or> table_of col \<in> join_table ` set joins"

lemma joined_mono: "joined js col \<Longrightarrow> set js \<subseteq> set ks \<Longrightarrow> joined ks col"
  by (auto simp: joined_def)

lemma smartPlaylistFields_joined:
  "map_of smartPlaylistFields name = Some f \<Longrightarrow> sf_expr f \<noteq> [] \<Longrightarrow> joined (sf_joinType f) (sf_expr f)"
proof -
  have "list_all (\<lambda>(n, f). sf_expr f = [] \<or> joined (sf_joinType f) (sf_expr f)) smartPlaylistFields"
    by (simp add: smartPlaylistFields_def column_def joined_def table_of_def)
  then show "map_of smartPlaylistFields name = Some f \<Longrightarrow> sf_expr f \<noteq> [] \<Longrightarrow> ?thesis"
    by (auto simp: list_all_iff dest!: map_of_SomeD)
qed

lemma sqlField_joined:
  assumes "fields_consistent (se_fields env)" "sqlField env field = Some c"
  shows "\<exists>e. c = Col e \<and> joined (fieldJoinType (se_fields env) field) e"
proof -
  obtain info where info: "LookupField (se_fields env) field = Some info"
    using assms(2) by (auto simp: sqlField_def split: option.splits)
  with sqlField_Some [OF assms(1) info assms(2)] smartPlaylistFields_joined show ?thesis
    by (auto simp: fieldJoinType_def)
qed

lemma annotation_joined:
  "LookupField fm field = Some info \<Longrightarrow> annotationField info = Some (f, d) \<Longrightarrow> joined (fieldJoinType fm field) (sf_expr f)"
proof -
  assume info: "LookupField fm field = Some info" and "annotationField info = Some (f, d)"
  then have f: "map_of smartPlaylistFields (fi_name info) = Some f" "sf_coalesceDefault f = Some d"
    by (auto simp: annotationField_def split: option.splits)
  have "list_all (\<lambda>(n, f). sf_coalesceDefault f = None \<or> sf_expr f \<noteq> []) smartPlaylistFields"
    by (simp add: smartPlaylistFields_def column_def)
  with f have "sf_expr f \<noteq> []"
    by (auto simp: list_all_iff dest!: map_of_SomeD)
  with f info smartPlaylistFields_joined show ?thesis by (simp add: fieldJoinType_def)
qed

definition rule_joins :: "field_map \<Rightarrow> (string \<times> json) list \<Rightarrow> join_type list" where
  "rule_joins fm m = concat (map (\<lambda>(f, v). fieldJoinType fm f) m)"

lemma sqlFields_joined:
  assumes "fields_consistent (se_fields env)"
  shows "sqlFields env m = Some cols \<Longrightarrow> (c, v) \<in> set cols \<Longrightarrow> \<exists>e. c = Col e \<and> joined (rule_joins (se_fields env) m) e"
proof (induction m arbitrary: cols)
  case (Cons fv m)
  obtain field w where "fv = (field, w)" by (cases fv)
  with Cons sqlField_joined [OF assms, of field] show ?case
    by (fastforce simp: both_Some rule_joins_def intro: joined_mono)
qed simp

lemma comparisonExpr_joined:
  assumes fm: "fields_consistent (se_fields env)" and c: "comparisonExpr env m cmp = Some c" and col: "col \<in> set (cond_cols c)"
  shows "joined (rule_joins (se_fields env) m) col"
proof -
  have plain: ?thesis if "comparisonFields env m cmp = Some c"
    using that col sqlFields_joined [OF fm, of m] by (force simp: comparisonFields_def)
  show ?thesis
  proof (cases "singleField env m")
    case None
    with c plain show ?thesis by (simp add: comparisonExpr_def)
  next
    case (Some r)
    then obtain field v info where m: "m = [(field, v)]" "r = (field, v, info)" and info: "LookupField (se_fields env) field = Some info"
      by (auto simp: singleField_def split: list.splits)
    show ?thesis
      using c col plain m info Some annotation_joined [OF info]
      by (auto simp: comparisonExpr_def jsonExpr_def annotationCond_def rule_joins_def Let_def coalesced_def
          split: option.splits if_splits)
  qed
qed

lemma likeExpr_joined:
  assumes fm: "fields_consistent (se_fields env)" and c: "likeExpr env m p n = Some c" and col: "col \<in> set (cond_cols c)"
  shows "joined (rule_joins (se_fields env) m) col"
proof -
  have plain: ?thesis if "likeFields env m p n = Some c"
    using that col sqlFields_joined [OF fm, of m] by (force simp: likeFields_def)
  show ?thesis
  proof (cases "singleField env m")
    case None
    with c plain show ?thesis by (simp add: likeExpr_def)
  next
    case (Some r)
    then obtain field v info where m: "m = [(field, v)]" "r = (field, v, info)" and info: "LookupField (se_fields env) field = Some info"
      by (auto simp: singleField_def split: list.splits)
    show ?thesis
      using c col plain m info Some annotation_joined [OF info]
      by (auto simp: likeExpr_def jsonExpr_def rule_joins_def coalesced_def split: option.splits if_splits)
  qed
qed

lemma rangeExpr_joined:
  assumes fm: "fields_consistent (se_fields env)" and c: "rangeExpr env m = Some c" and col: "col \<in> set (cond_cols c)"
  shows "joined (rule_joins (se_fields env) m) col"
proof -
  obtain field v info where m: "m = [(field, v)]" and info: "singleField env m = Some (field, v, info)"
    using c by (auto simp: rangeExpr_def singleField_def split: option.splits list.splits)
  with c obtain lo hi low high where "comparisonExpr env [(field, lo)] CmpGe = Some low" "comparisonExpr env [(field, hi)] CmpLe = Some high"
      "c = SAnd [low, high]"
    by (auto simp: rangeExpr_def both_Some split: json.splits list.splits if_splits)
  with col m comparisonExpr_joined [OF fm] show ?thesis by (fastforce simp: rule_joins_def)
qed

lemma periodExpr_joined:
  assumes fm: "fields_consistent (se_fields env)" and c: "periodExpr env m n = Some c" and col: "col \<in> set (cond_cols c)"
  shows "joined (rule_joins (se_fields env) m) col"
  using c col sqlFields_joined [OF fm, of m]
  by (force simp: periodExpr_def Let_def split: option.splits list.splits if_splits)

lemma missingExpr_joined:
  assumes c: "missingExpr env m n = Some c" and col: "col \<in> set (cond_cols c)"
  shows "joined (rule_joins (se_fields env) m) col"
proof -
  obtain field b info where m: "m = [(field, JBool b)]" and info: "LookupField (se_fields env) field = Some info"
    and s: "singleField env m = Some (field, JBool b, info)"
    using c by (auto simp: missingExpr_def singleField_def split: option.splits list.splits json.splits)
  have "col = sf_expr f \<Longrightarrow> map_of smartPlaylistFields (fi_name info) = Some f \<Longrightarrow> sf_expr f \<noteq> [] \<Longrightarrow> ?thesis" for f
    using smartPlaylistFields_joined m info by (simp add: rule_joins_def fieldJoinType_def)
  with c col s show ?thesis
    by (auto simp: missingExpr_def jsonExpr_def Let_def split: option.splits if_splits)
qed

lemma ruleSQL_joined:
  assumes "fields_consistent (se_fields env)" "ruleSQL env op m = Some c" "col \<in> set (cond_cols c)"
  shows "joined (rule_joins (se_fields env) m) col"
proof -
  have "isNotExpr env m = Some c \<Longrightarrow> ?thesis"
    using comparisonExpr_joined [OF assms(1) _ assms(3)] assms(3)
    by (auto simp: isNotExpr_def jsonExpr_def split: option.splits if_splits)
  moreover have "inList env m n = Some c \<Longrightarrow> ?thesis" for n
    using assms(3) by (auto simp: inList_def split: option.splits json.splits)
  ultimately show ?thesis
    using assms(2) comparisonExpr_joined [OF assms(1) _ assms(3)] likeExpr_joined [OF assms(1) _ assms(3)]
      rangeExpr_joined [OF assms(1) _ assms(3)] periodExpr_joined [OF assms(1) _ assms(3)] missingExpr_joined [OF _ assms(3)]
    by (cases op) auto
qed

text \<open>Merging drops no column and adds none.\<close>

lemma cond_cols_merge: "s \<in> set (mergeSameFieldConds conds negated) \<Longrightarrow> s \<in> set conds \<or> cond_cols s = []"
  by (auto simp: mergeSameFieldConds_def Let_def group_conds_def split: if_splits option.splits)

lemma exprSQL_joined:
  shows "fields_consistent (se_fields env) \<Longrightarrow> exprSQL env e = Some c \<Longrightarrow> col \<in> set (cond_cols c) \<Longrightarrow>
      joined (ExpressionJoins (se_fields env) e) col"
    and "fields_consistent (se_fields env) \<Longrightarrow> exprsSQL env es = Some cs \<Longrightarrow> s \<in> set cs \<Longrightarrow> col \<in> set (cond_cols s) \<Longrightarrow>
      joined (concat (map (ExpressionJoins (se_fields env)) es)) col"
proof (induction env e and env es arbitrary: c and cs s rule: exprSQL_exprsSQL.induct)
  case (1 env es)
  then show ?case using cond_cols_merge by (fastforce simp: mergeNegatedJsonConds_def)
next
  case (2 env es)
  then show ?case using cond_cols_merge by (fastforce simp: mergeJsonConds_def)
next
  case (3 env op m)
  then show ?case using ruleSQL_joined [of env op m c col] by (simp add: rule_joins_def)
next
  case (5 env e es)
  then show ?case by (fastforce simp: both_Some intro: joined_mono)
qed simp

subsection \<open>Periods\<close>

lemma wrap64_id: "- (2 ^ 63) \<le> i \<Longrightarrow> i < 2 ^ 63 \<Longrightarrow> wrap64 i = i"
  by (simp add: wrap64_def)

text \<open>Up to 106751 days the period is what it says. Beyond, the duration wraps: the start of the period can lie in the future.\<close>

lemma startOfPeriod_days: "0 \<le> n \<Longrightarrow> n \<le> 106751 \<Longrightarrow> startOfPeriod n t = t - n * 24 * hour"
  by (simp add: startOfPeriod_def wrap64_id hour_def second_def)

lemma period_wraps: "t < startOfPeriod 150000 t"
  by (simp add: startOfPeriod_def wrap64_def hour_def second_def)

subsection \<open>The built-in fields\<close>

lemma LookupField_entry:
  "LookupField fm a = Some i \<Longrightarrow>
     \<exists>f. map_of fm (to_lower a) = Some f \<and> i = f\<lparr>fi_name := (if fi_Alias f \<noteq> [] then fi_Alias f else to_lower a)\<rparr>"
  by (auto simp: LookupField_def)

definition entry_name :: "string \<times> FieldInfo \<Rightarrow> string" where
  "entry_name = (\<lambda>(k, f). if fi_Alias f \<noteq> [] then fi_Alias f else k)"

text \<open>The fields with a truth value as default.\<close>

definition truth_names :: "string list" where
  "truth_names = [''loved'', ''albumloved'', ''artistloved'']"

lemma truth_defaults: "list_all (\<lambda>(k, g). case sf_coalesceDefault g of Some (JBool b) \<Rightarrow> k \<in> set truth_names | _ \<Rightarrow> True) smartPlaylistFields"
  by (simp add: smartPlaylistFields_def column_def truth_names_def)

definition entry_ok :: "string \<times> FieldInfo \<Rightarrow> bool" where
  "entry_ok e \<longleftrightarrow>
     to_lower (entry_name e) = entry_name e \<and> (entry_name e \<in> set truth_names \<longrightarrow> fi_Boolean (snd e))
     \<and> (fi_IsTag (snd e) \<longrightarrow> fst e = ''albumtype'')"

lemma fieldMap_entries: "list_all entry_ok fieldMap"
  by code_simp

lemma fields_consistent_fieldMap: "fields_consistent fieldMap"
proof -
  have entry: "\<exists>f. entry_ok (to_lower a, f) \<and> map_of fieldMap (to_lower a) = Some f
      \<and> i = f\<lparr>fi_name := entry_name (to_lower a, f)\<rparr>" if i: "LookupField fieldMap a = Some i" for a i
  proof -
    obtain f where f: "map_of fieldMap (to_lower a) = Some f" "i = f\<lparr>fi_name := (if fi_Alias f \<noteq> [] then fi_Alias f else to_lower a)\<rparr>"
      using LookupField_entry [OF i] by blast
    then have "entry_ok (to_lower a, f)"
      using fieldMap_entries map_of_SomeD by (fastforce simp: list_all_iff)
    with f show ?thesis by (intro exI [of _ f]) (simp add: entry_name_def)
  qed
  have truth: "name \<in> set truth_names" if "map_of smartPlaylistFields name = Some g" "sf_coalesceDefault g = Some (JBool b)" for name g b
    using truth_defaults map_of_SomeD [OF that(1)] that(2) by (force simp: list_all_iff)
  show ?thesis
    unfolding fields_consistent_def
  proof (intro conjI allI impI)
    fix a b i j
    assume i: "LookupField fieldMap a = Some i" "fi_IsTag i" and j: "LookupField fieldMap b = Some j" "fi_IsTag j"
    obtain f where f: "entry_ok (to_lower a, f)" "map_of fieldMap (to_lower a) = Some f" "i = f\<lparr>fi_name := entry_name (to_lower a, f)\<rparr>"
      using entry [OF i(1)] by blast
    obtain g where g: "entry_ok (to_lower b, g)" "map_of fieldMap (to_lower b) = Some g" "j = g\<lparr>fi_name := entry_name (to_lower b, g)\<rparr>"
      using entry [OF j(1)] by blast
    have "to_lower a = to_lower b" using f g i j by (simp add: entry_ok_def)
    with f g show "fi_Numeric i = fi_Numeric j" by simp
  next
    fix a i
    assume "LookupField fieldMap a = Some i"
    from entry [OF this] show "to_lower (fi_name i) = fi_name i" by (auto simp: entry_ok_def)
  next
    fix a i g b
    assume i: "LookupField fieldMap a = Some i" and g: "map_of smartPlaylistFields (fi_name i) = Some g" "sf_coalesceDefault g = Some (JBool b)"
    from entry [OF i] truth [OF g] show "fi_Boolean i" by (auto simp: entry_ok_def)
  qed
qed

subsection \<open>A database for examples\<close>

definition sample_cmp :: "comparator \<Rightarrow> sqlval \<Rightarrow> json \<Rightarrow> bool" where
  "sample_cmp cmp x v =
     (case v of
        JNum n \<Rightarrow> (case x of SqlNum d \<Rightarrow> satisfy cmp d n | SqlText s \<Rightarrow> cmp = CmpNe | SqlNull \<Rightarrow> False)
      | JBool b \<Rightarrow> (case x of SqlNum d \<Rightarrow> satisfy cmp d (boolToFloat b) | SqlText s \<Rightarrow> cmp = CmpNe | SqlNull \<Rightarrow> False)
      | JStr t \<Rightarrow> (case x of SqlNum d \<Rightarrow> cmp = CmpNe | SqlText s \<Rightarrow> if cmp = CmpEq then s = t else cmp = CmpNe \<and> s \<noteq> t | SqlNull \<Rightarrow> False)
      | JNull \<Rightarrow> if cmp = CmpEq then x = SqlNull else cmp = CmpNe \<and> x \<noteq> SqlNull
      | _ \<Rightarrow> False)"

definition sample_db :: sqlite where
  "sample_db = \<lparr>sq_cmp = sample_cmp, sq_like = (\<lambda>x p. x = SqlText p), sq_real = (\<lambda>x. x), sq_tracks = [(''p1'', ''m1'')],
     sq_playlists = Map.empty\<rparr>"

definition sample_env :: sql_env where
  "sample_env = \<lparr>se_fmt = (\<lambda>v. case v of JStr s \<Rightarrow> s | _ \<Rightarrow> []), se_parseFloat = (\<lambda>s. None), se_day = (\<lambda>t. []), se_now = 0,
     se_fields = fieldMap, se_ownerID = ''u'', se_isAdmin = False\<rparr>"

lemma sample_laws: "sql_laws sample_env sample_db"
proof -
  have scalars: "\<not> sample_cmp cmp SqlNull v" "x \<noteq> SqlNull \<Longrightarrow> sample_cmp CmpNe x v \<longleftrightarrow> \<not> sample_cmp CmpEq x v" if "scalar v" for cmp v x
    using that by (cases v; cases x; simp add: sample_cmp_def)+
  have "sample_cmp cmp (SqlNum d) v = satisfy cmp d y" if "toFloat sample_env v = Some y" for cmp d v y
    using that by (cases v) (simp_all add: sample_cmp_def sample_env_def)
  then show ?thesis
    using scalars by (simp add: sql_laws_def sample_db_def) (simp add: sample_cmp_def)
qed

text \<open>A song without an annotation of the user.\<close>

definition sample_row :: sql_row where
  "sample_row = \<lparr>row_id = ''m1'', row_col = (\<lambda>c. if c = ''media_file.title'' then SqlText ''Song'' else SqlNull),
     row_tags = (\<lambda>t. if t = ''releasetype'' then [SqlText ''live''] else []), row_artists = (\<lambda>r. [])\<rparr>"

definition sample_tree :: Expression where
  "sample_tree = AllOf [Rule RuleLt [(''rating'', JNum 3)], Rule RuleIsNot [(''loved'', JBool True)],
     Rule RuleIsNot [(''albumtype'', JStr ''single'')], Rule RuleNotContains [(''ALBUMTYPE'', JStr ''remix'')],
     AnyOf [Rule RuleIsMissing [(''comment'', JBool True)], Rule RuleInPlaylist [(''id'', JStr ''p1'')]]]"

subsection \<open>Main properties\<close>

text \<open>
  C15: The SQL condition of a smart playlist selects exactly the rows on which its rules hold: annotations that are missing count as
  their defaults although the condition compares the bare column, and the batches of merged tag and role conditions, negated or
  not, mean what the single ones do.
\<close>

theorem smart_condition_correct:
  assumes "sql_laws env db" "fields_consistent (se_fields env)" "single_rules e" "normal_rule (se_fields env) e"
    and "cx_Expression c = Some e" "Where_sql env c = Some cond"
  shows "eval_sql db row cond \<longleftrightarrow> sat env db row e"
  using exprSQL_eval(1) assms by (simp add: Where_sql_def)

lemma smart_condition_correct_witness:
  "(case Where_sql sample_env (no_criteria\<lparr>cx_Expression := Some sample_tree\<rparr>) of
      None \<Rightarrow> False | Some cond \<Rightarrow> eval_sql sample_db sample_row cond) \<and> sat sample_env sample_db sample_row sample_tree"
proof -
  let ?c = "no_criteria\<lparr>cx_Expression := Some sample_tree\<rparr>"
  have rules: "single_rules sample_tree" "normal_rule (se_fields sample_env) sample_tree" by code_simp+
  have sat: "sat sample_env sample_db sample_row sample_tree" by code_simp
  have "Where_sql sample_env ?c \<noteq> None" by code_simp
  then obtain cond where "Where_sql sample_env ?c = Some cond" by blast
  with smart_condition_correct [of sample_env sample_db sample_tree ?c cond sample_row] rules sat show ?thesis
    by (simp add: sample_laws fields_consistent_fieldMap sample_env_def [THEN arg_cong [where f = se_fields], simplified])
qed

text \<open>
  C40: Every column that the condition names belongs to a table of the query: \<open>media_file\<close>, \<open>annotation\<close>, or one that
  \<open>RequiredJoins\<close> adds for the fields of the rules.
\<close>

theorem condition_tables_joined:
  assumes "fields_consistent (se_fields env)" "Where_sql env c = Some cond" "col \<in> set (cond_cols cond)"
  shows "joined (RequiredJoins (se_fields env) c) col"
proof (cases "cx_Expression c")
  case None
  with assms show ?thesis by (auto simp: Where_sql_def)
next
  case (Some e)
  with assms exprSQL_joined(1) [of env e cond col] show ?thesis
    by (auto simp: Where_sql_def RequiredJoins_def intro: joined_mono)
qed

lemma condition_tables_joined_witness:
  "(case Where_sql sample_env (no_criteria\<lparr>cx_Expression := Some (AnyOf [Rule RuleGt [(''albumplaycount'', JNum 3)]])\<rparr>) of
      None \<Rightarrow> False | Some cond \<Rightarrow> ''album_annotation.play_count'' \<in> set (cond_cols cond))
   \<and> joined (RequiredJoins fieldMap (no_criteria\<lparr>cx_Expression := Some (AnyOf [Rule RuleGt [(''albumplaycount'', JNum 3)]])\<rparr>))
       ''album_annotation.play_count''"
proof -
  let ?c = "no_criteria\<lparr>cx_Expression := Some (AnyOf [Rule RuleGt [(''albumplaycount'', JNum 3)]])\<rparr>"
  have w: "case Where_sql sample_env ?c of None \<Rightarrow> False | Some cond \<Rightarrow> ''album_annotation.play_count'' \<in> set (cond_cols cond)"
    by code_simp
  then obtain cond where "Where_sql sample_env ?c = Some cond" "''album_annotation.play_count'' \<in> set (cond_cols cond)"
    by (auto split: option.splits)
  with condition_tables_joined [of sample_env ?c cond] w show ?thesis
    by (simp add: fields_consistent_fieldMap sample_env_def [THEN arg_cong [where f = se_fields], simplified])
qed

end
