(* ===== verification/Smart_Refresh.thy ===== *)
theory Smart_Refresh
  imports Smart_Sql Playlist_Tracks
begin

text \<open>
  \<open>persistence/smart_playlist_repository.go\<close>: the refresh of a smart playlist over the tables of \<open>Playlist_Tracks\<close>. The playlists
  that its rules name are refreshed first, from the copies that one query has read, and so on down: a
  recursion that the code does not bound, so it is a partial function. The clock stands still during a refresh.
\<close>

subsection \<open>The refresh\<close>

text \<open>The server's refresh delay, the criteria that the stored rules decode to, the comparisons of the database, the media files in the
  libraries of a user, joined with the user's annotations, and the two orders of a query: the one that numbers the rows and
  the one that the limit cuts.\<close>

record refresh_env =
  rf_sql :: sql_env
  rf_delay :: Duration
  rf_criteria :: "Criteria \<Rightarrow> criteria_rules"
  rf_sqlite :: sqlite
  rf_rows :: "string \<Rightarrow> sql_row list"
  rf_window :: "string \<Rightarrow> sql_row list \<Rightarrow> sql_row list"
  rf_sorted :: "string \<Rightarrow> sql_row list \<Rightarrow> sql_row list"

definition user_id :: "refresh_env \<Rightarrow> string" where
  "user_id env = se_ownerID (rf_sql env)"

definition criteria_of :: "refresh_env \<Rightarrow> Playlist \<Rightarrow> criteria_rules" where
  "criteria_of env pls = (case pl_Rules pls of Some r \<Rightarrow> rf_criteria env r | None \<Rightarrow> no_criteria)"

definition shouldRefreshSmartPlaylist :: "refresh_env \<Rightarrow> Playlist \<Rightarrow> bool" where
  "shouldRefreshSmartPlaylist env pls \<longleftrightarrow>
     IsSmartPlaylist pls
     \<and> (case pl_EvaluatedAt pls of None \<Rightarrow> True | Some t \<Rightarrow> \<not> se_now (rf_sql env) - t < RefreshDelay (rf_delay env) pls)
     \<and> pl_OwnerID pls = user_id env"

text \<open>\<open>GetAll\<close> with the filter on the identifiers and the filter on what the user may see.\<close>

definition user_sees :: "refresh_env \<Rightarrow> Playlist \<Rightarrow> bool" where
  "user_sees env pls \<longleftrightarrow> se_isAdmin (rf_sql env) \<or> pl_Public pls \<or> pl_OwnerID pls = user_id env"

definition childPlaylists :: "refresh_env \<Rightarrow> Playlist \<Rightarrow> playlist_db \<Rightarrow> Playlist list" where
  "childPlaylists env pls db =
     filter (user_sees env) (List.map_filter (pd_playlists db) (ChildPlaylistIds (criteria_of env pls)))"

text \<open>The tables as the conditions see them.\<close>

definition sqlite_of :: "refresh_env \<Rightarrow> playlist_db \<Rightarrow> sqlite" where
  "sqlite_of env db = (rf_sqlite env)
     \<lparr>sq_tracks := map (\<lambda>r. (ptr_playlist r, ptr_media r)) (pd_tracks db),
      sq_playlists := (\<lambda>pid. map_option (\<lambda>p. (pl_Public p, pl_OwnerID p)) (pd_playlists db pid))\<rparr>"

definition matching_rows :: "refresh_env \<Rightarrow> playlist_db \<Rightarrow> sql_cond \<Rightarrow> sql_row list" where
  "matching_rows env db cond = filter (\<lambda>row. eval_sql (sqlite_of env db) row cond) (rf_rows env (user_id env))"

definition resolvePercentageLimit :: "refresh_env \<Rightarrow> playlist_db \<Rightarrow> criteria_rules \<Rightarrow> criteria_rules option" where
  "resolvePercentageLimit env db c =
     (if \<not> IsPercentageLimit c then Some c
      else map_option (\<lambda>cond. ResolveLimit (int (length (matching_rows env db cond))) c) (Where_sql (rf_sql env) c))"

text \<open>The rows the statement inserts, with the number that \<open>row_number()\<close> gives each; a negative offset, which \<open>uint64\<close> makes
  huge, is an error of the statement, like an empty order.\<close>

definition position_in :: "sql_row list \<Rightarrow> sql_row \<Rightarrow> int" where
  "position_in rows row = int (length (takeWhile (\<lambda>r. row_id r \<noteq> row_id row) rows)) + 1"

definition buildSmartPlaylistQuery :: "refresh_env \<Rightarrow> playlist_db \<Rightarrow> Playlist \<Rightarrow> criteria_rules \<Rightarrow> pt_row list option" where
  "buildSmartPlaylistQuery env db pls c =
     (case Where_sql (rf_sql env) c of
        None \<Rightarrow> None
      | Some cond \<Rightarrow>
          let order = OrderBy_sql (se_fields (rf_sql env)) c;
              rows = matching_rows env db cond;
              sorted = rf_sorted env order rows
          in if order = [] \<or> cx_Limit c > 0 \<and> cx_Offset c < 0 then None
             else
               let selected = (if cx_Limit c > 0 then take (nat (cx_Limit c)) (drop (nat (cx_Offset c)) sorted) else sorted)
               in Some (map (\<lambda>row. music_row (pl_ID pls) (position_in (rf_window env order rows) row) (row_id row)) selected))"

definition set_evaluated :: "refresh_env \<Rightarrow> string \<Rightarrow> db_action" where
  "set_evaluated env pid db =
     (None, db\<lparr>pd_playlists := (pd_playlists db)
        (pid := map_option (\<lambda>p. p\<lparr>pl_EvaluatedAt := Some (se_now (rf_sql env))\<rparr>) (pd_playlists db pid))\<rparr>)"

text \<open>The part of the refresh after its children: limit, query, insertion, counters, time stamp. A failing step leaves what the earlier
  ones did.\<close>

definition fill_playlist :: "refresh_env \<Rightarrow> Playlist \<Rightarrow> playlist_db \<Rightarrow> playlist_db" where
  "fill_playlist env pls db =
     (case resolvePercentageLimit env db (criteria_of env pls) of
        None \<Rightarrow> db
      | Some c \<Rightarrow>
          (case buildSmartPlaylistQuery env db pls c of
             None \<Rightarrow> db
           | Some rows \<Rightarrow>
               snd (and_then (insert_tracks rows) (and_then (refreshCounters (pl_ID pls)) (set_evaluated env (pl_ID pls))) db)))"

definition clear_playlist :: "Playlist \<Rightarrow> playlist_db \<Rightarrow> playlist_db" where
  "clear_playlist pls db = snd (delete_rows (\<lambda>r. ptr_playlist r = pl_ID pls) db)"

text \<open>The refresh of a list of playlists, one after the other: \<open>refreshSmartPlaylist\<close> is a list of one, and \<open>refreshChildPlaylists\<close>
  the list of the children. \<open>None\<close> stands for a run that does not end.\<close>

partial_function (option) refreshPlaylists :: "refresh_env \<Rightarrow> Playlist list \<Rightarrow> playlist_db \<Rightarrow> playlist_db option" where
  "refreshPlaylists env list db =
     (case list of
        [] \<Rightarrow> Some db
      | pls # rest \<Rightarrow>
          if \<not> shouldRefreshSmartPlaylist env pls then refreshPlaylists env rest db
          else Option.bind (refreshPlaylists env (childPlaylists env pls (clear_playlist pls db)) (clear_playlist pls db))
            (\<lambda>db1. refreshPlaylists env rest (fill_playlist env pls db1)))"

definition refreshSmartPlaylist :: "refresh_env \<Rightarrow> Playlist \<Rightarrow> playlist_db \<Rightarrow> playlist_db option" where
  "refreshSmartPlaylist env pls db = refreshPlaylists env [pls] db"

lemma refreshPlaylists_simps [simp]:
  "refreshPlaylists env [] db = Some db"
  "\<not> shouldRefreshSmartPlaylist env pls \<Longrightarrow> refreshPlaylists env (pls # rest) db = refreshPlaylists env rest db"
  "shouldRefreshSmartPlaylist env pls \<Longrightarrow> refreshPlaylists env (pls # rest) db =
     Option.bind (refreshPlaylists env (childPlaylists env pls (clear_playlist pls db)) (clear_playlist pls db))
       (\<lambda>db1. refreshPlaylists env rest (fill_playlist env pls db1))"
  by (subst refreshPlaylists.simps, simp)+

subsection \<open>What a refresh leaves alone\<close>

text \<open>The identity and the rules of every playlist.\<close>

definition rules_of :: "playlist_db \<Rightarrow> string \<Rightarrow> (string \<times> Criteria option) option" where
  "rules_of db pid = map_option (\<lambda>p. (pl_ID p, pl_Rules p)) (pd_playlists db pid)"

lemma clear_playlist_db [simp]:
  "pd_playlists (clear_playlist pls db) = pd_playlists db" "pd_files (clear_playlist pls db) = pd_files db"
  "pd_tracks (clear_playlist pls db) = filter (\<lambda>r. ptr_playlist r \<noteq> pl_ID pls) (pd_tracks db)"
  by (simp_all add: clear_playlist_def delete_rows_def exec_tracks_def)

lemma rules_of_clear [simp]: "rules_of (clear_playlist pls db) = rules_of db"
  by (simp add: rules_of_def fun_eq_iff)

lemma insert_tracks_db:
  "insert_tracks rows db = (err, db1) \<Longrightarrow> pd_playlists db1 = pd_playlists db"
  by (auto simp: insert_tracks_def exec_tracks_def split: sum.splits)

lemma rules_of_fill [simp]: "rules_of (fill_playlist env pls db) = rules_of db"
proof -
  have "rules_of (snd (and_then (insert_tracks rows) (and_then (refreshCounters pid) (set_evaluated env pid)) db)) = rules_of db"
    for rows pid
  proof (cases "insert_tracks rows db")
    case (Pair err db1)
    with insert_tracks_db [OF Pair] show ?thesis
      by (cases err) (auto simp: and_then_def refreshCounters_def set_evaluated_def rules_of_def fun_eq_iff Let_def option.map_comp comp_def)
  qed
  then show ?thesis by (simp add: fill_playlist_def split: option.splits)
qed

subsection \<open>Termination\<close>

text \<open>One playlist names another in its rules.\<close>

definition refers :: "refresh_env \<Rightarrow> playlist_db \<Rightarrow> string \<Rightarrow> string \<Rightarrow> bool" where
  "refers env db p q \<longleftrightarrow>
     (\<exists>pls. pd_playlists db p = Some pls \<and> IsSmartPlaylist pls \<and> q \<in> set (ChildPlaylistIds (criteria_of env pls)))"

definition ids_match :: "playlist_db \<Rightarrow> bool" where
  "ids_match db \<longleftrightarrow> (\<forall>pid p. pd_playlists db pid = Some p \<longrightarrow> pl_ID p = pid)"

lemma childPlaylists_stored:
  assumes "c \<in> set (childPlaylists env pls db)" "rules_of db = rules_of db0" "ids_match db0"
  shows "rules_of db0 (pl_ID c) = Some (pl_ID c, pl_Rules c) \<and> pl_ID c \<in> set (ChildPlaylistIds (criteria_of env pls))"
proof -
  obtain pid where pid: "pid \<in> set (ChildPlaylistIds (criteria_of env pls))" "pd_playlists db pid = Some c"
    using assms(1) by (auto simp: childPlaylists_def List.map_filter_def)
  then have r: "rules_of db0 pid = Some (pl_ID c, pl_Rules c)"
    by (simp add: rules_of_def flip: assms(2))
  moreover have "pl_ID c = pid"
    using r assms(3) by (auto simp: rules_of_def ids_match_def)
  ultimately show ?thesis using pid by simp
qed

lemma criteria_of_rules: "pl_Rules p = pl_Rules q \<Longrightarrow> criteria_of env p = criteria_of env q \<and> IsSmartPlaylist p = IsSmartPlaylist q"
  by (simp add: criteria_of_def IsSmartPlaylist_def)

lemma refreshPlaylists_terminates:
  fixes rank :: "string \<Rightarrow> nat"
  assumes ids: "ids_match db0" and rank: "\<And>p q. refers env db0 p q \<Longrightarrow> rank q < rank p"
  shows "(\<And>pls. pls \<in> set list \<Longrightarrow> rules_of db0 (pl_ID pls) = Some (pl_ID pls, pl_Rules pls) \<and> rank (pl_ID pls) < n) \<Longrightarrow>
      rules_of db = rules_of db0 \<Longrightarrow> \<exists>db'. refreshPlaylists env list db = Some db' \<and> rules_of db' = rules_of db0"
proof (induction n arbitrary: list db)
  case 0
  then show ?case by (cases list) auto
next
  case (Suc n)
  note outer = Suc.IH
  from Suc.prems show ?case
  proof (induction list arbitrary: db)
    case (Cons pls rest)
    show ?case
    proof (cases "shouldRefreshSmartPlaylist env pls")
      case True
      let ?children = "childPlaylists env pls (clear_playlist pls db)"
      obtain p0 where p0: "pd_playlists db0 (pl_ID pls) = Some p0" "pl_Rules p0 = pl_Rules pls"
        using Cons.prems(1) [of pls] by (auto simp: rules_of_def)
      have "rules_of db0 (pl_ID c) = Some (pl_ID c, pl_Rules c) \<and> rank (pl_ID c) < n" if c: "c \<in> set ?children" for c
      proof -
        have stored: "rules_of db0 (pl_ID c) = Some (pl_ID c, pl_Rules c)" "pl_ID c \<in> set (ChildPlaylistIds (criteria_of env pls))"
          using childPlaylists_stored [OF c _ ids] Cons.prems(2) by simp_all
        then have "refers env db0 (pl_ID pls) (pl_ID c)"
          using p0 True criteria_of_rules [OF p0(2)] by (auto simp: refers_def shouldRefreshSmartPlaylist_def)
        with rank have "rank (pl_ID c) < rank (pl_ID pls)" by blast
        with Cons.prems(1) [of pls] stored show ?thesis by force
      qed
      then obtain db1 where db1: "refreshPlaylists env ?children (clear_playlist pls db) = Some db1" "rules_of db1 = rules_of db0"
        using outer [of ?children "clear_playlist pls db"] Cons.prems(2) by auto
      have "\<exists>db'. refreshPlaylists env rest (fill_playlist env pls db1) = Some db' \<and> rules_of db' = rules_of db0"
        using Cons.prems(1) db1(2) by (intro Cons.IH) simp_all
      with True db1 show ?thesis by simp
    next
      case False
      with Cons show ?thesis by simp
    qed
  qed simp
qed

text \<open>A playlist whose rules name itself is refreshed for ever: the time stamp that would stop the recursion is set at its end.\<close>

definition names_itself :: "refresh_env \<Rightarrow> playlist_db \<Rightarrow> Playlist \<Rightarrow> bool" where
  "names_itself env db pls \<longleftrightarrow>
     shouldRefreshSmartPlaylist env pls \<and> user_sees env pls \<and> pd_playlists db (pl_ID pls) = Some pls
     \<and> ChildPlaylistIds (criteria_of env pls) = [pl_ID pls]"

lemma refreshPlaylists_self:
  assumes "refreshPlaylists env list db = Some db'"
  shows "\<not> (list \<noteq> [] \<and> names_itself env db (hd list))"
proof (rule refreshPlaylists.raw_induct [where P = "\<lambda>env list db y. \<not> (list \<noteq> [] \<and> names_itself env db (hd list))", OF _ assms])
  fix refresh :: "refresh_env \<Rightarrow> Playlist list \<Rightarrow> playlist_db \<Rightarrow> playlist_db option" and env list db db'
  assume IH: "\<And>env list db y. refresh env list db = Some y \<Longrightarrow> \<not> (list \<noteq> [] \<and> names_itself env db (hd list))"
    and body: "(case list of [] \<Rightarrow> Some db | pls # rest \<Rightarrow>
          if \<not> shouldRefreshSmartPlaylist env pls then refresh env rest db
          else Option.bind (refresh env (childPlaylists env pls (clear_playlist pls db)) (clear_playlist pls db))
            (\<lambda>db1. refresh env rest (fill_playlist env pls db1))) = Some db'"
  show "\<not> (list \<noteq> [] \<and> names_itself env db (hd list))"
  proof
    assume l: "list \<noteq> [] \<and> names_itself env db (hd list)"
    then obtain pls rest where list: "list = pls # rest" and self: "names_itself env db pls"
      by (cases list) auto
    let ?db = "clear_playlist pls db"
    have children: "childPlaylists env pls ?db = [pls]"
      using self by (simp add: childPlaylists_def names_itself_def List.map_filter_simps)
    obtain db1 where "refresh env [pls] ?db = Some db1"
      using body self unfolding list by (auto simp: children names_itself_def bind_eq_Some_conv)
    then have "\<not> ([pls] \<noteq> [] \<and> names_itself env ?db (hd [pls]))" by (rule IH)
    moreover have "names_itself env ?db pls" using self by (simp add: names_itself_def)
    ultimately show False by simp
  qed
qed

lemma self_reference_diverges:
  "names_itself env db pls \<Longrightarrow> refreshSmartPlaylist env pls db = None"
  using refreshPlaylists_self [of env "[pls]" db] by (cases "refreshSmartPlaylist env pls db") (auto simp: refreshSmartPlaylist_def)

subsection \<open>What a refresh writes\<close>

lemma insert_rows_fresh:
  "\<forall>r \<in> set rs. playlist_exists (ptr_playlist r) \<and> ptr_source r \<in> {''music'', ''hometube''} \<Longrightarrow> distinct (map row_key rs) \<Longrightarrow>
     row_key ` set rs \<inter> row_key ` set t = {} \<Longrightarrow> insert_rows playlist_exists rs t = Inr (t @ rs)"
proof (induction rs arbitrary: t)
  case (Cons r rs)
  then have "insert_rows playlist_exists (r # rs) t = insert_rows playlist_exists rs (t @ [r])" by auto
  also have "\<dots> = Inr ((t @ [r]) @ rs)" using Cons.prems by (intro Cons.IH) auto
  finally show ?case by simp
qed simp

lemma takeWhile_shorter: "\<exists>x \<in> set xs. \<not> P x \<Longrightarrow> length (takeWhile P xs) < length xs"
  by (induction xs) auto

lemma position_in_inj:
  assumes "row_id a \<in> row_id ` set rows" "position_in rows a = position_in rows b"
  shows "row_id a = row_id b"
proof -
  let ?n = "\<lambda>r. length (takeWhile (\<lambda>r'. row_id r' \<noteq> row_id r) rows)"
  have n: "?n a = ?n b" using assms(2) by (simp add: position_in_def)
  have "?n a < length rows"
    using assms(1) by (intro takeWhile_shorter) force
  then show ?thesis
    using n nth_length_takeWhile [of "\<lambda>r'. row_id r' \<noteq> row_id a" rows] nth_length_takeWhile [of "\<lambda>r'. row_id r' \<noteq> row_id b" rows] by metis
qed

text \<open>The orders of a query permute its rows.\<close>

definition orders_rows :: "refresh_env \<Rightarrow> bool" where
  "orders_rows env \<longleftrightarrow> (\<forall>order rows. mset (rf_window env order rows) = mset rows \<and> mset (rf_sorted env order rows) = mset rows)"

lemma distinct_ids_mset: "mset xs = mset ys \<Longrightarrow> distinct (map f ys) \<Longrightarrow> distinct (map f xs)"
  by (metis mset_eq_imp_distinct_iff mset_map)

text \<open>The number of tracks: the limit, of what the offset leaves.\<close>

definition selected_count :: "criteria_rules \<Rightarrow> nat \<Rightarrow> nat" where
  "selected_count c n = (if cx_Limit c > 0 then min (nat (cx_Limit c)) (n - nat (cx_Offset c)) else n)"

lemma buildSmartPlaylistQuery_rows:
  assumes orders: "orders_rows env" and ids: "distinct (map row_id (rf_rows env (user_id env)))"
    and q: "buildSmartPlaylistQuery env db pls c = Some rows" and cond: "Where_sql (rf_sql env) c = Some cond"
  shows "distinct (map row_key rows)" "distinct (map ptr_media rows)"
    and "set (map ptr_media rows) \<subseteq> row_id ` set (matching_rows env db cond)"
    and "length rows = selected_count c (length (matching_rows env db cond))"
    and "\<forall>r \<in> set rows. ptr_playlist r = pl_ID pls \<and> ptr_source r = ''music''"
proof -
  define order where "order = OrderBy_sql (se_fields (rf_sql env)) c"
  define match where "match = matching_rows env db cond"
  define sorted where "sorted = rf_sorted env order match"
  define selected where "selected = (if cx_Limit c > 0 then take (nat (cx_Limit c)) (drop (nat (cx_Offset c)) sorted) else sorted)"
  define window where "window = rf_window env order match"
  have rows: "rows = map (\<lambda>row. music_row (pl_ID pls) (position_in window row) (row_id row)) selected"
    using q cond by (auto simp: buildSmartPlaylistQuery_def order_def match_def sorted_def selected_def window_def Let_def split: if_splits)
  have m: "mset sorted = mset match" "mset window = mset match"
    using orders by (simp_all add: orders_rows_def sorted_def window_def)
  have sets: "set sorted = set match" "set window = set match"
    using m by (metis mset_eq_setD)+
  have "distinct (map row_id match)"
    using ids by (simp add: match_def matching_rows_def distinct_map_filter)
  then have "distinct (map row_id sorted)"
    using m(1) by (rule distinct_ids_mset [rotated])
  then have d: "distinct (map row_id selected)"
    by (simp add: selected_def take_map [symmetric] drop_map [symmetric])
  have sub: "set selected \<subseteq> set match"
    using sets(1) by (auto simp: selected_def dest: in_set_takeD in_set_dropD)
  have media: "map ptr_media rows = map row_id selected"
    by (simp add: rows music_row_def)
  show "distinct (map ptr_media rows)" "set (map ptr_media rows) \<subseteq> row_id ` set (matching_rows env db cond)"
    using d sub by (auto simp: media match_def)
  show "length rows = selected_count c (length (matching_rows env db cond))"
    using arg_cong [OF m(1), of size] by (simp add: rows selected_def selected_count_def match_def min.commute)
  show "\<forall>r \<in> set rows. ptr_playlist r = pl_ID pls \<and> ptr_source r = ''music''"
    by (auto simp: rows music_row_def)
  have "inj_on (\<lambda>row. position_in window row) (set selected)"
  proof (rule inj_onI)
    fix a b assume ab: "a \<in> set selected" "b \<in> set selected" "position_in window a = position_in window b"
    then have "row_id a = row_id b"
      using sub sets(2) by (intro position_in_inj [of a window b]) auto
    with ab d show "a = b" by (auto simp: distinct_map inj_on_def)
  qed
  then show "distinct (map row_key rows)"
    using d by (auto simp: rows music_row_def row_key_def comp_def distinct_map inj_on_def)
qed

lemma fill_playlist_rows:
  assumes orders: "orders_rows env" and ids: "distinct (map row_id (rf_rows env (user_id env)))"
    and c: "resolvePercentageLimit env db (criteria_of env pls) = Some c"
    and q: "buildSmartPlaylistQuery env db pls c = Some rows"
    and exists: "pd_playlists db (pl_ID pls) = Some p" and empty: "tracks_of (pl_ID pls) (pd_tracks db) = []"
  shows "pd_tracks (fill_playlist env pls db) = pd_tracks db @ rows"
    and "\<exists>p'. pd_playlists (fill_playlist env pls db) (pl_ID pls) = Some p' \<and> pl_EvaluatedAt p' = Some (se_now (rf_sql env))"
proof -
  obtain cond where cond: "Where_sql (rf_sql env) c = Some cond"
    using q by (auto simp: buildSmartPlaylistQuery_def split: option.splits)
  note r = buildSmartPlaylistQuery_rows [OF orders ids q cond]
  have "row_key x \<noteq> row_key y" if "x \<in> set rows" "y \<in> set (pd_tracks db)" for x y
    using that r(5) empty by (auto simp: row_key_def tracks_of_def filter_empty_conv)
  then have disjoint: "row_key ` set rows \<inter> row_key ` set (pd_tracks db) = {}"
    unfolding disjoint_iff by (metis imageE)
  have "insert_rows (\<lambda>pid. pid \<in> dom (pd_playlists db)) rows (pd_tracks db) = Inr (pd_tracks db @ rows)"
    using r(5) exists disjoint by (intro insert_rows_fresh r(1)) auto
  then have ins: "insert_tracks rows db = (None, db\<lparr>pd_tracks := pd_tracks db @ rows\<rparr>)"
    by (simp add: insert_tracks_def exec_tracks_def)
  show "pd_tracks (fill_playlist env pls db) = pd_tracks db @ rows"
    "\<exists>p'. pd_playlists (fill_playlist env pls db) (pl_ID pls) = Some p' \<and> pl_EvaluatedAt p' = Some (se_now (rf_sql env))"
    using exists by (simp_all add: fill_playlist_def c q ins and_then_def refreshCounters_def set_evaluated_def Let_def)
qed

lemma refreshPlaylists_rules:
  assumes "refreshPlaylists env list db = Some db'"
  shows "rules_of db' = rules_of db"
proof (rule refreshPlaylists.raw_induct [where P = "\<lambda>env list db y. rules_of y = rules_of db", OF _ assms])
  fix refresh :: "refresh_env \<Rightarrow> Playlist list \<Rightarrow> playlist_db \<Rightarrow> playlist_db option" and env list db db'
  assume IH: "\<And>env list db y. refresh env list db = Some y \<Longrightarrow> rules_of y = rules_of db"
    and body: "(case list of [] \<Rightarrow> Some db | pls # rest \<Rightarrow>
          if \<not> shouldRefreshSmartPlaylist env pls then refresh env rest db
          else Option.bind (refresh env (childPlaylists env pls (clear_playlist pls db)) (clear_playlist pls db))
            (\<lambda>db1. refresh env rest (fill_playlist env pls db1))) = Some db'"
  show "rules_of db' = rules_of db"
  proof (cases list)
    case (Cons pls rest)
    with body show ?thesis
      by (auto simp: bind_eq_Some_conv dest!: IH split: if_splits)
  qed (use body in simp)
qed

lemma sql_laws_of [simp]: "sql_laws env (sqlite_of renv db) = sql_laws env (rf_sqlite renv)"
  by (simp add: sql_laws_def sqlite_of_def)

lemma ResolveLimit_simps [simp]:
  "cx_Expression (ResolveLimit n c) = cx_Expression c" "cx_Offset (ResolveLimit n c) = cx_Offset c"
  "OrderBy_sql fm (ResolveLimit n c) = OrderBy_sql fm c"
  by (simp_all add: ResolveLimit_def OrderBy_sql_def OrderByFields_def)

text \<open>The tracks that satisfy the rules, at the moment the children are done.\<close>

definition satisfying_rows :: "refresh_env \<Rightarrow> playlist_db \<Rightarrow> Expression \<Rightarrow> sql_row list" where
  "satisfying_rows env db e = filter (\<lambda>row. sat (rf_sql env) (sqlite_of env db) row e) (rf_rows env (user_id env))"

definition rules_apply :: "refresh_env \<Rightarrow> criteria_rules \<Rightarrow> Expression \<Rightarrow> bool" where
  "rules_apply env c e \<longleftrightarrow>
     cx_Expression c = Some e \<and> single_rules e \<and> normal_rule (se_fields (rf_sql env)) e \<and> exprSQL (rf_sql env) e \<noteq> None
     \<and> OrderBy_sql (se_fields (rf_sql env)) c \<noteq> [] \<and> 0 \<le> cx_Offset c"

subsection \<open>Main properties\<close>

text \<open>
  C16: After a refresh that the owner triggers and whose children are done, the playlist holds tracks that satisfy its rules, each
  once, and as many as the limit (a number, or a percentage of the matching tracks, at least one) allows.
\<close>

theorem smart_refresh_fills:
  assumes env: "orders_rows env" "distinct (map row_id (rf_rows env (user_id env)))" "sql_laws (rf_sql env) (rf_sqlite env)"
      "fields_consistent (se_fields (rf_sql env))"
    and pls: "shouldRefreshSmartPlaylist env pls" "pd_playlists db (pl_ID pls) = Some pls" "rules_apply env (criteria_of env pls) e"
    and children: "refreshPlaylists env (childPlaylists env pls (clear_playlist pls db)) (clear_playlist pls db) = Some db1"
      "tracks_of (pl_ID pls) (pd_tracks db1) = []"
  shows "\<exists>db'. refreshSmartPlaylist env pls db = Some db'
    \<and> distinct (map ptr_media (tracks_of (pl_ID pls) (pd_tracks db')))
    \<and> set (map ptr_media (tracks_of (pl_ID pls) (pd_tracks db'))) \<subseteq> row_id ` set (satisfying_rows env db1 e)
    \<and> length (tracks_of (pl_ID pls) (pd_tracks db')) =
        selected_count (ResolveLimit (int (length (satisfying_rows env db1 e))) (criteria_of env pls)) (length (satisfying_rows env db1 e))"
proof -
  let ?sql = "rf_sql env"
  obtain cond where e: "cx_Expression (criteria_of env pls) = Some e" "exprSQL ?sql e = Some cond"
    and wf: "single_rules e" "normal_rule (se_fields ?sql) e"
    and ok: "OrderBy_sql (se_fields ?sql) (criteria_of env pls) \<noteq> []" "0 \<le> cx_Offset (criteria_of env pls)"
    using pls(3) by (auto simp: rules_apply_def)
  have match: "matching_rows env db1 cond = satisfying_rows env db1 e"
    using exprSQL_eval(1) [OF _ env(4) wf e(2), of "sqlite_of env db1"] env(3) by (simp add: matching_rows_def satisfying_rows_def)
  define c where "c = ResolveLimit (int (length (satisfying_rows env db1 e))) (criteria_of env pls)"
  have cond: "Where_sql ?sql (criteria_of env pls) = Some cond" "Where_sql ?sql c = Some cond"
    using e by (simp_all add: Where_sql_def c_def)
  have resolve: "resolvePercentageLimit env db1 (criteria_of env pls) = Some c"
    by (simp add: resolvePercentageLimit_def cond match c_def ResolveLimit_def)
  obtain rows where q: "buildSmartPlaylistQuery env db1 pls c = Some rows"
    using ok cond(2) by (auto simp: buildSmartPlaylistQuery_def Let_def c_def)
  have "rules_of db1 (pl_ID pls) \<noteq> None"
    using refreshPlaylists_rules [OF children(1)] pls(2) by (simp add: rules_of_def fun_eq_iff)
  then obtain p where p: "pd_playlists db1 (pl_ID pls) = Some p"
    by (auto simp: rules_of_def)
  note r = buildSmartPlaylistQuery_rows [OF env(1,2) q cond(2), unfolded match]
  have "tracks_of (pl_ID pls) (pd_tracks (fill_playlist env pls db1)) = rows"
    using fill_playlist_rows(1) [OF env(1,2) resolve q p children(2)] children(2) r(5) by (simp add: tracks_of_def)
  moreover have "refreshSmartPlaylist env pls db = Some (fill_playlist env pls db1)"
    using pls(1) children(1) by (simp add: refreshSmartPlaylist_def)
  ultimately show ?thesis using r c_def by auto
qed

definition sample_refresh :: "Expression \<Rightarrow> refresh_env" where
  "sample_refresh e = \<lparr>rf_sql = sample_env, rf_delay = 0, rf_criteria = (\<lambda>r. no_criteria\<lparr>cx_Expression := Some e, cx_LimitPercent := 50\<rparr>),
     rf_sqlite = sample_db, rf_rows = (\<lambda>u. [sample_row, sample_row\<lparr>row_id := ''m2''\<rparr>]), rf_window = (\<lambda>order rows. rows),
     rf_sorted = (\<lambda>order rows. rev rows)\<rparr>"

definition sample_smart :: Playlist where
  "sample_smart = empty_Playlist\<lparr>pl_ID := ''s1'', pl_OwnerID := ''u'', pl_Rules := Some \<lparr>cr_Expression = Some [], cr_RefreshDelay = 0\<rparr>\<rparr>"

definition sample_tables :: playlist_db where
  "sample_tables = \<lparr>pd_tracks = [music_row ''s1'' 1 ''old''],
     pd_playlists = [''s1'' \<mapsto> sample_smart, ''p2'' \<mapsto> empty_Playlist\<lparr>pl_ID := ''p2'', pl_OwnerID := ''u''\<rparr>],
     pd_files = Map.empty, pd_videos = Map.empty, pd_covers = []\<rparr>"

lemma sample_refresh_simps:
  "rf_sql (sample_refresh e) = sample_env" "rf_sqlite (sample_refresh e) = sample_db" "user_id (sample_refresh e) = ''u''"
  "criteria_of (sample_refresh e) sample_smart = no_criteria\<lparr>cx_Expression := Some e, cx_LimitPercent := 50\<rparr>"
  "shouldRefreshSmartPlaylist (sample_refresh e) sample_smart" "se_fields sample_env = fieldMap"
  "pd_playlists sample_tables ''s1'' = Some sample_smart" "pl_ID sample_smart = ''s1''" "IsSmartPlaylist sample_smart"
  "user_sees (sample_refresh e) sample_smart"
  by (simp_all add: sample_refresh_def user_id_def sample_env_def criteria_of_def sample_smart_def empty_Playlist_def
      shouldRefreshSmartPlaylist_def IsSmartPlaylist_def sample_tables_def user_sees_def)

definition sample_low :: Expression where
  "sample_low = AllOf [Rule RuleLt [(''rating'', JNum 3)]]"

lemma smart_refresh_fills_witness:
  "\<exists>db'. refreshSmartPlaylist (sample_refresh sample_low) sample_smart sample_tables = Some db'
     \<and> length (tracks_of ''s1'' (pd_tracks db')) = 1 \<and> set (map ptr_media (tracks_of ''s1'' (pd_tracks db'))) \<subseteq> {''m1'', ''m2''}"
proof -
  let ?env = "sample_refresh sample_low" and ?db = "clear_playlist sample_smart sample_tables"
  have rules: "rules_apply ?env (no_criteria\<lparr>cx_Expression := Some sample_low, cx_LimitPercent := 50\<rparr>) sample_low"
  proof -
    have "single_rules sample_low" "normal_rule fieldMap sample_low" "exprSQL sample_env sample_low \<noteq> None"
      "OrderBy_sql fieldMap (no_criteria\<lparr>cx_Expression := Some sample_low, cx_LimitPercent := 50\<rparr>) \<noteq> []"
      by code_simp+
    then show ?thesis by (simp add: rules_apply_def sample_refresh_simps no_criteria_def)
  qed
  have children: "childPlaylists ?env sample_smart ?db = []"
    by (simp add: childPlaylists_def sample_refresh_simps ChildPlaylistIds_def sample_low_def List.map_filter_simps)
  have tracks: "tracks_of (pl_ID sample_smart) (pd_tracks ?db) = []"
    by (simp add: tracks_of_def)
  have orders: "orders_rows ?env" "distinct (map row_id (rf_rows ?env (user_id ?env)))"
    by (simp_all add: orders_rows_def sample_refresh_def sample_row_def)
  have sat: "sat sample_env (sqlite_of ?env ?db) (sample_row\<lparr>row_id := i\<rparr>) sample_low" for i
    by (simp add: sample_low_def LookupField_def sample_env_def fieldMap_def plain_field_def to_lower_def lower_byte_def field_holds_def
        multi_valued_def field_value_def smartPlaylistFields_def column_def coalesced_def sample_row_def sqlite_of_def
        sample_refresh_def sample_db_def sample_cmp_def)
  have rows: "satisfying_rows ?env ?db sample_low = [sample_row, sample_row\<lparr>row_id := ''m2''\<rparr>]"
    using sat [of "''m1''"] sat [of "''m2''"] by (simp add: satisfying_rows_def sample_refresh_simps) (simp add: sample_refresh_def sample_row_def)
  show ?thesis
    using smart_refresh_fills [of ?env sample_smart sample_tables sample_low ?db] orders rules children tracks
    by (simp add: sample_refresh_simps sample_laws fields_consistent_fieldMap rows selected_count_def ResolveLimit_def
        IsPercentageLimit_def EffectiveLimit_def no_criteria_def go_div_def sample_row_def) blast
qed

text \<open>
  C28: A refresh ends when the rules of the smart playlists refer to each other without a cycle.
\<close>

theorem smart_refresh_terminates:
  fixes rank :: "string \<Rightarrow> nat"
  assumes "ids_match db" "\<And>p q. refers env db p q \<Longrightarrow> rank q < rank p" "pd_playlists db (pl_ID pls) = Some pls"
  shows "\<exists>db'. refreshSmartPlaylist env pls db = Some db'"
  using refreshPlaylists_terminates [where env = env and rank = rank, OF assms(1,2), where list = "[pls]" and n = "Suc (rank (pl_ID pls))" and db = db] assms(3)
  by (auto simp: refreshSmartPlaylist_def rules_of_def)

definition sample_child :: Expression where
  "sample_child = AllOf [Rule RuleInPlaylist [(''id'', JStr ''p2'')]]"

lemma smart_refresh_terminates_witness:
  "\<exists>db'. refreshSmartPlaylist (sample_refresh sample_child) sample_smart sample_tables = Some db'"
proof -
  have "refers (sample_refresh sample_child) sample_tables p q \<Longrightarrow> p = ''s1'' \<and> q = ''p2''" for p q
    by (auto simp: refers_def sample_refresh_simps sample_child_def ChildPlaylistIds_def sample_tables_def empty_Playlist_def
        IsSmartPlaylist_def split: if_splits)
  then show ?thesis
    using smart_refresh_terminates [of sample_tables "sample_refresh sample_child" "\<lambda>p. if p = ''s1'' then 1 else 0" sample_smart]
    by (force simp: sample_refresh_simps ids_match_def sample_tables_def empty_Playlist_def split: if_splits)
qed

text \<open>A smart playlist of the user whose only reference is to itself.\<close>

lemma self_reference_example:
  "refreshSmartPlaylist (sample_refresh (AllOf [Rule RuleInPlaylist [(''id'', JStr ''s1'')]])) sample_smart sample_tables = None"
  by (rule self_reference_diverges) (simp add: names_itself_def sample_refresh_simps ChildPlaylistIds_def)

end
