(* ===== verification/Scan_Missing.thy ===== *)
theory Scan_Missing
  imports Media_File "HOL-Library.List_Lexorder" "HOL-Library.Char_ord"
begin

text \<open>
  \<open>scanner/phase_2_missing_tracks.go\<close> with the queries and statements of \<open>persistence\<close> it uses: files that a scan no longer found
  are paired with files it found for the first time, which then take over the identity of the missing ones. The table of media
  files is the list of its rows. The hash of a file, which compares everything but identity and place, is a
  parameter. Errors of the database end the scan and are not modelled, nor are the tables of participants and tags.
\<close>

subsection \<open>The tables\<close>

text \<open>Annotations of albums are pairs of user and album, unique, the rest of the row being carried along.\<close>

record 'a scan_db =
  sd_files :: "MediaFile list"
  sd_albumAnnotations :: "((string \<times> string) \<times> 'a) list"
  sd_albumCreated :: "string \<rightharpoonup> Time"
  sd_processedAlbums :: "string list"
  sd_totalMatched :: nat
  sd_changesDetected :: bool

definition file_with_id :: "string \<Rightarrow> MediaFile list \<Rightarrow> MediaFile option" where
  "file_with_id i files = find (\<lambda>f. mf_ID f = i) files"

text \<open>\<open>Put\<close> of a file that has an id: an update of the row with this id, which never writes \<open>created_at\<close> and \<open>birth_time\<close>, or an
  insertion.\<close>

definition Put_file :: "Time \<Rightarrow> MediaFile \<Rightarrow> MediaFile list \<Rightarrow> MediaFile list" where
  "Put_file now m files =
     (if file_with_id (mf_ID m) files = None then files @ [if mf_CreatedAt m = zero_time then m\<lparr>mf_CreatedAt := now\<rparr> else m]
      else map (\<lambda>f. if mf_ID f = mf_ID m then m\<lparr>mf_CreatedAt := mf_CreatedAt f, mf_BirthTime := mf_BirthTime f\<rparr> else f) files)"

definition Delete_file :: "string \<Rightarrow> MediaFile list \<Rightarrow> MediaFile list" where
  "Delete_file i files = filter (\<lambda>f. mf_ID f \<noteq> i) files"

text \<open>\<open>ReassignAnnotation\<close>: one statement, which fails as a whole when a user would have two rows for the new album; the phase only
  logs that.\<close>

definition ReassignAnnotation :: "string \<Rightarrow> string \<Rightarrow> ((string \<times> string) \<times> 'a) list \<Rightarrow> ((string \<times> string) \<times> 'a) list" where
  "ReassignAnnotation prevID newID ann =
     (if prevID = newID \<or> prevID = [] \<or> newID = [] then ann
      else
        let ann' = map (\<lambda>((user, item), x). ((user, if item = prevID then newID else item), x)) ann
        in if distinct (map fst ann') then ann' else ann)"

text \<open>\<open>CopyAttributes\<close> of \<open>created_at\<close>: nothing for an unknown album or a zero time.\<close>

definition CopyCreatedAt :: "string \<Rightarrow> string \<Rightarrow> (string \<rightharpoonup> Time) \<Rightarrow> (string \<rightharpoonup> Time)" where
  "CopyCreatedAt fromID toID albums =
     (case albums fromID of
        None \<Rightarrow> albums
      | Some t \<Rightarrow> if t = zero_time \<or> albums toID = None then albums else albums(toID \<mapsto> t))"

subsection \<open>Comparing files\<close>

text \<open>\<open>path.Base\<close>, \<open>path.Ext\<close> and \<open>utils.BaseName\<close>.\<close>

definition path_base :: "string \<Rightarrow> string" where
  "path_base p =
     (if p = [] then ''.''
      else
        let trimmed = rev (dropWhile (\<lambda>c. c = slash) (rev p));
            base = rev (takeWhile (\<lambda>c. c \<noteq> slash) (rev trimmed))
        in if base = [] then ''/'' else base)"

definition file_ext :: "string \<Rightarrow> string" where
  "file_ext p =
     (let last = takeWhile (\<lambda>c. c \<noteq> slash) (rev p); suffix = takeWhile (\<lambda>c. c \<noteq> CHR ''.'') last
      in if length suffix < length last then CHR ''.'' # rev suffix else [])"

definition trim_suffix :: "string \<Rightarrow> string \<Rightarrow> string" where
  "trim_suffix s suffix =
     (if length suffix \<le> length s \<and> drop (length s - length suffix) s = suffix then take (length s - length suffix) s else s)"

definition BaseName :: "string \<Rightarrow> string" where
  "BaseName filePath = (let p = path_base filePath in trim_suffix p (file_ext p))"

definition file_Equals :: "(MediaFile \<Rightarrow> 'h) \<Rightarrow> MediaFile \<Rightarrow> MediaFile \<Rightarrow> bool" where
  "file_Equals hash mf other \<longleftrightarrow> hash mf = hash other"

definition IsEquivalent :: "MediaFile \<Rightarrow> MediaFile \<Rightarrow> bool" where
  "IsEquivalent mf other \<longleftrightarrow> BaseName (mf_Path mf) = BaseName (mf_Path other)"

subsection \<open>Moving a file\<close>

definition moveMatched :: "Time \<Rightarrow> MediaFile \<Rightarrow> MediaFile \<Rightarrow> 'a scan_db \<Rightarrow> 'a scan_db" where
  "moveMatched now target missing db =
     (let discardedID = mf_ID target;
          oldAlbumID = mf_AlbumID missing;
          newAlbumID = mf_AlbumID target;
          moved = target\<lparr>mf_CreatedAt := mf_CreatedAt missing, mf_ID := mf_ID missing\<rparr>;
          db1 = db\<lparr>sd_files := Delete_file discardedID (Put_file now moved (sd_files db))\<rparr>;
          db2 = (if oldAlbumID \<noteq> newAlbumID \<and> newAlbumID \<notin> set (sd_processedAlbums db1)
                 then db1\<lparr>sd_albumAnnotations := ReassignAnnotation oldAlbumID newAlbumID (sd_albumAnnotations db1),
                          sd_albumCreated := CopyCreatedAt oldAlbumID newAlbumID (sd_albumCreated db1),
                          sd_processedAlbums := newAlbumID # sd_processedAlbums db1\<rparr>
                 else db1)
      in db2\<lparr>sd_changesDetected := True\<rparr>)"

definition count_match :: "'a scan_db \<Rightarrow> 'a scan_db" where
  "count_match db = db\<lparr>sd_totalMatched := Suc (sd_totalMatched db)\<rparr>"

subsection \<open>Groups of one persistent id\<close>

record missing_tracks =
  mt_pid :: string
  mt_missing :: "MediaFile list"
  mt_matched :: "MediaFile list"

text \<open>\<open>GetMissingAndMatching\<close>: the rows whose persistent id is that of a missing file of the library, if they are missing or were created
  after the last scan of their own library began, ordered by persistent id. The rows of other libraries are not excluded.\<close>

definition GetMissingAndMatching :: "(int \<Rightarrow> Time) \<Rightarrow> int \<Rightarrow> MediaFile list \<Rightarrow> MediaFile list" where
  "GetMissingAndMatching lastScan lib files =
     (let pids = map mf_PID (filter (\<lambda>f. mf_Missing f \<and> mf_LibraryID f = lib) files)
      in sort_key mf_PID
           (filter (\<lambda>f. mf_PID f \<in> set pids \<and> (mf_Missing f \<or> mf_CreatedAt f > lastScan (mf_LibraryID f))) files))"

definition put_if_missing :: "missing_tracks \<Rightarrow> missing_tracks list" where
  "put_if_missing mt = (if mt_pid mt \<noteq> [] \<and> mt_missing mt \<noteq> [] then [mt] else [])"

definition start_group :: "missing_tracks \<Rightarrow> MediaFile \<Rightarrow> missing_tracks" where
  "start_group mt mf = (if mt_pid mt \<noteq> mf_PID mf then \<lparr>mt_pid = mf_PID mf, mt_missing = [], mt_matched = []\<rparr> else mt)"

definition add_to_group :: "MediaFile \<Rightarrow> missing_tracks \<Rightarrow> missing_tracks" where
  "add_to_group mf mt =
     (if mf_Missing mf then mt\<lparr>mt_missing := mt_missing mt @ [mf]\<rparr> else mt\<lparr>mt_matched := mt_matched mt @ [mf]\<rparr>)"

fun produce_groups :: "missing_tracks \<Rightarrow> MediaFile list \<Rightarrow> missing_tracks list" where
  "produce_groups mt [] = put_if_missing mt"
| "produce_groups mt (mf # files) =
     (if mt_pid mt \<noteq> mf_PID mf then put_if_missing mt else []) @ produce_groups (add_to_group mf (start_group mt mf)) files"

definition produce_missing :: "(int \<Rightarrow> Time) \<Rightarrow> int \<Rightarrow> 'a scan_db \<Rightarrow> missing_tracks list" where
  "produce_missing lastScan lib db =
     produce_groups \<lparr>mt_pid = [], mt_missing = [], mt_matched = []\<rparr> (GetMissingAndMatching lastScan lib (sd_files db))"

text \<open>The inner loop over the matched tracks: the first equal one ends it, otherwise the last equivalent one is kept.\<close>

fun find_matches ::
    "(MediaFile \<Rightarrow> 'h) \<Rightarrow> string list \<Rightarrow> MediaFile \<Rightarrow> MediaFile list \<Rightarrow> MediaFile option \<Rightarrow> MediaFile option \<times> MediaFile option" where
  "find_matches hash used ms [] equivalent = (None, equivalent)"
| "find_matches hash used ms (mt # mts) equivalent =
     (if mf_ID mt \<in> set used then find_matches hash used ms mts equivalent
      else if file_Equals hash ms mt then (Some mt, equivalent)
      else find_matches hash used ms mts (if IsEquivalent ms mt then Some mt else equivalent))"

definition has_id :: "MediaFile option \<Rightarrow> bool" where
  "has_id m \<longleftrightarrow> (case m of None \<Rightarrow> False | Some f \<Rightarrow> mf_ID f \<noteq> [])"

text \<open>The track a missing one is moved to, if any.\<close>

definition choose_match :: "(MediaFile \<Rightarrow> 'h) \<Rightarrow> missing_tracks \<Rightarrow> string list \<Rightarrow> MediaFile \<Rightarrow> MediaFile option" where
  "choose_match hash g used ms =
     (let (exact, equivalent) = find_matches hash used ms (mt_matched g) None
      in if has_id exact then exact
         else if length (mt_missing g) = 1 \<and> length (mt_matched g) = 1 \<and> mf_ID (hd (mt_matched g)) \<notin> set used
         then Some (hd (mt_matched g))
         else if has_id equivalent then equivalent else None)"

fun process_loop :: "Time \<Rightarrow> (MediaFile \<Rightarrow> 'h) \<Rightarrow> missing_tracks \<Rightarrow> string list \<Rightarrow> MediaFile list \<Rightarrow> 'a scan_db \<Rightarrow> bool \<times> 'a scan_db" where
  "process_loop now hash g used [] db = (used \<noteq> [], db)"
| "process_loop now hash g used (ms # rest) db =
     (case choose_match hash g used ms of
        None \<Rightarrow> process_loop now hash g used rest db
      | Some m \<Rightarrow> process_loop now hash g (mf_ID m # used) rest (count_match (moveMatched now m ms db)))"

text \<open>The first stage passes a group on only when nothing in it matched.\<close>

definition processMissingTracks ::
    "Time \<Rightarrow> (MediaFile \<Rightarrow> 'h) \<Rightarrow> missing_tracks \<Rightarrow> 'a scan_db \<Rightarrow> missing_tracks option \<times> 'a scan_db" where
  "processMissingTracks now hash g db =
     (case process_loop now hash g [] (mt_missing g) db of (hasMatches, db') \<Rightarrow> (if hasMatches then None else Some g, db'))"

subsection \<open>Moves between libraries\<close>

definition recent_first :: "MediaFile list \<Rightarrow> MediaFile list" where
  "recent_first = sort_key (\<lambda>f. - mf_CreatedAt f)"

definition FindRecentFilesByMBZTrackID :: "MediaFile \<Rightarrow> Time \<Rightarrow> MediaFile list \<Rightarrow> MediaFile list" where
  "FindRecentFilesByMBZTrackID missing since files =
     recent_first (filter (\<lambda>f. mf_LibraryID f \<noteq> mf_LibraryID missing \<and> mf_MbzReleaseTrackID f = mf_MbzReleaseTrackID missing
       \<and> mf_MbzReleaseTrackID f \<noteq> [] \<and> mf_Suffix f = mf_Suffix missing \<and> mf_CreatedAt f > since \<and> \<not> mf_Missing f) files)"

definition FindRecentFilesByProperties :: "MediaFile \<Rightarrow> Time \<Rightarrow> MediaFile list \<Rightarrow> MediaFile list" where
  "FindRecentFilesByProperties missing since files =
     recent_first (filter (\<lambda>f. mf_LibraryID f \<noteq> mf_LibraryID missing \<and> mf_Title f = mf_Title missing \<and> mf_Size f = mf_Size missing
       \<and> mf_Suffix f = mf_Suffix missing \<and> mf_DiscNumber f = mf_DiscNumber missing \<and> mf_TrackNumber f = mf_TrackNumber missing
       \<and> mf_Album f = mf_Album missing \<and> mf_MbzReleaseTrackID f = [] \<and> mf_CreatedAt f > since \<and> \<not> mf_Missing f) files)"

definition tier_match :: "(MediaFile \<Rightarrow> 'h) \<Rightarrow> MediaFile \<Rightarrow> MediaFile list \<Rightarrow> MediaFile option" where
  "tier_match hash missing matches =
     (case find (file_Equals hash missing) matches of
        Some m \<Rightarrow> Some m
      | None \<Rightarrow> (case matches of [m] \<Rightarrow> if IsEquivalent missing m then Some m else None | _ \<Rightarrow> None))"

definition findCrossLibraryMatch :: "(MediaFile \<Rightarrow> 'h) \<Rightarrow> MediaFile \<Rightarrow> MediaFile list \<Rightarrow> MediaFile option" where
  "findCrossLibraryMatch hash missing files =
     (let first = (if mf_MbzReleaseTrackID missing = [] then None
                   else tier_match hash missing (FindRecentFilesByMBZTrackID missing (mf_CreatedAt missing) files))
      in case first of
           Some m \<Rightarrow> Some m
         | None \<Rightarrow> tier_match hash missing (FindRecentFilesByProperties missing (mf_CreatedAt missing) files))"

fun cross_loop :: "Time \<Rightarrow> (MediaFile \<Rightarrow> 'h) \<Rightarrow> MediaFile list \<Rightarrow> 'a scan_db \<Rightarrow> 'a scan_db" where
  "cross_loop now hash [] db = db"
| "cross_loop now hash (missing # rest) db =
     cross_loop now hash rest
       (let found = findCrossLibraryMatch hash missing (sd_files db)
        in if has_id found then count_match (moveMatched now (the found) missing db) else db)"

definition processCrossLibraryMoves ::
    "Time \<Rightarrow> (MediaFile \<Rightarrow> 'h) \<Rightarrow> nat \<Rightarrow> missing_tracks option \<Rightarrow> 'a scan_db \<Rightarrow> 'a scan_db" where
  "processCrossLibraryMoves now hash totalLibraryCount inp db =
     (case inp of
        None \<Rightarrow> db
      | Some g \<Rightarrow> if totalLibraryCount = 1 then db else cross_loop now hash (mt_missing g) db)"

text \<open>The stages of one group, and of the groups of a library, one after the other.\<close>

definition process_group :: "Time \<Rightarrow> (MediaFile \<Rightarrow> 'h) \<Rightarrow> nat \<Rightarrow> missing_tracks \<Rightarrow> 'a scan_db \<Rightarrow> 'a scan_db" where
  "process_group now hash totalLibraryCount g db =
     (case processMissingTracks now hash g db of (out, db') \<Rightarrow> processCrossLibraryMoves now hash totalLibraryCount out db')"

definition process_library :: "Time \<Rightarrow> (MediaFile \<Rightarrow> 'h) \<Rightarrow> nat \<Rightarrow> (int \<Rightarrow> Time) \<Rightarrow> int \<Rightarrow> 'a scan_db \<Rightarrow> 'a scan_db" where
  "process_library now hash totalLibraryCount lastScan lib db =
     fold (process_group now hash totalLibraryCount) (produce_missing lastScan lib db) db"

text \<open>The end of the phase: \<open>PurgeMissing\<close> decides whether the files that are still missing go.\<close>

definition purgeMissing :: "'a scan_db \<Rightarrow> 'a scan_db" where
  "purgeMissing db =
     (let kept = filter (\<lambda>f. \<not> mf_Missing f) (sd_files db)
      in db\<lparr>sd_files := kept, sd_changesDetected := (sd_changesDetected db \<or> length kept < length (sd_files db))\<rparr>)"

definition finalize_missing :: "string \<Rightarrow> bool \<Rightarrow> 'a scan_db \<Rightarrow> 'a scan_db" where
  "finalize_missing purge fullScan db =
     (if purge = ''always'' \<or> purge = ''full'' \<and> fullScan then purgeMissing db else db)"

subsection \<open>What a move does to the rows\<close>

definition place :: "MediaFile \<Rightarrow> int \<times> string" where
  "place f = (mf_LibraryID f, mf_Path f)"

text \<open>The files that the library shows, by library and path.\<close>

definition places :: "MediaFile list \<Rightarrow> (int \<times> string) multiset" where
  "places files = mset (map place (filter (\<lambda>f. \<not> mf_Missing f) files))"

definition moved_row :: "MediaFile \<Rightarrow> MediaFile \<Rightarrow> MediaFile" where
  "moved_row target missing = target\<lparr>mf_ID := mf_ID missing, mf_CreatedAt := mf_CreatedAt missing, mf_BirthTime := mf_BirthTime missing\<rparr>"

lemma moved_row_fields [simp]:
  "mf_ID (moved_row t m) = mf_ID m" "place (moved_row t m) = place t" "mf_Missing (moved_row t m) = mf_Missing t"
  "mf_CreatedAt (moved_row t m) = mf_CreatedAt m"
  by (simp_all add: moved_row_def place_def)

lemma file_with_id_eq_None [simp]: "file_with_id i files = None \<longleftrightarrow> i \<notin> mf_ID ` set files"
  by (auto simp: file_with_id_def find_None_iff)

lemma file_ids_eq:
  assumes "distinct (map mf_ID files)" "f \<in> set files" "f' \<in> set files" "mf_ID f = mf_ID f'"
  shows "f = f'"
  using assms by (metis distinct_map inj_onD)

definition move_rows :: "MediaFile \<Rightarrow> MediaFile \<Rightarrow> MediaFile list \<Rightarrow> MediaFile list" where
  "move_rows t m files = filter (\<lambda>f. mf_ID f \<noteq> mf_ID t) (map (\<lambda>f. if mf_ID f = mf_ID m then moved_row t m else f) files)"

lemma moveMatched_files:
  assumes "distinct (map mf_ID (sd_files db))" "m \<in> set (sd_files db)"
  shows "sd_files (moveMatched now t m db) = move_rows t m (sd_files db)"
proof -
  have "mf_ID f = mf_ID m \<Longrightarrow> f \<in> set (sd_files db) \<Longrightarrow> f = m" for f
    using file_ids_eq assms by blast
  then have "Put_file now (t\<lparr>mf_CreatedAt := mf_CreatedAt m, mf_ID := mf_ID m\<rparr>) (sd_files db)
      = map (\<lambda>f. if mf_ID f = mf_ID m then moved_row t m else f) (sd_files db)"
    using assms(2) by (auto simp: Put_file_def moved_row_def intro!: map_cong)
  then show ?thesis by (simp add: moveMatched_def Let_def move_rows_def Delete_file_def)
qed

lemma moveMatched_totalMatched [simp]: "sd_totalMatched (moveMatched now t m db) = sd_totalMatched db"
  by (simp add: moveMatched_def Let_def)

lemma count_match_simps [simp]:
  "sd_files (count_match db) = sd_files db" "sd_totalMatched (count_match db) = Suc (sd_totalMatched db)"
  by (simp_all add: count_match_def)

lemma move_rows_mset:
  assumes distinct: "distinct (map mf_ID files)" and rows: "m \<in> set files" "t \<in> set files" "mf_ID t \<noteq> mf_ID m"
  obtains rest where "mset files = mset (m # t # rest)" "mset (move_rows t m files) = mset (moved_row t m # rest)"
    "distinct (map mf_ID (m # t # rest))"
proof -
  obtain r1 where r1: "mset files = add_mset m r1" using rows(1) by (metis multi_member_split set_mset_mset)
  then have "t \<in># r1" using rows(2,3) by (metis insert_iff set_mset_add_mset_insert set_mset_mset)
  then obtain r2 where r2: "r1 = add_mset t r2" by (metis multi_member_split)
  obtain rest where rest: "mset rest = r2" by (rule exE [OF ex_mset])
  have files: "mset files = mset (m # t # rest)" using r1 r2 rest by simp
  then have "mset (map mf_ID files) = mset (map mf_ID (m # t # rest))" by (simp only: mset_map)
  then have distinct': "distinct (map mf_ID (m # t # rest))" using distinct mset_eq_imp_distinct_iff by blast
  have unchanged: "move_rows t m rest = rest"
    using distinct' unfolding move_rows_def by (induction rest) auto
  have "mset (move_rows t m files) = mset (move_rows t m (m # t # rest))"
    unfolding move_rows_def by (simp only: mset_filter mset_map files)
  also have "\<dots> = mset (moved_row t m # rest)"
    using unchanged rows(3) by (simp add: move_rows_def)
  finally show thesis using that files distinct' by blast
qed

text \<open>One move: the places stay, one row less, identities and dates of the other rows stay.\<close>

lemma move_rows_step:
  assumes "distinct (map mf_ID files)" "m \<in> set files" "t \<in> set files" "mf_Missing m" "\<not> mf_Missing t"
  shows "distinct (map mf_ID (move_rows t m files))"
    and "places (move_rows t m files) = places files"
    and "Suc (length (move_rows t m files)) = length files"
    and "mf_ID ` set (move_rows t m files) = mf_ID ` set files - {mf_ID t}"
    and "f \<in> set files \<Longrightarrow> mf_ID f \<noteq> mf_ID t \<Longrightarrow> mf_ID f \<noteq> mf_ID m \<Longrightarrow> f \<in> set (move_rows t m files)"
    and "moved_row t m \<in> set (move_rows t m files)"
proof -
  have ids: "mf_ID t \<noteq> mf_ID m" using file_ids_eq [OF assms(1-2) assms(3)] assms(4,5) by metis
  obtain rest where rest: "mset files = mset (m # t # rest)" "mset (move_rows t m files) = mset (moved_row t m # rest)"
      "distinct (map mf_ID (m # t # rest))"
    using move_rows_mset [OF assms(1-3) ids] by metis
  have sets: "set files = insert m (insert t (set rest))" "set (move_rows t m files) = insert (moved_row t m) (set rest)"
    using rest(1,2) by (metis set_mset_mset list.simps(15))+
  have "mset (map mf_ID (move_rows t m files)) = mset (map mf_ID (moved_row t m # rest))" using rest(2) by (simp only: mset_map)
  moreover have "distinct (map mf_ID (moved_row t m # rest))" using rest(3) by simp
  ultimately show "distinct (map mf_ID (move_rows t m files))" using mset_eq_imp_distinct_iff by blast
  show "places (move_rows t m files) = places files"
    using assms(4,5) by (simp add: places_def mset_filter rest(1,2))
  show "Suc (length (move_rows t m files)) = length files"
    using rest(1,2) by (metis size_mset length_Cons)
  show "mf_ID ` set (move_rows t m files) = mf_ID ` set files - {mf_ID t}" using sets rest(3) ids by (auto simp: image_iff)
  show "f \<in> set (move_rows t m files)" if "f \<in> set files" "mf_ID f \<noteq> mf_ID t" "mf_ID f \<noteq> mf_ID m" using that sets by auto
  show "moved_row t m \<in> set (move_rows t m files)" using sets by simp
qed

lemma find_matches_unused:
  assumes "find_matches hash used ms mts equivalent = (e, q)"
  shows "e = Some t \<Longrightarrow> t \<in> set mts \<and> mf_ID t \<notin> set used"
    and "q = Some t \<Longrightarrow> t \<in> set mts \<and> mf_ID t \<notin> set used \<or> equivalent = Some t"
  using assms by (induction mts arbitrary: equivalent) (fastforce split: if_splits)+

lemma choose_match_unused:
  assumes "choose_match hash g used ms = Some t"
  shows "t \<in> set (mt_matched g)" and "mf_ID t \<notin> set used"
proof -
  obtain e q where eq: "find_matches hash used ms (mt_matched g) None = (e, q)" by fastforce
  have "e = Some t \<or> q = Some t \<or> length (mt_matched g) = 1 \<and> t = hd (mt_matched g) \<and> mf_ID t \<notin> set used"
    using assms by (auto simp: choose_match_def eq split: if_splits)
  moreover have "length (mt_matched g) = 1 \<Longrightarrow> hd (mt_matched g) \<in> set (mt_matched g)"
    by (cases "mt_matched g") auto
  ultimately show "t \<in> set (mt_matched g)" "mf_ID t \<notin> set used"
    using find_matches_unused [OF eq] by (metis option.discI)+
qed

text \<open>What a run over missing rows leaves: \<open>ids\<close> are the rows it may touch.\<close>

definition moves_ok :: "string set \<Rightarrow> 'a scan_db \<Rightarrow> 'a scan_db \<Rightarrow> bool" where
  "moves_ok ids db db' \<longleftrightarrow>
     distinct (map mf_ID (sd_files db')) \<and> places (sd_files db') = places (sd_files db)
     \<and> length (sd_files db') + sd_totalMatched db' = length (sd_files db) + sd_totalMatched db
     \<and> mf_ID ` set (sd_files db') \<subseteq> mf_ID ` set (sd_files db)
     \<and> (\<forall>f \<in> set (sd_files db). mf_ID f \<notin> ids \<longrightarrow> f \<in> set (sd_files db'))"

lemma moves_ok_refl: "distinct (map mf_ID (sd_files db)) \<Longrightarrow> moves_ok ids db db"
  by (simp add: moves_ok_def)

lemma moves_ok_trans: "moves_ok ids db db1 \<Longrightarrow> moves_ok ids' db1 db2 \<Longrightarrow> moves_ok (ids \<union> ids') db db2"
  unfolding moves_ok_def by fastforce

lemma moveMatched_ok:
  assumes "distinct (map mf_ID (sd_files db))" "m \<in> set (sd_files db)" "t \<in> set (sd_files db)" "mf_Missing m" "\<not> mf_Missing t"
  shows "moves_ok {mf_ID m, mf_ID t} db (count_match (moveMatched now t m db))"
  using move_rows_step [OF assms] moveMatched_files [OF assms(1-2)]
  by (auto simp: moves_ok_def)

lemma process_loop_ok:
  assumes "distinct (map mf_ID (sd_files db))" "distinct (map mf_ID (ms @ mt_matched g))"
    and "set ms \<subseteq> set (sd_files db)" "\<forall>m \<in> set ms. mf_Missing m"
    and "\<forall>t \<in> set (mt_matched g). mf_ID t \<notin> set used \<longrightarrow> t \<in> set (sd_files db) \<and> \<not> mf_Missing t"
  shows "moves_ok (mf_ID ` set (ms @ mt_matched g)) db (snd (process_loop now hash g used ms db))
    \<and> (\<forall>m \<in> set ms. \<exists>f \<in> set (sd_files (snd (process_loop now hash g used ms db))). mf_ID f = mf_ID m \<and> mf_CreatedAt f = mf_CreatedAt m)"
  using assms
proof (induction ms arbitrary: used db)
  case Nil
  then show ?case by (simp add: moves_ok_refl)
next
  case (Cons m ms)
  show ?case
  proof (cases "choose_match hash g used m")
    case None
    have IH: "moves_ok (mf_ID ` set (ms @ mt_matched g)) db (snd (process_loop now hash g used ms db))
      \<and> (\<forall>m \<in> set ms. \<exists>f \<in> set (sd_files (snd (process_loop now hash g used ms db))). mf_ID f = mf_ID m \<and> mf_CreatedAt f = mf_CreatedAt m)"
      using Cons.prems by (intro Cons.IH) auto
    have "mf_ID m \<notin> mf_ID ` set (ms @ mt_matched g)" "m \<in> set (sd_files db)" using Cons.prems(2,3) by auto
    with IH have "m \<in> set (sd_files (snd (process_loop now hash g used ms db)))" unfolding moves_ok_def by blast
    with IH show ?thesis by (auto simp: None moves_ok_def)
  next
    case (Some t)
    let ?db1 = "count_match (moveMatched now t m db)"
    have t: "t \<in> set (mt_matched g)" "mf_ID t \<notin> set used" by (rule choose_match_unused [OF Some])+
    with Cons.prems have rows: "m \<in> set (sd_files db)" "t \<in> set (sd_files db)" "mf_Missing m" "\<not> mf_Missing t" by auto
    note step = moveMatched_ok [OF Cons.prems(1) rows, of now]
    have moved: "moved_row t m \<in> set (sd_files ?db1)"
      using move_rows_step(6) [OF Cons.prems(1) rows] moveMatched_files [OF Cons.prems(1) rows(1)] by simp
    have kept: "f \<in> set (sd_files ?db1)" if "f \<in> set (sd_files db)" "mf_ID f \<noteq> mf_ID m" "mf_ID f \<noteq> mf_ID t" for f
      using step that by (simp add: moves_ok_def)
    have others: "mf_ID m \<notin> mf_ID ` set (ms @ mt_matched g)" "mf_ID t \<notin> mf_ID ` set ms"
      using Cons.prems(2) t(1) by auto
    have IH: "moves_ok (mf_ID ` set (ms @ mt_matched g)) ?db1 (snd (process_loop now hash g (mf_ID t # used) ms ?db1))
      \<and> (\<forall>m \<in> set ms. \<exists>f \<in> set (sd_files (snd (process_loop now hash g (mf_ID t # used) ms ?db1))).
          mf_ID f = mf_ID m \<and> mf_CreatedAt f = mf_CreatedAt m)"
    proof (rule Cons.IH)
      show "distinct (map mf_ID (sd_files ?db1))" using step by (simp add: moves_ok_def)
      show "distinct (map mf_ID (ms @ mt_matched g))" "\<forall>m \<in> set ms. mf_Missing m" using Cons.prems(2,4) by auto
      show "set ms \<subseteq> set (sd_files ?db1)"
      proof
        fix f assume "f \<in> set ms"
        then have "f \<in> set (sd_files db)" "mf_ID f \<in> mf_ID ` set ms" using Cons.prems(3) by auto
        moreover from this(2) have "mf_ID f \<noteq> mf_ID m" "mf_ID f \<noteq> mf_ID t" using others by (metis image_Un set_append UnI1)+
        ultimately show "f \<in> set (sd_files ?db1)" using kept by simp
      qed
      show "\<forall>f \<in> set (mt_matched g). mf_ID f \<notin> set (mf_ID t # used) \<longrightarrow> f \<in> set (sd_files ?db1) \<and> \<not> mf_Missing f"
      proof (intro ballI impI)
        fix f assume f: "f \<in> set (mt_matched g)" "mf_ID f \<notin> set (mf_ID t # used)"
        then have "mf_ID f \<in> mf_ID ` set (ms @ mt_matched g)" by simp
        then have "mf_ID f \<noteq> mf_ID m" using others(1) by metis
        with f Cons.prems(5) kept [of f] show "f \<in> set (sd_files ?db1) \<and> \<not> mf_Missing f" by simp
      qed
    qed
    have "mf_ID (moved_row t m) \<notin> mf_ID ` set (ms @ mt_matched g)" using others(1) by simp
    then have "moved_row t m \<in> set (sd_files (snd (process_loop now hash g (mf_ID t # used) ms ?db1)))"
      using IH moved unfolding moves_ok_def by blast
    then have first: "\<exists>f \<in> set (sd_files (snd (process_loop now hash g (mf_ID t # used) ms ?db1))).
        mf_ID f = mf_ID m \<and> mf_CreatedAt f = mf_CreatedAt m"
      by (rule rev_bexI) simp
    have "{mf_ID m, mf_ID t} \<union> mf_ID ` set (ms @ mt_matched g) = mf_ID ` set ((m # ms) @ mt_matched g)"
      using t(1) by auto
    then have "moves_ok (mf_ID ` set ((m # ms) @ mt_matched g)) db (snd (process_loop now hash g (mf_ID t # used) ms ?db1))"
      using moves_ok_trans [OF step IH [THEN conjunct1]] by metis
    moreover have "process_loop now hash g used (m # ms) db = process_loop now hash g (mf_ID t # used) ms ?db1"
      by (simp add: Some)
    ultimately show ?thesis using first IH [THEN conjunct2] by (simp only: set_simps ball_simps simp_thms)
  qed
qed

subsection \<open>The groups of a library\<close>

definition group_rows :: "missing_tracks \<Rightarrow> MediaFile list" where
  "group_rows g = mt_missing g @ mt_matched g"

definition group_flags :: "missing_tracks \<Rightarrow> bool" where
  "group_flags g \<longleftrightarrow> (\<forall>m \<in> set (mt_missing g). mf_Missing m) \<and> (\<forall>t \<in> set (mt_matched g). \<not> mf_Missing t)"

lemma add_to_group_rows: "mset (group_rows (add_to_group mf mt)) = add_mset mf (mset (group_rows mt))"
  by (simp add: group_rows_def add_to_group_def)

lemma start_group_rows:
  "mset (concat (map group_rows (if mt_pid mt \<noteq> mf_PID mf then put_if_missing mt else []))) + mset (group_rows (start_group mt mf))
    \<subseteq># mset (group_rows mt)"
  by (simp add: put_if_missing_def start_group_def group_rows_def)

lemma produce_groups_rows:
  "mset (concat (map group_rows (produce_groups mt files))) \<subseteq># mset (group_rows mt) + mset files"
proof (induction mt files rule: produce_groups.induct)
  case (1 mt)
  then show ?case by (simp add: put_if_missing_def)
next
  case (2 mt mf files)
  let ?flushed = "mset (concat (map group_rows (if mt_pid mt \<noteq> mf_PID mf then put_if_missing mt else [])))"
  have "mset (concat (map group_rows (produce_groups mt (mf # files))))
      \<subseteq># ?flushed + (mset (group_rows (add_to_group mf (start_group mt mf))) + mset files)"
    using 2 by (simp add: subset_mset.add_left_mono)
  also have "\<dots> = (?flushed + mset (group_rows (start_group mt mf))) + mset (mf # files)"
    by (simp add: add_to_group_rows)
  also have "\<dots> \<subseteq># mset (group_rows mt) + mset (mf # files)"
    by (rule subset_mset.add_right_mono [OF start_group_rows])
  finally show ?case .
qed

lemma group_flags_step: "group_flags mt \<Longrightarrow> group_flags (add_to_group mf (start_group mt mf))"
  by (auto simp: group_flags_def add_to_group_def start_group_def)

lemma produce_groups_flags: "group_flags mt \<Longrightarrow> g \<in> set (produce_groups mt files) \<Longrightarrow> group_flags g"
proof (induction mt files rule: produce_groups.induct)
  case (1 mt)
  then show ?case by (simp add: put_if_missing_def split: if_splits)
next
  case (2 mt mf files)
  then show ?case using group_flags_step [of mt mf] by (auto simp: put_if_missing_def split: if_splits)
qed

lemma produce_missing_candidates:
  "mset (concat (map group_rows (produce_missing lastScan lib db))) \<subseteq># mset (GetMissingAndMatching lastScan lib (sd_files db))"
  using produce_groups_rows [of "\<lparr>mt_pid = [], mt_missing = [], mt_matched = []\<rparr>"]
  by (simp add: produce_missing_def group_rows_def)

lemma produce_missing_rows:
  "mset (concat (map group_rows (produce_missing lastScan lib db))) \<subseteq># mset (sd_files db)"
proof -
  have "mset (GetMissingAndMatching lastScan lib (sd_files db)) \<subseteq># mset (sd_files db)"
    by (simp add: GetMissingAndMatching_def Let_def mset_filter)
  with produce_missing_candidates show ?thesis by (rule subset_mset.order_trans)
qed

lemma distinct_map_submset:
  assumes "mset xs \<subseteq># mset ys" "distinct (map f ys)"
  shows "distinct (map f xs)"
proof -
  obtain zs where zs: "mset ys = mset xs + mset zs" using assms(1) by (metis mset_subset_eq_exists_conv ex_mset)
  then have "mset (map f ys) = mset (map f (xs @ zs))" by simp
  then have "distinct (map f (xs @ zs))" using assms(2) mset_eq_imp_distinct_iff by blast
  then show ?thesis by simp
qed

lemma produce_missing_flags: "g \<in> set (produce_missing lastScan lib db) \<Longrightarrow> group_flags g"
  unfolding produce_missing_def by (rule produce_groups_flags) (simp_all add: group_flags_def)

lemma process_group_single: "process_group now hash 1 g db = snd (process_loop now hash g [] (mt_missing g) db)"
  by (simp add: process_group_def processMissingTracks_def processCrossLibraryMoves_def split: prod.splits)

lemma process_groups_ok:
  assumes "distinct (map mf_ID (sd_files db))" "distinct (map mf_ID (concat (map group_rows gs)))"
    and "set (concat (map group_rows gs)) \<subseteq> set (sd_files db)" "\<forall>g \<in> set gs. group_flags g"
  shows "moves_ok (mf_ID ` set (concat (map group_rows gs))) db (fold (process_group now hash 1) gs db)
    \<and> (\<forall>g \<in> set gs. \<forall>m \<in> set (mt_missing g).
        \<exists>f \<in> set (sd_files (fold (process_group now hash 1) gs db)). mf_ID f = mf_ID m \<and> mf_CreatedAt f = mf_CreatedAt m)"
  using assms
proof (induction gs arbitrary: db)
  case Nil
  then show ?case by (simp add: moves_ok_refl)
next
  case (Cons g gs)
  let ?db1 = "process_group now hash 1 g db"
  have first: "moves_ok (mf_ID ` set (group_rows g)) db ?db1
      \<and> (\<forall>m \<in> set (mt_missing g). \<exists>f \<in> set (sd_files ?db1). mf_ID f = mf_ID m \<and> mf_CreatedAt f = mf_CreatedAt m)"
    unfolding process_group_single group_rows_def
    using Cons.prems by (intro process_loop_ok) (auto simp: group_rows_def group_flags_def)
  have disjoint: "mf_ID ` set (group_rows g) \<inter> mf_ID ` set (concat (map group_rows gs)) = {}"
    using Cons.prems(2) by auto
  have rows: "set (concat (map group_rows gs)) \<subseteq> set (sd_files ?db1)"
  proof
    fix f assume f: "f \<in> set (concat (map group_rows gs))"
    then have "mf_ID f \<notin> mf_ID ` set (group_rows g)" "f \<in> set (sd_files db)" using disjoint Cons.prems(3) by auto
    then show "f \<in> set (sd_files ?db1)" using first unfolding moves_ok_def by blast
  qed
  have rest: "moves_ok (mf_ID ` set (concat (map group_rows gs))) ?db1 (fold (process_group now hash 1) gs ?db1)
      \<and> (\<forall>g \<in> set gs. \<forall>m \<in> set (mt_missing g).
        \<exists>f \<in> set (sd_files (fold (process_group now hash 1) gs ?db1)). mf_ID f = mf_ID m \<and> mf_CreatedAt f = mf_CreatedAt m)"
    using first rows Cons.prems by (intro Cons.IH) (auto simp: moves_ok_def)
  have "\<exists>f \<in> set (sd_files (fold (process_group now hash 1) gs ?db1)). mf_ID f = mf_ID m \<and> mf_CreatedAt f = mf_CreatedAt m"
    if m: "m \<in> set (mt_missing g)" for m
  proof -
    obtain f where f: "f \<in> set (sd_files ?db1)" "mf_ID f = mf_ID m" "mf_CreatedAt f = mf_CreatedAt m" using first m by blast
    then have "mf_ID f \<notin> mf_ID ` set (concat (map group_rows gs))" using disjoint m by (auto simp: group_rows_def)
    with f rest show ?thesis unfolding moves_ok_def by blast
  qed
  moreover have "moves_ok (mf_ID ` set (concat (map group_rows (g # gs)))) db (fold (process_group now hash 1) (g # gs) db)"
    using moves_ok_trans [OF first [THEN conjunct1] rest [THEN conjunct1]] by (simp add: image_Un)
  ultimately show ?case using rest by simp
qed

text \<open>The missing file takes the first unused file with the same hash.\<close>

lemma find_matches_exact:
  "find_matches hash used ms mts equivalent = (e, q) \<Longrightarrow>
    e = find (\<lambda>t. mf_ID t \<notin> set used \<and> file_Equals hash ms t) mts"
  by (induction mts arbitrary: equivalent) (auto split: if_splits)

lemma choose_match_exact:
  assumes "find (\<lambda>t. mf_ID t \<notin> set used \<and> file_Equals hash ms t) (mt_matched g) = Some t" "mf_ID t \<noteq> []"
  shows "choose_match hash g used ms = Some t"
proof -
  obtain e q where eq: "find_matches hash used ms (mt_matched g) None = (e, q)" by fastforce
  with find_matches_exact [OF eq] assms show ?thesis by (simp add: choose_match_def has_id_def)
qed

text \<open>Without an exact match a missing file of a larger group is only moved to a file of the same base name.\<close>

lemma find_matches_equivalent:
  "find_matches hash used ms mts equivalent = (None, Some t) \<Longrightarrow> IsEquivalent ms t \<or> equivalent = Some t"
  by (induction mts arbitrary: equivalent) (fastforce split: if_splits)+

text \<open>A group in which one file was moved is not searched in other libraries, whatever became of its other files.\<close>

lemma process_loop_hasMatches: "fst (process_loop now hash g used ms db) = False \<Longrightarrow> snd (process_loop now hash g used ms db) = db \<and> used = []"
  by (induction ms arbitrary: used db) (fastforce split: option.splits)+

lemma matched_group_ends:
  "snd (processMissingTracks now hash g db) \<noteq> db \<Longrightarrow> process_group now hash n g db = snd (processMissingTracks now hash g db)"
  using process_loop_hasMatches [of now hash g "[]" "mt_missing g" db]
  by (auto simp: process_group_def processMissingTracks_def processCrossLibraryMoves_def split: prod.splits if_splits)

text \<open>C18: With one library, handling the missing files of a scan moves identities, not files: the places (library and path) of the files
  that are there stay the same, each once if each was there once; a file in the table before is still there under its id unless it was
  a newly found one that a missing file has become, a missing file keeps its id and the date it was added, rows that are not missing
  and do not share a persistent id with a missing file are unchanged, and every move removes exactly one row.\<close>

theorem moves_keep_places:
  assumes "distinct (map mf_ID (sd_files db))"
  shows "let db' = process_library now hash 1 lastScan lib db in places (sd_files db') = places (sd_files db)
    \<and> distinct (map mf_ID (sd_files db')) \<and> mf_ID ` set (sd_files db') \<subseteq> mf_ID ` set (sd_files db)
    \<and> (\<forall>m \<in> set (sd_files db). mf_Missing m \<longrightarrow> (\<exists>f \<in> set (sd_files db'). mf_ID f = mf_ID m \<and> mf_CreatedAt f = mf_CreatedAt m))
    \<and> (\<forall>f \<in> set (sd_files db). f \<notin> set (GetMissingAndMatching lastScan lib (sd_files db)) \<longrightarrow> f \<in> set (sd_files db'))
    \<and> length (sd_files db') + sd_totalMatched db' = length (sd_files db) + sd_totalMatched db"
proof -
  define db' where db': "db' = process_library now hash 1 lastScan lib db"
  let ?gs = "produce_missing lastScan lib db"
  have sub: "mset (concat (map group_rows ?gs)) \<subseteq># mset (sd_files db)" by (rule produce_missing_rows)
  have sub': "mset (concat (map group_rows ?gs)) \<subseteq># mset (GetMissingAndMatching lastScan lib (sd_files db))"
    by (rule produce_missing_candidates)
  have distinct: "distinct (map mf_ID (concat (map group_rows ?gs)))"
    by (rule distinct_map_submset [OF sub assms(1)])
  have rows: "set (concat (map group_rows ?gs)) \<subseteq> set (sd_files db)"
    using set_mset_mono [OF sub] by simp
  have ok: "moves_ok (mf_ID ` set (concat (map group_rows ?gs))) db db'
      \<and> (\<forall>g \<in> set ?gs. \<forall>m \<in> set (mt_missing g). \<exists>f \<in> set (sd_files db'). mf_ID f = mf_ID m \<and> mf_CreatedAt f = mf_CreatedAt m)"
    unfolding db' process_library_def
    by (rule process_groups_ok [OF assms(1) distinct rows]) (simp add: produce_missing_flags)
  have untouched: "f \<in> set (sd_files db')" if f: "f \<in> set (sd_files db)" "f \<notin> set (concat (map group_rows ?gs))" for f
  proof -
    have "mf_ID f \<notin> mf_ID ` set (concat (map group_rows ?gs))"
      using f rows file_ids_eq [OF assms(1) f(1)] by blast
    with f(1) ok show ?thesis unfolding moves_ok_def by blast
  qed
  have "\<exists>f \<in> set (sd_files db'). mf_ID f = mf_ID m \<and> mf_CreatedAt f = mf_CreatedAt m"
    if m: "m \<in> set (sd_files db)" "mf_Missing m" for m
  proof (cases "m \<in> set (concat (map group_rows ?gs))")
    case True
    then obtain g where g: "g \<in> set ?gs" "m \<in> set (group_rows g)" by auto
    then have "m \<in> set (mt_missing g)" using produce_missing_flags [OF g(1)] m(2) by (auto simp: group_rows_def group_flags_def)
    with ok g(1) show ?thesis by blast
  next
    case False
    with untouched m(1) show ?thesis by blast
  qed
  moreover have "f \<in> set (sd_files db')"
    if "f \<in> set (sd_files db)" "f \<notin> set (GetMissingAndMatching lastScan lib (sd_files db))" for f
    using untouched [of f] that set_mset_mono [OF sub'] by (simp only: set_mset_mset) blast
  ultimately show ?thesis
    using ok unfolding Let_def db' [symmetric] moves_ok_def by blast
qed

definition missing_example_file :: "string \<Rightarrow> string \<Rightarrow> int \<Rightarrow> string \<Rightarrow> bool \<Rightarrow> Time \<Rightarrow> MediaFile" where
  "missing_example_file i pid lib p missing created = empty_MediaFile\<lparr>mf_ID := i, mf_PID := pid, mf_LibraryID := lib, mf_Path := p, mf_Title := ''Song'',
     mf_Suffix := ''mp3'', mf_Missing := missing, mf_CreatedAt := created\<rparr>"

definition missing_example_db :: "MediaFile list \<Rightarrow> unit scan_db" where
  "missing_example_db files = \<lparr>sd_files = files, sd_albumAnnotations = [], sd_albumCreated = (\<lambda>_. None), sd_processedAlbums = [],
     sd_totalMatched = 0, sd_changesDetected = False\<rparr>"

text \<open>A file that was moved from one folder to another keeps its id and date.\<close>

theorem moves_keep_places_witness:
  "let db = missing_example_db [missing_example_file ''a'' ''p'' 1 ''x/Song.mp3'' True 5, missing_example_file ''b'' ''p'' 1 ''y/Song.mp3'' False 20,
       missing_example_file ''c'' ''q'' 1 ''z.mp3'' False 3];
       db' = process_library 30 mf_Title 1 (\<lambda>_. 10) 1 db
   in map (\<lambda>f. (mf_ID f, mf_Path f, mf_CreatedAt f)) (sd_files db') = [(''a'', ''y/Song.mp3'', 5), (''c'', ''z.mp3'', 3)]
      \<and> places (sd_files db') = places (sd_files db)"
proof -
  let ?db = "missing_example_db [missing_example_file ''a'' ''p'' 1 ''x/Song.mp3'' True 5, missing_example_file ''b'' ''p'' 1 ''y/Song.mp3'' False 20,
       missing_example_file ''c'' ''q'' 1 ''z.mp3'' False 3]"
  have "distinct (map mf_ID (sd_files ?db))" by (simp add: missing_example_db_def missing_example_file_def)
  from moves_keep_places [OF this, of 30 mf_Title "\<lambda>_. 10" 1]
  have "places (sd_files (process_library 30 mf_Title 1 (\<lambda>_. 10) 1 ?db)) = places (sd_files ?db)" by (simp add: Let_def)
  moreover have "map (\<lambda>f. (mf_ID f, mf_Path f, mf_CreatedAt f)) (sd_files (process_library 30 mf_Title 1 (\<lambda>_. 10) 1 ?db))
      = [(''a'', ''y/Song.mp3'', 5), (''c'', ''z.mp3'', 3)]"
    by code_simp
  ultimately show ?thesis by (simp add: Let_def)
qed

text \<open>Between libraries a move can be undone within the same group: the row that the first missing file has become is itself newer than
  the second one, which takes it over, and the first id is gone.\<close>

lemma cross_library_steals:
  "map (\<lambda>f. (mf_ID f, mf_Path f, mf_CreatedAt f))
     (sd_files (process_library 30 mf_Title 2 (\<lambda>_. 10) 1
       (missing_example_db [missing_example_file ''a'' ''p'' 1 ''x/Song.mp3'' True 7, missing_example_file ''b'' ''p'' 1 ''y/Song.mp3'' True 5,
          missing_example_file ''t'' ''q'' 2 ''z/Song.mp3'' False 20])))
   = [(''b'', ''z/Song.mp3'', 5)]"
  by code_simp

text \<open>Purging removes the missing files only.\<close>

lemma purgeMissing_places: "places (sd_files (purgeMissing db)) = places (sd_files db)"
  by (simp add: purgeMissing_def places_def Let_def)

lemma finalize_missing_places: "places (sd_files (finalize_missing purge fullScan db)) = places (sd_files db)"
  by (simp add: finalize_missing_def purgeMissing_places)

end
