(* ===== verification/Quick_Pick.thy ===== *)
theory Quick_Pick
  imports Music_Search
begin

text \<open>
  \<open>core/quickpick/composition.go\<close>: the grid of songs of the home page. Ranked songs fill a row of familiar songs and a row of songs
  to discover, each slot going to the best score that is left, less the penalties for artists and albums already picked. The
  scores are exact rationals here.
\<close>

subsection \<open>The data\<close>

record songCandidate =
  qc_song :: MediaFile
  qc_baseScore :: rat
  qc_adjustedScore :: rat
  qc_baseRank :: int
  qc_fromLiked :: bool

record ExposureMetric =
  xm_ShowCount :: nat
  xm_LastShownAt :: Time

record QuickPickView =
  qv_ViewID :: string
  qv_ItemKeys :: "string list"
  qv_ClickedItemKeys :: "string list"

datatype quick_section = ListenAgain | StartRadio

record QuickPickItem =
  qi_Song :: MediaFile
  qi_Section :: quick_section
  qi_Score :: rat
  qi_ViewID :: string
  qi_ItemKey :: string

record compositionOptions =
  co_Limit :: int
  co_Exposures :: "string \<rightharpoonup> ExposureMetric"
  co_PreviousView :: "QuickPickView option"

definition trackExposureKey :: "string \<Rightarrow> string" where
  "trackExposureKey mediaFileID = (let i = trim_space mediaFileID in if i = [] then [] else ''track:'' @ i)"

definition listenAgainSongQuota :: int where "listenAgainSongQuota = 3"
definition startRadioSongQuota :: int where "startRadioSongQuota = 9"

definition minQuickPick :: "int \<Rightarrow> int \<Rightarrow> int" where
  "minQuickPick left right = (if left < right then left else right)"

definition normalizeQuickPickValue :: "string \<Rightarrow> string" where
  "normalizeQuickPickValue value = to_lower (join '' '' (Music_Search.fields value))"

subsection \<open>Picking a song\<close>

text \<open>What has been picked: the ids, and how often each artist and album.\<close>

record picks =
  pk_ids :: "string list"
  pk_artists :: "string \<Rightarrow> nat"
  pk_albums :: "string \<Rightarrow> nat"

definition no_picks :: picks where
  "no_picks = \<lparr>pk_ids = [], pk_artists = (\<lambda>_. 0), pk_albums = (\<lambda>_. 0)\<rparr>"

definition bump :: "string \<Rightarrow> (string \<Rightarrow> nat) \<Rightarrow> string \<Rightarrow> nat" where
  "bump k counts = (if k \<noteq> [] then counts(k := Suc (counts k)) else counts)"

definition addSong :: "songCandidate \<Rightarrow> picks \<Rightarrow> picks" where
  "addSong c p =
     \<lparr>pk_ids = mf_ID (qc_song c) # pk_ids p,
      pk_artists = bump (normalizeQuickPickValue (mf_Artist (qc_song c))) (pk_artists p),
      pk_albums = bump (normalizeQuickPickValue (mf_Album (qc_song c))) (pk_albums p)\<rparr>"

definition repeat_penalty :: "string \<Rightarrow> (string \<Rightarrow> nat) \<Rightarrow> rat \<Rightarrow> rat \<Rightarrow> rat" where
  "repeat_penalty k counts base step =
     (if k \<noteq> [] \<and> counts k > 0 then base + step * (rat_of_nat (counts k) - 1) else 0)"

definition songSelectionScore :: "songCandidate \<Rightarrow> picks \<Rightarrow> rat" where
  "songSelectionScore c p =
     qc_adjustedScore c
     - repeat_penalty (normalizeQuickPickValue (mf_Artist (qc_song c))) (pk_artists p) (40/100) (25/100)
     - repeat_penalty (normalizeQuickPickValue (mf_Album (qc_song c))) (pk_albums p) (20/100) (15/100)"

text \<open>One pass of \<open>selectSong\<close>: which candidates it admits, whether it scores without the penalty for recent displays, and whether
  the longest unseen goes first.\<close>

record selection =
  se_predicate :: "songCandidate \<Rightarrow> bool"
  se_useBase :: bool
  se_oldestFirst :: bool

definition last_shown :: "(string \<rightharpoonup> ExposureMetric) \<Rightarrow> songCandidate \<Rightarrow> Time" where
  "last_shown exposures c =
     (case exposures (trackExposureKey (mf_ID (qc_song c))) of None \<Rightarrow> zero_time | Some m \<Rightarrow> xm_LastShownAt m)"

definition candidate_score :: "selection \<Rightarrow> picks \<Rightarrow> songCandidate \<Rightarrow> rat" where
  "candidate_score s p c = songSelectionScore (if se_useBase s then c\<lparr>qc_adjustedScore := qc_baseScore c\<rparr> else c) p"

definition better ::
    "(string \<rightharpoonup> ExposureMetric) \<Rightarrow> selection \<Rightarrow> picks \<Rightarrow> songCandidate \<Rightarrow> songCandidate \<times> rat \<Rightarrow> bool" where
  "better exposures s p c best =
     (if se_oldestFirst s \<and> last_shown exposures c \<noteq> last_shown exposures (fst best)
      then last_shown exposures c < last_shown exposures (fst best)
      else candidate_score s p c > snd best)"

definition admitted :: "selection \<Rightarrow> picks \<Rightarrow> songCandidate \<Rightarrow> bool" where
  "admitted s p c \<longleftrightarrow> se_predicate s c \<and> mf_ID (qc_song c) \<notin> set (pk_ids p)"

fun best_song ::
    "(string \<rightharpoonup> ExposureMetric) \<Rightarrow> selection \<Rightarrow> picks \<Rightarrow> (songCandidate \<times> rat) option \<Rightarrow> songCandidate list
      \<Rightarrow> (songCandidate \<times> rat) option" where
  "best_song exposures s p best [] = best"
| "best_song exposures s p best (c # cs) =
     best_song exposures s p
       (if \<not> admitted s p c then best
        else case best of
               None \<Rightarrow> Some (c, candidate_score s p c)
             | Some b \<Rightarrow> if better exposures s p c b then Some (c, candidate_score s p c) else best) cs"

text \<open>The loops \<open>for len(row) < slots && selectSong(...)\<close>.\<close>

fun pick_while ::
    "(string \<rightharpoonup> ExposureMetric) \<Rightarrow> songCandidate list \<Rightarrow> selection \<Rightarrow> nat \<Rightarrow> picks \<Rightarrow> songCandidate list \<times> picks" where
  "pick_while exposures songs s 0 p = ([], p)"
| "pick_while exposures songs s (Suc n) p =
     (case best_song exposures s p None songs of
        None \<Rightarrow> ([], p)
      | Some (c, _) \<Rightarrow> (case pick_while exposures songs s n (addSong c p) of (cs, p') \<Rightarrow> (c # cs, p')))"

fun pick_stages ::
    "(string \<rightharpoonup> ExposureMetric) \<Rightarrow> songCandidate list \<Rightarrow> selection list \<Rightarrow> nat \<Rightarrow> picks \<Rightarrow> songCandidate list \<times> picks" where
  "pick_stages exposures songs [] n p = ([], p)"
| "pick_stages exposures songs (s # ss) n p =
     (case pick_while exposures songs s n p of
        (cs, p1) \<Rightarrow> (case pick_stages exposures songs ss (n - length cs) p1 of (ds, p2) \<Rightarrow> (cs @ ds, p2)))"

subsection \<open>The grid\<close>

definition eligible_songs :: "songCandidate list \<Rightarrow> songCandidate list" where
  "eligible_songs songs = filter (\<lambda>c. mf_ID (qc_song c) \<noteq> [] \<and> \<not> mf_Missing (qc_song c)) songs"

definition ordered_songs :: "songCandidate list \<Rightarrow> songCandidate list" where
  "ordered_songs songs =
     sort_key qc_baseRank (sort_key (\<lambda>c. - qc_baseScore c) (sort_key (\<lambda>c. mf_ID (qc_song c)) (eligible_songs songs)))"

definition previously_shown :: "compositionOptions \<Rightarrow> MediaFile \<Rightarrow> bool" where
  "previously_shown opts song \<longleftrightarrow>
     (case co_PreviousView opts of None \<Rightarrow> False | Some v \<Rightarrow> trackExposureKey (mf_ID song) \<in> set (qv_ItemKeys v))"

definition previously_clicked :: "compositionOptions \<Rightarrow> MediaFile \<Rightarrow> bool" where
  "previously_clicked opts song \<longleftrightarrow>
     (case co_PreviousView opts of None \<Rightarrow> False
      | Some v \<Rightarrow> trackExposureKey (mf_ID song) \<in> set (qv_ClickedItemKeys v) \<and> previously_shown opts song)"

definition familiar_stages :: "selection list" where
  "familiar_stages =
     map (\<lambda>pred. \<lparr>se_predicate = pred, se_useBase = True, se_oldestFirst = False\<rparr>)
       [qc_fromLiked, \<lambda>c. qc_baseRank c \<ge> 5 \<and> qc_baseRank c \<le> 20, \<lambda>c. qc_baseRank c \<ge> 20 \<and> qc_baseRank c \<le> 60, \<lambda>_. True]"

definition discovery_stages :: "compositionOptions \<Rightarrow> selection list" where
  "discovery_stages opts =
     [\<lparr>se_predicate = \<lambda>c. previously_clicked opts (qc_song c), se_useBase = False, se_oldestFirst = False\<rparr>,
      \<lparr>se_predicate = \<lambda>c. \<not> previously_shown opts (qc_song c), se_useBase = False, se_oldestFirst = False\<rparr>,
      \<lparr>se_predicate = \<lambda>_. True, se_useBase = False, se_oldestFirst = True\<rparr>]"

definition grid_limit :: "compositionOptions \<Rightarrow> int" where
  "grid_limit opts =
     (let limit = (if co_Limit opts \<le> 0 then listenAgainSongQuota + startRadioSongQuota else co_Limit opts)
      in minQuickPick limit (listenAgainSongQuota + startRadioSongQuota))"

definition listenSlots :: "compositionOptions \<Rightarrow> nat" where
  "listenSlots opts = nat (minQuickPick listenAgainSongQuota (grid_limit opts))"

definition discoverySlots :: "compositionOptions \<Rightarrow> nat" where
  "discoverySlots opts = nat (grid_limit opts - minQuickPick listenAgainSongQuota (grid_limit opts))"

definition familiar_row :: "songCandidate list \<Rightarrow> compositionOptions \<Rightarrow> songCandidate list \<times> picks" where
  "familiar_row songs opts =
     (let ordered = ordered_songs songs in
      if listenSlots opts > 0 \<and> ordered \<noteq> [] then
        case pick_stages (co_Exposures opts) ordered familiar_stages (listenSlots opts - 1) (addSong (hd ordered) no_picks) of
          (cs, p) \<Rightarrow> (hd ordered # cs, p)
      else pick_stages (co_Exposures opts) ordered familiar_stages (listenSlots opts) no_picks)"

definition discovery_row :: "songCandidate list \<Rightarrow> compositionOptions \<Rightarrow> picks \<Rightarrow> songCandidate list \<times> picks" where
  "discovery_row songs opts p =
     pick_stages (co_Exposures opts) (ordered_songs songs) (discovery_stages opts) (discoverySlots opts) p"

definition quick_item :: "quick_section \<Rightarrow> songCandidate \<Rightarrow> QuickPickItem" where
  "quick_item section c =
     \<lparr>qi_Song = qc_song c, qi_Section = section,
      qi_Score = (case section of ListenAgain \<Rightarrow> qc_baseScore c | StartRadio \<Rightarrow> qc_adjustedScore c), qi_ViewID = [], qi_ItemKey = []\<rparr>"

definition composeQuickPick :: "songCandidate list \<Rightarrow> compositionOptions \<Rightarrow> QuickPickItem list" where
  "composeQuickPick songs opts =
     (case familiar_row songs opts of
        (familiar, p) \<Rightarrow> map (quick_item ListenAgain) familiar @ map (quick_item StartRadio) (fst (discovery_row songs opts p)))"

subsection \<open>What a pick is\<close>

abbreviation song_id :: "songCandidate \<Rightarrow> string" where
  "song_id c \<equiv> mf_ID (qc_song c)"

lemma addSong_ids [simp]: "pk_ids (addSong c p) = song_id c # pk_ids p"
  by (simp add: addSong_def)

lemma best_song_None: "best_song exposures s p best songs = None \<longleftrightarrow> best = None \<and> (\<forall>c \<in> set songs. \<not> admitted s p c)"
  by (induction songs arbitrary: best) (auto split: option.splits)

lemma best_song_Some:
  "best_song exposures s p best songs = Some (c, x) \<Longrightarrow> best = Some (c, x) \<or> c \<in> set songs \<and> admitted s p c"
  by (induction songs arbitrary: best) (fastforce split: if_splits option.splits)+

lemma best_song_admitted: "best_song exposures s p None songs = Some (c, x) \<Longrightarrow> c \<in> set songs \<and> admitted s p c"
  using best_song_Some [of exposures s p None songs c x] by simp

text \<open>The facts of a run of picks: which songs it took, and what is left when it stopped before its slots were full.\<close>

definition picked_ok :: "songCandidate list \<Rightarrow> nat \<Rightarrow> picks \<Rightarrow> songCandidate list \<times> picks \<Rightarrow> bool" where
  "picked_ok songs n p r \<longleftrightarrow>
     distinct (map song_id (fst r)) \<and> song_id ` set (fst r) \<inter> set (pk_ids p) = {} \<and> set (fst r) \<subseteq> set songs
     \<and> length (fst r) \<le> n \<and> set (pk_ids (snd r)) = set (pk_ids p) \<union> song_id ` set (fst r)"

lemma picked_ok_append:
  assumes "picked_ok songs n p (cs, p1)" "picked_ok songs (n - length cs) p1 (ds, p2)"
  shows "picked_ok songs n p (cs @ ds, p2)"
  using assms unfolding picked_ok_def by auto

lemma picked_ok_Cons:
  assumes "c \<in> set songs" "song_id c \<notin> set (pk_ids p)" "picked_ok songs n (addSong c p) (cs, p')"
  shows "picked_ok songs (Suc n) p (c # cs, p')"
  using assms unfolding picked_ok_def by auto

lemma pick_while_ok:
  "picked_ok songs n p (pick_while exposures songs s n p)
    \<and> (\<forall>c \<in> set (fst (pick_while exposures songs s n p)). se_predicate s c)
    \<and> (length (fst (pick_while exposures songs s n p)) < n \<longrightarrow>
        (\<forall>c \<in> set songs. se_predicate s c \<longrightarrow> song_id c \<in> set (pk_ids (snd (pick_while exposures songs s n p)))))"
proof (induction n arbitrary: p)
  case 0
  then show ?case by (simp add: picked_ok_def)
next
  case (Suc n)
  show ?case
  proof (cases "best_song exposures s p None songs")
    case None
    then have "pick_while exposures songs s (Suc n) p = ([], p)" by simp
    moreover have "\<forall>c \<in> set songs. \<not> admitted s p c" using None by (simp add: best_song_None)
    ultimately show ?thesis by (auto simp: picked_ok_def admitted_def)
  next
    case (Some b)
    obtain c x where b: "b = (c, x)" by fastforce
    obtain cs p' where rec: "pick_while exposures songs s n (addSong c p) = (cs, p')" by fastforce
    have c: "c \<in> set songs" "se_predicate s c" "song_id c \<notin> set (pk_ids p)"
      using best_song_admitted [of exposures s p songs c x] Some b by (auto simp: admitted_def)
    have "picked_ok songs (Suc n) p (c # cs, p')"
      using picked_ok_Cons [OF c(1,3)] Suc.IH [of "addSong c p"] rec by simp
    then show ?thesis using Suc.IH [of "addSong c p"] c(2) by (simp add: Some b rec)
  qed
qed

lemma pick_stages_ok: "picked_ok songs n p (pick_stages exposures songs ss n p)"
proof (induction ss arbitrary: n p)
  case Nil
  then show ?case by (simp add: picked_ok_def)
next
  case (Cons s ss)
  obtain cs p1 where first: "pick_while exposures songs s n p = (cs, p1)" by fastforce
  obtain ds p2 where rest: "pick_stages exposures songs ss (n - length cs) p1 = (ds, p2)" by fastforce
  have "picked_ok songs n p (cs, p1)" using pick_while_ok [of songs n p exposures s] first by simp
  moreover have "picked_ok songs (n - length cs) p1 (ds, p2)" using Cons.IH rest by metis
  ultimately show ?case using picked_ok_append by (simp add: first rest)
qed

lemma picked_ok_mono: "picked_ok songs n p r \<Longrightarrow> set (pk_ids p) \<subseteq> set (pk_ids (snd r))"
  by (auto simp: picked_ok_def)

text \<open>A run of stages that stops early has taken every song that one of its stages admits.\<close>

lemma pick_stages_short:
  assumes "length (fst (pick_stages exposures songs ss n p)) < n" "s \<in> set ss" "c \<in> set songs" "se_predicate s c"
  shows "song_id c \<in> set (pk_ids (snd (pick_stages exposures songs ss n p)))"
  using assms(1,2)
proof (induction ss arbitrary: n p)
  case (Cons s' ss)
  obtain cs p1 where first: "pick_while exposures songs s' n p = (cs, p1)" by fastforce
  obtain ds p2 where rest: "pick_stages exposures songs ss (n - length cs) p1 = (ds, p2)" by fastforce
  have later: "set (pk_ids p1) \<subseteq> set (pk_ids p2)"
    using picked_ok_mono [OF pick_stages_ok [of songs "n - length cs" p1 exposures ss]] rest by simp
  from Cons.prems(2) consider "s = s'" | "s \<in> set ss" by auto
  then show ?case
  proof cases
    case 1
    then have "song_id c \<in> set (pk_ids p1)"
      using pick_while_ok [of songs n p exposures s'] Cons.prems(1) assms(3,4) by (simp add: first rest)
    with later show ?thesis by (auto simp: first rest)
  next
    case 2
    then show ?thesis using Cons.IH [of "n - length cs" p1] Cons.prems(1) by (simp add: first rest)
  qed
qed simp

text \<open>A song that an earlier stage does not admit is only taken when all the songs of that stage are.\<close>

lemma pick_stages_order:
  assumes "d \<in> set (fst (pick_stages exposures songs (ss @ ss') n p))" "\<forall>s \<in> set ss. \<not> se_predicate s d"
    and "s \<in> set ss" "c \<in> set songs" "se_predicate s c"
  shows "song_id c \<in> set (pk_ids (snd (pick_stages exposures songs (ss @ ss') n p)))"
  using assms(1-3)
proof (induction ss arbitrary: n p)
  case (Cons s' ss)
  obtain cs p1 where first: "pick_while exposures songs s' n p = (cs, p1)" by fastforce
  obtain ds p2 where rest: "pick_stages exposures songs (ss @ ss') (n - length cs) p1 = (ds, p2)" by fastforce
  have ok: "picked_ok songs (n - length cs) p1 (ds, p2)"
    using pick_stages_ok rest by metis
  have "d \<notin> set cs" using pick_while_ok [of songs n p exposures s'] Cons.prems(2) by (auto simp: first)
  then have d: "d \<in> set ds" using Cons.prems(1) by (simp add: first rest)
  then have short: "length cs < n" using ok by (cases ds) (auto simp: picked_ok_def)
  from Cons.prems(3) consider "s = s'" | "s \<in> set ss" by auto
  then show ?case
  proof cases
    case 1
    then have "song_id c \<in> set (pk_ids p1)"
      using pick_while_ok [of songs n p exposures s'] short assms(4,5) by (simp add: first)
    then show ?thesis using picked_ok_mono [OF ok] by (auto simp: first rest)
  next
    case 2
    then show ?thesis using Cons.IH [of "n - length cs" p1] Cons.prems d by (simp add: first rest)
  qed
qed simp

text \<open>Among the songs of the last stage the one that was not shown for longest comes first.\<close>

lemma best_song_oldest:
  assumes "se_oldestFirst s" "best_song exposures s p best songs = Some (c, x)"
  shows "(\<forall>d \<in> set songs. admitted s p d \<longrightarrow> last_shown exposures c \<le> last_shown exposures d)
    \<and> (\<forall>b. best = Some b \<longrightarrow> last_shown exposures c \<le> last_shown exposures (fst b))"
  using assms(2)
proof (induction songs arbitrary: best)
  case (Cons d songs)
  show ?case
  proof (cases "admitted s p d")
    case True
    let ?best = "case best of None \<Rightarrow> Some (d, candidate_score s p d)
      | Some b \<Rightarrow> if better exposures s p d b then Some (d, candidate_score s p d) else best"
    have step: "best_song exposures s p ?best songs = Some (c, x)" using Cons.prems True by simp
    have "\<exists>b. ?best = Some b \<and> last_shown exposures (fst b) \<le> last_shown exposures d
        \<and> (\<forall>b'. best = Some b' \<longrightarrow> last_shown exposures (fst b) \<le> last_shown exposures (fst b'))"
      using assms(1) by (auto simp: better_def split: option.splits)
    with Cons.IH [OF step] show ?thesis by (metis order_trans set_ConsD)
  next
    case False
    with Cons show ?thesis by simp
  qed
qed simp

subsection \<open>The two rows\<close>

lemma ordered_songs_set [simp]: "set (ordered_songs songs) = set (eligible_songs songs)"
  by (simp add: ordered_songs_def)

lemma slots_limit: "int (listenSlots opts + discoverySlots opts) = grid_limit opts" "0 < listenSlots opts"
  by (auto simp: listenSlots_def discoverySlots_def grid_limit_def minQuickPick_def listenAgainSongQuota_def
      startRadioSongQuota_def Let_def)

lemma everything_stage:
  "\<lparr>se_predicate = \<lambda>_. True, se_useBase = True, se_oldestFirst = False\<rparr> \<in> set familiar_stages"
  "\<lparr>se_predicate = \<lambda>_. True, se_useBase = False, se_oldestFirst = True\<rparr> \<in> set (discovery_stages opts)"
  by (simp_all add: familiar_stages_def discovery_stages_def)

lemma familiar_row_ok:
  "picked_ok (ordered_songs songs) (listenSlots opts) no_picks (familiar_row songs opts)
    \<and> (length (fst (familiar_row songs opts)) < listenSlots opts \<longrightarrow>
        song_id ` set (eligible_songs songs) \<subseteq> set (pk_ids (snd (familiar_row songs opts))))"
proof (cases "ordered_songs songs")
  case Nil
  then have "familiar_row songs opts = pick_stages (co_Exposures opts) [] familiar_stages (listenSlots opts) no_picks"
    by (simp add: familiar_row_def)
  moreover have "set (eligible_songs songs) = {}" using ordered_songs_set [of songs] Nil by simp
  ultimately show ?thesis using pick_stages_ok [of "[]"] by (simp add: Nil)
next
  case (Cons c rest)
  let ?ordered = "ordered_songs songs"
  obtain cs p where run: "pick_stages (co_Exposures opts) ?ordered familiar_stages (listenSlots opts - 1) (addSong c no_picks) = (cs, p)"
    by fastforce
  then have row: "familiar_row songs opts = (c # cs, p)"
    using slots_limit(2) [of opts] by (simp add: familiar_row_def Cons)
  have ok: "picked_ok ?ordered (listenSlots opts - 1) (addSong c no_picks) (cs, p)"
    using pick_stages_ok run by metis
  have "c \<in> set ?ordered" by (simp add: Cons)
  then have "picked_ok ?ordered (listenSlots opts) no_picks (c # cs, p)"
    using picked_ok_Cons [OF _ _ ok] slots_limit(2) [of opts] by (simp add: no_picks_def)
  moreover have "song_id d \<in> set (pk_ids p)" if "length cs < listenSlots opts - 1" "d \<in> set ?ordered" for d
    using pick_stages_short [OF _ everything_stage(1) that(2), of "co_Exposures opts" "listenSlots opts - 1" "addSong c no_picks"] that run
    by simp
  ultimately show ?thesis by (auto simp: row)
qed

definition discovery_songs :: "songCandidate list \<Rightarrow> compositionOptions \<Rightarrow> songCandidate list" where
  "discovery_songs songs opts = fst (discovery_row songs opts (snd (familiar_row songs opts)))"

lemma composeQuickPick_rows:
  "composeQuickPick songs opts =
    map (quick_item ListenAgain) (fst (familiar_row songs opts)) @ map (quick_item StartRadio) (discovery_songs songs opts)"
  by (simp add: composeQuickPick_def discovery_songs_def split: prod.splits)

lemma quick_item_simps [simp]:
  "qi_Song (quick_item s c) = qc_song c" "qi_Section (quick_item s c) = s"
  by (simp_all add: quick_item_def)

lemma item_ids:
  "map (\<lambda>i. mf_ID (qi_Song i)) (composeQuickPick songs opts) = map song_id (fst (familiar_row songs opts) @ discovery_songs songs opts)"
  by (simp add: composeQuickPick_rows)

lemma rows_ok:
  "picked_ok (ordered_songs songs) (listenSlots opts + discoverySlots opts) no_picks
     (fst (familiar_row songs opts) @ discovery_songs songs opts, snd (discovery_row songs opts (snd (familiar_row songs opts))))"
proof -
  have first: "picked_ok (ordered_songs songs) (listenSlots opts) no_picks (familiar_row songs opts)"
    using familiar_row_ok by blast
  have "picked_ok (ordered_songs songs) (discoverySlots opts) (snd (familiar_row songs opts)) (discovery_row songs opts (snd (familiar_row songs opts)))"
    unfolding discovery_row_def by (rule pick_stages_ok)
  with first show ?thesis unfolding picked_ok_def discovery_songs_def by auto
qed

lemma picked_ids: "set (pk_ids (snd (discovery_row songs opts (snd (familiar_row songs opts)))))
    = (\<lambda>i. mf_ID (qi_Song i)) ` set (composeQuickPick songs opts)"
proof -
  have "set (pk_ids (snd (discovery_row songs opts (snd (familiar_row songs opts)))))
      = song_id ` set (fst (familiar_row songs opts) @ discovery_songs songs opts)"
    using rows_ok [of songs opts] unfolding picked_ok_def by (simp add: no_picks_def)
  also have "\<dots> = set (map (\<lambda>i. mf_ID (qi_Song i)) (composeQuickPick songs opts))" by (simp only: item_ids set_map)
  finally show ?thesis by simp
qed

lemma short_grid:
  assumes "length (composeQuickPick songs opts) < listenSlots opts + discoverySlots opts" "c \<in> set (eligible_songs songs)"
  shows "song_id c \<in> (\<lambda>i. mf_ID (qi_Song i)) ` set (composeQuickPick songs opts)"
proof -
  let ?p = "snd (familiar_row songs opts)"
  consider "length (fst (familiar_row songs opts)) < listenSlots opts" | "length (discovery_songs songs opts) < discoverySlots opts"
    using assms(1) by (force simp: composeQuickPick_rows)
  then have "song_id c \<in> set (pk_ids (snd (discovery_row songs opts ?p)))"
  proof cases
    case 1
    then have "song_id c \<in> set (pk_ids ?p)" using familiar_row_ok [of songs opts] assms(2) by blast
    moreover have "set (pk_ids ?p) \<subseteq> set (pk_ids (snd (discovery_row songs opts ?p)))"
      unfolding discovery_row_def by (rule picked_ok_mono [OF pick_stages_ok])
    ultimately show ?thesis by blast
  next
    case 2
    then show ?thesis unfolding discovery_songs_def discovery_row_def
      by (rule pick_stages_short [OF _ everything_stage(2)]) (use assms(2) in simp_all)
  qed
  then show ?thesis by (simp add: picked_ids)
qed

text \<open>C27: The grid holds as many songs as its limit and the library allow, never the same song twice: its length is the limit (at most
  12) or the number of different eligible songs, whichever is less; each is an eligible one of the ranked songs, and at most three are
  in the familiar row.\<close>

theorem quick_pick_fills:
  "let items = composeQuickPick songs opts; ids = map (\<lambda>i. mf_ID (qi_Song i)) items in
     distinct ids \<and> set (map qi_Song items) \<subseteq> set (map qc_song (eligible_songs songs))
     \<and> int (length items) = min (grid_limit opts) (int (card (set (map song_id (eligible_songs songs)))))
     \<and> length (filter (\<lambda>i. qi_Section i = ListenAgain) items) \<le> 3"
proof -
  let ?items = "composeQuickPick songs opts"
  let ?all = "song_id ` set (eligible_songs songs)"
  note ok = rows_ok [of songs opts, unfolded picked_ok_def, simplified fst_conv snd_conv]
  have distinct: "distinct (map (\<lambda>i. mf_ID (qi_Song i)) ?items)" using ok by (simp only: item_ids)
  have songs: "set (map qi_Song ?items) \<subseteq> set (map qc_song (eligible_songs songs))"
    using ok by (auto simp: composeQuickPick_rows)
  have len: "length ?items = card (set (map (\<lambda>i. mf_ID (qi_Song i)) ?items))"
    using distinct by (metis distinct_card length_map)
  have sub: "set (map (\<lambda>i. mf_ID (qi_Song i)) ?items) \<subseteq> ?all" using songs by fastforce
  then have "length ?items \<le> card ?all" using len by (simp add: card_mono)
  moreover have "length ?items \<le> listenSlots opts + discoverySlots opts"
    using ok by (simp add: composeQuickPick_rows)
  moreover have "card ?all \<le> length ?items" if "length ?items < listenSlots opts + discoverySlots opts"
  proof -
    have "?all \<subseteq> set (map (\<lambda>i. mf_ID (qi_Song i)) ?items)" using short_grid [OF that] by auto
    then show ?thesis unfolding len by (rule card_mono [OF finite_set])
  qed
  ultimately have "int (length ?items) = min (grid_limit opts) (int (card ?all))"
    using slots_limit(1) [of opts] by linarith
  moreover have "length (filter (\<lambda>i. qi_Section i = ListenAgain) ?items) \<le> 3"
  proof -
    have "length (fst (familiar_row songs opts)) \<le> listenSlots opts"
      using familiar_row_ok [of songs opts] unfolding picked_ok_def by blast
    also have "\<dots> \<le> 3" by (auto simp: listenSlots_def minQuickPick_def listenAgainSongQuota_def)
    finally show ?thesis by (simp add: composeQuickPick_rows comp_def)
  qed
  ultimately show ?thesis using distinct songs by (simp add: Let_def)
qed

text \<open>A song to discover that was shown the last time and not clicked is only shown again when every eligible song is in the grid
  that was not shown the last time, or was shown and clicked; and a song that was not clicked is only there when every clicked one is.\<close>

lemma repeats_last:
  assumes "i \<in> set (composeQuickPick songs opts)" "qi_Section i = StartRadio" "\<not> previously_clicked opts (qi_Song i)"
    and "d \<in> set (eligible_songs songs)"
    and "previously_clicked opts (qc_song d) \<or> previously_shown opts (qi_Song i) \<and> \<not> previously_shown opts (qc_song d)"
  shows "mf_ID (qc_song d) \<in> mf_ID ` qi_Song ` set (composeQuickPick songs opts)"
proof -
  obtain c where i: "i = quick_item StartRadio c" and c': "c \<in> set (discovery_songs songs opts)"
    using assms(1,2) by (auto simp: composeQuickPick_rows)
  let ?p = "snd (familiar_row songs opts)"
  let ?clicked = "\<lparr>se_predicate = \<lambda>c. previously_clicked opts (qc_song c), se_useBase = False, se_oldestFirst = False\<rparr>"
  let ?new = "\<lparr>se_predicate = \<lambda>c. \<not> previously_shown opts (qc_song c), se_useBase = False, se_oldestFirst = False\<rparr>"
  let ?any = "\<lparr>se_predicate = \<lambda>_. True, se_useBase = False, se_oldestFirst = True\<rparr>"
  have one: "discovery_stages opts = [?clicked] @ [?new, ?any]" and two: "discovery_stages opts = [?clicked, ?new] @ [?any]"
    by (simp_all add: discovery_stages_def)
  have c: "c \<in> set (fst (pick_stages (co_Exposures opts) (ordered_songs songs) (discovery_stages opts) (discoverySlots opts) ?p))"
    using c' by (simp add: discovery_songs_def discovery_row_def)
  have "song_id d \<in> set (pk_ids (snd (pick_stages (co_Exposures opts) (ordered_songs songs) (discovery_stages opts) (discoverySlots opts) ?p)))"
  proof (cases "previously_clicked opts (qc_song d)")
    case True
    show ?thesis unfolding one
      by (rule pick_stages_order [OF c [unfolded one], of ?clicked]) (use assms(3,4) i True in simp_all)
  next
    case False
    then have "previously_shown opts (qc_song c)" "\<not> previously_shown opts (qc_song d)" using assms(5) i by auto
    then show ?thesis unfolding two
      by (intro pick_stages_order [OF c [unfolded two], of ?new]) (use assms(3,4) i in simp_all)
  qed
  then show ?thesis using picked_ids [of songs opts] by (simp add: discovery_row_def image_image)
qed

text \<open>When the clicked songs fit into the row of songs to discover, all of them are in the grid.\<close>

lemma clicked_fit:
  assumes "card (song_id ` {c \<in> set (eligible_songs songs). previously_clicked opts (qc_song c)}) \<le> discoverySlots opts"
    and d: "d \<in> set (eligible_songs songs)" "previously_clicked opts (qc_song d)"
  shows "song_id d \<in> mf_ID ` qi_Song ` set (composeQuickPick songs opts)"
proof -
  let ?p = "snd (familiar_row songs opts)"
  let ?clicked = "\<lparr>se_predicate = \<lambda>c. previously_clicked opts (qc_song c), se_useBase = False, se_oldestFirst = False\<rparr>"
  let ?ids = "song_id ` {c \<in> set (eligible_songs songs). previously_clicked opts (qc_song c)}"
  obtain cs p1 where first: "pick_while (co_Exposures opts) (ordered_songs songs) ?clicked (discoverySlots opts) ?p = (cs, p1)" by fastforce
  have ok: "picked_ok (ordered_songs songs) (discoverySlots opts) ?p (cs, p1)" "\<forall>c \<in> set cs. previously_clicked opts (qc_song c)"
    "length cs < discoverySlots opts \<Longrightarrow> song_id d \<in> set (pk_ids p1)"
    using pick_while_ok [of "ordered_songs songs" "discoverySlots opts" ?p "co_Exposures opts" ?clicked] d by (simp_all add: first)
  have "song_id d \<in> set (pk_ids p1)"
  proof (cases "length cs < discoverySlots opts")
    case False
    have sub: "song_id ` set cs \<subseteq> ?ids" using ok(1,2) by (auto simp: picked_ok_def)
    have "card ?ids \<le> card (song_id ` set cs)"
      using False assms(1) ok(1) unfolding picked_ok_def by (simp add: distinct_map card_image distinct_card)
    then have "song_id ` set cs = ?ids" using sub by (intro card_seteq) auto
    then have "song_id d \<in> song_id ` set cs" using d by auto
    then show ?thesis using ok(1) by (auto simp: picked_ok_def)
  qed (rule ok(3))
  moreover have "set (pk_ids p1) \<subseteq> set (pk_ids (snd (discovery_row songs opts ?p)))"
  proof -
    obtain ds p2 where rest: "pick_stages (co_Exposures opts) (ordered_songs songs) (tl (discovery_stages opts)) (discoverySlots opts - length cs) p1
        = (ds, p2)" by fastforce
    then have "discovery_row songs opts ?p = (cs @ ds, p2)" by (simp add: discovery_row_def discovery_stages_def first)
    then show ?thesis using picked_ok_mono [OF pick_stages_ok] rest by (metis snd_conv)
  qed
  ultimately show ?thesis using picked_ids [of songs opts] by (auto simp: image_image)
qed

definition example_song :: "string \<Rightarrow> int \<Rightarrow> songCandidate" where
  "example_song i rank = \<lparr>qc_song = empty_MediaFile\<lparr>mf_ID := i, mf_Artist := ''A''\<rparr>, qc_baseScore = 10 - of_int rank, qc_adjustedScore = 10 - of_int rank,
     qc_baseRank = rank, qc_fromLiked = False\<rparr>"

definition example_songs :: "songCandidate list" where
  "example_songs = [example_song ''a'' 1, example_song ''b'' 2, example_song ''c'' 3, example_song ''d'' 4, example_song ''e'' 5, example_song ''f'' 6]"

definition example_options :: compositionOptions where
  "example_options = \<lparr>co_Limit = 12, co_Exposures = (\<lambda>_. None),
     co_PreviousView = Some \<lparr>qv_ViewID = ''v'', qv_ItemKeys = [''track:d'', ''track:e''], qv_ClickedItemKeys = [''track:e'']\<rparr>\<rparr>"

lemma example_grid: "map (\<lambda>i. (mf_ID (qi_Song i), qi_Section i)) (composeQuickPick example_songs example_options)
    = [(''a'', ListenAgain), (''e'', ListenAgain), (''f'', ListenAgain), (''b'', StartRadio), (''c'', StartRadio), (''d'', StartRadio)]"
  by code_simp

end
