(* ===== verification/Quick_Pick_Views.thy ===== *)
theory Quick_Pick_Views
  imports Quick_Pick
begin

text \<open>
  \<open>persistence/quick_pick_metrics_repository.go\<close> and \<open>core/quickpick\<close>: the tables of what a user was shown and clicked, the
  service over them, and the recall of the songs that are ranked. The ranking itself (\<open>core/recommendations\<close>), the queries of
  the media files and the random view ids are parameters. Batches of queries are one query here; errors of the database are not
  modelled, except for the recall.
\<close>

subsection \<open>The tables\<close>

record impression =
  im_user :: string
  im_view :: string
  im_key :: string
  im_shown :: Time
  im_clicked :: "Time option"

record quick_db =
  qd_impressions :: "impression list"
  qd_exposures :: "string \<times> string \<rightharpoonup> ExposureMetric"

fun unique_exposure_keys :: "string list \<Rightarrow> string list \<Rightarrow> string list" where
  "unique_exposure_keys seen [] = []"
| "unique_exposure_keys seen (key # keys) =
     (let k = trim_space key in if k = [] \<or> k \<in> set seen then unique_exposure_keys seen keys else k # unique_exposure_keys (k # seen) keys)"

definition uniqueQuickPickExposureKeys :: "string list \<Rightarrow> string list" where
  "uniqueQuickPickExposureKeys keys = unique_exposure_keys [] keys"

definition has_impression :: "string \<Rightarrow> string \<Rightarrow> string \<Rightarrow> impression list \<Rightarrow> bool" where
  "has_impression user view key rows \<longleftrightarrow> list_ex (\<lambda>r. im_user r = user \<and> im_view r = view \<and> im_key r = key) rows"

text \<open>\<open>insert ... on conflict do nothing\<close>, with the keys whose row is new.\<close>

fun insert_impressions :: "string \<Rightarrow> string \<Rightarrow> Time \<Rightarrow> string list \<Rightarrow> impression list \<Rightarrow> string list \<times> impression list" where
  "insert_impressions user view shownAt [] rows = ([], rows)"
| "insert_impressions user view shownAt (key # keys) rows =
     (if has_impression user view key rows then insert_impressions user view shownAt keys rows
      else case insert_impressions user view shownAt keys
               (rows @ [\<lparr>im_user = user, im_view = view, im_key = key, im_shown = shownAt, im_clicked = None\<rparr>]) of
             (new, rows') \<Rightarrow> (key # new, rows'))"

definition record_exposure ::
    "string \<Rightarrow> Time \<Rightarrow> string \<Rightarrow> (string \<times> string \<rightharpoonup> ExposureMetric) \<Rightarrow> (string \<times> string \<rightharpoonup> ExposureMetric)" where
  "record_exposure user shownAt key exposures =
     exposures((user, key) \<mapsto>
       (case exposures (user, key) of
          None \<Rightarrow> \<lparr>xm_ShowCount = 1, xm_LastShownAt = shownAt\<rparr>
        | Some m \<Rightarrow> \<lparr>xm_ShowCount = xm_ShowCount m + 1, xm_LastShownAt = shownAt\<rparr>))"

definition recordQuickPickExposureAggregates ::
    "string \<Rightarrow> string list \<Rightarrow> Time \<Rightarrow> (string \<times> string \<rightharpoonup> ExposureMetric) \<Rightarrow> (string \<times> string \<rightharpoonup> ExposureMetric)" where
  "recordQuickPickExposureAggregates user keys shownAt exposures = fold (record_exposure user shownAt) keys exposures"

definition RecordImpressions :: "string \<Rightarrow> string \<Rightarrow> string list \<Rightarrow> Time \<Rightarrow> quick_db \<Rightarrow> quick_db" where
  "RecordImpressions userID viewID itemKeys shownAt db =
     (let user = trim_space userID; view = trim_space viewID; keys = uniqueQuickPickExposureKeys itemKeys in
      if user = [] \<or> view = [] \<or> keys = [] then db
      else case insert_impressions user view shownAt keys (qd_impressions db) of
             (newKeys, rows) \<Rightarrow>
               \<lparr>qd_impressions = rows, qd_exposures = recordQuickPickExposureAggregates user newKeys shownAt (qd_exposures db)\<rparr>)"

text \<open>\<open>ExposureMetrics\<close> of a user, restricted to the keys asked for.\<close>

definition ExposureMetrics :: "string \<Rightarrow> string list \<Rightarrow> quick_db \<Rightarrow> string \<rightharpoonup> ExposureMetric" where
  "ExposureMetrics userID itemKeys db =
     (\<lambda>key. if key \<in> set (uniqueQuickPickExposureKeys itemKeys) then qd_exposures db (userID, key) else None)"

text \<open>\<open>LatestView\<close>: the view of the row that comes first by \<open>shown_at desc, view_id desc\<close>, and its rows by key.\<close>

definition latest_row :: "string \<Rightarrow> quick_db \<Rightarrow> impression option" where
  "latest_row userID db =
     (let rows = filter (\<lambda>r. im_user r = userID) (qd_impressions db)
      in if rows = [] then None else Some (last (sort_key im_shown (sort_key im_view rows))))"

definition LatestView :: "string \<Rightarrow> quick_db \<Rightarrow> QuickPickView option" where
  "LatestView userID db =
     (case latest_row userID db of
        None \<Rightarrow> None
      | Some latest \<Rightarrow>
          let rows = sort_key im_key (filter (\<lambda>r. im_user r = userID \<and> im_view r = im_view latest) (qd_impressions db))
          in if im_view latest = [] then None
             else Some \<lparr>qv_ViewID = im_view latest, qv_ItemKeys = map im_key rows,
                        qv_ClickedItemKeys = map im_key (filter (\<lambda>r. im_clicked r \<noteq> None) rows)\<rparr>)"

text \<open>\<open>RecordClick\<close> of the repository; \<^const>\<open>None\<close> is \<open>model.ErrNotFound\<close>.\<close>

definition click_row :: "string \<Rightarrow> string \<Rightarrow> string \<Rightarrow> Time \<Rightarrow> impression \<Rightarrow> impression" where
  "click_row userID viewID itemKey clickedAt r =
     (if im_user r = userID \<and> im_view r = viewID \<and> im_key r = itemKey
      then r\<lparr>im_clicked := (case im_clicked r of None \<Rightarrow> Some clickedAt | Some t \<Rightarrow> Some t)\<rparr> else r)"

definition RecordClick_row :: "string \<Rightarrow> string \<Rightarrow> string \<Rightarrow> Time \<Rightarrow> quick_db \<Rightarrow> quick_db option" where
  "RecordClick_row userID viewID itemKey clickedAt db =
     (if has_impression userID viewID itemKey (qd_impressions db)
      then Some (db\<lparr>qd_impressions := map (click_row userID viewID itemKey clickedAt) (qd_impressions db)\<rparr>) else None)"

subsection \<open>Recall\<close>

datatype recall_source = FromPlays | FromRecent | FromLiked | FromRandom

record recalledSong =
  rs_file :: MediaFile
  rs_starred :: bool
  rs_fromPlays :: bool
  rs_fromRecent :: bool
  rs_fromLiked :: bool

text \<open>A row of a query is a file with its star. The songs recalled so far are a list, one entry per id; the code's map has no order.\<close>

definition recall_merge :: "recall_source \<Rightarrow> MediaFile \<times> bool \<Rightarrow> recalledSong option \<Rightarrow> recalledSong" where
  "recall_merge source row old =
     (let c = (case old of
                 None \<Rightarrow> \<lparr>rs_file = fst row, rs_starred = snd row, rs_fromPlays = False, rs_fromRecent = False, rs_fromLiked = False\<rparr>
               | Some c \<Rightarrow> c\<lparr>rs_starred := (rs_starred c \<or> snd row)\<rparr>)
      in case source of
           FromPlays \<Rightarrow> c\<lparr>rs_fromPlays := True\<rparr>
         | FromRecent \<Rightarrow> c\<lparr>rs_fromRecent := True\<rparr>
         | FromLiked \<Rightarrow> c\<lparr>rs_fromLiked := (rs_fromLiked c \<or> snd row)\<rparr>
         | FromRandom \<Rightarrow> c\<lparr>rs_fromLiked := (rs_fromLiked c \<or> snd row)\<rparr>)"

definition recalled_id :: "string \<Rightarrow> recalledSong \<Rightarrow> bool" where
  "recalled_id i c \<longleftrightarrow> mf_ID (rs_file c) = i"

definition put_recalled :: "recalledSong \<Rightarrow> recalledSong list \<Rightarrow> recalledSong list" where
  "put_recalled c byID =
     (if list_ex (recalled_id (mf_ID (rs_file c))) byID
      then map (\<lambda>d. if recalled_id (mf_ID (rs_file c)) d then c else d) byID else byID @ [c])"

definition recall_row :: "recall_source \<Rightarrow> MediaFile \<times> bool \<Rightarrow> recalledSong list \<Rightarrow> recalledSong list" where
  "recall_row source row byID =
     (if mf_ID (fst row) = [] \<or> mf_Missing (fst row) then byID
      else put_recalled (recall_merge source row (find (recalled_id (mf_ID (fst row))) byID)) byID)"

definition quickPickLimit :: nat where "quickPickLimit = 12"

text \<open>A clicked song outside the sample is loaded again.\<close>

definition retain_key :: "(string \<Rightarrow> (MediaFile \<times> bool) option) \<Rightarrow> string \<Rightarrow> recalledSong list \<Rightarrow> recalledSong list" where
  "retain_key get key byID =
     (case cut_prefix key ''track:'' of
        None \<Rightarrow> byID
      | Some mediaFileID \<Rightarrow>
          if list_ex (recalled_id mediaFileID) byID \<or> mediaFileID = [] then byID
          else case get mediaFileID of
                 None \<Rightarrow> byID
               | Some (file, starred) \<Rightarrow>
                   if mf_ID file = [] \<or> mf_Missing file then byID
                   else put_recalled \<lparr>rs_file = file, rs_starred = starred, rs_fromPlays = False, rs_fromRecent = False,
                                      rs_fromLiked = starred\<rparr> byID)"

text \<open>The queries: \<open>GetAll\<close> by plays, by date and by star, \<open>GetRandom\<close> and \<open>Get\<close> (\<^const>\<open>None\<close> is an error).\<close>

record recall_queries =
  rq_plays :: "(MediaFile \<times> bool) list option"
  rq_recent :: "(MediaFile \<times> bool) list option"
  rq_liked :: "(MediaFile \<times> bool) list option"
  rq_random :: "(MediaFile \<times> bool) list option"
  rq_Get :: "string \<Rightarrow> (MediaFile \<times> bool) option"

definition recallSongs :: "recall_queries \<Rightarrow> string list \<Rightarrow> recalledSong list option" where
  "recallSongs q retainedItemKeys =
     (case (rq_plays q, rq_recent q, rq_liked q) of
        (Some plays, Some recent, Some liked) \<Rightarrow>
          let byID = fold (recall_row FromLiked) liked (fold (recall_row FromRecent) recent (fold (recall_row FromPlays) plays []))
          in if rq_random q = None \<and> byID = [] then None
             else
               let byID1 = fold (recall_row FromRandom) (case rq_random q of None \<Rightarrow> [] | Some files \<Rightarrow> files) byID
               in Some (fold (retain_key (rq_Get q)) (take quickPickLimit retainedItemKeys) byID1)
      | _ \<Rightarrow> None)"

subsection \<open>The service\<close>

text \<open>The metrics repository is optional; without it there is no history.\<close>

datatype quick_error = QuickValidation | QuickViewRequired | QuickNotConfigured | QuickQueryFailed

definition RecordImpressions_service :: "string \<Rightarrow> string \<Rightarrow> string list \<Rightarrow> Time \<Rightarrow> quick_db option \<Rightarrow> quick_error + quick_db" where
  "RecordImpressions_service userID viewID itemKeys now metrics =
     (let view = trim_space viewID in
      if view = [] then Inl QuickViewRequired
      else case metrics of None \<Rightarrow> Inl QuickNotConfigured | Some db \<Rightarrow> Inr (RecordImpressions userID view itemKeys now db))"

definition RecordClick_service :: "string \<Rightarrow> string \<Rightarrow> string \<Rightarrow> Time \<Rightarrow> quick_db option \<Rightarrow> quick_error + quick_db" where
  "RecordClick_service userID viewID itemKey now metrics =
     (let view = trim_space viewID; key = trim_space itemKey in
      if view = [] \<or> (case cut_prefix key ''track:'' of None \<Rightarrow> True | Some rest \<Rightarrow> trim_space rest = []) then Inl QuickValidation
      else case metrics of
             None \<Rightarrow> Inl QuickNotConfigured
           | Some db \<Rightarrow> (case RecordClick_row userID view key now db of None \<Rightarrow> Inl QuickValidation | Some db' \<Rightarrow> Inr db'))"

definition quickPickItemKey :: "QuickPickItem \<Rightarrow> string" where
  "quickPickItemKey item = (if qi_ItemKey item \<noteq> [] then qi_ItemKey item else trackExposureKey (mf_ID (qi_Song item)))"

text \<open>\<open>Get\<close>: \<open>rank\<close> is \<open>rankSongs\<close> after the recall.\<close>

definition Get_songs :: "recall_queries \<Rightarrow> (recalledSong list \<Rightarrow> songCandidate list) \<Rightarrow> QuickPickView option \<Rightarrow> songCandidate list option" where
  "Get_songs q rank previousView =
     map_option rank (recallSongs q (case previousView of None \<Rightarrow> [] | Some v \<Rightarrow> qv_ClickedItemKeys v))"

definition Get_quick_pick ::
    "recall_queries \<Rightarrow> (recalledSong list \<Rightarrow> songCandidate list) \<Rightarrow> string \<Rightarrow> string \<Rightarrow> quick_db option \<Rightarrow> quick_error + QuickPickItem list" where
  "Get_quick_pick q rank newViewID userID metrics =
     (let previousView = (case metrics of None \<Rightarrow> None | Some db \<Rightarrow> LatestView userID db) in
      case Get_songs q rank previousView of
        None \<Rightarrow> Inl QuickQueryFailed
      | Some songs \<Rightarrow>
          let keys = filter (\<lambda>k. k \<noteq> []) (map (\<lambda>c. trackExposureKey (mf_ID (qc_song c))) songs);
              exposures = (case metrics of None \<Rightarrow> (\<lambda>_. None) | Some db \<Rightarrow> ExposureMetrics userID keys db);
              items = composeQuickPick songs \<lparr>co_Limit = int quickPickLimit, co_Exposures = exposures, co_PreviousView = previousView\<rparr>
          in Inr (map (\<lambda>i. i\<lparr>qi_ViewID := newViewID, qi_ItemKey := quickPickItemKey i\<rparr>) items))"

subsection \<open>Counting displays\<close>

definition impression_id :: "impression \<Rightarrow> string \<times> string \<times> string" where
  "impression_id r = (im_user r, im_view r, im_key r)"

definition new_impression :: "string \<Rightarrow> string \<Rightarrow> Time \<Rightarrow> string \<Rightarrow> impression" where
  "new_impression user view shownAt key = \<lparr>im_user = user, im_view = view, im_key = key, im_shown = shownAt, im_clicked = None\<rparr>"

lemma new_impression_simps [simp]:
  "im_user (new_impression u v t k) = u" "im_view (new_impression u v t k) = v" "im_key (new_impression u v t k) = k"
  "im_shown (new_impression u v t k) = t" "im_clicked (new_impression u v t k) = None"
  by (simp_all add: new_impression_def)

lemma has_impression_iff: "has_impression u v k rows \<longleftrightarrow> (u, v, k) \<in> impression_id ` set rows"
  by (auto simp: has_impression_def list_ex_iff impression_id_def image_iff)

lemma insert_impressions_rows:
  "insert_impressions u v t keys rows = (new, rows') \<Longrightarrow>
    rows' = rows @ map (new_impression u v t) new \<and> distinct new
    \<and> (\<forall>k. k \<in> set new \<longleftrightarrow> k \<in> set keys \<and> \<not> has_impression u v k rows)"
proof (induction keys arbitrary: rows new rows')
  case (Cons key keys)
  show ?case
  proof (cases "has_impression u v key rows")
    case True
    with Cons show ?thesis by auto
  next
    case False
    let ?row = "new_impression u v t key"
    obtain new' where new': "new = key # new'" "insert_impressions u v t keys (rows @ [?row]) = (new', rows')"
      using Cons.prems False by (auto simp: new_impression_def split: prod.splits)
    have other: "has_impression u v k (rows @ [?row]) \<longleftrightarrow> has_impression u v k rows \<or> k = key" for k
      by (auto simp: has_impression_iff impression_id_def)
    show ?thesis using Cons.IH [OF new'(2)] False by (auto simp: new'(1) other)
  qed
qed simp

lemma record_exposures_lookup:
  "distinct keys \<Longrightarrow> fold (record_exposure u t) keys e (u', k) =
     (if u' = u \<and> k \<in> set keys
      then Some \<lparr>xm_ShowCount = (case e (u, k) of None \<Rightarrow> 1 | Some m \<Rightarrow> xm_ShowCount m + 1), xm_LastShownAt = t\<rparr>
      else e (u', k))"
  by (induction keys arbitrary: e) (auto simp: record_exposure_def split: option.splits)

definition shown_rows :: "string \<Rightarrow> string \<Rightarrow> impression list \<Rightarrow> impression list" where
  "shown_rows u k rows = filter (\<lambda>r. im_user r = u \<and> im_key r = k) rows"

definition metric_ok :: "ExposureMetric option \<Rightarrow> impression list \<Rightarrow> bool" where
  "metric_ok m rows \<longleftrightarrow>
     (case m of None \<Rightarrow> rows = []
      | Some x \<Rightarrow> rows \<noteq> [] \<and> xm_ShowCount x = length rows \<and> xm_LastShownAt x \<in> im_shown ` set rows)"

definition views_inv :: "quick_db \<Rightarrow> bool" where
  "views_inv db \<longleftrightarrow>
     distinct (map impression_id (qd_impressions db))
     \<and> (\<forall>u k. metric_ok (qd_exposures db (u, k)) (shown_rows u k (qd_impressions db)))"

lemma shown_rows_append [simp]: "shown_rows u k (rows @ rows') = shown_rows u k rows @ shown_rows u k rows'"
  by (simp add: shown_rows_def)

lemma shown_rows_new: "distinct new \<Longrightarrow>
    shown_rows u' k (map (new_impression u v t) new) = (if u' = u \<and> k \<in> set new then [new_impression u v t k] else [])"
  by (induction new) (auto simp: shown_rows_def)

lemma RecordImpressions_inv:
  assumes inv: "views_inv db"
  shows "views_inv (RecordImpressions u v keys t db)"
proof -
  let ?u = "trim_space u" and ?v = "trim_space v" and ?keys = "uniqueQuickPickExposureKeys keys"
  obtain new rows where ins: "insert_impressions ?u ?v t ?keys (qd_impressions db) = (new, rows)" by fastforce
  note new = insert_impressions_rows [OF ins]
  have "distinct (map impression_id rows)"
  proof -
    have ids: "map impression_id rows = map impression_id (qd_impressions db) @ map (\<lambda>k. (?u, ?v, k)) new"
      using new by (simp add: impression_id_def)
    have "(?u, ?v, k) \<notin> impression_id ` set (qd_impressions db)" if "k \<in> set new" for k
      using new that by (simp add: has_impression_iff)
    then have "set (map (\<lambda>k. (?u, ?v, k)) new) \<inter> impression_id ` set (qd_impressions db) = {}" by auto
    moreover have "distinct (map (\<lambda>k. (?u, ?v, k)) new)" using new by (simp add: distinct_map inj_on_def)
    ultimately show ?thesis using inv unfolding ids views_inv_def by (simp add: Int_commute)
  qed
  moreover have "metric_ok (fold (record_exposure ?u t) new (qd_exposures db) (u', k)) (shown_rows u' k rows)" for u' k
  proof -
    have "metric_ok (qd_exposures db (u', k)) (shown_rows u' k (qd_impressions db))" using inv by (simp add: views_inv_def)
    then show ?thesis using new
      by (auto simp: record_exposures_lookup shown_rows_new metric_ok_def split: option.splits)
  qed
  ultimately have "views_inv \<lparr>qd_impressions = rows, qd_exposures = recordQuickPickExposureAggregates ?u new t (qd_exposures db)\<rparr>"
    by (simp add: views_inv_def recordQuickPickExposureAggregates_def)
  then show ?thesis using inv by (simp add: RecordImpressions_def Let_def ins)
qed

lemma click_row_simps [simp]:
  "im_user (click_row u v k t r) = im_user r" "im_view (click_row u v k t r) = im_view r" "im_key (click_row u v k t r) = im_key r"
  "im_shown (click_row u v k t r) = im_shown r" "impression_id (click_row u v k t r) = impression_id r"
  by (simp_all add: click_row_def impression_id_def)

lemma click_row_clicked:
  "im_clicked (click_row u v k t r) \<noteq> None \<longleftrightarrow> im_clicked r \<noteq> None \<or> impression_id r = (u, v, k)"
  by (auto simp: click_row_def impression_id_def split: option.splits)

lemma shown_rows_click: "shown_rows u' k' (map (click_row u v k t) rows) = map (click_row u v k t) (shown_rows u' k' rows)"
  by (simp add: shown_rows_def filter_map comp_def)

lemma metric_ok_click: "metric_ok m (map (click_row u v k t) rows) = metric_ok m rows"
  by (simp add: metric_ok_def image_image split: option.split)

lemma RecordClick_inv: "views_inv db \<Longrightarrow> RecordClick_row u v k t db = Some db' \<Longrightarrow> views_inv db'"
  by (auto simp: RecordClick_row_def views_inv_def shown_rows_click metric_ok_click comp_def split: if_splits)

text \<open>What clients ask for; a failed request changes nothing.\<close>

datatype quick_op = OpImpressions string string "string list" Time | OpClick string string string Time

fun run_quick_op :: "quick_op \<Rightarrow> quick_db \<Rightarrow> quick_db" where
  "run_quick_op (OpImpressions u v keys t) db = (case RecordImpressions_service u v keys t (Some db) of Inl _ \<Rightarrow> db | Inr db' \<Rightarrow> db')"
| "run_quick_op (OpClick u v k t) db = (case RecordClick_service u v k t (Some db) of Inl _ \<Rightarrow> db | Inr db' \<Rightarrow> db')"

definition empty_quick_db :: quick_db where
  "empty_quick_db = \<lparr>qd_impressions = [], qd_exposures = (\<lambda>_. None)\<rparr>"

lemma run_quick_op_inv: "views_inv db \<Longrightarrow> views_inv (run_quick_op op db)"
  by (cases op)
     (auto simp: RecordImpressions_service_def RecordClick_service_def RecordImpressions_inv Let_def
       split: sum.splits option.splits if_splits intro: RecordClick_inv)

text \<open>C24: After any history of displays and clicks a song's count of displays is the number of different views in which the user
  saw it, however often a view was reported, and its last display is one of theirs.\<close>

theorem displays_counted_once:
  "case qd_exposures (fold run_quick_op ops empty_quick_db) (u, k) of
     None \<Rightarrow> \<not> (\<exists>v. has_impression u v k (qd_impressions (fold run_quick_op ops empty_quick_db)))
   | Some m \<Rightarrow> xm_ShowCount m = card {v. has_impression u v k (qd_impressions (fold run_quick_op ops empty_quick_db))}
       \<and> xm_ShowCount m > 0
       \<and> (\<exists>r \<in> set (qd_impressions (fold run_quick_op ops empty_quick_db)). im_user r = u \<and> im_key r = k \<and> im_shown r = xm_LastShownAt m)"
proof -
  define db where "db = fold run_quick_op ops empty_quick_db"
  have "views_inv empty_quick_db" by (simp add: views_inv_def empty_quick_db_def metric_ok_def shown_rows_def)
  then have inv: "views_inv db"
    unfolding db_def by (induction ops arbitrary: rule: rev_induct) (simp_all add: run_quick_op_inv)
  let ?rows = "shown_rows u k (qd_impressions db)"
  have views: "{v. has_impression u v k (qd_impressions db)} = set (map im_view ?rows)"
    by (auto simp: has_impression_def list_ex_iff shown_rows_def)
  have "distinct (map impression_id ?rows)"
    using inv by (simp add: views_inv_def shown_rows_def distinct_map_filter)
  then have "distinct (map im_view ?rows)"
    by (auto simp: distinct_map inj_on_def impression_id_def shown_rows_def)
  then have card: "card {v. has_impression u v k (qd_impressions db)} = length ?rows"
    unfolding views by (metis distinct_card length_map)
  have ok: "metric_ok (qd_exposures db (u, k)) ?rows" using inv by (simp add: views_inv_def)
  show ?thesis unfolding db_def [symmetric]
  proof (cases "qd_exposures db (u, k)")
    case None
    with ok have "set (map im_view ?rows) = {}" by (simp add: metric_ok_def)
    then show "case qd_exposures db (u, k) of
        None \<Rightarrow> \<not> (\<exists>v. has_impression u v k (qd_impressions db))
      | Some m \<Rightarrow> xm_ShowCount m = card {v. has_impression u v k (qd_impressions db)} \<and> xm_ShowCount m > 0
          \<and> (\<exists>r \<in> set (qd_impressions db). im_user r = u \<and> im_key r = k \<and> im_shown r = xm_LastShownAt m)"
      using views None by auto
  next
    case (Some m)
    with ok have "xm_ShowCount m = length ?rows" "?rows \<noteq> []" "xm_LastShownAt m \<in> im_shown ` set ?rows"
      by (simp_all add: metric_ok_def)
    then show "case qd_exposures db (u, k) of
        None \<Rightarrow> \<not> (\<exists>v. has_impression u v k (qd_impressions db))
      | Some m \<Rightarrow> xm_ShowCount m = card {v. has_impression u v k (qd_impressions db)} \<and> xm_ShowCount m > 0
          \<and> (\<exists>r \<in> set (qd_impressions db). im_user r = u \<and> im_key r = k \<and> im_shown r = xm_LastShownAt m)"
      using Some card by (auto simp: shown_rows_def)
  qed
qed

subsection \<open>The next grid after a display\<close>

lemma sort_key_last:
  fixes f :: "'a \<Rightarrow> 'b :: linorder"
  assumes "xs \<noteq> []"
  shows "last (sort_key f xs) \<in> set xs" "x \<in> set xs \<Longrightarrow> f x \<le> f (last (sort_key f xs))"
proof -
  have ne: "sort_key f xs \<noteq> []" using assms by (metis set_empty set_sort)
  then show "last (sort_key f xs) \<in> set xs" using last_in_set by fastforce
  assume "x \<in> set xs"
  then obtain i where i: "i < length (sort_key f xs)" "sort_key f xs ! i = x" by (metis in_set_conv_nth set_sort)
  have "map f (sort_key f xs) ! i \<le> map f (sort_key f xs) ! (length (sort_key f xs) - 1)"
    using i(1) by (intro sorted_nth_mono) auto
  then show "f x \<le> f (last (sort_key f xs))" using i ne by (simp add: last_conv_nth)
qed

text \<open>A view is on display: its rows were all recorded at \<open>t\<close>, with these keys, and every other row of the user is older.\<close>

definition on_display :: "string \<Rightarrow> string \<Rightarrow> Time \<Rightarrow> string set \<Rightarrow> string set \<Rightarrow> quick_db \<Rightarrow> bool" where
  "on_display u v t keys clicked db \<longleftrightarrow>
     v \<noteq> [] \<and> keys \<noteq> {} \<and> distinct (map impression_id (qd_impressions db))
     \<and> (\<forall>k. k \<in> keys \<longleftrightarrow> (\<exists>r \<in> set (qd_impressions db). impression_id r = (u, v, k)))
     \<and> (\<forall>r \<in> set (qd_impressions db). im_user r = u \<longrightarrow> (if im_view r = v then im_shown r = t else im_shown r < t))
     \<and> (\<forall>r \<in> set (qd_impressions db). im_user r = u \<and> im_view r = v \<longrightarrow> (im_clicked r \<noteq> None \<longleftrightarrow> im_key r \<in> clicked))"

lemma on_display_latest:
  assumes "on_display u v t keys clicked db"
  obtains view where "LatestView u db = Some view" "set (qv_ItemKeys view) = keys" "set (qv_ClickedItemKeys view) = keys \<inter> clicked"
    "distinct (qv_ClickedItemKeys view)"
proof -
  let ?rows = "filter (\<lambda>r. im_user r = u) (qd_impressions db)"
  let ?sorted = "sort_key im_view ?rows"
  obtain k where "k \<in> keys" using assms unfolding on_display_def by blast
  then obtain r where "r \<in> set (qd_impressions db)" "impression_id r = (u, v, k)" using assms unfolding on_display_def by blast
  then have r: "r \<in> set (qd_impressions db)" "im_user r = u" "im_view r = v" by (simp_all add: impression_id_def)
  then have "r \<in> set ?sorted" by simp
  then have ne: "?sorted \<noteq> []" by (metis empty_iff set_empty)
  let ?last = "last (sort_key im_shown ?sorted)"
  have "?last \<in> set ?rows" using sort_key_last(1) [OF ne, of im_shown] by simp
  moreover have "im_shown r \<le> im_shown ?last" using sort_key_last(2) [OF ne, of r im_shown] r by simp
  moreover have "im_shown r = t" "\<forall>r \<in> set (qd_impressions db). im_user r = u \<and> im_view r \<noteq> v \<longrightarrow> im_shown r < t"
    using assms r by (auto simp: on_display_def)
  ultimately have last: "im_view ?last = v" by fastforce
  have latest: "latest_row u db = Some ?last" using ne by (auto simp: latest_row_def Let_def)
  let ?view = "sort_key im_key (filter (\<lambda>r. im_user r = u \<and> im_view r = v) (qd_impressions db))"
  have "LatestView u db = Some \<lparr>qv_ViewID = v, qv_ItemKeys = map im_key ?view,
      qv_ClickedItemKeys = map im_key (filter (\<lambda>r. im_clicked r \<noteq> None) ?view)\<rparr>"
    using assms by (simp add: LatestView_def latest last Let_def on_display_def)
  moreover have "im_key ` set ?view = keys"
    using assms by (auto simp: on_display_def impression_id_def image_iff)
  moreover have "im_key ` set (filter (\<lambda>r. im_clicked r \<noteq> None) ?view) = keys \<inter> clicked"
  proof -
    have "k \<in> im_key ` set (filter (\<lambda>r. im_clicked r \<noteq> None) ?view) \<longleftrightarrow> k \<in> keys \<inter> clicked" for k
    proof -
      have "k \<in> im_key ` set (filter (\<lambda>r. im_clicked r \<noteq> None) ?view)
          \<longleftrightarrow> (\<exists>r \<in> set (qd_impressions db). impression_id r = (u, v, k) \<and> im_clicked r \<noteq> None)"
        by (auto simp: impression_id_def)
      also have "\<dots> \<longleftrightarrow> (\<exists>r \<in> set (qd_impressions db). impression_id r = (u, v, k) \<and> k \<in> clicked)"
        using assms by (intro bex_cong refl conj_cong) (auto simp: on_display_def impression_id_def)
      also have "\<dots> \<longleftrightarrow> k \<in> keys \<inter> clicked" using assms by (auto simp: on_display_def)
      finally show ?thesis .
    qed
    then show ?thesis by blast
  qed
  moreover have "distinct (map im_key (filter (\<lambda>r. im_clicked r \<noteq> None) ?view))"
    using assms by (auto simp: on_display_def distinct_map inj_on_def impression_id_def intro!: distinct_filter)
  ultimately show thesis using that by simp
qed

text \<open>Showing a new view puts it on display, and clicks are marked on it.\<close>

lemma RecordImpressions_on_display:
  assumes "trim_space u = u" "u \<noteq> []" "trim_space v = v" "v \<noteq> []" "uniqueQuickPickExposureKeys keys \<noteq> []"
    and inv: "views_inv db"
    and older: "\<forall>r \<in> set (qd_impressions db). im_user r = u \<longrightarrow> im_view r \<noteq> v \<and> im_shown r < t"
  shows "on_display u v t (set (uniqueQuickPickExposureKeys keys)) {} (RecordImpressions u v keys t db)"
proof -
  let ?keys = "uniqueQuickPickExposureKeys keys"
  obtain new rows where ins: "insert_impressions u v t ?keys (qd_impressions db) = (new, rows)" by fastforce
  note new = insert_impressions_rows [OF ins]
  have fresh: "\<not> has_impression u v k (qd_impressions db)" for k
    using older by (auto simp: has_impression_iff impression_id_def)
  have rows: "qd_impressions (RecordImpressions u v keys t db) = qd_impressions db @ map (new_impression u v t) new"
    using assms(1-5) new by (simp add: RecordImpressions_def ins Let_def)
  have set: "set new = set ?keys" using new fresh by auto
  have old: "impression_id r \<noteq> (u, v, k)" if "r \<in> set (qd_impressions db)" for r k
    using older that by (auto simp: impression_id_def)
  have keys: "k \<in> set ?keys \<longleftrightarrow> (\<exists>r \<in> set (qd_impressions db @ map (new_impression u v t) new). impression_id r = (u, v, k))" for k
    using old by (auto simp: bex_Un set) (auto simp: impression_id_def)
  have times: "\<forall>r \<in> set (qd_impressions db @ map (new_impression u v t) new). im_user r = u \<longrightarrow> (if im_view r = v then im_shown r = t else im_shown r < t)"
    using older by (auto simp: ball_Un)
  have clicks: "\<forall>r \<in> set (qd_impressions db @ map (new_impression u v t) new).
      im_user r = u \<and> im_view r = v \<longrightarrow> (im_clicked r \<noteq> None \<longleftrightarrow> im_key r \<in> {})"
    using older by (auto simp: ball_Un)
  have "distinct (map impression_id (qd_impressions db @ map (new_impression u v t) new))"
    using RecordImpressions_inv [OF inv, of u v keys t] by (simp add: views_inv_def rows)
  then show ?thesis unfolding on_display_def rows using assms(4,5) keys times clicks by simp
qed

definition click_view :: "string \<Rightarrow> string \<Rightarrow> Time \<Rightarrow> string list \<Rightarrow> quick_db \<Rightarrow> quick_db" where
  "click_view u v now ks db = fold (\<lambda>k. run_quick_op (OpClick u v k now)) ks db"

definition track_key :: "string \<Rightarrow> bool" where
  "track_key k \<longleftrightarrow> trim_space k = k \<and> (case cut_prefix k ''track:'' of None \<Rightarrow> False | Some rest \<Rightarrow> trim_space rest \<noteq> [])"

lemma run_click:
  assumes "trim_space v = v" "v \<noteq> []" "track_key k"
  shows "run_quick_op (OpClick u v k now) db = db\<lparr>qd_impressions := map (click_row u v k now) (qd_impressions db)\<rparr>"
proof (cases "has_impression u v k (qd_impressions db)")
  case True
  with assms show ?thesis by (auto simp: RecordClick_service_def RecordClick_row_def track_key_def split: option.splits)
next
  case False
  have "map (click_row u v k now) (qd_impressions db) = qd_impressions db"
    using False by (intro map_idI) (auto simp: click_row_def has_impression_def list_ex_iff)
  with assms False show ?thesis by (auto simp: RecordClick_service_def RecordClick_row_def track_key_def split: option.splits)
qed

lemma run_click_on_display:
  assumes "on_display u v t keys clicked db" "trim_space v = v" "track_key k"
  shows "on_display u v t keys (insert k clicked) (run_quick_op (OpClick u v k now) db)"
proof -
  have "v \<noteq> []" using assms(1) by (simp add: on_display_def)
  then have db: "run_quick_op (OpClick u v k now) db = db\<lparr>qd_impressions := map (click_row u v k now) (qd_impressions db)\<rparr>"
    by (rule run_click [OF assms(2) _ assms(3)])
  have "im_user r = u \<and> im_view r = v \<Longrightarrow> impression_id r = (u, v, k) \<longleftrightarrow> im_key r = k" for r
    by (simp add: impression_id_def)
  then show ?thesis unfolding db using assms(1) unfolding on_display_def
    by (simp add: click_row_clicked disj_commute comp_def del: not_None_eq)
qed

lemma click_view_on_display:
  "on_display u v t keys clicked db \<Longrightarrow> trim_space v = v \<Longrightarrow> \<forall>k \<in> set ks. track_key k
    \<Longrightarrow> on_display u v t keys (clicked \<union> set ks) (click_view u v now ks db)"
proof (induction ks arbitrary: clicked db)
  case (Cons k ks)
  then have "on_display u v t keys (insert k clicked) (run_quick_op (OpClick u v k now) db)"
    by (intro run_click_on_display) auto
  from Cons.IH [OF this] Cons.prems show ?case by (simp add: click_view_def)
qed (simp add: click_view_def)

subsection \<open>What is recalled\<close>

abbreviation recalled_ids :: "recalledSong list \<Rightarrow> string set" where
  "recalled_ids byID \<equiv> (\<lambda>c. mf_ID (rs_file c)) ` set byID"

definition recalled_ok :: "recalledSong list \<Rightarrow> bool" where
  "recalled_ok byID \<longleftrightarrow> (\<forall>c \<in> set byID. mf_ID (rs_file c) \<noteq> [] \<and> \<not> mf_Missing (rs_file c) \<and> trim_space (mf_ID (rs_file c)) = mf_ID (rs_file c))"

definition plain_file :: "MediaFile \<Rightarrow> bool" where
  "plain_file f \<longleftrightarrow> trim_space (mf_ID f) = mf_ID f"

lemma put_recalled_ids [simp]: "recalled_ids (put_recalled c byID) = insert (mf_ID (rs_file c)) (recalled_ids byID)"
  by (auto simp: put_recalled_def recalled_id_def list_ex_iff image_iff)

lemma put_recalled_ok:
  "recalled_ok byID \<Longrightarrow> mf_ID (rs_file c) \<noteq> [] \<Longrightarrow> \<not> mf_Missing (rs_file c) \<Longrightarrow> plain_file (rs_file c) \<Longrightarrow> recalled_ok (put_recalled c byID)"
  by (auto simp: recalled_ok_def put_recalled_def plain_file_def)

lemma recall_merge_file:
  "rs_file (recall_merge source row old) = (case old of None \<Rightarrow> fst row | Some c \<Rightarrow> rs_file c)"
  by (auto simp: recall_merge_def Let_def split: option.split recall_source.split)

lemma recall_row_ok:
  assumes "recalled_ok byID" "plain_file (fst row)"
  shows "recalled_ok (recall_row source row byID)"
proof -
  let ?f = "rs_file (recall_merge source row (find (recalled_id (mf_ID (fst row))) byID))"
  have "?f = fst row \<or> (\<exists>c \<in> set byID. ?f = rs_file c)"
    by (auto simp: recall_merge_file find_Some_iff split: option.splits)
  then have "mf_ID ?f \<noteq> [] \<and> \<not> mf_Missing ?f \<and> plain_file ?f" if "mf_ID (fst row) \<noteq> []" "\<not> mf_Missing (fst row)"
    using that assms by (auto simp: recalled_ok_def plain_file_def)
  then show ?thesis using put_recalled_ok [OF assms(1)] assms(1) by (simp add: recall_row_def)
qed

lemma recall_rows_ok: "recalled_ok byID \<Longrightarrow> \<forall>row \<in> set rows. plain_file (fst row) \<Longrightarrow> recalled_ok (fold (recall_row source) rows byID)"
  by (induction rows arbitrary: byID) (auto intro: recall_row_ok)

lemma retain_key_ids: "recalled_ids byID \<subseteq> recalled_ids (retain_key get key byID)"
  by (auto simp: retain_key_def simp del: image_Un split: option.splits)

lemma retain_keys_ids: "recalled_ids byID \<subseteq> recalled_ids (fold (retain_key get) keys byID)"
proof (induction keys arbitrary: byID)
  case (Cons key keys)
  have "recalled_ids byID \<subseteq> recalled_ids (retain_key get key byID)" by (rule retain_key_ids)
  also have "\<dots> \<subseteq> recalled_ids (fold (retain_key get) keys (retain_key get key byID))" by (rule Cons.IH)
  finally show ?case by simp
qed simp

lemma retain_keys_ok:
  assumes "\<forall>i f s. get i = Some (f, s) \<longrightarrow> plain_file f" "recalled_ok byID"
  shows "recalled_ok (fold (retain_key get) keys byID)"
  using assms(2)
proof (induction keys arbitrary: byID)
  case (Cons key keys)
  have "recalled_ok (retain_key get key byID)"
    using Cons.prems assms(1) by (auto simp: retain_key_def split: option.splits intro!: put_recalled_ok)
      (metis (no_types))+
  then show ?case using Cons.IH by simp
qed simp

lemma retain_key_gets:
  assumes "get i = Some (f, s)" "mf_ID f = i" "i \<noteq> []" "\<not> mf_Missing f"
  shows "i \<in> recalled_ids (retain_key get (''track:'' @ i) byID)"
proof (cases "list_ex (recalled_id i) byID")
  case True
  then have "i \<in> recalled_ids byID" by (auto simp: list_ex_iff recalled_id_def)
  then show ?thesis using retain_key_ids by blast
next
  case False
  have "cut_prefix (''track:'' @ i) ''track:'' = Some i" by (simp only: cut_prefix_Some)
  then have "retain_key get (''track:'' @ i) byID = put_recalled \<lparr>rs_file = f, rs_starred = s, rs_fromPlays = False, rs_fromRecent = False,
      rs_fromLiked = s\<rparr> byID"
    using False assms by (simp add: retain_key_def del: append.simps)
  then show ?thesis using assms(2) by simp
qed

lemma retain_keys_gets:
  assumes "get i = Some (f, s)" "mf_ID f = i" "i \<noteq> []" "\<not> mf_Missing f" "''track:'' @ i \<in> set keys"
  shows "i \<in> recalled_ids (fold (retain_key get) keys byID)"
  using assms(5)
proof (induction keys arbitrary: byID)
  case (Cons key keys)
  show ?case
  proof (cases "key = ''track:'' @ i")
    case True
    then have "i \<in> recalled_ids (retain_key get key byID)" using retain_key_gets [where get = get and i = i, OF assms(1-4)] by simp
    then show ?thesis using retain_keys_ids [of "retain_key get key byID" get keys] by auto
  next
    case False
    with Cons show ?thesis by simp
  qed
qed simp

text \<open>Ids of media files have no white space around them.\<close>

definition plain_queries :: "recall_queries \<Rightarrow> bool" where
  "plain_queries q \<longleftrightarrow>
     (\<forall>rows \<in> {rq_plays q, rq_recent q, rq_liked q, rq_random q}. \<forall>files. rows = Some files \<longrightarrow> (\<forall>row \<in> set files. plain_file (fst row)))
     \<and> (\<forall>i f s. rq_Get q i = Some (f, s) \<longrightarrow> mf_ID f = i \<and> plain_file f)"

lemma recallSongs_facts:
  assumes "plain_queries q" "recallSongs q keys = Some rs"
  shows "recalled_ok rs"
    and "rq_Get q i = Some (f, s) \<Longrightarrow> i \<noteq> [] \<Longrightarrow> \<not> mf_Missing f \<Longrightarrow> ''track:'' @ i \<in> set (take quickPickLimit keys) \<Longrightarrow> i \<in> recalled_ids rs"
proof -
  obtain plays recent liked where rows: "rq_plays q = Some plays" "rq_recent q = Some recent" "rq_liked q = Some liked"
    using assms(2) by (auto simp: recallSongs_def split: option.splits)
  let ?byID = "fold (recall_row FromLiked) liked (fold (recall_row FromRecent) recent (fold (recall_row FromPlays) plays []))"
  let ?random = "case rq_random q of None \<Rightarrow> [] | Some files \<Rightarrow> files"
  have rs: "rs = fold (retain_key (rq_Get q)) (take quickPickLimit keys) (fold (recall_row FromRandom) ?random ?byID)"
    using assms(2) by (simp add: recallSongs_def rows Let_def split: if_splits)
  have "\<forall>row \<in> set plays. plain_file (fst row)" "\<forall>row \<in> set recent. plain_file (fst row)" "\<forall>row \<in> set liked. plain_file (fst row)"
    "\<forall>row \<in> set ?random. plain_file (fst row)"
    using assms(1) rows by (auto simp: plain_queries_def split: option.splits) (metis fst_conv)
  then have "recalled_ok (fold (recall_row FromRandom) ?random ?byID)"
    by (intro recall_rows_ok) (simp add: recalled_ok_def)
  then show "recalled_ok rs" unfolding rs using assms(1) by (intro retain_keys_ok) (auto simp: plain_queries_def)
  show "i \<in> recalled_ids rs" if "rq_Get q i = Some (f, s)" "i \<noteq> []" "\<not> mf_Missing f" "''track:'' @ i \<in> set (take quickPickLimit keys)"
    unfolding rs using assms(1) that by (intro retain_keys_gets) (auto simp: plain_queries_def)
qed

subsection \<open>From one grid to the next\<close>

text \<open>A user has seen a new grid, all of whose displays were reported at \<open>t\<close>, and clicked \<open>ks\<close> in it.\<close>

definition seen_and_clicked :: "quick_op list \<Rightarrow> string \<Rightarrow> string \<Rightarrow> Time \<Rightarrow> string list \<Rightarrow> Time \<Rightarrow> string list \<Rightarrow> quick_db" where
  "seen_and_clicked ops u v t keys now ks =
     click_view u v now ks (run_quick_op (OpImpressions u v keys t) (fold run_quick_op ops empty_quick_db))"

definition new_view :: "quick_op list \<Rightarrow> string \<Rightarrow> string \<Rightarrow> Time \<Rightarrow> string list \<Rightarrow> bool" where
  "new_view ops u v t keys \<longleftrightarrow>
     trim_space u = u \<and> u \<noteq> [] \<and> trim_space v = v \<and> v \<noteq> [] \<and> uniqueQuickPickExposureKeys keys \<noteq> []
     \<and> (\<forall>r \<in> set (qd_impressions (fold run_quick_op ops empty_quick_db)). im_user r = u \<longrightarrow> im_view r \<noteq> v \<and> im_shown r < t)"

lemma run_quick_ops_inv: "views_inv (fold run_quick_op ops empty_quick_db)"
proof -
  have "views_inv empty_quick_db" by (simp add: views_inv_def empty_quick_db_def metric_ok_def shown_rows_def)
  then show ?thesis by (induction ops arbitrary: rule: rev_induct) (simp_all add: run_quick_op_inv)
qed

lemma seen_and_clicked_view:
  assumes "new_view ops u v t keys" "\<forall>k \<in> set ks. track_key k"
  obtains view where "LatestView u (seen_and_clicked ops u v t keys now ks) = Some view"
    "set (qv_ItemKeys view) = set (uniqueQuickPickExposureKeys keys)"
    "set (qv_ClickedItemKeys view) = set (uniqueQuickPickExposureKeys keys) \<inter> set ks"
    "distinct (qv_ClickedItemKeys view)"
proof -
  let ?db = "fold run_quick_op ops empty_quick_db"
  have "run_quick_op (OpImpressions u v keys t) ?db = RecordImpressions u v keys t ?db"
    using assms(1) by (simp add: RecordImpressions_service_def new_view_def Let_def)
  moreover have "on_display u v t (set (uniqueQuickPickExposureKeys keys)) {} (RecordImpressions u v keys t ?db)"
    using assms(1) run_quick_ops_inv unfolding new_view_def by (intro RecordImpressions_on_display) auto
  ultimately have "on_display u v t (set (uniqueQuickPickExposureKeys keys)) ({} \<union> set ks) (seen_and_clicked ops u v t keys now ks)"
    unfolding seen_and_clicked_def
    using assms by (intro click_view_on_display) (auto simp: new_view_def)
  then show thesis using on_display_latest that by (metis sup_bot.left_neutral)
qed

text \<open>The grid of a request, from the songs it ranks.\<close>

lemma Get_quick_pick_grid:
  assumes "Get_quick_pick q rank vid u (Some db) = Inr items" "LatestView u db = Some view"
  obtains songs opts where "Get_songs q rank (Some view) = Some songs" "co_PreviousView opts = Some view" "discoverySlots opts = 9"
    "map (\<lambda>i. (qi_Song i, qi_Section i)) items = map (\<lambda>i. (qi_Song i, qi_Section i)) (composeQuickPick songs opts)"
proof -
  obtain songs where songs: "Get_songs q rank (Some view) = Some songs"
    using assms by (auto simp: Get_quick_pick_def Let_def split: option.splits)
  let ?opts = "\<lparr>co_Limit = int quickPickLimit, co_Exposures = ExposureMetrics u
    (filter (\<lambda>k. k \<noteq> []) (map (\<lambda>c. trackExposureKey (mf_ID (qc_song c))) songs)) db, co_PreviousView = Some view\<rparr>"
  have "map (\<lambda>i. (qi_Song i, qi_Section i)) items = map (\<lambda>i. (qi_Song i, qi_Section i)) (composeQuickPick songs ?opts)"
    using assms songs by (auto simp: Get_quick_pick_def Let_def comp_def)
  moreover have "discoverySlots ?opts = 9"
    by (simp add: discoverySlots_def grid_limit_def minQuickPick_def listenAgainSongQuota_def startRadioSongQuota_def quickPickLimit_def)
  ultimately show thesis using that [of songs ?opts] songs by simp
qed

lemma map_pair_eqD: "map (\<lambda>i. (f i, g i)) xs = map (\<lambda>i. (f i, g i)) ys \<Longrightarrow> map f xs = map f ys"
proof -
  assume "map (\<lambda>i. (f i, g i)) xs = map (\<lambda>i. (f i, g i)) ys"
  then have "map fst (map (\<lambda>i. (f i, g i)) xs) = map fst (map (\<lambda>i. (f i, g i)) ys)" by (rule arg_cong)
  then show ?thesis by (simp add: comp_def)
qed

text \<open>C25: The discovery row of the next grid repeats as little as possible: if it offers a song of the grid the user has just seen
  that was not clicked, then the grid contains every playable candidate that was not in the grid before, and every one that
  was clicked. The row of familiar songs is not concerned: it repeats the favourites on purpose.\<close>

theorem repeats_come_last:
  assumes "new_view ops u v t keys" "\<forall>k \<in> set ks. track_key k"
    and "Get_quick_pick q rank vid u (Some (seen_and_clicked ops u v t keys now ks)) = Inr items"
    and "Get_songs q rank (LatestView u (seen_and_clicked ops u v t keys now ks)) = Some songs"
    and "i \<in> set items" "qi_Section i = StartRadio"
    and "trackExposureKey (mf_ID (qi_Song i)) \<in> set (uniqueQuickPickExposureKeys keys) - set ks"
    and "d \<in> set (eligible_songs songs)"
    and "trackExposureKey (mf_ID (qc_song d)) \<in> set (uniqueQuickPickExposureKeys keys) \<longrightarrow> trackExposureKey (mf_ID (qc_song d)) \<in> set ks"
  shows "mf_ID (qc_song d) \<in> mf_ID ` qi_Song ` set items"
proof -
  obtain view where view: "LatestView u (seen_and_clicked ops u v t keys now ks) = Some view"
    "set (qv_ItemKeys view) = set (uniqueQuickPickExposureKeys keys)"
    "set (qv_ClickedItemKeys view) = set (uniqueQuickPickExposureKeys keys) \<inter> set ks"
    using seen_and_clicked_view [OF assms(1,2)] by metis
  obtain opts where opts: "co_PreviousView opts = Some view"
      "map (\<lambda>i. (qi_Song i, qi_Section i)) items = map (\<lambda>i. (qi_Song i, qi_Section i)) (composeQuickPick songs opts)"
    using Get_quick_pick_grid [OF assms(3) view(1)] assms(4) view(1) by (metis option.inject)
  have "(qi_Song i, qi_Section i) \<in> set (map (\<lambda>i. (qi_Song i, qi_Section i)) items)" using assms(5) by auto
  then have "(qi_Song i, qi_Section i) \<in> set (map (\<lambda>i. (qi_Song i, qi_Section i)) (composeQuickPick songs opts))"
    by (simp only: opts(2))
  then obtain i' where i': "i' \<in> set (composeQuickPick songs opts)" "qi_Song i' = qi_Song i" "qi_Section i' = StartRadio"
    using assms(6) by auto
  have "mf_ID (qc_song d) \<in> mf_ID ` qi_Song ` set (composeQuickPick songs opts)"
    using i' assms(7-9) view(2,3) opts(1)
    by (intro repeats_last [of i']) (auto simp: previously_shown_def previously_clicked_def)
  moreover have "qi_Song ` set (composeQuickPick songs opts) = qi_Song ` set items"
    using map_pair_eqD [OF opts(2)] by (metis list.set_map)
  ultimately show ?thesis by simp
qed

text \<open>C23: A click earns a song another visit: when at most nine songs of the grid were clicked, each of them that can still be loaded and is
  not missing is in the next grid, also if no query recalls it. The ranking is assumed to keep exactly the recalled songs.\<close>

theorem clicked_songs_return:
  assumes "new_view ops u v t keys" "\<forall>k \<in> set ks. track_key k"
    and few: "card (set (uniqueQuickPickExposureKeys keys) \<inter> set ks) \<le> 9"
    and "Get_quick_pick q rank vid u (Some (seen_and_clicked ops u v t keys now ks)) = Inr items"
    and queries: "plain_queries q" and rank: "\<forall>rs. qc_song ` set (rank rs) = rs_file ` set rs"
    and clicked: "trackExposureKey i \<in> set (uniqueQuickPickExposureKeys keys) \<inter> set ks"
    and loaded: "rq_Get q i = Some (f, starred)" "\<not> mf_Missing f"
  shows "i \<in> mf_ID ` qi_Song ` set items"
proof -
  let ?shown = "set (uniqueQuickPickExposureKeys keys)"
  obtain view where view: "LatestView u (seen_and_clicked ops u v t keys now ks) = Some view"
    "set (qv_ItemKeys view) = ?shown" "set (qv_ClickedItemKeys view) = ?shown \<inter> set ks" "distinct (qv_ClickedItemKeys view)"
    using seen_and_clicked_view [OF assms(1,2)] by metis
  obtain songs opts where grid: "Get_songs q rank (Some view) = Some songs" "co_PreviousView opts = Some view" "discoverySlots opts = 9"
      "map (\<lambda>i. (qi_Song i, qi_Section i)) items = map (\<lambda>i. (qi_Song i, qi_Section i)) (composeQuickPick songs opts)"
    using Get_quick_pick_grid [OF assms(4) view(1)] by metis
  obtain rs where rs: "recallSongs q (qv_ClickedItemKeys view) = Some rs" "songs = rank rs"
    using grid(1) by (auto simp: Get_songs_def)
  have "mf_ID f = i \<and> plain_file f" using loaded(1) queries unfolding plain_queries_def by blast
  then have "trim_space i = i" by (auto simp: plain_file_def)
  moreover have "i \<noteq> []"
  proof
    assume "i = []"
    then have "track_key []" using assms(2) clicked by (auto simp: trackExposureKey_def trim_space_def)
    then show False by (simp add: track_key_def cut_prefix_def has_prefix_def)
  qed
  ultimately have id: "trim_space i = i" "i \<noteq> []" by simp_all
  then have key: "trackExposureKey i = ''track:'' @ i" by (simp add: trackExposureKey_def)
  have "length (qv_ClickedItemKeys view) \<le> quickPickLimit"
    using view(3,4) few by (simp add: quickPickLimit_def flip: distinct_card)
  then have "''track:'' @ i \<in> set (take quickPickLimit (qv_ClickedItemKeys view))"
    using clicked view(3) key by simp
  then have "i \<in> recalled_ids rs" using recallSongs_facts(2) [OF queries rs(1) loaded(1) id(2) loaded(2)] by blast
  then obtain c where c: "c \<in> set rs" "mf_ID (rs_file c) = i" by auto
  then obtain d where d: "d \<in> set songs" "qc_song d = rs_file c" using rank rs(2) by (metis image_iff)
  have files: "\<forall>d \<in> set songs. \<exists>c \<in> set rs. qc_song d = rs_file c" using rank rs(2) by (metis image_iff)
  note ok = recallSongs_facts(1) [OF queries rs(1)]
  have eligible: "d \<in> set (eligible_songs songs)" using d c ok by (auto simp: eligible_songs_def recalled_ok_def)
  have "card ((\<lambda>c. mf_ID (qc_song c)) ` {c \<in> set (eligible_songs songs). previously_clicked opts (qc_song c)}) \<le> card (?shown \<inter> set ks)"
  proof (rule card_inj_on_le)
    show "inj_on (\<lambda>i. ''track:'' @ i) ((\<lambda>c. mf_ID (qc_song c)) ` {c \<in> set (eligible_songs songs). previously_clicked opts (qc_song c)})"
      by (simp add: inj_on_def)
    have "''track:'' @ mf_ID (qc_song c) = trackExposureKey (mf_ID (qc_song c))" if "c \<in> set (eligible_songs songs)" for c
      using that files ok by (force simp: eligible_songs_def recalled_ok_def trackExposureKey_def)
    then show "(\<lambda>i. ''track:'' @ i) ` (\<lambda>c. mf_ID (qc_song c)) ` {c \<in> set (eligible_songs songs). previously_clicked opts (qc_song c)} \<subseteq> ?shown \<inter> set ks"
      using view(3) grid(2) by (auto simp: previously_clicked_def)
  qed simp
  then have "mf_ID (qc_song d) \<in> mf_ID ` qi_Song ` set (composeQuickPick songs opts)"
    using few grid(2,3) clicked view(2,3) d(2) c(2)
    by (intro clicked_fit eligible) (auto simp: previously_clicked_def previously_shown_def)
  moreover have "qi_Song ` set (composeQuickPick songs opts) = qi_Song ` set items"
    using map_pair_eqD [OF grid(4)] by (metis list.set_map)
  ultimately show ?thesis using d(2) c(2) by simp
qed

subsection \<open>An example\<close>

definition example_rank :: "recalledSong list \<Rightarrow> songCandidate list" where
  "example_rank = map (\<lambda>r. \<lparr>qc_song = rs_file r, qc_baseScore = 1, qc_adjustedScore = 1, qc_baseRank = 1, qc_fromLiked = rs_fromLiked r\<rparr>)"

definition example_quick_track :: "string \<Rightarrow> MediaFile" where
  "example_quick_track i = empty_MediaFile\<lparr>mf_ID := i\<rparr>"

definition example_queries :: recall_queries where
  "example_queries = \<lparr>rq_plays = Some (map (\<lambda>i. (example_quick_track i, False)) [''a'', ''b'', ''c'', ''d'', ''f'']), rq_recent = Some [],
     rq_liked = Some [], rq_random = None, rq_Get = (\<lambda>i. if i = ''e'' then Some (example_quick_track i, False) else None)\<rparr>"

definition example_quick_db :: quick_db where
  "example_quick_db = seen_and_clicked [] ''u'' ''v'' 5 [''track:d'', ''track:e''] 6 [''track:e'']"

lemma example_next_grid:
  "case Get_quick_pick example_queries example_rank ''w'' ''u'' (Some example_quick_db) of
     Inl _ \<Rightarrow> False
   | Inr items \<Rightarrow> map (\<lambda>i. (mf_ID (qi_Song i), qi_Section i)) items
       = [(''a'', ListenAgain), (''b'', ListenAgain), (''c'', ListenAgain), (''e'', StartRadio), (''f'', StartRadio), (''d'', StartRadio)]"
  by code_simp

lemma example_candidates:
  "case Get_songs example_queries example_rank (LatestView ''u'' example_quick_db) of
     None \<Rightarrow> False | Some songs \<Rightarrow> list_ex (\<lambda>c. mf_ID (qc_song c) = ''f'') (eligible_songs songs)"
  by code_simp

lemma example_new_view: "new_view [] ''u'' ''v'' 5 [''track:d'', ''track:e'']" "\<forall>k \<in> set [''track:e'']. track_key k"
  by (simp add: new_view_def empty_quick_db_def) code_simp+

theorem repeats_come_last_witness:
  "\<exists>items. Get_quick_pick example_queries example_rank ''w'' ''u'' (Some example_quick_db) = Inr items
     \<and> (''d'', StartRadio) \<in> (\<lambda>i. (mf_ID (qi_Song i), qi_Section i)) ` set items \<and> ''f'' \<in> mf_ID ` qi_Song ` set items"
proof -
  obtain items where items: "Get_quick_pick example_queries example_rank ''w'' ''u'' (Some example_quick_db) = Inr items"
      "map (\<lambda>i. (mf_ID (qi_Song i), qi_Section i)) items
       = [(''a'', ListenAgain), (''b'', ListenAgain), (''c'', ListenAgain), (''e'', StartRadio), (''f'', StartRadio), (''d'', StartRadio)]"
    using example_next_grid by (auto split: sum.splits)
  then have "(''d'', StartRadio) \<in> set (map (\<lambda>i. (mf_ID (qi_Song i), qi_Section i)) items)" by (simp only:) simp
  then obtain i where i: "i \<in> set items" "mf_ID (qi_Song i) = ''d''" "qi_Section i = StartRadio" by auto
  obtain songs c where c: "Get_songs example_queries example_rank (LatestView ''u'' example_quick_db) = Some songs"
      "c \<in> set (eligible_songs songs)" "mf_ID (qc_song c) = ''f''"
    using example_candidates by (auto simp: list_ex_iff split: option.splits)
  have "trackExposureKey ''d'' \<in> set (uniqueQuickPickExposureKeys [''track:d'', ''track:e'']) - set [''track:e'']"
    "trackExposureKey ''f'' \<in> set (uniqueQuickPickExposureKeys [''track:d'', ''track:e'']) \<longrightarrow> trackExposureKey ''f'' \<in> set [''track:e'']"
    by code_simp+
  then have "mf_ID (qc_song c) \<in> mf_ID ` qi_Song ` set items"
    using i c by (intro repeats_come_last [OF example_new_view items(1) [unfolded example_quick_db_def] c(1) [unfolded example_quick_db_def] i(1,3) _ c(2)]) simp_all
  with items(1) i c(3) show ?thesis by force
qed

theorem clicked_songs_return_witness:
  "\<exists>items. Get_quick_pick example_queries example_rank ''w'' ''u'' (Some example_quick_db) = Inr items \<and> ''e'' \<in> mf_ID ` qi_Song ` set items"
proof -
  obtain items where items: "Get_quick_pick example_queries example_rank ''w'' ''u'' (Some example_quick_db) = Inr items"
    using example_next_grid by (auto split: sum.splits)
  have "card (set (uniqueQuickPickExposureKeys [''track:d'', ''track:e'']) \<inter> set [''track:e'']) \<le> 9" by code_simp
  moreover have "plain_queries example_queries"
  proof -
    have "trim_space ''a'' = ''a''" "trim_space ''b'' = ''b''" "trim_space ''c'' = ''c''" "trim_space ''d'' = ''d''"
      "trim_space ''e'' = ''e''" "trim_space ''f'' = ''f''" by code_simp+
    then show ?thesis by (auto simp: plain_queries_def example_queries_def example_quick_track_def plain_file_def split: if_splits)
  qed
  moreover have "\<forall>rs. qc_song ` set (example_rank rs) = rs_file ` set rs" by (simp add: example_rank_def image_image)
  moreover have "trackExposureKey ''e'' \<in> set (uniqueQuickPickExposureKeys [''track:d'', ''track:e'']) \<inter> set [''track:e'']" by code_simp
  moreover have "rq_Get example_queries ''e'' = Some (example_quick_track ''e'', False)" "\<not> mf_Missing (example_quick_track ''e'')"
    by (simp_all add: example_queries_def example_quick_track_def empty_MediaFile_def)
  ultimately have "''e'' \<in> mf_ID ` qi_Song ` set items"
    by (rule clicked_songs_return [OF example_new_view _ items [unfolded example_quick_db_def]])
  with items show ?thesis by blast
qed

end
