(* ===== verification/Radio_Feedback.thy ===== *)
theory Radio_Feedback
  imports Prelude "HOL-Library.List_Lexorder" "HOL-Library.Char_ord"
begin

text \<open>
  \<open>persistence/personal_radio_feedback.go\<close> with the statements of \<open>persistence/personal_radio_repository.go\<close> it uses: what happens
  when a client of the personal radio reports that an item was started, played, skipped or kept. One request is one immediate
  transaction, so requests follow one another and a failed one changes nothing. The time of an update is the time of the request.
  An identifier that is not set is the empty string, as in the Go records. The histories of \<open>radio_step\<close> are those of sessions,
  feedback and discoveries: \<open>UpdateItem\<close>, with which the planner overwrites an item it read before, and the cascades of the foreign keys when a user,
  a file or a session is deleted are left out.
\<close>

subsection \<open>The tables\<close>

record RadioItem =
  ri_ID :: string
  ri_SessionID :: string
  ri_Position :: int
  ri_ItemType :: string
  ri_Status :: string
  ri_MediaFileID :: string
  ri_RecordingMBID :: string
  ri_DownloadJobID :: string
  ri_PlaybackOutcome :: string
  ri_ListenedMS :: int
  ri_DurationMS :: int
  ri_TransitionSourceItemID :: string
  ri_TransitionSourceKey :: string
  ri_LastFeedbackAt :: "Time option"
  ri_UpdatedAt :: Time

record DiscoveryTrack =
  dt_ID :: string
  dt_UserID :: string
  dt_RecordingMBID :: string
  dt_MediaFileID :: string
  dt_State :: string
  dt_PlayStarts :: int
  dt_ExpiresAt :: "Time option"
  dt_UpdatedAt :: Time

record RadioTrackFeedback =
  tf_PositiveCount :: nat
  tf_CompletedCount :: nat
  tf_NeutralSkipCount :: nat
  tf_EarlySkipCount :: nat
  tf_LastEarlySkipAt :: "Time option"

text \<open>The counts of one outcome, or of all of them so far, of a transition from one track to another.\<close>

record transition_counts =
  tc_attempts :: nat
  tc_accepted :: nat
  tc_completed :: nat
  tc_earlySkip :: nat
  tc_neutralSkip :: nat
  tc_keep :: nat

record RadioTransition =
  rt_counts :: transition_counts
  rt_SourceMediaFileID :: string
  rt_TargetMediaFileID :: string
  rt_LastAttemptAt :: "Time option"
  rt_LastPositiveAt :: "Time option"
  rt_LastNegativeAt :: "Time option"

record FeedbackRequest =
  fr_EventID :: string
  fr_ItemID :: string
  fr_Event :: string
  fr_ListenedMS :: int
  fr_DurationMS :: int

text \<open>Keys: tracks by user and recording, transitions by user, source and target, events by user and event; a stored event is the
  session and the request.\<close>

record radio_db =
  rd_sessions :: "string \<rightharpoonup> string"
  rd_items :: "RadioItem list"
  rd_discoveries :: "DiscoveryTrack list"
  rd_tracks :: "string \<times> string \<rightharpoonup> RadioTrackFeedback"
  rd_transitions :: "string \<times> string \<times> string \<rightharpoonup> RadioTransition"
  rd_events :: "string \<times> string \<rightharpoonup> string \<times> FeedbackRequest"

datatype radio_error = RadioNotFound | RadioValidation | RadioEventConflict | RadioBusy

subsection \<open>Outcomes\<close>

definition RadioPlaybackStarted :: string where "RadioPlaybackStarted = ''started''"
definition RadioPlaybackAccepted :: string where "RadioPlaybackAccepted = ''accepted''"
definition RadioPlaybackCompleted :: string where "RadioPlaybackCompleted = ''completed''"
definition RadioPlaybackEarlySkip :: string where "RadioPlaybackEarlySkip = ''early_skip''"
definition RadioPlaybackLateSkip :: string where "RadioPlaybackLateSkip = ''late_skip''"
definition RadioPlaybackKeep :: string where "RadioPlaybackKeep = ''keep''"

definition RadioFeedbackStarted :: string where "RadioFeedbackStarted = ''started''"
definition RadioFeedbackThresholdReached :: string where "RadioFeedbackThresholdReached = ''threshold_reached''"
definition RadioFeedbackCompleted :: string where "RadioFeedbackCompleted = ''completed''"
definition RadioFeedbackManualSkip :: string where "RadioFeedbackManualSkip = ''manual_skip''"
definition RadioFeedbackKeep :: string where "RadioFeedbackKeep = ''keep''"

lemmas radio_strings =
  RadioPlaybackStarted_def RadioPlaybackAccepted_def RadioPlaybackCompleted_def RadioPlaybackEarlySkip_def RadioPlaybackLateSkip_def
  RadioPlaybackKeep_def RadioFeedbackStarted_def RadioFeedbackThresholdReached_def RadioFeedbackCompleted_def
  RadioFeedbackManualSkip_def RadioFeedbackKeep_def

definition DiscoveryKept :: string where "DiscoveryKept = ''kept''"
definition DiscoveryDeletePending :: string where "DiscoveryDeletePending = ''delete_pending''"
definition DiscoveryDeleted :: string where "DiscoveryDeleted = ''deleted''"

definition NormalizeRecordingMBID :: "string \<Rightarrow> string" where
  "NormalizeRecordingMBID value = to_lower (trim_space value)"

definition RadioTrackKey :: "string \<Rightarrow> string \<Rightarrow> string" where
  "RadioTrackKey recordingMBID mediaFileID =
     (let mbid = NormalizeRecordingMBID recordingMBID; file_id = trim_space mediaFileID in
      if mbid \<noteq> [] then ''mbid:'' @ mbid else if file_id \<noteq> [] then ''media:'' @ file_id else [])"

definition IsAcceptedRadioPlaybackOutcome :: "string \<Rightarrow> bool" where
  "IsAcceptedRadioPlaybackOutcome outcome \<longleftrightarrow>
     outcome \<in> {RadioPlaybackAccepted, RadioPlaybackCompleted, RadioPlaybackLateSkip, RadioPlaybackKeep}"

definition playbackOutcomeRank :: "string \<Rightarrow> nat" where
  "playbackOutcomeRank outcome =
     (if outcome = RadioPlaybackStarted then 1
      else if outcome = RadioPlaybackEarlySkip then 2
      else if outcome = RadioPlaybackAccepted then 3
      else if outcome = RadioPlaybackLateSkip \<or> outcome = RadioPlaybackKeep then 4
      else if outcome = RadioPlaybackCompleted then 5
      else 0)"

definition earlySkipThresholdMSForDuration :: "int \<Rightarrow> int" where
  "earlySkipThresholdMSForDuration durationMS = (if durationMS \<le> 0 then 30000 else min 30000 (durationMS div 5))"

definition no_counts :: transition_counts where
  "no_counts = \<lparr>tc_attempts = 0, tc_accepted = 0, tc_completed = 0, tc_earlySkip = 0, tc_neutralSkip = 0, tc_keep = 0\<rparr>"

definition hasCounts :: "transition_counts \<Rightarrow> bool" where
  "hasCounts d \<longleftrightarrow> tc_attempts d \<noteq> 0 \<or> tc_accepted d \<noteq> 0 \<or> tc_completed d \<noteq> 0 \<or> tc_earlySkip d \<noteq> 0 \<or> tc_neutralSkip d \<noteq> 0 \<or> tc_keep d \<noteq> 0"

text \<open>The outcome of an item after an event, whether the event applies, and what it counts.\<close>

definition radioPlaybackOutcome :: "string \<Rightarrow> string \<Rightarrow> int \<Rightarrow> int \<Rightarrow> string \<times> bool \<times> transition_counts" where
  "radioPlaybackOutcome current event listenedMS durationMS =
     (if event = RadioFeedbackStarted then
        (if current = [] then (RadioPlaybackStarted, True, no_counts) else (current, False, no_counts))
      else if event = RadioFeedbackThresholdReached then
        (if playbackOutcomeRank current < playbackOutcomeRank RadioPlaybackAccepted
         then (RadioPlaybackAccepted, True, no_counts\<lparr>tc_accepted := 1\<rparr>) else (current, False, no_counts))
      else if event = RadioFeedbackCompleted then
        (if current \<noteq> RadioPlaybackCompleted then (RadioPlaybackCompleted, True, no_counts\<lparr>tc_completed := 1\<rparr>)
         else (current, False, no_counts))
      else if event = RadioFeedbackManualSkip then
        (if current \<in> {RadioPlaybackCompleted, RadioPlaybackKeep, RadioPlaybackLateSkip} then (current, False, no_counts)
         else if IsAcceptedRadioPlaybackOutcome current \<or> listenedMS \<ge> earlySkipThresholdMSForDuration durationMS
         then (RadioPlaybackLateSkip, True, no_counts\<lparr>tc_neutralSkip := 1\<rparr>)
         else if current \<noteq> RadioPlaybackEarlySkip then (RadioPlaybackEarlySkip, True, no_counts\<lparr>tc_earlySkip := 1\<rparr>)
         else (current, False, no_counts))
      else if event = RadioFeedbackKeep then
        (if current \<in> {RadioPlaybackCompleted, RadioPlaybackKeep} then (current, False, no_counts)
         else (RadioPlaybackKeep, True, no_counts\<lparr>tc_keep := 1\<rparr>))
      else (current, False, no_counts))"

subsection \<open>Statements\<close>

definition find_item :: "string \<Rightarrow> string \<Rightarrow> string \<Rightarrow> radio_db \<Rightarrow> RadioItem option" where
  "find_item userID sessionID itemID db =
     (if rd_sessions db sessionID = Some userID
      then find (\<lambda>i. ri_ID i = itemID \<and> ri_SessionID i = sessionID) (rd_items db) else None)"

definition recentAcceptedItemTx :: "string \<Rightarrow> string \<Rightarrow> RadioItem list \<Rightarrow> RadioItem option" where
  "recentAcceptedItemTx sessionID excludeItemID items =
     (let rows = filter (\<lambda>i. ri_SessionID i = sessionID \<and> ri_ID i \<noteq> excludeItemID
          \<and> IsAcceptedRadioPlaybackOutcome (ri_PlaybackOutcome i) \<and> ri_LastFeedbackAt i \<noteq> None) items
      in if rows = [] then None else Some (last (sort_key (\<lambda>i. the (ri_LastFeedbackAt i)) (sort_key ri_ID rows))))"

definition updateRadioItemTx :: "RadioItem \<Rightarrow> RadioItem list \<Rightarrow> RadioItem list" where
  "updateRadioItemTx item items = map (\<lambda>i. if ri_ID i = ri_ID item then item else i) items"

definition add_counts :: "transition_counts \<Rightarrow> transition_counts \<Rightarrow> transition_counts" where
  "add_counts a b =
     \<lparr>tc_attempts = tc_attempts a + tc_attempts b, tc_accepted = tc_accepted a + tc_accepted b,
      tc_completed = tc_completed a + tc_completed b, tc_earlySkip = tc_earlySkip a + tc_earlySkip b,
      tc_neutralSkip = tc_neutralSkip a + tc_neutralSkip b, tc_keep = tc_keep a + tc_keep b\<rparr>"

definition coalesce_id :: "string \<Rightarrow> string \<Rightarrow> string" where
  "coalesce_id new old = (if new \<noteq> [] then new else old)"

definition coalesce_time :: "Time option \<Rightarrow> Time option \<Rightarrow> Time option" where
  "coalesce_time new old = (case new of None \<Rightarrow> old | Some t \<Rightarrow> Some t)"

definition no_transition :: RadioTransition where
  "no_transition = \<lparr>rt_counts = no_counts, rt_SourceMediaFileID = [], rt_TargetMediaFileID = [], rt_LastAttemptAt = None,
     rt_LastPositiveAt = None, rt_LastNegativeAt = None\<rparr>"

definition upsertRadioTransitionTx ::
    "string \<times> string \<times> string \<Rightarrow> transition_counts \<Rightarrow> string \<Rightarrow> string \<Rightarrow> Time
      \<Rightarrow> (string \<times> string \<times> string \<rightharpoonup> RadioTransition) \<Rightarrow> (string \<times> string \<times> string \<rightharpoonup> RadioTransition)" where
  "upsertRadioTransitionTx key delta sourceFile targetFile now transitions =
     (let old = (case transitions key of None \<Rightarrow> no_transition | Some t \<Rightarrow> t) in
      transitions(key \<mapsto>
        \<lparr>rt_counts = add_counts (rt_counts old) delta,
         rt_SourceMediaFileID = coalesce_id sourceFile (rt_SourceMediaFileID old),
         rt_TargetMediaFileID = coalesce_id targetFile (rt_TargetMediaFileID old),
         rt_LastAttemptAt = coalesce_time (if tc_attempts delta > 0 then Some now else None) (rt_LastAttemptAt old),
         rt_LastPositiveAt = coalesce_time (if tc_accepted delta > 0 \<or> tc_completed delta > 0 \<or> tc_keep delta > 0 then Some now else None)
           (rt_LastPositiveAt old),
         rt_LastNegativeAt = coalesce_time (if tc_earlySkip delta > 0 \<or> tc_neutralSkip delta > 0 then Some now else None)
           (rt_LastNegativeAt old)\<rparr>))"

definition radioRecordingFeedbackEvent :: "string \<Rightarrow> string" where
  "radioRecordingFeedbackEvent outcome =
     (if outcome = RadioPlaybackAccepted then RadioFeedbackThresholdReached
      else if outcome = RadioPlaybackCompleted then RadioFeedbackCompleted
      else if outcome = RadioPlaybackEarlySkip then RadioFeedbackManualSkip
      else if outcome = RadioPlaybackLateSkip then ''neutral''
      else if outcome = RadioPlaybackKeep then RadioFeedbackKeep
      else [])"

definition recordRadioTrackFeedback ::
    "string \<Rightarrow> string \<Rightarrow> string \<Rightarrow> Time \<Rightarrow> (string \<times> string \<rightharpoonup> RadioTrackFeedback) \<Rightarrow> (string \<times> string \<rightharpoonup> RadioTrackFeedback)" where
  "recordRadioTrackFeedback userID recordingMBID event now tracks =
     (let old = (case tracks (userID, recordingMBID) of
                   None \<Rightarrow> \<lparr>tf_PositiveCount = 0, tf_CompletedCount = 0, tf_NeutralSkipCount = 0, tf_EarlySkipCount = 0, tf_LastEarlySkipAt = None\<rparr>
                 | Some t \<Rightarrow> t);
          new = (if event = RadioFeedbackThresholdReached \<or> event = RadioFeedbackKeep then old\<lparr>tf_PositiveCount := tf_PositiveCount old + 1\<rparr>
                 else if event = RadioFeedbackCompleted
                 then old\<lparr>tf_PositiveCount := tf_PositiveCount old + 1, tf_CompletedCount := tf_CompletedCount old + 1\<rparr>
                 else if event = RadioFeedbackManualSkip
                 then old\<lparr>tf_EarlySkipCount := tf_EarlySkipCount old + 1, tf_LastEarlySkipAt := Some now\<rparr>
                 else old\<lparr>tf_NeutralSkipCount := tf_NeutralSkipCount old + 1\<rparr>)
      in tracks((userID, recordingMBID) \<mapsto> new))"

definition update_discovery :: "DiscoveryTrack \<Rightarrow> DiscoveryTrack list \<Rightarrow> DiscoveryTrack list" where
  "update_discovery d ds = map (\<lambda>e. if dt_ID e = dt_ID d then d else e) ds"

subsection \<open>Applying a request\<close>

record feedback_result =
  fb_Item :: RadioItem
  fb_Applied :: bool
  fb_Duplicate :: bool
  fb_DiscoveryToDelete :: "DiscoveryTrack option"

text \<open>The first start of an item fixes the track it came from: the last accepted item of the session.\<close>

definition attach_transition ::
    "string \<Rightarrow> FeedbackRequest \<Rightarrow> RadioItem list \<Rightarrow> RadioItem \<Rightarrow> transition_counts \<Rightarrow> RadioItem \<times> transition_counts \<times> string \<times> string" where
  "attach_transition sessionID req items item delta =
     (if fr_Event req = RadioFeedbackStarted \<and> ri_TransitionSourceKey item = []
         \<and> RadioTrackKey (ri_RecordingMBID item) (ri_MediaFileID item) \<noteq> []
      then case recentAcceptedItemTx sessionID (ri_ID item) items of
             None \<Rightarrow> (item, delta, [], [])
           | Some anchor \<Rightarrow>
               let sourceKey = RadioTrackKey (ri_RecordingMBID anchor) (ri_MediaFileID anchor) in
               if sourceKey = [] then (item, delta, [], [])
               else (item\<lparr>ri_TransitionSourceItemID := ri_ID anchor, ri_TransitionSourceKey := sourceKey\<rparr>,
                     delta\<lparr>tc_attempts := tc_attempts delta + 1\<rparr>, ri_MediaFileID anchor, ri_MediaFileID item)
      else (item, delta, [], []))"

definition count_transition ::
    "string \<Rightarrow> RadioItem \<Rightarrow> transition_counts \<Rightarrow> string \<Rightarrow> string \<Rightarrow> Time \<Rightarrow> radio_db \<Rightarrow> radio_db" where
  "count_transition userID item delta sourceFile targetFile now db =
     (if ri_TransitionSourceKey item \<noteq> [] \<and> hasCounts delta
      then db\<lparr>rd_transitions := upsertRadioTransitionTx
             (userID, ri_TransitionSourceKey item, RadioTrackKey (ri_RecordingMBID item) (ri_MediaFileID item))
             delta sourceFile targetFile now (rd_transitions db)\<rparr>
      else db)"

definition count_track :: "string \<Rightarrow> RadioItem \<Rightarrow> bool \<Rightarrow> Time \<Rightarrow> radio_db \<Rightarrow> radio_db" where
  "count_track userID item applied now db =
     (let mbid = NormalizeRecordingMBID (ri_RecordingMBID item); event = radioRecordingFeedbackEvent (ri_PlaybackOutcome item) in
      if mbid \<noteq> [] \<and> applied \<and> event \<noteq> [] then db\<lparr>rd_tracks := recordRadioTrackFeedback userID mbid event now (rd_tracks db)\<rparr> else db)"

definition keep_discovery :: "DiscoveryTrack \<Rightarrow> DiscoveryTrack" where
  "keep_discovery d = d\<lparr>dt_State := DiscoveryKept, dt_ExpiresAt := None\<rparr>"

text \<open>What an event means for a temporarily downloaded recording: the new row, whether it is written, and whether the file goes.\<close>

definition discovery_event :: "string \<Rightarrow> bool \<Rightarrow> string \<Rightarrow> DiscoveryTrack \<Rightarrow> DiscoveryTrack \<times> bool \<times> bool" where
  "discovery_event event applied outcome d =
     (if event = RadioFeedbackStarted then
        (let d1 = d\<lparr>dt_PlayStarts := dt_PlayStarts d + 1\<rparr> in (if dt_PlayStarts d1 > 1 then keep_discovery d1 else d1, True, False))
      else if event \<in> {RadioFeedbackThresholdReached, RadioFeedbackCompleted, RadioFeedbackKeep} then
        (if applied then keep_discovery d else d, applied, False)
      else if event = RadioFeedbackManualSkip then
        (if \<not> applied then (d, False, False)
         else if outcome = RadioPlaybackEarlySkip then (d\<lparr>dt_State := DiscoveryDeletePending\<rparr>, True, True)
         else (keep_discovery d, True, False))
      else (d, True, False))"

definition discovery_feedback ::
    "string \<Rightarrow> FeedbackRequest \<Rightarrow> RadioItem \<Rightarrow> bool \<Rightarrow> Time \<Rightarrow> radio_db \<Rightarrow> radio_error + (DiscoveryTrack option \<times> radio_db)" where
  "discovery_feedback userID req item applied now db =
     (let mbid = NormalizeRecordingMBID (ri_RecordingMBID item) in
      if ri_ItemType item = ''discovery'' \<and> mbid \<noteq> [] then
        case find (\<lambda>d. dt_UserID d = userID \<and> dt_RecordingMBID d = mbid) (rd_discoveries db) of
          None \<Rightarrow> Inl RadioNotFound
        | Some d \<Rightarrow>
            (case discovery_event (fr_Event req) applied (ri_PlaybackOutcome item) d of
               (d', update, gone) \<Rightarrow>
                 let db1 = (if fr_Event req = RadioFeedbackStarted \<and> dt_PlayStarts d' > 1
                            then db\<lparr>rd_tracks := recordRadioTrackFeedback userID mbid RadioFeedbackKeep now (rd_tracks db)\<rparr> else db);
                     db2 = (if update then db1\<lparr>rd_discoveries := update_discovery (d'\<lparr>dt_UpdatedAt := now\<rparr>) (rd_discoveries db1)\<rparr> else db1)
                 in Inr (if gone then Some d' else None, db2))
      else Inr (None, db))"

definition record_event :: "string \<Rightarrow> string \<Rightarrow> FeedbackRequest \<Rightarrow> radio_db \<Rightarrow> radio_db" where
  "record_event userID sessionID req db =
     (if fr_EventID req \<noteq> [] then db\<lparr>rd_events := (rd_events db)((userID, fr_EventID req) \<mapsto> (sessionID, req))\<rparr> else db)"

definition feedback_item :: "FeedbackRequest \<Rightarrow> Time \<Rightarrow> RadioItem \<Rightarrow> RadioItem" where
  "feedback_item req now item =
     item\<lparr>ri_Status := ''played'', ri_ListenedMS := max (ri_ListenedMS item) (fr_ListenedMS req),
          ri_DurationMS := max (ri_DurationMS item) (fr_DurationMS req), ri_LastFeedbackAt := Some now\<rparr>"

definition fresh_feedback ::
    "string \<Rightarrow> string \<Rightarrow> FeedbackRequest \<Rightarrow> Time \<Rightarrow> RadioItem \<Rightarrow> radio_db \<Rightarrow> radio_error + (feedback_result \<times> radio_db)" where
  "fresh_feedback userID sessionID req now item db =
     (let item1 = feedback_item req now item in
      case radioPlaybackOutcome (ri_PlaybackOutcome item1) (fr_Event req) (ri_ListenedMS item1) (ri_DurationMS item1) of
        (outcome, applied, delta) \<Rightarrow>
          case attach_transition sessionID req (rd_items db) (if applied then item1\<lparr>ri_PlaybackOutcome := outcome\<rparr> else item1) delta of
            (item2, delta2, sourceFile, targetFile) \<Rightarrow>
              let item3 = item2\<lparr>ri_UpdatedAt := now\<rparr>;
                  db1 = db\<lparr>rd_items := updateRadioItemTx item3 (rd_items db)\<rparr>;
                  db2 = count_transition userID item3 delta2 sourceFile targetFile now db1;
                  db3 = count_track userID item3 applied now db2
              in case discovery_feedback userID req item3 applied now db3 of
                   Inl e \<Rightarrow> Inl e
                 | Inr (toDelete, db4) \<Rightarrow>
                     Inr (\<lparr>fb_Item = item3, fb_Applied = applied, fb_Duplicate = False, fb_DiscoveryToDelete = toDelete\<rparr>,
                          record_event userID sessionID req db4))"

definition applyPlaybackFeedback ::
    "string \<Rightarrow> string \<Rightarrow> FeedbackRequest \<Rightarrow> Time \<Rightarrow> radio_db \<Rightarrow> radio_error + (feedback_result \<times> radio_db)" where
  "applyPlaybackFeedback userID sessionID req now db =
     (case find_item userID sessionID (fr_ItemID req) db of
        None \<Rightarrow> Inl RadioNotFound
      | Some item \<Rightarrow>
          (case (if fr_EventID req \<noteq> [] then rd_events db (userID, fr_EventID req) else None) of
             Some (previousSession, previous) \<Rightarrow>
               if previousSession \<noteq> sessionID \<or> previous \<noteq> req then Inl RadioEventConflict
               else Inr (\<lparr>fb_Item = item, fb_Applied = False, fb_Duplicate = True, fb_DiscoveryToDelete = None\<rparr>, db)
           | None \<Rightarrow> fresh_feedback userID sessionID req now item db))"

text \<open>The transaction is tried up to four times; \<open>busy\<close> tells which tries find the database locked.\<close>

fun feedback_attempts ::
    "nat \<Rightarrow> (nat \<Rightarrow> bool) \<Rightarrow> string \<Rightarrow> string \<Rightarrow> FeedbackRequest \<Rightarrow> Time \<Rightarrow> radio_db \<Rightarrow> radio_error + (feedback_result \<times> radio_db)" where
  "feedback_attempts 0 busy userID sessionID req now db = Inl RadioBusy"
| "feedback_attempts (Suc n) busy userID sessionID req now db =
     (if busy n then feedback_attempts n busy userID sessionID req now db else applyPlaybackFeedback userID sessionID req now db)"

definition radioFeedbackTries :: nat where "radioFeedbackTries = 4"

definition RecordPlaybackFeedback ::
    "(nat \<Rightarrow> bool) \<Rightarrow> string \<Rightarrow> string \<Rightarrow> FeedbackRequest \<Rightarrow> Time \<Rightarrow> radio_db \<Rightarrow> radio_error + (feedback_result \<times> radio_db)" where
  "RecordPlaybackFeedback busy userID sessionID req now db =
     (if length (fr_EventID req) > 255 then Inl RadioValidation
      else feedback_attempts radioFeedbackTries busy userID sessionID req now db)"

subsection \<open>Sessions, items and downloads\<close>

text \<open>\<open>CreateSession\<close>, \<open>AppendItems\<close> and \<open>UpsertDiscovery\<close>; \<^const>\<open>None\<close> is a constraint violation, which undoes the transaction.\<close>

definition insertRadioItem :: "RadioItem \<Rightarrow> radio_db \<Rightarrow> radio_db option" where
  "insertRadioItem item db =
     (if list_ex (\<lambda>i. ri_ID i = ri_ID item \<or> ri_SessionID i = ri_SessionID item \<and> ri_Position i = ri_Position item) (rd_items db)
         \<or> rd_sessions db (ri_SessionID item) = None
      then None else Some (db\<lparr>rd_items := rd_items db @ [item]\<rparr>))"

fun insert_items :: "RadioItem list \<Rightarrow> radio_db \<Rightarrow> radio_db option" where
  "insert_items [] db = Some db"
| "insert_items (item # items) db = (case insertRadioItem item db of None \<Rightarrow> None | Some db' \<Rightarrow> insert_items items db')"

definition CreateSession :: "string \<Rightarrow> string \<Rightarrow> RadioItem list \<Rightarrow> radio_db \<Rightarrow> radio_db option" where
  "CreateSession sessionID userID items db =
     (if rd_sessions db sessionID \<noteq> None then None
      else insert_items items (db\<lparr>rd_sessions := (rd_sessions db)(sessionID \<mapsto> userID)\<rparr>))"

definition AppendItems :: "string \<Rightarrow> RadioItem list \<Rightarrow> radio_db \<Rightarrow> radio_db option" where
  "AppendItems sessionID items db = insert_items (map (\<lambda>i. i\<lparr>ri_SessionID := sessionID\<rparr>) items) db"

definition merge_discovery :: "DiscoveryTrack \<Rightarrow> DiscoveryTrack \<Rightarrow> DiscoveryTrack" where
  "merge_discovery track d =
     (if dt_UserID d = dt_UserID track \<and> dt_RecordingMBID d = dt_RecordingMBID track
      then d\<lparr>dt_MediaFileID := coalesce_id (dt_MediaFileID track) (dt_MediaFileID d),
             dt_State := (if dt_State d = DiscoveryKept then dt_State d else dt_State track),
             dt_ExpiresAt := (if dt_State d = DiscoveryKept then dt_ExpiresAt d else dt_ExpiresAt track),
             dt_UpdatedAt := dt_UpdatedAt track\<rparr>
      else d)"

definition UpsertDiscovery :: "DiscoveryTrack \<Rightarrow> radio_db \<Rightarrow> radio_db" where
  "UpsertDiscovery track db =
     db\<lparr>rd_discoveries :=
       (if list_ex (\<lambda>d. dt_UserID d = dt_UserID track \<and> dt_RecordingMBID d = dt_RecordingMBID track) (rd_discoveries db)
        then map (merge_discovery track) (rd_discoveries db) else rd_discoveries db @ [track])\<rparr>"

text \<open>\<open>deleteDiscovery\<close> of the service: a protected file is kept; otherwise it is removed (\<open>remove\<close>, which is \<^const>\<open>None\<close> when that fails
  and otherwise tells whether there was a file), and the row is marked.\<close>

definition IsMediaFileProtected :: "(string \<Rightarrow> bool) \<Rightarrow> string \<Rightarrow> radio_db \<Rightarrow> bool" where
  "IsMediaFileProtected starred_or_listed mediaFileID db \<longleftrightarrow>
     starred_or_listed mediaFileID
     \<or> mediaFileID \<noteq> [] \<and> list_ex (\<lambda>d. dt_MediaFileID d = mediaFileID \<and> dt_State d = DiscoveryKept) (rd_discoveries db)"

definition deleteDiscovery ::
    "(string \<Rightarrow> bool) \<Rightarrow> (string \<Rightarrow> bool option) \<Rightarrow> Time \<Rightarrow> DiscoveryTrack \<Rightarrow> radio_db \<Rightarrow> string option \<times> radio_db" where
  "deleteDiscovery starred_or_listed remove now track db =
     (if IsMediaFileProtected starred_or_listed (dt_MediaFileID track) db
      then (None, db\<lparr>rd_discoveries := update_discovery ((keep_discovery track)\<lparr>dt_UpdatedAt := now\<rparr>) (rd_discoveries db)\<rparr>)
      else case remove (dt_MediaFileID track) of
             None \<Rightarrow> (None, db)
           | Some existed \<Rightarrow>
               (if existed then Some (dt_MediaFileID track) else None,
                db\<lparr>rd_discoveries := update_discovery (track\<lparr>dt_State := DiscoveryDeleted, dt_ExpiresAt := None, dt_UpdatedAt := now\<rparr>)
                     (rd_discoveries db)\<rparr>))"

definition ListExpiredDiscoveries :: "Time \<Rightarrow> nat \<Rightarrow> radio_db \<Rightarrow> DiscoveryTrack list" where
  "ListExpiredDiscoveries now limit db =
     take limit (sort_key (\<lambda>d. dt_ExpiresAt d \<noteq> None) (sort_key (\<lambda>d. case dt_ExpiresAt d of None \<Rightarrow> 0 | Some t \<Rightarrow> t)
       (filter (\<lambda>d. dt_State d = DiscoveryDeletePending
          \<or> dt_State d = ''temporary'' \<and> (case dt_ExpiresAt d of None \<Rightarrow> False | Some t \<Rightarrow> t \<le> now)) (rd_discoveries db))))"

subsection \<open>Outcomes only progress\<close>

lemma outcomes_distinct:
  "distinct [RadioPlaybackStarted, RadioPlaybackAccepted, RadioPlaybackCompleted, RadioPlaybackEarlySkip, RadioPlaybackLateSkip, RadioPlaybackKeep, []]"
  "distinct [[], RadioPlaybackKeep, RadioPlaybackLateSkip, RadioPlaybackEarlySkip, RadioPlaybackCompleted, RadioPlaybackAccepted, RadioPlaybackStarted]"
  by (simp_all add: radio_strings)

lemmas outcomes_neq [simp] = outcomes_distinct [simplified]

lemma events_distinct:
  "distinct [RadioFeedbackStarted, RadioFeedbackThresholdReached, RadioFeedbackCompleted, RadioFeedbackManualSkip, RadioFeedbackKeep]"
  "distinct [RadioFeedbackKeep, RadioFeedbackManualSkip, RadioFeedbackCompleted, RadioFeedbackThresholdReached, RadioFeedbackStarted]"
  by (simp_all add: radio_strings)

lemmas events_neq [simp] = events_distinct [simplified]

lemma playbackOutcomeRank_simps [simp]:
  "playbackOutcomeRank RadioPlaybackStarted = 1" "playbackOutcomeRank RadioPlaybackEarlySkip = 2"
  "playbackOutcomeRank RadioPlaybackAccepted = 3" "playbackOutcomeRank RadioPlaybackLateSkip = 4"
  "playbackOutcomeRank RadioPlaybackKeep = 4" "playbackOutcomeRank RadioPlaybackCompleted = 5"
  by (simp_all add: playbackOutcomeRank_def)

lemma outcome_cases:
  obtains "outcome \<in> {RadioPlaybackStarted, RadioPlaybackAccepted, RadioPlaybackCompleted, RadioPlaybackEarlySkip, RadioPlaybackLateSkip,
      RadioPlaybackKeep}"
  | "outcome \<notin> {RadioPlaybackStarted, RadioPlaybackAccepted, RadioPlaybackCompleted, RadioPlaybackEarlySkip, RadioPlaybackLateSkip,
      RadioPlaybackKeep}" "playbackOutcomeRank outcome = 0"
  by (cases "outcome \<in> {RadioPlaybackStarted, RadioPlaybackAccepted, RadioPlaybackCompleted, RadioPlaybackEarlySkip, RadioPlaybackLateSkip,
      RadioPlaybackKeep}") (auto simp: playbackOutcomeRank_def)

lemma radioPlaybackOutcome_progress:
  assumes "radioPlaybackOutcome current event listened duration = (outcome, applied, delta)"
  shows "\<not> applied \<Longrightarrow> outcome = current \<and> delta = no_counts"
    and "tc_attempts delta = 0"
    and "playbackOutcomeRank current \<le> playbackOutcomeRank outcome"
proof -
  show "\<not> applied \<Longrightarrow> outcome = current \<and> delta = no_counts"
    using assms unfolding radioPlaybackOutcome_def by (simp split: if_split_asm)
  show "tc_attempts delta = 0"
    using assms unfolding radioPlaybackOutcome_def by (auto simp: no_counts_def split: if_split_asm)
  show "playbackOutcomeRank current \<le> playbackOutcomeRank outcome"
  proof (cases rule: outcome_cases [of current])
    case 1
    then show ?thesis
      using assms unfolding radioPlaybackOutcome_def IsAcceptedRadioPlaybackOutcome_def by (elim insertE emptyE) (simp_all split: if_split_asm)
  next
    case 2
    then show ?thesis by simp
  qed
qed

text \<open>The outcomes from which an outcome cannot be counted again.\<close>

definition past_accepted :: "string \<Rightarrow> bool" where "past_accepted outcome \<longleftrightarrow> playbackOutcomeRank outcome \<ge> 3"
definition past_completed :: "string \<Rightarrow> bool" where "past_completed outcome \<longleftrightarrow> outcome = RadioPlaybackCompleted"
definition past_early :: "string \<Rightarrow> bool" where "past_early outcome \<longleftrightarrow> playbackOutcomeRank outcome \<ge> 2"
definition past_late :: "string \<Rightarrow> bool" where "past_late outcome \<longleftrightarrow> playbackOutcomeRank outcome \<ge> 4"
definition past_keep :: "string \<Rightarrow> bool" where
  "past_keep outcome \<longleftrightarrow> outcome = RadioPlaybackKeep \<or> outcome = RadioPlaybackCompleted"

definition as_nat :: "bool \<Rightarrow> nat" where "as_nat b = (if b then 1 else 0)"

lemmas past_defs = past_accepted_def past_completed_def past_early_def past_late_def past_keep_def as_nat_def

lemma past_outcomes:
  "outcome \<notin> {RadioPlaybackStarted, RadioPlaybackAccepted, RadioPlaybackCompleted, RadioPlaybackEarlySkip, RadioPlaybackLateSkip,
      RadioPlaybackKeep} \<Longrightarrow> playbackOutcomeRank outcome = 0 \<Longrightarrow>
    as_nat (past_accepted outcome) = 0 \<and> as_nat (past_completed outcome) = 0 \<and> as_nat (past_early outcome) = 0
    \<and> as_nat (past_late outcome) = 0 \<and> as_nat (past_keep outcome) = 0"
  by (simp add: past_defs)

definition counts_progress :: "string \<Rightarrow> string \<Rightarrow> transition_counts \<Rightarrow> bool" where
  "counts_progress current outcome delta \<longleftrightarrow>
     as_nat (past_accepted current) + tc_accepted delta \<le> as_nat (past_accepted outcome)
     \<and> as_nat (past_completed current) + tc_completed delta \<le> as_nat (past_completed outcome)
     \<and> as_nat (past_early current) + tc_earlySkip delta \<le> as_nat (past_early outcome)
     \<and> as_nat (past_late current) + tc_neutralSkip delta \<le> as_nat (past_late outcome)
     \<and> as_nat (past_keep current) + tc_keep delta \<le> as_nat (past_keep outcome)"

lemma counts_progress_refl [simp]: "counts_progress current current no_counts"
  by (simp add: counts_progress_def no_counts_def)

lemma radioPlaybackOutcome_counts:
  assumes "radioPlaybackOutcome current event listened duration = (outcome, applied, delta)"
  shows "counts_progress current outcome delta"
proof (cases applied)
  case False
  then show ?thesis using radioPlaybackOutcome_progress(1) [OF assms] by simp
next
  case True
  show ?thesis
  proof (cases rule: outcome_cases [of current])
    case 1
    then show ?thesis using assms True unfolding radioPlaybackOutcome_def IsAcceptedRadioPlaybackOutcome_def
      by (elim insertE emptyE) (simp_all split: if_split_asm, auto simp: counts_progress_def past_defs no_counts_def)
  next
    case 2
    then show ?thesis using assms True past_outcomes [OF 2] unfolding radioPlaybackOutcome_def IsAcceptedRadioPlaybackOutcome_def
      by (simp split: if_split_asm) (auto simp: counts_progress_def past_defs no_counts_def)
  qed
qed

subsection \<open>Counting transitions\<close>

definition item_key :: "RadioItem \<Rightarrow> string" where
  "item_key i = RadioTrackKey (ri_RecordingMBID i) (ri_MediaFileID i)"

text \<open>The items of a user that were started after the source track.\<close>

definition in_transition :: "radio_db \<Rightarrow> string \<Rightarrow> string \<Rightarrow> string \<Rightarrow> RadioItem \<Rightarrow> bool" where
  "in_transition db u s t i \<longleftrightarrow> rd_sessions db (ri_SessionID i) = Some u \<and> ri_TransitionSourceKey i = s \<and> item_key i = t"

definition outcome_count :: "radio_db \<Rightarrow> string \<Rightarrow> string \<Rightarrow> string \<Rightarrow> (string \<Rightarrow> bool) \<Rightarrow> nat" where
  "outcome_count db u s t C = length (filter (\<lambda>i. in_transition db u s t i \<and> C (ri_PlaybackOutcome i)) (rd_items db))"

definition transition_totals :: "radio_db \<Rightarrow> string \<Rightarrow> string \<Rightarrow> string \<Rightarrow> transition_counts" where
  "transition_totals db u s t = (case rd_transitions db (u, s, t) of None \<Rightarrow> no_counts | Some r \<Rightarrow> rt_counts r)"

definition totals_ok :: "radio_db \<Rightarrow> string \<Rightarrow> string \<Rightarrow> string \<Rightarrow> transition_counts \<Rightarrow> bool" where
  "totals_ok db u s t c \<longleftrightarrow>
     tc_attempts c = outcome_count db u s t (\<lambda>_. True)
     \<and> tc_accepted c \<le> outcome_count db u s t past_accepted
     \<and> tc_completed c \<le> outcome_count db u s t past_completed
     \<and> tc_earlySkip c \<le> outcome_count db u s t past_early
     \<and> tc_neutralSkip c \<le> outcome_count db u s t past_late
     \<and> tc_keep c \<le> outcome_count db u s t past_keep"

definition radio_inv :: "radio_db \<Rightarrow> bool" where
  "radio_inv db \<longleftrightarrow>
     distinct (map ri_ID (rd_items db))
     \<and> (\<forall>i \<in> set (rd_items db). rd_sessions db (ri_SessionID i) \<noteq> None)
     \<and> (\<forall>u t. rd_transitions db (u, [], t) = None)
     \<and> (\<forall>u s t. s \<noteq> [] \<longrightarrow> totals_ok db u s t (transition_totals db u s t))"

lemma filter_update_count:
  assumes "distinct (map ri_ID items)" "old \<in> set items" "ri_ID new = ri_ID old"
  shows "length (filter P (updateRadioItemTx new items)) + as_nat (P old) = length (filter P items) + as_nat (P new)"
proof -
  obtain xs ys where items: "items = xs @ old # ys" using assms(2) by (meson split_list)
  have "ri_ID new \<notin> ri_ID ` (set xs \<union> set ys)" using assms(1) by (simp add: items assms(3) image_Un)
  then have "ri_ID i \<noteq> ri_ID new" if "i \<in> set xs \<or> i \<in> set ys" for i using that by (metis UnI1 UnI2 imageI)
  then have "updateRadioItemTx new xs = xs" "updateRadioItemTx new ys = ys"
    by (auto simp: updateRadioItemTx_def intro!: map_idI)
  moreover have "updateRadioItemTx new items = updateRadioItemTx new xs @ new # updateRadioItemTx new ys"
    using assms(3) by (simp add: items updateRadioItemTx_def)
  ultimately show ?thesis by (simp add: items as_nat_def)
qed

lemma updateRadioItemTx_ids [simp]: "map ri_ID (updateRadioItemTx new items) = map ri_ID items"
  by (simp add: updateRadioItemTx_def)

lemma updateRadioItemTx_set: "i \<in> set (updateRadioItemTx new items) \<Longrightarrow> i = new \<or> i \<in> set items"
  by (auto simp: updateRadioItemTx_def)

lemma discovery_feedback_frame:
  assumes "discovery_feedback u req item applied now db = Inr (d, db')"
  shows "rd_items db' = rd_items db" "rd_sessions db' = rd_sessions db" "rd_transitions db' = rd_transitions db" "rd_events db' = rd_events db"
  using assms by (auto simp: discovery_feedback_def Let_def split: if_splits option.splits prod.splits)

lemma record_event_frame [simp]:
  "rd_items (record_event u s req db) = rd_items db" "rd_sessions (record_event u s req db) = rd_sessions db"
  "rd_transitions (record_event u s req db) = rd_transitions db"
  by (simp_all add: record_event_def)

lemma count_track_frame [simp]:
  "rd_items (count_track u item applied now db) = rd_items db" "rd_sessions (count_track u item applied now db) = rd_sessions db"
  "rd_transitions (count_track u item applied now db) = rd_transitions db" "rd_events (count_track u item applied now db) = rd_events db"
  by (simp_all add: count_track_def Let_def)

lemma count_transition_frame [simp]:
  "rd_items (count_transition u item delta sf tf now db) = rd_items db" "rd_sessions (count_transition u item delta sf tf now db) = rd_sessions db"
  "rd_events (count_transition u item delta sf tf now db) = rd_events db"
  by (simp_all add: count_transition_def)

lemma add_counts_none: "\<not> hasCounts d \<Longrightarrow> add_counts c d = c"
  by (cases c) (simp add: hasCounts_def add_counts_def)

lemma upsert_totals:
  "(case upsertRadioTransitionTx key delta sf tf now transitions key' of None \<Rightarrow> no_counts | Some r \<Rightarrow> rt_counts r) =
     (if key' = key then add_counts (case transitions key of None \<Rightarrow> no_counts | Some r \<Rightarrow> rt_counts r) delta
      else case transitions key' of None \<Rightarrow> no_counts | Some r \<Rightarrow> rt_counts r)"
  by (simp add: upsertRadioTransitionTx_def Let_def no_transition_def split: option.split)

lemma count_transition_totals:
  "transition_totals (count_transition u item delta sf tf now db) u' s t =
     (if ri_TransitionSourceKey item \<noteq> [] \<and> (u', s, t) = (u, ri_TransitionSourceKey item, item_key item)
      then add_counts (transition_totals db u' s t) delta else transition_totals db u' s t)"
proof (cases "ri_TransitionSourceKey item \<noteq> [] \<and> hasCounts delta")
  case True
  then show ?thesis unfolding count_transition_def transition_totals_def item_key_def by (simp add: upsert_totals del: prod.inject)
next
  case False
  then show ?thesis by (auto simp: count_transition_def add_counts_none)
qed

lemma attach_transition_facts:
  assumes "attach_transition sid req items item delta = (item', delta', sf, tf)" "tc_attempts delta = 0"
  shows "ri_ID item' = ri_ID item" "ri_SessionID item' = ri_SessionID item" "item_key item' = item_key item"
    "ri_PlaybackOutcome item' = ri_PlaybackOutcome item"
    and "ri_TransitionSourceKey item' = ri_TransitionSourceKey item \<and> delta' = delta
      \<or> ri_TransitionSourceKey item = [] \<and> ri_TransitionSourceKey item' \<noteq> [] \<and> delta' = delta\<lparr>tc_attempts := 1\<rparr>"
  using assms by (auto simp: attach_transition_def Let_def item_key_def split: if_split_asm option.splits)

text \<open>One applied request changes one item and the totals of at most one transition.\<close>

definition item_step :: "string \<Rightarrow> RadioItem \<Rightarrow> RadioItem \<Rightarrow> transition_counts \<Rightarrow> radio_db \<Rightarrow> radio_db \<Rightarrow> bool" where
  "item_step u old new delta db db' \<longleftrightarrow>
     ri_ID new = ri_ID old \<and> ri_SessionID new = ri_SessionID old \<and> item_key new = item_key old
     \<and> rd_items db' = updateRadioItemTx new (rd_items db) \<and> rd_sessions db' = rd_sessions db
     \<and> (\<forall>u' s t. transition_totals db' u' s t =
          (if ri_TransitionSourceKey new \<noteq> [] \<and> (u', s, t) = (u, ri_TransitionSourceKey new, item_key new)
           then add_counts (transition_totals db u' s t) delta else transition_totals db u' s t))
     \<and> (\<forall>u' t. rd_transitions db (u', [], t) = None \<longrightarrow> rd_transitions db' (u', [], t) = None)
     \<and> counts_progress (ri_PlaybackOutcome old) (ri_PlaybackOutcome new) delta
     \<and> (ri_TransitionSourceKey new = ri_TransitionSourceKey old \<and> tc_attempts delta = 0
        \<or> ri_TransitionSourceKey old = [] \<and> ri_TransitionSourceKey new \<noteq> [] \<and> tc_attempts delta = 1)"

lemma feedback_item_simps [simp]:
  "ri_ID (feedback_item req now item) = ri_ID item" "ri_SessionID (feedback_item req now item) = ri_SessionID item"
  "ri_PlaybackOutcome (feedback_item req now item) = ri_PlaybackOutcome item"
  "ri_TransitionSourceKey (feedback_item req now item) = ri_TransitionSourceKey item"
  "ri_RecordingMBID (feedback_item req now item) = ri_RecordingMBID item" "ri_MediaFileID (feedback_item req now item) = ri_MediaFileID item"
  by (simp_all add: feedback_item_def)

lemma fresh_feedback_step:
  assumes "fresh_feedback u sid req now item db = Inr (r, db')"
  shows "\<exists>new delta. item_step u item new delta db db'"
proof -
  let ?item1 = "feedback_item req now item"
  obtain outcome applied delta where out:
    "radioPlaybackOutcome (ri_PlaybackOutcome item) (fr_Event req) (ri_ListenedMS ?item1) (ri_DurationMS ?item1) = (outcome, applied, delta)"
    by (metis prod_cases3)
  let ?item1' = "if applied then ?item1\<lparr>ri_PlaybackOutcome := outcome\<rparr> else ?item1"
  obtain item2 delta2 sf tf where att: "attach_transition sid req (rd_items db) ?item1' delta = (item2, delta2, sf, tf)"
    by (metis prod_cases4)
  let ?item3 = "item2\<lparr>ri_UpdatedAt := now\<rparr>"
  let ?db1 = "db\<lparr>rd_items := updateRadioItemTx ?item3 (rd_items db)\<rparr>"
  let ?db2 = "count_transition u ?item3 delta2 sf tf now ?db1"
  let ?db3 = "count_track u ?item3 applied now ?db2"
  obtain d db4 where disc: "discovery_feedback u req ?item3 applied now ?db3 = Inr (d, db4)" and db': "db' = record_event u sid req db4"
    using assms unfolding fresh_feedback_def Let_def by (simp add: out att split: sum.split_asm prod.split_asm)
  note frame = discovery_feedback_frame [OF disc]
  have fields: "ri_ID ?item1' = ri_ID item" "ri_SessionID ?item1' = ri_SessionID item" "item_key ?item1' = item_key item"
    "ri_TransitionSourceKey ?item1' = ri_TransitionSourceKey item"
    by (simp_all add: item_key_def)
  have outcome: "ri_PlaybackOutcome ?item1' = outcome"
    using radioPlaybackOutcome_progress(1) [OF out] by simp
  note zero = radioPlaybackOutcome_progress(2) [OF out]
  note facts = attach_transition_facts [OF att zero]
  have "counts_progress (ri_PlaybackOutcome item) outcome delta2"
    using radioPlaybackOutcome_counts [OF out] facts(5) by (auto simp: counts_progress_def)
  moreover have "rd_transitions db (u', [], t) = None \<Longrightarrow> rd_transitions db' (u', [], t) = None" for u' t
    by (simp add: db' frame count_transition_def upsertRadioTransitionTx_def Let_def)
  moreover have "transition_totals db' u' s t =
      (if ri_TransitionSourceKey ?item3 \<noteq> [] \<and> (u', s, t) = (u, ri_TransitionSourceKey ?item3, item_key ?item3)
       then add_counts (transition_totals db u' s t) delta2 else transition_totals db u' s t)" for u' s t
  proof -
    have "transition_totals db' u' s t = transition_totals ?db2 u' s t" by (simp add: transition_totals_def db' frame)
    moreover have "transition_totals ?db1 u' s t = transition_totals db u' s t" by (simp add: transition_totals_def)
    ultimately show ?thesis by (simp only: count_transition_totals)
  qed
  moreover have "item_key ?item3 = item_key item" using facts(3) fields(3) by (simp add: item_key_def)
  moreover have "rd_items db' = updateRadioItemTx ?item3 (rd_items db)" "rd_sessions db' = rd_sessions db" by (simp_all add: db' frame)
  moreover have "ri_PlaybackOutcome ?item3 = outcome" "ri_ID ?item3 = ri_ID item" "ri_SessionID ?item3 = ri_SessionID item"
    using facts(1,2,4) fields(1,2) outcome by simp_all
  moreover have "ri_TransitionSourceKey ?item3 = ri_TransitionSourceKey item \<and> tc_attempts delta2 = 0
      \<or> ri_TransitionSourceKey item = [] \<and> ri_TransitionSourceKey ?item3 \<noteq> [] \<and> tc_attempts delta2 = 1"
    using facts(5) fields(4) zero by auto
  ultimately have "item_step u item ?item3 delta2 db db'"
    unfolding item_step_def by (simp only: simp_thms) blast
  then show ?thesis by blast
qed

lemma item_step_count:
  assumes "item_step u old new delta db db'" "distinct (map ri_ID (rd_items db))" "old \<in> set (rd_items db)"
  shows "outcome_count db' u' s t C + as_nat (in_transition db u' s t old \<and> C (ri_PlaybackOutcome old))
    = outcome_count db u' s t C + as_nat (in_transition db u' s t new \<and> C (ri_PlaybackOutcome new))"
proof -
  have "in_transition db' = in_transition db" "rd_items db' = updateRadioItemTx new (rd_items db)" "ri_ID new = ri_ID old"
    using assms(1) by (auto simp: item_step_def in_transition_def fun_eq_iff)
  then show ?thesis using filter_update_count [OF assms(2,3)] by (simp add: outcome_count_def)
qed

lemma item_step_totals:
  assumes step: "item_step u old new delta db db'" and items: "distinct (map ri_ID (rd_items db))" "old \<in> set (rd_items db)"
    and user: "rd_sessions db (ri_SessionID old) = Some u" and s: "s \<noteq> []"
    and ok: "totals_ok db u' s t (transition_totals db u' s t)"
  shows "totals_ok db' u' s t (transition_totals db' u' s t)"
proof -
  note count = item_step_count [OF step items, of u' s t]
  have new: "in_transition db u' s t new \<longleftrightarrow> (u', s, t) = (u, ri_TransitionSourceKey new, item_key new)"
    using step user by (auto simp: in_transition_def item_step_def)
  have source: "ri_TransitionSourceKey new = ri_TransitionSourceKey old \<and> tc_attempts delta = 0
      \<or> ri_TransitionSourceKey old = [] \<and> tc_attempts delta = 1"
    using step by (auto simp: item_step_def)
  have old: "in_transition db u' s t old \<longleftrightarrow> in_transition db u' s t new \<and> ri_TransitionSourceKey old = s"
    using step s by (auto simp: in_transition_def item_step_def)
  have totals: "transition_totals db' u' s t = (if in_transition db u' s t new then add_counts (transition_totals db u' s t) delta
      else transition_totals db u' s t)"
    using step s by (auto simp: item_step_def new)
  show ?thesis
  proof (cases "in_transition db u' s t new")
    case False
    then show ?thesis using ok count old totals by (simp add: totals_ok_def as_nat_def)
  next
    case True
    have progress: "counts_progress (ri_PlaybackOutcome old) (ri_PlaybackOutcome new) delta" using step by (simp add: item_step_def)
    have atts: "as_nat (in_transition db u' s t old) + tc_attempts delta = 1"
      using True source old s by (auto simp: as_nat_def in_transition_def)
    have grows: "outcome_count db u' s t C + n \<le> outcome_count db' u' s t C"
      if "as_nat (C (ri_PlaybackOutcome old)) + n \<le> as_nat (C (ri_PlaybackOutcome new))" for C n
      using count [of C] that True by (auto simp: as_nat_def split: if_splits)
    have "outcome_count db' u' s t (\<lambda>_. True) = outcome_count db u' s t (\<lambda>_. True) + tc_attempts delta"
      using count [of "\<lambda>_. True"] atts True by (simp add: as_nat_def split: if_splits)
    moreover have "outcome_count db u' s t past_accepted + tc_accepted delta \<le> outcome_count db' u' s t past_accepted"
      "outcome_count db u' s t past_completed + tc_completed delta \<le> outcome_count db' u' s t past_completed"
      "outcome_count db u' s t past_early + tc_earlySkip delta \<le> outcome_count db' u' s t past_early"
      "outcome_count db u' s t past_late + tc_neutralSkip delta \<le> outcome_count db' u' s t past_late"
      "outcome_count db u' s t past_keep + tc_keep delta \<le> outcome_count db' u' s t past_keep"
      using progress unfolding counts_progress_def by (intro grows; simp)+
    ultimately show ?thesis using ok True totals by (simp add: totals_ok_def add_counts_def)
  qed
qed

lemma find_item_facts:
  assumes "find_item u sid i db = Some item"
  shows "item \<in> set (rd_items db)" "ri_ID item = i" "ri_SessionID item = sid" "rd_sessions db (ri_SessionID item) = Some u"
  using assms by (auto simp: find_item_def find_Some_iff split: if_splits)

lemma fresh_feedback_inv:
  assumes inv: "radio_inv db" and item: "find_item u sid i db = Some item" and "fresh_feedback u sid req now item db = Inr (r, db')"
  shows "radio_inv db'"
proof -
  obtain new delta where step: "item_step u item new delta db db'" using fresh_feedback_step [OF assms(3)] by blast
  note facts = find_item_facts [OF item]
  have items: "rd_items db' = updateRadioItemTx new (rd_items db)" "rd_sessions db' = rd_sessions db" "ri_SessionID new = ri_SessionID item"
    using step by (simp_all add: item_step_def)
  have "\<forall>i \<in> set (rd_items db'). rd_sessions db' (ri_SessionID i) \<noteq> None"
    using inv items facts(4) updateRadioItemTx_set [of _ new "rd_items db"] by (fastforce simp: radio_inv_def)
  moreover have "totals_ok db' u' s t (transition_totals db' u' s t)" if "s \<noteq> []" for u' s t
    using item_step_totals [OF step _ facts(1,4) that] inv that by (simp add: radio_inv_def)
  moreover have "\<forall>u t. rd_transitions db' (u, [], t) = None" using inv step by (simp add: radio_inv_def item_step_def)
  ultimately show ?thesis using inv by (simp add: radio_inv_def items)
qed

lemma applyPlaybackFeedback_inv:
  assumes "radio_inv db" "applyPlaybackFeedback u sid req now db = Inr (r, db')"
  shows "radio_inv db'"
  using assms fresh_feedback_inv [OF assms(1), of u sid "fr_ItemID req"]
  by (auto simp: applyPlaybackFeedback_def split: option.splits if_splits)

lemma feedback_attempts_apply:
  "feedback_attempts n busy u sid req now db \<in> {Inl RadioBusy, applyPlaybackFeedback u sid req now db}"
  by (induction n) auto

lemma RecordPlaybackFeedback_apply:
  assumes "RecordPlaybackFeedback busy u sid req now db = Inr x"
  shows "applyPlaybackFeedback u sid req now db = Inr x"
  using assms feedback_attempts_apply [of radioFeedbackTries busy u sid req now db]
  by (auto simp: RecordPlaybackFeedback_def split: if_splits)

subsection \<open>Histories\<close>

lemma outcome_count_new_item:
  "ri_TransitionSourceKey item = [] \<Longrightarrow> s \<noteq> [] \<Longrightarrow>
    outcome_count (db\<lparr>rd_items := rd_items db @ [item]\<rparr>) u s t C = outcome_count db u s t C"
  by (simp add: outcome_count_def in_transition_def)

lemma insertRadioItem_inv:
  assumes "radio_inv db" "insertRadioItem item db = Some db'" "ri_TransitionSourceKey item = []"
  shows "radio_inv db'"
proof -
  have db': "db' = db\<lparr>rd_items := rd_items db @ [item]\<rparr>" "ri_ID item \<notin> ri_ID ` set (rd_items db)" "rd_sessions db (ri_SessionID item) \<noteq> None"
    using assms(2) by (auto simp: insertRadioItem_def list_ex_iff split: if_splits)
  have "totals_ok db' u s t c = totals_ok db u s t c" if "s \<noteq> []" for u s t c
    using outcome_count_new_item [OF assms(3) that] by (simp add: totals_ok_def db'(1))
  then show ?thesis using assms(1) db' by (simp add: radio_inv_def transition_totals_def)
qed

lemma insert_items_inv:
  "radio_inv db \<Longrightarrow> insert_items items db = Some db' \<Longrightarrow> \<forall>i \<in> set items. ri_TransitionSourceKey i = [] \<Longrightarrow> radio_inv db'"
  by (induction items arbitrary: db) (auto split: option.splits intro: insertRadioItem_inv)

lemma new_session_inv:
  assumes "radio_inv db" "rd_sessions db sid = None"
  shows "radio_inv (db\<lparr>rd_sessions := (rd_sessions db)(sid \<mapsto> u)\<rparr>)"
proof -
  let ?db' = "db\<lparr>rd_sessions := (rd_sessions db)(sid \<mapsto> u)\<rparr>"
  have "in_transition ?db' u' s t i = in_transition db u' s t i" if "i \<in> set (rd_items db)" for u' s t i
    using assms that by (auto simp: in_transition_def radio_inv_def)
  then have "outcome_count ?db' u' s t C = outcome_count db u' s t C" for u' s t C
    by (auto simp: outcome_count_def intro!: arg_cong [where f = length] filter_cong)
  then show ?thesis using assms by (auto simp: radio_inv_def totals_ok_def transition_totals_def)
qed

datatype radio_op =
    OpCreateSession string string "RadioItem list"
  | OpAppendItems string "RadioItem list"
  | OpFeedback "nat \<Rightarrow> bool" string string FeedbackRequest Time
  | OpUpsertDiscovery DiscoveryTrack
  | OpDeleteDiscovery "string \<Rightarrow> bool" "string \<Rightarrow> bool option" Time DiscoveryTrack

fun radio_step :: "radio_op \<Rightarrow> radio_db \<Rightarrow> radio_db" where
  "radio_step (OpCreateSession sid u items) db = (case CreateSession sid u items db of None \<Rightarrow> db | Some db' \<Rightarrow> db')"
| "radio_step (OpAppendItems sid items) db = (case AppendItems sid items db of None \<Rightarrow> db | Some db' \<Rightarrow> db')"
| "radio_step (OpFeedback busy u sid req now) db = (case RecordPlaybackFeedback busy u sid req now db of Inl _ \<Rightarrow> db | Inr (_, db') \<Rightarrow> db')"
| "radio_step (OpUpsertDiscovery track) db = UpsertDiscovery track db"
| "radio_step (OpDeleteDiscovery starred remove now track) db = snd (deleteDiscovery starred remove now track db)"

text \<open>The service makes items without a transition; only feedback gives them one.\<close>

fun op_fresh :: "radio_op \<Rightarrow> bool" where
  "op_fresh (OpCreateSession sid u items) = (\<forall>i \<in> set items. ri_TransitionSourceKey i = [])"
| "op_fresh (OpAppendItems sid items) = (\<forall>i \<in> set items. ri_TransitionSourceKey i = [])"
| "op_fresh _ = True"

definition empty_radio_db :: radio_db where
  "empty_radio_db = \<lparr>rd_sessions = Map.empty, rd_items = [], rd_discoveries = [], rd_tracks = Map.empty, rd_transitions = Map.empty,
     rd_events = Map.empty\<rparr>"

lemma radio_inv_discoveries [simp]: "radio_inv (db\<lparr>rd_discoveries := ds\<rparr>) = radio_inv db"
  by (simp add: radio_inv_def totals_ok_def transition_totals_def outcome_count_def in_transition_def)

lemma UpsertDiscovery_frame: "\<exists>ds. UpsertDiscovery track db = db\<lparr>rd_discoveries := ds\<rparr>"
  by (auto simp: UpsertDiscovery_def)

lemma deleteDiscovery_frame: "\<exists>ds. snd (deleteDiscovery starred remove now track db) = db\<lparr>rd_discoveries := ds\<rparr>"
proof -
  have "\<exists>ds. db = db\<lparr>rd_discoveries := ds\<rparr>" by (rule exI [of _ "rd_discoveries db"]) simp
  then show ?thesis by (auto simp: deleteDiscovery_def split: option.split)
qed

lemma radio_step_inv:
  assumes "radio_inv db" "op_fresh op"
  shows "radio_inv (radio_step op db)"
proof (cases op)
  case (OpCreateSession sid u items)
  then show ?thesis
    using assms insert_items_inv [OF new_session_inv [OF assms(1), of sid u]] by (auto simp: CreateSession_def split: option.split)
next
  case (OpAppendItems sid items)
  then show ?thesis using assms insert_items_inv [OF assms(1)] by (auto simp: AppendItems_def split: option.split)
next
  case (OpFeedback busy u sid req now)
  then show ?thesis
    using assms(1) applyPlaybackFeedback_inv [OF assms(1) RecordPlaybackFeedback_apply] by (auto split: sum.split)
next
  case (OpUpsertDiscovery track)
  then show ?thesis using assms(1) UpsertDiscovery_frame [of track db] by auto
next
  case (OpDeleteDiscovery starred remove now track)
  then show ?thesis using assms(1) deleteDiscovery_frame [of starred remove now track db] by auto
qed

lemma radio_inv_empty: "radio_inv empty_radio_db"
  by (simp add: radio_inv_def empty_radio_db_def totals_ok_def transition_totals_def outcome_count_def no_counts_def)

lemma radio_steps_inv: "radio_inv db \<Longrightarrow> \<forall>op \<in> set ops. op_fresh op \<Longrightarrow> radio_inv (fold radio_step ops db)"
  by (induction ops arbitrary: db) (auto intro: radio_step_inv)

lemma outcome_count_mono: "outcome_count db u s t C \<le> outcome_count db u s t (\<lambda>_. True)"
proof -
  have "filter (\<lambda>i. in_transition db u s t i \<and> C (ri_PlaybackOutcome i)) (rd_items db)
      = filter (\<lambda>i. C (ri_PlaybackOutcome i)) (filter (\<lambda>i. in_transition db u s t i) (rd_items db))"
    by (simp add: conj_commute)
  then show ?thesis unfolding outcome_count_def by (metis (mono_tags, lifting) filter_cong length_filter_le)
qed

text \<open>C19: What the radio learns of a transition is at most what was played: after any history of sessions and feedback each transition
  was attempted exactly once per item that was started after its source, and no outcome is counted more often than that.\<close>

theorem transition_counts_bounded:
  assumes "\<forall>op \<in> set ops. op_fresh op" "rd_transitions (fold radio_step ops empty_radio_db) (u, s, t) = Some r"
  shows "tc_attempts (rt_counts r) = length (filter (in_transition (fold radio_step ops empty_radio_db) u s t)
      (rd_items (fold radio_step ops empty_radio_db)))
    \<and> tc_accepted (rt_counts r) \<le> tc_attempts (rt_counts r) \<and> tc_completed (rt_counts r) \<le> tc_attempts (rt_counts r)
    \<and> tc_earlySkip (rt_counts r) \<le> tc_attempts (rt_counts r) \<and> tc_neutralSkip (rt_counts r) \<le> tc_attempts (rt_counts r)
    \<and> tc_keep (rt_counts r) \<le> tc_attempts (rt_counts r)"
proof -
  let ?db = "fold radio_step ops empty_radio_db"
  have inv: "radio_inv ?db" by (rule radio_steps_inv [OF radio_inv_empty assms(1)])
  then have "s \<noteq> []" using assms(2) by (auto simp: radio_inv_def)
  then have "totals_ok ?db u s t (rt_counts r)" using inv assms(2) by (auto simp: radio_inv_def transition_totals_def split: option.splits)
  then show ?thesis
    using outcome_count_mono [of ?db u s t past_accepted] outcome_count_mono [of ?db u s t past_completed]
      outcome_count_mono [of ?db u s t past_early] outcome_count_mono [of ?db u s t past_late] outcome_count_mono [of ?db u s t past_keep]
    by (simp add: totals_ok_def) (simp add: outcome_count_def)
qed

subsection \<open>Replays\<close>

text \<open>What no operation takes away: recorded events, items and sessions.\<close>

definition radio_grows :: "radio_db \<Rightarrow> radio_db \<Rightarrow> bool" where
  "radio_grows db db' \<longleftrightarrow>
     rd_events db \<subseteq>\<^sub>m rd_events db' \<and> rd_sessions db \<subseteq>\<^sub>m rd_sessions db'
     \<and> (\<lambda>i. (ri_ID i, ri_SessionID i)) ` set (rd_items db) \<subseteq> (\<lambda>i. (ri_ID i, ri_SessionID i)) ` set (rd_items db')"

lemma radio_grows_refl [simp]: "radio_grows db db"
  by (simp add: radio_grows_def)

lemma radio_grows_trans: "radio_grows db db1 \<Longrightarrow> radio_grows db1 db2 \<Longrightarrow> radio_grows db db2"
  unfolding radio_grows_def by (meson map_le_trans order_trans)

lemma fresh_feedback_events:
  assumes "fresh_feedback u sid req now item db = Inr (r, db')"
  shows "rd_events db' = (if fr_EventID req \<noteq> [] then (rd_events db)((u, fr_EventID req) \<mapsto> (sid, req)) else rd_events db)"
proof -
  obtain db4 where "rd_events db4 = rd_events db" "db' = record_event u sid req db4"
    using assms unfolding fresh_feedback_def Let_def
    by (auto split: prod.splits sum.splits dest!: discovery_feedback_frame(4))
  then show ?thesis by (simp add: record_event_def)
qed

lemma item_step_ids:
  assumes "item_step u old new delta db db'" "distinct (map ri_ID (rd_items db))" "old \<in> set (rd_items db)"
  shows "(\<lambda>i. (ri_ID i, ri_SessionID i)) ` set (rd_items db') = (\<lambda>i. (ri_ID i, ri_SessionID i)) ` set (rd_items db)"
proof -
  have eq: "(ri_ID i, ri_SessionID i) = (ri_ID new, ri_SessionID new)" if "i \<in> set (rd_items db)" "ri_ID i = ri_ID new" for i
    using assms that by (metis distinct_map inj_onD item_step_def)
  have "map (\<lambda>i. (ri_ID i, ri_SessionID i)) (updateRadioItemTx new (rd_items db)) = map (\<lambda>i. (ri_ID i, ri_SessionID i)) (rd_items db)"
    using eq by (auto simp: updateRadioItemTx_def)
  then have "set (map (\<lambda>i. (ri_ID i, ri_SessionID i)) (updateRadioItemTx new (rd_items db))) = set (map (\<lambda>i. (ri_ID i, ri_SessionID i)) (rd_items db))"
    by (rule arg_cong)
  then show ?thesis using assms(1) by (simp add: item_step_def)
qed

lemma applyPlaybackFeedback_grows:
  assumes inv: "radio_inv db" and "applyPlaybackFeedback u sid req now db = Inr (r, db')"
  shows "radio_grows db db' \<and> (fr_EventID req \<noteq> [] \<longrightarrow> rd_events db' (u, fr_EventID req) = Some (sid, req))
    \<and> (fr_ItemID req, sid) \<in> (\<lambda>i. (ri_ID i, ri_SessionID i)) ` set (rd_items db') \<and> rd_sessions db' sid = Some u"
proof -
  obtain item where item: "find_item u sid (fr_ItemID req) db = Some item"
    using assms(2) by (auto simp: applyPlaybackFeedback_def split: option.splits)
  note facts = find_item_facts [OF item]
  show ?thesis
  proof (cases "fr_EventID req \<noteq> [] \<and> rd_events db (u, fr_EventID req) \<noteq> None")
    case True
    then have "rd_events db (u, fr_EventID req) = Some (sid, req)" "db' = db"
      using assms(2) item by (auto simp: applyPlaybackFeedback_def split: if_splits)
    then show ?thesis using facts by (auto intro: image_eqI [where x = item])
  next
    case False
    then have "(if fr_EventID req \<noteq> [] then rd_events db (u, fr_EventID req) else None) = None" by meson
    then have fresh: "fresh_feedback u sid req now item db = Inr (r, db')"
      using assms(2) item unfolding applyPlaybackFeedback_def by (simp only: option.case)
    obtain new delta where step: "item_step u item new delta db db'" using fresh_feedback_step [OF fresh] by blast
    have "distinct (map ri_ID (rd_items db))" using inv by (simp add: radio_inv_def)
    note ids = item_step_ids [OF step this facts(1)]
    have "rd_events db \<subseteq>\<^sub>m rd_events db'" using False fresh_feedback_events [OF fresh] by (auto simp: map_le_def)
    moreover have "rd_sessions db' = rd_sessions db" using step by (simp add: item_step_def)
    ultimately show ?thesis using facts fresh_feedback_events [OF fresh] ids
      by (auto simp: radio_grows_def intro: image_eqI [where x = item])
  qed
qed

lemma insert_items_grows: "insert_items items db = Some db' \<Longrightarrow> radio_grows db db'"
proof (induction items arbitrary: db)
  case (Cons item items)
  then obtain db1 where db1: "insertRadioItem item db = Some db1" "insert_items items db1 = Some db'"
    by (auto split: option.splits)
  have "radio_grows db db1" using db1(1) by (auto simp: insertRadioItem_def radio_grows_def split: if_splits)
  then show ?case using Cons.IH [OF db1(2)] by (rule radio_grows_trans)
qed simp

lemma radio_step_grows: "radio_inv db \<Longrightarrow> radio_grows db (radio_step op db)"
proof (cases op)
  case (OpCreateSession sid u items)
  have "radio_grows db (db\<lparr>rd_sessions := (rd_sessions db)(sid \<mapsto> u)\<rparr>)" if "rd_sessions db sid = None"
    using that by (auto simp: radio_grows_def map_le_def)
  then show ?thesis
    using OpCreateSession by (auto simp: CreateSession_def split: option.split intro: radio_grows_trans insert_items_grows)
next
  case (OpAppendItems sid items)
  then show ?thesis by (auto simp: AppendItems_def split: option.split intro: insert_items_grows)
next
  case (OpFeedback busy u sid req now)
  then show "radio_inv db \<Longrightarrow> ?thesis"
    using applyPlaybackFeedback_grows [OF _ RecordPlaybackFeedback_apply] by (fastforce split: sum.split)
next
  case (OpUpsertDiscovery track)
  then show ?thesis using UpsertDiscovery_frame [of track db] by (auto simp: radio_grows_def)
next
  case (OpDeleteDiscovery starred remove now track)
  then show ?thesis using deleteDiscovery_frame [of starred remove now track db] by (auto simp: radio_grows_def)
qed

lemma radio_steps_grow: "radio_inv db \<Longrightarrow> \<forall>op \<in> set ops. op_fresh op \<Longrightarrow> radio_grows db (fold radio_step ops db)"
proof (induction ops arbitrary: db)
  case (Cons op ops)
  then have "radio_grows db (radio_step op db)" by (simp add: radio_step_grows)
  moreover have "radio_grows (radio_step op db) (fold radio_step ops (radio_step op db))"
    using Cons by (simp add: radio_step_inv)
  ultimately show ?case using radio_grows_trans by simp
qed simp

text \<open>C17: Feedback counts once: after a request with an event id has succeeded, and whatever happened since, repeating it is answered as a
  duplicate without any effect, or as busy when the database is locked at every try, and any other request of the user under the same
  event id fails.\<close>

theorem feedback_counts_once:
  assumes "\<forall>op \<in> set (before @ after). op_fresh op"
    and "RecordPlaybackFeedback busy u sid req now (fold radio_step before empty_radio_db) = Inr (r, db1)" "fr_EventID req \<noteq> []"
    and "db2 = fold radio_step after db1"
  shows "(RecordPlaybackFeedback busy' u sid req now' db2 = Inl RadioBusy
      \<or> (\<exists>item. RecordPlaybackFeedback busy' u sid req now' db2
            = Inr (\<lparr>fb_Item = item, fb_Applied = False, fb_Duplicate = True, fb_DiscoveryToDelete = None\<rparr>, db2)))
    \<and> (fr_EventID req' = fr_EventID req \<and> (sid' \<noteq> sid \<or> req' \<noteq> req) \<longrightarrow> (\<exists>e. RecordPlaybackFeedback busy' u sid' req' now' db2 = Inl e))"
proof -
  let ?db = "fold radio_step before empty_radio_db"
  have inv: "radio_inv ?db" by (rule radio_steps_inv [OF radio_inv_empty]) (use assms(1) in auto)
  note first = RecordPlaybackFeedback_apply [OF assms(2)]
  have "radio_grows db1 db2"
    unfolding assms(4) by (rule radio_steps_grow [OF applyPlaybackFeedback_inv [OF inv first]]) (use assms(1) in auto)
  moreover note applyPlaybackFeedback_grows [OF inv first]
  ultimately have event: "rd_events db2 (u, fr_EventID req) = Some (sid, req)"
    and ids: "(fr_ItemID req, sid) \<in> (\<lambda>i. (ri_ID i, ri_SessionID i)) ` set (rd_items db2)" and user: "rd_sessions db2 sid = Some u"
    using assms(3) by (auto simp: radio_grows_def map_le_def dom_def)
  obtain item where "find (\<lambda>i. ri_ID i = fr_ItemID req \<and> ri_SessionID i = sid) (rd_items db2) = Some item"
    using ids by (cases "find (\<lambda>i. ri_ID i = fr_ItemID req \<and> ri_SessionID i = sid) (rd_items db2)") (auto simp: find_None_iff)
  then have again: "applyPlaybackFeedback u sid req now' db2
      = Inr (\<lparr>fb_Item = item, fb_Applied = False, fb_Duplicate = True, fb_DiscoveryToDelete = None\<rparr>, db2)"
    using event user assms(3) by (simp add: applyPlaybackFeedback_def find_item_def)
  have "length (fr_EventID req) \<le> 255" using assms(2) by (auto simp: RecordPlaybackFeedback_def split: if_splits)
  then have "RecordPlaybackFeedback busy' u sid req now' db2 = Inl RadioBusy
      \<or> (\<exists>item. RecordPlaybackFeedback busy' u sid req now' db2
            = Inr (\<lparr>fb_Item = item, fb_Applied = False, fb_Duplicate = True, fb_DiscoveryToDelete = None\<rparr>, db2))"
    using feedback_attempts_apply [of radioFeedbackTries busy' u sid req now' db2] again by (auto simp: RecordPlaybackFeedback_def)
  moreover have "fr_EventID req' = fr_EventID req \<and> (sid' \<noteq> sid \<or> req' \<noteq> req) \<longrightarrow> (\<exists>e. RecordPlaybackFeedback busy' u sid' req' now' db2 = Inl e)"
  proof
    assume other: "fr_EventID req' = fr_EventID req \<and> (sid' \<noteq> sid \<or> req' \<noteq> req)"
    then have "\<exists>e. applyPlaybackFeedback u sid' req' now' db2 = Inl e"
      using event assms(3) by (auto simp: applyPlaybackFeedback_def split: option.splits)
    then show "\<exists>e. RecordPlaybackFeedback busy' u sid' req' now' db2 = Inl e"
      using feedback_attempts_apply [of radioFeedbackTries busy' u sid' req' now' db2] by (auto simp: RecordPlaybackFeedback_def)
  qed
  ultimately show ?thesis by blast
qed

subsection \<open>Files of downloaded recordings\<close>

text \<open>The file of a recording that is kept is not removed, whichever row a pending deletion holds.\<close>

lemma kept_file_stays:
  assumes "d \<in> set (rd_discoveries db)" "dt_State d = DiscoveryKept" "dt_MediaFileID d \<noteq> []"
  shows "fst (deleteDiscovery starred remove now track db) \<noteq> Some (dt_MediaFileID d)"
  using assms by (auto simp: deleteDiscovery_def IsMediaFileProtected_def list_ex_iff split: option.split)

lemma starred_file_stays:
  "starred f \<Longrightarrow> fst (deleteDiscovery starred remove now track db) \<noteq> Some f"
  by (auto simp: deleteDiscovery_def IsMediaFileProtected_def split: option.split)

lemma merge_discovery_keeps: "dt_State d = DiscoveryKept \<Longrightarrow> dt_State (merge_discovery track d) = DiscoveryKept"
  "dt_ID (merge_discovery track d) = dt_ID d"
  by (simp_all add: merge_discovery_def)

lemma UpsertDiscovery_keeps:
  assumes "d \<in> set (rd_discoveries db)" "dt_State d = DiscoveryKept"
  shows "\<exists>d' \<in> set (rd_discoveries (UpsertDiscovery track db)). dt_ID d' = dt_ID d \<and> dt_State d' = DiscoveryKept"
  using assms merge_discovery_keeps(1) [of d track] merge_discovery_keeps(2) [of track d]
  by (auto simp: UpsertDiscovery_def intro!: bexI [of _ d])

text \<open>A recording that was kept because it was played again loses that when the same play is then skipped early: its file is given up.\<close>

lemma early_skip_unkeeps:
  "case discovery_event RadioFeedbackStarted False RadioPlaybackStarted d of
     (d', _, _) \<Rightarrow> dt_PlayStarts d \<ge> 1 \<longrightarrow> dt_State d' = DiscoveryKept
       \<and> (case discovery_event RadioFeedbackManualSkip True RadioPlaybackEarlySkip d' of
            (d'', update, gone) \<Rightarrow> dt_State d'' = DiscoveryDeletePending \<and> update \<and> gone)"
  by (simp add: discovery_event_def keep_discovery_def Let_def)

subsection \<open>An example\<close>

definition radio_example_item :: "string \<Rightarrow> int \<Rightarrow> RadioItem" where
  "radio_example_item i pos = \<lparr>ri_ID = i, ri_SessionID = ''s'', ri_Position = pos, ri_ItemType = ''library'', ri_Status = ''ready'', ri_MediaFileID = i,
     ri_RecordingMBID = [], ri_DownloadJobID = [], ri_PlaybackOutcome = [], ri_ListenedMS = 0, ri_DurationMS = 0,
     ri_TransitionSourceItemID = [], ri_TransitionSourceKey = [], ri_LastFeedbackAt = None, ri_UpdatedAt = 0\<rparr>"

definition radio_example_request :: "string \<Rightarrow> string \<Rightarrow> string \<Rightarrow> FeedbackRequest" where
  "radio_example_request e i event = \<lparr>fr_EventID = e, fr_ItemID = i, fr_Event = event, fr_ListenedMS = 60000, fr_DurationMS = 200000\<rparr>"

definition radio_example_ops :: "radio_op list" where
  "radio_example_ops =
     [OpCreateSession ''s'' ''u'' [radio_example_item ''a'' 0, radio_example_item ''b'' 1],
      OpFeedback (\<lambda>_. False) ''u'' ''s'' (radio_example_request ''1'' ''a'' ''started'') 1,
      OpFeedback (\<lambda>_. False) ''u'' ''s'' (radio_example_request ''2'' ''a'' ''threshold_reached'') 2,
      OpFeedback (\<lambda>_. False) ''u'' ''s'' (radio_example_request ''3'' ''b'' ''started'') 3,
      OpFeedback (\<lambda>_. False) ''u'' ''s'' (radio_example_request ''4'' ''b'' ''manual_skip'') 4]"

lemma radio_example_fresh: "\<forall>op \<in> set radio_example_ops. op_fresh op"
  by (simp add: radio_example_ops_def radio_example_item_def)

lemma radio_example_counts:
  "map_option rt_counts (rd_transitions (fold radio_step radio_example_ops empty_radio_db) (''u'', ''media:a'', ''media:b''))
    = Some \<lparr>tc_attempts = 1, tc_accepted = 0, tc_completed = 0, tc_earlySkip = 0, tc_neutralSkip = 1, tc_keep = 0\<rparr>"
  by code_simp

theorem transition_counts_bounded_witness:
  "\<exists>r. rd_transitions (fold radio_step radio_example_ops empty_radio_db) (''u'', ''media:a'', ''media:b'') = Some r
     \<and> tc_neutralSkip (rt_counts r) = 1 \<and> tc_neutralSkip (rt_counts r) \<le> tc_attempts (rt_counts r)"
proof -
  obtain r where r: "rd_transitions (fold radio_step radio_example_ops empty_radio_db) (''u'', ''media:a'', ''media:b'') = Some r"
      "rt_counts r = \<lparr>tc_attempts = 1, tc_accepted = 0, tc_completed = 0, tc_earlySkip = 0, tc_neutralSkip = 1, tc_keep = 0\<rparr>"
    using radio_example_counts by auto
  with transition_counts_bounded [OF radio_example_fresh r(1)] show ?thesis by simp
qed

definition radio_replay_db :: radio_db where
  "radio_replay_db = fold radio_step radio_example_ops empty_radio_db"

lemma radio_example_first:
  "case RecordPlaybackFeedback (\<lambda>_. False) ''u'' ''s'' (radio_example_request ''5'' ''b'' ''keep'') 5 radio_replay_db of
     Inl _ \<Rightarrow> False | Inr (r, db) \<Rightarrow> fb_Applied r"
  by code_simp

theorem feedback_counts_once_witness:
  "\<exists>r db1 item. RecordPlaybackFeedback (\<lambda>_. False) ''u'' ''s'' (radio_example_request ''5'' ''b'' ''keep'') 5 radio_replay_db = Inr (r, db1)
     \<and> (RecordPlaybackFeedback (\<lambda>n. n > 2) ''u'' ''s'' (radio_example_request ''5'' ''b'' ''keep'') 9 db1 = Inl RadioBusy
        \<or> RecordPlaybackFeedback (\<lambda>n. n > 2) ''u'' ''s'' (radio_example_request ''5'' ''b'' ''keep'') 9 db1
            = Inr (\<lparr>fb_Item = item, fb_Applied = False, fb_Duplicate = True, fb_DiscoveryToDelete = None\<rparr>, db1))"
proof -
  obtain r db1 where first: "RecordPlaybackFeedback (\<lambda>_. False) ''u'' ''s'' (radio_example_request ''5'' ''b'' ''keep'') 5 radio_replay_db = Inr (r, db1)"
    using radio_example_first by (auto split: sum.splits)
  have "\<forall>op \<in> set (radio_example_ops @ []). op_fresh op" using radio_example_fresh by simp
  from feedback_counts_once [OF this first [unfolded radio_replay_db_def], of db1 "\<lambda>n. n > 2" 9]
  show ?thesis using first by (auto simp: radio_example_request_def)
qed

end
