(* ===== verification/Radio_Composition.thy ===== *)
theory Radio_Composition
  imports Radio_Feedback Music_Search
begin

text \<open>
  \<open>core/personalradio/composition.go\<close> and the composition of \<open>related.go\<close>: which of the ranked candidates fill the free slots of a radio
  queue. Scores, ratios and penalties are exact rationals; the code computes them in binary floating point, where a product such as
  \<open>0.35 * 180\<close> may come out just below the exact one.
\<close>

subsection \<open>The data\<close>

definition NormalizeRadioMode :: "string \<Rightarrow> string" where
  "NormalizeRadioMode value =
     (let m = to_lower (trim_space value) in if m \<in> {''familiar'', ''discover'', ''related''} then m else ''balanced'')"

definition discoveryRatioForRadioMode :: "string \<Rightarrow> rat" where
  "discoveryRatioForRadioMode mode =
     (if NormalizeRadioMode mode = ''familiar'' then 15/100 else if NormalizeRadioMode mode = ''discover'' then 70/100 else 35/100)"

record rankedRadioCandidate =
  rc_Key :: string
  rc_Score :: rat
  rc_RankedTransition :: rat
  rc_TransitionAffinity :: rat
  rc_MediaFile :: MediaFile
  rc_isDiscovery :: bool
  rc_source :: string
  rc_replayPosition :: int
  rc_replayTime :: Time
  rc_replayEarlySkipped :: bool

record activeItem =
  ai_ItemType :: string
  ai_Status :: string
  ai_Song :: "MediaFile option"

record radioCompositionOptions =
  ro_Mode :: string
  ro_Slots :: int
  ro_Active :: "activeItem list"
  ro_SeedActive :: bool
  ro_HasDownloading :: bool
  ro_ReadyLibraryFloor :: int

definition normalizeCompositionValue :: "string \<Rightarrow> string" where
  "normalizeCompositionValue value = to_lower (join '' '' (Music_Search.fields value))"

text \<open>The running counts of a batch.\<close>

record radio_state =
  rs_discoveries :: nat
  rs_locals :: nat
  rs_readyLibrary :: nat
  rs_artists :: "string \<Rightarrow> nat"
  rs_albums :: "string \<Rightarrow> nat"

definition count_name :: "string \<Rightarrow> (string \<Rightarrow> nat) \<Rightarrow> string \<Rightarrow> nat" where
  "count_name k counts = (if k \<noteq> [] then counts(k := Suc (counts k)) else counts)"

definition active_item :: "activeItem \<Rightarrow> bool" where
  "active_item i \<longleftrightarrow> \<not> (ai_ItemType i = ''seed'' \<or> ai_Status i = ''failed'' \<or> ai_Status i = ''played'')"

definition ready_library :: "activeItem \<Rightarrow> bool" where
  "ready_library i \<longleftrightarrow> ai_ItemType i = ''library'' \<and> ai_Status i = ''ready''"

definition count_song :: "(MediaFile \<Rightarrow> string) \<Rightarrow> activeItem \<Rightarrow> (string \<Rightarrow> nat) \<Rightarrow> string \<Rightarrow> nat" where
  "count_song name i counts = (case ai_Song i of None \<Rightarrow> counts | Some song \<Rightarrow> count_name (normalizeCompositionValue (name song)) counts)"

definition initial_state :: "activeItem list \<Rightarrow> radio_state" where
  "initial_state active =
     (let items = filter active_item active in
      \<lparr>rs_discoveries = 0, rs_locals = 0, rs_readyLibrary = length (filter ready_library items),
       rs_artists = fold (count_song mf_Artist) items (\<lambda>_. 0), rs_albums = fold (count_song mf_Album) items (\<lambda>_. 0)\<rparr>)"

definition activeTotal :: "activeItem list \<Rightarrow> nat" where
  "activeTotal active = length (filter active_item active)"

definition activeDiscovery :: "activeItem list \<Rightarrow> nat" where
  "activeDiscovery active = length (filter (\<lambda>i. active_item i \<and> ai_ItemType i = ''discovery'') active)"

definition ready_floor :: "radioCompositionOptions \<Rightarrow> int" where
  "ready_floor opts = (if ro_ReadyLibraryFloor opts \<le> 0 then 2 else ro_ReadyLibraryFloor opts)"

definition name_penalty :: "rat \<Rightarrow> string \<Rightarrow> (string \<Rightarrow> nat) \<Rightarrow> rat \<Rightarrow> rat \<Rightarrow> rat" where
  "name_penalty scale k counts base step =
     (if k \<noteq> [] \<and> counts k > 0 then scale * (base + step * (rat_of_nat (counts k) - 1)) else 0)"

definition candidateSelectionScore :: "rankedRadioCandidate \<Rightarrow> radio_state \<Rightarrow> rat" where
  "candidateSelectionScore c st =
     (let transition = (if rc_RankedTransition c = 0 then rc_TransitionAffinity c else rc_RankedTransition c);
          scale = (if transition > 75/100 then 25/100 else 1)
      in rc_Score c
         - name_penalty scale (normalizeCompositionValue (mf_Artist (rc_MediaFile c))) (rs_artists st) (85/100) (65/100)
         - name_penalty scale (normalizeCompositionValue (mf_Album (rc_MediaFile c))) (rs_albums st) (45/100) (35/100))"

definition hasRadioFallbackStage :: "rankedRadioCandidate list \<Rightarrow> string \<Rightarrow> bool" where
  "hasRadioFallbackStage cs stage \<longleftrightarrow> list_ex (\<lambda>c. rc_source c = stage) cs"

definition hasRadioCandidateOfType :: "rankedRadioCandidate list \<Rightarrow> bool \<Rightarrow> bool" where
  "hasRadioCandidateOfType cs discovery \<longleftrightarrow> list_ex (\<lambda>c. rc_isDiscovery c = discovery) cs"

subsection \<open>Picking the best candidate\<close>

text \<open>The index of the first candidate with the highest score among those admitted.\<close>

fun best_index :: "('a \<Rightarrow> bool) \<Rightarrow> ('a \<Rightarrow> rat) \<Rightarrow> nat \<Rightarrow> (nat \<times> rat) option \<Rightarrow> 'a list \<Rightarrow> (nat \<times> rat) option" where
  "best_index admit score i best [] = best"
| "best_index admit score i best (c # cs) =
     best_index admit score (Suc i)
       (if admit c \<and> (case best of None \<Rightarrow> True | Some (_, s) \<Rightarrow> score c > s) then Some (i, score c) else best) cs"

definition later_stage :: "bool \<Rightarrow> rankedRadioCandidate list \<Rightarrow> rankedRadioCandidate \<Rightarrow> bool" where
  "later_stage hasPreferred remaining c \<longleftrightarrow>
     rc_source c = ''exhaustiveFallback'' \<and> hasPreferred \<and> hasRadioFallbackStage remaining ''tasteFallback''"

text \<open>What the batch wants: \<open>needed\<close> discoveries in \<open>slots\<close>.\<close>

record radio_batch =
  rb_slots :: nat
  rb_needed :: nat
  rb_hasPreferred :: bool
  rb_hasDownloading :: bool
  rb_floor :: int

definition within_quota :: "radio_batch \<Rightarrow> radio_state \<Rightarrow> rankedRadioCandidate list \<Rightarrow> rankedRadioCandidate \<Rightarrow> bool" where
  "within_quota b st remaining c \<longleftrightarrow>
     \<not> later_stage (rb_hasPreferred b) remaining c
     \<and> \<not> (rc_isDiscovery c \<and> rs_discoveries st \<ge> rb_needed b \<and> hasRadioCandidateOfType remaining False)
     \<and> \<not> (\<not> rc_isDiscovery c \<and> rs_locals st \<ge> rb_slots b - rb_needed b \<and> hasRadioCandidateOfType remaining True)
     \<and> \<not> (rc_isDiscovery c \<and> rb_hasDownloading b \<and> int (rs_readyLibrary st) < rb_floor b \<and> hasRadioCandidateOfType remaining False)"

definition pick_candidate :: "radio_batch \<Rightarrow> radio_state \<Rightarrow> rankedRadioCandidate list \<Rightarrow> nat option" where
  "pick_candidate b st remaining =
     (case best_index (within_quota b st remaining) (\<lambda>c. candidateSelectionScore c st) 0 None remaining of
        Some (k, _) \<Rightarrow> Some k
      | None \<Rightarrow> map_option fst
          (best_index (\<lambda>c. \<not> later_stage (rb_hasPreferred b) remaining c) (\<lambda>c. candidateSelectionScore c st) 0 None remaining))"

definition count_candidate :: "rankedRadioCandidate \<Rightarrow> radio_state \<Rightarrow> radio_state" where
  "count_candidate c st =
     \<lparr>rs_discoveries = (if rc_isDiscovery c then Suc (rs_discoveries st) else rs_discoveries st),
      rs_locals = (if rc_isDiscovery c then rs_locals st else Suc (rs_locals st)),
      rs_readyLibrary = (if \<not> rc_isDiscovery c \<and> mf_ID (rc_MediaFile c) \<noteq> [] then Suc (rs_readyLibrary st) else rs_readyLibrary st),
      rs_artists = count_name (normalizeCompositionValue (mf_Artist (rc_MediaFile c))) (rs_artists st),
      rs_albums = count_name (normalizeCompositionValue (mf_Album (rc_MediaFile c))) (rs_albums st)\<rparr>"

fun compose_loop :: "radio_batch \<Rightarrow> nat \<Rightarrow> radio_state \<Rightarrow> rankedRadioCandidate list \<Rightarrow> rankedRadioCandidate list" where
  "compose_loop b 0 st remaining = []"
| "compose_loop b (Suc n) st remaining =
     (case pick_candidate b st remaining of
        None \<Rightarrow> []
      | Some k \<Rightarrow> remaining ! k # compose_loop b n (count_candidate (remaining ! k) st) (remove_nth k remaining))"

text \<open>\<open>math.Round\<close> of a number that is not negative.\<close>

definition round_half_up :: "rat \<Rightarrow> int" where
  "round_half_up x = \<lfloor>x + 1/2\<rfloor>"

definition discoveryNeeded :: "radioCompositionOptions \<Rightarrow> nat" where
  "discoveryNeeded opts =
     (let desired = round_half_up (discoveryRatioForRadioMode (ro_Mode opts) * of_int (int (activeTotal (ro_Active opts)) + ro_Slots opts));
          needed = max 0 (desired - int (activeDiscovery (ro_Active opts)))
      in nat (if needed > ro_Slots opts then ro_Slots opts else needed))"

definition compose_balanced :: "rankedRadioCandidate list \<Rightarrow> radioCompositionOptions \<Rightarrow> rankedRadioCandidate list" where
  "compose_balanced candidates opts =
     (if ro_Slots opts \<le> 0 \<or> candidates = [] then []
      else
        let ordered = sort_key (\<lambda>c. - rc_Score c) (sort_key rc_Key candidates);
            b = \<lparr>rb_slots = nat (ro_Slots opts), rb_needed = discoveryNeeded opts, rb_hasPreferred = hasRadioFallbackStage ordered ''tasteFallback'',
                 rb_hasDownloading = ro_HasDownloading opts, rb_floor = ready_floor opts\<rparr>
        in compose_loop b (nat (ro_Slots opts)) (initial_state (ro_Active opts)) ordered)"

subsection \<open>Related radio\<close>

definition relatedSourceTier :: "string \<Rightarrow> nat" where
  "relatedSourceTier source =
     (if source = ''related_provider_strong'' then 1
      else if source = ''related_artist'' then 2
      else if source = ''related_local_close'' then 3
      else if source = ''related_provider_broad'' then 4
      else if source = ''related_local_family'' then 5
      else if source = ''related_artist_download'' then 6
      else if source = ''related_replay'' then 7
      else 8)"

definition relatedCandidateTier :: "rankedRadioCandidate \<Rightarrow> nat" where
  "relatedCandidateTier c =
     (if rc_source c = ''related_replay'' \<and> rc_replayEarlySkipped c then 8
      else if rc_isDiscovery c then 6 else relatedSourceTier (rc_source c))"

definition relatedReplayOlder :: "rankedRadioCandidate \<Rightarrow> rankedRadioCandidate \<Rightarrow> bool" where
  "relatedReplayOlder left right =
     (if rc_replayTime left \<noteq> rc_replayTime right
      then (if rc_replayTime left = zero_time then True else if rc_replayTime right = zero_time then False
            else rc_replayTime left < rc_replayTime right)
      else rc_replayPosition left < rc_replayPosition right)"

definition replays_differ :: "rankedRadioCandidate \<Rightarrow> rankedRadioCandidate \<Rightarrow> bool" where
  "replays_differ left right \<longleftrightarrow> rc_source left = ''related_replay'' \<and> rc_source right = ''related_replay''
     \<and> (rc_replayTime left \<noteq> rc_replayTime right \<or> rc_replayPosition left \<noteq> rc_replayPosition right)"

definition relatedCandidateLess :: "rankedRadioCandidate \<Rightarrow> rankedRadioCandidate \<Rightarrow> bool" where
  "relatedCandidateLess left right =
     (if relatedCandidateTier left \<noteq> relatedCandidateTier right then relatedCandidateTier left < relatedCandidateTier right
      else if replays_differ left right then relatedReplayOlder left right
      else if rc_Score left \<noteq> rc_Score right then rc_Score left > rc_Score right
      else rc_Key left < rc_Key right)"

text \<open>\<open>sort.SliceStable\<close> with a comparison: insertion from the left.\<close>

definition insert_before :: "('a \<Rightarrow> 'a \<Rightarrow> bool) \<Rightarrow> 'a \<Rightarrow> 'a list \<Rightarrow> 'a list" where
  "insert_before lt x ys = takeWhile (\<lambda>y. \<not> lt x y) ys @ x # dropWhile (\<lambda>y. \<not> lt x y) ys"

definition stable_sort :: "('a \<Rightarrow> 'a \<Rightarrow> bool) \<Rightarrow> 'a list \<Rightarrow> 'a list" where
  "stable_sort lt xs = fold (insert_before lt) xs []"

text \<open>The queue a related batch extends.\<close>

record related_queue =
  rq_total :: nat
  rq_discovery :: nat
  rq_hasDownloading :: bool
  rq_floor :: int

definition discovery_allowed :: "related_queue \<Rightarrow> radio_state \<Rightarrow> bool" where
  "discovery_allowed q st \<longleftrightarrow>
     (let queueAfter = rq_total q + (rs_discoveries st + rs_locals st) + 1; maxDiscovery = \<lfloor>35/100 * rat_of_nat queueAfter\<rfloor> in
      \<not> int (rq_discovery q + rs_discoveries st + 1) > maxDiscovery
      \<and> \<not> (rq_hasDownloading q \<and> int (rs_readyLibrary st) < rq_floor q))"

definition prefer_related ::
    "radio_state \<Rightarrow> rankedRadioCandidate list \<Rightarrow> rankedRadioCandidate \<Rightarrow> (nat \<times> nat \<times> rat) option \<Rightarrow> bool" where
  "prefer_related st remaining c best =
     (case best of
        None \<Rightarrow> relatedCandidateTier c < 9
      | Some (k, tier, s) \<Rightarrow>
          if relatedCandidateTier c = tier
          then (if replays_differ c (remaining ! k) then relatedReplayOlder c (remaining ! k) else candidateSelectionScore c st > s)
          else relatedCandidateTier c < tier)"

fun select_related ::
    "related_queue \<Rightarrow> radio_state \<Rightarrow> rankedRadioCandidate list \<Rightarrow> nat \<Rightarrow> (nat \<times> nat \<times> rat) option \<Rightarrow> rankedRadioCandidate list
      \<Rightarrow> (nat \<times> nat \<times> rat) option" where
  "select_related q st remaining i best [] = best"
| "select_related q st remaining i best (c # cs) =
     select_related q st remaining (Suc i)
       (if (rc_isDiscovery c \<longrightarrow> discovery_allowed q st) \<and> prefer_related st remaining c best
        then Some (i, relatedCandidateTier c, candidateSelectionScore c st) else best) cs"

definition selectRelatedCandidate :: "related_queue \<Rightarrow> radio_state \<Rightarrow> rankedRadioCandidate list \<Rightarrow> nat option" where
  "selectRelatedCandidate q st remaining = map_option fst (select_related q st remaining 0 None remaining)"

text \<open>Every library song counts as ready here.\<close>

definition count_related :: "rankedRadioCandidate \<Rightarrow> radio_state \<Rightarrow> radio_state" where
  "count_related c st = (count_candidate c st)\<lparr>rs_readyLibrary := (if rc_isDiscovery c then rs_readyLibrary st else Suc (rs_readyLibrary st))\<rparr>"

fun related_loop :: "related_queue \<Rightarrow> nat \<Rightarrow> radio_state \<Rightarrow> rankedRadioCandidate list \<Rightarrow> rankedRadioCandidate list" where
  "related_loop q 0 st remaining = []"
| "related_loop q (Suc n) st remaining =
     (case selectRelatedCandidate q st remaining of
        None \<Rightarrow> []
      | Some k \<Rightarrow> remaining ! k # related_loop q n (count_related (remaining ! k) st) (remove_nth k remaining))"

definition related_total :: "radioCompositionOptions \<Rightarrow> nat" where
  "related_total opts = activeTotal (ro_Active opts) + (if ro_SeedActive opts then 1 else 0)"

definition composeRelatedRadioCandidates :: "rankedRadioCandidate list \<Rightarrow> radioCompositionOptions \<Rightarrow> rankedRadioCandidate list" where
  "composeRelatedRadioCandidates candidates opts =
     (if ro_Slots opts \<le> 0 \<or> candidates = [] then []
      else related_loop
        \<lparr>rq_total = related_total opts, rq_discovery = activeDiscovery (ro_Active opts), rq_hasDownloading = ro_HasDownloading opts,
         rq_floor = ready_floor opts\<rparr>
        (nat (ro_Slots opts)) (initial_state (ro_Active opts)) (stable_sort relatedCandidateLess candidates))"

definition composeRadioCandidates :: "rankedRadioCandidate list \<Rightarrow> radioCompositionOptions \<Rightarrow> rankedRadioCandidate list" where
  "composeRadioCandidates candidates opts =
     (if NormalizeRadioMode (ro_Mode opts) = ''related'' then composeRelatedRadioCandidates candidates opts else compose_balanced candidates opts)"

text \<open>Examples: two ready library songs are in the queue and two slots are free.\<close>

definition example_radio_candidate :: "string \<Rightarrow> bool \<Rightarrow> rankedRadioCandidate" where
  "example_radio_candidate k discovery =
     \<lparr>rc_Key = k, rc_Score = 1, rc_RankedTransition = 0, rc_TransitionAffinity = 0, rc_MediaFile = empty_MediaFile\<lparr>mf_ID := k\<rparr>,
      rc_isDiscovery = discovery, rc_source = [], rc_replayPosition = 0, rc_replayTime = zero_time, rc_replayEarlySkipped = False\<rparr>"

definition example_radio_options :: "string \<Rightarrow> radioCompositionOptions" where
  "example_radio_options mode =
     \<lparr>ro_Mode = mode, ro_Slots = 2, ro_Active = replicate 2 \<lparr>ai_ItemType = ''library'', ai_Status = ''ready'', ai_Song = None\<rparr>,
      ro_SeedActive = False, ro_HasDownloading = False, ro_ReadyLibraryFloor = 2\<rparr>"

subsection \<open>What a pick is\<close>

lemma best_index_Some:
  "best_index admit score i best cs = Some (k, x) \<Longrightarrow>
    best = Some (k, x) \<or> i \<le> k \<and> k < i + length cs \<and> admit (cs ! (k - i))"
proof (induction cs arbitrary: i best)
  case (Cons c cs)
  show ?case
  proof (cases "admit c \<and> (case best of None \<Rightarrow> True | Some (_, s) \<Rightarrow> score c > s)")
    case True
    then have "best_index admit score (Suc i) (Some (i, score c)) cs = Some (k, x)" using Cons.prems by simp
    from Cons.IH [OF this] show ?thesis using True by (auto simp: nth_Cons' Suc_le_eq)
  next
    case False
    then have "best_index admit score (Suc i) best cs = Some (k, x)" using Cons.prems by (simp only: best_index.simps if_False)
    from Cons.IH [OF this] show ?thesis by (auto simp: nth_Cons' Suc_le_eq)
  qed
qed simp

lemma best_index_None: "best_index admit score i best cs = None \<longleftrightarrow> best = None \<and> (\<forall>c \<in> set cs. \<not> admit c)"
  by (induction cs arbitrary: i best) (auto split: option.splits)

lemma best_index_start:
  assumes "best_index admit score 0 None cs = Some (k, x)"
  shows "k < length cs" "admit (cs ! k)"
  using best_index_Some [OF assms] by simp_all

lemma some_not_later:
  assumes "cs \<noteq> []"
  shows "\<exists>c \<in> set cs. \<not> later_stage hasPreferred cs c"
proof (cases "hasRadioFallbackStage cs ''tasteFallback''")
  case True
  then obtain c where "c \<in> set cs" "rc_source c = ''tasteFallback''" by (auto simp: hasRadioFallbackStage_def list_ex_iff)
  then show ?thesis by (auto simp: later_stage_def intro!: bexI [of _ c])
next
  case False
  with assms show ?thesis by (cases cs) (auto simp: later_stage_def)
qed

lemma pick_candidate_Some:
  assumes "pick_candidate b st cs = Some k"
  shows "k < length cs"
    and "within_quota b st cs (cs ! k) \<or> (\<forall>c \<in> set cs. \<not> within_quota b st cs c)"
proof -
  consider (quota) x where "best_index (within_quota b st cs) (\<lambda>c. candidateSelectionScore c st) 0 None cs = Some (k, x)"
    | (rest) x where "best_index (within_quota b st cs) (\<lambda>c. candidateSelectionScore c st) 0 None cs = None"
        "best_index (\<lambda>c. \<not> later_stage (rb_hasPreferred b) cs c) (\<lambda>c. candidateSelectionScore c st) 0 None cs = Some (k, x)"
    using assms by (auto simp: pick_candidate_def split: option.splits)
  then have "k < length cs \<and> (within_quota b st cs (cs ! k) \<or> (\<forall>c \<in> set cs. \<not> within_quota b st cs c))"
  proof cases
    case quota
    show ?thesis using best_index_start [OF quota] by simp
  next
    case rest
    show ?thesis using best_index_start [OF rest(2)] rest(1) by (simp add: best_index_None)
  qed
  then show "k < length cs" "within_quota b st cs (cs ! k) \<or> (\<forall>c \<in> set cs. \<not> within_quota b st cs c)" by simp_all
qed

lemma pick_candidate_None: "pick_candidate b st cs = None \<longleftrightarrow> cs = []"
  using some_not_later [of cs "rb_hasPreferred b"] by (auto simp: pick_candidate_def best_index_None split: option.splits)

text \<open>A batch is never short, and takes each candidate once.\<close>

lemma compose_loop_length: "length (compose_loop b n st cs) = min n (length cs)"
proof (induction b n st cs rule: compose_loop.induct)
  case (2 b n st cs)
  show ?case
  proof (cases "pick_candidate b st cs")
    case None
    then show ?thesis using pick_candidate_None [of b st cs] by simp
  next
    case (Some k)
    then have "k < length cs" by (rule pick_candidate_Some(1))
    then have "length cs = Suc (length (remove_nth k cs))" using mset_remove_nth [of k cs] by (metis size_add_mset size_mset)
    with Some 2 [OF Some] show ?thesis by simp
  qed
qed simp

lemma compose_loop_mset: "mset (compose_loop b n st cs) \<subseteq># mset cs"
proof (induction b n st cs rule: compose_loop.induct)
  case (2 b n st cs)
  show ?case
  proof (cases "pick_candidate b st cs")
    case None
    then show ?thesis by simp
  next
    case (Some k)
    then have "k < length cs" by (rule pick_candidate_Some(1))
    with Some 2 [OF Some] show ?thesis using mset_remove_nth [of k cs] by simp
  qed
qed simp

subsection \<open>The quota\<close>

definition count_discoveries :: "rankedRadioCandidate list \<Rightarrow> nat" where
  "count_discoveries cs = length (filter rc_isDiscovery cs)"

definition count_locals :: "rankedRadioCandidate list \<Rightarrow> nat" where
  "count_locals cs = length (filter (\<lambda>c. \<not> rc_isDiscovery c) cs)"

lemma counts_remove_nth:
  assumes "k < length cs"
  shows "count_discoveries cs = count_discoveries (remove_nth k cs) + (if rc_isDiscovery (cs ! k) then 1 else 0)"
    and "count_locals cs = count_locals (remove_nth k cs) + (if rc_isDiscovery (cs ! k) then 0 else 1)"
proof -
  have "size (filter_mset P (mset cs)) = size (filter_mset P (mset (remove_nth k cs))) + (if P (cs ! k) then 1 else 0)" for P
    using mset_remove_nth [OF assms] by simp
  then have "length (filter P cs) = length (filter P (remove_nth k cs)) + (if P (cs ! k) then 1 else 0)" for P
    by (metis mset_filter size_mset)
  then show "count_discoveries cs = count_discoveries (remove_nth k cs) + (if rc_isDiscovery (cs ! k) then 1 else 0)"
    and "count_locals cs = count_locals (remove_nth k cs) + (if rc_isDiscovery (cs ! k) then 0 else 1)"
    by (simp_all add: count_discoveries_def count_locals_def)
qed

lemma has_type_iff:
  "hasRadioCandidateOfType cs True \<longleftrightarrow> count_discoveries cs > 0" "hasRadioCandidateOfType cs False \<longleftrightarrow> count_locals cs > 0"
  by (auto simp: hasRadioCandidateOfType_def count_discoveries_def count_locals_def list_ex_iff filter_empty_conv)

text \<open>The discoveries a batch of \<open>n\<close> songs should have: the quota, or what is left for them when there are not enough library songs.\<close>

definition discovery_target :: "radio_batch \<Rightarrow> nat \<Rightarrow> nat \<Rightarrow> nat" where
  "discovery_target b discoveries locals = min discoveries (max (rb_needed b) (rb_slots b - locals))"

definition no_guards :: "radio_batch \<Rightarrow> bool" where
  "no_guards b \<longleftrightarrow> \<not> rb_hasPreferred b \<and> \<not> rb_hasDownloading b"

text \<open>One pick stays below the targets of both kinds.\<close>

lemma pick_quota:
  assumes pick: "pick_candidate b st cs = Some k" and free: "\<not> rb_hasPreferred b"
    and room: "rs_discoveries st + rs_locals st < rb_slots b" and needed: "rb_needed b \<le> rb_slots b"
  shows "rc_isDiscovery (cs ! k) \<Longrightarrow> rs_discoveries st < rb_needed b \<or> count_locals cs = 0"
    and "no_guards b \<Longrightarrow> \<not> rc_isDiscovery (cs ! k) \<Longrightarrow> rs_locals st < rb_slots b - rb_needed b \<or> count_discoveries cs = 0"
proof -
  note k = pick_candidate_Some [OF pick]
  have later: "\<not> later_stage (rb_hasPreferred b) cs c" for c using free by (simp add: later_stage_def)
  show "rs_discoveries st < rb_needed b \<or> count_locals cs = 0" if disc: "rc_isDiscovery (cs ! k)"
  proof (cases "within_quota b st cs (cs ! k)")
    case True
    then show ?thesis using disc by (auto simp: within_quota_def has_type_iff)
  next
    case False
    then have none: "\<forall>c \<in> set cs. \<not> within_quota b st cs c" using k(2) by simp
    show ?thesis
    proof (cases "count_locals cs = 0")
      case False
      then obtain c where "c \<in> set cs" "\<not> rc_isDiscovery c" by (auto simp: count_locals_def filter_empty_conv)
      then have "rs_locals st \<ge> rb_slots b - rb_needed b" using none later by (auto simp: within_quota_def)
      then show ?thesis using room needed by linarith
    qed simp
  qed
  show "rs_locals st < rb_slots b - rb_needed b \<or> count_discoveries cs = 0" if guards: "no_guards b" and local: "\<not> rc_isDiscovery (cs ! k)"
  proof (cases "within_quota b st cs (cs ! k)")
    case True
    then show ?thesis using local by (auto simp: within_quota_def has_type_iff)
  next
    case False
    then have none: "\<forall>c \<in> set cs. \<not> within_quota b st cs c" using k(2) by simp
    show ?thesis
    proof (cases "count_discoveries cs = 0")
      case False
      then obtain c where "c \<in> set cs" "rc_isDiscovery c" by (auto simp: count_discoveries_def filter_empty_conv)
      then have "rs_discoveries st \<ge> rb_needed b" using none later guards by (auto simp: within_quota_def no_guards_def)
      then show ?thesis using room needed by linarith
    qed simp
  qed
qed

lemma count_candidate_simps [simp]:
  "rs_discoveries (count_candidate c st) = rs_discoveries st + (if rc_isDiscovery c then 1 else 0)"
  "rs_locals (count_candidate c st) = rs_locals st + (if rc_isDiscovery c then 0 else 1)"
  by (simp_all add: count_candidate_def)

lemma count_discoveries_Cons [simp]: "count_discoveries (c # cs) = (if rc_isDiscovery c then 1 else 0) + count_discoveries cs"
  by (simp add: count_discoveries_def)

lemma compose_loop_quota:
  assumes "\<not> rb_hasPreferred b" "rb_needed b \<le> rb_slots b" "rs_discoveries st + rs_locals st + n = rb_slots b"
    and "rs_discoveries st + count_discoveries cs = D" "rs_locals st + count_locals cs = L"
  shows "rs_discoveries st \<le> discovery_target b D L \<longrightarrow> rs_discoveries st + count_discoveries (compose_loop b n st cs) \<le> discovery_target b D L"
    and "no_guards b \<and> rb_slots b \<le> D + L \<and> discovery_target b D L + rs_locals st \<le> rb_slots b
      \<longrightarrow> discovery_target b D L \<le> rs_discoveries st + count_discoveries (compose_loop b n st cs)"
  using assms
proof (induction b n st cs rule: compose_loop.induct)
  case (1 b st cs)
  {
    case 1
    then show ?case by (simp add: count_discoveries_def)
  next
    case 2
    then show ?case by (simp add: count_discoveries_def)
  }
next
  case (2 b n st cs)
  have step: "(rs_discoveries st \<le> discovery_target b D L \<longrightarrow>
        rs_discoveries st + count_discoveries (compose_loop b (Suc n) st cs) \<le> discovery_target b D L)
      \<and> (no_guards b \<and> rb_slots b \<le> D + L \<and> discovery_target b D L + rs_locals st \<le> rb_slots b
      \<longrightarrow> discovery_target b D L \<le> rs_discoveries st + count_discoveries (compose_loop b (Suc n) st cs))"
    if prems: "\<not> rb_hasPreferred b" "rb_needed b \<le> rb_slots b" "rs_discoveries st + rs_locals st + Suc n = rb_slots b"
      "rs_discoveries st + count_discoveries cs = D" "rs_locals st + count_locals cs = L"
  proof (cases "pick_candidate b st cs")
    case None
    then have "cs = []" by (simp add: pick_candidate_None)
    then show ?thesis using prems None by (auto simp: count_discoveries_def count_locals_def discovery_target_def)
  next
    case (Some k)
    let ?c = "cs ! k" and ?cs = "remove_nth k cs"
    let ?st = "count_candidate ?c st"
    have k: "k < length cs" by (rule pick_candidate_Some(1) [OF Some])
    note counts = counts_remove_nth [OF k]
    have room: "rs_discoveries st + rs_locals st < rb_slots b" using prems(3) by linarith
    note quota = pick_quota [OF Some prems(1) room prems(2)]
    have sums: "rs_discoveries ?st + rs_locals ?st + n = rb_slots b" "rs_discoveries ?st + count_discoveries ?cs = D"
      "rs_locals ?st + count_locals ?cs = L"
      using prems counts by auto
    note IH = 2 [OF Some prems(1,2) sums]
    have loop: "rs_discoveries st + count_discoveries (compose_loop b (Suc n) st cs) = rs_discoveries ?st + count_discoveries (compose_loop b n ?st ?cs)"
      using Some by simp
    have "rs_discoveries ?st \<le> discovery_target b D L" if "rs_discoveries st \<le> discovery_target b D L"
      using that quota(1) counts prems by (auto simp: discovery_target_def)
    moreover have "discovery_target b D L + rs_locals ?st \<le> rb_slots b"
      if "no_guards b" "discovery_target b D L + rs_locals st \<le> rb_slots b"
      using that quota(2) counts prems by (auto simp: discovery_target_def)
    ultimately show ?thesis unfolding loop using IH by blast
  qed
  {
    case 1
    then show ?case using step by blast
  next
    case 2
    then show ?case using step by blast
  }
qed

lemma discoveryNeeded_le: "int (discoveryNeeded opts) \<le> max 0 (ro_Slots opts)"
  by (auto simp: discoveryNeeded_def Let_def)

lemma initial_state_zero: "rs_discoveries (initial_state active) = 0" "rs_locals (initial_state active) = 0"
  by (simp_all add: initial_state_def Let_def)

lemma mset_counts: "mset xs = mset ys \<Longrightarrow> count_discoveries xs = count_discoveries ys"
  by (metis count_discoveries_def mset_filter size_mset)

lemma counts_length: "count_discoveries cs + count_locals cs = length cs"
  by (simp add: count_discoveries_def count_locals_def sum_length_filter_compl)

text \<open>C20: A radio batch is as long as the free slots and the candidates allow and takes every candidate at most once. Unless taste
  fallbacks have to go first, it holds no more discoveries than the mode's share of the queue asks for, except to fill slots that the library
  songs leave free; and exactly as many, unless unfinished downloads hold discoveries back.\<close>

theorem radio_batch_quota:
  assumes "NormalizeRadioMode (ro_Mode opts) \<noteq> ''related''" "ro_Slots opts > 0"
  shows "let batch = composeRadioCandidates candidates opts; slots = nat (ro_Slots opts);
        target = min (count_discoveries candidates) (max (discoveryNeeded opts) (slots - count_locals candidates)) in
     length batch = min slots (length candidates) \<and> mset batch \<subseteq># mset candidates
     \<and> (\<not> hasRadioFallbackStage candidates ''tasteFallback'' \<longrightarrow>
          count_discoveries batch \<le> target \<and> (\<not> ro_HasDownloading opts \<longrightarrow> count_discoveries batch = target))"
proof (cases "candidates = []")
  case True
  then show ?thesis using assms(1) by (simp add: composeRadioCandidates_def compose_balanced_def count_discoveries_def)
next
  case False
  let ?ordered = "sort_key (\<lambda>c. - rc_Score c) (sort_key rc_Key candidates)"
  let ?slots = "nat (ro_Slots opts)"
  let ?b = "\<lparr>rb_slots = ?slots, rb_needed = discoveryNeeded opts, rb_hasPreferred = hasRadioFallbackStage ?ordered ''tasteFallback'',
    rb_hasDownloading = ro_HasDownloading opts, rb_floor = ready_floor opts\<rparr>"
  let ?batch = "compose_loop ?b ?slots (initial_state (ro_Active opts)) ?ordered"
  let ?D = "count_discoveries candidates" and ?L = "count_locals candidates"
  have batch: "composeRadioCandidates candidates opts = ?batch"
    using False assms by (simp add: composeRadioCandidates_def compose_balanced_def Let_def)
  have mset: "mset ?ordered = mset candidates" by simp
  have counts: "count_discoveries ?ordered = ?D" "count_locals ?ordered = ?L"
    using mset_counts [OF mset] counts_length [of ?ordered] counts_length [of candidates] by simp_all
  have length: "length ?batch = min ?slots (length candidates)" by (simp add: compose_loop_length)
  have sub: "mset ?batch \<subseteq># mset candidates" using compose_loop_mset [of ?b ?slots "initial_state (ro_Active opts)" ?ordered] by simp
  have "count_discoveries ?batch \<le> discovery_target ?b ?D ?L
      \<and> (\<not> ro_HasDownloading opts \<longrightarrow> count_discoveries ?batch = discovery_target ?b ?D ?L)"
    if stage: "\<not> hasRadioFallbackStage candidates ''tasteFallback''"
  proof -
    have pref: "\<not> rb_hasPreferred ?b" using stage by (simp add: hasRadioFallbackStage_def list_ex_iff)
    have needed: "rb_needed ?b \<le> rb_slots ?b" using discoveryNeeded_le [of opts] assms(2) by simp
    have start: "rs_discoveries (initial_state (ro_Active opts)) = 0" "rs_locals (initial_state (ro_Active opts)) = 0"
      by (rule initial_state_zero)+
    note quota = compose_loop_quota [OF pref needed, of "initial_state (ro_Active opts)" ?slots ?ordered ?D ?L, unfolded start, simplified counts]
    have upper: "count_discoveries ?batch \<le> discovery_target ?b ?D ?L" using quota(1) by simp
    moreover have "discovery_target ?b ?D ?L \<le> count_discoveries ?batch" if free: "\<not> ro_HasDownloading opts"
    proof (cases "?slots \<le> ?D + ?L")
      case True
      have "discovery_target ?b ?D ?L \<le> ?slots" using needed by (simp add: discovery_target_def)
      then show ?thesis using quota(2) True free pref by (simp add: no_guards_def)
    next
      case False
      then have "size (mset ?batch) = size (mset candidates)" using length counts_length [of candidates] by simp
      then have "mset ?batch = mset candidates" using sub by (metis mset_subset_size nless_le subset_mset.nless_le)
      then have "count_discoveries ?batch = ?D" by (rule mset_counts)
      then show ?thesis by (simp add: discovery_target_def)
    qed
    ultimately show ?thesis by fastforce
  qed
  with length sub show ?thesis by (simp add: batch discovery_target_def Let_def)
qed

lemma radio_batch_quota_witness:
  "let candidates = [example_radio_candidate ''a'' False, example_radio_candidate ''b'' True, example_radio_candidate ''c'' False];
       batch = composeRadioCandidates candidates (example_radio_options ''balanced'')
   in length batch = 2 \<and> count_discoveries batch = 1"
proof -
  let ?candidates = "[example_radio_candidate ''a'' False, example_radio_candidate ''b'' True, example_radio_candidate ''c'' False]"
  have "NormalizeRadioMode (ro_Mode (example_radio_options ''balanced'')) \<noteq> ''related''" "ro_Slots (example_radio_options ''balanced'') > 0"
    "count_discoveries ?candidates = 1" "count_locals ?candidates = 2" "\<not> hasRadioFallbackStage ?candidates ''tasteFallback''"
    "discoveryNeeded (example_radio_options ''balanced'') = 1"
    by code_simp+
  moreover have "ro_Slots (example_radio_options ''balanced'') = 2" "\<not> ro_HasDownloading (example_radio_options ''balanced'')"
    by (simp_all add: example_radio_options_def)
  ultimately show ?thesis using radio_batch_quota [of "example_radio_options ''balanced''" ?candidates] by (simp add: Let_def)
qed

subsection \<open>The ceiling of related radio\<close>

lemma select_related_Some:
  "select_related q st rem i best cs = Some (k, x) \<Longrightarrow>
    best = Some (k, x) \<or> i \<le> k \<and> k < i + length cs \<and> (rc_isDiscovery (cs ! (k - i)) \<longrightarrow> discovery_allowed q st)"
proof (induction cs arbitrary: i best)
  case (Cons c cs)
  show ?case
  proof (cases "(rc_isDiscovery c \<longrightarrow> discovery_allowed q st) \<and> prefer_related st rem c best")
    case True
    then have "select_related q st rem (Suc i) (Some (i, relatedCandidateTier c, candidateSelectionScore c st)) cs = Some (k, x)"
      using Cons.prems by simp
    from Cons.IH [OF this] show ?thesis using True by (auto simp: nth_Cons' Suc_le_eq)
  next
    case False
    then have "select_related q st rem (Suc i) best cs = Some (k, x)" using Cons.prems by (simp only: select_related.simps if_False)
    from Cons.IH [OF this] show ?thesis by (auto simp: nth_Cons' Suc_le_eq)
  qed
qed simp

lemma selectRelatedCandidate_Some:
  assumes "selectRelatedCandidate q st cs = Some k"
  shows "k < length cs" "rc_isDiscovery (cs ! k) \<Longrightarrow> discovery_allowed q st"
proof -
  obtain x where "select_related q st cs 0 None cs = Some (k, x)" using assms by (auto simp: selectRelatedCandidate_def)
  from select_related_Some [OF this] show "k < length cs" "rc_isDiscovery (cs ! k) \<Longrightarrow> discovery_allowed q st" by auto
qed

lemma count_related_simps [simp]:
  "rs_discoveries (count_related c st) = rs_discoveries st + (if rc_isDiscovery c then 1 else 0)"
  "rs_locals (count_related c st) = rs_locals st + (if rc_isDiscovery c then 0 else 1)"
  by (simp_all add: count_related_def)

lemma discovery_allowed_bound:
  "discovery_allowed q st \<Longrightarrow> 100 * (rq_discovery q + rs_discoveries st + 1) \<le> 35 * (rq_total q + rs_discoveries st + rs_locals st + 1)"
proof -
  assume "discovery_allowed q st"
  then have "int (rq_discovery q + rs_discoveries st + 1) \<le> \<lfloor>35/100 * rat_of_nat (rq_total q + (rs_discoveries st + rs_locals st) + 1)\<rfloor>"
    by (simp add: discovery_allowed_def Let_def)
  then have "rat_of_nat (rq_discovery q + rs_discoveries st + 1) \<le> 35/100 * rat_of_nat (rq_total q + (rs_discoveries st + rs_locals st) + 1)"
    by (simp add: le_floor_iff)
  then have "rat_of_nat (100 * (rq_discovery q + rs_discoveries st + 1)) \<le> rat_of_nat (35 * (rq_total q + rs_discoveries st + rs_locals st + 1))"
    by (simp add: field_simps)
  then show ?thesis by (simp only: of_nat_le_iff)
qed

lemma related_loop_facts:
  "length (related_loop q n st cs) \<le> n \<and> mset (related_loop q n st cs) \<subseteq># mset cs"
proof (induction q n st cs rule: related_loop.induct)
  case (2 q n st cs)
  show ?case
  proof (cases "selectRelatedCandidate q st cs")
    case (Some k)
    then have "k < length cs" by (rule selectRelatedCandidate_Some(1))
    then show ?thesis using Some 2 [OF Some] mset_remove_nth [of k cs] by simp
  qed simp
qed simp

lemma related_loop_ceiling:
  assumes "related_loop q n st cs = xs @ c # ys" "rc_isDiscovery c"
  shows "100 * (rq_discovery q + rs_discoveries st + count_discoveries xs + 1) \<le> 35 * (rq_total q + rs_discoveries st + rs_locals st + length xs + 1)"
  using assms(1)
proof (induction q n st cs arbitrary: xs rule: related_loop.induct)
  case (2 q n st cs)
  then obtain k where k: "selectRelatedCandidate q st cs = Some k" by (cases "selectRelatedCandidate q st cs") auto
  show ?case
  proof (cases xs)
    case Nil
    then have "cs ! k = c" using 2(2) k by simp
    then have "discovery_allowed q st" using selectRelatedCandidate_Some(2) [OF k] assms(2) by simp
    then show ?thesis using discovery_allowed_bound by (simp add: Nil count_discoveries_def)
  next
    case (Cons d xs')
    then have "cs ! k = d" and rest: "related_loop q n (count_related (cs ! k) st) (remove_nth k cs) = xs' @ c # ys" using 2(2) k by auto
    then show ?thesis using 2(1) [OF k rest] by (simp add: Cons count_discoveries_def split: if_splits)
  qed
qed simp

lemma stable_sort_mset [simp]: "mset (stable_sort lt xs) = mset xs"
proof -
  have "mset (insert_before lt x ys) = add_mset x (mset ys)" for x ys
    unfolding insert_before_def by (metis mset_append mset.simps(2) takeWhile_dropWhile_id union_mset_add_mset_right)
  then have "mset (fold (insert_before lt) xs ys) = mset xs + mset ys" for ys
    by (induction xs arbitrary: ys) simp_all
  then show ?thesis by (simp add: stable_sort_def)
qed

text \<open>C26: In related radio discoveries have a ceiling and not a quota: whenever the batch adds a discovery, the discoveries of the queue, those
  of the batch up to this one included, are at most 35 in 100 of the queue so far; a batch is never longer than the free slots and takes
  every candidate at most once.\<close>

theorem related_discovery_ceiling:
  assumes "NormalizeRadioMode (ro_Mode opts) = ''related''" "composeRadioCandidates candidates opts = xs @ c # ys" "rc_isDiscovery c"
  shows "100 * (activeDiscovery (ro_Active opts) + count_discoveries xs + 1) \<le> 35 * (related_total opts + length xs + 1)
    \<and> int (length (xs @ c # ys)) \<le> ro_Slots opts \<and> mset (xs @ c # ys) \<subseteq># mset candidates"
proof -
  let ?q = "\<lparr>rq_total = related_total opts, rq_discovery = activeDiscovery (ro_Active opts), rq_hasDownloading = ro_HasDownloading opts,
    rq_floor = ready_floor opts\<rparr>"
  have slots: "ro_Slots opts > 0"
    and loop: "related_loop ?q (nat (ro_Slots opts)) (initial_state (ro_Active opts)) (stable_sort relatedCandidateLess candidates) = xs @ c # ys"
    using assms(1,2) by (auto simp: composeRadioCandidates_def composeRelatedRadioCandidates_def split: if_splits)
  have "100 * (activeDiscovery (ro_Active opts) + count_discoveries xs + 1) \<le> 35 * (related_total opts + length xs + 1)"
    using related_loop_ceiling [OF loop assms(3)] by (simp add: initial_state_zero)
  moreover have "length (xs @ c # ys) \<le> nat (ro_Slots opts)" "mset (xs @ c # ys) \<subseteq># mset candidates"
    using related_loop_facts [of ?q "nat (ro_Slots opts)" "initial_state (ro_Active opts)" "stable_sort relatedCandidateLess candidates"]
    unfolding loop by simp_all
  ultimately show ?thesis using slots by linarith
qed

lemma related_discovery_ceiling_witness:
  "100 * (activeDiscovery (ro_Active (example_radio_options ''related'')) + 1) \<le> 35 * (related_total (example_radio_options ''related'') + 1)"
proof -
  have "NormalizeRadioMode (ro_Mode (example_radio_options ''related'')) = ''related''"
    "composeRadioCandidates [example_radio_candidate ''b'' True] (example_radio_options ''related'') = [] @ example_radio_candidate ''b'' True # []"
    "rc_isDiscovery (example_radio_candidate ''b'' True)"
    by code_simp+
  from related_discovery_ceiling [OF this] show ?thesis by (simp add: count_discoveries_def)
qed

end
