(* ===== verification/Str_Utils.thy ===== *)
theory Str_Utils
  imports Go_Path
begin

text \<open>
  \<open>utils/str/str.go\<close>: replacing typographic characters and the common prefix of strings, with the functions of \<open>path/filepath\<close> on names
  that \<open>Go_Path\<close> leaves out: \<open>Dir\<close> and \<open>Match\<close>.
\<close>

subsection \<open>Typographic characters\<close>

text \<open>Strings are bytes: the typographic quotes and dashes are their UTF-8 sequences. None is the start of another, so the order of the
  table does not matter.\<close>

definition utf8ToAscii :: "(string \<times> string) list" where
  "utf8ToAscii =
     [([CHR 0xE2, CHR 0x80, CHR 0x98], [CHR 0x27]), ([CHR 0xE2, CHR 0x80, CHR 0x99], [CHR 0x27]), ([CHR 0xE2, CHR 0x80, CHR 0x9B], [CHR 0x27]),
      ([CHR 0xE2, CHR 0x80, CHR 0xB2], [CHR 0x27]), ([CHR 0xEF, CHR 0xBC, CHR 0x82], [CHR 0x22]), ([CHR 0xE3, CHR 0x80, CHR 0x83], [CHR 0x22]),
      ([CHR 0xCB, CHR 0xAE], [CHR 0x22]), ([CHR 0xD7, CHR 0xB2], [CHR 0x22]), ([CHR 0xE1, CHR 0xB3, CHR 0x93], [CHR 0x22]),
      ([CHR 0xE2, CHR 0x80, CHR 0xB3], [CHR 0x22]), ([CHR 0xE2, CHR 0x80, CHR 0xB6], [CHR 0x22]), ([CHR 0xCB, CHR 0xB6], [CHR 0x22]),
      ([CHR 0xCA, CHR 0xBA], [CHR 0x22]), ([CHR 0xE2, CHR 0x80, CHR 0x9C], [CHR 0x22]), ([CHR 0xE2, CHR 0x80, CHR 0x9D], [CHR 0x22]),
      ([CHR 0xCB, CHR 0x9D], [CHR 0x22]), ([CHR 0xE2, CHR 0x80, CHR 0x9F], [CHR 0x22]), ([CHR 0xE2, CHR 0x80, CHR 0x90], ''-''),
      ([CHR 0xE2, CHR 0x80, CHR 0x93], ''-''), ([CHR 0xE2, CHR 0x80, CHR 0x94], ''-''), ([CHR 0xE2, CHR 0x88, CHR 0x92], ''-''),
      ([CHR 0xE2, CHR 0x80, CHR 0x95], ''-'')]"

fun replace_text :: "(string \<times> string) list \<Rightarrow> nat \<Rightarrow> string \<Rightarrow> string" where
  "replace_text table skip [] = []"
| "replace_text table (Suc skip) (c # cs) = replace_text table skip cs"
| "replace_text table 0 (c # cs) =
     (case find (\<lambda>p. has_prefix (c # cs) (fst p)) table of
        None \<Rightarrow> c # replace_text table 0 cs
      | Some p \<Rightarrow> snd p @ replace_text table (length (fst p) - 1) cs)"

definition Clear_text :: "string \<Rightarrow> string" where
  "Clear_text name = replace_text utf8ToAscii 0 name"

subsection \<open>Common prefixes\<close>

definition LongestCommonPrefix :: "string list \<Rightarrow> string" where
  "LongestCommonPrefix list =
     (case list of
        [] \<Rightarrow> []
      | x # xs \<Rightarrow> take (length (takeWhile (\<lambda>l. list_all (\<lambda>y. l < length y \<and> y ! l = x ! l) xs) [0..<length x])) x)"

lemma LongestCommonPrefix_Cons:
  "\<exists>n \<le> length x. LongestCommonPrefix (x # xs) = take n x \<and> (\<forall>l < n. \<forall>y \<in> set xs. l < length y \<and> y ! l = x ! l)
    \<and> (n < length x \<longrightarrow> (\<exists>y \<in> set xs. \<not> (n < length y \<and> y ! n = x ! n)))"
proof -
  define P where "P = (\<lambda>l. list_all (\<lambda>y. l < length y \<and> y ! l = x ! l) xs)"
  define n where "n = length (takeWhile P [0..<length x])"
  have le: "n \<le> length x" using length_takeWhile_le [of P "[0..<length x]"] by (simp add: n_def)
  have "P l" if "l < n" for l
  proof -
    have "takeWhile P [0..<length x] ! l \<in> set (takeWhile P [0..<length x])" using that by (simp add: n_def)
    moreover have "takeWhile P [0..<length x] ! l = l" using that le by (simp add: takeWhile_nth n_def)
    ultimately show ?thesis using set_takeWhileD by fastforce
  qed
  moreover have "\<not> P n" if "n < length x"
    using nth_length_takeWhile [of P "[0..<length x]"] that by (simp add: n_def [symmetric])
  moreover have "LongestCommonPrefix (x # xs) = take n x" by (simp add: LongestCommonPrefix_def n_def P_def)
  ultimately show ?thesis using le by (intro exI [of _ n]) (auto simp: P_def list_all_iff)
qed

text \<open>It is a prefix of every string, and none longer is.\<close>

lemma LongestCommonPrefix_prefix:
  assumes "y \<in> set list"
  shows "has_prefix y (LongestCommonPrefix list)"
proof -
  obtain x xs where list: "list = x # xs" using assms by (cases list) auto
  obtain n where n: "LongestCommonPrefix (x # xs) = take n x" "n \<le> length x"
    "\<forall>l < n. \<forall>y \<in> set xs. l < length y \<and> y ! l = x ! l"
    using LongestCommonPrefix_Cons [of x xs] by auto
  show ?thesis
  proof (cases "y \<in> set xs")
    case True
    have "n \<le> length y" using n(3) True by (meson not_le_imp_less less_irrefl)
    then have "take n y = take n x" using n(2,3) True by (intro nth_equalityI) auto
    then show ?thesis using n(2) \<open>n \<le> length y\<close> by (simp add: list n(1) has_prefix_def min_absorb2)
  next
    case False
    then show ?thesis using assms n(2) by (simp add: list n(1) has_prefix_def min_absorb2)
  qed
qed

lemma LongestCommonPrefix_longest:
  assumes "list \<noteq> []" "\<And>y. y \<in> set list \<Longrightarrow> has_prefix y p"
  shows "length p \<le> length (LongestCommonPrefix list)"
proof (rule ccontr)
  obtain x xs where list: "list = x # xs" using assms(1) by (cases list) auto
  obtain n where n: "LongestCommonPrefix (x # xs) = take n x" "n \<le> length x"
    "n < length x \<longrightarrow> (\<exists>y \<in> set xs. \<not> (n < length y \<and> y ! n = x ! n))"
    using LongestCommonPrefix_Cons [of x xs] by auto
  assume "\<not> length p \<le> length (LongestCommonPrefix list)"
  then have longer: "n < length p" using n(1,2) by (simp add: list min_absorb2)
  have agree: "length p \<le> length y \<and> (\<forall>i < length p. y ! i = p ! i)" if "y \<in> set list" for y
    using assms(2) [OF that] unfolding has_prefix_def by (metis length_take min.cobounded1 min_def nth_take)
  have "x \<in> set list" by (simp add: list)
  then have "n < length x" using agree longer by fastforce
  then obtain y where "y \<in> set xs" "\<not> (n < length y \<and> y ! n = x ! n)" using n(3) by blast
  moreover have "y \<in> set list" using \<open>y \<in> set xs\<close> by (simp add: list)
  ultimately show False using agree [of y] agree [of x] longer by (auto simp: list)
qed

subsection \<open>Names of paths\<close>

definition path_dir :: "string \<Rightarrow> string" where
  "path_dir p = clean (rev (dropWhile (\<lambda>c. c \<noteq> slash) (rev p)))"

definition file_name :: "string \<Rightarrow> string" where
  "file_name p = rev (takeWhile (\<lambda>c. c \<noteq> slash) (rev p))"

text \<open>\<open>filepath.Match\<close>: the pattern as a list of tokens, or \<^const>\<open>None\<close> for \<open>ErrBadPattern\<close>. In a class a range is a pair of bounds.\<close>

datatype glob_token = GlobStar | GlobAny | GlobChar char | GlobClass bool "(char \<times> char) list"

fun glob_esc :: "string \<Rightarrow> (char \<times> string) option" where
  "glob_esc [] = None"
| "glob_esc (c # cs) =
     (if c = CHR ''-'' \<or> c = CHR '']'' then None
      else if c = CHR 0x5C then (case cs of [] \<Rightarrow> None | d # ds \<Rightarrow> if ds = [] then None else Some (d, ds))
      else if cs = [] then None else Some (c, cs))"

lemma glob_esc_shorter: "glob_esc s = Some (c, r) \<Longrightarrow> length r < length s"
  by (induction s rule: glob_esc.induct) (auto split: if_splits list.splits)

text \<open>The ranges of a class up to its closing bracket, of which there has to be one before.\<close>

definition glob_range :: "string \<Rightarrow> ((char \<times> char) \<times> string) option" where
  "glob_range s =
     (case glob_esc s of
        None \<Rightarrow> None
      | Some (lo, r) \<Rightarrow>
          if r \<noteq> [] \<and> hd r = CHR ''-'' then map_option (\<lambda>(hi, r'). ((lo, hi), r')) (glob_esc (tl r)) else Some ((lo, lo), r))"

lemma glob_range_shorter:
  assumes "glob_range s = Some (p, r)"
  shows "length r < length s"
proof -
  obtain lo r0 where esc: "glob_esc s = Some (lo, r0)" using assms by (auto simp: glob_range_def split: option.splits)
  show ?thesis
  proof (cases "r0 \<noteq> [] \<and> hd r0 = CHR ''-''")
    case True
    then obtain hi where "glob_esc (tl r0) = Some (hi, r)" using assms esc by (auto simp: glob_range_def)
    then have "length r < length (tl r0)" by (rule glob_esc_shorter)
    then show ?thesis using glob_esc_shorter [OF esc] by simp
  next
    case False
    then have "r = r0" using assms esc by (auto simp: glob_range_def)
    then show ?thesis using glob_esc_shorter [OF esc] by simp
  qed
qed

function glob_ranges :: "bool \<Rightarrow> string \<Rightarrow> ((char \<times> char) list \<times> string) option" where
  "glob_ranges some_range s =
     (if some_range \<and> s \<noteq> [] \<and> hd s = CHR '']'' then Some ([], tl s)
      else case glob_range s of
             None \<Rightarrow> None
           | Some (bounds, r) \<Rightarrow> map_option (\<lambda>(rs, rest). (bounds # rs, rest)) (glob_ranges True r))"
  by pat_completeness auto
termination by (relation "measure (length \<circ> snd)") (auto dest: glob_range_shorter)

declare glob_ranges.simps [simp del]

lemma glob_ranges_shorter: "glob_ranges b s = Some (rs, rest) \<Longrightarrow> length rest < length s"
proof (induction b s arbitrary: rs rest rule: glob_ranges.induct)
  case (1 b s)
  show ?case
  proof (cases "b \<and> s \<noteq> [] \<and> hd s = CHR '']''")
    case True
    then have "glob_ranges b s = Some ([], tl s)" by (subst glob_ranges.simps) simp
    then have "rest = tl s" using 1(2) by simp
    moreover have "s \<noteq> []" using True by simp
    ultimately show ?thesis by simp
  next
    case False
    then obtain p r rs' where r: "glob_range s = Some (p, r)" "glob_ranges True r = Some (rs', rest)"
      using 1(2) by (auto simp: glob_ranges.simps [of b s] split: option.splits if_splits)
    then show ?thesis using 1(1) [OF False r(1) refl r(2)] glob_range_shorter [OF r(1)] by simp
  qed
qed

function parse_glob :: "string \<Rightarrow> glob_token list option" where
  "parse_glob [] = Some []"
| "parse_glob (c # cs) =
     (if c = CHR ''*'' then map_option (Cons GlobStar) (parse_glob cs)
      else if c = CHR ''?'' then map_option (Cons GlobAny) (parse_glob cs)
      else if c = CHR 0x5C then (case cs of [] \<Rightarrow> None | d # ds \<Rightarrow> map_option (Cons (GlobChar d)) (parse_glob ds))
      else if c = CHR ''['' then
        (let negated = (cs \<noteq> [] \<and> hd cs = CHR ''^'');
             body = (if negated then tl cs else cs)
         in case glob_ranges False body of
              None \<Rightarrow> None
            | Some (rs, rest) \<Rightarrow> map_option (Cons (GlobClass negated rs)) (parse_glob rest))
      else map_option (Cons (GlobChar c)) (parse_glob cs))"
  by pat_completeness auto
termination
  by (relation "measure length") (auto dest!: glob_ranges_shorter split: if_splits simp: less_Suc_eq)

fun glob_tokens_match :: "glob_token list \<Rightarrow> string \<Rightarrow> bool" where
  "glob_tokens_match [] s \<longleftrightarrow> s = []"
| "glob_tokens_match (GlobStar # ts) s \<longleftrightarrow>
     glob_tokens_match ts s \<or> (case s of [] \<Rightarrow> False | c # cs \<Rightarrow> c \<noteq> slash \<and> glob_tokens_match (GlobStar # ts) cs)"
| "glob_tokens_match (GlobAny # ts) s \<longleftrightarrow> (case s of [] \<Rightarrow> False | c # cs \<Rightarrow> c \<noteq> slash \<and> glob_tokens_match ts cs)"
| "glob_tokens_match (GlobChar d # ts) s \<longleftrightarrow> (case s of [] \<Rightarrow> False | c # cs \<Rightarrow> c = d \<and> glob_tokens_match ts cs)"
| "glob_tokens_match (GlobClass negated rs # ts) s \<longleftrightarrow>
     (case s of [] \<Rightarrow> False
      | c # cs \<Rightarrow> list_ex (\<lambda>(lo, hi). byte_of lo \<le> byte_of c \<and> byte_of c \<le> byte_of hi) rs \<noteq> negated \<and> glob_tokens_match ts cs)"

definition path_match :: "string \<Rightarrow> string \<Rightarrow> bool option" where
  "path_match pattern name = map_option (\<lambda>ts. glob_tokens_match ts name) (parse_glob pattern)"

lemma path_match_examples:
  "path_match ''cover.*'' ''cover.jpg'' = Some True" "path_match ''cover.*'' ''cover'' = Some False" "path_match ''[c-f]over.?pg'' ''cover.jpg'' = Some True"
  "path_match ''[]a]'' ''a'' = None" "path_match ''cover['' ''front'' = None" "path_match ''[^a]*'' ''b/c'' = Some False"
  by code_simp+

end
