(* ===== verification/Song_Matcher.thy ===== *)
theory Song_Matcher
  imports Music_Library Str_Utils
begin

text \<open>
  \<open>core/matcher/matcher.go\<close>: which files of the library the songs of an external catalog are. A song is looked up by its id, by the
  ids of the recording, and last by its title among the tracks of its artists. The tables are lists of rows, an order the code does not
  ask for being that of the list; that a query fails is a parameter. So are the removal of accents and the
  Jaro-Winkler similarity (both libraries), whose scores are rationals here. The
  artists of a file are taken to be the same in its row and in the table that joins files and artists.
\<close>

subsection \<open>The data\<close>

record library_file = MediaFile +
  lf_Starred :: bool
  lf_Rating :: int
  lf_Compilation :: bool
  lf_MbzAlbumID :: string

record agent_artist =
  aa_ID :: string
  aa_Name :: string
  aa_MBID :: string

record Song =
  sg_ID :: string
  sg_Name :: string
  sg_MBID :: string
  sg_ISRC :: string
  sg_Artists :: "agent_artist list"
  sg_Album :: string
  sg_AlbumMBID :: string
  sg_Duration :: nat
  sg_CandidateID :: string

text \<open>\<open>Song.Equals\<close> compares hashes of everything but the candidate id (and similarity scores, which are left out here); a
  collision is not modelled.\<close>

definition song_Equals :: "Song \<Rightarrow> Song \<Rightarrow> bool" where
  "song_Equals s other \<longleftrightarrow> s\<lparr>sg_CandidateID := []\<rparr> = other\<lparr>sg_CandidateID := []\<rparr>"

record artist_row =
  ar_ID :: string
  ar_OrderArtistName :: string
  ar_MbzArtistID :: string

datatype match_query = QueryID | QueryMBID | QueryISRC | QueryArtists | QueryTracks

record match_library =
  ml_files :: "library_file list"
  ml_artists :: "artist_row list"
  ml_fails :: "match_query \<Rightarrow> bool"

record match_config =
  mc_Accents :: "string \<Rightarrow> string"
  mc_IgnoredArticles :: string
  mc_JaroWinkler :: "string \<Rightarrow> string \<Rightarrow> rat"
  mc_FuzzyThreshold :: int
  mc_PreferStarred :: bool

subsection \<open>Text\<close>

fun remove_article :: "string list \<Rightarrow> string \<Rightarrow> string" where
  "remove_article [] name = name"
| "remove_article (a # articles) name =
     (case cut_prefix name (a @ '' '') of
        None \<Rightarrow> remove_article articles name
      | Some n \<Rightarrow> if n \<noteq> name then n else remove_article articles name)"

definition RemoveArticle :: "match_config \<Rightarrow> string \<Rightarrow> string" where
  "RemoveArticle cfg name = remove_article (split_on CHR '' '' (mc_IgnoredArticles cfg)) name"

definition SanitizeFieldForSorting :: "match_config \<Rightarrow> string \<Rightarrow> string" where
  "SanitizeFieldForSorting cfg v = Clear_text (to_lower (trim_space (mc_Accents cfg v)))"

definition SanitizeFieldForSortingNoArticle :: "match_config \<Rightarrow> string \<Rightarrow> string" where
  "SanitizeFieldForSortingNoArticle cfg v =
     Clear_text (to_lower (trim_space (RemoveArticle cfg (trim_space (mc_Accents cfg v)))))"

definition similarityRatio :: "match_config \<Rightarrow> string \<Rightarrow> string \<Rightarrow> rat" where
  "similarityRatio cfg a b = (if a = b then 1 else if a = [] \<or> b = [] then 0 else mc_JaroWinkler cfg a b)"

subsection \<open>The exact phases\<close>

definition wanted :: "(Song \<Rightarrow> string) \<Rightarrow> Song list \<Rightarrow> (nat \<rightharpoonup> library_file) \<Rightarrow> string list" where
  "wanted k songs result =
     map (\<lambda>i. k (songs ! i)) (filter (\<lambda>i. result i = None \<and> k (songs ! i) \<noteq> []) [0..<length songs])"

definition fill_result ::
    "(Song \<Rightarrow> string) \<Rightarrow> Song list \<Rightarrow> (string \<rightharpoonup> library_file) \<Rightarrow> (nat \<rightharpoonup> library_file) \<Rightarrow> (nat \<rightharpoonup> library_file)" where
  "fill_result k songs found result =
     (\<lambda>i. if i < length songs \<and> result i = None \<and> k (songs ! i) \<noteq> [] then found (k (songs ! i)) else result i)"

definition matchByID :: "match_library \<Rightarrow> Song list \<Rightarrow> (nat \<rightharpoonup> library_file) \<Rightarrow> match_query + (nat \<rightharpoonup> library_file)" where
  "matchByID lib songs result =
     (let ids = wanted sg_ID songs result in
      if ids = [] then Inr result
      else if ml_fails lib QueryID then Inl QueryID
      else
        let res = filter (\<lambda>f. mf_ID f \<in> set ids \<and> \<not> mf_Missing f) (ml_files lib)
        in Inr (fill_result sg_ID songs (map_of (rev (map (\<lambda>f. (mf_ID f, f)) res))) result))"

definition matchByMBID :: "match_library \<Rightarrow> Song list \<Rightarrow> (nat \<rightharpoonup> library_file) \<Rightarrow> match_query + (nat \<rightharpoonup> library_file)" where
  "matchByMBID lib songs result =
     (let mbids = wanted sg_MBID songs result in
      if mbids = [] then Inr result
      else if ml_fails lib QueryMBID then Inl QueryMBID
      else
        let res = filter (\<lambda>f. mf_MbzRecordingID f \<in> set mbids \<and> \<not> mf_Missing f) (ml_files lib)
        in Inr (fill_result sg_MBID songs
             (map_of (map (\<lambda>f. (mf_MbzRecordingID f, f)) (filter (\<lambda>f. mf_MbzRecordingID f \<noteq> []) res))) result))"

text \<open>\<open>Sort: starred desc, rating desc, year asc, compilation asc\<close>.\<close>

definition starred_first :: "library_file list \<Rightarrow> library_file list" where
  "starred_first files =
     sort_key (\<lambda>f. \<not> lf_Starred f) (sort_key (\<lambda>f. - lf_Rating f) (sort_key mf_Year (sort_key lf_Compilation files)))"

definition isrc_values :: "library_file \<Rightarrow> string list" where
  "isrc_values f = tag_values (MediaFile.truncate f) ''isrc''"

definition matchByISRC :: "match_library \<Rightarrow> Song list \<Rightarrow> (nat \<rightharpoonup> library_file) \<Rightarrow> match_query + (nat \<rightharpoonup> library_file)" where
  "matchByISRC lib songs result =
     (let isrcs = wanted sg_ISRC songs result in
      if isrcs = [] then Inr result
      else if ml_fails lib QueryISRC then Inl QueryISRC
      else
        let res = starred_first (filter (\<lambda>f. list_ex (\<lambda>v. v \<in> set isrcs) (isrc_values f) \<and> \<not> mf_Missing f) (ml_files lib))
        in Inr (fill_result sg_ISRC songs (map_of (concat (map (\<lambda>f. map (\<lambda>v. (v, f)) (isrc_values f)) res))) result))"

subsection \<open>The title phase\<close>

record queryArtist =
  qa_id :: string
  qa_name :: string
  qa_mbid :: string

record songQuery =
  qy_title :: string
  qy_artists :: "queryArtist list"
  qy_album :: string
  qy_albumMBID :: string
  qy_durationMs :: nat

definition query_artist :: "match_config \<Rightarrow> agent_artist \<Rightarrow> queryArtist" where
  "query_artist cfg a = \<lparr>qa_id = aa_ID a, qa_name = SanitizeFieldForSortingNoArticle cfg (aa_Name a), qa_mbid = aa_MBID a\<rparr>"

definition usable_artists :: "match_config \<Rightarrow> Song \<Rightarrow> queryArtist list" where
  "usable_artists cfg s = filter (\<lambda>a. \<not> (qa_id a = [] \<and> qa_name a = [] \<and> qa_mbid a = [])) (map (query_artist cfg) (sg_Artists s))"

definition song_query :: "match_config \<Rightarrow> Song \<Rightarrow> songQuery" where
  "song_query cfg s =
     \<lparr>qy_title = SanitizeFieldForSorting cfg (sg_Name s), qy_artists = usable_artists cfg s,
      qy_album = SanitizeFieldForSorting cfg (sg_Album s), qy_albumMBID = sg_AlbumMBID s, qy_durationMs = sg_Duration s\<rparr>"

definition groupQueries :: "match_config \<Rightarrow> Song list \<Rightarrow> (nat \<rightharpoonup> library_file) \<Rightarrow> (nat \<times> songQuery) list" where
  "groupQueries cfg songs result =
     map (\<lambda>i. (i, song_query cfg (songs ! i)))
       (filter (\<lambda>i. result i = None \<and> usable_artists cfg (songs ! i) \<noteq> []) [0..<length songs])"

record resolvedArtists =
  rv_byQuery :: "nat \<Rightarrow> string list"
  rv_mbid :: "string \<Rightarrow> string"
  rv_allIDs :: "string list"

text \<open>The artists of all queries, each with the index of its query: those with an id, and the others.\<close>

definition direct_artists :: "(nat \<times> songQuery) list \<Rightarrow> (nat \<times> string) list" where
  "direct_artists queries = concat (map (\<lambda>(i, q). map (\<lambda>a. (i, qa_id a)) (filter (\<lambda>a. qa_id a \<noteq> []) (qy_artists q))) queries)"

definition pending_artists :: "(nat \<times> songQuery) list \<Rightarrow> (nat \<times> queryArtist) list" where
  "pending_artists queries = concat (map (\<lambda>(i, q). map (\<lambda>a. (i, a)) (filter (\<lambda>a. qa_id a = []) (qy_artists q))) queries)"

definition owns_row :: "artist_row \<Rightarrow> queryArtist \<Rightarrow> bool" where
  "owns_row r a \<longleftrightarrow> qa_name a \<noteq> [] \<and> ar_OrderArtistName r = qa_name a \<or> qa_mbid a \<noteq> [] \<and> ar_MbzArtistID r = qa_mbid a"

definition resolveArtists :: "match_library \<Rightarrow> (nat \<times> songQuery) list \<Rightarrow> match_query + resolvedArtists" where
  "resolveArtists lib queries =
     (let direct = direct_artists queries; pending = pending_artists queries;
          names = filter (\<lambda>n. n \<noteq> []) (map (\<lambda>p. qa_name (snd p)) pending);
          mbids = filter (\<lambda>n. n \<noteq> []) (map (\<lambda>p. qa_mbid (snd p)) pending);
          ids = map snd direct
      in if (names \<noteq> [] \<or> mbids \<noteq> [] \<or> ids \<noteq> []) \<and> ml_fails lib QueryArtists then Inl QueryArtists
         else
           let artists = filter (\<lambda>r. ar_OrderArtistName r \<in> set names \<or> ar_MbzArtistID r \<in> set mbids \<or> ar_ID r \<in> set ids) (ml_artists lib)
           in Inr \<lparr>rv_byQuery = (\<lambda>i. map snd (filter (\<lambda>d. fst d = i) direct)
                      @ map ar_ID (filter (\<lambda>r. list_ex (\<lambda>p. fst p = i \<and> owns_row r (snd p)) pending) artists)),
                  rv_mbid = (\<lambda>x. case map_of (rev (map (\<lambda>r. (ar_ID r, ar_MbzArtistID r)) artists)) x of None \<Rightarrow> [] | Some m \<Rightarrow> m),
                  rv_allIDs = remdups (ids @ map ar_ID artists)\<rparr>)"

definition fetchTracksCreditedTo :: "match_library \<Rightarrow> string list \<Rightarrow> match_query + library_file list" where
  "fetchTracksCreditedTo lib artistIDs =
     (if artistIDs = [] then Inr []
      else if ml_fails lib QueryTracks then Inl QueryTracks
      else Inr (starred_first (filter (\<lambda>f. list_ex (\<lambda>p. p \<in> set artistIDs) (mf_ArtistIDs f) \<and> \<not> mf_Missing f) (ml_files lib))))"

text \<open>A candidate: the file, its fields in the form that is compared, and the artists of the query that it credits.\<close>

record scoredTrack =
  st_file :: library_file
  st_title :: string
  st_artist :: string
  st_album :: string
  st_artistIDs :: "string list"
  st_artistMBIDs :: "string list"
  st_overlap :: nat

definition credited_ids :: "resolvedArtists \<Rightarrow> nat \<Rightarrow> library_file \<Rightarrow> string list" where
  "credited_ids r i f = remdups (filter (\<lambda>p. p \<in> set (rv_byQuery r i)) (mf_ArtistIDs f))"

definition newSanitizedTrack :: "match_config \<Rightarrow> library_file \<Rightarrow> string list \<Rightarrow> string list \<Rightarrow> scoredTrack" where
  "newSanitizedTrack cfg f artistIDs artistMBIDs =
     \<lparr>st_file = f, st_title = SanitizeFieldForSorting cfg (mf_Title f), st_artist = SanitizeFieldForSortingNoArticle cfg (mf_Artist f),
      st_album = SanitizeFieldForSorting cfg (mf_Album f), st_artistIDs = artistIDs, st_artistMBIDs = artistMBIDs,
      st_overlap = length artistIDs\<rparr>"

definition bucketTracks :: "match_config \<Rightarrow> resolvedArtists \<Rightarrow> library_file list \<Rightarrow> nat \<Rightarrow> scoredTrack list" where
  "bucketTracks cfg r tracks i =
     map (\<lambda>f. newSanitizedTrack cfg f (credited_ids r i f) (filter (\<lambda>m. m \<noteq> []) (map (rv_mbid r) (credited_ids r i f))))
       (filter (\<lambda>f. credited_ids r i f \<noteq> []) tracks)"

subsection \<open>Scores\<close>

record matchScore =
  sc_titleSimilarity :: rat
  sc_durationProximity :: rat
  sc_preferredMatch :: bool
  sc_specificityLevel :: nat
  sc_artistOverlap :: nat
  sc_albumSimilarity :: rat

definition betterThan :: "matchScore \<Rightarrow> matchScore \<Rightarrow> bool" where
  "betterThan s other =
     (if sc_titleSimilarity s \<noteq> sc_titleSimilarity other then sc_titleSimilarity s > sc_titleSimilarity other
      else if sc_durationProximity s \<noteq> sc_durationProximity other then sc_durationProximity s > sc_durationProximity other
      else if sc_specificityLevel s \<noteq> sc_specificityLevel other then sc_specificityLevel s > sc_specificityLevel other
      else if sc_artistOverlap s \<noteq> sc_artistOverlap other then sc_artistOverlap s > sc_artistOverlap other
      else if sc_preferredMatch s \<noteq> sc_preferredMatch other then sc_preferredMatch s
      else sc_albumSimilarity s > sc_albumSimilarity other)"

definition specificity :: "songQuery \<Rightarrow> scoredTrack \<Rightarrow> bool \<Rightarrow> queryArtist \<Rightarrow> nat" where
  "specificity q t albumOK a =
     (let identity = (qa_id a \<noteq> [] \<and> qa_id a \<in> set (st_artistIDs t) \<or> qa_mbid a \<noteq> [] \<and> qa_mbid a \<in> set (st_artistMBIDs t)) in
      if identity \<and> qy_albumMBID q \<noteq> [] \<and> lf_MbzAlbumID (st_file t) = qy_albumMBID q then 5
      else if identity \<and> qy_album q \<noteq> [] \<and> albumOK then 4
      else if qa_name a \<noteq> [] \<and> qy_album q \<noteq> [] \<and> st_artist t = qa_name a \<and> albumOK then 3
      else if identity then 2
      else if qa_name a \<noteq> [] \<and> st_artist t = qa_name a then 1
      else 0)"

definition computeSpecificityLevel :: "match_config \<Rightarrow> songQuery \<Rightarrow> scoredTrack \<Rightarrow> rat \<Rightarrow> nat" where
  "computeSpecificityLevel cfg q t albumThreshold =
     (let albumOK = (qy_album q \<noteq> [] \<and> similarityRatio cfg (st_album t) (qy_album q) \<ge> albumThreshold)
      in fold (\<lambda>a best. if specificity q t albumOK a > best then specificity q t albumOK a else best) (qy_artists q) 0)"

definition durationProximity :: "nat \<Rightarrow> rat \<Rightarrow> rat" where
  "durationProximity durationMs mediaFileDurationSec =
     (if durationMs = 0 then 1 else 1 / (1 + \<bar>rat_of_nat durationMs / 1000 - mediaFileDurationSec\<bar>))"

definition isPreferredTrack :: "library_file \<Rightarrow> bool" where
  "isPreferredTrack f \<longleftrightarrow> lf_Starred f \<or> lf_Rating f \<ge> 4"

definition track_score :: "match_config \<Rightarrow> songQuery \<Rightarrow> rat \<Rightarrow> scoredTrack \<Rightarrow> matchScore" where
  "track_score cfg q threshold c =
     \<lparr>sc_titleSimilarity = similarityRatio cfg (qy_title q) (st_title c),
      sc_durationProximity = durationProximity (qy_durationMs q) (mf_Duration (st_file c)),
      sc_preferredMatch = (mc_PreferStarred cfg \<and> isPreferredTrack (st_file c)),
      sc_specificityLevel = computeSpecificityLevel cfg q c threshold,
      sc_artistOverlap = st_overlap c,
      sc_albumSimilarity = (if qy_album q \<noteq> [] then similarityRatio cfg (qy_album q) (st_album c) else 0)\<rparr>"

definition no_score :: matchScore where
  "no_score = \<lparr>sc_titleSimilarity = - 1, sc_durationProximity = 0, sc_preferredMatch = False, sc_specificityLevel = 0,
     sc_artistOverlap = 0, sc_albumSimilarity = 0\<rparr>"

fun best_match ::
    "match_config \<Rightarrow> songQuery \<Rightarrow> rat \<Rightarrow> library_file option \<times> matchScore \<Rightarrow> scoredTrack list \<Rightarrow> library_file option \<times> matchScore" where
  "best_match cfg q threshold best [] = best"
| "best_match cfg q threshold best (c # cs) =
     best_match cfg q threshold
       (if similarityRatio cfg (qy_title q) (st_title c) < threshold then best
        else if betterThan (track_score cfg q threshold c) (snd best) then (Some (st_file c), track_score cfg q threshold c)
        else best) cs"

definition findBestMatch :: "match_config \<Rightarrow> songQuery \<Rightarrow> scoredTrack list \<Rightarrow> rat \<Rightarrow> library_file option" where
  "findBestMatch cfg q candidates threshold = fst (best_match cfg q threshold (None, no_score) candidates)"

definition match_threshold :: "match_config \<Rightarrow> rat" where
  "match_threshold cfg = of_int (mc_FuzzyThreshold cfg) / 100"

definition put_title_match ::
    "match_config \<Rightarrow> (nat \<Rightarrow> scoredTrack list) \<Rightarrow> nat \<times> songQuery \<Rightarrow> (nat \<rightharpoonup> library_file) \<Rightarrow> (nat \<rightharpoonup> library_file)" where
  "put_title_match cfg tracksByQuery iq result =
     (case findBestMatch cfg (snd iq) (tracksByQuery (fst iq)) (match_threshold cfg) of
        None \<Rightarrow> result | Some f \<Rightarrow> result(fst iq \<mapsto> f))"

definition matchByTitle ::
    "match_config \<Rightarrow> match_library \<Rightarrow> Song list \<Rightarrow> (nat \<rightharpoonup> library_file) \<Rightarrow> match_query + (nat \<rightharpoonup> library_file)" where
  "matchByTitle cfg lib songs result =
     (let queries = groupQueries cfg songs result in
      if queries = [] then Inr result
      else case resolveArtists lib queries of
             Inl e \<Rightarrow> Inl e
           | Inr resolved \<Rightarrow>
               if rv_allIDs resolved = [] then Inr result
               else case fetchTracksCreditedTo lib (rv_allIDs resolved) of
                      Inl e \<Rightarrow> Inl e
                    | Inr tracks \<Rightarrow> Inr (fold (put_title_match cfg (bucketTracks cfg resolved tracks)) queries result))"

subsection \<open>All phases\<close>

text \<open>A failure of the title phase only counts when nothing was matched before.\<close>

definition no_matches :: "Song list \<Rightarrow> (nat \<rightharpoonup> library_file) \<Rightarrow> bool" where
  "no_matches songs result \<longleftrightarrow> list_all (\<lambda>i. result i = None) [0..<length songs]"

definition resolveMatches :: "match_config \<Rightarrow> match_library \<Rightarrow> Song list \<Rightarrow> match_query + (nat \<rightharpoonup> library_file)" where
  "resolveMatches cfg lib songs =
     (case matchByID lib songs (\<lambda>_. None) of
        Inl e \<Rightarrow> Inl e
      | Inr r1 \<Rightarrow> (case matchByMBID lib songs r1 of
          Inl e \<Rightarrow> Inl e
        | Inr r2 \<Rightarrow> (case matchByISRC lib songs r2 of
            Inl e \<Rightarrow> Inl e
          | Inr r3 \<Rightarrow> (case matchByTitle cfg lib songs r3 of
              Inl e \<Rightarrow> if no_matches songs r3 then Inl e else Inr r3
            | Inr r4 \<Rightarrow> Inr r4))))"

fun order_and_dedup ::
    "Song list \<Rightarrow> (nat \<rightharpoonup> library_file) \<Rightarrow> int \<Rightarrow> (string \<rightharpoonup> nat) \<Rightarrow> library_file list \<Rightarrow> nat list \<Rightarrow> library_file list" where
  "order_and_dedup songs matches limit addedBy mfs [] = mfs"
| "order_and_dedup songs matches limit addedBy mfs (i # idxs) =
     (if int (length mfs) = limit then mfs
      else case matches i of
             None \<Rightarrow> order_and_dedup songs matches limit addedBy mfs idxs
           | Some f \<Rightarrow>
               (case addedBy (mf_ID f) of
                  Some prevIdx \<Rightarrow>
                    if \<not> song_Equals (songs ! i) (songs ! prevIdx) then order_and_dedup songs matches limit addedBy mfs idxs
                    else order_and_dedup songs matches limit addedBy (mfs @ [f]) idxs
                | None \<Rightarrow> order_and_dedup songs matches limit (addedBy(mf_ID f \<mapsto> i)) (mfs @ [f]) idxs))"

definition orderAndDedup :: "Song list \<Rightarrow> (nat \<rightharpoonup> library_file) \<Rightarrow> int \<Rightarrow> library_file list" where
  "orderAndDedup songs matches limit = order_and_dedup songs matches limit (\<lambda>_. None) [] [0..<length songs]"

definition MatchSongs :: "match_config \<Rightarrow> match_library \<Rightarrow> Song list \<Rightarrow> int \<Rightarrow> match_query + library_file list" where
  "MatchSongs cfg lib songs limit =
     (if songs = [] then Inr []
      else case resolveMatches cfg lib songs of Inl e \<Rightarrow> Inl e | Inr matches \<Rightarrow> Inr (orderAndDedup songs matches limit))"

definition MatchSongsIndexed :: "match_config \<Rightarrow> match_library \<Rightarrow> Song list \<Rightarrow> match_query + (nat \<rightharpoonup> library_file)" where
  "MatchSongsIndexed cfg lib songs = (if songs = [] then Inr (\<lambda>_. None) else resolveMatches cfg lib songs)"

subsection \<open>The exact phases\<close>

definition present :: "match_library \<Rightarrow> library_file \<Rightarrow> bool" where
  "present lib f \<longleftrightarrow> f \<in> set (ml_files lib) \<and> \<not> mf_Missing f"

definition id_hit :: "match_library \<Rightarrow> Song \<Rightarrow> library_file \<Rightarrow> bool" where
  "id_hit lib s f \<longleftrightarrow> present lib f \<and> sg_ID s \<noteq> [] \<and> mf_ID f = sg_ID s"

definition mbid_hit :: "match_library \<Rightarrow> Song \<Rightarrow> library_file \<Rightarrow> bool" where
  "mbid_hit lib s f \<longleftrightarrow> present lib f \<and> sg_MBID s \<noteq> [] \<and> mf_MbzRecordingID f = sg_MBID s"

definition isrc_hit :: "match_library \<Rightarrow> Song \<Rightarrow> library_file \<Rightarrow> bool" where
  "isrc_hit lib s f \<longleftrightarrow> present lib f \<and> sg_ISRC s \<noteq> [] \<and> sg_ISRC s \<in> set (isrc_values f)"

text \<open>A phase keeps what was matched and matches the rest exactly where there is a hit.\<close>

definition phase_ok :: "Song list \<Rightarrow> (Song \<Rightarrow> library_file \<Rightarrow> bool) \<Rightarrow> (nat \<rightharpoonup> library_file) \<Rightarrow> (nat \<rightharpoonup> library_file) \<Rightarrow> bool" where
  "phase_ok songs hit r r' \<longleftrightarrow>
     (\<forall>i. r i \<noteq> None \<longrightarrow> r' i = r i)
     \<and> (\<forall>i < length songs. r i = None \<longrightarrow>
          (case r' i of None \<Rightarrow> \<forall>f. \<not> hit (songs ! i) f | Some f \<Rightarrow> hit (songs ! i) f))"

lemma set_wanted: "set (wanted k songs r) = {k (songs ! i) | i. i < length songs \<and> r i = None \<and> k (songs ! i) \<noteq> []}"
  by (auto simp: wanted_def)

lemma wanted_empty:
  assumes "wanted k songs r = []" "\<And>s f. hit s f \<Longrightarrow> k s \<noteq> []"
  shows "phase_ok songs hit r r"
proof -
  have "k (songs ! i) = []" if "i < length songs" "r i = None" for i
    using that assms(1) set_wanted [of k songs r] by auto
  then show ?thesis using assms(2) by (fastforce simp: phase_ok_def)
qed

lemma fill_result_ok:
  assumes "\<And>x f. x \<in> set (wanted k songs r) \<Longrightarrow> found x = Some f \<Longrightarrow> P x f"
    and "\<And>x f. x \<in> set (wanted k songs r) \<Longrightarrow> found x = None \<Longrightarrow> \<not> P x f"
    and "\<And>s f. hit s f \<longleftrightarrow> k s \<noteq> [] \<and> P (k s) f"
  shows "phase_ok songs hit r (fill_result k songs found r)"
  unfolding phase_ok_def
proof (intro conjI allI impI)
  fix i assume i: "i < length songs" "r i = None"
  show "case fill_result k songs found r i of None \<Rightarrow> \<forall>f. \<not> hit (songs ! i) f | Some f \<Rightarrow> hit (songs ! i) f"
  proof (cases "k (songs ! i) = []")
    case True
    then show ?thesis using i by (simp add: fill_result_def assms(3))
  next
    case False
    then have "k (songs ! i) \<in> set (wanted k songs r)" using i by (auto simp: set_wanted)
    then show ?thesis using i False assms(1,2) by (simp add: fill_result_def assms(3) split: option.splits)
  qed
qed (auto simp: fill_result_def)

lemma map_of_None_iff: "map_of ps x = None \<longleftrightarrow> (\<forall>y. (x, y) \<notin> set ps)"
  by (metis map_of_eq_None_iff map_of_SomeD not_Some_eq weak_map_of_SomeI)

lemma set_starred_first [simp]: "set (starred_first files) = set files"
  by (simp add: starred_first_def)

lemma matchByID_ok:
  assumes "matchByID lib songs (\<lambda>_. None) = Inr r"
  shows "phase_ok songs (id_hit lib) (\<lambda>_. None) r"
proof (cases "wanted sg_ID songs (\<lambda>_. None) = []")
  case True
  then show ?thesis
    using assms wanted_empty [OF True, of "id_hit lib"] by (simp add: matchByID_def id_hit_def)
next
  case False
  let ?found = "map_of (rev (map (\<lambda>f. (mf_ID f, f)) (filter (\<lambda>f. mf_ID f \<in> set (wanted sg_ID songs (\<lambda>_. None)) \<and> \<not> mf_Missing f) (ml_files lib))))"
  have r: "r = fill_result sg_ID songs ?found (\<lambda>_. None)"
    using assms False by (auto simp: matchByID_def Let_def split: if_splits)
  show ?thesis unfolding r
  proof (rule fill_result_ok [where P = "\<lambda>x f. present lib f \<and> mf_ID f = x"])
    fix x f assume "?found x = Some f"
    from map_of_SomeD [OF this] show "present lib f \<and> mf_ID f = x" by (auto simp: present_def)
  next
    fix x f assume "x \<in> set (wanted sg_ID songs (\<lambda>_. None))" "?found x = None"
    then show "\<not> (present lib f \<and> mf_ID f = x)" by (auto simp: present_def map_of_None_iff)
  qed (auto simp: id_hit_def)
qed

lemma matchByMBID_ok:
  assumes "matchByMBID lib songs r0 = Inr r"
  shows "phase_ok songs (mbid_hit lib) r0 r"
proof (cases "wanted sg_MBID songs r0 = []")
  case True
  then show ?thesis
    using assms wanted_empty [OF True, of "mbid_hit lib"] by (simp add: matchByMBID_def mbid_hit_def)
next
  case False
  let ?found = "map_of (map (\<lambda>f. (mf_MbzRecordingID f, f)) (filter (\<lambda>f. mf_MbzRecordingID f \<noteq> [])
    (filter (\<lambda>f. mf_MbzRecordingID f \<in> set (wanted sg_MBID songs r0) \<and> \<not> mf_Missing f) (ml_files lib))))"
  have r: "r = fill_result sg_MBID songs ?found r0"
    using assms False by (auto simp: matchByMBID_def Let_def split: if_splits)
  show ?thesis unfolding r
  proof (rule fill_result_ok [where P = "\<lambda>x f. present lib f \<and> mf_MbzRecordingID f = x"])
    fix x f assume "?found x = Some f"
    from map_of_SomeD [OF this] show "present lib f \<and> mf_MbzRecordingID f = x" by (auto simp: present_def)
  next
    fix x f assume "x \<in> set (wanted sg_MBID songs r0)" "?found x = None"
    moreover have "x \<noteq> []" using calculation(1) by (auto simp: set_wanted)
    ultimately show "\<not> (present lib f \<and> mf_MbzRecordingID f = x)" by (auto simp: present_def map_of_None_iff)
  qed (auto simp: mbid_hit_def)
qed

lemma matchByISRC_ok:
  assumes "matchByISRC lib songs r0 = Inr r"
  shows "phase_ok songs (isrc_hit lib) r0 r"
proof (cases "wanted sg_ISRC songs r0 = []")
  case True
  then show ?thesis
    using assms wanted_empty [OF True, of "isrc_hit lib"] by (simp add: matchByISRC_def isrc_hit_def)
next
  case False
  let ?res = "starred_first (filter (\<lambda>f. list_ex (\<lambda>v. v \<in> set (wanted sg_ISRC songs r0)) (isrc_values f) \<and> \<not> mf_Missing f) (ml_files lib))"
  let ?found = "map_of (concat (map (\<lambda>f. map (\<lambda>v. (v, f)) (isrc_values f)) ?res))"
  have r: "r = fill_result sg_ISRC songs ?found r0"
    using assms False by (auto simp: matchByISRC_def Let_def split: if_splits)
  show ?thesis unfolding r
  proof (rule fill_result_ok [where P = "\<lambda>x f. present lib f \<and> x \<in> set (isrc_values f)"])
    fix x f assume "?found x = Some f"
    from map_of_SomeD [OF this] show "present lib f \<and> x \<in> set (isrc_values f)" by (auto simp: present_def)
  next
    fix x f assume "x \<in> set (wanted sg_ISRC songs r0)" "?found x = None"
    then show "\<not> (present lib f \<and> x \<in> set (isrc_values f))"
      unfolding map_of_None_iff by (auto simp: present_def list_ex_iff)
  qed (auto simp: isrc_hit_def)
qed

subsection \<open>The title phase\<close>

text \<open>A file is a candidate for a song when it credits one of its artists: the one of that id, or without an id one of that name or
  MusicBrainz id.\<close>

definition owned_by :: "match_library \<Rightarrow> queryArtist \<Rightarrow> string \<Rightarrow> bool" where
  "owned_by lib a p \<longleftrightarrow> (if qa_id a \<noteq> [] then p = qa_id a else \<exists>r \<in> set (ml_artists lib). ar_ID r = p \<and> owns_row r a)"

definition credited_to :: "match_config \<Rightarrow> match_library \<Rightarrow> Song \<Rightarrow> library_file \<Rightarrow> bool" where
  "credited_to cfg lib s f \<longleftrightarrow> (\<exists>a \<in> set (sg_Artists s). \<exists>p \<in> set (mf_ArtistIDs f). owned_by lib (query_artist cfg a) p)"

definition title_similarity :: "match_config \<Rightarrow> Song \<Rightarrow> library_file \<Rightarrow> rat" where
  "title_similarity cfg s f = similarityRatio cfg (SanitizeFieldForSorting cfg (sg_Name s)) (SanitizeFieldForSorting cfg (mf_Title f))"

definition candidate :: "match_config \<Rightarrow> match_library \<Rightarrow> Song \<Rightarrow> library_file \<Rightarrow> bool" where
  "candidate cfg lib s f \<longleftrightarrow> present lib f \<and> credited_to cfg lib s f \<and> title_similarity cfg s f \<ge> match_threshold cfg"

definition at_least :: "rat \<times> rat \<Rightarrow> rat \<times> rat \<Rightarrow> bool" where
  "at_least p q \<longleftrightarrow> fst p > fst q \<or> fst p = fst q \<and> snd p \<ge> snd q"

definition score_pair :: "matchScore \<Rightarrow> rat \<times> rat" where
  "score_pair s = (sc_titleSimilarity s, sc_durationProximity s)"

lemma at_least_refl [simp]: "at_least p p"
  by (simp add: at_least_def)

lemma at_least_trans: "at_least p q \<Longrightarrow> at_least q r \<Longrightarrow> at_least p r"
  by (auto simp: at_least_def)

lemma betterThan_at_least:
  "betterThan s t \<Longrightarrow> at_least (score_pair s) (score_pair t)" "\<not> betterThan s t \<Longrightarrow> at_least (score_pair t) (score_pair s)"
  by (auto simp: betterThan_def at_least_def score_pair_def split: if_splits)

lemma best_match_spec:
  assumes "best_match cfg q thr best cs = (f, sc)"
  shows "at_least (score_pair sc) (score_pair (snd best))
    \<and> (\<forall>c \<in> set cs. similarityRatio cfg (qy_title q) (st_title c) \<ge> thr \<longrightarrow> at_least (score_pair sc) (score_pair (track_score cfg q thr c)))
    \<and> ((f, sc) = best \<or> (\<exists>c \<in> set cs. f = Some (st_file c) \<and> sc = track_score cfg q thr c
         \<and> similarityRatio cfg (qy_title q) (st_title c) \<ge> thr))"
  using assms
proof (induction cs arbitrary: best)
  case (Cons c cs)
  let ?low = "similarityRatio cfg (qy_title q) (st_title c) < thr" and ?score = "track_score cfg q thr c"
  define best' where "best' = (if ?low then best else if betterThan ?score (snd best) then (Some (st_file c), ?score) else best)"
  have "best_match cfg q thr best' cs = (f, sc)" using Cons.prems by (simp add: best'_def)
  note IH = Cons.IH [OF this]
  have step: "at_least (score_pair (snd best')) (score_pair (snd best))" "\<not> ?low \<Longrightarrow> at_least (score_pair (snd best')) (score_pair ?score)"
    using betterThan_at_least [of ?score "snd best"] by (auto simp: best'_def)
  have "at_least (score_pair sc) (score_pair (snd best))" "\<not> ?low \<Longrightarrow> at_least (score_pair sc) (score_pair ?score)"
    using IH step at_least_trans by blast+
  moreover have "best' = best \<or> \<not> ?low \<and> best' = (Some (st_file c), ?score)" by (simp add: best'_def)
  ultimately show ?case using IH by (auto simp: not_less)
qed simp

lemma similarityRatio_nonneg: "\<forall>a b. mc_JaroWinkler cfg a b \<ge> 0 \<Longrightarrow> similarityRatio cfg a b \<ge> 0"
  by (simp add: similarityRatio_def)

lemma findBestMatch_spec:
  assumes "\<forall>a b. mc_JaroWinkler cfg a b \<ge> 0"
  shows "case findBestMatch cfg q cs thr of
      None \<Rightarrow> \<forall>c \<in> set cs. similarityRatio cfg (qy_title q) (st_title c) < thr
    | Some f \<Rightarrow> \<exists>c \<in> set cs. f = st_file c \<and> similarityRatio cfg (qy_title q) (st_title c) \<ge> thr
        \<and> (\<forall>d \<in> set cs. similarityRatio cfg (qy_title q) (st_title d) \<ge> thr \<longrightarrow>
             at_least (score_pair (track_score cfg q thr c)) (score_pair (track_score cfg q thr d)))"
proof -
  obtain f sc where best: "best_match cfg q thr (None, no_score) cs = (f, sc)" by fastforce
  note spec = best_match_spec [OF best]
  show ?thesis
  proof (cases f)
    case None
    then have "sc = no_score" using spec by auto
    then have "\<not> similarityRatio cfg (qy_title q) (st_title c) \<ge> thr" if "c \<in> set cs" for c
      using spec that similarityRatio_nonneg [OF assms, of "qy_title q" "st_title c"]
      by (auto simp: at_least_def score_pair_def no_score_def track_score_def)
    then show ?thesis using best None by (auto simp: findBestMatch_def not_le)
  next
    case (Some g)
    then obtain c where c: "c \<in> set cs" "g = st_file c" "sc = track_score cfg q thr c" "similarityRatio cfg (qy_title q) (st_title c) \<ge> thr"
      using spec by auto
    then show ?thesis using best Some spec by (auto simp: findBestMatch_def)
  qed
qed

lemma fold_put_title:
  "distinct (map fst queries) \<Longrightarrow>
    fold (put_title_match cfg tracks) queries r i =
      (case map_of queries i of None \<Rightarrow> r i
       | Some q \<Rightarrow> (case findBestMatch cfg q (tracks i) (match_threshold cfg) of None \<Rightarrow> r i | Some f \<Rightarrow> Some f))"
proof (induction queries arbitrary: r)
  case (Cons iq queries)
  obtain j q where iq: "iq = (j, q)" by fastforce
  let ?r = "put_title_match cfg tracks iq r"
  have "fold (put_title_match cfg tracks) (iq # queries) r i = fold (put_title_match cfg tracks) queries ?r i" by simp
  also have "\<dots> = (case map_of queries i of None \<Rightarrow> ?r i
       | Some q \<Rightarrow> (case findBestMatch cfg q (tracks i) (match_threshold cfg) of None \<Rightarrow> ?r i | Some f \<Rightarrow> Some f))"
    by (rule Cons.IH) (use Cons.prems in simp)
  finally have fold: "fold (put_title_match cfg tracks) (iq # queries) r i = \<dots>" .
  show ?case
  proof (cases "j = i")
    case True
    then have "map_of queries i = None" using Cons.prems by (simp add: iq map_of_eq_None_iff)
    then show ?thesis unfolding fold using True by (simp add: iq put_title_match_def split: option.splits)
  next
    case False
    then have r: "?r i = r i" by (simp add: iq put_title_match_def split: option.splits)
    show ?thesis unfolding fold r using False by (simp add: iq)
  qed
qed simp

lemma groupQueries_map_of:
  "map_of (groupQueries cfg songs r) i =
    (if i < length songs \<and> r i = None \<and> usable_artists cfg (songs ! i) \<noteq> [] then Some (song_query cfg (songs ! i)) else None)"
  by (auto simp: groupQueries_def map_of_map_restrict comp_def restrict_map_def)

lemma groupQueries_distinct: "distinct (map fst (groupQueries cfg songs r))"
  by (simp add: groupQueries_def comp_def)

lemma set_usable: "set (usable_artists cfg s) = {query_artist cfg a | a. a \<in> set (sg_Artists s)
    \<and> (aa_ID a \<noteq> [] \<or> qa_name (query_artist cfg a) \<noteq> [] \<or> aa_MBID a \<noteq> [])}"
  by (auto simp: usable_artists_def query_artist_def)

lemma credited_usable:
  "credited_to cfg lib s f \<longleftrightarrow> (\<exists>a \<in> set (usable_artists cfg s). \<exists>p \<in> set (mf_ArtistIDs f). owned_by lib a p)"
proof -
  have "aa_ID a \<noteq> [] \<or> qa_name (query_artist cfg a) \<noteq> [] \<or> aa_MBID a \<noteq> []" if "owned_by lib (query_artist cfg a) p" for a p
    using that by (auto simp: owned_by_def owns_row_def query_artist_def split: if_splits)
  then show ?thesis unfolding credited_to_def set_usable by blast
qed

lemma resolveArtists_owned:
  assumes "resolveArtists lib queries = Inr r" "map_of queries i = Some q" "distinct (map fst queries)"
  shows "set (rv_byQuery r i) = {p. \<exists>a \<in> set (qy_artists q). owned_by lib a p}" "set (rv_byQuery r i) \<subseteq> set (rv_allIDs r)"
proof -
  have q: "(i, q') \<in> set queries \<longleftrightarrow> q' = q" for q'
    using assms(2,3) by (metis eq_key_imp_eq_value map_of_SomeD)
  have direct: "(i, p) \<in> set (direct_artists queries) \<longleftrightarrow> (\<exists>a \<in> set (qy_artists q). qa_id a \<noteq> [] \<and> qa_id a = p)" for p
    using q by (auto simp: direct_artists_def)
  have pending: "(i, a) \<in> set (pending_artists queries) \<longleftrightarrow> a \<in> set (qy_artists q) \<and> qa_id a = []" for a
    using q by (auto simp: pending_artists_def)
  define row where "row x \<longleftrightarrow> ar_OrderArtistName x \<in> {n. n \<noteq> [] \<and> n \<in> (\<lambda>p. qa_name (snd p)) ` set (pending_artists queries)}
      \<or> ar_MbzArtistID x \<in> {n. n \<noteq> [] \<and> n \<in> (\<lambda>p. qa_mbid (snd p)) ` set (pending_artists queries)}
      \<or> ar_ID x \<in> snd ` set (direct_artists queries)" for x :: artist_row
  have row: "row x" if "(j, a) \<in> set (pending_artists queries)" "owns_row x a" for j a x
    using that by (force simp: owns_row_def row_def)
  have byQuery: "set (rv_byQuery r i) = snd ` {d \<in> set (direct_artists queries). fst d = i}
      \<union> ar_ID ` {x \<in> set (ml_artists lib). row x \<and> (\<exists>p \<in> set (pending_artists queries). fst p = i \<and> owns_row x (snd p))}"
    and allIDs: "set (rv_allIDs r) = snd ` set (direct_artists queries) \<union> ar_ID ` {x \<in> set (ml_artists lib). row x}"
    using assms(1) unfolding resolveArtists_def Let_def row_def
    by (simp_all split: if_splits add: list_ex_iff) (drule sym, simp, blast)+
  show "set (rv_byQuery r i) \<subseteq> set (rv_allIDs r)" unfolding byQuery allIDs by auto
  have "p \<in> set (rv_byQuery r i) \<longleftrightarrow> (\<exists>a \<in> set (qy_artists q). owned_by lib a p)" for p
  proof -
    let ?direct = "\<exists>a \<in> set (qy_artists q). qa_id a \<noteq> [] \<and> qa_id a = p"
      and ?found = "\<exists>x \<in> set (ml_artists lib). ar_ID x = p \<and> (\<exists>a \<in> set (qy_artists q). qa_id a = [] \<and> owns_row x a)"
    have a: "p \<in> snd ` {d \<in> set (direct_artists queries). fst d = i} \<longleftrightarrow> ?direct"
      unfolding direct [symmetric] by force
    have rows: "(\<exists>p \<in> set (pending_artists queries). fst p = i \<and> owns_row x (snd p))
        \<longleftrightarrow> (\<exists>a \<in> set (qy_artists q). qa_id a = [] \<and> owns_row x a)" for x
      using pending by force
    have "row x" if "\<exists>a \<in> set (qy_artists q). qa_id a = [] \<and> owns_row x a" for x
      using that row pending by blast
    then have b: "p \<in> ar_ID ` {x \<in> set (ml_artists lib). row x \<and> (\<exists>p \<in> set (pending_artists queries). fst p = i \<and> owns_row x (snd p))} \<longleftrightarrow> ?found"
      unfolding rows by blast
    have "p \<in> set (rv_byQuery r i) \<longleftrightarrow> ?direct \<or> ?found" by (simp only: byQuery Un_iff a b)
    also have "\<dots> \<longleftrightarrow> (\<exists>a \<in> set (qy_artists q). owned_by lib a p)"
      unfolding owned_by_def if_bool_eq_disj by blast
    finally show ?thesis .
  qed
  then show "set (rv_byQuery r i) = {p. \<exists>a \<in> set (qy_artists q). owned_by lib a p}" by blast
qed

lemma newSanitizedTrack_simps [simp]:
  "st_file (newSanitizedTrack cfg f ids mbids) = f"
  "st_title (newSanitizedTrack cfg f ids mbids) = SanitizeFieldForSorting cfg (mf_Title f)"
  by (simp_all add: newSanitizedTrack_def)

definition closeness :: "match_config \<Rightarrow> Song \<Rightarrow> library_file \<Rightarrow> rat \<times> rat" where
  "closeness cfg s f = (title_similarity cfg s f, durationProximity (sg_Duration s) (mf_Duration f))"

lemma score_pair_song:
  "score_pair (track_score cfg (song_query cfg s) thr (newSanitizedTrack cfg f ids mbids)) = closeness cfg s f"
  by (simp add: score_pair_def track_score_def closeness_def title_similarity_def song_query_def)

definition title_best :: "match_config \<Rightarrow> match_library \<Rightarrow> Song \<Rightarrow> library_file \<Rightarrow> bool" where
  "title_best cfg lib s f \<longleftrightarrow> candidate cfg lib s f \<and> (\<forall>g. candidate cfg lib s g \<longrightarrow> at_least (closeness cfg s f) (closeness cfg s g))"

lemma bucket_candidates:
  assumes "set (rv_byQuery r i) = {p. \<exists>a \<in> set (usable_artists cfg s). owned_by lib a p}" "set (rv_byQuery r i) \<subseteq> set (rv_allIDs r)"
    and "fetchTracksCreditedTo lib (rv_allIDs r) = Inr tracks" "rv_allIDs r \<noteq> []"
  shows "st_file ` set (bucketTracks cfg r tracks i) = {f. present lib f \<and> credited_to cfg lib s f}"
    and "c \<in> set (bucketTracks cfg r tracks i) \<Longrightarrow> \<exists>ids mbids. c = newSanitizedTrack cfg (st_file c) ids mbids"
proof -
  have tracks: "set tracks = {f. present lib f \<and> (\<exists>p \<in> set (mf_ArtistIDs f). p \<in> set (rv_allIDs r))}"
    using assms(3,4) by (auto simp: fetchTracksCreditedTo_def present_def list_ex_iff split: if_splits)
  have "credited_ids r i f \<noteq> [] \<longleftrightarrow> (\<exists>p \<in> set (mf_ArtistIDs f). p \<in> set (rv_byQuery r i))" for f
    by (auto simp: credited_ids_def filter_empty_conv)
  then have credited: "credited_ids r i f \<noteq> [] \<longleftrightarrow> credited_to cfg lib s f" for f
    unfolding credited_usable assms(1) by blast
  have "f \<in> set tracks" if "present lib f" "credited_to cfg lib s f" for f
    using that assms(1,2) unfolding tracks credited_usable by blast
  then show "st_file ` set (bucketTracks cfg r tracks i) = {f. present lib f \<and> credited_to cfg lib s f}"
    using tracks by (auto simp: bucketTracks_def credited image_image)
  show "\<exists>ids mbids. c = newSanitizedTrack cfg (st_file c) ids mbids" if c: "c \<in> set (bucketTracks cfg r tracks i)"
  proof -
    obtain f where "c = newSanitizedTrack cfg f (credited_ids r i f) (filter (\<lambda>m. m \<noteq> []) (map (rv_mbid r) (credited_ids r i f)))"
      using c by (auto simp: bucketTracks_def)
    then show ?thesis by (metis newSanitizedTrack_simps(1))
  qed
qed

lemma findBestMatch_song:
  assumes "\<forall>a b. mc_JaroWinkler cfg a b \<ge> 0"
    and files: "st_file ` set cs = {f. present lib f \<and> credited_to cfg lib s f}"
    and shape: "\<And>c. c \<in> set cs \<Longrightarrow> \<exists>ids mbids. c = newSanitizedTrack cfg (st_file c) ids mbids"
  shows "case findBestMatch cfg (song_query cfg s) cs (match_threshold cfg) of
      None \<Rightarrow> \<forall>f. \<not> candidate cfg lib s f | Some f \<Rightarrow> title_best cfg lib s f"
proof -
  have sim: "similarityRatio cfg (qy_title (song_query cfg s)) (st_title c) = title_similarity cfg s (st_file c)" if "c \<in> set cs" for c
    using shape [OF that] by (metis newSanitizedTrack_simps(2) select_convs(1) song_query_def title_similarity_def songQuery.select_convs(1))
  have pair: "score_pair (track_score cfg (song_query cfg s) (match_threshold cfg) c) = closeness cfg s (st_file c)" if "c \<in> set cs" for c
    using shape [OF that] score_pair_song by metis
  have member: "candidate cfg lib s f \<longleftrightarrow> (\<exists>c \<in> set cs. st_file c = f \<and> title_similarity cfg s f \<ge> match_threshold cfg)" for f
  proof -
    have "f \<in> st_file ` set cs \<longleftrightarrow> present lib f \<and> credited_to cfg lib s f" by (simp add: files)
    then show ?thesis unfolding candidate_def by blast
  qed
  note spec = findBestMatch_spec [OF assms(1), where q = "song_query cfg s" and cs = cs and thr = "match_threshold cfg"]
  show ?thesis
  proof (cases "findBestMatch cfg (song_query cfg s) cs (match_threshold cfg)")
    case None
    then show ?thesis using spec sim member by force
  next
    case (Some f)
    then obtain c where c: "c \<in> set cs" "f = st_file c" "match_threshold cfg \<le> similarityRatio cfg (qy_title (song_query cfg s)) (st_title c)"
      and best: "\<And>d. d \<in> set cs \<Longrightarrow> match_threshold cfg \<le> similarityRatio cfg (qy_title (song_query cfg s)) (st_title d) \<Longrightarrow>
        at_least (score_pair (track_score cfg (song_query cfg s) (match_threshold cfg) c))
          (score_pair (track_score cfg (song_query cfg s) (match_threshold cfg) d))"
      using spec unfolding Some option.case by blast
    have "title_similarity cfg s f \<ge> match_threshold cfg" using c(3) sim [OF c(1)] c(2) by simp
    then have "candidate cfg lib s f" using c(1,2) by (simp only: member) (rule bexI [of _ c], simp_all)
    moreover have "at_least (closeness cfg s f) (closeness cfg s g)" if g: "candidate cfg lib s g" for g
    proof -
      obtain d where d: "d \<in> set cs" "st_file d = g" "title_similarity cfg s g \<ge> match_threshold cfg"
        using g [unfolded member] by blast
      then show ?thesis using best [OF d(1)] sim [OF d(1)] pair [OF d(1)] pair [OF c(1)] c(2) by simp
    qed
    ultimately have "title_best cfg lib s f" by (simp add: title_best_def)
    then show ?thesis using Some by simp
  qed
qed

lemma matchByTitle_ok:
  assumes "\<forall>a b. mc_JaroWinkler cfg a b \<ge> 0" "matchByTitle cfg lib songs r = Inr r'"
  shows "r i \<noteq> None \<Longrightarrow> r' i = r i"
    and "i < length songs \<Longrightarrow> r i = None \<Longrightarrow>
      (case r' i of None \<Rightarrow> \<forall>f. \<not> candidate cfg lib (songs ! i) f | Some f \<Rightarrow> title_best cfg lib (songs ! i) f)"
proof -
  let ?queries = "groupQueries cfg songs r"
  have none: "\<not> candidate cfg lib (songs ! i) f" if "usable_artists cfg (songs ! i) = []" for f
    using that by (simp add: candidate_def credited_usable)
  consider (empty) "?queries = []" "r' = r"
    | (unresolved) res where "resolveArtists lib ?queries = Inr res" "rv_allIDs res = []" "r' = r"
    | (found) res tracks where "resolveArtists lib ?queries = Inr res" "rv_allIDs res \<noteq> []" "fetchTracksCreditedTo lib (rv_allIDs res) = Inr tracks"
        "r' = fold (put_title_match cfg (bucketTracks cfg res tracks)) ?queries r"
    using assms(2) by (auto simp: matchByTitle_def Let_def split: if_splits sum.splits)
  then have "(r i \<noteq> None \<longrightarrow> r' i = r i) \<and> (i < length songs \<and> r i = None \<longrightarrow>
      (case r' i of None \<Rightarrow> \<forall>f. \<not> candidate cfg lib (songs ! i) f | Some f \<Rightarrow> title_best cfg lib (songs ! i) f))"
  proof cases
    case empty
    then have "usable_artists cfg (songs ! i) = []" if "i < length songs" "r i = None"
      using groupQueries_map_of [of cfg songs r i] that by (auto split: if_splits)
    then show ?thesis using empty none by auto
  next
    case unresolved
    have "\<not> candidate cfg lib (songs ! i) f" if "i < length songs" "r i = None" for f
    proof (cases "usable_artists cfg (songs ! i) = []")
      case False
      then have "map_of ?queries i = Some (song_query cfg (songs ! i))" using that by (simp add: groupQueries_map_of)
      from resolveArtists_owned [OF unresolved(1) this groupQueries_distinct] unresolved(2)
      have "\<not> owned_by lib a p" if "a \<in> set (usable_artists cfg (songs ! i))" for a p using that by (auto simp: song_query_def)
      then show ?thesis by (auto simp: candidate_def credited_usable)
    qed (rule none)
    then show ?thesis using unresolved(3) by auto
  next
    case found
    note fold = fold_put_title [OF groupQueries_distinct [of cfg songs r], where tracks = "bucketTracks cfg res tracks" and cfg = cfg and r = r and i = i,
        folded found(4)]
    show ?thesis
    proof (cases "i < length songs \<and> r i = None \<and> usable_artists cfg (songs ! i) \<noteq> []")
      case True
      then have q: "map_of ?queries i = Some (song_query cfg (songs ! i))" by (simp add: groupQueries_map_of)
      note owned = resolveArtists_owned [OF found(1) q groupQueries_distinct]
      have "qy_artists (song_query cfg (songs ! i)) = usable_artists cfg (songs ! i)" by (simp add: song_query_def)
      note bucket = bucket_candidates [OF owned [unfolded this] found(3,2)]
      from findBestMatch_song [OF assms(1) bucket] show ?thesis
        using True fold q by (auto split: option.splits)
    next
      case False
      then have "map_of ?queries i = None" by (simp only: groupQueries_map_of if_False)
      then have "r' i = r i" using fold by simp
      then show ?thesis using False none by auto
    qed
  qed
  then show "r i \<noteq> None \<Longrightarrow> r' i = r i" "i < length songs \<Longrightarrow> r i = None \<Longrightarrow>
      (case r' i of None \<Rightarrow> \<forall>f. \<not> candidate cfg lib (songs ! i) f | Some f \<Rightarrow> title_best cfg lib (songs ! i) f)"
    by blast+
qed

text \<open>C21: A song is matched to the file of its id, else of its recording, else of its ISRC, and only when the library has none of these by
  its title: then to a track of one of its artists whose title is similar enough, and none of these tracks has a title that is more
  similar, or equally similar with a closer duration. Missing files never match, and a song stays without a match only if there is no such
  file, or the queries for the title fail.\<close>

theorem song_matches_best:
  assumes "\<forall>a b. mc_JaroWinkler cfg a b \<ge> 0" "resolveMatches cfg lib songs = Inr m" "i < length songs" "s = songs ! i"
  shows "if \<exists>f. id_hit lib s f then \<exists>f. m i = Some f \<and> id_hit lib s f
    else if \<exists>f. mbid_hit lib s f then \<exists>f. m i = Some f \<and> mbid_hit lib s f
    else if \<exists>f. isrc_hit lib s f then \<exists>f. m i = Some f \<and> isrc_hit lib s f
    else (case m i of
        Some f \<Rightarrow> title_best cfg lib s f
      | None \<Rightarrow> ml_fails lib QueryArtists \<or> ml_fails lib QueryTracks \<or> (\<forall>f. \<not> candidate cfg lib s f))"
proof -
  obtain r1 r2 r3 where r: "matchByID lib songs (\<lambda>_. None) = Inr r1" "matchByMBID lib songs r1 = Inr r2" "matchByISRC lib songs r2 = Inr r3"
    and title: "case matchByTitle cfg lib songs r3 of Inl e \<Rightarrow> m = r3 | Inr r4 \<Rightarrow> m = r4"
    using assms(2) by (auto simp: resolveMatches_def split: sum.splits if_splits)
  note phases = matchByID_ok [OF r(1)] matchByMBID_ok [OF r(2)] matchByISRC_ok [OF r(3)]
  have keep: "m i = r3 i" if "r3 i \<noteq> None"
    using title matchByTitle_ok(1) [OF assms(1), where r = r3 and i = i and lib = lib and songs = songs] that by (auto split: sum.splits)
  have 1: "case r1 i of None \<Rightarrow> \<forall>f. \<not> id_hit lib s f | Some f \<Rightarrow> id_hit lib s f"
    and 2: "r1 i \<noteq> None \<Longrightarrow> r2 i = r1 i" "r1 i = None \<Longrightarrow> case r2 i of None \<Rightarrow> \<forall>f. \<not> mbid_hit lib s f | Some f \<Rightarrow> mbid_hit lib s f"
    and 3: "r2 i \<noteq> None \<Longrightarrow> r3 i = r2 i" "r2 i = None \<Longrightarrow> case r3 i of None \<Rightarrow> \<forall>f. \<not> isrc_hit lib s f | Some f \<Rightarrow> isrc_hit lib s f"
    using phases assms(3,4) unfolding phase_ok_def by blast+
  have fails: "ml_fails lib QueryArtists \<or> ml_fails lib QueryTracks" if "matchByTitle cfg lib songs r3 = Inl e" for e
    using that by (auto simp: matchByTitle_def resolveArtists_def fetchTracksCreditedTo_def Let_def split: if_splits sum.splits)
  have 4: "case m i of Some f \<Rightarrow> title_best cfg lib s f
      | None \<Rightarrow> ml_fails lib QueryArtists \<or> ml_fails lib QueryTracks \<or> (\<forall>f. \<not> candidate cfg lib s f)" if "r3 i = None"
    using title fails matchByTitle_ok(2) [OF assms(1), where r = r3 and i = i and lib = lib and songs = songs] that assms(3,4) by (auto split: sum.splits option.splits)
  show ?thesis
  proof (cases "r1 i")
    case (Some f)
    then have "m i = Some f" "id_hit lib s f" using 1 2(1) 3(1) keep by auto
    then show ?thesis by auto
  next
    case None
    note r1 = this 1
    show ?thesis
    proof (cases "r2 i")
      case (Some f)
      then have "m i = Some f" "mbid_hit lib s f" using r1 2(2) 3(1) keep by auto
      then show ?thesis using r1 by auto
    next
      case None
      note r2 = this 2(2)
      show ?thesis
      proof (cases "r3 i")
        case (Some f)
        then have "m i = Some f" "isrc_hit lib s f" using r2 3(2) keep by auto
        then show ?thesis using r1 r2 by auto
      next
        case None
        then show ?thesis using 4 r1 r2 3(2) by (auto split: option.splits)
      qed
    qed
  qed
qed

subsection \<open>Order and duplicates\<close>

lemma song_Equals_refl [simp]: "song_Equals s s"
  by (simp add: song_Equals_def)

lemma song_Equals_euclid: "song_Equals s u \<Longrightarrow> song_Equals t u \<Longrightarrow> song_Equals s t"
  by (simp add: song_Equals_def)

text \<open>The indices whose files were added, and who added an id first.\<close>

definition added_ok :: "Song list \<Rightarrow> (nat \<rightharpoonup> library_file) \<Rightarrow> (string \<rightharpoonup> nat) \<Rightarrow> nat list \<Rightarrow> bool" where
  "added_ok songs m addedBy ds \<longleftrightarrow>
     (\<forall>p k. addedBy p = Some k \<longrightarrow> k \<in> set ds \<and> mf_ID (the (m k)) = p)
     \<and> (\<forall>d \<in> set ds. m d \<noteq> None \<and> (\<exists>k. addedBy (mf_ID (the (m d))) = Some k \<and> song_Equals (songs ! d) (songs ! k)))"

lemma added_ok_new:
  assumes "added_ok songs m addedBy ds" "m i = Some f" "addedBy (mf_ID f) = None"
  shows "added_ok songs m (addedBy(mf_ID f \<mapsto> i)) (ds @ [i])"
  using assms unfolding added_ok_def by (fastforce split: if_splits)

lemma added_ok_again:
  assumes "added_ok songs m addedBy ds" "m i = Some f" "addedBy (mf_ID f) = Some k" "song_Equals (songs ! i) (songs ! k)"
  shows "added_ok songs m addedBy (ds @ [i])"
  using assms unfolding added_ok_def by auto

lemma order_and_dedup_spec:
  assumes "added_ok songs m addedBy ds" "int (length ds) \<le> limit" "sorted_wrt (<) idxs"
  shows "\<exists>ds' addedBy'. order_and_dedup songs m limit addedBy (map (the \<circ> m) ds) idxs = map (the \<circ> m) (ds @ ds')
    \<and> added_ok songs m addedBy' (ds @ ds') \<and> sorted_wrt (<) ds' \<and> set ds' \<subseteq> set idxs \<and> int (length (ds @ ds')) \<le> limit
    \<and> (int (length (ds @ ds')) < limit \<longrightarrow> (\<forall>i \<in> set idxs. \<forall>f. m i = Some f \<longrightarrow> mf_ID f \<in> (mf_ID \<circ> the \<circ> m) ` set (ds @ ds')))"
  using assms
proof (induction idxs arbitrary: addedBy ds)
  case Nil
  then show ?case by (auto intro!: exI [of _ "[]"] exI [of _ addedBy])
next
  case (Cons i idxs)
  have sorted: "sorted_wrt (<) idxs" "\<forall>j \<in> set idxs. i < j" using Cons.prems(3) by auto
  have skip: ?case if eq: "order_and_dedup songs m limit addedBy (map (the \<circ> m) ds) (i # idxs) = order_and_dedup songs m limit addedBy (map (the \<circ> m) ds) idxs"
    and here: "\<And>f. m i = Some f \<Longrightarrow> mf_ID f \<in> (mf_ID \<circ> the \<circ> m) ` set ds"
  proof -
    obtain ds' b' where "order_and_dedup songs m limit addedBy (map (the \<circ> m) ds) idxs = map (the \<circ> m) (ds @ ds')"
      "added_ok songs m b' (ds @ ds')" "sorted_wrt (<) ds'" "set ds' \<subseteq> set idxs" "int (length (ds @ ds')) \<le> limit"
      "int (length (ds @ ds')) < limit \<longrightarrow> (\<forall>i \<in> set idxs. \<forall>f. m i = Some f \<longrightarrow> mf_ID f \<in> (mf_ID \<circ> the \<circ> m) ` set (ds @ ds'))"
      using Cons.IH [OF Cons.prems(1,2) sorted(1)] by blast
    then show ?thesis using here unfolding eq
      by (intro exI [of _ ds'] exI [of _ b']) (auto simp: subset_iff)
  qed
  have add: ?case if eq: "order_and_dedup songs m limit addedBy (map (the \<circ> m) ds) (i # idxs) = order_and_dedup songs m limit b (map (the \<circ> m) (ds @ [i])) idxs"
    and ok: "added_ok songs m b (ds @ [i])" and len: "int (length (ds @ [i])) \<le> limit" for b
  proof -
    obtain ds' b' where "order_and_dedup songs m limit b (map (the \<circ> m) (ds @ [i])) idxs = map (the \<circ> m) ((ds @ [i]) @ ds')"
      "added_ok songs m b' ((ds @ [i]) @ ds')" "sorted_wrt (<) ds'" "set ds' \<subseteq> set idxs" "int (length ((ds @ [i]) @ ds')) \<le> limit"
      "int (length ((ds @ [i]) @ ds')) < limit \<longrightarrow> (\<forall>j \<in> set idxs. \<forall>f. m j = Some f \<longrightarrow> mf_ID f \<in> (mf_ID \<circ> the \<circ> m) ` set ((ds @ [i]) @ ds'))"
      using Cons.IH [OF ok len sorted(1)] by blast
    then show ?thesis using sorted(2) unfolding eq
      by (intro exI [of _ "i # ds'"] exI [of _ b']) (auto simp: subset_iff)
  qed
  show ?case
  proof (cases "int (length ds) = limit")
    case True
    then show ?thesis using Cons.prems(1) by (auto intro!: exI [of _ "[]"] exI [of _ addedBy])
  next
    case False
    then have room: "int (length (ds @ [i])) \<le> limit" using Cons.prems(2) by simp
    show ?thesis
    proof (cases "m i")
      case None
      then show ?thesis using False by (intro skip) simp_all
    next
      case (Some f)
      show ?thesis
      proof (cases "addedBy (mf_ID f)")
        case None
        then show ?thesis
          using False Some added_ok_new [OF Cons.prems(1) Some None] room by (intro add) simp_all
      next
        case (Some k)
        note added = this
        have "k \<in> set ds" "mf_ID (the (m k)) = mf_ID f" using Cons.prems(1) added by (auto simp: added_ok_def)
        then have known: "mf_ID f \<in> (mf_ID \<circ> the \<circ> m) ` set ds" by force
        show ?thesis
        proof (cases "song_Equals (songs ! i) (songs ! k)")
          case True
          then show ?thesis
            using False \<open>m i = Some f\<close> added added_ok_again [OF Cons.prems(1) \<open>m i = Some f\<close> added True] room
            by (intro add) simp_all
        next
          case not_equal: False
          then show ?thesis using False \<open>m i = Some f\<close> added known by (intro skip) simp_all
        qed
      qed
    qed
  qed
qed

text \<open>C22: The matched tracks come in the order of the songs, at most as many as asked for, and one track twice only for equal songs; when
  there is room left, the track of every matched song is among them.\<close>

theorem matched_songs_once:
  assumes "resolveMatches cfg lib songs = Inr m" "MatchSongs cfg lib songs limit = Inr tracks" "0 \<le> limit"
  shows "\<exists>ds. tracks = map (the \<circ> m) ds \<and> sorted_wrt (<) ds \<and> (\<forall>d \<in> set ds. d < length songs \<and> m d \<noteq> None)
    \<and> int (length tracks) \<le> limit
    \<and> (\<forall>d \<in> set ds. \<forall>e \<in> set ds. mf_ID (the (m d)) = mf_ID (the (m e)) \<longrightarrow> song_Equals (songs ! d) (songs ! e))
    \<and> (int (length tracks) < limit \<longrightarrow> (\<forall>i < length songs. \<forall>f. m i = Some f \<longrightarrow> mf_ID f \<in> mf_ID ` set tracks))"
proof -
  have tracks: "tracks = order_and_dedup songs m limit (\<lambda>_. None) (map (the \<circ> m) []) [0..<length songs]"
    using assms(1,2) by (auto simp: MatchSongs_def orderAndDedup_def split: if_splits)
  have "added_ok songs m (\<lambda>_. None) []" by (simp add: added_ok_def)
  from order_and_dedup_spec [OF this, of limit "[0..<length songs]"] assms(3)
  obtain ds b where ds: "tracks = map (the \<circ> m) ds" "added_ok songs m b ds" "sorted_wrt (<) ds" "set ds \<subseteq> {..<length songs}"
      "int (length ds) \<le> limit"
      "int (length ds) < limit \<longrightarrow> (\<forall>i < length songs. \<forall>f. m i = Some f \<longrightarrow> mf_ID f \<in> (mf_ID \<circ> the \<circ> m) ` set ds)"
    unfolding tracks by (auto simp: atLeast0LessThan)
  have "song_Equals (songs ! d) (songs ! e)" if "d \<in> set ds" "e \<in> set ds" "mf_ID (the (m d)) = mf_ID (the (m e))" for d e
    using ds(2) that song_Equals_euclid unfolding added_ok_def by (metis option.inject)
  moreover have "mf_ID ` set tracks = (mf_ID \<circ> the \<circ> m) ` set ds" by (simp add: ds(1) image_comp)
  ultimately show ?thesis using ds by (intro exI [of _ ds]) (auto simp: added_ok_def)
qed

subsection \<open>An example\<close>

definition example_matcher :: match_config where
  "example_matcher = \<lparr>mc_Accents = (\<lambda>x. x), mc_IgnoredArticles = ''The'', mc_JaroWinkler = (\<lambda>_ _. 0), mc_FuzzyThreshold = 85,
     mc_PreferStarred = False\<rparr>"

definition example_library_file :: "string \<Rightarrow> string \<Rightarrow> library_file" where
  "example_library_file i title = MediaFile.extend (empty_MediaFile\<lparr>mf_ID := i, mf_Title := title, mf_ArtistIDs := [''ar'']\<rparr>)
     \<lparr>lf_Starred = False, lf_Rating = 0, lf_Compilation = False, lf_MbzAlbumID = []\<rparr>"

definition example_match_library :: match_library where
  "example_match_library = \<lparr>ml_files = [example_library_file ''x'' ''One'', example_library_file ''y'' ''Two''],
     ml_artists = [\<lparr>ar_ID = ''ar'', ar_OrderArtistName = ''band'', ar_MbzArtistID = []\<rparr>], ml_fails = (\<lambda>_. False)\<rparr>"

definition example_agent_song :: "string \<Rightarrow> Song" where
  "example_agent_song title = \<lparr>sg_ID = [], sg_Name = title, sg_MBID = [], sg_ISRC = [],
     sg_Artists = [\<lparr>aa_ID = [], aa_Name = ''The Band'', aa_MBID = []\<rparr>], sg_Album = [], sg_AlbumMBID = [], sg_Duration = 0, sg_CandidateID = []\<rparr>"

lemma example_matches:
  "case resolveMatches example_matcher example_match_library [example_agent_song ''One''] of
     Inl _ \<Rightarrow> False | Inr m \<Rightarrow> map_option mf_ID (m 0) = Some ''x''"
  by code_simp

lemma example_tracks:
  "map_sum id (map mf_ID) (MatchSongs example_matcher example_match_library (map example_agent_song [''Two'', ''One'', ''Two'', ''Three'']) 9)
    = Inr [''y'', ''x'', ''y'']"
  by code_simp

theorem song_matches_best_witness:
  "\<exists>f. title_best example_matcher example_match_library (example_agent_song ''One'') f \<and> mf_ID f = ''x''"
proof -
  obtain m f where m: "resolveMatches example_matcher example_match_library [example_agent_song ''One''] = Inr m" "m 0 = Some f" "mf_ID f = ''x''"
    using example_matches by (auto split: sum.splits)
  have "\<forall>a b. mc_JaroWinkler example_matcher a b \<ge> 0" by (simp add: example_matcher_def)
  moreover have "\<not> (\<exists>g. id_hit L (example_agent_song t) g)" "\<not> (\<exists>g. mbid_hit L (example_agent_song t) g)" "\<not> (\<exists>g. isrc_hit L (example_agent_song t) g)"
    for L t
    by (simp_all add: id_hit_def mbid_hit_def isrc_hit_def example_agent_song_def)
  moreover note song_matches_best [OF _ m(1), of 0 "example_agent_song ''One''"]
  ultimately have "title_best example_matcher example_match_library (example_agent_song ''One'') f"
    using m(2) by (simp only: if_False option.case simp_thms list.size nth_Cons_0)
  with m(3) show ?thesis by blast
qed

theorem matched_songs_once_witness:
  "\<exists>tracks. MatchSongs example_matcher example_match_library (map example_agent_song [''Two'', ''One'', ''Two'', ''Three'']) 9 = Inr tracks
    \<and> map mf_ID tracks = [''y'', ''x'', ''y''] \<and> int (length tracks) \<le> 9"
proof -
  obtain tracks where tracks: "MatchSongs example_matcher example_match_library (map example_agent_song [''Two'', ''One'', ''Two'', ''Three'']) 9 = Inr tracks"
    "map mf_ID tracks = [''y'', ''x'', ''y'']"
    using example_tracks by (auto simp: map_sum_def split: sum.splits)
  then obtain m where "resolveMatches example_matcher example_match_library (map example_agent_song [''Two'', ''One'', ''Two'', ''Three'']) = Inr m"
    by (auto simp: MatchSongs_def split: sum.splits)
  from matched_songs_once [OF this tracks(1)] show ?thesis using tracks by auto
qed

end
