(* ===== verification/Artwork_Queue.thy ===== *)
theory Artwork_Queue
  imports Artwork_Id "HOL-Library.List_Lexorder" "HOL-Library.Char_ord"
begin

text \<open>
  The queue of artwork to find: the statements of \<open>persistence/artwork_queue_repository.go\<close>, what the processor does with an item
  (\<open>core/artwork/processor.go\<close>), and the worker that takes items from the queue and settles them (\<open>core/artwork/worker.go\<close>, with
  the rechecks of \<open>housekeeping.go\<close>), while scans and requests put new ones in. Resolving, reading, hashing and decoding an
  image are parameters, and so is whether a statement on the artwork tables succeeds. Of the images
  their hashes are kept. Backoffs are exact rationals, rounded down.
\<close>

subsection \<open>The tables\<close>

type_synonym art_key = "string \<times> string \<times> string"

record ArtworkQueueItem =
  aq_ItemKind :: string
  aq_ItemID :: string
  aq_ImageType :: string
  aq_Priority :: int
  aq_Attempts :: nat
  aq_RetryAt :: Time
  aq_EnqueuedAt :: Time

record ItemArtwork =
  ia_Hash :: string
  ia_Source :: string
  ia_SourcePath :: string
  ia_RefMtime :: int
  ia_AttemptedAt :: Time
  ia_UpdatedAt :: Time

record artwork_db =
  ad_queue :: "ArtworkQueueItem list"
  ad_items :: "art_key \<rightharpoonup> ItemArtwork"
  ad_images :: "string list"

definition ImageTypePrimary :: string where "ImageTypePrimary = ''primary''"
definition ArtworkPriorityRecheck :: int where "ArtworkPriorityRecheck = 0"
definition ArtworkPriorityBackfill :: int where "ArtworkPriorityBackfill = 10"
definition ArtworkPriorityBump :: int where "ArtworkPriorityBump = 100"

definition image_type_or :: "string \<Rightarrow> string" where
  "image_type_or t = (if t \<noteq> [] then t else ImageTypePrimary)"

definition aq_key :: "ArtworkQueueItem \<Rightarrow> art_key" where
  "aq_key i = (aq_ItemKind i, aq_ItemID i, aq_ImageType i)"

subsection \<open>Statements\<close>

text \<open>A row as every insertion writes it.\<close>

definition new_row :: "Time \<Rightarrow> ArtworkQueueItem \<Rightarrow> ArtworkQueueItem" where
  "new_row now i = i\<lparr>aq_ImageType := image_type_or (aq_ImageType i), aq_Attempts := 0, aq_RetryAt := now, aq_EnqueuedAt := now\<rparr>"

definition upsert_queue ::
    "(ArtworkQueueItem \<Rightarrow> ArtworkQueueItem \<Rightarrow> ArtworkQueueItem) \<Rightarrow> Time \<Rightarrow> ArtworkQueueItem \<Rightarrow> ArtworkQueueItem list \<Rightarrow> ArtworkQueueItem list" where
  "upsert_queue conflict now i rows =
     (let n = new_row now i in
      if list_ex (\<lambda>r. aq_key r = aq_key n) rows then map (\<lambda>r. if aq_key r = aq_key n then conflict n r else r) rows else rows @ [n])"

definition reset_conflict :: "ArtworkQueueItem \<Rightarrow> ArtworkQueueItem \<Rightarrow> ArtworkQueueItem" where
  "reset_conflict n r =
     r\<lparr>aq_Priority := max (aq_Priority r) (aq_Priority n), aq_RetryAt := aq_RetryAt n, aq_Attempts := 0, aq_EnqueuedAt := aq_EnqueuedAt n\<rparr>"

definition preserve_conflict :: "ArtworkQueueItem \<Rightarrow> ArtworkQueueItem \<Rightarrow> ArtworkQueueItem" where
  "preserve_conflict n r = r\<lparr>aq_Priority := max (aq_Priority r) (aq_Priority n)\<rparr>"

definition Enqueue_art :: "Time \<Rightarrow> ArtworkQueueItem list \<Rightarrow> artwork_db \<Rightarrow> artwork_db" where
  "Enqueue_art now items db = db\<lparr>ad_queue := fold (upsert_queue reset_conflict now) items (ad_queue db)\<rparr>"

definition EnqueuePreservingBackoff :: "Time \<Rightarrow> ArtworkQueueItem list \<Rightarrow> artwork_db \<Rightarrow> artwork_db" where
  "EnqueuePreservingBackoff now items db = db\<lparr>ad_queue := fold (upsert_queue preserve_conflict now) items (ad_queue db)\<rparr>"

text \<open>\<open>on conflict do nothing\<close>.\<close>

definition insertIfNotQueued :: "Time \<Rightarrow> ArtworkQueueItem list \<Rightarrow> artwork_db \<Rightarrow> artwork_db" where
  "insertIfNotQueued now items db = db\<lparr>ad_queue := fold (upsert_queue (\<lambda>n r. r) now) items (ad_queue db)\<rparr>"

definition queue_item :: "art_key \<Rightarrow> int \<Rightarrow> ArtworkQueueItem" where
  "queue_item k priority = (case k of (kind, i, t) \<Rightarrow>
     \<lparr>aq_ItemKind = kind, aq_ItemID = i, aq_ImageType = t, aq_Priority = priority, aq_Attempts = 0, aq_RetryAt = 0, aq_EnqueuedAt = 0\<rparr>)"

text \<open>The keys of the table of states, which a map does not list, are given: \<open>keys\<close> are those of its rows.\<close>

definition EnqueueStaleAbsent :: "Time \<Rightarrow> art_key list \<Rightarrow> Kind \<Rightarrow> Time \<Rightarrow> artwork_db \<Rightarrow> artwork_db" where
  "EnqueueStaleAbsent now keys kind attemptedBefore db =
     insertIfNotQueued now
       (map (\<lambda>k. queue_item k ArtworkPriorityRecheck)
         (filter (\<lambda>k. case ad_items db k of None \<Rightarrow> False
              | Some ia \<Rightarrow> fst k = k_prefix kind \<and> ia_Hash ia = [] \<and> ia_AttemptedAt ia < attemptedBefore) keys)) db"

text \<open>\<open>ids\<close> are the entities of the kind.\<close>

definition EnqueueAllMissing :: "Time \<Rightarrow> art_key list \<Rightarrow> string list \<Rightarrow> Kind \<Rightarrow> int \<Rightarrow> artwork_db \<Rightarrow> artwork_db" where
  "EnqueueAllMissing now keys ids kind priority db =
     insertIfNotQueued now
       (map (\<lambda>i. queue_item (k_prefix kind, i, ImageTypePrimary) priority)
         (filter (\<lambda>i. \<not> list_ex (\<lambda>k. ad_items db k \<noteq> None \<and> fst k = k_prefix kind \<and> fst (snd k) = i) keys) ids)) db"

definition EnqueueIfMissing :: "Time \<Rightarrow> ArtworkQueueItem list \<Rightarrow> artwork_db \<Rightarrow> artwork_db" where
  "EnqueueIfMissing now items db =
     insertIfNotQueued now (filter (\<lambda>i. ad_items db (aq_key (new_row now i)) = None) items) db"

definition DequeueBatch :: "Time \<Rightarrow> nat \<Rightarrow> string list \<Rightarrow> artwork_db \<Rightarrow> ArtworkQueueItem list" where
  "DequeueBatch now n kinds db =
     take n (sort_key (\<lambda>r. - aq_Priority r) (sort_key aq_EnqueuedAt
       (filter (\<lambda>r. aq_RetryAt r \<le> now \<and> (kinds \<noteq> [] \<longrightarrow> aq_ItemKind r \<in> set kinds)) (ad_queue db))))"

definition unchanged :: "art_key \<Rightarrow> Time \<Rightarrow> ArtworkQueueItem \<Rightarrow> bool" where
  "unchanged k seenRetryAt r \<longleftrightarrow> aq_key r = k \<and> aq_RetryAt r = seenRetryAt"

definition MarkFailedIfUnchanged :: "art_key \<Rightarrow> Time \<Rightarrow> Time \<Rightarrow> artwork_db \<Rightarrow> artwork_db" where
  "MarkFailedIfUnchanged k seenRetryAt retryAt db =
     db\<lparr>ad_queue := map (\<lambda>r. if unchanged k seenRetryAt r then r\<lparr>aq_Attempts := aq_Attempts r + 1, aq_RetryAt := retryAt\<rparr> else r) (ad_queue db)\<rparr>"

definition DeleteIfUnchanged :: "art_key \<Rightarrow> Time \<Rightarrow> artwork_db \<Rightarrow> artwork_db" where
  "DeleteIfUnchanged k retryAt db = db\<lparr>ad_queue := filter (\<lambda>r. \<not> unchanged k retryAt r) (ad_queue db)\<rparr>"

text \<open>\<open>PurgeDangling\<close>: \<open>gone\<close> tells which entities no longer exist; only the five kinds that have a table are looked at.\<close>

definition PurgeDangling :: "(string \<Rightarrow> string \<Rightarrow> bool) \<Rightarrow> artwork_db \<Rightarrow> artwork_db" where
  "PurgeDangling gone db =
     db\<lparr>ad_queue := filter (\<lambda>r. \<not> (aq_ItemKind r \<in> {''al'', ''ar'', ''pl'', ''ra'', ''mf''} \<and> gone (aq_ItemKind r) (aq_ItemID r))) (ad_queue db)\<rparr>"

definition DeleteForItems :: "Kind \<Rightarrow> string list \<Rightarrow> artwork_db \<Rightarrow> artwork_db" where
  "DeleteForItems kind ids db = db\<lparr>ad_items := (\<lambda>k. if fst k = k_prefix kind \<and> fst (snd k) \<in> set ids then None else ad_items db k)\<rparr>"

subsection \<open>Acquiring an image\<close>

datatype outcome = OutcomeFound | OutcomeFoundStale | OutcomeAbsent | OutcomeFailed

text \<open>What \<open>resolve\<close> returns (\<^const>\<open>None\<close> is an error), and what the rest of the world answers.\<close>

record resolution =
  rs_data :: "string option"
  rs_source_name :: string
  rs_sourcePath :: string
  rs_refMtime :: int
  rs_extError :: bool
  rs_localError :: bool

record art_env =
  ae_resolve :: "resolution option"
  ae_readable :: bool
  ae_hash :: "string \<Rightarrow> string"
  ae_getImage :: bool
  ae_decodes :: bool
  ae_placed :: bool
  ae_putItem :: bool
  ae_getItem :: bool

text \<open>What an attempt writes: an image with where it comes from, or that there is none.\<close>

definition isFileBacked :: "string \<Rightarrow> bool" where
  "isFileBacked source \<longleftrightarrow> source = ''folder'' \<or> source = ''upload''"

definition found_state :: "Time \<Rightarrow> string \<Rightarrow> resolution \<Rightarrow> ItemArtwork" where
  "found_state now hash res =
     (let file = isFileBacked (rs_source_name res) \<or> rs_source_name res = ''embedded'' in
      \<lparr>ia_Hash = hash, ia_Source = rs_source_name res, ia_SourcePath = (if file then rs_sourcePath res else []),
       ia_RefMtime = (if file then rs_refMtime res else 0), ia_AttemptedAt = now, ia_UpdatedAt = now\<rparr>)"

definition absent_state :: "Time \<Rightarrow> ItemArtwork" where
  "absent_state now = \<lparr>ia_Hash = [], ia_Source = [], ia_SourcePath = [], ia_RefMtime = 0, ia_AttemptedAt = now, ia_UpdatedAt = now\<rparr>"

lemma found_state_simps [simp]: "ia_Hash (found_state t h res) = h" "ia_Source (found_state t h res) = rs_source_name res" "ia_AttemptedAt (found_state t h res) = t"
  by (simp_all add: found_state_def Let_def)

definition put_item :: "ArtworkQueueItem \<Rightarrow> ItemArtwork \<Rightarrow> artwork_db \<Rightarrow> artwork_db" where
  "put_item item ia db =
     db\<lparr>ad_items := (ad_items db)((aq_ItemKind item, aq_ItemID item, image_type_or (aq_ImageType item)) \<mapsto> ia)\<rparr>"

definition writeAbsent :: "art_env \<Rightarrow> Time \<Rightarrow> ArtworkQueueItem \<Rightarrow> artwork_db \<Rightarrow> outcome \<times> artwork_db" where
  "writeAbsent env now item db = (if ae_putItem env then (OutcomeAbsent, put_item item (absent_state now) db) else (OutcomeFailed, db))"

definition acquire_image :: "art_env \<Rightarrow> Time \<Rightarrow> ArtworkQueueItem \<Rightarrow> resolution \<Rightarrow> string \<Rightarrow> artwork_db \<Rightarrow> outcome \<times> artwork_db" where
  "acquire_image env now item res data db =
     (let hash = ae_hash env data in
      if \<not> ae_getImage env \<or> hash \<notin> set (ad_images db) \<and> \<not> ae_decodes env then (OutcomeFailed, db)
      else if \<not> ae_placed env then (OutcomeFailed, db)
      else
        let db1 = (if hash \<in> set (ad_images db) then db else db\<lparr>ad_images := hash # ad_images db\<rparr>)
        in if \<not> ae_putItem env then (OutcomeFailed, db1)
           else (if rs_extError res then OutcomeFoundStale else OutcomeFound, put_item item (found_state now hash res) db1))"

definition acquire :: "art_env \<Rightarrow> Time \<Rightarrow> ArtworkQueueItem \<Rightarrow> artwork_db \<Rightarrow> outcome \<times> artwork_db" where
  "acquire env now item db =
     (case ae_resolve env of
        None \<Rightarrow> (OutcomeFailed, db)
      | Some res \<Rightarrow>
          (case rs_data res of
             None \<Rightarrow> if rs_extError res \<or> rs_localError res then (OutcomeFailed, db) else writeAbsent env now item db
           | Some data \<Rightarrow> if \<not> ae_readable env then (OutcomeFailed, db) else acquire_image env now item res data db))"

subsection \<open>The worker\<close>

definition seconds :: "int \<Rightarrow> int" where "seconds n = n * 1000000000"
definition backoffBase :: int where "backoffBase = seconds 5"
definition giveUpAfter :: int where "giveUpAfter = seconds 43200"

definition backoffFor :: "nat \<Rightarrow> rat \<Rightarrow> int" where
  "backoffFor attempts jitter = \<lfloor>min (of_int backoffBase * 4 ^ attempts) (of_int giveUpAfter) * (1 + jitter)\<rfloor>"

definition recheckKinds :: "Kind list" where
  "recheckKinds = [KindArtistArtwork, KindAlbumArtwork, KindPlaylistArtwork, KindRadioArtwork]"

definition hasRecheckPath :: "string \<Rightarrow> bool" where
  "hasRecheckPath prefix \<longleftrightarrow> (case ParseKind prefix of None \<Rightarrow> False | Some kind \<Rightarrow> kind \<in> set recheckKinds)"

definition hasResolvedArtwork :: "art_env \<Rightarrow> ArtworkQueueItem \<Rightarrow> artwork_db \<Rightarrow> bool" where
  "hasResolvedArtwork env item db \<longleftrightarrow>
     (case ParseKind (aq_ItemKind item) of
        None \<Rightarrow> False
      | Some kind \<Rightarrow> ae_getItem env \<and> (case ad_items db (k_prefix kind, aq_ItemID item, aq_ImageType item) of
            None \<Rightarrow> False | Some ia \<Rightarrow> ia_Hash ia \<noteq> []))"

subsection \<open>Housekeeping\<close>

text \<open>The entities of each kind, and the property that keeps the fingerprint of the configuration; a statement that fails ends the
  call, with what was done before it. \<open>fails\<close> tells which ones do.\<close>

definition staleAbsentAge :: int where "staleAbsentAge = seconds 86400"

definition enqueueBackfillKind :: "Time \<Rightarrow> Kind \<Rightarrow> string list \<Rightarrow> artwork_db \<Rightarrow> artwork_db" where
  "enqueueBackfillKind now kind ids db =
     (if ids = [] then db else Enqueue_art now (map (\<lambda>i. queue_item (k_prefix kind, i, ImageTypePrimary) ArtworkPriorityBackfill) ids) db)"

definition backfillKinds :: "Kind list" where
  "backfillKinds = [KindArtistArtwork, KindAlbumArtwork, KindPlaylistArtwork, KindRadioArtwork]"

fun backfill_kinds :: "Time \<Rightarrow> (Kind \<Rightarrow> string list option) \<Rightarrow> (Kind \<Rightarrow> bool) \<Rightarrow> Kind list \<Rightarrow> artwork_db \<Rightarrow> bool \<times> artwork_db" where
  "backfill_kinds now ids fails [] db = (True, db)"
| "backfill_kinds now ids fails (kind # kinds) db =
     (case ids kind of
        None \<Rightarrow> (False, db)
      | Some xs \<Rightarrow> if xs \<noteq> [] \<and> fails kind then (False, db) else backfill_kinds now ids fails kinds (enqueueBackfillKind now kind xs db))"

record backfill_state =
  bf_fingerprint :: "string option"
  bf_db :: artwork_db

text \<open>\<open>None\<close>: an error; \<open>Some b\<close>: whether anything was enqueued. The stored fingerprint defaults to the empty string.\<close>

definition backfill ::
    "Time \<Rightarrow> string \<Rightarrow> (Kind \<Rightarrow> string list option) \<Rightarrow> (Kind \<Rightarrow> bool) \<Rightarrow> bool \<Rightarrow> bool \<Rightarrow> backfill_state \<Rightarrow> bool option \<times> backfill_state" where
  "backfill now current ids fails readable writable s =
     (if \<not> readable then (None, s)
      else if (case bf_fingerprint s of None \<Rightarrow> [] | Some p \<Rightarrow> p) = current then (Some False, s)
      else case backfill_kinds now ids fails backfillKinds (bf_db s) of
             (False, db) \<Rightarrow> (None, s\<lparr>bf_db := db\<rparr>)
           | (True, db) \<Rightarrow> if writable then (Some True, \<lparr>bf_fingerprint = Some current, bf_db = db\<rparr>) else (None, s\<lparr>bf_db := db\<rparr>))"

definition enqueueStaleAbsentAll :: "Time \<Rightarrow> art_key list \<Rightarrow> artwork_db \<Rightarrow> artwork_db" where
  "enqueueStaleAbsentAll now keys db = fold (\<lambda>kind. EnqueueStaleAbsent now keys kind (now - staleAbsentAge)) recheckKinds db"

definition enqueueMissingAll :: "Time \<Rightarrow> art_key list \<Rightarrow> (Kind \<Rightarrow> string list) \<Rightarrow> artwork_db \<Rightarrow> artwork_db" where
  "enqueueMissingAll now keys ids db = fold (\<lambda>kind. EnqueueAllMissing now keys (ids kind) kind ArtworkPriorityRecheck) recheckKinds db"

definition Refresh_art :: "Time \<Rightarrow> Kind \<Rightarrow> string \<Rightarrow> artwork_db \<Rightarrow> artwork_db" where
  "Refresh_art now kind i db = Enqueue_art now [queue_item (k_prefix kind, i, ImageTypePrimary) ArtworkPriorityBump] (DeleteForItems kind [i] db)"

text \<open>Where \<open>process\<close> stands with an item: it has the outcome, it has to record that there is no image, or only to remove the row.\<close>

datatype art_pc = PcDequeued | PcOutcome outcome | PcRecordAbsent | PcRemove

record art_flight =
  af_item :: ArtworkQueueItem
  af_started :: Time
  af_pc :: art_pc

text \<open>The row a worker holds, as \<open>process\<close> reads it.\<close>

definition taken_item :: "ArtworkQueueItem \<Rightarrow> ArtworkQueueItem" where
  "taken_item i = i\<lparr>aq_ImageType := image_type_or (aq_ImageType i)\<rparr>"

definition dequeued :: "Time \<Rightarrow> ArtworkQueueItem \<Rightarrow> art_flight" where
  "dequeued now i = \<lparr>af_item = taken_item i, af_started = now, af_pc = PcDequeued\<rparr>"

text \<open>After the outcome: the new database and the next position, if the item is not settled yet.\<close>

definition settle_outcome :: "art_env \<Rightarrow> Time \<Rightarrow> rat \<Rightarrow> outcome \<Rightarrow> ArtworkQueueItem \<Rightarrow> artwork_db \<Rightarrow> artwork_db \<times> art_pc option" where
  "settle_outcome env now jitter out item db =
     (if out = OutcomeFound \<or> out = OutcomeAbsent then (db, Some PcRemove)
      else
        let retryAt = now + backoffFor (aq_Attempts item) jitter in
        if retryAt < aq_EnqueuedAt item + giveUpAfter then (MarkFailedIfUnchanged (aq_key item) (aq_RetryAt item) retryAt db, None)
        else if out = OutcomeFailed \<and> hasRecheckPath (aq_ItemKind item) \<and> \<not> hasResolvedArtwork env item db then (db, Some PcRecordAbsent)
        else (db, Some PcRemove))"

text \<open>The pools of workers share the connections of the database.\<close>

definition local_slots :: "int \<Rightarrow> int \<Rightarrow> int" where
  "local_slots budget workerConcurrency = min (max 1 workerConcurrency) (budget - 1)"

definition external_slots :: "int \<Rightarrow> int \<Rightarrow> int \<Rightarrow> int" where
  "external_slots budget workerConcurrency externalMaxRPS = min (max 2 (2 * externalMaxRPS)) (budget - local_slots budget workerConcurrency)"

lemma pools_share_budget:
  "budget \<ge> 4 \<Longrightarrow> local_slots budget c \<ge> 1 \<and> external_slots budget c r \<ge> 1 \<and> local_slots budget c + external_slots budget c r \<le> budget"
  by (auto simp: local_slots_def external_slots_def)

text \<open>The system: the clock, the tables, the items in the hands of workers, and for the record the requests that reset a row, the removals
  of rows by workers with the instant their item was taken, and the purged keys.\<close>

record art_system =
  as_now :: Time
  as_db :: artwork_db
  as_flights :: "art_flight list"
  as_requests :: "(art_key \<times> Time) list"
  as_removed :: "(art_key \<times> Time) list"
  as_purged :: "(art_key \<times> Time) list"

definition art_initial :: "Time \<Rightarrow> art_system" where
  "art_initial now = \<lparr>as_now = now, as_db = \<lparr>ad_queue = [], ad_items = (\<lambda>_. None), ad_images = []\<rparr>, as_flights = [], as_requests = [],
     as_removed = [], as_purged = []\<rparr>"

definition set_flight :: "nat \<Rightarrow> art_pc option \<Rightarrow> art_system \<Rightarrow> art_system" where
  "set_flight i pc s =
     s\<lparr>as_flights := (case pc of
         None \<Rightarrow> take i (as_flights s) @ drop (Suc i) (as_flights s)
       | Some p \<Rightarrow> (as_flights s)[i := (as_flights s ! i)\<lparr>af_pc := p\<rparr>])\<rparr>"

text \<open>Every step is one statement of the database, at a later instant than the one before. A statement that settles a row may fail, which the
  worker only logs; workers may stop at any time.\<close>

inductive art_step :: "art_system \<Rightarrow> art_system \<Rightarrow> bool" where
  request: "as_now s < t \<Longrightarrow>
    art_step s (s\<lparr>as_now := t, as_db := Enqueue_art t items (as_db s), as_requests := map (\<lambda>i. (aq_key (new_row t i), t)) items @ as_requests s\<rparr>)"
| view: "as_now s < t \<Longrightarrow> art_step s (s\<lparr>as_now := t, as_db := EnqueuePreservingBackoff t items (as_db s)\<rparr>)"
| stale: "as_now s < t \<Longrightarrow> art_step s (s\<lparr>as_now := t, as_db := EnqueueStaleAbsent t keys kind cutoff (as_db s)\<rparr>)"
| missing: "as_now s < t \<Longrightarrow> art_step s (s\<lparr>as_now := t, as_db := EnqueueAllMissing t keys ids kind priority (as_db s)\<rparr>)"
| if_missing: "as_now s < t \<Longrightarrow> art_step s (s\<lparr>as_now := t, as_db := EnqueueIfMissing t items (as_db s)\<rparr>)"
| purge: "as_now s < t \<Longrightarrow>
    art_step s (s\<lparr>as_now := t, as_db := PurgeDangling gone (as_db s),
      as_purged := map (\<lambda>r. (aq_key r, t)) (filter (\<lambda>r. gone (aq_ItemKind r) (aq_ItemID r)) (ad_queue (as_db s))) @ as_purged s\<rparr>)"
| clear: "as_now s < t \<Longrightarrow> art_step s (s\<lparr>as_now := t, as_db := DeleteForItems kind ids (as_db s)\<rparr>)"
| dequeue: "as_now s < t \<Longrightarrow> art_step s (s\<lparr>as_now := t, as_flights := map (dequeued t) (DequeueBatch t n kinds (as_db s)) @ as_flights s\<rparr>)"
| acquire: "as_now s < t \<Longrightarrow> i < length (as_flights s) \<Longrightarrow> af_pc (as_flights s ! i) = PcDequeued \<Longrightarrow>
    acquire env t (af_item (as_flights s ! i)) (as_db s) = (out, db) \<Longrightarrow>
    art_step s (set_flight i (Some (PcOutcome out)) (s\<lparr>as_now := t, as_db := db\<rparr>))"
| settle: "as_now s < t \<Longrightarrow> i < length (as_flights s) \<Longrightarrow> af_pc (as_flights s ! i) = PcOutcome out \<Longrightarrow> - 2/5 \<le> jitter \<Longrightarrow> jitter \<le> 2/5 \<Longrightarrow>
    settle_outcome env t jitter out (af_item (as_flights s ! i)) (as_db s) = (db, pc) \<Longrightarrow>
    art_step s (set_flight i pc (s\<lparr>as_now := t, as_db := db\<rparr>))"
| absent: "as_now s < t \<Longrightarrow> i < length (as_flights s) \<Longrightarrow> af_pc (as_flights s ! i) = PcRecordAbsent \<Longrightarrow>
    art_step s (set_flight i (Some PcRemove) (s\<lparr>as_now := t, as_db := snd (writeAbsent env t (af_item (as_flights s ! i)) (as_db s))\<rparr>))"
| remove: "as_now s < t \<Longrightarrow> i < length (as_flights s) \<Longrightarrow> as_flights s ! i = f \<Longrightarrow> af_pc f = PcRemove \<Longrightarrow>
    art_step s (set_flight i None (s\<lparr>as_now := t, as_db := DeleteIfUnchanged (aq_key (af_item f)) (aq_RetryAt (af_item f)) (as_db s),
      as_removed := (aq_key (af_item f), af_started f) # as_removed s\<rparr>))"
| give_in: "as_now s < t \<Longrightarrow> i < length (as_flights s) \<Longrightarrow> art_step s (set_flight i None (s\<lparr>as_now := t\<rparr>))"

inductive_cases art_step_cases: "art_step s s'"

definition art_reachable :: "art_system \<Rightarrow> bool" where
  "art_reachable s \<longleftrightarrow> (\<exists>t0. art_step\<^sup>*\<^sup>* (art_initial t0) s)"

subsection \<open>Backoffs\<close>

definition least_delay :: "nat \<Rightarrow> int" where
  "least_delay n = (\<Sum>i<n. backoffFor i (- 2/5))"

lemma backoffFor_mono: "j \<le> j' \<Longrightarrow> backoffFor n j \<le> backoffFor n j'"
proof -
  have "min (of_int backoffBase * 4 ^ n) (of_int giveUpAfter) \<ge> (0 :: rat)" by (simp add: backoffBase_def giveUpAfter_def seconds_def)
  then show "j \<le> j' \<Longrightarrow> backoffFor n j \<le> backoffFor n j'" unfolding backoffFor_def by (intro floor_mono mult_left_mono) auto
qed

lemma backoffFor_nonneg: "- 2/5 \<le> j \<Longrightarrow> 0 \<le> backoffFor n j"
proof -
  have "min (of_int backoffBase * 4 ^ n) (of_int giveUpAfter) \<ge> (0 :: rat)" by (simp add: backoffBase_def giveUpAfter_def seconds_def)
  then show "- 2/5 \<le> j \<Longrightarrow> 0 \<le> backoffFor n j" unfolding backoffFor_def by (simp add: zero_le_mult_iff)
qed

lemma least_delay_mono: "m \<le> n \<Longrightarrow> least_delay m \<le> least_delay n"
  unfolding least_delay_def by (rule sum_mono2) (auto intro: backoffFor_nonneg)

lemma least_delay_Suc: "least_delay (Suc n) = least_delay n + backoffFor n (- 2/5)"
  by (simp add: least_delay_def)

lemma least_delay_9: "giveUpAfter < least_delay 9"
  by (simp add: least_delay_def eval_nat_numeral backoffFor_def backoffBase_def giveUpAfter_def seconds_def)

subsection \<open>What statements do to the rows\<close>

definition same_queue_row :: "ArtworkQueueItem \<Rightarrow> ArtworkQueueItem \<Rightarrow> bool" where
  "same_queue_row r r' \<longleftrightarrow> aq_key r' = aq_key r \<and> aq_RetryAt r' = aq_RetryAt r \<and> aq_Attempts r' = aq_Attempts r \<and> aq_EnqueuedAt r' = aq_EnqueuedAt r"

definition fresh_row :: "Time \<Rightarrow> ArtworkQueueItem \<Rightarrow> bool" where
  "fresh_row t r \<longleftrightarrow> aq_RetryAt r = t \<and> aq_EnqueuedAt r = t \<and> aq_Attempts r = 0 \<and> aq_ImageType r \<noteq> []"

text \<open>Rows are kept, or are as new; none is lost.\<close>

definition grows :: "Time \<Rightarrow> ArtworkQueueItem list \<Rightarrow> ArtworkQueueItem list \<Rightarrow> bool" where
  "grows t q q' \<longleftrightarrow> (\<forall>r' \<in> set q'. fresh_row t r' \<or> (\<exists>r \<in> set q. same_queue_row r r')) \<and> aq_key ` set q \<subseteq> aq_key ` set q'
     \<and> (distinct (map aq_key q) \<longrightarrow> distinct (map aq_key q'))"

lemma same_queue_row_refl [simp]: "same_queue_row r r"
  by (simp add: same_queue_row_def)

lemma grows_refl [simp]: "grows t q q"
  unfolding grows_def using same_queue_row_refl by blast

lemma grows_trans:
  assumes "grows t q q'" "grows t q' q''"
  shows "grows t q q''"
proof -
  have "fresh_row t r'' \<or> (\<exists>r \<in> set q. same_queue_row r r'')" if r'': "r'' \<in> set q''" for r''
  proof (cases "fresh_row t r''")
    case False
    then obtain r' where "r' \<in> set q'" "same_queue_row r' r''" using assms(2) r'' unfolding grows_def by blast
    moreover then have "\<not> fresh_row t r'" using False by (auto simp: same_queue_row_def fresh_row_def aq_key_def)
    ultimately show ?thesis using assms(1) unfolding grows_def same_queue_row_def by metis
  qed simp
  moreover have "aq_key ` set q \<subseteq> aq_key ` set q''" using assms unfolding grows_def by (meson order_trans)
  moreover have "distinct (map aq_key q) \<longrightarrow> distinct (map aq_key q'')" using assms unfolding grows_def by blast
  ultimately show ?thesis unfolding grows_def by blast
qed

lemma new_row_simps [simp]: "fresh_row t (new_row t i)"
  by (simp add: new_row_def fresh_row_def image_type_or_def ImageTypePrimary_def)

lemma conflict_key [simp]:
  "aq_key (reset_conflict n r) = aq_key r" "aq_key (preserve_conflict n r) = aq_key r"
  by (simp_all add: reset_conflict_def preserve_conflict_def aq_key_def)

lemma conflict_rows [simp]:
  "fresh_row t n \<Longrightarrow> aq_key r = aq_key n \<Longrightarrow> fresh_row t (reset_conflict n r)" "same_queue_row r (preserve_conflict n r)"
  by (simp_all add: reset_conflict_def preserve_conflict_def same_queue_row_def aq_key_def fresh_row_def)

definition keeps_or_resets :: "(ArtworkQueueItem \<Rightarrow> ArtworkQueueItem \<Rightarrow> ArtworkQueueItem) \<Rightarrow> bool" where
  "keeps_or_resets c \<longleftrightarrow>
     (\<forall>n r. aq_key (c n r) = aq_key r) \<and> (\<forall>t n r. fresh_row t n \<and> aq_key r = aq_key n \<longrightarrow> fresh_row t (c n r) \<or> same_queue_row r (c n r))"

lemma keeps_or_resets [simp]: "keeps_or_resets reset_conflict" "keeps_or_resets preserve_conflict" "keeps_or_resets (\<lambda>n r. r)"
  by (simp_all add: keeps_or_resets_def)

lemma upsert_row_cases:
  "r' \<in> set (upsert_queue c t i q) \<Longrightarrow>
    r' \<in> set q \<and> aq_key r' \<noteq> aq_key (new_row t i) \<or> r' = new_row t i \<or> (\<exists>r \<in> set q. aq_key r = aq_key (new_row t i) \<and> r' = c (new_row t i) r)"
  by (auto simp: upsert_queue_def Let_def list_ex_iff split: if_splits)

lemma upsert_row_keys:
  assumes "keeps_or_resets c"
  shows "aq_key ` set (upsert_queue c t i q) = insert (aq_key (new_row t i)) (aq_key ` set q)"
proof -
  have "aq_key (if aq_key r = k then c n r else r) = aq_key r" for k n r using assms by (simp add: keeps_or_resets_def)
  then have "aq_key ` set (map (\<lambda>r. if aq_key r = k then c n r else r) q) = aq_key ` set q" for k n by (simp only: set_map image_image)
  note keys = this
  show ?thesis
  proof (cases "list_ex (\<lambda>r. aq_key r = aq_key (new_row t i)) q")
    case True
    then obtain r where "r \<in> set q" "aq_key r = aq_key (new_row t i)" by (auto simp: list_ex_iff)
    then have "aq_key (new_row t i) \<in> aq_key ` set q" by (intro image_eqI [of _ _ r]) simp_all
    then show ?thesis using True by (simp only: upsert_queue_def Let_def if_True keys insert_absorb)
  next
    case False
    then show ?thesis by (simp add: upsert_queue_def)
  qed
qed

lemma upsert_row_distinct:
  assumes "keeps_or_resets c" "distinct (map aq_key q)"
  shows "distinct (map aq_key (upsert_queue c t i q))"
proof (cases "list_ex (\<lambda>r. aq_key r = aq_key (new_row t i)) q")
  case True
  have "aq_key (if aq_key r = k then c n r else r) = aq_key r" for k n r using assms(1) by (simp add: keeps_or_resets_def)
  then have "map aq_key (map (\<lambda>r. if aq_key r = k then c n r else r) q) = map aq_key q" for k n by (simp only: map_map comp_def)
  then show ?thesis using True assms(2) by (simp only: upsert_queue_def Let_def if_True)
next
  case False
  then have "aq_key (new_row t i) \<notin> set (map aq_key q)" by (auto simp: list_ex_iff)
  then show ?thesis using False assms(2) by (simp add: upsert_queue_def)
qed

lemma upsert_row_grows:
  assumes "keeps_or_resets c"
  shows "grows t q (upsert_queue c t i q)"
proof -
  have "fresh_row t r' \<or> (\<exists>r \<in> set q. same_queue_row r r')" if r': "r' \<in> set (upsert_queue c t i q)" for r'
    using upsert_row_cases [OF r']
  proof (elim disjE bexE conjE)
    assume old: "r' \<in> set q"
    show ?thesis by (rule disjI2, rule bexI [OF same_queue_row_refl old])
  next
    assume "r' = new_row t i"
    then show ?thesis by simp
  next
    fix r assume r: "r \<in> set q" "aq_key r = aq_key (new_row t i)" "r' = c (new_row t i) r"
    have "fresh_row t r' \<or> same_queue_row r r'"
      using assms r(2,3) new_row_simps [of t i] unfolding keeps_or_resets_def by blast
    then show ?thesis using r(1) by blast
  qed
  then show ?thesis using upsert_row_keys [OF assms, of t i q] upsert_row_distinct [OF assms, of q t i] unfolding grows_def by blast
qed

lemma upsert_rows_grow: "keeps_or_resets c \<Longrightarrow> grows t q (fold (upsert_queue c t) items q)"
  by (induction items arbitrary: q) (auto intro: grows_trans upsert_row_grows)

text \<open>A request makes the rows of its keys fresh.\<close>

definition has_fresh :: "Time \<Rightarrow> art_key \<Rightarrow> ArtworkQueueItem list \<Rightarrow> bool" where
  "has_fresh t k q \<longleftrightarrow> k \<in> aq_key ` set q \<and> (\<forall>r \<in> set q. aq_key r = k \<longrightarrow> fresh_row t r)"

lemma upsert_reset_fresh:
  "has_fresh t (aq_key (new_row t i)) (upsert_queue reset_conflict t i q)"
  "has_fresh t k q \<Longrightarrow> has_fresh t k (upsert_queue reset_conflict t i q)"
proof -
  have fresh: "fresh_row t r'" if "r' \<in> set (upsert_queue reset_conflict t i q)" "r' \<in> set q \<longrightarrow> aq_key r' = aq_key (new_row t i) \<or> fresh_row t r'" for r'
    using upsert_row_cases [OF that(1)] that(2) by auto
  show "has_fresh t (aq_key (new_row t i)) (upsert_queue reset_conflict t i q)"
    unfolding has_fresh_def upsert_row_keys [OF keeps_or_resets(1)] using fresh by blast
  show "has_fresh t k q \<Longrightarrow> has_fresh t k (upsert_queue reset_conflict t i q)"
    unfolding has_fresh_def upsert_row_keys [OF keeps_or_resets(1)] using fresh by blast
qed

lemma upserts_reset_fresh: "i \<in> set items \<or> has_fresh t (aq_key (new_row t i)) q
    \<Longrightarrow> has_fresh t (aq_key (new_row t i)) (fold (upsert_queue reset_conflict t) items q)"
  by (induction items arbitrary: q) (auto simp: upsert_reset_fresh)

subsection \<open>The invariant\<close>

definition row_ok :: "ArtworkQueueItem \<Rightarrow> bool" where
  "row_ok r \<longleftrightarrow> aq_EnqueuedAt r + least_delay (aq_Attempts r) \<le> aq_RetryAt r
     \<and> (aq_RetryAt r = aq_EnqueuedAt r \<or> aq_RetryAt r < aq_EnqueuedAt r + giveUpAfter) \<and> aq_ImageType r \<noteq> []"

definition flight_ok :: "Time \<Rightarrow> ArtworkQueueItem list \<Rightarrow> art_flight \<Rightarrow> bool" where
  "flight_ok now q f \<longleftrightarrow> af_started f \<le> now \<and> aq_RetryAt (af_item f) \<le> af_started f
     \<and> (\<forall>r \<in> set q. aq_key r = aq_key (af_item f) \<and> aq_RetryAt r = aq_RetryAt (af_item f) \<longrightarrow>
          aq_Attempts r = aq_Attempts (af_item f) \<and> aq_EnqueuedAt r = aq_EnqueuedAt (af_item f))"

definition request_ok :: "art_system \<Rightarrow> art_key \<times> Time \<Rightarrow> bool" where
  "request_ok s req \<longleftrightarrow> (case req of (k, t) \<Rightarrow>
     t \<le> as_now s \<and> (\<forall>r \<in> set (ad_queue (as_db s)). aq_key r = k \<longrightarrow> t \<le> aq_RetryAt r)
     \<and> (k \<in> aq_key ` set (ad_queue (as_db s)) \<or> (\<exists>u \<ge> t. (k, u) \<in> set (as_removed s)) \<or> (\<exists>u > t. (k, u) \<in> set (as_purged s))))"

definition art_inv :: "art_system \<Rightarrow> bool" where
  "art_inv s \<longleftrightarrow>
     distinct (map aq_key (ad_queue (as_db s)))
     \<and> (\<forall>r \<in> set (ad_queue (as_db s)). row_ok r)
     \<and> (\<forall>f \<in> set (as_flights s). flight_ok (as_now s) (ad_queue (as_db s)) f)
     \<and> (\<forall>req \<in> set (as_requests s). request_ok s req)"

lemma row_ok_same: "row_ok r \<Longrightarrow> same_queue_row r r' \<Longrightarrow> row_ok r'"
  by (simp add: row_ok_def same_queue_row_def aq_key_def)

lemma row_ok_fresh: "fresh_row t r \<Longrightarrow> row_ok r"
  by (simp add: row_ok_def fresh_row_def least_delay_def)

lemma flight_ok_grows:
  assumes "flight_ok now q f" "grows t q q'" "now < t"
  shows "flight_ok t q' f"
proof -
  have "aq_Attempts r = aq_Attempts (af_item f) \<and> aq_EnqueuedAt r = aq_EnqueuedAt (af_item f)"
    if r: "r \<in> set q'" "aq_key r = aq_key (af_item f)" "aq_RetryAt r = aq_RetryAt (af_item f)" for r
  proof -
    have "\<not> fresh_row t r" using assms(1,3) r(3) by (simp add: flight_ok_def fresh_row_def)
    then obtain r0 where "r0 \<in> set q" "same_queue_row r0 r" using assms(2) r(1) by (auto simp: grows_def)
    then show ?thesis using assms(1) r unfolding flight_ok_def same_queue_row_def by metis
  qed
  then show ?thesis using assms(1,3) by (auto simp: flight_ok_def)
qed

lemma flight_ok_subset: "flight_ok now q f \<Longrightarrow> set q' \<subseteq> set q \<Longrightarrow> now \<le> t \<Longrightarrow> flight_ok t q' f"
  by (auto simp: flight_ok_def)

lemma art_invI:
  assumes "distinct (map aq_key (ad_queue (as_db s)))" "\<And>r. r \<in> set (ad_queue (as_db s)) \<Longrightarrow> row_ok r"
    and "\<And>f. f \<in> set (as_flights s) \<Longrightarrow> flight_ok (as_now s) (ad_queue (as_db s)) f"
    and "\<And>req. req \<in> set (as_requests s) \<Longrightarrow> request_ok s req"
  shows "art_inv s"
  using assms by (simp add: art_inv_def)

lemma art_invD:
  assumes "art_inv s"
  shows "r \<in> set (ad_queue (as_db s)) \<Longrightarrow> row_ok r"
    and "f \<in> set (as_flights s) \<Longrightarrow> flight_ok (as_now s) (ad_queue (as_db s)) f"
    and "req \<in> set (as_requests s) \<Longrightarrow> request_ok s req"
    and "distinct (map aq_key (ad_queue (as_db s)))"
  using assms by (simp_all add: art_inv_def)

lemma request_ok_grows:
  assumes "request_ok s req" "grows t (ad_queue (as_db s)) (ad_queue (as_db s'))" "as_now s < t" "as_now s' = t"
    and "as_removed s' = as_removed s" "as_purged s' = as_purged s"
  shows "request_ok s' req"
proof -
  obtain k u where req: "req = (k, u)" by fastforce
  have "u \<le> aq_RetryAt r" if r: "r \<in> set (ad_queue (as_db s'))" "aq_key r = k" for r
  proof (cases "fresh_row t r")
    case True
    then show ?thesis using assms(1,3) by (simp add: req request_ok_def fresh_row_def)
  next
    case False
    then obtain r0 where "r0 \<in> set (ad_queue (as_db s))" "same_queue_row r0 r" using assms(2) r(1) unfolding grows_def by blast
    then show ?thesis using assms(1) r(2) by (auto simp: req request_ok_def same_queue_row_def)
  qed
  then show ?thesis using assms unfolding req request_ok_def grows_def by auto
qed

lemma row_ok_grows: "grows t q q' \<Longrightarrow> (\<And>r. r \<in> set q \<Longrightarrow> row_ok r) \<Longrightarrow> r \<in> set q' \<Longrightarrow> row_ok r"
  unfolding grows_def using row_ok_same row_ok_fresh by blast

lemma inv_grow:
  assumes "art_inv s" "as_now s < t" "grows t (ad_queue (as_db s)) (ad_queue db')"
  shows "art_inv (s\<lparr>as_now := t, as_db := db'\<rparr>)"
proof (rule art_invI)
  show "distinct (map aq_key (ad_queue (as_db (s\<lparr>as_now := t, as_db := db'\<rparr>))))"
    using art_invD(4) [OF assms(1)] assms(3) by (simp add: grows_def)
next
  fix r assume "r \<in> set (ad_queue (as_db (s\<lparr>as_now := t, as_db := db'\<rparr>)))"
  then show "row_ok r" using row_ok_grows [OF assms(3)] art_invD(1) [OF assms(1)] by simp
next
  fix f assume "f \<in> set (as_flights (s\<lparr>as_now := t, as_db := db'\<rparr>))"
  then show "flight_ok (as_now (s\<lparr>as_now := t, as_db := db'\<rparr>)) (ad_queue (as_db (s\<lparr>as_now := t, as_db := db'\<rparr>))) f"
    using flight_ok_grows [OF _ assms(3,2)] art_invD(2) [OF assms(1)] by simp
next
  fix req assume "req \<in> set (as_requests (s\<lparr>as_now := t, as_db := db'\<rparr>))"
  then have "request_ok s req" using art_invD(3) [OF assms(1)] by simp
  then show "request_ok (s\<lparr>as_now := t, as_db := db'\<rparr>) req"
    by (rule request_ok_grows [where t = t]) (use assms(2,3) in simp_all)
qed

lemma enqueue_grows:
  "grows t (ad_queue db) (ad_queue (Enqueue_art t items db))"
  "grows t (ad_queue db) (ad_queue (EnqueuePreservingBackoff t items db))"
  "grows t (ad_queue db) (ad_queue (insertIfNotQueued t items db))"
  by (simp_all add: Enqueue_art_def EnqueuePreservingBackoff_def insertIfNotQueued_def upsert_rows_grow)

lemma flight_ok_pc [simp]: "flight_ok now q (f\<lparr>af_pc := p\<rparr>) = flight_ok now q f"
  by (simp add: flight_ok_def)

lemma set_flight_simps [simp]:
  "as_now (set_flight i pc s) = as_now s" "as_db (set_flight i pc s) = as_db s" "as_requests (set_flight i pc s) = as_requests s"
  "as_removed (set_flight i pc s) = as_removed s" "as_purged (set_flight i pc s) = as_purged s"
  by (simp_all add: set_flight_def)

lemma set_flight_flights:
  assumes "f \<in> set (as_flights (set_flight i pc s))" "i < length (as_flights s)" "\<And>g. g \<in> set (as_flights s) \<Longrightarrow> flight_ok now q g"
  shows "flight_ok now q f"
proof (cases pc)
  case None
  then have "f \<in> set (as_flights s)" using assms(1) by (auto simp: set_flight_def dest: in_set_takeD in_set_dropD)
  then show ?thesis by (rule assms(3))
next
  case (Some p)
  then have "f \<in> set (as_flights s) \<or> f = (as_flights s ! i)\<lparr>af_pc := p\<rparr>"
    using assms(1) set_update_subset_insert [of "as_flights s" i "(as_flights s ! i)\<lparr>af_pc := p\<rparr>"] by (auto simp: set_flight_def)
  then show ?thesis using assms(2,3) by auto
qed

lemma set_flight_inv:
  assumes "art_inv s" "i < length (as_flights s)"
  shows "art_inv (set_flight i pc s)"
proof (rule art_invI)
  fix f assume "f \<in> set (as_flights (set_flight i pc s))"
  from set_flight_flights [OF this assms(2) art_invD(2) [OF assms(1)]]
  show "flight_ok (as_now (set_flight i pc s)) (ad_queue (as_db (set_flight i pc s))) f" by simp
next
  fix req assume "req \<in> set (as_requests (set_flight i pc s))"
  then have "request_ok s req" using art_invD(3) [OF assms(1)] by simp
  then show "request_ok (set_flight i pc s) req" by (simp add: request_ok_def)
qed (use art_invD(1,4) [OF assms(1)] in simp_all)

lemma put_item_queue [simp]: "ad_queue (put_item item ia db) = ad_queue db"
  by (simp add: put_item_def)

lemma writeAbsent_queue [simp]: "ad_queue (snd (writeAbsent env t item db)) = ad_queue db"
  by (simp add: writeAbsent_def)

lemma acquire_queue: "acquire env t item db = (out, db') \<Longrightarrow> ad_queue db' = ad_queue db"
  by (auto simp: acquire_def acquire_image_def writeAbsent_def Let_def split: option.splits if_splits)

subsection \<open>Every step keeps it\<close>

lemma inv_request:
  assumes "art_inv s" "as_now s < t"
  shows "art_inv (s\<lparr>as_now := t, as_db := Enqueue_art t items (as_db s), as_requests := map (\<lambda>i. (aq_key (new_row t i), t)) items @ as_requests s\<rparr>)"
    (is "art_inv ?s'")
proof (rule art_invI)
  let ?s = "s\<lparr>as_now := t, as_db := Enqueue_art t items (as_db s)\<rparr>"
  have inv: "art_inv ?s" by (rule inv_grow [OF assms enqueue_grows(1)])
  show "distinct (map aq_key (ad_queue (as_db ?s')))" using art_invD(4) [OF inv] by simp
  show "row_ok r" if "r \<in> set (ad_queue (as_db ?s'))" for r using art_invD(1) [OF inv] that by simp
  show "flight_ok (as_now ?s') (ad_queue (as_db ?s')) f" if "f \<in> set (as_flights ?s')" for f using art_invD(2) [OF inv] that by simp
  show "request_ok ?s' req" if req: "req \<in> set (as_requests ?s')" for req
  proof (cases "req \<in> set (as_requests s)")
    case True
    then have "request_ok ?s req" using art_invD(3) [OF inv] by simp
    then show ?thesis by (simp add: request_ok_def)
  next
    case False
    then obtain i where i: "i \<in> set items" "req = (aq_key (new_row t i), t)" using req by auto
    have "has_fresh t (aq_key (new_row t i)) (fold (upsert_queue reset_conflict t) items (ad_queue (as_db s)))"
      using upserts_reset_fresh i(1) by blast
    then show ?thesis by (auto simp: i(2) request_ok_def Enqueue_art_def has_fresh_def fresh_row_def)
  qed
qed

lemma inv_purge:
  assumes "art_inv s" "as_now s < t"
  shows "art_inv (s\<lparr>as_now := t, as_db := PurgeDangling gone (as_db s),
      as_purged := map (\<lambda>r. (aq_key r, t)) (filter (\<lambda>r. gone (aq_ItemKind r) (aq_ItemID r)) (ad_queue (as_db s))) @ as_purged s\<rparr>)"
    (is "art_inv ?s'")
proof (rule art_invI)
  have sub: "set (ad_queue (as_db ?s')) \<subseteq> set (ad_queue (as_db s))" by (auto simp: PurgeDangling_def)
  show "distinct (map aq_key (ad_queue (as_db ?s')))" using art_invD(4) [OF assms(1)] by (simp add: PurgeDangling_def distinct_map_filter)
  show "row_ok r" if "r \<in> set (ad_queue (as_db ?s'))" for r using art_invD(1) [OF assms(1)] that sub by blast
  show "flight_ok (as_now ?s') (ad_queue (as_db ?s')) f" if "f \<in> set (as_flights ?s')" for f
    by (rule flight_ok_subset [OF art_invD(2) [OF assms(1)] sub]) (use assms(2) that in simp_all)
  show "request_ok ?s' req" if "req \<in> set (as_requests ?s')" for req
  proof -
    have old: "request_ok s req" using art_invD(3) [OF assms(1)] that by simp
    obtain k u where req: "req = (k, u)" by fastforce
    have late: "u < t" using old assms(2) by (simp add: req request_ok_def)
    have "u \<le> aq_RetryAt r" if "r \<in> set (ad_queue (as_db ?s'))" "aq_key r = k" for r
      using old that sub by (auto simp: req request_ok_def)
    moreover have "k \<in> aq_key ` set (ad_queue (as_db ?s')) \<or> (\<exists>v \<ge> u. (k, v) \<in> set (as_removed ?s')) \<or> (\<exists>v > u. (k, v) \<in> set (as_purged ?s'))"
    proof -
      have "k \<in> aq_key ` set (ad_queue (as_db ?s')) \<or> (k, t) \<in> set (as_purged ?s')" if "k \<in> aq_key ` set (ad_queue (as_db s))"
        using that by (auto simp: PurgeDangling_def)
      moreover have "k \<in> aq_key ` set (ad_queue (as_db s)) \<or> (\<exists>v \<ge> u. (k, v) \<in> set (as_removed s)) \<or> (\<exists>v > u. (k, v) \<in> set (as_purged s))"
        using old by (simp add: req request_ok_def)
      ultimately show ?thesis using late by auto
    qed
    ultimately show ?thesis using late by (simp add: req request_ok_def)
  qed
qed

text \<open>Steps that change no row.\<close>

lemma inv_same_queue:
  assumes "art_inv s" "as_now s < t" "ad_queue db = ad_queue (as_db s)"
  shows "art_inv (s\<lparr>as_now := t, as_db := db\<rparr>)"
  by (rule inv_grow [OF assms(1,2)]) (simp add: assms(3))

lemma dequeued_rows:
  assumes "r \<in> set (DequeueBatch t n kinds db)"
  shows "r \<in> set (ad_queue db) \<and> aq_RetryAt r \<le> t"
  using assms by (auto simp: DequeueBatch_def dest!: in_set_takeD)

lemma inv_dequeue:
  assumes "art_inv s" "as_now s < t"
  shows "art_inv (s\<lparr>as_now := t, as_flights := map (dequeued t) (DequeueBatch t n kinds (as_db s)) @ as_flights s\<rparr>)"
    (is "art_inv ?s'")
proof (rule art_invI)
  let ?s = "s\<lparr>as_now := t, as_db := as_db s\<rparr>"
  have inv: "art_inv ?s" by (rule inv_same_queue [OF assms refl])
  show "distinct (map aq_key (ad_queue (as_db ?s')))" using art_invD(4) [OF inv] by simp
  show "row_ok r" if "r \<in> set (ad_queue (as_db ?s'))" for r using art_invD(1) [OF inv] that by simp
  show "request_ok ?s' req" if "req \<in> set (as_requests ?s')" for req
    using art_invD(3) [OF inv, of req] that by (simp add: request_ok_def)
  show "flight_ok (as_now ?s') (ad_queue (as_db ?s')) f" if f: "f \<in> set (as_flights ?s')" for f
  proof (cases "f \<in> set (as_flights s)")
    case True
    then show ?thesis using art_invD(2) [OF inv, of f] by simp
  next
    case False
    then obtain r where r: "r \<in> set (DequeueBatch t n kinds (as_db s))" "f = dequeued t r" using f by auto
    note row = dequeued_rows [OF r(1)]
    have "aq_ImageType r \<noteq> []" using art_invD(1) [OF assms(1)] row by (simp add: row_ok_def)
    then have item: "af_item f = r" by (simp add: r(2) dequeued_def taken_item_def image_type_or_def)
    have "r' = r" if "r' \<in> set (ad_queue (as_db s))" "aq_key r' = aq_key r" for r'
      using art_invD(4) [OF assms(1)] row that by (auto simp: distinct_map inj_on_def)
    then show ?thesis using row by (auto simp: flight_ok_def item) (simp_all add: r(2) dequeued_def)
  qed
qed

lemma inv_MarkFailed:
  assumes "art_inv s" "as_now s < t" "f \<in> set (as_flights s)" "- 2/5 \<le> jitter"
    and retry: "retryAt = t + backoffFor (aq_Attempts (af_item f)) jitter" "retryAt < aq_EnqueuedAt (af_item f) + giveUpAfter"
  shows "art_inv (s\<lparr>as_now := t, as_db := MarkFailedIfUnchanged (aq_key (af_item f)) (aq_RetryAt (af_item f)) retryAt (as_db s)\<rparr>)"
    (is "art_inv ?s'")
proof -
  let ?item = "af_item f"
  have later: "t \<le> retryAt" using retry(1) backoffFor_nonneg [OF assms(4)] by simp
  have f_ok: "flight_ok (as_now s) (ad_queue (as_db s)) f" by (rule art_invD(2) [OF assms(1,3)])
  have rows: "r' \<in> set (ad_queue (as_db s)) \<or>
      (\<exists>r \<in> set (ad_queue (as_db s)). unchanged (aq_key ?item) (aq_RetryAt ?item) r \<and> r' = r\<lparr>aq_Attempts := aq_Attempts r + 1, aq_RetryAt := retryAt\<rparr>)"
    if "r' \<in> set (ad_queue (as_db ?s'))" for r'
    using that by (auto simp: MarkFailedIfUnchanged_def split: if_splits)
  have key: "aq_key (r\<lparr>aq_Attempts := n, aq_RetryAt := u\<rparr>) = aq_key r" for r n u by (simp add: aq_key_def)
  have keys: "map aq_key (ad_queue (as_db ?s')) = map aq_key (ad_queue (as_db s))"
    by (simp add: MarkFailedIfUnchanged_def key)
  show ?thesis
  proof (rule art_invI)
    show "distinct (map aq_key (ad_queue (as_db ?s')))" using art_invD(4) [OF assms(1)] by (simp only: keys)
  next
    fix r' assume "r' \<in> set (ad_queue (as_db ?s'))"
    from rows [OF this] show "row_ok r'"
    proof (elim disjE bexE conjE)
      fix r assume r: "r \<in> set (ad_queue (as_db s))" "unchanged (aq_key ?item) (aq_RetryAt ?item) r"
        "r' = r\<lparr>aq_Attempts := aq_Attempts r + 1, aq_RetryAt := retryAt\<rparr>"
      have ok: "row_ok r" by (rule art_invD(1) [OF assms(1) r(1)])
      have item: "aq_Attempts r = aq_Attempts ?item" "aq_EnqueuedAt r = aq_EnqueuedAt ?item" "aq_RetryAt r < t"
        using f_ok r(1,2) assms(2) by (auto simp: flight_ok_def unchanged_def)
      have "backoffFor (aq_Attempts r) (- 2/5) \<le> backoffFor (aq_Attempts r) jitter" by (rule backoffFor_mono [OF assms(4)])
      then have "aq_EnqueuedAt r + least_delay (Suc (aq_Attempts r)) \<le> retryAt"
        using ok item retry(1) by (simp add: row_ok_def least_delay_Suc)
      then show ?thesis using ok item retry(2) by (simp add: r(3) row_ok_def)
    qed (rule art_invD(1) [OF assms(1)])
  next
    fix g assume "g \<in> set (as_flights ?s')"
    then have g: "flight_ok (as_now s) (ad_queue (as_db s)) g" using art_invD(2) [OF assms(1)] by simp
    then have early: "aq_RetryAt (af_item g) < t" using assms(2) by (simp add: flight_ok_def)
    have "r' \<in> set (ad_queue (as_db s))" if "r' \<in> set (ad_queue (as_db ?s'))" "aq_RetryAt r' = aq_RetryAt (af_item g)" for r'
      using rows [OF that(1)] that(2) early later by auto
    then show "flight_ok (as_now ?s') (ad_queue (as_db ?s')) g" using g assms(2) by (auto simp: flight_ok_def)
  next
    fix req assume "req \<in> set (as_requests ?s')"
    then have old: "request_ok s req" using art_invD(3) [OF assms(1)] by simp
    obtain k u where req: "req = (k, u)" by fastforce
    have u: "u < t" using old assms(2) by (simp add: req request_ok_def)
    have "u \<le> aq_RetryAt r'" if r': "r' \<in> set (ad_queue (as_db ?s'))" "aq_key r' = k" for r'
      using rows [OF r'(1)] old r'(2) u later by (auto simp: req request_ok_def)
    moreover have "aq_key ` set (ad_queue (as_db ?s')) = aq_key ` set (ad_queue (as_db s))"
      using arg_cong [OF keys, of set] by (simp only: set_map)
    ultimately show "request_ok ?s' req" using old u by (simp add: req request_ok_def)
  qed
qed

lemma inv_remove:
  assumes "art_inv s" "as_now s < t" "f \<in> set (as_flights s)"
  shows "art_inv (s\<lparr>as_now := t, as_db := DeleteIfUnchanged (aq_key (af_item f)) (aq_RetryAt (af_item f)) (as_db s),
      as_removed := (aq_key (af_item f), af_started f) # as_removed s\<rparr>)"
    (is "art_inv ?s'")
proof (rule art_invI)
  have sub: "set (ad_queue (as_db ?s')) \<subseteq> set (ad_queue (as_db s))" by (auto simp: DeleteIfUnchanged_def)
  show "distinct (map aq_key (ad_queue (as_db ?s')))" using art_invD(4) [OF assms(1)] by (simp add: DeleteIfUnchanged_def distinct_map_filter)
  show "row_ok r" if "r \<in> set (ad_queue (as_db ?s'))" for r using art_invD(1) [OF assms(1)] that sub by blast
  show "flight_ok (as_now ?s') (ad_queue (as_db ?s')) g" if "g \<in> set (as_flights ?s')" for g
    by (rule flight_ok_subset [OF art_invD(2) [OF assms(1)] sub]) (use assms(2) that in simp_all)
  fix req assume "req \<in> set (as_requests ?s')"
  then have old: "request_ok s req" using art_invD(3) [OF assms(1)] by simp
  obtain k u where req: "req = (k, u)" by fastforce
  have late: "u < t" using old assms(2) by (simp add: req request_ok_def)
  have retry: "u \<le> aq_RetryAt r" if "r \<in> set (ad_queue (as_db s))" "aq_key r = k" for r
    using old that by (auto simp: req request_ok_def)
  have "k \<in> aq_key ` set (ad_queue (as_db ?s')) \<or> (\<exists>v \<ge> u. (k, v) \<in> set (as_removed ?s')) \<or> (\<exists>v > u. (k, v) \<in> set (as_purged ?s'))"
  proof (cases "k \<in> aq_key ` set (ad_queue (as_db s))")
    case True
    then obtain r where r: "r \<in> set (ad_queue (as_db s))" "aq_key r = k" by blast
    show ?thesis
    proof (cases "unchanged (aq_key (af_item f)) (aq_RetryAt (af_item f)) r")
      case True
      then have "k = aq_key (af_item f)" "u \<le> aq_RetryAt (af_item f)" using r(2) retry [OF r] by (auto simp: unchanged_def)
      moreover have "aq_RetryAt (af_item f) \<le> af_started f" using art_invD(2) [OF assms(1,3)] by (simp add: flight_ok_def)
      ultimately have "u \<le> af_started f" "(k, af_started f) \<in> set (as_removed ?s')" by simp_all
      then show ?thesis by blast
    next
      case False
      then have "r \<in> set (ad_queue (as_db ?s'))" using r(1) by (simp add: DeleteIfUnchanged_def)
      then show ?thesis using r(2) by blast
    qed
  next
    case False
    then show ?thesis using old by (auto simp: req request_ok_def)
  qed
  moreover have "\<forall>r \<in> set (ad_queue (as_db ?s')). aq_key r = k \<longrightarrow> u \<le> aq_RetryAt r" using retry sub by blast
  ultimately show "request_ok ?s' req" using late by (simp add: req request_ok_def)
qed

lemma art_step_inv:
  assumes "art_step s s'" "art_inv s"
  shows "art_inv s'"
  using assms(1)
proof cases
  case (request t items)
  then show ?thesis using inv_request assms(2) by simp
next
  case (view t items)
  then show ?thesis using inv_grow [OF assms(2) _ enqueue_grows(2)] by simp
next
  case (stale t keys kind cutoff)
  then show ?thesis using inv_grow [OF assms(2) _ enqueue_grows(3)] by (simp add: EnqueueStaleAbsent_def)
next
  case (missing t keys ids kind priority)
  then show ?thesis using inv_grow [OF assms(2) _ enqueue_grows(3)] by (simp add: EnqueueAllMissing_def)
next
  case (if_missing t items)
  then show ?thesis using inv_grow [OF assms(2) _ enqueue_grows(3)] by (simp add: EnqueueIfMissing_def)
next
  case (purge t gone)
  then show ?thesis using inv_purge [OF assms(2)] by simp
next
  case (clear t kind ids)
  then show ?thesis using inv_same_queue [OF assms(2)] by (simp add: DeleteForItems_def)
next
  case (dequeue t n kinds)
  then show ?thesis using inv_dequeue [OF assms(2)] by simp
next
  case (acquire t i env out db)
  then have "art_inv (s\<lparr>as_now := t, as_db := db\<rparr>)" by (intro inv_same_queue [OF assms(2)]) (auto dest: acquire_queue)
  then show ?thesis using acquire set_flight_inv by simp
next
  case (settle t i out jitter env db pc)
  have "art_inv (s\<lparr>as_now := t, as_db := db\<rparr>)"
  proof (cases "ad_queue db = ad_queue (as_db s)")
    case True
    then show ?thesis by (rule inv_same_queue [OF assms(2) settle(2)])
  next
    case False
    let ?item = "af_item (as_flights s ! i)"
    have "db = MarkFailedIfUnchanged (aq_key ?item) (aq_RetryAt ?item) (t + backoffFor (aq_Attempts ?item) jitter) (as_db s)"
      "t + backoffFor (aq_Attempts ?item) jitter < aq_EnqueuedAt ?item + giveUpAfter"
      using settle(7) False by (auto simp: settle_outcome_def Let_def split: if_splits)
    then show ?thesis using inv_MarkFailed [OF assms(2) settle(2) nth_mem [OF settle(3)] settle(5) refl] by simp
  qed
  then show ?thesis using settle set_flight_inv by simp
next
  case (absent t i env)
  then have "art_inv (s\<lparr>as_now := t, as_db := snd (writeAbsent env t (af_item (as_flights s ! i)) (as_db s))\<rparr>)"
    by (intro inv_same_queue [OF assms(2)]) auto
  then show ?thesis using absent set_flight_inv by simp
next
  case (remove t i f)
  then have "f \<in> set (as_flights s)" using nth_mem by blast
  from inv_remove [OF assms(2) remove(2) this] show ?thesis using remove set_flight_inv by simp
next
  case (give_in t i)
  have "art_inv (s\<lparr>as_now := t, as_db := as_db s\<rparr>)" by (rule inv_same_queue [OF assms(2) give_in(2) refl])
  then show ?thesis using give_in set_flight_inv by simp
qed

lemma art_reachable_inv: "art_reachable s \<Longrightarrow> art_inv s"
proof -
  have "art_inv s" if "art_step\<^sup>*\<^sup>* (art_initial t0) s" for t0
    using that
  proof induction
    case base
    show ?case by (simp add: art_inv_def art_initial_def)
  qed (rule art_step_inv)
  then show "art_reachable s \<Longrightarrow> art_inv s" by (auto simp: art_reachable_def)
qed

subsection \<open>What the queue guarantees\<close>

text \<open>C36: A request for artwork is not lost, however requests, rechecks and workers interleave: its row stays in the queue until a worker
  that took it after the request removes it, or it is purged after the request because its entity is gone.\<close>

theorem artwork_requests_kept:
  assumes "art_reachable s" "(k, t) \<in> set (as_requests s)"
  shows "k \<in> aq_key ` set (ad_queue (as_db s)) \<or> (\<exists>u \<ge> t. (k, u) \<in> set (as_removed s)) \<or> (\<exists>u > t. (k, u) \<in> set (as_purged s))"
  using art_invD(3) [OF art_reachable_inv [OF assms(1)] assms(2)] by (simp add: request_ok_def)

text \<open>A row of the queue is tried at most nine times: it never counts more than eight failed attempts, and its next attempt is
  always within twelve hours of the request.\<close>

theorem artwork_attempts_bounded:
  assumes "art_reachable s" "r \<in> set (ad_queue (as_db s))"
  shows "aq_Attempts r \<le> 8 \<and> aq_EnqueuedAt r \<le> aq_RetryAt r \<and> aq_RetryAt r < aq_EnqueuedAt r + giveUpAfter"
proof -
  have ok: "row_ok r" by (rule art_invD(1) [OF art_reachable_inv [OF assms(1)] assms(2)])
  have pos: "0 < giveUpAfter" by (simp add: giveUpAfter_def seconds_def)
  have near: "aq_RetryAt r < aq_EnqueuedAt r + giveUpAfter" using ok pos by (auto simp: row_ok_def)
  have "aq_Attempts r \<le> 8"
  proof (rule ccontr)
    assume "\<not> aq_Attempts r \<le> 8"
    then have "least_delay 9 \<le> least_delay (aq_Attempts r)" by (intro least_delay_mono) simp
    then show False using least_delay_9 ok near by (simp add: row_ok_def)
  qed
  moreover have "0 \<le> least_delay (aq_Attempts r)" using least_delay_mono [of 0 "aq_Attempts r"] by (simp add: least_delay_def)
  ultimately show ?thesis using ok near by (simp add: row_ok_def)
qed

subsection \<open>Served artwork\<close>

text \<open>A failed attempt leaves the state of every item as it was.\<close>

lemma failed_keeps_items: "acquire env t item db = (OutcomeFailed, db') \<Longrightarrow> ad_items db' = ad_items db"
  by (auto simp: acquire_def acquire_image_def writeAbsent_def Let_def split: option.splits if_splits)

lemma found_serves:
  "acquire env t item db = (out, db') \<Longrightarrow> out = OutcomeFound \<or> out = OutcomeFoundStale \<Longrightarrow>
    \<exists>ia. ad_items db' (aq_key (taken_item item)) = Some ia \<and> ia_Hash ia \<in> set (ad_images db') \<and> ia_AttemptedAt ia = t"
  by (auto simp: acquire_def acquire_image_def writeAbsent_def put_item_def found_state_def Let_def taken_item_def aq_key_def split: option.splits if_splits)

text \<open>When the attempts are used up, artwork that is served is kept, if the query for it succeeds. When it fails, the code takes this for no
  artwork, and what was served is replaced by the record that there is none.\<close>

lemma exhausted_keeps_served:
  "settle_outcome env t jitter out item db = (db', Some PcRecordAbsent) \<Longrightarrow> ae_getItem env \<Longrightarrow> ParseKind (aq_ItemKind item) = Some kind \<Longrightarrow>
    ad_items db (k_prefix kind, aq_ItemID item, aq_ImageType item) = Some ia \<Longrightarrow> ia_Hash ia = []"
  by (auto simp: settle_outcome_def Let_def hasResolvedArtwork_def split: if_splits)

subsection \<open>Housekeeping\<close>

lemma grows_backfill_kinds: "backfill_kinds t ids fails kinds db = (ok, db') \<Longrightarrow> grows t (ad_queue db) (ad_queue db')"
proof (induction t ids fails kinds db rule: backfill_kinds.induct)
  case (2 t ids fails kind kinds db)
  have "grows t (ad_queue db) (ad_queue (enqueueBackfillKind t kind xs db))" for xs
    by (simp add: enqueueBackfillKind_def enqueue_grows)
  then show ?case using 2 by (auto split: option.splits if_splits intro: grows_trans)
qed simp

text \<open>A backfill that succeeds has every entity of the four kinds in the queue; until one does, it is tried again.\<close>

lemma enqueue_keys:
  "aq_key ` set (ad_queue (Enqueue_art t items db)) = (\<lambda>i. aq_key (new_row t i)) ` set items \<union> aq_key ` set (ad_queue db)"
proof -
  have "aq_key ` set (fold (upsert_queue reset_conflict t) items q) = (\<lambda>i. aq_key (new_row t i)) ` set items \<union> aq_key ` set q" for q
    by (induction items arbitrary: q) (auto simp: upsert_row_keys)
  then show ?thesis by (simp add: Enqueue_art_def)
qed

lemma queue_item_key [simp]: "aq_key (new_row t (queue_item (kind, i, ImageTypePrimary) p)) = (kind, i, ImageTypePrimary)"
  by (simp add: new_row_def queue_item_def aq_key_def image_type_or_def ImageTypePrimary_def)

lemma backfill_kinds_all:
  "backfill_kinds t ids fails kinds db = (True, db') \<Longrightarrow> kind \<in> set kinds \<Longrightarrow>
    \<exists>xs. ids kind = Some xs \<and> (\<forall>i \<in> set xs. (k_prefix kind, i, ImageTypePrimary) \<in> aq_key ` set (ad_queue db'))"
proof (induction t ids fails kinds db rule: backfill_kinds.induct)
  case (2 t ids fails k kinds db)
  obtain xs where xs: "ids k = Some xs" "backfill_kinds t ids fails kinds (enqueueBackfillKind t k xs db) = (True, db')"
    using 2(2) by (auto split: option.splits if_splits)
  have ih: "kind \<in> set kinds \<Longrightarrow> ?case" using 2(1) [OF xs(1) _ xs(2)] 2(2) xs(1) by (auto split: if_splits)
  have "(k_prefix k, i, ImageTypePrimary) \<in> aq_key ` set (ad_queue db')" if "i \<in> set xs" for i
  proof -
    have "xs \<noteq> []" using that by auto
    then have "(k_prefix k, i, ImageTypePrimary) \<in> aq_key ` set (ad_queue (enqueueBackfillKind t k xs db))"
      using that by (auto simp: enqueueBackfillKind_def enqueue_keys image_image)
    then show ?thesis using grows_backfill_kinds [OF xs(2)] unfolding grows_def by blast
  qed
  then show ?case using ih xs(1) 2(3) by auto
qed simp

lemma backfill_complete:
  "backfill now current ids fails readable writable s = (Some True, s') \<Longrightarrow> kind \<in> set backfillKinds \<Longrightarrow>
    \<exists>xs. ids kind = Some xs \<and> (\<forall>i \<in> set xs. (k_prefix kind, i, ImageTypePrimary) \<in> aq_key ` set (ad_queue (bf_db s')))"
  using backfill_kinds_all unfolding backfill_def by (fastforce split: if_splits prod.splits bool.splits)

lemma refresh_queues:
  "(k_prefix kind, i, ImageTypePrimary) \<in> aq_key ` set (ad_queue (Refresh_art t kind i db)) \<and> ad_items (Refresh_art t kind i db) (k_prefix kind, i, ty) = None"
  by (simp add: Refresh_art_def enqueue_keys) (simp add: Enqueue_art_def DeleteForItems_def)

subsection \<open>Examples\<close>

definition example_art_item :: ArtworkQueueItem where
  "example_art_item = queue_item (''al'', ''a1'', []) ArtworkPriorityBump"

definition example_art_env :: "resolution option \<Rightarrow> bool \<Rightarrow> art_env" where
  "example_art_env res getItem = \<lparr>ae_resolve = res, ae_readable = True, ae_hash = (\<lambda>x. x), ae_getImage = True, ae_decodes = True,
     ae_placed = True, ae_putItem = True, ae_getItem = getItem\<rparr>"

lemma unread_state_drops_artwork:
  "snd (settle_outcome (example_art_env None False) (seconds 43200) 0 OutcomeFailed (queue_item (''al'', ''a1'', ''primary'') 0)
      \<lparr>ad_queue = [], ad_items = [(''al'', ''a1'', ''primary'') \<mapsto> \<lparr>ia_Hash = ''h'', ia_Source = ''embedded'', ia_SourcePath = ''a.mp3'', ia_RefMtime = 7, ia_AttemptedAt = 0, ia_UpdatedAt = 0\<rparr>], ad_images = [''h'']\<rparr>)
    = Some PcRecordAbsent"
  by code_simp

text \<open>A run in which an album is asked for, taken and tried.\<close>

definition example_requested :: art_system where
  "example_requested = (let s = art_initial 0 in
     s\<lparr>as_now := 1, as_db := Enqueue_art 1 [example_art_item] (as_db s),
       as_requests := map (\<lambda>i. (aq_key (new_row 1 i), 1)) [example_art_item] @ as_requests s\<rparr>)"

definition example_taken :: art_system where
  "example_taken = (let s = example_requested in
     s\<lparr>as_now := 2, as_flights := map (dequeued 2) (DequeueBatch 2 16 [''al''] (as_db s)) @ as_flights s\<rparr>)"

definition example_acquired :: "art_env \<Rightarrow> art_system" where
  "example_acquired env = (let s = example_taken; r = acquire env 3 (af_item (as_flights s ! 0)) (as_db s) in
     set_flight 0 (Some (PcOutcome (fst r))) (s\<lparr>as_now := 3, as_db := snd r\<rparr>))"

definition example_settled :: "art_env \<Rightarrow> outcome \<Rightarrow> art_system" where
  "example_settled env out = (let s = example_acquired env; r = settle_outcome env 4 0 out (af_item (as_flights s ! 0)) (as_db s) in
     set_flight 0 (snd r) (s\<lparr>as_now := 4, as_db := fst r\<rparr>))"

lemma example_settled_reachable:
  assumes "af_pc (as_flights (example_acquired env) ! 0) = PcOutcome out" "as_flights (example_acquired env) \<noteq> []"
  shows "art_reachable (example_settled env out)"
proof -
  have requested: "art_step (art_initial 0) example_requested"
    unfolding example_requested_def Let_def by (rule request) (simp add: art_initial_def)
  have "as_now example_requested = 1" by (simp add: example_requested_def Let_def)
  then have taken: "art_step example_requested example_taken"
    unfolding example_taken_def Let_def by (intro dequeue) simp
  have "as_flights example_taken \<noteq> [] \<and> af_pc (as_flights example_taken ! 0) = PcDequeued \<and> as_now example_taken = 2"
    by code_simp
  then have acquired: "art_step example_taken (example_acquired env)"
    unfolding example_acquired_def Let_def by (intro acquire [where env = env]) simp_all
  have "as_now (example_acquired env) = 3" by (simp add: example_acquired_def Let_def)
  then have settled: "art_step (example_acquired env) (example_settled env out)"
    unfolding example_settled_def Let_def using assms by (intro settle [where env = env and out = out and jitter = 0]) simp_all
  show ?thesis unfolding art_reachable_def using requested taken acquired settled by (meson converse_rtranclp_into_rtranclp rtranclp.rtrancl_refl)
qed

definition example_no_image :: art_env where
  "example_no_image = example_art_env (Some \<lparr>rs_data = None, rs_source_name = [], rs_sourcePath = [], rs_refMtime = 0, rs_extError = False, rs_localError = False\<rparr>) True"

theorem artwork_requests_kept_witness:
  "\<exists>s. art_reachable s \<and> as_requests s = [((''al'', ''a1'', ''primary''), 1)] \<and> ad_queue (as_db s) = [] \<and> as_removed s = [((''al'', ''a1'', ''primary''), 2)]
    \<and> (\<exists>u \<ge> 1. ((''al'', ''a1'', ''primary''), u) \<in> set (as_removed s))"
proof -
  let ?s = "example_settled example_no_image OutcomeAbsent"
  let ?f = "as_flights ?s ! 0"
  define s' where "s' = set_flight 0 None (?s\<lparr>as_now := 5, as_db := DeleteIfUnchanged (aq_key (af_item ?f)) (aq_RetryAt (af_item ?f)) (as_db ?s),
      as_removed := (aq_key (af_item ?f), af_started ?f) # as_removed ?s\<rparr>)"
  have "af_pc (as_flights (example_acquired example_no_image) ! 0) = PcOutcome OutcomeAbsent \<and> as_flights (example_acquired example_no_image) \<noteq> []"
    by code_simp
  then have reach: "art_reachable ?s" by (intro example_settled_reachable) simp_all
  have "as_now ?s < 5 \<and> 0 < length (as_flights ?s) \<and> af_pc ?f = PcRemove" by code_simp
  then have "art_step ?s s'" unfolding s'_def by (intro remove) simp_all
  then have reach': "art_reachable s'" using reach unfolding art_reachable_def by (meson rtranclp.rtrancl_into_rtrancl)
  have concrete: "as_requests s' = [((''al'', ''a1'', ''primary''), 1)] \<and> ad_queue (as_db s') = [] \<and> as_removed s' = [((''al'', ''a1'', ''primary''), 2)] \<and> as_purged s' = []"
    unfolding s'_def by code_simp
  then have "((''al'', ''a1'', ''primary''), 1) \<in> set (as_requests s')" by simp
  from artwork_requests_kept [OF reach' this] show ?thesis using concrete reach' by (intro exI [of _ s']) simp
qed

theorem artwork_attempts_bounded_witness:
  "\<exists>s r. art_reachable s \<and> ad_queue (as_db s) = [r] \<and> aq_Attempts r = 1 \<and> aq_RetryAt r = 4 + seconds 5 \<and> aq_RetryAt r < aq_EnqueuedAt r + giveUpAfter"
proof -
  let ?env = "example_art_env None True"
  let ?s = "example_settled ?env OutcomeFailed"
  have "af_pc (as_flights (example_acquired ?env) ! 0) = PcOutcome OutcomeFailed \<and> as_flights (example_acquired ?env) \<noteq> []" by code_simp
  then have reach: "art_reachable ?s" by (intro example_settled_reachable) simp_all
  have "length (ad_queue (as_db ?s)) = 1 \<and> aq_Attempts (hd (ad_queue (as_db ?s))) = 1 \<and> aq_RetryAt (hd (ad_queue (as_db ?s))) = 4 + seconds 5"
    by code_simp
  then obtain r where r: "ad_queue (as_db ?s) = [r]" "aq_Attempts r = 1" "aq_RetryAt r = 4 + seconds 5"
    by (cases "ad_queue (as_db ?s)") auto
  then have "r \<in> set (ad_queue (as_db ?s))" by simp
  from artwork_attempts_bounded [OF reach this] show ?thesis using reach r by blast
qed

end
