(* ===== verification/Artwork_Store.thy ===== *)
theory Artwork_Store
  imports Artwork_Queue Scan_Missing
begin

text \<open>
  The images behind the artwork: the store of files named by their content (\<open>core/artwork/image_store.go\<close>), the rows of images and of
  item states (\<open>persistence/artwork_repository.go\<close>), their writing by the processor (\<open>persist\<close> of \<open>core/artwork/processor.go\<close>) and
  their removal (\<open>core/artwork/prune.go\<close>), which exclude each other by a lock. Of a file the path below the root and the time of
  modification are kept. Decoding is a function: the same bytes always have the same type.
\<close>

subsection \<open>The store of files\<close>

definition extForMime :: "string \<Rightarrow> string" where
  "extForMime m =
     (if m = ''image/jpeg'' then ''.jpg'' else if m = ''image/png'' then ''.png'' else if m = ''image/gif'' then ''.gif''
      else if m = ''image/webp'' then ''.webp'' else ''.img'')"

definition mimeForFormat :: "string \<Rightarrow> string" where
  "mimeForFormat format =
     (if format = ''jpeg'' then ''image/jpeg'' else if format = ''png'' then ''image/png'' else if format = ''gif'' then ''image/gif''
      else if format = ''webp'' then ''image/webp'' else ''application/octet-stream'')"

definition hex_char :: "char \<Rightarrow> bool" where
  "hex_char c \<longleftrightarrow> CHR ''0'' \<le> c \<and> c \<le> CHR ''9'' \<or> CHR ''a'' \<le> c \<and> c \<le> CHR ''f''"

definition validHash :: "string \<Rightarrow> bool" where
  "validHash hash \<longleftrightarrow> length hash = 16 \<and> list_all hex_char hash"

type_synonym store_path = "string list"

definition image_path :: "string \<Rightarrow> string \<Rightarrow> store_path" where
  "image_path hash mimeType = [take 2 hash, take 2 (drop 2 hash), hash @ extForMime mimeType]"

type_synonym image_files = "store_path \<rightharpoonup> Time"

text \<open>\<open>Write\<close>: a file that is there is touched, or written again when that fails. \<open>touches\<close> and \<open>writes\<close> tell what the disk takes.\<close>

definition Write_image :: "bool \<Rightarrow> bool \<Rightarrow> Time \<Rightarrow> string \<Rightarrow> string \<Rightarrow> image_files \<Rightarrow> image_files option" where
  "Write_image touches writes now hash mimeType files =
     (if \<not> validHash hash then None
      else if files (image_path hash mimeType) \<noteq> None \<and> touches then Some (files(image_path hash mimeType \<mapsto> now))
      else if writes then Some (files(image_path hash mimeType \<mapsto> now))
      else None)"

definition Open_image :: "string \<Rightarrow> string \<Rightarrow> image_files \<Rightarrow> bool" where
  "Open_image hash mimeType files \<longleftrightarrow> validHash hash \<and> files (image_path hash mimeType) \<noteq> None"

text \<open>\<open>Sweep\<close> looks at one file after the other; \<open>removable\<close> tells which removals succeed.\<close>

definition sweep_removes :: "Time \<Rightarrow> (string \<Rightarrow> string \<Rightarrow> bool) \<Rightarrow> store_path \<Rightarrow> Time \<Rightarrow> bool" where
  "sweep_removes cutoff keep path mtime \<longleftrightarrow>
     \<not> mtime > cutoff \<and> (let name = last path; ext = file_ext name in has_prefix name ''.'' \<or> \<not> keep (trim_suffix name ext) ext)"

definition sweep_file :: "Time \<Rightarrow> (string \<Rightarrow> string \<Rightarrow> bool) \<Rightarrow> (store_path \<Rightarrow> bool) \<Rightarrow> store_path \<Rightarrow> image_files \<Rightarrow> image_files" where
  "sweep_file cutoff keep removable path files =
     (case files path of
        None \<Rightarrow> files
      | Some mtime \<Rightarrow> if sweep_removes cutoff keep path mtime \<and> removable path then files(path := None) else files)"

definition Sweep :: "Time \<Rightarrow> (string \<Rightarrow> string \<Rightarrow> bool) \<Rightarrow> (store_path \<Rightarrow> bool) \<Rightarrow> store_path list \<Rightarrow> image_files \<Rightarrow> image_files" where
  "Sweep cutoff keep removable paths files = fold (sweep_file cutoff keep removable) paths files"

subsection \<open>The rows\<close>

record image_row =
  im_Mime :: string
  im_CreatedAt :: Time

record image_db =
  id_files :: image_files
  id_images :: "string \<rightharpoonup> image_row"
  id_states :: "(art_key \<times> ItemArtwork) list"

definition PutImage :: "Time \<Rightarrow> string \<Rightarrow> string \<Rightarrow> image_db \<Rightarrow> image_db" where
  "PutImage now hash mimeType db = db\<lparr>id_images := (id_images db)(hash \<mapsto> \<lparr>im_Mime = mimeType, im_CreatedAt = now\<rparr>)\<rparr>"

definition GetMimeByHash :: "image_db \<Rightarrow> string \<rightharpoonup> string" where
  "GetMimeByHash db = (\<lambda>hash. map_option im_Mime (id_images db hash))"

definition referenced :: "image_db \<Rightarrow> string \<Rightarrow> bool" where
  "referenced db hash \<longleftrightarrow> list_ex (\<lambda>(k, ia). ia_Hash ia = hash \<and> ia_Hash ia \<noteq> []) (id_states db)"

definition PurgeOrphans :: "Time \<Rightarrow> image_db \<Rightarrow> image_db" where
  "PurgeOrphans createdBefore db =
     db\<lparr>id_images := (\<lambda>hash. case id_images db hash of None \<Rightarrow> None
        | Some r \<Rightarrow> if im_CreatedAt r < createdBefore \<and> \<not> referenced db hash then None else Some r)\<rparr>"

definition PurgeDanglingItems :: "(string \<Rightarrow> string \<Rightarrow> bool) \<Rightarrow> image_db \<Rightarrow> image_db" where
  "PurgeDanglingItems gone db =
     db\<lparr>id_states := filter (\<lambda>(k, ia). \<not> (fst k \<in> {''al'', ''ar'', ''pl'', ''ra'', ''mf''} \<and> gone (fst k) (fst (snd k)))) (id_states db)\<rparr>"

definition PutItemArtwork :: "art_key \<Rightarrow> ItemArtwork \<Rightarrow> image_db \<Rightarrow> image_db" where
  "PutItemArtwork k ia db =
     (let key = (fst k, fst (snd k), image_type_or (snd (snd k)))
      in db\<lparr>id_states := (key, ia) # filter (\<lambda>r. fst r \<noteq> key) (id_states db)\<rparr>)"

definition DeleteItemStates :: "Kind \<Rightarrow> string list \<Rightarrow> image_db \<Rightarrow> image_db" where
  "DeleteItemStates kind ids db = 
     db\<lparr>id_states := filter (\<lambda>(k, ia). \<not> (fst k = k_prefix kind \<and> fst (snd k) \<in> set ids)) (id_states db)\<rparr>"

subsection \<open>Acquisitions and the prune\<close>

text \<open>Where \<open>persist\<close> stands: waiting for the lock, holding it, with the bytes in place, with the row of the image written.\<close>

datatype persist_pc = PsWaiting | PsLocked | PsPlaced | PsImageRow

record persisting =
  ps_key :: art_key
  ps_hash :: string
  ps_mime :: string
  ps_res :: resolution
  ps_pc :: persist_pc

text \<open>Where \<open>prune\<close> stands, which holds the lock for itself.\<close>

datatype prune_pc = PrLocked | PrOrphans | PrMimes Time | PrSweep Time "string \<rightharpoonup> string"

record store_system =
  ss_now :: Time
  ss_db :: image_db
  ss_persisting :: "persisting list"
  ss_prune :: "prune_pc option"

definition pruneMinAge :: int where "pruneMinAge = seconds 3600"

definition known_file :: "(string \<rightharpoonup> string) \<Rightarrow> string \<Rightarrow> string \<Rightarrow> bool" where
  "known_file mimes hash ext \<longleftrightarrow> (case mimes hash of None \<Rightarrow> False | Some m \<Rightarrow> ext = extForMime m)"

definition acquired_mime :: "(string \<Rightarrow> string) \<Rightarrow> image_db \<Rightarrow> string \<Rightarrow> string" where
  "acquired_mime decode db hash = (case id_images db hash of Some r \<Rightarrow> im_Mime r | None \<Rightarrow> decode hash)"

definition placeBytes :: "bool \<Rightarrow> bool \<Rightarrow> Time \<Rightarrow> persisting \<Rightarrow> image_files \<Rightarrow> image_files option" where
  "placeBytes touches writes now p files = (if isFileBacked (rs_source_name (ps_res p)) then Some files else Write_image touches writes now (ps_hash p) (ps_mime p) files)"

definition set_persisting :: "nat \<Rightarrow> persist_pc \<Rightarrow> store_system \<Rightarrow> store_system" where
  "set_persisting i pc s = s\<lparr>ss_persisting := (ss_persisting s)[i := (ss_persisting s ! i)\<lparr>ps_pc := pc\<rparr>]\<rparr>"

definition end_persisting :: "nat \<Rightarrow> store_system \<Rightarrow> store_system" where
  "end_persisting i s = s\<lparr>ss_persisting := take i (ss_persisting s) @ drop (Suc i) (ss_persisting s)\<rparr>"

text \<open>No acquisition holds the lock.\<close>

definition no_readers :: "store_system \<Rightarrow> bool" where
  "no_readers s \<longleftrightarrow> list_all (\<lambda>p. ps_pc p = PsWaiting) (ss_persisting s)"

text \<open>Every step is a statement, a change of the disk, or taking the lock. Any of them can fail, which ends the call, and the
  process may stop at any point; a write that does not end leaves a temporary file.\<close>

inductive store_step :: "(string \<Rightarrow> string) \<Rightarrow> store_system \<Rightarrow> store_system \<Rightarrow> bool" for decode where
  acquire: "store_step decode s (s\<lparr>ss_persisting :=
      \<lparr>ps_key = k, ps_hash = hash, ps_mime = acquired_mime decode (ss_db s) hash, ps_res = res, ps_pc = PsWaiting\<rparr> # ss_persisting s\<rparr>)"
| lock: "i < length (ss_persisting s) \<Longrightarrow> ps_pc (ss_persisting s ! i) = PsWaiting \<Longrightarrow> ss_prune s = None \<Longrightarrow>
    store_step decode s (set_persisting i PsLocked s)"
| place: "ss_now s \<le> t \<Longrightarrow> i < length (ss_persisting s) \<Longrightarrow> ps_pc (ss_persisting s ! i) = PsLocked \<Longrightarrow>
    placeBytes touches writes t (ss_persisting s ! i) (id_files (ss_db s)) = Some files \<Longrightarrow>
    store_step decode s (set_persisting i PsPlaced (s\<lparr>ss_now := t, ss_db := (ss_db s)\<lparr>id_files := files\<rparr>\<rparr>))"
| put_image: "ss_now s \<le> t \<Longrightarrow> i < length (ss_persisting s) \<Longrightarrow> ps_pc (ss_persisting s ! i) = PsPlaced \<Longrightarrow>
    store_step decode s (set_persisting i PsImageRow
      (s\<lparr>ss_now := t, ss_db := PutImage t (ps_hash (ss_persisting s ! i)) (ps_mime (ss_persisting s ! i)) (ss_db s)\<rparr>))"
| put_item: "ss_now s \<le> t \<Longrightarrow> i < length (ss_persisting s) \<Longrightarrow> ss_persisting s ! i = p \<Longrightarrow> ps_pc p = PsImageRow \<Longrightarrow>
    store_step decode s (end_persisting i
      (s\<lparr>ss_now := t, ss_db := PutItemArtwork (ps_key p) (found_state t (ps_hash p) (ps_res p)) (ss_db s)\<rparr>))"
| fail: "i < length (ss_persisting s) \<Longrightarrow> store_step decode s (end_persisting i s)"
| absent: "ss_now s \<le> t \<Longrightarrow>
    store_step decode s (s\<lparr>ss_now := t, ss_db := PutItemArtwork k (absent_state t) (ss_db s)\<rparr>)"
| clear: "store_step decode s (s\<lparr>ss_db := DeleteItemStates kind ids (ss_db s)\<rparr>)"
| temp_file: "has_prefix (last path) ''.'' \<Longrightarrow> id_files (ss_db s) path = None \<Longrightarrow> ss_now s \<le> t \<Longrightarrow>
    store_step decode s (s\<lparr>ss_now := t, ss_db := (ss_db s)\<lparr>id_files := (id_files (ss_db s))(path \<mapsto> t)\<rparr>\<rparr>)"
| prune_lock: "ss_prune s = None \<Longrightarrow> no_readers s \<Longrightarrow> store_step decode s (s\<lparr>ss_prune := Some PrLocked\<rparr>)"
| prune_items: "ss_prune s = Some PrLocked \<Longrightarrow>
    store_step decode s (s\<lparr>ss_db := PurgeDanglingItems gone (ss_db s), ss_prune := Some PrOrphans\<rparr>)"
| prune_orphans: "ss_prune s = Some PrOrphans \<Longrightarrow> ss_now s \<le> t \<Longrightarrow>
    store_step decode s (s\<lparr>ss_now := t, ss_db := PurgeOrphans (t - pruneMinAge) (ss_db s), ss_prune := Some (PrMimes (t - pruneMinAge))\<rparr>)"
| prune_mimes: "ss_prune s = Some (PrMimes cutoff) \<Longrightarrow>
    store_step decode s (s\<lparr>ss_prune := Some (PrSweep cutoff (GetMimeByHash (ss_db s)))\<rparr>)"
| prune_sweep: "ss_prune s = Some (PrSweep cutoff mimes) \<Longrightarrow>
    store_step decode s (s\<lparr>ss_db := (ss_db s)\<lparr>id_files := sweep_file cutoff (known_file mimes) (\<lambda>_. True) path (id_files (ss_db s))\<rparr>\<rparr>)"
| prune_end: "ss_prune s \<noteq> None \<Longrightarrow> store_step decode s (s\<lparr>ss_prune := None\<rparr>)"
| crash: "store_step decode s (s\<lparr>ss_persisting := [], ss_prune := None\<rparr>)"

inductive_cases store_step_cases: "store_step decode s s'"

definition store_initial :: "Time \<Rightarrow> store_system" where
  "store_initial now = \<lparr>ss_now = now, ss_db = \<lparr>id_files = (\<lambda>_. None), id_images = (\<lambda>_. None), id_states = []\<rparr>,
     ss_persisting = [], ss_prune = None\<rparr>"

definition store_reachable :: "(string \<Rightarrow> string) \<Rightarrow> store_system \<Rightarrow> bool" where
  "store_reachable decode s \<longleftrightarrow> (\<exists>t0. (store_step decode)\<^sup>*\<^sup>* (store_initial t0) s)"

text \<open>The statements of \<open>prune\<close> one after the other, when none fails.\<close>

definition prune :: "Time \<Rightarrow> (string \<Rightarrow> string \<Rightarrow> bool) \<Rightarrow> (store_path \<Rightarrow> bool) \<Rightarrow> store_path list \<Rightarrow> image_db \<Rightarrow> image_db" where
  "prune now gone removable paths db =
     (let db1 = PurgeOrphans (now - pruneMinAge) (PurgeDanglingItems gone db)
      in db1\<lparr>id_files := Sweep (now - pruneMinAge) (known_file (GetMimeByHash db1)) removable paths (id_files db1)\<rparr>)"

subsection \<open>File names\<close>

lemma file_ext_image [simp]: "file_ext (hash @ extForMime m) = extForMime m"
  by (simp add: file_ext_def extForMime_def Let_def)

lemma trim_suffix_append [simp]: "trim_suffix (s @ t) t = s"
  by (simp add: trim_suffix_def)

lemma valid_hash_no_dot: "validHash hash \<Longrightarrow> \<not> has_prefix (hash @ e) ''.''"
  by (cases hash) (auto simp: validHash_def has_prefix_def hex_char_def)

lemma image_path_last [simp]: "last (image_path hash m) = hash @ extForMime m"
  by (simp add: image_path_def)

text \<open>A file whose image has a row is never swept.\<close>

lemma known_image_stays:
  assumes "Open_image hash m files" "mimes hash = Some m"
  shows "Open_image hash m (sweep_file cutoff (known_file mimes) removable path files)"
proof (cases "path = image_path hash m")
  case True
  have "\<not> has_prefix (hash @ extForMime m) ''.''" using assms(1) by (simp add: Open_image_def valid_hash_no_dot)
  then have "\<not> sweep_removes cutoff (known_file mimes) path mtime" for mtime
    using assms(2) by (simp add: sweep_removes_def True Let_def known_file_def)
  then show ?thesis using assms(1) by (simp add: sweep_file_def split: option.splits)
next
  case False
  then show ?thesis using assms(1) by (auto simp: Open_image_def sweep_file_def split: option.splits)
qed

subsection \<open>The invariant\<close>

definition image_ok :: "(string \<Rightarrow> string) \<Rightarrow> image_files \<Rightarrow> string \<Rightarrow> string \<Rightarrow> bool" where
  "image_ok decode files hash source \<longleftrightarrow> isFileBacked source \<or> Open_image hash (decode hash) files"

definition persisting_ok :: "(string \<Rightarrow> string) \<Rightarrow> image_db \<Rightarrow> persisting \<Rightarrow> bool" where
  "persisting_ok decode db p \<longleftrightarrow>
     ps_mime p = decode (ps_hash p)
     \<and> (ps_pc p \<in> {PsPlaced, PsImageRow} \<longrightarrow> image_ok decode (id_files db) (ps_hash p) (rs_source_name (ps_res p)))
     \<and> (ps_pc p = PsImageRow \<longrightarrow> id_images db (ps_hash p) \<noteq> None)"

definition state_ok :: "(string \<Rightarrow> string) \<Rightarrow> image_db \<Rightarrow> ItemArtwork \<Rightarrow> bool" where
  "state_ok decode db ia \<longleftrightarrow> ia_Hash ia = [] \<or> id_images db (ia_Hash ia) \<noteq> None \<and> image_ok decode (id_files db) (ia_Hash ia) (ia_Source ia)"

definition store_inv :: "(string \<Rightarrow> string) \<Rightarrow> store_system \<Rightarrow> bool" where
  "store_inv decode s \<longleftrightarrow>
     (\<forall>hash r. id_images (ss_db s) hash = Some r \<longrightarrow> im_Mime r = decode hash)
     \<and> (\<forall>p \<in> set (ss_persisting s). persisting_ok decode (ss_db s) p)
     \<and> (\<forall>ia \<in> snd ` set (id_states (ss_db s)). state_ok decode (ss_db s) ia)
     \<and> (ss_prune s \<noteq> None \<longrightarrow> no_readers s)
     \<and> (\<forall>cutoff mimes. ss_prune s = Some (PrSweep cutoff mimes) \<longrightarrow> mimes = GetMimeByHash (ss_db s))"

text \<open>The database keeps what it has: files, rows of images.\<close>

definition extends :: "image_db \<Rightarrow> image_db \<Rightarrow> bool" where
  "extends db db' \<longleftrightarrow> (\<forall>path. id_files db path \<noteq> None \<longrightarrow> id_files db' path \<noteq> None) \<and> (\<forall>h. id_images db h \<noteq> None \<longrightarrow> id_images db' h \<noteq> None)"

lemma extends_refl [simp]: "extends db db"
  by (simp add: extends_def)

lemma ok_extends:
  assumes "extends db db'"
  shows "image_ok decode (id_files db) hash source \<Longrightarrow> image_ok decode (id_files db') hash source"
    and "persisting_ok decode db p \<Longrightarrow> persisting_ok decode db' p"
    and "state_ok decode db ia \<Longrightarrow> state_ok decode db' ia"
proof -
  show image: "image_ok decode (id_files db) hash source \<Longrightarrow> image_ok decode (id_files db') hash source" for hash source
    using assms by (auto simp: image_ok_def Open_image_def extends_def)
  show "persisting_ok decode db p \<Longrightarrow> persisting_ok decode db' p"
    using assms image by (auto simp: persisting_ok_def extends_def)
  show "state_ok decode db ia \<Longrightarrow> state_ok decode db' ia"
    using assms image by (auto simp: state_ok_def extends_def)
qed

lemma set_end_persisting: "p \<in> set (ss_persisting (end_persisting i s)) \<Longrightarrow> p \<in> set (ss_persisting s)"
  by (auto simp: end_persisting_def dest: in_set_takeD in_set_dropD)

lemma set_set_persisting:
  "p \<in> set (ss_persisting (set_persisting i pc s)) \<Longrightarrow> p \<in> set (ss_persisting s) \<or> p = (ss_persisting s ! i)\<lparr>ps_pc := pc\<rparr>"
  using set_update_subset_insert [of "ss_persisting s" i "(ss_persisting s ! i)\<lparr>ps_pc := pc\<rparr>"] by (auto simp: set_persisting_def)

lemma system_simps [simp]:
  "ss_now (set_persisting i pc s) = ss_now s" "ss_db (set_persisting i pc s) = ss_db s" "ss_prune (set_persisting i pc s) = ss_prune s"
  "ss_now (end_persisting i s) = ss_now s" "ss_db (end_persisting i s) = ss_db s" "ss_prune (end_persisting i s) = ss_prune s"
  by (simp_all add: set_persisting_def end_persisting_def)

lemma no_readers_iff: "no_readers s \<longleftrightarrow> (\<forall>p \<in> set (ss_persisting s). ps_pc p = PsWaiting)"
  by (simp add: no_readers_def list_all_iff)

text \<open>While an acquisition holds the lock, nothing is pruned.\<close>

lemma reader_no_prune:
  assumes "store_inv decode s" "i < length (ss_persisting s)" "ps_pc (ss_persisting s ! i) \<noteq> PsWaiting"
  shows "ss_prune s = None"
  using assms nth_mem [OF assms(2)] unfolding store_inv_def no_readers_iff by blast

lemma store_invI:
  assumes "\<And>hash r. id_images (ss_db s) hash = Some r \<Longrightarrow> im_Mime r = decode hash"
    and "\<And>p. p \<in> set (ss_persisting s) \<Longrightarrow> persisting_ok decode (ss_db s) p"
    and "\<And>k ia. (k, ia) \<in> set (id_states (ss_db s)) \<Longrightarrow> state_ok decode (ss_db s) ia"
    and "ss_prune s \<noteq> None \<Longrightarrow> no_readers s"
    and "\<And>cutoff mimes. ss_prune s = Some (PrSweep cutoff mimes) \<Longrightarrow> mimes = GetMimeByHash (ss_db s)"
  shows "store_inv decode s"
  using assms unfolding store_inv_def by (auto simp: image_iff)

lemma store_invD:
  assumes "store_inv decode s"
  shows "id_images (ss_db s) hash = Some r \<Longrightarrow> im_Mime r = decode hash"
    and "p \<in> set (ss_persisting s) \<Longrightarrow> persisting_ok decode (ss_db s) p"
    and "(k, ia) \<in> set (id_states (ss_db s)) \<Longrightarrow> state_ok decode (ss_db s) ia"
    and "ss_prune s \<noteq> None \<Longrightarrow> no_readers s"
    and "ss_prune s = Some (PrSweep cutoff mimes) \<Longrightarrow> mimes = GetMimeByHash (ss_db s)"
  using assms unfolding store_inv_def by force+

text \<open>A change of the database that keeps what is there, with no prune or with the rows of images unchanged.\<close>

lemma inv_extends:
  assumes "store_inv decode s" "extends (ss_db s) db'"
    and "\<And>hash r. id_images db' hash = Some r \<Longrightarrow> im_Mime r = decode hash"
    and "\<And>k ia. (k, ia) \<in> set (id_states db') \<Longrightarrow> (k, ia) \<in> set (id_states (ss_db s)) \<or> state_ok decode db' ia"
    and "ss_prune s = None \<or> id_images db' = id_images (ss_db s)"
  shows "store_inv decode (s\<lparr>ss_now := t, ss_db := db'\<rparr>)"
proof (rule store_invI)
  fix p assume "p \<in> set (ss_persisting (s\<lparr>ss_now := t, ss_db := db'\<rparr>))"
  then show "persisting_ok decode (ss_db (s\<lparr>ss_now := t, ss_db := db'\<rparr>)) p"
    using store_invD(2) [OF assms(1)] ok_extends(2) [OF assms(2)] by simp
next
  fix k ia assume "(k, ia) \<in> set (id_states (ss_db (s\<lparr>ss_now := t, ss_db := db'\<rparr>)))"
  then show "state_ok decode (ss_db (s\<lparr>ss_now := t, ss_db := db'\<rparr>)) ia"
    using assms(4) [of k ia] store_invD(3) [OF assms(1), of k ia] ok_extends(3) [OF assms(2), of decode ia] by auto
next
  fix cutoff mimes assume "ss_prune (s\<lparr>ss_now := t, ss_db := db'\<rparr>) = Some (PrSweep cutoff mimes)"
  then show "mimes = GetMimeByHash (ss_db (s\<lparr>ss_now := t, ss_db := db'\<rparr>))"
    using store_invD(5) [OF assms(1)] assms(5) by (auto simp: GetMimeByHash_def)
qed (use assms(3) store_invD(4) [OF assms(1)] in \<open>auto simp: no_readers_def\<close>)

lemma inv_set_persisting:
  assumes "store_inv decode s" "i < length (ss_persisting s)" "ss_prune s = None"
    and "persisting_ok decode (ss_db s) ((ss_persisting s ! i)\<lparr>ps_pc := pc\<rparr>)"
  shows "store_inv decode (set_persisting i pc s)"
proof (rule store_invI)
  fix p assume "p \<in> set (ss_persisting (set_persisting i pc s))"
  from set_set_persisting [OF this] show "persisting_ok decode (ss_db (set_persisting i pc s)) p"
    using store_invD(2) [OF assms(1)] assms(4) by auto
qed (use assms(3) store_invD(1,3) [OF assms(1)] in auto)

lemma inv_end_persisting:
  assumes "store_inv decode s"
  shows "store_inv decode (end_persisting i s)"
proof (rule store_invI)
  fix p assume "p \<in> set (ss_persisting (end_persisting i s))"
  from set_end_persisting [OF this] show "persisting_ok decode (ss_db (end_persisting i s)) p" using store_invD(2) [OF assms] by simp
next
  assume "ss_prune (end_persisting i s) \<noteq> None"
  then have "no_readers s" using store_invD(4) [OF assms] by simp
  then show "no_readers (end_persisting i s)" using set_end_persisting unfolding no_readers_iff by blast
qed (use store_invD(1,3,5) [OF assms] in auto)

subsection \<open>Every step keeps it\<close>

lemma inv_states:
  assumes "store_inv decode s" "id_files db' = id_files (ss_db s)" "id_images db' = id_images (ss_db s)"
    and "\<And>k ia. (k, ia) \<in> set (id_states db') \<Longrightarrow> (k, ia) \<in> set (id_states (ss_db s)) \<or> state_ok decode (ss_db s) ia"
  shows "store_inv decode (s\<lparr>ss_now := t, ss_db := db'\<rparr>)"
proof (rule inv_extends [OF assms(1)])
  show "extends (ss_db s) db'" by (simp add: extends_def assms(2,3))
  show "(k, ia) \<in> set (id_states (ss_db s)) \<or> state_ok decode db' ia" if "(k, ia) \<in> set (id_states db')" for k ia
    using assms(4) [OF that] by (simp add: state_ok_def assms(2,3))
qed (use assms(3) store_invD(1) [OF assms(1)] in auto)

lemma inv_PurgeOrphans:
  assumes "store_inv decode s" "ss_prune s = Some PrOrphans"
  shows "store_inv decode (s\<lparr>ss_now := t, ss_db := PurgeOrphans cutoff (ss_db s), ss_prune := Some (PrMimes cutoff)\<rparr>)"
    (is "store_inv decode ?s'")
proof (rule store_invI)
  have waiting: "no_readers s" using store_invD(4) [OF assms(1)] assms(2) by simp
  show "no_readers ?s'" using waiting by (simp add: no_readers_def)
  show "persisting_ok decode (ss_db ?s') p" if "p \<in> set (ss_persisting ?s')" for p
    using that waiting store_invD(2) [OF assms(1), of p] by (auto simp: persisting_ok_def no_readers_iff)
  show "im_Mime r = decode hash" if "id_images (ss_db ?s') hash = Some r" for hash r
    using that store_invD(1) [OF assms(1), of hash r] by (auto simp: PurgeOrphans_def split: option.splits if_splits)
  show "state_ok decode (ss_db ?s') ia" if "(k, ia) \<in> set (id_states (ss_db ?s'))" for k ia
  proof -
    have row: "(k, ia) \<in> set (id_states (ss_db s))" using that by (simp add: PurgeOrphans_def)
    then have "ia_Hash ia \<noteq> [] \<Longrightarrow> referenced (ss_db s) (ia_Hash ia)" by (force simp: referenced_def list_ex_iff)
    then show ?thesis using store_invD(3) [OF assms(1) row] by (auto simp: state_ok_def PurgeOrphans_def split: option.splits)
  qed
qed simp

lemma inv_sweep:
  assumes "store_inv decode s" "ss_prune s = Some (PrSweep cutoff mimes)"
  shows "store_inv decode (s\<lparr>ss_db := (ss_db s)\<lparr>id_files := sweep_file cutoff (known_file mimes) removable path (id_files (ss_db s))\<rparr>\<rparr>)"
    (is "store_inv decode ?s'")
proof (rule store_invI)
  have mimes: "mimes = GetMimeByHash (ss_db s)" using store_invD(5) [OF assms] .
  have waiting: "no_readers s" using store_invD(4) [OF assms(1)] assms(2) by simp
  show "no_readers ?s'" using waiting by (simp add: no_readers_def)
  show "persisting_ok decode (ss_db ?s') p" if "p \<in> set (ss_persisting ?s')" for p
    using that waiting store_invD(2) [OF assms(1), of p] by (auto simp: persisting_ok_def no_readers_iff)
  show "im_Mime r = decode hash" if "id_images (ss_db ?s') hash = Some r" for hash r
    using that store_invD(1) [OF assms(1), of hash r] by simp
  show "m = GetMimeByHash (ss_db ?s')" if "ss_prune ?s' = Some (PrSweep c m)" for c m
    using that assms(2) mimes by (simp add: GetMimeByHash_def)
  show "state_ok decode (ss_db ?s') ia" if "(k, ia) \<in> set (id_states (ss_db ?s'))" for k ia
  proof -
    have ok: "state_ok decode (ss_db s) ia" using store_invD(3) [OF assms(1), of k ia] that by simp
    have "mimes (ia_Hash ia) = Some (decode (ia_Hash ia))" if "id_images (ss_db s) (ia_Hash ia) \<noteq> None"
      using that store_invD(1) [OF assms(1)] by (auto simp: mimes GetMimeByHash_def)
    then show ?thesis using ok known_image_stays by (auto simp: state_ok_def image_ok_def)
  qed
qed

lemma placed:
  assumes "placeBytes touches writes t p files = Some files'"
  shows "files path \<noteq> None \<Longrightarrow> files' path \<noteq> None" "isFileBacked (rs_source_name (ps_res p)) \<or> Open_image (ps_hash p) (ps_mime p) files'"
  using assms by (auto simp: placeBytes_def Write_image_def Open_image_def split: if_splits)

lemma inv_place:
  assumes "store_inv decode s" "i < length (ss_persisting s)" "ps_pc (ss_persisting s ! i) = PsLocked"
    and "placeBytes touches writes t (ss_persisting s ! i) (id_files (ss_db s)) = Some files"
  shows "store_inv decode (set_persisting i PsPlaced (s\<lparr>ss_now := t, ss_db := (ss_db s)\<lparr>id_files := files\<rparr>\<rparr>))"
proof (rule inv_set_persisting)
  let ?p = "ss_persisting s ! i"
  let ?s' = "s\<lparr>ss_now := t, ss_db := (ss_db s)\<lparr>id_files := files\<rparr>\<rparr>"
  have idle: "ss_prune s = None" by (rule reader_no_prune [OF assms(1,2)]) (simp add: assms(3))
  show "ss_prune ?s' = None" using idle by simp
  show "i < length (ss_persisting ?s')" using assms(2) by simp
  show "store_inv decode ?s'"
  proof (rule inv_extends [OF assms(1)])
    show "extends (ss_db s) ((ss_db s)\<lparr>id_files := files\<rparr>)" using placed(1) [OF assms(4)] by (simp add: extends_def)
  qed (use store_invD(1) [OF assms(1)] in auto)
  have mime: "ps_mime ?p = decode (ps_hash ?p)" using store_invD(2) [OF assms(1) nth_mem [OF assms(2)]] by (simp add: persisting_ok_def)
  show "persisting_ok decode (ss_db ?s') ((ss_persisting ?s' ! i)\<lparr>ps_pc := PsPlaced\<rparr>)"
    using placed(2) [OF assms(4)] mime by (simp add: persisting_ok_def image_ok_def)
qed

lemma inv_put_image:
  assumes "store_inv decode s" "i < length (ss_persisting s)" "ps_pc (ss_persisting s ! i) = PsPlaced"
  shows "store_inv decode (set_persisting i PsImageRow
      (s\<lparr>ss_now := t, ss_db := PutImage t (ps_hash (ss_persisting s ! i)) (ps_mime (ss_persisting s ! i)) (ss_db s)\<rparr>))"
proof (rule inv_set_persisting)
  let ?p = "ss_persisting s ! i"
  let ?db = "PutImage t (ps_hash ?p) (ps_mime ?p) (ss_db s)"
  let ?s' = "s\<lparr>ss_now := t, ss_db := ?db\<rparr>"
  have p: "persisting_ok decode (ss_db s) ?p" by (rule store_invD(2) [OF assms(1) nth_mem [OF assms(2)]])
  have idle: "ss_prune s = None" by (rule reader_no_prune [OF assms(1,2)]) (simp add: assms(3))
  show "ss_prune ?s' = None" using idle by simp
  show "i < length (ss_persisting ?s')" using assms(2) by simp
  show "store_inv decode ?s'"
  proof (rule inv_extends [OF assms(1)])
    show "extends (ss_db s) ?db" by (simp add: extends_def PutImage_def)
    show "im_Mime r = decode hash" if "id_images ?db hash = Some r" for hash r
      using that p store_invD(1) [OF assms(1), of hash r] by (auto simp: PutImage_def persisting_ok_def split: if_splits)
  qed (use idle in \<open>auto simp: PutImage_def\<close>)
  show "persisting_ok decode (ss_db ?s') ((ss_persisting ?s' ! i)\<lparr>ps_pc := PsImageRow\<rparr>)"
    using p assms(3) by (simp add: persisting_ok_def PutImage_def)
qed

lemma inv_put_item:
  assumes "store_inv decode s" "i < length (ss_persisting s)" "ss_persisting s ! i = p" "ps_pc p = PsImageRow"
  shows "store_inv decode (end_persisting i
      (s\<lparr>ss_now := t, ss_db := PutItemArtwork (ps_key p) (found_state t (ps_hash p) (ps_res p)) (ss_db s)\<rparr>))"
proof (rule inv_end_persisting, rule inv_states [OF assms(1)])
  have p: "persisting_ok decode (ss_db s) p" using store_invD(2) [OF assms(1) nth_mem [OF assms(2)]] assms(3) by simp
  fix k ia assume "(k, ia) \<in> set (id_states (PutItemArtwork (ps_key p) (found_state t (ps_hash p) (ps_res p)) (ss_db s)))"
  then show "(k, ia) \<in> set (id_states (ss_db s)) \<or> state_ok decode (ss_db s) ia"
    using p assms(4) by (auto simp: PutItemArtwork_def Let_def persisting_ok_def state_ok_def found_state_def)
qed (simp_all add: PutItemArtwork_def Let_def)

lemma inv_same_db:
  assumes "store_inv decode s" "ss_db s' = ss_db s" "\<And>p. p \<in> set (ss_persisting s') \<Longrightarrow> persisting_ok decode (ss_db s) p"
    and "ss_prune s' \<noteq> None \<Longrightarrow> no_readers s'" "\<And>c m. ss_prune s' = Some (PrSweep c m) \<Longrightarrow> m = GetMimeByHash (ss_db s)"
  shows "store_inv decode s'"
  by (rule store_invI) (use assms store_invD(1,3) [OF assms(1)] in auto)

lemma inv_prune_pc:
  assumes "store_inv decode s" "no_readers s" "\<And>c m. pc = PrSweep c m \<Longrightarrow> m = GetMimeByHash (ss_db s)"
  shows "store_inv decode (s\<lparr>ss_prune := Some pc\<rparr>)"
  by (rule inv_same_db [OF assms(1)]) (use assms(2,3) store_invD(2) [OF assms(1)] in \<open>auto simp: no_readers_def\<close>)

lemma store_step_inv:
  assumes "store_step decode s s'" "store_inv decode s"
  shows "store_inv decode s'"
  using assms(1)
proof cases
  case (acquire k hash res)
  have "acquired_mime decode (ss_db s) hash = decode hash"
    using store_invD(1) [OF assms(2)] by (auto simp: acquired_mime_def split: option.splits)
  then show ?thesis unfolding acquire
    using store_invD [OF assms(2)] by (intro inv_same_db [OF assms(2)]) (auto simp: persisting_ok_def no_readers_def)
next
  case (lock i)
  have "persisting_ok decode (ss_db s) (ss_persisting s ! i)" by (rule store_invD(2) [OF assms(2) nth_mem [OF lock(2)]])
  then show ?thesis unfolding lock(1) by (intro inv_set_persisting [OF assms(2) lock(2,4)]) (simp add: persisting_ok_def)
next
  case (place t i touches writes files)
  then show ?thesis using inv_place [OF assms(2)] by simp
next
  case (put_image t i)
  then show ?thesis using inv_put_image [OF assms(2)] by simp
next
  case (put_item t i p)
  then show ?thesis using inv_put_item [OF assms(2)] by simp
next
  case (fail i)
  then show ?thesis using inv_end_persisting [OF assms(2)] by simp
next
  case (absent t k)
  then show ?thesis by (auto simp: PutItemArtwork_def Let_def state_ok_def absent_state_def intro!: inv_states [OF assms(2)])
next
  case (clear kind ids)
  have "store_inv decode (s\<lparr>ss_now := ss_now s, ss_db := DeleteItemStates kind ids (ss_db s)\<rparr>)"
    by (rule inv_states [OF assms(2)]) (auto simp: DeleteItemStates_def)
  then show ?thesis using clear by simp
next
  case (temp_file path t)
  have "store_inv decode (s\<lparr>ss_now := t, ss_db := (ss_db s)\<lparr>id_files := (id_files (ss_db s))(path \<mapsto> t)\<rparr>\<rparr>)"
    by (rule inv_extends [OF assms(2)]) (use store_invD(1) [OF assms(2)] in \<open>auto simp: extends_def\<close>)
  then show ?thesis using temp_file by simp
next
  case prune_lock
  have "store_inv decode (s\<lparr>ss_prune := Some PrLocked\<rparr>)" by (rule inv_prune_pc [OF assms(2) prune_lock(3)]) simp
  then show ?thesis using prune_lock by simp
next
  case (prune_items gone)
  have "store_inv decode (s\<lparr>ss_now := ss_now s, ss_db := PurgeDanglingItems gone (ss_db s)\<rparr>)"
    by (rule inv_states [OF assms(2)]) (auto simp: PurgeDanglingItems_def)
  moreover have "no_readers s" using store_invD(4) [OF assms(2)] prune_items by simp
  ultimately have "store_inv decode ((s\<lparr>ss_now := ss_now s, ss_db := PurgeDanglingItems gone (ss_db s)\<rparr>)\<lparr>ss_prune := Some PrOrphans\<rparr>)"
    by (intro inv_prune_pc) (simp_all add: no_readers_def)
  then show ?thesis using prune_items by simp
next
  case (prune_orphans t)
  then show ?thesis using inv_PurgeOrphans [OF assms(2)] by simp
next
  case (prune_mimes cutoff)
  have "no_readers s" using store_invD(4) [OF assms(2)] prune_mimes by simp
  then show ?thesis unfolding prune_mimes(1) by (intro inv_prune_pc [OF assms(2)]) simp_all
next
  case (prune_sweep cutoff mimes path)
  then show ?thesis using inv_sweep [OF assms(2)] by simp
next
  case prune_end
  then show ?thesis using store_invD(2) [OF assms(2)] by (intro inv_same_db [OF assms(2)]) auto
next
  case crash
  then show ?thesis by (intro inv_same_db [OF assms(2)]) auto
qed

lemma store_reachable_inv: "store_reachable decode s \<Longrightarrow> store_inv decode s"
proof -
  have "store_inv decode s" if "(store_step decode)\<^sup>*\<^sup>* (store_initial t0) s" for t0
    using that
  proof induction
    case base
    show ?case by (simp add: store_inv_def store_initial_def)
  qed (rule store_step_inv)
  then show "store_reachable decode s \<Longrightarrow> store_inv decode s" by (auto simp: store_reachable_def)
qed

subsection \<open>What the store guarantees\<close>


lemma sweep_file_other: "path \<noteq> p \<Longrightarrow> sweep_file c keep removable p files path = files path"
  by (simp add: sweep_file_def split: option.splits)

lemma sweep_file_removed: "sweep_file c keep removable p files path = None \<Longrightarrow> files path = None \<or> sweep_removes c keep path (the (files path))"
  by (cases "path = p") (auto simp: sweep_file_def split: option.splits if_splits)

lemma sweep_file_keeps: "sweep_file c keep removable p files path = Some m \<Longrightarrow> files path = Some m"
  by (cases "path = p") (auto simp: sweep_file_def split: option.splits if_splits)

lemma Sweep_keeps: "Sweep c keep removable paths files path = Some m \<Longrightarrow> files path = Some m"
  unfolding Sweep_def by (induction paths arbitrary: files) (auto dest: sweep_file_keeps)

lemma Sweep_removed:
  "Sweep c keep removable paths files path = None \<Longrightarrow> files path = Some m \<Longrightarrow> sweep_removes c keep path m"
  unfolding Sweep_def
proof (induction paths arbitrary: files)
  case (Cons p paths)
  then show ?case using sweep_file_removed [of c keep removable p files path] sweep_file_keeps [of c keep removable p files path]
    by (cases "sweep_file c keep removable p files path") auto
qed simp

lemma Sweep_complete:
  "path \<in> set paths \<Longrightarrow> removable path \<Longrightarrow> Sweep c keep removable paths files path = Some m \<Longrightarrow> \<not> sweep_removes c keep path m"
  unfolding Sweep_def
proof (induction paths arbitrary: files)
  case (Cons p paths)
  show ?case
  proof (cases "path \<in> set paths")
    case True
    then show ?thesis using Cons by simp
  next
    case False
    then have "path = p" using Cons by simp
    moreover have "sweep_file c keep removable p files path = Some m"
      using Cons(4) Sweep_keeps [of c keep removable paths "sweep_file c keep removable p files" path m] by (simp add: Sweep_def)
    ultimately show ?thesis using Cons(3) by (auto simp: sweep_file_def split: option.splits if_splits)
  qed
qed simp

text \<open>A prune removes what is not needed and only that: when it is over, a file that was seen and could be removed is younger than an hour or
  belongs to an image with a row, and such a row is in use or younger than an hour. What it removed was neither in use nor young.\<close>

lemma prune_reclaims:
  fixes now gone removable paths db
  defines "db' \<equiv> prune now gone removable paths db"
  shows "path \<in> set paths \<Longrightarrow> removable path \<Longrightarrow> id_files db' path = Some m \<Longrightarrow>
      m > now - pruneMinAge \<or> known_file (GetMimeByHash db') (trim_suffix (last path) (file_ext (last path))) (file_ext (last path))"
    and "id_images db' h = Some r \<Longrightarrow> im_CreatedAt r \<ge> now - pruneMinAge \<or> referenced db' h"
    and "id_files db path = Some m \<Longrightarrow> id_files db' path = None \<Longrightarrow> \<not> m > now - pruneMinAge"
proof -
  have mimes: "GetMimeByHash db' = GetMimeByHash (PurgeOrphans (now - pruneMinAge) (PurgeDanglingItems gone db))"
    by (simp add: db'_def prune_def Let_def GetMimeByHash_def)
  show "path \<in> set paths \<Longrightarrow> removable path \<Longrightarrow> id_files db' path = Some m \<Longrightarrow>
      m > now - pruneMinAge \<or> known_file (GetMimeByHash db') (trim_suffix (last path) (file_ext (last path))) (file_ext (last path))"
    unfolding mimes using Sweep_complete [of path paths removable "now - pruneMinAge"]
    by (auto simp: db'_def prune_def Let_def sweep_removes_def)
  show "id_images db' h = Some r \<Longrightarrow> im_CreatedAt r \<ge> now - pruneMinAge \<or> referenced db' h"
    by (auto simp: db'_def prune_def Let_def PurgeOrphans_def referenced_def split: option.splits if_splits)
  show "id_files db path = Some m \<Longrightarrow> id_files db' path = None \<Longrightarrow> \<not> m > now - pruneMinAge"
    by (auto simp: db'_def prune_def Let_def PurgeOrphans_def PurgeDanglingItems_def sweep_removes_def dest!: Sweep_removed)
qed

subsection \<open>An example\<close>

definition example_hash :: string where "example_hash = ''0123456789abcdef''"

definition example_embedded :: resolution where
  "example_embedded = \<lparr>rs_data = Some ''png'', rs_source_name = ''embedded'', rs_sourcePath = ''/music/a.mp3'', rs_refMtime = 7, rs_extError = False, rs_localError = False\<rparr>"

definition example_persisting :: persisting where
  "example_persisting = \<lparr>ps_key = (''al'', ''a1'', ''primary''), ps_hash = example_hash, ps_mime = ''image/png'', ps_res = example_embedded, ps_pc = PsWaiting\<rparr>"

definition example_store :: "Time \<Rightarrow> image_db" where
  "example_store t = \<lparr>id_files = [image_path example_hash ''image/png'' \<mapsto> t], id_images = [example_hash \<mapsto> \<lparr>im_Mime = ''image/png'', im_CreatedAt = t\<rparr>],
     id_states = [((''al'', ''a1'', ''primary''), found_state t example_hash example_embedded)]\<rparr>"

text \<open>An acquisition, and a prune a day later.\<close>

definition example_pruned :: store_system where
  "example_pruned = \<lparr>ss_now = seconds 86400, ss_db = example_store 0, ss_persisting = [], ss_prune = Some (PrMimes (seconds 82800))\<rparr>"

lemma example_pruned_reachable: "store_reachable (\<lambda>_. ''image/png'') example_pruned"
proof -
  let ?step = "store_step (\<lambda>_. ''image/png'')"
  let ?db0 = "\<lparr>id_files = (\<lambda>_. None), id_images = (\<lambda>_. None), id_states = []\<rparr> :: image_db"
  let ?db1 = "?db0\<lparr>id_files := [image_path example_hash ''image/png'' \<mapsto> 0]\<rparr>"
  let ?db2 = "?db1\<lparr>id_images := [example_hash \<mapsto> \<lparr>im_Mime = ''image/png'', im_CreatedAt = 0\<rparr>]\<rparr>"
  let ?s = "\<lambda>db pc. \<lparr>ss_now = 0, ss_db = db, ss_persisting = [example_persisting\<lparr>ps_pc := pc\<rparr>], ss_prune = None\<rparr> :: store_system"
  let ?p = "\<lambda>t pc. \<lparr>ss_now = t, ss_db = example_store 0, ss_persisting = [], ss_prune = pc\<rparr> :: store_system"
  have valid: "validHash example_hash" by code_simp
  have "?step (store_initial 0) (?s ?db0 PsWaiting)"
    using store_step.acquire [of "\<lambda>_. ''image/png''" "store_initial 0" "(''al'', ''a1'', ''primary'')" example_hash example_embedded]
    by (simp add: store_initial_def acquired_mime_def example_persisting_def)
  moreover have "?step (?s ?db0 PsWaiting) (?s ?db0 PsLocked)"
    using store_step.lock [of 0 "?s ?db0 PsWaiting" "\<lambda>_. ''image/png''"] by (simp add: set_persisting_def)
  moreover have "?step (?s ?db0 PsLocked) (?s ?db1 PsPlaced)"
    using store_step.place [of "?s ?db0 PsLocked" 0 0 True True "[image_path example_hash ''image/png'' \<mapsto> 0]" "\<lambda>_. ''image/png''"] valid
    by (simp add: set_persisting_def placeBytes_def Write_image_def isFileBacked_def example_persisting_def example_embedded_def)
  moreover have "?step (?s ?db1 PsPlaced) (?s ?db2 PsImageRow)"
    using store_step.put_image [of "?s ?db1 PsPlaced" 0 0 "\<lambda>_. ''image/png''"]
    by (simp add: set_persisting_def PutImage_def example_persisting_def)
  moreover have "?step (?s ?db2 PsImageRow) (?p 0 None)"
    using store_step.put_item [of "?s ?db2 PsImageRow" 0 0 "example_persisting\<lparr>ps_pc := PsImageRow\<rparr>" "\<lambda>_. ''image/png''"]
    by (simp add: end_persisting_def PutItemArtwork_def example_persisting_def example_store_def image_type_or_def)
  moreover have "?step (?p 0 None) (?p 0 (Some PrLocked))"
    using store_step.prune_lock [of "?p 0 None"] by (simp add: no_readers_def)
  moreover have "?step (?p 0 (Some PrLocked)) (?p 0 (Some PrOrphans))"
    using store_step.prune_items [of "?p 0 (Some PrLocked)" _ "\<lambda>_ _. False"] by (simp add: PurgeDanglingItems_def example_store_def case_prod_unfold)
  moreover have "?step (?p 0 (Some PrOrphans)) example_pruned"
  proof -
    have "PurgeOrphans c (example_store 0) = example_store 0" for c
      by (auto simp: PurgeOrphans_def referenced_def example_store_def example_hash_def fun_eq_iff)
    then show ?thesis using store_step.prune_orphans [of "?p 0 (Some PrOrphans)" "seconds 86400" "\<lambda>_. ''image/png''"]
      by (simp add: example_pruned_def pruneMinAge_def seconds_def)
  qed
  ultimately show ?thesis unfolding store_reachable_def by (meson converse_rtranclp_into_rtranclp rtranclp.rtrancl_refl)
qed


end
