(* ===== verification/Natural_Order.thy ===== *)
theory Natural_Order
  imports Prelude "HOL-Library.List_Lexorder" "HOL-Library.Product_Lexorder"
begin

text \<open>
  \<open>utils/natural\<close>: comparing names so that the numbers in them count as numbers. Strings are bytes. The two indices of the code are the
  rests of the two strings.
\<close>

definition isDigit :: "char \<Rightarrow> bool" where
  "isDigit c \<longleftrightarrow> 48 \<le> byte_of c \<and> byte_of c \<le> 57"

definition stripZeros :: "string \<Rightarrow> string" where
  "stripZeros s =
     (let rest = dropWhile (\<lambda>c. c = CHR ''0'') s
      in if rest = [] \<and> s \<noteq> [] then [last s] else rest)"

fun compare_digits :: "string \<Rightarrow> string \<Rightarrow> int" where
  "compare_digits (x # xs) (y # ys) = (if x \<noteq> y then int (byte_of x) - int (byte_of y) else compare_digits xs ys)"
| "compare_digits _ _ = 0"

definition compareNumbers :: "string \<Rightarrow> string \<Rightarrow> int" where
  "compareNumbers a b =
     (let sa = stripZeros a; sb = stripZeros b
      in if length sa \<noteq> length sb then int (length sa) - int (length sb) else compare_digits sa sb)"

fun strings_Compare :: "string \<Rightarrow> string \<Rightarrow> int" where
  "strings_Compare [] [] = 0"
| "strings_Compare [] (y # ys) = -1"
| "strings_Compare (x # xs) [] = 1"
| "strings_Compare (x # xs) (y # ys) =
     (if byte_of x < byte_of y then -1 else if byte_of y < byte_of x then 1 else strings_Compare xs ys)"

function natural_Compare :: "string \<Rightarrow> string \<Rightarrow> int" where
  "natural_Compare (x # xs) (y # ys) =
     (if isDigit x \<and> isDigit y then
        let na = takeWhile isDigit (x # xs); ra = dropWhile isDigit (x # xs);
            nb = takeWhile isDigit (y # ys); rb = dropWhile isDigit (y # ys);
            c = compareNumbers na nb
        in if c \<noteq> 0 then c
           else if ra \<noteq> [] \<and> rb \<noteq> [] then natural_Compare ra rb
           else strings_Compare (x # xs) (y # ys)
      else if isDigit x \<noteq> isDigit y then int (byte_of x) - int (byte_of y)
      else if x \<noteq> y then int (byte_of x) - int (byte_of y)
      else natural_Compare xs ys)"
| "natural_Compare [] b = - int (length b)"
| "natural_Compare (x # xs) [] = int (Suc (length xs))"
  by pat_completeness auto
termination
proof (relation "measure (\<lambda>(a, b). length a)")
  fix x y :: char and xs ys na ra nb rb c
  assume "isDigit x \<and> isDigit y" "ra = dropWhile isDigit (x # xs)"
  then have "length ra \<le> length xs" by (simp add: length_dropWhile_le)
  then show "((ra, rb), x # xs, y # ys) \<in> measure (\<lambda>(a, b). length a)" by simp
qed simp_all

text \<open>It is antisymmetric.\<close>

lemma byte_eq [simp]: "byte_of x = byte_of y \<longleftrightarrow> x = y"
  by (simp add: byte_of_eq_iff)

lemma compare_digits_swap: "compare_digits b a = - compare_digits a b"
  by (induction a b rule: compare_digits.induct) auto

lemma compareNumbers_swap: "compareNumbers b a = - compareNumbers a b"
  using compare_digits_swap [of "stripZeros b" "stripZeros a"] by (simp add: compareNumbers_def Let_def)

lemma strings_Compare_swap: "strings_Compare b a = - strings_Compare a b"
  by (induction a b rule: strings_Compare.induct) auto

lemma natural_Compare_swap: "natural_Compare b a = - natural_Compare a b"
proof (induction a b rule: natural_Compare.induct)
  case (1 x xs y ys)
  have swap: "compareNumbers v u = 0 \<longleftrightarrow> compareNumbers u v = 0" for u v using compareNumbers_swap [of v u] by simp
  show ?case
  proof (cases "isDigit x \<and> isDigit y")
    case True
    note ih = 1(1) [OF True refl refl refl refl refl]
    show ?thesis
    proof (cases "compareNumbers (takeWhile isDigit (x # xs)) (takeWhile isDigit (y # ys)) = 0
        \<and> dropWhile isDigit (x # xs) \<noteq> [] \<and> dropWhile isDigit (y # ys) \<noteq> []")
      case True
      then show ?thesis using ih \<open>isDigit x \<and> isDigit y\<close> swap by (simp add: Let_def)
    next
      case False
      then show ?thesis using \<open>isDigit x \<and> isDigit y\<close> swap compareNumbers_swap [of "takeWhile isDigit (y # ys)" "takeWhile isDigit (x # xs)"]
          strings_Compare_swap [of "y # ys" "x # xs"] by (auto simp: Let_def)
    qed
  next
    case False
    then show ?thesis using 1(2) by auto
  qed
next
  case (2 b)
  then show ?case by (cases b) auto
qed simp

subsection \<open>Numbers\<close>

fun numeral_value :: "string \<Rightarrow> nat" where
  "numeral_value [] = 0"
| "numeral_value (d # ds) = (byte_of d - 48) * 10 ^ length ds + numeral_value ds"

abbreviation all_digits :: "string \<Rightarrow> bool" where
  "all_digits s \<equiv> \<forall>c \<in> set s. isDigit c"

lemma numeral_value_bound: "all_digits s \<Longrightarrow> numeral_value s < 10 ^ length s"
proof (induction s)
  case (Cons d ds)
  have "isDigit d" using Cons by simp
  then have "byte_of d - 48 \<le> 9" unfolding isDigit_def by linarith
  then have "(byte_of d - 48) * 10 ^ length ds \<le> 9 * 10 ^ length ds" by (rule mult_le_mono1)
  moreover have "numeral_value ds < 10 ^ length ds" using Cons by simp
  ultimately show ?case unfolding numeral_value.simps list.size power_Suc add_Suc_right add_0_right by linarith
qed simp

lemma numeral_value_lower:
  assumes "isDigit d" "d \<noteq> CHR ''0''"
  shows "10 ^ length ds \<le> numeral_value (d # ds)"
proof -
  have "byte_of d \<noteq> byte_of (CHR ''0'')" using assms(2) by (simp only: byte_eq not_False_eq_True)
  then have "byte_of d \<noteq> 48" by simp
  then have "1 \<le> byte_of d - 48" using assms(1) unfolding isDigit_def by linarith
  then have "1 * 10 ^ length ds \<le> (byte_of d - 48) * 10 ^ length ds" by (rule mult_le_mono1)
  then show ?thesis unfolding numeral_value.simps by linarith
qed

lemma compare_digits_value:
  "all_digits a \<Longrightarrow> all_digits b \<Longrightarrow> length a = length b \<Longrightarrow>
    (compare_digits a b < 0 \<longleftrightarrow> numeral_value a < numeral_value b) \<and> (compare_digits a b = 0 \<longleftrightarrow> a = b)"
proof (induction a b rule: compare_digits.induct)
  case (1 x xs y ys)
  have less: "numeral_value (u # us) < numeral_value (v # vs)"
    if "byte_of u < byte_of v" "isDigit u" "all_digits us" "length us = length vs" for u v :: char and us vs
  proof -
    have "byte_of u - 48 + 1 \<le> byte_of v - 48" using that(1,2) unfolding isDigit_def by linarith
    then have "(byte_of u - 48 + 1) * 10 ^ length us \<le> (byte_of v - 48) * 10 ^ length us" by (rule mult_le_mono1)
    then show ?thesis using numeral_value_bound [OF that(3)] that(4) by (simp add: algebra_simps)
  qed
  show ?case
  proof (cases "x = y")
    case True
    then show ?thesis using 1 by simp
  next
    case False
    then consider "byte_of x < byte_of y" | "byte_of y < byte_of x" using byte_eq nat_neq_iff by blast
    then show ?thesis
    proof cases
      case 1
      then have "numeral_value (x # xs) < numeral_value (y # ys)" using less "1.prems" by simp
      then show ?thesis using False 1 by simp
    next
      case 2
      have len: "length ys = length xs" using "1.prems" by simp
      have "numeral_value (y # ys) < numeral_value (x # xs)" by (rule less [OF 2 _ _ len]) (use "1.prems" in simp_all)
      then show ?thesis using False 2 by simp
    qed
  qed
qed auto

lemma stripZeros_props:
  assumes "all_digits s" "s \<noteq> []"
  shows "all_digits (stripZeros s) \<and> stripZeros s \<noteq> [] \<and> numeral_value (stripZeros s) = numeral_value s
    \<and> (hd (stripZeros s) = CHR ''0'' \<longrightarrow> length (stripZeros s) = 1)"
proof -
  have val: "numeral_value (dropWhile (\<lambda>c. c = CHR ''0'') s) = numeral_value s" by (induction s) auto
  have rest: "dropWhile (\<lambda>c. c = CHR ''0'') s \<noteq> [] \<Longrightarrow> hd (dropWhile (\<lambda>c. c = CHR ''0'') s) \<noteq> CHR ''0''"
    using hd_dropWhile [of "\<lambda>c. c = CHR ''0''" s] by simp
  show ?thesis
  proof (cases "dropWhile (\<lambda>c. c = CHR ''0'') s = []")
    case True
    then have "\<forall>c \<in> set s. c = CHR ''0''" by (simp add: dropWhile_eq_Nil_conv)
    then have last: "last s = CHR ''0''" using assms(2) last_in_set by blast
    have "stripZeros s = [CHR ''0'']" using last True assms(2) by (simp add: stripZeros_def)
    moreover have "numeral_value s = 0" using val True by simp
    ultimately show ?thesis by (simp add: isDigit_def)
  next
    case False
    then show ?thesis using assms(1) val rest by (auto simp: stripZeros_def Let_def dest: set_dropWhileD)
  qed
qed

lemma stripped_shorter:
  assumes "all_digits a" "all_digits b" "b \<noteq> []" "hd b = CHR ''0'' \<longrightarrow> length b = 1" "length a < length b" "a \<noteq> []"
  shows "numeral_value a < numeral_value b"
proof -
  obtain d ds where b: "b = d # ds" using assms(3) by (cases b) auto
  have "length ds \<noteq> 0" using assms(5,6) b by (cases a) auto
  then have "d \<noteq> CHR ''0''" using assms(4) b by auto
  then have "10 ^ length ds \<le> numeral_value b" using numeral_value_lower assms(2) by (simp add: b)
  moreover have "(10 :: nat) ^ length a \<le> 10 ^ length ds" using assms(5) b by (simp add: power_increasing)
  ultimately show ?thesis using numeral_value_bound [OF assms(1)] by linarith
qed

text \<open>\<open>compareNumbers\<close> compares the numbers that the digits stand for.\<close>

lemma compareNumbers_value:
  assumes "all_digits a" "all_digits b" "a \<noteq> []" "b \<noteq> []"
  shows "compareNumbers a b < 0 \<longleftrightarrow> numeral_value a < numeral_value b" "compareNumbers a b = 0 \<longleftrightarrow> stripZeros a = stripZeros b"
proof -
  note a = stripZeros_props [OF assms(1,3)] and b = stripZeros_props [OF assms(2,4)]
  have shorter: "length (stripZeros a) < length (stripZeros b) \<Longrightarrow> numeral_value a < numeral_value b"
    "length (stripZeros b) < length (stripZeros a) \<Longrightarrow> numeral_value b < numeral_value a"
    using stripped_shorter [of "stripZeros a" "stripZeros b"] stripped_shorter [of "stripZeros b" "stripZeros a"] a b by auto
  note same = compare_digits_value [of "stripZeros a" "stripZeros b"]
  show "compareNumbers a b < 0 \<longleftrightarrow> numeral_value a < numeral_value b"
    using same a b shorter by (cases "length (stripZeros a)" "length (stripZeros b)" rule: linorder_cases) (simp_all add: compareNumbers_def Let_def)
  show "compareNumbers a b = 0 \<longleftrightarrow> stripZeros a = stripZeros b"
    using same a b by (auto simp: compareNumbers_def Let_def)
qed

subsection \<open>Tokens\<close>

text \<open>What a name is made of: numbers, and bytes that are no digits. A number comes where its digits would come among the bytes.\<close>

function natural_tokens :: "string \<Rightarrow> (nat \<times> nat) list" where
  "natural_tokens [] = []"
| "natural_tokens (x # xs) =
     (if isDigit x then (48, numeral_value (takeWhile isDigit (x # xs))) # natural_tokens (dropWhile isDigit (x # xs))
      else (byte_of x, 0) # natural_tokens xs)"
  by pat_completeness auto
termination
  by (relation "measure length") (auto simp: less_Suc_eq_le length_dropWhile_le)

text \<open>No number has a zero in front.\<close>

function no_leading_zeros :: "string \<Rightarrow> bool" where
  "no_leading_zeros [] = True"
| "no_leading_zeros (x # xs) =
     (if isDigit x then (x = CHR ''0'' \<longrightarrow> takeWhile isDigit xs = []) \<and> no_leading_zeros (dropWhile isDigit (x # xs))
      else no_leading_zeros xs)"
  by pat_completeness auto
termination
  by (relation "measure length") (auto simp: less_Suc_eq_le length_dropWhile_le)

lemma natural_tokens_empty [simp]: "natural_tokens s = [] \<longleftrightarrow> s = []"
  by (cases s) auto

lemma strip_canonical: "isDigit x \<Longrightarrow> (x = CHR ''0'' \<longrightarrow> takeWhile isDigit xs = []) \<Longrightarrow> stripZeros (takeWhile isDigit (x # xs)) = takeWhile isDigit (x # xs)"
  by (auto simp: stripZeros_def Let_def)

lemma strings_Compare_append: "strings_Compare (s @ a) (s @ b) = strings_Compare a b"
  by (induction s) auto

lemma strings_Compare_Nil: "strings_Compare [] b < 0 \<longleftrightarrow> b \<noteq> []" "strings_Compare [] b = 0 \<longleftrightarrow> b = []"
  "\<not> strings_Compare b [] < 0" "strings_Compare b [] = 0 \<longleftrightarrow> b = []"
  by (cases b; simp)+

lemma Nil_less: "[] < l \<longleftrightarrow> l \<noteq> []" "\<not> l < []"
  for l :: "(nat \<times> nat) list"
  by (cases l; simp)+

lemma pair_less: "(a, b) < (c, d) \<longleftrightarrow> a < c \<or> a = c \<and> b < (d :: nat)" for a c :: nat
  by auto

lemma natural_Compare_tokens:
  "no_leading_zeros a \<Longrightarrow> no_leading_zeros b \<Longrightarrow>
    (natural_Compare a b < 0 \<longleftrightarrow> natural_tokens a < natural_tokens b) \<and> (natural_Compare a b = 0 \<longleftrightarrow> a = b)"
proof (induction a b rule: natural_Compare.induct)
  case (1 x xs y ys)
  show ?case
  proof (cases "isDigit x \<and> isDigit y")
    case True
    define na ra nb rb where parts: "na = takeWhile isDigit (x # xs)" "ra = dropWhile isDigit (x # xs)"
      "nb = takeWhile isDigit (y # ys)" "rb = dropWhile isDigit (y # ys)"
    have split: "x # xs = na @ ra" "y # ys = nb @ rb" by (simp_all only: parts takeWhile_dropWhile_id)
    have ne: "na \<noteq> []" "nb \<noteq> []" and digits: "all_digits na" "all_digits nb"
      using True by (simp_all add: parts) (auto dest: set_takeWhileD)
    have strip: "stripZeros na = na" "stripZeros nb = nb" using strip_canonical 1(3,4) True unfolding parts by simp_all
    note numbers = compareNumbers_value [OF digits ne, unfolded strip]
    have compare: "natural_Compare (x # xs) (y # ys) =
        (if compareNumbers na nb \<noteq> 0 then compareNumbers na nb else if ra \<noteq> [] \<and> rb \<noteq> [] then natural_Compare ra rb else strings_Compare (na @ ra) (nb @ rb))"
      using True unfolding split [symmetric] by (simp add: parts Let_def)
    have tokens: "natural_tokens (x # xs) = (48, numeral_value na) # natural_tokens ra" "natural_tokens (y # ys) = (48, numeral_value nb) # natural_tokens rb"
      using True by (simp_all add: parts)
    have same: "na = nb" if "numeral_value na = numeral_value nb"
      using that numbers compareNumbers_value(1) [OF digits(2,1) ne(2,1)] compareNumbers_swap [of nb na] by linarith
    show ?thesis
    proof (cases "compareNumbers na nb = 0")
      case False
      then have "numeral_value na \<noteq> numeral_value nb" using same numbers by blast
      moreover have "x # xs \<noteq> y # ys" using False numbers by (auto simp: parts)
      ultimately show ?thesis unfolding compare tokens using False numbers by auto
    next
      case zero: True
      then have eq: "na = nb" using numbers by simp
      have rests: "(x # xs = y # ys) = (ra = rb)" by (simp add: split eq)
      show ?thesis
      proof (cases "ra \<noteq> [] \<and> rb \<noteq> []")
        case both: True
        have "(natural_Compare ra rb < 0 \<longleftrightarrow> natural_tokens ra < natural_tokens rb) \<and> (natural_Compare ra rb = 0 \<longleftrightarrow> ra = rb)"
        proof (rule 1(1) [OF True])
          show "no_leading_zeros ra" "no_leading_zeros rb" using 1(3,4) True by (simp_all add: parts)
        qed (use zero both in \<open>simp_all add: parts\<close>)
        then show ?thesis unfolding compare tokens rests using zero both eq by simp
      next
        case False
        have rest_compare: "(strings_Compare ra rb < 0 \<longleftrightarrow> natural_tokens ra < natural_tokens rb) \<and> (strings_Compare ra rb = 0 \<longleftrightarrow> ra = rb)"
          using False by (cases "ra = []") (auto simp: strings_Compare_Nil Nil_less)
        have "natural_Compare (x # xs) (y # ys) = strings_Compare ra rb"
          unfolding compare using False zero eq strings_Compare_append by auto
        then show ?thesis unfolding tokens rests using rest_compare eq by simp
      qed
    qed
  next
    case False
    show ?thesis
    proof (cases "isDigit x = isDigit y \<and> x = y")
      case True
      then show ?thesis using 1 False by auto
    next
      case differ: False
      have neq: "x \<noteq> y" using differ by auto
      have compare: "natural_Compare (x # xs) (y # ys) = int (byte_of x) - int (byte_of y)" using False differ by auto
      have bytes: "byte_of x \<noteq> byte_of y" using neq by simp
      have "natural_tokens (x # xs) < natural_tokens (y # ys) \<longleftrightarrow> byte_of x < byte_of y"
        using False bytes by (auto simp: isDigit_def)
      then show ?thesis unfolding compare using neq bytes by auto
    qed
  qed
qed (auto simp: Nil_less)

subsection \<open>The order\<close>

text \<open>Names whose numbers have no zero in front are compared token by token, a number by its value. So the comparison is a linear order
  on them, as sorting needs it: only equal names compare as equal, the converse comparison has the opposite sign, and it is transitive.\<close>

theorem natural_order_linear:
  assumes "no_leading_zeros a" "no_leading_zeros b"
  shows "(natural_Compare a b < 0 \<longleftrightarrow> natural_tokens a < natural_tokens b) \<and> (natural_Compare a b = 0 \<longleftrightarrow> a = b)
    \<and> natural_Compare b a = - natural_Compare a b
    \<and> (\<forall>c. no_leading_zeros c \<longrightarrow> natural_Compare a b < 0 \<longrightarrow> natural_Compare b c < 0 \<longrightarrow> natural_Compare a c < 0)"
proof -
  have "natural_Compare a c < 0" if "no_leading_zeros c" "natural_Compare a b < 0" "natural_Compare b c < 0" for c
    using that assms natural_Compare_tokens [of a b] natural_Compare_tokens [of b c] natural_Compare_tokens [of a c] less_trans by blast
  then show ?thesis using natural_Compare_tokens [OF assms] natural_Compare_swap [of b a] by blast
qed

theorem natural_order_linear_witness:
  "natural_Compare ''disc2'' ''disc10'' < 0 \<and> natural_tokens ''disc2'' < natural_tokens ''disc10''"
proof -
  have "no_leading_zeros ''disc2''" "no_leading_zeros ''disc10''" by code_simp+
  note natural_order_linear [OF this]
  moreover have "natural_Compare ''disc2'' ''disc10'' < 0" by code_simp
  ultimately show ?thesis by simp
qed

text \<open>With zeros in front it is no order: \<open>a01b\<close> and \<open>a1b\<close> compare as equal, but \<open>a1\<close> comes before one and after the other.\<close>

lemma leading_zeros_no_order:
  "natural_Compare ''a01b'' ''a1b'' = 0" "natural_Compare ''a1'' ''a1b'' < 0" "natural_Compare ''a01b'' ''a1'' < 0"
  by code_simp+

end
