(* ===== verification/Artwork_Resolve.thy ===== *)
theory Artwork_Resolve
  imports Artwork_Queue Str_Utils Natural_Order Scan_Missing Breaker Playlist_Model
begin

text \<open>
  Where artwork comes from (\<open>core/artwork/resolve.go\<close>, \<open>sources.go\<close>, \<open>folders_album.go\<close>, \<open>folders_artist.go\<close>, \<open>library_fs.go\<close>,
  \<open>playlist_cover.go\<close>, \<open>agent_images.go\<close>, \<open>youtube.go\<close>): the sources of an item are asked in the order of their priority, and what they
  answer decides between an image, no image, and a fault that is no answer. The environment is what the code reads: the configuration,
  the repositories, the file system, tags, ffmpeg and what external services return. Parsing URLs, the types of files by their
  extension, decoding and composing images and hashes (of a folder's path, of the unknown artist's name) belong to it.
\<close>

subsection \<open>The environment\<close>

record art_folder =
  af_ID :: string
  af_LibraryID :: int
  af_LibraryPath :: string
  af_Path :: string
  af_Name :: string
  af_ParentID :: string
  af_NumAudioFiles :: int
  af_ImageFiles :: "string list"
  af_Missing :: bool
  af_ImagesUpdatedAt :: Time

record art_album =
  al_ID :: string
  al_Name :: string
  al_AlbumArtist :: string
  al_AlbumArtistID :: string
  al_AlbumArtists :: nat
  al_MbzAlbumID :: string
  al_EmbedArtPath :: string
  al_LibraryID :: int
  al_FolderIDs :: "string list"
  al_Discs :: "(int \<times> string) list"
  al_UpdatedAt :: Time
  al_ImportedAt :: Time

record art_artist =
  at_ID :: string
  at_Name :: string
  at_MbzArtistID :: string
  at_UploadedImage :: string

record art_track =
  tk_ID :: string
  tk_AlbumID :: string
  tk_Title :: string
  tk_Artist :: string
  tk_Comment :: string
  tk_Missing :: bool
  tk_HasCoverArt :: bool
  tk_LibraryID :: int
  tk_Path :: string
  tk_FolderID :: string
  tk_TrackNumber :: int
  tk_DiscNumber :: int

record ExternalImage =
  ei_URL :: string
  ei_Size :: int

record parsed_url =
  pu_Scheme :: string
  pu_Host :: string
  pu_Path :: string

datatype opened = Opened string | NotThere | CannotOpen
datatype tag_image = TagImage string | TagNone | TagUnreadable
datatype http_answer = HttpError string | HttpStatus nat string

record resolve_config =
  rc_CoverArtPriority :: string
  rc_ArtistArtPriority :: string
  rc_ArtistImageFolder :: string
  rc_DiscArtPriority :: string
  rc_DataFolder :: string
  rc_EnableM3UExternalAlbumArt :: bool
  rc_EnableMediaFileCoverArt :: bool
  rc_EnableExternalServices :: bool
  rc_DevPreserveUnicode :: bool

record resolve_env =
  re_cfg :: resolve_config
  re_albums :: "string \<Rightarrow> art_album option"
  re_artists :: "string \<Rightarrow> art_artist option"
  re_playlists :: "string \<Rightarrow> Playlist option"
  re_radioImages :: "string \<Rightarrow> string option"
  re_tracks :: "string \<Rightarrow> art_track option"
  re_albumsOf :: "string \<Rightarrow> art_album list option"
  re_tracksOf :: "string \<Rightarrow> art_track list option"
  re_playlistAlbums :: "string \<Rightarrow> string list option"
  re_folders :: "art_folder list"
  re_foldersFail :: "string list \<Rightarrow> bool"
  re_folderFails :: bool
  re_audioFails :: bool
  re_libraries :: "int \<Rightarrow> string option"
  re_folderID :: "int \<Rightarrow> string \<Rightarrow> string"
  re_unknownArtistID :: string
  re_open :: "string \<Rightarrow> opened"
  re_libOpen :: "string \<Rightarrow> string \<Rightarrow> opened"
  re_glob :: "string \<Rightarrow> string \<Rightarrow> string list option"
  re_readDir :: "string \<Rightarrow> (string \<times> bool) list option"
  re_mtime :: "string \<Rightarrow> int"
  re_libMtime :: "string \<Rightarrow> string \<Rightarrow> int"
  re_mimeType :: "string \<Rightarrow> string"
  re_tag :: "string \<Rightarrow> string \<Rightarrow> tag_image"
  re_ffmpeg :: "string \<Rightarrow> string option"
  re_parseURL :: "string \<Rightarrow> parsed_url option"
  re_http :: "string \<Rightarrow> http_answer"
  re_gateOpen :: "string \<Rightarrow> string \<Rightarrow> bool"
  re_albumAgents :: "(string \<times> (string \<Rightarrow> string \<Rightarrow> string \<Rightarrow> agent_error + ExternalImage list)) list"
  re_artistAgents :: "(string \<times> (string \<Rightarrow> string \<Rightarrow> string \<Rightarrow> agent_error + ExternalImage list)) list"
  re_hasYouTube :: bool
  re_sourceURL :: "string \<Rightarrow> string option"
  re_thumbnail :: "string \<Rightarrow> agent_error + string option"
  re_searchThumbnail :: "string \<Rightarrow> agent_error + string option"
  re_decodeTile :: "string \<Rightarrow> string option"
  re_assembleTiles :: "string list \<Rightarrow> string option"

subsection \<open>Answers\<close>

definition no_image :: "bool \<Rightarrow> bool \<Rightarrow> resolution" where
  "no_image extErr localErr =
     \<lparr>rs_data = None, rs_source_name = [], rs_sourcePath = [], rs_refMtime = 0, rs_extError = extErr, rs_localError = localErr\<rparr>"

definition image_from :: "string \<Rightarrow> string \<Rightarrow> string \<Rightarrow> int \<Rightarrow> resolution" where
  "image_from source data path mtime =
     \<lparr>rs_data = Some data, rs_source_name = source, rs_sourcePath = path, rs_refMtime = mtime, rs_extError = False, rs_localError = False\<rparr>"

text \<open>What one source of a chain answers: an image, which takes the external faults so far with it or not; no image, perhaps because of an
  external or a local fault; or an error that ends the resolution.\<close>

datatype source_answer = Hit bool resolution | Miss bool bool | SourceError

fun walk_chain :: "(string \<Rightarrow> source_answer) \<Rightarrow> bool \<Rightarrow> bool \<Rightarrow> string list \<Rightarrow> resolution option" where
  "walk_chain ask extErr localErr [] = Some (no_image extErr localErr)"
| "walk_chain ask extErr localErr (p # ps) =
     (case ask p of
        Hit stamp res \<Rightarrow> Some (if stamp then res\<lparr>rs_extError := rs_extError res \<or> extErr\<rparr> else res)
      | Miss e l \<Rightarrow> walk_chain ask (extErr \<or> e) (localErr \<or> l) ps
      | SourceError \<Rightarrow> None)"

definition priority_patterns :: "string \<Rightarrow> string list" where
  "priority_patterns s = map trim_space (split_on CHR '','' (to_lower s))"

subsection \<open>Local sources\<close>

definition lib_Abs :: "string \<Rightarrow> string \<Rightarrow> string" where
  "lib_Abs absRoot p = (if p = [] then [] else path_join [absRoot, p])"

definition IsImageFile :: "resolve_env \<Rightarrow> string \<Rightarrow> bool" where
  "IsImageFile env p \<longleftrightarrow> has_prefix (re_mimeType env (file_ext p)) ''image/''"

definition UploadedImagePath :: "resolve_env \<Rightarrow> string \<Rightarrow> string \<Rightarrow> string" where
  "UploadedImagePath env entityType filename =
     (if filename = [] then [] else path_join [rc_DataFolder (re_cfg env), ''artwork'', entityType, filename])"

text \<open>Of a local file: the image, or whether it may be there but could not be read.\<close>

definition resolveLocalFile :: "resolve_env \<Rightarrow> string \<Rightarrow> string \<Rightarrow> bool + resolution" where
  "resolveLocalFile env p source =
     (if p = [] then Inl False
      else case re_open env p of
             Opened data \<Rightarrow> Inr (image_from source data p (re_mtime env p))
           | NotThere \<Rightarrow> Inl False
           | CannotOpen \<Rightarrow> Inl True)"

definition resolveEmbedded :: "resolve_env \<Rightarrow> string \<Rightarrow> string \<Rightarrow> bool + resolution" where
  "resolveEmbedded env absRoot embedRel =
     (if embedRel = [] then Inl False
      else
        let path = lib_Abs absRoot embedRel; mtime = re_libMtime env absRoot embedRel
        in case re_tag env absRoot embedRel of
             TagImage data \<Rightarrow> Inr (image_from ''embedded'' data path mtime)
           | t \<Rightarrow> (case re_ffmpeg env path of
                 Some data \<Rightarrow> Inr (image_from ''embedded'' data path mtime)
               | None \<Rightarrow> Inl (t = TagUnreadable)))"

text \<open>\<open>fromExternalFile\<close>: the first of the files whose name matches and that opens.\<close>

fun fromExternalFile :: "resolve_env \<Rightarrow> string \<Rightarrow> string \<Rightarrow> bool \<Rightarrow> string list \<Rightarrow> bool + string \<times> string" where
  "fromExternalFile env absRoot pattern unreadable [] = Inl unreadable"
| "fromExternalFile env absRoot pattern unreadable (f # fs) =
     (if path_match pattern (to_lower (file_name f)) \<noteq> Some True then fromExternalFile env absRoot pattern unreadable fs
      else case re_libOpen env absRoot f of
             Opened data \<Rightarrow> Inr (f, data)
           | _ \<Rightarrow> fromExternalFile env absRoot pattern True fs)"

definition resolveFolderFile :: "resolve_env \<Rightarrow> string \<Rightarrow> string list \<Rightarrow> string \<Rightarrow> bool + resolution" where
  "resolveFolderFile env absRoot imgFiles pattern =
     map_sum id (\<lambda>(f, data). image_from ''folder'' data (lib_Abs absRoot f) (re_libMtime env absRoot f))
       (fromExternalFile env absRoot pattern False imgFiles)"

text \<open>An answer of a local source in a chain.\<close>

definition local_answer :: "bool + resolution \<Rightarrow> source_answer" where
  "local_answer r = (case r of Inl unreadable \<Rightarrow> Miss False unreadable | Inr res \<Rightarrow> Hit True res)"

subsection \<open>Folders\<close>

definition cmp_int :: "int \<Rightarrow> int \<Rightarrow> int" where
  "cmp_int a b = (if a < b then -1 else if a = b then 0 else 1)"

definition compareImageFiles :: "string \<Rightarrow> string \<Rightarrow> int" where
  "compareImageFiles x y =
     (let a = to_lower x; b = to_lower y;
          baseA = trim_suffix (path_base a) (file_ext a); baseB = trim_suffix (path_base b) (file_ext b);
          c1 = natural_Compare baseA baseB;
          c2 = cmp_int (int (count_list a slash)) (int (count_list b slash))
      in if c1 \<noteq> 0 then c1 else if c2 \<noteq> 0 then c2 else natural_Compare a b)"

text \<open>Sorting with a comparison. Where the comparison is no order, the code's result is not this one in general.\<close>

fun insert_image :: "string \<Rightarrow> string list \<Rightarrow> string list" where
  "insert_image x [] = [x]"
| "insert_image x (y # ys) = (if compareImageFiles x y \<le> 0 then x # y # ys else y # insert_image x ys)"

definition sort_images :: "string list \<Rightarrow> string list" where
  "sort_images xs = foldr insert_image xs []"

definition folder_rel :: "art_folder \<Rightarrow> string" where
  "folder_rel f = (let p = path_join [af_Path f, af_Name f] in case cut_prefix p ''/'' of Some r \<Rightarrow> r | None \<Rightarrow> p)"

definition folder_abs :: "art_folder \<Rightarrow> string" where
  "folder_abs f = path_join [af_LibraryPath f, af_Path f, af_Name f]"

definition folderImages :: "art_folder list \<Rightarrow> string list" where
  "folderImages folders = sort_images (concat (map (\<lambda>f. map (\<lambda>img. path_join [folder_rel f, img]) (af_ImageFiles f)) folders))"

definition loadFolders :: "resolve_env \<Rightarrow> string list \<Rightarrow> art_folder list option" where
  "loadFolders env ids =
     (if re_foldersFail env ids then None else Some (filter (\<lambda>f. af_ID f \<in> set ids \<and> \<not> af_Missing f) (re_folders env)))"

definition commonParentFolder :: "art_folder list \<Rightarrow> string list \<Rightarrow> string" where
  "commonParentFolder folders folderIDs =
     (case folders of
        [] \<Rightarrow> []
      | f # fs \<Rightarrow>
          if af_ParentID f = [] \<or> af_ParentID f \<in> set folderIDs then []
          else if list_ex (\<lambda>g. af_ParentID g \<noteq> af_ParentID f) fs then [] else af_ParentID f)"

definition anyFolderHasImages :: "art_folder list \<Rightarrow> bool" where
  "anyFolderHasImages folders \<longleftrightarrow> list_ex (\<lambda>f. af_ImageFiles f \<noteq> []) folders"

text \<open>\<open>path = parent or path LIKE parent/%\<close>; \<open>LIKE\<close> folds the case of ASCII letters.\<close>

definition HasAudioOutsideFolders :: "resolve_env \<Rightarrow> art_folder \<Rightarrow> string list \<Rightarrow> bool option" where
  "HasAudioOutsideFolders env parent excluded =
     (if af_NumAudioFiles parent > 0 then Some True
      else if re_audioFails env then None
      else Some (list_ex (\<lambda>f. af_LibraryID f = af_LibraryID parent \<and> \<not> af_Missing f \<and> af_NumAudioFiles f > 0 \<and> af_ID f \<notin> set excluded
          \<and> (af_Path f = folder_rel parent \<or> has_prefix (to_lower (af_Path f)) (to_lower (folder_rel parent) @ ''/''))) (re_folders env)))"

text \<open>The outer option is an error, the inner one whether there is such a folder.\<close>

definition albumRootParent :: "resolve_env \<Rightarrow> art_folder list \<Rightarrow> string list \<Rightarrow> art_folder option option" where
  "albumRootParent env folders folderIDs =
     (let parentID = commonParentFolder folders folderIDs in
      if parentID = [] then Some None
      else if length folders < 2 \<and> anyFolderHasImages folders then Some None
      else if re_folderFails env then None
      else case find (\<lambda>f. af_ID f = parentID) (re_folders env) of
             None \<Rightarrow> Some None
           | Some parent \<Rightarrow>
               if af_ParentID parent = [] then Some None
               else (case HasAudioOutsideFolders env parent folderIDs of
                       None \<Rightarrow> None
                     | Some other \<Rightarrow> Some (if other then None else Some parent)))"

definition loadAlbumFolders :: "resolve_env \<Rightarrow> art_album \<Rightarrow> art_folder list option" where
  "loadAlbumFolders env al =
     (case loadFolders env (al_FolderIDs al) of
        None \<Rightarrow> None
      | Some folders \<Rightarrow>
          (case albumRootParent env folders (al_FolderIDs al) of
             None \<Rightarrow> None
           | Some None \<Rightarrow> Some folders
           | Some (Some parent) \<Rightarrow> Some (folders @ [parent])))"

definition commonDir :: "string list \<Rightarrow> string" where
  "commonDir paths =
     (let common = LongestCommonPrefix (map (\<lambda>p. p @ ''/'') paths)
      in clean (if common \<noteq> [] \<and> last common = slash then common else rev (dropWhile (\<lambda>c. c \<noteq> slash) (rev common))))"

text \<open>One root for every album of an artist, and the image files of all their folders.\<close>

definition loadArtistAlbumRoots :: "resolve_env \<Rightarrow> art_album list \<Rightarrow> (string list \<times> string list) option" where
  "loadArtistAlbumRoots env albums =
     (case loadFolders env (concat (map al_FolderIDs albums)) of
        None \<Rightarrow> None
      | Some folders \<Rightarrow>
          let path_of = map_of (rev (map (\<lambda>f. (af_ID f, folder_abs f)) folders));
              album_paths = (\<lambda>al. map (\<lambda>i. the (path_of i)) (filter (\<lambda>i. path_of i \<noteq> None) (al_FolderIDs al)))
          in Some (map (\<lambda>al. commonDir (album_paths al)) (filter (\<lambda>al. album_paths al \<noteq> []) albums), folderImages folders))"

definition loadArtistFolder :: "resolve_env \<Rightarrow> art_album list \<Rightarrow> string list \<Rightarrow> string option" where
  "loadArtistFolder env albums paths =
     (if albums = [] then Some []
      else
        let libID = al_LibraryID (hd albums);
            roots = remdups_adj (sort paths);
            folderPath = (if length roots < 2 then path_dir (commonDir roots) else commonDir roots)
        in case loadFolders env [re_folderID env libID folderPath] of
             None \<Rightarrow> None
           | Some [] \<Rightarrow> Some []
           | Some (f # fs) \<Rightarrow> Some folderPath)"

fun find_entry :: "resolve_env \<Rightarrow> string \<Rightarrow> (string \<times> bool) list \<Rightarrow> string option" where
  "find_entry env base [] = None"
| "find_entry env base ((name, is_dir) # es) =
     (if \<not> is_dir \<and> equal_fold (BaseName name) base \<and> IsImageFile env name then Some name else find_entry env base es)"

text \<open>An unreadable directory counts as one without the image.\<close>

definition findImageInArtistFolder :: "resolve_env \<Rightarrow> string \<Rightarrow> string \<Rightarrow> string \<Rightarrow> string" where
  "findImageInArtistFolder env folder mbzArtistID artistName =
     (case re_readDir env folder of
        None \<Rightarrow> []
      | Some es \<Rightarrow>
          (case filter (\<lambda>c. c \<noteq> [] \<and> find_entry env c es \<noteq> None) [mbzArtistID, artistName] of
             [] \<Rightarrow> []
           | c # _ \<Rightarrow> path_join [folder, the (find_entry env c es)]))"

definition findPlaylistSidecarPath :: "resolve_env \<Rightarrow> string \<Rightarrow> string" where
  "findPlaylistSidecarPath env plsPath =
     (if plsPath = [] then []
      else case re_readDir env (path_dir plsPath) of
             None \<Rightarrow> []
           | Some es \<Rightarrow>
               (case find_entry env (trim_suffix (path_base plsPath) (file_ext plsPath)) es of
                  None \<Rightarrow> []
                | Some name \<Rightarrow> path_join [path_dir plsPath, name]))"

fun escapeGlobLiteral :: "string \<Rightarrow> string" where
  "escapeGlobLiteral [] = []"
| "escapeGlobLiteral (c # cs) =
     (if c = CHR 0x5C \<or> c = CHR ''*'' \<or> c = CHR ''?'' \<or> c = CHR ''['' \<or> c = CHR '']'' then CHR 0x5C # c # escapeGlobLiteral cs
      else c # escapeGlobLiteral cs)"

text \<open>The first image that opens: \<open>Inr\<close> its data and path, \<open>Inl\<close> whether there was one that did not.\<close>

fun open_first :: "resolve_env \<Rightarrow> string \<Rightarrow> string \<Rightarrow> bool \<Rightarrow> string list \<Rightarrow> bool + string \<times> string" where
  "open_first env absRoot absFolder unreadable [] = Inl unreadable"
| "open_first env absRoot absFolder unreadable (p # ps) =
     (case re_libOpen env absRoot p of
        Opened data \<Rightarrow> Inr (data, path_join [absFolder, file_name p])
      | _ \<Rightarrow> open_first env absRoot absFolder True ps)"

definition findImageInFolder :: "resolve_env \<Rightarrow> string \<Rightarrow> string \<Rightarrow> string \<Rightarrow> string \<Rightarrow> bool + string \<times> string" where
  "findImageInFolder env absRoot relFolder absFolder pattern =
     (case re_glob env absRoot (if relFolder \<noteq> ''.'' then path_join [escapeGlobLiteral relFolder, pattern] else pattern) of
        None \<Rightarrow> Inl False
      | Some matches \<Rightarrow> open_first env absRoot absFolder False (sort_images (filter (IsImageFile env) matches)))"

fun search_upwards :: "nat \<Rightarrow> resolve_env \<Rightarrow> string \<Rightarrow> string \<Rightarrow> bool \<Rightarrow> string \<Rightarrow> string \<Rightarrow> bool + string \<times> string" where
  "search_upwards 0 env absRoot pattern unreadable relFolder current = Inl unreadable"
| "search_upwards (Suc n) env absRoot pattern unreadable relFolder current =
     (case findImageInFolder env absRoot relFolder current pattern of
        Inr hit \<Rightarrow> Inr hit
      | Inl faulty \<Rightarrow>
          if relFolder = ''.'' then Inl (unreadable \<or> faulty)
          else search_upwards n env absRoot pattern (unreadable \<or> faulty) (path_dir relFolder) (path_dir current))"

definition maxArtistFolderTraversalDepth :: nat where "maxArtistFolderTraversalDepth = 3"

definition resolveArtistFolderPattern :: "resolve_env \<Rightarrow> string \<Rightarrow> string \<Rightarrow> string \<Rightarrow> bool + resolution" where
  "resolveArtistFolderPattern env absRoot artistFolder pattern =
     (case rel absRoot artistFolder of
        None \<Rightarrow> Inl False
      | Some r \<Rightarrow>
          if r = ''..'' \<or> has_prefix r ''../'' then Inl False
          else map_sum id (\<lambda>(data, p). image_from ''folder'' data p (re_mtime env p))
                 (search_upwards maxArtistFolderTraversalDepth env absRoot pattern False r artistFolder))"

definition resolveArtistImageFolder :: "resolve_env \<Rightarrow> art_artist \<Rightarrow> bool + resolution" where
  "resolveArtistImageFolder env ar =
     (let folder = rc_ArtistImageFolder (re_cfg env) in
      if folder = [] then Inl False
      else resolveLocalFile env (findImageInArtistFolder env folder (at_MbzArtistID ar) (at_Name ar)) ''folder'')"

subsection \<open>External sources\<close>

definition fromURL :: "resolve_env \<Rightarrow> string \<Rightarrow> agent_error + string" where
  "fromURL env imageUrl =
     (case re_http env imageUrl of
        HttpError e \<Rightarrow> Inl (Fault e)
      | HttpStatus code body \<Rightarrow>
          if code = 404 \<or> code = 410 then Inl NotFound else if code \<noteq> 200 then Inl (Fault (''status '' @ show_nat code)) else Inr body)"

text \<open>A call through the gate of a name: an open breaker, or a limiter that gives up, is a fault. \<open>what\<close> tells the calls of a name apart.\<close>

definition gated :: "resolve_env \<Rightarrow> string \<Rightarrow> string \<Rightarrow> agent_error + string \<Rightarrow> agent_error + string" where
  "gated env name what answer = (if re_gateOpen env name what then Inl (Fault ''circuit breaker open'') else answer)"

definition fetchable :: "resolve_env \<Rightarrow> ExternalImage \<Rightarrow> bool" where
  "fetchable env img \<longleftrightarrow> ei_URL img \<noteq> [] \<and>
     (case re_parseURL env (ei_URL img) of
        None \<Rightarrow> False
      | Some u \<Rightarrow> (pu_Scheme u = ''http'' \<or> pu_Scheme u = ''https'') \<and> pu_Host u \<noteq> [])"

definition larger_image :: "resolve_env \<Rightarrow> ExternalImage \<Rightarrow> ExternalImage option \<Rightarrow> ExternalImage option" where
  "larger_image env img best =
     (if \<not> fetchable env img then best
      else case best of None \<Rightarrow> Some img | Some b \<Rightarrow> if ei_Size img > ei_Size b then Some img else best)"

definition bestImageURL :: "resolve_env \<Rightarrow> ExternalImage list \<Rightarrow> string option" where
  "bestImageURL env imgs = map_option ei_URL (fold (larger_image env) imgs None)"

definition fetch_best :: "resolve_env \<Rightarrow> agent_error + ExternalImage list \<Rightarrow> agent_error + string" where
  "fetch_best env answer =
     (case answer of
        Inl e \<Rightarrow> Inl e
      | Inr imgs \<Rightarrow> (case bestImageURL env imgs of None \<Rightarrow> Inl NotFound | Some u \<Rightarrow> fromURL env u))"

text \<open>The agents in their order: \<open>Inr\<close> the image and the agent, \<open>Inl\<close> whether one failed for the moment.\<close>

fun ask_agents :: "resolve_env \<Rightarrow> string \<Rightarrow> bool \<Rightarrow> (string \<times> (agent_error + ExternalImage list)) list \<Rightarrow> bool + string \<times> string" where
  "ask_agents env what extErr [] = Inl extErr"
| "ask_agents env what extErr ((name, answer) # as) =
     (case gated env name what (fetch_best env answer) of
        Inr data \<Rightarrow> Inr (data, name)
      | Inl e \<Rightarrow> ask_agents env what (extErr \<or> isTransientExternal (Some e)) as)"

definition externalName :: "resolve_env \<Rightarrow> string \<Rightarrow> string" where
  "externalName env name = (if rc_DevPreserveUnicode (re_cfg env) then name else Clear_text name)"

definition VariousArtistsID :: string where "VariousArtistsID = ''63sqASlAfjbGMuLP4JhnZU''"

definition fetchArtistImage :: "resolve_env \<Rightarrow> art_artist \<Rightarrow> bool + string \<times> string" where
  "fetchArtistImage env ar =
     (if at_ID ar = re_unknownArtistID env \<or> at_ID ar = VariousArtistsID then Inl False
      else ask_agents env (at_ID ar) False
             (map (\<lambda>(n, ask). (n, ask (at_ID ar) (externalName env (at_Name ar)) (at_MbzArtistID ar))) (re_artistAgents env)))"

definition fetchAlbumImage :: "resolve_env \<Rightarrow> art_album \<Rightarrow> bool + string \<times> string" where
  "fetchAlbumImage env al =
     ask_agents env (al_ID al) False
       (map (\<lambda>(n, ask). (n, ask (externalName env (al_Name al)) (externalName env (al_AlbumArtist al)) (al_MbzAlbumID al))) (re_albumAgents env))"

text \<open>The external step of a chain: a hit does not take the faults of the sources before it along.\<close>

definition external_answer :: "bool \<Rightarrow> bool + string \<times> string \<Rightarrow> source_answer" where
  "external_answer external r =
     (if \<not> external then Miss False False
      else case r of
             Inr (data, name) \<Rightarrow> Hit False (image_from (''external:'' @ name) data [] 0)
           | Inl extErr \<Rightarrow> Miss extErr False)"

definition fetchYouTubeThumbnail :: "resolve_env \<Rightarrow> string \<Rightarrow> agent_error + string option \<Rightarrow> bool + string" where
  "fetchYouTubeThumbnail env what lookup =
     (case gated env ''youtube'' what (case lookup of Inl e \<Rightarrow> Inl e | Inr None \<Rightarrow> Inl NotFound | Inr (Some u) \<Rightarrow> fromURL env u) of
        Inr data \<Rightarrow> Inr data
      | Inl e \<Rightarrow> Inl (isTransientExternal (Some e)))"

text \<open>The videos named in the comments of the tracks, each once.\<close>

definition youtube_sources :: "resolve_env \<Rightarrow> art_track list \<Rightarrow> string list" where
  "youtube_sources env tracks =
     rev (remdups (rev (map (\<lambda>t. the (re_sourceURL env (tk_Comment t))) (filter (\<lambda>t. re_sourceURL env (tk_Comment t) \<noteq> None) tracks))))"

fun try_videos :: "resolve_env \<Rightarrow> bool \<Rightarrow> string list \<Rightarrow> bool \<times> string option" where
  "try_videos env transient [] = (transient, None)"
| "try_videos env transient (v # vs) =
     (case fetchYouTubeThumbnail env v (re_thumbnail env v) of
        Inr data \<Rightarrow> (transient, Some data)
      | Inl t \<Rightarrow> try_videos env (transient \<or> t) vs)"

text \<open>The search is for the first track with a title.\<close>

definition youtube_queries :: "art_track list \<Rightarrow> string list" where
  "youtube_queries tracks =
     filter (\<lambda>q. q \<noteq> ''-'') (map (\<lambda>t. trim_space (tk_Artist t @ '' - '' @ tk_Title t)) (filter (\<lambda>t. tk_Title t \<noteq> []) tracks))"

definition external_video :: "string \<Rightarrow> string \<Rightarrow> bool \<Rightarrow> resolution" where
  "external_video source data transient = (image_from source data [] 0)\<lparr>rs_extError := transient\<rparr>"

definition resolveYouTubeAlbum :: "resolve_env \<Rightarrow> bool \<Rightarrow> art_album \<Rightarrow> bool \<Rightarrow> source_answer" where
  "resolveYouTubeAlbum env external al allowSearch =
     (if \<not> rc_EnableExternalServices (re_cfg env) \<or> \<not> external \<or> \<not> re_hasYouTube env then Miss False False
      else case re_tracksOf env (al_ID al) of
             None \<Rightarrow> SourceError
           | Some tracks \<Rightarrow>
               (case try_videos env False (youtube_sources env tracks) of
                  (transient, Some data) \<Rightarrow> Hit True (external_video ''external:youtube'' data transient)
                | (transient, None) \<Rightarrow>
                    if allowSearch \<and> youtube_sources env tracks = [] \<and> youtube_queries tracks \<noteq> [] then
                      (let q = hd (youtube_queries tracks) in
                       case fetchYouTubeThumbnail env q (re_searchThumbnail env q) of
                         Inr data \<Rightarrow> Hit True (external_video ''external:youtube-search'' data transient)
                       | Inl t \<Rightarrow> Miss (transient \<or> t) False)
                    else Miss transient False))"

subsection \<open>Resolving\<close>

definition album_source :: "resolve_env \<Rightarrow> bool \<Rightarrow> art_album \<Rightarrow> string \<Rightarrow> string list \<Rightarrow> bool \<Rightarrow> string \<Rightarrow> source_answer" where
  "album_source env external al absRoot imgFiles allowSearch pattern =
     (if pattern = ''embedded'' then local_answer (resolveEmbedded env absRoot (al_EmbedArtPath al))
      else if pattern = ''external'' then external_answer external (fetchAlbumImage env al)
      else if pattern = ''youtube'' then resolveYouTubeAlbum env external al allowSearch
      else if imgFiles \<noteq> [] then local_answer (resolveFolderFile env absRoot imgFiles pattern)
      else Miss False False)"

definition resolveAlbum :: "resolve_env \<Rightarrow> bool \<Rightarrow> string \<Rightarrow> int \<Rightarrow> resolution option" where
  "resolveAlbum env external albumID priority =
     (case re_albums env albumID of
        None \<Rightarrow> None
      | Some al \<Rightarrow>
          (case loadAlbumFolders env al of
             None \<Rightarrow> None
           | Some folders \<Rightarrow>
               (case re_libraries env (al_LibraryID al) of
                  None \<Rightarrow> None
                | Some absRoot \<Rightarrow>
                    walk_chain (album_source env external al absRoot (folderImages folders) (priority = ArtworkPriorityBackfill)) False False
                      (priority_patterns (rc_CoverArtPriority (re_cfg env))))))"

text \<open>\<open>libRoot\<close> is the library of the first album, if the artist has albums.\<close>

definition artist_source :: "resolve_env \<Rightarrow> bool \<Rightarrow> art_artist \<Rightarrow> string option \<Rightarrow> string list \<Rightarrow> string \<Rightarrow> string \<Rightarrow> source_answer" where
  "artist_source env external ar libRoot imgFiles artistFolder pattern =
     (if pattern = ''external'' then external_answer external (fetchArtistImage env ar)
      else if pattern = ''image-folder'' then local_answer (resolveArtistImageFolder env ar)
      else case cut_prefix pattern ''album/'' of
             Some rest \<Rightarrow> (case libRoot of None \<Rightarrow> Miss False False | Some libroot \<Rightarrow> local_answer (resolveFolderFile env libroot imgFiles rest))
           | None \<Rightarrow>
               (case libRoot of
                  None \<Rightarrow> Miss False False
                | Some libroot \<Rightarrow> if artistFolder = [] then Miss False False else local_answer (resolveArtistFolderPattern env libroot artistFolder pattern)))"

definition artist_chain :: "resolve_env \<Rightarrow> bool \<Rightarrow> art_artist \<Rightarrow> resolution option" where
  "artist_chain env external ar =
     (case re_albumsOf env (at_ID ar) of
        None \<Rightarrow> None
      | Some als \<Rightarrow>
          (case loadArtistAlbumRoots env als of
             None \<Rightarrow> None
           | Some (albumPaths, imgFiles) \<Rightarrow>
               (case loadArtistFolder env als albumPaths of
                  None \<Rightarrow> None
                | Some artistFolder \<Rightarrow>
                    if als \<noteq> [] \<and> re_libraries env (al_LibraryID (hd als)) = None then None
                    else
                      let libRoot = (if als = [] then None else re_libraries env (al_LibraryID (hd als)))
                      in walk_chain (artist_source env external ar libRoot imgFiles artistFolder) False False
                           (priority_patterns (rc_ArtistArtPriority (re_cfg env))))))"

definition resolveArtist :: "resolve_env \<Rightarrow> bool \<Rightarrow> string \<Rightarrow> resolution option" where
  "resolveArtist env external artistID =
     (case re_artists env artistID of
        None \<Rightarrow> None
      | Some ar \<Rightarrow>
          (case resolveLocalFile env (UploadedImagePath env ''artist'' (at_UploadedImage ar)) ''upload'' of
             Inr res \<Rightarrow> Some res
           | Inl unreadable \<Rightarrow> if unreadable then Some (no_image False True) else artist_chain env external ar))"

text \<open>The local files of a playlist, which outrank the rest: a result, or none of them is there.\<close>

fun first_local :: "resolve_env \<Rightarrow> (string \<times> string) list \<Rightarrow> resolution option" where
  "first_local env [] = None"
| "first_local env ((p, source) # ps) =
     (case resolveLocalFile env p source of
        Inr res \<Rightarrow> Some res
      | Inl unreadable \<Rightarrow> if unreadable then Some (no_image False True) else first_local env ps)"

definition classifyPlaylistImage :: "resolve_env \<Rightarrow> string \<Rightarrow> string \<times> string option" where
  "classifyPlaylistImage env imageURL =
     (if imageURL = [] then ([], None)
      else case re_parseURL env imageURL of
             None \<Rightarrow> (imageURL, None)
           | Some u \<Rightarrow>
               if pu_Scheme u = ''http'' \<or> pu_Scheme u = ''https'' then ([], Some imageURL)
               else if pu_Scheme u = ''file'' then (pu_Path u, None) else (imageURL, None))"

definition resolveExternalStep :: "resolve_env \<Rightarrow> string \<Rightarrow> string \<Rightarrow> agent_error + string \<Rightarrow> bool + resolution" where
  "resolveExternalStep env name url answer =
     (case gated env name url answer of
        Inr data \<Rightarrow> Inr (image_from ''external'' data url 0)
      | Inl e \<Rightarrow> Inl (e \<noteq> NotFound))"

record tile_state =
  ts_tiles :: "string list"
  ts_failed :: bool
  ts_extErr :: bool

definition tile_step :: "resolve_env \<Rightarrow> string \<Rightarrow> tile_state \<Rightarrow> tile_state" where
  "tile_step env albumID s =
     (if length (ts_tiles s) = 4 then s
      else case resolveAlbum env True albumID 0 of
             None \<Rightarrow> s\<lparr>ts_failed := True\<rparr>
           | Some res \<Rightarrow>
               let s1 = s\<lparr>ts_extErr := ts_extErr s \<or> rs_extError res\<rparr>
               in (case rs_data res of
                     None \<Rightarrow> s1
                   | Some data \<Rightarrow> (case re_decodeTile env data of None \<Rightarrow> s1 | Some tile \<Rightarrow> s1\<lparr>ts_tiles := ts_tiles s @ [tile]\<rparr>)))"

definition grow_tiles :: "string list \<Rightarrow> string list" where
  "grow_tiles tiles =
     (case tiles of [a, b] \<Rightarrow> [a, b, b, a] | [a, b, c] \<Rightarrow> [a, b, c, a] | _ \<Rightarrow> tiles)"

definition generated_grid :: "resolve_env \<Rightarrow> bool \<Rightarrow> string list \<Rightarrow> resolution option" where
  "generated_grid env extErr albumIDs =
     (let s = fold (tile_step env) albumIDs \<lparr>ts_tiles = [], ts_failed = False, ts_extErr = extErr\<rparr> in
      if ts_tiles s = [] then if ts_failed s then None else Some (no_image (ts_extErr s) False)
      else case re_assembleTiles env (grow_tiles (ts_tiles s)) of
             None \<Rightarrow> Some (no_image (ts_extErr s) False)
           | Some grid \<Rightarrow> Some ((image_from ''generated'' grid [] 0)\<lparr>rs_extError := ts_extErr s\<rparr>))"

definition resolvePlaylist :: "resolve_env \<Rightarrow> bool \<Rightarrow> string \<Rightarrow> resolution option" where
  "resolvePlaylist env external playlistID =
     (case re_playlists env playlistID of
        None \<Rightarrow> None
      | Some pl \<Rightarrow>
          let (localImg, remoteImg) = classifyPlaylistImage env (pl_ExternalImageURL pl) in
          (case first_local env ([(UploadedImagePath env ''playlist'' (pl_UploadedImage pl), ''upload''),
               (findPlaylistSidecarPath env (pl_Path pl), ''folder'')] @ (if localImg \<noteq> [] then [(localImg, ''folder'')] else [])) of
             Some res \<Rightarrow> Some res
           | None \<Rightarrow>
               if \<not> external then Some (no_image False False)
               else
                 let remote = (case remoteImg of
                     Some u \<Rightarrow> if rc_EnableM3UExternalAlbumArt (re_cfg env) then resolveExternalStep env ''m3u'' u (fromURL env u) else Inl False
                   | None \<Rightarrow> Inl False)
                 in (case remote of
                       Inr res \<Rightarrow> Some res
                     | Inl extErr \<Rightarrow>
                         (case re_playlistAlbums env (pl_ID pl) of
                            None \<Rightarrow> None
                          | Some albumIDs \<Rightarrow> generated_grid env extErr albumIDs))))"

definition resolveRadio :: "resolve_env \<Rightarrow> string \<Rightarrow> resolution option" where
  "resolveRadio env radioID =
     (case re_radioImages env radioID of
        None \<Rightarrow> None
      | Some uploaded \<Rightarrow>
          (case resolveLocalFile env (UploadedImagePath env ''radio'' uploaded) ''upload'' of
             Inr res \<Rightarrow> Some res
           | Inl unreadable \<Rightarrow> Some (no_image False unreadable)))"

definition resolveMediaFile :: "resolve_env \<Rightarrow> string \<Rightarrow> resolution option" where
  "resolveMediaFile env i =
     (case re_tracks env i of
        None \<Rightarrow> None
      | Some tk \<Rightarrow>
          if \<not> rc_EnableMediaFileCoverArt (re_cfg env) \<or> \<not> tk_HasCoverArt tk then Some (no_image False False)
          else (case re_libraries env (tk_LibraryID tk) of
                  None \<Rightarrow> None
                | Some absRoot \<Rightarrow>
                    (case resolveEmbedded env absRoot (tk_Path tk) of
                       Inr res \<Rightarrow> Some res
                     | Inl unreadable \<Rightarrow> Some (no_image False unreadable))))"

definition resolve :: "resolve_env \<Rightarrow> bool \<Rightarrow> ArtworkQueueItem \<Rightarrow> resolution option" where
  "resolve env external item =
     (case ParseKind (aq_ItemKind item) of
        None \<Rightarrow> None
      | Some kind \<Rightarrow>
          if kind = KindAlbumArtwork then resolveAlbum env external (aq_ItemID item) (aq_Priority item)
          else if kind = KindArtistArtwork then resolveArtist env external (aq_ItemID item)
          else if kind = KindPlaylistArtwork then resolvePlaylist env external (aq_ItemID item)
          else if kind = KindRadioArtwork then resolveRadio env (aq_ItemID item)
          else if kind = KindMediaFileArtwork then resolveMediaFile env (aq_ItemID item)
          else None)"

subsection \<open>The walk\<close>

lemma no_image_simps [simp]: "rs_data (no_image e l) = None" "rs_extError (no_image e l) = e" "rs_localError (no_image e l) = l"
  by (simp_all add: no_image_def)

lemma image_from_simps [simp]:
  "rs_data (image_from s d p m) = Some d" "rs_extError (image_from s d p m) = False" "rs_localError (image_from s d p m) = False"
  "rs_source_name (image_from s d p m) = s"
  by (simp_all add: image_from_def)

definition hits_have_data :: "(string \<Rightarrow> source_answer) \<Rightarrow> bool" where
  "hits_have_data ask \<longleftrightarrow> (\<forall>p b res. ask p = Hit b res \<longrightarrow> rs_data res \<noteq> None)"

text \<open>A walk that finds nothing asked every source, and remembers every fault.\<close>

lemma walk_nothing:
  assumes "hits_have_data ask"
  shows "walk_chain ask e l ps = Some res \<Longrightarrow> rs_data res = None \<Longrightarrow>
    (\<forall>p \<in> set ps. \<exists>e' l'. ask p = Miss e' l' \<and> (e' \<longrightarrow> rs_extError res) \<and> (l' \<longrightarrow> rs_localError res)) \<and> (e \<longrightarrow> rs_extError res) \<and> (l \<longrightarrow> rs_localError res)"
proof (induction ps arbitrary: e l)
  case (Cons p ps)
  show ?case
  proof (cases "ask p")
    case (Hit b r)
    then have "rs_data r \<noteq> None" using assms unfolding hits_have_data_def by blast
    then show ?thesis using Hit Cons(2,3) by (auto split: if_splits)
  next
    case (Miss e' l')
    then show ?thesis using Cons(1) [of "e \<or> e'" "l \<or> l'"] Cons(2,3) by auto
  qed (use Cons in auto)
qed auto

text \<open>A walk that finds an image takes it from the first source that has one.\<close>

lemma walk_first_hit:
  assumes "walk_chain ask e l ps = Some res" "rs_data res \<noteq> None"
  shows "\<exists>ps1 p ps2 b r. ps = ps1 @ p # ps2 \<and> (\<forall>q \<in> set ps1. \<exists>e' l'. ask q = Miss e' l') \<and> ask p = Hit b r \<and> rs_data res = rs_data r
    \<and> rs_source_name res = rs_source_name r \<and> rs_sourcePath res = rs_sourcePath r"
  using assms
proof (induction ps arbitrary: e l)
  case (Cons p ps)
  show ?case
  proof (cases "ask p")
    case (Hit b r)
    then show ?thesis using Cons(2) by (intro exI [of _ "[]"] exI [of _ p] exI [of _ ps] exI [of _ b] exI [of _ r]) auto
  next
    case (Miss e' l')
    then have "walk_chain ask (e \<or> e') (l \<or> l') ps = Some res" using Cons(2) by simp
    from Cons(1) [OF this Cons(3)] obtain ps1 q ps2 b r where q: "ps = ps1 @ q # ps2" "\<forall>u \<in> set ps1. \<exists>e' l'. ask u = Miss e' l'"
      "ask q = Hit b r" "rs_data res = rs_data r" "rs_source_name res = rs_source_name r" "rs_sourcePath res = rs_sourcePath r" by blast
    then show ?thesis using Miss by (intro exI [of _ "p # ps1"] exI [of _ q] exI [of _ ps2] exI [of _ b] exI [of _ r]) simp
  qed (use Cons in simp)
next
  case Nil
  then have "res = no_image e l" by simp
  then show ?case using Nil by simp
qed

text \<open>An image of the external step is not tried again, although a source before it failed: the fault is forgotten.\<close>

lemma external_hit_forgets_fault:
  assumes "ask p = Miss True False" "ask q = Hit False res" "\<not> rs_extError res"
  shows "walk_chain ask False False [p, q] = Some res \<and> \<not> rs_extError res"
  using assms by simp

subsection \<open>Album sources that have nothing\<close>

lemma fromExternalFile_nothing:
  "fromExternalFile env absRoot pattern u files = Inl False \<Longrightarrow> f \<in> set files \<Longrightarrow> path_match pattern (to_lower (file_name f)) \<noteq> Some True"
proof -
  have miss: "fromExternalFile env absRoot pattern True files \<noteq> Inl False" for files
    by (induction files) (auto split: opened.splits)
  show "fromExternalFile env absRoot pattern u files = Inl False \<Longrightarrow> f \<in> set files \<Longrightarrow> path_match pattern (to_lower (file_name f)) \<noteq> Some True"
  proof (induction files arbitrary: u)
    case (Cons g files)
    show ?case
    proof (cases "path_match pattern (to_lower (file_name g)) = Some True")
      case True
      then show ?thesis using Cons(2) miss [of files] by (auto split: opened.splits)
    next
      case False
      then show ?thesis using Cons by auto
    qed
  qed simp
qed

lemma ask_agents_fault: "ask_agents env what True as \<noteq> Inl False"
  by (induction as) (auto split: sum.splits)

lemma ask_agents_nothing:
  "ask_agents env what e as = Inl False \<Longrightarrow> \<forall>(n, answer) \<in> set as. gated env n what (fetch_best env answer) = Inl NotFound"
proof (induction as arbitrary: e)
  case (Cons a as)
  obtain n answer where a: "a = (n, answer)" by fastforce
  then obtain x where x: "gated env n what (fetch_best env answer) = Inl x" "ask_agents env what (e \<or> isTransientExternal (Some x)) as = Inl False"
    using Cons(2) by (auto split: sum.splits)
  then have "x = NotFound" using ask_agents_fault [of env what as] by (cases x) (auto simp: isTransientExternal_def)
  then show ?case using Cons(1) [OF x(2)] x(1) by (simp add: a)
qed simp

lemma embedded_nothing:
  "resolveEmbedded env absRoot p = Inl False \<Longrightarrow> p = [] \<or> re_tag env absRoot p = TagNone \<and> re_ffmpeg env (lib_Abs absRoot p) = None"
  by (auto simp: resolveEmbedded_def Let_def split: if_splits tag_image.splits option.splits)

lemma local_answer_simps [simp]: "local_answer r = Miss e l \<longleftrightarrow> \<not> e \<and> r = Inl l" "local_answer r = Hit b res \<longleftrightarrow> b \<and> r = Inr res"
  by (auto simp: local_answer_def split: sum.splits)

lemma local_results_have_data:
  "resolveEmbedded env absRoot p = Inr res \<Longrightarrow> rs_data res \<noteq> None" "resolveFolderFile env absRoot files p = Inr res \<Longrightarrow> rs_data res \<noteq> None"
  by (auto simp: resolveEmbedded_def resolveFolderFile_def Let_def map_sum_def split: if_splits tag_image.splits option.splits sum.splits)

lemma external_answer_data: "external_answer external r = Hit b res \<Longrightarrow> rs_data res \<noteq> None"
  by (auto simp: external_answer_def split: if_splits sum.splits prod.splits)

lemma external_video_data [simp]: "rs_data (external_video s d t) = Some d"
  by (simp add: external_video_def)

lemma resolveYouTubeAlbum_data: "resolveYouTubeAlbum env external al search = Hit b res \<Longrightarrow> rs_data res \<noteq> None"
  by (auto simp: resolveYouTubeAlbum_def Let_def split: if_splits sum.splits option.splits prod.splits)

lemma album_source_hits: "hits_have_data (album_source env external al absRoot imgFiles search)"
  unfolding hits_have_data_def
proof (intro allI impI)
  fix p b res assume "album_source env external al absRoot imgFiles search p = Hit b res"
  then show "rs_data res \<noteq> None"
    unfolding album_source_def using local_results_have_data external_answer_data resolveYouTubeAlbum_data
    by (simp only: local_answer_simps split: if_splits) blast+
qed

lemma insert_image_set [simp]: "set (insert_image x xs) = insert x (set xs)"
  by (induction xs) auto

lemma sort_images_set [simp]: "set (sort_images xs) = set xs"
  unfolding sort_images_def by (induction xs) auto

lemma folderImages_set:
  "set (folderImages folders) = {path_join [folder_rel f, img] | f img. f \<in> set folders \<and> img \<in> set (af_ImageFiles f)}"
  by (auto simp: folderImages_def)

text \<open>What it takes to record that an album has no image: none of its image files matches a pattern of the priority list, and the sources in
  that list say themselves that they have none.\<close>

definition nothing_for_album :: "resolve_env \<Rightarrow> bool \<Rightarrow> art_album \<Rightarrow> bool" where
  "nothing_for_album env external al \<longleftrightarrow>
     (\<exists>folders absRoot. loadAlbumFolders env al = Some folders \<and> re_libraries env (al_LibraryID al) = Some absRoot
       \<and> (\<forall>p \<in> set (priority_patterns (rc_CoverArtPriority (re_cfg env))).
            if p = ''embedded'' then
              al_EmbedArtPath al = [] \<or> re_tag env absRoot (al_EmbedArtPath al) = TagNone \<and> re_ffmpeg env (lib_Abs absRoot (al_EmbedArtPath al)) = None
            else if p = ''external'' then
              external \<longrightarrow> (\<forall>(name, ask) \<in> set (re_albumAgents env).
                 gated env name (al_ID al) (fetch_best env (ask (externalName env (al_Name al)) (externalName env (al_AlbumArtist al)) (al_MbzAlbumID al)))
                   = Inl NotFound)
            else p \<noteq> ''youtube'' \<longrightarrow>
              (\<forall>f \<in> set folders. \<forall>img \<in> set (af_ImageFiles f). path_match p (to_lower (file_name (path_join [folder_rel f, img]))) \<noteq> Some True)))"

lemma album_source_nothing:
  assumes "album_source env external al absRoot imgFiles search p = Miss False False"
  shows "if p = ''embedded'' then al_EmbedArtPath al = [] \<or> re_tag env absRoot (al_EmbedArtPath al) = TagNone \<and> re_ffmpeg env (lib_Abs absRoot (al_EmbedArtPath al)) = None
    else if p = ''external'' then external \<longrightarrow> (\<forall>(name, ask) \<in> set (re_albumAgents env).
        gated env name (al_ID al) (fetch_best env (ask (externalName env (al_Name al)) (externalName env (al_AlbumArtist al)) (al_MbzAlbumID al))) = Inl NotFound)
    else p \<noteq> ''youtube'' \<longrightarrow> (\<forall>f \<in> set imgFiles. path_match p (to_lower (file_name f)) \<noteq> Some True)"
proof -
  consider "p = ''embedded''" | "p = ''external''" | "p = ''youtube''" | "p \<notin> {''embedded'', ''external'', ''youtube''}" by blast
  then show ?thesis
  proof cases
    case 1
    then show ?thesis using assms embedded_nothing by (simp add: album_source_def)
  next
    case 2
    then have "external \<Longrightarrow> fetchAlbumImage env al = Inl False"
      using assms by (auto simp: album_source_def external_answer_def split: sum.splits prod.splits)
    then show ?thesis using 2 unfolding fetchAlbumImage_def by (fastforce dest: ask_agents_nothing)
  next
    case 3
    then show ?thesis by simp
  next
    case 4
    have "resolveFolderFile env absRoot imgFiles p = Inl False" if "imgFiles \<noteq> []"
      using assms 4 that by (simp add: album_source_def)
    then have "imgFiles \<noteq> [] \<Longrightarrow> fromExternalFile env absRoot p False imgFiles = Inl False"
      by (auto simp: resolveFolderFile_def map_sum_def split: sum.splits)
    then show ?thesis using 4 fromExternalFile_nothing by fastforce
  qed
qed

lemma resolveAlbum_nothing:
  assumes "resolveAlbum env external i prio = Some res" "rs_data res = None" "\<not> rs_extError res" "\<not> rs_localError res" "re_albums env i = Some al"
  shows "nothing_for_album env external al"
proof -
  obtain folders absRoot where loads: "loadAlbumFolders env al = Some folders" "re_libraries env (al_LibraryID al) = Some absRoot"
    and walk: "walk_chain (album_source env external al absRoot (folderImages folders) (prio = ArtworkPriorityBackfill)) False False
        (priority_patterns (rc_CoverArtPriority (re_cfg env))) = Some res"
    using assms(1,5) by (auto simp: resolveAlbum_def split: option.splits)
  have "album_source env external al absRoot (folderImages folders) (prio = ArtworkPriorityBackfill) p = Miss False False"
    if "p \<in> set (priority_patterns (rc_CoverArtPriority (re_cfg env)))" for p
    using walk_nothing [OF album_source_hits walk assms(2)] that assms(3,4) by (metis (full_types))
  note album_source_nothing [OF this]
  then show ?thesis unfolding nothing_for_album_def using loads
    by (intro exI [of _ folders] exI [of _ absRoot]) (force simp: folderImages_set)
qed

lemma acquire_absent:
  assumes "acquire aenv now item db = (OutcomeAbsent, db')"
  shows "\<exists>res. ae_resolve aenv = Some res \<and> rs_data res = None \<and> \<not> rs_extError res \<and> \<not> rs_localError res \<and> db' = put_item item (absent_state now) db"
  using assms by (auto simp: acquire_def acquire_image_def writeAbsent_def Let_def split: option.splits if_splits)

text \<open>That an album has no artwork is only recorded when every source of the priority list said so: no image file of its folders
  matches a pattern of the list, the embedded image was looked for in a file that could be read, and every agent answered that it has none.
  A fault, an open circuit breaker or an unreadable file among them never leads to that record.\<close>

theorem absent_album_definitive:
  assumes "acquire aenv now item db = (OutcomeAbsent, db')" "ae_resolve aenv = resolve env True item"
    and "aq_ItemKind item = ''al''" "re_albums env (aq_ItemID item) = Some al"
  shows "nothing_for_album env True al"
proof -
  obtain res where res: "resolve env True item = Some res" "rs_data res = None" "\<not> rs_extError res" "\<not> rs_localError res"
    using acquire_absent [OF assms(1)] assms(2) by auto
  moreover have "resolve env True item = resolveAlbum env True (aq_ItemID item) (aq_Priority item)"
    by (simp add: resolve_def assms(3) ParseKind_def artworkKindMap_def kind_defs)
  ultimately show ?thesis using resolveAlbum_nothing assms(4) by metis
qed

text \<open>With a playlist it does: the grid takes an album whose image could not be read for one that has none.\<close>

lemma grid_forgets_local_faults:
  assumes "\<And>i. i \<in> set ids \<Longrightarrow> resolveAlbum env True i 0 = Some (no_image False True)"
  shows "generated_grid env False ids = Some (no_image False False)"
proof -
  have "fold (tile_step env) ids \<lparr>ts_tiles = [], ts_failed = False, ts_extErr = False\<rparr> = \<lparr>ts_tiles = [], ts_failed = False, ts_extErr = False\<rparr>"
    using assms
  proof (induction ids)
    case (Cons i ids)
    then have "tile_step env i \<lparr>ts_tiles = [], ts_failed = False, ts_extErr = False\<rparr> = \<lparr>ts_tiles = [], ts_failed = False, ts_extErr = False\<rparr>"
      by (simp add: tile_step_def Let_def)
    then show ?case using Cons by simp
  qed simp
  then show ?thesis by (simp add: generated_grid_def)
qed

subsection \<open>The artist's folder\<close>

lemma has_prefix_cut: "has_prefix s (rev (dropWhile P (rev s)))"
  by (simp add: has_prefix_def dropWhile_eq_drop rev_drop)

lemma has_prefix_refl: "has_prefix s s"
  by (simp add: has_prefix_def)

lemma has_prefix_trans: "has_prefix s c \<Longrightarrow> has_prefix c d \<Longrightarrow> has_prefix s d"
  unfolding has_prefix_def by (metis append_eq_conv_conj append_assoc append_take_drop_id)

text \<open>The common directory is above every path, at a boundary of their names.\<close>

lemma commonDir_above:
  "\<exists>d. commonDir paths = clean d \<and> (d = [] \<or> last d = slash) \<and> (\<forall>p \<in> set paths. has_prefix (p @ ''/'') d)"
proof -
  let ?c = "LongestCommonPrefix (map (\<lambda>p. p @ ''/'') paths)"
  let ?d = "if ?c \<noteq> [] \<and> last ?c = slash then ?c else rev (dropWhile (\<lambda>c. c \<noteq> slash) (rev ?c))"
  have prefix: "has_prefix (p @ ''/'') ?c" if "p \<in> set paths" for p
    using that by (intro LongestCommonPrefix_prefix) simp
  have "has_prefix ?c ?d" by (simp add: has_prefix_refl has_prefix_cut)
  then have "has_prefix (p @ ''/'') ?d" if "p \<in> set paths" for p using prefix [OF that] by (rule has_prefix_trans [rotated])
  moreover have "?d = [] \<or> last ?d = slash"
  proof (cases "?c \<noteq> [] \<and> last ?c = slash")
    case False
    have "dropWhile (\<lambda>c. c \<noteq> slash) (rev ?c) = [] \<or> hd (dropWhile (\<lambda>c. c \<noteq> slash) (rev ?c)) = slash"
      using hd_dropWhile [of "\<lambda>c. c \<noteq> slash" "rev ?c"] by blast
    then show ?thesis using False by (auto simp: last_rev)
  qed simp
  moreover have "commonDir paths = clean ?d" by (simp add: commonDir_def Let_def)
  ultimately show ?thesis by blast
qed

subsection \<open>An example\<close>

definition example_album :: art_album where
  "example_album = \<lparr>al_ID = ''a1'', al_Name = ''Album'', al_AlbumArtist = ''Band'', al_AlbumArtistID = ''b'', al_AlbumArtists = 1, al_MbzAlbumID = [],
     al_EmbedArtPath = ''Band/Album/1.mp3'', al_LibraryID = 1, al_FolderIDs = [''f1''], al_Discs = [], al_UpdatedAt = 0, al_ImportedAt = 0\<rparr>"

definition example_folder :: "string list \<Rightarrow> art_folder" where
  "example_folder imgs = \<lparr>af_ID = ''f1'', af_LibraryID = 1, af_LibraryPath = ''/music'', af_Path = ''Band'', af_Name = ''Album'', af_ParentID = ''f0'',
     af_NumAudioFiles = 1, af_ImageFiles = imgs, af_Missing = False, af_ImagesUpdatedAt = 0\<rparr>"

definition example_resolve_env :: "string list \<Rightarrow> tag_image \<Rightarrow> resolve_env" where
  "example_resolve_env imgs tag = \<lparr>re_cfg = \<lparr>rc_CoverArtPriority = ''Cover.*, embedded, external'', rc_ArtistArtPriority = ''artist.*'', rc_ArtistImageFolder = [], rc_DiscArtPriority = ''disc*.*'',
       rc_DataFolder = ''/data'', rc_EnableM3UExternalAlbumArt = False, rc_EnableMediaFileCoverArt = True, rc_EnableExternalServices = True,
       rc_DevPreserveUnicode = False\<rparr>,
     re_albums = (\<lambda>i. if i = ''a1'' then Some example_album else None), re_artists = (\<lambda>_. None), re_playlists = (\<lambda>_. None), re_radioImages = (\<lambda>_. None),
     re_tracks = (\<lambda>_. None), re_albumsOf = (\<lambda>_. None), re_tracksOf = (\<lambda>_. None), re_playlistAlbums = (\<lambda>_. None),
     re_folders = [example_folder imgs], re_foldersFail = (\<lambda>_. False), re_folderFails = False, re_audioFails = False,
     re_libraries = (\<lambda>_. Some ''/music''), re_folderID = (\<lambda>_ p. p), re_unknownArtistID = ''unknown'',
     re_open = (\<lambda>_. NotThere), re_libOpen = (\<lambda>_ _. Opened ''png''), re_glob = (\<lambda>_ _. Some []), re_readDir = (\<lambda>_. Some []),
     re_mtime = (\<lambda>_. 7), re_libMtime = (\<lambda>_ _. 7), re_mimeType = (\<lambda>e. if e = ''.jpg'' then ''image/jpeg'' else []),
     re_tag = (\<lambda>_ _. tag), re_ffmpeg = (\<lambda>_. None), re_parseURL = (\<lambda>_. None), re_http = (\<lambda>_. HttpStatus 404 []),
     re_gateOpen = (\<lambda>_ _. False), re_albumAgents = [(''agent'', \<lambda>_ _ _. Inl NotFound)], re_artistAgents = [], re_hasYouTube = False,
     re_sourceURL = (\<lambda>_. None), re_thumbnail = (\<lambda>_. Inl NotFound), re_searchThumbnail = (\<lambda>_. Inl NotFound),
     re_decodeTile = Some, re_assembleTiles = (\<lambda>_. None)\<rparr>"

lemma example_resolutions:
  "map_option rs_data (resolve (example_resolve_env [''front.jpg''] TagNone) True (queue_item (''al'', ''a1'', ''primary'') 0)) = Some None"
  "map_option rs_localError (resolve (example_resolve_env [''front.jpg''] TagUnreadable) True (queue_item (''al'', ''a1'', ''primary'') 0)) = Some True"
  "map_option rs_sourcePath (resolve (example_resolve_env [''cover.1.jpg'', ''COVER.jpg''] TagNone) True (queue_item (''al'', ''a1'', ''primary'') 0))
    = Some ''/music/Band/Album/COVER.jpg''"
  by code_simp+

theorem absent_album_definitive_witness:
  "nothing_for_album (example_resolve_env [''front.jpg''] TagNone) True example_album"
proof -
  let ?item = "queue_item (''al'', ''a1'', ''primary'') 0"
  let ?env = "example_resolve_env [''front.jpg''] TagNone"
  let ?aenv = "\<lparr>ae_resolve = resolve ?env True ?item, ae_readable = True, ae_hash = (\<lambda>x. x), ae_getImage = True, ae_decodes = True,
     ae_placed = True, ae_putItem = True, ae_getItem = True\<rparr>"
  let ?db = "\<lparr>ad_queue = [], ad_items = (\<lambda>_. None), ad_images = []\<rparr> :: artwork_db"
  have "fst (acquire ?aenv 5 ?item ?db) = OutcomeAbsent" by code_simp
  then obtain db' where "acquire ?aenv 5 ?item ?db = (OutcomeAbsent, db')" by (metis prod.collapse)
  then show ?thesis by (rule absent_album_definitive) (simp_all add: queue_item_def example_resolve_env_def)
qed

end
