(* ===== verification/Artwork_Serve.thy ===== *)
theory Artwork_Serve
  imports Artwork_Store Artwork_Resolve
begin

text \<open>
  Serving artwork (\<open>core/artwork/artwork.go\<close>) and the artwork of discs (\<open>disc.go\<close>): a request finds the image of an item by its state,
  reads local sources through when there is no state yet, and puts the item in the queue when what it has is missing, stale or old.
  The cache of resized images and the resizing are parameters, and a request is not cancelled.
\<close>

subsection \<open>The environment\<close>

record serve_db =
  sd_store :: image_db
  sd_artwork :: artwork_db

datatype serve_error = ServeUnavailable | ServeNotFound | ServeError

record served_image =
  sv_data :: string
  sv_Hash :: string
  sv_ETag :: string
  sv_LastUpdated :: Time
  sv_Placeholder :: bool

record serve_env =
  se_now :: Time
  se_resolve :: resolve_env
  se_find :: "Kind \<Rightarrow> string \<Rightarrow> bool option"
  se_imageHash :: "Kind \<Rightarrow> string \<Rightarrow> string"
  se_notFound :: "Kind \<Rightarrow> string \<Rightarrow> bool"
  se_stateFails :: bool
  se_imageFails :: bool
  se_enqueueFails :: bool
  se_mtime :: "string \<Rightarrow> int option"
  se_storeData :: "string \<Rightarrow> string \<Rightarrow> string"
  se_readable :: "string \<Rightarrow> bool"
  se_hash :: "string \<Rightarrow> string"
  se_cached :: "string \<Rightarrow> int \<Rightarrow> bool \<Rightarrow> string option"
  se_resize :: "string \<Rightarrow> int \<Rightarrow> bool \<Rightarrow> string option"
  se_formatTag :: string
  se_discTracks :: "string \<Rightarrow> int \<Rightarrow> art_track list option"
  se_placeholder :: "string \<Rightarrow> string"

abbreviation se_cfg :: "serve_env \<Rightarrow> resolve_config" where
  "se_cfg env \<equiv> re_cfg (se_resolve env)"

subsection \<open>Images\<close>

definition representationTag :: "serve_env \<Rightarrow> string \<Rightarrow> int \<Rightarrow> bool \<Rightarrow> string" where
  "representationTag env hash sz square =
     hash @ ''.'' @ itoa sz @ ''.'' @ (if square then ''true'' else ''false'') @ ''.'' @ se_formatTag env"

definition serveSource ::
    "serve_env \<Rightarrow> string \<Rightarrow> string \<Rightarrow> Time \<Rightarrow> int \<Rightarrow> bool \<Rightarrow> serve_error + string \<Rightarrow> serve_error + served_image" where
  "serveSource env key hash lastUpdate sz square original =
     (if sz = 0 \<and> \<not> square then
        map_sum id (\<lambda>data. \<lparr>sv_data = data, sv_Hash = hash, sv_ETag = (if hash = [] then representationTag env key sz square else []),
          sv_LastUpdated = lastUpdate, sv_Placeholder = False\<rparr>) original
      else
        let image = (\<lambda>data. \<lparr>sv_data = data, sv_Hash = hash, sv_ETag = representationTag env key sz square, sv_LastUpdated = lastUpdate,
          sv_Placeholder = False\<rparr>)
        in (case se_cached env key sz square of
              Some data \<Rightarrow> Inr (image data)
            | None \<Rightarrow>
                (case original of
                   Inl e \<Rightarrow> Inl e
                 | Inr data \<Rightarrow> (case se_resize env data sz square of None \<Rightarrow> Inl ServeError | Some r \<Rightarrow> Inr (image r)))))"

text \<open>\<open>openOriginal\<close>: the bytes, if the file they were taken from has not changed since.\<close>

definition openOriginal :: "serve_env \<Rightarrow> ItemArtwork \<Rightarrow> string \<Rightarrow> image_files \<Rightarrow> serve_error + string" where
  "openOriginal env ia mimeType files =
     (if isFileBacked (ia_Source ia) then
        (case re_open (se_resolve env) (ia_SourcePath ia) of
           Opened data \<Rightarrow>
             (case se_mtime env (ia_SourcePath ia) of
                None \<Rightarrow> Inl ServeError
              | Some m \<Rightarrow> if ia_RefMtime ia \<noteq> 0 \<and> m \<noteq> ia_RefMtime ia then Inl ServeError else Inr data)
         | _ \<Rightarrow> Inl ServeError)
      else if ia_SourcePath ia \<noteq> [] \<and> ia_RefMtime ia \<noteq> 0 \<and> se_mtime env (ia_SourcePath ia) \<noteq> Some (ia_RefMtime ia) then Inl ServeError
      else if Open_image (ia_Hash ia) mimeType files then Inr (se_storeData env (ia_Hash ia) mimeType)
      else Inl ServeError)"

definition serve_enqueue :: "serve_env \<Rightarrow> ArtworkID \<Rightarrow> int \<Rightarrow> serve_db \<Rightarrow> serve_db" where
  "serve_enqueue env artID priority db =
     (if se_enqueueFails env then db
      else db\<lparr>sd_artwork := EnqueuePreservingBackoff (se_now env)
        [queue_item (k_prefix (aw_Kind artID), aw_ID artID, ImageTypePrimary) priority] (sd_artwork db)\<rparr>)"

definition ArtworkPriorityScan :: int where "ArtworkPriorityScan = 50"
definition requestRecheckAge :: int where "requestRecheckAge = seconds 3600"

definition dangling :: "serve_env \<Rightarrow> ArtworkID \<Rightarrow> serve_db \<Rightarrow> (serve_error + served_image) \<times> serve_db" where
  "dangling env artID db = (Inl ServeUnavailable, serve_enqueue env artID ArtworkPriorityScan db)"

definition entityExists :: "serve_env \<Rightarrow> ArtworkID \<Rightarrow> bool" where
  "entityExists env artID \<longleftrightarrow>
     (if aw_Kind artID \<in> {KindArtistArtwork, KindAlbumArtwork, KindMediaFileArtwork, KindPlaylistArtwork, KindRadioArtwork}
      then se_find env (aw_Kind artID) (aw_ID artID) = Some True
      else if aw_Kind artID = KindDiscArtwork then
        (case ParseDiscArtworkID (aw_ID artID) of Inl _ \<Rightarrow> False | Inr (albumID, n) \<Rightarrow> se_find env KindAlbumArtwork albumID = Some True)
      else False)"

definition serveHash :: "serve_env \<Rightarrow> ArtworkID \<Rightarrow> ItemArtwork \<Rightarrow> int \<Rightarrow> bool \<Rightarrow> serve_db \<Rightarrow> (serve_error + served_image) \<times> serve_db" where
  "serveHash env artID ia sz square db =
     (if \<not> entityExists env artID then (Inl ServeUnavailable, db)
      else if se_imageFails env then (Inl ServeError, db)
      else case id_images (sd_store db) (ia_Hash ia) of
             None \<Rightarrow> dangling env artID db
           | Some r \<Rightarrow>
               (case serveSource env (ia_Hash ia) (ia_Hash ia) (ia_UpdatedAt ia) sz square (openOriginal env ia (im_Mime r) (id_files (sd_store db))) of
                  Inl e \<Rightarrow> dangling env artID db
                | Inr img \<Rightarrow> (Inr img, db)))"

definition unixMtime :: "int \<Rightarrow> Time" where
  "unixMtime mtime = (if mtime \<le> 0 then zero_time else unix_time 0 + mtime)"

definition serveResolution :: "serve_env \<Rightarrow> resolution \<Rightarrow> int \<Rightarrow> bool \<Rightarrow> serve_error + served_image" where
  "serveResolution env res sz square =
     (case rs_data res of
        None \<Rightarrow> Inl ServeUnavailable
      | Some data \<Rightarrow>
          if \<not> se_readable env data then Inl ServeUnavailable
          else serveSource env (se_hash env data) (se_hash env data) (unixMtime (rs_refMtime res)) sz square (Inr data))"

text \<open>An error of a resolution: whether it says that something is not found.\<close>

definition resolve_error :: "serve_env \<Rightarrow> ArtworkID \<Rightarrow> serve_error" where
  "resolve_error env artID = (if se_notFound env (aw_Kind artID) (aw_ID artID) then ServeNotFound else ServeError)"

definition provisional :: "serve_env \<Rightarrow> ArtworkID \<Rightarrow> int \<Rightarrow> bool \<Rightarrow> serve_db \<Rightarrow> (serve_error + served_image) \<times> serve_db" where
  "provisional env artID sz square db =
     (case resolve (se_resolve env) False (queue_item (k_prefix (aw_Kind artID), aw_ID artID, ImageTypePrimary) 0) of
        None \<Rightarrow> (Inl (resolve_error env artID), db)
      | Some res \<Rightarrow> (serveResolution env res sz square, serve_enqueue env artID ArtworkPriorityBump db))"

text \<open>\<open>GetItemArtwork\<close>: an error, or the state if there is one.\<close>

definition item_state :: "serve_env \<Rightarrow> ArtworkID \<Rightarrow> serve_db \<Rightarrow> ItemArtwork option option" where
  "item_state env artID db =
     (if se_stateFails env then None else Some (map_of (id_states (sd_store db)) (k_prefix (aw_Kind artID), aw_ID artID, ImageTypePrimary)))"

definition serveEntity :: "serve_env \<Rightarrow> ArtworkID \<Rightarrow> int \<Rightarrow> bool \<Rightarrow> serve_db \<Rightarrow> (serve_error + served_image) \<times> serve_db" where
  "serveEntity env artID sz square db =
     (case item_state env artID db of
        None \<Rightarrow> (Inl ServeError, db)
      | Some None \<Rightarrow> provisional env artID sz square db
      | Some (Some ia) \<Rightarrow>
          if ia_Hash ia = [] then
            (Inl ServeUnavailable,
             if se_now env - ia_AttemptedAt ia > requestRecheckAge then serve_enqueue env artID ArtworkPriorityBump db else db)
          else serveHash env artID ia sz square db)"

subsection \<open>Discs\<close>

record discArtworkReader =
  dr_album :: art_album
  dr_discNumber :: int
  dr_imgFiles :: "string list"
  dr_discFoldersRel :: "string list"
  dr_isMultiFolder :: bool
  dr_firstTrackRel :: string
  dr_absRoot :: string
  dr_imagesUpdatedAt :: Time

definition TimeNewest :: "Time list \<Rightarrow> Time" where
  "TimeNewest ts = fold (\<lambda>t newest. if t > newest then t else newest) ts zero_time"

definition cacheTime :: "discArtworkReader \<Rightarrow> Time" where
  "cacheTime d = TimeNewest [al_UpdatedAt (dr_album d), al_ImportedAt (dr_album d), dr_imagesUpdatedAt d]"

text \<open>\<open>None\<close>: an error, of the id or of a query. The tracks come in the order of their numbers.\<close>

definition newDiscArtworkReader :: "serve_env \<Rightarrow> string \<Rightarrow> discArtworkReader option" where
  "newDiscArtworkReader env artID =
     (case ParseDiscArtworkID artID of
        Inl _ \<Rightarrow> None
      | Inr (albumID, discNumber) \<Rightarrow>
          (case re_albums (se_resolve env) albumID of
             None \<Rightarrow> None
           | Some al \<Rightarrow>
               (case (loadAlbumFolders (se_resolve env) al, se_discTracks env albumID discNumber, re_libraries (se_resolve env) (al_LibraryID al)) of
                  (Some folders, Some mfs, Some absRoot) \<Rightarrow>
                    let ids = map tk_FolderID mfs;
                        discFolders = filter (\<lambda>f. af_ID f \<in> set ids) (re_folders (se_resolve env))
                    in if ids \<noteq> [] \<and> re_foldersFail (se_resolve env) ids then None
                       else Some \<lparr>dr_album = al, dr_discNumber = discNumber, dr_imgFiles = folderImages folders,
                         dr_discFoldersRel = map folder_rel discFolders, dr_isMultiFolder = (length (al_FolderIDs al) > 1),
                         dr_firstTrackRel = (case filter (\<lambda>t. tk_Path t \<noteq> []) mfs of [] \<Rightarrow> [] | t # _ \<Rightarrow> tk_Path t),
                         dr_absRoot = absRoot,
                         dr_imagesUpdatedAt = TimeNewest (map af_ImagesUpdatedAt (folders @ discFolders))\<rparr>
                | _ \<Rightarrow> None)))"

definition glob_meta :: "char \<Rightarrow> bool" where
  "glob_meta c \<longleftrightarrow> c = CHR ''*'' \<or> c = CHR ''?'' \<or> c = CHR ''[''"

definition extractDiscNumber :: "string \<Rightarrow> string \<Rightarrow> int option" where
  "extractDiscNumber pattern filename =
     (if \<not> list_ex glob_meta pattern then None
      else case cut_prefix filename (takeWhile (\<lambda>c. \<not> glob_meta c) pattern) of
             None \<Rightarrow> None
           | Some rest \<Rightarrow> let digits = takeWhile isDigit rest in if digits = [] then None else atoi digits)"

text \<open>The files of a disc that match, split into those to take at once and the others; an unnumbered one has to be in a folder of the disc.\<close>

datatype disc_file = DiscNumbered | DiscFallback | DiscSkipped

definition disc_file_kind :: "discArtworkReader \<Rightarrow> string \<Rightarrow> string \<Rightarrow> disc_file" where
  "disc_file_kind d pattern file =
     (let name = to_lower (path_base file) in
      if path_match pattern name \<noteq> Some True then DiscSkipped
      else case (if list_ex glob_meta pattern then extractDiscNumber pattern name else None) of
             Some num \<Rightarrow> if num \<noteq> dr_discNumber d then DiscSkipped else DiscNumbered
           | None \<Rightarrow> if dr_isMultiFolder d \<and> path_dir file \<notin> set (dr_discFoldersRel d) then DiscSkipped else DiscFallback)"

definition open_disc_file :: "serve_env \<Rightarrow> discArtworkReader \<Rightarrow> string \<Rightarrow> string option" where
  "open_disc_file env d file = (case re_libOpen (se_resolve env) (dr_absRoot d) file of Opened data \<Rightarrow> Some data | _ \<Rightarrow> None)"

fun first_some :: "('a \<Rightarrow> 'b option) \<Rightarrow> 'a list \<Rightarrow> 'b option" where
  "first_some f [] = None"
| "first_some f (x # xs) = (case f x of Some y \<Rightarrow> Some y | None \<Rightarrow> first_some f xs)"

definition disc_fromExternalFile :: "serve_env \<Rightarrow> discArtworkReader \<Rightarrow> string \<Rightarrow> string option" where
  "disc_fromExternalFile env d pattern =
     (case first_some (open_disc_file env d) (filter (\<lambda>f. disc_file_kind d pattern f = DiscNumbered) (dr_imgFiles d)) of
        Some data \<Rightarrow> Some data
      | None \<Rightarrow> first_some (open_disc_file env d) (filter (\<lambda>f. disc_file_kind d pattern f = DiscFallback) (dr_imgFiles d)))"

definition fromDiscSubtitle :: "serve_env \<Rightarrow> discArtworkReader \<Rightarrow> string \<Rightarrow> string option" where
  "fromDiscSubtitle env d subtitle = first_some (open_disc_file env d) (filter (\<lambda>f. equal_fold (BaseName f) subtitle) (dr_imgFiles d))"

definition disc_subtitle :: "discArtworkReader \<Rightarrow> string" where
  "disc_subtitle d = trim_space (case map_of (al_Discs (dr_album d)) (dr_discNumber d) of None \<Rightarrow> [] | Some t \<Rightarrow> t)"

definition disc_source :: "serve_env \<Rightarrow> discArtworkReader \<Rightarrow> string \<Rightarrow> string option" where
  "disc_source env d pattern =
     (if pattern = ''embedded'' then
        (case (if dr_firstTrackRel d = [] then TagNone else re_tag (se_resolve env) (dr_absRoot d) (dr_firstTrackRel d)) of
           TagImage data \<Rightarrow> Some data
         | _ \<Rightarrow> if dr_firstTrackRel d = [] then None else re_ffmpeg (se_resolve env) (lib_Abs (dr_absRoot d) (dr_firstTrackRel d)))
      else if pattern = ''external'' then None
      else if pattern = ''discsubtitle'' then (if disc_subtitle d \<noteq> [] then fromDiscSubtitle env d (disc_subtitle d) else None)
      else if dr_imgFiles d \<noteq> [] then disc_fromExternalFile env d pattern
      else None)"

definition disc_image :: "serve_env \<Rightarrow> discArtworkReader \<Rightarrow> serve_error + string" where
  "disc_image env d =
     (case first_some (disc_source env d) (priority_patterns (rc_DiscArtPriority (se_cfg env))) of
        None \<Rightarrow> Inl ServeUnavailable | Some data \<Rightarrow> Inr data)"

subsection \<open>Requests\<close>

definition art_id :: "serve_env \<Rightarrow> Kind \<Rightarrow> string \<Rightarrow> ArtworkID" where
  "art_id env kind i = \<lparr>aw_Kind = kind, aw_ID = i, aw_Hash = se_imageHash env kind i, aw_LastUpdate = zero_time\<rparr>"

definition DiscCoverArtID :: "serve_env \<Rightarrow> art_track \<Rightarrow> ArtworkID" where
  "DiscCoverArtID env tk =
     (if tk_DiscNumber tk > 0 then
        \<lparr>aw_Kind = KindDiscArtwork, aw_ID = DiscArtworkID (tk_AlbumID tk) (tk_DiscNumber tk),
         aw_Hash = se_imageHash env KindMediaFileArtwork (tk_ID tk), aw_LastUpdate = zero_time\<rparr>
      else art_id env KindAlbumArtwork (tk_AlbumID tk))"

text \<open>What \<open>Get\<close> does with the size first, and with an album or any other entity.\<close>

definition full_size :: "int \<Rightarrow> int" where
  "full_size sz = (if sz < 0 then 0 else sz)"

definition get_entity :: "serve_env \<Rightarrow> ArtworkID \<Rightarrow> int \<Rightarrow> bool \<Rightarrow> serve_db \<Rightarrow> (serve_error + served_image) \<times> serve_db" where
  "get_entity env artID sz square db =
     (if aw_ID artID = [] then (Inl ServeUnavailable, db) else serveEntity env artID (full_size sz) square db)"

definition disc_key :: "serve_env \<Rightarrow> ArtworkID \<Rightarrow> discArtworkReader \<Rightarrow> string" where
  "disc_key env artID d = aw_ID artID @ ''|'' @ itoa (cacheTime d - unix_time 0) @ ''|'' @ rc_DiscArtPriority (se_cfg env)"

definition serveDisc :: "serve_env \<Rightarrow> ArtworkID \<Rightarrow> int \<Rightarrow> bool \<Rightarrow> serve_db \<Rightarrow> (serve_error + served_image) \<times> serve_db" where
  "serveDisc env artID sz square db =
     (case newDiscArtworkReader env (aw_ID artID) of
        None \<Rightarrow> (Inl (resolve_error env artID), db)
      | Some d \<Rightarrow>
          (case serveSource env (disc_key env artID d) [] (cacheTime d) sz square (disc_image env d) of
             Inr img \<Rightarrow> (Inr img, db)
           | Inl e \<Rightarrow> get_entity env \<lparr>aw_Kind = KindAlbumArtwork, aw_ID = al_ID (dr_album d), aw_Hash = [], aw_LastUpdate = zero_time\<rparr> sz square db))"

text \<open>The fallback of a track: the artwork of its disc, or of its album.\<close>

definition serve_fallback :: "serve_env \<Rightarrow> art_track \<Rightarrow> int \<Rightarrow> bool \<Rightarrow> serve_db \<Rightarrow> (serve_error + served_image) \<times> serve_db" where
  "serve_fallback env tk sz square db =
     (let artID = DiscCoverArtID env tk
      in if aw_Kind artID = KindDiscArtwork then serveDisc env artID sz square db else get_entity env artID sz square db)"

definition provisionalEmbedded :: "serve_env \<Rightarrow> ArtworkID \<Rightarrow> art_track \<Rightarrow> int \<Rightarrow> bool \<Rightarrow> serve_db \<Rightarrow> (serve_error + served_image) \<times> serve_db" where
  "provisionalEmbedded env artID tk sz square db =
     (case re_libraries (se_resolve env) (tk_LibraryID tk) of
        None \<Rightarrow> (Inl (resolve_error env artID), db)
      | Some absRoot \<Rightarrow>
          let db1 = serve_enqueue env artID ArtworkPriorityBump db
          in (case resolveEmbedded (se_resolve env) absRoot (tk_Path tk) of
                Inl _ \<Rightarrow> serve_fallback env tk sz square db1
              | Inr res \<Rightarrow> (serveResolution env res sz square, db1)))"

definition serveMediaFile :: "serve_env \<Rightarrow> ArtworkID \<Rightarrow> int \<Rightarrow> bool \<Rightarrow> serve_db \<Rightarrow> (serve_error + served_image) \<times> serve_db" where
  "serveMediaFile env artID sz square db =
     (let track = re_tracks (se_resolve env) (aw_ID artID) in
      if \<not> rc_EnableMediaFileCoverArt (se_cfg env) then
        (case track of None \<Rightarrow> (Inl (resolve_error env artID), db) | Some tk \<Rightarrow> serve_fallback env tk sz square db)
      else case item_state env artID db of
             None \<Rightarrow> (Inl ServeError, db)
           | Some st \<Rightarrow>
               (case (if st \<noteq> None \<and> ia_Hash (the st) \<noteq> [] then st else None) of
                  Some ia \<Rightarrow> serveHash env artID ia sz square db
                | None \<Rightarrow>
                    (case track of
                       None \<Rightarrow> (Inl (resolve_error env artID), db)
                     | Some tk \<Rightarrow>
                         if st = None \<and> tk_HasCoverArt tk then provisionalEmbedded env artID tk sz square db
                         else serve_fallback env tk sz square db)))"

definition Get_artwork :: "serve_env \<Rightarrow> ArtworkID \<Rightarrow> int \<Rightarrow> bool \<Rightarrow> serve_db \<Rightarrow> (serve_error + served_image) \<times> serve_db" where
  "Get_artwork env artID sz square db =
     (if aw_ID artID = [] then (Inl ServeUnavailable, db)
      else if aw_Kind artID = KindDiscArtwork then serveDisc env artID (full_size sz) square db
      else if aw_Kind artID = KindMediaFileArtwork then serveMediaFile env artID (full_size sz) square db
      else serveEntity env artID (full_size sz) square db)"

fun find_entity :: "serve_env \<Rightarrow> string \<Rightarrow> Kind list \<Rightarrow> serve_error + Kind" where
  "find_entity env i [] = Inl ServeNotFound"
| "find_entity env i (kind # kinds) =
     (case se_find env kind i of
        None \<Rightarrow> Inl ServeError
      | Some found \<Rightarrow> if found then Inr kind else find_entity env i kinds)"

definition CoverArtID :: "serve_env \<Rightarrow> Kind \<Rightarrow> string \<Rightarrow> ArtworkID" where
  "CoverArtID env kind i =
     (case (if kind = KindMediaFileArtwork then re_tracks (se_resolve env) i else None) of
        Some tk \<Rightarrow> if tk_HasCoverArt tk \<and> rc_EnableMediaFileCoverArt (se_cfg env) then art_id env kind i else DiscCoverArtID env tk
      | None \<Rightarrow> art_id env kind i)"

definition parse_artwork_id :: "serve_env \<Rightarrow> string \<Rightarrow> serve_error + ArtworkID" where
  "parse_artwork_id env i =
     (if i = [] then Inl ServeUnavailable
      else case ParseArtworkID i of
             Inr artID \<Rightarrow> Inr artID
           | Inl _ \<Rightarrow> map_sum id (\<lambda>kind. CoverArtID env kind i)
               (find_entity env i [KindArtistArtwork, KindAlbumArtwork, KindPlaylistArtwork, KindMediaFileArtwork, KindRadioArtwork]))"

definition placeholderImage :: "serve_env \<Rightarrow> bool \<Rightarrow> served_image" where
  "placeholderImage env artist =
     \<lparr>sv_data = se_placeholder env (if artist then ''artist-placeholder.webp'' else ''album-placeholder.webp''),
      sv_Hash = [], sv_ETag = [], sv_LastUpdated = zero_time, sv_Placeholder = True\<rparr>"

definition GetOrPlaceholder :: "serve_env \<Rightarrow> string \<Rightarrow> int \<Rightarrow> bool \<Rightarrow> serve_db \<Rightarrow> (serve_error + served_image) \<times> serve_db" where
  "GetOrPlaceholder env i sz square db =
     (case parse_artwork_id env i of
        Inl e \<Rightarrow> (if e = ServeUnavailable then Inr (placeholderImage env False) else Inl e, db)
      | Inr artID \<Rightarrow>
          (case Get_artwork env artID sz square db of
             (Inl ServeUnavailable, db') \<Rightarrow> (Inr (placeholderImage env (aw_Kind artID = KindArtistArtwork)), db')
           | r \<Rightarrow> r))"

subsection \<open>Nothing is forgotten\<close>

definition art_key_of :: "ArtworkID \<Rightarrow> art_key" where
  "art_key_of artID = (k_prefix (aw_Kind artID), aw_ID artID, ImageTypePrimary)"

lemma serve_enqueue_queued:
  assumes "\<not> se_enqueueFails env"
  shows "art_key_of artID \<in> aq_key ` set (ad_queue (sd_artwork (serve_enqueue env artID prio db)))"
proof -
  have "aq_key (new_row t (queue_item (art_key_of artID) p)) = art_key_of artID" for t p by (simp add: art_key_of_def)
  then show ?thesis using assms upsert_row_keys [OF keeps_or_resets(2)]
    by (simp add: serve_enqueue_def EnqueuePreservingBackoff_def art_key_of_def)
qed

text \<open>A view keeps every row of the queue with its attempts and its next try.\<close>

lemma serve_enqueue_grows: "grows (se_now env) (ad_queue (sd_artwork db)) (ad_queue (sd_artwork (serve_enqueue env artID prio db)))"
  by (simp add: serve_enqueue_def enqueue_grows)

lemma serve_enqueue_store [simp]: "sd_store (serve_enqueue env artID prio db) = sd_store db"
  by (simp add: serve_enqueue_def)

text \<open>What every part of a request does to the tables.\<close>

definition only_enqueues :: "serve_env \<Rightarrow> serve_db \<Rightarrow> serve_db \<Rightarrow> bool" where
  "only_enqueues env db db' \<longleftrightarrow> sd_store db' = sd_store db \<and> ad_items (sd_artwork db') = ad_items (sd_artwork db)
     \<and> grows (se_now env) (ad_queue (sd_artwork db)) (ad_queue (sd_artwork db'))"

lemma only_enqueues_refl [simp]: "only_enqueues env db db"
  by (simp add: only_enqueues_def)

lemma only_enqueues_trans: "only_enqueues env a b \<Longrightarrow> only_enqueues env b c \<Longrightarrow> only_enqueues env a c"
  by (auto simp: only_enqueues_def intro: grows_trans)

lemma only_enqueues_enqueue [simp]: "only_enqueues env db (serve_enqueue env artID prio db)"
  by (simp add: only_enqueues_def serve_enqueue_grows) (simp add: serve_enqueue_def EnqueuePreservingBackoff_def)

lemma only_enqueues_serveHash: "only_enqueues env db (snd (serveHash env artID ia sz square db))"
  by (simp add: serveHash_def dangling_def split: option.splits sum.splits)

lemma only_enqueues_entity: "only_enqueues env db (snd (serveEntity env artID sz square db))"
  by (simp add: serveEntity_def provisional_def only_enqueues_serveHash split: option.splits)

lemma only_enqueues_get_entity: "only_enqueues env db (snd (get_entity env artID sz square db))"
  by (simp add: get_entity_def only_enqueues_entity)

lemma only_enqueues_disc: "only_enqueues env db (snd (serveDisc env artID sz square db))"
  by (simp add: serveDisc_def only_enqueues_get_entity split: option.splits sum.splits)

lemma only_enqueues_fallback: "only_enqueues env db (snd (serve_fallback env tk sz square db))"
  by (simp add: serve_fallback_def Let_def only_enqueues_disc only_enqueues_get_entity)

lemma only_enqueues_embedded: "only_enqueues env db (snd (provisionalEmbedded env artID tk sz square db))"
  using only_enqueues_trans [OF only_enqueues_enqueue only_enqueues_fallback]
  by (simp add: provisionalEmbedded_def Let_def split: option.splits sum.splits)

lemma only_enqueues_mediaFile: "only_enqueues env db (snd (serveMediaFile env artID sz square db))"
  by (auto simp: serveMediaFile_def Let_def only_enqueues_serveHash only_enqueues_fallback only_enqueues_embedded split: option.splits)

lemma only_enqueues_Get: "only_enqueues env db (snd (Get_artwork env artID sz square db))"
  by (simp add: Get_artwork_def only_enqueues_disc only_enqueues_mediaFile only_enqueues_entity)

text \<open>A request for artwork changes nothing but the queue, where it keeps every row with its attempts and its next try. When it
  answers that an existing album, artist, playlist or radio has no artwork to show, then the item is in the queue, or a record that
  it has none is not older than an hour.\<close>

theorem unavailable_artwork_is_queued:
  assumes "Get_artwork env artID sz square db = (Inl ServeUnavailable, db')"
    and "aw_Kind artID \<in> {KindAlbumArtwork, KindArtistArtwork, KindPlaylistArtwork, KindRadioArtwork}" "aw_ID artID \<noteq> []"
    and "se_find env (aw_Kind artID) (aw_ID artID) = Some True" "\<not> se_enqueueFails env"
  shows "only_enqueues env db db' \<and>
    (art_key_of artID \<in> aq_key ` set (ad_queue (sd_artwork db'))
     \<or> (\<exists>ia. map_of (id_states (sd_store db)) (art_key_of artID) = Some ia \<and> ia_Hash ia = [] \<and> se_now env - ia_AttemptedAt ia \<le> requestRecheckAge))"
proof -
  have kinds: "aw_Kind artID \<noteq> KindDiscArtwork" "aw_Kind artID \<noteq> KindMediaFileArtwork" using assms(2) by (auto simp: kind_defs)
  have get: "serveEntity env artID (full_size sz) square db = (Inl ServeUnavailable, db')"
    using assms(1,3) kinds by (simp add: Get_artwork_def)
  have exists: "entityExists env artID" using assms(2,4) by (auto simp: entityExists_def)
  note queued = serve_enqueue_queued [OF assms(5)]
  have hash: "art_key_of artID \<in> aq_key ` set (ad_queue (sd_artwork db'))" if "serveHash env artID ia n square db = (Inl ServeUnavailable, db')" for ia n
    using that exists queued by (auto simp: serveHash_def dangling_def split: if_splits option.splits sum.splits)
  have prov: "art_key_of artID \<in> aq_key ` set (ad_queue (sd_artwork db'))" if "provisional env artID n square db = (Inl ServeUnavailable, db')" for n
    using that queued by (auto simp: provisional_def resolve_error_def split: option.splits if_splits)
  have "only_enqueues env db db'" using only_enqueues_Get [of env db artID sz square] assms(1) by simp
  moreover have "art_key_of artID \<in> aq_key ` set (ad_queue (sd_artwork db'))
     \<or> (\<exists>ia. map_of (id_states (sd_store db)) (art_key_of artID) = Some ia \<and> ia_Hash ia = [] \<and> se_now env - ia_AttemptedAt ia \<le> requestRecheckAge)"
    using get hash prov queued [of artID ArtworkPriorityBump db]
    by (auto simp: serveEntity_def item_state_def art_key_of_def split: option.splits if_splits)
  ultimately show ?thesis by blast
qed

text \<open>A bytes-for-bytes answer of an image with a state is the image of that state: it carries its hash, and comes from the store
  under this hash or from the file it was found in, unchanged since.\<close>

lemma served_original:
  assumes "serveHash env artID ia 0 False db = (Inr img, db')"
  shows "sv_Hash img = ia_Hash ia \<and> (if isFileBacked (ia_Source ia)
      then re_open (se_resolve env) (ia_SourcePath ia) = Opened (sv_data img) \<and> (ia_RefMtime ia = 0 \<or> se_mtime env (ia_SourcePath ia) = Some (ia_RefMtime ia))
      else \<exists>r. id_images (sd_store db) (ia_Hash ia) = Some r \<and> sv_data img = se_storeData env (ia_Hash ia) (im_Mime r))"
  using assms by (auto simp: serveHash_def dangling_def serveSource_def openOriginal_def split: if_splits option.splits sum.splits opened.splits)

subsection \<open>An example\<close>

definition example_serve_env :: "string list \<Rightarrow> serve_env" where
  "example_serve_env imgs = \<lparr>se_now = 100, se_resolve = example_resolve_env imgs TagNone, se_find = (\<lambda>kind i. Some (kind = KindAlbumArtwork \<and> i = ''a1'')),
     se_imageHash = (\<lambda>_ _. []), se_notFound = (\<lambda>_ _. True), se_stateFails = False, se_imageFails = False, se_enqueueFails = False,
     se_mtime = (\<lambda>_. Some 7), se_storeData = (\<lambda>_ _. ''png''), se_readable = (\<lambda>_. True), se_hash = (\<lambda>x. x), se_cached = (\<lambda>_ _ _. None),
     se_resize = (\<lambda>d _ _. Some d), se_formatTag = ''q75'', se_discTracks = (\<lambda>_ _. Some []), se_placeholder = (\<lambda>p. p)\<rparr>"

definition example_serve_db :: serve_db where
  "example_serve_db = \<lparr>sd_store = \<lparr>id_files = (\<lambda>_. None), id_images = (\<lambda>_. None), id_states = []\<rparr>,
     sd_artwork = \<lparr>ad_queue = [], ad_items = (\<lambda>_. None), ad_images = []\<rparr>\<rparr>"

lemma example_requests:
  "map_sum id sv_data (fst (GetOrPlaceholder (example_serve_env [''cover.jpg'']) ''al-a1'' 0 False example_serve_db)) = Inr ''png''"
  "map_sum id sv_Placeholder (fst (GetOrPlaceholder (example_serve_env []) ''a1'' 0 False example_serve_db)) = Inr True"
  "map_sum id sv_Placeholder (fst (GetOrPlaceholder (example_serve_env []) ''a2'' 0 False example_serve_db)) = Inl ServeNotFound"
  by code_simp+

theorem unavailable_artwork_is_queued_witness:
  "\<exists>db'. Get_artwork (example_serve_env []) (art_id (example_serve_env []) KindAlbumArtwork ''a1'') 300 True example_serve_db = (Inl ServeUnavailable, db')
    \<and> (''al'', ''a1'', ''primary'') \<in> aq_key ` set (ad_queue (sd_artwork db'))"
proof -
  let ?env = "example_serve_env []"
  let ?id = "art_id ?env KindAlbumArtwork ''a1''"
  have "(case fst (Get_artwork ?env ?id 300 True example_serve_db) of Inl e \<Rightarrow> e = ServeUnavailable | Inr _ \<Rightarrow> False)" by code_simp
  then obtain db' where get: "Get_artwork ?env ?id 300 True example_serve_db = (Inl ServeUnavailable, db')"
    by (cases "Get_artwork ?env ?id 300 True example_serve_db") (auto split: sum.splits)
  have "art_key_of ?id \<in> aq_key ` set (ad_queue (sd_artwork db'))"
    using unavailable_artwork_is_queued [OF get]
    by (simp add: art_id_def example_serve_env_def example_serve_db_def)
  then show ?thesis using get by (simp add: art_key_of_def art_id_def ImageTypePrimary_def kind_defs)
qed

end
