(* ===== verification/Spec2Isabelle.thy ===== *)
theory Spec2Isabelle
  imports Go_Path Stream_Decision Stream_Legacy Stream_Token Media_Streamer Playback_Device Play_Tracker Throttle
    Breaker Artwork_Id M3u_Import Kv_Store Task_Queue
    Playlist_Service File_Haunter Music_Workers Smart_Refresh
    Scan_Missing Quick_Pick_Views Radio_Composition Song_Matcher Artwork_Serve
begin

text \<open>
  A model of the core of Navidrome, a music server written in Go. Clients ask it for songs (streamed as
  they are or transcoded), keep playlists, report what they play, and drive a jukebox; plugins get
  a store and a task queue. The development follows these paths through \<open>core/\<close>,
  \<open>persistence/\<close>, \<open>model/\<close>, \<open>server/\<close> and \<open>plugins/\<close>.

  \<^bold>\<open>Shared theories.\<close> \<open>Prelude\<close> holds the collections \<open>go_simps\<close>, \<open>inv_defs\<close> and \<open>step_defs\<close> and the part of the Go
  library that the code uses (strings, numerals, time, slices); \<open>Go_Path\<close> is \<open>path.Clean\<close> and
  \<open>filepath.Join\<close>; \<open>Go_Slices\<close> is \<open>utils/slice\<close> (lines, chunks, grouping, most frequent element, moving).
  \<open>Str_Utils\<close> is \<open>utils/str\<close> with the directory and glob functions of \<open>filepath\<close>, \<open>Natural_Order\<close> is \<open>utils/natural\<close>; \<open>Float32\<close> is
  the rounding of a \<open>float32\<close>, and \<open>Json_Text\<close> what \<open>encoding/json\<close> reads in a text.
  \<open>Media_File\<close> and \<open>Playlist_Model\<close> are the records of \<open>model/\<close> with their own operations.
  Three theories state interfaces as locales: \<open>Slots\<close> (a bounded number of slots taken and given back),
  \<open>Refinement\<close> (a component whose calls answer like those of a specification, from one call to
  histories of calls, with or without a precondition), and, inside the components that need them,
  \<open>transcoding_store\<close> and \<open>scrobble_queue\<close> with \<open>drainer\<close>. Each is interpreted on the model of the code that
  provides it: the limiter and the throttle (\<open>slot_system\<close>), the transcoding table, the scrobble buffer, the
  key-value store (\<open>refined\<close>) and the playlist tracks (\<open>refined_when\<close>).

  \<^bold>\<open>Streaming\<close> (\<open>core/stream\<close>). \<open>Stream_Codec\<close> is \<open>codec.go\<close> and \<open>aliases.go\<close>; \<open>Stream_Types\<close> is \<open>types.go\<close> and
  \<open>limitations.go\<close>; \<open>Transcoding_Repo\<close> is the table of transcoding commands
  (\<open>persistence/transcoding_repository.go\<close>); \<open>Stream_Decider\<close> is \<open>decider.go\<close>, from the probe of a file to
  the decision, and \<open>Stream_Decision\<close> its properties; \<open>Stream_Legacy\<close> is \<open>legacy_client.go\<close>;
  \<open>Auth_Claims\<close> is \<open>core/auth\<close>, and \<open>Stream_Token\<close> (\<open>token.go\<close>) carries a decision in a token;
  \<open>Stream_Limiter\<close> (\<open>limiter.go\<close>) and \<open>Media_Streamer\<close> (\<open>media_streamer.go\<close>) run the transcodes. The theorems: a decision
  is complete; a transcoded stream has the bitrate the code computes from source, profile and client, stays within them except
  where the code does not look (\<open>lossy_exceeds_transcoding_limit\<close>), and honours the limitations of its codec; tokens and claims survive their
  round trips and expire; however requests interleave, the caps on transcodes hold, no request is
  stuck and every slot comes back.

  \<^bold>\<open>Playing\<close>. \<open>Playback_Queue\<close> and \<open>Playback_Device\<close> are the jukebox (\<open>core/playback\<close>): no command panics,
  and the index stays a position of the queue (or 0 or -1 when there is none). \<open>Play_Counts\<close>, \<open>Scrobble_Buffer\<close> and \<open>Play_Tracker\<close> are \<open>core/scrobbler\<close> with its
  tables: sessions are not confused by late reports, a play is counted exactly at the threshold, and buffered
  scrobbles are delivered in order, each kept until it is delivered.

  \<^bold>\<open>Playlists\<close>. \<open>M3u_Paths\<close> and \<open>M3u_Import\<close> are \<open>core/playlists/parse_m3u.go\<close> with the readers and the query it
  uses: importing an export gives the playlist back, and a line belongs to the innermost library that holds it.
  \<open>Playlist_Tracks\<close> is the table of tracks (\<open>persistence/playlist_track_repository.go\<close> and the statements of
  \<open>playlist_repository.go\<close>), down to the unique index that SQLite checks row by row; it refines
  lists of entries, with counters as precise as the \<open>float32\<close> they are read into. \<open>Playlist_Service\<close> is \<open>core/playlists\<close> on top of it (\<open>playlists.go\<close>, \<open>rest_adapter.go\<close>,
  \<open>liked_music.go\<close>, \<open>hometube.go\<close>, the update of \<open>import.go\<close>): users do not touch each other's playlists, each refused
  request has its error, and an owner's update does what it says.

  \<^bold>\<open>Server and plugins\<close>. \<open>Throttle\<close> is \<open>server/throttle_backlog.go\<close>; \<open>Breaker\<close> is \<open>core/artwork/gate.go\<close>, the circuit
  breaker in front of external agents; \<open>Artwork_Id\<close> is \<open>model/artwork_id.go\<close>. \<open>Kv_Store\<close>
  (\<open>plugins/host_kvstore.go\<close>) refines a bounded map with expiry, for prefixes that need no attention to case, which the code
  matches without regard to case; \<open>Task_Queue\<close> (\<open>plugins/host_taskqueue.go\<close>) is a step relation
  of calls, workers, shutdowns and crashes with the safety of its claims and the end of failing tasks.
  \<open>File_Haunter\<close> (\<open>utils/cache/file_haunter.go\<close>) removes the oldest files of a disk cache until the others are within its limits.

  \<^bold>\<open>Music downloads and search\<close> (\<open>core/music\<close>). \<open>Edit_Distance\<close> is the fuzzy match of the search, proved against what an edit is;
  \<open>Music_Search\<close> is \<open>search_ranker.go\<close>: duplicates are merged without loss, and results come by how well they match;
  \<open>Music_Library\<close> is \<open>library_search.go\<close>, which labels what the library already has. \<open>Music_Jobs\<close> is the table of download
  jobs (\<open>persistence/music_download_job_repository.go\<close>), \<open>Music_Service\<close> the requests and runs of \<open>service.go\<close>, and
  \<open>Music_Workers\<close> a step relation of requests, workers and restarts: no job is carried out twice at a time, a finished one stays
  finished, and a restart loses none. \<open>Song_Matcher\<close> (\<open>core/matcher\<close>) finds the files of songs that agents name: by their ids first,
  else the track of the artists with the best title.

  \<^bold>\<open>Artwork\<close> (\<open>core/artwork\<close>). \<open>Artwork_Queue\<close> is the queue of items that need artwork (\<open>persistence/artwork_queue_repository.go\<close>),
  its worker (\<open>worker.go\<close>, \<open>processor.go\<close>) and its housekeeping, as a step relation: no request is lost, and a row is tried at
  most nine times. \<open>Artwork_Store\<close> is the store of images (\<open>image_store.go\<close>, \<open>prune.go\<close>, \<open>artwork_repository.go\<close>), with
  acquisitions, prunes and crashes interleaved: an item never refers to an image that is gone. \<open>Artwork_Resolve\<close> is \<open>resolve.go\<close> with the
  sources it walks through: folders, embedded images, agents, YouTube and the tiles of a playlist. \<open>Artwork_Serve\<close> is \<open>artwork.go\<close> and
  \<open>disc.go\<close>, which answer a request: it changes nothing but the queue.

  \<^bold>\<open>Smart playlists\<close>. \<open>Go_Duration\<close> is \<open>utils/time.go\<close> over the text form of \<open>time.Duration\<close>. \<open>Smart_Criteria\<close> is \<open>model/criteria\<close>: rules,
  fields, limits, sorting, and JSON documents, which read back what was read and written unless the name of a field
  needs an escape: the code writes it as it is. \<open>Smart_Sql\<close> is \<open>persistence/criteria_sql.go\<close>: the
  condition that a tree of rules compiles to holds of the rows on which the rules hold (\<open>sat\<close>), and only names
  tables that the query joins. \<open>Smart_Refresh\<close> is \<open>persistence/smart_playlist_repository.go\<close> over the tables of \<open>Playlist_Tracks\<close>: what a
  refresh writes, that it ends when the references have no cycle, and that it does not when a playlist names itself.

  \<^bold>\<open>Scanner\<close>. \<open>Scan_Missing\<close> is \<open>scanner/phase_2_missing_tracks.go\<close> over the table of media files: files that are gone are paired with
  files that are new, which take over their identity. No place is lost or doubled, and a missing file keeps its id and its date.

  \<^bold>\<open>Quick Pick\<close> (\<open>core/quickpick\<close>). \<open>Quick_Pick\<close> is \<open>composition.go\<close>, which lays out the grid of songs on the start page, and
  \<open>Quick_Pick_Views\<close> the tables of what was shown and clicked (\<open>persistence/quick_pick_metrics_repository.go\<close>), the recall of songs and the
  service. Displays count once, clicked songs come back, and the discovery row repeats unclicked ones last.

  \<^bold>\<open>Personal radio\<close>. \<open>Radio_Feedback\<close> is what feedback of a listener does (\<open>persistence/personal_radio_feedback.go\<close> with the
  statements of \<open>personal_radio_repository.go\<close>): to the item, to the counts of its track and of the transition to it, and to the
  temporary download behind it. \<open>Radio_Composition\<close> is \<open>composition.go\<close> and the composition of \<open>related.go\<close> (\<open>core/personalradio\<close>):
  which ranked candidates fill the queue. Requests count once, no outcome is counted more often than a transition was
  tried, and the share of discoveries in the queue is the one of its mode.

  \<^bold>\<open>How state and effects are modelled\<close>. A struct is a record with the names of its fields behind a prefix, a table
  a list of rows in the order of their row ids (or a map where only the key matters), an error a
  value. Code that several goroutines run is a step relation or a program counter per thread whose steps are
  the atomic actions of the source: a critical section, a channel operation, an SQL statement.
  Loops are structural recursion or have a measure; only the reader of JSON text has fuel, as many levels as there are
  tokens, which \<open>read_written\<close> shows to be enough; and the refresh of smart playlists, which the
  code does not bound, is a \<open>partial_function\<close>. Numbers are unbounded where the
  code cannot reach its limits, and are kept at their width where it can (the shift of the retry delay, the
  32 bits of a scanned position, \<open>strconv\<close>). Floating-point numbers are exact rationals, except for the counters of a playlist, which the
  code reads into a \<open>float32\<close>. Text is taken to be valid UTF-8. Case
  folding is that of ASCII.

  \<^bold>\<open>What is a parameter\<close>. Clocks, random numbers and fresh identifiers; the signature of tokens (a token decodes
  to the claims it was made from, and only with its key); JSON of probe results; ffmpeg and ffprobe; the mpv
  track; the caches of streams and of sessions, by their laws; the hash of a media file and the scores of recommendations; Unicode normalisation (the import assumes of it
  that it is a function); MIME types; the outcome of calls to external services and plugins. What is assumed of
  one is an assumption of the theorems that use it, and their witnesses instantiate it.

  \<^bold>\<open>Not modelled\<close>. The web interface; HTTP routing, parsing and rendering of the APIs; SQL beyond the statements
  above (queries for listing and searching, full-text search, migrations); the walking of folders and the import of tags by the
  scanner; lyrics; the decoding, resizing and encoding of images, whose results are parameters of the artwork theories, and the HTTP clients of external services; the scores of recommendations, which are
  floating-point formulas, and the background planning of the radio; configuration, logging and
  the WebAssembly runtime of plugins. They are input and output around the modelled parts, or behaviour of
  libraries whose code is not part of the repository.

  \<^bold>\<open>What could come next\<close>. The caches on disk and in memory (\<open>utils/cache\<close>), lyrics (\<open>model/lyrics\<close>), the planning of the radio around the composition modelled here, and the shares.
\<close>

end
